(* ===== verification/Prelude.thy ===== *)
theory Prelude
  imports Main "HOL-Library.Word"
begin

text \<open>
  Shared vocabulary of the development: machine integers, the error type of
  \<^verbatim>\<open>src/error.rs\<close> and the result monad that stands for Rust's \<^verbatim>\<open>?\<close> operator,
  checked slice accesses, and little-endian byte strings with their round trips.

  Conventions. \<^verbatim>\<open>u8\<close> to \<^verbatim>\<open>u64\<close> are words of their width. A \<^verbatim>\<open>usize\<close> is a
  \<open>nat\<close>; where a value read from storage enters a sum, the 64-bit overflow is written
  out with \<open>usize_add\<close>. A Rust panic (index out of range, overflow check) is the
  error value \<open>Panic\<close>. The text carried by an error is the source's format string,
  without the interpolated arguments.
\<close>

unbundle bit_operations_syntax

type_synonym u8 = "8 word"
type_synonym u16 = "16 word"
type_synonym u32 = "32 word"
type_synonym u64 = "64 word"
type_synonym bytes = "8 word list"
type_synonym page_id = "32 word"

named_theorems result_simps \<open>evaluation of the result monad\<close>
named_theorems byte_simps \<open>lengths and round trips of byte strings\<close>

section \<open>Errors and results\<close>

datatype error =
    Io string
  | InvalidMagic
  | UnsupportedFormat u16
  | InvalidPageSize u16
  | PageCorrupted u32 u32 u32
  | PageNotFound u32
  | SqlSyntax string
  | TableExists string
  | TableNotFound string
  | ColumnNotFound string
  | DimensionMismatch nat nat
  | DecryptionFailed u32
  | EncryptedDatabase
  | TransactionError string
  | Corrupted string
  | ConstraintViolation string
  | Busy string
  | Serialization string
  | DecisionError string
  | Internal string
  | Panic

type_synonym 'a result = "error + 'a"

definition bind_r :: "'e + 'a \<Rightarrow> ('a \<Rightarrow> 'e + 'b) \<Rightarrow> 'e + 'b" where
  "bind_r m f = (case m of Inl e \<Rightarrow> Inl e | Inr x \<Rightarrow> f x)"

lemma bind_r_Inl [simp, result_simps]: "bind_r (Inl e) f = Inl e"
  by (simp add: bind_r_def)

lemma bind_r_Inr [simp, result_simps]: "bind_r (Inr x) f = f x"
  by (simp add: bind_r_def)

lemma bind_r_eq_Inr [result_simps]:
  "bind_r m f = Inr y \<longleftrightarrow> (\<exists>x. m = Inr x \<and> f x = Inr y)"
  by (cases m) auto

lemma bind_r_eq_Inl [result_simps]:
  "bind_r m f = Inl e \<longleftrightarrow> m = Inl e \<or> (\<exists>x. m = Inr x \<and> f x = Inl e)"
  by (cases m) auto

lemma bind_r_assoc: "bind_r (bind_r m f) g = bind_r m (\<lambda>x. bind_r (f x) g)"
  by (cases m) auto

lemma bind_r_cong [fundef_cong]:
  "m = m' \<Longrightarrow> (\<And>x. m' = Inr x \<Longrightarrow> f x = g x) \<Longrightarrow> bind_r m f = bind_r m' g"
  by (cases m') auto

definition is_ok :: "'e + 'a \<Rightarrow> bool" where
  "is_ok r = (case r of Inl _ \<Rightarrow> False | Inr _ \<Rightarrow> True)"

lemma is_ok_simps [simp]: "is_ok (Inr x)" "\<not> is_ok (Inl e)"
  by (simp_all add: is_ok_def)

lemma is_ok_iff: "is_ok r \<longleftrightarrow> (\<exists>x. r = Inr x)"
  by (cases r) auto

definition ok_or :: "'e \<Rightarrow> 'a option \<Rightarrow> 'e + 'a" where
  "ok_or e x = (case x of None \<Rightarrow> Inl e | Some v \<Rightarrow> Inr v)"

lemma ok_or_simps [simp]: "ok_or e None = Inl e" "ok_or e (Some v) = Inr v"
  by (simp_all add: ok_or_def)

lemma ok_or_eq_Inr [result_simps]: "ok_or e x = Inr v \<longleftrightarrow> x = Some v"
  by (cases x) auto

fun fold_r :: "('a \<Rightarrow> 's \<Rightarrow> 'e + 's) \<Rightarrow> 'a list \<Rightarrow> 's \<Rightarrow> 'e + 's" where
  "fold_r f [] s = Inr s"
| "fold_r f (x # xs) s = bind_r (f x s) (fold_r f xs)"

lemma fold_r_append: "fold_r f (xs @ ys) s = bind_r (fold_r f xs s) (fold_r f ys)"
  by (induction xs arbitrary: s) (simp_all add: bind_r_def split: sum.splits)

fun map_r :: "('a \<Rightarrow> 'e + 'b) \<Rightarrow> 'a list \<Rightarrow> 'e + 'b list" where
  "map_r f [] = Inr []"
| "map_r f (x # xs) = bind_r (f x) (\<lambda>y. bind_r (map_r f xs) (\<lambda>ys. Inr (y # ys)))"

lemma map_r_Inr_iff:
  "map_r f xs = Inr ys \<longleftrightarrow> list_all2 (\<lambda>x y. f x = Inr y) xs ys"
  by (induction xs arbitrary: ys) (auto simp: result_simps list_all2_Cons1)

lemma map_r_all_ok: "(\<And>x. x \<in> set xs \<Longrightarrow> f x = Inr (g x)) \<Longrightarrow> map_r f xs = Inr (map g xs)"
  by (induction xs) auto

lemma map_r_cong:
  "(\<And>x. x \<in> set xs \<Longrightarrow> f x = g x) \<Longrightarrow> map_r f xs = map_r g xs"
  by (induction xs) auto

lemma map_r_append:
  "map_r f (xs @ ys) = bind_r (map_r f xs) (\<lambda>us. bind_r (map_r f ys) (\<lambda>vs. Inr (us @ vs)))"
  by (induction xs) (auto simp: bind_r_def split: sum.splits)

lemma map_r_length: "map_r f xs = Inr ys \<Longrightarrow> length ys = length xs"
  by (simp add: map_r_Inr_iff list_all2_lengthD)

section \<open>Checked slices\<close>

definition usize_add :: "nat \<Rightarrow> nat \<Rightarrow> nat result" where
  "usize_add a b = (if a + b < 2 ^ 64 then Inr (a + b) else Inl Panic)"

definition index_r :: "'a list \<Rightarrow> nat \<Rightarrow> 'a result" where
  "index_r xs i = (if i < length xs then Inr (xs ! i) else Inl Panic)"

definition from_r :: "'a list \<Rightarrow> nat \<Rightarrow> 'a list result" where
  "from_r xs a = (if a \<le> length xs then Inr (drop a xs) else Inl Panic)"

definition slice_r :: "'a list \<Rightarrow> nat \<Rightarrow> nat \<Rightarrow> 'a list result" where
  "slice_r xs a b = (if a \<le> b \<and> b \<le> length xs then Inr (take (b - a) (drop a xs)) else Inl Panic)"

definition splice :: "'a list \<Rightarrow> nat \<Rightarrow> 'a list \<Rightarrow> 'a list" where
  "splice xs off ys = take off xs @ ys @ drop (off + length ys) xs"

definition put_r :: "'a list \<Rightarrow> nat \<Rightarrow> 'a list \<Rightarrow> 'a list result" where
  "put_r xs off ys = (if off + length ys \<le> length xs then Inr (splice xs off ys) else Inl Panic)"

lemma length_splice [simp]:
  "off + length ys \<le> length xs \<Longrightarrow> length (splice xs off ys) = length xs"
  by (simp add: splice_def)

lemma put_r_Inr [result_simps]:
  "put_r xs off ys = Inr zs \<longleftrightarrow> off + length ys \<le> length xs \<and> zs = splice xs off ys"
  by (auto simp: put_r_def)

lemma take_splice_before: "n \<le> off \<Longrightarrow> off \<le> length xs \<Longrightarrow> take n (splice xs off ys) = take n xs"
  by (simp add: splice_def min_absorb1)

lemma drop_splice_after:
  "off + length ys \<le> n \<Longrightarrow> off \<le> length xs \<Longrightarrow> drop n (splice xs off ys) = drop n xs"
  by (simp add: splice_def min_absorb2)

lemma drop_splice_at:
  "off \<le> length xs \<Longrightarrow> drop off (splice xs off ys) = ys @ drop (off + length ys) xs"
  by (simp add: splice_def min_absorb2)

lemma slice_splice_at:
  "off \<le> length xs \<Longrightarrow> take (length ys) (drop off (splice xs off ys)) = ys"
  by (simp add: drop_splice_at)

lemma slice_splice_before:
  "i + n \<le> off \<Longrightarrow> off \<le> length xs \<Longrightarrow> take n (drop i (splice xs off ys)) = take n (drop i xs)"
  by (simp add: splice_def take_drop min_absorb1)

lemma slice_splice_after:
  "off + length ys \<le> i \<Longrightarrow> off \<le> length xs \<Longrightarrow>
   take n (drop i (splice xs off ys)) = take n (drop i xs)"
  by (simp add: drop_splice_after)

lemma splice_Nil [simp]: "splice xs off [] = xs"
  by (simp add: splice_def)

lemma nth_splice:
  "off + length ys \<le> length xs \<Longrightarrow> i < length xs \<Longrightarrow>
   splice xs off ys ! i = (if off \<le> i \<and> i < off + length ys then ys ! (i - off) else xs ! i)"
  by (auto simp: splice_def nth_append min_absorb2)

section \<open>Masks of the continuation bit\<close>

lemma mask7: "(0x7F :: 'a::len word) = mask 7"
  by (simp add: mask_eq_exp_minus_1)

lemma bit_0x80: "bit (0x80 :: u8) n \<longleftrightarrow> n = 7"
  using bit_exp_iff [of 7 n, where ?'a = u8] by auto

lemma bit_128_int: "bit (128 :: int) n \<longleftrightarrow> n = 7"
  using bit_exp_iff [of 7 n, where ?'a = int] by auto

section \<open>Little-endian byte strings\<close>

fun nat_to_le :: "nat \<Rightarrow> nat \<Rightarrow> bytes" where
  "nat_to_le 0 x = []"
| "nat_to_le (Suc n) x = word_of_nat (x mod 256) # nat_to_le n (x div 256)"

fun le_to_nat :: "bytes \<Rightarrow> nat" where
  "le_to_nat [] = 0"
| "le_to_nat (b # bs) = unat b + 256 * le_to_nat bs"

lemma unat_u8 [simp]: "unat (b :: u8) < 256"
  using unsigned_less [of b] by simp

lemma unat_u16 [simp]: "unat (w :: u16) < 65536"
  using unsigned_less [of w] by simp

lemma unat_u32 [simp]: "unat (w :: u32) < 4294967296"
  using unsigned_less [of w] by simp

lemma unat_u64 [simp]: "unat (w :: u64) < 18446744073709551616"
  using unsigned_less [of w] by simp

lemma length_nat_to_le [simp, byte_simps]: "length (nat_to_le n x) = n"
  by (induction n arbitrary: x) auto

lemma unat_byte: "unat (word_of_nat (x mod 256) :: u8) = x mod 256"
  by (simp add: unat_of_nat)

lemma le_to_nat_to_le [byte_simps]: "le_to_nat (nat_to_le n x) = x mod 256 ^ n"
proof (induction n arbitrary: x)
  case (Suc n)
  have "x mod 256 ^ Suc n = x mod 256 + 256 * ((x div 256) mod 256 ^ n)"
    by (simp add: mod_mult2_eq)
  then show ?case using Suc by (simp add: unat_byte)
qed simp

lemma le_to_nat_bound: "le_to_nat bs < 256 ^ length bs"
proof (induction bs)
  case (Cons b bs)
  have "256 * le_to_nat bs + 256 \<le> 256 * 256 ^ length bs"
    using Cons by simp
  then show ?case
    using unat_u8 [of b] unfolding le_to_nat.simps list.size(4) One_nat_def add_0_right
      add_Suc_right power_Suc by linarith
qed simp

lemma nat_to_le_to_nat: "nat_to_le (length bs) (le_to_nat bs) = bs"
proof (induction bs)
  case (Cons b bs)
  have "unat b < 256" by simp
  then show ?case using Cons by simp
qed simp

definition to_le16 :: "u16 \<Rightarrow> bytes" where "to_le16 w = nat_to_le 2 (unat w)"
definition to_le32 :: "u32 \<Rightarrow> bytes" where "to_le32 w = nat_to_le 4 (unat w)"
definition to_le64 :: "u64 \<Rightarrow> bytes" where "to_le64 w = nat_to_le 8 (unat w)"
definition from_le16 :: "bytes \<Rightarrow> u16" where "from_le16 bs = word_of_nat (le_to_nat bs)"
definition from_le32 :: "bytes \<Rightarrow> u32" where "from_le32 bs = word_of_nat (le_to_nat bs)"
definition from_le64 :: "bytes \<Rightarrow> u64" where "from_le64 bs = word_of_nat (le_to_nat bs)"

lemma length_to_le [simp, byte_simps]:
  "length (to_le16 w) = 2" "length (to_le32 x) = 4" "length (to_le64 y) = 8"
  by (simp_all add: to_le16_def to_le32_def to_le64_def)

lemma from_to_le16 [simp, byte_simps]: "from_le16 (to_le16 w) = w"
  by (simp add: from_le16_def to_le16_def le_to_nat_to_le)

lemma from_to_le32 [simp, byte_simps]: "from_le32 (to_le32 w) = w"
  by (simp add: from_le32_def to_le32_def le_to_nat_to_le)

lemma from_to_le64 [simp, byte_simps]: "from_le64 (to_le64 w) = w"
  by (simp add: from_le64_def to_le64_def le_to_nat_to_le)

lemma to_from_le:
  "length bs = 2 \<Longrightarrow> to_le16 (from_le16 bs) = bs"
  "length bs = 4 \<Longrightarrow> to_le32 (from_le32 bs) = bs"
  "length bs = 8 \<Longrightarrow> to_le64 (from_le64 bs) = bs"
  using le_to_nat_bound [of bs] nat_to_le_to_nat [of bs]
  by (simp_all add: to_le16_def from_le16_def to_le32_def from_le32_def to_le64_def
        from_le64_def unat_of_nat)

definition u16_at :: "bytes \<Rightarrow> nat \<Rightarrow> u16" where "u16_at bs i = from_le16 (take 2 (drop i bs))"
definition u32_at :: "bytes \<Rightarrow> nat \<Rightarrow> u32" where "u32_at bs i = from_le32 (take 4 (drop i bs))"
definition u64_at :: "bytes \<Rightarrow> nat \<Rightarrow> u64" where "u64_at bs i = from_le64 (take 8 (drop i bs))"

lemma drop_append_len: "n = length xs + k \<Longrightarrow> drop n (xs @ ys) = drop k ys"
  by simp

lemma drop_eq_imp_take_drop:
  "drop n xs = drop n ys \<Longrightarrow> n \<le> i \<Longrightarrow> drop i xs = drop i ys"
  by (metis drop_drop le_add_diff_inverse2)

lemma unat_of_nat_small16 [simp]: "n < 65536 \<Longrightarrow> unat (word_of_nat n :: u16) = n"
  by (simp add: unat_of_nat)

lemma unat_of_nat_small32: "n < 4294967296 \<Longrightarrow> unat (word_of_nat n :: u32) = n"
  by (simp add: unat_of_nat)

lemma unat_of_nat_small64: "n < 18446744073709551616 \<Longrightarrow> unat (word_of_nat n :: u64) = n"
  by (simp add: unat_of_nat)

section \<open>Letters\<close>

text \<open>\<^verbatim>\<open>str::eq_ignore_ascii_case\<close>.\<close>

definition ascii_lower :: "char \<Rightarrow> char" where
  "ascii_lower c = (let n = of_char c :: nat in if 65 \<le> n \<and> n \<le> 90 then char_of (n + 32) else c)"

definition eq_ignore_ascii_case :: "string \<Rightarrow> string \<Rightarrow> bool" where
  "eq_ignore_ascii_case a b \<longleftrightarrow> map ascii_lower a = map ascii_lower b"

end
