(* ===== verification/State_Result.thy ===== *)
theory State_Result
  imports Prelude
begin

text \<open>
  Stateful code is a function from a state to a result and the state after it, also when
  the result is an error: \<open>bind_s\<close> is Rust's \<^verbatim>\<open>?\<close> with the state kept. The error type is
  a parameter (the embedded store has errors of its own); \<open>sm\<close> fixes it to \<open>error\<close>.
\<close>

section \<open>State and result\<close>

type_synonym ('s, 'e, 'a) esm = "'s \<Rightarrow> ('e + 'a) \<times> 's"
type_synonym ('s, 'a) sm = "('s, error, 'a) esm"

definition ret_s :: "'a \<Rightarrow> ('s, 'e, 'a) esm" where "ret_s x s = (Inr x, s)"

definition fail_s :: "'e \<Rightarrow> ('s, 'e, 'a) esm" where "fail_s e s = (Inl e, s)"

definition bind_s :: "('s, 'e, 'a) esm \<Rightarrow> ('a \<Rightarrow> ('s, 'e, 'b) esm) \<Rightarrow> ('s, 'e, 'b) esm" where
  "bind_s m f s = (case m s of (Inl e, s') \<Rightarrow> (Inl e, s') | (Inr x, s') \<Rightarrow> f x s')"

definition get_s :: "('s \<Rightarrow> 'a) \<Rightarrow> ('s, 'e, 'a) esm" where "get_s f s = (Inr (f s), s)"

definition put_s :: "('s \<Rightarrow> 's) \<Rightarrow> ('s, 'e, unit) esm" where "put_s f s = (Inr (), f s)"

definition lift_s :: "'e + 'a \<Rightarrow> ('s, 'e, 'a) esm" where "lift_s r s = (r, s)"

lemma sm_simps [simp, result_simps]:
  "ret_s x s = (Inr x, s)" "fail_s e s = (Inl e, s)" "get_s f s = (Inr (f s), s)"
  "put_s g s = (Inr (), g s)" "lift_s r s = (r, s)"
  by (simp_all add: ret_s_def fail_s_def get_s_def put_s_def lift_s_def)

lemma bind_s_Inr: "m s = (Inr x, s') \<Longrightarrow> bind_s m f s = f x s'"
  by (simp add: bind_s_def)

lemma bind_s_Inl: "m s = (Inl e, s') \<Longrightarrow> bind_s m f s = (Inl e, s')"
  by (simp add: bind_s_def)

lemma bind_s_basic [simp]:
  "bind_s (ret_s x) f s = f x s" "bind_s (fail_s e) f s = (Inl e, s)"
  "bind_s (get_s g) f s = f (g s) s"
  "bind_s (lift_s (Inr x)) f s = f x s" "bind_s (lift_s (Inl e)) f s = (Inl e, s)"
  by (simp_all add: bind_s_def)

lemma bind_s_put [simp]: "bind_s (put_s h) f s = f () (h s)"
  by (simp add: bind_s_def)

lemma bind_s_Inr_iff:
  "bind_s m f s = (Inr y, s'') \<longleftrightarrow> (\<exists>x s'. m s = (Inr x, s') \<and> f x s' = (Inr y, s''))"
  by (auto simp: bind_s_def split: prod.splits sum.splits)

lemma bind_s_Inl_iff:
  "bind_s m f s = (Inl e, s'') \<longleftrightarrow>
     m s = (Inl e, s'') \<or> (\<exists>x s'. m s = (Inr x, s') \<and> f x s' = (Inl e, s''))"
  by (auto simp: bind_s_def split: prod.splits sum.splits)

lemma bind_s_cong [fundef_cong]:
  "m s = m' s' \<Longrightarrow> (\<And>x t. m' s' = (Inr x, t) \<Longrightarrow> f x t = g x t) \<Longrightarrow> s = s' \<Longrightarrow>
   bind_s m f s = bind_s m' g s'"
  by (auto simp: bind_s_def split: prod.splits sum.splits)

fun each_s :: "('a \<Rightarrow> ('s, 'e, unit) esm) \<Rightarrow> 'a list \<Rightarrow> ('s, 'e, unit) esm" where
  "each_s f [] = ret_s ()"
| "each_s f (x # xs) = bind_s (f x) (\<lambda>_. each_s f xs)"

text \<open>A step that keeps an invariant, whatever its result.\<close>

definition keeps :: "('s \<Rightarrow> bool) \<Rightarrow> ('s, 'e, 'a) esm \<Rightarrow> bool" where
  "keeps I m \<longleftrightarrow> (\<forall>s. I s \<longrightarrow> I (snd (m s)))"

lemma keepsI: "(\<And>s. I s \<Longrightarrow> I (snd (m s))) \<Longrightarrow> keeps I m"
  by (simp add: keeps_def)

lemma keeps_bind:
  assumes "keeps I m" "\<And>x. keeps I (f x)"
  shows "keeps I (bind_s m f)"
  using assms by (fastforce simp: keeps_def bind_s_def split: prod.splits sum.splits)

lemma keeps_basic: "keeps I (ret_s x)" "keeps I (fail_s e)" "keeps I (get_s g)" "keeps I (lift_s r)"
  by (simp_all add: keeps_def)

lemma keeps_each: "(\<And>x. x \<in> set xs \<Longrightarrow> keeps I (f x)) \<Longrightarrow> keeps I (each_s f xs)"
  by (induction xs) (auto simp: keeps_basic intro: keeps_bind)

section \<open>Loops that may not end\<close>

text \<open>A loop over links on disk need not end. Such a loop takes fuel, and \<open>None\<close> is a run that
  has used it up; \<open>bind_o\<close> sequences such runs, \<open>run_o\<close> embeds a step that always returns.\<close>

type_synonym ('s, 'e, 'a) eom = "'s \<Rightarrow> (('e + 'a) \<times> 's) option"
type_synonym ('s, 'a) om = "('s, error, 'a) eom"

definition ret_o :: "'a \<Rightarrow> ('s, 'e, 'a) eom" where "ret_o x s = Some (Inr x, s)"

definition fail_o :: "'e \<Rightarrow> ('s, 'e, 'a) eom" where "fail_o e s = Some (Inl e, s)"

definition run_o :: "('s, 'e, 'a) esm \<Rightarrow> ('s, 'e, 'a) eom" where "run_o m s = Some (m s)"

definition bind_o :: "('s, 'e, 'a) eom \<Rightarrow> ('a \<Rightarrow> ('s, 'e, 'b) eom) \<Rightarrow> ('s, 'e, 'b) eom" where
  "bind_o m f s =
     (case m s of
        None \<Rightarrow> None
      | Some (Inl e, s') \<Rightarrow> Some (Inl e, s')
      | Some (Inr x, s') \<Rightarrow> f x s')"

lemma om_simps [simp]:
  "ret_o x s = Some (Inr x, s)" "fail_o e s = Some (Inl e, s)" "run_o m s = Some (m s)"
  "bind_o (ret_o x) f s = f x s" "bind_o (fail_o e) g s = Some (Inl e, s)"
  by (simp_all add: ret_o_def fail_o_def run_o_def bind_o_def)

lemma bind_o_Some: "m s = Some (Inr x, s') \<Longrightarrow> bind_o m f s = f x s'"
  by (simp add: bind_o_def)

lemma bind_o_Err: "m s = Some (Inl e, s') \<Longrightarrow> bind_o m f s = Some (Inl e, s')"
  by (simp add: bind_o_def)

lemma bind_o_run: "m s = (Inr x, s') \<Longrightarrow> bind_o (run_o m) f s = f x s'"
  by (simp add: bind_o_def)

lemma bind_o_lift [simp]: "bind_o (run_o (lift_s (Inr x))) f s = f x s"
  by (simp add: bind_o_def)

lemma bind_o_cong [fundef_cong]:
  "m s = m' s' \<Longrightarrow> (\<And>x t. m' s' = Some (Inr x, t) \<Longrightarrow> f x t = g x t) \<Longrightarrow> s = s' \<Longrightarrow>
   bind_o m f s = bind_o m' g s'"
  by (auto simp: bind_o_def split: option.splits prod.splits sum.splits)

text \<open>A run that keeps an invariant, whatever its result, if it returns.\<close>

definition keeps_o :: "('s \<Rightarrow> bool) \<Rightarrow> ('s, 'e, 'a) eom \<Rightarrow> bool" where
  "keeps_o I m \<longleftrightarrow> (\<forall>s r s'. I s \<longrightarrow> m s = Some (r, s') \<longrightarrow> I s')"

lemma keeps_oD: "keeps_o I m \<Longrightarrow> I s \<Longrightarrow> m s = Some (r, s') \<Longrightarrow> I s'"
  unfolding keeps_o_def by blast

lemma keeps_o_bind:
  assumes "keeps_o I m" "\<And>x. keeps_o I (f x)"
  shows "keeps_o I (bind_o m f)"
  unfolding keeps_o_def
proof (intro allI impI)
  fix s r s' assume I: "I s" and run: "bind_o m f s = Some (r, s')"
  then obtain r1 s1 where m: "m s = Some (r1, s1)" by (cases "m s") (auto simp: bind_o_def)
  then have "I s1" using keeps_oD [OF assms(1) I] by blast
  then show "I s'" using run m keeps_oD [OF assms(2)] by (cases r1) (auto simp: bind_o_def)
qed

lemma keeps_o_basic: "keeps_o I (ret_o x)" "keeps_o I (fail_o e)" "keeps_o I (\<lambda>_. None)" "keeps_o I (run_o (lift_s r))"
  by (simp_all add: keeps_o_def)

lemma keeps_o_run: "keeps I m \<Longrightarrow> keeps_o I (run_o m)"
  by (auto simp: keeps_o_def keeps_def)

lemma keeps_o_if: "keeps_o I m \<Longrightarrow> keeps_o I n \<Longrightarrow> keeps_o I (if c then m else n)"
  by simp

lemma keeps_o_option: "keeps_o I m \<Longrightarrow> (\<And>v. keeps_o I (f v)) \<Longrightarrow> keeps_o I (case x of None \<Rightarrow> m | Some v \<Rightarrow> f v)"
  by (cases x) simp_all

lemma keeps_o_sum: "(\<And>e. keeps_o I (g e)) \<Longrightarrow> (\<And>v. keeps_o I (f v)) \<Longrightarrow> keeps_o I (case x of Inl e \<Rightarrow> g e | Inr v \<Rightarrow> f v)"
  by (cases x) simp_all

lemma keeps_o_prod: "(\<And>a b. keeps_o I (f a b)) \<Longrightarrow> keeps_o I (case x of (a, b) \<Rightarrow> f a b)"
  by (cases x) simp

lemma keeps_o_self: "(\<And>q. keeps_o I (F q)) \<Longrightarrow> keeps_o I (\<lambda>s. F s s)"
  by (simp add: keeps_o_def)

lemmas keeps_o_rules = keeps_o_bind keeps_o_basic keeps_o_if keeps_o_option keeps_o_sum keeps_o_prod

end
