(* ===== verification/Micro_Flash.thy ===== *)
theory Micro_Flash
  imports State_Result
begin

text \<open>
  The board interface of \<^verbatim>\<open>src/crates/tapirus-micro/src/lib.rs\<close> (trait \<^verbatim>\<open>Flash\<close>) as a record of
  operations, the laws its documentation promises as a locale, and the simulated board of
  \<^verbatim>\<open>tests/flash.rs\<close>, whose power fails after a given number of byte operations, as the
  interpretation.
\<close>

record ('d, 'e) flash_ops =
  fl_capacity :: "'d \<Rightarrow> nat"
  fl_erase_size :: "'d \<Rightarrow> nat"
  fl_write_size :: "'d \<Rightarrow> nat"
  fl_read :: "nat \<Rightarrow> nat \<Rightarrow> ('d, 'e, bytes) esm"
  fl_erase :: "nat \<Rightarrow> nat \<Rightarrow> ('d, 'e, unit) esm"
  fl_program :: "nat \<Rightarrow> bytes \<Rightarrow> ('d, 'e, unit) esm"
  fl_sync :: "('d, 'e, unit) esm"

definition and_bytes :: "bytes \<Rightarrow> bytes \<Rightarrow> bytes" where
  "and_bytes xs ys = map2 (AND) xs ys"

text \<open>Programming cannot set a bit that is zero.\<close>

definition programmable :: "bytes \<Rightarrow> bytes \<Rightarrow> bool" where
  "programmable old new \<longleftrightarrow> length old = length new \<and> and_bytes old new = new"

lemma and_bytes_erased: "and_bytes (replicate n 0xFF) bs = take n bs"
proof (rule nth_equalityI)
  have minus: "(0xFF :: u8) = - 1" by simp
  have ones: "(0xFF :: u8) AND b = b" for b
    unfolding minus by (rule and.left_neutral)
  fix i assume "i < length (and_bytes (replicate n 0xFF) bs)"
  then show "and_bytes (replicate n 0xFF) bs ! i = take n bs ! i" by (simp add: and_bytes_def ones)
qed (simp add: and_bytes_def)

lemma programmable_erased: "length bs = n \<Longrightarrow> programmable (replicate n 0xFF) bs"
  by (simp add: programmable_def and_bytes_erased)

text \<open>
  \<open>contents\<close> is what a read returns; \<open>torn d old new\<close> says that an erase of the block \<open>old\<close>
  which fails on \<open>d\<close> may leave \<open>new\<close>; a \<open>live\<close> device does not fail.
\<close>

locale flash_device =
  fixes ops :: "('d, 'e) flash_ops"
    and contents :: "'d \<Rightarrow> bytes"
    and torn :: "'d \<Rightarrow> bytes \<Rightarrow> bytes \<Rightarrow> bool"
    and live :: "'d \<Rightarrow> bool"
    and E W :: nat
  assumes capacity: "fl_capacity ops d = length (contents d)"
    and erase_size: "fl_erase_size ops d = E"
    and write_size: "fl_write_size ops d = W"
    and torn_length: "torn d old new \<Longrightarrow> length new = length old"
    and read_law: "off + n \<le> length (contents d) \<Longrightarrow> fl_read ops off n d = (rb, d') \<Longrightarrow>
      contents d' = contents d \<and> torn d' = torn d \<and> (live d \<longrightarrow> is_ok rb \<and> live d') \<and>
      (\<forall>bs. rb = Inr bs \<longrightarrow> bs = take n (drop off (contents d)))"
    and erase_law: "off + E \<le> length (contents d) \<Longrightarrow> E dvd off \<Longrightarrow> fl_erase ops off E d = (r, d') \<Longrightarrow>
      (live d \<longrightarrow> is_ok r \<and> live d') \<and>
      (is_ok r \<longrightarrow> contents d' = splice (contents d) off (replicate E 0xFF)) \<and>
      (\<not> is_ok r \<longrightarrow> (\<exists>blk. torn d (take E (drop off (contents d))) blk \<and> contents d' = splice (contents d) off blk))"
    and program_law: "off + length bs \<le> length (contents d) \<Longrightarrow> W dvd off \<Longrightarrow> W dvd length bs \<Longrightarrow>
      programmable (take (length bs) (drop off (contents d))) bs \<Longrightarrow> fl_program ops off bs d = (r, d') \<Longrightarrow>
      (live d \<longrightarrow> is_ok r \<and> live d') \<and>
      (\<exists>k \<le> length bs. contents d' = splice (contents d) off (and_bytes (take k (drop off (contents d))) (take k bs)) \<and>
         (is_ok r \<longrightarrow> k = length bs))"
    and sync_law: "fl_sync ops d = (r, d') \<Longrightarrow> contents d' = contents d \<and> (live d \<longrightarrow> is_ok r \<and> live d')"

section \<open>The simulated board\<close>

record ram_flash =
  rf_bytes :: bytes
  rf_fail_after :: "nat option"
  rf_operations :: nat

definition ram_step :: "(ram_flash, string, unit) esm" where
  "ram_step d =
     (if rf_fail_after d = Some (rf_operations d) then (Inl ''power interrupted'', d)
      else (Inr (), d\<lparr>rf_operations := rf_operations d + 1\<rparr>))"

definition ram_read :: "nat \<Rightarrow> nat \<Rightarrow> (ram_flash, string, bytes) esm" where
  "ram_read off n d =
     (if off + n \<le> length (rf_bytes d) then (Inr (take n (drop off (rf_bytes d))), d)
      else (Inl ''panic'', d))"

fun ram_erase :: "nat \<Rightarrow> nat \<Rightarrow> (ram_flash, string, unit) esm" where
  "ram_erase i 0 = ret_s ()"
| "ram_erase i (Suc n) =
     bind_s ram_step (\<lambda>_.
     bind_s (\<lambda>d. if i < length (rf_bytes d) then (Inr (), d\<lparr>rf_bytes := (rf_bytes d)[i := 0xFF]\<rparr>)
                 else (Inl ''panic'', d)) (\<lambda>_.
     ram_erase (Suc i) n))"

fun ram_program_loop :: "nat \<Rightarrow> bytes \<Rightarrow> (ram_flash, string, unit) esm" where
  "ram_program_loop i [] = ret_s ()"
| "ram_program_loop i (b # bs) =
     bind_s ram_step (\<lambda>_.
     bind_s (\<lambda>d. if i < length (rf_bytes d) \<and> rf_bytes d ! i AND b = b
                 then (Inr (), d\<lparr>rf_bytes := (rf_bytes d)[i := rf_bytes d ! i AND b]\<rparr>)
                 else (Inl ''panic'', d)) (\<lambda>_.
     ram_program_loop (Suc i) bs))"

definition ram_program :: "nat \<Rightarrow> bytes \<Rightarrow> (ram_flash, string, unit) esm" where
  "ram_program off bs =
     (if off mod 8 = 0 \<and> length bs mod 8 = 0 then ram_program_loop off bs else fail_s ''panic'')"

definition ram_ops :: "(ram_flash, string) flash_ops" where
  "ram_ops = \<lparr>fl_capacity = (\<lambda>d. length (rf_bytes d)), fl_erase_size = (\<lambda>_. 256),
     fl_write_size = (\<lambda>_. 8), fl_read = ram_read, fl_erase = ram_erase, fl_program = ram_program,
     fl_sync = ram_step\<rparr>"

definition ram_fresh :: ram_flash where
  "ram_fresh = \<lparr>rf_bytes = replicate 1024 0xFF, rf_fail_after = None, rf_operations = 0\<rparr>"

definition ram_torn :: "ram_flash \<Rightarrow> bytes \<Rightarrow> bytes \<Rightarrow> bool" where
  "ram_torn d old new \<longleftrightarrow>
     (\<exists>k < length old. rf_fail_after d = Some (rf_operations d + k) \<and> new = replicate k 0xFF @ drop k old)"

definition ram_live :: "ram_flash \<Rightarrow> bool" where
  "ram_live d \<longleftrightarrow> rf_fail_after d = None"

lemma splice_Cons_upd:
  assumes "i < length xs"
  shows "splice (xs[i := b]) (Suc i) bs = splice xs i (b # bs)"
  using assms by (simp add: splice_def take_Suc_conv_app_nth upd_conv_take_nth_drop add.commute)

lemma ram_erase_cases:
  assumes "i + n \<le> length (rf_bytes d)"
  shows "ram_erase i n d =
    (case rf_fail_after d of
       Some f \<Rightarrow> if rf_operations d \<le> f \<and> f < rf_operations d + n
         then (Inl ''power interrupted'',
               d\<lparr>rf_bytes := splice (rf_bytes d) i (replicate (f - rf_operations d) 0xFF), rf_operations := f\<rparr>)
         else (Inr (), d\<lparr>rf_bytes := splice (rf_bytes d) i (replicate n 0xFF), rf_operations := rf_operations d + n\<rparr>)
     | None \<Rightarrow> (Inr (), d\<lparr>rf_bytes := splice (rf_bytes d) i (replicate n 0xFF), rf_operations := rf_operations d + n\<rparr>))"
  using assms
proof (induction n arbitrary: i d)
  case 0
  then show ?case by (cases d) (auto split: option.splits)
next
  case (Suc n)
  let ?d = "d\<lparr>rf_operations := rf_operations d + 1, rf_bytes := (rf_bytes d)[i := 0xFF]\<rparr>"
  have i: "i < length (rf_bytes d)" using Suc.prems by simp
  have pre: "Suc i + n \<le> length (rf_bytes ?d)" using Suc.prems by simp
  show ?case
  proof (cases "rf_fail_after d = Some (rf_operations d)")
    case True
    then show ?thesis by (cases d) (simp add: bind_s_def ram_step_def)
  next
    case False
    have "ram_erase i (Suc n) d = ram_erase (Suc i) n ?d"
      using False i by (simp add: bind_s_def ram_step_def)
    also have "\<dots> = (case rf_fail_after d of
       Some f \<Rightarrow> if rf_operations d \<le> f \<and> f < rf_operations d + Suc n
         then (Inl ''power interrupted'',
               d\<lparr>rf_bytes := splice (rf_bytes d) i (replicate (f - rf_operations d) 0xFF), rf_operations := f\<rparr>)
         else (Inr (), d\<lparr>rf_bytes := splice (rf_bytes d) i (replicate (Suc n) 0xFF), rf_operations := rf_operations d + Suc n\<rparr>)
     | None \<Rightarrow> (Inr (), d\<lparr>rf_bytes := splice (rf_bytes d) i (replicate (Suc n) 0xFF), rf_operations := rf_operations d + Suc n\<rparr>))"
      unfolding Suc.IH [OF pre]
      using False i splice_Cons_upd [OF i, of "0xFF"]
      by (cases d) (auto split: option.splits simp: Suc_diff_Suc simp flip: replicate_Suc)
    finally show ?thesis .
  qed
qed

lemma programmable_Cons:
  "programmable (x # old) (b # new) \<longleftrightarrow> x AND b = b \<and> programmable old new"
  by (auto simp: programmable_def and_bytes_def)

lemma programmable_take: "programmable old new \<Longrightarrow> and_bytes (take k old) (take k new) = take k new"
  by (metis and_bytes_def programmable_def take_map take_zip)

lemma ram_program_loop_cases:
  assumes "i + length bs \<le> length (rf_bytes d)" "programmable (take (length bs) (drop i (rf_bytes d))) bs"
    "ram_program_loop i bs d = (r, d')"
  shows "(rf_fail_after d = None \<longrightarrow> is_ok r) \<and> rf_fail_after d' = rf_fail_after d \<and>
    (\<exists>k \<le> length bs. rf_bytes d' = splice (rf_bytes d) i (take k bs) \<and> (is_ok r \<longrightarrow> k = length bs))"
  using assms
proof (induction bs arbitrary: i d)
  case Nil
  then show ?case by auto
next
  case (Cons b bs)
  let ?d = "d\<lparr>rf_operations := rf_operations d + 1, rf_bytes := (rf_bytes d)[i := b]\<rparr>"
  have i: "i < length (rf_bytes d)" using Cons.prems(1) by simp
  have pr: "rf_bytes d ! i AND b = b" "programmable (take (length bs) (drop (Suc i) (rf_bytes d))) bs"
    using Cons.prems(2) i by (simp_all add: Cons_nth_drop_Suc [symmetric] programmable_Cons)
  show ?case
  proof (cases "rf_fail_after d = Some (rf_operations d)")
    case True
    then show ?thesis using Cons.prems(3)
      by (intro conjI exI [of _ 0]) (auto simp: bind_s_def ram_step_def)
  next
    case False
    have run: "ram_program_loop (Suc i) bs ?d = (r, d')"
      using Cons.prems(3) False i pr(1) by (simp add: bind_s_def ram_step_def)
    have pre: "Suc i + length bs \<le> length (rf_bytes ?d)"
      "programmable (take (length bs) (drop (Suc i) (rf_bytes ?d))) bs"
      using Cons.prems(1) pr(2) by simp_all
    obtain k where k: "k \<le> length bs" "rf_bytes d' = splice (rf_bytes ?d) (Suc i) (take k bs)"
      "is_ok r \<longrightarrow> k = length bs" "rf_fail_after d = None \<longrightarrow> is_ok r" "rf_fail_after d' = rf_fail_after d"
      using Cons.IH [OF pre run] by auto
    have "rf_bytes d' = splice (rf_bytes d) i (take (Suc k) (b # bs))"
      using k(2) splice_Cons_upd [OF i, of b "take k bs"] by simp
    then show ?thesis using k by (intro conjI exI [of _ "Suc k"]) auto
  qed
qed

interpretation ram: flash_device ram_ops rf_bytes ram_torn ram_live 256 8
proof (unfold_locales, goal_cases)
  case (4 d old new)
  then show ?case by (auto simp: ram_torn_def)
next
  case (5 off n d rb d')
  then show ?case by (auto simp: ram_ops_def ram_read_def ram_live_def split: if_splits)
next
  case (6 off d r d')
  then have run: "ram_erase off 256 d = (r, d')" and room: "off + 256 \<le> length (rf_bytes d)"
    by (simp_all add: ram_ops_def)
  have part: "splice xs off (replicate k 0xFF) =
      splice xs off (replicate k 0xFF @ drop k (take 256 (drop off xs)))"
    if "k < 256" "off + 256 \<le> length xs" for k and xs :: bytes
  proof -
    have "drop (off + 256) xs = drop (256 - k) (drop (k + off) xs)" using that by (simp add: add.commute)
    then show ?thesis
      using that append_take_drop_id [of "256 - k" "drop (k + off) xs"] by (simp add: splice_def drop_take add.commute)
  qed
  show ?case
  proof (cases "rf_fail_after d")
    case None
    then show ?thesis using run unfolding ram_erase_cases [OF room] by (auto simp: ram_live_def)
  next
    case (Some f)
    show ?thesis
    proof (cases "rf_operations d \<le> f \<and> f < rf_operations d + 256")
      case True
      define k where "k = f - rf_operations d"
      have k: "k < 256" "f = rf_operations d + k" using True by (auto simp: k_def)
      have "r = Inl ''power interrupted''" "rf_bytes d' = splice (rf_bytes d) off (replicate k 0xFF)"
        using run Some True unfolding ram_erase_cases [OF room] k_def by auto
      moreover have "ram_torn d (take 256 (drop off (rf_bytes d)))
          (replicate k 0xFF @ drop k (take 256 (drop off (rf_bytes d))))"
        using k Some room unfolding ram_torn_def by (intro exI [of _ k]) simp
      ultimately show ?thesis using part [OF k(1) room] Some by (auto simp: ram_live_def)
    next
      case False
      then show ?thesis using run Some unfolding ram_erase_cases [OF room] by (auto simp: ram_live_def)
    qed
  qed
next
  case (7 off bs d r d')
  then have run: "ram_program_loop off bs d = (r, d')"
    by (auto simp: ram_ops_def ram_program_def)
  obtain k where k: "k \<le> length bs" "rf_bytes d' = splice (rf_bytes d) off (take k bs)" "is_ok r \<longrightarrow> k = length bs"
    "rf_fail_after d = None \<longrightarrow> is_ok r" "rf_fail_after d' = rf_fail_after d"
    using ram_program_loop_cases [OF 7(1,4) run] by auto
  have "and_bytes (take k (drop off (rf_bytes d))) (take k bs) = take k bs"
    using programmable_take [OF 7(4), of k] k(1) by (simp add: min_absorb1)
  then show ?case using k by (auto simp: ram_live_def)
next
  case (8 d r d')
  then show ?case by (auto simp: ram_ops_def ram_step_def ram_live_def split: if_splits)
qed (simp_all add: ram_ops_def)

end
