(* ===== verification/Capsule.thy ===== *)
theory Capsule
  imports Prelude
begin

text \<open>
  \<^verbatim>\<open>src/crates/tapirus-micro/src/capsule.rs\<close>: the frames that carry one record of a
  microcontroller to another device, and the CRC-32 of \<^verbatim>\<open>lib.rs\<close> they share with the flash
  records. The CRC is computed here, not assumed: one round is a bijection of the register, so
  no change of a single byte goes unnoticed.
\<close>

section \<open>The checksum\<close>

definition crc_step :: "u32 \<Rightarrow> u32" where
  "crc_step crc = drop_bit 1 crc XOR (0xEDB88320 AND (0 - (crc AND 1)))"

definition crc_byte :: "u8 \<Rightarrow> u32 \<Rightarrow> u32" where
  "crc_byte b crc = (crc_step ^^ 8) (crc XOR ucast b)"

definition micro_checksum :: "bytes \<Rightarrow> bytes \<Rightarrow> u32" where
  "micro_checksum header payload = NOT (fold crc_byte (header @ payload) (NOT 0))"

lemma xor_cancel: "(a :: 'a::len word) XOR c = b XOR c \<longleftrightarrow> a = b"
proof
  assume "a XOR c = b XOR c"
  then have "(a XOR c) XOR c = (b XOR c) XOR c" by simp
  then show "a = b" by (simp add: xor.assoc)
qed simp

lemma crc_step_top: "bit (crc_step c) 31 \<longleftrightarrow> bit c 0"
proof -
  have top: "bit (0xEDB88320 :: u32) 31" by simp
  have "c AND 1 = (if bit c 0 then 1 else 0)"
    by (simp add: and_one_eq odd_iff_mod_2_eq_one bit_0)
  then show ?thesis
    using top by (auto simp: crc_step_def bit_xor_iff bit_and_iff bit_drop_bit_eq
        dest: bit_imp_le_length)
qed

lemma crc_step_inj: "inj crc_step"
proof (rule injI)
  fix a b :: u32
  assume eq: "crc_step a = crc_step b"
  have low: "bit a 0 = bit b 0" using crc_step_top [of a] crc_step_top [of b] eq by simp
  then have "a AND 1 = b AND 1" by (simp add: and_one_eq bit_0 mod2_eq_if)
  then have "drop_bit 1 a = drop_bit 1 b"
    using eq by (simp add: crc_step_def xor_cancel)
  then have high: "bit a (Suc n) = bit b (Suc n)" for n
    using bit_drop_bit_eq [of 1 a] bit_drop_bit_eq [of 1 b] by (metis comp_apply plus_1_eq_Suc)
  show "a = b"
  proof (rule bit_word_eqI)
    fix n show "bit a n = bit b n" using low high by (cases n) auto
  qed
qed

lemma crc_byte_inj: "crc_byte b x = crc_byte b y \<longleftrightarrow> x = y"
proof
  assume "crc_byte b x = crc_byte b y"
  then have "x XOR ucast b = y XOR ucast b"
    using inj_fn [OF crc_step_inj, of 8] by (simp add: crc_byte_def inj_def)
  then show "x = y" by (simp add: xor_cancel)
qed simp

lemma crc_byte_inj_byte: "crc_byte a x = crc_byte b x \<longleftrightarrow> a = b"
proof
  assume "crc_byte a x = crc_byte b x"
  then have "ucast a XOR x = ucast b XOR x"
    using inj_fn [OF crc_step_inj, of 8] by (simp add: crc_byte_def inj_def xor.commute)
  then have "(ucast a :: u32) = ucast b" by (simp add: xor_cancel)
  then have "unat (ucast a :: u32) = unat (ucast b :: u32)" by simp
  moreover have "take_bit 32 (unat z) = unat z" for z :: u8
    by (intro take_bit_nat_eq_self order.strict_trans [OF unat_u8 [of z]]) simp
  ultimately show "a = b" by (auto simp: unsigned_ucast_eq intro: unsigned_word_eqI)
qed simp

lemma fold_crc_inj: "fold crc_byte bs x = fold crc_byte bs y \<longleftrightarrow> x = y"
  by (induction bs arbitrary: x y) (simp_all add: crc_byte_inj)

lemma checksum_one_byte:
  assumes "i < length (h @ p)" "(h @ p)[i := b] = h' @ p'" "b \<noteq> (h @ p) ! i"
  shows "micro_checksum h' p' \<noteq> micro_checksum h p"
proof
  let ?m = "h @ p"
  assume "micro_checksum h' p' = micro_checksum h p"
  then have "fold crc_byte (?m[i := b]) (NOT 0) = fold crc_byte ?m (NOT 0)"
    by (simp add: micro_checksum_def assms(2) del: fold_append)
  moreover have "?m = take i ?m @ ?m ! i # drop (Suc i) ?m" using assms(1) by (rule id_take_nth_drop)
  moreover have "?m[i := b] = take i ?m @ b # drop (Suc i) ?m" using assms(1) by (rule upd_conv_take_nth_drop)
  ultimately have "fold crc_byte (take i ?m @ b # drop (Suc i) ?m) (NOT 0) =
      fold crc_byte (take i ?m @ ?m ! i # drop (Suc i) ?m) (NOT 0)" by metis
  then have "b = ?m ! i" by (simp add: fold_crc_inj crc_byte_inj_byte)
  then show False using assms(3) by simp
qed

section \<open>Frames\<close>

definition HEADER_LEN :: nat where "HEADER_LEN = 48"
definition MAX_PAYLOAD_LEN :: nat where "MAX_PAYLOAD_LEN = 64 * 1024"
definition CAP_MAGIC :: bytes where "CAP_MAGIC = [0x54, 0x50, 0x49, 0x4F, 0x43, 0x41, 0x50, 0x31]"
definition CAP_VERSION :: u16 where "CAP_VERSION = 1"
definition CAP_DELETED :: u8 where "CAP_DELETED = 1"

datatype capsule_error =
    CapCapacity
  | CapInvalid
  | CapVersion
  | CapPayloadTooLarge
  | CapChecksum

text \<open>A \<^verbatim>\<open>[u8; 16]\<close> is a list; \<open>cap_wf\<close> states its length.\<close>

record capsule =
  cap_device_id :: bytes
  cap_slot :: u32
  cap_sequence :: u64
  cap_deleted :: bool
  cap_payload :: bytes

definition cap_wf :: "capsule \<Rightarrow> bool" where
  "cap_wf c \<longleftrightarrow> length (cap_device_id c) = 16"

text \<open>The result and the caller's buffer after the call.\<close>

definition encode_into :: "capsule \<Rightarrow> bytes \<Rightarrow> (capsule_error + nat) \<times> bytes" where
  "encode_into c output =
     (if cap_sequence c = 0 \<or> cap_device_id c = replicate 16 0 \<or>
         (cap_deleted c \<and> cap_payload c \<noteq> [])
      then (Inl CapInvalid, output)
      else if length (cap_payload c) > MAX_PAYLOAD_LEN then (Inl CapPayloadTooLarge, output)
      else let len = HEADER_LEN + length (cap_payload c) in
        if length output < len then (Inl CapCapacity, output)
        else let
          output = splice output 0 CAP_MAGIC;
          output = splice output 8 (to_le16 CAP_VERSION);
          output = splice output 10 [if cap_deleted c then CAP_DELETED else 0];
          output = splice output 11 [0];
          output = splice output 12 (cap_device_id c);
          output = splice output 28 (to_le32 (cap_slot c));
          output = splice output 32 (to_le64 (cap_sequence c));
          output = splice output 40 (to_le32 (word_of_nat (length (cap_payload c))));
          output = splice output 48 (cap_payload c);
          crc = micro_checksum (take 44 output) (drop 48 (take len output))
        in (Inr len, splice output 44 (to_le32 crc)))"

definition decode_capsule :: "bytes \<Rightarrow> capsule_error + capsule" where
  "decode_capsule bs =
     (if length bs < HEADER_LEN \<or> take 8 bs \<noteq> CAP_MAGIC then Inl CapInvalid
      else if u16_at bs 8 \<noteq> CAP_VERSION then Inl CapVersion
      else if (bs ! 10) AND (NOT CAP_DELETED) \<noteq> 0 \<or> bs ! 11 \<noteq> 0 then Inl CapInvalid
      else let device_id = take 16 (drop 12 bs);
               slot_no = u32_at bs 28;
               seq = u64_at bs 32;
               payload_len = unat (u32_at bs 40) in
        if payload_len > MAX_PAYLOAD_LEN then Inl CapPayloadTooLarge
        else if HEADER_LEN + payload_len \<noteq> length bs \<or> seq = 0 \<or> device_id = replicate 16 0 \<or>
                (bs ! 10 = CAP_DELETED \<and> payload_len \<noteq> 0)
        then Inl CapInvalid
        else if u32_at bs 44 \<noteq> micro_checksum (take 44 bs) (drop 48 bs) then Inl CapChecksum
        else Inr \<lparr>cap_device_id = device_id, cap_slot = slot_no, cap_sequence = seq,
                  cap_deleted = (bs ! 10 = CAP_DELETED), cap_payload = drop 48 bs\<rparr>)"

text \<open>What a frame is, field by field.\<close>

definition cap_header :: "capsule \<Rightarrow> bytes" where
  "cap_header c = CAP_MAGIC @ to_le16 CAP_VERSION @ [if cap_deleted c then CAP_DELETED else 0] @ [0] @
     cap_device_id c @ to_le32 (cap_slot c) @ to_le64 (cap_sequence c) @
     to_le32 (word_of_nat (length (cap_payload c)))"

definition cap_frame :: "capsule \<Rightarrow> bytes" where
  "cap_frame c = cap_header c @ to_le32 (micro_checksum (cap_header c) (cap_payload c)) @ cap_payload c"

definition cap_valid :: "capsule \<Rightarrow> bool" where
  "cap_valid c \<longleftrightarrow> cap_wf c \<and> cap_sequence c \<noteq> 0 \<and> cap_device_id c \<noteq> replicate 16 0 \<and>
     (cap_deleted c \<longrightarrow> cap_payload c = []) \<and> length (cap_payload c) \<le> MAX_PAYLOAD_LEN"

lemma cap_lengths [simp]:
  "length CAP_MAGIC = 8" "cap_wf c \<Longrightarrow> length (cap_header c) = 44"
  "cap_wf c \<Longrightarrow> length (cap_frame c) = 48 + length (cap_payload c)"
  by (simp_all add: CAP_MAGIC_def cap_header_def cap_wf_def cap_frame_def)

lemma splice_fields:
  assumes "length a = 8" "length b = 2" "length d = 1" "length e = 1" "length f = 16"
    "length g = 4" "length h = 8" "length k = 4"
  shows "splice (splice (splice (splice (splice (splice (splice (splice out 0 a) 8 b) 10 d) 11 e) 12 f) 28 g)
      32 h) 40 k = (a @ b @ d @ e @ f @ g @ h @ k) @ drop 44 out"
  using assms by (simp add: splice_def)

lemma cap_splices:
  assumes "cap_wf c" "48 + length (cap_payload c) \<le> length out"
  shows "splice (splice (splice (splice (splice (splice (splice (splice (splice out 0 CAP_MAGIC) 8 (to_le16 CAP_VERSION))
      10 [if cap_deleted c then CAP_DELETED else 0]) 11 [0]) 12 (cap_device_id c)) 28 (to_le32 (cap_slot c)))
      32 (to_le64 (cap_sequence c))) 40 (to_le32 (word_of_nat (length (cap_payload c))))) 48 (cap_payload c) =
    cap_header c @ take 4 (drop 44 out) @ cap_payload c @ drop (48 + length (cap_payload c)) out"
proof -
  have "splice (splice (splice (splice (splice (splice (splice (splice out 0 CAP_MAGIC) 8 (to_le16 CAP_VERSION))
      10 [if cap_deleted c then CAP_DELETED else 0]) 11 [0]) 12 (cap_device_id c)) 28 (to_le32 (cap_slot c)))
      32 (to_le64 (cap_sequence c))) 40 (to_le32 (word_of_nat (length (cap_payload c)))) =
    cap_header c @ drop 44 out"
    unfolding cap_header_def using assms(1) by (intro splice_fields) (simp_all add: cap_wf_def)
  then show ?thesis using assms by (simp add: splice_def take_drop)
qed

lemma encode_into_eq:
  assumes "cap_wf c"
  shows "encode_into c out =
    (if cap_sequence c = 0 \<or> cap_device_id c = replicate 16 0 \<or> (cap_deleted c \<and> cap_payload c \<noteq> [])
     then (Inl CapInvalid, out)
     else if length (cap_payload c) > MAX_PAYLOAD_LEN then (Inl CapPayloadTooLarge, out)
     else if length out < 48 + length (cap_payload c) then (Inl CapCapacity, out)
     else (Inr (48 + length (cap_payload c)), cap_frame c @ drop (48 + length (cap_payload c)) out))"
proof (cases "48 + length (cap_payload c) \<le> length out")
  case True
  note sp = cap_splices [OF assms True]
  show ?thesis
    using True assms unfolding encode_into_def Let_def HEADER_LEN_def sp
    by (simp add: cap_frame_def splice_def)
next
  case False
  then show ?thesis by (simp add: encode_into_def HEADER_LEN_def Let_def)
qed

lemma decode_cap_frame:
  assumes "cap_valid c"
  shows "decode_capsule (cap_frame c) = Inr c"
proof -
  let ?bs = "cap_frame c"
  have wf: "length (cap_device_id c) = 16" "cap_wf c" and len: "length (cap_payload c) \<le> 65536"
    using assms by (simp_all add: cap_valid_def cap_wf_def MAX_PAYLOAD_LEN_def)
  have fields: "take 8 ?bs = CAP_MAGIC" "u16_at ?bs 8 = CAP_VERSION"
    "?bs ! 10 = (if cap_deleted c then CAP_DELETED else 0)" "?bs ! 11 = 0"
    "take 16 (drop 12 ?bs) = cap_device_id c" "u32_at ?bs 28 = cap_slot c"
    "u64_at ?bs 32 = cap_sequence c" "u32_at ?bs 40 = word_of_nat (length (cap_payload c))"
    using wf by (simp_all add: cap_frame_def cap_header_def u16_at_def u32_at_def u64_at_def nth_append
        del: of_nat_add)
  have rest: "take 44 ?bs = cap_header c" "drop 48 ?bs = cap_payload c"
    "u32_at ?bs 44 = micro_checksum (cap_header c) (cap_payload c)" "length ?bs = 48 + length (cap_payload c)"
    using wf by (simp_all add: cap_frame_def u32_at_def)
  have size: "unat (word_of_nat (length (cap_payload c)) :: u32) = length (cap_payload c)"
    using len by (simp add: unat_of_nat_small32)
  show ?thesis
    using assms unfolding decode_capsule_def fields rest size
    by (auto simp: Let_def HEADER_LEN_def CAP_DELETED_def cap_valid_def)
qed

lemma frame_split:
  assumes "48 \<le> length bs"
  shows "bs = take 8 bs @ take 2 (drop 8 bs) @ [bs ! 10] @ [bs ! 11] @ take 16 (drop 12 bs) @
    take 4 (drop 28 bs) @ take 8 (drop 32 bs) @ take 4 (drop 40 bs) @ take 4 (drop 44 bs) @ drop 48 bs"
proof -
  have one: "[bs ! i] @ drop (Suc i) bs = drop i bs" if "i < length bs" for i
    using that by (simp add: Cons_nth_drop_Suc)
  have many: "take n (drop i bs) @ drop (i + n) bs = drop i bs" for i n
    using append_take_drop_id [of n "drop i bs"] by (simp add: add.commute)
  show ?thesis
    using assms many [of 8 0] many [of 2 8] one [of 10] one [of 11] many [of 16 12] many [of 4 28]
      many [of 8 32] many [of 4 40] many [of 4 44] by simp
qed

lemma decode_capsule_Inr:
  assumes "decode_capsule bs = Inr c"
  shows "cap_valid c \<and> bs = cap_frame c"
proof -
  have d: "48 \<le> length bs" "take 8 bs = CAP_MAGIC" "u16_at bs 8 = CAP_VERSION"
      "(bs ! 10) AND (NOT CAP_DELETED) = 0" "bs ! 11 = 0" "unat (u32_at bs 40) \<le> MAX_PAYLOAD_LEN"
      "48 + unat (u32_at bs 40) = length bs" "u64_at bs 32 \<noteq> 0" "take 16 (drop 12 bs) \<noteq> replicate 16 0"
      "bs ! 10 = CAP_DELETED \<longrightarrow> unat (u32_at bs 40) = 0"
      "u32_at bs 44 = micro_checksum (take 44 bs) (drop 48 bs)"
      "c = \<lparr>cap_device_id = take 16 (drop 12 bs), cap_slot = u32_at bs 28, cap_sequence = u64_at bs 32,
            cap_deleted = (bs ! 10 = CAP_DELETED), cap_payload = drop 48 bs\<rparr>"
    using assms unfolding decode_capsule_def HEADER_LEN_def Let_def
    by (auto split: if_splits simp del: unat_eq_0)
  have pl: "length (drop 48 bs) = unat (u32_at bs 40)" using d(7) by simp
  have valid: "cap_valid c" using d pl by (auto simp: cap_valid_def cap_wf_def MAX_PAYLOAD_LEN_def)
  have flag: "bs ! 10 = (if cap_deleted c then CAP_DELETED else 0)"
  proof -
    have "bs ! 10 = (bs ! 10 AND NOT CAP_DELETED) OR (bs ! 10 AND CAP_DELETED)"
      by (simp flip: bit.conj_disj_distrib)
    then have "bs ! 10 = bs ! 10 mod 2" unfolding d(4) by (simp add: CAP_DELETED_def and_one_eq)
    then have "bs ! 10 = 0 \<or> bs ! 10 = 1" by (metis not_mod_2_eq_1_eq_0)
    then show ?thesis using d(12) by (auto simp: CAP_DELETED_def)
  qed
  have lens: "length (take 4 (drop i bs)) = 4" if "i \<in> {28, 40, 44}" for i
    using that d(1) by auto
  have f: "take 2 (drop 8 bs) = to_le16 CAP_VERSION" "take 16 (drop 12 bs) = cap_device_id c"
    "take 4 (drop 28 bs) = to_le32 (cap_slot c)" "take 8 (drop 32 bs) = to_le64 (cap_sequence c)"
    "take 4 (drop 40 bs) = to_le32 (word_of_nat (length (cap_payload c)))" "drop 48 bs = cap_payload c"
    using d(1,3,12) lens pl
    by (simp_all add: u16_at_def u32_at_def u64_at_def to_from_le flip: d(3) pl)
  have hd: "take 44 bs = cap_header c"
  proof -
    have "bs = cap_header c @ take 4 (drop 44 bs) @ drop 48 bs"
      using frame_split [OF d(1)] unfolding f(1-5) d(2) flag d(5) cap_header_def by simp
    then have "take 44 bs = take 44 (cap_header c @ take 4 (drop 44 bs) @ drop 48 bs)" by metis
    then show ?thesis using valid by (simp add: cap_valid_def)
  qed
  have "take 4 (drop 44 bs) = to_le32 (u32_at bs 44)" using lens [of 44] by (simp add: u32_at_def to_from_le)
  moreover have "bs = take 44 bs @ take 4 (drop 44 bs) @ drop 48 bs"
    using append_take_drop_id [of 44 bs] append_take_drop_id [of 4 "drop 44 bs"] by simp
  ultimately have "bs = cap_frame c"
    unfolding cap_frame_def using hd f(6) d(11) by simp
  then show ?thesis using valid by simp
qed

text \<open>A frame decodes to a capsule exactly when encoding that capsule into a large enough
  buffer writes this frame, returns its length and leaves the rest of the buffer alone: the
  codec round-trips, the encoding is canonical, and the decoder accepts nothing else.\<close>

theorem capsule_codec:
  assumes "cap_wf c" "length bs \<le> length buf"
  shows "decode_capsule bs = Inr c \<longleftrightarrow>
    encode_into c buf = (Inr (length bs), bs @ drop (length bs) buf)"
proof
  assume "decode_capsule bs = Inr c"
  then have v: "cap_valid c" and bs: "bs = cap_frame c" using decode_capsule_Inr by blast+
  show "encode_into c buf = (Inr (length bs), bs @ drop (length bs) buf)"
    using v assms unfolding encode_into_eq [OF assms(1)] bs by (auto simp: cap_valid_def)
next
  assume enc: "encode_into c buf = (Inr (length bs), bs @ drop (length bs) buf)"
  then have v: "cap_valid c" and len: "length bs = 48 + length (cap_payload c)"
    and out: "bs @ drop (length bs) buf = cap_frame c @ drop (length bs) buf"
    using assms(1) unfolding encode_into_eq [OF assms(1)] by (auto simp: cap_valid_def split: if_splits)
  have "bs = cap_frame c" using out by simp
  then show "decode_capsule bs = Inr c" using decode_cap_frame [OF v] by simp
qed

definition ex_capsule :: capsule where
  "ex_capsule = \<lparr>cap_device_id = replicate 16 7, cap_slot = 3, cap_sequence = 9,
                 cap_deleted = False, cap_payload = [112, 117, 109, 112]\<rparr>"

lemma ex_capsule_valid: "cap_valid ex_capsule"
  by (simp add: ex_capsule_def cap_valid_def cap_wf_def MAX_PAYLOAD_LEN_def)

theorem capsule_codec_witness:
  "encode_into ex_capsule (replicate 64 0) =
     (Inr (length (cap_frame ex_capsule)), cap_frame ex_capsule @ drop (length (cap_frame ex_capsule)) (replicate 64 0))"
proof -
  have wf: "cap_wf ex_capsule" using ex_capsule_valid by (simp add: cap_valid_def)
  have len: "length (cap_frame ex_capsule) \<le> length (replicate 64 (0 :: u8))"
    using wf by (simp add: ex_capsule_def)
  show ?thesis
    using capsule_codec [OF wf len] decode_cap_frame [OF ex_capsule_valid] by blast
qed

text \<open>A frame in which exactly one byte has been changed, wherever it is, is never accepted.\<close>

theorem capsule_detects_corruption:
  assumes ok: "decode_capsule bs = Inr c" and i: "i < length bs" and b: "b \<noteq> bs ! i"
  shows "\<exists>e. decode_capsule (bs[i := b]) = Inl e"
proof (rule ccontr)
  assume "\<not> ?thesis"
  then obtain d where d: "decode_capsule (bs[i := b]) = Inr d" by (metis obj_sumE)
  let ?h = "take 44 bs" and ?p = "drop 48 bs" and ?bs = "bs[i := b]"
  have cs: "48 \<le> length xs \<and> take 4 (drop 44 xs) = to_le32 (micro_checksum (take 44 xs) (drop 48 xs))"
    if "decode_capsule xs = Inr z" for xs z
    using decode_capsule_Inr [OF that] by (auto simp: cap_valid_def cap_frame_def)
  note old = cs [OF ok] and new = cs [OF d]
  show False
  proof (cases "44 \<le> i \<and> i < 48")
    case True
    have "take 44 ?bs = ?h" "drop 48 ?bs = ?p" using True by simp_all
    then have "take 4 (drop 44 ?bs) = take 4 (drop 44 bs)" using old new by simp
    then have eq: "take 4 (drop 44 ?bs) ! (i - 44) = take 4 (drop 44 bs) ! (i - 44)" by simp
    have at:  "take 4 (drop 44 xs) ! (i - 44) = xs ! i" if "48 \<le> length xs" for xs :: bytes
    proof -
      have "i - 44 < 4" "44 + (i - 44) = i" "44 \<le> length xs" using True that by linarith+
      then show ?thesis by simp
    qed
    have "?bs ! i = bs ! i" using eq at [of ?bs] at [of bs] old new by metis
    then show False using i b by simp
  next
    case False
    define j where "j = (if i < 44 then i else i - 4)"
    have mid: "take 4 (drop 44 ?bs) = take 4 (drop 44 bs)"
      using False by (intro nth_equalityI) auto
    have j: "j < length (?h @ ?p)" "(?h @ ?p) ! j = bs ! i"
      using False i old by (auto simp: j_def nth_append)
    have upd: "(?h @ ?p)[j := b] = take 44 ?bs @ drop 48 ?bs"
      using False i old by (cases "i < 44") (auto simp: j_def list_update_append take_update_swap drop_update_swap
          min_le_iff_disj list_update_beyond)
    have "micro_checksum (take 44 ?bs) (drop 48 ?bs) \<noteq> micro_checksum ?h ?p"
      using checksum_one_byte [OF j(1) upd] b j(2) by simp
    moreover have "to_le32 (micro_checksum (take 44 ?bs) (drop 48 ?bs)) = to_le32 (micro_checksum ?h ?p)"
      using old new mid by simp
    ultimately show False by (metis from_to_le32)
  qed
qed

theorem capsule_detects_corruption_witness:
  "\<exists>e. decode_capsule ((cap_frame ex_capsule)[0 := 0]) = Inl e"
proof (rule capsule_detects_corruption [OF decode_cap_frame [OF ex_capsule_valid]])
  show "0 < length (cap_frame ex_capsule)" "0 \<noteq> cap_frame ex_capsule ! 0"
    using ex_capsule_valid by (simp_all add: cap_valid_def cap_frame_def cap_header_def CAP_MAGIC_def)
qed

end
