(* ===== verification/Micro_Store.thy ===== *)
theory Micro_Store
  imports Micro_Flash Capsule
begin

text \<open>
  \<^verbatim>\<open>src/crates/tapirus-micro/src/lib.rs\<close>: numbered records on raw flash, two erase blocks per
  slot. The store is generic in its board; the operations take the board's operations as an
  argument, and their correctness is proved in the locale of the board's laws. The buffer
  \<^verbatim>\<open>scratch\<close> is a value: each function overwrites it completely before it reads it.
\<close>

definition MICRO_HEADER :: nat where "MICRO_HEADER = 32"
definition MICRO_MAGIC :: bytes where "MICRO_MAGIC = [0x54, 0x50, 0x4D, 0x49, 0x43, 0x30, 0x30, 0x31]"

datatype 'e micro_error =
    MIo 'e
  | MGeometry
  | MSlot
  | MCapacity
  | MCorrupted
  | MSequenceExhausted

datatype 'e export_error =
    ExStore "'e micro_error"
  | ExCapsule capsule_error

record micro_record =
  mr_sequence :: u64
  mr_length :: nat
  mr_deleted :: bool
  mr_bank :: nat

record 'd micro_store =
  ms_flash :: 'd
  ms_slots :: nat
  ms_write_size :: nat

text \<open>\<^verbatim>\<open>self.flash.op(..).map_err(Error::Io)\<close>\<close>

definition on_flash :: "('d, 'e, 'a) esm \<Rightarrow> ('d micro_store, 'e micro_error, 'a) esm" where
  "on_flash m st =
     (case m (ms_flash st) of
        (Inl e, d) \<Rightarrow> (Inl (MIo e), st\<lparr>ms_flash := d\<rparr>)
      | (Inr x, d) \<Rightarrow> (Inr x, st\<lparr>ms_flash := d\<rparr>))"

definition micro_new :: "('d, 'e) flash_ops \<Rightarrow> nat \<Rightarrow> 'd \<Rightarrow> nat \<Rightarrow> 'e micro_error + 'd micro_store" where
  "micro_new ops BLOCK flash slot_count =
     (let ws = fl_write_size ops flash in
      if slot_count = 0 \<or> BLOCK \<le> MICRO_HEADER \<or> BLOCK \<noteq> fl_erase_size ops flash \<or> ws = 0 \<or>
         ws > BLOCK - MICRO_HEADER \<or> BLOCK mod ws \<noteq> 0 \<or>
         (slot_count * 2 \<ge> 2 ^ 64 \<or> slot_count * 2 * BLOCK \<ge> 2 ^ 64 \<or> slot_count * 2 * BLOCK > fl_capacity ops flash)
      then Inl MGeometry
      else Inr \<lparr>ms_flash = flash, ms_slots = slot_count, ms_write_size = ws\<rparr>)"

definition max_value_bytes :: "nat \<Rightarrow> nat \<Rightarrow> nat" where
  "max_value_bytes BLOCK ws = BLOCK - MICRO_HEADER - ws"

definition parse_record :: "nat \<Rightarrow> nat \<Rightarrow> nat \<Rightarrow> nat \<Rightarrow> bytes \<Rightarrow> 'e micro_error + micro_record option" where
  "parse_record BLOCK ws slot_no bank scratch =
     (if \<exists>b \<in> set (drop (BLOCK - ws) scratch). b \<noteq> 0 then Inr None
      else if take 8 scratch \<noteq> MICRO_MAGIC \<or> unat (u32_at scratch 8) \<noteq> slot_no then Inl MCorrupted
      else let seq = u64_at scratch 12;
               raw_length = u32_at scratch 20;
               deleted = (raw_length = 0xFFFFFFFF);
               len = (if deleted then 0 else unat raw_length) in
        if seq = 0 \<or> len > max_value_bytes BLOCK ws \<or> take 4 (drop 28 scratch) \<noteq> replicate 4 0
        then Inl MCorrupted
        else if micro_checksum (take 24 scratch) (take len (drop MICRO_HEADER scratch)) \<noteq> u32_at scratch 24
        then Inl MCorrupted
        else Inr (Some \<lparr>mr_sequence = seq, mr_length = len, mr_deleted = deleted, mr_bank = bank\<rparr>))"

definition bank_offset :: "nat \<Rightarrow> nat \<Rightarrow> nat \<Rightarrow> nat" where
  "bank_offset BLOCK slot_no bank = (slot_no * 2 + bank) * BLOCK"

definition read_record ::
    "('d, 'e) flash_ops \<Rightarrow> nat \<Rightarrow> nat \<Rightarrow> nat \<Rightarrow> ('d micro_store, 'e micro_error, bytes \<times> micro_record option) esm" where
  "read_record ops BLOCK slot_no bank st =
     bind_s (on_flash (fl_read ops (bank_offset BLOCK slot_no bank) BLOCK)) (\<lambda>scratch.
       lift_s (bind_r (parse_record BLOCK (ms_write_size st) slot_no bank scratch) (\<lambda>r. Inr (scratch, r)))) st"

definition newer :: "micro_record option \<Rightarrow> micro_record option \<Rightarrow> 'e micro_error + micro_record option" where
  "newer x y =
     (case (x, y) of
        (Some a, Some b) \<Rightarrow>
          if mr_sequence a = mr_sequence b then Inl MCorrupted
          else Inr (Some (if mr_sequence a > mr_sequence b then a else b))
      | (Some a, None) \<Rightarrow> Inr (Some a)
      | (None, b) \<Rightarrow> Inr b)"

definition micro_latest ::
    "('d, 'e) flash_ops \<Rightarrow> nat \<Rightarrow> nat \<Rightarrow> ('d micro_store, 'e micro_error, micro_record option) esm" where
  "micro_latest ops BLOCK slot_no st =
     (if slot_no \<ge> ms_slots st \<or> slot_no > 0xFFFFFFFF then (Inl MSlot, st)
      else bind_s (read_record ops BLOCK slot_no 0) (\<lambda>(_, a).
           bind_s (read_record ops BLOCK slot_no 1) (\<lambda>(_, b).
           lift_s (newer a b))) st)"

text \<open>The returned pair holds the result of the call and the caller's buffer.\<close>

definition micro_get ::
    "('d, 'e) flash_ops \<Rightarrow> nat \<Rightarrow> nat \<Rightarrow> bytes \<Rightarrow> ('d micro_store, 'e micro_error, nat option \<times> bytes) esm" where
  "micro_get ops BLOCK slot_no output =
     bind_s (micro_latest ops BLOCK slot_no) (\<lambda>rec.
       case rec of
         None \<Rightarrow> ret_s (None, output)
       | Some r \<Rightarrow>
           if mr_deleted r then ret_s (None, output)
           else if length output < mr_length r then fail_s MCapacity
           else bind_s (read_record ops BLOCK slot_no (mr_bank r)) (\<lambda>(scratch, _).
                ret_s (Some (mr_length r),
                       splice output 0 (take (mr_length r) (drop MICRO_HEADER scratch)))))"

definition map_err_s :: "('e \<Rightarrow> 'f) \<Rightarrow> ('s, 'e, 'a) esm \<Rightarrow> ('s, 'f, 'a) esm" where
  "map_err_s f m s = (case m s of (Inl e, s') \<Rightarrow> (Inl (f e), s') | (Inr x, s') \<Rightarrow> (Inr x, s'))"

definition export_capsule ::
    "('d, 'e) flash_ops \<Rightarrow> nat \<Rightarrow> nat \<Rightarrow> bytes \<Rightarrow> bytes \<Rightarrow>
     ('d micro_store, 'e export_error, nat option \<times> bytes) esm" where
  "export_capsule ops BLOCK slot_no device_id output =
     bind_s (map_err_s ExStore (micro_latest ops BLOCK slot_no)) (\<lambda>rec.
       case rec of
         None \<Rightarrow> ret_s (None, output)
       | Some r \<Rightarrow>
           bind_s (map_err_s ExStore (read_record ops BLOCK slot_no (mr_bank r))) (\<lambda>(scratch, _).
             case encode_into
                    \<lparr>cap_device_id = device_id, cap_slot = word_of_nat slot_no, cap_sequence = mr_sequence r,
                     cap_deleted = mr_deleted r, cap_payload = take (mr_length r) (drop 32 scratch)\<rparr> output of
               (Inl e, _) \<Rightarrow> fail_s (ExCapsule e)
             | (Inr n, output) \<Rightarrow> ret_s (Some n, output)))"

text \<open>The record of one value, its commit unit still erased.\<close>

definition fill_record :: "nat \<Rightarrow> nat \<Rightarrow> u64 \<Rightarrow> bytes option \<Rightarrow> bytes" where
  "fill_record BLOCK slot_no seq v =
     (let scratch = replicate BLOCK 0xFF;
          scratch = splice scratch 0 MICRO_MAGIC;
          scratch = splice scratch 8 (to_le32 (word_of_nat slot_no));
          scratch = splice scratch 12 (to_le64 seq);
          scratch = splice scratch 20
            (to_le32 (case v of None \<Rightarrow> 0xFFFFFFFF | Some x \<Rightarrow> word_of_nat (length x)));
          payload = (case v of None \<Rightarrow> [] | Some x \<Rightarrow> x);
          scratch = splice scratch MICRO_HEADER payload;
          crc = micro_checksum (take 24 scratch) payload;
          scratch = splice scratch 24 (to_le32 crc)
      in splice scratch 28 (replicate 4 0))"

definition next_sequence :: "micro_record option \<Rightarrow> 'e micro_error + u64" where
  "next_sequence previous =
     (case previous of
        None \<Rightarrow> Inr 1
      | Some r \<Rightarrow> if mr_sequence r = 0xFFFFFFFFFFFFFFFF then Inl MSequenceExhausted
                  else Inr (mr_sequence r + 1))"

definition micro_write ::
    "('d, 'e) flash_ops \<Rightarrow> nat \<Rightarrow> nat \<Rightarrow> bytes option \<Rightarrow> ('d micro_store, 'e micro_error, unit) esm" where
  "micro_write ops BLOCK slot_no v st =
     (let ws = ms_write_size st in
      if (case v of None \<Rightarrow> False | Some x \<Rightarrow> length x > max_value_bytes BLOCK ws \<or> length x \<ge> 0xFFFFFFFF)
      then (Inl MCapacity, st)
      else
        bind_s (micro_latest ops BLOCK slot_no) (\<lambda>previous.
        let bank = (case previous of None \<Rightarrow> 0 | Some r \<Rightarrow> 1 - mr_bank r) in
        bind_s (lift_s (next_sequence previous)) (\<lambda>seq.
        let scratch = fill_record BLOCK slot_no seq v;
            offset = bank_offset BLOCK slot_no bank in
        bind_s (on_flash (fl_erase ops offset BLOCK)) (\<lambda>_.
        bind_s (on_flash (fl_program ops offset (take (BLOCK - ws) scratch))) (\<lambda>_.
        bind_s (on_flash (fl_sync ops)) (\<lambda>_.
        bind_s (on_flash (fl_program ops (offset + BLOCK - ws) (replicate ws 0))) (\<lambda>_.
        on_flash (fl_sync ops))))))) st)"

definition micro_put ::
    "('d, 'e) flash_ops \<Rightarrow> nat \<Rightarrow> nat \<Rightarrow> bytes \<Rightarrow> ('d micro_store, 'e micro_error, unit) esm" where
  "micro_put ops BLOCK slot_no v = micro_write ops BLOCK slot_no (Some v)"

definition micro_delete ::
    "('d, 'e) flash_ops \<Rightarrow> nat \<Rightarrow> nat \<Rightarrow> ('d micro_store, 'e micro_error, unit) esm" where
  "micro_delete ops BLOCK slot_no = micro_write ops BLOCK slot_no None"

definition dot_i8 :: "8 word list \<Rightarrow> 8 word list \<Rightarrow> 64 word option" where
  "dot_i8 xs ys =
     (if length xs \<noteq> length ys \<or> xs = [] then None
      else fold (\<lambda>(a, b) acc.
             case acc of
               None \<Rightarrow> None
             | Some acc_sum \<Rightarrow>
                 let t = sint acc_sum + sint a * sint b in
                 if - (2 ^ 63) \<le> t \<and> t < 2 ^ 63 then Some (word_of_int t) else None)
           (zip xs ys) (Some 0))"

section \<open>What a block says\<close>

text \<open>
  The slot as the flash contents determine it: the sequence number and the value of the
  newer committed bank. This is the specification the operations are measured against.
\<close>

definition block_of :: "nat \<Rightarrow> nat \<Rightarrow> nat \<Rightarrow> bytes \<Rightarrow> bytes" where
  "block_of BLOCK slot_no bank c = take BLOCK (drop (bank_offset BLOCK slot_no bank) c)"

definition bank_at :: "nat \<Rightarrow> nat \<Rightarrow> nat \<Rightarrow> nat \<Rightarrow> bytes \<Rightarrow> 'e micro_error + micro_record option" where
  "bank_at BLOCK ws slot_no bank c = parse_record BLOCK ws slot_no bank (block_of BLOCK slot_no bank c)"

definition slot_latest :: "nat \<Rightarrow> nat \<Rightarrow> nat \<Rightarrow> bytes \<Rightarrow> 'e micro_error + micro_record option" where
  "slot_latest BLOCK ws slot_no c =
     bind_r (bank_at BLOCK ws slot_no 0 c) (\<lambda>a.
     bind_r (bank_at BLOCK ws slot_no 1 c) (\<lambda>b. newer a b))"

definition slot_value :: "nat \<Rightarrow> nat \<Rightarrow> nat \<Rightarrow> bytes \<Rightarrow> 'e micro_error + bytes option" where
  "slot_value BLOCK ws slot_no c =
     bind_r (slot_latest BLOCK ws slot_no c) (\<lambda>rec. Inr
       (case rec of
          None \<Rightarrow> None
        | Some r \<Rightarrow> if mr_deleted r then None
            else Some (take (mr_length r) (drop MICRO_HEADER (block_of BLOCK slot_no (mr_bank r) c)))))"

lemma newer_same_bank: "newer (Some a) None = Inr (Some a)" "newer None b = Inr b"
  by (simp_all add: newer_def)

lemma uncommitted_parse: "\<exists>b \<in> set (drop (BLOCK - ws) blk). b \<noteq> 0 \<Longrightarrow> parse_record BLOCK ws s k blk = Inr None"
  by (simp add: parse_record_def)

lemma parse_record_fields:
  "parse_record BLOCK ws s k blk = Inr (Some r) \<Longrightarrow> mr_sequence r \<noteq> 0 \<and> (mr_deleted r \<longrightarrow> mr_length r = 0)"
  by (auto simp: parse_record_def Let_def split: if_splits)

lemma parse_record_bank:
  "parse_record BLOCK ws s k blk = Inr (Some r) \<Longrightarrow> mr_bank r = k \<and> mr_length r \<le> max_value_bytes BLOCK ws"
  by (auto simp: parse_record_def Let_def split: if_splits)

definition micro_geometry :: "nat \<Rightarrow> nat \<Rightarrow> bytes \<Rightarrow> 'd micro_store \<Rightarrow> bool" where
  "micro_geometry BLOCK ws c st \<longleftrightarrow> ms_write_size st = ws \<and> 0 < ws \<and> MICRO_HEADER + ws \<le> BLOCK \<and>
     ws dvd BLOCK \<and> ms_slots st * 2 * BLOCK \<le> length c"

lemma bank_room:
  assumes "micro_geometry BLOCK ws c st" "s < ms_slots st" "k < 2"
  shows "bank_offset BLOCK s k + BLOCK \<le> length c"
proof -
  have "s * 2 + k + 1 \<le> ms_slots st * 2" using assms(2,3) by linarith
  then have "(s * 2 + k + 1) * BLOCK \<le> ms_slots st * 2 * BLOCK" by (rule mult_le_mono1)
  then show ?thesis using assms(1) by (simp add: bank_offset_def micro_geometry_def algebra_simps)
qed

context flash_device
begin

definition same :: "'d micro_store \<Rightarrow> 'd micro_store \<Rightarrow> bool" where
  "same st st' \<longleftrightarrow> ms_slots st' = ms_slots st \<and> ms_write_size st' = ms_write_size st \<and>
     contents (ms_flash st') = contents (ms_flash st) \<and> torn (ms_flash st') = torn (ms_flash st) \<and>
     (live (ms_flash st) \<longrightarrow> live (ms_flash st'))"

lemma same_trans: "same a b \<Longrightarrow> same b c \<Longrightarrow> same a c"
  by (simp add: same_def)

lemma read_record_law:
  assumes "micro_geometry E W (contents (ms_flash st)) st" "s < ms_slots st" "k < 2"
    "read_record ops E s k st = (r, st')"
  shows "same st st' \<and> (live (ms_flash st) \<longrightarrow> (\<forall>e. r \<noteq> Inl (MIo e))) \<and>
    (\<forall>e. r = Inl e \<longrightarrow> bank_at E W s k (contents (ms_flash st)) = Inl e \<or> (\<exists>e'. e = MIo e')) \<and>
    (\<forall>x. r = Inr x \<longrightarrow> fst x = block_of E s k (contents (ms_flash st)) \<and>
       bank_at E W s k (contents (ms_flash st)) = (Inr (snd x) :: 'e micro_error + micro_record option))"
proof -
  obtain rb d' where run: "fl_read ops (bank_offset E s k) E (ms_flash st) = (rb, d')" by force
  note law = read_law [OF bank_room [OF assms(1-3)] run]
  have pe: "parse_record E W s k blk \<noteq> (Inl (MIo e) :: 'e micro_error + _)" for blk e
    by (auto simp: parse_record_def Let_def split: if_splits)
  have ws: "ms_write_size st = W" using assms(1) by (simp add: micro_geometry_def)
  show ?thesis
  proof (cases rb)
    case (Inl e)
    then show ?thesis using assms(4) law run
      by (auto simp: read_record_def on_flash_def bind_s_def same_def split: prod.splits)
  next
    case (Inr bs)
    then have bs: "bs = block_of E s k (contents (ms_flash st))" using law by (simp add: block_of_def)
    show ?thesis using assms(4) law run Inr ws pe unfolding bank_at_def bs
      by (auto simp: read_record_def on_flash_def bind_s_def same_def bind_r_def split: prod.splits sum.splits)
  qed
qed

lemma geometry_same: "same st st' \<Longrightarrow> micro_geometry E W (contents (ms_flash st)) st \<Longrightarrow>
    micro_geometry E W (contents (ms_flash st')) st'"
  by (simp add: same_def micro_geometry_def)

lemma latest_law:
  assumes "micro_geometry E W (contents (ms_flash st)) st" "s < ms_slots st" "s \<le> 0xFFFFFFFF"
    "micro_latest ops E s st = (r, st')"
  shows "same st st' \<and> (r = slot_latest E W s (contents (ms_flash st)) \<or> (\<exists>e. r = Inl (MIo e))) \<and>
    (live (ms_flash st) \<longrightarrow> r = slot_latest E W s (contents (ms_flash st)))"
proof -
  let ?c = "contents (ms_flash st)"
  obtain ra sa where ra: "read_record ops E s 0 st = (ra, sa)" by force
  obtain rb sb where rb: "read_record ops E s 1 sa = (rb, sb)" by force
  note la = read_record_law [OF assms(1,2) _ ra, simplified]
  have sa: "micro_geometry E W (contents (ms_flash sa)) sa" "s < ms_slots sa" "contents (ms_flash sa) = ?c"
    "live (ms_flash st) \<Longrightarrow> live (ms_flash sa)"
    using geometry_same assms(1,2) la by (auto simp: same_def)
  note lb = read_record_law [OF sa(1,2) _ rb, simplified, unfolded sa(3)]
  have run: "micro_latest ops E s st = (bind_s (read_record ops E s 0) (\<lambda>(_, a).
           bind_s (read_record ops E s 1) (\<lambda>(_, b). lift_s (newer a b))) st)"
    using assms(2,3) by (simp add: micro_latest_def)
  show ?thesis
  proof (cases ra)
    case (Inl e)
    then have "r = Inl e" "st' = sa" using assms(4) run ra by (simp_all add: bind_s_def)
    then show ?thesis using la Inl by (auto simp: slot_latest_def)
  next
    case ia: (Inr x)
    then have r: "(r, st') = bind_s (read_record ops E s 1) (\<lambda>(_, b). lift_s (newer (snd x) b)) sa"
      using assms(4) run ra by (simp add: bind_s_def split_beta)
    have bx: "bank_at E W s 0 ?c = (Inr (snd x) :: 'e micro_error + _)" using la ia by (cases x) auto
    show ?thesis
    proof (cases rb)
      case (Inl e)
      then have "r = Inl e" "st' = sb" using r rb by (simp_all add: bind_s_def)
      then show ?thesis using la lb Inl bx sa(4) same_trans [of st sa sb] by (auto simp: slot_latest_def)
    next
      case (Inr y)
      then have "r = newer (snd x) (snd y)" "st' = sb" using r rb by (simp_all add: bind_s_def split_beta)
      moreover have "bank_at E W s 1 ?c = (Inr (snd y) :: 'e micro_error + _)" using lb Inr by (cases y) auto
      ultimately show ?thesis using la lb bx same_trans [of st sa sb] by (simp add: slot_latest_def)
    qed
  qed
qed

end

section \<open>The record that a write leaves\<close>

definition raw_length_of :: "bytes option \<Rightarrow> u32" where
  "raw_length_of v = (case v of None \<Rightarrow> 0xFFFFFFFF | Some x \<Rightarrow> word_of_nat (length x))"

definition payload_of :: "bytes option \<Rightarrow> bytes" where
  "payload_of v = (case v of None \<Rightarrow> [] | Some x \<Rightarrow> x)"

definition record_header :: "nat \<Rightarrow> u64 \<Rightarrow> bytes option \<Rightarrow> bytes" where
  "record_header slot_no seq v =
     MICRO_MAGIC @ to_le32 (word_of_nat slot_no) @ to_le64 seq @ to_le32 (raw_length_of v)"

definition record_body :: "nat \<Rightarrow> nat \<Rightarrow> u64 \<Rightarrow> bytes option \<Rightarrow> bytes" where
  "record_body n slot_no seq v =
     record_header slot_no seq v @ to_le32 (micro_checksum (record_header slot_no seq v) (payload_of v)) @
     replicate 4 0 @ payload_of v @ replicate (n - length (payload_of v)) 0xFF"

text \<open>The block of a committed record, and when the value fits.\<close>

definition record_block :: "nat \<Rightarrow> nat \<Rightarrow> nat \<Rightarrow> u64 \<Rightarrow> bytes option \<Rightarrow> bytes" where
  "record_block BLOCK ws slot_no seq v =
     record_body (max_value_bytes BLOCK ws) slot_no seq v @ replicate ws 0"

definition value_fits :: "nat \<Rightarrow> nat \<Rightarrow> bytes option \<Rightarrow> bool" where
  "value_fits BLOCK ws v \<longleftrightarrow> length (payload_of v) \<le> max_value_bytes BLOCK ws \<and> length (payload_of v) < 0xFFFFFFFF"

lemma length_record [simp]:
  "length MICRO_MAGIC = 8" "length (record_header s q v) = 24"
  "length (payload_of v) \<le> n \<Longrightarrow> length (record_body n s q v) = 32 + n"
  by (simp_all add: MICRO_MAGIC_def record_header_def record_body_def)

lemma length_record_block:
  "value_fits BLOCK ws v \<Longrightarrow> 32 + ws \<le> BLOCK \<Longrightarrow> length (record_block BLOCK ws s q v) = BLOCK"
  by (simp add: record_block_def value_fits_def max_value_bytes_def MICRO_HEADER_def)

lemma splice_record:
  assumes "length a = 8" "length b = 4" "length c = 8" "length d = 4" "length p \<le> n - 32" "32 \<le> n"
  shows "splice (splice (splice (splice (splice (replicate n x) 0 a) 8 b) 12 c) 20 d) 32 p =
    a @ b @ c @ d @ replicate 8 x @ p @ replicate (n - 32 - length p) x"
proof -
  have "splice (splice (splice (splice (replicate n x) 0 a) 8 b) 12 c) 20 d =
      a @ b @ c @ d @ replicate (n - 24) x"
    using assms by (simp add: splice_def)
  moreover have "replicate (n - 24) x = replicate 8 x @ replicate (n - 32) x"
    using assms(6) by (simp flip: replicate_add)
  ultimately show ?thesis using assms(1-5) by (simp add: splice_def)
qed

lemma fill_record_eq:
  assumes "length (payload_of v) \<le> BLOCK - 32" "32 \<le> BLOCK"
  shows "fill_record BLOCK s q v = record_body (BLOCK - 32) s q v"
proof -
  let ?h = "record_header s q v" and ?p = "payload_of v"
  let ?s = "splice (splice (splice (splice (splice (replicate BLOCK 0xFF) 0 MICRO_MAGIC) 8
      (to_le32 (word_of_nat s))) 12 (to_le64 q)) 20 (to_le32 (raw_length_of v))) 32 ?p"
  have s: "?s = ?h @ replicate 8 0xFF @ ?p @ replicate (BLOCK - 32 - length ?p) 0xFF"
    using splice_record [of MICRO_MAGIC "to_le32 (word_of_nat s)" "to_le64 q" "to_le32 (raw_length_of v)"] assms
    by (simp add: record_header_def)
  have "fill_record BLOCK s q v =
      splice (splice ?s 24 (to_le32 (micro_checksum (take 24 ?s) ?p))) 28 (replicate 4 0)"
    by (simp add: fill_record_def raw_length_of_def payload_of_def MICRO_HEADER_def Let_def)
  then show ?thesis unfolding s record_body_def by (simp add: splice_def)
qed

lemma take_record_body:
  assumes "length (payload_of v) \<le> m" "m \<le> n"
  shows "take (32 + m) (record_body n s q v) = record_body m s q v"
proof -
  have "n - length (payload_of v) = (m - length (payload_of v)) + (n - m)" using assms by simp
  then show ?thesis using assms by (simp add: record_body_def replicate_add)
qed

lemma parse_record_block:
  assumes "value_fits BLOCK ws v" "32 + ws \<le> BLOCK" "0 < ws" "s \<le> 0xFFFFFFFF" "q \<noteq> 0"
  shows "parse_record BLOCK ws s k (record_block BLOCK ws s q v) =
    Inr (Some \<lparr>mr_sequence = q, mr_length = length (payload_of v), mr_deleted = (v = None), mr_bank = k\<rparr>)"
proof -
  let ?b = "record_block BLOCK ws s q v" and ?h = "record_header s q v" and ?p = "payload_of v"
  have fit: "length ?p \<le> BLOCK - 32 - ws" "length ?p < 0xFFFFFFFF"
    using assms(1) by (simp_all add: value_fits_def max_value_bytes_def MICRO_HEADER_def)
  have commit: "drop (BLOCK - ws) ?b = replicate ws 0"
    using assms(2) fit by (simp add: record_block_def max_value_bytes_def MICRO_HEADER_def)
  have h: "take 24 ?b = ?h" "take 8 ?b = MICRO_MAGIC" "u32_at ?b 8 = word_of_nat s" "u64_at ?b 12 = q"
    "u32_at ?b 20 = raw_length_of v" "u32_at ?b 24 = micro_checksum ?h ?p" "take 4 (drop 28 ?b) = replicate 4 0"
    "take (length ?p) (drop 32 ?b) = ?p"
    by (simp_all add: record_block_def record_body_def record_header_def u32_at_def u64_at_def)
  have slot: "unat (word_of_nat s :: u32) = s" using assms(4) by (simp add: unat_of_nat_small32)
  have raw: "(raw_length_of v = 0xFFFFFFFF) = (v = None)"
    "(if v = None then 0 else unat (raw_length_of v)) = length ?p"
  proof -
    have "unat (word_of_nat (length x) :: u32) = length x" if "v = Some x" for x
      using fit(2) that by (simp add: payload_of_def unat_of_nat_small32)
    moreover have "word_of_nat (length x) \<noteq> (0xFFFFFFFF :: u32)" if "v = Some x" for x
      using calculation [OF that] fit(2) that by (auto simp: payload_of_def)
    ultimately show "(raw_length_of v = 0xFFFFFFFF) = (v = None)"
      "(if v = None then 0 else unat (raw_length_of v)) = length ?p"
      by (auto simp: raw_length_of_def payload_of_def split: option.splits)
  qed
  show ?thesis
    using assms(5) fit unfolding parse_record_def commit h slot Let_def raw
    by (simp add: h max_value_bytes_def MICRO_HEADER_def)
qed

lemma parse_erased:
  assumes "BLOCK \<le> length blk" "0 < ws" "ws \<le> BLOCK" "blk ! (BLOCK - 1) \<noteq> 0"
  shows "parse_record BLOCK ws s k blk = Inr None"
proof (rule uncommitted_parse)
  have "drop (BLOCK - ws) blk ! (ws - 1) = blk ! (BLOCK - 1)" "ws - 1 < length (drop (BLOCK - ws) blk)"
    using assms by simp_all
  then show "\<exists>b \<in> set (drop (BLOCK - ws) blk). b \<noteq> 0" using assms(4) by (metis nth_mem)
qed

lemma splice_splice:
  assumes "j + length ys \<le> length blk" "off + length blk \<le> length c"
  shows "splice (splice c off blk) (off + j) ys = splice c off (splice blk j ys)"
  using assms by (simp add: splice_def min_absorb2 add.assoc [symmetric])

lemma splice_slice:
  "off + length blk \<le> length c \<Longrightarrow> j + n \<le> length blk \<Longrightarrow>
   take n (drop (off + j) (splice c off blk)) = take n (drop j blk)"
  by (simp add: splice_def)

definition write_bank :: "micro_record option \<Rightarrow> nat" where
  "write_bank previous = (case previous of None \<Rightarrow> 0 | Some r \<Rightarrow> 1 - mr_bank r)"

definition uncommitted :: "nat \<Rightarrow> nat \<Rightarrow> bytes \<Rightarrow> bool" where
  "uncommitted BLOCK ws blk \<longleftrightarrow> (\<exists>b \<in> set (drop (BLOCK - ws) blk). b \<noteq> 0)"

lemma uncommitted_append:
  "length xs = BLOCK - ws \<Longrightarrow> m < ws \<Longrightarrow> uncommitted BLOCK ws (xs @ replicate m 0 @ replicate (ws - m) 0xFF)"
  by (simp add: uncommitted_def)

lemma on_flash_Inl:
  "m (ms_flash st) = (Inl e, d) \<Longrightarrow> on_flash m st = (Inl (MIo e), st\<lparr>ms_flash := d\<rparr>)"
  by (simp add: on_flash_def)

lemma on_flash_Inr:
  "m (ms_flash st) = (Inr x, d) \<Longrightarrow> on_flash m st = (Inr x, st\<lparr>ms_flash := d\<rparr>)"
  by (simp add: on_flash_def)

context flash_device
begin

text \<open>Erasing and programming one bank, whatever fails on the way.\<close>

lemma program_bank_law:
  assumes room: "off + E \<le> length (contents (ms_flash st))" and W: "W dvd off" "W dvd E" "0 < W" "W \<le> E"
    and er: "contents (ms_flash st) = splice c off (replicate E 0xFF)" "off + E \<le> length c"
    and body: "length body = E - W"
    and run: "bind_s (on_flash (fl_program ops off body)) (\<lambda>_.
        bind_s (on_flash (fl_sync ops)) (\<lambda>_.
        bind_s (on_flash (fl_program ops (off + E - W) (replicate W 0))) (\<lambda>_.
        on_flash (fl_sync ops)))) st = (r, st')"
  shows "ms_slots st' = ms_slots st \<and> ms_write_size st' = ms_write_size st \<and>
    (\<exists>blk. contents (ms_flash st') = splice c off blk \<and> length blk = E \<and>
       (r \<noteq> Inr () \<and> uncommitted E W blk \<or> blk = body @ replicate W 0)) \<and>
    (live (ms_flash st) \<longrightarrow> r = Inr () \<and> live (ms_flash st'))"
proof -
  let ?ff = "replicate E 0xFF :: bytes"
  have E: "E = (E - W) + W" using W by simp
  obtain r1 d1 where p1: "fl_program ops off body (ms_flash st) = (r1, d1)" by force
  have pr1: "programmable (take (length body) (drop off (contents (ms_flash st)))) body"
    using splice_slice [of off ?ff c 0 "E - W"] er body by (simp add: programmable_erased)
  obtain k1 where k1: "k1 \<le> length body" "is_ok r1 \<longrightarrow> k1 = length body"
    "contents d1 = splice (contents (ms_flash st)) off (and_bytes (take k1 (drop off (contents (ms_flash st)))) (take k1 body))"
    "live (ms_flash st) \<longrightarrow> is_ok r1 \<and> live d1"
  proof -
    have "off + length body \<le> length (contents (ms_flash st))" "W dvd length body"
      using room W body by (simp_all add: dvd_diff_nat)
    then show thesis using program_law [OF _ W(1) _ pr1 p1] that by blast
  qed
  have c1: "contents d1 = splice c off (take k1 body @ replicate (E - k1) 0xFF)"
  proof -
    have "take k1 (drop off (splice c off ?ff)) = replicate k1 0xFF"
      using splice_slice [of off ?ff c 0 k1] er k1(1) body by simp
    then have "contents d1 = splice (splice c off ?ff) off (take k1 body)"
      using k1(1,3) unfolding er(1) by (simp add: and_bytes_erased)
    also have "\<dots> = splice c off (splice ?ff 0 (take k1 body))"
      using splice_splice [of 0 "take k1 body" ?ff off c] er k1(1) body by simp
    finally show ?thesis using k1(1) by (simp add: splice_def min_absorb2)
  qed
  show ?thesis
  proof (cases r1)
    case (Inl e)
    let ?blk = "take k1 body @ replicate (E - k1) 0xFF :: bytes"
    have "E - k1 = (E - W - k1) + W" using k1(1) body E by linarith
    then have "?blk = (take k1 body @ replicate (E - W - k1) 0xFF) @ replicate 0 0 @ replicate (W - 0) 0xFF"
      by (simp add: replicate_add)
    then have u: "uncommitted E W ?blk"
      using uncommitted_append [of "take k1 body @ replicate (E - W - k1) 0xFF" E W 0] k1(1) body W by simp
    have len: "length ?blk = E" using k1(1) body by simp
    have res: "r = Inl (MIo e)" "st' = st\<lparr>ms_flash := d1\<rparr>"
      using run p1 Inl by (simp_all add: bind_s_Inl on_flash_Inl)
    have nl: "\<not> live (ms_flash st)" using k1(4) Inl by auto
    show ?thesis using c1 u len res nl by auto
  next
    case (Inr u1)
    then have k1': "k1 = E - W" "take k1 body = body" using k1 body by auto
    have c1': "contents d1 = splice c off (body @ replicate W 0xFF)" using c1 k1' W by simp
    obtain r2 d2 where p2: "fl_sync ops d1 = (r2, d2)" by force
    note s2 = sync_law [OF p2]
    let ?st1 = "st\<lparr>ms_flash := d1\<rparr>"
    have run1: "bind_s (on_flash (fl_sync ops)) (\<lambda>_.
        bind_s (on_flash (fl_program ops (off + E - W) (replicate W 0))) (\<lambda>_.
        on_flash (fl_sync ops))) ?st1 = (r, st')"
      using run p1 Inr by (simp add: bind_s_def on_flash_Inr)
    have u0: "uncommitted E W (body @ replicate W 0xFF)"
      using uncommitted_append [of body E W 0] body W by simp
    have len0: "length (body @ replicate W 0xFF) = E" using body E by simp
    show ?thesis
    proof (cases r2)
      case (Inl e)
      have res: "r = Inl (MIo e)" "st' = st\<lparr>ms_flash := d2\<rparr>"
        using run1 p2 Inl by (simp_all add: bind_s_Inl on_flash_Inl)
      have nl: "\<not> live (ms_flash st)" using k1(4) s2 Inl by auto
      show ?thesis using c1' s2 u0 len0 res nl by auto
    next
      case (Inr u2)
      let ?off = "off + E - W"
      obtain r3 d3 where p3: "fl_program ops ?off (replicate W 0) d2 = (r3, d3)" by force
      have off: "?off = off + (E - W)" using W by simp
      have c2: "contents d2 = splice c off (body @ replicate W 0xFF)" using c1' s2 by simp
      have sl: "take j (drop ?off (contents d2)) = replicate j 0xFF" if "j \<le> W" for j
        using splice_slice [of off "body @ replicate W 0xFF" c "E - W" j] er(2) body W that
        unfolding c2 off by simp
      have pr3: "programmable (take (length (replicate W (0 :: u8))) (drop ?off (contents d2))) (replicate W 0)"
        using sl [of W] by (simp add: programmable_erased)
      have dv: "W dvd ?off" using W by (simp add: dvd_diff_nat)
      have lenc: "length (contents d2) = length c" using c2 er(2) body W by simp
      obtain k3 where k3: "k3 \<le> W" "is_ok r3 \<longrightarrow> k3 = W"
        "contents d3 = splice (contents d2) ?off (and_bytes (take k3 (drop ?off (contents d2))) (take k3 (replicate W 0)))"
        "live d2 \<longrightarrow> is_ok r3 \<and> live d3"
      proof -
        have "?off + length (replicate W (0 :: u8)) \<le> length (contents d2)" "W dvd length (replicate W (0 :: u8))"
          using lenc er(2) W by simp_all
        note law = program_law [OF this(1) dv this(2) pr3 p3]
        show thesis using law that unfolding length_replicate by blast
      qed
      let ?blk = "body @ replicate k3 0 @ replicate (W - k3) 0xFF"
      have c3: "contents d3 = splice c off ?blk"
      proof -
        have "contents d3 = splice (splice c off (body @ replicate W 0xFF)) (off + (E - W)) (replicate k3 0)"
          using k3(1,3) sl [OF k3(1)] unfolding c2 off by (simp add: and_bytes_erased min_absorb1)
        also have "\<dots> = splice c off (splice (body @ replicate W 0xFF) (E - W) (replicate k3 0))"
          using splice_splice [of "E - W" "replicate k3 0" "body @ replicate W 0xFF" off c] er(2) body W k3(1)
          by simp
        finally show ?thesis using body k3(1) by (simp add: splice_def)
      qed
      have len3: "length ?blk = E" using body W k3(1) by simp
      let ?st2 = "st\<lparr>ms_flash := d2\<rparr>"
      have run2: "bind_s (on_flash (fl_program ops ?off (replicate W 0))) (\<lambda>_. on_flash (fl_sync ops)) ?st2 = (r, st')"
        using run1 p2 Inr by (simp add: bind_s_def on_flash_Inr)
      have blk3: "uncommitted E W ?blk \<or> ?blk = body @ replicate W 0"
        using uncommitted_append [of body E W k3] body k3(1) by (cases "k3 = W") auto
      show ?thesis
      proof (cases r3)
        case (Inl e)
        have res: "r = Inl (MIo e)" "st' = st\<lparr>ms_flash := d3\<rparr>"
          using run2 p3 Inl by (simp_all add: bind_s_Inl on_flash_Inl)
        have nl: "\<not> live (ms_flash st)" using k1(4) s2 k3(4) Inl by auto
        have "\<exists>blk. contents d3 = splice c off blk \<and> length blk = E \<and>
            (uncommitted E W blk \<or> blk = body @ replicate W 0)" using c3 len3 blk3 by blast
        then show ?thesis using res nl by simp
      next
        case (Inr u3)
        then have k3': "k3 = W" using k3(2) by simp
        obtain r4 d4 where p4: "fl_sync ops d3 = (r4, d4)" by force
        note s4 = sync_law [OF p4]
        have run3: "on_flash (fl_sync ops) (st\<lparr>ms_flash := d3\<rparr>) = (r, st')"
          using run2 p3 Inr by (simp add: bind_s_def on_flash_Inr)
        have st': "st' = st\<lparr>ms_flash := d4\<rparr>" and r: "live (ms_flash st) \<longrightarrow> r = Inr () \<and> live d4"
          using run3 p4 s4 k1(4) s2 k3(4) by (auto simp: on_flash_def is_ok_def split: sum.splits)
        have "contents d4 = splice c off (body @ replicate W 0)" "length (body @ replicate W 0) = E"
          using c3 s4 k3' body W by simp_all
        then show ?thesis using r unfolding st' by auto
      qed
    qed
  qed
qed

end

end
