(* ===== verification/Micro_Props.thy ===== *)
theory Micro_Props
  imports Micro_Store
begin

text \<open>
  What the operations of the flash store do to the slots: the atomicity of a write under any
  failure of the board, the values read back, and the one interruption the format does not
  survive.
\<close>

section \<open>A write and its bank\<close>

definition write_args_ok :: "nat \<Rightarrow> nat \<Rightarrow> bytes option \<Rightarrow> bool" where
  "write_args_ok BLOCK ws v \<longleftrightarrow>
     \<not> (case v of None \<Rightarrow> False | Some x \<Rightarrow> length x > max_value_bytes BLOCK ws \<or> length x \<ge> 0xFFFFFFFF)"

lemma write_args_fit: "write_args_ok BLOCK ws v \<longleftrightarrow> value_fits BLOCK ws v"
  by (auto simp: write_args_ok_def value_fits_def payload_of_def split: option.splits)

lemma newer_Some: "newer a b = Inr (Some r) \<Longrightarrow> a = Some r \<or> b = Some r"
  by (cases a; cases b) (auto simp: newer_def split: if_splits)

lemma slot_latest_bank:
  assumes "slot_latest BLOCK ws s c = (Inr (Some r) :: 'e micro_error + _)"
  shows "mr_bank r < 2 \<and> bank_at BLOCK ws s (mr_bank r) c = (Inr (Some r) :: 'e micro_error + _) \<and>
    mr_length r \<le> max_value_bytes BLOCK ws"
proof -
  obtain a b where ab: "bank_at BLOCK ws s 0 c = (Inr a :: 'e micro_error + _)"
      "bank_at BLOCK ws s 1 c = (Inr b :: 'e micro_error + _)" "newer a b = (Inr (Some r) :: 'e micro_error + _)"
    using assms by (auto simp: slot_latest_def bind_r_eq_Inr)
  then have "(\<exists>k < 2. bank_at BLOCK ws s k c = (Inr (Some r) :: 'e micro_error + _))"
    using newer_Some [OF ab(3)] by (auto intro: exI [of _ 0] exI [of _ "Suc 0"])
  then obtain k where k: "k < 2" "bank_at BLOCK ws s k c = (Inr (Some r) :: 'e micro_error + _)" by blast
  then show ?thesis using parse_record_bank [OF k(2) [unfolded bank_at_def]] by simp
qed

lemma write_bank_bound: "write_bank prev < 2"
  by (auto simp: write_bank_def split: option.splits)

context flash_device
begin

lemma write_law:
  assumes geo: "micro_geometry E W (contents (ms_flash st)) st" and s: "s < ms_slots st" "s \<le> 0xFFFFFFFF"
    and run: "micro_write ops E s v st = (r, st')"
  defines "c \<equiv> contents (ms_flash st)" and "c' \<equiv> contents (ms_flash st')"
  shows "ms_slots st' = ms_slots st \<and> ms_write_size st' = ms_write_size st \<and> length c' = length c \<and>
    (c' = c \<and> r \<noteq> Inr () \<or>
     (\<exists>prev q blk. value_fits E W v \<and> slot_latest E W s c = (Inr prev :: 'e micro_error + _) \<and>
        next_sequence prev = (Inr q :: 'e micro_error + _) \<and>
        c' = splice c (bank_offset E s (write_bank prev)) blk \<and> length blk = E \<and>
        (r \<noteq> Inr () \<and> torn (ms_flash st) (block_of E s (write_bank prev) c) blk \<or>
         r \<noteq> Inr () \<and> uncommitted E W blk \<or> blk = record_block E W s q v)))"
    (is "_ \<and> _ \<and> _ \<and> ?out")
    and "live (ms_flash st) \<Longrightarrow> value_fits E W v \<Longrightarrow>
      slot_latest E W s c = (Inr prev :: 'e micro_error + _) \<Longrightarrow>
      next_sequence prev = (Inr q :: 'e micro_error + _) \<Longrightarrow> r = Inr () \<and> live (ms_flash st')"
proof -
  have g: "ms_write_size st = W" "0 < W" "32 + W \<le> E" "W dvd E"
    using geo by (simp_all add: micro_geometry_def MICRO_HEADER_def)
  obtain rl s1 where lat: "micro_latest ops E s st = (rl, s1)" by force
  note ll = latest_law [OF geo s lat]
  have same: "ms_slots s1 = ms_slots st" "ms_write_size s1 = ms_write_size st" "contents (ms_flash s1) = c"
    "torn (ms_flash s1) = torn (ms_flash st)" "live (ms_flash st) \<longrightarrow> live (ms_flash s1)"
    using ll unfolding c_def same_def by auto
  let ?goal = "ms_slots st' = ms_slots st \<and> ms_write_size st' = ms_write_size st \<and> length c' = length c \<and> ?out"
  let ?lv = "live (ms_flash st) \<longrightarrow> value_fits E W v \<longrightarrow> (\<forall>prev q.
      slot_latest E W s c = (Inr prev :: 'e micro_error + _) \<longrightarrow> next_sequence prev = (Inr q :: 'e micro_error + _) \<longrightarrow>
      r = Inr () \<and> live (ms_flash st'))"
  have "?goal \<and> ?lv"
  proof (cases "value_fits E W v")
    case False
    then have "r = Inl MCapacity" "st' = st"
      using run g by (auto simp: micro_write_def write_args_fit [unfolded write_args_ok_def, symmetric])
    then show ?thesis using False by (auto simp: c_def c'_def)
  next
    case fits: True
    then have args: "\<not> (case v of None \<Rightarrow> False | Some x \<Rightarrow> length x > max_value_bytes E W \<or> length x \<ge> 0xFFFFFFFF)"
      by (simp add: write_args_fit [unfolded write_args_ok_def, symmetric])
    show ?thesis
    proof (cases "bind_r rl next_sequence")
      case (Inl e)
      then have "r = Inl e" "st' = s1"
        using run lat args g by (auto simp: micro_write_def bind_s_def lift_s_def bind_r_def split: sum.splits)
      moreover have "\<not> (live (ms_flash st) \<and> (\<exists>prev q. slot_latest E W s c = (Inr prev :: 'e micro_error + _) \<and>
          next_sequence prev = (Inr q :: 'e micro_error + _)))"
        using Inl ll unfolding c_def by auto
      ultimately show ?thesis using same by (auto simp: c'_def)
    next
      case (Inr q)
      then obtain prev where prev: "rl = Inr prev" "next_sequence prev = (Inr q :: 'e micro_error + _)"
        by (auto simp: bind_r_eq_Inr)
      have sl: "slot_latest E W s c = (Inr prev :: 'e micro_error + _)" using ll prev(1) by (auto simp: c_def)
      let ?k = "write_bank prev" and ?st = s1
      let ?off = "bank_offset E s ?k" and ?body = "record_body (max_value_bytes E W) s q v"
      have room: "?off + E \<le> length c" using bank_room [OF geo s(1) write_bank_bound] by (simp add: c_def)
      have dv: "E dvd ?off" "W dvd ?off" using g(4) by (simp_all add: bank_offset_def)
      have fit: "length (payload_of v) \<le> max_value_bytes E W" using fits by (simp add: value_fits_def)
      have mx: "max_value_bytes E W \<le> E - 32" "E - W = 32 + max_value_bytes E W"
        using g by (simp_all add: max_value_bytes_def MICRO_HEADER_def)
      have body: "take (E - W) (fill_record E s q v) = ?body" "length ?body = E - W"
        using fill_record_eq [of v E s q] take_record_body [OF fit mx(1)] fit mx g by simp_all
      have run1: "bind_s (on_flash (fl_erase ops ?off E)) (\<lambda>_. bind_s (on_flash (fl_program ops ?off ?body)) (\<lambda>_.
          bind_s (on_flash (fl_sync ops)) (\<lambda>_.
          bind_s (on_flash (fl_program ops (?off + E - W) (replicate W 0))) (\<lambda>_.
          on_flash (fl_sync ops))))) s1 = (r, st')"
        using run lat prev args g(1) unfolding micro_write_def
        by (simp add: bind_s_def [of "micro_latest ops E s"] Let_def body(1) flip: write_bank_def)
      obtain r1 d1 where er: "fl_erase ops ?off E (ms_flash s1) = (r1, d1)" by force
      note el = erase_law [OF _ dv(1) er, unfolded same(3), OF room]
      show ?thesis
      proof (cases r1)
        case (Inl e)
        then have res: "r = Inl (MIo e)" "st' = s1\<lparr>ms_flash := d1\<rparr>"
          using run1 er by (simp_all add: bind_s_def on_flash_Inl)
        obtain blk where blk: "torn (ms_flash st) (block_of E s ?k c) blk" "contents d1 = splice c ?off blk"
          using el Inl same(4) by (auto simp: block_of_def)
        then have len: "length blk = E" using torn_length [OF blk(1)] room by (simp add: block_of_def)
        have "\<not> live (ms_flash st)" using el Inl same(5) by auto
        then show ?thesis using res blk len same fits sl prev(2) room by (auto simp: c'_def)
      next
        case (Inr u)
        let ?st1 = "s1\<lparr>ms_flash := d1\<rparr>"
        have er1: "contents (ms_flash ?st1) = splice c ?off (replicate E 0xFF)"
          using el Inr by simp
        have room1: "?off + E \<le> length (contents (ms_flash ?st1))" using room unfolding er1 by simp
        have run2: "bind_s (on_flash (fl_program ops ?off ?body)) (\<lambda>_.
          bind_s (on_flash (fl_sync ops)) (\<lambda>_.
          bind_s (on_flash (fl_program ops (?off + E - W) (replicate W 0))) (\<lambda>_.
          on_flash (fl_sync ops)))) ?st1 = (r, st')"
          using run1 er Inr by (simp add: bind_s_def [of "on_flash (fl_erase ops ?off E)"] on_flash_Inr)
        have WE: "W \<le> E" using g by simp
        note pb = program_bank_law [OF room1 dv(2) g(4) g(2) WE er1 room body(2) run2]
        have rb: "?body @ replicate W 0 = record_block E W s q v" by (simp add: record_block_def)
        obtain blk where blk: "c' = splice c ?off blk" "length blk = E"
          "r \<noteq> Inr () \<and> uncommitted E W blk \<or> blk = record_block E W s q v"
          using pb unfolding rb c'_def by blast
        have "live (ms_flash st) \<longrightarrow> r = Inr () \<and> live (ms_flash st')" using pb el Inr same(5) by auto
        then show ?thesis using pb blk same fits sl prev(2) room by auto
      qed
    qed
  qed
  then show "?goal" "live (ms_flash st) \<Longrightarrow> value_fits E W v \<Longrightarrow>
      slot_latest E W s c = (Inr prev :: 'e micro_error + _) \<Longrightarrow>
      next_sequence prev = (Inr q :: 'e micro_error + _) \<Longrightarrow> r = Inr () \<and> live (ms_flash st')" by blast+
qed

end

section \<open>Slots under a change of one bank\<close>

lemma block_of_splice:
  assumes "bank_offset BLOCK s k + BLOCK \<le> length c" "length blk = BLOCK" "k < 2" "k' < 2"
  shows "block_of BLOCK s' k' (splice c (bank_offset BLOCK s k) blk) =
    (if s' = s \<and> k' = k then blk else block_of BLOCK s' k' c)"
proof (cases "s' = s \<and> k' = k")
  case True
  then show ?thesis using assms by (simp add: block_of_def splice_def)
next
  case False
  let ?n = "s * 2 + k" and ?n' = "s' * 2 + k'"
  have off: "bank_offset BLOCK s k \<le> length c" using assms(1) by simp
  have "?n' \<noteq> ?n" using False assms(3,4) by presburger
  then consider "Suc ?n' \<le> ?n" | "Suc ?n \<le> ?n'" by linarith
  then have "take BLOCK (drop (bank_offset BLOCK s' k') (splice c (bank_offset BLOCK s k) blk)) =
      take BLOCK (drop (bank_offset BLOCK s' k') c)"
  proof cases
    case 1
    then have "Suc ?n' * BLOCK \<le> ?n * BLOCK" by (rule mult_le_mono1)
    then have "bank_offset BLOCK s' k' + BLOCK \<le> bank_offset BLOCK s k" by (simp add: bank_offset_def algebra_simps)
    then show ?thesis using off by (rule slice_splice_before)
  next
    case 2
    then have "Suc ?n * BLOCK \<le> ?n' * BLOCK" by (rule mult_le_mono1)
    then have "bank_offset BLOCK s k + length blk \<le> bank_offset BLOCK s' k'"
      by (simp add: bank_offset_def assms(2) algebra_simps)
    then show ?thesis using off by (rule slice_splice_after)
  qed
  then show ?thesis using False by (auto simp: block_of_def)
qed

lemma newer_None: "newer a b = Inr None \<longleftrightarrow> a = None \<and> b = None"
  by (cases a; cases b) (auto simp: newer_def)

text \<open>The bank a write uses is empty, or it is the other one.\<close>

lemma slot_latest_other:
  assumes "slot_latest BLOCK ws s c = (Inr prev :: 'e micro_error + _)"
  shows "bank_at BLOCK ws s (1 - write_bank prev) c = (Inr prev :: 'e micro_error + _)"
proof (cases prev)
  case None
  then show ?thesis using assms
    by (auto simp: slot_latest_def bind_r_eq_Inr newer_None write_bank_def)
next
  case (Some r)
  then have r: "mr_bank r < 2" "bank_at BLOCK ws s (mr_bank r) c = (Inr prev :: 'e micro_error + _)"
    using slot_latest_bank assms by blast+
  then have "1 - write_bank prev = mr_bank r" using Some by (auto simp: write_bank_def)
  then show ?thesis using r by simp
qed

lemma slot_latest_two:
  assumes "k < 2" "bank_at BLOCK ws s (1 - k) c = (Inr p :: 'e micro_error + _)"
    "bank_at BLOCK ws s k c = (Inr (Some r) :: 'e micro_error + _)" "\<forall>x. p = Some x \<longrightarrow> mr_sequence x < mr_sequence r"
  shows "slot_latest BLOCK ws s c = (Inr (Some r) :: 'e micro_error + _)"
proof -
  have "k = 0 \<or> k = 1" using assms(1) by linarith
  then show ?thesis using assms(2-4) by (cases p) (auto simp: slot_latest_def newer_def)
qed

lemma slot_latest_one:
  assumes "k < 2" "bank_at BLOCK ws s (1 - k) c = (Inr p :: 'e micro_error + _)"
    "bank_at BLOCK ws s k c = (Inr None :: 'e micro_error + _)"
  shows "slot_latest BLOCK ws s c = (Inr p :: 'e micro_error + _)"
proof -
  have "k = 0 \<or> k = 1" using assms(1) by linarith
  then show ?thesis using assms(2,3) by (cases p) (auto simp: slot_latest_def newer_def)
qed

lemma next_sequence_greater:
  assumes "next_sequence prev = (Inr q :: 'e micro_error + _)"
  shows "q \<noteq> 0 \<and> (\<forall>x. prev = Some x \<longrightarrow> mr_sequence x < q)"
proof (cases prev)
  case (Some r)
  then have r: "mr_sequence r \<noteq> - 1" and q: "q = 1 + mr_sequence r"
    using assms by (auto simp: next_sequence_def split: if_splits)
  then have "q \<noteq> 0" by (metis add_eq_0_iff add.commute minus_unique)
  then have "unat q = Suc (unat (mr_sequence r))" unfolding q by (rule unatSuc)
  then show ?thesis using Some \<open>q \<noteq> 0\<close> by (simp add: word_less_nat_alt)
qed (use assms in \<open>auto simp: next_sequence_def\<close>)

definition value_of_record :: "micro_record option \<Rightarrow> bytes \<Rightarrow> bytes option" where
  "value_of_record rec blk =
     (case rec of None \<Rightarrow> None | Some r \<Rightarrow> if mr_deleted r then None else Some (take (mr_length r) (drop 32 blk)))"

lemma slot_value_eq:
  assumes "slot_latest BLOCK ws s c = (Inr rec :: 'e micro_error + _)"
  shows "slot_value BLOCK ws s c = (Inr (value_of_record rec (block_of BLOCK s (1 - write_bank rec) c)) :: 'e micro_error + _)"
proof (cases rec)
  case (Some r)
  then have "1 - write_bank rec = mr_bank r"
    using slot_latest_bank [of BLOCK ws s c r, where 'e = 'e] assms by (auto simp: write_bank_def)
  then show ?thesis using assms Some by (simp add: slot_value_def value_of_record_def MICRO_HEADER_def)
qed (use assms in \<open>simp add: slot_value_def value_of_record_def\<close>)

lemma slot_value_cong:
  "block_of BLOCK s 0 c = block_of BLOCK s 0 c' \<Longrightarrow> block_of BLOCK s 1 c = block_of BLOCK s 1 c' \<Longrightarrow>
   slot_latest BLOCK ws s c = (slot_latest BLOCK ws s c' :: 'e micro_error + _) \<and>
   slot_value BLOCK ws s c = (slot_value BLOCK ws s c' :: 'e micro_error + _)"
proof -
  assume b: "block_of BLOCK s 0 c = block_of BLOCK s 0 c'" "block_of BLOCK s 1 c = block_of BLOCK s 1 c'"
  then have l: "slot_latest BLOCK ws s c = (slot_latest BLOCK ws s c' :: 'e micro_error + _)"
    by (simp add: slot_latest_def bank_at_def)
  have "block_of BLOCK s (1 - write_bank rec) c = block_of BLOCK s (1 - write_bank rec) c'" for rec
    using b write_bank_bound [of rec] by (cases "write_bank rec") auto
  note same = this
  show ?thesis
  proof (cases "slot_latest BLOCK ws s c' :: 'e micro_error + _")
    case (Inl e)
    then show ?thesis using l by (simp add: slot_value_def)
  next
    case (Inr rec)
    then have "slot_latest BLOCK ws s c = (Inr rec :: 'e micro_error + _)" using l by simp
    from slot_value_eq [OF this] slot_value_eq [OF Inr] show ?thesis using l same by simp
  qed
qed

lemma uncommitted_bank: "uncommitted BLOCK ws blk \<Longrightarrow> parse_record BLOCK ws s k blk = Inr None"
  by (rule uncommitted_parse) (simp add: uncommitted_def)

section \<open>The slots after a write\<close>

text \<open>What a write does to the flash contents, whatever fails: a summary of \<open>write_law\<close>.\<close>

definition slots_after ::
    "nat \<Rightarrow> nat \<Rightarrow> nat \<Rightarrow> bytes option \<Rightarrow> bytes \<Rightarrow> bytes \<Rightarrow> bool \<Rightarrow> bool" where
  "slots_after E W s v c c' ok \<longleftrightarrow>
     (slot_value E W s c' = (slot_value E W s c :: string micro_error + _) \<and> \<not> ok \<or>
      slot_value E W s c' = (Inr v :: string micro_error + _)) \<and>
     (\<forall>s'. s' \<noteq> s \<longrightarrow> slot_value E W s' c' = (slot_value E W s' c :: string micro_error + _))"

lemma slots_after_keep: "slots_after E W s v c c False"
  by (simp add: slots_after_def)

lemma other_slots:
  assumes "bank_offset E s k + E \<le> length c" "length blk = E" "k < 2" "s' \<noteq> s"
  shows "slot_value E W s' (splice c (bank_offset E s k) blk) = (slot_value E W s' c :: 'e micro_error + _)"
  using slot_value_cong [of E s' "splice c (bank_offset E s k) blk" c W, where 'e = 'e] assms
  by (simp add: block_of_splice)

lemma slots_after_uncommitted:
  assumes latest: "slot_latest E W s c = (Inr prev :: string micro_error + _)"
    and room: "bank_offset E s (write_bank prev) + E \<le> length c" and len: "length blk = E"
    and un: "parse_record E W s (write_bank prev) blk = (Inr None :: string micro_error + _)"
  shows "slots_after E W s v c (splice c (bank_offset E s (write_bank prev)) blk) False"
proof -
  let ?k = "write_bank prev" and ?c' = "splice c (bank_offset E s (write_bank prev)) blk"
  have k: "?k < 2" "1 - ?k < 2" "1 - ?k \<noteq> ?k" using write_bank_bound [of prev] by arith+
  note blk = block_of_splice [OF room len k(1)]
  have "bank_at E W s (1 - ?k) ?c' = (Inr prev :: string micro_error + _)"
    using slot_latest_other [OF latest] k by (simp add: bank_at_def blk)
  moreover have "bank_at E W s ?k ?c' = (Inr None :: string micro_error + _)"
    using un k by (simp add: bank_at_def blk)
  ultimately have "slot_latest E W s ?c' = (Inr prev :: string micro_error + _)"
    using slot_latest_one [OF k(1)] by blast
  then have "slot_value E W s ?c' = (slot_value E W s c :: string micro_error + _)"
    using latest k by (simp add: slot_value_eq blk)
  then show ?thesis using other_slots [OF room len k(1), where 'e = string] by (simp add: slots_after_def)
qed

lemma slots_after_committed:
  assumes latest: "slot_latest E W s c = (Inr prev :: string micro_error + _)"
    and q: "next_sequence prev = (Inr q :: string micro_error + _)"
    and room: "bank_offset E s (write_bank prev) + E \<le> length c"
    and fits: "value_fits E W v" and geo: "32 + W \<le> E" "0 < W" "s \<le> 0xFFFFFFFF"
  shows "slots_after E W s v c (splice c (bank_offset E s (write_bank prev)) (record_block E W s q v)) ok"
proof -
  let ?k = "write_bank prev" and ?blk = "record_block E W s q v"
  let ?c' = "splice c (bank_offset E s (write_bank prev)) ?blk"
  let ?r = "\<lparr>mr_sequence = q, mr_length = length (payload_of v), mr_deleted = (v = None), mr_bank = ?k\<rparr>"
  have k: "?k < 2" "1 - ?k < 2" "1 - ?k \<noteq> ?k" using write_bank_bound [of prev] by arith+
  have len: "length ?blk = E" using length_record_block [OF fits geo(1)] .
  note blk = block_of_splice [OF room len k(1)]
  note ns = next_sequence_greater [OF q]
  have lt: "\<forall>x. prev = Some x \<longrightarrow> mr_sequence x < mr_sequence ?r" using ns by simp
  have "bank_at E W s (1 - ?k) ?c' = (Inr prev :: string micro_error + _)"
    using slot_latest_other [OF latest] k by (simp add: bank_at_def blk)
  moreover have "bank_at E W s ?k ?c' = (Inr (Some ?r) :: string micro_error + _)"
    using parse_record_block [OF fits geo(1,2,3), where 'a = string] ns k by (simp add: bank_at_def blk)
  ultimately have l: "slot_latest E W s ?c' = (Inr (Some ?r) :: string micro_error + _)"
    using slot_latest_two [OF k(1) _ _ lt] by blast
  have "1 - write_bank (Some ?r) = ?k" using k(1) by (auto simp: write_bank_def)
  then have "slot_value E W s ?c' = (Inr (value_of_record (Some ?r) ?blk) :: string micro_error + _)"
    using slot_value_eq [OF l] k by (simp add: blk)
  moreover have "value_of_record (Some ?r) ?blk = v"
    by (cases v) (simp_all add: value_of_record_def record_block_def record_body_def payload_of_def)
  ultimately show ?thesis using other_slots [OF room len k(1), where 'e = string] by (simp add: slots_after_def)
qed

lemma torn_uncommitted:
  assumes "ram_torn d old blk" "length old = 256"
    "uncommitted 256 8 old \<or> (\<forall>f. rf_fail_after d = Some f \<longrightarrow> f \<le> rf_operations d \<or> rf_operations d + 249 \<le> f)"
  shows "blk = old \<or> uncommitted 256 8 blk"
proof -
  obtain j where j: "j < 256" "rf_fail_after d = Some (rf_operations d + j)" "blk = replicate j 0xFF @ drop j old"
    using assms(1,2) by (auto simp: ram_torn_def)
  have len: "length blk = 256" using j assms(2) by simp
  show ?thesis
  proof (cases "j = 0")
    case False
    have at: "blk ! (248 + i) = (if 248 + i < j then 0xFF else old ! (248 + i))" if "i < 8" for i
      using j assms(2) that by (simp add: nth_append)
    have mem: "blk ! (248 + i) \<in> set (drop 248 blk)" if "i < 8" for i
      using nth_mem [of i "drop 248 blk"] len that by simp
    show ?thesis
    proof (cases "249 \<le> j")
      case True
      then have "blk ! (248 + 0) \<noteq> 0" using at [of 0] by simp
      then show ?thesis using mem [of 0] by (auto simp: uncommitted_def)
    next
      case small: False
      then have "uncommitted 256 8 old" using assms(3) j(2) False by auto
      then obtain i where i: "i < 8" "old ! (248 + i) \<noteq> 0"
        using assms(2) by (auto simp: uncommitted_def in_set_conv_nth)
      then have "blk ! (248 + i) \<noteq> 0" using at [OF i(1)] by simp
      then show ?thesis using mem [OF i(1)] by (auto simp: uncommitted_def)
    qed
  qed (simp add: j(3))
qed

section \<open>On the simulated board\<close>

text \<open>A store as \<^verbatim>\<open>Store::<_, 256>::new\<close> returns it.\<close>

definition ram_store :: "nat \<Rightarrow> ram_flash \<Rightarrow> ram_flash micro_store \<Rightarrow> bool" where
  "ram_store n d st \<longleftrightarrow> micro_new ram_ops 256 d n = Inr st"

lemma ram_store_geometry:
  assumes "ram_store n d st"
  shows "ms_flash st = d" "ms_slots st = n" "micro_geometry 256 8 (rf_bytes (ms_flash st)) st"
    "n * 2 * 256 \<le> length (rf_bytes d)"
  using assms by (auto simp: ram_store_def micro_new_def ram_ops_def micro_geometry_def MICRO_HEADER_def
      Let_def split: if_splits)

text \<open>C30: Atomicity under power cuts: wherever the power fails during a write, each slot then
  holds its old value, or the written slot holds its new value; a write that returns Ok has
  stored the new value. Excluded is a cut inside the erase of an older committed copy, after
  its first byte and before its commit unit (see the next property).\<close>

theorem micro_write_atomic:
  assumes new: "ram_store n d st" and s: "s < n" "s \<le> 0xFFFFFFFF"
    and readable: "slot_latest 256 8 s (rf_bytes d) = (Inr prev :: string micro_error + _)"
    and cut: "uncommitted 256 8 (block_of 256 s (write_bank prev) (rf_bytes d)) \<or>
      (\<forall>f. rf_fail_after d = Some f \<longrightarrow> f \<le> rf_operations d \<or> rf_operations d + 249 \<le> f)"
    and run: "micro_write ram_ops 256 s v st = (r, st')"
  shows "slots_after 256 8 s v (rf_bytes d) (rf_bytes (ms_flash st')) (r = Inr ())"
proof -
  note g = ram_store_geometry [OF new]
  have s': "s < ms_slots st" using s(1) g(2) by simp
  let ?c = "rf_bytes d" and ?c' = "rf_bytes (ms_flash st')"
  have room: "bank_offset 256 s k + 256 \<le> length ?c" if "k < 2" for k
    using bank_room [OF g(3) s' that] g(1) by simp
  note law = ram.write_law(1) [OF g(3) s' s(2) run, unfolded g(1)]
  have not_ok: "slots_after 256 8 s v ?c ?c' (r = Inr ()) \<longleftrightarrow> slots_after 256 8 s v ?c ?c' False" if "r \<noteq> Inr ()"
    using that by simp
  show ?thesis
  proof (cases "?c' = ?c \<and> r \<noteq> Inr ()")
    case True
    then show ?thesis by (simp add: slots_after_keep)
  next
    case False
    then obtain prev' q blk where w: "value_fits 256 8 v"
      "slot_latest 256 8 s ?c = (Inr prev' :: string micro_error + _)"
      "next_sequence prev' = (Inr q :: string micro_error + _)"
      "?c' = splice ?c (bank_offset 256 s (write_bank prev')) blk" "length blk = 256"
      "r \<noteq> Inr () \<and> ram_torn d (block_of 256 s (write_bank prev') ?c) blk \<or>
       r \<noteq> Inr () \<and> uncommitted 256 8 blk \<or> blk = record_block 256 8 s q v"
      using law by blast
    have prev: "prev' = prev" using w(2) readable by simp
    note room' = room [OF write_bank_bound [of prev]]
    have len: "length (block_of 256 s (write_bank prev) ?c) = 256" using room' by (simp add: block_of_def)
    consider "blk = record_block 256 8 s q v" | "r \<noteq> Inr ()" "uncommitted 256 8 blk"
      | "r \<noteq> Inr ()" "blk = block_of 256 s (write_bank prev) ?c"
      using w(6) torn_uncommitted [OF _ len cut, of blk] prev by blast
    then show ?thesis
    proof cases
      case 1
      show ?thesis
        using slots_after_committed [OF w(2,3) _ w(1) _ _ s(2)] room' unfolding w(4) 1 prev by simp
    next
      case 2
      show ?thesis
        using slots_after_uncommitted [OF readable room' w(5) uncommitted_bank [OF 2(2)], of v] 2(1)
        unfolding w(4) prev by simp
    next
      case 3
      have "?c' = ?c" using room' unfolding w(4) prev 3(2)
        by (simp add: splice_def block_of_def min_absorb2 add.commute flip: drop_drop)
      then show ?thesis using 3(1) by (simp add: slots_after_keep)
    qed
  qed
qed

definition ex_board :: "nat option \<Rightarrow> ram_flash" where
  "ex_board f = ram_fresh\<lparr>rf_fail_after := f\<rparr>"

definition ex_store :: "nat option \<Rightarrow> ram_flash micro_store" where
  "ex_store f = \<lparr>ms_flash = ex_board f, ms_slots = 2, ms_write_size = 8\<rparr>"

lemma ex_store_new: "ram_store 2 (ex_board f) (ex_store f)"
  by (simp add: ram_store_def micro_new_def ram_ops_def ex_board_def ram_fresh_def ex_store_def
      MICRO_HEADER_def)

lemma fresh_block: "s < 2 \<Longrightarrow> k < 2 \<Longrightarrow> block_of 256 s k (rf_bytes (ex_board f)) = replicate 256 0xFF"
proof -
  assume "s < 2" "k < 2"
  then have "s * 2 + k \<le> 3" by linarith
  then have "(s * 2 + k) * 256 \<le> 3 * 256" by (rule mult_le_mono1)
  then have "min 256 (1024 - (s * 2 + k) * 256) = 256" by linarith
  then show ?thesis by (simp only: block_of_def bank_offset_def ex_board_def ram_fresh_def ram_flash.simps
        drop_replicate take_replicate)
qed

lemma fresh_uncommitted: "uncommitted 256 8 (replicate 256 0xFF)"
  by (simp add: uncommitted_def)

lemma fresh_latest: "s < 2 \<Longrightarrow> slot_latest 256 8 s (rf_bytes (ex_board f)) = (Inr None :: 'e micro_error + _)"
  by (simp add: slot_latest_def bank_at_def fresh_block uncommitted_bank [OF fresh_uncommitted] newer_def)

theorem micro_write_atomic_witness:
  "slots_after 256 8 0 (Some [7]) (rf_bytes (ex_board (Some 300)))
     (rf_bytes (ms_flash (snd (micro_write ram_ops 256 0 (Some [7]) (ex_store (Some 300))))))
     (fst (micro_write ram_ops 256 0 (Some [7]) (ex_store (Some 300))) = Inr ())"
proof (rule micro_write_atomic [OF ex_store_new, where prev = None])
  show "slot_latest 256 8 0 (rf_bytes (ex_board (Some 300))) = (Inr None :: string micro_error + _)"
    by (rule fresh_latest) simp
  show "uncommitted 256 8 (block_of 256 0 (write_bank None) (rf_bytes (ex_board (Some 300)))) \<or>
      (\<forall>f. rf_fail_after (ex_board (Some 300)) = Some f \<longrightarrow>
         f \<le> rf_operations (ex_board (Some 300)) \<or> rf_operations (ex_board (Some 300)) + 249 \<le> f)"
    using fresh_block [OF _ write_bank_bound] fresh_uncommitted by simp
qed simp_all

text \<open>C38: On a board that does not fail, a write of a value that fits, to a slot that can be read
  and whose sequence numbers are not used up, returns Ok and stores the value.\<close>

theorem micro_write_total:
  assumes new: "ram_store n d st" and s: "s < n" "s \<le> 0xFFFFFFFF" and live: "rf_fail_after d = None"
    and fits: "value_fits 256 8 v"
    and readable: "slot_latest 256 8 s (rf_bytes d) = (Inr prev :: string micro_error + _)"
    and sequence: "next_sequence prev = (Inr q :: string micro_error + _)"
  shows "\<exists>st'. micro_write ram_ops 256 s v st = (Inr (), st') \<and> rf_fail_after (ms_flash st') = None \<and>
    slots_after 256 8 s v (rf_bytes d) (rf_bytes (ms_flash st')) True"
proof -
  note g = ram_store_geometry [OF new]
  have s': "s < ms_slots st" using s(1) g(2) by simp
  obtain r st' where run: "micro_write ram_ops 256 s v st = (r, st')" by force
  have r: "r = Inr ()" "rf_fail_after (ms_flash st') = None"
    using ram.write_law(2) [OF g(3) s' s(2) run] live fits readable sequence g(1)
    by (auto simp: ram_live_def)
  have "slots_after 256 8 s v (rf_bytes d) (rf_bytes (ms_flash st')) (r = Inr ())"
    using ram.write_law(1) [OF g(3) s' s(2) run, unfolded g(1)] r(1)
  proof (elim conjE disjE exE)
    fix prev' q' blk
    assume w: "slot_latest 256 8 s (rf_bytes d) = (Inr prev' :: string micro_error + _)"
      "next_sequence prev' = (Inr q' :: string micro_error + _)"
      "rf_bytes (ms_flash st') = splice (rf_bytes d) (bank_offset 256 s (write_bank prev')) blk"
      "blk = record_block 256 8 s q' v"
    have "bank_offset 256 s (write_bank prev') + 256 \<le> length (rf_bytes d)"
      using bank_room [OF g(3) s' write_bank_bound] g(1) by simp
    then show ?thesis unfolding w(3,4)
      by (intro slots_after_committed [OF w(1,2) _ fits]) (simp_all add: s(2))
  qed simp_all
  then show ?thesis using run r by auto
qed

theorem micro_write_total_witness:
  "\<exists>st'. micro_write ram_ops 256 1 None (ex_store None) = (Inr (), st') \<and> rf_fail_after (ms_flash st') = None \<and>
     slots_after 256 8 1 None (rf_bytes (ex_board None)) (rf_bytes (ms_flash st')) True"
proof -
  have "value_fits 256 8 None" "next_sequence None = (Inr 1 :: string micro_error + _)"
    by (simp_all add: value_fits_def payload_of_def next_sequence_def)
  moreover have "rf_fail_after (ex_board None) = None" by (simp add: ex_board_def ram_fresh_def)
  ultimately show ?thesis
    using micro_write_total [OF ex_store_new [of None], of 1 None None 1] fresh_latest [of 1 None, where 'e = string]
    by simp
qed

section \<open>Reading on the simulated board\<close>

lemma ram_read_record:
  assumes "ram_store n d st" "s < n" "k < 2"
  shows "read_record ram_ops 256 s k st =
    (bind_r (bank_at 256 8 s k (rf_bytes d)) (\<lambda>r. Inr (block_of 256 s k (rf_bytes d), r)), st)"
proof -
  note g = ram_store_geometry [OF assms(1)]
  have "bank_offset 256 s k + 256 \<le> length (rf_bytes d)"
    using bank_room [OF g(3) _ assms(3)] g(1,2) assms(2) by simp
  then have "fl_read ram_ops (bank_offset 256 s k) 256 (ms_flash st) = (Inr (block_of 256 s k (rf_bytes d)), d)"
    using g(1) by (simp add: ram_ops_def ram_read_def block_of_def)
  then show ?thesis
    using g(1,3) by (simp add: read_record_def bind_s_def on_flash_def bank_at_def micro_geometry_def)
qed

lemma ram_latest:
  assumes "ram_store n d st" "s < n" "s \<le> 0xFFFFFFFF"
  shows "micro_latest ram_ops 256 s st = (slot_latest 256 8 s (rf_bytes d), st)"
  using assms ram_store_geometry(2) [OF assms(1)] ram_read_record [OF assms(1,2), of 0]
    ram_read_record [OF assms(1,2), of 1]
  by (simp add: micro_latest_def bind_s_def slot_latest_def bind_r_def split: sum.splits)

text \<open>Reading is exact: \<^verbatim>\<open>get\<close> reports the error of a slot that cannot be read, None for an
  empty or deleted slot (the buffer untouched), Capacity when the buffer is too small, and
  otherwise puts the value at the front of the buffer and returns its length.\<close>

theorem micro_get_correct:
  assumes "ram_store n d st" "s < n" "s \<le> 0xFFFFFFFF"
  shows "micro_get ram_ops 256 s out st =
    (bind_r (slot_value 256 8 s (rf_bytes d)) (\<lambda>v.
       case v of None \<Rightarrow> Inr (None, out)
       | Some x \<Rightarrow> if length out < length x then Inl MCapacity
                  else Inr (Some (length x), x @ drop (length x) out)), st)"
proof (cases "slot_latest 256 8 s (rf_bytes d) :: string micro_error + _")
  case (Inl e)
  then show ?thesis
    using ram_latest [OF assms] by (simp add: micro_get_def bind_s_def slot_value_def)
next
  case (Inr rec)
  show ?thesis
  proof (cases rec)
    case None
    then show ?thesis
      using ram_latest [OF assms] Inr by (simp add: micro_get_def bind_s_def slot_value_def)
  next
    case (Some r)
    note b = slot_latest_bank [OF Inr [unfolded Some]]
    have room: "bank_offset 256 s (mr_bank r) + 256 \<le> length (rf_bytes d)"
      using bank_room [of 256 8 "rf_bytes d" st s "mr_bank r"] b assms ram_store_geometry [OF assms(1)] by simp
    have len: "length (take (mr_length r) (drop 32 (block_of 256 s (mr_bank r) (rf_bytes d)))) = mr_length r"
      using b room by (simp add: block_of_def max_value_bytes_def MICRO_HEADER_def)
    have rd: "read_record ram_ops 256 s (mr_bank r) st =
        (Inr (block_of 256 s (mr_bank r) (rf_bytes d), Some r), st)"
      using ram_read_record [OF assms(1,2), of "mr_bank r"] b by simp
    show ?thesis
      using ram_latest [OF assms] Inr Some rd len
      by (simp add: micro_get_def bind_s_def slot_value_def MICRO_HEADER_def splice_def)
  qed
qed

theorem micro_get_correct_witness:
  "micro_get ram_ops 256 1 [1, 2, 3] (ex_store None) = (Inr (None, [1, 2, 3]), ex_store None)"
  using micro_get_correct [OF ex_store_new [of None], of 1 "[1, 2, 3]"] fresh_latest [of 1 None, where 'e = string]
  by (simp add: slot_value_def)

lemma ram_write_erase:
  assumes "ram_store n d st" "s < n" "s \<le> 0xFFFFFFFF" "value_fits 256 8 v"
    "slot_latest 256 8 s (rf_bytes d) = (Inr prev :: string micro_error + _)"
    "next_sequence prev = (Inr q :: string micro_error + _)"
    "rf_fail_after d = Some (rf_operations d + k)" "k < 256"
  shows "micro_write ram_ops 256 s v st =
    (Inl (MIo ''power interrupted''),
     st\<lparr>ms_flash := d\<lparr>rf_bytes := splice (rf_bytes d) (bank_offset 256 s (write_bank prev)) (replicate k 0xFF),
                      rf_operations := rf_operations d + k\<rparr>\<rparr>)"
proof -
  note g = ram_store_geometry [OF assms(1)]
  have room: "bank_offset 256 s (write_bank prev) + 256 \<le> length (rf_bytes d)"
    using bank_room [OF g(3) _ write_bank_bound] g(1,2) assms(2) by simp
  have args: "\<not> (case v of None \<Rightarrow> False | Some x \<Rightarrow> length x > max_value_bytes 256 8 \<or> length x \<ge> 0xFFFFFFFF)"
    using assms(4) by (simp add: write_args_fit [unfolded write_args_ok_def, symmetric])
  have er: "on_flash (fl_erase ram_ops (bank_offset 256 s (write_bank prev)) 256) st =
      (Inl (MIo ''power interrupted''),
       st\<lparr>ms_flash := d\<lparr>rf_bytes := splice (rf_bytes d) (bank_offset 256 s (write_bank prev)) (replicate k 0xFF),
                        rf_operations := rf_operations d + k\<rparr>\<rparr>)"
    using ram_erase_cases [OF room] assms(7,8) g(1) by (simp add: on_flash_def ram_ops_def)
  have ws: "ms_write_size st = 8" using g(3) by (simp add: micro_geometry_def)
  show ?thesis
    using ram_latest [OF assms(1-3)] assms(5,6) args er
    unfolding micro_write_def Let_def ws
    by (simp add: bind_s_def write_bank_def)
qed

text \<open>C37: The interruption the format does not survive: from the second update of a slot on, the
  erased bank holds an older committed record. A power cut inside its erase, after the first
  byte and before the commit unit, leaves a block that looks committed and has no header. The
  slot then reads as Corrupted although the newest copy is intact, and every later write to it
  is refused.\<close>

theorem interrupted_erase_corrupts:
  assumes new: "ram_store n d st" and s: "s < n" "s \<le> 0xFFFFFFFF" and fits: "value_fits 256 8 v"
    and readable: "slot_latest 256 8 s (rf_bytes d) = (Inr prev :: string micro_error + _)"
    and sequence: "next_sequence prev = (Inr q :: string micro_error + _)"
    and older: "bank_at 256 8 s (write_bank prev) (rf_bytes d) = (Inr (Some old) :: string micro_error + _)"
    and cut: "rf_fail_after d = Some (rf_operations d + k)" "1 \<le> k" "k \<le> 248"
    and run: "micro_write ram_ops 256 s v st = (r, st')"
    and restored: "ram_store n (ms_flash st'\<lparr>rf_fail_after := None\<rparr>) st2"
    and fits': "value_fits 256 8 v'"
  shows "r = Inl (MIo ''power interrupted'') \<and> fst (micro_get ram_ops 256 s out st2) = Inl MCorrupted \<and>
    micro_write ram_ops 256 s v' st2 = (Inl MCorrupted, st2)"
proof -
  note g = ram_store_geometry [OF new]
  let ?k = "write_bank prev" and ?c = "rf_bytes d"
  let ?off = "bank_offset 256 s ?k"
  have k256: "k < 256" using cut(3) by simp
  note w = ram_write_erase [OF new s fits readable sequence cut(1) k256]
  then have "r = Inl (MIo ''power interrupted'')" using run by simp
  moreover have c': "rf_bytes (ms_flash st'\<lparr>rf_fail_after := None\<rparr>) = splice ?c ?off (replicate k 0xFF)"
    using w run by auto
  have room: "?off + 256 \<le> length ?c" using bank_room [OF g(3) _ write_bank_bound] g(1,2) s(1) by simp
  let ?old = "block_of 256 s ?k ?c"
  have old: "length ?old = 256" "\<forall>b \<in> set (drop 248 ?old). b = 0"
    using room older by (auto simp: block_of_def bank_at_def parse_record_def Let_def split: if_splits)
  let ?blk = "block_of 256 s ?k (splice ?c ?off (replicate k 0xFF))"
  have blk: "?blk = replicate k 0xFF @ drop k ?old"
    using room cut(3) by (simp add: block_of_def splice_def drop_take add.commute)
  have zero: "\<not> (\<exists>b \<in> set (drop 248 ?blk). b \<noteq> 0)"
    unfolding blk using old cut(3) by simp
  have ff: "take 8 ?blk ! 0 = 0xFF" unfolding blk using cut(2) by (simp add: nth_append)
  have magic: "take 8 ?blk \<noteq> MICRO_MAGIC"
  proof
    assume "take 8 ?blk = MICRO_MAGIC"
    then have "MICRO_MAGIC ! 0 = 0xFF" using ff by (simp only:)
    then show False by (simp add: MICRO_MAGIC_def)
  qed
  have bad: "bank_at 256 8 s ?k (splice ?c ?off (replicate k 0xFF)) = (Inl MCorrupted :: string micro_error + _)"
    using zero magic by (simp add: bank_at_def parse_record_def)
  have other: "bank_at 256 8 s (1 - ?k) (splice ?c ?off (replicate k 0xFF)) = (Inr prev :: string micro_error + _)"
  proof -
    have part: "splice ?c ?off (replicate k 0xFF) = splice ?c ?off (replicate k 0xFF @ drop k ?old)"
    proof -
      have "drop (?off + 256) ?c = drop (256 - k) (drop (k + ?off) ?c)" using k256 by (simp add: add.commute)
      then show ?thesis
        using k256 room append_take_drop_id [of "256 - k" "drop (k + ?off) ?c"]
        by (simp add: splice_def drop_take block_of_def add.commute)
    qed
    have "1 - ?k < 2" "1 - ?k \<noteq> ?k" using write_bank_bound [of prev] by arith+
    moreover have "length (replicate k 0xFF @ drop k ?old) = 256" using old k256 by simp
    ultimately show ?thesis
      using slot_latest_other [OF readable] block_of_splice [OF room _ write_bank_bound, of _ "1 - ?k" s]
      unfolding part by (simp add: bank_at_def)
  qed
  have corrupt: "slot_latest 256 8 s (splice ?c ?off (replicate k 0xFF)) = (Inl MCorrupted :: string micro_error + _)"
  proof -
    have "?k = 0 \<or> ?k = 1" using write_bank_bound [of prev] by linarith
    then show ?thesis using bad other by (auto simp: slot_latest_def)
  qed
  have "fst (micro_get ram_ops 256 s out st2) = Inl MCorrupted"
    using micro_get_correct [OF restored s] corrupt unfolding c' by (simp add: slot_value_def)
  moreover have args: "\<not> (case v' of None \<Rightarrow> False | Some x \<Rightarrow> length x > max_value_bytes 256 8 \<or> length x \<ge> 0xFFFFFFFF)"
    using fits' by (simp add: write_args_fit [unfolded write_args_ok_def, symmetric])
  have ws: "ms_write_size st2 = 8" using ram_store_geometry(3) [OF restored] by (simp add: micro_geometry_def)
  moreover have "micro_write ram_ops 256 s v' st2 = (Inl MCorrupted, st2)"
    using ram_latest [OF restored s] corrupt args unfolding micro_write_def Let_def ws c'
    by (simp add: bind_s_def)
  ultimately show ?thesis by blast
qed

definition ex_two_records :: "nat option \<Rightarrow> ram_flash" where
  "ex_two_records f = \<lparr>rf_bytes = record_block 256 8 0 1 (Some [1]) @ record_block 256 8 0 2 (Some [2]) @
     replicate 512 0xFF, rf_fail_after = f, rf_operations = 0\<rparr>"

theorem interrupted_erase_corrupts_witness:
  "\<exists>st st' st2. ram_store 1 (ex_two_records (Some 5)) st \<and>
     micro_write ram_ops 256 0 (Some [3]) st = (Inl (MIo ''power interrupted''), st') \<and>
     ram_store 1 (ms_flash st'\<lparr>rf_fail_after := None\<rparr>) st2 \<and>
     micro_get ram_ops 256 0 [0, 0, 0] st2 = (Inl MCorrupted, st2) \<and>
     micro_write ram_ops 256 0 (Some [3]) st2 = (Inl MCorrupted, st2)"
proof -
  let ?d = "ex_two_records (Some 5)"
  let ?r2 = "\<lparr>mr_sequence = 2, mr_length = 1, mr_deleted = False, mr_bank = 1\<rparr>"
  let ?r1 = "\<lparr>mr_sequence = 1, mr_length = 1, mr_deleted = False, mr_bank = 0\<rparr>"
  have fits: "value_fits 256 8 (Some [x])" for x
    by (simp add: value_fits_def payload_of_def max_value_bytes_def MICRO_HEADER_def)
  have len: "length (record_block 256 8 0 q (Some [x])) = 256" for q x
    using length_record_block [OF fits] by simp
  have parse: "parse_record 256 8 0 k (record_block 256 8 0 q (Some [x])) =
      (Inr (Some \<lparr>mr_sequence = q, mr_length = 1, mr_deleted = False, mr_bank = k\<rparr>) :: string micro_error + _)"
    if "q \<noteq> 0" for k q x
    using parse_record_block [OF fits, of 0 q k] that by (simp add: payload_of_def)
  have blocks: "block_of 256 0 0 (rf_bytes ?d) = record_block 256 8 0 1 (Some [1])"
    "block_of 256 0 1 (rf_bytes ?d) = record_block 256 8 0 2 (Some [2])"
    by (simp_all add: block_of_def bank_offset_def ex_two_records_def len)
  have b0: "bank_at 256 8 0 0 (rf_bytes ?d) = (Inr (Some ?r1) :: string micro_error + _)"
    and b1: "bank_at 256 8 0 1 (rf_bytes ?d) = (Inr (Some ?r2) :: string micro_error + _)"
    by (simp_all add: bank_at_def blocks parse del: One_nat_def)
  have latest: "slot_latest 256 8 0 (rf_bytes ?d) = (Inr (Some ?r2) :: string micro_error + _)"
    using b0 b1 by (simp add: slot_latest_def newer_def)
  have wb: "write_bank (Some ?r2) = 0" by (simp add: write_bank_def)
  have ob: "bank_at 256 8 0 (write_bank (Some ?r2)) (rf_bytes ?d) = (Inr (Some ?r1) :: string micro_error + _)"
    unfolding wb by (rule b0)
  have seq: "next_sequence (Some ?r2) = (Inr 3 :: string micro_error + _)" by (simp add: next_sequence_def)
  let ?st = "\<lparr>ms_flash = ?d, ms_slots = 1, ms_write_size = 8\<rparr>"
  have new: "ram_store 1 ?d ?st"
    by (simp add: ram_store_def micro_new_def ram_ops_def ex_two_records_def MICRO_HEADER_def len)
  obtain r st' where run: "micro_write ram_ops 256 0 (Some [3]) ?st = (r, st')" by force
  have st': "ms_flash st' = ?d\<lparr>rf_bytes := splice (rf_bytes ?d) 0 (replicate 5 0xFF), rf_operations := 5\<rparr>"
    using ram_write_erase [OF new _ _ fits latest seq, of 5 3] run
    unfolding wb by (auto simp: ex_two_records_def bank_offset_def)
  let ?d2 = "ms_flash st'\<lparr>rf_fail_after := None\<rparr>"
  let ?st2 = "\<lparr>ms_flash = ?d2, ms_slots = 1, ms_write_size = 8\<rparr>"
  have new2: "ram_store 1 ?d2 ?st2"
    unfolding st' by (simp add: ram_store_def micro_new_def ram_ops_def ex_two_records_def MICRO_HEADER_def len)
  have "r = Inl (MIo ''power interrupted'') \<and> fst (micro_get ram_ops 256 0 [0, 0, 0] ?st2) = Inl MCorrupted \<and>
    micro_write ram_ops 256 0 (Some [3]) ?st2 = (Inl MCorrupted, ?st2)"
    by (rule interrupted_erase_corrupts [OF new _ _ fits latest seq ob _ _ _ run new2 fits, where k = 5])
      (simp_all add: ex_two_records_def)
  moreover have "snd (micro_get ram_ops 256 0 [0, 0, 0] ?st2) = ?st2"
    using micro_get_correct [OF new2, of 0 "[0, 0, 0]"] by simp
  ultimately show ?thesis using new new2 run by (metis prod.collapse)
qed

text \<open>Export and transport: a slot that holds a record is exported, into a buffer that is large
  enough and under a non-zero identity, as a frame that decodes to exactly that identity, slot,
  sequence number, deletion flag and payload.\<close>

theorem export_capsule_decodes:
  assumes "ram_store n d st" "s < n" "s \<le> 0xFFFFFFFF" "length dev = 16" "dev \<noteq> replicate 16 0"
    and latest: "slot_latest 256 8 s (rf_bytes d) = (Inr (Some rec) :: string micro_error + _)"
    and room: "48 + mr_length rec \<le> length out"
  shows "\<exists>m out'. export_capsule ram_ops 256 s dev out st = (Inr (Some m, out'), st) \<and>
    decode_capsule (take m out') = Inr \<lparr>cap_device_id = dev, cap_slot = word_of_nat s,
      cap_sequence = mr_sequence rec, cap_deleted = mr_deleted rec,
      cap_payload = take (mr_length rec) (drop 32 (block_of 256 s (mr_bank rec) (rf_bytes d)))\<rparr>"
proof -
  note b = slot_latest_bank [OF latest]
  let ?pay = "take (mr_length rec) (drop 32 (block_of 256 s (mr_bank rec) (rf_bytes d)))"
  let ?c = "\<lparr>cap_device_id = dev, cap_slot = word_of_nat s, cap_sequence = mr_sequence rec,
      cap_deleted = mr_deleted rec, cap_payload = ?pay\<rparr>"
  have rd: "read_record ram_ops 256 s (mr_bank rec) st =
      (Inr (block_of 256 s (mr_bank rec) (rf_bytes d), Some rec), st)"
    using ram_read_record [OF assms(1,2), of "mr_bank rec"] b by simp
  have fields: "mr_sequence rec \<noteq> 0" "mr_deleted rec \<longrightarrow> mr_length rec = 0"
    using b parse_record_fields [of 256 8 s "mr_bank rec" "block_of 256 s (mr_bank rec) (rf_bytes d)" rec]
    by (auto simp: bank_at_def)
  have len: "length ?pay = mr_length rec"
  proof -
    have "bank_offset 256 s (mr_bank rec) + 256 \<le> length (rf_bytes d)"
      using bank_room [of 256 8 "rf_bytes d" st s "mr_bank rec"] b assms ram_store_geometry [OF assms(1)] by simp
    then show ?thesis using b by (simp add: block_of_def max_value_bytes_def MICRO_HEADER_def)
  qed
  have small: "mr_length rec \<le> MAX_PAYLOAD_LEN"
    using b by (simp add: max_value_bytes_def MICRO_HEADER_def MAX_PAYLOAD_LEN_def)
  have wf: "cap_wf ?c" by (simp add: cap_wf_def assms(4))
  have valid: "cap_valid ?c"
    using fields len small assms(5) wf by (auto simp: cap_valid_def)
  have enc: "encode_into ?c out = (Inr (48 + mr_length rec), cap_frame ?c @ drop (48 + mr_length rec) out)"
    using encode_into_eq [OF wf, of out] fields len small assms(5) room by auto
  have "export_capsule ram_ops 256 s dev out st =
      (Inr (Some (48 + mr_length rec), cap_frame ?c @ drop (48 + mr_length rec) out), st)"
    using ram_latest [OF assms(1-3)] latest rd enc
    by (simp add: export_capsule_def bind_s_def map_err_s_def)
  moreover have "take (48 + mr_length rec) (cap_frame ?c @ drop (48 + mr_length rec) out) = cap_frame ?c"
    using cap_lengths(3) [OF wf] len by simp
  ultimately show ?thesis using decode_cap_frame [OF valid] by auto
qed

theorem export_capsule_decodes_witness:
  "\<exists>st m out'. ram_store 1 (ex_two_records None) st \<and>
     export_capsule ram_ops 256 0 (replicate 16 7) (replicate 64 0) st = (Inr (Some m, out'), st) \<and>
     (\<exists>c. decode_capsule (take m out') = Inr c \<and> cap_sequence c = 2)"
proof -
  let ?d = "ex_two_records None"
  let ?r2 = "\<lparr>mr_sequence = 2, mr_length = 1, mr_deleted = False, mr_bank = 1\<rparr>"
  have fits: "value_fits 256 8 (Some [x])" for x
    by (simp add: value_fits_def payload_of_def max_value_bytes_def MICRO_HEADER_def)
  have len: "length (record_block 256 8 0 q (Some [x])) = 256" for q x
    using length_record_block [OF fits] by simp
  have parse: "parse_record 256 8 0 k (record_block 256 8 0 q (Some [x])) =
      (Inr (Some \<lparr>mr_sequence = q, mr_length = 1, mr_deleted = False, mr_bank = k\<rparr>) :: string micro_error + _)"
    if "q \<noteq> 0" for k q x
    using parse_record_block [OF fits, of 0 q k] that by (simp add: payload_of_def)
  have latest: "slot_latest 256 8 0 (rf_bytes ?d) = (Inr (Some ?r2) :: string micro_error + _)"
    by (simp add: slot_latest_def newer_def bank_at_def block_of_def bank_offset_def ex_two_records_def len parse)
  let ?st = "\<lparr>ms_flash = ?d, ms_slots = 1, ms_write_size = 8\<rparr>"
  have new: "ram_store 1 ?d ?st"
    by (simp add: ram_store_def micro_new_def ram_ops_def ex_two_records_def MICRO_HEADER_def len)
  have "\<exists>m out'. export_capsule ram_ops 256 0 (replicate 16 7) (replicate 64 0) ?st = (Inr (Some m, out'), ?st) \<and>
    decode_capsule (take m out') = Inr \<lparr>cap_device_id = replicate 16 7, cap_slot = word_of_nat 0,
      cap_sequence = mr_sequence ?r2, cap_deleted = mr_deleted ?r2,
      cap_payload = take (mr_length ?r2) (drop 32 (block_of 256 0 (mr_bank ?r2) (rf_bytes ?d)))\<rparr>"
    by (rule export_capsule_decodes [OF new _ _ _ _ latest]) simp_all
  then show ?thesis using new by (metis capsule.select_convs(3) micro_record.select_convs(1))
qed

end
