(* ===== verification/Storage_Io.thy ===== *)
theory Storage_Io
  imports State_Result
begin

text \<open>
  \<^verbatim>\<open>src/src/pager/fault.rs\<close> (deterministic I/O faults per connection, feature
  \<^verbatim>\<open>fault-injection\<close>) and the pieces of the Rust standard library the storage code uses:
  a file with a cursor, and \<^verbatim>\<open>BufWriter\<close>. An operating system failure enters the model
  only where the source has an injection point; every unguarded call succeeds.
\<close>

section \<open>Fault plans\<close>

datatype io_point =
    WalWrite | WalFlush | WalSync | CheckpointWrite | CheckpointSync | WalTruncate | WalReset
  | BackupWrite | BackupSync

datatype io_failure = DiskFull | PartialWrite nat

record io_fault_plan =
  fp_point :: io_point
  fp_after :: nat
  fp_failure :: io_failure
  fp_persistent :: bool

type_synonym storage_io = "io_fault_plan option"

definition injected_error :: error where
  "injected_error = Io ''No space left on device (os error 28)''"

definition is_write_boundary :: "io_point \<Rightarrow> bool" where
  "is_write_boundary p \<longleftrightarrow> p = WalWrite \<or> p = CheckpointWrite \<or> p = WalReset \<or> p = BackupWrite"

definition io_configure :: "io_fault_plan option \<Rightarrow> (storage_io, unit) sm" where
  "io_configure plan io =
     (if (case plan of None \<Rightarrow> False
          | Some p \<Rightarrow> (case fp_failure p of PartialWrite _ \<Rightarrow> True | DiskFull \<Rightarrow> False) \<and>
                      \<not> is_write_boundary (fp_point p))
      then (Inl (ConstraintViolation ''Partial-write faults require a write boundary''), io)
      else (Inr (), plan))"

definition io_next :: "io_point \<Rightarrow> storage_io \<Rightarrow> io_failure option \<times> storage_io" where
  "io_next point io =
     (case io of
        None \<Rightarrow> (None, io)
      | Some plan \<Rightarrow>
          if fp_point plan \<noteq> point then (None, io)
          else if fp_after plan > 0 then (None, Some (plan\<lparr>fp_after := fp_after plan - 1\<rparr>))
          else (Some (fp_failure plan), if fp_persistent plan then io else None))"

section \<open>Files and buffered writers\<close>

record disk_file =
  df_data :: bytes
  df_pos :: nat

text \<open>Writing at the cursor; a cursor past the end leaves a hole of zero bytes.\<close>

definition write_at :: "nat \<Rightarrow> bytes \<Rightarrow> bytes \<Rightarrow> bytes" where
  "write_at pos bs d =
     take pos d @ replicate (pos - length d) 0 @ bs @ drop (pos + length bs) d"

definition file_write :: "bytes \<Rightarrow> disk_file \<Rightarrow> disk_file" where
  "file_write bs f =
     (if bs = [] then f
      else f\<lparr>df_data := write_at (df_pos f) bs (df_data f), df_pos := df_pos f + length bs\<rparr>)"

definition file_set_len :: "nat \<Rightarrow> disk_file \<Rightarrow> disk_file" where
  "file_set_len n f = f\<lparr>df_data := take n (df_data f) @ replicate (n - length (df_data f)) 0\<rparr>"

definition file_seek_end :: "disk_file \<Rightarrow> disk_file" where
  "file_seek_end f = f\<lparr>df_pos := length (df_data f)\<rparr>"

definition file_seek :: "nat \<Rightarrow> disk_file \<Rightarrow> disk_file" where
  "file_seek n f = f\<lparr>df_pos := n\<rparr>"

record buf_writer =
  bw_file :: disk_file
  bw_buf :: bytes

definition BUF_CAPACITY :: nat where "BUF_CAPACITY = 128 * 1024"

definition bw_flush :: "buf_writer \<Rightarrow> buf_writer" where
  "bw_flush w = w\<lparr>bw_file := file_write (bw_buf w) (bw_file w), bw_buf := []\<rparr>"

definition bw_write_all :: "bytes \<Rightarrow> buf_writer \<Rightarrow> buf_writer" where
  "bw_write_all bs w =
     (if length bs < BUF_CAPACITY - length (bw_buf w) then w\<lparr>bw_buf := bw_buf w @ bs\<rparr>
      else let w1 = (if length bs > BUF_CAPACITY - length (bw_buf w) then bw_flush w else w) in
           if length bs \<ge> BUF_CAPACITY then w1\<lparr>bw_file := file_write bs (bw_file w1)\<rparr>
           else w1\<lparr>bw_buf := bw_buf w1 @ bs\<rparr>)"

section \<open>Guarded operations\<close>

definition io_before :: "io_point \<Rightarrow> (storage_io, unit) sm" where
  "io_before point io =
     (case io_next point io of
        (None, io') \<Rightarrow> (Inr (), io')
      | (Some _, io') \<Rightarrow> (Inl injected_error, io'))"

text \<open>\<^verbatim>\<open>StorageIo::write\<close> for a writer with its \<^verbatim>\<open>write_all\<close> and \<^verbatim>\<open>flush\<close>.\<close>

definition io_write ::
    "(bytes \<Rightarrow> 'w \<Rightarrow> 'w) \<Rightarrow> ('w \<Rightarrow> 'w) \<Rightarrow> io_point \<Rightarrow> bytes \<Rightarrow> (storage_io \<times> 'w, unit) sm" where
  "io_write write_all flush point bs = (\<lambda>(io, w).
     case io_next point io of
       (Some (PartialWrite prefix), io') \<Rightarrow>
         (Inl injected_error, io', flush (write_all (take (min prefix (length bs)) bs) w))
     | (Some DiskFull, io') \<Rightarrow> (Inl injected_error, io', w)
     | (None, io') \<Rightarrow> (Inr (), io', write_all bs w))"

section \<open>Lemmas\<close>

lemma io_next_None [simp]: "io_next p None = (None, None)"
  by (simp add: io_next_def)

lemma io_before_None [simp]: "io_before p None = (Inr (), None)"
  by (simp add: io_before_def)

lemma io_write_None [simp]: "io_write wa fl p bs (None, w) = (Inr (), None, wa bs w)"
  by (simp add: io_write_def)

lemma io_before_result: "fst (io_before p io) = Inr () \<or> fst (io_before p io) = Inl injected_error"
  by (auto simp: io_before_def split: prod.splits option.splits)

lemma write_at_end [simp]: "write_at (length d) bs d = d @ bs"
  by (simp add: write_at_def)

lemma length_write_at [simp]: "length (write_at n bs d) = max (n + length bs) (length d)"
  by (simp add: write_at_def)

text \<open>The bytes a buffered writer stands for, while its cursor is at the end of the file.\<close>

definition bw_at_end :: "buf_writer \<Rightarrow> bool" where
  "bw_at_end w \<longleftrightarrow> df_pos (bw_file w) = length (df_data (bw_file w))"

definition bw_bytes :: "buf_writer \<Rightarrow> bytes" where
  "bw_bytes w = df_data (bw_file w) @ bw_buf w"

lemma file_write_at_end:
  "df_pos f = length (df_data f) \<Longrightarrow>
   df_data (file_write bs f) = df_data f @ bs \<and>
   df_pos (file_write bs f) = length (df_data (file_write bs f))"
  by (simp add: file_write_def)

lemma bw_flush_at_end:
  "bw_at_end w \<Longrightarrow> bw_at_end (bw_flush w) \<and> bw_bytes (bw_flush w) = bw_bytes w \<and> bw_buf (bw_flush w) = []"
  using file_write_at_end [of "bw_file w" "bw_buf w"]
  by (simp add: bw_flush_def bw_at_end_def bw_bytes_def)

lemma bw_flush_data: "bw_at_end w \<Longrightarrow> df_data (bw_file (bw_flush w)) = bw_bytes w"
  using bw_flush_at_end [of w] unfolding bw_bytes_def by auto

lemma bw_write_at_end:
  assumes "bw_at_end w"
  shows "bw_at_end (bw_write_all bs w) \<and> bw_bytes (bw_write_all bs w) = bw_bytes w @ bs"
proof -
  define w1 where "w1 = (if length bs > BUF_CAPACITY - length (bw_buf w) then bw_flush w else w)"
  have w1: "bw_at_end w1" "bw_bytes w1 = bw_bytes w"
    using bw_flush_at_end [OF assms] assms by (auto simp: w1_def)
  show ?thesis
  proof (cases "length bs < BUF_CAPACITY - length (bw_buf w)")
    case True
    then show ?thesis using assms by (simp add: bw_write_all_def bw_at_end_def bw_bytes_def)
  next
    case False
    show ?thesis
    proof (cases "BUF_CAPACITY \<le> length bs")
      case True
      have "0 < BUF_CAPACITY" by (simp add: BUF_CAPACITY_def)
      then have "length (bw_buf w1) = 0"
        using True False unfolding w1_def bw_flush_def by (cases "bw_buf w") auto
      then have "bw_buf w1 = []" by simp
      then show ?thesis
        using False True w1 file_write_at_end [of "bw_file w1" bs]
        by (simp add: bw_write_all_def w1_def [symmetric] bw_at_end_def bw_bytes_def Let_def)
    next
      case small: False
      then show ?thesis
        using False w1 by (simp add: bw_write_all_def w1_def [symmetric] bw_at_end_def bw_bytes_def Let_def)
    qed
  qed
qed

end
