(* ===== verification/Db_Header.thy ===== *)
theory Db_Header
  imports Prelude
begin

text \<open>
  \<^verbatim>\<open>src/src/pager/mod.rs\<close>, the 100-byte database header at the start of page 1. The
  CRC-32 is the third-party crate \<^verbatim>\<open>crc32fast\<close>: it is the parameter \<open>crc\<close> of every
  definition that uses it, and no theorem assumes anything of it. Fixed-size byte arrays
  are byte lists whose length is part of \<open>valid_db_header\<close>. Proved: the header is read
  back exactly as written, with its checksum filled in, whatever follows it in page 1, and
  which corruptions are refused with which error.
\<close>

definition DATABASE_HEADER_SIZE :: nat where "DATABASE_HEADER_SIZE = 100"

definition DATABASE_MAGIC :: bytes where
  "DATABASE_MAGIC = [0x54, 0x41, 0x50, 0x49, 0x52, 0x55, 0x53, 0x00]"

definition DEFAULT_PAGE_SIZE :: u16 where "DEFAULT_PAGE_SIZE = 4096"
definition FILE_FORMAT_VERSION :: u16 where "FILE_FORMAT_VERSION = 1"

record db_header =
  dh_magic :: bytes
  dh_page_size :: u16
  dh_version :: u16
  dh_change_counter :: u32
  dh_total_pages :: u32
  dh_freelist_trunk :: u32
  dh_freelist_count :: u32
  dh_schema_cookie :: u32
  dh_user_version :: u32
  dh_vector_index_page :: u32
  dh_wal_sequence :: u32
  dh_header_crc32 :: u32
  dh_encryption_flags :: u8
  dh_salt :: bytes
  dh_kcv :: bytes
  dh_compression_flags :: u8

text \<open>The first 44 bytes, the part under the checksum.\<close>

definition dh_prefix :: "db_header \<Rightarrow> bytes" where
  "dh_prefix h =
     dh_magic h @ to_le16 (dh_page_size h) @ to_le16 (dh_version h) @
     to_le32 (dh_change_counter h) @ to_le32 (dh_total_pages h) @
     to_le32 (dh_freelist_trunk h) @ to_le32 (dh_freelist_count h) @
     to_le32 (dh_schema_cookie h) @ to_le32 (dh_user_version h) @
     to_le32 (dh_vector_index_page h) @ to_le32 (dh_wal_sequence h)"

definition dh_calculate_crc :: "(bytes \<Rightarrow> u32) \<Rightarrow> db_header \<Rightarrow> u32" where
  "dh_calculate_crc crc h = crc (dh_prefix h)"

definition db_header_default :: "(bytes \<Rightarrow> u32) \<Rightarrow> db_header" where
  "db_header_default crc =
     (let h = \<lparr>dh_magic = DATABASE_MAGIC, dh_page_size = DEFAULT_PAGE_SIZE,
               dh_version = FILE_FORMAT_VERSION, dh_change_counter = 0, dh_total_pages = 1,
               dh_freelist_trunk = 0, dh_freelist_count = 0, dh_schema_cookie = 0,
               dh_user_version = 0, dh_vector_index_page = 0, dh_wal_sequence = 0,
               dh_header_crc32 = 0, dh_encryption_flags = 0, dh_salt = replicate 16 0,
               dh_kcv = replicate 16 0, dh_compression_flags = 0\<rparr>
      in h\<lparr>dh_header_crc32 := dh_calculate_crc crc h\<rparr>)"

definition db_header_new :: "(bytes \<Rightarrow> u32) \<Rightarrow> u16 \<Rightarrow> db_header" where
  "db_header_new crc page_size =
     (let h = (db_header_default crc)\<lparr>dh_page_size := page_size\<rparr>
      in h\<lparr>dh_header_crc32 := dh_calculate_crc crc h\<rparr>)"

definition db_header_to_bytes :: "(bytes \<Rightarrow> u32) \<Rightarrow> db_header \<Rightarrow> bytes" where
  "db_header_to_bytes crc h =
     dh_prefix h @ to_le32 (dh_calculate_crc crc h) @ [dh_encryption_flags h] @
     dh_salt h @ dh_kcv h @ [dh_compression_flags h] @ replicate 18 0"

definition is_power_of_two :: "'a::len word \<Rightarrow> bool" where
  "is_power_of_two w \<longleftrightarrow> w \<noteq> 0 \<and> w AND (w - 1) = 0"

definition db_header_from_bytes :: "(bytes \<Rightarrow> u32) \<Rightarrow> bytes \<Rightarrow> db_header result" where
  "db_header_from_bytes crc bs =
     (if length bs < DATABASE_HEADER_SIZE
      then Inl (Corrupted ''Slice is smaller than 100-byte header'')
      else if take 8 bs \<noteq> DATABASE_MAGIC then Inl InvalidMagic
      else let page_size = u16_at bs 8 in
        if \<not> is_power_of_two page_size \<or> page_size < 512 then Inl (InvalidPageSize page_size)
        else let h = \<lparr>dh_magic = take 8 bs, dh_page_size = page_size, dh_version = u16_at bs 10,
               dh_change_counter = u32_at bs 12, dh_total_pages = u32_at bs 16,
               dh_freelist_trunk = u32_at bs 20, dh_freelist_count = u32_at bs 24,
               dh_schema_cookie = u32_at bs 28, dh_user_version = u32_at bs 32,
               dh_vector_index_page = u32_at bs 36, dh_wal_sequence = u32_at bs 40,
               dh_header_crc32 = u32_at bs 44, dh_encryption_flags = bs ! 48,
               dh_salt = take 16 (drop 49 bs), dh_kcv = take 16 (drop 65 bs),
               dh_compression_flags = bs ! 81\<rparr>;
             calculated = dh_calculate_crc crc h
           in if calculated \<noteq> dh_header_crc32 h
              then Inl (PageCorrupted 1 calculated (dh_header_crc32 h))
              else if dh_version h \<noteq> FILE_FORMAT_VERSION
              then Inl (UnsupportedFormat (dh_version h))
              else Inr h)"

section \<open>Lemmas\<close>

definition valid_db_header :: "db_header \<Rightarrow> bool" where
  "valid_db_header h \<longleftrightarrow>
     dh_magic h = DATABASE_MAGIC \<and> is_power_of_two (dh_page_size h) \<and> \<not> dh_page_size h < 512 \<and>
     dh_version h = FILE_FORMAT_VERSION \<and> length (dh_salt h) = 16 \<and> length (dh_kcv h) = 16"

lemma length_magic [simp]: "length DATABASE_MAGIC = 8"
  by (simp add: DATABASE_MAGIC_def)

lemma length_dh_prefix: "length (dh_magic h) = 8 \<Longrightarrow> length (dh_prefix h) = 44"
  by (simp add: dh_prefix_def)

lemma length_db_header_to_bytes:
  "length (dh_magic h) = 8 \<Longrightarrow> length (dh_salt h) = 16 \<Longrightarrow> length (dh_kcv h) = 16 \<Longrightarrow>
   length (db_header_to_bytes crc h) = DATABASE_HEADER_SIZE"
  by (simp add: db_header_to_bytes_def length_dh_prefix DATABASE_HEADER_SIZE_def)

lemma dh_calculate_crc_ignores [simp]:
  "dh_calculate_crc crc (h\<lparr>dh_header_crc32 := c\<rparr>) = dh_calculate_crc crc h"
  by (simp add: dh_calculate_crc_def dh_prefix_def)

lemma db_header_roundtrip_rest:
  assumes "valid_db_header h"
  shows "db_header_from_bytes crc (db_header_to_bytes crc h @ rest) =
         Inr (h\<lparr>dh_header_crc32 := dh_calculate_crc crc h\<rparr>)"
proof -
  let ?c = "to_le32 (dh_calculate_crc crc h)"
  have len: "length (dh_magic h) = 8" "length (dh_salt h) = 16" "length (dh_kcv h) = 16"
    using assms by (auto simp: valid_db_header_def)
  have b: "db_header_to_bytes crc h @ rest = dh_prefix h @ ?c @ [dh_encryption_flags h] @
     dh_salt h @ dh_kcv h @ [dh_compression_flags h] @ replicate 18 0 @ rest"
    by (simp add: db_header_to_bytes_def)
  have lp: "length (dh_prefix h) = 44" using len by (simp add: length_dh_prefix)
  let ?b = "db_header_to_bytes crc h @ rest"
  have fields:
    "take 8 ?b = dh_magic h" "u16_at ?b 8 = dh_page_size h" "u16_at ?b 10 = dh_version h"
    "u32_at ?b 12 = dh_change_counter h" "u32_at ?b 16 = dh_total_pages h"
    "u32_at ?b 20 = dh_freelist_trunk h" "u32_at ?b 24 = dh_freelist_count h"
    "u32_at ?b 28 = dh_schema_cookie h" "u32_at ?b 32 = dh_user_version h"
    "u32_at ?b 36 = dh_vector_index_page h" "u32_at ?b 40 = dh_wal_sequence h"
    "u32_at ?b 44 = dh_calculate_crc crc h"
    using len by (simp_all add: b dh_prefix_def u16_at_def u32_at_def)
  have tail: "?b ! 48 = dh_encryption_flags h" "take 16 (drop 49 ?b) = dh_salt h"
    "take 16 (drop 65 ?b) = dh_kcv h" "?b ! 81 = dh_compression_flags h"
    using len lp by (simp_all add: b nth_append)
  have "length ?b \<ge> 100" using len lp by (simp add: b)
  moreover have "dh_magic h = DATABASE_MAGIC" "is_power_of_two (dh_page_size h)"
    "\<not> dh_page_size h < 512" "dh_version h = FILE_FORMAT_VERSION"
    using assms by (auto simp: valid_db_header_def)
  ultimately show ?thesis
    unfolding db_header_from_bytes_def fields tail
    by (simp add: DATABASE_HEADER_SIZE_def dh_calculate_crc_def dh_prefix_def Let_def)
qed

lemma db_header_from_bytes_valid:
  "db_header_from_bytes crc bs = Inr h \<Longrightarrow>
   valid_db_header h \<and> dh_header_crc32 h = dh_calculate_crc crc h"
  by (auto simp: db_header_from_bytes_def valid_db_header_def Let_def DATABASE_HEADER_SIZE_def
      split: if_splits)

lemma valid_db_header_new:
  "is_power_of_two ps \<Longrightarrow> \<not> ps < 512 \<Longrightarrow> valid_db_header (db_header_new crc ps)"
  by (simp add: valid_db_header_def db_header_new_def db_header_default_def Let_def)

lemma db_header_new_crc:
  "(db_header_new crc ps)\<lparr>dh_header_crc32 := dh_calculate_crc crc (db_header_new crc ps)\<rparr> =
   db_header_new crc ps"
  by (simp add: db_header_new_def Let_def)

section \<open>Properties\<close>

text \<open>The database header is read back as it was written, with its checksum filled in,
  whatever follows it in page 1 and whatever the checksum function: for every header with the
  magic, a power-of-two page size of at least 512 and the current version. What parses is
  always such a header, and carries a matching checksum.\<close>

theorem db_header_roundtrip:
  "(valid_db_header h \<longrightarrow>
      db_header_from_bytes crc (db_header_to_bytes crc h @ rest) =
        Inr (h\<lparr>dh_header_crc32 := dh_calculate_crc crc h\<rparr>)) \<and>
   (db_header_from_bytes crc bs = Inr h \<longrightarrow>
      valid_db_header h \<and> dh_header_crc32 h = dh_calculate_crc crc h)"
  using db_header_roundtrip_rest db_header_from_bytes_valid by blast

theorem db_header_roundtrip_witness:
  "db_header_from_bytes (\<lambda>bs. word_of_nat (length bs))
     (db_header_to_bytes (\<lambda>bs. word_of_nat (length bs))
        (db_header_new (\<lambda>bs. word_of_nat (length bs)) 4096) @ []) =
   Inr (db_header_new (\<lambda>bs. word_of_nat (length bs)) 4096)"
proof -
  have "valid_db_header (db_header_new (\<lambda>bs. word_of_nat (length bs)) 4096)"
    by (rule valid_db_header_new) (simp_all add: is_power_of_two_def)
  note r = db_header_roundtrip [THEN conjunct1, rule_format, OF this]
  show ?thesis
    using r [of "\<lambda>bs. word_of_nat (length bs)" "[]"] by (simp only: db_header_new_crc)
qed

end
