(* ===== verification/Wal.thy ===== *)
theory Wal
  imports Storage_Io Db_Header
begin

text \<open>
  \<^verbatim>\<open>src/src/pager/wal.rs\<close>: the write-ahead log. A WAL file is a 32-byte header and a
  sequence of frames, each a 24-byte header and a page image; a frame with a database size
  is a commit. The checksum \<^verbatim>\<open>crc32fast::Hasher\<close> is third-party code: it is the parameter
  \<open>crc\<close>, a function of the bytes fed to the hasher in order.
\<close>

section \<open>Headers\<close>

definition WAL_MAGIC :: bytes where
  "WAL_MAGIC = [0x54, 0x41, 0x50, 0x49, 0x52, 0x57, 0x41, 0x4C]"
definition WAL_VERSION :: u32 where "WAL_VERSION = 1"
definition WAL_HEADER_SIZE :: nat where "WAL_HEADER_SIZE = 32"
definition WAL_FRAME_HEADER_SIZE :: nat where "WAL_FRAME_HEADER_SIZE = 24"
definition DEFAULT_CHECKPOINT_THRESHOLD :: nat where "DEFAULT_CHECKPOINT_THRESHOLD = 1000"

type_synonym crc_fun = "bytes \<Rightarrow> u32"

record wal_header =
  wh_magic :: bytes
  wh_version :: u32
  wh_page_size :: u32
  wh_checkpoint_seq :: u32
  wh_salt_1 :: u32
  wh_salt_2 :: u32
  wh_header_crc32 :: u32

definition wh_prefix :: "wal_header \<Rightarrow> bytes" where
  "wh_prefix h = wh_magic h @ to_le32 (wh_version h) @ to_le32 (wh_page_size h) @
     to_le32 (wh_checkpoint_seq h) @ to_le32 (wh_salt_1 h) @ to_le32 (wh_salt_2 h)"

definition wh_calculate_crc :: "crc_fun \<Rightarrow> wal_header \<Rightarrow> u32" where
  "wh_calculate_crc crc h = crc (wh_prefix h)"

definition wal_header_new :: "crc_fun \<Rightarrow> u32 \<Rightarrow> wal_header" where
  "wal_header_new crc page_size =
     (let h = \<lparr>wh_magic = WAL_MAGIC, wh_version = WAL_VERSION, wh_page_size = page_size,
               wh_checkpoint_seq = 1, wh_salt_1 = 0x1A2B3C4D, wh_salt_2 = 0x5E6F7A8B,
               wh_header_crc32 = 0\<rparr>
      in h\<lparr>wh_header_crc32 := wh_calculate_crc crc h\<rparr>)"

definition wal_header_to_bytes :: "wal_header \<Rightarrow> bytes" where
  "wal_header_to_bytes h = wh_prefix h @ to_le32 (wh_header_crc32 h)"

definition wal_header_from_bytes :: "crc_fun \<Rightarrow> bytes \<Rightarrow> wal_header result" where
  "wal_header_from_bytes crc bs =
     (if length bs < WAL_HEADER_SIZE
      then Inl (Corrupted ''WAL header slice too short (<32 bytes)'')
      else if take 8 bs \<noteq> WAL_MAGIC then Inl InvalidMagic
      else let h = \<lparr>wh_magic = take 8 bs, wh_version = u32_at bs 8, wh_page_size = u32_at bs 12,
                    wh_checkpoint_seq = u32_at bs 16, wh_salt_1 = u32_at bs 20,
                    wh_salt_2 = u32_at bs 24, wh_header_crc32 = u32_at bs 28\<rparr> in
        if wh_version h \<noteq> WAL_VERSION \<or> \<not> is_power_of_two (wh_page_size h) \<or>
           \<not> (512 \<le> wh_page_size h \<and> wh_page_size h \<le> 65536)
        then Inl (Corrupted ''Unsupported WAL version or page size'')
        else let expected_crc = wh_calculate_crc crc h in
          if wh_header_crc32 h \<noteq> expected_crc
          then Inl (PageCorrupted 0 expected_crc (wh_header_crc32 h))
          else Inr h)"

record wal_frame_header =
  wf_page_id :: page_id
  wf_db_size :: u32
  wf_commit_seq :: u32
  wf_salt_1 :: u32
  wf_salt_2 :: u32
  wf_crc32 :: u32

definition wf_prefix :: "wal_frame_header \<Rightarrow> bytes" where
  "wf_prefix h = to_le32 (wf_page_id h) @ to_le32 (wf_db_size h) @ to_le32 (wf_commit_seq h) @
     to_le32 (wf_salt_1 h) @ to_le32 (wf_salt_2 h)"

definition wf_calculate_crc :: "crc_fun \<Rightarrow> wal_frame_header \<Rightarrow> bytes \<Rightarrow> u32" where
  "wf_calculate_crc crc h page_data = crc (wf_prefix h @ page_data)"

definition frame_header_to_bytes :: "wal_frame_header \<Rightarrow> bytes" where
  "frame_header_to_bytes h = wf_prefix h @ to_le32 (wf_crc32 h)"

definition frame_header_from_bytes :: "bytes \<Rightarrow> wal_frame_header result" where
  "frame_header_from_bytes bs =
     (if length bs < WAL_FRAME_HEADER_SIZE
      then Inl (Corrupted ''WAL frame header slice too short (<24 bytes)'')
      else Inr \<lparr>wf_page_id = u32_at bs 0, wf_db_size = u32_at bs 4, wf_commit_seq = u32_at bs 8,
                wf_salt_1 = u32_at bs 12, wf_salt_2 = u32_at bs 16, wf_crc32 = u32_at bs 20\<rparr>)"

section \<open>The log\<close>

record in_memory_frame =
  fr_header :: wal_frame_header
  fr_data :: bytes

text \<open>
  \<^verbatim>\<open>w_checkpoint_error\<close> keeps the error value instead of its rendered text. The path is not
  kept: nothing reads it.
\<close>

record wal =
  w_header :: wal_header
  w_writer :: "buf_writer option"
  w_page_size :: nat
  w_index :: "page_id \<rightharpoonup> nat"
  w_frames :: "in_memory_frame list"
  w_commit_seq :: u32
  w_io :: storage_io
  w_io_failed :: bool
  w_checkpoint_error :: "error option"

record storage_health =
  sh_reopen_required :: bool
  sh_checkpoint_error :: "error option"
  sh_wal_frames :: nat

definition wal_empty :: "wal_header \<Rightarrow> nat \<Rightarrow> wal" where
  "wal_empty h page_size =
     \<lparr>w_header = h, w_writer = None, w_page_size = page_size, w_index = (\<lambda>_. None), w_frames = [],
      w_commit_seq = 0, w_io = None, w_io_failed = False, w_checkpoint_error = None\<rparr>"

definition wal_open_in_memory :: "crc_fun \<Rightarrow> u32 \<Rightarrow> wal" where
  "wal_open_in_memory crc page_size = wal_empty (wal_header_new crc page_size) (unat page_size)"

definition frame_count :: "wal \<Rightarrow> nat" where "frame_count w = length (w_frames w)"

definition wal_health :: "wal \<Rightarrow> storage_health" where
  "wal_health w = \<lparr>sh_reopen_required = w_io_failed w, sh_checkpoint_error = w_checkpoint_error w,
                   sh_wal_frames = length (w_frames w)\<rparr>"

definition requires_reopen :: "wal \<Rightarrow> bool" where "requires_reopen w = w_io_failed w"

definition has_page :: "wal \<Rightarrow> page_id \<Rightarrow> bool" where
  "has_page w page_id = (w_index w page_id \<noteq> None)"

definition export_frames :: "wal \<Rightarrow> (page_id \<times> bytes) list" where
  "export_frames w = map (\<lambda>f. (wf_page_id (fr_header f), fr_data f)) (w_frames w)"

definition wal_read_page :: "wal \<Rightarrow> page_id \<Rightarrow> bytes option" where
  "wal_read_page w page_id =
     (case w_index w page_id of
        None \<Rightarrow> None
      | Some i \<Rightarrow> if i < length (w_frames w) then Some (fr_data (w_frames w ! i)) else None)"

section \<open>Scanning a WAL file\<close>

text \<open>The four checks of \<^verbatim>\<open>rebuild_index_from_file\<close> that end the scan.\<close>

definition frame_bad :: "crc_fun \<Rightarrow> wal_header \<Rightarrow> wal_frame_header \<Rightarrow> bytes \<Rightarrow> bool" where
  "frame_bad crc hdr fh page_data \<longleftrightarrow>
     wf_crc32 fh \<noteq> wf_calculate_crc crc fh page_data \<or> wf_page_id fh = 0 \<or>
     wf_salt_1 fh \<noteq> wh_salt_1 hdr \<or> wf_salt_2 fh \<noteq> wh_salt_2 hdr"

function rebuild_loop ::
    "crc_fun \<Rightarrow> bytes \<Rightarrow> nat \<Rightarrow> nat \<Rightarrow> wal \<Rightarrow> (wal \<times> nat) result" where
  "rebuild_loop crc file offset frame_idx w =
     (let frame_size = WAL_FRAME_HEADER_SIZE + w_page_size w in
      if offset + frame_size \<le> length file then
        bind_r (slice_r file offset (offset + WAL_FRAME_HEADER_SIZE)) (\<lambda>header_buf.
        bind_r (frame_header_from_bytes header_buf) (\<lambda>fh.
        bind_r (slice_r file (offset + WAL_FRAME_HEADER_SIZE) (offset + frame_size)) (\<lambda>page_data.
          if frame_bad crc (w_header w) fh page_data then Inr (w, offset)
          else rebuild_loop crc file (offset + frame_size) (frame_idx + 1)
                 (w\<lparr>w_commit_seq := (if wf_commit_seq fh > w_commit_seq w then wf_commit_seq fh
                                     else w_commit_seq w),
                    w_index := (w_index w)(wf_page_id fh \<mapsto> frame_idx),
                    w_frames := w_frames w @ [\<lparr>fr_header = fh, fr_data = page_data\<rparr>]\<rparr>))))
      else Inr (w, offset))"
  by pat_completeness auto
termination
  by (relation "measure (\<lambda>(crc, file, offset, i, w). length file + 1 - offset)")
     (auto simp: WAL_FRAME_HEADER_SIZE_def)

declare rebuild_loop.simps [simp del]

text \<open>The log with its frames and index, and the file cut after the last valid frame.\<close>

definition rebuild_index_from_file :: "crc_fun \<Rightarrow> bytes \<Rightarrow> wal \<Rightarrow> (wal \<times> bytes) result" where
  "rebuild_index_from_file crc file w =
     bind_r (rebuild_loop crc file WAL_HEADER_SIZE 0 w) (\<lambda>(w', offset).
     Inr (w', take offset file @ replicate (offset - length file) 0))"

function committed_loop ::
    "crc_fun \<Rightarrow> bytes \<Rightarrow> wal_header \<Rightarrow> page_id \<Rightarrow> nat \<Rightarrow> bytes option \<Rightarrow> bytes option \<Rightarrow> bytes option result" where
  "committed_loop crc file hdr wanted pos pending committed =
     (let n = unat (wh_page_size hdr) in
      if pos + WAL_FRAME_HEADER_SIZE + n \<le> length file then
        bind_r (slice_r file pos (pos + WAL_FRAME_HEADER_SIZE)) (\<lambda>raw.
        bind_r (frame_header_from_bytes raw) (\<lambda>frame.
        bind_r (slice_r file (pos + WAL_FRAME_HEADER_SIZE) (pos + WAL_FRAME_HEADER_SIZE + n)) (\<lambda>payload.
          if frame_bad crc hdr frame payload then Inr committed
          else let pending' = (if wf_page_id frame = wanted then Some payload else pending);
                   committed' = (if wf_db_size frame > 0 then pending' else committed) in
               committed_loop crc file hdr wanted (pos + WAL_FRAME_HEADER_SIZE + n) pending' committed')))
      else Inr committed)"
  by pat_completeness auto
termination
  by (relation "measure (\<lambda>(crc, file, hdr, wanted, pos, p, c). length file + 1 - pos)")
     (auto simp: WAL_FRAME_HEADER_SIZE_def)

declare committed_loop.simps [simp del]

definition read_committed_page :: "crc_fun \<Rightarrow> bytes \<Rightarrow> page_id \<Rightarrow> bytes option result" where
  "read_committed_page crc file wanted =
     (if length file < WAL_HEADER_SIZE then Inr None
      else bind_r (wal_header_from_bytes crc (take WAL_HEADER_SIZE file)) (\<lambda>hdr.
        committed_loop crc file hdr wanted WAL_HEADER_SIZE None None))"

section \<open>Writing, syncing, rolling back\<close>

text \<open>A guarded step on the writer of the log; without a writer the closure does nothing.\<close>

definition with_writer :: "(storage_io \<times> buf_writer, unit) sm \<Rightarrow> (wal, unit) sm" where
  "with_writer m w =
     (case w_writer w of
        None \<Rightarrow> (Inr (), w)
      | Some bw \<Rightarrow> (case m (w_io w, bw) of
          (r, io', bw') \<Rightarrow> (r, w\<lparr>w_io := io', w_writer := Some bw'\<rparr>)))"

definition bw_before :: "io_point \<Rightarrow> (storage_io \<times> buf_writer, unit) sm" where
  "bw_before p = (\<lambda>(io, bw). case io_before p io of (r, io') \<Rightarrow> (r, io', bw))"

definition bw_do :: "(buf_writer \<Rightarrow> buf_writer) \<Rightarrow> (storage_io \<times> buf_writer, unit) sm" where
  "bw_do f = (\<lambda>(io, bw). (Inr (), io, f bw))"

definition on_file :: "(disk_file \<Rightarrow> disk_file) \<Rightarrow> buf_writer \<Rightarrow> buf_writer" where
  "on_file f bw = bw\<lparr>bw_file := f (bw_file bw)\<rparr>"

abbreviation bw_io_write :: "io_point \<Rightarrow> bytes \<Rightarrow> (storage_io \<times> buf_writer, unit) sm" where
  "bw_io_write \<equiv> io_write bw_write_all bw_flush"

text \<open>\<^verbatim>\<open>if let Err(error) = ... { self.io_failed = true; return Err(error); }\<close>\<close>

definition or_fail_io :: "(wal, unit) sm \<Rightarrow> (wal, unit) sm" where
  "or_fail_io m w = (case m w of (Inl e, w') \<Rightarrow> (Inl e, w'\<lparr>w_io_failed := True\<rparr>) | r \<Rightarrow> r)"

definition next_commit_seq :: "bool \<Rightarrow> wal \<Rightarrow> u32 result" where
  "next_commit_seq is_commit w =
     (if is_commit
      then (if w_commit_seq w = - 1
            then Inl (TransactionError ''WAL commit sequence exhausted'')
            else Inr (w_commit_seq w + 1))
      else Inr (w_commit_seq w))"

definition make_frame_header :: "crc_fun \<Rightarrow> wal \<Rightarrow> page_id \<Rightarrow> bytes \<Rightarrow> u32 \<Rightarrow> u32 \<Rightarrow> wal_frame_header" where
  "make_frame_header crc w page_id page_data db_size commit_seq =
     (let fh = \<lparr>wf_page_id = page_id, wf_db_size = db_size, wf_commit_seq = commit_seq,
                wf_salt_1 = wh_salt_1 (w_header w), wf_salt_2 = wh_salt_2 (w_header w), wf_crc32 = 0\<rparr>
      in fh\<lparr>wf_crc32 := wf_calculate_crc crc fh page_data\<rparr>)"

definition wal_write_frame :: "crc_fun \<Rightarrow> page_id \<Rightarrow> bytes \<Rightarrow> bool \<Rightarrow> u32 \<Rightarrow> (wal, unit) sm" where
  "wal_write_frame crc page_id page_data is_commit db_size w =
     (if w_io_failed w
      then (Inl (TransactionError ''WAL requires reopen or successful rollback after I/O failure''), w)
      else if length page_data \<noteq> w_page_size w
      then (Inl (Corrupted ''Page data size mismatch in WAL''), w)
      else case next_commit_seq is_commit w of
        Inl e \<Rightarrow> (Inl e, w)
      | Inr commit_seq \<Rightarrow>
          let fh = make_frame_header crc w page_id page_data (if is_commit then db_size else 0) commit_seq in
          bind_s (or_fail_io (with_writer (
              bind_s (bw_io_write WalWrite (frame_header_to_bytes fh)) (\<lambda>_.
              bind_s (bw_io_write WalWrite page_data) (\<lambda>_.
              if is_commit
              then bind_s (bw_before WalFlush) (\<lambda>_.
                   bind_s (bw_do bw_flush) (\<lambda>_. bw_before WalSync))
              else ret_s ())))))
            (\<lambda>_ w1. (Inr (), w1\<lparr>w_commit_seq := commit_seq,
                       w_index := (w_index w1)(page_id \<mapsto> length (w_frames w1)),
                       w_frames := w_frames w1 @ [\<lparr>fr_header = fh, fr_data = page_data\<rparr>]\<rparr>)) w)"

definition wal_sync :: "(wal, unit) sm" where
  "wal_sync = or_fail_io (with_writer (
     bind_s (bw_before WalFlush) (\<lambda>_. bind_s (bw_do bw_flush) (\<lambda>_. bw_before WalSync))))"

text \<open>The index of the latest frame of each page.\<close>

definition index_of :: "in_memory_frame list \<Rightarrow> page_id \<rightharpoonup> nat" where
  "index_of fs = fold (\<lambda>i m. m(wf_page_id (fr_header (fs ! i)) \<mapsto> i)) [0..<length fs] (\<lambda>_. None)"

definition wal_rollback_to :: "nat \<Rightarrow> (wal, unit) sm" where
  "wal_rollback_to n w =
     (let n = min n (length (w_frames w));
          offset = WAL_HEADER_SIZE + n * (WAL_FRAME_HEADER_SIZE + w_page_size w) in
      bind_s (or_fail_io (\<lambda>w. with_writer (\<lambda>(io, bw).
          if \<not> w_io_failed w \<and> bw_buf bw = [] \<and> length (df_data (bw_file bw)) = offset \<and>
             n = length (w_frames w)
          then (Inr (), io, bw)
          else bind_s (bw_before WalFlush) (\<lambda>_.
               bind_s (bw_do bw_flush) (\<lambda>_.
               bind_s (bw_before WalTruncate) (\<lambda>_.
               bind_s (bw_do (on_file (file_set_len offset))) (\<lambda>_.
               bind_s (bw_before WalSync) (\<lambda>_.
               bw_do (on_file file_seek_end)))))) (io, bw)) w))
        (\<lambda>_ w1. let fs = take n (w_frames w1) in
           (Inr (), w1\<lparr>w_io_failed := False, w_frames := fs, w_index := index_of fs\<rparr>)) w)"

definition committed_count :: "in_memory_frame list \<Rightarrow> nat" where
  "committed_count fs =
     length (dropWhile (\<lambda>f. wf_db_size (fr_header f) = 0) (rev fs))"

definition discard_uncommitted_tail :: "(wal, unit) sm" where
  "discard_uncommitted_tail w = wal_rollback_to (committed_count (w_frames w)) w"

section \<open>Opening\<close>

text \<open>\<open>file\<close> is the content of an existing WAL file, or \<open>None\<close>.\<close>

definition wal_open :: "crc_fun \<Rightarrow> bytes option \<Rightarrow> u32 \<Rightarrow> wal result" where
  "wal_open crc file page_size =
     bind_r (case file of
         Some d \<Rightarrow>
           if length d \<ge> WAL_HEADER_SIZE
           then bind_r (wal_header_from_bytes crc (take WAL_HEADER_SIZE d)) (\<lambda>h. Inr (h, d))
           else let h = wal_header_new crc page_size in Inr (h, write_at 0 (wal_header_to_bytes h) d)
       | None \<Rightarrow> let h = wal_header_new crc page_size in Inr (h, wal_header_to_bytes h))
     (\<lambda>(header, d).
       if wh_page_size header \<noteq> page_size
       then Inl (Corrupted ''WAL page size does not match the database'')
       else bind_r (rebuild_index_from_file crc d (wal_empty header (unat page_size))) (\<lambda>(w, d').
         let w1 = w\<lparr>w_writer := Some \<lparr>bw_file = file_seek_end \<lparr>df_data = d', df_pos = 0\<rparr>, bw_buf = []\<rparr>\<rparr>
         in case discard_uncommitted_tail w1 of
              (Inl e, _) \<Rightarrow> Inl e
            | (Inr _, w2) \<Rightarrow> Inr w2))"

section \<open>Checkpoint and recovery\<close>

text \<open>
  The destination of a checkpoint: the base file (\<open>None\<close> in memory mode) and the map of
  in-memory pages. \<open>base_write\<close> is the body of both copy loops.
\<close>

record base_store =
  bs_file :: "disk_file option"
  bs_memory :: "page_id \<rightharpoonup> bytes"

definition file_io_write :: "io_point \<Rightarrow> bytes \<Rightarrow> (storage_io \<times> disk_file, unit) sm" where
  "file_io_write = io_write file_write (\<lambda>f. f)"

definition base_write :: "nat \<Rightarrow> page_id \<Rightarrow> bytes \<Rightarrow> (storage_io \<times> base_store, unit) sm" where
  "base_write page_size page_id page_data = (\<lambda>(io, base).
     case bs_file base of
       Some f \<Rightarrow>
         if page_id = 0 then (Inl Panic, io, base)
         else (case file_io_write CheckpointWrite page_data
                      (io, file_seek ((unat page_id - 1) * page_size) f) of
             (r, io', f') \<Rightarrow> (r, io', base\<lparr>bs_file := Some f'\<rparr>))
     | None \<Rightarrow>
         (Inr (), io, (case bs_memory base page_id of
            Some _ \<Rightarrow> base
          | None \<Rightarrow> base\<lparr>bs_memory := (bs_memory base)(page_id \<mapsto> page_data)\<rparr>)))"

definition base_sync :: "(storage_io \<times> base_store, unit) sm" where
  "base_sync = (\<lambda>(io, base).
     case bs_file base of
       Some _ \<Rightarrow> (case io_before CheckpointSync io of (r, io') \<Rightarrow> (r, io', base))
     | None \<Rightarrow> (Inr (), io, base))"

definition on_base :: "(storage_io \<times> base_store, 'a) sm \<Rightarrow> (wal \<times> base_store, 'a) sm" where
  "on_base m = (\<lambda>(w, base). case m (w_io w, base) of (r, io', base') \<Rightarrow> (r, w\<lparr>w_io := io'\<rparr>, base'))"

definition on_wal :: "(wal, 'a) sm \<Rightarrow> (wal \<times> base_store, 'a) sm" where
  "on_wal m = (\<lambda>(w, base). case m w of (r, w') \<Rightarrow> (r, w', base))"

text \<open>The pages of the log in ascending order of their number.\<close>

definition sorted_page_ids :: "wal \<Rightarrow> page_id list" where
  "sorted_page_ids w = sorted_list_of_set (dom (w_index w))"

definition wal_reset :: "(wal, unit) sm" where
  "wal_reset w = or_fail_io (with_writer (
     bind_s (bw_before WalFlush) (\<lambda>_.
     bind_s (bw_do bw_flush) (\<lambda>_.
     bind_s (bw_before WalTruncate) (\<lambda>_.
     bind_s (bw_do (on_file (file_seek 0 \<circ> file_set_len 0))) (\<lambda>_.
     bind_s (\<lambda>(io, bw). case file_io_write WalReset (wal_header_to_bytes (w_header w)) (io, bw_file bw) of
               (r, io', f') \<Rightarrow> (r, io', bw\<lparr>bw_file := f'\<rparr>)) (\<lambda>_.
     bind_s (bw_before WalSync) (\<lambda>_.
     bw_do (on_file file_seek_end))))))))) w"

definition bump_checkpoint_seq :: "crc_fun \<Rightarrow> (wal, unit) sm" where
  "bump_checkpoint_seq crc w =
     (if wh_checkpoint_seq (w_header w) = - 1 then (Inl Panic, w)
      else let h = (w_header w)\<lparr>wh_checkpoint_seq := wh_checkpoint_seq (w_header w) + 1\<rparr> in
           (Inr (), w\<lparr>w_header := h\<lparr>wh_header_crc32 := wh_calculate_crc crc h\<rparr>\<rparr>))"

definition checkpoint_inner :: "crc_fun \<Rightarrow> (wal \<times> base_store, nat) sm" where
  "checkpoint_inner crc = (\<lambda>(w, base).
     if w_frames w \<noteq> [] \<and> wf_db_size (fr_header (last (w_frames w))) = 0
     then (Inl (TransactionError ''Cannot checkpoint an uncommitted WAL tail''), w, base)
     else let ids = sorted_page_ids w; num_pages = length ids in
       if num_pages = 0 then (Inr 0, w, base)
       else
         bind_s (each_s (\<lambda>page_id.
                   bind_s (lift_s (ok_or Panic (wal_read_page w page_id))) (\<lambda>page_data.
                   on_base (base_write (w_page_size w) page_id page_data))) ids) (\<lambda>_.
         bind_s (on_base base_sync) (\<lambda>_.
         bind_s (on_wal (bump_checkpoint_seq crc)) (\<lambda>_.
         bind_s (on_wal wal_reset) (\<lambda>_.
         bind_s (on_wal (put_s (\<lambda>w. w\<lparr>w_index := (\<lambda>_. None), w_frames := []\<rparr>))) (\<lambda>_.
         ret_s num_pages))))) (w, base))"

definition wal_checkpoint :: "crc_fun \<Rightarrow> (wal \<times> base_store, nat) sm" where
  "wal_checkpoint crc = (\<lambda>(w, base).
     case (if w_io_failed w
           then (Inl (TransactionError ''WAL requires reopen before checkpoint''), w, base)
           else checkpoint_inner crc (w, base)) of
       (r, w', base') \<Rightarrow>
         (r, w'\<lparr>w_checkpoint_error := (case r of Inl e \<Rightarrow> Some e | Inr _ \<Rightarrow> None)\<rparr>, base'))"

definition wal_recover :: "(wal \<times> base_store, nat) sm" where
  "wal_recover =
     bind_s (on_wal discard_uncommitted_tail) (\<lambda>_ (w, base).
       if w_frames w = [] then (Inr 0, w, base)
       else if committed_count (w_frames w) = 0
       then (Inr 0, w\<lparr>w_index := (\<lambda>_. None), w_frames := []\<rparr>, base)
       else let fs = take (committed_count (w_frames w)) (w_frames w) in
         bind_s (each_s (\<lambda>f. on_base (base_write (w_page_size w) (wf_page_id (fr_header f)) (fr_data f))) fs) (\<lambda>_.
         bind_s (on_base base_sync) (\<lambda>_. ret_s (length fs))) (w, base))"

end
