(* ===== verification/Wal_Scan.thy ===== *)
theory Wal_Scan
  imports Wal
begin

text \<open>
  What opening a WAL file recovers. \<open>scan_frames\<close> is the abstract reading of a byte string:
  the longest run of valid frames. The file scanners of \<open>Wal\<close> compute it; on the prefix of a
  written log it gives the frames that are completely there, and opening then keeps those up
  to the last commit. \<open>wal_inv\<close> relates the log in memory to its file.
\<close>

section \<open>Codecs of headers and frames\<close>

lemma length_wh_prefix: "length (wh_magic h) = 8 \<Longrightarrow> length (wh_prefix h) = 28"
  by (simp add: wh_prefix_def)

definition valid_wal_header :: "crc_fun \<Rightarrow> wal_header \<Rightarrow> bool" where
  "valid_wal_header crc h \<longleftrightarrow> wh_magic h = WAL_MAGIC \<and> wh_version h = WAL_VERSION \<and>
     is_power_of_two (wh_page_size h) \<and> 512 \<le> wh_page_size h \<and> wh_page_size h \<le> 65536 \<and>
     wh_header_crc32 h = wh_calculate_crc crc h"

lemma length_WAL_MAGIC [simp]: "length WAL_MAGIC = 8"
  by (simp add: WAL_MAGIC_def)

lemma length_wal_header_to_bytes:
  "wh_magic h = WAL_MAGIC \<Longrightarrow> length (wal_header_to_bytes h) = WAL_HEADER_SIZE"
  by (simp add: wal_header_to_bytes_def length_wh_prefix WAL_HEADER_SIZE_def)

lemma wal_header_roundtrip_rest:
  assumes "valid_wal_header crc h"
  shows "wal_header_from_bytes crc (wal_header_to_bytes h @ rest) = Inr h"
proof -
  have m: "wh_magic h = WAL_MAGIC" using assms by (simp add: valid_wal_header_def)
  have h: "h = \<lparr>wh_magic = WAL_MAGIC, wh_version = wh_version h, wh_page_size = wh_page_size h,
      wh_checkpoint_seq = wh_checkpoint_seq h, wh_salt_1 = wh_salt_1 h, wh_salt_2 = wh_salt_2 h,
      wh_header_crc32 = wh_header_crc32 h\<rparr>"
    using m by (cases h) simp
  have bs: "take 8 (wal_header_to_bytes h @ rest) = WAL_MAGIC"
    "u32_at (wal_header_to_bytes h @ rest) 8 = wh_version h"
    "u32_at (wal_header_to_bytes h @ rest) 12 = wh_page_size h"
    "u32_at (wal_header_to_bytes h @ rest) 16 = wh_checkpoint_seq h"
    "u32_at (wal_header_to_bytes h @ rest) 20 = wh_salt_1 h"
    "u32_at (wal_header_to_bytes h @ rest) 24 = wh_salt_2 h"
    "u32_at (wal_header_to_bytes h @ rest) 28 = wh_header_crc32 h"
    by (simp_all add: wal_header_to_bytes_def wh_prefix_def m u32_at_def)
  show ?thesis
    unfolding wal_header_from_bytes_def bs h [symmetric] Let_def
    using assms by (simp add: valid_wal_header_def length_wal_header_to_bytes)
qed

lemma wal_header_from_bytes_valid:
  assumes "wal_header_from_bytes crc bs = Inr h"
  shows "valid_wal_header crc h"
  using assms unfolding wal_header_from_bytes_def Let_def
  by (cases h) (auto simp: valid_wal_header_def split: if_splits)

lemma valid_wal_header_new:
  assumes "is_power_of_two ps" "512 \<le> ps" "ps \<le> 65536"
  shows "valid_wal_header crc (wal_header_new crc ps)"
  using assms by (simp add: valid_wal_header_def wal_header_new_def wh_calculate_crc_def wh_prefix_def Let_def)

lemma length_frame_header_to_bytes [simp]: "length (frame_header_to_bytes h) = WAL_FRAME_HEADER_SIZE"
  by (simp add: frame_header_to_bytes_def wf_prefix_def WAL_FRAME_HEADER_SIZE_def)

lemma frame_header_roundtrip_rest:
  "frame_header_from_bytes (frame_header_to_bytes h @ rest) = Inr h"
proof -
  have "WAL_FRAME_HEADER_SIZE \<le> length (frame_header_to_bytes h @ rest)" by simp
  then show ?thesis
    by (cases h) (simp add: frame_header_from_bytes_def frame_header_to_bytes_def wf_prefix_def u32_at_def)
qed

lemmas frame_header_roundtrip = frame_header_roundtrip_rest [where rest = "[]", simplified]

section \<open>The abstract scan\<close>

definition enc_frame :: "in_memory_frame \<Rightarrow> bytes" where
  "enc_frame f = frame_header_to_bytes (fr_header f) @ fr_data f"

definition enc_frames :: "in_memory_frame list \<Rightarrow> bytes" where
  "enc_frames fs = concat (map enc_frame fs)"

definition frame_size :: "nat \<Rightarrow> nat" where "frame_size n = WAL_FRAME_HEADER_SIZE + n"

definition good_frame :: "crc_fun \<Rightarrow> wal_header \<Rightarrow> nat \<Rightarrow> in_memory_frame \<Rightarrow> bool" where
  "good_frame crc hdr n f \<longleftrightarrow> \<not> frame_bad crc hdr (fr_header f) (fr_data f) \<and> length (fr_data f) = n"

lemma enc_frames_simps [simp]:
  "enc_frames [] = []" "enc_frames (f # fs) = enc_frame f @ enc_frames fs"
  "enc_frames (fs @ gs) = enc_frames fs @ enc_frames gs"
  by (simp_all add: enc_frames_def)

lemma frame_size_pos: "0 < frame_size n" "frame_size n \<noteq> 0"
  by (simp_all add: frame_size_def WAL_FRAME_HEADER_SIZE_def)

lemma length_enc_frame: "good_frame crc hdr n f \<Longrightarrow> length (enc_frame f) = frame_size n"
  by (simp add: enc_frame_def good_frame_def frame_size_def)

lemma length_enc_frames:
  "list_all (good_frame crc hdr n) fs \<Longrightarrow> length (enc_frames fs) = length fs * frame_size n"
  by (induction fs) (auto simp: length_enc_frame)

function scan_frames :: "crc_fun \<Rightarrow> wal_header \<Rightarrow> nat \<Rightarrow> bytes \<Rightarrow> in_memory_frame list" where
  "scan_frames crc hdr n bs =
     (if length bs < frame_size n then []
      else case frame_header_from_bytes (take WAL_FRAME_HEADER_SIZE bs) of
        Inl _ \<Rightarrow> []
      | Inr fh \<Rightarrow>
          let page_data = take n (drop WAL_FRAME_HEADER_SIZE bs) in
          if frame_bad crc hdr fh page_data then []
          else \<lparr>fr_header = fh, fr_data = page_data\<rparr> # scan_frames crc hdr n (drop (frame_size n) bs))"
  by pat_completeness auto
termination
  by (relation "measure (\<lambda>(crc, hdr, n, bs). length bs)")
     (auto simp: frame_size_def WAL_FRAME_HEADER_SIZE_def)

declare scan_frames.simps [simp del]

lemma scan_frames_good:
  assumes "good_frame crc hdr n f"
  shows "scan_frames crc hdr n (enc_frame f @ bs) = f # scan_frames crc hdr n bs"
proof -
  have l: "length (enc_frame f) = frame_size n" by (rule length_enc_frame [OF assms])
  have "take WAL_FRAME_HEADER_SIZE (enc_frame f @ bs) = frame_header_to_bytes (fr_header f)"
    "take n (drop WAL_FRAME_HEADER_SIZE (enc_frame f @ bs)) = fr_data f"
    using assms by (simp_all add: enc_frame_def good_frame_def)
  then show ?thesis
    using assms l by (subst scan_frames.simps)
      (simp add: frame_header_roundtrip good_frame_def)
qed

lemma scan_frames_short: "length bs < frame_size n \<Longrightarrow> scan_frames crc hdr n bs = []"
  by (subst scan_frames.simps) simp

lemma scan_frames_append:
  "list_all (good_frame crc hdr n) fs \<Longrightarrow>
   scan_frames crc hdr n (enc_frames fs @ bs) = fs @ scan_frames crc hdr n bs"
  by (induction fs) (auto simp: scan_frames_good)

lemma scan_frames_all_good: "list_all (good_frame crc hdr n) (scan_frames crc hdr n bs)"
proof (induction crc hdr n bs rule: scan_frames.induct)
  case (1 crc hdr n bs)
  show ?case
  proof (cases "length bs < frame_size n")
    case True
    then show ?thesis by (simp add: scan_frames_short)
  next
    case False
    then have "length (take n (drop WAL_FRAME_HEADER_SIZE bs)) = n" by (simp add: frame_size_def)
    then have g: "\<not> frame_bad crc hdr fh (take n (drop WAL_FRAME_HEADER_SIZE bs)) \<Longrightarrow>
        good_frame crc hdr n \<lparr>fr_header = fh, fr_data = take n (drop WAL_FRAME_HEADER_SIZE bs)\<rparr>" for fh
      by (simp add: good_frame_def)
    show ?thesis
      using 1 False g by (subst scan_frames.simps) (simp add: Let_def split: sum.splits)
  qed
qed

text \<open>Every byte prefix of a log stands for the frames that are completely inside it.\<close>

lemma scan_frames_prefix:
  "list_all (good_frame crc hdr n) fs \<Longrightarrow>
   scan_frames crc hdr n (take k (enc_frames fs)) = take (k div frame_size n) fs"
proof (induction fs arbitrary: k)
  case (Cons f fs)
  have l: "length (enc_frame f) = frame_size n" using Cons.prems by (auto intro: length_enc_frame)
  show ?case
  proof (cases "k < frame_size n")
    case True
    then show ?thesis using l by (simp add: scan_frames_short)
  next
    case False
    then have "k div frame_size n = Suc ((k - frame_size n) div frame_size n)"
      using frame_size_pos by (metis div_if not_less)
    then show ?thesis using Cons l False by (simp add: scan_frames_good)
  qed
qed (simp add: scan_frames_short frame_size_pos)

section \<open>The scanners compute it\<close>

definition add_frame :: "wal \<Rightarrow> in_memory_frame \<Rightarrow> wal" where
  "add_frame w f = w\<lparr>w_commit_seq := (if wf_commit_seq (fr_header f) > w_commit_seq w then wf_commit_seq (fr_header f)
                       else w_commit_seq w),
     w_index := (w_index w)(wf_page_id (fr_header f) \<mapsto> length (w_frames w)),
     w_frames := w_frames w @ [f]\<rparr>"

lemma add_frame_fields [simp]:
  "w_header (add_frame w f) = w_header w" "w_page_size (add_frame w f) = w_page_size w"
  "w_frames (add_frame w f) = w_frames w @ [f]" "w_writer (add_frame w f) = w_writer w"
  "w_io (add_frame w f) = w_io w" "w_io_failed (add_frame w f) = w_io_failed w"
  by (simp_all add: add_frame_def)

lemma foldl_add_frame_fields [simp]:
  "w_header (foldl add_frame w fs) = w_header w" "w_page_size (foldl add_frame w fs) = w_page_size w"
  "w_frames (foldl add_frame w fs) = w_frames w @ fs" "w_writer (foldl add_frame w fs) = w_writer w"
  "w_io (foldl add_frame w fs) = w_io w" "w_io_failed (foldl add_frame w fs) = w_io_failed w"
  by (induction fs arbitrary: w) simp_all

lemma slice_r_ok: "a \<le> b \<Longrightarrow> b \<le> length xs \<Longrightarrow> slice_r xs a b = Inr (take (b - a) (drop a xs))"
  by (simp add: slice_r_def)

lemma rebuild_loop_scan:
  assumes "i = length (w_frames w)" "offset \<le> length file"
  shows "rebuild_loop crc file offset i w =
    (let fs = scan_frames crc (w_header w) (w_page_size w) (drop offset file) in
     Inr (foldl add_frame w fs, offset + length fs * frame_size (w_page_size w)))"
  using assms
proof (induction "length file - offset" arbitrary: offset i w rule: less_induct)
  case less
  define n where "n = w_page_size w"
  define bs where "bs = drop offset file"
  define fh where "fh = (case frame_header_from_bytes (take WAL_FRAME_HEADER_SIZE bs) of Inr h \<Rightarrow> h)"
  define data where "data = take n (drop WAL_FRAME_HEADER_SIZE bs)"
  show ?case
  proof (cases "offset + frame_size n \<le> length file")
    case False
    then show ?thesis
      using less.prems
      by (subst rebuild_loop.simps) (simp add: n_def scan_frames_short frame_size_def Let_def)
  next
    case True
    have p: "0 < frame_size n" by (rule frame_size_pos)
    have bl: "\<not> length bs < frame_size n" using True by (simp add: bs_def)
    have s1: "slice_r file offset (offset + WAL_FRAME_HEADER_SIZE) = Inr (take WAL_FRAME_HEADER_SIZE bs)"
      using True by (simp add: slice_r_ok bs_def frame_size_def)
    have s2: "slice_r file (offset + WAL_FRAME_HEADER_SIZE) (offset + frame_size n) = Inr data"
      using True by (simp add: slice_r_ok bs_def data_def frame_size_def add.commute)
    have h: "frame_header_from_bytes (take WAL_FRAME_HEADER_SIZE bs) = Inr fh"
      using bl by (simp add: fh_def frame_header_from_bytes_def frame_size_def)
    have loop: "rebuild_loop crc file offset i w =
        (if frame_bad crc (w_header w) fh data then Inr (w, offset)
         else rebuild_loop crc file (offset + frame_size n) (i + 1)
                (add_frame w \<lparr>fr_header = fh, fr_data = data\<rparr>))"
      using True s1 s2 h less.prems
      by (subst rebuild_loop.simps)
         (simp add: n_def [symmetric] frame_size_def [symmetric] add_frame_def Let_def)
    have scan: "scan_frames crc (w_header w) n bs =
        (if frame_bad crc (w_header w) fh data then []
         else \<lparr>fr_header = fh, fr_data = data\<rparr> # scan_frames crc (w_header w) n (drop (offset + frame_size n) file))"
      using bl h by (subst scan_frames.simps) (simp add: data_def bs_def Let_def add.commute)
    show ?thesis
    proof (cases "frame_bad crc (w_header w) fh data")
      case False
      have "rebuild_loop crc file (offset + frame_size n) (i + 1)
          (add_frame w \<lparr>fr_header = fh, fr_data = data\<rparr>) =
        (let fs = scan_frames crc (w_header w) n (drop (offset + frame_size n) file) in
         Inr (foldl add_frame (add_frame w \<lparr>fr_header = fh, fr_data = data\<rparr>) fs,
              offset + frame_size n + length fs * frame_size n))"
        using less.hyps [of "offset + frame_size n" "i + 1" "add_frame w \<lparr>fr_header = fh, fr_data = data\<rparr>"]
          less.prems True p by (simp add: n_def [symmetric])
      then show ?thesis
        using False loop scan by (simp add: n_def [symmetric] bs_def [symmetric] Let_def add.assoc)
    qed (use loop scan in \<open>simp add: n_def [symmetric] bs_def [symmetric]\<close>)
  qed
qed

text \<open>The last committed image of a page in a list of frames.\<close>

fun committed_image ::
    "page_id \<Rightarrow> bytes option \<Rightarrow> bytes option \<Rightarrow> in_memory_frame list \<Rightarrow> bytes option" where
  "committed_image p pending committed [] = committed"
| "committed_image p pending committed (f # fs) =
     (let pending' = (if wf_page_id (fr_header f) = p then Some (fr_data f) else pending) in
      committed_image p pending' (if wf_db_size (fr_header f) > 0 then pending' else committed) fs)"

lemma committed_loop_scan:
  assumes "pos \<le> length file"
  shows "committed_loop crc file hdr p pos pend com =
    Inr (committed_image p pend com (scan_frames crc hdr (unat (wh_page_size hdr)) (drop pos file)))"
  using assms
proof (induction "length file - pos" arbitrary: pos pend com rule: less_induct)
  case less
  define n where "n = unat (wh_page_size hdr)"
  define bs where "bs = drop pos file"
  define fh where "fh = (case frame_header_from_bytes (take WAL_FRAME_HEADER_SIZE bs) of Inr h \<Rightarrow> h)"
  define data where "data = take n (drop WAL_FRAME_HEADER_SIZE bs)"
  show ?case
  proof (cases "pos + frame_size n \<le> length file")
    case False
    then have "scan_frames crc hdr n bs = []" by (intro scan_frames_short) (use less.prems False in \<open>simp add: bs_def\<close>)
    with False show ?thesis
      by (subst committed_loop.simps)
         (simp add: n_def bs_def frame_size_def add.assoc [symmetric] Let_def)
  next
    case True
    have p: "0 < frame_size n" by (rule frame_size_pos)
    have bl: "\<not> length bs < frame_size n" using True by (simp add: bs_def)
    have s1: "slice_r file pos (pos + WAL_FRAME_HEADER_SIZE) = Inr (take WAL_FRAME_HEADER_SIZE bs)"
      using True by (simp add: slice_r_ok bs_def frame_size_def)
    have s2: "slice_r file (pos + WAL_FRAME_HEADER_SIZE) (pos + frame_size n) = Inr data"
      using True by (simp add: slice_r_ok bs_def data_def frame_size_def add.commute)
    have h: "frame_header_from_bytes (take WAL_FRAME_HEADER_SIZE bs) = Inr fh"
      using bl by (simp add: fh_def frame_header_from_bytes_def frame_size_def)
    define pend' where "pend' = (if wf_page_id fh = p then Some data else pend)"
    have loop: "committed_loop crc file hdr p pos pend com =
        (if frame_bad crc hdr fh data then Inr com
         else committed_loop crc file hdr p (pos + frame_size n) pend'
                (if wf_db_size fh > 0 then pend' else com))"
      using True s1 s2 h
      by (subst committed_loop.simps)
         (simp add: n_def [symmetric] frame_size_def add.assoc [symmetric] pend'_def Let_def)
    have scan: "scan_frames crc hdr n bs =
        (if frame_bad crc hdr fh data then []
         else \<lparr>fr_header = fh, fr_data = data\<rparr> # scan_frames crc hdr n (drop (pos + frame_size n) file))"
      using bl h by (subst scan_frames.simps) (simp add: data_def bs_def Let_def add.commute)
    show ?thesis
    proof (cases "frame_bad crc hdr fh data")
      case False
      then show ?thesis
        using less.hyps [of "pos + frame_size n"] True p loop scan
        by (simp add: n_def [symmetric] bs_def [symmetric] pend'_def Let_def)
    qed (use loop scan in \<open>simp add: n_def [symmetric] bs_def [symmetric]\<close>)
  qed
qed

end
