(* ===== verification/Wal_Recovery.thy ===== *)
theory Wal_Recovery
  imports Wal_Scan
begin

text \<open>
  Opening, appending, rolling back: what the log in memory and its file say about each
  other (\<open>wal_inv\<close>), and what a crash at any byte leaves behind.
\<close>

section \<open>The index\<close>

definition frame_page :: "in_memory_frame \<Rightarrow> page_id" where "frame_page f = wf_page_id (fr_header f)"

definition latest :: "in_memory_frame list \<Rightarrow> page_id \<rightharpoonup> bytes" where
  "latest fs = map_of (rev (map (\<lambda>f. (frame_page f, fr_data f)) fs))"

lemma latest_simps [simp]:
  "latest [] = (\<lambda>_. None)" "latest (fs @ [f]) = (latest fs)(frame_page f \<mapsto> fr_data f)"
  by (simp_all add: latest_def)

lemma latest_append: "latest (fs @ gs) = latest fs ++ latest gs"
  by (simp add: latest_def)

lemma latest_Cons:
  "latest (f # fs) p = (case latest fs p of Some d \<Rightarrow> Some d
     | None \<Rightarrow> if frame_page f = p then Some (fr_data f) else None)"
  using latest_append [of "[f]" fs] by (simp add: latest_def map_add_def split: option.splits)

lemma index_of_Nil [simp]: "index_of [] = (\<lambda>_. None)"
  by (simp add: index_of_def)

lemma index_of_snoc [simp]: "index_of (fs @ [f]) = (index_of fs)(frame_page f \<mapsto> length fs)"
proof -
  have "fold (\<lambda>i m. m(wf_page_id (fr_header ((fs @ [f]) ! i)) \<mapsto> i)) [0..<length fs] (\<lambda>_. None) =
      fold (\<lambda>i m. m(wf_page_id (fr_header (fs ! i)) \<mapsto> i)) [0..<length fs] (\<lambda>_. None)"
    by (intro fold_cong) (auto simp: nth_append)
  then show ?thesis by (simp add: index_of_def frame_page_def)
qed

lemma index_of_latest:
  "(case index_of fs p of None \<Rightarrow> None
    | Some i \<Rightarrow> if i < length fs then Some (fr_data (fs ! i)) else None) = latest fs p"
proof (induction fs rule: rev_induct)
  case (snoc f fs)
  have b: "index_of fs p = Some i \<Longrightarrow> i < length fs" for i
    by (induction fs rule: rev_induct) (auto split: if_splits simp: less_SucI)
  show ?case using snoc by (auto simp: nth_append split: option.splits dest: b)
qed simp

lemma dom_index_of: "dom (index_of fs) = frame_page ` set fs"
  by (induction fs rule: rev_induct) (simp_all del: fun_upd_apply)

lemma dom_latest: "dom (latest fs) = frame_page ` set fs"
  by (induction fs rule: rev_induct) (simp_all del: fun_upd_apply)

lemma foldl_add_frame_index:
  "w_index w = index_of (w_frames w) \<Longrightarrow> w_index (foldl add_frame w fs) = index_of (w_frames w @ fs)"
proof (induction fs arbitrary: w)
  case (Cons f fs)
  then show ?case using Cons.IH [of "add_frame w f"] by (simp add: add_frame_def frame_page_def)
qed simp

section \<open>The committed prefix\<close>

lemma committed_count_le: "committed_count fs \<le> length fs"
  unfolding committed_count_def by (metis length_dropWhile_le length_rev)

lemma committed_count_simps [simp]:
  "committed_count [] = 0"
  "committed_count (fs @ [f]) =
     (if wf_db_size (fr_header f) = 0 then committed_count fs else Suc (length fs))"
  by (simp_all add: committed_count_def)

lemma committed_count_append_uncommitted:
  "list_all (\<lambda>f. wf_db_size (fr_header f) = 0) us \<Longrightarrow> committed_count (fs @ us) = committed_count fs"
  by (induction us rule: rev_induct) (auto simp flip: append_assoc)

lemma committed_count_Cons:
  "committed_count (f # fs) =
     (if committed_count fs = 0 then (if wf_db_size (fr_header f) = 0 then 0 else 1)
      else Suc (committed_count fs))"
proof (induction fs rule: rev_induct)
  case Nil
  show ?case using committed_count_simps(2) [of "[]" f] by simp
next
  case (snoc g gs)
  then show ?case using committed_count_simps(2) [of "f # gs" g] by simp
qed

lemma committed_image_latest:
  "committed_image p pend com fs =
     (if committed_count fs = 0 then com
      else case latest (take (committed_count fs) fs) p of Some d \<Rightarrow> Some d | None \<Rightarrow> pend)"
proof (induction fs arbitrary: pend com)
  case (Cons f fs)
  show ?case
    by (simp add: Let_def Cons committed_count_Cons latest_Cons word_gt_0 split: option.splits)
       (auto simp: frame_page_def)
qed simp

definition committed_frames :: "in_memory_frame list \<Rightarrow> in_memory_frame list" where
  "committed_frames fs = take (committed_count fs) fs"

lemma committed_frames_idem: "committed_count (committed_frames fs) = length (committed_frames fs)"
proof (induction fs rule: rev_induct)
  case (snoc f fs)
  then show ?case using committed_count_le [of fs] by (auto simp: committed_frames_def)
qed (simp add: committed_frames_def)

section \<open>The log and its file\<close>

definition wal_image :: "wal \<Rightarrow> bytes" where
  "wal_image w = wal_header_to_bytes (w_header w) @ enc_frames (w_frames w)"

text \<open>
  The log in memory is consistent: a header that reopens, frames that pass the scan, an
  index of the latest frame per page.
\<close>

definition wal_mem_ok :: "crc_fun \<Rightarrow> wal \<Rightarrow> bool" where
  "wal_mem_ok crc w \<longleftrightarrow> valid_wal_header crc (w_header w) \<and>
     w_page_size w = unat (wh_page_size (w_header w)) \<and> w_index w = index_of (w_frames w) \<and>
     list_all (good_frame crc (w_header w) (w_page_size w)) (w_frames w)"

text \<open>And, unless an I/O error is pending, its file with the buffered tail is its image.\<close>

definition wal_inv :: "crc_fun \<Rightarrow> wal \<Rightarrow> bool" where
  "wal_inv crc w \<longleftrightarrow> wal_mem_ok crc w \<and>
     (case w_writer w of None \<Rightarrow> True
      | Some bw \<Rightarrow> bw_at_end bw \<and>
          (if w_io_failed w then (\<exists>rest. bw_bytes bw = wal_image w @ rest)
           else bw_bytes bw = wal_image w))"

lemma length_wal_image:
  assumes "wal_mem_ok crc w"
  shows "length (wal_image w) = WAL_HEADER_SIZE + length (w_frames w) * frame_size (w_page_size w)"
proof -
  have "wh_magic (w_header w) = WAL_MAGIC" using assms by (simp add: wal_mem_ok_def valid_wal_header_def)
  moreover have "length (enc_frames (w_frames w)) = length (w_frames w) * frame_size (w_page_size w)"
    using assms length_enc_frames unfolding wal_mem_ok_def by blast
  ultimately show ?thesis by (simp add: wal_image_def length_wal_header_to_bytes)
qed

lemma wal_read_page_latest:
  "w_index w = index_of (w_frames w) \<Longrightarrow> wal_read_page w p = latest (w_frames w) p"
  by (simp add: wal_read_page_def index_of_latest)

lemma frame_header_to_from:
  assumes "frame_header_from_bytes bs = Inr h" "length bs = WAL_FRAME_HEADER_SIZE"
  shows "frame_header_to_bytes h = bs"
proof -
  have l: "length bs = 24" using assms(2) by (simp add: WAL_FRAME_HEADER_SIZE_def)
  have h: "h = \<lparr>wf_page_id = u32_at bs 0, wf_db_size = u32_at bs 4, wf_commit_seq = u32_at bs 8,
                wf_salt_1 = u32_at bs 12, wf_salt_2 = u32_at bs 16, wf_crc32 = u32_at bs 20\<rparr>"
    using assms by (auto simp: frame_header_from_bytes_def split: if_splits)
  have "bs = take 4 bs @ take 4 (drop 4 bs) @ take 4 (drop 8 bs) @ take 4 (drop 12 bs) @
      take 4 (drop 16 bs) @ take 4 (drop 20 bs)"
    using l take_add [of 4 20 bs] take_add [of 4 16 "drop 4 bs"] take_add [of 4 12 "drop 8 bs"]
      take_add [of 4 8 "drop 12 bs"] take_add [of 4 4 "drop 16 bs"] by simp
  then show ?thesis
    using l by (simp add: h frame_header_to_bytes_def wf_prefix_def u32_at_def to_from_le)
qed

lemma scan_frames_bytes:
  "\<exists>rest. bs = enc_frames (scan_frames crc hdr n bs) @ rest"
proof (induction crc hdr n bs rule: scan_frames.induct)
  case (1 crc hdr n bs)
  define raw where "raw = take WAL_FRAME_HEADER_SIZE bs"
  define data where "data = take n (drop WAL_FRAME_HEADER_SIZE bs)"
  show ?case
  proof (cases "length bs < frame_size n")
    case False
    then obtain fh where fh: "frame_header_from_bytes raw = Inr fh"
      by (auto simp: frame_header_from_bytes_def raw_def frame_size_def)
    show ?thesis
    proof (cases "frame_bad crc hdr fh data")
      case False
      then obtain rest where rest:
        "drop (frame_size n) bs = enc_frames (scan_frames crc hdr n (drop (frame_size n) bs)) @ rest"
        using 1 fh \<open>\<not> length bs < frame_size n\<close> by (auto simp: raw_def data_def)
      have "frame_header_to_bytes fh = raw"
        using frame_header_to_from [OF fh] \<open>\<not> length bs < frame_size n\<close> by (simp add: raw_def frame_size_def)
      then have "bs = enc_frame \<lparr>fr_header = fh, fr_data = data\<rparr> @ drop (frame_size n) bs"
        using append_take_drop_id [of WAL_FRAME_HEADER_SIZE bs]
          append_take_drop_id [of n "drop WAL_FRAME_HEADER_SIZE bs"]
        by (simp add: enc_frame_def raw_def data_def frame_size_def add.commute)
      moreover have "scan_frames crc hdr n bs =
          \<lparr>fr_header = fh, fr_data = data\<rparr> # scan_frames crc hdr n (drop (frame_size n) bs)"
        using fh False \<open>\<not> length bs < frame_size n\<close>
        by (subst scan_frames.simps) (simp add: raw_def data_def Let_def)
      ultimately show ?thesis using rest by (metis append_assoc enc_frames_simps(2))
    next
      case True
      then have "scan_frames crc hdr n bs = []"
        using fh by (subst scan_frames.simps) (simp add: raw_def data_def Let_def)
      then show ?thesis by simp
    qed
  qed (simp add: scan_frames_short)
qed

section \<open>Rolling back\<close>

lemma rollback_no_writer:
  "w_writer w = None \<Longrightarrow>
   wal_rollback_to n w = (Inr (), w\<lparr>w_io_failed := False,
     w_frames := take (min n (length (w_frames w))) (w_frames w),
     w_index := index_of (take (min n (length (w_frames w))) (w_frames w))\<rparr>)"
  by (simp add: wal_rollback_to_def or_fail_io_def with_writer_def bind_s_def Let_def)

lemma enc_frames_take:
  assumes "list_all (good_frame crc hdr n) fs" "k \<le> length fs"
  shows "take (k * frame_size n) (enc_frames fs) = enc_frames (take k fs)"
proof -
  have "length (enc_frames (take k fs)) = k * frame_size n"
    using length_enc_frames [of crc hdr n "take k fs"] assms by (simp add: list_all_length)
  then show ?thesis
    by (metis append_eq_conv_conj append_take_drop_id enc_frames_simps(3))
qed

lemma take_wal_image:
  assumes "wal_mem_ok crc w" "k \<le> length (w_frames w)"
  shows "take (WAL_HEADER_SIZE + k * (WAL_FRAME_HEADER_SIZE + w_page_size w)) (wal_image w) =
    wal_header_to_bytes (w_header w) @ enc_frames (take k (w_frames w))"
proof -
  have "length (wal_header_to_bytes (w_header w)) = WAL_HEADER_SIZE"
    using assms by (simp add: wal_mem_ok_def valid_wal_header_def length_wal_header_to_bytes)
  moreover have "take (k * frame_size (w_page_size w)) (enc_frames (w_frames w)) =
      enc_frames (take k (w_frames w))"
    using assms enc_frames_take unfolding wal_mem_ok_def by blast
  ultimately show ?thesis by (simp add: wal_image_def frame_size_def)
qed

definition rolled_writer :: "nat \<Rightarrow> wal \<Rightarrow> buf_writer \<Rightarrow> buf_writer \<Rightarrow> bool" where
  "rolled_writer n w bw bw' \<longleftrightarrow>
     (let n = min n (length (w_frames w));
          offset = WAL_HEADER_SIZE + n * (WAL_FRAME_HEADER_SIZE + w_page_size w) in
      (bw' = bw \<and> \<not> w_io_failed w \<and> bw_buf bw = [] \<and> length (df_data (bw_file bw)) = offset) \<or>
      bw' = on_file file_seek_end (on_file (file_set_len offset) (bw_flush bw)))"

lemma rollback_writer:
  assumes "wal_rollback_to n w = (Inr (), w')" "w_writer w = Some bw"
  shows "\<exists>io' bw'. rolled_writer n w bw bw' \<and>
    w' = w\<lparr>w_io := io', w_writer := Some bw', w_io_failed := False,
           w_frames := take (min n (length (w_frames w))) (w_frames w),
           w_index := index_of (take (min n (length (w_frames w))) (w_frames w))\<rparr>"
proof -
  define k where "k = min n (length (w_frames w))"
  define off where "off = WAL_HEADER_SIZE + k * (WAL_FRAME_HEADER_SIZE + w_page_size w)"
  define m where "m = (\<lambda>(io, bw).
          if \<not> w_io_failed w \<and> bw_buf bw = [] \<and> length (df_data (bw_file bw)) = off \<and>
             k = length (w_frames w)
          then (Inr (), io, bw)
          else bind_s (bw_before WalFlush) (\<lambda>_.
               bind_s (bw_do bw_flush) (\<lambda>_.
               bind_s (bw_before WalTruncate) (\<lambda>_.
               bind_s (bw_do (on_file (file_set_len off))) (\<lambda>_.
               bind_s (bw_before WalSync) (\<lambda>_.
               bw_do (on_file file_seek_end)))))) (io, bw))"
  have eq: "wal_rollback_to n w = (case m (w_io w, bw) of
      (Inl e, io', bw') \<Rightarrow> (Inl e, w\<lparr>w_io := io', w_writer := Some bw', w_io_failed := True\<rparr>)
    | (Inr x, io', bw') \<Rightarrow> (Inr (), w\<lparr>w_io := io', w_writer := Some bw', w_io_failed := False,
           w_frames := take k (w_frames w), w_index := index_of (take k (w_frames w))\<rparr>))"
    by (simp add: wal_rollback_to_def or_fail_io_def with_writer_def bind_s_def assms(2) m_def
        k_def off_def Let_def split: prod.splits sum.splits)
  obtain io' bw' where mm: "m (w_io w, bw) = (Inr (), io', bw')"
    "w' = w\<lparr>w_io := io', w_writer := Some bw', w_io_failed := False,
           w_frames := take k (w_frames w), w_index := index_of (take k (w_frames w))\<rparr>"
    using assms(1) unfolding eq by (auto split: prod.splits sum.splits)
  have "rolled_writer n w bw bw'"
    using mm(1) unfolding m_def rolled_writer_def k_def [symmetric] off_def [symmetric] Let_def
    by (auto simp: bind_s_Inr_iff bw_before_def bw_do_def split: prod.splits if_splits)
  with mm(2) show ?thesis unfolding k_def by blast
qed

lemma rolled_writer_image:
  assumes r: "rolled_writer n w bw bw'" and e: "bw_at_end bw" and b: "bw_bytes bw = wal_image w @ rest"
    and m: "wal_mem_ok crc w" and clean: "\<not> w_io_failed w \<Longrightarrow> rest = []"
  shows "bw_at_end bw' \<and> bw_buf bw' = [] \<and>
    bw_bytes bw' = wal_header_to_bytes (w_header w) @ enc_frames (take n (w_frames w))"
proof -
  define k where "k = min n (length (w_frames w))"
  define off where "off = WAL_HEADER_SIZE + k * (WAL_FRAME_HEADER_SIZE + w_page_size w)"
  have k: "k \<le> length (w_frames w)" "take k (w_frames w) = take n (w_frames w)"
    by (auto simp: k_def min_def)
  have tk: "take off (wal_image w) = wal_header_to_bytes (w_header w) @ enc_frames (take n (w_frames w))"
    using take_wal_image [OF m k(1)] k(2) by (simp add: off_def)
  have lw: "off \<le> length (wal_image w)"
    using length_wal_image [OF m] k(1) by (simp add: off_def frame_size_def)
  from r consider (same) "bw' = bw" "\<not> w_io_failed w" "bw_buf bw = []" "length (df_data (bw_file bw)) = off"
    | (cut) "bw' = on_file file_seek_end (on_file (file_set_len off) (bw_flush bw))"
    by (auto simp: rolled_writer_def k_def [symmetric] off_def Let_def)
  then show ?thesis
  proof cases
    case same
    then have "df_data (bw_file bw) = wal_image w" using b clean by (simp add: bw_bytes_def)
    moreover from this have "take off (wal_image w) = wal_image w" using same(4) by simp
    ultimately show ?thesis using same e tk by (simp add: bw_bytes_def)
  next
    case cut
    have d: "df_data (bw_file (bw_flush bw)) = wal_image w @ rest" and nb: "bw_buf (bw_flush bw) = []"
      using bw_flush_data [OF e] bw_flush_at_end [OF e] b by auto
    then have "take off (df_data (bw_file (bw_flush bw))) @
        replicate (off - length (df_data (bw_file (bw_flush bw)))) 0 = take off (wal_image w)"
      using lw by simp
    then show ?thesis
      using nb tk by (simp add: cut on_file_def file_seek_end_def file_set_len_def bw_at_end_def bw_bytes_def)
  qed
qed

text \<open>A successful rollback leaves a sound log whose file is exactly the kept frames, on
  every state of the invariant, failed or not.\<close>

lemma rollback_fields:
  assumes "wal_rollback_to n w = (Inr (), w')"
  shows "w_frames w' = take n (w_frames w)" "\<not> w_io_failed w'" "w_header w' = w_header w"
    "w_commit_seq w' = w_commit_seq w" "w_page_size w' = w_page_size w"
    "w_index w' = index_of (take n (w_frames w))"
proof -
  have t: "take (min n (length (w_frames w))) (w_frames w) = take n (w_frames w)" by (simp add: min_def)
  have "w_frames w' = take n (w_frames w) \<and> \<not> w_io_failed w' \<and> w_header w' = w_header w \<and>
    w_commit_seq w' = w_commit_seq w \<and> w_page_size w' = w_page_size w \<and>
    w_index w' = index_of (take n (w_frames w))"
  proof (cases "w_writer w")
    case None
    then show ?thesis using assms rollback_no_writer [OF None, of n] t by auto
  next
    case (Some bw)
    then show ?thesis using rollback_writer [OF assms Some] t by auto
  qed
  then show "w_frames w' = take n (w_frames w)" "\<not> w_io_failed w'" "w_header w' = w_header w"
    "w_commit_seq w' = w_commit_seq w" "w_page_size w' = w_page_size w"
    "w_index w' = index_of (take n (w_frames w))" by simp_all
qed

lemma rollback_inv:
  assumes inv: "wal_inv crc w" and ok: "wal_rollback_to n w = (Inr (), w')"
  shows "wal_inv crc w'"
proof -
  note f = rollback_fields [OF ok]
  have m: "wal_mem_ok crc w" using inv by (simp add: wal_inv_def)
  then have m': "wal_mem_ok crc w'"
    using f by (auto simp: wal_mem_ok_def list_all_length)
  show ?thesis
  proof (cases "w_writer w")
    case None
    then have "w_writer w' = None" using ok rollback_no_writer [OF None, of n] by auto
    then show ?thesis using m' by (simp add: wal_inv_def)
  next
    case (Some bw)
    then obtain bw' where r: "rolled_writer n w bw bw'" "w_writer w' = Some bw'"
      using rollback_writer [OF ok Some] by auto
    obtain rest where "bw_at_end bw" "bw_bytes bw = wal_image w @ rest" "\<not> w_io_failed w \<Longrightarrow> rest = []"
      using inv Some by (auto simp: wal_inv_def split: if_splits)
    from rolled_writer_image [OF r(1) this(1,2) m this(3)] show ?thesis
      using m' f r(2) by (simp add: wal_inv_def wal_image_def)
  qed
qed

lemma rollback_no_fault:
  assumes "w_io w = None"
  shows "fst (wal_rollback_to n w) = Inr ()" "w_io (snd (wal_rollback_to n w)) = None"
  using assms
  by (auto simp: wal_rollback_to_def or_fail_io_def with_writer_def bind_s_def bw_before_def
      bw_do_def Let_def split: option.splits)

section \<open>Appending\<close>

text \<open>A writer step that can only append; if it succeeds it has appended \<open>bs\<close>.\<close>

definition appends :: "(storage_io \<times> buf_writer, unit) sm \<Rightarrow> bytes \<Rightarrow> bool" where
  "appends m bs \<longleftrightarrow> (\<forall>io bw r io' bw'. bw_at_end bw \<longrightarrow> m (io, bw) = (r, io', bw') \<longrightarrow>
     bw_at_end bw' \<and> (\<exists>x. bw_bytes bw' = bw_bytes bw @ x \<and> (r = Inr () \<longrightarrow> x = bs)))"

lemma appendsD:
  "appends m bs \<Longrightarrow> bw_at_end bw \<Longrightarrow> m (io, bw) = (r, io', bw') \<Longrightarrow>
   bw_at_end bw' \<and> (\<exists>x. bw_bytes bw' = bw_bytes bw @ x \<and> (r = Inr () \<longrightarrow> x = bs))"
  unfolding appends_def by blast

lemma appends_bind:
  assumes m: "appends m xs" and k: "appends k ys"
  shows "appends (bind_s m (\<lambda>_. k)) (xs @ ys)"
  unfolding appends_def
proof (intro allI impI)
  fix io bw r io' bw'
  assume e: "bw_at_end bw" and run: "bind_s m (\<lambda>_. k) (io, bw) = (r, io', bw')"
  obtain r1 io1 bw1 where m1: "m (io, bw) = (r1, io1, bw1)" by (metis prod.exhaust)
  from appendsD [OF m e m1] obtain x where x: "bw_at_end bw1" "bw_bytes bw1 = bw_bytes bw @ x"
    "r1 = Inr () \<longrightarrow> x = xs" by blast
  show "bw_at_end bw' \<and> (\<exists>x. bw_bytes bw' = bw_bytes bw @ x \<and> (r = Inr () \<longrightarrow> x = xs @ ys))"
  proof (cases r1)
    case (Inl err)
    then show ?thesis using run m1 x by (auto simp: bind_s_def)
  next
    case (Inr u)
    then have "k (io1, bw1) = (r, io', bw')" using run m1 by (simp add: bind_s_def)
    from appendsD [OF k x(1) this] show ?thesis using x Inr by auto
  qed
qed

lemma appends_ret: "appends (ret_s ()) []"
  by (simp add: appends_def)

lemma appends_before: "appends (bw_before p) []"
  by (auto simp: appends_def bw_before_def split: prod.splits)

lemma appends_flush: "appends (bw_do bw_flush) []"
  by (auto simp: appends_def bw_do_def bw_flush_at_end)

lemma appends_write: "appends (bw_io_write p bs) bs"
  unfolding appends_def
proof (intro allI impI)
  fix io bw r io' bw'
  assume e: "bw_at_end bw" and run: "bw_io_write p bs (io, bw) = (r, io', bw')"
  have w: "bw_at_end (bw_write_all xs bw) \<and> bw_bytes (bw_write_all xs bw) = bw_bytes bw @ xs" for xs
    by (rule bw_write_at_end [OF e])
  then have f: "bw_at_end (bw_flush (bw_write_all xs bw)) \<and>
      bw_bytes (bw_flush (bw_write_all xs bw)) = bw_bytes bw @ xs" for xs
    using bw_flush_at_end by simp
  show "bw_at_end bw' \<and> (\<exists>x. bw_bytes bw' = bw_bytes bw @ x \<and> (r = Inr () \<longrightarrow> x = bs))"
    using run e w f by (auto simp: io_write_def split: prod.splits option.splits io_failure.splits)
qed

lemmas appends_intros = appends_bind appends_ret appends_before appends_flush appends_write

lemma good_new_frame:
  assumes "pid \<noteq> 0"
  shows "good_frame crc (w_header w) (length data)
           \<lparr>fr_header = make_frame_header crc w pid data db seq, fr_data = data\<rparr>"
  using assms
  by (simp add: good_frame_def frame_bad_def make_frame_header_def wf_calculate_crc_def wf_prefix_def Let_def)

lemma write_frame_cases:
  assumes "wal_write_frame crc pid data is_commit db w = (r, w')"
  obtains (refused) e where "r = Inl e" "w' = w"
  | (appended) seq fh io' writer' where "r = Inr ()" "\<not> w_io_failed w" "length data = w_page_size w"
      "next_commit_seq is_commit w = Inr seq"
      "fh = make_frame_header crc w pid data (if is_commit then db else 0) seq"
      "w' = w\<lparr>w_io := io', w_writer := writer', w_commit_seq := seq,
              w_index := (w_index w)(pid \<mapsto> length (w_frames w)),
              w_frames := w_frames w @ [\<lparr>fr_header = fh, fr_data = data\<rparr>]\<rparr>"
      "(writer' = None \<and> w_writer w = None) \<or>
       (\<exists>bw bw'. w_writer w = Some bw \<and> writer' = Some bw' \<and>
          (bw_at_end bw \<longrightarrow> bw_at_end bw' \<and>
             bw_bytes bw' = bw_bytes bw @ frame_header_to_bytes fh @ data))"
  | (failed) e io' bw bw' where "r = Inl e" "\<not> w_io_failed w" "w_writer w = Some bw"
      "w' = w\<lparr>w_io := io', w_writer := Some bw', w_io_failed := True\<rparr>"
      "bw_at_end bw \<longrightarrow> bw_at_end bw' \<and> (\<exists>x. bw_bytes bw' = bw_bytes bw @ x)"
proof -
  consider (early) "w_io_failed w \<or> length data \<noteq> w_page_size w \<or> (\<exists>e. next_commit_seq is_commit w = Inl e)"
    | (go) seq where "\<not> w_io_failed w" "length data = w_page_size w" "next_commit_seq is_commit w = Inr seq"
    by (cases "next_commit_seq is_commit w") auto
  then show thesis
  proof cases
    case early
    then show thesis using assms refused by (auto simp: wal_write_frame_def split: if_splits sum.splits)
  next
    case (go seq)
    define fh where "fh = make_frame_header crc w pid data (if is_commit then db else 0) seq"
    define m where "m = bind_s (bw_io_write WalWrite (frame_header_to_bytes fh)) (\<lambda>_.
              bind_s (bw_io_write WalWrite data) (\<lambda>_.
              if is_commit
              then bind_s (bw_before WalFlush) (\<lambda>_.
                   bind_s (bw_do bw_flush) (\<lambda>_. bw_before WalSync))
              else ret_s ()))"
    have "appends (bind_s (bw_before WalFlush) (\<lambda>_. bind_s (bw_do bw_flush) (\<lambda>_. bw_before WalSync))) ([] @ [] @ [])"
      by (intro appends_intros)
    then have "appends (if is_commit then bind_s (bw_before WalFlush) (\<lambda>_.
        bind_s (bw_do bw_flush) (\<lambda>_. bw_before WalSync)) else ret_s ()) []"
      using appends_ret by simp
    from appends_bind [OF appends_write appends_bind [OF appends_write this]]
    have app: "appends m (frame_header_to_bytes fh @ data)" unfolding m_def by simp
    have run: "wal_write_frame crc pid data is_commit db w =
        bind_s (or_fail_io (with_writer m)) (\<lambda>_ w1. (Inr (), w1\<lparr>w_commit_seq := seq,
                       w_index := (w_index w1)(pid \<mapsto> length (w_frames w1)),
                       w_frames := w_frames w1 @ [\<lparr>fr_header = fh, fr_data = data\<rparr>]\<rparr>)) w"
      using go by (simp add: wal_write_frame_def fh_def m_def Let_def)
    show thesis
    proof (cases "w_writer w")
      case None
      have eq: "wal_write_frame crc pid data is_commit db w = (Inr (), w\<lparr>w_commit_seq := seq,
              w_index := (w_index w)(pid \<mapsto> length (w_frames w)),
              w_frames := w_frames w @ [\<lparr>fr_header = fh, fr_data = data\<rparr>]\<rparr>)"
        unfolding run using None by (simp add: or_fail_io_def with_writer_def bind_s_def)
      have w0: "w\<lparr>w_io := w_io w, w_writer := None\<rparr> = w" using None by (cases w) simp
      have "r = Inr ()" "w' = (w\<lparr>w_io := w_io w, w_writer := None\<rparr>)\<lparr>w_commit_seq := seq,
              w_index := (w_index w)(pid \<mapsto> length (w_frames w)),
              w_frames := w_frames w @ [\<lparr>fr_header = fh, fr_data = data\<rparr>]\<rparr>"
        unfolding w0 using eq assms by simp_all
      then show thesis using appended go fh_def None by blast
    next
      case (Some bw)
      obtain r1 io1 bw1 where m1: "m (w_io w, bw) = (r1, io1, bw1)" by (metis prod.exhaust)
      have a: "bw_at_end bw \<longrightarrow> bw_at_end bw1 \<and>
          (\<exists>x. bw_bytes bw1 = bw_bytes bw @ x \<and> (r1 = Inr () \<longrightarrow> x = frame_header_to_bytes fh @ data))"
        using appendsD [OF app _ m1] by blast
      show thesis
      proof (cases r1)
        case (Inl e)
        then have "r = Inl e" "w' = w\<lparr>w_io := io1, w_writer := Some bw1, w_io_failed := True\<rparr>"
          using assms Some m1 unfolding run by (auto simp: or_fail_io_def with_writer_def bind_s_def)
        then show thesis using failed go(1) Some a by blast
      next
        case (Inr u)
        have eq: "wal_write_frame crc pid data is_commit db w =
            (Inr (), w\<lparr>w_io := io1, w_writer := Some bw1, w_commit_seq := seq,
              w_index := (w_index w)(pid \<mapsto> length (w_frames w)),
              w_frames := w_frames w @ [\<lparr>fr_header = fh, fr_data = data\<rparr>]\<rparr>)"
          unfolding run using Some m1 Inr by (simp add: or_fail_io_def with_writer_def bind_s_def)
        from trans [OF assms [symmetric] eq]
        have rw: "r = Inr ()" "w' = w\<lparr>w_io := io1, w_writer := Some bw1, w_commit_seq := seq,
              w_index := (w_index w)(pid \<mapsto> length (w_frames w)),
              w_frames := w_frames w @ [\<lparr>fr_header = fh, fr_data = data\<rparr>]\<rparr>"
          unfolding prod.inject by blast+
        have "(Some bw1 = None \<and> w_writer w = None) \<or>
           (\<exists>bw bw'. w_writer w = Some bw \<and> Some bw1 = Some bw' \<and>
              (bw_at_end bw \<longrightarrow> bw_at_end bw' \<and>
                 bw_bytes bw' = bw_bytes bw @ frame_header_to_bytes fh @ data))"
          using Some a Inr by auto
        from appended [OF rw(1) go fh_def rw(2) this] show thesis .
      qed
    qed
  qed
qed

text \<open>Appending keeps the invariant, whether it succeeds or fails part-way.\<close>

lemma add_frame_mem_ok:
  assumes "wal_mem_ok crc w" "pid \<noteq> 0" "length data = w_page_size w"
    and fh: "fh = make_frame_header crc w pid data db seq"
    and w': "w' = w\<lparr>w_io := io', w_writer := writer', w_commit_seq := seq,
              w_index := (w_index w)(pid \<mapsto> length (w_frames w)),
              w_frames := w_frames w @ [\<lparr>fr_header = fh, fr_data = data\<rparr>]\<rparr>"
  shows "wal_mem_ok crc w'"
  using assms(1,3) good_new_frame [OF assms(2), of crc w data db seq]
  by (auto simp: wal_mem_ok_def w' fh frame_page_def make_frame_header_def Let_def)

lemma write_frame_inv:
  assumes inv: "wal_inv crc w" and pid: "pid \<noteq> 0"
    and run: "wal_write_frame crc pid data is_commit db w = (r, w')"
  shows "wal_inv crc w'"
  using run
proof (cases rule: write_frame_cases)
  case (appended seq fh io' writer')
  have m: "wal_mem_ok crc w" using inv by (simp add: wal_inv_def)
  have m': "wal_mem_ok crc w'" by (rule add_frame_mem_ok [OF m pid appended(3,5,6)])
  show ?thesis
  proof (cases "w_writer w")
    case (Some bw)
    then obtain bw' where bw': "writer' = Some bw'"
      "bw_at_end bw \<longrightarrow> bw_at_end bw' \<and> bw_bytes bw' = bw_bytes bw @ frame_header_to_bytes fh @ data"
      using appended(7) by auto
    have "bw_at_end bw" "bw_bytes bw = wal_image w"
      using inv Some appended(2) by (simp_all add: wal_inv_def)
    then show ?thesis
      using m' bw' appended(2) by (simp add: wal_inv_def appended(6) wal_image_def enc_frame_def)
  qed (use m' appended in \<open>auto simp: wal_inv_def\<close>)
next
  case (failed e io' bw bw')
  then show ?thesis using inv by (auto simp: wal_inv_def wal_mem_ok_def wal_image_def)
qed (use inv in simp)

lemma sync_inv:
  assumes inv: "wal_inv crc w" and run: "wal_sync w = (r, w')"
  shows "wal_inv crc w'"
proof (cases "w_writer w")
  case None
  then have "w' = w" using run by (simp add: wal_sync_def or_fail_io_def with_writer_def)
  then show ?thesis using inv by simp
next
  case (Some bw)
  define m where "m = bind_s (bw_before WalFlush) (\<lambda>_. bind_s (bw_do bw_flush) (\<lambda>_. bw_before WalSync))"
  obtain r1 io1 bw1 where m1: "m (w_io w, bw) = (r1, io1, bw1)" by (metis prod.exhaust)
  have app: "appends m ([] @ [] @ [])" unfolding m_def by (intro appends_intros)
  have e: "bw_at_end bw" using inv Some by (simp add: wal_inv_def)
  obtain x where x: "bw_at_end bw1" "bw_bytes bw1 = bw_bytes bw @ x" "r1 = Inr () \<longrightarrow> x = []"
    using appendsD [OF app e m1] by auto
  have "w' = w\<lparr>w_io := io1, w_writer := Some bw1, w_io_failed := (w_io_failed w \<or> r1 \<noteq> Inr ())\<rparr>"
    using run Some m1
    by (cases r1; cases w)
       (auto simp: wal_sync_def or_fail_io_def with_writer_def m_def [symmetric])
  then show ?thesis
    using inv Some x
    by (cases r1) (auto simp: wal_inv_def wal_mem_ok_def wal_image_def split: if_splits)
qed

section \<open>Opening a file\<close>

definition opened :: "wal_header \<Rightarrow> in_memory_frame list \<Rightarrow> wal" where
  "opened hdr fs =
     (let cs = committed_frames fs; d = wal_header_to_bytes hdr @ enc_frames cs in
      (foldl add_frame (wal_empty hdr (unat (wh_page_size hdr))) fs)
        \<lparr>w_writer := Some \<lparr>bw_file = \<lparr>df_data = d, df_pos = length d\<rparr>, bw_buf = []\<rparr>,
         w_frames := cs, w_index := index_of cs\<rparr>)"

lemma rebuild_index_scan:
  assumes "valid_wal_header crc hdr"
    and fs: "fs = scan_frames crc hdr (unat (wh_page_size hdr)) body"
  shows "rebuild_index_from_file crc (wal_header_to_bytes hdr @ body) (wal_empty hdr (unat (wh_page_size hdr))) =
    Inr (foldl add_frame (wal_empty hdr (unat (wh_page_size hdr))) fs,
         wal_header_to_bytes hdr @ enc_frames fs)"
proof -
  define n where "n = unat (wh_page_size hdr)"
  have l: "length (wal_header_to_bytes hdr) = WAL_HEADER_SIZE"
    using assms by (simp add: valid_wal_header_def length_wal_header_to_bytes)
  obtain rest where rest: "body = enc_frames fs @ rest"
    using scan_frames_bytes [of body crc hdr n] fs n_def by auto
  have lf: "length (enc_frames fs) = length fs * frame_size n"
    using length_enc_frames [OF scan_frames_all_good, of crc hdr n body] fs n_def by simp
  have "rebuild_loop crc (wal_header_to_bytes hdr @ body) WAL_HEADER_SIZE 0 (wal_empty hdr n) =
      Inr (foldl add_frame (wal_empty hdr n) fs, WAL_HEADER_SIZE + length fs * frame_size n)"
    using rebuild_loop_scan [of 0 "wal_empty hdr n" WAL_HEADER_SIZE "wal_header_to_bytes hdr @ body" crc] l fs
    by (simp add: wal_empty_def n_def Let_def)
  then show ?thesis using l lf rest
    by (simp add: rebuild_index_from_file_def n_def)
qed

lemma wal_open_body:
  assumes v: "valid_wal_header crc hdr" and ps: "wh_page_size hdr = ps"
  shows "wal_open crc (Some (wal_header_to_bytes hdr @ body)) ps =
    Inr (opened hdr (scan_frames crc hdr (unat ps) body))"
proof -
  define fs where "fs = scan_frames crc hdr (unat (wh_page_size hdr)) body"
  define n where "n = unat (wh_page_size hdr)"
  have l: "length (wal_header_to_bytes hdr) = WAL_HEADER_SIZE"
    using v by (simp add: valid_wal_header_def length_wal_header_to_bytes)
  define w where "w = foldl add_frame (wal_empty hdr n) fs"
  define w1 where "w1 = w\<lparr>w_writer := Some \<lparr>bw_file =
      file_seek_end \<lparr>df_data = wal_header_to_bytes hdr @ enc_frames fs, df_pos = 0\<rparr>, bw_buf = []\<rparr>\<rparr>"
  have idx: "w_index w = index_of fs"
    using foldl_add_frame_index [of "wal_empty hdr n" fs] by (simp add: w_def wal_empty_def)
  have good: "list_all (good_frame crc hdr n) fs" unfolding fs_def n_def by (rule scan_frames_all_good)
  have mem: "wal_mem_ok crc w1"
    using v good idx by (simp add: wal_mem_ok_def w1_def) (simp add: w_def wal_empty_def n_def)
  have fr: "w_frames w1 = fs" "w_header w1 = hdr" "w_io w1 = None" "\<not> w_io_failed w1"
    by (simp_all add: w1_def w_def wal_empty_def)
  define cs where "cs = committed_frames fs"
  define bw where "bw = \<lparr>bw_file = file_seek_end \<lparr>df_data = wal_header_to_bytes hdr @ enc_frames fs, df_pos = 0\<rparr>, bw_buf = []\<rparr>"
  have bw: "w_writer w1 = Some bw" "bw_at_end bw" "bw_bytes bw = wal_image w1 @ []"
    by (simp add: w1_def bw_def)
       (simp_all add: bw_def bw_at_end_def bw_bytes_def file_seek_end_def wal_image_def fr)
  have step: "discard_uncommitted_tail w1 = wal_rollback_to (committed_count fs) w1"
    by (simp add: discard_uncommitted_tail_def fr)
  obtain w2 where w2: "wal_rollback_to (committed_count fs) w1 = (Inr (), w2)" "w_io w2 = None"
    using rollback_no_fault [OF fr(3), of "committed_count fs"] by (metis prod.collapse)
  obtain bw2 io' where bw2: "rolled_writer (committed_count fs) w1 bw bw2"
    "w2 = w1\<lparr>w_io := io', w_writer := Some bw2, w_io_failed := False,
           w_frames := take (min (committed_count fs) (length (w_frames w1))) (w_frames w1),
           w_index := index_of (take (min (committed_count fs) (length (w_frames w1))) (w_frames w1))\<rparr>"
    using rollback_writer [OF w2(1) bw(1)] by blast
  have cs: "take (min (committed_count fs) (length fs)) fs = cs" "take (committed_count fs) fs = cs"
    using committed_count_le [of fs] by (simp_all add: cs_def committed_frames_def min_absorb1)
  have im: "bw_at_end bw2" "bw_buf bw2 = []" "bw_bytes bw2 = wal_header_to_bytes hdr @ enc_frames cs"
    using rolled_writer_image [OF bw2(1) bw(2,3) mem] fr cs(2) by auto
  have "bw2 = \<lparr>bw_file = \<lparr>df_data = wal_header_to_bytes hdr @ enc_frames cs,
      df_pos = length (wal_header_to_bytes hdr @ enc_frames cs)\<rparr>, bw_buf = []\<rparr>"
    using im by (cases bw2; cases "bw_file bw2") (auto simp: bw_at_end_def bw_bytes_def)
  then have "w2 = opened hdr fs"
    using bw2(2) w2(2) fr cs by (simp add: opened_def cs_def [symmetric] Let_def w1_def w_def n_def wal_empty_def)
  moreover have "wal_open crc (Some (wal_header_to_bytes hdr @ body)) ps =
      (case discard_uncommitted_tail w1 of (Inl e, _) \<Rightarrow> Inl e | (Inr _, w2) \<Rightarrow> Inr w2)"
    using l ps wal_header_roundtrip_rest [OF v, of "[]"] rebuild_index_scan [OF v refl, of body]
    by (simp add: wal_open_def w1_def w_def fs_def n_def)
  ultimately show ?thesis using step w2(1) by (simp add: fs_def ps)
qed

lemma opened_fields:
  "w_frames (opened hdr fs) = committed_frames fs" "w_header (opened hdr fs) = hdr"
  "w_index (opened hdr fs) = index_of (committed_frames fs)" "\<not> w_io_failed (opened hdr fs)"
  "w_page_size (opened hdr fs) = unat (wh_page_size hdr)" "w_io (opened hdr fs) = None"
  by (simp_all add: opened_def Let_def) (simp_all add: wal_empty_def)

lemma opened_inv:
  assumes "valid_wal_header crc hdr" "list_all (good_frame crc hdr (unat (wh_page_size hdr))) fs"
  shows "wal_inv crc (opened hdr fs)"
  unfolding wal_inv_def wal_mem_ok_def opened_fields
  using assms by (simp add: opened_def Let_def bw_at_end_def bw_bytes_def wal_image_def committed_frames_def
      list_all_length) (simp add: wal_empty_def)

end
