(* ===== verification/Wal_Props.thy ===== *)
theory Wal_Props
  imports Wal_Recovery
begin

text \<open>
  The promises of the write-ahead log: what opening recovers after a crash at any byte,
  durability of a commit that returned, read-your-writes, the effect of a failed append, and
  rollback. The checkpoint has a theory of its own.
\<close>

lemma commit_flushed:
  assumes run: "wal_write_frame crc pid data True db w = (Inr (), w')"
    and wr: "w_writer w' = Some bw'"
  shows "bw_buf bw' = []"
proof -
  obtain seq where seq: "next_commit_seq True w = Inr seq" "\<not> w_io_failed w" "length data = w_page_size w"
    using run by (auto simp: wal_write_frame_def split: if_splits sum.splits)
  define fh where "fh = make_frame_header crc w pid data db seq"
  define m where "m = bind_s (bw_io_write WalWrite (frame_header_to_bytes fh)) (\<lambda>_.
              bind_s (bw_io_write WalWrite data) (\<lambda>_.
              bind_s (bw_before WalFlush) (\<lambda>_.
                   bind_s (bw_do bw_flush) (\<lambda>_. bw_before WalSync))))"
  have eq: "wal_write_frame crc pid data True db w =
        bind_s (or_fail_io (with_writer m)) (\<lambda>_ w1. (Inr (), w1\<lparr>w_commit_seq := seq,
                       w_index := (w_index w1)(pid \<mapsto> length (w_frames w1)),
                       w_frames := w_frames w1 @ [\<lparr>fr_header = fh, fr_data = data\<rparr>]\<rparr>)) w"
    using seq by (simp add: wal_write_frame_def fh_def m_def Let_def)
  obtain w1 where w1: "or_fail_io (with_writer m) w = (Inr (), w1)" "w_writer w1 = Some bw'"
    using run wr unfolding eq by (auto simp: bind_s_Inr_iff)
  then obtain bw io' where m1: "m (w_io w, bw) = (Inr (), io', bw')"
    by (cases "w_writer w") (auto simp: or_fail_io_def with_writer_def split: prod.splits sum.splits)
  have last: "bind_s (bw_do bw_flush) (\<lambda>_. bw_before WalSync) (io, bw) = (Inr (), io', bw') \<Longrightarrow> bw_buf bw' = []" for io bw
    by (auto simp: bind_s_Inr_iff bw_do_def bw_before_def bw_flush_def split: prod.splits)
  show ?thesis
    using m1 unfolding m_def by (subst (asm) bind_s_Inr_iff, elim exE conjE)
      (auto simp: bind_s_Inr_iff [where f = "\<lambda>_. bind_s (bw_do bw_flush) f" for f]
        bind_s_Inr_iff [where m = "bw_io_write WalWrite data"] dest: last)
qed

lemma write_frame_no_fault:
  assumes "w_io w = None" "\<not> w_io_failed w" "length data = w_page_size w" "w_commit_seq w \<noteq> - 1"
  shows "fst (wal_write_frame crc pid data c db w) = Inr ()"
    "w_writer w \<noteq> None \<Longrightarrow> w_writer (snd (wal_write_frame crc pid data c db w)) \<noteq> None"
  using assms
  by (auto simp: wal_write_frame_def next_commit_seq_def or_fail_io_def with_writer_def bind_s_def
      bw_before_def bw_do_def Let_def split: option.splits)

lemma rollback_no_fault_writer:
  assumes "w_io w = None"
  shows "wal_rollback_to n w = (Inr (), snd (wal_rollback_to n w))"
  using rollback_no_fault(1) [OF assms, of n] by (metis prod.collapse)

text \<open>A log for the witnesses: checksum constantly zero, 512-byte pages.\<close>

definition ex_crc :: crc_fun where "ex_crc = (\<lambda>_. 0)"

definition ex_hdr :: wal_header where "ex_hdr = wal_header_new ex_crc 512"

definition ex_frame :: "page_id \<Rightarrow> u32 \<Rightarrow> in_memory_frame" where
  "ex_frame p db = \<lparr>fr_header = \<lparr>wf_page_id = p, wf_db_size = db, wf_commit_seq = 1,
      wf_salt_1 = 0x1A2B3C4D, wf_salt_2 = 0x5E6F7A8B, wf_crc32 = 0\<rparr>, fr_data = replicate 512 7\<rparr>"

lemma ex_hdr_valid: "valid_wal_header ex_crc ex_hdr" "wh_page_size ex_hdr = 512"
  by (simp_all add: ex_hdr_def valid_wal_header_new is_power_of_two_def)
     (simp add: wal_header_new_def Let_def)

lemma ex_frame_good: "p \<noteq> 0 \<Longrightarrow> good_frame ex_crc ex_hdr 512 (ex_frame p db)"
  by (simp add: good_frame_def frame_bad_def ex_frame_def ex_crc_def ex_hdr_def wal_header_new_def
      wf_calculate_crc_def Let_def)

lemma ex_opened: "wal_inv ex_crc (opened ex_hdr [])"
  by (rule opened_inv [OF ex_hdr_valid(1)]) simp

lemma ex_opened_fields: "w_writer (opened ex_hdr []) \<noteq> None" "w_commit_seq (opened ex_hdr []) = 0"
  by (simp_all add: opened_def Let_def wal_empty_def)

section \<open>Properties\<close>

text \<open>C3: A crash during a commit is atomic. Take a log file with complete transactions \<open>fs\<close>
  followed by the frames of one more transaction (\<open>us\<close> and the commit frame \<open>c\<close>), and cut it
  at any byte \<open>k\<close> after the committed part. Opening the cut file succeeds, recovers either
  exactly the old transactions or, when nothing was lost, all of them, and the log it
  returns is consistent with its repaired file. No assumption is made about the checksum.\<close>

theorem wal_crash_atomic:
  assumes "valid_wal_header crc hdr" "wh_page_size hdr = ps"
    and "list_all (good_frame crc hdr (unat ps)) (fs @ us @ [c])"
    and "committed_count fs = length fs"
    and "list_all (\<lambda>f. wf_db_size (fr_header f) = 0) us" "wf_db_size (fr_header c) \<noteq> 0"
    and "img = wal_header_to_bytes hdr @ enc_frames (fs @ us @ [c])"
    and "length (wal_header_to_bytes hdr @ enc_frames fs) \<le> k"
  shows "\<exists>w. wal_open crc (Some (take k img)) ps = Inr w \<and> wal_inv crc w \<and>
    w_frames w = (if k < length img then fs else fs @ us @ [c])"
proof -
  define all where "all = fs @ us @ [c]"
  define j where "j = (k - WAL_HEADER_SIZE) div frame_size (unat ps)"
  have l: "length (wal_header_to_bytes hdr) = WAL_HEADER_SIZE"
    using assms(1) by (simp add: valid_wal_header_def length_wal_header_to_bytes)
  have kh: "WAL_HEADER_SIZE \<le> k" using assms(8) l by simp
  have cut: "take k img = wal_header_to_bytes hdr @ take (k - WAL_HEADER_SIZE) (enc_frames all)"
    using kh l by (simp add: assms(7) all_def)
  have good: "list_all (good_frame crc hdr (unat ps)) all" using assms(3) by (simp add: all_def)
  have scan: "scan_frames crc hdr (unat ps) (take (k - WAL_HEADER_SIZE) (enc_frames all)) = take j all"
    unfolding j_def by (rule scan_frames_prefix [OF good])
  have open_: "wal_open crc (Some (take k img)) ps = Inr (opened hdr (take j all))"
    unfolding cut scan [symmetric] by (rule wal_open_body [OF assms(1,2)])
  have la: "length (enc_frames all) = length all * frame_size (unat ps)"
    by (rule length_enc_frames [OF good])
  have lf: "length (enc_frames fs) = length fs * frame_size (unat ps)"
    using assms(3) by (intro length_enc_frames [of crc hdr]) simp
  have fj: "length fs \<le> j"
  proof -
    have "length fs * frame_size (unat ps) \<le> k - WAL_HEADER_SIZE" using assms(8) l lf by simp
    then show ?thesis using frame_size_pos by (simp add: j_def less_eq_div_iff_mult_less_eq)
  qed
  have "committed_frames (take j all) = (if k < length img then fs else fs @ us @ [c])"
  proof (cases "k < length img")
    case True
    then have "k - WAL_HEADER_SIZE < length all * frame_size (unat ps)"
      using la l kh by (simp add: assms(7) all_def)
    then have "j < length all" unfolding j_def by (rule less_mult_imp_div_less)
    then have "take j all = fs @ take (j - length fs) us" using fj by (simp add: all_def)
    moreover have "committed_count (fs @ take (j - length fs) us) = length fs"
      using assms(4,5) by (subst committed_count_append_uncommitted) (auto simp: list_all_length)
    ultimately show ?thesis using True by (simp add: committed_frames_def)
  next
    case False
    then have "length all * frame_size (unat ps) \<le> k - WAL_HEADER_SIZE"
      using la l by (simp add: assms(7) all_def)
    then have "length all \<le> j" using frame_size_pos by (simp add: j_def less_eq_div_iff_mult_less_eq)
    then have "take j all = (fs @ us) @ [c]" by (simp add: all_def)
    then show ?thesis using False assms(6) by (simp add: committed_frames_def del: append_assoc)
  qed
  moreover have "wal_inv crc (opened hdr (take j all))"
    using good assms(1,2) by (intro opened_inv) (auto simp: list_all_length)
  ultimately show ?thesis using open_ by (auto simp: opened_fields)
qed

text \<open>The read-only committed-page reader, which runs before credentials are applied, agrees
  with opening: for every file whose header parses, whatever bytes follow it, it returns
  for each page what a log opened from that file returns.\<close>

theorem read_committed_page_agrees:
  assumes "valid_wal_header crc hdr" "file = wal_header_to_bytes hdr @ body"
  shows "\<exists>w. wal_open crc (Some file) (wh_page_size hdr) = Inr w \<and> wal_inv crc w \<and>
    read_committed_page crc file p = Inr (wal_read_page w p)"
proof -
  define fs where "fs = scan_frames crc hdr (unat (wh_page_size hdr)) body"
  have l: "length (wal_header_to_bytes hdr) = WAL_HEADER_SIZE"
    using assms(1) by (simp add: valid_wal_header_def length_wal_header_to_bytes)
  have o: "wal_open crc (Some file) (wh_page_size hdr) = Inr (opened hdr fs)"
    unfolding assms(2) fs_def by (rule wal_open_body [OF assms(1) refl])
  have "read_committed_page crc file p = Inr (committed_image p None None fs)"
    using l wal_header_roundtrip_rest [OF assms(1), of "[]"]
    by (simp add: read_committed_page_def committed_loop_scan assms(2) fs_def)
  also have "committed_image p None None fs = latest (committed_frames fs) p"
    by (simp add: committed_image_latest committed_frames_def split: option.splits)
  finally have "read_committed_page crc file p = Inr (wal_read_page (opened hdr fs) p)"
    by (simp add: wal_read_page_latest opened_fields)
  moreover have "wal_inv crc (opened hdr fs)"
    unfolding fs_def by (rule opened_inv [OF assms(1) scan_frames_all_good])
  ultimately show ?thesis using o by blast
qed

text \<open>Appending a frame. Whatever injected fault strikes, the log stays consistent with its
  file; if it returns Ok, the page reads back as written and all others as before; if it
  returns an error, no page of the log has changed, and either nothing happened or the log
  refuses every further append until it is rolled back or reopened.\<close>

theorem wal_write_frame_effect:
  assumes "wal_inv crc w" "pid \<noteq> 0" "wal_write_frame crc pid data is_commit db w = (r, w')"
  shows "wal_inv crc w' \<and>
    (case r of
       Inr _ \<Rightarrow> wal_read_page w' = (wal_read_page w)(pid \<mapsto> data) \<and> frame_count w' = frame_count w + 1
     | Inl _ \<Rightarrow> wal_read_page w' = wal_read_page w \<and> w_frames w' = w_frames w \<and>
         (w' = w \<or> (\<forall>q d c n. is_ok (fst (wal_write_frame crc q d c n w')) = False)))"
proof -
  have inv: "wal_inv crc w'" by (rule write_frame_inv [OF assms])
  have idx: "w_index w = index_of (w_frames w)" using assms(1) by (simp add: wal_inv_def wal_mem_ok_def)
  have idx': "w_index w' = index_of (w_frames w')" using inv by (simp add: wal_inv_def wal_mem_ok_def)
  note rd = wal_read_page_latest [OF idx] wal_read_page_latest [OF idx']
  show ?thesis
    using assms(3)
  proof (cases rule: write_frame_cases)
    case (appended seq fh io' writer')
    have "frame_page \<lparr>fr_header = fh, fr_data = data\<rparr> = pid"
      by (simp add: frame_page_def appended(5) make_frame_header_def Let_def)
    moreover have "w_frames w' = w_frames w @ [\<lparr>fr_header = fh, fr_data = data\<rparr>]"
      by (simp add: appended(6))
    ultimately have "wal_read_page w' = (wal_read_page w)(pid \<mapsto> data)"
      by (intro ext) (simp add: rd)
    then show ?thesis using inv appended(1,6) by (simp add: frame_count_def)
  next
    case (failed e io' bw bw')
    have "w_frames w' = w_frames w" by (simp add: failed(4))
    then have "wal_read_page w' = wal_read_page w" by (intro ext) (simp add: rd)
    moreover have "\<forall>q d c n. is_ok (fst (wal_write_frame crc q d c n w')) = False"
      by (simp add: wal_write_frame_def failed(4))
    ultimately show ?thesis using inv failed by simp
  next
    case (refused e)
    then show ?thesis using inv by simp
  qed
qed

text \<open>C27: Durability. When a commit frame of a file-backed log returns Ok, the file itself (not
  its buffer) holds every frame: reopening it recovers all frames, and every page reads
  from the reopened log as it reads now.\<close>

theorem wal_commit_durable:
  assumes "wal_inv crc w" "pid \<noteq> 0" "db \<noteq> 0"
    and "wal_write_frame crc pid data True db w = (Inr (), w')" "w_writer w' = Some bw"
  shows "\<exists>w2. wal_open crc (Some (df_data (bw_file bw))) (wh_page_size (w_header w')) = Inr w2 \<and>
    w_frames w2 = w_frames w' \<and> (\<forall>p. wal_read_page w2 p = wal_read_page w' p)"
proof -
  have inv: "wal_inv crc w'" by (rule write_frame_inv [OF assms(1,2,4)])
  have buf: "bw_buf bw = []" by (rule commit_flushed [OF assms(4,5)])
  from assms(4) obtain fs fh where fs: "w_frames w' = fs @ [\<lparr>fr_header = fh, fr_data = data\<rparr>]"
    "wf_db_size fh = db" "\<not> w_io_failed w'"
    by (cases rule: write_frame_cases) (auto simp: make_frame_header_def Let_def)
  have mem: "wal_mem_ok crc w'" using inv by (simp add: wal_inv_def)
  define n where "n = unat (wh_page_size (w_header w'))"
  have good: "list_all (good_frame crc (w_header w') n) (w_frames w')"
    and v: "valid_wal_header crc (w_header w')" and idx: "w_index w' = index_of (w_frames w')"
    using mem by (auto simp: wal_mem_ok_def n_def)
  have d: "df_data (bw_file bw) = wal_image w'"
    using inv assms(5) fs(3) buf by (simp add: wal_inv_def bw_bytes_def)
  have "scan_frames crc (w_header w') n (enc_frames (w_frames w')) = w_frames w'"
    using scan_frames_append [OF good, of "[]"] by (simp add: scan_frames_short frame_size_pos)
  then have "wal_open crc (Some (wal_image w')) (wh_page_size (w_header w')) =
      Inr (opened (w_header w') (w_frames w'))"
    using wal_open_body [OF v refl, of "enc_frames (w_frames w')"] by (simp add: wal_image_def n_def)
  moreover have "committed_frames (w_frames w') = w_frames w'"
    using assms(3) by (simp add: fs committed_frames_def)
  ultimately show ?thesis
    by (auto simp: d opened_fields wal_read_page_latest idx)
qed

text \<open>Rolling back. A successful rollback to \<open>n\<close> frames, also after a failed append, leaves
  exactly the first \<open>n\<close> frames, every page as those frames give it, appends possible
  again, and a file that reopens to the committed ones among these frames.\<close>

theorem wal_rollback_exact:
  assumes "wal_inv crc w" "wal_rollback_to n w = (Inr (), w')"
  shows "wal_inv crc w' \<and> w_frames w' = take n (w_frames w) \<and> \<not> requires_reopen w' \<and>
    (\<forall>p. wal_read_page w' p = latest (take n (w_frames w)) p) \<and>
    (\<forall>bw. w_writer w' = Some bw \<longrightarrow>
       wal_open crc (Some (bw_bytes bw)) (wh_page_size (w_header w)) =
         Inr (opened (w_header w) (take n (w_frames w))))"
proof -
  note f = rollback_fields [OF assms(2)]
  have inv: "wal_inv crc w'" by (rule rollback_inv [OF assms])
  have "wal_open crc (Some (bw_bytes bw)) (wh_page_size (w_header w)) =
      Inr (opened (w_header w) (take n (w_frames w)))" if bw: "w_writer w' = Some bw" for bw
  proof -
    define m where "m = unat (wh_page_size (w_header w'))"
    have good: "list_all (good_frame crc (w_header w') m) (w_frames w')" and v: "valid_wal_header crc (w_header w')"
      using inv by (auto simp: wal_inv_def wal_mem_ok_def m_def)
    have d: "bw_bytes bw = wal_image w'" using inv bw f(2) by (simp add: wal_inv_def)
    have "scan_frames crc (w_header w') m (enc_frames (w_frames w')) = w_frames w'"
      using scan_frames_append [OF good, of "[]"] by (simp add: scan_frames_short frame_size_pos)
    then show ?thesis
      using wal_open_body [OF v refl, of "enc_frames (w_frames w')"] f
      by (simp add: d wal_image_def m_def)
  qed
  then show ?thesis using inv f by (simp add: requires_reopen_def wal_read_page_latest)
qed

section \<open>Witnesses\<close>

theorem wal_crash_atomic_witness:
  "let img = wal_header_to_bytes ex_hdr @ enc_frames ([ex_frame 1 1] @ [ex_frame 2 0] @ [ex_frame 1 2]) in
   \<exists>w. wal_open ex_crc (Some (take 1300 img)) 512 = Inr w \<and> wal_inv ex_crc w \<and>
    w_frames w = (if 1300 < length img then [ex_frame 1 1]
                  else [ex_frame 1 1] @ [ex_frame 2 0] @ [ex_frame 1 2])"
proof -
  have len: "length (wal_header_to_bytes ex_hdr @ enc_frames [ex_frame 1 1]) = 568"
    using length_enc_frames [of ex_crc ex_hdr 512 "[ex_frame 1 1]"] ex_frame_good [of 1 1] ex_hdr_valid
    by (simp add: length_wal_header_to_bytes valid_wal_header_def frame_size_def WAL_FRAME_HEADER_SIZE_def
        WAL_HEADER_SIZE_def)
  show ?thesis
    unfolding Let_def
    by (rule wal_crash_atomic [where k = 1300, OF ex_hdr_valid _ _ _ _ refl])
       (use len in \<open>simp_all add: ex_frame_good committed_count_def\<close>, simp_all add: ex_frame_def)
qed

theorem read_committed_page_agrees_witness:
  "\<exists>w. wal_open ex_crc (Some (wal_header_to_bytes ex_hdr @ [1, 2, 3])) (wh_page_size ex_hdr) = Inr w \<and>
    wal_inv ex_crc w \<and>
    read_committed_page ex_crc (wal_header_to_bytes ex_hdr @ [1, 2, 3]) 1 = Inr (wal_read_page w 1)"
  by (rule read_committed_page_agrees [OF ex_hdr_valid(1) refl])

theorem wal_write_frame_effect_witness:
  "let w = opened ex_hdr []; (r, w') = wal_write_frame ex_crc 5 (replicate 512 1) False 0 w in
   wal_inv ex_crc w' \<and>
    (case r of
       Inr _ \<Rightarrow> wal_read_page w' = (wal_read_page w)(5 \<mapsto> replicate 512 1) \<and> frame_count w' = frame_count w + 1
     | Inl _ \<Rightarrow> wal_read_page w' = wal_read_page w \<and> w_frames w' = w_frames w \<and>
         (w' = w \<or> (\<forall>q d c n. is_ok (fst (wal_write_frame ex_crc q d c n w')) = False)))"
proof -
  obtain r w' where run: "wal_write_frame ex_crc 5 (replicate 512 1) False 0 (opened ex_hdr []) = (r, w')"
    by (metis prod.exhaust)
  show ?thesis
    unfolding Let_def run prod.case by (rule wal_write_frame_effect [OF ex_opened _ run]) simp
qed

theorem wal_commit_durable_witness:
  "let w' = snd (wal_write_frame ex_crc 1 (replicate 512 1) True 1 (opened ex_hdr []));
       bw = the (w_writer w') in
   \<exists>w2. wal_open ex_crc (Some (df_data (bw_file bw))) (wh_page_size (w_header w')) = Inr w2 \<and>
    w_frames w2 = w_frames w' \<and> (\<forall>p. wal_read_page w2 p = wal_read_page w' p)"
proof -
  define w where "w = opened ex_hdr []"
  have f: "w_io w = None" "\<not> w_io_failed w" "length (replicate 512 (1::u8)) = w_page_size w" "w_commit_seq w \<noteq> - 1"
    using ex_hdr_valid(2) ex_opened_fields(2) by (simp_all add: w_def opened_fields)
  note nf = write_frame_no_fault [OF f, where crc = ex_crc and pid = 1 and c = True and db = 1]
  have run: "wal_write_frame ex_crc 1 (replicate 512 1) True 1 w =
      (Inr (), snd (wal_write_frame ex_crc 1 (replicate 512 1) True 1 w))"
    using nf(1) by (metis prod.collapse)
  have wr: "w_writer (snd (wal_write_frame ex_crc 1 (replicate 512 1) True 1 w)) =
      Some (the (w_writer (snd (wal_write_frame ex_crc 1 (replicate 512 1) True 1 w))))"
    using nf(2) ex_opened_fields(1) by (simp add: w_def)
  show ?thesis
    unfolding Let_def w_def [symmetric]
    by (rule wal_commit_durable [OF _ _ _ run wr]) (use ex_opened in \<open>simp_all add: w_def\<close>)
qed

theorem wal_rollback_exact_witness:
  "let w = opened ex_hdr [ex_frame 1 1]; w' = snd (wal_rollback_to 0 w) in
   wal_inv ex_crc w' \<and> w_frames w' = take 0 (w_frames w) \<and> \<not> requires_reopen w' \<and>
    (\<forall>p. wal_read_page w' p = latest (take 0 (w_frames w)) p) \<and>
    (\<forall>bw. w_writer w' = Some bw \<longrightarrow>
       wal_open ex_crc (Some (bw_bytes bw)) (wh_page_size (w_header w)) =
         Inr (opened (w_header w) (take 0 (w_frames w))))"
proof -
  have inv: "wal_inv ex_crc (opened ex_hdr [ex_frame 1 1])"
    using ex_frame_good [of 1 1] by (intro opened_inv [OF ex_hdr_valid(1)]) (simp add: ex_hdr_valid(2))
  show ?thesis
    unfolding Let_def
    by (rule wal_rollback_exact [OF inv rollback_no_fault_writer]) (simp add: opened_fields)
qed

end
