(* ===== verification/Wal_Checkpoint.thy ===== *)
theory Wal_Checkpoint
  imports Wal_Props
begin

text \<open>
  The checkpoint of \<^verbatim>\<open>src/src/pager/wal.rs\<close>: copying the latest image of every page to the
  base file, then resetting the log. A page's logical content is its image in the log or
  else its slot of the base file; a checkpoint keeps it, and an injected fault anywhere in
  it loses nothing.
\<close>

section \<open>Slots of the base file\<close>

definition page_at :: "nat \<Rightarrow> page_id \<Rightarrow> bytes \<Rightarrow> bytes" where
  "page_at n p d = take n (drop ((unat p - 1) * n) d)"

definition has_slot :: "nat \<Rightarrow> page_id \<Rightarrow> bytes \<Rightarrow> bool" where
  "has_slot n p d \<longleftrightarrow> p \<noteq> 0 \<and> unat p * n \<le> length d"

lemma unat_page: "p \<noteq> (0 :: page_id) \<Longrightarrow> 1 \<le> unat p"
  by (metis One_nat_def Suc_leI unat_gt_0)

lemma slot_bounds:
  assumes "has_slot n p d"
  shows "(unat p - 1) * n + n \<le> length d"
proof -
  have "1 \<le> unat p" using assms unat_page by (auto simp: has_slot_def)
  then have "(unat p - 1) * n + n = unat p * n" by (simp add: algebra_simps)
  then show ?thesis using assms by (simp add: has_slot_def)
qed

lemma page_at_write_other:
  assumes "has_slot n p d" "q \<noteq> 0" "p \<noteq> q" "length bs \<le> n"
  shows "page_at n p (write_at ((unat q - 1) * n) bs d) = page_at n p d"
proof -
  define a where "a = (unat p - 1) * n"
  define b where "b = (unat q - 1) * n"
  have la: "a + n \<le> length d" using slot_bounds [OF assms(1)] by (simp add: a_def)
  have "unat p \<noteq> unat q" using assms(3) by (simp add: word_unat_eq_iff)
  then consider "unat p < unat q" | "unat q < unat p" by linarith
  then show ?thesis
  proof cases
    case 1
    have "unat p \<le> unat q - 1" using 1 by simp
    then have "unat p * n \<le> b" unfolding b_def by (rule mult_le_mono1)
    then have ab: "a + n \<le> b"
      using unat_page [of p] assms(1) by (simp add: a_def has_slot_def algebra_simps)
    have "take (n + a) (write_at b bs d) = take (n + a) d"
      using ab la by (simp add: write_at_def min_absorb1)
    then show ?thesis unfolding page_at_def take_drop a_def [symmetric] b_def [symmetric] by simp
  next
    case 2
    have "unat q \<le> unat p - 1" using 2 by simp
    then have "unat q * n \<le> a" unfolding a_def by (rule mult_le_mono1)
    then have ba: "b + n \<le> a"
      using unat_page [OF assms(2)] by (simp add: b_def algebra_simps)
    have bd: "b \<le> length d" using ba la by simp
    define X where "X = take b d @ replicate (b - length d) 0 @ bs"
    have X: "length X = b + length bs" "length X \<le> a" using bd ba assms(4) by (simp_all add: X_def)
    have "write_at b bs d = X @ drop (length X) d" using bd by (simp add: write_at_def X_def min_absorb2)
    then have "drop a (write_at b bs d) = drop (a - length X) (drop (length X) d)"
      using X(2) by simp
    also have "\<dots> = drop a d" using X(2) by simp
    finally show ?thesis unfolding page_at_def a_def [symmetric] b_def [symmetric] by simp
  qed
qed

lemma page_at_write_same:
  assumes "q \<noteq> 0" "length bs = n"
  shows "page_at n q (write_at ((unat q - 1) * n) bs d) = bs"
    "has_slot n q (write_at ((unat q - 1) * n) bs d)"
proof -
  show "page_at n q (write_at ((unat q - 1) * n) bs d) = bs"
    using assms(2) by (cases "(unat q - 1) * n \<le> length d") (simp_all add: page_at_def write_at_def)
  have "unat q * n = (unat q - 1) * n + n" using unat_page [OF assms(1)] by (simp add: algebra_simps)
  then show "has_slot n q (write_at ((unat q - 1) * n) bs d)"
    using assms by (simp add: has_slot_def)
qed

lemma has_slot_write: "has_slot n p d \<Longrightarrow> has_slot n p (write_at k bs d)"
  by (auto simp: has_slot_def)

section \<open>Copying pages\<close>

definition base_data :: "base_store \<Rightarrow> bytes" where
  "base_data b = (case bs_file b of Some f \<Rightarrow> df_data f | None \<Rightarrow> [])"

lemma base_write_file:
  assumes f: "bs_file base = Some f" and p: "p \<noteq> 0" and d: "length d = n" "0 < n"
    and run: "on_base (base_write n p d) (w, base) = (r, w', base')"
  shows "\<exists>f' io'. bs_file base' = Some f' \<and> w' = w\<lparr>w_io := io'\<rparr> \<and>
    (\<forall>q. has_slot n q (df_data f) \<longrightarrow> has_slot n q (df_data f') \<and>
       (q \<noteq> p \<longrightarrow> page_at n q (df_data f') = page_at n q (df_data f))) \<and>
    (r = Inr () \<longrightarrow> page_at n p (df_data f') = d \<and> has_slot n p (df_data f'))"
proof -
  define off where "off = (unat p - 1) * n"
  obtain r1 io1 f1 where io1: "file_io_write CheckpointWrite d (w_io w, file_seek off f) = (r1, io1, f1)"
    by (metis prod.exhaust)
  have out: "r = r1" "w' = w\<lparr>w_io := io1\<rparr>" "bs_file base' = Some f1"
    using run io1 f p by (auto simp: on_base_def base_write_def off_def)
  have "(df_data f1 = df_data f \<and> r1 \<noteq> Inr ()) \<or>
      (\<exists>k. df_data f1 = write_at off (take k d) (df_data f) \<and> (r1 = Inr () \<longrightarrow> take k d = d))"
    using io1 d
    by (auto simp: file_io_write_def io_write_def file_write_def file_seek_def
        split: prod.splits option.splits io_failure.splits if_splits intro: exI [of _ n])
  then consider (same) "df_data f1 = df_data f" "r1 \<noteq> Inr ()"
    | (wrote) k where "df_data f1 = write_at off (take k d) (df_data f)" "r1 = Inr () \<longrightarrow> take k d = d"
    by auto
  then show ?thesis
  proof cases
    case same
    then show ?thesis using out by auto
  next
    case (wrote k)
    have "page_at n q (df_data f1) = page_at n q (df_data f)" if "has_slot n q (df_data f)" "q \<noteq> p" for q
      using page_at_write_other [OF that(1) p that(2), of "take k d"] d(1) wrote(1) by (simp add: off_def)
    moreover have "page_at n p (df_data f1) = d \<and> has_slot n p (df_data f1)" if "r1 = Inr ()"
      using page_at_write_same [OF p d(1)] wrote that by (simp add: off_def)
    ultimately show ?thesis
      using out wrote(1) has_slot_write by (intro exI [of _ f1] exI [of _ io1]) simp
  qed
qed

lemma each_base_write:
  assumes "bs_file base = Some f" "0 < n" "\<forall>(p, d) \<in> set pairs. p \<noteq> 0 \<and> length d = n"
    and "each_s (\<lambda>(p, d). on_base (base_write n p d)) pairs (w, base) = (r, w', base')"
  shows "\<exists>f' io'. bs_file base' = Some f' \<and> w' = w\<lparr>w_io := io'\<rparr> \<and>
    (\<forall>q. has_slot n q (df_data f) \<longrightarrow> has_slot n q (df_data f') \<and>
       (q \<notin> fst ` set pairs \<longrightarrow> page_at n q (df_data f') = page_at n q (df_data f))) \<and>
    (r = Inr () \<longrightarrow> (\<forall>p d. map_of (rev pairs) p = Some d \<longrightarrow>
       page_at n p (df_data f') = d \<and> has_slot n p (df_data f')))"
  using assms
proof (induction pairs arbitrary: base f w)
  case Nil
  have "\<exists>io'. w = w\<lparr>w_io := io'\<rparr>" by (rule exI [of _ "w_io w"]) simp
  with Nil show ?case by auto
next
  case (Cons pd pairs)
  obtain p d where pd: "pd = (p, d)" by (cases pd)
  have pn: "p \<noteq> 0" "length d = n" using Cons.prems(3) by (auto simp: pd)
  obtain r1 w1 base1 where run1: "on_base (base_write n p d) (w, base) = (r1, w1, base1)"
    by (metis prod.exhaust)
  obtain f1 io1 where one: "bs_file base1 = Some f1" "w1 = w\<lparr>w_io := io1\<rparr>"
    "\<And>q. has_slot n q (df_data f) \<Longrightarrow> has_slot n q (df_data f1) \<and>
       (q \<noteq> p \<longrightarrow> page_at n q (df_data f1) = page_at n q (df_data f))"
    "r1 = Inr () \<Longrightarrow> page_at n p (df_data f1) = d \<and> has_slot n p (df_data f1)"
    using base_write_file [OF Cons.prems(1) pn Cons.prems(2) run1] by blast
  show ?case
  proof (cases r1)
    case (Inl e)
    then have "r = Inl e" "w' = w1" "base' = base1"
      using Cons.prems(4) run1 by (auto simp: pd bind_s_def)
    then show ?thesis using one by (intro exI [of _ f1] exI [of _ io1]) (auto simp: pd)
  next
    case (Inr u)
    then have run2: "each_s (\<lambda>(p, d). on_base (base_write n p d)) pairs (w1, base1) = (r, w', base')"
      using Cons.prems(4) run1 by (simp add: pd bind_s_def)
    obtain f2 io2 where two: "bs_file base' = Some f2" "w' = w1\<lparr>w_io := io2\<rparr>"
      "\<And>q. has_slot n q (df_data f1) \<Longrightarrow> has_slot n q (df_data f2) \<and>
         (q \<notin> fst ` set pairs \<longrightarrow> page_at n q (df_data f2) = page_at n q (df_data f1))"
      "\<And>p d. r = Inr () \<Longrightarrow> map_of (rev pairs) p = Some d \<Longrightarrow>
         page_at n p (df_data f2) = d \<and> has_slot n p (df_data f2)"
      using Cons.IH [OF one(1) Cons.prems(2) _ run2] Cons.prems(3) by fastforce
    have final: "page_at n q (df_data f2) = e \<and> has_slot n q (df_data f2)"
      if "r = Inr ()" "map_of (rev (pd # pairs)) q = Some e" for q e
    proof (cases "map_of (rev pairs) q")
      case (Some e')
      then show ?thesis using two(4) [OF that(1) Some] that(2) by (simp add: map_add_Some_iff)
    next
      case None
      then have "q = p" "e = d" using that(2) by (auto simp: pd map_add_Some_iff split: if_splits)
      moreover have "q \<notin> fst ` set pairs" using None by (simp add: map_of_eq_None_iff)
      ultimately show ?thesis using one(4) Inr two(3) [of q] by auto
    qed
    have kept: "has_slot n q (df_data f2) \<and>
       (q \<notin> fst ` set (pd # pairs) \<longrightarrow> page_at n q (df_data f2) = page_at n q (df_data f))"
      if "has_slot n q (df_data f)" for q
      using one(3) [OF that] two(3) [of q] by (auto simp: pd)
    show ?thesis using two(1,2) one(2) kept final by (intro exI [of _ f2] exI [of _ io2]) simp
  qed
qed

section \<open>Resetting the log\<close>

lemma each_s_map:
  "(\<And>x. x \<in> set xs \<Longrightarrow> f x = g (h x)) \<Longrightarrow> each_s f xs = each_s g (map h xs)"
  by (induction xs) auto

definition reset_steps :: "bytes \<Rightarrow> (storage_io \<times> buf_writer, unit) sm" where
  "reset_steps hdr =
     bind_s (bw_before WalFlush) (\<lambda>_.
     bind_s (bw_do bw_flush) (\<lambda>_.
     bind_s (bw_before WalTruncate) (\<lambda>_.
     bind_s (bw_do (on_file (file_seek 0 \<circ> file_set_len 0))) (\<lambda>_.
     bind_s (\<lambda>(io, bw). case file_io_write WalReset hdr (io, bw_file bw) of
               (r, io', f') \<Rightarrow> (r, io', bw\<lparr>bw_file := f'\<rparr>)) (\<lambda>_.
     bind_s (bw_before WalSync) (\<lambda>_.
     bw_do (on_file file_seek_end)))))))"

lemma reset_header_write:
  assumes "file_io_write WalReset hdr (io, f) = (r, io', f')" "df_data f = []" "df_pos f = 0"
  shows "\<exists>k. df_data f' = take k hdr \<and> (r = Inr () \<longrightarrow> take k hdr = hdr)"
  using assms
  by (auto simp: file_io_write_def io_write_def file_write_def write_at_def
      split: prod.splits option.splits io_failure.splits if_splits
      intro: exI [of _ 0] exI [of _ "length hdr"])

lemma reset_steps_cases:
  assumes "reset_steps hdr (io, bw) = (r, io', bw')" "bw_at_end bw" "bw_buf bw = []"
  shows "bw_buf bw' = []"
    "(r \<noteq> Inr () \<and> df_data (bw_file bw') = df_data (bw_file bw)) \<or>
     (\<exists>k. df_data (bw_file bw') = take k hdr \<and> (r = Inr () \<longrightarrow> take k hdr = hdr \<and> bw_at_end bw'))"
proof -
  have fl: "bw_flush bw = bw" using assms(3) by (simp add: bw_flush_def file_write_def)
  define tr where "tr = on_file (file_seek 0 \<circ> file_set_len 0) bw"
  have tr: "df_data (bw_file tr) = []" "df_pos (bw_file tr) = 0" "bw_buf tr = []"
    using assms(3) by (simp_all add: tr_def on_file_def file_seek_def file_set_len_def)
  obtain r1 io1 where b1: "io_before WalFlush io = (r1, io1)" by (metis prod.exhaust)
  obtain r2 io2 where b2: "io_before WalTruncate io1 = (r2, io2)" by (metis prod.exhaust)
  obtain r3 io3 f3 where b3: "file_io_write WalReset hdr (io2, bw_file tr) = (r3, io3, f3)" by (metis prod.exhaust)
  obtain r4 io4 where b4: "io_before WalSync io3 = (r4, io4)" by (metis prod.exhaust)
  obtain k where k: "df_data f3 = take k hdr" "r3 = Inr () \<longrightarrow> take k hdr = hdr"
    using reset_header_write [OF b3 tr(1,2)] by blast
  have run: "(r, io', bw') =
      (case r1 of Inl e \<Rightarrow> (Inl e, io1, bw) | Inr _ \<Rightarrow>
      (case r2 of Inl e \<Rightarrow> (Inl e, io2, bw) | Inr _ \<Rightarrow>
      (case r3 of Inl e \<Rightarrow> (Inl e, io3, tr\<lparr>bw_file := f3\<rparr>) | Inr _ \<Rightarrow>
      (case r4 of Inl e \<Rightarrow> (Inl e, io4, tr\<lparr>bw_file := f3\<rparr>) | Inr _ \<Rightarrow>
         (Inr (), io4, on_file file_seek_end (tr\<lparr>bw_file := f3\<rparr>))))))"
    using assms(1) b1 b2 b3 b4
    by (auto simp: reset_steps_def bind_s_def bw_before_def bw_do_def fl tr_def [symmetric] split: sum.splits)
  show "bw_buf bw' = []"
    using run tr(3) assms(3) by (auto simp: on_file_def split: sum.splits)
  show "(r \<noteq> Inr () \<and> df_data (bw_file bw') = df_data (bw_file bw)) \<or>
     (\<exists>k. df_data (bw_file bw') = take k hdr \<and> (r = Inr () \<longrightarrow> take k hdr = hdr \<and> bw_at_end bw'))"
    using run k
    by (auto simp: on_file_def file_seek_end_def bw_at_end_def split: sum.splits intro: exI [of _ k])
qed

lemma wal_reset_writer:
  assumes "w_writer w = Some bw" "wal_reset w = (r, w')"
  shows "\<exists>io' bw'. reset_steps (wal_header_to_bytes (w_header w)) (w_io w, bw) = (r, io', bw') \<and>
    w' = w\<lparr>w_io := io', w_writer := Some bw', w_io_failed := (w_io_failed w \<or> r \<noteq> Inr ())\<rparr>"
proof -
  obtain r1 io1 bw1 where m: "reset_steps (wal_header_to_bytes (w_header w)) (w_io w, bw) = (r1, io1, bw1)"
    by (metis prod.exhaust)
  have "wal_reset w = or_fail_io (with_writer (reset_steps (wal_header_to_bytes (w_header w)))) w"
    by (simp add: wal_reset_def reset_steps_def)
  also have "\<dots> = (r1, w\<lparr>w_io := io1, w_writer := Some bw1, w_io_failed := (w_io_failed w \<or> r1 \<noteq> Inr ())\<rparr>)"
    using assms(1) m by (cases r1; cases w) (auto simp: or_fail_io_def with_writer_def)
  finally have "r = r1 \<and> w' = w\<lparr>w_io := io1, w_writer := Some bw1, w_io_failed := (w_io_failed w \<or> r1 \<noteq> Inr ())\<rparr>"
    unfolding assms(2) prod.inject .
  with m show ?thesis by blast
qed

section \<open>The whole checkpoint\<close>

text \<open>The logical content of a page: the log's latest image, else the slot of the base file.\<close>

definition logical_page :: "wal \<Rightarrow> base_store \<Rightarrow> page_id \<Rightarrow> bytes" where
  "logical_page w base p =
     (case wal_read_page w p of Some d \<Rightarrow> d | None \<Rightarrow> page_at (w_page_size w) p (base_data base))"

definition page_exists :: "wal \<Rightarrow> base_store \<Rightarrow> page_id \<Rightarrow> bool" where
  "page_exists w base p \<longleftrightarrow> has_page w p \<or> has_slot (w_page_size w) p (base_data base)"

lemma latest_good:
  assumes "list_all (good_frame crc hdr n) fs" "latest fs p = Some d"
  shows "p \<noteq> 0" "length d = n"
proof -
  have "(p, d) \<in> set (map (\<lambda>f. (frame_page f, fr_data f)) fs)"
    using map_of_SomeD [OF assms(2) [unfolded latest_def]] by simp
  then obtain f where f: "f \<in> set fs" "p = frame_page f" "d = fr_data f" by auto
  then have "good_frame crc hdr n f" using assms(1) by (simp add: list_all_iff)
  then show "p \<noteq> 0" "length d = n" using f by (simp_all add: good_frame_def frame_bad_def frame_page_def)
qed

lemma sorted_page_ids_set:
  assumes "w_index w = index_of (w_frames w)"
  shows "set (sorted_page_ids w) = dom (latest (w_frames w))" "distinct (sorted_page_ids w)"
  by (simp_all add: sorted_page_ids_def assms dom_index_of dom_latest)

definition image_pairs :: "wal \<Rightarrow> (page_id \<times> bytes) list" where
  "image_pairs w = map (\<lambda>p. (p, the (latest (w_frames w) p))) (sorted_page_ids w)"

lemma image_pairs_map:
  assumes "w_index w = index_of (w_frames w)"
  shows "map_of (rev (image_pairs w)) = latest (w_frames w)"
proof (rule ext)
  fix p
  have d: "distinct (map fst (image_pairs w))"
    using sorted_page_ids_set(2) [OF assms] by (simp add: image_pairs_def o_def)
  then have "map_of (rev (image_pairs w)) = map_of (image_pairs w)"
    by (intro map_of_inject_set [THEN iffD2]) (auto simp: rev_map [symmetric])
  moreover have "map_of (image_pairs w) p = latest (w_frames w) p"
    using sorted_page_ids_set(1) [OF assms]
    by (auto simp: image_pairs_def map_of_map_restrict restrict_map_def domIff)
  ultimately show "map_of (rev (image_pairs w)) p = latest (w_frames w) p" by simp
qed

lemma copy_pages_eq:
  assumes "w_index w = index_of (w_frames w)"
  shows "each_s (\<lambda>page_id. bind_s (lift_s (ok_or Panic (wal_read_page w page_id))) (\<lambda>page_data.
           on_base (base_write (w_page_size w) page_id page_data))) (sorted_page_ids w) =
         each_s (\<lambda>(p, d). on_base (base_write (w_page_size w) p d)) (image_pairs w)"
  unfolding image_pairs_def
proof (rule each_s_map)
  fix p assume "p \<in> set (sorted_page_ids w)"
  then obtain d where d: "latest (w_frames w) p = Some d"
    using sorted_page_ids_set(1) [OF assms] by auto
  show "bind_s (lift_s (ok_or Panic (wal_read_page w p))) (\<lambda>page_data.
           on_base (base_write (w_page_size w) p page_data)) =
        (case (p, the (latest (w_frames w) p)) of (p, d) \<Rightarrow> on_base (base_write (w_page_size w) p d))"
    by (intro ext) (simp add: wal_read_page_latest [OF assms] d)
qed

text \<open>
  The states a checkpoint can leave. \<open>ck_before\<close>: the log is as it was, with perhaps some
  page images already in the base. \<open>ck_after\<close>: every image is in the base, and the reset of
  the log has got as far as a prefix of its new header.
\<close>

definition ck_before :: "wal \<Rightarrow> base_store \<Rightarrow> wal \<Rightarrow> base_store \<Rightarrow> bool" where
  "ck_before w base w' base' \<longleftrightarrow>
     (\<exists>f f'. bs_file base = Some f \<and> bs_file base' = Some f' \<and>
       w_frames w' = w_frames w \<and> w_index w' = w_index w \<and> w_page_size w' = w_page_size w \<and>
       map_option (df_data \<circ> bw_file) (w_writer w') = map_option (df_data \<circ> bw_file) (w_writer w) \<and>
       (\<forall>q. has_slot (w_page_size w) q (df_data f) \<longrightarrow> has_slot (w_page_size w) q (df_data f') \<and>
          (latest (w_frames w) q = None \<longrightarrow>
             page_at (w_page_size w) q (df_data f') = page_at (w_page_size w) q (df_data f))))"

definition ck_copied :: "wal \<Rightarrow> base_store \<Rightarrow> base_store \<Rightarrow> bool" where
  "ck_copied w base base' \<longleftrightarrow>
     (\<exists>f f'. bs_file base = Some f \<and> bs_file base' = Some f' \<and>
       (\<forall>q. has_slot (w_page_size w) q (df_data f) \<longrightarrow> has_slot (w_page_size w) q (df_data f') \<and>
          (latest (w_frames w) q = None \<longrightarrow>
             page_at (w_page_size w) q (df_data f') = page_at (w_page_size w) q (df_data f))) \<and>
       (\<forall>q d. latest (w_frames w) q = Some d \<longrightarrow>
          page_at (w_page_size w) q (df_data f') = d \<and> has_slot (w_page_size w) q (df_data f')))"

lemma on_base_sync:
  "on_base base_sync (w, base) = (r, w', base') \<Longrightarrow> base' = base \<and> (\<exists>io'. w' = w\<lparr>w_io := io'\<rparr>)"
  by (auto simp: on_base_def base_sync_def split: option.splits prod.splits
      intro: exI [of _ "w_io w"])

lemma copy_phase:
  assumes mem: "wal_mem_ok crc w" and n: "0 < w_page_size w" and f: "bs_file base = Some f"
    and run: "each_s (\<lambda>(p, d). on_base (base_write (w_page_size w) p d)) (image_pairs w) (w, base) = (r, w1, base1)"
  shows "ck_before w base w1 base1 \<and> (\<exists>io'. w1 = w\<lparr>w_io := io'\<rparr>) \<and>
    (r = Inr () \<longrightarrow> ck_copied w base base1)"
proof -
  have idx: "w_index w = index_of (w_frames w)"
    and good: "list_all (good_frame crc (w_header w) (w_page_size w)) (w_frames w)"
    using mem by (auto simp: wal_mem_ok_def)
  have ok: "\<forall>(p, d) \<in> set (image_pairs w). p \<noteq> 0 \<and> length d = w_page_size w"
  proof (rule ballI)
    fix x assume "x \<in> set (image_pairs w)"
    then obtain p d where x: "x = (p, d)" and l: "latest (w_frames w) p = Some d"
      using sorted_page_ids_set(1) [OF idx] by (auto simp: image_pairs_def)
    show "case x of (p, d) \<Rightarrow> p \<noteq> 0 \<and> length d = w_page_size w"
      using latest_good [OF good l] by (simp add: x)
  qed
  have keys: "fst ` set (image_pairs w) = dom (latest (w_frames w))"
    using sorted_page_ids_set(1) [OF idx] by (force simp: image_pairs_def)
  obtain f' io' where r: "bs_file base1 = Some f'" "w1 = w\<lparr>w_io := io'\<rparr>"
    "\<And>q. has_slot (w_page_size w) q (df_data f) \<Longrightarrow> has_slot (w_page_size w) q (df_data f') \<and>
       (q \<notin> fst ` set (image_pairs w) \<longrightarrow>
        page_at (w_page_size w) q (df_data f') = page_at (w_page_size w) q (df_data f))"
    "\<And>p d. r = Inr () \<Longrightarrow> map_of (rev (image_pairs w)) p = Some d \<Longrightarrow>
       page_at (w_page_size w) p (df_data f') = d \<and> has_slot (w_page_size w) p (df_data f')"
    using each_base_write [OF f n ok run] by blast
  note r3 = r(3) [unfolded keys domIff] and r4 = r(4) [unfolded image_pairs_map [OF idx]]
  have "ck_before w base w1 base1" unfolding ck_before_def using f r(1,2) r3 by auto
  moreover have "r = Inr () \<longrightarrow> ck_copied w base base1"
    unfolding ck_copied_def using f r(1) r3 r4 by auto
  ultimately show ?thesis using r(2) by blast
qed

text \<open>The four phases after the guard of \<^verbatim>\<open>checkpoint_inner\<close>, one result each.\<close>

lemma checkpoint_phases:
  assumes "\<not> w_io_failed w" "w_index w = index_of (w_frames w)"
    and "w_frames w = [] \<or> wf_db_size (fr_header (last (w_frames w))) \<noteq> 0"
    and run: "wal_checkpoint crc (w, base) = (r, w', base')"
  obtains (empty) "sorted_page_ids w = []" "r = Inr 0" "base' = base"
      "w' = w\<lparr>w_checkpoint_error := None\<rparr>"
  | (copying) e w1 where
      "each_s (\<lambda>(p, d). on_base (base_write (w_page_size w) p d)) (image_pairs w) (w, base) = (Inl e, w1, base')"
      "r = Inl e" "w' = w1\<lparr>w_checkpoint_error := Some e\<rparr>"
  | (syncing) e w1 base1 io2 where
      "each_s (\<lambda>(p, d). on_base (base_write (w_page_size w) p d)) (image_pairs w) (w, base) = (Inr (), w1, base1)"
      "base' = base1" "r = Inl e" "w' = w1\<lparr>w_io := io2, w_checkpoint_error := Some e\<rparr>"
  | (resetting) r3 w1 base1 io2 w3 h where
      "each_s (\<lambda>(p, d). on_base (base_write (w_page_size w) p d)) (image_pairs w) (w, base) = (Inr (), w1, base1)"
      "base' = base1" "h = (w_header w1)\<lparr>wh_checkpoint_seq := wh_checkpoint_seq (w_header w1) + 1\<rparr>"
      "wal_reset (w1\<lparr>w_io := io2, w_header := h\<lparr>wh_header_crc32 := wh_calculate_crc crc h\<rparr>\<rparr>) = (r3, w3)"
      "case r3 of Inl e \<Rightarrow> r = Inl e \<and> w' = w3\<lparr>w_checkpoint_error := Some e\<rparr>
       | Inr _ \<Rightarrow> r = Inr (length (sorted_page_ids w)) \<and>
           w' = w3\<lparr>w_index := (\<lambda>_. None), w_frames := [], w_checkpoint_error := None\<rparr>"
proof -
  define cp where "cp = each_s (\<lambda>(p, d). on_base (base_write (w_page_size w) p d)) (image_pairs w)"
  have guard: "(w_frames w \<noteq> [] \<and> wf_db_size (fr_header (last (w_frames w))) = 0) = False"
    using assms(3) by auto
  show thesis
  proof (cases "sorted_page_ids w = []")
    case True
    have "checkpoint_inner crc (w, base) = (Inr 0, w, base)"
      unfolding checkpoint_inner_def prod.case guard if_False True by simp
    then show thesis using run assms(1) empty [OF True] by (simp add: wal_checkpoint_def)
  next
    case False
    have nz: "(length (sorted_page_ids w) = 0) = False" using False by simp
    have inner: "checkpoint_inner crc (w, base) =
        bind_s cp (\<lambda>_.
         bind_s (on_base base_sync) (\<lambda>_.
         bind_s (on_wal (bump_checkpoint_seq crc)) (\<lambda>_.
         bind_s (on_wal wal_reset) (\<lambda>_.
         bind_s (on_wal (put_s (\<lambda>w. w\<lparr>w_index := (\<lambda>_. None), w_frames := []\<rparr>))) (\<lambda>_.
         ret_s (length (sorted_page_ids w))))))) (w, base)"
      unfolding checkpoint_inner_def prod.case guard if_False Let_def nz copy_pages_eq [OF assms(2)] cp_def ..
    obtain r0 w0 b0 where i0: "checkpoint_inner crc (w, base) = (r0, w0, b0)" by (metis prod.exhaust)
    have out: "r = r0" "base' = b0" "w' = w0\<lparr>w_checkpoint_error := (case r0 of Inl e \<Rightarrow> Some e | Inr _ \<Rightarrow> None)\<rparr>"
      using run i0 assms(1) by (auto simp: wal_checkpoint_def)
    obtain r1 w1 base1 where p1: "cp (w, base) = (r1, w1, base1)" by (metis prod.exhaust)
    show thesis
    proof (cases r1)
      case (Inl e)
      then have "checkpoint_inner crc (w, base) = (Inl e, w1, base1)"
        unfolding inner using p1 by (simp add: bind_s_def)
      then show thesis using copying [of e w1] i0 out p1 Inl by (simp add: cp_def)
    next
      case 1: (Inr u)
      obtain r2 w2 base2 where p2: "on_base base_sync (w1, base1) = (r2, w2, base2)" by (metis prod.exhaust)
      obtain io2 where w2: "w2 = w1\<lparr>w_io := io2\<rparr>" "base2 = base1" using on_base_sync [OF p2] by blast
      show thesis
      proof (cases r2)
        case (Inl e)
        then have "checkpoint_inner crc (w, base) = (Inl e, w2, base1)"
          unfolding inner using p1 p2 1 w2 by (simp add: bind_s_def)
        then show thesis using syncing [of w1 base1 e io2] i0 out p1 Inl w2 1 by (simp add: cp_def)
      next
        case 2: (Inr u')
        show thesis
        proof (cases "wh_checkpoint_seq (w_header w2) = - 1")
          case True
          then have "checkpoint_inner crc (w, base) = (Inl Panic, w2, base1)"
            unfolding inner using p1 p2 1 2 w2
            by (simp add: bind_s_def on_wal_def bump_checkpoint_seq_def)
          then show thesis using syncing [of w1 base1 Panic io2] i0 out p1 w2 1 by (simp add: cp_def)
        next
          case False
          have p1': "each_s (\<lambda>(p, d). on_base (base_write (w_page_size w) p d)) (image_pairs w) (w, base) =
              (Inr (), w1, base1)"
            using p1 1 by (simp add: cp_def)
          define h where "h = (w_header w1)\<lparr>wh_checkpoint_seq := wh_checkpoint_seq (w_header w1) + 1\<rparr>"
          define w3 where "w3 = w1\<lparr>w_io := io2, w_header := h\<lparr>wh_header_crc32 := wh_calculate_crc crc h\<rparr>\<rparr>"
          obtain r4 w4 where p4: "wal_reset w3 = (r4, w4)" by (metis prod.exhaust)
          have bump: "bump_checkpoint_seq crc w2 = (Inr (), w3)"
            using False by (simp add: bump_checkpoint_seq_def w3_def h_def w2 Let_def)
          have "checkpoint_inner crc (w, base) = (case r4 of Inl e \<Rightarrow> (Inl e, w4, base1)
              | Inr _ \<Rightarrow> (Inr (length (sorted_page_ids w)), w4\<lparr>w_index := (\<lambda>_. None), w_frames := []\<rparr>, base1))"
            unfolding inner using p1 p2 1 2 w2 bump p4
            by (simp add: bind_s_def on_wal_def split: sum.splits)
          then show thesis
            using resetting [OF p1' _ h_def p4 [unfolded w3_def]] i0 out
            by (cases r4) auto
        qed
      qed
    qed
  qed
qed

definition ck_after :: "crc_fun \<Rightarrow> wal \<Rightarrow> wal \<Rightarrow> bool" where
  "ck_after crc w w' \<longleftrightarrow>
     (\<exists>hdr k bw'. valid_wal_header crc hdr \<and> wh_page_size hdr = wh_page_size (w_header w) \<and>
        w_writer w' = Some bw' \<and> df_data (bw_file bw') = take k (wal_header_to_bytes hdr))"

lemma bumped_valid:
  "valid_wal_header crc h \<Longrightarrow> g = h\<lparr>wh_checkpoint_seq := s\<rparr> \<Longrightarrow>
   valid_wal_header crc (g\<lparr>wh_header_crc32 := wh_calculate_crc crc g\<rparr>)"
  by (simp add: valid_wal_header_def wh_calculate_crc_def wh_prefix_def)

lemma checkpoint_states:
  assumes inv: "wal_inv crc w" and nf: "\<not> w_io_failed w"
    and bw: "w_writer w = Some bw" "bw_buf bw = []"
    and com: "committed_count (w_frames w) = length (w_frames w)"
    and f: "bs_file base = Some f" and n: "0 < w_page_size w"
    and run: "wal_checkpoint crc (w, base) = (r, w', base')"
  shows "(ck_before w base w' base' \<or> ck_copied w base base' \<and> ck_after crc w w') \<and>
    (case r of
       Inl _ \<Rightarrow> w_frames w' = w_frames w \<and> w_index w' = w_index w \<and> w_page_size w' = w_page_size w \<and>
         (ck_before w base w' base' \<or> ck_copied w base base')
     | Inr k \<Rightarrow> k = card (frame_page ` set (w_frames w)) \<and> w_frames w' = [] \<and> wal_inv crc w' \<and>
         \<not> w_io_failed w' \<and> w_page_size w' = w_page_size w \<and> ck_copied w base base')"
proof -
  have mem: "wal_mem_ok crc w" using inv by (simp add: wal_inv_def)
  then have idx: "w_index w = index_of (w_frames w)" and v: "valid_wal_header crc (w_header w)"
    and ps: "w_page_size w = unat (wh_page_size (w_header w))"
    by (simp_all add: wal_mem_ok_def)
  have e: "bw_at_end bw" using inv bw by (simp add: wal_inv_def)
  have cd: "length (sorted_page_ids w) = card (frame_page ` set (w_frames w))"
    using sorted_page_ids_set [OF idx] by (metis distinct_card dom_latest)
  have guard: "w_frames w = [] \<or> wf_db_size (fr_header (last (w_frames w))) \<noteq> 0"
  proof (cases "w_frames w" rule: rev_cases)
    case (snoc fs g)
    then show ?thesis using com committed_count_le [of fs] by (auto split: if_splits)
  qed simp
  show ?thesis
    using nf idx guard run
  proof (cases rule: checkpoint_phases)
    case empty
    have none: "latest (w_frames w) = (\<lambda>_. None)" "w_frames w = []"
      using empty(1) sorted_page_ids_set(1) [OF idx] by (auto simp: dom_latest)
    have "wal_inv crc w'"
      using inv nf bw by (auto simp: empty(4) wal_inv_def wal_mem_ok_def wal_image_def)
    moreover have "ck_before w base w' base'" "ck_copied w base base'"
      using f none by (simp_all add: ck_before_def ck_copied_def empty)
    ultimately show ?thesis using empty cd none nf by simp
  next
    case (copying er w1)
    have c: "ck_before w base w1 base'" "\<exists>io'. w1 = w\<lparr>w_io := io'\<rparr>"
      using copy_phase [OF mem n f copying(1)] by simp_all
    then have "ck_before w base w' base'" by (auto simp: copying(3) ck_before_def)
    then show ?thesis using c(2) copying by auto
  next
    case (syncing er w1 base1 io2)
    have c: "ck_before w base w1 base1" "\<exists>io'. w1 = w\<lparr>w_io := io'\<rparr>"
      using copy_phase [OF mem n f syncing(1)] by simp_all
    then have "ck_before w base w' base'" by (auto simp: syncing ck_before_def)
    then show ?thesis using c(2) syncing by auto
  next
    case (resetting r3 w1 base1 io2 w3 h)
    obtain io1 where w1: "w1 = w\<lparr>w_io := io1\<rparr>" and cop: "ck_copied w base base1" and bef: "ck_before w base w1 base1"
      using copy_phase [OF mem n f resetting(1)] by auto
    define hdr where "hdr = h\<lparr>wh_header_crc32 := wh_calculate_crc crc h\<rparr>"
    have hv: "valid_wal_header crc hdr" "wh_page_size hdr = wh_page_size (w_header w)"
      unfolding hdr_def using bumped_valid [OF v] by (simp_all add: resetting(3) w1)
    define w2 where "w2 = w1\<lparr>w_io := io2, w_header := hdr\<rparr>"
    have "w_writer w2 = Some bw" "w_header w2 = hdr" using bw by (simp_all add: w2_def w1)
    from wal_reset_writer [OF this(1)] resetting(4)
    obtain io3 bw3 where rs: "reset_steps (wal_header_to_bytes hdr) (w_io w2, bw) = (r3, io3, bw3)"
      "w3 = w2\<lparr>w_io := io3, w_writer := Some bw3, w_io_failed := (w_io_failed w2 \<or> r3 \<noteq> Inr ())\<rparr>"
      unfolding w2_def hdr_def by fastforce
    note cases = reset_steps_cases [OF rs(1) e bw(2)]
    have w3: "w_frames w3 = w_frames w" "w_index w3 = w_index w" "w_page_size w3 = w_page_size w"
      "w_writer w3 = Some bw3" "w_header w3 = hdr" "w_io_failed w3 = (r3 \<noteq> Inr ())"
      using nf by (simp_all add: rs(2) w2_def w1)
    have w'w: "w_writer w' = Some bw3" using resetting(5) w3 by (auto split: sum.splits)
    have disj: "ck_before w base w' base' \<or> ck_copied w base base' \<and> ck_after crc w w'"
      using cases(2)
    proof
      assume a: "r3 \<noteq> Inr () \<and> df_data (bw_file bw3) = df_data (bw_file bw)"
      then obtain er where "r3 = Inl er" by (cases r3) auto
      then have "ck_before w base w' base'"
        using bef resetting(2,5) w3 a bw by (auto simp: ck_before_def w1)
      then show ?thesis ..
    next
      assume "\<exists>k. df_data (bw_file bw3) = take k (wal_header_to_bytes hdr) \<and>
        (r3 = Inr () \<longrightarrow> take k (wal_header_to_bytes hdr) = wal_header_to_bytes hdr \<and> bw_at_end bw3)"
      then show ?thesis using cop hv w'w resetting(2) unfolding ck_after_def by blast
    qed
    show ?thesis
    proof (cases r3)
      case (Inl er)
      then show ?thesis using disj resetting(2,5) w3 cop by simp
    next
      case (Inr u)
      have full: "df_data (bw_file bw3) = wal_header_to_bytes hdr" "bw_at_end bw3"
        using cases(2) Inr by auto
      have w': "w' = w3\<lparr>w_index := (\<lambda>_. None), w_frames := [], w_checkpoint_error := None\<rparr>"
        "r = Inr (length (sorted_page_ids w))"
        using resetting(5) Inr by simp_all
      have "wal_inv crc w'"
        using hv full cases(1) ps w3 Inr
        by (simp add: w' wal_inv_def wal_mem_ok_def wal_image_def bw_bytes_def)
      then show ?thesis using disj w' w3 cop resetting(2) cd Inr by simp
    qed
  qed
qed

lemma wal_open_short:
  assumes "length d \<le> WAL_HEADER_SIZE" "d = take k (wal_header_to_bytes hdr)"
    and v: "valid_wal_header crc hdr" and ps: "wh_page_size hdr = ps"
  shows "\<exists>h. wal_open crc (Some d) ps = Inr (opened h []) \<and> wh_page_size h = ps"
proof -
  have l: "length (wal_header_to_bytes g) = WAL_HEADER_SIZE" if "valid_wal_header crc g" for g
    using that by (simp add: valid_wal_header_def length_wal_header_to_bytes)
  show ?thesis
  proof (cases "length d < WAL_HEADER_SIZE")
    case False
    then have "d = wal_header_to_bytes hdr @ []" using assms(1,2) l [OF v] by simp
    then show ?thesis
      using wal_open_body [OF v ps, of "[]"] ps by (auto simp: scan_frames_short frame_size_pos)
  next
    case True
    define g where "g = wal_header_new crc ps"
    have g: "valid_wal_header crc g" "wh_page_size g = ps"
    proof -
      show "valid_wal_header crc g"
        unfolding g_def using v ps by (intro valid_wal_header_new) (auto simp: valid_wal_header_def)
      show "wh_page_size g = ps" by (simp add: g_def wal_header_new_def Let_def)
    qed
    have "write_at 0 (wal_header_to_bytes g) d = wal_header_to_bytes g"
      using True l [OF g(1)] by (simp add: write_at_def)
    then have "wal_open crc (Some d) ps = wal_open crc (Some (wal_header_to_bytes g)) ps"
      using True l [OF g(1)] wal_header_roundtrip_rest [OF g(1), of "[]"]
      by (simp add: wal_open_def g_def Let_def)
    then show ?thesis
      using wal_open_body [OF g, of "[]"] g by (auto simp: scan_frames_short frame_size_pos)
  qed
qed

lemma index_of_None_iff: "index_of fs p = None \<longleftrightarrow> latest fs p = None"
  by (metis dom_index_of dom_latest domIff)

lemma ck_copied_logical:
  assumes "ck_copied w base base'" "w_index w = index_of (w_frames w)" "page_exists w base p"
  shows "page_at (w_page_size w) p (base_data base') = logical_page w base p"
    "has_slot (w_page_size w) p (base_data base')"
proof -
  note rd = wal_read_page_latest [OF assms(2)]
  have ex: "latest (w_frames w) p \<noteq> None \<or> has_slot (w_page_size w) p (base_data base)"
    using assms(2,3) by (simp add: page_exists_def has_page_def index_of_None_iff)
  show "page_at (w_page_size w) p (base_data base') = logical_page w base p"
    "has_slot (w_page_size w) p (base_data base')"
    using assms(1) ex
    by (auto simp: ck_copied_def logical_page_def rd base_data_def split: option.splits)
qed

lemma ck_before_logical:
  assumes "ck_before w base w' base'" "w_index w = index_of (w_frames w)" "page_exists w base p"
    and "wal_read_page v p = latest (w_frames w) p" "w_page_size v = w_page_size w"
  shows "logical_page v base' p = logical_page w base p"
proof -
  have ex: "latest (w_frames w) p \<noteq> None \<or> has_slot (w_page_size w) p (base_data base)"
    using assms(2,3) by (simp add: page_exists_def has_page_def index_of_None_iff)
  show ?thesis
    using assms(1,4,5) ex
    by (auto simp: ck_before_def logical_page_def wal_read_page_latest [OF assms(2)] base_data_def
        split: option.splits)
qed

section \<open>Properties\<close>

text \<open>C12: A checkpoint loses nothing, whatever fault is injected into it. Start from a consistent
  log without an uncommitted tail and any base file. Whether the checkpoint returns Ok or
  an error, every page keeps its logical content for the running process, and also for a
  process that starts from what is in the two files at that moment (the log file reopened,
  whatever the reset left of it).\<close>

theorem checkpoint_loses_nothing:
  assumes "wal_inv crc w" "\<not> w_io_failed w" "w_writer w = Some bw" "bw_buf bw = []"
    and "committed_count (w_frames w) = length (w_frames w)"
    and "bs_file base = Some f" "wal_checkpoint crc (w, base) = (r, w', base')"
    and "page_exists w base p"
  shows "logical_page w' base' p = logical_page w base p \<and>
    (\<exists>bw' w2. w_writer w' = Some bw' \<and>
       wal_open crc (Some (df_data (bw_file bw'))) (wh_page_size (w_header w)) = Inr w2 \<and>
       logical_page w2 base' p = logical_page w base p)"
proof -
  have mem: "wal_mem_ok crc w" using assms(1) by (simp add: wal_inv_def)
  then have idx: "w_index w = index_of (w_frames w)" and v: "valid_wal_header crc (w_header w)"
    and ps: "w_page_size w = unat (wh_page_size (w_header w))"
    and good: "list_all (good_frame crc (w_header w) (w_page_size w)) (w_frames w)"
    by (auto simp: wal_mem_ok_def)
  have n: "0 < w_page_size w"
  proof -
    have "512 \<le> wh_page_size (w_header w)" using v by (simp add: valid_wal_header_def)
    then show ?thesis by (simp add: ps word_le_nat_alt)
  qed
  have st: "(ck_before w base w' base' \<or> ck_copied w base base' \<and> ck_after crc w w') \<and>
    (case r of
       Inl _ \<Rightarrow> w_frames w' = w_frames w \<and> w_index w' = w_index w \<and> w_page_size w' = w_page_size w \<and>
         (ck_before w base w' base' \<or> ck_copied w base base')
     | Inr k \<Rightarrow> k = card (frame_page ` set (w_frames w)) \<and> w_frames w' = [] \<and> wal_inv crc w' \<and>
         \<not> w_io_failed w' \<and> w_page_size w' = w_page_size w \<and> ck_copied w base base')"
    by (rule checkpoint_states [OF assms(1-6) n assms(7)])
  have copied_rd: "logical_page u base' p = logical_page w base p"
    if "ck_copied w base base'" "wal_read_page u p = None \<or> wal_read_page u p = latest (w_frames w) p"
      "w_page_size u = w_page_size w" for u
    using that ck_copied_logical [OF that(1) idx assms(8)]
    by (auto simp: logical_page_def wal_read_page_latest [OF idx] split: option.splits)
  have "logical_page w' base' p = logical_page w base p"
  proof (cases r)
    case (Inl e)
    then have s: "w_page_size w' = w_page_size w" "ck_before w base w' base' \<or> ck_copied w base base'"
      and rd: "wal_read_page w' p = latest (w_frames w) p"
      using st idx by (simp_all add: wal_read_page_latest)
    from s(2) show ?thesis
      using ck_before_logical [OF _ idx assms(8) rd s(1)] copied_rd rd s(1) by blast
  next
    case (Inr k)
    have "wal_read_page w' p = None" using st Inr by (simp add: wal_read_page_latest wal_inv_def wal_mem_ok_def)
    then show ?thesis using copied_rd [of w'] st Inr by simp
  qed
  moreover have "\<exists>bw' w2. w_writer w' = Some bw' \<and>
       wal_open crc (Some (df_data (bw_file bw'))) (wh_page_size (w_header w)) = Inr w2 \<and>
       logical_page w2 base' p = logical_page w base p"
    using st [THEN conjunct1]
  proof
    assume b: "ck_before w base w' base'"
    then obtain bw' where bw': "w_writer w' = Some bw'" "df_data (bw_file bw') = df_data (bw_file bw)"
      using assms(3) by (cases "w_writer w'") (auto simp: ck_before_def)
    have d: "df_data (bw_file bw) = wal_header_to_bytes (w_header w) @ enc_frames (w_frames w)"
      using assms(1-4) by (simp add: wal_inv_def bw_bytes_def wal_image_def)
    have "scan_frames crc (w_header w) (unat (wh_page_size (w_header w))) (enc_frames (w_frames w)) = w_frames w"
      using scan_frames_append [OF good, of "[]"] by (simp add: scan_frames_short frame_size_pos ps)
    then have "wal_open crc (Some (df_data (bw_file bw'))) (wh_page_size (w_header w)) =
        Inr (opened (w_header w) (w_frames w))"
      using wal_open_body [OF v refl, of "enc_frames (w_frames w)"] by (simp add: bw' d)
    moreover have "logical_page (opened (w_header w) (w_frames w)) base' p = logical_page w base p"
      using assms(5) ps
      by (intro ck_before_logical [OF b idx assms(8)])
         (simp_all add: wal_read_page_latest opened_fields committed_frames_def)
    ultimately show ?thesis using bw'(1) by blast
  next
    assume a: "ck_copied w base base' \<and> ck_after crc w w'"
    then obtain hdr k bw' where k: "valid_wal_header crc hdr" "wh_page_size hdr = wh_page_size (w_header w)"
      "w_writer w' = Some bw'" "df_data (bw_file bw') = take k (wal_header_to_bytes hdr)"
      by (auto simp: ck_after_def)
    have "length (take k (wal_header_to_bytes hdr)) \<le> WAL_HEADER_SIZE"
      using k(1) by (simp add: length_wal_header_to_bytes valid_wal_header_def)
    then obtain h where h: "wal_open crc (Some (df_data (bw_file bw'))) (wh_page_size (w_header w)) = Inr (opened h [])"
      "wh_page_size h = wh_page_size (w_header w)"
      using wal_open_short [OF _ refl k(1,2), of k] by (auto simp: k(4))
    moreover have "logical_page (opened h []) base' p = logical_page w base p"
      using copied_rd [of "opened h []"] a h(2) ps
      by (simp add: wal_read_page_latest opened_fields committed_frames_def)
    ultimately show ?thesis using k(3) by blast
  qed
  ultimately show ?thesis by blast
qed

text \<open>A checkpoint that returns Ok has moved everything: it reports the number of distinct
  pages in the log, every page's slot of the base file holds its logical content, and the
  log is empty, consistent with its file and ready for appends.\<close>

theorem checkpoint_complete:
  assumes "wal_inv crc w" "\<not> w_io_failed w" "w_writer w = Some bw" "bw_buf bw = []"
    and "committed_count (w_frames w) = length (w_frames w)"
    and "bs_file base = Some f" "wal_checkpoint crc (w, base) = (Inr k, w', base')"
  shows "k = card (frame_page ` set (w_frames w)) \<and> frame_count w' = 0 \<and> wal_inv crc w' \<and>
    \<not> requires_reopen w' \<and>
    (\<forall>p. page_exists w base p \<longrightarrow> has_slot (w_page_size w) p (base_data base') \<and>
       page_at (w_page_size w) p (base_data base') = logical_page w base p)"
proof -
  have mem: "wal_mem_ok crc w" using assms(1) by (simp add: wal_inv_def)
  then have idx: "w_index w = index_of (w_frames w)"
    by (auto simp: wal_mem_ok_def)
  have "512 \<le> wh_page_size (w_header w)" "w_page_size w = unat (wh_page_size (w_header w))"
    using mem by (simp_all add: wal_mem_ok_def valid_wal_header_def)
  then have n: "0 < w_page_size w" by (simp add: word_le_nat_alt)
  show ?thesis
    using checkpoint_states [OF assms(1-6) n assms(7)] ck_copied_logical [OF _ idx]
    by (auto simp: frame_count_def requires_reopen_def)
qed

text \<open>Recovery copies the committed log into the base file: after a \<^verbatim>\<open>recover\<close> that
  returns Ok, every page of the committed frames has its latest committed image in its slot,
  all other slots are unchanged, and the log keeps its committed frames (so running it again
  gives the same base).\<close>

theorem wal_recover_applies:
  assumes "wal_inv crc w" "0 < w_page_size w" "bs_file base = Some f"
    and "wal_recover (w, base) = (Inr k, w', base')"
  shows "k = committed_count (w_frames w) \<and> w_frames w' = committed_frames (w_frames w) \<and>
    (\<forall>p d. latest (committed_frames (w_frames w)) p = Some d \<longrightarrow>
       page_at (w_page_size w) p (base_data base') = d) \<and>
    (\<forall>p. latest (committed_frames (w_frames w)) p = None \<longrightarrow> has_slot (w_page_size w) p (base_data base) \<longrightarrow>
       page_at (w_page_size w) p (base_data base') = page_at (w_page_size w) p (base_data base))"
proof -
  define cs where "cs = committed_frames (w_frames w)"
  have good: "list_all (good_frame crc (w_header w) (w_page_size w)) (w_frames w)"
    using assms(1) by (auto simp: wal_inv_def wal_mem_ok_def)
  obtain w1 where w1: "discard_uncommitted_tail w = (Inr (), w1)"
    and rest: "(if w_frames w1 = [] then (Inr 0, w1, base)
       else if committed_count (w_frames w1) = 0
       then (Inr 0, w1\<lparr>w_index := (\<lambda>_. None), w_frames := []\<rparr>, base)
       else let fs = take (committed_count (w_frames w1)) (w_frames w1) in
         bind_s (each_s (\<lambda>f. on_base (base_write (w_page_size w1) (wf_page_id (fr_header f)) (fr_data f))) fs) (\<lambda>_.
         bind_s (on_base base_sync) (\<lambda>_. ret_s (length fs))) (w1, base)) = (Inr k, w', base')"
    using assms(4) unfolding wal_recover_def
    by (auto simp: bind_s_Inr_iff on_wal_def split: prod.splits)
  note rf = rollback_fields [OF w1 [unfolded discard_uncommitted_tail_def]]
  have fr: "w_frames w1 = cs" "w_page_size w1 = w_page_size w" using rf by (simp_all add: cs_def committed_frames_def)
  have cc: "committed_count cs = length cs" "length cs = committed_count (w_frames w)"
    unfolding cs_def using committed_frames_idem committed_count_le [of "w_frames w"]
    by (simp_all add: committed_frames_def)
  show ?thesis
  proof (cases "cs = []")
    case True
    then have "k = 0" "w' = w1" "base' = base" using rest fr by auto
    then show ?thesis using True cc fr by (simp add: cs_def [symmetric])
  next
    case False
    define pairs where "pairs = map (\<lambda>f. (frame_page f, fr_data f)) cs"
    have eq: "each_s (\<lambda>f. on_base (base_write (w_page_size w1) (wf_page_id (fr_header f)) (fr_data f))) cs =
        each_s (\<lambda>(p, d). on_base (base_write (w_page_size w) p d)) pairs"
      unfolding pairs_def by (rule each_s_map) (simp add: frame_page_def fr)
    have "bind_s (each_s (\<lambda>(p, d). on_base (base_write (w_page_size w) p d)) pairs) (\<lambda>_.
         bind_s (on_base base_sync) (\<lambda>_. ret_s (length cs))) (w1, base) = (Inr k, w', base')"
      using rest False cc(1) by (simp add: fr(1) eq Let_def)
    then obtain w2 base2 where copy: "each_s (\<lambda>(p, d). on_base (base_write (w_page_size w) p d)) pairs (w1, base) = (Inr (), w2, base2)"
      and sync: "on_base base_sync (w2, base2) = (Inr (), w', base')" and k: "k = length cs"
      by (auto simp: bind_s_Inr_iff)
    have ok: "\<forall>(p, d) \<in> set pairs. p \<noteq> 0 \<and> length d = w_page_size w"
      using good by (auto simp: pairs_def cs_def committed_frames_def list_all_iff good_frame_def
          frame_bad_def frame_page_def dest!: in_set_takeD)
    have m: "map_of (rev pairs) = latest cs" by (simp add: pairs_def latest_def rev_map)
    have keys: "fst ` set pairs = dom (latest cs)" by (simp add: pairs_def dom_latest image_image)
    obtain f' io' where r: "bs_file base2 = Some f'" "w2 = w1\<lparr>w_io := io'\<rparr>"
      "\<And>q. has_slot (w_page_size w) q (df_data f) \<Longrightarrow> q \<notin> fst ` set pairs \<Longrightarrow>
          page_at (w_page_size w) q (df_data f') = page_at (w_page_size w) q (df_data f)"
      "\<And>p d. map_of (rev pairs) p = Some d \<Longrightarrow> page_at (w_page_size w) p (df_data f') = d"
      using each_base_write [OF assms(3,2) ok copy] by blast
    have b: "base' = base2" "w_frames w' = cs" using on_base_sync [OF sync] r(2) fr(1) by auto
    show ?thesis
      using r(3) [unfolded keys domIff] r(4) [unfolded m] k cc b r(1) assms(3)
      by (auto simp: cs_def [symmetric] base_data_def)
  qed
qed

text \<open>C36: The I/O-failure latch can be cleared wrongly. If the reset of the log after a
  checkpoint fails once at writing the new header, the file is already empty; a later
  rollback (which keeps all frames in memory) stretches it to the old length with zero bytes
  and clears the latch. The next commit returns Ok, but the file no longer opens: its header
  is zero, so the acknowledged commit is lost.\<close>

theorem rollback_after_failed_reset:
  assumes "wal_inv crc w" "\<not> w_io_failed w" "w_writer w = Some bw" "bw_buf bw = []"
    and "w_io w = Some \<lparr>fp_point = WalReset, fp_after = 0, fp_failure = DiskFull, fp_persistent = False\<rparr>"
    and "length (w_frames w) \<le> n" "length data = w_page_size w" "w_commit_seq w \<noteq> - 1"
  shows "\<exists>w1 w2 w3 bw3. wal_reset w = (Inl injected_error, w1) \<and> requires_reopen w1 \<and>
    wal_rollback_to n w1 = (Inr (), w2) \<and> \<not> requires_reopen w2 \<and> w_frames w2 = w_frames w \<and>
    wal_write_frame crc p data True db w2 = (Inr (), w3) \<and> w_writer w3 = Some bw3 \<and>
    wal_open crc (Some (df_data (bw_file bw3))) ps = Inl InvalidMagic"
proof -
  define tr where "tr = on_file (file_seek 0 \<circ> file_set_len 0) bw"
  define w1 where "w1 = w\<lparr>w_io := None, w_writer := Some tr, w_io_failed := True\<rparr>"
  define off where "off = WAL_HEADER_SIZE + length (w_frames w) * (WAL_FRAME_HEADER_SIZE + w_page_size w)"
  have tr: "df_data (bw_file tr) = []" "bw_buf tr = []"
    using assms(4) by (simp_all add: tr_def on_file_def file_set_len_def file_seek_def)
  have fl: "bw_flush bw = bw" "bw_flush tr = tr"
    using assms(4) tr by (simp_all add: bw_flush_def file_write_def)
  have "reset_steps (wal_header_to_bytes (w_header w)) (w_io w, bw) = (Inl injected_error, None, tr)"
    using fl(1) by (simp add: assms(5) reset_steps_def bind_s_def bw_before_def bw_do_def io_before_def
        io_next_def file_io_write_def io_write_def tr_def)
  moreover obtain r0 w0 where r0: "wal_reset w = (r0, w0)" by (metis prod.exhaust)
  ultimately have reset: "wal_reset w = (Inl injected_error, w1)"
    using wal_reset_writer [OF assms(3) r0] assms(2) by (auto simp: w1_def)
  define bw2 where "bw2 = on_file file_seek_end (on_file (file_set_len off) tr)"
  have d2: "df_data (bw_file bw2) = replicate off 0" "bw_buf bw2 = []" "bw_at_end bw2"
    using tr by (simp_all add: bw2_def on_file_def file_set_len_def file_seek_end_def bw_at_end_def)
  have mn: "min n (length (w_frames w)) = length (w_frames w)" using assms(6) by simp
  obtain w2 where w2: "wal_rollback_to n w1 = (Inr (), w2)"
  proof -
    have "w_io w1 = None" by (simp add: w1_def)
    from rollback_no_fault_writer [OF this] that show thesis by blast
  qed
  obtain io' bw' where rb: "rolled_writer n w1 tr bw'" "w_writer w2 = Some bw'" "w_io_failed w2 = False"
    using rollback_writer [OF w2, of tr] by (auto simp: w1_def)
  have bw': "bw' = bw2"
    using rb(1) mn fl(2) by (simp add: rolled_writer_def w1_def off_def [symmetric] bw2_def Let_def)
  note rf = rollback_fields [OF w2]
  have w2s: "w_frames w2 = w_frames w" "w_page_size w2 = w_page_size w" "w_commit_seq w2 = w_commit_seq w"
    using rf assms(6) by (simp_all add: w1_def)
  have io2: "w_io w2 = None"
    using rollback_no_fault(2) [of w1 n] w2 by (simp add: w1_def)
  have nf: "\<not> w_io_failed w2" using rb(3) by simp
  obtain w3 where w3: "wal_write_frame crc p data True db w2 = (Inr (), w3)"
    using write_frame_no_fault(1) [OF io2 nf, of data crc p True db] assms(7,8) w2s that
    by (cases "wal_write_frame crc p data True db w2") auto
  from w3 obtain bw3 x where bw3: "w_writer w3 = Some bw3" "bw_bytes bw3 = replicate off 0 @ x"
    using rb(2) bw' d2 by (cases rule: write_frame_cases) (auto simp: bw_bytes_def)
  have "df_data (bw_file bw3) = replicate off 0 @ x"
    using commit_flushed [OF w3 bw3(1)] bw3(2) by (simp add: bw_bytes_def)
  moreover have o32: "off = 8 + (off - 8)" "32 \<le> off" by (simp_all add: off_def WAL_HEADER_SIZE_def)
  moreover have "replicate off (0::u8) = replicate 8 0 @ replicate (off - 8) 0"
    by (subst o32(1)) (rule replicate_add)
  then have "take 8 (replicate off (0::u8) @ x) = replicate 8 0" by simp
  ultimately have d: "length (df_data (bw_file bw3)) \<ge> WAL_HEADER_SIZE"
    "take 8 (take WAL_HEADER_SIZE (df_data (bw_file bw3))) = replicate 8 0"
    by (simp_all add: WAL_HEADER_SIZE_def)
  have "replicate 8 0 \<noteq> WAL_MAGIC" by code_simp
  then have "wal_header_from_bytes crc (take WAL_HEADER_SIZE (df_data (bw_file bw3))) = Inl InvalidMagic"
    using d by (simp add: wal_header_from_bytes_def del: take_take)
  then have "wal_open crc (Some (df_data (bw_file bw3))) ps = Inl InvalidMagic"
    using d(1) by (simp add: wal_open_def)
  then show ?thesis
    using reset w2 w3 bw3(1) nf w2s(1) by (auto simp: requires_reopen_def w1_def)
qed

section \<open>Witnesses\<close>

definition ex_wal :: wal where "ex_wal = opened ex_hdr [ex_frame 1 1]"

definition ex_base :: base_store where
  "ex_base = \<lparr>bs_file = Some \<lparr>df_data = replicate 512 0, df_pos = 0\<rparr>, bs_memory = (\<lambda>_. None)\<rparr>"

definition ex_bw :: buf_writer where
  "ex_bw = (let d = wal_header_to_bytes ex_hdr @ enc_frames [ex_frame 1 1] in
     \<lparr>bw_file = \<lparr>df_data = d, df_pos = length d\<rparr>, bw_buf = []\<rparr>)"

lemma ex_committed: "committed_frames [ex_frame 1 1] = [ex_frame 1 1]"
  by (simp add: committed_frames_def committed_count_def ex_frame_def)

lemma ex_wal_inv: "wal_inv ex_crc ex_wal"
  unfolding ex_wal_def using ex_frame_good [of 1 1]
  by (intro opened_inv [OF ex_hdr_valid(1)]) (simp add: ex_hdr_valid(2))

lemma ex_wal_fields:
  "w_frames ex_wal = [ex_frame 1 1]" "w_header ex_wal = ex_hdr" "w_index ex_wal = index_of [ex_frame 1 1]"
  "\<not> w_io_failed ex_wal" "w_page_size ex_wal = 512" "w_io ex_wal = None" "w_writer ex_wal = Some ex_bw"
  "w_commit_seq ex_wal = 1"
  by (simp_all add: ex_wal_def opened_fields ex_committed ex_hdr_valid)
     (simp_all add: opened_def ex_committed ex_bw_def Let_def add_frame_def wal_empty_def,
      simp add: ex_frame_def)

lemma ex_wal_index: "index_of [ex_frame 1 1] = [1 \<mapsto> 0]"
  using index_of_snoc [of "[]" "ex_frame 1 1"] by (simp add: frame_page_def ex_frame_def)

lemma ex_wal_committed: "committed_count (w_frames ex_wal) = length (w_frames ex_wal)"
  by (simp add: ex_wal_fields committed_count_def ex_frame_def)

lemma ex_bw_buf: "bw_buf ex_bw = []"
  by (simp add: ex_bw_def Let_def)

lemma ex_checkpoint_ok: "\<exists>k. fst (wal_checkpoint ex_crc (ex_wal, ex_base)) = Inr k"
proof -
  have ids: "sorted_page_ids ex_wal = [1]"
    by (simp add: sorted_page_ids_def ex_wal_fields ex_wal_index)
  have seq: "wh_checkpoint_seq ex_hdr = 1" by (simp add: ex_hdr_def wal_header_new_def Let_def)
  have data: "length (fr_data (ex_frame 1 1)) = 512" by (simp add: ex_frame_def)
  have db: "wf_db_size (fr_header (ex_frame 1 1)) = 1" by (simp add: ex_frame_def)
  show ?thesis
    by (simp add: wal_checkpoint_def checkpoint_inner_def ids ex_wal_fields db bind_s_def
        wal_read_page_def ex_wal_index on_base_def base_write_def ex_base_def file_io_write_def
        base_sync_def on_wal_def bump_checkpoint_seq_def seq wal_reset_def or_fail_io_def
        with_writer_def bw_before_def bw_do_def Let_def split: prod.splits)
qed

theorem checkpoint_loses_nothing_witness:
  "let r = wal_checkpoint ex_crc (ex_wal, ex_base); w' = fst (snd r); base' = snd (snd r) in
   logical_page w' base' 1 = logical_page ex_wal ex_base 1 \<and>
    (\<exists>bw' w2. w_writer w' = Some bw' \<and>
       wal_open ex_crc (Some (df_data (bw_file bw'))) (wh_page_size (w_header ex_wal)) = Inr w2 \<and>
       logical_page w2 base' 1 = logical_page ex_wal ex_base 1)"
  unfolding Let_def
  by (rule checkpoint_loses_nothing [where r = "fst (wal_checkpoint ex_crc (ex_wal, ex_base))"
        and f = "\<lparr>df_data = replicate 512 0, df_pos = 0\<rparr>", OF ex_wal_inv ex_wal_fields(4,7) ex_bw_buf ex_wal_committed])
     (simp_all add: ex_base_def page_exists_def has_page_def ex_wal_fields ex_wal_index)

theorem checkpoint_complete_witness:
  "\<exists>k w' base'. wal_checkpoint ex_crc (ex_wal, ex_base) = (Inr k, w', base') \<and>
    k = card (frame_page ` set (w_frames ex_wal)) \<and> frame_count w' = 0 \<and> wal_inv ex_crc w' \<and>
    has_slot 512 1 (base_data base') \<and> page_at 512 1 (base_data base') = logical_page ex_wal ex_base 1"
proof -
  obtain k w' base' where run: "wal_checkpoint ex_crc (ex_wal, ex_base) = (Inr k, w', base')"
    using ex_checkpoint_ok by (metis prod.collapse)
  have f: "bs_file ex_base = Some \<lparr>df_data = replicate 512 0, df_pos = 0\<rparr>" by (simp add: ex_base_def)
  have p: "page_exists ex_wal ex_base 1" by (simp add: page_exists_def has_page_def ex_wal_fields ex_wal_index)
  from checkpoint_complete [OF ex_wal_inv ex_wal_fields(4,7) ex_bw_buf ex_wal_committed f run]
  show ?thesis using run p by (auto simp: ex_wal_fields)
qed

lemma ex_recover_ok: "\<exists>k. fst (wal_recover (ex_wal, ex_base)) = Inr k"
proof -
  have db: "wf_db_size (fr_header (ex_frame 1 1)) = 1" "wf_page_id (fr_header (ex_frame 1 1)) = 1"
    by (simp_all add: ex_frame_def)
  have cc: "committed_count [ex_frame 1 1] = 1" by (simp add: committed_count_def db)
  obtain w1 where w1: "discard_uncommitted_tail ex_wal = (Inr (), w1)"
    using rollback_no_fault_writer [OF ex_wal_fields(6)] by (auto simp: discard_uncommitted_tail_def)
  have f: "w_frames w1 = [ex_frame 1 1]" "w_page_size w1 = 512" "w_io w1 = None"
    using rollback_fields [OF w1 [unfolded discard_uncommitted_tail_def]]
      rollback_no_fault(2) [OF ex_wal_fields(6)] w1
    by (simp_all add: ex_wal_fields cc discard_uncommitted_tail_def) (metis snd_conv)
  show ?thesis
    by (simp add: wal_recover_def bind_s_def on_wal_def w1 f cc on_base_def base_write_def ex_base_def
        file_io_write_def base_sync_def db split: prod.splits)
qed

theorem wal_recover_applies_witness:
  "\<exists>k w' base'. wal_recover (ex_wal, ex_base) = (Inr k, w', base') \<and>
    k = committed_count (w_frames ex_wal) \<and>
    page_at 512 1 (base_data base') = replicate 512 7"
proof -
  obtain k w' base' where run: "wal_recover (ex_wal, ex_base) = (Inr k, w', base')"
    using ex_recover_ok by (metis prod.collapse)
  have f: "bs_file ex_base = Some \<lparr>df_data = replicate 512 0, df_pos = 0\<rparr>" by (simp add: ex_base_def)
  have l: "latest (committed_frames (w_frames ex_wal)) 1 = Some (replicate 512 7)"
    using latest_simps(2) [of "[]" "ex_frame 1 1"]
    by (simp add: ex_wal_fields ex_committed frame_page_def) (simp add: ex_frame_def)
  from wal_recover_applies [OF ex_wal_inv _ f run] l
  show ?thesis using run by (auto simp: ex_wal_fields)
qed

theorem rollback_after_failed_reset_witness:
  "let plan = \<lparr>fp_point = WalReset, fp_after = 0, fp_failure = DiskFull, fp_persistent = False\<rparr>;
       w = ex_wal\<lparr>w_io := Some plan\<rparr> in
   \<exists>w1 w2 w3 bw3. wal_reset w = (Inl injected_error, w1) \<and> requires_reopen w1 \<and>
    wal_rollback_to 1 w1 = (Inr (), w2) \<and> \<not> requires_reopen w2 \<and> w_frames w2 = w_frames w \<and>
    wal_write_frame ex_crc 1 (replicate 512 9) True 1 w2 = (Inr (), w3) \<and> w_writer w3 = Some bw3 \<and>
    wal_open ex_crc (Some (df_data (bw_file bw3))) 512 = Inl InvalidMagic"
proof -
  define plan where "plan = \<lparr>fp_point = WalReset, fp_after = 0, fp_failure = DiskFull, fp_persistent = False\<rparr>"
  have "wal_inv ex_crc (ex_wal\<lparr>w_io := Some plan\<rparr>)"
    using ex_wal_inv by (simp add: wal_inv_def wal_mem_ok_def wal_image_def ex_wal_fields)
  then show ?thesis
    unfolding Let_def plan_def
    by (rule rollback_after_failed_reset [where bw = ex_bw]) (simp_all add: ex_wal_fields ex_bw_buf)
qed

end
