(* ===== verification/Codec_Contract.thy ===== *)
theory Codec_Contract
  imports Prelude
begin

text \<open>
  The contract every binary encoding of the storage engine keeps: a decoder, given the
  encoding of a valid value followed by anything, returns the value and the number of
  bytes of the encoding. What clients need of an encoding (no two valid values share an
  encoding, no encoding is a proper prefix of another, a run of encodings is read back
  item by item) is proved once here and obtained by interpretation.
\<close>

fun decode_many :: "(bytes \<Rightarrow> ('a \<times> nat) result) \<Rightarrow> nat \<Rightarrow> bytes \<Rightarrow> ('a list \<times> nat) result" where
  "decode_many dec 0 bs = Inr ([], 0)"
| "decode_many dec (Suc k) bs =
     bind_r (dec bs) (\<lambda>(x, n).
     bind_r (decode_many dec k (drop n bs)) (\<lambda>(xs, m). Inr (x # xs, n + m)))"

locale prefix_codec =
  fixes enc :: "'a \<Rightarrow> bytes"
    and dec :: "bytes \<Rightarrow> ('a \<times> nat) result"
    and valid :: "'a \<Rightarrow> bool"
  assumes dec_enc: "valid x \<Longrightarrow> dec (enc x @ rest) = Inr (x, length (enc x))"
begin

lemma enc_append_inj:
  assumes "valid x" "valid y" "enc x @ r = enc y @ r'"
  shows "x = y \<and> r = r'"
proof -
  have "Inr (x, length (enc x)) = dec (enc y @ r')"
    using dec_enc [OF assms(1), of r] assms(3) by simp
  then have "x = y" using dec_enc [OF assms(2), of r'] by simp
  then show ?thesis using assms(3) by simp
qed

lemma enc_inj: "valid x \<Longrightarrow> valid y \<Longrightarrow> enc x = enc y \<Longrightarrow> x = y"
  using enc_append_inj [of x y "[]" "[]"] by simp

lemma enc_prefix_free: "valid x \<Longrightarrow> valid y \<Longrightarrow> enc x @ r = enc y \<Longrightarrow> r = []"
  using enc_append_inj [of x y r "[]"] by simp

lemma decode_many_concat:
  "(\<And>x. x \<in> set xs \<Longrightarrow> valid x) \<Longrightarrow>
   decode_many dec (length xs) (concat (map enc xs) @ rest) =
     Inr (xs, length (concat (map enc xs)))"
proof (induction xs)
  case (Cons x xs)
  then have "dec (concat (map enc (x # xs)) @ rest) = Inr (x, length (enc x))"
    using dec_enc [of x "concat (map enc xs) @ rest"] by simp
  with Cons show ?case by simp
qed simp

end

end
