(* ===== verification/Varint.thy ===== *)
theory Varint
  imports Codec_Contract
begin

text \<open>
  \<^verbatim>\<open>src/src/btree/varint.rs\<close>: the 1-to-9-byte big-endian variable-length integers of cell
  keys and lengths. The source fills a caller's buffer and returns the number of bytes;
  the model returns the bytes written. Proved: decoding an encoding gives the value back
  whatever follows it, how many bytes an encoding takes, and that the decoder never reads
  past nine bytes or past the end of its input.
\<close>

section \<open>Encoding\<close>

text \<open>The loop over \<^verbatim>\<open>temp\<close>: seven bits at a time, least significant first.\<close>

lemma unat_drop_bit_7: "v \<noteq> 0 \<Longrightarrow> unat (drop_bit 7 (v :: u64)) < unat v"
  by (simp add: unat_drop_bit_eq drop_bit_nat_def unat_gt_0)

function septets :: "u64 \<Rightarrow> u8 list" where
  "septets v = (if v = 0 then [] else ucast (v AND 0x7F) # septets (drop_bit 7 v))"
  by pat_completeness auto
termination
  by (relation "measure unat") (use unat_drop_bit_7 in auto)

declare septets.simps [simp del]

text \<open>
  The nine-byte form: \<open>k\<close> rounds of the loop \<^verbatim>\<open>for i in (0..8).rev()\<close>, each putting the
  low seven bits, with the continuation bit, in front of the bytes already written.
\<close>

fun be_septets :: "nat \<Rightarrow> u64 \<Rightarrow> u8 list \<Rightarrow> u8 list" where
  "be_septets 0 v acc = acc"
| "be_septets (Suc k) v acc = be_septets k (drop_bit 7 v) ((ucast (v AND 0x7F) OR 0x80) # acc)"

definition encode_varint :: "u64 \<Rightarrow> bytes" where
  "encode_varint v =
     (if v \<le> 0x7F then [ucast v]
      else if v > 0x00FFFFFFFFFFFFFF then be_septets 8 (drop_bit 8 v) [] @ [ucast v]
      else let temp = rev (septets v)
           in map (\<lambda>b. b OR 0x80) (butlast temp) @ [last temp])"

section \<open>Decoding\<close>

fun decode_loop :: "nat \<Rightarrow> u64 \<Rightarrow> bytes \<Rightarrow> (u64 \<times> nat) result" where
  "decode_loop i v [] = Inl (Corrupted ''Unterminated varint sequence'')"
| "decode_loop i v (b # bs) =
     (if i = 8 then Inr (push_bit 8 v OR ucast b, 9)
      else let v' = push_bit 7 v OR ucast (b AND 0x7F)
           in if b AND 0x80 = 0 then Inr (v', i + 1) else decode_loop (i + 1) v' bs)"

definition decode_varint :: "bytes \<Rightarrow> (u64 \<times> nat) result" where
  "decode_varint buf =
     (if buf = [] then Inl (Corrupted ''Unexpected EOF decoding varint'')
      else decode_loop 0 0 buf)"

section \<open>Lemmas\<close>

text \<open>The value of a run of seven-bit groups, most significant first.\<close>

definition sept_val :: "u64 \<Rightarrow> u8 list \<Rightarrow> u64" where
  "sept_val v ds = foldl (\<lambda>v d. push_bit 7 v OR ucast d) v ds"

lemma sept_val_simps [simp]:
  "sept_val v [] = v"
  "sept_val v (d # ds) = sept_val (push_bit 7 v OR ucast d) ds"
  "sept_val v (ds @ es) = sept_val (sept_val v ds) es"
  by (simp_all add: sept_val_def)

definition small7 :: "u8 \<Rightarrow> bool" where
  "small7 d \<longleftrightarrow> d AND 0x80 = 0"

lemma small7_bit: "small7 d \<longleftrightarrow> \<not> bit d 7"
proof -
  have "bit (d AND 0x80) n \<longleftrightarrow> n = 7 \<and> bit d 7" for n
    by (auto simp: bit_simps bit_0x80 bit_128_int)
  then show ?thesis
    unfolding small7_def by (metis bit_eqI bit_0_eq bot_fun_def bot_bool_def)
qed

lemma small7_bits: "small7 d \<Longrightarrow> bit d n \<Longrightarrow> n < 7"
  using bit_imp_le_length [of d n] by (cases "n = 7") (auto simp: small7_bit)

lemma small7_mask: "small7 d \<Longrightarrow> d AND 0x7F = d"
  unfolding mask7 by (rule bit_eqI) (auto simp: bit_simps small7_bits)

lemma small7_cont:
  assumes "small7 d"
  shows "(d OR 0x80) AND 0x7F = d" "(d OR 0x80) AND 0x80 \<noteq> 0"
proof -
  show "(d OR 0x80) AND 0x7F = d"
    using assms unfolding mask7
    by (intro bit_eqI) (auto simp: bit_simps bit_0x80 bit_128_int small7_bits)
  have "bit ((d OR 0x80) AND 0x80) 7" by (simp add: bit_simps bit_0x80 bit_128_int)
  then show "(d OR 0x80) AND 0x80 \<noteq> 0" by auto
qed

lemma small7_ucast: "small7 (ucast (v AND 0x7F :: u64))"
  unfolding small7_bit mask7 by (simp add: bit_simps)

lemma rejoin7: "push_bit 7 (drop_bit 7 v) OR (v AND 0x7F) = (v :: u64)"
  unfolding mask7 by (rule bit_eqI) (auto simp: bit_simps not_le)

lemma ucast_ucast_7: "ucast (ucast (v AND 0x7F :: u64) :: u8) = v AND (0x7F :: u64)"
  unfolding mask7 by (rule bit_eqI) (auto simp: bit_simps)

lemma septets_nonempty: "v \<noteq> 0 \<Longrightarrow> septets v \<noteq> []"
  by (subst septets.simps) simp

lemma septets_small: "d \<in> set (septets v) \<Longrightarrow> small7 d"
proof (induction v rule: septets.induct)
  case (1 v)
  then show ?case
    by (subst (asm) (2) septets.simps) (auto simp: small7_ucast split: if_splits)
qed

lemma sept_val_septets: "sept_val 0 (rev (septets v)) = v"
proof (induction v rule: septets.induct)
  case (1 v)
  then show ?case
    by (subst septets.simps) (simp add: ucast_ucast_7 rejoin7)
qed

lemma length_septets: "unat v < 2 ^ (7 * k) \<Longrightarrow> length (septets v) \<le> k"
proof (induction k arbitrary: v)
  case 0
  then have "v = 0" by (simp add: unat_eq_zero)
  then show ?case by (simp add: septets.simps)
next
  case (Suc k)
  have "unat (drop_bit 7 v) < 2 ^ (7 * k)"
    using Suc.prems by (simp add: unat_drop_bit_eq drop_bit_nat_def less_mult_imp_div_less power_add mult.commute)
  then show ?case using Suc.IH by (subst septets.simps) simp
qed

lemma length_septets_lower: "v \<noteq> 0 \<Longrightarrow> 2 ^ (7 * k) \<le> unat v \<Longrightarrow> k < length (septets v)"
proof (induction k arbitrary: v)
  case 0
  then show ?case using septets_nonempty by simp
next
  case (Suc k)
  have "2 ^ (7 * k) \<le> unat (drop_bit 7 v)"
    using Suc.prems(2) by (simp add: unat_drop_bit_eq drop_bit_nat_def less_eq_div_iff_mult_less_eq power_add mult.commute)
  moreover from this have "drop_bit 7 v \<noteq> 0" by auto
  ultimately show ?case using Suc.IH Suc.prems(1) by (subst septets.simps) simp
qed

text \<open>One pass of the decoder over continued groups, then a final one.\<close>

lemma decode_loop_run:
  assumes "\<And>d. d \<in> set ds \<Longrightarrow> small7 d" and "i + length ds \<le> 8"
  shows "decode_loop i v (map (\<lambda>b. b OR 0x80) ds @ bs) =
         decode_loop (i + length ds) (sept_val v ds) bs"
  using assms
proof (induction ds arbitrary: i v)
  case (Cons d ds)
  then have "small7 d" "i \<noteq> 8" by simp_all
  with Cons show ?case by (simp add: Let_def small7_cont)
qed simp

lemma be_septets_eq:
  "\<exists>ds. be_septets k v acc = map (\<lambda>b. b OR 0x80) ds @ acc \<and> length ds = k \<and>
        (\<forall>d \<in> set ds. small7 d) \<and> (unat v < 2 ^ (7 * k) \<longrightarrow> sept_val 0 ds = v)"
proof (induction k arbitrary: v acc)
  case 0
  then show ?case by (auto simp: unat_eq_zero)
next
  case (Suc k)
  obtain ds where ds: "be_septets k (drop_bit 7 v) ((ucast (v AND 0x7F) OR 0x80) # acc) =
      map (\<lambda>b. b OR 0x80) ds @ (ucast (v AND 0x7F) OR 0x80) # acc" "length ds = k"
      "\<forall>d \<in> set ds. small7 d" "unat (drop_bit 7 v) < 2 ^ (7 * k) \<longrightarrow> sept_val 0 ds = drop_bit 7 v"
    using Suc.IH by blast
  have "unat v < 2 ^ (7 * Suc k) \<Longrightarrow> unat (drop_bit 7 v) < 2 ^ (7 * k)"
    by (simp add: unat_drop_bit_eq drop_bit_nat_def less_mult_imp_div_less power_add mult.commute)
  with ds show ?case
    by (intro exI [of _ "ds @ [ucast (v AND 0x7F)]"])
       (auto simp: small7_ucast ucast_ucast_7 rejoin7)
qed

lemma rejoin8: "push_bit 8 (drop_bit 8 v) OR ucast (ucast v :: u8) = (v :: u64)"
  by (rule bit_eqI) (auto simp: bit_simps not_le)

lemma unat_drop_bit_8: "unat (drop_bit 8 (v :: u64)) < 2 ^ (7 * 8)"
proof -
  have "unat v < 2 ^ 56 * 256" using unat_u64 [of v] by simp
  then show ?thesis
    by (simp add: unat_drop_bit_eq drop_bit_nat_def less_mult_imp_div_less)
qed

section \<open>Properties\<close>

lemma ucast_small7: "v \<le> 0x7F \<Longrightarrow> small7 (ucast (v :: u64)) \<and> ucast (ucast v :: u8) = v"
proof -
  assume "v \<le> 0x7F"
  then have "unat v \<le> unat (0x7F :: u64)" by (rule word_le_nat_alt [THEN iffD1])
  then have "unat v < 2 ^ 7" by simp
  then have "take_bit 7 (unat v) = unat v" by (simp add: take_bit_nat_eq_self)
  then have v: "v = v AND 0x7F"
    unfolding mask7 by (metis take_bit_eq_mask unsigned_take_bit_eq unsigned_word_eqI)
  then show ?thesis using small7_ucast [of v] ucast_ucast_7 [of v] by metis
qed

lemma decode_encode_varint:
  "decode_varint (encode_varint v @ rest) = Inr (v, length (encode_varint v))"
proof -
  consider "v \<le> 0x7F" | "\<not> v \<le> 0x7F" "v > 0x00FFFFFFFFFFFFFF"
    | "\<not> v \<le> 0x7F" "\<not> v > 0x00FFFFFFFFFFFFFF" by blast
  then show ?thesis
  proof cases
    case 1
    then have "small7 (ucast v)" "ucast (ucast v :: u8) = v" using ucast_small7 by auto
    with 1 show ?thesis
      by (simp add: encode_varint_def decode_varint_def Let_def small7_def [symmetric] small7_mask)
  next
    case 2
    obtain ds where ds: "be_septets 8 (drop_bit 8 v) [] = map (\<lambda>b. b OR 0x80) ds @ []"
        "length ds = 8" "\<forall>d \<in> set ds. small7 d" "sept_val 0 ds = drop_bit 8 v"
      using be_septets_eq [of 8 "drop_bit 8 v" "[]"] unat_drop_bit_8 [of v] by blast
    have "decode_loop 0 0 (map (\<lambda>b. b OR 0x80) ds @ ucast v # rest) = Inr (v, 9)"
      using ds decode_loop_run [of ds 0 0 "ucast v # rest"] by (simp add: rejoin8)
    with ds 2 show ?thesis by (auto simp: encode_varint_def decode_varint_def)
  next
    case 3
    define ds where "ds = rev (septets v)"
    have "v \<noteq> 0" using 3 by auto
    then have ne: "ds \<noteq> []" using septets_nonempty by (simp add: ds_def)
    have "unat v < 2 ^ (7 * 8)"
      using 3(2) by (simp add: not_less word_le_nat_alt)
    then have len: "length ds \<le> 8" unfolding ds_def using length_septets [of v 8] by simp
    have small: "\<And>d. d \<in> set ds \<Longrightarrow> small7 d" using septets_small by (simp add: ds_def)
    have "sept_val 0 (butlast ds @ [last ds]) = v"
      unfolding append_butlast_last_id [OF ne] by (simp add: ds_def sept_val_septets)
    then have val: "push_bit 7 (sept_val 0 (butlast ds)) OR ucast (last ds) = v"
      by (simp only: sept_val_simps)
    have len': "length ds - 1 \<noteq> 8" "length ds \<noteq> 0" using len ne by auto
    have "small7 (last ds)" using ne small by simp
    then have "decode_loop (length ds - 1) (sept_val 0 (butlast ds)) (last ds # rest) =
        Inr (v, length ds)"
      using val len' by (simp add: Let_def small7_mask small7_def [symmetric])
    moreover have "decode_loop 0 0 (map (\<lambda>b. b OR 0x80) (butlast ds) @ last ds # rest) =
        decode_loop (length ds - 1) (sept_val 0 (butlast ds)) (last ds # rest)"
      using decode_loop_run [of "butlast ds" 0 0 "last ds # rest"] small len
      by (simp add: in_set_butlastD)
    ultimately have "decode_loop 0 0 (map (\<lambda>b. b OR 0x80) (butlast ds) @ last ds # rest) =
        Inr (v, length ds)" by (simp only:)
    with 3 ne show ?thesis
      by (simp add: encode_varint_def decode_varint_def Let_def ds_def [symmetric])
  qed
qed

interpretation varint: prefix_codec encode_varint decode_varint "\<lambda>_. True"
  by unfold_locales (rule decode_encode_varint)

lemma length_encode_varint:
  "length (encode_varint v) =
     (if v \<le> 0x7F then 1 else if v > 0x00FFFFFFFFFFFFFF then 9 else length (septets v))"
proof -
  have "length (be_septets 8 (drop_bit 8 v) []) = 8"
    using be_septets_eq [of 8 "drop_bit 8 v" "[]"] by auto
  moreover have "\<not> v \<le> 0x7F \<Longrightarrow> length (septets v) \<ge> 1"
    using septets_nonempty [of v] by (cases "v = 0"; cases "septets v") auto
  ultimately show ?thesis by (auto simp: encode_varint_def Let_def)
qed

lemma length_septets_iff: "v \<noteq> 0 \<Longrightarrow> length (septets v) \<le> k \<longleftrightarrow> unat v < 2 ^ (7 * k)"
  using length_septets length_septets_lower by (metis not_le)

lemma length_encode_varint_iff:
  assumes "1 \<le> k" "k \<le> 8"
  shows "length (encode_varint v) \<le> k \<longleftrightarrow> unat v < 2 ^ (7 * k)"
proof -
  have lo: "(2::nat) ^ 7 \<le> 2 ^ (7 * k)" using assms by (intro power_increasing) auto
  have hi: "(2::nat) ^ (7 * k) \<le> 2 ^ 56" using assms by (intro power_increasing) auto
  consider "unat v < 2 ^ 7" | "unat v \<ge> 2 ^ 56" | "2 ^ 7 \<le> unat v" "unat v < 2 ^ 56"
    by linarith
  then show ?thesis
  proof cases
    case 1
    then have "v \<le> 0x7F" by (simp add: word_le_nat_alt)
    with 1 lo assms show ?thesis by (simp add: length_encode_varint)
  next
    case 2
    then have "v > 0x00FFFFFFFFFFFFFF" "\<not> v \<le> 0x7F"
      by (simp_all add: word_le_nat_alt word_less_nat_alt)
    with 2 hi assms show ?thesis by (simp add: length_encode_varint)
  next
    case 3
    then have "\<not> v > 0x00FFFFFFFFFFFFFF" "\<not> v \<le> 0x7F" "v \<noteq> 0"
      by (auto simp add: word_le_nat_alt word_less_nat_alt)
    then show ?thesis by (simp add: length_encode_varint length_septets_iff)
  qed
qed

lemma length_encode_varint_bounds: "1 \<le> length (encode_varint v)" "length (encode_varint v) \<le> 9"
proof -
  have "\<not> v > 0x00FFFFFFFFFFFFFF \<Longrightarrow> length (septets v) \<le> 8"
    by (intro length_septets) (simp add: not_less word_le_nat_alt)
  then show "length (encode_varint v) \<le> 9" by (auto simp: length_encode_varint)
  have "\<not> v \<le> 0x7F \<Longrightarrow> septets v \<noteq> []" by (intro septets_nonempty) auto
  then show "1 \<le> length (encode_varint v)"
    by (cases "septets v") (auto simp: length_encode_varint)
qed

lemma decode_loop_bounds:
  "decode_loop i v bs = Inr (x, n) \<Longrightarrow> i \<le> 8 \<Longrightarrow>
   i < n \<and> n \<le> 9 \<and> n - i \<le> length bs \<and>
   decode_loop i v (take (n - i) bs @ rest) = Inr (x, n)"
proof (induction i v bs rule: decode_loop.induct)
  case (2 i v b bs)
  show ?case
  proof (cases "i = 8 \<or> b AND 0x80 = 0")
    case True
    with 2 show ?thesis by (auto simp: Let_def split: if_splits)
  next
    case False
    with 2 have rec: "Suc i < n" "n \<le> 9" "n - Suc i \<le> length bs"
      "decode_loop (Suc i) (push_bit 7 v OR ucast (b AND 0x7F)) (take (n - Suc i) bs @ rest) = Inr (x, n)"
      by (auto simp: Let_def)
    from rec(1) have "n - i = Suc (n - Suc i)" by simp
    with rec False show ?thesis by (auto simp: Let_def)
  qed
qed simp

lemma decode_loop_err: "decode_loop i v bs \<noteq> Inl Panic"
  by (induction i v bs rule: decode_loop.induct) (auto simp: Let_def)

lemma decode_varint_used:
  assumes "decode_varint bs = Inr (v, n)"
  shows "1 \<le> n \<and> n \<le> 9 \<and> n \<le> length bs \<and> decode_varint (take n bs @ rest) = Inr (v, n)"
  using assms decode_loop_bounds [of 0 0 bs v n rest]
  by (auto simp: decode_varint_def split: if_splits)

lemma decode_varint_no_panic: "decode_varint bs \<noteq> Inl Panic"
  using decode_loop_err by (simp add: decode_varint_def)

text \<open>A varint written by \<^verbatim>\<open>encode_varint\<close> is read back by \<^verbatim>\<open>decode_varint\<close>
  with its exact value and length, for every 64-bit value and whatever bytes follow it in
  the buffer (the next field of a cell, or the rest of a page).\<close>

theorem varint_roundtrip:
  "decode_varint (encode_varint v @ rest) = Inr (v, length (encode_varint v))"
  by (rule varint.dec_enc) simp

text \<open>The encoding is the shortest big-endian base-128 form: between one and nine bytes,
  and at most \<open>k\<close> bytes (for \<open>k\<close> up to eight) exactly when the value has at most
  \<open>7 * k\<close> bits.\<close>

theorem varint_shortest:
  "1 \<le> length (encode_varint v) \<and> length (encode_varint v) \<le> 9 \<and>
   (\<forall>k \<in> {1..8}. length (encode_varint v) \<le> k \<longleftrightarrow> unat v < 2 ^ (7 * k))"
  using length_encode_varint_bounds length_encode_varint_iff by simp

theorem varint_shortest_witness:
  "length (encode_varint 16384) = 3 \<and> \<not> length (encode_varint 16384) \<le> 2"
proof -
  have "length (encode_varint 16384) \<le> 3" "\<not> length (encode_varint 16384) \<le> 2"
    using varint_shortest [of 16384] by (auto simp: Ball_def)
  then show ?thesis by linarith
qed

text \<open>On any input the decoder either reports corruption or has consumed between one and
  nine bytes, all of them inside the buffer; what it returns depends on those bytes only, and
  it never panics.\<close>

theorem varint_decode_safe:
  "decode_varint bs \<noteq> Inl Panic \<and>
   (decode_varint bs = Inr (v, n) \<longrightarrow>
      1 \<le> n \<and> n \<le> 9 \<and> n \<le> length bs \<and> decode_varint (take n bs @ rest) = Inr (v, n))"
  using decode_varint_used decode_varint_no_panic by blast

theorem varint_decode_safe_witness:
  "decode_varint [0x81, 0x00, 0xFF] = Inr (128, 2) \<and> decode_varint ([0x81, 0x00] @ [7]) = Inr (128, 2)"
proof -
  have d: "decode_varint [0x81, 0x00, 0xFF] = Inr (128, 2)"
    by (simp add: decode_varint_def Let_def)
  then show ?thesis
    using varint_decode_safe [of "[0x81, 0x00, 0xFF]" 128 2 "[7]"] by simp
qed

end
