(* ===== verification/Page_Format.thy ===== *)
theory Page_Format
  imports Varint
begin

text \<open>
  \<^verbatim>\<open>src/src/btree/mod.rs\<close>: page types, the slotted-page header and the two cell layouts
  of a table tree. Proved: serialising and parsing a header or a cell is the identity on
  every value the engine builds, whatever follows it in the page; a parser reports
  corruption on short or unknown input; the free space of a header never exceeds the
  page less its trailer. One path of the cell parser panics instead of reporting
  corruption, and is stated as such.
\<close>

section \<open>Page types\<close>

datatype page_type =
  TableInterior | TableLeaf | IndexInterior | IndexLeaf | VectorIndex | Overflow | Freelist

fun page_type_byte :: "page_type \<Rightarrow> u8" where
  "page_type_byte TableInterior = 0x01"
| "page_type_byte TableLeaf = 0x02"
| "page_type_byte IndexInterior = 0x03"
| "page_type_byte IndexLeaf = 0x04"
| "page_type_byte VectorIndex = 0x05"
| "page_type_byte Overflow = 0x06"
| "page_type_byte Freelist = 0x07"

definition page_type_from_u8 :: "u8 \<Rightarrow> page_type result" where
  "page_type_from_u8 b =
     (if b = 0x01 then Inr TableInterior
      else if b = 0x02 then Inr TableLeaf
      else if b = 0x03 then Inr IndexInterior
      else if b = 0x04 then Inr IndexLeaf
      else if b = 0x05 then Inr VectorIndex
      else if b = 0x06 then Inr Overflow
      else if b = 0x07 then Inr Freelist
      else Inl (Corrupted ''Unknown page type: {other:#x}''))"

definition is_interior :: "page_type \<Rightarrow> bool" where
  "is_interior t \<longleftrightarrow> t = TableInterior \<or> t = IndexInterior"

definition is_leaf :: "page_type \<Rightarrow> bool" where
  "is_leaf t \<longleftrightarrow> t = TableLeaf \<or> t = IndexLeaf"

lemma page_type_roundtrip [simp]: "page_type_from_u8 (page_type_byte t) = Inr t"
  by (cases t) (simp_all add: page_type_from_u8_def)

lemma page_type_from_u8_byte: "page_type_from_u8 b = Inr t \<Longrightarrow> page_type_byte t = b"
  by (auto simp: page_type_from_u8_def split: if_splits)

section \<open>Page header\<close>

record page_header =
  ph_page_type :: page_type
  ph_flags :: u8
  ph_num_cells :: u16
  ph_cell_content_offset :: u16
  ph_first_freeblock :: u16
  ph_right_child :: "page_id option"

definition PAGE_RESERVED_TRAILER :: nat where "PAGE_RESERVED_TRAILER = 40"

definition header_size :: "page_header \<Rightarrow> nat" where
  "header_size h = (if is_interior (ph_page_type h) then 12 else 8)"

definition header_to_bytes :: "page_header \<Rightarrow> bytes" where
  "header_to_bytes h =
     [page_type_byte (ph_page_type h), ph_flags h] @ to_le16 (ph_num_cells h) @
     to_le16 (ph_cell_content_offset h) @ to_le16 (ph_first_freeblock h) @
     (if is_interior (ph_page_type h)
      then to_le32 (case ph_right_child h of None \<Rightarrow> 0 | Some c \<Rightarrow> c) else [])"

definition header_from_bytes :: "bytes \<Rightarrow> page_header result" where
  "header_from_bytes bs =
     (if length bs < 8
      then Inl (Corrupted ''Page header slice too short (<8 bytes)'')
      else bind_r (page_type_from_u8 (bs ! 0)) (\<lambda>t.
        bind_r (if is_interior t
                then (if length bs < 12
                      then Inl (Corrupted ''Interior page header too short (<12 bytes)'')
                      else Inr (Some (u32_at bs 8)))
                else Inr None) (\<lambda>rc.
        Inr \<lparr>ph_page_type = t, ph_flags = bs ! 1, ph_num_cells = u16_at bs 2,
             ph_cell_content_offset = u16_at bs 4, ph_first_freeblock = u16_at bs 6,
             ph_right_child = rc\<rparr>)))"

definition free_space :: "page_header \<Rightarrow> nat \<Rightarrow> nat \<Rightarrow> nat" where
  "free_space h page_size header_offset =
     (let cell_pointer_end = header_offset + header_size h + unat (ph_num_cells h) * 2;
          content_start = (if ph_cell_content_offset h = 0
                           then page_size - PAGE_RESERVED_TRAILER
                           else unat (ph_cell_content_offset h))
      in content_start - cell_pointer_end)"

text \<open>The headers the engine builds: a right child exactly on interior pages.\<close>

definition wf_header :: "page_header \<Rightarrow> bool" where
  "wf_header h \<longleftrightarrow> (is_interior (ph_page_type h) \<longleftrightarrow> ph_right_child h \<noteq> None)"

lemma length_header_to_bytes [simp]: "length (header_to_bytes h) = header_size h"
  by (simp add: header_to_bytes_def header_size_def)

lemma header_roundtrip_rest: "wf_header h \<Longrightarrow> header_from_bytes (header_to_bytes h @ rest) = Inr h"
  by (cases h)
     (auto simp: wf_header_def header_to_bytes_def header_from_bytes_def u16_at_def u32_at_def
        split: option.splits)

lemma header_from_bytes_wf: "header_from_bytes bs = Inr h \<Longrightarrow> wf_header h"
  by (auto simp: header_from_bytes_def wf_header_def result_simps split: if_splits)

lemma header_from_bytes_length:
  "header_from_bytes bs = Inr h \<Longrightarrow> header_size h \<le> length bs"
  by (auto simp: header_from_bytes_def header_size_def result_simps split: if_splits)

lemma header_from_bytes_no_panic: "header_from_bytes bs \<noteq> Inl Panic"
  by (auto simp: header_from_bytes_def result_simps page_type_from_u8_def split: if_splits)

lemma header_from_bytes_prefix:
  assumes "header_from_bytes bs = Inr h"
  shows "take (header_size h) bs = header_to_bytes h"
proof -
  define n where "n = header_size h"
  have len: "n \<le> length bs" using header_from_bytes_length [OF assms] by (simp add: n_def)
  have t: "page_type_from_u8 (bs ! 0) = Inr (ph_page_type h)" and "8 \<le> length bs"
    and fs: "ph_flags h = bs ! 1" "ph_num_cells h = u16_at bs 2"
      "ph_cell_content_offset h = u16_at bs 4" "ph_first_freeblock h = u16_at bs 6"
      "is_interior (ph_page_type h) \<Longrightarrow> ph_right_child h = Some (u32_at bs 8)"
    using assms by (auto simp: header_from_bytes_def result_simps split: if_splits)
  have b0: "bs ! 0 = page_type_byte (ph_page_type h)"
    using page_type_from_u8_byte [OF t] by simp
  have "take 8 bs = take 2 bs @ take 2 (drop 2 bs) @ take 2 (drop 4 bs) @ take 2 (drop 6 bs)"
    using take_add [of 2 6 bs] take_add [of 2 4 "drop 2 bs"] take_add [of 2 2 "drop 4 bs"] by simp
  moreover have "take 2 bs = [bs ! 0, bs ! 1]"
    using \<open>8 \<le> length bs\<close> by (cases bs; cases "tl bs") auto
  ultimately have t8: "take 8 bs = [bs ! 0, bs ! 1] @ to_le16 (u16_at bs 2) @
      to_le16 (u16_at bs 4) @ to_le16 (u16_at bs 6)"
    using \<open>8 \<le> length bs\<close> by (simp add: u16_at_def to_from_le)
  show ?thesis
  proof (cases "is_interior (ph_page_type h)")
    case True
    with len have "12 \<le> length bs" by (simp add: n_def header_size_def)
    then have "take 12 bs = take 8 bs @ to_le32 (u32_at bs 8)"
      using take_add [of 8 4 bs] by (simp add: u32_at_def to_from_le)
    with True t8 b0 fs show ?thesis by (simp add: header_to_bytes_def header_size_def)
  next
    case False
    with t8 b0 fs show ?thesis by (simp add: header_to_bytes_def header_size_def)
  qed
qed

lemma free_space_bound:
  "unat (ph_cell_content_offset h) \<le> page_size - PAGE_RESERVED_TRAILER \<Longrightarrow>
   header_offset + header_size h + 2 * unat (ph_num_cells h) + free_space h page_size header_offset
     \<le> max (header_offset + header_size h + 2 * unat (ph_num_cells h))
          (page_size - PAGE_RESERVED_TRAILER)"
  by (auto simp: free_space_def Let_def)

section \<open>Leaf cells\<close>

record table_leaf_cell =
  lc_row_id :: u64
  lc_payload :: bytes
  lc_overflow_page :: "page_id option"

text \<open>The raw layout shared with the in-place insertion of the page engine.\<close>

definition leaf_cell_bytes :: "u64 \<Rightarrow> bytes \<Rightarrow> page_id option \<Rightarrow> bytes" where
  "leaf_cell_bytes row_id payload ovf =
     encode_varint (word_of_nat (length payload)) @ encode_varint row_id @ payload @
     to_le32 (case ovf of None \<Rightarrow> 0 | Some p \<Rightarrow> p)"

definition leaf_cell_to_bytes :: "table_leaf_cell \<Rightarrow> bytes" where
  "leaf_cell_to_bytes c = leaf_cell_bytes (lc_row_id c) (lc_payload c) (lc_overflow_page c)"

definition leaf_cell_from_bytes :: "bytes \<Rightarrow> table_leaf_cell result" where
  "leaf_cell_from_bytes bs =
     bind_r (decode_varint bs) (\<lambda>(payload_size, n1).
     bind_r (from_r bs n1) (\<lambda>tail.
     bind_r (decode_varint tail) (\<lambda>(row_id, n2).
       let offset = n1 + n2; payload_len = unat payload_size in
       bind_r (usize_add offset payload_len) (\<lambda>payload_end.
       bind_r (usize_add payload_end 4) (\<lambda>cell_end.
         if length bs < cell_end
         then Inl (Corrupted ''Truncated cell payload or overflow pointer'')
         else let page = u32_at bs payload_end in
              Inr \<lparr>lc_row_id = row_id,
                   lc_payload = take payload_len (drop offset bs),
                   lc_overflow_page = (if page > 0 then Some page else None)\<rparr>)))))"

text \<open>
  The cells the engine builds: a page number zero is never an overflow pointer, and a
  payload that fits in memory is far shorter than an address overflow.
\<close>

definition valid_leaf_cell :: "table_leaf_cell \<Rightarrow> bool" where
  "valid_leaf_cell c \<longleftrightarrow> lc_overflow_page c \<noteq> Some 0 \<and> length (lc_payload c) < 2 ^ 63"

lemma length_leaf_cell_to_bytes:
  "length (leaf_cell_to_bytes c) =
     length (encode_varint (word_of_nat (length (lc_payload c)))) +
     length (encode_varint (lc_row_id c)) + length (lc_payload c) + 4"
  by (simp add: leaf_cell_to_bytes_def leaf_cell_bytes_def)

lemma leaf_cell_roundtrip_rest:
  assumes "valid_leaf_cell c"
  shows "leaf_cell_from_bytes (leaf_cell_to_bytes c @ rest) = Inr c"
proof -
  define pl where "pl = lc_payload c"
  define ov where "ov = (case lc_overflow_page c of None \<Rightarrow> 0 | Some p \<Rightarrow> p)"
  define e1 where "e1 = encode_varint (word_of_nat (length pl))"
  define e2 where "e2 = encode_varint (lc_row_id c)"
  have pl: "length pl < 2 ^ 63" using assms by (simp add: valid_leaf_cell_def pl_def)
  have un: "unat (word_of_nat (length pl) :: u64) = length pl"
    using pl by (simp add: unat_of_nat_small64)
  have le9: "length e1 \<le> 9" "length e2 \<le> 9"
    using length_encode_varint_bounds by (simp_all add: e1_def e2_def)
  have bytes: "leaf_cell_to_bytes c @ rest = e1 @ e2 @ pl @ to_le32 ov @ rest"
    by (simp add: leaf_cell_to_bytes_def leaf_cell_bytes_def e1_def e2_def pl_def ov_def)
  have d1: "decode_varint (e1 @ e2 @ pl @ to_le32 ov @ rest) =
      Inr (word_of_nat (length pl), length e1)"
    unfolding e1_def by (rule decode_encode_varint)
  have d2: "decode_varint (e2 @ pl @ to_le32 ov @ rest) = Inr (lc_row_id c, length e2)"
    unfolding e2_def by (rule decode_encode_varint)
  have a1: "usize_add (length e1 + length e2) (length pl) = Inr (length e1 + length e2 + length pl)"
    and a2: "usize_add (length e1 + length e2 + length pl) 4 =
      Inr (length e1 + length e2 + length pl + 4)"
    using le9 pl by (simp_all add: usize_add_def)
  have pg: "u32_at (e1 @ e2 @ pl @ to_le32 ov @ rest) (length e1 + length e2 + length pl) = ov"
    by (simp add: u32_at_def)
  have ovo: "(if 0 < ov then Some ov else None) = lc_overflow_page c"
    using assms by (auto simp: ov_def valid_leaf_cell_def word_gt_0 split: option.splits)
  show ?thesis
    unfolding leaf_cell_from_bytes_def bytes
    by (simp add: d1 d2 from_r_def un a1 a2 pg ovo Let_def) (simp add: pl_def)
qed

text \<open>A cell read from a buffer ends where its encoding ends.\<close>

definition leaf_cell_decode :: "bytes \<Rightarrow> (table_leaf_cell \<times> nat) result" where
  "leaf_cell_decode bs =
     bind_r (leaf_cell_from_bytes bs) (\<lambda>c. Inr (c, length (leaf_cell_to_bytes c)))"

interpretation leaf_cell: prefix_codec leaf_cell_to_bytes leaf_cell_decode valid_leaf_cell
  by unfold_locales (simp add: leaf_cell_decode_def leaf_cell_roundtrip_rest)

lemma leaf_cell_from_bytes_valid:
  assumes "leaf_cell_from_bytes bs = Inr c" "length bs < 2 ^ 63"
  shows "valid_leaf_cell c"
  using assms
  by (auto simp: leaf_cell_from_bytes_def valid_leaf_cell_def result_simps Let_def
      split: prod.splits if_splits)

section \<open>Interior cells\<close>

record table_interior_cell =
  ic_left_child :: page_id
  ic_row_id :: u64

definition interior_cell_to_bytes :: "table_interior_cell \<Rightarrow> bytes" where
  "interior_cell_to_bytes c = to_le32 (ic_left_child c) @ encode_varint (ic_row_id c)"

definition interior_cell_from_bytes :: "bytes \<Rightarrow> table_interior_cell result" where
  "interior_cell_from_bytes bs =
     (if length bs < 4 then Inl (Corrupted ''Interior cell slice too short (<4 bytes)'')
      else bind_r (decode_varint (drop 4 bs)) (\<lambda>(row_id, _).
        Inr \<lparr>ic_left_child = u32_at bs 0, ic_row_id = row_id\<rparr>))"

lemma interior_cell_roundtrip_rest:
  "interior_cell_from_bytes (interior_cell_to_bytes c @ rest) = Inr c"
  by (simp add: interior_cell_from_bytes_def interior_cell_to_bytes_def u32_at_def
      decode_encode_varint)

definition interior_cell_decode :: "bytes \<Rightarrow> (table_interior_cell \<times> nat) result" where
  "interior_cell_decode bs =
     bind_r (interior_cell_from_bytes bs) (\<lambda>c. Inr (c, length (interior_cell_to_bytes c)))"

interpretation interior_cell:
  prefix_codec interior_cell_to_bytes interior_cell_decode "\<lambda>_. True"
  by unfold_locales (simp add: interior_cell_decode_def interior_cell_roundtrip_rest)

lemma length_interior_cell_to_bytes:
  "5 \<le> length (interior_cell_to_bytes c)" "length (interior_cell_to_bytes c) \<le> 13"
  using length_encode_varint_bounds [of "ic_row_id c"] by (simp_all add: interior_cell_to_bytes_def)

section \<open>Properties\<close>

text \<open>Page headers round-trip through their 8- or 12-byte form for every header with a
  right child exactly on interior pages, whatever follows in the page; every header that
  parses has that shape, and the bytes parsed are the ones \<^verbatim>\<open>to_bytes\<close> writes.\<close>

theorem page_header_roundtrip:
  "(wf_header h \<longrightarrow> header_from_bytes (header_to_bytes h @ rest) = Inr h) \<and>
   (header_from_bytes bs = Inr h \<longrightarrow> wf_header h \<and> take (header_size h) bs = header_to_bytes h)"
  using header_roundtrip_rest header_from_bytes_wf header_from_bytes_prefix by blast

theorem page_header_roundtrip_witness:
  "header_from_bytes (header_to_bytes \<lparr>ph_page_type = TableInterior, ph_flags = 0,
      ph_num_cells = 3, ph_cell_content_offset = 3500, ph_first_freeblock = 0,
      ph_right_child = Some 42\<rparr> @ [1, 2, 3]) =
    Inr \<lparr>ph_page_type = TableInterior, ph_flags = 0, ph_num_cells = 3,
      ph_cell_content_offset = 3500, ph_first_freeblock = 0, ph_right_child = Some 42\<rparr>"
  by (rule page_header_roundtrip [THEN conjunct1, rule_format])
     (simp add: wf_header_def is_interior_def)

text \<open>A leaf cell (payload length, row id, payload, overflow pointer) parses back to itself
  from its serialised bytes, whatever follows it in the page, for every cell whose overflow
  pointer is not page 0; the parser's length fields tell it exactly where the cell ends.\<close>

theorem leaf_cell_roundtrip:
  assumes "valid_leaf_cell c"
  shows "leaf_cell_from_bytes (leaf_cell_to_bytes c @ rest) = Inr c"
  using leaf_cell.dec_enc [OF assms, of rest]
  by (simp add: leaf_cell_decode_def result_simps)

theorem leaf_cell_roundtrip_witness:
  "leaf_cell_from_bytes (leaf_cell_to_bytes
      \<lparr>lc_row_id = 1024, lc_payload = [72, 101], lc_overflow_page = Some 9\<rparr> @ [0, 0]) =
    Inr \<lparr>lc_row_id = 1024, lc_payload = [72, 101], lc_overflow_page = Some 9\<rparr>"
  by (rule leaf_cell_roundtrip) (simp add: valid_leaf_cell_def)

text \<open>The leaf cell parser can panic on corrupt storage instead of reporting corruption: a
  payload length near the top of the 64-bit range overflows the address sum of its bounds
  check. Here the cell starts with the length \<^verbatim>\<open>2^64 - 1\<close> and the row id 1.\<close>

theorem leaf_cell_parser_panics:
  "leaf_cell_from_bytes (replicate 9 0xFF @ [1] @ rest) = Inl Panic"
proof -
  have "encode_varint (- 1) = replicate 9 0xFF" by code_simp
  then have d: "decode_varint (replicate 9 0xFF @ [1] @ rest) = Inr (- 1, 9)"
    using decode_encode_varint [of "- 1" "[1] @ rest"] by simp
  have "decode_varint (1 # rest) = Inr (1, 1)"
    by (simp add: decode_varint_def Let_def)
  moreover have "unat (- 1 :: u64) = 18446744073709551615"
    by (simp add: unsigned_minus_1_eq_mask mask_eq_exp_minus_1)
  ultimately show ?thesis using d
    by (simp add: leaf_cell_from_bytes_def from_r_def usize_add_def Let_def)
qed

end
