(* ===== verification/Lz4.thy ===== *)
theory Lz4
  imports Page_Format
begin

text \<open>
  \<^verbatim>\<open>src/src/pager/compression.rs\<close>: the LZ4 block codec and the page frame around it. The
  cursor \<^verbatim>\<open>ip\<close> of the decoder is the list of the bytes it has not read; the one of the
  encoder is an index, because the encoder looks behind it. The hash table only proposes
  matches, so the round trip holds whatever it contains.
\<close>

section \<open>The encoder\<close>

definition MIN_MATCH :: nat where "MIN_MATCH = 4"
definition HASH_TABLE_SIZE :: nat where "HASH_TABLE_SIZE = 4096"
definition MAX_DISTANCE :: nat where "MAX_DISTANCE = 65535"
definition COMPRESSED_PAGE_MAGIC :: u8 where "COMPRESSED_PAGE_MAGIC = 0x54"
definition UNCOMPRESSED_PAGE_FLAG :: u8 where "UNCOMPRESSED_PAGE_FLAG = 0"
definition LZ4_COMPRESSED_PAGE_FLAG :: u8 where "LZ4_COMPRESSED_PAGE_FLAG = 1"

definition hash_4 :: "bytes \<Rightarrow> nat" where
  "hash_4 bs =
     (let val = unat (bs ! 0) + 2 ^ 8 * unat (bs ! 1) + 2 ^ 16 * unat (bs ! 2) + 2 ^ 24 * unat (bs ! 3)
      in ((val * 2654435761) mod 2 ^ 64) div 2 ^ 20 mod HASH_TABLE_SIZE)"

text \<open>\<^verbatim>\<open>while rem >= 255 { push(255); rem -= 255 } push(rem)\<close>\<close>

fun ext_bytes :: "nat \<Rightarrow> bytes" where
  "ext_bytes rem = (if rem \<ge> 255 then 255 # ext_bytes (rem - 255) else [word_of_nat rem])"

declare ext_bytes.simps [simp del]

definition ext_if :: "nat \<Rightarrow> bytes" where
  "ext_if len = (if len \<ge> 15 then ext_bytes (len - 15) else [])"

definition literal_run :: "bytes \<Rightarrow> bytes" where
  "literal_run lits = word_of_nat (min (length lits) 15 * 16) # ext_if (length lits) @ lits"

text \<open>One sequence: token, literals, offset, match length.\<close>

definition match_sequence :: "bytes \<Rightarrow> nat \<Rightarrow> nat \<Rightarrow> bytes" where
  "match_sequence lits offset match_len =
     word_of_nat (min (length lits) 15 * 16 + min (match_len - 4) 15) # ext_if (length lits) @ lits @
     to_le16 (word_of_nat offset) @ ext_if (match_len - 4)"

fun extend_match :: "bytes \<Rightarrow> nat \<Rightarrow> nat \<Rightarrow> nat \<Rightarrow> nat" where
  "extend_match src match_pos ip 0 = 0"
| "extend_match src match_pos ip (Suc room) =
     (if src ! match_pos = src ! ip then Suc (extend_match src (Suc match_pos) (Suc ip) room) else 0)"

function compress_loop ::
    "bytes \<Rightarrow> nat \<Rightarrow> nat list \<Rightarrow> nat \<Rightarrow> nat \<Rightarrow> bytes \<Rightarrow> bytes \<times> nat" where
  "compress_loop src mflimit table anchor ip out =
     (if ip < mflimit then
        let h = hash_4 (take 4 (drop ip src));
            match_pos = table ! h;
            table = table[h := ip] in
        if match_pos < ip \<and> ip - match_pos \<le> MAX_DISTANCE \<and>
           take 4 (drop match_pos src) = take 4 (drop ip src)
        then
          let match_len = 4 + extend_match src (match_pos + 4) (ip + 4) (length src - (ip + 4));
              out = out @ match_sequence (take (ip - anchor) (drop anchor src)) (ip - match_pos) match_len;
              ip = ip + match_len;
              table = (if ip < mflimit then table[hash_4 (take 4 (drop (ip - 2) src)) := ip - 2] else table)
          in compress_loop src mflimit table ip ip out
        else compress_loop src mflimit table anchor (ip + 1) out
      else (out, anchor))"
  by pat_completeness auto
termination
  by (relation "measure (\<lambda>(src, mflimit, table, anchor, ip, out). mflimit - ip)") auto

declare compress_loop.simps [simp del]

definition compress_lz4_block :: "bytes \<Rightarrow> bytes" where
  "compress_lz4_block src =
     (if length src < MIN_MATCH then literal_run src
      else case compress_loop src (length src - 12) (replicate HASH_TABLE_SIZE 0) 0 0 [] of
        (out, anchor) \<Rightarrow> out @ literal_run (drop anchor src))"

section \<open>The decoder\<close>

fun read_ext :: "nat \<Rightarrow> bytes \<Rightarrow> nat \<times> bytes" where
  "read_ext len [] = (len, [])"
| "read_ext len (extra # bs) =
     (if extra \<noteq> 255 then (len + unat extra, bs) else read_ext (len + unat extra) bs)"

fun copy_match :: "nat \<Rightarrow> nat \<Rightarrow> bytes \<Rightarrow> bytes" where
  "copy_match pos 0 out = out"
| "copy_match pos (Suc n) out = copy_match (Suc pos) n (out @ [out ! pos])"

lemma read_ext_length: "length (snd (read_ext len bs)) \<le> length bs"
  by (induction len bs rule: read_ext.induct) auto

function decompress_loop :: "nat \<Rightarrow> bytes \<Rightarrow> bytes \<Rightarrow> bytes result" where
  "decompress_loop target_len [] out = Inr out"
| "decompress_loop target_len (token # src) out =
     (if length out \<ge> target_len then Inr out
      else
        let (lit_len, src) = (if drop_bit 4 token = 15 then read_ext 15 src
                              else (unat (drop_bit 4 token), src)) in
        if lit_len > length src \<or> length out + lit_len > target_len
        then Inl (Corrupted ''LZ4 literal run out of bounds'')
        else
          let out = out @ take lit_len src; src = drop lit_len src in
          if length out \<ge> target_len \<or> src = [] then Inr out
          else if length src < 2 then Inl (Corrupted ''LZ4 match offset truncated'')
          else
            let offset = unat (from_le16 (take 2 src)); src = drop 2 src in
            if offset = 0 \<or> offset > length out
            then Inl (Corrupted ''LZ4 invalid back-reference offset: {offset} (current out len: {})'')
            else
              let (match_len, src) = (if token AND 15 = 15 then read_ext (15 + 4) src
                                      else (unat (token AND 15) + 4, src)) in
              if length out + match_len > target_len
              then Inl (Corrupted ''LZ4 match exceeds declared output size'')
              else decompress_loop target_len src (copy_match (length out - offset) match_len out))"
  by pat_completeness auto
termination
proof (relation "measure (\<lambda>(n, src, out). length src)", goal_cases)
  case (2 target_len token src out x lit_len src1 out1 src2 offset src3 y match_len src4)
  have "length src1 \<le> length src"
    using 2(2,3) read_ext_length [of 15 src] by (auto split: if_splits) (metis snd_conv)
  moreover have "length src4 \<le> length src3"
    using 2(12,13) read_ext_length [of "15 + 4" src3] by (auto split: if_splits) (metis snd_conv)
  ultimately show ?case using 2 by simp
qed simp

declare decompress_loop.simps(2) [simp del]

definition decompress_lz4_block :: "bytes \<Rightarrow> nat \<Rightarrow> bytes result" where
  "decompress_lz4_block src target_len = decompress_loop target_len src []"

section \<open>Page frames\<close>

definition compress_page_frame :: "bytes \<Rightarrow> bytes" where
  "compress_page_frame raw_page =
     (let compressed = compress_lz4_block raw_page in
      if length compressed + 4 \<le> length raw_page - PAGE_RESERVED_TRAILER
      then [COMPRESSED_PAGE_MAGIC, LZ4_COMPRESSED_PAGE_FLAG] @ to_le16 (word_of_nat (length raw_page)) @ compressed
      else raw_page)"

definition decompress_page_frame :: "bytes \<Rightarrow> nat \<Rightarrow> bytes result" where
  "decompress_page_frame frame default_page_size =
     (if length frame < 4 \<or> frame ! 0 \<noteq> COMPRESSED_PAGE_MAGIC then Inr frame
      else if unat (u16_at frame 2) \<noteq> default_page_size then Inr frame
      else if frame ! 1 = UNCOMPRESSED_PAGE_FLAG then Inr (drop 4 frame)
      else if frame ! 1 = LZ4_COMPRESSED_PAGE_FLAG
      then bind_r (decompress_lz4_block (drop 4 frame) default_page_size) (\<lambda>res.
             if length res \<noteq> default_page_size then Inl (Corrupted ''Compressed page length mismatch'')
             else Inr res)
      else Inr frame)"

section \<open>Sequences decode\<close>

lemma read_ext_bytes: "read_ext len (ext_bytes rem @ rest) = (len + rem, rest)"
proof (induction rem arbitrary: len rule: ext_bytes.induct)
  case (1 rem)
  show ?case
  proof (cases "rem \<ge> 255")
    case True
    then show ?thesis using 1 [OF True, of "len + 255"] by (subst ext_bytes.simps) simp
  next
    case False
    then have "unat (word_of_nat rem :: u8) = rem" by (simp add: unat_of_nat)
    moreover from this have "(word_of_nat rem :: u8) \<noteq> 255" using False by auto
    ultimately show ?thesis using False by (subst ext_bytes.simps) simp
  qed
qed

text \<open>The two nibbles of a token.\<close>

lemma token_nibbles:
  assumes "a \<le> 15" "b \<le> 15"
  shows "drop_bit 4 (word_of_nat (a * 16 + b) :: u8) = word_of_nat a"
    "(word_of_nat (a * 16 + b) :: u8) AND 15 = word_of_nat b"
    "unat (word_of_nat a :: u8) = a"
proof -
  have u: "unat (word_of_nat (a * 16 + b) :: u8) = a * 16 + b"
    using assms by (simp add: unat_of_nat del: of_nat_add of_nat_mult)
  show ua: "unat (word_of_nat a :: u8) = a" using assms by (simp add: unat_of_nat)
  have ub: "unat (word_of_nat b :: u8) = b" using assms by (simp add: unat_of_nat)
  have "unat (drop_bit 4 (word_of_nat (a * 16 + b) :: u8)) = drop_bit 4 (a * 16 + b)"
    by (simp only: unat_drop_bit_eq u)
  then have "unat (drop_bit 4 (word_of_nat (a * 16 + b) :: u8)) = a"
    using assms by (simp add: drop_bit_eq_div del: of_nat_add of_nat_mult)
  then show "drop_bit 4 (word_of_nat (a * 16 + b) :: u8) = word_of_nat a"
    using ua by (metis word_unat_eq_iff)
  have m: "(15 :: u8) = mask 4" by (simp add: mask_eq_exp_minus_1)
  have "unat ((word_of_nat (a * 16 + b) :: u8) AND 15) = take_bit 4 (a * 16 + b)"
    by (simp only: m take_bit_eq_mask [symmetric] unsigned_take_bit_eq u)
  then have "unat ((word_of_nat (a * 16 + b) :: u8) AND 15) = (a * 16 + b) mod 16"
    by (simp add: take_bit_eq_mod del: of_nat_add of_nat_mult)
  then have "unat ((word_of_nat (a * 16 + b) :: u8) AND 15) = b" using assms by simp
  then show "(word_of_nat (a * 16 + b) :: u8) AND 15 = word_of_nat b"
    using ub by (metis word_unat_eq_iff)
qed

lemma nibble_15: "a \<le> 15 \<Longrightarrow> (word_of_nat a :: u8) = 15 \<longleftrightarrow> a = 15"
proof
  assume "a \<le> 15" "(word_of_nat a :: u8) = 15"
  then have "unat (word_of_nat a :: u8) = 15" by simp
  then show "a = 15" using \<open>a \<le> 15\<close> by (simp add: unat_of_nat)
qed simp

lemma read_len:
  "(if (word_of_nat (min n 15) :: u8) = 15 then read_ext (15 + c) (ext_if n @ rest)
    else (unat (word_of_nat (min n 15) :: u8) + c, ext_if n @ rest)) = (n + c, rest)"
proof (cases "n \<ge> 15")
  case True
  then show ?thesis by (simp add: ext_if_def read_ext_bytes min_absorb2)
next
  case False
  then have "unat (word_of_nat n :: u8) = n" "(word_of_nat n :: u8) \<noteq> 15"
    using nibble_15 [of n] by (simp_all add: unat_of_nat)
  then show ?thesis using False by (simp add: ext_if_def)
qed

lemma decode_match_sequence:
  assumes "1 \<le> offset" "offset \<le> 65535" "offset \<le> length (out @ lits)" "4 \<le> match_len"
    "length (out @ lits) + match_len \<le> target"
  shows "decompress_loop target (match_sequence lits offset match_len @ rest) out =
    decompress_loop target rest (copy_match (length (out @ lits) - offset) match_len (out @ lits))"
proof -
  define n where "n = length lits"
  define m where "m = match_len - 4"
  define token :: u8 where "token = word_of_nat (min n 15 * 16 + min m 15)"
  define tail where "tail = to_le16 (word_of_nat offset) @ ext_if m @ rest"
  have bytes: "match_sequence lits offset match_len @ rest = token # (ext_if n @ lits @ tail)"
    by (simp add: match_sequence_def n_def m_def token_def tail_def)
  have nib: "drop_bit 4 token = word_of_nat (min n 15)" "token AND 15 = word_of_nat (min m 15)"
    using token_nibbles [of "min n 15" "min m 15"] by (simp_all add: token_def)
  have lit: "(if drop_bit 4 token = 15 then read_ext 15 (ext_if n @ lits @ tail)
      else (unat (drop_bit 4 token), ext_if n @ lits @ tail)) = (n, lits @ tail)"
    using read_len [of n 0 "lits @ tail"] unfolding nib add_0_right .
  have mat: "(if token AND 15 = 15 then read_ext (15 + 4) (ext_if m @ rest)
      else (unat (token AND 15) + 4, ext_if m @ rest)) = (match_len, rest)"
  proof -
    have "m + 4 = match_len" using assms(4) by (simp add: m_def)
    then show ?thesis using read_len [of m 4 rest] unfolding nib by (simp only:)
  qed
  have off: "unat (from_le16 (take 2 tail)) = offset" "drop 2 tail = ext_if m @ rest"
    "\<not> length tail < 2"
    using assms(2) by (simp_all add: tail_def)
  have "tail \<noteq> []" using off(3) by auto
  have lt: "length out < target" using assms(4,5) by simp
  have sizes: "\<not> n > length (lits @ tail)" "\<not> length out + n > target"
    "\<not> length (out @ take n (lits @ tail)) \<ge> target" "drop n (lits @ tail) = tail"
    "out @ take n (lits @ tail) = out @ lits"
    using assms(4,5) by (simp_all add: n_def)
  have fin: "\<not> (offset = 0 \<or> offset > length (out @ lits))" "\<not> length (out @ lits) + match_len > target"
    using assms by simp_all
  show ?thesis
    unfolding bytes decompress_loop.simps(2) lit Let_def prod.case sizes(4,5) off(1,2) mat
    using lt sizes(1-3) \<open>tail \<noteq> []\<close> off(3) fin sizes(5) by (simp add: n_def)
qed

lemma decode_literal_run:
  assumes "target = length (out @ lits)" "lits \<noteq> []"
  shows "decompress_loop target (literal_run lits @ rest) out = Inr (out @ lits)"
proof -
  define n where "n = length lits"
  define token :: u8 where "token = word_of_nat (min n 15 * 16 + 0)"
  have bytes: "literal_run lits @ rest = token # (ext_if n @ lits @ rest)"
    by (simp add: literal_run_def n_def token_def)
  have "drop_bit 4 token = word_of_nat (min n 15)"
    using token_nibbles [of "min n 15" 0] by (simp add: token_def)
  then have lit: "(if drop_bit 4 token = 15 then read_ext 15 (ext_if n @ lits @ rest)
      else (unat (drop_bit 4 token), ext_if n @ lits @ rest)) = (n, lits @ rest)"
    using read_len [of n 0 "lits @ rest"] unfolding add_0_right by (simp only:)
  show ?thesis
    unfolding bytes decompress_loop.simps(2) lit Let_def prod.case
    using assms by (simp add: n_def)
qed

lemma copy_match_take:
  assumes "pos < ip" "ip + n \<le> length src" "\<And>j. j < n \<Longrightarrow> src ! (pos + j) = src ! (ip + j)"
  shows "copy_match pos n (take ip src) = take (ip + n) src"
  using assms
proof (induction n arbitrary: pos ip)
  case (Suc n)
  have "take ip src ! pos = src ! ip" using Suc.prems(1) Suc.prems(3) [of 0] by simp
  then have "take ip src @ [take ip src ! pos] = take (Suc ip) src"
    using Suc.prems(2) by (simp add: take_Suc_conv_app_nth)
  moreover have "copy_match (Suc pos) n (take (Suc ip) src) = take (Suc ip + n) src"
    using Suc.prems(1,2) Suc.prems(3) [of "Suc _"] by (intro Suc.IH) auto
  ultimately show ?case by simp
qed simp

lemma extend_match_bound: "extend_match src pos ip room \<le> room"
  by (induction src pos ip room rule: extend_match.induct) auto

lemma extend_match_eq: "j < extend_match src pos ip room \<Longrightarrow> src ! (pos + j) = src ! (ip + j)"
proof (induction src pos ip room arbitrary: j rule: extend_match.induct)
  case (2 src pos ip room)
  then show ?case by (cases j) (auto split: if_splits)
qed simp

text \<open>
  Every block the loop has written decodes to the input up to the anchor, whatever follows
  and whatever the hash table proposes.
\<close>

lemma compress_loop_decodes:
  assumes "\<And>rest. decompress_loop (length src) (out @ rest) [] = decompress_loop (length src) rest (take anchor src)"
    and "anchor \<le> ip" "mflimit + 12 \<le> length src \<or> mflimit = 0" "anchor \<le> length src"
    and "compress_loop src mflimit table anchor ip out = (out', anchor')"
  shows "(\<forall>rest. decompress_loop (length src) (out' @ rest) [] =
      decompress_loop (length src) rest (take anchor' src)) \<and> anchor' \<le> length src"
  using assms
proof (induction src mflimit table anchor ip out rule: compress_loop.induct)
  case (1 src mflimit table anchor ip out)
  show ?case
  proof (cases "ip < mflimit")
    case False
    then show ?thesis using 1(3,6,7) by (subst (asm) compress_loop.simps) auto
  next
    case True
    then have lim: "ip + 12 < length src" using 1(5) by auto
    define h where "h = hash_4 (take 4 (drop ip src))"
    define pos where "pos = table ! h"
    define table1 where "table1 = table[h := ip]"
    define ok where "ok \<longleftrightarrow> pos < ip \<and> ip - pos \<le> MAX_DISTANCE \<and> take 4 (drop pos src) = take 4 (drop ip src)"
    define len where "len = 4 + extend_match src (pos + 4) (ip + 4) (length src - (ip + 4))"
    define out1 where "out1 = out @ match_sequence (take (ip - anchor) (drop anchor src)) (ip - pos) len"
    define table2 where "table2 = (if ip + len < mflimit
        then table1[hash_4 (take 4 (drop (ip + len - 2) src)) := ip + len - 2] else table1)"
    have step: "compress_loop src mflimit table anchor ip out =
        (if ok then compress_loop src mflimit table2 (ip + len) (ip + len) out1
         else compress_loop src mflimit table1 anchor (ip + 1) out)"
      using True
      by (subst compress_loop.simps)
         (simp add: h_def pos_def table1_def ok_def len_def out1_def table2_def Let_def)
    show ?thesis
    proof (cases ok)
      case False
      have "compress_loop src mflimit table1 anchor (ip + 1) out = (out', anchor')"
        using 1(7) step False by simp
      then show ?thesis
        using 1(2) [OF True h_def pos_def table1_def] 1(3-6) False by (simp add: ok_def)
    next
      case okT: True
      have pos: "pos < ip" "ip - pos \<le> 65535" "take 4 (drop pos src) = take 4 (drop ip src)"
        using okT by (simp_all add: ok_def MAX_DISTANCE_def)
      have le: "ip + len \<le> length src" "4 \<le> len"
        using extend_match_bound [of src "pos + 4" "ip + 4" "length src - (ip + 4)"] lim
        by (simp_all add: len_def)
      have eq: "src ! (pos + j) = src ! (ip + j)" if "j < len" for j
      proof (cases "j < 4")
        case True
        have "take 4 (drop pos src) ! j = take 4 (drop ip src) ! j" using pos(3) by simp
        then show ?thesis using True lim pos(1) by simp
      next
        case False
        then have "j - 4 < extend_match src (pos + 4) (ip + 4) (length src - (ip + 4))"
          using that by (simp add: len_def)
        from extend_match_eq [OF this] show ?thesis using False by simp
      qed
      have lits: "take anchor src @ take (ip - anchor) (drop anchor src) = take ip src"
        using 1(4) take_add [of anchor "ip - anchor" src] by simp
      have l: "length (take ip src) = ip" using lim by simp
      have dec: "decompress_loop (length src) (out1 @ rest) [] =
          decompress_loop (length src) rest (take (ip + len) src)" for rest
      proof -
        have "decompress_loop (length src) (out1 @ rest) [] =
            decompress_loop (length src)
              (match_sequence (take (ip - anchor) (drop anchor src)) (ip - pos) len @ rest) (take anchor src)"
          using 1(3) by (simp add: out1_def)
        also have "\<dots> = decompress_loop (length src) rest (copy_match (ip - (ip - pos)) len (take ip src))"
          using decode_match_sequence [of "ip - pos" "take anchor src" "take (ip - anchor) (drop anchor src)" len
              "length src" rest] pos le lits l by simp
        also have "copy_match (ip - (ip - pos)) len (take ip src) = take (ip + len) src"
          using pos(1) le eq by (simp add: copy_match_take)
        finally show ?thesis .
      qed
      have run: "compress_loop src mflimit table2 (ip + len) (ip + len) out1 = (out', anchor')"
        using 1(7) step okT by simp
      show ?thesis
        using 1(1) [OF True h_def pos_def table1_def okT [unfolded ok_def] len_def out1_def refl table2_def
            dec _ 1(5) le(1) run] by simp
    qed
  qed
qed

lemma decompress_full: "target \<le> length out \<Longrightarrow> decompress_loop target bs out = Inr out"
  by (cases bs) (simp_all add: decompress_loop.simps(2))

lemma copy_match_length: "length (copy_match pos n out) = length out + n"
  by (induction pos n out rule: copy_match.induct) auto

lemma decompress_loop_bound:
  "decompress_loop target bs out = Inr res \<Longrightarrow> length out \<le> target \<Longrightarrow> length res \<le> target"
proof (induction target bs out arbitrary: res rule: decompress_loop.induct)
  case (2 target token src out)
  define p where "p = (if drop_bit 4 token = 15 then read_ext 15 src else (unat (drop_bit 4 token), src))"
  obtain lit_len src1 where p: "p = (lit_len, src1)" by (cases p)
  define out1 where "out1 = out @ take lit_len src1"
  define src2 where "src2 = drop lit_len src1"
  define q where "q = (if token AND 15 = 15 then read_ext (15 + 4) (drop 2 src2)
    else (unat (token AND 15) + 4, drop 2 src2))"
  obtain match_len src4 where q: "q = (match_len, src4)" by (cases q)
  define off where "off = unat (from_le16 (take 2 src2))"
  have step: "decompress_loop target (token # src) out =
     (if length out \<ge> target then Inr out
      else if lit_len > length src1 \<or> length out + lit_len > target
      then Inl (Corrupted ''LZ4 literal run out of bounds'')
      else if length out1 \<ge> target \<or> src2 = [] then Inr out1
      else if length src2 < 2 then Inl (Corrupted ''LZ4 match offset truncated'')
      else if off = 0 \<or> off > length out1
      then Inl (Corrupted ''LZ4 invalid back-reference offset: {offset} (current out len: {})'')
      else if length out1 + match_len > target then Inl (Corrupted ''LZ4 match exceeds declared output size'')
      else decompress_loop target src4 (copy_match (length out1 - off) match_len out1))"
    by (simp only: decompress_loop.simps(2) p_def [symmetric] p prod.case Let_def out1_def [symmetric]
        src2_def [symmetric] off_def [symmetric] q_def [symmetric] q)
  show ?case
  proof (cases "length out \<ge> target \<or> lit_len > length src1 \<or> length out + lit_len > target \<or>
      length out1 \<ge> target \<or> src2 = [] \<or> length src2 < 2 \<or> off = 0 \<or> off > length out1 \<or>
      length out1 + match_len > target")
    case True
    then show ?thesis using 2(2,3) unfolding step by (auto simp: out1_def split: if_splits)
  next
    case False
    then have run: "decompress_loop target src4 (copy_match (length out1 - off) match_len out1) = Inr res"
      using 2(2) unfolding step by simp
    show ?thesis
      by (rule 2(1) [of p lit_len src1 out1 src2 off "drop 2 src2" q match_len src4, OF _ p_def p [symmetric] _ out1_def src2_def _ _ off_def refl _ q_def q [symmetric] _ run])
         (use False in \<open>auto simp: copy_match_length\<close>)
  qed
qed simp

section \<open>Properties\<close>

text \<open>C31: The LZ4 round trip: for every byte string, whatever the hash table made the encoder
  match, decoding the block (also with padding behind it, as in a fixed-size page) with the
  original length as target gives the string back.\<close>

theorem lz4_roundtrip:
  "decompress_lz4_block (compress_lz4_block src @ rest) (length src) = Inr src"
proof (cases "length src < MIN_MATCH")
  case True
  then show ?thesis
    using decode_literal_run [of "length src" "[]" src rest]
    by (cases "src = []") (simp_all add: decompress_lz4_block_def compress_lz4_block_def decompress_full)
next
  case False
  obtain out anchor where run: "compress_loop src (length src - 12) (replicate HASH_TABLE_SIZE 0) 0 0 [] = (out, anchor)"
    by (metis prod.exhaust)
  have d: "decompress_loop (length src) (out @ r) [] = decompress_loop (length src) r (take anchor src)"
    "anchor \<le> length src" for r
  proof -
    have "length src - 12 + 12 \<le> length src \<or> length src - 12 = 0" by arith
    from compress_loop_decodes [OF _ _ this _ run]
    show "decompress_loop (length src) (out @ r) [] = decompress_loop (length src) r (take anchor src)"
      "anchor \<le> length src" by auto
  qed
  show ?thesis
  proof (cases "anchor = length src")
    case True
    then show ?thesis
      using d(1) [of "literal_run (drop anchor src) @ rest"] False
      by (simp add: decompress_lz4_block_def compress_lz4_block_def run decompress_full)
  next
    case notend: False
    then have "drop anchor src \<noteq> []" using d(2) by simp
    then show ?thesis
      using d(1) [of "literal_run (drop anchor src) @ rest"] False d(2)
        decode_literal_run [of "length src" "take anchor src" "drop anchor src" rest]
      by (simp add: decompress_lz4_block_def compress_lz4_block_def run)
  qed
qed

text \<open>C40: the decoder never writes more than the declared size, on any input.\<close>

theorem lz4_decode_bounded:
  assumes "decompress_lz4_block src target_len = Inr out"
  shows "length out \<le> target_len"
  using decompress_loop_bound [of target_len src "[]" out] assms
  by (simp add: decompress_lz4_block_def)

theorem lz4_decode_bounded_witness: "length [7 :: u8, 7] \<le> 3"
  by (rule lz4_decode_bounded [where src = "[0x20, 7, 7]"]) code_simp

text \<open>The frame a page is stored in: resized to the page size with zero bytes.\<close>

definition stored_frame :: "bytes \<Rightarrow> bytes" where
  "stored_frame page =
     (let frame = compress_page_frame page in
      take (length page) frame @ replicate (length page - length frame) 0)"

definition ambiguous_page :: "bytes \<Rightarrow> bool" where
  "ambiguous_page page \<longleftrightarrow> page ! 0 = COMPRESSED_PAGE_MAGIC \<and> unat (u16_at page 2) = length page \<and>
     (page ! 1 = UNCOMPRESSED_PAGE_FLAG \<or> page ! 1 = LZ4_COMPRESSED_PAGE_FLAG)"

text \<open>Transparent page compression is lossless: a page compressed, padded to the page size and
  decompressed is the page, unless it is stored raw and happens to begin with the bytes of a
  frame header for its own size.\<close>

theorem page_frame_roundtrip:
  assumes "4 \<le> length page" "length page < 65536"
    and "compress_page_frame page = page \<longrightarrow> \<not> ambiguous_page page"
  shows "decompress_page_frame (stored_frame page) (length page) = Inr page"
proof (cases "length (compress_lz4_block page) + 4 \<le> length page - PAGE_RESERVED_TRAILER")
  case False
  then have raw: "compress_page_frame page = page" by (simp add: compress_page_frame_def Let_def)
  then have "\<not> ambiguous_page page" using assms(3) by simp
  then show ?thesis
    by (auto simp: stored_frame_def raw decompress_page_frame_def ambiguous_page_def)
next
  case True
  define c where "c = compress_lz4_block page"
  define pad where "pad = replicate (length page - (length c + 4)) (0::u8)"
  have frame: "compress_page_frame page =
      [COMPRESSED_PAGE_MAGIC, LZ4_COMPRESSED_PAGE_FLAG] @ to_le16 (word_of_nat (length page)) @ c"
    using True by (simp add: compress_page_frame_def c_def Let_def)
  have st: "stored_frame page = COMPRESSED_PAGE_MAGIC # LZ4_COMPRESSED_PAGE_FLAG #
      to_le16 (word_of_nat (length page)) @ c @ pad"
    using True by (simp add: stored_frame_def frame pad_def Let_def c_def [symmetric])
  have "u16_at (stored_frame page) 2 = word_of_nat (length page)" by (simp add: st u16_at_def)
  moreover have "unat (word_of_nat (length page) :: u16) = length page" using assms(2) by simp
  moreover have "drop 4 (stored_frame page) = c @ pad" by (simp add: st)
  moreover have "\<not> length (stored_frame page) < 4" by (simp add: st)
  moreover have "stored_frame page ! 0 = COMPRESSED_PAGE_MAGIC" "stored_frame page ! 1 = LZ4_COMPRESSED_PAGE_FLAG"
    by (simp_all add: st)
  ultimately show ?thesis
    using lz4_roundtrip [of page pad]
    by (simp add: decompress_page_frame_def c_def LZ4_COMPRESSED_PAGE_FLAG_def UNCOMPRESSED_PAGE_FLAG_def)
qed

theorem page_frame_roundtrip_witness:
  "decompress_page_frame (stored_frame (replicate 64 9)) (length (replicate 64 (9::u8))) = Inr (replicate 64 9)"
  by (rule page_frame_roundtrip)
     (simp_all add: ambiguous_page_def COMPRESSED_PAGE_MAGIC_def)

text \<open>The frame header is not self-describing: a page stored raw that begins with the magic
  byte, the flag 0 and its own size in bytes 2 and 3 is read back four bytes short.\<close>

theorem raw_frame_ambiguous:
  assumes "compress_page_frame page = page" "4 \<le> length page" "page ! 0 = COMPRESSED_PAGE_MAGIC"
    and "page ! 1 = UNCOMPRESSED_PAGE_FLAG" "unat (u16_at page 2) = length page"
  shows "decompress_page_frame (stored_frame page) (length page) = Inr (drop 4 page) \<and> drop 4 page \<noteq> page"
proof -
  have "length (drop 4 page) \<noteq> length page" using assms(2) by simp
  then have "drop 4 page \<noteq> page" by metis
  then show ?thesis
    using assms by (simp add: stored_frame_def decompress_page_frame_def)
qed

theorem raw_frame_ambiguous_witness:
  "let page = [0x54, 0, 44, 0] @ replicate 40 0 in
   decompress_page_frame (stored_frame page) (length page) = Inr (drop 4 page) \<and> drop 4 page \<noteq> page"
  unfolding Let_def
proof (rule raw_frame_ambiguous)
  show "compress_page_frame ([0x54, 0, 44, 0] @ replicate 40 0) = [0x54, 0, 44, 0] @ replicate 40 0"
  proof -
    have "length ([0x54, 0, 44, 0] @ replicate 40 (0::u8)) = 44" by simp
    moreover have "0 < length (compress_lz4_block src)" for src
      by (cases "length src < MIN_MATCH")
         (auto simp: compress_lz4_block_def literal_run_def split: prod.splits)
    ultimately show ?thesis
      unfolding compress_page_frame_def Let_def by (simp add: PAGE_RESERVED_TRAILER_def)
  qed
qed (simp_all add: COMPRESSED_PAGE_MAGIC_def UNCOMPRESSED_PAGE_FLAG_def u16_at_def from_le16_def)

end
