(* ===== verification/Pager.thy ===== *)
theory Pager
  imports Wal_Checkpoint Lz4
begin

text \<open>
  \<^verbatim>\<open>src/src/pager/mod.rs\<close>, the page cache: reading, writing, allocating and freeing pages over
  the write-ahead log and the base file, with the undo images of an open transaction. The
  cipher is a parameter (a pair of functions; \<^verbatim>\<open>Crypto\<close> models the page format), so is the
  reader of a remote object. Lock files, paths and processes are not modelled.

  The LRU list is the source's doubly linked list in a map. Its loops follow links that only a
  well-formed list makes finite; they take fuel, one step for each of the \<open>2 ^ 32\<close> page
  numbers, which a well-formed list cannot use up (\<^verbatim>\<open>Pager_Lru\<close>).
\<close>

section \<open>State\<close>

record page_cipher =
  pc_encrypt :: "page_id \<Rightarrow> bytes \<Rightarrow> bytes result"
  pc_decrypt :: "page_id \<Rightarrow> bytes \<Rightarrow> bytes result"
  pc_salt :: bytes
  pc_generate_kcv :: "bytes result"
  pc_verify_kcv :: "bytes \<Rightarrow> bool"

record tx_savepoint =
  sp_header :: db_header
  sp_undo :: "page_id \<rightharpoonup> bytes option"
  sp_dirty :: "page_id set"
  sp_total_pages :: u32
  sp_wal_frames :: nat

record named_savepoint = tx_savepoint +
  sp_name :: string

record lru_node =
  ln_prev :: "page_id option"
  ln_next :: "page_id option"

record pager =
  pg_header :: db_header
  pg_file :: "disk_file option"
  pg_pages :: "page_id \<rightharpoonup> bytes"
  pg_wal :: "wal option"
  pg_threshold :: nat
  pg_cipher :: "page_cipher option"
  pg_tx :: "tx_savepoint option"
  pg_named :: "named_savepoint list"
  pg_capacity :: nat
  pg_head :: "page_id option"
  pg_tail :: "page_id option"
  pg_nodes :: "page_id \<rightharpoonup> lru_node"
  pg_reader :: "(nat \<Rightarrow> nat \<Rightarrow> bytes result) option"
  pg_writer :: bool

definition page_size :: "pager \<Rightarrow> nat" where
  "page_size p = unat (dh_page_size (pg_header p))"

definition total_pages :: "pager \<Rightarrow> u32" where
  "total_pages p = dh_total_pages (pg_header p)"

definition is_in_transaction :: "pager \<Rightarrow> bool" where
  "is_in_transaction p \<longleftrightarrow> pg_tx p \<noteq> None"

definition ensure_io_ready :: "pager \<Rightarrow> unit result" where
  "ensure_io_ready p =
     (if (case pg_wal p of None \<Rightarrow> False | Some w \<Rightarrow> requires_reopen w)
      then Inl (TransactionError ''Storage requires reopen after an incomplete I/O recovery'')
      else Inr ())"

definition read_only_remote :: "pager \<Rightarrow> bool" where
  "read_only_remote p \<longleftrightarrow> pg_reader p \<noteq> None \<and> pg_file p = None \<and> \<not> pg_writer p"

text \<open>\<^verbatim>\<open>read_exact\<close> at the cursor.\<close>

definition file_read_exact :: "nat \<Rightarrow> (disk_file, bytes) sm" where
  "file_read_exact n f =
     (if df_pos f + n \<le> length (df_data f)
      then (Inr (take n (drop (df_pos f) (df_data f))), f\<lparr>df_pos := df_pos f + n\<rparr>)
      else (Inl (Io ''failed to fill whole buffer''), f\<lparr>df_pos := max (df_pos f) (length (df_data f))\<rparr>))"

section \<open>The LRU list\<close>

definition set_next :: "page_id \<Rightarrow> page_id option \<Rightarrow> (page_id \<rightharpoonup> lru_node) \<Rightarrow> (page_id \<rightharpoonup> lru_node)" where
  "set_next q x m = (case m q of None \<Rightarrow> m | Some n \<Rightarrow> m(q \<mapsto> n\<lparr>ln_next := x\<rparr>))"

definition set_prev :: "page_id \<Rightarrow> page_id option \<Rightarrow> (page_id \<rightharpoonup> lru_node) \<Rightarrow> (page_id \<rightharpoonup> lru_node)" where
  "set_prev q x m = (case m q of None \<Rightarrow> m | Some n \<Rightarrow> m(q \<mapsto> n\<lparr>ln_prev := x\<rparr>))"

text \<open>Unlink a node from its neighbours.\<close>

definition lru_detach :: "lru_node \<Rightarrow> pager \<Rightarrow> pager" where
  "lru_detach node p =
     (let p1 = (case ln_prev node of
                  Some q \<Rightarrow> p\<lparr>pg_nodes := set_next q (ln_next node) (pg_nodes p)\<rparr>
                | None \<Rightarrow> p\<lparr>pg_head := ln_next node\<rparr>)
      in case ln_next node of
           Some q \<Rightarrow> p1\<lparr>pg_nodes := set_prev q (ln_prev node) (pg_nodes p1)\<rparr>
         | None \<Rightarrow> p1\<lparr>pg_tail := ln_prev node\<rparr>)"

definition touch_lru :: "page_id \<Rightarrow> pager \<Rightarrow> pager" where
  "touch_lru pid p =
     (if pg_tail p = Some pid then p
      else let p1 = (case pg_nodes p pid of None \<Rightarrow> p | Some node \<Rightarrow> lru_detach node p) in
        case pg_tail p1 of
          Some t \<Rightarrow> p1\<lparr>pg_nodes := (set_next t (Some pid) (pg_nodes p1))(pid \<mapsto> \<lparr>ln_prev = Some t, ln_next = None\<rparr>),
                       pg_tail := Some pid\<rparr>
        | None \<Rightarrow> p1\<lparr>pg_head := Some pid, pg_tail := Some pid,
                     pg_nodes := (pg_nodes p1)(pid \<mapsto> \<lparr>ln_prev = None, ln_next = None\<rparr>)\<rparr>)"

definition remove_lru :: "page_id \<Rightarrow> pager \<Rightarrow> pager" where
  "remove_lru pid p =
     (case pg_nodes p pid of
        None \<Rightarrow> p
      | Some node \<Rightarrow> lru_detach node (p\<lparr>pg_nodes := (pg_nodes p)(pid := None)\<rparr>))"

text \<open>Pages the open transaction needs, and page 1, are not evicted.\<close>

definition evictable :: "pager \<Rightarrow> page_id \<Rightarrow> bool" where
  "evictable p pid \<longleftrightarrow> pid \<noteq> 1 \<and>
     \<not> (case pg_tx p of None \<Rightarrow> False | Some sp \<Rightarrow> sp_undo sp pid \<noteq> None \<or> pid \<in> sp_dirty sp)"

fun evict_target :: "nat \<Rightarrow> pager \<Rightarrow> page_id option \<Rightarrow> page_id option" where
  "evict_target 0 p cur = None"
| "evict_target (Suc fuel) p None = None"
| "evict_target (Suc fuel) p (Some pid) =
     (if evictable p pid then Some pid
      else evict_target fuel p (case pg_nodes p pid of None \<Rightarrow> None | Some n \<Rightarrow> ln_next n))"

definition LRU_FUEL :: nat where "LRU_FUEL = 2 ^ 32"

definition evict_page :: "page_id \<Rightarrow> pager \<Rightarrow> pager" where
  "evict_page pid p = (let p1 = remove_lru pid p in p1\<lparr>pg_pages := (pg_pages p1)(pid := None)\<rparr>)"

fun evict_loop :: "nat \<Rightarrow> nat \<Rightarrow> pager \<Rightarrow> pager" where
  "evict_loop 0 capacity p = p"
| "evict_loop (Suc fuel) capacity p =
     (if card (dom (pg_pages p)) > capacity
      then case evict_target (Suc LRU_FUEL) p (pg_head p) of
             None \<Rightarrow> p
           | Some pid \<Rightarrow> evict_loop fuel capacity (evict_page pid p)
      else p)"

definition evict_if_needed :: "pager \<Rightarrow> pager" where
  "evict_if_needed p =
     (if pg_file p = None \<and> pg_wal p = None then p
      else evict_loop (Suc LRU_FUEL) (max (pg_capacity p) 4) p)"

section \<open>Reading\<close>

definition is_compressed :: "pager \<Rightarrow> bool" where
  "is_compressed p \<longleftrightarrow> dh_compression_flags (pg_header p) = 1"

definition decompress_if_needed :: "pager \<Rightarrow> page_id \<Rightarrow> bytes \<Rightarrow> bytes result" where
  "decompress_if_needed p pid raw =
     (if pid > 1 \<and> is_compressed p
      then bind_r (decompress_page_frame raw (page_size p)) (\<lambda>d.
             Inr (if length d < page_size p then d @ replicate (page_size p - length d) 0 else d))
      else Inr raw)"

definition decode_page :: "pager \<Rightarrow> page_id \<Rightarrow> bytes \<Rightarrow> bytes result" where
  "decode_page p pid raw =
     bind_r (case pg_cipher p of None \<Rightarrow> Inr raw | Some c \<Rightarrow> pc_decrypt c pid raw)
       (decompress_if_needed p pid)"

definition cache_loaded :: "page_id \<Rightarrow> bytes \<Rightarrow> (pager, bytes) sm" where
  "cache_loaded pid raw p =
     (case decode_page p pid raw of
        Inl e \<Rightarrow> (Inl e, p)
      | Inr d \<Rightarrow> (Inr d, evict_if_needed (touch_lru pid (p\<lparr>pg_pages := (pg_pages p)(pid \<mapsto> d)\<rparr>))))"

definition page_offset :: "pager \<Rightarrow> page_id \<Rightarrow> nat" where
  "page_offset p pid = (unat pid - 1) * page_size p"

definition read_page :: "page_id \<Rightarrow> (pager, bytes) sm" where
  "read_page pid p =
     (case ensure_io_ready p of
        Inl e \<Rightarrow> (Inl e, p)
      | Inr _ \<Rightarrow>
          if pid = 0 \<or> pid > total_pages p then (Inl (PageNotFound pid), p)
          else case pg_pages p pid of
            Some d \<Rightarrow> (Inr d, touch_lru pid p)
          | None \<Rightarrow> (case (case pg_wal p of None \<Rightarrow> None | Some w \<Rightarrow> wal_read_page w pid) of
              Some raw \<Rightarrow> cache_loaded pid raw p
            | None \<Rightarrow> (case pg_file p of
                Some f \<Rightarrow>
                  (case file_read_exact (page_size p) (file_seek (page_offset p pid) f) of
                     (Inl e, f') \<Rightarrow> (Inl e, p\<lparr>pg_file := Some f'\<rparr>)
                   | (Inr raw, f') \<Rightarrow> cache_loaded pid raw (p\<lparr>pg_file := Some f'\<rparr>))
              | None \<Rightarrow> (case pg_reader p of
                  Some fetch \<Rightarrow>
                    (case fetch (page_offset p pid) (page_size p) of
                       Inl e \<Rightarrow> (Inl e, p)
                     | Inr raw \<Rightarrow> cache_loaded pid raw p)
                | None \<Rightarrow> (Inl (PageNotFound pid), p)))))"

text \<open>\<^verbatim>\<open>if !contains_key(page_id) { let loaded = self.read_page(page_id)?; insert }\<close>\<close>

definition ensure_loaded :: "page_id \<Rightarrow> (pager, unit) sm" where
  "ensure_loaded pid p =
     (if pg_pages p pid = None
      then bind_s (read_page pid) (\<lambda>d. put_s (\<lambda>p. p\<lparr>pg_pages := (pg_pages p)(pid \<mapsto> d)\<rparr>)) p
      else (Inr (), p))"

definition with_page :: "page_id \<Rightarrow> (bytes \<Rightarrow> 'r result) \<Rightarrow> (pager, 'r) sm" where
  "with_page pid f p =
     (if pid = 0 \<or> pid > total_pages p then (Inl (PageNotFound pid), p)
      else bind_s (ensure_loaded pid) (\<lambda>_ p.
        case pg_pages p pid of None \<Rightarrow> (Inl Panic, p) | Some buf \<Rightarrow> (f buf, p)) p)"

section \<open>Writing\<close>

definition map_last :: "('a \<Rightarrow> 'a) \<Rightarrow> 'a list \<Rightarrow> 'a list" where
  "map_last f xs = (if xs = [] then [] else butlast xs @ [f (last xs)])"

text \<open>\<^verbatim>\<open>sp.undo_pages.entry(page_id).or_insert(prev)\<close>\<close>

definition undo_or_insert :: "page_id \<Rightarrow> bytes option \<Rightarrow> 'a tx_savepoint_scheme \<Rightarrow> 'a tx_savepoint_scheme" where
  "undo_or_insert pid prev sp =
     (if sp_undo sp pid = None then sp\<lparr>sp_undo := (sp_undo sp)(pid \<mapsto> prev)\<rparr> else sp)"

definition mark_sp_dirty :: "page_id \<Rightarrow> 'a tx_savepoint_scheme \<Rightarrow> 'a tx_savepoint_scheme" where
  "mark_sp_dirty pid sp = sp\<lparr>sp_dirty := insert pid (sp_dirty sp)\<rparr>"

text \<open>The undo image of a page about to change: the same statements in \<^verbatim>\<open>write_page\<close> and
  \<^verbatim>\<open>modify_page\<close>.\<close>

definition record_undo :: "page_id \<Rightarrow> (pager, unit) sm" where
  "record_undo pid p =
     (case pg_tx p of
        Some sp \<Rightarrow>
          if sp_undo sp pid = None
          then bind_s (\<lambda>p. case pg_pages p pid of
                    Some cached \<Rightarrow> (Inr (Some cached), p)
                  | None \<Rightarrow> if pid \<le> sp_total_pages sp
                            then bind_s (read_page pid) (\<lambda>d. ret_s (Some d)) p
                            else (Inr None, p))
                (\<lambda>prev. put_s (\<lambda>p. p\<lparr>pg_tx := map_option (\<lambda>sp. sp\<lparr>sp_undo := (sp_undo sp)(pid \<mapsto> prev)\<rparr>) (pg_tx p),
                                   pg_named := map_last (undo_or_insert pid prev) (pg_named p)\<rparr>)) p
          else (Inr (), p\<lparr>pg_named := map_last (undo_or_insert pid (pg_pages p pid)) (pg_named p)\<rparr>)
      | None \<Rightarrow> (Inr (), p\<lparr>pg_named := map_last (undo_or_insert pid (pg_pages p pid)) (pg_named p)\<rparr>))"

text \<open>\<^verbatim>\<open>if is_in_tx { .. insert into both dirty sets .. }\<close>\<close>

definition mark_dirty :: "page_id \<Rightarrow> pager \<Rightarrow> pager" where
  "mark_dirty pid p =
     p\<lparr>pg_tx := map_option (mark_sp_dirty pid) (pg_tx p),
       pg_named := map_last (mark_sp_dirty pid) (pg_named p)\<rparr>"

text \<open>Header bytes over the front of page 1.\<close>

definition patch_header :: "crc_fun \<Rightarrow> db_header \<Rightarrow> bytes \<Rightarrow> bytes" where
  "patch_header crc h d =
     (let hb = db_header_to_bytes crc h; len = min (length hb) (length d) in take len hb @ drop len d)"

definition sync_header_into_page1_cache :: "crc_fun \<Rightarrow> pager \<Rightarrow> pager" where
  "sync_header_into_page1_cache crc p =
     p\<lparr>pg_pages := (pg_pages p)(1 \<mapsto> patch_header crc (pg_header p)
         (case pg_pages p 1 of None \<Rightarrow> replicate (page_size p) 0 | Some d \<Rightarrow> d))\<rparr>"

definition encrypt_if :: "pager \<Rightarrow> page_id \<Rightarrow> bytes \<Rightarrow> bytes result" where
  "encrypt_if p pid d = (case pg_cipher p of None \<Rightarrow> Inr d | Some c \<Rightarrow> pc_encrypt c pid d)"

text \<open>The file as it is used by the pager: seek, write all.\<close>

definition file_write_page :: "nat \<Rightarrow> bytes \<Rightarrow> disk_file \<Rightarrow> disk_file" where
  "file_write_page off bs f = file_write bs (file_seek off f)"

definition pager_checkpoint :: "crc_fun \<Rightarrow> (pager, nat) sm" where
  "pager_checkpoint crc p =
     (case pg_wal p of
        None \<Rightarrow> (Inr 0, p)
      | Some w \<Rightarrow>
          (case wal_checkpoint crc (w, \<lparr>bs_file = pg_file p, bs_memory = pg_pages p\<rparr>) of
             (r, w', base) \<Rightarrow> (r, p\<lparr>pg_wal := Some w', pg_file := bs_file base, pg_pages := bs_memory base\<rparr>)))"

text \<open>\<^verbatim>\<open>if let Some(wal) = &mut self.wal { wal.write_frame(..)?; }\<close> of a pager that has a log.\<close>

definition pager_log :: "crc_fun \<Rightarrow> page_id \<Rightarrow> bytes \<Rightarrow> bool \<Rightarrow> (pager, unit) sm" where
  "pager_log crc pid bs is_commit p =
     (case pg_wal p of
        None \<Rightarrow> (Inr (), p)
      | Some w \<Rightarrow> (case wal_write_frame crc pid bs is_commit (total_pages p) w of
          (r, w') \<Rightarrow> (r, p\<lparr>pg_wal := Some w'\<rparr>)))"

definition page_payload :: "pager \<Rightarrow> page_id \<Rightarrow> bytes \<Rightarrow> bytes" where
  "page_payload p pid d =
     (if is_compressed p \<and> pid > 1
      then let c = compress_page_frame d in
           if length c < page_size p then c @ replicate (page_size p - length c) 0 else c
      else d)"

text \<open>The write of a page outside a transaction, after the cache has been updated.\<close>

definition write_through :: "crc_fun \<Rightarrow> page_id \<Rightarrow> bytes \<Rightarrow> (pager, unit) sm" where
  "write_through crc pid d p =
     (let p1 = evict_if_needed (touch_lru pid p) in
      bind_s (lift_s (encrypt_if p1 pid (page_payload p1 pid d))) (\<lambda>disk_bytes p.
        case pg_wal p of
          Some _ \<Rightarrow>
            bind_s (pager_log crc pid disk_bytes True) (\<lambda>_ p.
              if (case pg_wal p of None \<Rightarrow> 0 | Some w \<Rightarrow> frame_count w) \<ge> pg_threshold p
              then bind_s (pager_checkpoint crc) (\<lambda>_. ret_s ()) p
              else (Inr (), p)) p
        | None \<Rightarrow>
            (Inr (), p\<lparr>pg_file := map_option (file_write_page (page_offset p pid) disk_bytes) (pg_file p)\<rparr>)) p1)"

definition write_page :: "crc_fun \<Rightarrow> page_id \<Rightarrow> bytes \<Rightarrow> (pager, unit) sm" where
  "write_page crc pid d p =
     (if read_only_remote p
      then (Inl (Corrupted ''Cannot write to read-only remote storage connection (HTTP Range reader is read-only)''), p)
      else if pg_file p = None \<and> pg_writer p
      then (Inr (), touch_lru pid (p\<lparr>pg_pages := (pg_pages p)(pid \<mapsto> d)\<rparr>))
      else if length d \<noteq> page_size p then (Inl (Corrupted ''Invalid page data length''), p)
      else if pid = 0 \<or> pid > total_pages p then (Inl (PageNotFound pid), p)
      else let d = (if pid = 1 then patch_header crc (pg_header p) d else d) in
        bind_s (record_undo pid) (\<lambda>_ p.
          let p = p\<lparr>pg_pages := (pg_pages p)(pid \<mapsto> d)\<rparr> in
          if is_in_transaction p then (Inr (), mark_dirty pid p)
          else write_through crc pid d p) p)"

text \<open>The closure of \<^verbatim>\<open>modify_page\<close> returns its result and the buffer it has changed, also when
  it fails.\<close>

definition modify_page :: "crc_fun \<Rightarrow> page_id \<Rightarrow> (bytes \<Rightarrow> 'r result \<times> bytes) \<Rightarrow> (pager, 'r) sm" where
  "modify_page crc pid f p =
     (if pid = 0 \<or> pid > total_pages p then (Inl (PageNotFound pid), p)
      else bind_s (ensure_loaded pid) (\<lambda>_.
        bind_s (record_undo pid) (\<lambda>_ p.
          let p = (if is_in_transaction p then mark_dirty pid p else p) in
          case pg_pages p pid of
            None \<Rightarrow> (Inl Panic, p)
          | Some buf \<Rightarrow> (case f buf of
              (Inl e, buf') \<Rightarrow> (Inl e, p\<lparr>pg_pages := (pg_pages p)(pid \<mapsto> buf')\<rparr>)
            | (Inr res, buf') \<Rightarrow>
                let buf' = (if pid = 1 then patch_header crc (pg_header p) buf' else buf');
                    p = p\<lparr>pg_pages := (pg_pages p)(pid \<mapsto> buf')\<rparr> in
                if is_in_transaction p then (Inr res, p)
                else bind_s (write_page crc pid buf') (\<lambda>_. ret_s res) p))) p)"

definition pager_sync_header :: "crc_fun \<Rightarrow> (pager, unit) sm" where
  "pager_sync_header crc p =
     (let h = pg_header p;
          p = p\<lparr>pg_header := h\<lparr>dh_header_crc32 := dh_calculate_crc crc h\<rparr>\<rparr> in
      bind_s (read_page 1) (\<lambda>page p.
        if length page < DATABASE_HEADER_SIZE then (Inl Panic, p)
        else write_page crc 1 (db_header_to_bytes crc (pg_header p) @ drop DATABASE_HEADER_SIZE page) p) p)"

section \<open>The free list\<close>

text \<open>A trunk page: next trunk, slot count, page numbers.\<close>

definition trunk_capacity :: "pager \<Rightarrow> nat" where
  "trunk_capacity p = (page_size p - 8) div 4"

definition set_header :: "(db_header \<Rightarrow> db_header) \<Rightarrow> pager \<Rightarrow> pager" where
  "set_header f p = p\<lparr>pg_header := f (pg_header p)\<rparr>"

definition dec_freelist :: "db_header \<Rightarrow> db_header" where
  "dec_freelist h =
     h\<lparr>dh_freelist_count := (if dh_freelist_count h = 0 then 0 else dh_freelist_count h - 1)\<rparr>"

text \<open>Four bytes of a page, indexed one by one.\<close>

definition page_u32 :: "bytes \<Rightarrow> nat \<Rightarrow> u32 result" where
  "page_u32 d i = (if i + 4 \<le> length d then Inr (u32_at d i) else Inl Panic)"

definition pop_trunk :: "crc_fun \<Rightarrow> page_id \<Rightarrow> (pager, page_id) sm" where
  "pop_trunk crc trunk_id =
     bind_s (read_page trunk_id) (\<lambda>trunk.
     bind_s (lift_s (page_u32 trunk 4)) (\<lambda>n.
       if unat n > 0
       then (\<lambda>p. if unat n > trunk_capacity p
              then (Inl (Corrupted ''Freelist slot count exceeds page capacity''), p)
              else bind_s (lift_s (page_u32 trunk (8 + (unat n - 1) * 4))) (\<lambda>reused_id.
                   bind_s (lift_s (put_r trunk 4 (to_le32 (word_of_nat (unat n - 1))))) (\<lambda>trunk'.
                   bind_s (write_page crc trunk_id trunk') (\<lambda>_.
                   bind_s (put_s (set_header dec_freelist)) (\<lambda>_. ret_s reused_id)))) p)
       else bind_s (put_s (set_header (\<lambda>h. dec_freelist (h\<lparr>dh_freelist_trunk := u32_at trunk 0\<rparr>))))
              (\<lambda>_. ret_s trunk_id)))"

text \<open>The page number an allocation uses, and whether it comes from the free list.\<close>

definition pick_page :: "crc_fun \<Rightarrow> (pager, page_id \<times> bool) sm" where
  "pick_page crc p =
     (if dh_freelist_count (pg_header p) > 0 \<and> dh_freelist_trunk (pg_header p) > 0
      then bind_s (pop_trunk crc (dh_freelist_trunk (pg_header p))) (\<lambda>pid. ret_s (pid, True)) p
      else if total_pages p = - 1 then (Inl Panic, p)
      else let new_id = total_pages p + 1 in
        (Inr (new_id, False), set_header (\<lambda>h. h\<lparr>dh_total_pages := new_id\<rparr>) p))"

definition allocate_page :: "crc_fun \<Rightarrow> (pager, page_id) sm" where
  "allocate_page crc p =
     (if read_only_remote p
      then (Inl (Corrupted ''Cannot allocate pages on read-only remote storage connection''), p)
      else let psize = page_size p in
        bind_s (pick_page crc) (\<lambda>(pid, reused).
        bind_s (if reused then bind_s (read_page pid) (\<lambda>d. ret_s (Some d)) else ret_s None) (\<lambda>original.
        bind_s (put_s (\<lambda>p. p\<lparr>pg_tx := map_option (undo_or_insert pid original) (pg_tx p),
                             pg_named := map_last (undo_or_insert pid original) (pg_named p)\<rparr>)) (\<lambda>_ p.
        let empty_page = replicate psize 0;
            cached = (\<lambda>p. p\<lparr>pg_pages := (pg_pages p)(pid \<mapsto> empty_page)\<rparr>) in
        if \<not> reused \<and> pg_file p = None \<and> pg_writer p
        then (Inr pid, sync_header_into_page1_cache crc (cached p))
        else
          let p = (if \<not> reused \<and> \<not> is_in_transaction p \<and> pg_wal p = None
                   then p\<lparr>pg_file := map_option (file_write_page ((unat pid - 1) * psize) empty_page) (pg_file p)\<rparr>
                   else p);
              p = sync_header_into_page1_cache crc (evict_if_needed (touch_lru pid (cached p))) in
          case pg_pages p 1 of
            None \<Rightarrow> (Inr pid, p)
          | Some page1 \<Rightarrow>
              if is_in_transaction p then (Inr pid, mark_dirty pid (mark_dirty 1 p))
              else bind_s (lift_s (encrypt_if p 1 page1)) (\<lambda>payload p.
                case pg_wal p of
                  Some _ \<Rightarrow> bind_s (pager_log crc 1 payload True) (\<lambda>_. ret_s pid) p
                | None \<Rightarrow>
                    (Inr pid, p\<lparr>pg_file := map_option (file_write_page 0 (db_header_to_bytes crc (pg_header p))) (pg_file p)\<rparr>)) p))) p)"

definition inc_freelist :: "(pager, unit) sm" where
  "inc_freelist p =
     (if dh_freelist_count (pg_header p) = - 1 then (Inl Panic, p)
      else (Inr (), set_header (\<lambda>h. h\<lparr>dh_freelist_count := dh_freelist_count h + 1\<rparr>) p))"

text \<open>A page pushed on a trunk that has room, or made the new trunk.\<close>

definition push_trunk :: "crc_fun \<Rightarrow> page_id \<Rightarrow> page_id \<Rightarrow> (pager, unit) sm" where
  "push_trunk crc pid trunk_id =
     bind_s (read_page trunk_id) (\<lambda>trunk.
     bind_s (lift_s (page_u32 trunk 4)) (\<lambda>n p.
       if unat n < trunk_capacity p
       then bind_s (lift_s (put_r trunk (8 + unat n * 4) (to_le32 pid))) (\<lambda>trunk1.
            bind_s (lift_s (put_r trunk1 4 (to_le32 (word_of_nat (unat n + 1))))) (\<lambda>trunk2.
            bind_s (write_page crc trunk_id trunk2) (\<lambda>_. inc_freelist))) p
       else bind_s (write_page crc pid (splice (replicate (page_size p) 0) 0 (to_le32 trunk_id))) (\<lambda>_.
            bind_s (put_s (set_header (\<lambda>h. h\<lparr>dh_freelist_trunk := pid\<rparr>))) (\<lambda>_. inc_freelist)) p))"

definition free_page :: "crc_fun \<Rightarrow> page_id \<Rightarrow> (pager, unit) sm" where
  "free_page crc pid p =
     (if pid = 0 \<or> pid > total_pages p \<or> pid = 1 then (Inl (Corrupted ''Invalid page to free''), p)
      else bind_s (if dh_freelist_trunk (pg_header p) = 0
          then bind_s (write_page crc pid (replicate (page_size p) 0)) (\<lambda>_.
                 put_s (set_header (\<lambda>h. h\<lparr>dh_freelist_trunk := pid, dh_freelist_count := 1\<rparr>)))
          else push_trunk crc pid (dh_freelist_trunk (pg_header p)))
        (\<lambda>_. put_s (sync_header_into_page1_cache crc)) p)"

end
