(* ===== verification/Pager_Tx.thy ===== *)
theory Pager_Tx
  imports Pager
begin

text \<open>
  \<^verbatim>\<open>src/src/pager/mod.rs\<close>, transactions: begin, commit, rollback and named savepoints, opening a
  database, and the exports that read every page. A loop over a \<^verbatim>\<open>HashMap\<close> runs here in
  ascending order of the page numbers; Rust leaves the order open, and only the LRU list
  depends on it.
\<close>

section \<open>Transactions\<close>

definition wal_frame_count :: "pager \<Rightarrow> nat" where
  "wal_frame_count p = (case pg_wal p of None \<Rightarrow> 0 | Some w \<Rightarrow> frame_count w)"

definition begin_transaction :: "(pager, unit) sm" where
  "begin_transaction p =
     (case ensure_io_ready p of
        Inl e \<Rightarrow> (Inl e, p)
      | Inr _ \<Rightarrow>
          if read_only_remote p
          then (Inl (Corrupted ''Cannot mutate a read-only remote storage connection''), p)
          else if pg_tx p \<noteq> None then (Inl (TransactionError ''Transaction already in progress''), p)
          else (Inr (), p\<lparr>pg_tx := Some \<lparr>sp_header = pg_header p, sp_undo = (\<lambda>_. None), sp_dirty = {},
                  sp_total_pages = total_pages p, sp_wal_frames = wal_frame_count p\<rparr>\<rparr>))"

text \<open>The image of a page that a commit logs.\<close>

definition resize_to :: "nat \<Rightarrow> bytes \<Rightarrow> bytes" where
  "resize_to n d = take n d @ replicate (n - length d) 0"

definition commit_image :: "pager \<Rightarrow> page_id \<Rightarrow> bytes \<Rightarrow> bytes result" where
  "commit_image p pid d =
     encrypt_if p pid (resize_to (page_size p) (if is_compressed p \<and> pid > 1 then compress_page_frame d else d))"

definition commit_page :: "crc_fun \<Rightarrow> page_id \<Rightarrow> bool \<Rightarrow> (pager, unit) sm" where
  "commit_page crc pid is_last p =
     (case pg_pages p pid of
        None \<Rightarrow> (Inl Panic, p)
      | Some d \<Rightarrow>
          bind_s (lift_s (commit_image p pid d)) (\<lambda>bs p.
            case pg_wal p of
              Some _ \<Rightarrow> pager_log crc pid bs is_last p
            | None \<Rightarrow> (Inr (), p\<lparr>pg_file := map_option (file_write_page (page_offset p pid) bs) (pg_file p)\<rparr>)) p)"

fun commit_pages :: "crc_fun \<Rightarrow> page_id list \<Rightarrow> (pager, unit) sm" where
  "commit_pages crc [] = ret_s ()"
| "commit_pages crc (pid # pids) = bind_s (commit_page crc pid (pids = [])) (\<lambda>_. commit_pages crc pids)"

definition dirty_list :: "pager \<Rightarrow> page_id list" where
  "dirty_list p =
     (case pg_tx p of
        None \<Rightarrow> []
      | Some sp \<Rightarrow> sorted_list_of_set {pid \<in> sp_dirty sp. pid \<le> total_pages p \<and> pg_pages p pid \<noteq> None})"

definition pager_wal_rollback :: "nat \<Rightarrow> (pager, unit) sm" where
  "pager_wal_rollback n p =
     (case pg_wal p of
        None \<Rightarrow> (Inr (), p)
      | Some w \<Rightarrow> (case wal_rollback_to n w of (r, w') \<Rightarrow> (r, p\<lparr>pg_wal := Some w'\<rparr>)))"

definition commit_transaction :: "crc_fun \<Rightarrow> (pager, unit) sm" where
  "commit_transaction crc p =
     (case pg_tx p of
        None \<Rightarrow> (Inl (TransactionError ''No active transaction to commit''), p)
      | Some sp \<Rightarrow>
          if dh_change_counter (sp_header sp) = - 1
          then (Inl (TransactionError ''Commit sequence exhausted''), p)
          else
            let p1 = sync_header_into_page1_cache crc
                       (set_header (\<lambda>h. h\<lparr>dh_change_counter := dh_change_counter (sp_header sp) + 1\<rparr>) p);
                p2 = p1\<lparr>pg_tx := map_option (mark_sp_dirty 1) (pg_tx p1)\<rparr> in
            case commit_pages crc (dirty_list p2) p2 of
              (Inl e, p3) \<Rightarrow> bind_s (pager_wal_rollback (sp_wal_frames sp)) (\<lambda>_. fail_s e) p3
            | (Inr _, p3) \<Rightarrow>
                let p4 = p3\<lparr>pg_tx := None, pg_named := []\<rparr>;
                    p5 = (if pg_wal p4 \<noteq> None \<and> wal_frame_count p4 \<ge> pg_threshold p4
                          then snd (pager_checkpoint crc p4) else p4)
                in (Inr (), evict_if_needed p5))"

text \<open>One entry of an undo map put back.\<close>

definition restore_page :: "page_id \<times> bytes option \<Rightarrow> pager \<Rightarrow> pager" where
  "restore_page = (\<lambda>(pid, original) p.
     case original of
       Some prev \<Rightarrow> touch_lru pid (p\<lparr>pg_pages := (pg_pages p)(pid \<mapsto> prev)\<rparr>)
     | None \<Rightarrow> remove_lru pid (p\<lparr>pg_pages := (pg_pages p)(pid := None)\<rparr>))"

definition undo_entries :: "(page_id \<rightharpoonup> 'a) \<Rightarrow> (page_id \<times> 'a) list" where
  "undo_entries m = map (\<lambda>pid. (pid, the (m pid))) (sorted_list_of_set (dom m))"

definition restore_pages :: "(page_id \<rightharpoonup> bytes option) \<Rightarrow> pager \<Rightarrow> pager" where
  "restore_pages undo p = fold restore_page (undo_entries undo) p"

definition rollback_transaction :: "crc_fun \<Rightarrow> (pager, unit) sm" where
  "rollback_transaction crc p =
     (case pg_tx p of
        None \<Rightarrow> (Inl (TransactionError ''No active transaction to rollback''), p)
      | Some sp \<Rightarrow>
          pager_wal_rollback (sp_wal_frames sp)
            (sync_header_into_page1_cache crc
               ((restore_pages (sp_undo sp) (p\<lparr>pg_tx := None, pg_named := []\<rparr>))\<lparr>pg_header := sp_header sp\<rparr>)))"

section \<open>Savepoints\<close>

definition create_savepoint :: "string \<Rightarrow> (pager, unit) sm" where
  "create_savepoint name p =
     bind_s (\<lambda>p. if pg_tx p = None then begin_transaction p else (Inr (), p))
       (\<lambda>_. put_s (\<lambda>p. p\<lparr>pg_named := pg_named p @
          [\<lparr>sp_header = pg_header p, sp_undo = (\<lambda>_. None), sp_dirty = {}, sp_total_pages = total_pages p,
            sp_wal_frames = wal_frame_count p, sp_name = name\<rparr>]\<rparr>)) p"

definition savepoint_position :: "string \<Rightarrow> pager \<Rightarrow> nat option" where
  "savepoint_position name p =
     (let rest = dropWhile (\<lambda>sp. \<not> eq_ignore_ascii_case (sp_name sp) name) (rev (pg_named p)) in
      if rest = [] then None else Some (length rest - 1))"

function revert_savepoints :: "crc_fun \<Rightarrow> nat \<Rightarrow> (pager, unit) sm" where
  "revert_savepoints crc idx p =
     (if length (pg_named p) > idx
      then let sp = last (pg_named p);
               p1 = restore_pages (sp_undo sp) (p\<lparr>pg_named := butlast (pg_named p)\<rparr>);
               p2 = sync_header_into_page1_cache crc (p1\<lparr>pg_header := sp_header sp\<rparr>) in
        case pager_wal_rollback (sp_wal_frames sp) p2 of
          (Inl e, p3) \<Rightarrow> (Inl e, p3)
        | (Inr _, p3) \<Rightarrow> revert_savepoints crc idx (p3\<lparr>pg_named := butlast (pg_named p)\<rparr>)
      else (Inr (), p))"
  by pat_completeness auto
termination
  by (relation "measure (\<lambda>(crc, idx, p). length (pg_named p))") auto

declare revert_savepoints.simps [simp del]

definition savepoint_missing :: error where
  "savepoint_missing = TransactionError ''Savepoint does not exist''"

definition rollback_to_savepoint :: "crc_fun \<Rightarrow> string \<Rightarrow> (pager, unit) sm" where
  "rollback_to_savepoint crc name p =
     (case savepoint_position name p of
        None \<Rightarrow> (Inl savepoint_missing, p)
      | Some idx \<Rightarrow> bind_s (revert_savepoints crc idx) (\<lambda>_. create_savepoint name) p)"

definition merge_savepoint :: "named_savepoint \<Rightarrow> named_savepoint \<Rightarrow> named_savepoint" where
  "merge_savepoint child parent =
     parent\<lparr>sp_undo := sp_undo child ++ sp_undo parent, sp_dirty := sp_dirty parent \<union> sp_dirty child\<rparr>"

definition release_savepoint :: "string \<Rightarrow> (pager, unit) sm" where
  "release_savepoint name p =
     (case savepoint_position name p of
        None \<Rightarrow> (Inl savepoint_missing, p)
      | Some idx \<Rightarrow>
          (Inr (), p\<lparr>pg_named := map_last (fold merge_savepoint (drop idx (pg_named p))) (take idx (pg_named p))\<rparr>))"

section \<open>Snapshots and exports\<close>

definition require_committed_snapshot :: "pager \<Rightarrow> unit result" where
  "require_committed_snapshot p =
     bind_r (ensure_io_ready p) (\<lambda>_.
       if is_in_transaction p
       then Inl (TransactionError ''Commit or roll back the active transaction before exporting a snapshot'')
       else Inr ())"

definition page_ids :: "nat \<Rightarrow> page_id list" where
  "page_ids n = map word_of_nat [1..<Suc n]"

text \<open>One page of \<^verbatim>\<open>committed_pages\<close>; the file is read through a duplicate handle.\<close>

definition committed_page :: "pager \<Rightarrow> page_id \<Rightarrow> (page_id \<times> bytes) result" where
  "committed_page p pid =
     (case pg_pages p pid of
        Some d \<Rightarrow> Inr (pid, d)
      | None \<Rightarrow>
          bind_r (case (case pg_wal p of None \<Rightarrow> None | Some w \<Rightarrow> wal_read_page w pid) of
              Some raw \<Rightarrow> Inr raw
            | None \<Rightarrow> (case pg_file p of
                Some f \<Rightarrow> fst (file_read_exact (page_size p) (file_seek (page_offset p pid) f))
              | None \<Rightarrow> (case pg_reader p of
                  Some fetch \<Rightarrow> fetch (page_offset p pid) (page_size p)
                | None \<Rightarrow> Inl (PageNotFound pid))))
            (\<lambda>raw. bind_r (decode_page p pid raw) (\<lambda>d. Inr (pid, d))))"

definition committed_pages :: "pager \<Rightarrow> (page_id \<times> bytes) list result" where
  "committed_pages p =
     bind_r (require_committed_snapshot p) (\<lambda>_. map_r (committed_page p) (page_ids (unat (total_pages p))))"

fun export_loop :: "page_id list \<Rightarrow> (pager, bytes) sm" where
  "export_loop [] = ret_s []"
| "export_loop (pid # pids) =
     bind_s (read_page pid) (\<lambda>d.
     bind_s (\<lambda>p. (encrypt_if p pid d, p)) (\<lambda>disk_page.
     bind_s (export_loop pids) (\<lambda>rest. ret_s (disk_page @ rest))))"

definition export_bytes :: "crc_fun \<Rightarrow> (pager, bytes) sm" where
  "export_bytes crc p =
     bind_s (\<lambda>p. (require_committed_snapshot p, p)) (\<lambda>_.
     bind_s (pager_checkpoint crc) (\<lambda>_ p.
       export_loop (page_ids (unat (total_pages p))) p)) p"

definition export_wal_frames :: "pager \<Rightarrow> (page_id \<times> bytes) list" where
  "export_wal_frames p = (case pg_wal p of None \<Rightarrow> [] | Some w \<Rightarrow> export_frames w)"

definition apply_wal_frame :: "crc_fun \<Rightarrow> page_id \<Rightarrow> bytes \<Rightarrow> (pager, unit) sm" where
  "apply_wal_frame crc pid d = write_page crc pid d"

fun push_loop :: "page_id list \<Rightarrow> bytes \<Rightarrow> (pager, bytes) sm" where
  "push_loop [] full = ret_s full"
| "push_loop (pid # pids) full =
     bind_s (read_page pid) (\<lambda>d p.
       bind_s (lift_s (if length d = page_size p then put_r full (page_offset p pid) d else Inl Panic))
         (push_loop pids) p)"

text \<open>The object that \<^verbatim>\<open>push_remote\<close> hands to the remote adapter.\<close>

definition push_remote_object :: "crc_fun \<Rightarrow> (pager, bytes) sm" where
  "push_remote_object crc p =
     (if \<not> pg_writer p
      then (Inl (Corrupted ''No remote writable storage adapter configured''), p)
      else let psize = page_size p; total = max (unat (total_pages p)) 1;
               full = splice (replicate (total * psize) 0) 0 (db_header_to_bytes crc (pg_header p)) in
        bind_s (read_page 1) (\<lambda>page1.
        bind_s (lift_s (bind_r (slice_r page1 DATABASE_HEADER_SIZE psize) (put_r full DATABASE_HEADER_SIZE)))
          (push_loop (map word_of_nat [2..<Suc total]))) p)"

section \<open>Opening\<close>

text \<open>\<open>None\<close> for a file that does not exist.\<close>

definition read_header_for_open :: "crc_fun \<Rightarrow> bytes option \<Rightarrow> bytes option \<Rightarrow> db_header option result" where
  "read_header_for_open crc db wal_file =
     (case db of
        None \<Rightarrow>
          if (case wal_file of None \<Rightarrow> False | Some w \<Rightarrow> length w > WAL_HEADER_SIZE)
          then Inl (Corrupted ''Base database is missing but an orphan WAL exists'')
          else Inr None
      | Some d \<Rightarrow>
          (case (if length d \<ge> DATABASE_HEADER_SIZE then db_header_from_bytes crc (take DATABASE_HEADER_SIZE d)
                 else Inl (Corrupted ''Database file is shorter than its header'')) of
             Inr h \<Rightarrow> Inr (Some h)
           | Inl (UnsupportedFormat v) \<Rightarrow> Inl (UnsupportedFormat v)
           | Inl original \<Rightarrow>
               bind_r (case wal_file of None \<Rightarrow> Inr None | Some w \<Rightarrow> read_committed_page crc w 1) (\<lambda>page.
                 case page of
                   Some pg \<Rightarrow> bind_r (db_header_from_bytes crc pg) (\<lambda>h. Inr (Some h))
                 | None \<Rightarrow> if length d = 0 then Inr None else Inl original)))"

definition check_credentials :: "page_cipher option \<Rightarrow> db_header \<Rightarrow> unit result" where
  "check_credentials cipher h =
     (if dh_encryption_flags h = 1
      then case cipher of
             Some c \<Rightarrow> if pc_verify_kcv c (dh_kcv h) then Inr () else Inl (DecryptionFailed 1)
           | None \<Rightarrow> Inl EncryptedDatabase
      else Inr ())"

definition fresh_header :: "crc_fun \<Rightarrow> u16 \<Rightarrow> page_cipher option \<Rightarrow> db_header result" where
  "fresh_header crc psize cipher =
     (let h = db_header_new crc psize in
      case cipher of
        None \<Rightarrow> Inr h
      | Some c \<Rightarrow> bind_r (pc_generate_kcv c) (\<lambda>kcv.
          Inr (h\<lparr>dh_encryption_flags := 1, dh_salt := pc_salt c, dh_kcv := kcv\<rparr>)))"

definition fresh_page1 :: "crc_fun \<Rightarrow> db_header \<Rightarrow> bytes result" where
  "fresh_page1 crc h = put_r (replicate (unat (dh_page_size h)) 0) 0 (db_header_to_bytes crc h)"

definition empty_pager :: "db_header \<Rightarrow> disk_file option \<Rightarrow> wal option \<Rightarrow> page_cipher option \<Rightarrow> nat \<Rightarrow> pager" where
  "empty_pager h f w cipher capacity =
     \<lparr>pg_header = h, pg_file = f, pg_pages = (\<lambda>_. None), pg_wal = w,
      pg_threshold = DEFAULT_CHECKPOINT_THRESHOLD, pg_cipher = cipher, pg_tx = None, pg_named = [],
      pg_capacity = capacity, pg_head = None, pg_tail = None, pg_nodes = (\<lambda>_. None),
      pg_reader = None, pg_writer = False\<rparr>"

definition insert_touched :: "page_id \<times> bytes \<Rightarrow> pager \<Rightarrow> pager" where
  "insert_touched = (\<lambda>(pid, d) p. touch_lru pid (p\<lparr>pg_pages := (pg_pages p)(pid \<mapsto> d)\<rparr>))"

definition default_capacity :: "nat \<Rightarrow> nat" where
  "default_capacity n = (if n = 0 then 256 else n)"

text \<open>Opening a file database; the lock file is left out. The result is the pager.\<close>

definition open_with_cipher ::
    "crc_fun \<Rightarrow> bytes option \<Rightarrow> bytes option \<Rightarrow> u16 \<Rightarrow> nat \<Rightarrow> page_cipher option \<Rightarrow> pager result" where
  "open_with_cipher crc db wal_file psize cache_capacity cipher =
     bind_r (read_header_for_open crc db wal_file) (\<lambda>stored.
     bind_r (case stored of
         Some h \<Rightarrow> bind_r (check_credentials cipher h) (\<lambda>_. Inr (h, case db of None \<Rightarrow> [] | Some d \<Rightarrow> d))
       | None \<Rightarrow>
           bind_r (fresh_header crc psize cipher) (\<lambda>h.
           bind_r (fresh_page1 crc h) (\<lambda>page1.
           bind_r (case cipher of None \<Rightarrow> Inr page1 | Some c \<Rightarrow> pc_encrypt c 1 page1) (\<lambda>disk_page1.
             Inr (h, write_at 0 disk_page1 (case db of None \<Rightarrow> [] | Some d \<Rightarrow> d)))))) (\<lambda>(h, d).
     bind_r (wal_open crc wal_file (ucast (dh_page_size h))) (\<lambda>w.
       case wal_recover (w, \<lparr>bs_file = Some \<lparr>df_data = d, df_pos = 0\<rparr>, bs_memory = (\<lambda>_. None)\<rparr>) of
         (Inl e, _) \<Rightarrow> Inl e
       | (Inr _, w', base) \<Rightarrow>
           bind_r (map_r (\<lambda>(pid, raw). bind_r (case cipher of None \<Rightarrow> Inr raw | Some c \<Rightarrow> pc_decrypt c pid raw)
                      (\<lambda>pt. Inr (pid, pt))) (undo_entries (bs_memory base))) (\<lambda>recovered.
           bind_r (case bs_file base of
               None \<Rightarrow> Inr (h, None)
             | Some f \<Rightarrow> (case file_read_exact DATABASE_HEADER_SIZE (file_seek 0 f) of
                 (Inl e, _) \<Rightarrow> Inl e
               | (Inr buf, f') \<Rightarrow> bind_r (db_header_from_bytes crc buf) (\<lambda>h. Inr (h, Some f')))) (\<lambda>(h, f).
           let p = empty_pager h f (Some w') cipher (default_capacity cache_capacity) in
           bind_r (map_r (\<lambda>(pid, page). bind_r (decompress_if_needed p pid page) (\<lambda>d. Inr (pid, d))) recovered)
             (\<lambda>pages. Inr (fold insert_touched pages p)))))))"

definition open_in_memory :: "crc_fun \<Rightarrow> u16 \<Rightarrow> nat \<Rightarrow> page_cipher option \<Rightarrow> pager result" where
  "open_in_memory crc psize cache_capacity cipher =
     bind_r (fresh_header crc psize cipher) (\<lambda>h.
     bind_r (fresh_page1 crc h) (\<lambda>page1.
       Inr (touch_lru 1 ((empty_pager h None (Some (wal_open_in_memory crc (ucast psize))) cipher
              (default_capacity cache_capacity))\<lparr>pg_pages := [1 \<mapsto> page1]\<rparr>))))"

definition open_in_memory_from_bytes :: "crc_fun \<Rightarrow> bytes \<Rightarrow> page_cipher option \<Rightarrow> pager result" where
  "open_in_memory_from_bytes crc bs cipher =
     (if length bs < DATABASE_HEADER_SIZE then Inl (Corrupted ''Byte buffer smaller than database header'')
      else bind_r (db_header_from_bytes crc (take DATABASE_HEADER_SIZE bs)) (\<lambda>h.
        let psize = unat (dh_page_size h) in
        if psize = 0 \<or> length bs mod psize \<noteq> 0
        then Inl (Corrupted ''Byte buffer length is not a valid multiple of page size'')
        else bind_r (check_credentials cipher h) (\<lambda>_.
          bind_r (map_r (\<lambda>pid.
              bind_r (slice_r bs ((unat pid - 1) * psize) ((unat pid - 1) * psize + psize)) (\<lambda>disk_page.
              bind_r (case cipher of None \<Rightarrow> Inr disk_page | Some c \<Rightarrow> pc_decrypt c pid disk_page) (\<lambda>d.
              Inr (pid, d)))) (page_ids (unat (word_of_nat (length bs div psize) :: u32)))) (\<lambda>pages.
          Inr (fold insert_touched pages
                 (empty_pager h None (Some (wal_open_in_memory crc (ucast (dh_page_size h)))) cipher 256))))))"

text \<open>The size of the remote object is an argument next to its reader.\<close>

definition open_remote ::
    "crc_fun \<Rightarrow> nat \<Rightarrow> (nat \<Rightarrow> nat \<Rightarrow> bytes result) \<Rightarrow> nat \<Rightarrow> page_cipher option \<Rightarrow> pager result" where
  "open_remote crc total_size fetch cache_capacity cipher =
     (if total_size < DATABASE_HEADER_SIZE then Inl (Corrupted ''Remote file too small for database header'')
      else bind_r (fetch 0 DATABASE_HEADER_SIZE) (\<lambda>buf.
        bind_r (db_header_from_bytes crc buf) (\<lambda>h.
        bind_r (check_credentials cipher h) (\<lambda>_.
          Inr ((empty_pager h None None cipher (default_capacity cache_capacity))\<lparr>pg_reader := Some fetch\<rparr>)))))"

definition open_remote_writable ::
    "crc_fun \<Rightarrow> nat \<Rightarrow> (nat \<Rightarrow> nat \<Rightarrow> bytes result) \<Rightarrow> nat \<Rightarrow> page_cipher option \<Rightarrow> pager result" where
  "open_remote_writable crc total_size fetch cache_capacity cipher =
     bind_r (if total_size \<ge> DATABASE_HEADER_SIZE
        then bind_r (fetch 0 DATABASE_HEADER_SIZE) (\<lambda>buf.
          bind_r (db_header_from_bytes crc buf) (\<lambda>h.
          bind_r (check_credentials cipher h) (\<lambda>_. Inr (h, \<lambda>_. None))))
        else if total_size = 0
        then bind_r (fresh_header crc DEFAULT_PAGE_SIZE cipher) (\<lambda>h.
          bind_r (fresh_page1 crc h) (\<lambda>page1. Inr (h, [1 \<mapsto> page1])))
        else Inl (Corrupted ''Remote file too small for database header'')) (\<lambda>(h, pages).
     let p = (empty_pager h None (Some (wal_open_in_memory crc (ucast (dh_page_size h)))) cipher
                (default_capacity cache_capacity))\<lparr>pg_pages := pages, pg_reader := Some fetch, pg_writer := True\<rparr>
     in Inr (if pages 1 \<noteq> None then touch_lru 1 p else p))"

section \<open>Settings and maintenance\<close>

definition USIZE_MAX :: nat where "USIZE_MAX = 2 ^ 64 - 1"

definition set_auto_checkpoint :: "bool \<Rightarrow> pager \<Rightarrow> pager" where
  "set_auto_checkpoint enabled p = p\<lparr>pg_threshold := (if enabled then DEFAULT_CHECKPOINT_THRESHOLD else USIZE_MAX)\<rparr>"

definition enable_compression :: "crc_fun \<Rightarrow> pager \<Rightarrow> pager" where
  "enable_compression crc =
     set_header (\<lambda>h. let h = h\<lparr>dh_compression_flags := 1\<rparr> in h\<lparr>dh_header_crc32 := dh_calculate_crc crc h\<rparr>)"

definition set_vector_index_page :: "crc_fun \<Rightarrow> page_id \<Rightarrow> (pager, unit) sm" where
  "set_vector_index_page crc pid p =
     pager_sync_header crc (set_header (\<lambda>h. h\<lparr>dh_vector_index_page := pid\<rparr>) p)"

definition in_memory_page_count :: "pager \<Rightarrow> nat" where
  "in_memory_page_count p = card (dom (pg_pages p))"

definition savepoint_depth :: "pager \<Rightarrow> nat" where
  "savepoint_depth p = length (pg_named p)"

definition pager_storage_health :: "pager \<Rightarrow> storage_health" where
  "pager_storage_health p =
     (case pg_wal p of
        Some w \<Rightarrow> wal_health w
      | None \<Rightarrow> \<lparr>sh_reopen_required = False, sh_checkpoint_error = None, sh_wal_frames = 0\<rparr>)"

definition pager_set_io_fault :: "io_fault_plan option \<Rightarrow> (pager, unit) sm" where
  "pager_set_io_fault plan p =
     (case pg_wal p of
        None \<Rightarrow> (Inl (TransactionError ''No WAL is available''), p)
      | Some w \<Rightarrow> (case io_configure plan (w_io w) of (r, io) \<Rightarrow> (r, p\<lparr>pg_wal := Some (w\<lparr>w_io := io\<rparr>)\<rparr>)))"

text \<open>\<^verbatim>\<open>sync_all\<close> does not change the bytes of a file.\<close>

definition pager_sync :: "crc_fun \<Rightarrow> (pager, unit) sm" where
  "pager_sync crc = bind_s (pager_checkpoint crc) (\<lambda>_. ret_s ())"

end
