(* ===== verification/Pager_Lru.thy ===== *)
theory Pager_Lru
  imports Pager_Tx
begin

text \<open>
  The linked list behind the page cache refines a list of distinct page numbers, least
  recently used first: touching a page moves it to the end, removing a page deletes it, and
  the eviction scan returns the first page of the list that may go. Eviction never drops page
  1 or a page of the open transaction.
\<close>

definition hd_opt :: "'a list \<Rightarrow> 'a option" where
  "hd_opt xs = (case xs of [] \<Rightarrow> None | x # _ \<Rightarrow> Some x)"

definition last_opt :: "'a list \<Rightarrow> 'a option" where
  "last_opt xs = (if xs = [] then None else Some (last xs))"

lemma hd_opt_simps [simp]:
  "hd_opt [] = None" "hd_opt (x # xs) = Some x" "hd_opt (xs @ ys) = (if xs = [] then hd_opt ys else hd_opt xs)"
  by (auto simp: hd_opt_def split: list.splits)

lemma last_opt_simps [simp]:
  "last_opt [] = None" "last_opt (xs @ [x]) = Some x"
  "last_opt (xs @ ys) = (if ys = [] then last_opt xs else last_opt ys)"
  "last_opt (x # ys) = (if ys = [] then Some x else last_opt ys)"
  by (auto simp: last_opt_def)

lemma hd_opt_None [simp]: "hd_opt xs = None \<longleftrightarrow> xs = []" by (cases xs) auto
lemma last_opt_None [simp]: "last_opt xs = None \<longleftrightarrow> xs = []" by (simp add: last_opt_def)

lemma hd_opt_Some: "hd_opt xs = Some x \<longleftrightarrow> (\<exists>ys. xs = x # ys)" by (cases xs) auto

lemma last_opt_Some: "last_opt xs = Some x \<longleftrightarrow> (\<exists>ys. xs = ys @ [x])"
  by (cases xs rule: rev_cases) auto

definition lru_ok :: "page_id list \<Rightarrow> pager \<Rightarrow> bool" where
  "lru_ok xs p \<longleftrightarrow> distinct xs \<and> pg_head p = hd_opt xs \<and> pg_tail p = last_opt xs \<and>
     dom (pg_nodes p) = set xs \<and>
     (\<forall>us y vs. xs = us @ y # vs \<longrightarrow> pg_nodes p y = Some \<lparr>ln_prev = last_opt us, ln_next = hd_opt vs\<rparr>)"

text \<open>The links of a node map, apart from the two ends.\<close>

definition links :: "page_id list \<Rightarrow> (page_id \<rightharpoonup> lru_node) \<Rightarrow> bool" where
  "links xs m \<longleftrightarrow>
     (\<forall>us y vs. xs = us @ y # vs \<longrightarrow> m y = Some \<lparr>ln_prev = last_opt us, ln_next = hd_opt vs\<rparr>)"

lemma links_at: "links (us @ y # vs) m \<Longrightarrow> m y = Some \<lparr>ln_prev = last_opt us, ln_next = hd_opt vs\<rparr>"
  by (simp add: links_def)

lemma links_detach:
  assumes d: "distinct (as @ x # bs)" and l: "links (as @ x # bs) m"
    and agree: "\<And>y. y \<noteq> x \<Longrightarrow> m0 y = m y"
  defines "m1 \<equiv> (case last_opt as of Some q \<Rightarrow> set_next q (hd_opt bs) m0 | None \<Rightarrow> m0)"
  defines "m2 \<equiv> (case hd_opt bs of Some q \<Rightarrow> set_prev q (last_opt as) m1 | None \<Rightarrow> m1)"
  shows "links (as @ bs) m2 \<and> dom m2 = dom m0"
proof -
  have m0: "m0 y = m y" if "y \<in> set as \<union> set bs" for y
    using agree [of y] d that by auto
  have m1: "m1 y = (if last_opt as = Some y then Some \<lparr>ln_prev = ln_prev (the (m y)), ln_next = hd_opt bs\<rparr> else m0 y)" for y
  proof (cases "last_opt as")
    case (Some q)
    then obtain cs where cs: "as = cs @ [q]" by (auto simp: last_opt_Some)
    then have "m q = Some \<lparr>ln_prev = last_opt cs, ln_next = Some x\<rparr>"
      using links_at [of cs q "x # bs" m] l by simp
    moreover have "m0 q = m q" using m0 cs by simp
    ultimately show ?thesis using Some by (auto simp: m1_def set_next_def)
  qed (simp add: m1_def)
  have m2: "m2 y = (if hd_opt bs = Some y then Some \<lparr>ln_prev = last_opt as, ln_next = ln_next (the (m y))\<rparr> else m1 y)" for y
  proof (cases "hd_opt bs")
    case (Some q)
    then obtain cs where cs: "bs = q # cs" by (auto simp: hd_opt_Some)
    then have "m q = Some \<lparr>ln_prev = Some x, ln_next = hd_opt cs\<rparr>"
      using links_at [of "as @ [x]" q cs m] l by simp
    moreover have "m0 q = m q" using m0 cs by simp
    moreover have "last_opt as \<noteq> Some q" using d cs by (auto simp: last_opt_Some)
    ultimately show ?thesis using Some m1 [of q] by (auto simp: m2_def set_prev_def)
  qed (simp add: m2_def)
  have "links (as @ bs) m2"
    unfolding links_def
  proof (intro allI impI)
    fix us y vs assume eq: "as @ bs = us @ y # vs"
    then consider w where "as = us @ y # w" "vs = w @ bs" | w where "us = as @ w" "bs = w @ y # vs"
      by (auto simp: append_eq_append_conv2 Cons_eq_append_conv append_eq_Cons_conv)
    then show "m2 y = Some \<lparr>ln_prev = last_opt us, ln_next = hd_opt vs\<rparr>"
    proof cases
      case 1
      then have my: "m y = Some \<lparr>ln_prev = last_opt us, ln_next = hd_opt (w @ x # bs)\<rparr>"
        using links_at [of us y "w @ x # bs" m] l by simp
      have "hd_opt bs \<noteq> Some y" using d 1 by (auto simp: hd_opt_Some)
      moreover have "last_opt as = Some y \<longleftrightarrow> w = []" using d 1 by (auto simp: last_opt_def)
      moreover have "m0 y = m y" using m0 1 by simp
      ultimately show ?thesis using my m1 [of y] m2 [of y] 1 by auto
    next
      case 2
      then have my: "m y = Some \<lparr>ln_prev = last_opt (as @ x # w), ln_next = hd_opt vs\<rparr>"
        using links_at [of "as @ x # w" y vs m] l by simp
      have "last_opt as \<noteq> Some y" using d 2 by (auto simp: last_opt_Some)
      moreover have "hd_opt bs = Some y \<longleftrightarrow> w = []" using d 2 by (cases w) auto
      moreover have "m0 y = m y" using m0 2 by simp
      ultimately show ?thesis using my m1 [of y] m2 [of y] 2 by auto
    qed
  qed
  moreover have "dom m2 = dom m0"
  proof -
    have a: "y \<in> dom m" if "y \<in> set as \<union> set bs" for y
    proof -
      have "y \<in> set (as @ x # bs)" using that by auto
      then obtain us vs where "as @ x # bs = us @ y # vs" by (meson split_list)
      then show ?thesis using links_at [of us y vs m] l by auto
    qed
    have "last_opt as = Some y \<Longrightarrow> y \<in> dom m0" "hd_opt bs = Some y \<Longrightarrow> y \<in> dom m0" for y
      using a [of y] m0 [of y] by (auto simp: last_opt_Some hd_opt_Some domIff)
    then show ?thesis using m1 m2 by (auto simp: domIff split: if_splits)
  qed
  ultimately show ?thesis by blast
qed

lemma filter_neq:
  assumes "distinct (as @ x # bs)"
  shows "filter (\<lambda>y. y \<noteq> x) (as @ x # bs) = as @ bs"
proof -
  have "filter (\<lambda>y. y \<noteq> x) as = as" "filter (\<lambda>y. y \<noteq> x) bs = bs"
    using assms by (auto simp: filter_id_conv)
  then show ?thesis by simp
qed

lemma lru_ok_iff: "lru_ok xs p \<longleftrightarrow> distinct xs \<and> pg_head p = hd_opt xs \<and> pg_tail p = last_opt xs \<and>
    dom (pg_nodes p) = set xs \<and> links xs (pg_nodes p)"
  by (simp add: lru_ok_def links_def)

lemma lru_detach_fields:
  "pg_head (lru_detach n p) = (if ln_prev n = None then ln_next n else pg_head p)"
  "pg_tail (lru_detach n p) = (if ln_next n = None then ln_prev n else pg_tail p)"
  "pg_nodes (lru_detach n p) =
     (let m1 = (case ln_prev n of Some q \<Rightarrow> set_next q (ln_next n) (pg_nodes p) | None \<Rightarrow> pg_nodes p)
      in case ln_next n of Some q \<Rightarrow> set_prev q (ln_prev n) m1 | None \<Rightarrow> m1)"
  by (auto simp: lru_detach_def Let_def split: option.splits)

lemma lru_ok_detach:
  assumes ok: "lru_ok (as @ x # bs) p" and agree: "\<And>y. y \<noteq> x \<Longrightarrow> pg_nodes p0 y = pg_nodes p y"
    and ends: "pg_head p0 = pg_head p" "pg_tail p0 = pg_tail p"
  shows "pg_head (lru_detach (the (pg_nodes p x)) p0) = hd_opt (as @ bs) \<and>
    pg_tail (lru_detach (the (pg_nodes p x)) p0) = last_opt (as @ bs) \<and>
    links (as @ bs) (pg_nodes (lru_detach (the (pg_nodes p x)) p0)) \<and>
    dom (pg_nodes (lru_detach (the (pg_nodes p x)) p0)) = dom (pg_nodes p0)"
proof -
  have l: "distinct (as @ x # bs)" "links (as @ x # bs) (pg_nodes p)"
    "pg_head p = hd_opt (as @ x # bs)" "pg_tail p = last_opt (as @ x # bs)"
    using ok by (auto simp: lru_ok_iff)
  have x: "pg_nodes p x = Some \<lparr>ln_prev = last_opt as, ln_next = hd_opt bs\<rparr>"
    using links_at [OF l(2)] .
  have nd: "ln_prev (the (pg_nodes p x)) = last_opt as" "ln_next (the (pg_nodes p x)) = hd_opt bs"
    using x by simp_all
  have "links (as @ bs) (pg_nodes (lru_detach (the (pg_nodes p x)) p0)) \<and>
      dom (pg_nodes (lru_detach (the (pg_nodes p x)) p0)) = dom (pg_nodes p0)"
    unfolding lru_detach_fields nd Let_def by (rule links_detach [OF l(1,2) agree])
  moreover have "pg_head (lru_detach (the (pg_nodes p x)) p0) = hd_opt (as @ bs)"
    "pg_tail (lru_detach (the (pg_nodes p x)) p0) = last_opt (as @ bs)"
    using l(3,4) by (simp_all add: lru_detach_fields nd ends)
  ultimately show ?thesis by blast
qed

lemma remove_lru_ok:
  assumes "lru_ok xs p"
  shows "lru_ok (filter (\<lambda>y. y \<noteq> pid) xs) (remove_lru pid p)"
proof (cases "pid \<in> set xs")
  case False
  then have "pg_nodes p pid = None" using assms by (auto simp: lru_ok_iff domIff)
  moreover have "filter (\<lambda>y. y \<noteq> pid) xs = xs" using False by (auto simp: filter_id_conv)
  ultimately show ?thesis using assms by (simp add: remove_lru_def)
next
  case True
  then obtain as bs where xs: "xs = as @ pid # bs" by (meson split_list)
  have d: "distinct xs" using assms by (simp add: lru_ok_iff)
  have f: "filter (\<lambda>y. y \<noteq> pid) xs = as @ bs" using d filter_neq [of as pid bs] unfolding xs by simp
  let ?p0 = "p\<lparr>pg_nodes := (pg_nodes p)(pid := None)\<rparr>"
  have n: "pg_nodes p pid = Some (the (pg_nodes p pid))"
    using assms True by (metis domIff lru_ok_iff option.exhaust_sel)
  then have r: "remove_lru pid p = lru_detach (the (pg_nodes p pid)) ?p0"
    by (cases "pg_nodes p pid") (simp_all add: remove_lru_def)
  have "dom (pg_nodes ?p0) = set (as @ bs)" using assms d unfolding xs by (auto simp: lru_ok_iff)
  then show ?thesis
    using lru_ok_detach [of as pid bs p ?p0] assms [unfolded xs] d [unfolded xs] unfolding r f
    by (simp add: lru_ok_iff)
qed

lemma links_snoc:
  assumes "distinct xs" "links xs m" "pid \<notin> set xs"
    "m' = (case last_opt xs of Some t \<Rightarrow> (set_next t (Some pid) m)(pid \<mapsto> \<lparr>ln_prev = Some t, ln_next = None\<rparr>)
                             | None \<Rightarrow> m(pid \<mapsto> \<lparr>ln_prev = None, ln_next = None\<rparr>))"
  shows "links (xs @ [pid]) m'"
  unfolding links_def
proof (intro allI impI)
  fix us y vs assume "xs @ [pid] = us @ y # vs"
  then consider "vs = []" "us = xs" "y = pid" | vs' where "vs = vs' @ [pid]" "xs = us @ y # vs'"
    by (cases vs rule: rev_cases) auto
  then show "m' y = Some \<lparr>ln_prev = last_opt us, ln_next = hd_opt vs\<rparr>"
  proof cases
    case 1
    then show ?thesis by (auto simp: assms(4) split: option.splits)
  next
    case 2
    have y: "y \<noteq> pid" using 2 assms(3) by auto
    have my: "m y = Some \<lparr>ln_prev = last_opt us, ln_next = hd_opt vs'\<rparr>" using links_at 2(2) assms(2) by simp
    obtain t where t: "last_opt xs = Some t" using 2(2) by (auto simp: last_opt_def)
    have "t = y \<longleftrightarrow> vs' = []" using t 2(2) assms(1) last_in_set [of vs'] by (auto simp: last_opt_def split: if_splits)
    moreover have "m t \<noteq> None"
    proof -
      obtain ys where "xs = ys @ [t]" using t by (auto simp: last_opt_Some)
      then show ?thesis using links_at [of ys t "[]" m] assms(2) by simp
    qed
    ultimately show ?thesis using my y t 2(1) by (auto simp: assms(4) set_next_def split: option.splits)
  qed
qed

lemma dom_set_next [simp]: "dom (set_next q x m) = dom m"
  by (auto simp: set_next_def split: option.splits)

lemma touch_lru_ok:
  assumes "lru_ok xs p"
  shows "lru_ok (filter (\<lambda>y. y \<noteq> pid) xs @ [pid]) (touch_lru pid p)"
proof (cases "pg_tail p = Some pid")
  case True
  then obtain ys where xs: "xs = ys @ [pid]" using assms last_opt_Some [of xs pid] by (auto simp: lru_ok_iff)
  then have "filter (\<lambda>y. y \<noteq> pid) xs = ys" using assms filter_neq [of ys pid "[]"] by (simp add: lru_ok_iff)
  then show ?thesis using True assms xs by (simp add: touch_lru_def)
next
  case False
  let ?ys = "filter (\<lambda>y. y \<noteq> pid) xs"
  define p1 where "p1 = (case pg_nodes p pid of None \<Rightarrow> p | Some node \<Rightarrow> lru_detach node p)"
  have p1: "distinct ?ys" "pg_head p1 = hd_opt ?ys" "pg_tail p1 = last_opt ?ys" "links ?ys (pg_nodes p1)"
    "insert pid (dom (pg_nodes p1)) = set (?ys @ [pid])"
  proof -
    show "distinct ?ys" using assms by (simp add: lru_ok_iff)
    have "pg_head p1 = hd_opt ?ys \<and> pg_tail p1 = last_opt ?ys \<and> links ?ys (pg_nodes p1) \<and>
        insert pid (dom (pg_nodes p1)) = set (?ys @ [pid])"
    proof (cases "pid \<in> set xs")
      case True
      then obtain as bs where xs: "xs = as @ pid # bs" by (meson split_list)
      have d: "distinct xs" using assms by (simp add: lru_ok_iff)
      have f: "?ys = as @ bs" using d filter_neq [of as pid bs] unfolding xs by simp
      have n: "pg_nodes p pid = Some (the (pg_nodes p pid))" using assms True by (metis domIff lru_ok_iff option.exhaust_sel)
      then have "p1 = lru_detach (the (pg_nodes p pid)) p" by (cases "pg_nodes p pid") (simp_all add: p1_def)
      then show ?thesis
        using lru_ok_detach [of as pid bs p p] assms [unfolded xs] unfolding f by (auto simp: lru_ok_iff)
    next
      case False
      then have "pg_nodes p pid = None" "?ys = xs" using assms by (auto simp: lru_ok_iff domIff filter_id_conv)
      then show ?thesis using assms False by (auto simp: lru_ok_iff p1_def)
    qed
    then show "pg_head p1 = hd_opt ?ys" "pg_tail p1 = last_opt ?ys" "links ?ys (pg_nodes p1)"
      "insert pid (dom (pg_nodes p1)) = set (?ys @ [pid])" by blast+
  qed
  have t: "touch_lru pid p =
      (case pg_tail p1 of
          Some t \<Rightarrow> p1\<lparr>pg_nodes := (set_next t (Some pid) (pg_nodes p1))(pid \<mapsto> \<lparr>ln_prev = Some t, ln_next = None\<rparr>),
                       pg_tail := Some pid\<rparr>
        | None \<Rightarrow> p1\<lparr>pg_head := Some pid, pg_tail := Some pid,
                     pg_nodes := (pg_nodes p1)(pid \<mapsto> \<lparr>ln_prev = None, ln_next = None\<rparr>)\<rparr>)"
    using False unfolding touch_lru_def p1_def Let_def by simp
  have "links (?ys @ [pid]) (pg_nodes (touch_lru pid p))"
    by (rule links_snoc [OF p1(1,4)]) (auto simp: t p1(3) split: option.splits)
  then show ?thesis
    using p1 unfolding lru_ok_iff by (auto simp: t split: option.splits)
qed

section \<open>Eviction\<close>

lemma evict_target_find:
  assumes "lru_ok (us @ vs) p" "length vs < fuel"
  shows "evict_target fuel p (hd_opt vs) = find (evictable p) vs"
  using assms
proof (induction vs arbitrary: us fuel)
  case Nil
  then show ?case by (cases fuel) auto
next
  case (Cons y vs)
  obtain n where n: "fuel = Suc n" "length vs < n" using Cons.prems(2) by (cases fuel) auto
  have "pg_nodes p y = Some \<lparr>ln_prev = last_opt us, ln_next = hd_opt vs\<rparr>"
    using Cons.prems(1) by (auto simp: lru_ok_def)
  moreover have "lru_ok ((us @ [y]) @ vs) p" using Cons.prems(1) by simp
  ultimately show ?case using Cons.IH [of "us @ [y]" n] n by simp
qed

lemma lru_ok_length:
  fixes p :: pager
  assumes "lru_ok xs p"
  shows "length xs \<le> LRU_FUEL"
proof -
  have "card (set xs) \<le> card (UNIV :: page_id set)" by (rule card_mono) auto
  then show ?thesis using assms by (simp add: lru_ok_def distinct_card card_word LRU_FUEL_def)
qed

lemma remove_lru_fields [simp]:
  "pg_pages (remove_lru pid p) = pg_pages p" "pg_tx (remove_lru pid p) = pg_tx p"
  "pg_header (remove_lru pid p) = pg_header p" "pg_wal (remove_lru pid p) = pg_wal p"
  "pg_file (remove_lru pid p) = pg_file p" "pg_named (remove_lru pid p) = pg_named p"
  "pg_cipher (remove_lru pid p) = pg_cipher p" "pg_reader (remove_lru pid p) = pg_reader p"
  "pg_writer (remove_lru pid p) = pg_writer p" "pg_capacity (remove_lru pid p) = pg_capacity p"
  "pg_threshold (remove_lru pid p) = pg_threshold p"
  by (simp_all add: remove_lru_def lru_detach_def Let_def split: option.splits)

lemma touch_lru_fields [simp]:
  "pg_pages (touch_lru pid p) = pg_pages p" "pg_tx (touch_lru pid p) = pg_tx p"
  "pg_header (touch_lru pid p) = pg_header p" "pg_wal (touch_lru pid p) = pg_wal p"
  "pg_file (touch_lru pid p) = pg_file p" "pg_named (touch_lru pid p) = pg_named p"
  "pg_cipher (touch_lru pid p) = pg_cipher p" "pg_reader (touch_lru pid p) = pg_reader p"
  "pg_writer (touch_lru pid p) = pg_writer p" "pg_capacity (touch_lru pid p) = pg_capacity p"
  "pg_threshold (touch_lru pid p) = pg_threshold p"
  by (simp_all add: touch_lru_def lru_detach_def Let_def split: option.splits)

lemma lru_ok_cong:
  "pg_nodes p' = pg_nodes p \<Longrightarrow> pg_head p' = pg_head p \<Longrightarrow> pg_tail p' = pg_tail p \<Longrightarrow>
   lru_ok xs p' \<longleftrightarrow> lru_ok xs p"
  by (simp add: lru_ok_iff)

text \<open>Everything but the cache and its list.\<close>

definition same_store :: "pager \<Rightarrow> pager \<Rightarrow> bool" where
  "same_store p p' \<longleftrightarrow> pg_tx p' = pg_tx p \<and> pg_header p' = pg_header p \<and> pg_wal p' = pg_wal p \<and>
     pg_file p' = pg_file p \<and> pg_named p' = pg_named p \<and> pg_cipher p' = pg_cipher p \<and>
     pg_reader p' = pg_reader p \<and> pg_writer p' = pg_writer p \<and> pg_capacity p' = pg_capacity p \<and>
     pg_threshold p' = pg_threshold p"

lemma same_store_refl [simp]: "same_store p p" by (simp add: same_store_def)
lemma same_store_trans: "same_store p q \<Longrightarrow> same_store q r \<Longrightarrow> same_store p r" by (simp add: same_store_def)

lemma evictable_cong: "pg_tx p' = pg_tx p \<Longrightarrow> evictable p' = evictable p"
  by (rule ext) (simp add: evictable_def)

lemma evict_target_evictable: "evict_target fuel p c = Some pid \<Longrightarrow> evictable p pid"
  by (induction fuel p c rule: evict_target.induct) (auto split: if_splits)

lemma evict_page_same: "same_store p (evict_page pid p)"
  by (simp add: evict_page_def same_store_def Let_def)

text \<open>The loop only drops cached pages that may go; nothing else changes.\<close>

lemma evict_loop_only:
  "same_store p (evict_loop fuel n p) \<and>
   (\<forall>q. pg_pages (evict_loop fuel n p) q = pg_pages p q \<or>
        evictable p q \<and> pg_pages (evict_loop fuel n p) q = None)"
proof (induction fuel n p rule: evict_loop.induct)
  case (1 n p)
  then show ?case by simp
next
  case (2 fuel n p)
  show ?case
  proof (cases "n < card (dom (pg_pages p))")
    case True
    show ?thesis
    proof (cases "evict_target (Suc LRU_FUEL) p (pg_head p)")
      case (Some pid)
      note ih = 2 [OF True Some]
      have e: "evictable p pid" using evict_target_evictable [OF Some] .
      have s: "same_store p (evict_page pid p)" by (rule evict_page_same)
      then have ev: "evictable (evict_page pid p) = evictable p" by (intro evictable_cong) (simp add: same_store_def)
      have pg: "pg_pages (evict_page pid p) = (pg_pages p)(pid := None)"
        by (simp add: evict_page_def Let_def)
      have step: "evict_loop (Suc fuel) n p = evict_loop fuel n (evict_page pid p)" using True Some by simp
      have "pg_pages (evict_loop (Suc fuel) n p) q = pg_pages p q \<or>
          evictable p q \<and> pg_pages (evict_loop (Suc fuel) n p) q = None" for q
        using ih [THEN conjunct2, rule_format, of q] e unfolding step ev pg by (cases "q = pid") auto
      moreover have "same_store p (evict_loop (Suc fuel) n p)"
        using ih same_store_trans [OF s] unfolding step by blast
      ultimately show ?thesis by blast
    qed (use True in simp)
  qed simp
qed

lemma evict_only:
  "same_store p (evict_if_needed p)"
  "pg_pages (evict_if_needed p) q = pg_pages p q \<or> evictable p q \<and> pg_pages (evict_if_needed p) q = None"
  using evict_loop_only [of p "Suc LRU_FUEL" "max (pg_capacity p) 4"]
  by (auto simp: evict_if_needed_def)

lemma evict_page_ok: "lru_ok xs p \<Longrightarrow> lru_ok (filter (\<lambda>y. y \<noteq> pid) xs) (evict_page pid p)"
  using remove_lru_ok [of xs p pid] by (simp add: evict_page_def Let_def lru_ok_iff)

lemma evict_loop_ok:
  assumes "lru_ok xs p" "length xs < fuel"
  shows "\<exists>ys. lru_ok ys (evict_loop fuel n p) \<and> set ys \<subseteq> set xs \<and>
    (card (dom (pg_pages (evict_loop fuel n p))) \<le> n \<or> (\<forall>y \<in> set ys. \<not> evictable p y))"
  using assms
proof (induction fuel arbitrary: xs p)
  case (Suc fuel)
  show ?case
  proof (cases "n < card (dom (pg_pages p))")
    case True
    have t: "evict_target (Suc LRU_FUEL) p (pg_head p) = find (evictable p) xs"
      using evict_target_find [of "[]" xs p "Suc LRU_FUEL"] lru_ok_length [OF Suc.prems(1)] Suc.prems(1)
      by (simp add: lru_ok_def)
    show ?thesis
    proof (cases "find (evictable p) xs")
      case None
      then have "\<forall>y \<in> set xs. \<not> evictable p y" by (simp add: find_None_iff)
      then show ?thesis using True t None Suc.prems(1) by auto
    next
      case (Some pid)
      let ?xs = "filter (\<lambda>y. y \<noteq> pid) xs" and ?p = "evict_page pid p"
      have pid: "pid \<in> set xs" using Some by (auto simp: find_Some_iff)
      then have "length ?xs < length xs" by (intro length_filter_less) auto
      then have "length ?xs < fuel" using Suc.prems(2) by simp
      from Suc.IH [OF evict_page_ok [OF Suc.prems(1)] this]
      obtain ys where ys: "lru_ok ys (evict_loop fuel n ?p)" "set ys \<subseteq> set ?xs"
        "card (dom (pg_pages (evict_loop fuel n ?p))) \<le> n \<or> (\<forall>y \<in> set ys. \<not> evictable ?p y)" by blast
      have "evictable ?p = evictable p" using evict_page_same [of p pid] by (intro evictable_cong) (simp add: same_store_def)
      then show ?thesis using ys True t Some by auto
    qed
  next
    case False
    then show ?thesis using Suc.prems(1) by auto
  qed
qed simp

text \<open>C34: The page cache after an eviction: its list stays well formed, nothing but the cache
  changes, page 1 and every page of the open transaction keep their contents, and either the
  cache fits its capacity or no page on the list may go.\<close>

theorem evict_correct:
  assumes "lru_ok xs p" "pg_file p \<noteq> None \<or> pg_wal p \<noteq> None"
  shows "\<exists>ys. lru_ok ys (evict_if_needed p) \<and> set ys \<subseteq> set xs \<and> same_store p (evict_if_needed p) \<and>
    (\<forall>q. pg_pages (evict_if_needed p) q = pg_pages p q \<or> evictable p q \<and> pg_pages (evict_if_needed p) q = None) \<and>
    (card (dom (pg_pages (evict_if_needed p))) \<le> max (pg_capacity p) 4 \<or> (\<forall>y \<in> set ys. \<not> evictable p y))"
proof -
  have f: "length xs < Suc LRU_FUEL" using lru_ok_length [OF assms(1)] by simp
  have e: "evict_if_needed p = evict_loop (Suc LRU_FUEL) (max (pg_capacity p) 4) p"
    using assms(2) by (auto simp: evict_if_needed_def)
  show ?thesis
    using evict_loop_ok [OF assms(1) f, of "max (pg_capacity p) 4"] evict_only [of p] unfolding e by blast
qed

text \<open>A small pager with a log and no pages but the first, for examples.\<close>

definition sample_pager :: pager where
  "sample_pager = (empty_pager (db_header_new (\<lambda>_. 0) 8) None (Some (wal_open_in_memory (\<lambda>_. 0) 8)) None 256)
     \<lparr>pg_pages := [1 \<mapsto> replicate 8 0]\<rparr>"

lemma sample_lru: "lru_ok [] sample_pager"
  by (simp add: lru_ok_def sample_pager_def empty_pager_def)

theorem evict_correct_witness:
  "\<exists>p. pg_pages p 1 \<noteq> None \<and> (\<exists>ys. lru_ok ys (evict_if_needed p) \<and> set ys \<subseteq> {1} \<and> same_store p (evict_if_needed p))"
proof -
  let ?p = "touch_lru 1 sample_pager"
  have "lru_ok ([] @ [1]) ?p" using touch_lru_ok [OF sample_lru, of 1] by (simp del: One_nat_def)
  moreover have "pg_wal ?p \<noteq> None" "pg_pages ?p 1 \<noteq> None" by (simp_all add: sample_pager_def empty_pager_def)
  ultimately show ?thesis using evict_correct [of "[] @ [1]" ?p] by (intro exI [of _ ?p]) auto
qed

text \<open>Touching and removing pages in the linked list are moving to the end of, and deleting
  from, a list of distinct pages.\<close>

theorem lru_refines:
  assumes "lru_ok xs p"
  shows "lru_ok (filter (\<lambda>y. y \<noteq> pid) xs @ [pid]) (touch_lru pid p) \<and>
    lru_ok (filter (\<lambda>y. y \<noteq> pid) xs) (remove_lru pid p)"
  using touch_lru_ok remove_lru_ok assms by blast

theorem lru_refines_witness:
  "lru_ok [2, 1] (touch_lru 1 (touch_lru 2 (touch_lru 1 sample_pager))) \<and>
   lru_ok [2] (remove_lru 1 (touch_lru 2 (touch_lru 1 sample_pager)))"
proof -
  have "lru_ok [1] (touch_lru 1 sample_pager)" using touch_lru_ok [OF sample_lru, of 1] by simp
  then have "lru_ok [1, 2] (touch_lru 2 (touch_lru 1 sample_pager))"
    using touch_lru_ok [of "[1]" "touch_lru 1 sample_pager" 2] by simp
  then show ?thesis using lru_refines [of "[1, 2]" "touch_lru 2 (touch_lru 1 sample_pager)" 1] by simp
qed

end
