(* ===== verification/Pager_Rollback.thy ===== *)
theory Pager_Rollback
  imports Pager_Lru
begin

text \<open>
  Rolling back a transaction. The state machine \<open>tx_step\<close> has one step per operation a caller
  may make inside a transaction, whatever the operation returns; the invariant \<open>undo_inv\<close> says
  that the undo map holds the original of every page whose cached copy may differ from it.
\<close>

section \<open>What a pager stores\<close>

text \<open>The raw image behind the cache, and the page a caller sees.\<close>

definition stored_page :: "pager \<Rightarrow> page_id \<Rightarrow> bytes option" where
  "stored_page p pid =
     (case (case (case pg_wal p of None \<Rightarrow> None | Some w \<Rightarrow> wal_read_page w pid) of
              Some raw \<Rightarrow> Inr raw
            | None \<Rightarrow> (case pg_file p of
                Some f \<Rightarrow> fst (file_read_exact (page_size p) (file_seek (page_offset p pid) f))
              | None \<Rightarrow> (case pg_reader p of
                  Some fetch \<Rightarrow> fetch (page_offset p pid) (page_size p)
                | None \<Rightarrow> Inl (PageNotFound pid)))) of
        Inl _ \<Rightarrow> None
      | Inr raw \<Rightarrow> (case decode_page p pid raw of Inl _ \<Rightarrow> None | Inr d \<Rightarrow> Some d))"

definition page_view :: "pager \<Rightarrow> page_id \<Rightarrow> bytes option" where
  "page_view p pid =
     (if pid = 0 \<or> pid > total_pages p then None
      else case pg_pages p pid of Some d \<Rightarrow> Some d | None \<Rightarrow> stored_page p pid)"

text \<open>Headers that agree on everything but counters.\<close>

definition hdr_like :: "db_header \<Rightarrow> db_header \<Rightarrow> bool" where
  "hdr_like h g \<longleftrightarrow> dh_page_size h = dh_page_size g \<and> dh_compression_flags h = dh_compression_flags g \<and>
     length (dh_magic h) = length (dh_magic g) \<and> length (dh_salt h) = length (dh_salt g) \<and>
     length (dh_kcv h) = length (dh_kcv g)"

lemma hdr_like_refl [simp]: "hdr_like h h" by (simp add: hdr_like_def)
lemma hdr_like_trans: "hdr_like h g \<Longrightarrow> hdr_like g k \<Longrightarrow> hdr_like h k" by (simp add: hdr_like_def)

lemma hdr_like_length: "hdr_like h g \<Longrightarrow> length (db_header_to_bytes crc h) = length (db_header_to_bytes crc g)"
  by (simp add: hdr_like_def db_header_to_bytes_def dh_prefix_def)

lemma patch_patch:
  assumes "hdr_like h g"
  shows "patch_header crc g (patch_header crc h d) = patch_header crc g d"
  using hdr_like_length [OF assms, of crc] by (simp add: patch_header_def Let_def)

text \<open>The log as far as reading goes.\<close>

definition wal_like :: "wal option \<Rightarrow> wal option \<Rightarrow> bool" where
  "wal_like x y \<longleftrightarrow> (case (x, y) of
     (None, None) \<Rightarrow> True | (Some w, Some v) \<Rightarrow> w_frames w = w_frames v \<and> w_index w = w_index v | _ \<Rightarrow> False)"

definition backing_like :: "pager \<Rightarrow> pager \<Rightarrow> bool" where
  "backing_like p b \<longleftrightarrow> wal_like (pg_wal p) (pg_wal b) \<and>
     map_option df_data (pg_file p) = map_option df_data (pg_file b) \<and> pg_cipher p = pg_cipher b \<and>
     pg_reader p = pg_reader b \<and> pg_writer p = pg_writer b \<and> hdr_like (pg_header p) (pg_header b)"

lemma backing_like_stored:
  assumes "backing_like p b"
  shows "stored_page p pid = stored_page b pid"
proof -
  have ps: "page_size p = page_size b" "page_offset p pid = page_offset b pid"
    using assms by (simp_all add: backing_like_def hdr_like_def page_size_def page_offset_def)
  have "is_compressed p = is_compressed b"
    using assms by (simp add: backing_like_def hdr_like_def is_compressed_def)
  then have "decompress_if_needed p = decompress_if_needed b"
    by (intro ext) (simp only: decompress_if_needed_def ps)
  then have dec: "decode_page p pid raw = decode_page b pid raw" for raw
    using assms by (simp add: decode_page_def backing_like_def)
  have w: "(case pg_wal p of None \<Rightarrow> None | Some w \<Rightarrow> wal_read_page w pid) =
      (case pg_wal b of None \<Rightarrow> None | Some w \<Rightarrow> wal_read_page w pid)"
    using assms by (auto simp: backing_like_def wal_like_def wal_read_page_def split: option.splits)
  have f: "pg_file p = None \<longleftrightarrow> pg_file b = None"
    "\<And>f g. pg_file p = Some f \<Longrightarrow> pg_file b = Some g \<Longrightarrow>
      fst (file_read_exact n (file_seek k f)) = fst (file_read_exact n (file_seek k g))" for n k
    using assms by (auto simp: backing_like_def file_read_exact_def file_seek_def)
  have rd: "pg_reader p = pg_reader b" using assms by (simp add: backing_like_def)
  have "(case pg_file p of Some f \<Rightarrow> fst (file_read_exact n (file_seek k f)) | None \<Rightarrow> A) =
      (case pg_file b of Some f \<Rightarrow> fst (file_read_exact n (file_seek k f)) | None \<Rightarrow> A)" for n k A
  proof (cases "pg_file p")
    case None
    then show ?thesis using f(1) by simp
  next
    case (Some x)
    then obtain y where y: "pg_file b = Some y" using f(1) by (cases "pg_file b") auto
    show ?thesis unfolding Some y option.case by (rule f(2) [OF Some y])
  qed
  then show ?thesis
    unfolding stored_page_def ps w dec rd by (simp only:)
qed

lemma backing_like_refl [simp]: "backing_like p p"
  by (simp add: backing_like_def wal_like_def split: option.splits)

lemma backing_like_trans: "backing_like p q \<Longrightarrow> backing_like q r \<Longrightarrow> backing_like p r"
  by (auto simp: backing_like_def wal_like_def intro: hdr_like_trans split: option.splits)

lemma same_store_backing: "same_store p q \<Longrightarrow> backing_like q p"
  by (simp add: same_store_def backing_like_def wal_like_def split: option.splits)

text \<open>A read changes the cache only: it may add the stored image of its page and evict.\<close>

definition read_only_step :: "pager \<Rightarrow> pager \<Rightarrow> bool" where
  "read_only_step p p' \<longleftrightarrow> backing_like p' p \<and> pg_header p' = pg_header p \<and> pg_tx p' = pg_tx p \<and>
     pg_named p' = pg_named p \<and> pg_wal p' = pg_wal p \<and>
     (\<forall>q. pg_pages p' q = pg_pages p q \<or> (evictable p q \<and> pg_pages p' q = None) \<or>
          (pg_pages p q = None \<and> pg_pages p' q = stored_page p q))"

lemma read_only_refl [simp]: "read_only_step p p"
  by (simp add: read_only_step_def)

lemma touch_read_only: "read_only_step p (touch_lru pid p)"
  by (simp add: read_only_step_def backing_like_def wal_like_def split: option.splits)

lemma cache_loaded_read_only:
  assumes "cache_loaded pid raw p = (r, p')" "pg_pages p pid = None"
    "\<And>d. decode_page p pid raw = Inr d \<Longrightarrow> stored_page p pid = Some d"
  shows "read_only_step p p' \<and> (\<forall>x. r = Inr x \<longrightarrow> stored_page p pid = Some x)"
proof (cases "decode_page p pid raw")
  case (Inl e)
  then show ?thesis using assms(1) by (auto simp: cache_loaded_def)
next
  case (Inr d)
  let ?q = "touch_lru pid (p\<lparr>pg_pages := (pg_pages p)(pid \<mapsto> d)\<rparr>)"
  have r: "r = Inr d" "p' = evict_if_needed ?q" using assms(1) Inr by (simp_all add: cache_loaded_def)
  have ev: "evictable ?q = evictable p" by (rule evictable_cong) simp
  have s: "same_store ?q p'" unfolding r(2) by (rule evict_only)
  have b: "backing_like p' p"
    by (rule backing_like_trans [OF same_store_backing [OF s]])
      (simp add: backing_like_def wal_like_def split: option.splits)
  have "pg_pages p' q = pg_pages p q \<or> (evictable p q \<and> pg_pages p' q = None) \<or>
      (pg_pages p q = None \<and> pg_pages p' q = stored_page p q)" for q
    using evict_only(2) [of ?q q] assms(2) assms(3) [OF Inr] unfolding ev r(2) by (cases "q = pid") auto
  then show ?thesis
    using b s r assms(3) Inr by (simp add: read_only_step_def same_store_def)
qed

lemma read_page_read_only:
  assumes "read_page pid p = (r, p')"
  shows "read_only_step p p' \<and> (\<forall>d. r = Inr d \<longrightarrow> page_view p pid = Some d)"
proof (cases "ensure_io_ready p = Inr () \<and> \<not> (pid = 0 \<or> pid > total_pages p)")
  case False
  then show ?thesis using assms by (auto simp: read_page_def split: sum.splits if_splits)
next
  case True
  then have ok: "ensure_io_ready p = Inr ()" "pid \<noteq> 0" "\<not> pid > total_pages p" by auto
  show ?thesis
  proof (cases "pg_pages p pid")
    case (Some d)
    then show ?thesis using assms ok touch_read_only by (auto simp: read_page_def page_view_def)
  next
    case None
    have pv: "page_view p pid = stored_page p pid" using None ok by (simp add: page_view_def)
    show ?thesis
    proof (cases "case pg_wal p of None \<Rightarrow> None | Some w \<Rightarrow> wal_read_page w pid")
      case (Some raw)
      then have "cache_loaded pid raw p = (r, p')" using assms ok None by (simp add: read_page_def)
      moreover have "decode_page p pid raw = Inr d \<Longrightarrow> stored_page p pid = Some d" for d
        using Some by (simp add: stored_page_def)
      ultimately show ?thesis using cache_loaded_read_only None pv by metis
    next
      case nowal: None
      show ?thesis
      proof (cases "pg_file p")
        case (Some f)
        obtain rr f' where rd: "file_read_exact (page_size p) (file_seek (page_offset p pid) f) = (rr, f')" by force
        let ?p = "p\<lparr>pg_file := Some f'\<rparr>"
        have f': "df_data f' = df_data f" using rd by (auto simp: file_read_exact_def file_seek_def split: if_splits)
        have rp: "read_only_step p ?p"
          using Some f' by (simp add: read_only_step_def backing_like_def wal_like_def split: option.splits)
        have bl: "backing_like ?p p" using rp by (simp add: read_only_step_def)
        show ?thesis
        proof (cases rr)
          case (Inl e)
          then show ?thesis using assms ok None nowal Some rd rp by (auto simp: read_page_def)
        next
          case (Inr raw)
          have c: "cache_loaded pid raw ?p = (r, p')" using assms ok None nowal Some rd Inr by (simp add: read_page_def)
          have "is_compressed ?p = is_compressed p" "page_size ?p = page_size p"
            by (simp_all add: is_compressed_def page_size_def)
          then have "decompress_if_needed ?p = decompress_if_needed p"
            by (intro ext) (simp only: decompress_if_needed_def)
          then have dp: "decode_page ?p pid raw = decode_page p pid raw" by (simp add: decode_page_def)
          have st: "decode_page ?p pid raw = Inr d \<Longrightarrow> stored_page ?p pid = Some d" for d
            using nowal Some rd Inr unfolding backing_like_stored [OF bl] dp by (simp add: stored_page_def)
          have np: "pg_pages ?p pid = None" using None by simp
          have q: "read_only_step ?p p'" "\<forall>x. r = Inr x \<longrightarrow> stored_page ?p pid = Some x"
            using cache_loaded_read_only [OF c np st] by blast+
          have ev: "evictable ?p = evictable p" by (rule evictable_cong) simp
          have "read_only_step p p'"
            using q(1) rp backing_like_trans [of p' ?p p]
            unfolding read_only_step_def ev backing_like_stored [OF bl] by simp
          then show ?thesis using q(2) pv unfolding backing_like_stored [OF bl] by simp
        qed
      next
        case nofile: None
        show ?thesis
        proof (cases "pg_reader p")
          case (Some fetch)
          show ?thesis
          proof (cases "fetch (page_offset p pid) (page_size p)")
            case (Inl e)
            then show ?thesis using assms ok None nowal nofile Some by (auto simp: read_page_def)
          next
            case (Inr raw)
            then have "cache_loaded pid raw p = (r, p')"
              using assms ok None nowal nofile Some by (simp add: read_page_def)
            moreover have "decode_page p pid raw = Inr d \<Longrightarrow> stored_page p pid = Some d" for d
              using nowal nofile Some Inr by (simp add: stored_page_def)
            ultimately show ?thesis using cache_loaded_read_only None pv by metis
          qed
        qed (use assms ok None nowal nofile in \<open>auto simp: read_page_def\<close>)
      qed
    qed
  qed
qed

section \<open>The undo invariant\<close>

text \<open>A copy of the page \<open>pid\<close> of the pager \<open>b\<close>; the header bytes of page 1 are not compared.\<close>

definition good_page :: "crc_fun \<Rightarrow> pager \<Rightarrow> page_id \<Rightarrow> bytes \<Rightarrow> bool" where
  "good_page crc b pid d \<longleftrightarrow>
     (if pid = 1
      then \<exists>d1. pg_pages b 1 = Some d1 \<and> patch_header crc (pg_header b) d = patch_header crc (pg_header b) d1
      else page_view b pid = Some d)"

definition pages_ok :: "crc_fun \<Rightarrow> pager \<Rightarrow> (page_id \<rightharpoonup> bytes option) \<Rightarrow> (page_id \<rightharpoonup> bytes) \<Rightarrow> bool" where
  "pages_ok crc b undo pages \<longleftrightarrow>
     (\<forall>pid. 0 < pid \<and> pid \<le> total_pages b \<longrightarrow>
        (case undo pid of
           None \<Rightarrow> (\<forall>d. pages pid = Some d \<longrightarrow> good_page crc b pid d) \<and> (pid = 1 \<longrightarrow> pages 1 \<noteq> None)
         | Some x \<Rightarrow> \<exists>d. x = Some d \<and> good_page crc b pid d))"

definition savepoint_ok :: "pager \<Rightarrow> (page_id \<rightharpoonup> bytes option) \<Rightarrow> named_savepoint \<Rightarrow> bool" where
  "savepoint_ok b undo ns \<longleftrightarrow> dom (sp_undo ns) \<subseteq> dom undo \<and> hdr_like (sp_header ns) (pg_header b) \<and>
     total_pages b \<le> dh_total_pages (sp_header ns) \<and> sp_wal_frames ns = wal_frame_count b"

definition undo_inv :: "crc_fun \<Rightarrow> pager \<Rightarrow> pager \<Rightarrow> bool" where
  "undo_inv crc b p \<longleftrightarrow>
     (\<exists>sp. pg_tx p = Some sp \<and> sp_header sp = pg_header b \<and> sp_total_pages sp = total_pages b \<and>
        sp_wal_frames sp = wal_frame_count b \<and> pages_ok crc b (sp_undo sp) (pg_pages p) \<and>
        (\<forall>ns \<in> set (pg_named p). savepoint_ok b (sp_undo sp) ns)) \<and>
     backing_like p b \<and> total_pages b \<le> total_pages p"

text \<open>What a pager must satisfy when the transaction begins.\<close>

definition settled :: "pager \<Rightarrow> bool" where
  "settled b \<longleftrightarrow> 0 < total_pages b \<and> \<not> pg_writer b \<and> pg_tx b = None \<and> pg_named b = [] \<and> pg_pages b 1 \<noteq> None \<and>
     (\<forall>pid d. 1 < pid \<and> pid \<le> total_pages b \<and> pg_pages b pid = Some d \<longrightarrow> stored_page b pid = Some d) \<and>
     (\<forall>w. pg_wal b = Some w \<longrightarrow> w_index w = index_of (w_frames w))"

lemma settled_view:
  assumes "settled b" "1 < pid" "pid \<le> total_pages b" "stored_page b pid = Some d"
  shows "page_view b pid = Some d"
  using assms by (auto simp: settled_def page_view_def split: option.splits)

definition tx_undo :: "pager \<Rightarrow> (page_id \<rightharpoonup> bytes option)" where
  "tx_undo p = (case pg_tx p of None \<Rightarrow> (\<lambda>_. None) | Some sp \<Rightarrow> sp_undo sp)"

lemma word_gt_1: "(0 :: page_id) < pid \<Longrightarrow> pid \<noteq> 1 \<Longrightarrow> 1 < pid"
  using inc_le [of 0 pid] by simp

lemma undo_inv_pages:
  assumes "undo_inv crc b p"
    "\<And>q. tx_undo p q = None \<Longrightarrow> 0 < q \<Longrightarrow> q \<le> total_pages b \<Longrightarrow>
       (\<forall>d. pages q = Some d \<longrightarrow> good_page crc b q d) \<and> (q = 1 \<longrightarrow> pages q \<noteq> None)"
  shows "undo_inv crc b (p\<lparr>pg_pages := pages\<rparr>)"
proof -
  obtain sp where sp: "pg_tx p = Some sp" "sp_header sp = pg_header b" "sp_total_pages sp = total_pages b"
    "sp_wal_frames sp = wal_frame_count b" "pages_ok crc b (sp_undo sp) (pg_pages p)"
    "\<forall>ns \<in> set (pg_named p). savepoint_ok b (sp_undo sp) ns"
    using assms(1) by (auto simp: undo_inv_def)
  have tu: "tx_undo p = sp_undo sp" using sp(1) by (simp add: tx_undo_def)
  have "pages_ok crc b (sp_undo sp) pages"
    unfolding pages_ok_def
  proof (intro allI impI)
    fix q assume q: "0 < q \<and> q \<le> total_pages b"
    show "case sp_undo sp q of
        None \<Rightarrow> (\<forall>d. pages q = Some d \<longrightarrow> good_page crc b q d) \<and> (q = 1 \<longrightarrow> pages 1 \<noteq> None)
      | Some x \<Rightarrow> \<exists>d. x = Some d \<and> good_page crc b q d"
    proof (cases "sp_undo sp q")
      case None
      then show ?thesis using assms(2) [of q] q tu by auto
    next
      case (Some x)
      then show ?thesis using sp(5) q unfolding pages_ok_def by (auto dest!: spec [of _ q])
    qed
  qed
  then show ?thesis using sp assms(1) by (auto simp: undo_inv_def backing_like_def total_pages_def)
qed

lemma undo_inv_cached:
  assumes "undo_inv crc b p" "tx_undo p q = None" "0 < q" "q \<le> total_pages b"
  shows "(\<forall>d. pg_pages p q = Some d \<longrightarrow> good_page crc b q d) \<and> (q = 1 \<longrightarrow> pg_pages p q \<noteq> None)"
  using assms by (auto simp: undo_inv_def pages_ok_def tx_undo_def split: option.splits)

lemma undo_inv_set_page:
  assumes "undo_inv crc b p" "tx_undo p pid \<noteq> None"
  shows "undo_inv crc b (p\<lparr>pg_pages := (pg_pages p)(pid := x)\<rparr>)"
  by (rule undo_inv_pages [OF assms(1)]) (use assms undo_inv_cached in \<open>auto simp: fun_upd_def\<close>)

lemma undo_inv_read:
  assumes b: "settled b" and inv: "undo_inv crc b p" and r: "read_only_step p p'"
  shows "undo_inv crc b p'"
proof -
  have bl: "backing_like p b" using inv by (simp add: undo_inv_def)
  have "undo_inv crc b (p\<lparr>pg_pages := pg_pages p'\<rparr>)"
  proof (rule undo_inv_pages [OF inv])
    fix q assume q: "tx_undo p q = None" "0 < q" "q \<le> total_pages b"
    note c = undo_inv_cached [OF inv q]
    have "pg_pages p' q = pg_pages p q \<or> (evictable p q \<and> pg_pages p' q = None) \<or>
        (pg_pages p q = None \<and> pg_pages p' q = stored_page p q)"
      using r by (simp add: read_only_step_def)
    then show "(\<forall>d. pg_pages p' q = Some d \<longrightarrow> good_page crc b q d) \<and> (q = 1 \<longrightarrow> pg_pages p' q \<noteq> None)"
    proof (elim disjE conjE)
      assume "pg_pages p q = None" "pg_pages p' q = stored_page p q"
      moreover from this(1) have "q \<noteq> 1" using c by auto
      ultimately show ?thesis
        using settled_view [OF b _ q(3)] word_gt_1 [OF q(2)] backing_like_stored [OF bl, of q]
        by (auto simp: good_page_def)
    qed (use c in \<open>auto simp: evictable_def\<close>)
  qed
  then show ?thesis
    using r inv backing_like_trans [of p' p b]
    by (auto simp: undo_inv_def read_only_step_def total_pages_def)
qed

lemma keeps_read_page:
  "settled b \<Longrightarrow> keeps (undo_inv crc b) (read_page pid)"
  unfolding keeps_def using undo_inv_read read_page_read_only by (metis prod.collapse)

lemma mark_dirty_inv: "undo_inv crc b p \<Longrightarrow> undo_inv crc b (mark_dirty pid p)"
proof -
  assume inv: "undo_inv crc b p"
  have "savepoint_ok b u (mark_sp_dirty pid ns) = savepoint_ok b u ns" for u and ns :: named_savepoint
    by (simp add: savepoint_ok_def mark_sp_dirty_def)
  then have "\<forall>ns \<in> set (map_last (mark_sp_dirty pid) xs). savepoint_ok b u ns"
    if "\<forall>ns \<in> set xs. savepoint_ok b u ns" for u and xs :: "named_savepoint list"
    using that by (cases xs rule: rev_cases) (auto simp: map_last_def)
  then show ?thesis using inv
    by (auto simp: undo_inv_def mark_dirty_def mark_sp_dirty_def backing_like_def total_pages_def)
qed

lemma tx_undo_simps [simp]:
  "tx_undo (p\<lparr>pg_pages := x\<rparr>) = tx_undo p" "tx_undo (mark_dirty pid p) = tx_undo p"
  "tx_undo (touch_lru pid p) = tx_undo p" "tx_undo (set_header f p) = tx_undo p"
  "tx_undo (sync_header_into_page1_cache crc p) = tx_undo p"
  by (simp_all add: tx_undo_def mark_dirty_def mark_sp_dirty_def set_header_def
      sync_header_into_page1_cache_def split: option.splits)

lemma set_header_inv:
  assumes "undo_inv crc b p" "hdr_like (f (pg_header p)) (pg_header p)"
    "total_pages b \<le> dh_total_pages (f (pg_header p))"
  shows "undo_inv crc b (set_header f p)"
  using assms hdr_like_trans [of "f (pg_header p)" "pg_header p" "pg_header b"]
  by (auto simp: undo_inv_def set_header_def backing_like_def total_pages_def)

lemma sync_header_inv:
  assumes inv: "undo_inv crc b p"
  shows "undo_inv crc b (sync_header_into_page1_cache crc p)"
  unfolding sync_header_into_page1_cache_def
proof (rule undo_inv_pages [OF inv])
  fix q assume q: "tx_undo p q = None" "0 < q" "q \<le> total_pages b"
  note c = undo_inv_cached [OF inv q]
  have h: "hdr_like (pg_header p) (pg_header b)" using inv by (simp add: undo_inv_def backing_like_def)
  show "(\<forall>d. ((pg_pages p)(1 \<mapsto> patch_header crc (pg_header p)
             (case pg_pages p 1 of None \<Rightarrow> replicate (page_size p) 0 | Some d \<Rightarrow> d))) q = Some d \<longrightarrow> good_page crc b q d) \<and>
       (q = 1 \<longrightarrow> ((pg_pages p)(1 \<mapsto> patch_header crc (pg_header p)
             (case pg_pages p 1 of None \<Rightarrow> replicate (page_size p) 0 | Some d \<Rightarrow> d))) q \<noteq> None)"
    using c patch_patch [OF h, of crc] by (auto simp: good_page_def)
qed

section \<open>Every operation keeps the invariant\<close>

text \<open>A new undo entry, in the transaction and in the last savepoint.\<close>

definition add_undo :: "page_id \<Rightarrow> bytes option \<Rightarrow> pager \<Rightarrow> pager" where
  "add_undo pid prev p =
     p\<lparr>pg_tx := map_option (undo_or_insert pid prev) (pg_tx p),
       pg_named := map_last (undo_or_insert pid prev) (pg_named p)\<rparr>"

lemma savepoint_ok_last:
  assumes "\<forall>ns \<in> set xs. savepoint_ok b u ns" "dom u \<subseteq> dom u'" "pid \<in> dom u'"
  shows "\<forall>ns \<in> set (map_last (undo_or_insert pid x) xs). savepoint_ok b u' ns"
proof -
  have "savepoint_ok b u' ns \<and> savepoint_ok b u' (undo_or_insert pid x ns)" if ok: "savepoint_ok b u ns" for ns
  proof -
    have "dom (sp_undo ns) \<subseteq> dom u'" using ok assms(2) unfolding savepoint_ok_def by blast
    moreover have "dom (sp_undo (undo_or_insert pid x ns)) \<subseteq> insert pid (dom (sp_undo ns))"
      by (auto simp: undo_or_insert_def)
    then have "dom (sp_undo (undo_or_insert pid x ns)) \<subseteq> dom u'" using calculation assms(3) by blast
    moreover have "sp_header (undo_or_insert pid x ns) = sp_header ns"
      "sp_wal_frames (undo_or_insert pid x ns) = sp_wal_frames ns"
      by (simp_all add: undo_or_insert_def)
    ultimately show ?thesis using ok unfolding savepoint_ok_def by simp
  qed
  then show ?thesis using assms(1) by (cases xs rule: rev_cases) (auto simp: map_last_def)
qed

lemma add_undo_inv:
  assumes inv: "undo_inv crc b p"
    and good: "tx_undo p pid = None \<Longrightarrow> 0 < pid \<Longrightarrow> pid \<le> total_pages b \<Longrightarrow> \<exists>d. prev = Some d \<and> good_page crc b pid d"
  shows "undo_inv crc b (add_undo pid prev p) \<and> tx_undo (add_undo pid prev p) pid \<noteq> None"
proof -
  obtain sp where sp: "pg_tx p = Some sp" "sp_header sp = pg_header b" "sp_total_pages sp = total_pages b"
    "sp_wal_frames sp = wal_frame_count b" "pages_ok crc b (sp_undo sp) (pg_pages p)"
    "\<forall>ns \<in> set (pg_named p). savepoint_ok b (sp_undo sp) ns"
    using inv by (auto simp: undo_inv_def)
  let ?sp = "undo_or_insert pid prev sp"
  have u: "dom (sp_undo sp) \<subseteq> dom (sp_undo ?sp)" "pid \<in> dom (sp_undo ?sp)"
    by (auto simp: undo_or_insert_def)
  have "pages_ok crc b (sp_undo ?sp) (pg_pages p)"
  proof (cases "sp_undo sp pid")
    case None
    then show ?thesis using sp(1,5) good unfolding pages_ok_def undo_or_insert_def tx_undo_def
      by (auto split: option.splits)
  qed (use sp(5) in \<open>simp add: undo_or_insert_def\<close>)
  moreover have "sp_header ?sp = sp_header sp" "sp_total_pages ?sp = sp_total_pages sp"
    "sp_wal_frames ?sp = sp_wal_frames sp"
    by (simp_all add: undo_or_insert_def)
  ultimately show ?thesis
    using sp inv savepoint_ok_last [OF sp(6) u]
    by (auto simp: undo_inv_def add_undo_def tx_undo_def backing_like_def total_pages_def undo_or_insert_def)
qed

lemma read_only_tx_undo: "read_only_step p p' \<Longrightarrow> tx_undo p' = tx_undo p"
  by (simp add: read_only_step_def tx_undo_def)

lemma page_view_good:
  assumes b: "settled b" and inv: "undo_inv crc b p" and q: "tx_undo p pid = None" "0 < pid" "pid \<le> total_pages b"
    and v: "page_view p pid = Some d"
  shows "good_page crc b pid d"
proof (cases "pg_pages p pid")
  case (Some e)
  then show ?thesis using undo_inv_cached [OF inv q] v by (auto simp: page_view_def split: if_splits)
next
  case None
  then have "pid \<noteq> 1" using undo_inv_cached [OF inv q] by auto
  moreover have "stored_page p pid = Some d" using v None by (auto simp: page_view_def split: if_splits)
  moreover have "backing_like p b" using inv by (simp add: undo_inv_def)
  ultimately show ?thesis
    using settled_view [OF b word_gt_1 [OF q(2)] q(3)] backing_like_stored [of p b pid] by (simp add: good_page_def)
qed

lemma record_undo_inv:
  assumes b: "settled b" and inv: "undo_inv crc b p" and run: "record_undo pid p = (r, p')"
  shows "undo_inv crc b p' \<and> (r = Inr () \<longrightarrow> tx_undo p' pid \<noteq> None) \<and> pg_header p' = pg_header p \<and>
    (pg_pages p pid \<noteq> None \<longrightarrow> pg_pages p' = pg_pages p)"
proof -
  obtain sp where sp: "pg_tx p = Some sp" "sp_total_pages sp = total_pages b" using inv by (auto simp: undo_inv_def)
  have tu: "tx_undo p = sp_undo sp" using sp by (simp add: tx_undo_def)
  show ?thesis
  proof (cases "sp_undo sp pid")
    case (Some x)
    have "p' = add_undo pid (pg_pages p pid) p" "r = Inr ()"
      using run sp Some by (auto simp: record_undo_def add_undo_def undo_or_insert_def)
    then show ?thesis
      using add_undo_inv [OF inv, of pid "pg_pages p pid"] Some tu by (simp add: add_undo_def)
  next
    case None
    note q = None [folded tu]
    have upd: "(\<lambda>sp. sp\<lparr>sp_undo := (sp_undo sp)(pid \<mapsto> prev)\<rparr>) sp = undo_or_insert pid prev sp" for prev
      using None by (simp add: undo_or_insert_def)
    show ?thesis
    proof (cases "pg_pages p pid")
      case (Some cached)
      have "p' = add_undo pid (Some cached) p" "r = Inr ()"
        using run sp None Some by (auto simp: record_undo_def add_undo_def undo_or_insert_def bind_s_def)
      moreover have "\<exists>d. Some cached = Some d \<and> good_page crc b pid d" if "0 < pid" "pid \<le> total_pages b"
        using undo_inv_cached [OF inv q that] Some by auto
      ultimately show ?thesis using add_undo_inv [OF inv, of pid "Some cached"] by (simp add: add_undo_def)
    next
      case uncached: None
      show ?thesis
      proof (cases "pid \<le> total_pages b")
        case True
        obtain rr p1 where rd: "read_page pid p = (rr, p1)" by force
        note ro = read_page_read_only [OF rd]
        have inv1: "undo_inv crc b p1" using undo_inv_read [OF b inv] ro by blast
        have h1: "pg_header p1 = pg_header p" "pg_tx p1 = pg_tx p" using ro by (auto simp: read_only_step_def)
        show ?thesis
        proof (cases rr)
          case (Inl e)
          then have "p' = p1" "r = Inl e"
            using run sp None uncached True rd by (simp_all add: record_undo_def bind_s_def)
          then show ?thesis using inv1 h1 uncached by simp
        next
          case (Inr d)
          have "p' = add_undo pid (Some d) p1" "r = Inr ()"
            using run sp None uncached True rd Inr h1
            by (auto simp: record_undo_def add_undo_def undo_or_insert_def bind_s_def)
          moreover have "tx_undo p1 pid = None" using q h1 by (simp add: tx_undo_def)
          moreover have "good_page crc b pid d" if "0 < pid"
            using page_view_good [OF b inv q that True] ro Inr by blast
          ultimately show ?thesis
            using add_undo_inv [OF inv1, of pid "Some d"] h1 uncached by (simp add: add_undo_def)
        qed
      next
        case False
        have "p' = add_undo pid None p" "r = Inr ()"
          using run sp None uncached False by (auto simp: record_undo_def add_undo_def undo_or_insert_def bind_s_def)
        then show ?thesis using add_undo_inv [OF inv, of pid None] False by (simp add: add_undo_def)
      qed
    qed
  qed
qed

lemma undo_inv_tx: "undo_inv crc b p \<Longrightarrow> is_in_transaction p"
  by (auto simp: undo_inv_def is_in_transaction_def)

lemma undo_inv_writer: "settled b \<Longrightarrow> undo_inv crc b p \<Longrightarrow> \<not> pg_writer p"
  by (simp add: undo_inv_def backing_like_def settled_def)

lemma write_page_inv:
  assumes b: "settled b" and inv: "undo_inv crc b p" and run: "write_page crc pid d p = (r, p')"
  shows "undo_inv crc b p' \<and> pg_header p' = pg_header p"
proof -
  have w: "\<not> pg_writer p" using undo_inv_writer [OF b inv] .
  show ?thesis
  proof (cases "read_only_remote p \<or> length d \<noteq> page_size p \<or> pid = 0 \<or> pid > total_pages p")
    case True
    then have "p' = p" using run w by (auto simp: write_page_def split: if_splits)
    then show ?thesis using inv by simp
  next
    case False
    obtain ru p1 where ru: "record_undo pid p = (ru, p1)" by force
    note ri = record_undo_inv [OF b inv ru]
    let ?d = "if pid = 1 then patch_header crc (pg_header p) d else d"
    have run': "bind_s (record_undo pid) (\<lambda>_ p.
          if is_in_transaction (p\<lparr>pg_pages := (pg_pages p)(pid \<mapsto> ?d)\<rparr>)
          then (Inr (), mark_dirty pid (p\<lparr>pg_pages := (pg_pages p)(pid \<mapsto> ?d)\<rparr>))
          else write_through crc pid ?d (p\<lparr>pg_pages := (pg_pages p)(pid \<mapsto> ?d)\<rparr>)) p = (r, p')"
      using run False w unfolding write_page_def Let_def by simp
    show ?thesis
    proof (cases ru)
      case (Inl e)
      then have "p' = p1" using run' ru by (simp add: bind_s_def)
      then show ?thesis using ri by simp
    next
      case (Inr u)
      have "is_in_transaction (p1\<lparr>pg_pages := x\<rparr>)" for x
        using undo_inv_tx [of crc b p1] ri by (simp add: is_in_transaction_def)
      then have p': "p' = mark_dirty pid (p1\<lparr>pg_pages := (pg_pages p1)(pid \<mapsto> ?d)\<rparr>)"
        using run' ru Inr by (simp add: bind_s_def)
      have "undo_inv crc b (p1\<lparr>pg_pages := (pg_pages p1)(pid \<mapsto> ?d)\<rparr>)"
        by (rule undo_inv_set_page) (use ri Inr in auto)
      then have "undo_inv crc b p'" unfolding p' by (rule mark_dirty_inv)
      then show ?thesis using ri p' by (simp add: mark_dirty_def)
    qed
  qed
qed

lemma ensure_loaded_inv:
  assumes b: "settled b" and inv: "undo_inv crc b p" and run: "ensure_loaded pid p = (r, p')"
  shows "undo_inv crc b p' \<and> pg_header p' = pg_header p"
proof (cases "pg_pages p pid")
  case (Some d)
  then show ?thesis using run inv by (simp add: ensure_loaded_def)
next
  case None
  obtain rr p1 where rd: "read_page pid p = (rr, p1)" by force
  note ro = read_page_read_only [OF rd]
  have inv1: "undo_inv crc b p1" using undo_inv_read [OF b inv] ro by blast
  have h1: "pg_header p1 = pg_header p" "tx_undo p1 = tx_undo p" using ro read_only_tx_undo by (auto simp: read_only_step_def)
  show ?thesis
  proof (cases rr)
    case (Inl e)
    then show ?thesis using run None rd inv1 h1 by (auto simp: ensure_loaded_def bind_s_def)
  next
    case (Inr d)
    then have p': "p' = p1\<lparr>pg_pages := (pg_pages p1)(pid \<mapsto> d)\<rparr>"
      using run None rd by (simp add: ensure_loaded_def bind_s_def)
    have "undo_inv crc b p'"
      unfolding p'
    proof (rule undo_inv_pages [OF inv1])
      fix q assume q: "tx_undo p1 q = None" "0 < q" "q \<le> total_pages b"
      have "good_page crc b pid d" if "q = pid"
        using page_view_good [OF b inv _ _ _] ro Inr q that h1 by metis
      then show "(\<forall>x. ((pg_pages p1)(pid \<mapsto> d)) q = Some x \<longrightarrow> good_page crc b q x) \<and>
          (q = 1 \<longrightarrow> ((pg_pages p1)(pid \<mapsto> d)) q \<noteq> None)"
        using undo_inv_cached [OF inv1 q] by auto
    qed
    then show ?thesis using p' h1 by simp
  qed
qed

lemma with_page_inv:
  assumes b: "settled b" and inv: "undo_inv crc b p"
  shows "undo_inv crc b (snd (with_page pid f p))"
proof -
  obtain r p1 where r: "ensure_loaded pid p = (r, p1)" by force
  have "snd (with_page pid f p) = p \<or> snd (with_page pid f p) = p1"
    using r by (auto simp: with_page_def bind_s_def split: sum.splits option.splits)
  then show ?thesis using inv ensure_loaded_inv [OF b inv r] by auto
qed

lemma modify_page_inv:
  assumes b: "settled b" and inv: "undo_inv crc b p"
  shows "undo_inv crc b (snd (modify_page crc pid f p))"
proof (cases "pid = 0 \<or> pid > total_pages p")
  case True
  then show ?thesis using inv by (simp add: modify_page_def)
next
  case False
  obtain r p1 where r: "ensure_loaded pid p = (r, p1)" by force
  note i1 = ensure_loaded_inv [OF b inv r]
  obtain r2 p2 where r2: "record_undo pid p1 = (r2, p2)" by force
  note i2 = record_undo_inv [OF b i1 [THEN conjunct1] r2]
  show ?thesis
  proof (cases "r = Inr () \<and> r2 = Inr ()")
    case False
    then have "snd (modify_page crc pid f p) = p1 \<or> snd (modify_page crc pid f p) = p2"
      using r r2 \<open>\<not> (pid = 0 \<or> pid > total_pages p)\<close>
      by (cases r; cases r2) (auto simp: modify_page_def bind_s_def)
    then show ?thesis using i1 i2 by auto
  next
    case True
    let ?p = "mark_dirty pid p2"
    have i3: "undo_inv crc b ?p" "tx_undo ?p pid \<noteq> None" using i2 True mark_dirty_inv by auto
    have tx: "is_in_transaction p2" "is_in_transaction ?p" using undo_inv_tx i2 i3 by blast+
    have tx': "is_in_transaction (?p\<lparr>pg_pages := x\<rparr>)" for x using tx by (simp add: is_in_transaction_def)
    have "snd (modify_page crc pid f p) = ?p \<or> (\<exists>x. snd (modify_page crc pid f p) = ?p\<lparr>pg_pages := (pg_pages ?p)(pid \<mapsto> x)\<rparr>)"
    proof (cases "pg_pages ?p pid")
      case None
      then show ?thesis
        using False r r2 True tx by (simp add: modify_page_def bind_s_def Let_def)
    next
      case (Some buf)
      obtain rf buf' where "f buf = (rf, buf')" by force
      then show ?thesis
        using False r r2 True tx tx' Some
        by (cases rf) (simp_all add: modify_page_def bind_s_def Let_def, blast+)
    qed
    then show ?thesis using i3 undo_inv_set_page [OF i3, of "Some x" for x] by metis
  qed
qed

lemma settled_total: "undo_inv crc b p \<Longrightarrow> total_pages b \<le> total_pages p"
  by (simp add: undo_inv_def)

lemma hdr_like_freelist:
  "hdr_like (dec_freelist h) h" "hdr_like (h\<lparr>dh_freelist_trunk := t\<rparr>) h"
  "hdr_like (h\<lparr>dh_freelist_trunk := t, dh_freelist_count := c\<rparr>) h" "hdr_like (h\<lparr>dh_freelist_count := c\<rparr>) h"
  "hdr_like (h\<lparr>dh_total_pages := n\<rparr>) h" "hdr_like (dec_freelist (h\<lparr>dh_freelist_trunk := t\<rparr>)) h"
  by (simp_all add: hdr_like_def dec_freelist_def)

lemma dec_freelist_total [simp]: "dh_total_pages (dec_freelist h) = dh_total_pages h"
  by (simp add: dec_freelist_def)

lemma set_header_free_inv:
  assumes "undo_inv crc b p" "hdr_like (f (pg_header p)) (pg_header p)"
    "dh_total_pages (f (pg_header p)) = dh_total_pages (pg_header p)"
  shows "undo_inv crc b (set_header f p)"
  by (rule set_header_inv) (use assms settled_total [OF assms(1)] in \<open>simp_all add: total_pages_def\<close>)

lemma write_keeps: "settled b \<Longrightarrow> keeps (undo_inv crc b) (write_page crc pid d)"
  unfolding keeps_def using write_page_inv by (metis prod.collapse)

lemma keeps_if: "keeps I m \<Longrightarrow> keeps I n \<Longrightarrow> keeps I (\<lambda>s. if c s then m s else n s)"
  by (simp add: keeps_def)

lemma keeps_if_const: "keeps I m \<Longrightarrow> keeps I n \<Longrightarrow> keeps I (if c then m else n)"
  by simp

lemma keeps_self: "(\<And>q. keeps I (F q)) \<Longrightarrow> keeps I (\<lambda>p. F p p)"
  by (simp add: keeps_def)

lemma keeps_error: "keeps I (\<lambda>p. (Inl e, p))"
  by (simp add: keeps_def)

lemma keeps_at: "keeps I m \<Longrightarrow> I s \<Longrightarrow> I (snd (m s))"
  by (simp add: keeps_def)

lemma put_keeps: "(\<And>p. undo_inv crc b p \<Longrightarrow> undo_inv crc b (g p)) \<Longrightarrow> keeps (undo_inv crc b) (put_s g)"
  by (simp add: keeps_def)

lemma header_keeps:
  "keeps (undo_inv crc b) (put_s (set_header (\<lambda>h. h\<lparr>dh_freelist_trunk := t\<rparr>)))"
  "keeps (undo_inv crc b) (put_s (set_header (\<lambda>h. h\<lparr>dh_freelist_trunk := t, dh_freelist_count := c\<rparr>)))"
  "keeps (undo_inv crc b) (put_s (set_header dec_freelist))"
  "keeps (undo_inv crc b) (put_s (set_header (\<lambda>h. dec_freelist (h\<lparr>dh_freelist_trunk := t\<rparr>))))"
  "keeps (undo_inv crc b) inc_freelist"
  by (auto simp: keeps_def inc_freelist_def hdr_like_freelist intro!: set_header_free_inv)

lemmas undo_keeps = header_keeps keeps_basic keeps_error keeps_if keeps_if_const keeps_bind

lemma pop_trunk_keeps: "settled b \<Longrightarrow> keeps (undo_inv crc b) (pop_trunk crc t)"
  unfolding pop_trunk_def by (intro undo_keeps keeps_read_page write_keeps)

lemma push_trunk_keeps: "settled b \<Longrightarrow> keeps (undo_inv crc b) (push_trunk crc pid t)"
  unfolding push_trunk_def
  by (intro undo_keeps keeps_read_page write_keeps keeps_self
      [of _ "\<lambda>q. bind_s (write_page crc pid (splice (replicate (page_size q) 0) 0 (to_le32 t))) (\<lambda>_.
            bind_s (put_s (set_header (\<lambda>h. h\<lparr>dh_freelist_trunk := pid\<rparr>))) (\<lambda>_. inc_freelist))"])

lemma pick_page_inv:
  assumes b: "settled b" and inv: "undo_inv crc b p" and run: "pick_page crc p = (r, p')"
  shows "undo_inv crc b p' \<and> (\<forall>pid. r = Inr (pid, False) \<longrightarrow> total_pages b < pid)"
proof (cases "dh_freelist_count (pg_header p) > 0 \<and> dh_freelist_trunk (pg_header p) > 0")
  case False
  show ?thesis
  proof (cases "total_pages p = - 1")
    case True
    then show ?thesis using False run inv by (auto simp: pick_page_def)
  next
    case fits: False
    let ?n = "total_pages p + 1"
    have nz: "1 + total_pages p \<noteq> 0" using fits by (metis add_eq_0_iff)
    have lt: "total_pages p < ?n"
      unfolding word_less_nat_alt add.commute [of "total_pages p"] using unatSuc [OF nz] by simp
    then have le: "total_pages b < ?n" using settled_total [OF inv] by simp
    have "p' = set_header (\<lambda>h. h\<lparr>dh_total_pages := ?n\<rparr>) p" "r = Inr (?n, False)"
      using False fits run by (auto simp: pick_page_def Let_def)
    then show ?thesis
      using set_header_inv [OF inv, of "\<lambda>h. h\<lparr>dh_total_pages := ?n\<rparr>"] le by (simp add: hdr_like_freelist)
  qed
next
  case True
  then have run': "bind_s (pop_trunk crc (dh_freelist_trunk (pg_header p))) (\<lambda>pid. ret_s (pid, True)) p = (r, p')"
    using run by (simp add: pick_page_def)
  have "keeps (undo_inv crc b) (bind_s (pop_trunk crc (dh_freelist_trunk (pg_header p))) (\<lambda>pid. ret_s (pid, True)))"
    by (intro keeps_bind pop_trunk_keeps [OF b] keeps_basic)
  from keeps_at [OF this inv] show ?thesis
    using run' by (auto simp: bind_s_def split: prod.splits sum.splits)
qed

end
