(* ===== verification/Pager_Steps.thy ===== *)
theory Pager_Steps
  imports Pager_Rollback
begin

text \<open>
  The remaining operations of an open transaction (allocation, the free list, savepoints) keep
  \<open>undo_inv\<close>; \<open>tx_steps\<close> closes all of them under sequencing, and a rollback from any
  reachable state shows the pages the transaction began with.
\<close>

section \<open>Allocation\<close>

lemma evict_read_only: "read_only_step p (evict_if_needed p)"
  using evict_only [of p] same_store_backing [OF evict_only(1), of p]
  by (auto simp: read_only_step_def same_store_def)

lemma touch_evict_inv:
  assumes "settled b" "undo_inv crc b p"
  shows "undo_inv crc b (evict_if_needed (touch_lru pid p))"
  by (rule undo_inv_read [OF assms(1) undo_inv_read [OF assms touch_read_only] evict_read_only])

lemma allocate_page_inv:
  assumes b: "settled b" and inv: "undo_inv crc b p"
  shows "undo_inv crc b (snd (allocate_page crc p))"
proof (cases "read_only_remote p")
  case True
  then show ?thesis using inv by (simp add: allocate_page_def)
next
  case False
  obtain r p1 where r: "pick_page crc p = (r, p1)" by force
  note i1 = pick_page_inv [OF b inv r]
  show ?thesis
  proof (cases r)
    case (Inl e)
    then show ?thesis using False r i1 by (simp add: allocate_page_def bind_s_def Let_def)
  next
    case (Inr x)
    obtain pid reused where x: "x = (pid, reused)" by force
    obtain ro p2 where ro: "(if reused then bind_s (read_page pid) (\<lambda>d. ret_s (Some d)) else ret_s None) p1 = (ro, p2)"
      by force
    have i2: "undo_inv crc b p2 \<and> (\<forall>original. ro = Inr original \<longrightarrow>
        (tx_undo p2 pid = None \<longrightarrow> 0 < pid \<longrightarrow> pid \<le> total_pages b \<longrightarrow> (\<exists>d. original = Some d \<and> good_page crc b pid d)))"
    proof (cases reused)
      case True
      obtain rr q where rd: "read_page pid p1 = (rr, q)" by force
      note rs = read_page_read_only [OF rd]
      have "undo_inv crc b q" using undo_inv_read [OF b] i1 rs by blast
      moreover have "good_page crc b pid d" if "rr = Inr d" "tx_undo q pid = None" "0 < pid" "pid \<le> total_pages b" for d
        using page_view_good [OF b i1 [THEN conjunct1]] rs that read_only_tx_undo by metis
      ultimately show ?thesis using ro True rd by (cases rr) (auto simp: bind_s_def)
    next
      case False
      then have "total_pages b < pid" using i1 Inr x by simp
      then show ?thesis using ro False i1 by auto
    qed
    show ?thesis
    proof (cases ro)
      case (Inl e)
      then show ?thesis
        using False r Inr x ro i2 unfolding allocate_page_def Let_def by (simp add: bind_s_def)
    next
      case (Inr original)
      let ?p3 = "add_undo pid original p2"
      let ?zero = "replicate (page_size p) 0"
      let ?p4 = "?p3\<lparr>pg_pages := (pg_pages ?p3)(pid \<mapsto> ?zero)\<rparr>"
      let ?p5 = "sync_header_into_page1_cache crc (evict_if_needed (touch_lru pid ?p4))"
      have i3: "undo_inv crc b ?p3" "tx_undo ?p3 pid \<noteq> None"
        using add_undo_inv [of crc b p2 pid original] i2 Inr by auto
      have i4: "undo_inv crc b ?p4" by (rule undo_inv_set_page [OF i3])
      have i5: "undo_inv crc b ?p5" by (rule sync_header_inv [OF touch_evict_inv [OF b i4]])
      have tx: "is_in_transaction ?p3" "is_in_transaction ?p5" using undo_inv_tx i3(1) i5 by blast+
      have nw: "\<not> pg_writer ?p3" using undo_inv_writer [OF b i3(1)] .
      obtain page1 where p1c: "pg_pages ?p5 1 = Some page1" by (simp add: sync_header_into_page1_cache_def)
      have "snd (allocate_page crc p) = mark_dirty pid (mark_dirty 1 ?p5)"
        using False r \<open>r = Inr x\<close> x ro Inr nw tx p1c
        unfolding allocate_page_def Let_def
        by (simp add: bind_s_def add_undo_def [symmetric] del: One_nat_def)
      then show ?thesis using mark_dirty_inv [OF mark_dirty_inv [OF i5]] by simp
    qed
  qed
qed

lemma free_page_inv:
  assumes b: "settled b" and inv: "undo_inv crc b p"
  shows "undo_inv crc b (snd (free_page crc pid p))"
proof (cases "pid = 0 \<or> pid > total_pages p \<or> pid = 1")
  case True
  then show ?thesis using inv unfolding free_page_def by simp
next
  case False
  let ?m = "\<lambda>q. bind_s (if dh_freelist_trunk (pg_header q) = 0
          then bind_s (write_page crc pid (replicate (page_size q) 0)) (\<lambda>_.
                 put_s (set_header (\<lambda>h. h\<lparr>dh_freelist_trunk := pid, dh_freelist_count := 1\<rparr>)))
          else push_trunk crc pid (dh_freelist_trunk (pg_header q)))
        (\<lambda>_. put_s (sync_header_into_page1_cache crc))"
  have "keeps (undo_inv crc b) (?m p)"
    by (intro undo_keeps write_keeps [OF b] push_trunk_keeps [OF b] put_keeps sync_header_inv)
  from keeps_at [OF this inv] show ?thesis using False unfolding free_page_def by simp
qed

section \<open>Savepoints\<close>

lemma backing_frames: "backing_like p b \<Longrightarrow> wal_frame_count p = wal_frame_count b"
  by (auto simp: backing_like_def wal_like_def wal_frame_count_def frame_count_def split: option.splits)

lemma undo_inv_hdr_like: "undo_inv crc b p \<Longrightarrow> hdr_like (pg_header p) (pg_header b)"
  by (simp add: undo_inv_def backing_like_def)

lemma hdr_like_sym: "hdr_like h g \<Longrightarrow> hdr_like g h"
  by (simp add: hdr_like_def)

lemma undo_inv_named:
  assumes "undo_inv crc b p" "\<And>ns. ns \<in> set xs \<Longrightarrow> savepoint_ok b (tx_undo p) ns"
  shows "undo_inv crc b (p\<lparr>pg_named := xs\<rparr>)"
  using assms by (auto simp: undo_inv_def tx_undo_def backing_like_def total_pages_def)

lemma undo_inv_savepoint: "undo_inv crc b p \<Longrightarrow> ns \<in> set (pg_named p) \<Longrightarrow> savepoint_ok b (tx_undo p) ns"
  by (auto simp: undo_inv_def tx_undo_def)

lemma create_savepoint_inv:
  assumes inv: "undo_inv crc b p"
  shows "undo_inv crc b (snd (create_savepoint name p))"
proof -
  have tx: "pg_tx p \<noteq> None" "wal_frame_count p = wal_frame_count b"
    using undo_inv_tx [OF inv] inv backing_frames by (auto simp: is_in_transaction_def undo_inv_def)
  let ?new = "\<lparr>sp_header = pg_header p, sp_undo = (\<lambda>_. None), sp_dirty = {}, sp_total_pages = total_pages p,
      sp_wal_frames = wal_frame_count p, sp_name = name\<rparr>"
  have "snd (create_savepoint name p) = p\<lparr>pg_named := pg_named p @ [?new]\<rparr>" "savepoint_ok b u ?new" for u
    using tx undo_inv_hdr_like [OF inv] settled_total [OF inv]
    by (cases "pg_tx p", simp_all add: create_savepoint_def bind_s_def savepoint_ok_def total_pages_def)
  then show ?thesis
    using undo_inv_savepoint [OF inv] by (auto intro!: undo_inv_named [OF inv])
qed

lemma restore_page_tx_undo: "tx_undo (restore_page e p) = tx_undo p"
  by (cases e; cases "snd e") (simp_all add: restore_page_def tx_undo_def)

lemma touch_remove_inv:
  "undo_inv crc b (touch_lru pid p) = undo_inv crc b p" "undo_inv crc b (remove_lru pid p) = undo_inv crc b p"
  by (simp_all add: undo_inv_def backing_like_def total_pages_def)

lemma restore_fold_inv:
  assumes "undo_inv crc b p" "\<And>pid x. (pid, x) \<in> set es \<Longrightarrow> tx_undo p pid \<noteq> None"
  shows "undo_inv crc b (fold restore_page es p)"
  using assms
proof (induction es arbitrary: p)
  case (Cons e es)
  obtain pid x where e: "e = (pid, x)" by force
  have "undo_inv crc b (restore_page e p)"
    using undo_inv_set_page [OF Cons.prems(1), of pid] Cons.prems(2) [of pid x]
    by (cases x) (simp_all add: e restore_page_def touch_remove_inv)
  moreover have "tx_undo (restore_page e p) pid \<noteq> None" if "(pid, x) \<in> set es" for pid x
    using Cons.prems(2) [of pid x] that by (simp only: restore_page_tx_undo) simp
  ultimately have "undo_inv crc b (fold restore_page es (restore_page e p))" by (rule Cons.IH)
  then show ?case by simp
qed simp

lemma restore_pages_fields [simp]:
  "pg_tx (restore_pages u p) = pg_tx p" "pg_named (restore_pages u p) = pg_named p"
  "pg_wal (restore_pages u p) = pg_wal p" "pg_header (restore_pages u p) = pg_header p"
  "pg_file (restore_pages u p) = pg_file p" "pg_cipher (restore_pages u p) = pg_cipher p"
  "pg_reader (restore_pages u p) = pg_reader p" "pg_writer (restore_pages u p) = pg_writer p"
proof -
  have "pg_tx (fold restore_page es p) = pg_tx p \<and> pg_named (fold restore_page es p) = pg_named p \<and>
      pg_wal (fold restore_page es p) = pg_wal p \<and> pg_header (fold restore_page es p) = pg_header p \<and>
      pg_file (fold restore_page es p) = pg_file p \<and> pg_cipher (fold restore_page es p) = pg_cipher p \<and>
      pg_reader (fold restore_page es p) = pg_reader p \<and> pg_writer (fold restore_page es p) = pg_writer p" for es
    by (induction es arbitrary: p) (auto simp: restore_page_def split: prod.splits option.splits)
  then show "pg_tx (restore_pages u p) = pg_tx p" "pg_named (restore_pages u p) = pg_named p"
    "pg_wal (restore_pages u p) = pg_wal p" "pg_header (restore_pages u p) = pg_header p"
    "pg_file (restore_pages u p) = pg_file p" "pg_cipher (restore_pages u p) = pg_cipher p"
    "pg_reader (restore_pages u p) = pg_reader p" "pg_writer (restore_pages u p) = pg_writer p"
    by (auto simp: restore_pages_def)
qed

lemma undo_entries_mem: "(pid, x) \<in> set (undo_entries m) \<Longrightarrow> m pid = Some x"
  by (auto simp: undo_entries_def)

lemma restore_pages_inv:
  assumes "undo_inv crc b p" "dom u \<subseteq> dom (tx_undo p)"
  shows "undo_inv crc b (restore_pages u p)"
  unfolding restore_pages_def
  by (rule restore_fold_inv [OF assms(1)]) (use assms(2) undo_entries_mem in fastforce)

lemma pager_wal_rollback_fields:
  "snd (pager_wal_rollback n p) = p\<lparr>pg_wal := pg_wal (snd (pager_wal_rollback n p))\<rparr>"
  by (auto simp: pager_wal_rollback_def split: option.splits prod.splits)

text \<open>Cutting the log back to the frames it holds changes no page.\<close>

definition same_frames :: "wal \<Rightarrow> wal \<Rightarrow> bool" where
  "same_frames w w' \<longleftrightarrow> w_frames w' = w_frames w \<and> w_index w' = w_index w"

lemma or_fail_with_writer_frames:
  "or_fail_io (\<lambda>w. with_writer (m w) w) w = (r, w') \<Longrightarrow> same_frames w w'"
  by (auto simp: or_fail_io_def with_writer_def same_frames_def split: prod.splits sum.splits option.splits)

lemma wal_rollback_full:
  assumes "wal_rollback_to (length (w_frames w)) w = (r, w')" "w_index w = index_of (w_frames w)"
  shows "same_frames w w'"
proof -
  obtain m where m: "wal_rollback_to (length (w_frames w)) w =
      bind_s (or_fail_io (\<lambda>w. with_writer (m w) w)) (\<lambda>_ w1. let fs = take (length (w_frames w)) (w_frames w1) in
        (Inr (), w1\<lparr>w_io_failed := False, w_frames := fs, w_index := index_of fs\<rparr>)) w"
    by (rule that, unfold wal_rollback_to_def Let_def min.idem, rule refl)
  obtain r1 w1 where r1: "or_fail_io (\<lambda>w. with_writer (m w) w) w = (r1, w1)" by force
  have "same_frames w w1" by (rule or_fail_with_writer_frames [OF r1])
  then show ?thesis
    using assms m r1 by (cases r1) (auto simp: bind_s_def Let_def same_frames_def)
qed

lemma same_frames_like: "same_frames w w' \<Longrightarrow> wal_like (Some w') (Some w)"
  by (simp add: same_frames_def wal_like_def)

lemma pager_wal_rollback_like:
  assumes b: "settled b" and bl: "backing_like p b"
  shows "\<exists>x. snd (pager_wal_rollback (wal_frame_count b) p) = p\<lparr>pg_wal := x\<rparr> \<and> wal_like x (pg_wal b)"
proof (cases "pg_wal p")
  case None
  then have "snd (pager_wal_rollback (wal_frame_count b) p) = p\<lparr>pg_wal := pg_wal p\<rparr>"
    by (simp add: pager_wal_rollback_def)
  then show ?thesis using bl by (intro exI [of _ "pg_wal p"]) (simp add: backing_like_def)
next
  case (Some w)
  then obtain v where v: "pg_wal b = Some v" "w_frames w = w_frames v" "w_index w = w_index v"
    using bl by (auto simp: backing_like_def wal_like_def split: option.splits)
  have n: "wal_frame_count b = length (w_frames w)" using v by (simp add: wal_frame_count_def frame_count_def)
  obtain r w' where r: "wal_rollback_to (length (w_frames w)) w = (r, w')" by force
  have "same_frames w w'" by (rule wal_rollback_full [OF r]) (use b v in \<open>simp add: settled_def\<close>)
  then have "wal_like (Some w') (pg_wal b)" using v by (simp add: same_frames_def wal_like_def)
  then show ?thesis using Some r n by (auto simp: pager_wal_rollback_def)
qed

lemma wal_rollback_inv:
  assumes b: "settled b" and inv: "undo_inv crc b p" and n: "n = wal_frame_count b"
  shows "undo_inv crc b (snd (pager_wal_rollback n p))"
proof -
  obtain x where x: "snd (pager_wal_rollback (wal_frame_count b) p) = p\<lparr>pg_wal := x\<rparr>" "wal_like x (pg_wal b)"
    using pager_wal_rollback_like [OF b, of p] inv by (auto simp: undo_inv_def)
  then show ?thesis using inv unfolding n x(1) by (simp add: undo_inv_def backing_like_def total_pages_def)
qed

lemma revert_savepoints_inv:
  assumes b: "settled b" and inv: "undo_inv crc b p"
  shows "undo_inv crc b (snd (revert_savepoints crc idx p))"
  using inv
proof (induction crc idx p rule: revert_savepoints.induct)
  case (1 crc idx p)
  show ?case
  proof (cases "idx < length (pg_named p)")
    case False
    then show ?thesis using 1 by (simp add: revert_savepoints.simps)
  next
    case True
    let ?sp = "last (pg_named p)"
    let ?p0 = "p\<lparr>pg_named := butlast (pg_named p)\<rparr>"
    let ?p1 = "restore_pages (sp_undo ?sp) ?p0"
    let ?p2 = "sync_header_into_page1_cache crc (?p1\<lparr>pg_header := sp_header ?sp\<rparr>)"
    obtain r p3 where r: "pager_wal_rollback (sp_wal_frames ?sp) ?p2 = (r, p3)" by force
    have mem: "?sp \<in> set (pg_named p)" using True by (metis gr_implies_not0 last_in_set list.size(3))
    have sp: "savepoint_ok b (tx_undo p) ?sp" by (rule undo_inv_savepoint [OF 1(2) mem])
    have i0: "undo_inv crc b ?p0" "tx_undo ?p0 = tx_undo p"
      using undo_inv_savepoint [OF 1(2)]
      by (auto intro!: undo_inv_named [OF 1(2)] dest: in_set_butlastD simp: tx_undo_def)
    have i1: "undo_inv crc b ?p1"
      by (rule restore_pages_inv [OF i0(1)]) (use sp in \<open>simp only: i0(2) savepoint_ok_def\<close>)
    have "undo_inv crc b (set_header (\<lambda>_. sp_header ?sp) ?p1)"
      by (rule set_header_inv [OF i1])
        (use sp hdr_like_trans hdr_like_sym [OF undo_inv_hdr_like [OF i1]] in \<open>auto simp: savepoint_ok_def\<close>)
    then have i2: "undo_inv crc b ?p2" using sync_header_inv by (simp add: set_header_def)
    have i3: "undo_inv crc b p3"
      using wal_rollback_inv [OF b i2, of "sp_wal_frames ?sp"] sp r by (simp add: savepoint_ok_def)
    show ?thesis
    proof (cases r)
      case (Inl e)
      then show ?thesis using True r i3 by (simp add: revert_savepoints.simps [of crc idx p] Let_def)
    next
      case (Inr u)
      let ?p4 = "p3\<lparr>pg_named := butlast (pg_named p)\<rparr>"
      have "tx_undo p3 = tx_undo p"
        using arg_cong [OF pager_wal_rollback_fields [of "sp_wal_frames ?sp" ?p2], of pg_tx] r
        by (simp add: tx_undo_def sync_header_into_page1_cache_def)
      then have i4: "undo_inv crc b ?p4"
        using undo_inv_savepoint [OF 1(2)]
        by (auto intro!: undo_inv_named [OF i3] dest: in_set_butlastD)
      show ?thesis
        using 1(1) [OF True refl refl refl r [symmetric] Inr] i4 True r Inr
        by (simp add: revert_savepoints.simps [of crc idx p] Let_def)
    qed
  qed
qed

lemma rollback_to_savepoint_inv:
  assumes b: "settled b" and inv: "undo_inv crc b p"
  shows "undo_inv crc b (snd (rollback_to_savepoint crc name p))"
proof (cases "savepoint_position name p")
  case None
  then show ?thesis using inv by (simp add: rollback_to_savepoint_def)
next
  case (Some idx)
  have "keeps (undo_inv crc b) (bind_s (revert_savepoints crc idx) (\<lambda>_. create_savepoint name))"
    by (intro keeps_bind keepsI revert_savepoints_inv [OF b] create_savepoint_inv)
  from keeps_at [OF this inv] show ?thesis using Some by (simp add: rollback_to_savepoint_def)
qed

lemma merge_savepoint_ok:
  assumes "\<forall>ns \<in> set xs. savepoint_ok b u ns" "savepoint_ok b u parent"
  shows "savepoint_ok b u (fold merge_savepoint xs parent)"
  using assms
  by (induction xs arbitrary: parent) (auto simp: merge_savepoint_def savepoint_ok_def)

lemma release_savepoint_inv:
  assumes inv: "undo_inv crc b p"
  shows "undo_inv crc b (snd (release_savepoint name p))"
proof (cases "savepoint_position name p")
  case (Some idx)
  have ok: "\<forall>ns \<in> set (pg_named p). savepoint_ok b (tx_undo p) ns" using undo_inv_savepoint [OF inv] by blast
  let ?xs = "take idx (pg_named p)" and ?ys = "drop idx (pg_named p)"
  have d: "\<forall>ns \<in> set ?ys. savepoint_ok b (tx_undo p) ns" "\<forall>ns \<in> set ?xs. savepoint_ok b (tx_undo p) ns"
    using ok by (auto dest: in_set_dropD in_set_takeD)
  have "\<forall>ns \<in> set (map_last (fold merge_savepoint ?ys) ?xs). savepoint_ok b (tx_undo p) ns"
    using d(2) merge_savepoint_ok [OF d(1)]
    by (cases ?xs rule: rev_cases) (auto simp: map_last_def)
  then show ?thesis using Some by (auto simp: release_savepoint_def intro!: undo_inv_named [OF inv])
qed (use inv in \<open>simp add: release_savepoint_def\<close>)

section \<open>Transactions as runs\<close>

text \<open>One call of the pager inside a transaction, whatever it returns. The result of a closure does
  not reach the pager, so closures return no value here.\<close>

inductive tx_step :: "crc_fun \<Rightarrow> pager \<Rightarrow> pager \<Rightarrow> bool" for crc where
  step_read: "tx_step crc p (snd (read_page pid p))"
| step_with: "tx_step crc p (snd (with_page pid (f :: bytes \<Rightarrow> unit result) p))"
| step_write: "tx_step crc p (snd (write_page crc pid d p))"
| step_modify: "tx_step crc p (snd (modify_page crc pid (g :: bytes \<Rightarrow> unit result \<times> bytes) p))"
| step_allocate: "tx_step crc p (snd (allocate_page crc p))"
| step_free: "tx_step crc p (snd (free_page crc pid p))"
| step_savepoint: "tx_step crc p (snd (create_savepoint name p))"
| step_revert: "tx_step crc p (snd (rollback_to_savepoint crc name p))"
| step_release: "tx_step crc p (snd (release_savepoint name p))"

inductive tx_steps :: "crc_fun \<Rightarrow> pager \<Rightarrow> pager \<Rightarrow> bool" for crc where
  steps_refl: "tx_steps crc p p"
| steps_step: "tx_steps crc p q \<Longrightarrow> tx_step crc q r \<Longrightarrow> tx_steps crc p r"

lemma tx_step_inv:
  assumes "tx_step crc p p'" "settled b" "undo_inv crc b p"
  shows "undo_inv crc b p'"
  using assms
proof (cases rule: tx_step.cases)
  case (step_read pid)
  then show ?thesis using keeps_at [OF keeps_read_page [OF assms(2)] assms(3)] by simp
next
  case (step_write pid d)
  then show ?thesis using keeps_at [OF write_keeps [OF assms(2)] assms(3)] by simp
qed (simp_all add: assms(2,3) with_page_inv modify_page_inv allocate_page_inv free_page_inv
      create_savepoint_inv rollback_to_savepoint_inv release_savepoint_inv)

lemma tx_steps_inv:
  assumes "tx_steps crc p p'" "settled b" "undo_inv crc b p"
  shows "undo_inv crc b p'"
  using assms by (induction rule: tx_steps.induct) (auto intro: tx_step_inv)

lemma begin_inv:
  assumes b: "settled b" and run: "begin_transaction b = (Inr (), p)"
  shows "undo_inv crc b p"
proof -
  have p: "p = b\<lparr>pg_tx := Some \<lparr>sp_header = pg_header b, sp_undo = (\<lambda>_. None), sp_dirty = {},
                  sp_total_pages = total_pages b, sp_wal_frames = wal_frame_count b\<rparr>\<rparr>"
    using run by (auto simp: begin_transaction_def split: sum.splits if_splits)
  have "page_view b pid = Some d" if "1 < pid" "pid \<le> total_pages b" "pg_pages b pid = Some d" for pid d
    using b that by (auto simp: page_view_def)
  then have "pages_ok crc b (\<lambda>_. None) (pg_pages b)"
    using b word_gt_1 unfolding pages_ok_def good_page_def settled_def by auto
  moreover have "wal_like (pg_wal b) (pg_wal b)" by (simp add: wal_like_def split: option.splits)
  ultimately show ?thesis
    using b by (simp add: p undo_inv_def backing_like_def total_pages_def settled_def)
qed

section \<open>Rollback\<close>

lemma undo_entries_map: "distinct (map fst (undo_entries m))" "map_of (undo_entries m) q = m q"
proof -
  show "distinct (map fst (undo_entries m))" by (simp add: undo_entries_def comp_def)
  have "map_of (map (\<lambda>pid. (pid, the (m pid))) xs) q = (if q \<in> set xs then Some (the (m q)) else None)" for xs
    by (induction xs) auto
  then show "map_of (undo_entries m) q = m q" by (auto simp: undo_entries_def domIff)
qed

lemma restore_fold_pages:
  assumes "distinct (map fst es)"
  shows "pg_pages (fold restore_page es p) q = (case map_of es q of None \<Rightarrow> pg_pages p q | Some x \<Rightarrow> x)"
  using assms
proof (induction es arbitrary: p)
  case (Cons e es)
  obtain pid x where e: "e = (pid, x)" by force
  have "pg_pages (restore_page e p) = (pg_pages p)(pid := x)"
    by (cases x) (simp_all add: e restore_page_def)
  moreover have "map_of es pid = None" using Cons.prems e by (auto simp: map_of_eq_None_iff)
  ultimately show ?case using Cons e by (auto split: option.splits)
qed simp

lemma restore_pages_at:
  "pg_pages (restore_pages u p) q = (case u q of None \<Rightarrow> pg_pages p q | Some x \<Rightarrow> x)"
  unfolding restore_pages_def restore_fold_pages [OF undo_entries_map(1)] undo_entries_map(2) ..

lemma rollback_view:
  assumes b: "settled b" and inv: "undo_inv crc b p" and q: "pid \<noteq> 1" "0 < pid" "pid \<le> total_pages b"
    and bl: "backing_like p' b"
    and at: "pg_pages p' pid = pg_pages (restore_pages (tx_undo p) p) pid" and n: "total_pages p' = total_pages b"
  shows "page_view p' pid = page_view b pid"
proof (cases "pg_pages p' pid")
  case (Some d)
  have "good_page crc b pid d"
  proof (cases "tx_undo p pid")
    case None
    then show ?thesis using undo_inv_cached [OF inv None q(2,3)] Some at by (simp add: restore_pages_at)
  next
    case (Some x)
    have "\<exists>d. x = Some d \<and> good_page crc b pid d"
      using inv Some q unfolding undo_inv_def pages_ok_def tx_undo_def by (auto dest!: spec [of _ pid])
    then show ?thesis using Some at \<open>pg_pages p' pid = Some d\<close> by (auto simp: restore_pages_at)
  qed
  then show ?thesis using Some q n by (auto simp: good_page_def page_view_def)
next
  case None
  have "page_view b pid = stored_page b pid"
    using b q word_gt_1 [OF q(2,1)] by (auto simp: settled_def page_view_def split: option.splits)
  moreover have "\<not> (pid = 0 \<or> total_pages p' < pid)" using q n by auto
  ultimately show ?thesis using None backing_like_stored [OF bl, of pid] by (simp add: page_view_def)
qed

lemma rollback_page1:
  assumes b: "settled b" and inv: "undo_inv crc b p"
  shows "\<exists>d1 d. pg_pages b 1 = Some d1 \<and> pg_pages (restore_pages (tx_undo p) p) 1 = Some d \<and>
    patch_header crc (pg_header b) d = patch_header crc (pg_header b) d1"
proof -
  have t: "(1 :: page_id) \<le> total_pages b" "(0 :: page_id) < 1" using b inc_le [of 0 "total_pages b"] by (auto simp: settled_def)
  show ?thesis
  proof (cases "tx_undo p 1")
    case None
    then show ?thesis using undo_inv_cached [OF inv None t(2,1)] by (auto simp: restore_pages_at good_page_def)
  next
    case (Some x)
    have "\<exists>d. x = Some d \<and> good_page crc b 1 d"
      using inv Some t unfolding undo_inv_def pages_ok_def tx_undo_def by (auto dest!: spec [of _ 1])
    then show ?thesis using Some by (auto simp: restore_pages_at good_page_def)
  qed
qed

lemma rollback_undoes:
  assumes "settled b" "undo_inv crc b p"
  shows "\<exists>d1 p'. pg_pages b 1 = Some d1 \<and> snd (rollback_transaction crc p) = p' \<and>
    backing_like p' b \<and> pg_tx p' = None \<and> pg_named p' = [] \<and> pg_header p' = pg_header b \<and>
    pg_pages p' 1 = Some (patch_header crc (pg_header b) d1) \<and> (\<forall>pid. pid \<noteq> 1 \<longrightarrow> page_view p' pid = page_view b pid)"
proof -
  note inv = assms(2)
  obtain sp where sp: "pg_tx p = Some sp" "sp_header sp = pg_header b" "sp_wal_frames sp = wal_frame_count b"
    using assms(2) by (auto simp: undo_inv_def)
  have tu: "tx_undo p = sp_undo sp" using sp by (simp add: tx_undo_def)
  let ?q = "restore_pages (sp_undo sp) (p\<lparr>pg_tx := None, pg_named := []\<rparr>)"
  let ?q2 = "sync_header_into_page1_cache crc (?q\<lparr>pg_header := sp_header sp\<rparr>)"
  have qp: "pg_pages ?q q = pg_pages (restore_pages (tx_undo p) p) q" for q
    by (simp add: restore_pages_at tu split: option.splits)
  have bq: "backing_like ?q2 b"
    using inv sp unfolding undo_inv_def backing_like_def sync_header_into_page1_cache_def
    by simp
  obtain x where x: "snd (pager_wal_rollback (wal_frame_count b) ?q2) = ?q2\<lparr>pg_wal := x\<rparr>" "wal_like x (pg_wal b)"
    using pager_wal_rollback_like [OF assms(1) bq] by blast
  let ?p' = "?q2\<lparr>pg_wal := x\<rparr>"
  have p': "snd (rollback_transaction crc p) = ?p'" using sp x by (simp add: rollback_transaction_def)
  obtain d1 d where d: "pg_pages b 1 = Some d1" "pg_pages ?q 1 = Some d"
    "patch_header crc (pg_header b) d = patch_header crc (pg_header b) d1"
    using rollback_page1 [OF assms(1) inv] qp by auto
  have bl: "backing_like ?p' b" using bq x(2) by (simp add: backing_like_def)
  have n: "total_pages ?p' = total_pages b" by (simp add: total_pages_def sync_header_into_page1_cache_def sp)
  have "page_view ?p' pid = page_view b pid" if "pid \<noteq> 1" for pid
  proof (cases "0 < pid \<and> pid \<le> total_pages b")
    case True
    have "pg_pages ?p' pid = pg_pages (restore_pages (tx_undo p) p) pid"
      using that qp by (simp add: sync_header_into_page1_cache_def)
    then show ?thesis using rollback_view [OF assms(1) inv that _ _ bl _ n] True by blast
  next
    case False
    then have "pid = 0 \<or> total_pages b < pid" by (auto simp: word_gt_0)
    then show ?thesis using n by (auto simp: page_view_def)
  qed
  moreover have "pg_pages ?p' 1 = Some (patch_header crc (pg_header b) d1)"
    using d sp by (simp add: sync_header_into_page1_cache_def)
  ultimately show ?thesis
    using d(1) p' bl sp by (auto simp: sync_header_into_page1_cache_def)
qed

text \<open>C4: Whatever calls a transaction makes (reads, writes, modifications, allocations, frees and
  savepoints, in any order, failing or not), rolling it back restores the header and shows every
  page as it was at the beginning; page 1 has the old header over its old content. The log is
  cut back to the frames it had.\<close>

theorem rollback_restores:
  assumes "settled b" "begin_transaction b = (Inr (), p0)" "tx_steps crc p0 p"
  shows "\<exists>d1. pg_pages b 1 = Some d1 \<and>
    (case rollback_transaction crc p of (_, p') \<Rightarrow>
       pg_tx p' = None \<and> pg_named p' = [] \<and> pg_header p' = pg_header b \<and> wal_like (pg_wal p') (pg_wal b) \<and>
       pg_pages p' 1 = Some (patch_header crc (pg_header b) d1) \<and>
       (\<forall>pid. pid \<noteq> 1 \<longrightarrow> page_view p' pid = page_view b pid))"
proof -
  have "undo_inv crc b p" by (rule tx_steps_inv [OF assms(3,1) begin_inv [OF assms(1,2)]])
  from rollback_undoes [OF assms(1) this] show ?thesis by (auto simp: split_beta backing_like_def)
qed

lemma sample_settled: "settled sample_pager"
proof -
  have "total_pages sample_pager = 1"
    by (simp add: sample_pager_def empty_pager_def total_pages_def db_header_new_def db_header_default_def Let_def)
  moreover have "\<not> (1 < pid \<and> pid \<le> (1 :: page_id))" for pid by auto
  ultimately show ?thesis
    by (simp add: settled_def sample_pager_def empty_pager_def wal_open_in_memory_def wal_empty_def index_of_def)
qed

theorem rollback_restores_witness:
  "\<exists>p0. begin_transaction sample_pager = (Inr (), p0) \<and>
     pg_pages (snd (rollback_transaction (\<lambda>_. 0) (snd (free_page (\<lambda>_. 0) 2 (snd (allocate_page (\<lambda>_. 0) p0)))))) 1 =
       Some (patch_header (\<lambda>_. 0) (pg_header sample_pager) (replicate 8 0))"
proof -
  obtain p0 where p0: "begin_transaction sample_pager = (Inr (), p0)"
    by (cases "begin_transaction sample_pager")
      (simp add: begin_transaction_def sample_pager_def empty_pager_def ensure_io_ready_def
        requires_reopen_def wal_open_in_memory_def wal_empty_def read_only_remote_def)
  let ?p = "snd (free_page (\<lambda>_. 0) 2 (snd (allocate_page (\<lambda>_. 0) p0)))"
  have "tx_steps (\<lambda>_. 0) p0 ?p"
    by (rule steps_step [OF steps_step [OF steps_refl step_allocate] step_free])
  moreover have "pg_pages sample_pager 1 = Some (replicate 8 0)" by (simp add: sample_pager_def)
  ultimately show ?thesis
    using rollback_restores [OF sample_settled p0] p0 by (auto simp: split_beta)
qed

end
