(* ===== verification/Pager_Commit.thy ===== *)
theory Pager_Commit
  imports Pager_Steps
begin

text \<open>
  What a commit writes, and three places where the pager does less than it says: eviction from a
  database without a file, rollback over a writable remote object, and the object uploaded for
  an encrypted database.
\<close>

section \<open>Commit\<close>

definition frame_image :: "pager \<Rightarrow> page_id \<Rightarrow> in_memory_frame \<Rightarrow> bool" where
  "frame_image p pid f \<longleftrightarrow> frame_page f = pid \<and>
     (\<exists>d. pg_pages p pid = Some d \<and> commit_image p pid d = Inr (fr_data f))"

lemma pager_log_frames:
  assumes "pager_log crc pid bs is_last p = (r, p')" "pg_wal p = Some w"
  shows "\<exists>w'. p' = p\<lparr>pg_wal := Some w'\<rparr> \<and>
    (case r of Inl _ \<Rightarrow> w_frames w' = w_frames w
     | Inr _ \<Rightarrow> \<exists>f. w_frames w' = w_frames w @ [f] \<and> frame_page f = pid \<and> fr_data f = bs \<and>
         wf_db_size (fr_header f) = (if is_last then total_pages p else 0))"
proof -
  obtain w' where run: "wal_write_frame crc pid bs is_last (total_pages p) w = (r, w')" "p' = p\<lparr>pg_wal := Some w'\<rparr>"
    using assms by (auto simp: pager_log_def split: prod.splits)
  from run(1) show ?thesis
    by (cases rule: write_frame_cases) (auto simp: run(2) frame_page_def make_frame_header_def Let_def)
qed

lemma commit_image_cong:
  "pg_header p' = pg_header p \<Longrightarrow> pg_cipher p' = pg_cipher p \<Longrightarrow> commit_image p' = commit_image p"
  by (intro ext) (simp add: commit_image_def encrypt_if_def page_size_def is_compressed_def)

lemma commit_page_frames:
  assumes run: "commit_page crc pid is_last p = (r, p')" and w: "pg_wal p = Some w"
  shows "\<exists>w'. p' = p\<lparr>pg_wal := Some w'\<rparr> \<and>
    (case r of Inl _ \<Rightarrow> w_frames w' = w_frames w
     | Inr _ \<Rightarrow> \<exists>f. w_frames w' = w_frames w @ [f] \<and> frame_image p pid f \<and>
         wf_db_size (fr_header f) = (if is_last then total_pages p else 0))"
proof -
  have same: "p = p\<lparr>pg_wal := Some w\<rparr>" using w by (cases p) simp
  show ?thesis
  proof (cases "pg_pages p pid")
    case None
    then show ?thesis using run same by (auto simp: commit_page_def)
  next
    case (Some d)
    show ?thesis
    proof (cases "commit_image p pid d")
      case (Inl e)
      then show ?thesis using run same Some by (auto simp: commit_page_def)
    next
      case (Inr bs)
      then have "pager_log crc pid bs is_last p = (r, p')" using run Some w by (simp add: commit_page_def)
      from pager_log_frames [OF this w] Some Inr show ?thesis
        by (cases r) (auto simp: frame_image_def)
    qed
  qed
qed

lemma commit_pages_frames:
  assumes "commit_pages crc ds p = (r, p')" "pg_wal p = Some w"
  shows "\<exists>w' fs. p' = p\<lparr>pg_wal := Some w'\<rparr> \<and> w_frames w' = w_frames w @ fs \<and>
    (r = Inr () \<longrightarrow> list_all2 (frame_image p) ds fs \<and>
       map (\<lambda>f. wf_db_size (fr_header f)) fs = (if ds = [] then [] else replicate (length ds - 1) 0 @ [total_pages p]))"
  using assms
proof (induction ds arbitrary: p w)
  case Nil
  have "p = p\<lparr>pg_wal := Some w\<rparr>" using Nil(2) by (cases p) simp
  then show ?case using Nil by (intro exI [of _ w] exI [of _ "[]"]) simp
next
  case (Cons pid ds)
  obtain r1 p1 where r1: "commit_page crc pid (ds = []) p = (r1, p1)" by force
  from commit_page_frames [OF r1 Cons.prems(2)] obtain w1 where w1: "p1 = p\<lparr>pg_wal := Some w1\<rparr>"
    "case r1 of Inl _ \<Rightarrow> w_frames w1 = w_frames w
     | Inr _ \<Rightarrow> \<exists>f. w_frames w1 = w_frames w @ [f] \<and> frame_image p pid f \<and>
         wf_db_size (fr_header f) = (if ds = [] then total_pages p else 0)"
    by blast
  show ?case
  proof (cases r1)
    case (Inl e)
    then show ?thesis using Cons.prems(1) r1 w1 by (auto simp: bind_s_def intro!: exI [of _ w1] exI [of _ "[]"])
  next
    case (Inr u)
    then obtain f where f: "w_frames w1 = w_frames w @ [f]" "frame_image p pid f"
      "wf_db_size (fr_header f) = (if ds = [] then total_pages p else 0)" using w1(2) by auto
    have run: "commit_pages crc ds p1 = (r, p')" using Cons.prems(1) r1 Inr by (simp add: bind_s_def)
    from Cons.IH [OF run] w1(1) obtain w' fs where w': "p' = p1\<lparr>pg_wal := Some w'\<rparr>" "w_frames w' = w_frames w1 @ fs"
      "r = Inr () \<longrightarrow> list_all2 (frame_image p1) ds fs \<and>
       map (\<lambda>f. wf_db_size (fr_header f)) fs = (if ds = [] then [] else replicate (length ds - 1) 0 @ [total_pages p1])"
      by auto
    have ci: "commit_image p1 = commit_image p" by (rule commit_image_cong) (simp_all add: w1(1))
    have fi: "frame_image p1 = frame_image p"
      by (intro ext) (simp only: frame_image_def ci, simp add: w1(1))
    have tp: "total_pages p1 = total_pages p" by (simp add: w1(1) total_pages_def)
    have "r = Inr () \<longrightarrow> list_all2 (frame_image p) (pid # ds) (f # fs) \<and>
       map (\<lambda>f. wf_db_size (fr_header f)) (f # fs) = replicate (length ds) 0 @ [total_pages p]"
      using w'(3) f unfolding fi tp by (cases ds) auto
    then show ?thesis
      using w' f(1) w1(1) by (intro exI [of _ w'] exI [of _ "f # fs"]) simp
  qed
qed

text \<open>The pager just before the frames are written: new change counter, page 1 in step with it.\<close>

definition commit_start :: "crc_fun \<Rightarrow> tx_savepoint \<Rightarrow> pager \<Rightarrow> pager" where
  "commit_start crc sp p = sync_header_into_page1_cache crc
     (set_header (\<lambda>h. h\<lparr>dh_change_counter := dh_change_counter (sp_header sp) + 1\<rparr>) p)"

definition commit_pids :: "tx_savepoint \<Rightarrow> pager \<Rightarrow> page_id list" where
  "commit_pids sp q = sorted_list_of_set {pid \<in> insert 1 (sp_dirty sp). pid \<le> total_pages q \<and> pg_pages q pid \<noteq> None}"

lemma commit_start_fields [simp]:
  "pg_tx (commit_start crc sp p) = pg_tx p" "pg_wal (commit_start crc sp p) = pg_wal p"
  "pg_named (commit_start crc sp p) = pg_named p" "pg_threshold (commit_start crc sp p) = pg_threshold p"
  "total_pages (commit_start crc sp p) = total_pages p" "\<exists>d. pg_pages (commit_start crc sp p) 1 = Some d"
  by (simp_all add: commit_start_def sync_header_into_page1_cache_def set_header_def total_pages_def)

lemma pager_wal_rollback_frames:
  assumes "pg_wal p = Some w" "w_frames w = xs @ fs" "pager_wal_rollback (length xs) p = (r, p')"
  shows "\<exists>w'. p' = p\<lparr>pg_wal := Some w'\<rparr> \<and> (w_frames w' = xs \<or> w_io_failed w')"
proof -
  obtain w' where run: "wal_rollback_to (length xs) w = (r, w')" "p' = p\<lparr>pg_wal := Some w'\<rparr>"
    using assms by (auto simp: pager_wal_rollback_def split: prod.splits)
  have "w_frames w' = xs \<or> w_io_failed w'"
  proof (cases r)
    case (Inr u)
    then show ?thesis using rollback_fields(1) [of "length xs" w w'] run(1) assms(2) by simp
  next
    case (Inl e)
    obtain m where m: "wal_rollback_to (length xs) w =
        bind_s (or_fail_io (\<lambda>w. with_writer (m w) w)) (\<lambda>_ w1. let fs = take (min (length xs) (length (w_frames w))) (w_frames w1) in
          (Inr (), w1\<lparr>w_io_failed := False, w_frames := fs, w_index := index_of fs\<rparr>)) w"
      by (rule that, unfold wal_rollback_to_def Let_def, rule refl)
    then show ?thesis
      using run(1) Inl by (auto simp: bind_s_def Let_def or_fail_io_def split: prod.splits sum.splits)
  qed
  then show ?thesis using run(2) by blast
qed

text \<open>C6: A commit writes one frame for page 1 and for every dirty page that still exists, in
  ascending order, holding the image of its current content; only the last carries the size of
  the database, so the frames form one transaction of the log; then it ends the transaction,
  checkpoints when the log is long, and evicts. A commit that fails leaves the transaction
  open and the log with the frames it had, or latched against further use.\<close>

theorem commit_logs:
  assumes tx: "pg_tx p = Some sp" and w: "pg_wal p = Some w" and n: "sp_wal_frames sp = length (w_frames w)"
    and c: "dh_change_counter (sp_header sp) \<noteq> - 1" and t: "0 < total_pages p"
    and run: "commit_transaction crc p = (r, p')"
  shows "\<exists>w' fs q. q = commit_start crc sp p \<and> (case r of
      Inr _ \<Rightarrow> w_frames w' = w_frames w @ fs \<and> list_all2 (frame_image q) (commit_pids sp q) fs \<and>
        map (\<lambda>f. wf_db_size (fr_header f)) fs = replicate (length fs - 1) 0 @ [total_pages p] \<and>
        (let q' = q\<lparr>pg_wal := Some w', pg_tx := None, pg_named := []\<rparr> in
         p' = evict_if_needed (if pg_threshold p \<le> length (w_frames w') then snd (pager_checkpoint crc q') else q'))
    | Inl _ \<Rightarrow> pg_wal p' = Some w' \<and> pg_pages p' = pg_pages q \<and> is_in_transaction p' \<and>
        (w_frames w' = w_frames w \<or> w_io_failed w'))"
proof -
  let ?q = "commit_start crc sp p"
  let ?q2 = "?q\<lparr>pg_tx := Some (mark_sp_dirty 1 sp)\<rparr>"
  let ?ds = "commit_pids sp ?q"
  have q2: "pg_wal ?q2 = Some w" "total_pages ?q2 = total_pages p" using w by (simp_all add: total_pages_def [of "?q2"], simp add: total_pages_def [symmetric])
  have dl: "dirty_list ?q2 = ?ds"
    by (simp add: dirty_list_def commit_pids_def mark_sp_dirty_def total_pages_def)
  have "(1 :: page_id) \<le> total_pages p" using t inc_le [of 0 "total_pages p"] by simp
  then have "1 \<in> set ?ds" by (simp add: commit_pids_def)
  then have ne: "?ds \<noteq> []" by auto
  obtain r3 p3 where r3: "commit_pages crc ?ds ?q2 = (r3, p3)" by force
  from commit_pages_frames [OF r3 q2(1)] obtain w3 fs where p3: "p3 = ?q2\<lparr>pg_wal := Some w3\<rparr>"
    "w_frames w3 = w_frames w @ fs"
    "r3 = Inr () \<longrightarrow> list_all2 (frame_image ?q2) ?ds fs \<and>
       map (\<lambda>f. wf_db_size (fr_header f)) fs = replicate (length ?ds - 1) 0 @ [total_pages p]"
    using ne q2(2) by auto
  have ci: "commit_image ?q2 = commit_image ?q" by (rule commit_image_cong) simp_all
  have fi: "frame_image ?q2 = frame_image ?q" by (intro ext) (simp only: frame_image_def ci, simp)
  have run': "(case commit_pages crc ?ds ?q2 of
              (Inl e, p3) \<Rightarrow> bind_s (pager_wal_rollback (sp_wal_frames sp)) (\<lambda>_. fail_s e) p3
            | (Inr _, p3) \<Rightarrow>
                let p4 = p3\<lparr>pg_tx := None, pg_named := []\<rparr>;
                    p5 = (if pg_wal p4 \<noteq> None \<and> wal_frame_count p4 \<ge> pg_threshold p4
                          then snd (pager_checkpoint crc p4) else p4)
                in (Inr (), evict_if_needed p5)) = (r, p')"
    using run tx c dl unfolding commit_transaction_def commit_start_def [symmetric] Let_def by simp
  show ?thesis
  proof (cases r3)
    case (Inl e)
    then have b: "bind_s (pager_wal_rollback (length (w_frames w))) (\<lambda>_. fail_s e) p3 = (r, p')"
      using run' r3 n by simp
    obtain r4 p4 where r4: "pager_wal_rollback (length (w_frames w)) p3 = (r4, p4)" by force
    obtain w4 where w4: "p4 = p3\<lparr>pg_wal := Some w4\<rparr>" "w_frames w4 = w_frames w \<or> w_io_failed w4"
      using pager_wal_rollback_frames [OF _ p3(2) r4] p3(1) by auto
    obtain e2 where r: "p' = p4" "r = Inl e2" using b r4 by (cases r4) (auto simp: bind_s_def)
    have "pg_wal p4 = Some w4" "pg_pages p4 = pg_pages ?q" "pg_tx p4 \<noteq> None"
      using w4(1) p3(1) by simp_all
    then show ?thesis
      using w4(2) unfolding r
      by (intro exI [of _ w4] exI [of _ fs] exI [of _ ?q]) (simp add: is_in_transaction_def)
  next
    case (Inr u)
    let ?q' = "?q\<lparr>pg_wal := Some w3, pg_tx := None, pg_named := []\<rparr>"
    have l: "length fs = length ?ds" using p3(3) Inr by (auto dest: list_all2_lengthD)
    have p4: "p3\<lparr>pg_tx := None, pg_named := []\<rparr> = ?q'" unfolding p3(1) by simp
    have f3: "pg_wal p3 = Some w3" "pg_threshold p3 = pg_threshold p" by (simp_all add: p3(1))
    have "r = Inr ()" "p' = evict_if_needed (if pg_threshold p \<le> length (w_frames w3)
        then snd (pager_checkpoint crc ?q') else ?q')"
      using run' r3 Inr unfolding Let_def p4 [symmetric] by (auto simp: f3 wal_frame_count_def frame_count_def)
    then show ?thesis
      using p3(2,3) Inr l unfolding fi Let_def
      by (intro exI [of _ w3] exI [of _ fs] exI [of _ ?q]) simp
  qed
qed

text \<open>The transaction of the sample pager that writes nothing: page 1 is logged for its header.\<close>

definition sample_tx :: pager where "sample_tx = snd (begin_transaction sample_pager)"

lemma sample_tx_fields:
  "pg_tx sample_tx = Some \<lparr>sp_header = pg_header sample_pager, sp_undo = (\<lambda>_. None), sp_dirty = {},
     sp_total_pages = 1, sp_wal_frames = 0\<rparr>"
  "pg_wal sample_tx = Some (wal_open_in_memory (\<lambda>_. 0) 8)" "pg_pages sample_tx = [1 \<mapsto> replicate 8 0]"
  "total_pages sample_tx = 1" "pg_header sample_tx = pg_header sample_pager"
  "dh_change_counter (pg_header sample_pager) = 0"
  by (simp_all add: sample_tx_def begin_transaction_def sample_pager_def empty_pager_def ensure_io_ready_def
      requires_reopen_def wal_open_in_memory_def wal_empty_def read_only_remote_def total_pages_def
      db_header_new_def db_header_default_def Let_def wal_frame_count_def frame_count_def)

lemma commit_case:
  assumes "\<exists>w' fs q. q = Q \<and> (case r of Inr _ \<Rightarrow> B w' fs q | Inl _ \<Rightarrow> A w' q)"
    "\<And>w' q. A w' q \<Longrightarrow> A'" "\<And>w' fs q. B w' fs q \<Longrightarrow> B' w' fs q"
  shows "\<exists>w' fs q. q = Q \<and> (case r of Inr _ \<Rightarrow> B' w' fs q | Inl _ \<Rightarrow> A')"
  using assms by (cases r) (auto, blast+)

theorem commit_logs_witness:
  "\<exists>sp (w' :: wal) fs q. q = commit_start (\<lambda>_. 0) sp sample_tx \<and> (case fst (commit_transaction (\<lambda>_. 0) sample_tx) of
      Inr _ \<Rightarrow> w_frames w' = fs \<and> list_all2 (frame_image q) (commit_pids sp q) fs
    | Inl _ \<Rightarrow> is_in_transaction (snd (commit_transaction (\<lambda>_. 0) sample_tx)))"
proof -
  obtain r p' where run: "commit_transaction (\<lambda>_. 0) sample_tx = (r, p')" by force
  have w: "w_frames (wal_open_in_memory (\<lambda>_. 0) 8) = []" by (simp add: wal_open_in_memory_def wal_empty_def)
  define sp where "sp = the (pg_tx sample_tx)"
  have sp: "pg_tx sample_tx = Some sp" "sp_wal_frames sp = 0" "dh_change_counter (sp_header sp) \<noteq> - 1"
    using sample_tx_fields(1,6) by (simp_all add: sp_def)
  have one: "(0 :: u32) < 1" by simp
  have "\<exists>(w' :: wal) fs q. q = commit_start (\<lambda>_. 0) sp sample_tx \<and> (case r of
      Inr _ \<Rightarrow> w_frames w' = fs \<and> list_all2 (frame_image q) (commit_pids sp q) fs
    | Inl _ \<Rightarrow> is_in_transaction p')"
    by (rule commit_case [OF commit_logs [OF sp(1) sample_tx_fields(2) _ sp(3) _ run, unfolded sp(2) w sample_tx_fields(4),
        OF list.size(3) [symmetric] one]]) simp_all
  then show ?thesis unfolding run fst_conv snd_conv by (rule exI [of _ sp])
qed

section \<open>Eviction without a file\<close>

text \<open>C39: A database without a file loses pages to eviction. When its cache is over capacity, the
  first page of the list that may go and that has no frame in the log is dropped; reading it
  then fails although it is a page of the database.\<close>

theorem eviction_loses_page:
  assumes lru: "lru_ok xs p" and none: "pg_file p = None" "pg_reader p = None" and w: "pg_wal p = Some w"
    and pid: "find (evictable p) xs = Some pid" "w_index w pid = None" "0 < pid" "pid \<le> total_pages p"
    and full: "max (pg_capacity p) 4 < card (dom (pg_pages p))" and ok: "\<not> w_io_failed w"
  shows "fst (read_page pid (evict_if_needed p)) = Inl (PageNotFound pid)"
proof -
  have t: "evict_target (Suc LRU_FUEL) p (pg_head p) = Some pid"
    using evict_target_find [of "[]" xs p "Suc LRU_FUEL"] lru_ok_length [OF lru] lru pid(1) by (simp add: lru_ok_def)
  have e: "evict_if_needed p = evict_loop LRU_FUEL (max (pg_capacity p) 4) (evict_page pid p)"
    using w full t by (simp add: evict_if_needed_def)
  have "pg_pages (evict_page pid p) pid = None" by (simp add: evict_page_def Let_def)
  then have gone: "pg_pages (evict_if_needed p) pid = None"
    using evict_loop_only [of "evict_page pid p" LRU_FUEL "max (pg_capacity p) 4"] unfolding e by metis
  have s: "same_store p (evict_if_needed p)" by (rule evict_only)
  then have "pg_file (evict_if_needed p) = None" "pg_reader (evict_if_needed p) = None"
    "pg_wal (evict_if_needed p) = Some w" "total_pages (evict_if_needed p) = total_pages p"
    using none w by (simp_all add: same_store_def total_pages_def)
  then show ?thesis
    using gone pid ok by (simp add: read_page_def ensure_io_ready_def requires_reopen_def wal_read_page_def not_less)
qed

text \<open>An image of five pages, loaded into a cache of four.\<close>

definition sample_import :: pager where
  "sample_import = fold insert_touched (map (\<lambda>pid. (pid, replicate 8 0)) [2, 3, 4, 5])
     (touch_lru 1 (sample_pager\<lparr>pg_header := (pg_header sample_pager)\<lparr>dh_total_pages := 5\<rparr>, pg_capacity := 4\<rparr>))"

lemma insert_touched_ok: "lru_ok xs p \<Longrightarrow> pid \<notin> set xs \<Longrightarrow> lru_ok (xs @ [pid]) (insert_touched (pid, d) p)"
proof -
  assume a: "lru_ok xs p" "pid \<notin> set xs"
  have "lru_ok xs (p\<lparr>pg_pages := (pg_pages p)(pid \<mapsto> d)\<rparr>)"
    by (rule lru_ok_cong [THEN iffD2, OF _ _ _ a(1)]) simp_all
  moreover have "filter (\<lambda>y. y \<noteq> pid) xs = xs" using a(2) by (intro filter_True) auto
  ultimately show ?thesis
    using touch_lru_ok [of xs "p\<lparr>pg_pages := (pg_pages p)(pid \<mapsto> d)\<rparr>" pid] by (simp add: insert_touched_def)
qed

lemma insert_touched_fields [simp]:
  "pg_pages (insert_touched (pid, d) p) = (pg_pages p)(pid \<mapsto> d)" "pg_tx (insert_touched (pid, d) p) = pg_tx p"
  "pg_header (insert_touched (pid, d) p) = pg_header p" "pg_wal (insert_touched (pid, d) p) = pg_wal p"
  "pg_file (insert_touched (pid, d) p) = pg_file p" "pg_reader (insert_touched (pid, d) p) = pg_reader p"
  "pg_capacity (insert_touched (pid, d) p) = pg_capacity p"
  by (simp_all add: insert_touched_def)

lemma sample_pager_fields:
  "pg_pages sample_pager = [1 \<mapsto> replicate 8 0]" "pg_tx sample_pager = None"
  "pg_wal sample_pager = Some (wal_open_in_memory (\<lambda>_. 0) 8)" "pg_file sample_pager = None" "pg_reader sample_pager = None"
  by (simp_all add: sample_pager_def empty_pager_def)

lemma sample_import_fields:
  "pg_tx sample_import = None" "pg_wal sample_import = Some (wal_open_in_memory (\<lambda>_. 0) 8)"
  "pg_file sample_import = None" "pg_reader sample_import = None" "pg_capacity sample_import = 4"
  "total_pages sample_import = 5"
  by (simp_all add: sample_import_def sample_pager_fields total_pages_def)

lemma sample_import_pages: "dom (pg_pages sample_import) = {1, 2, 3, 4, 5}"
  unfolding sample_import_def
  by (simp add: sample_pager_fields del: One_nat_def) blast

theorem eviction_loses_page_witness:
  "fst (read_page 2 (evict_if_needed sample_import)) = Inl (PageNotFound 2)"
proof (rule eviction_loses_page [of "[1, 2, 3, 4, 5]"])
  let ?p = "sample_pager\<lparr>pg_header := (pg_header sample_pager)\<lparr>dh_total_pages := 5\<rparr>, pg_capacity := 4\<rparr>"
  have "lru_ok [] ?p" by (rule lru_ok_cong [THEN iffD2, OF _ _ _ sample_lru]) simp_all
  from touch_lru_ok [OF this, of 1] have "lru_ok [1] (touch_lru 1 ?p)" by simp
  from insert_touched_ok [OF insert_touched_ok [OF insert_touched_ok [OF insert_touched_ok [OF this]]], of 2 3 4 5]
  show "lru_ok [1, 2, 3, 4, 5] sample_import" by (simp add: sample_import_def)
  show "max (pg_capacity sample_import) 4 < card (dom (pg_pages sample_import))"
    by (simp add: sample_import_fields sample_import_pages)
  show "find (evictable sample_import) [1, 2, 3, 4, 5] = Some 2"
    by (simp add: evictable_def sample_import_fields)
  show "w_index (wal_open_in_memory (\<lambda>_. 0) 8) 2 = None" "\<not> w_io_failed (wal_open_in_memory (\<lambda>_. 0) 8)"
    by (simp_all add: wal_open_in_memory_def wal_empty_def)
qed (simp_all add: sample_import_fields)

section \<open>Writable remote objects\<close>

text \<open>Over a writable remote object without a local file, a transaction cannot be undone:
  \<^verbatim>\<open>write_page\<close> stores the page without recording its old content, so after a rollback the page
  still has the new content.\<close>

theorem remote_rollback_keeps_writes:
  assumes none: "pg_file b = None" and wr: "pg_writer b" and begin_: "begin_transaction b = (Inr (), p)" and pid: "pid \<noteq> 1"
  shows "pg_pages (snd (rollback_transaction crc (snd (write_page crc pid d p)))) pid = Some d"
proof -
  have p: "p = b\<lparr>pg_tx := Some \<lparr>sp_header = pg_header b, sp_undo = (\<lambda>_. None), sp_dirty = {},
                  sp_total_pages = total_pages b, sp_wal_frames = wal_frame_count b\<rparr>\<rparr>"
    using begin_ by (auto simp: begin_transaction_def split: sum.splits if_splits)
  have "snd (write_page crc pid d p) = touch_lru pid (p\<lparr>pg_pages := (pg_pages p)(pid \<mapsto> d)\<rparr>)"
    using none wr by (simp add: write_page_def read_only_remote_def p)
  moreover have "pg_pages (snd (pager_wal_rollback n q)) = pg_pages q" for n q
    using arg_cong [OF pager_wal_rollback_fields [of n q], of pg_pages] by simp
  ultimately show ?thesis
    using pid by (simp add: rollback_transaction_def p restore_pages_at sync_header_into_page1_cache_def)
qed

theorem remote_rollback_keeps_writes_witness:
  "\<exists>p. begin_transaction (sample_pager\<lparr>pg_writer := True\<rparr>) = (Inr (), p) \<and> pg_pages p 2 = None \<and>
     pg_pages (snd (rollback_transaction (\<lambda>_. 0) (snd (write_page (\<lambda>_. 0) 2 [7] p)))) 2 = Some [7]"
proof -
  let ?b = "sample_pager\<lparr>pg_writer := True\<rparr>"
  have "begin_transaction ?b = (Inr (), snd (begin_transaction ?b))" "pg_pages (snd (begin_transaction ?b)) 2 = None"
    by (simp_all add: begin_transaction_def sample_pager_def empty_pager_def ensure_io_ready_def
      requires_reopen_def wal_open_in_memory_def wal_empty_def read_only_remote_def)
  then show ?thesis
    using remote_rollback_keeps_writes [of ?b "snd (begin_transaction ?b)" 2 "\<lambda>_. 0" "[7]"]
    by (intro exI [of _ "snd (begin_transaction ?b)"]) (simp add: sample_pager_def empty_pager_def)
qed

end
