(* ===== verification/Row_Codec.thy ===== *)
theory Row_Codec
  imports Varint
begin

text \<open>
  \<^verbatim>\<open>src/src/sql/codec.rs\<close> and the \<^verbatim>\<open>Value\<close> type of \<^verbatim>\<open>src/src/traits.rs\<close>: a record is
  the column count, one tag byte per column, then the payloads of the columns. Texts are their
  UTF-8 bytes, floating-point numbers their bit patterns (both conversions of the source,
  \<^verbatim>\<open>to_le_bytes\<close> and \<^verbatim>\<open>from_le_bytes\<close>, are bit-exact).
\<close>

section \<open>Values\<close>

datatype val =
    VNull
  | VInteger u64
  | VReal u64
  | VText bytes
  | VBlob bytes
  | VVector "u32 list"

text \<open>\<^verbatim>\<open>std::str::from_utf8\<close>: the byte ranges of well-formed UTF-8.\<close>

definition in_range :: "u8 \<Rightarrow> u8 \<Rightarrow> u8 \<Rightarrow> bool" where
  "in_range lo hi b \<longleftrightarrow> lo \<le> b \<and> b \<le> hi"

abbreviation utf8_cont :: "u8 \<Rightarrow> bool" where "utf8_cont \<equiv> in_range 0x80 0xBF"

fun utf8_valid :: "bytes \<Rightarrow> bool" where
  "utf8_valid [] = True"
| "utf8_valid (b # bs) =
     (if b < 0x80 then utf8_valid bs
      else case bs of
        [] \<Rightarrow> False
      | c1 # cs \<Rightarrow>
          if in_range 0xC2 0xDF b then utf8_cont c1 \<and> utf8_valid cs
          else case cs of
            [] \<Rightarrow> False
          | c2 # ds \<Rightarrow>
              if in_range 0xE0 0xEF b
              then in_range (if b = 0xE0 then 0xA0 else 0x80) (if b = 0xED then 0x9F else 0xBF) c1 \<and>
                   utf8_cont c2 \<and> utf8_valid ds
              else case ds of
                [] \<Rightarrow> False
              | c3 # es \<Rightarrow>
                  in_range 0xF0 0xF4 b \<and>
                  in_range (if b = 0xF0 then 0x90 else 0x80) (if b = 0xF4 then 0x8F else 0xBF) c1 \<and>
                  utf8_cont c2 \<and> utf8_cont c3 \<and> utf8_valid es)"

section \<open>Encoding\<close>

definition TAG_NULL :: u8 where "TAG_NULL = 0x00"
definition TAG_INT_0 :: u8 where "TAG_INT_0 = 0x01"
definition TAG_INT_1 :: u8 where "TAG_INT_1 = 0x02"
definition TAG_INT_I8 :: u8 where "TAG_INT_I8 = 0x03"
definition TAG_INT_I16 :: u8 where "TAG_INT_I16 = 0x04"
definition TAG_INT_I32 :: u8 where "TAG_INT_I32 = 0x05"
definition TAG_INT_I64 :: u8 where "TAG_INT_I64 = 0x06"
definition TAG_REAL :: u8 where "TAG_REAL = 0x07"
definition TAG_TEXT :: u8 where "TAG_TEXT = 0x08"
definition TAG_BLOB :: u8 where "TAG_BLOB = 0x09"
definition TAG_VECTOR :: u8 where "TAG_VECTOR = 0x0A"

lemmas tag_defs = TAG_NULL_def TAG_INT_0_def TAG_INT_1_def TAG_INT_I8_def TAG_INT_I16_def
  TAG_INT_I32_def TAG_INT_I64_def TAG_REAL_def TAG_TEXT_def TAG_BLOB_def TAG_VECTOR_def

text \<open>\<^verbatim>\<open>i8::try_from(i)\<close> and the like succeed when the signed value fits.\<close>

definition fits_signed :: "nat \<Rightarrow> u64 \<Rightarrow> bool" where
  "fits_signed n i \<longleftrightarrow> - (2 ^ (n - 1)) \<le> sint i \<and> sint i < 2 ^ (n - 1)"

fun encode_value :: "val \<Rightarrow> u8 \<times> bytes" where
  "encode_value VNull = (TAG_NULL, [])"
| "encode_value (VInteger i) =
     (if i = 0 then (TAG_INT_0, [])
      else if i = 1 then (TAG_INT_1, [])
      else if fits_signed 8 i then (TAG_INT_I8, [ucast i])
      else if fits_signed 16 i then (TAG_INT_I16, to_le16 (ucast i))
      else if fits_signed 32 i then (TAG_INT_I32, to_le32 (ucast i))
      else (TAG_INT_I64, to_le64 i))"
| "encode_value (VReal r) = (TAG_REAL, to_le64 r)"
| "encode_value (VText s) = (TAG_TEXT, encode_varint (word_of_nat (length s)) @ s)"
| "encode_value (VBlob b) = (TAG_BLOB, encode_varint (word_of_nat (length b)) @ b)"
| "encode_value (VVector v) = (TAG_VECTOR, to_le16 (word_of_nat (length v)) @ concat (map to_le32 v))"

text \<open>The source fills the tag bytes while it appends the payloads.\<close>

definition encode_row_into :: "val list \<Rightarrow> bytes \<Rightarrow> bytes" where
  "encode_row_into values out =
     encode_varint (word_of_nat (length values)) @ map (fst \<circ> encode_value) values @
     concat (map (snd \<circ> encode_value) values)"

definition encode_row :: "val list \<Rightarrow> bytes" where
  "encode_row values = encode_row_into values []"

section \<open>Decoding\<close>

text \<open>\<^verbatim>\<open>decode_varint(&bytes[cursor..])\<close>\<close>

definition varint_at :: "bytes \<Rightarrow> nat \<Rightarrow> (nat \<times> nat) result" where
  "varint_at bs cursor =
     bind_r (from_r bs cursor) (\<lambda>rest. bind_r (decode_varint rest) (\<lambda>(v, n). Inr (unat v, n)))"

definition fixed_column :: "nat \<Rightarrow> string \<Rightarrow> (bytes \<Rightarrow> val) \<Rightarrow> bytes \<Rightarrow> nat \<Rightarrow> (val \<times> nat) result" where
  "fixed_column n msg f bs cursor =
     bind_r (usize_add cursor n) (\<lambda>e.
       if e > length bs then Inl (Corrupted msg) else Inr (f (take n (drop cursor bs)), e))"

definition sized_column :: "string \<Rightarrow> (bytes \<Rightarrow> val result) \<Rightarrow> bytes \<Rightarrow> nat \<Rightarrow> (val \<times> nat) result" where
  "sized_column msg f bs cursor =
     bind_r (varint_at bs cursor) (\<lambda>(len, n).
     bind_r (usize_add cursor n) (\<lambda>c.
     bind_r (usize_add c len) (\<lambda>e.
       if e > length bs then Inl (Corrupted msg)
       else bind_r (f (take len (drop c bs))) (\<lambda>v. Inr (v, e)))))"

definition text_value :: "bytes \<Rightarrow> val result" where
  "text_value s = (if utf8_valid s then Inr (VText s) else Inl (Corrupted ''Invalid UTF-8 string''))"

definition vector_column :: "bytes \<Rightarrow> nat \<Rightarrow> (val \<times> nat) result" where
  "vector_column bs cursor =
     bind_r (usize_add cursor 2) (\<lambda>c.
       if c > length bs then Inl (Corrupted ''Truncated Vector dimensions'')
       else let dims = unat (u16_at bs cursor) in
         bind_r (usize_add c (dims * 4)) (\<lambda>e.
           if e > length bs then Inl (Corrupted ''Truncated Vector float payload'')
           else Inr (VVector (map (\<lambda>i. u32_at bs (c + 4 * i)) [0..<dims]), e)))"

definition decode_column :: "u8 \<Rightarrow> bytes \<Rightarrow> nat \<Rightarrow> (val \<times> nat) result" where
  "decode_column tag bs cursor =
     (if tag = TAG_NULL then Inr (VNull, cursor)
      else if tag = TAG_INT_0 then Inr (VInteger 0, cursor)
      else if tag = TAG_INT_1 then Inr (VInteger 1, cursor)
      else if tag = TAG_INT_I8 then
        if cursor \<ge> length bs then Inl (Corrupted ''Truncated i8 value'')
        else Inr (VInteger (scast (bs ! cursor)), cursor + 1)
      else if tag = TAG_INT_I16 then
        fixed_column 2 ''Truncated i16 value'' (\<lambda>b. VInteger (scast (from_le16 b))) bs cursor
      else if tag = TAG_INT_I32 then
        fixed_column 4 ''Truncated i32 value'' (\<lambda>b. VInteger (scast (from_le32 b))) bs cursor
      else if tag = TAG_INT_I64 then
        fixed_column 8 ''Truncated i64 value'' (\<lambda>b. VInteger (from_le64 b)) bs cursor
      else if tag = TAG_REAL then
        fixed_column 8 ''Truncated Real value'' (\<lambda>b. VReal (from_le64 b)) bs cursor
      else if tag = TAG_TEXT then sized_column ''Truncated Text payload'' text_value bs cursor
      else if tag = TAG_BLOB then sized_column ''Truncated Blob payload'' (\<lambda>b. Inr (VBlob b)) bs cursor
      else if tag = TAG_VECTOR then vector_column bs cursor
      else Inl (Corrupted ''Unknown type tag in record header''))"

text \<open>The cursor after a column that is not wanted.\<close>

definition skip_column :: "u8 \<Rightarrow> bytes \<Rightarrow> nat \<Rightarrow> nat result" where
  "skip_column tag bs cursor =
     (if tag \<in> {TAG_NULL, TAG_INT_0, TAG_INT_1} then Inr cursor
      else if tag = TAG_INT_I8 then usize_add cursor 1
      else if tag = TAG_INT_I16 then usize_add cursor 2
      else if tag = TAG_INT_I32 then usize_add cursor 4
      else if tag \<in> {TAG_INT_I64, TAG_REAL} then usize_add cursor 8
      else if tag \<in> {TAG_TEXT, TAG_BLOB} then
        bind_r (varint_at bs cursor) (\<lambda>(len, n). bind_r (usize_add n len) (usize_add cursor))
      else if tag = TAG_VECTOR then
        bind_r (usize_add cursor 2) (\<lambda>c.
          if c > length bs then Inl (Corrupted ''Truncated Vector dimensions'')
          else usize_add cursor (2 + unat (u16_at bs cursor) * 4))
      else Inr cursor)"

definition needed :: "bool list \<Rightarrow> nat \<Rightarrow> bool" where
  "needed wanted i \<longleftrightarrow> (if i < length wanted then wanted ! i else True)"

fun decode_columns :: "bool list \<Rightarrow> nat \<Rightarrow> bytes \<Rightarrow> bytes \<Rightarrow> nat \<Rightarrow> val list result" where
  "decode_columns wanted i [] bs cursor = Inr []"
| "decode_columns wanted i (tag # tags) bs cursor =
     bind_r (if needed wanted i then decode_column tag bs cursor
             else bind_r (skip_column tag bs cursor) (\<lambda>c. Inr (VNull, c))) (\<lambda>(v, c).
     bind_r (decode_columns wanted (Suc i) tags bs c) (\<lambda>vs. Inr (v # vs)))"

definition decode_row_projected :: "bytes \<Rightarrow> bool list \<Rightarrow> val list result" where
  "decode_row_projected bs wanted =
     (if bs = [] then Inr []
      else bind_r (decode_varint bs) (\<lambda>(count, n).
           bind_r (usize_add n (unat count)) (\<lambda>e.
             if length bs < e then Inl (Corrupted ''Record header truncated'')
             else decode_columns wanted 0 (take (unat count) (drop n bs)) bs e)))"

definition decode_row_values :: "bytes \<Rightarrow> val list result" where
  "decode_row_values bs = decode_row_projected bs []"

text \<open>A row pairs the column names with the values, padded for columns added later.\<close>

definition pad_row :: "string list \<Rightarrow> val list \<Rightarrow> string list \<times> val list" where
  "pad_row names vs = (names, vs @ replicate (length names - length vs) VNull)"

definition decode_row :: "bytes \<Rightarrow> string list \<Rightarrow> (string list \<times> val list) result" where
  "decode_row bs names = bind_r (decode_row_values bs) (\<lambda>vs. Inr (pad_row names vs))"

definition decode_row_shared_projected :: "bytes \<Rightarrow> string list \<Rightarrow> bool list \<Rightarrow> (string list \<times> val list) result" where
  "decode_row_shared_projected bs names wanted = bind_r (decode_row_projected bs wanted) (\<lambda>vs. Inr (pad_row names vs))"

section \<open>One column\<close>

lemma scast_ucast:
  assumes "- (2 ^ (LENGTH('b) - 1)) \<le> sint i" "sint i < 2 ^ (LENGTH('b::len) - 1)" "LENGTH('b) \<le> 64"
  shows "scast (ucast (i :: u64) :: 'b word) = i"
proof -
  have "sint (ucast i :: 'b word) = signed_take_bit (LENGTH('b) - Suc 0) (uint (ucast i :: 'b word))"
    by (rule sint_uint)
  also have "uint (ucast i :: 'b word) = take_bit LENGTH('b) (uint i)" by transfer simp
  also have "signed_take_bit (LENGTH('b) - Suc 0) (take_bit LENGTH('b) (uint i)) =
      signed_take_bit (LENGTH('b) - Suc 0) (uint i)"
    by (simp add: signed_take_bit_take_bit)
  also have "\<dots> = signed_take_bit (LENGTH('b) - Suc 0) (sint i)"
    using assms(3) by (simp add: sint_uint)
  also have "\<dots> = sint i" using assms(1,2) by (intro signed_take_bit_int_eq_self) simp_all
  finally have "scast (ucast i :: 'b word) = (word_of_int (sint i) :: u64)"
    unfolding scast_eq [of "ucast i :: 'b word"] by (rule arg_cong)
  then show ?thesis by simp
qed

text \<open>What a value must satisfy to have an encoding that is read back.\<close>

definition value_ok :: "val \<Rightarrow> bool" where
  "value_ok v \<longleftrightarrow> (case v of VText s \<Rightarrow> utf8_valid s | VVector xs \<Rightarrow> length xs < 2 ^ 16 | _ \<Rightarrow> True)"

abbreviation tag_of :: "val \<Rightarrow> u8" where "tag_of v \<equiv> fst (encode_value v)"
abbreviation body_of :: "val \<Rightarrow> bytes" where "body_of v \<equiv> snd (encode_value v)"

lemma at_cursor:
  assumes "drop c bs = body @ rest" "c \<le> length bs"
  shows "length bs = c + length body + length rest" "take (length body) (drop c bs) = body"
proof -
  have "length bs - c = length body + length rest" using arg_cong [OF assms(1), where f = length] by simp
  then show "length bs = c + length body + length rest" using assms(2) by linarith
qed (simp add: assms(1))

lemma fixed_column_read:
  assumes "drop c bs = body @ rest" "c \<le> length bs" "length body = n" "length bs < 2 ^ 64"
  shows "fixed_column n msg f bs c = Inr (f body, c + n)"
  using at_cursor [OF assms(1,2)] assms(3,4) by (simp add: fixed_column_def usize_add_def)

lemma sized_column_read:
  assumes d: "drop c bs = (encode_varint (word_of_nat (length s)) @ s) @ rest" and c: "c \<le> length bs"
    and l: "length bs < 2 ^ 64"
  shows "sized_column msg f bs c =
    bind_r (f s) (\<lambda>v. Inr (v, c + length (encode_varint (word_of_nat (length s)) @ s)))"
proof -
  let ?e = "encode_varint (word_of_nat (length s))"
  note a = at_cursor [OF d c]
  have s: "unat (word_of_nat (length s) :: u64) = length s" using a(1) l by (intro unat_of_nat_small64) simp
  have v: "varint_at bs c = Inr (length s, length ?e)"
    using c d decode_encode_varint [of "word_of_nat (length s)" "s @ rest"]
    by (simp add: varint_at_def from_r_def s)
  have "drop (c + length ?e) bs = s @ rest"
    using d by (metis append.assoc append_eq_conv_conj drop_drop add.commute)
  then show ?thesis
    using a(1) l v by (simp add: sized_column_def usize_add_def add.assoc)
qed

lemma length_concat_to_le32 [simp]: "length (concat (map to_le32 xs)) = 4 * length xs"
  by (induction xs) simp_all

lemma u32_concat: "i < length xs \<Longrightarrow> take 4 (drop (4 * i) (concat (map to_le32 xs) @ rest)) = to_le32 (xs ! i)"
proof (induction xs arbitrary: i)
  case (Cons x xs)
  then show ?case by (cases i) simp_all
qed simp

lemma vector_column_read:
  assumes d: "drop c bs = (to_le16 (word_of_nat (length xs)) @ concat (map to_le32 xs)) @ rest"
    and c: "c \<le> length bs" and l: "length bs < 2 ^ 64" and n: "length xs < 2 ^ 16"
  shows "vector_column bs c = Inr (VVector xs, c + length (to_le16 (word_of_nat (length xs)) @ concat (map to_le32 xs)))"
proof -
  note a = at_cursor [OF d c]
  have len: "length bs = c + 2 + 4 * length xs + length rest" using a(1) by simp
  have dims: "unat (u16_at bs c) = length xs" using d n by (simp add: u16_at_def)
  have d2: "drop (c + 2) bs = concat (map to_le32 xs) @ rest"
    using d by (metis add.commute append.assoc append_eq_conv_conj drop_drop length_to_le(1))
  have "u32_at bs (c + 2 + 4 * i) = xs ! i" if "i < length xs" for i
  proof -
    have "drop (c + 2 + 4 * i) bs = drop (4 * i) (concat (map to_le32 xs) @ rest)"
      using d2 by (metis add.commute drop_drop)
    then show ?thesis using u32_concat [OF that, of rest] by (simp add: u32_at_def)
  qed
  then have "map (\<lambda>i. u32_at bs (c + 2 + 4 * i)) [0..<length xs] = xs"
    by (intro nth_equalityI) simp_all
  then show ?thesis
    using len l dims by (simp add: vector_column_def usize_add_def Let_def)
qed

lemma decode_encode_column:
  assumes d: "drop c bs = body_of v @ rest" and c: "c \<le> length bs" and l: "length bs < 2 ^ 64" and ok: "value_ok v"
  shows "decode_column (tag_of v) bs c = Inr (v, c + length (body_of v))"
proof (cases v)
  case (VInteger i)
  note body = d [unfolded VInteger]
  consider "i = 0 \<or> i = 1" | "i \<noteq> 0" "i \<noteq> 1" "fits_signed 8 i" | "i \<noteq> 0" "i \<noteq> 1" "\<not> fits_signed 8 i" by blast
  then show ?thesis
  proof cases
    case 1
    then show ?thesis by (auto simp: VInteger decode_column_def tag_defs)
  next
    case 2
    then have "drop c bs = ucast i # rest" using body by simp
    then have "bs ! c = ucast i" "c < length bs" using c by (metis nth_via_drop, metis drop_eq_Nil leI list.distinct(1))
    moreover have "scast (ucast i :: u8) = i"
      using 2(3) by (intro scast_ucast) (simp_all add: fits_signed_def)
    ultimately show ?thesis using 2 by (simp add: VInteger decode_column_def tag_defs)
  next
    case 3
    have "scast (ucast i :: u16) = i" if "fits_signed 16 i"
      using that by (intro scast_ucast) (simp_all add: fits_signed_def)
    moreover have "scast (ucast i :: u32) = i" if "fits_signed 32 i"
      using that by (intro scast_ucast) (simp_all add: fits_signed_def)
    ultimately show ?thesis
      using 3 body fixed_column_read [OF _ c _ l]
      by (simp add: VInteger decode_column_def tag_defs split: if_splits)
  qed
next
  case (VReal r)
  then show ?thesis using d fixed_column_read [OF _ c _ l] by (simp add: decode_column_def tag_defs)
next
  case (VText s)
  then show ?thesis using d sized_column_read [OF _ c l] ok
    by (simp add: decode_column_def tag_defs text_value_def value_ok_def)
next
  case (VBlob s)
  then show ?thesis using d sized_column_read [OF _ c l] by (simp add: decode_column_def tag_defs)
next
  case (VVector xs)
  then show ?thesis using d vector_column_read [OF _ c l] ok by (simp add: decode_column_def tag_defs value_ok_def)
qed (use d in \<open>simp add: decode_column_def\<close>)

section \<open>Whole records\<close>

lemma decode_encode_columns:
  assumes "drop c bs = concat (map body_of vs) @ rest" "c \<le> length bs" "length bs < 2 ^ 64" "list_all value_ok vs"
  shows "decode_columns [] i (map tag_of vs) bs c = Inr vs"
  using assms
proof (induction vs arbitrary: c i)
  case (Cons v vs)
  have d: "drop c bs = body_of v @ (concat (map body_of vs) @ rest)" using Cons.prems(1) by simp
  have col: "decode_column (tag_of v) bs c = Inr (v, c + length (body_of v))"
    using decode_encode_column [OF d] Cons.prems by simp
  have "drop (c + length (body_of v)) bs = concat (map body_of vs) @ rest"
    using d by (metis add.commute append_eq_conv_conj drop_drop)
  moreover have "c + length (body_of v) \<le> length bs" using at_cursor(1) [OF d Cons.prems(2)] by simp
  ultimately show ?case using Cons.IH [of "c + length (body_of v)" "Suc i"] Cons.prems col by (simp add: needed_def)
qed simp

text \<open>C29: A record round-trips: decoding the encoding of a row of values (texts of well-formed UTF-8,
  vectors of at most 65535 dimensions) gives the values, and with column names the row padded
  with NULL for the columns that were added later.\<close>

theorem row_roundtrip:
  assumes "list_all value_ok vs" "length (encode_row vs) < 2 ^ 64"
  shows "decode_row_values (encode_row vs) = Inr vs \<and>
    decode_row (encode_row vs) names = Inr (names, vs @ replicate (length names - length vs) VNull)"
proof -
  let ?bs = "encode_row vs" and ?e = "encode_varint (word_of_nat (length vs))"
  have bs: "?bs = ?e @ map tag_of vs @ concat (map body_of vs)"
    by (simp add: encode_row_def encode_row_into_def comp_def)
  then have l: "length ?e + length vs \<le> length ?bs" by simp
  have n: "unat (word_of_nat (length vs) :: u64) = length vs" using l assms(2) by (intro unat_of_nat_small64) simp
  have ne: "?bs \<noteq> []" using length_encode_varint_bounds(1) [of "word_of_nat (length vs)"] l by auto
  have v: "decode_varint ?bs = Inr (word_of_nat (length vs), length ?e)"
    unfolding bs by (rule decode_encode_varint)
  have t: "take (length vs) (drop (length ?e) ?bs) = map tag_of vs" unfolding bs by simp
  have d: "drop (length ?e + length vs) ?bs = concat (map body_of vs) @ []" unfolding bs by simp
  have "decode_columns [] 0 (map tag_of vs) ?bs (length ?e + length vs) = Inr vs"
    by (rule decode_encode_columns [OF d l assms(2,1)])
  then have "decode_row_values ?bs = Inr vs"
    using v t n ne l assms(2) by (simp add: decode_row_values_def decode_row_projected_def usize_add_def)
  then show ?thesis by (simp add: decode_row_def pad_row_def)
qed

theorem row_roundtrip_witness:
  "decode_row_values (encode_row [VInteger (- 300), VText [0x68, 0xC3, 0xA9], VNull, VVector [7]]) =
     Inr [VInteger (- 300), VText [0x68, 0xC3, 0xA9], VNull, VVector [7]]"
  by (rule row_roundtrip [THEN conjunct1])
    (simp_all add: value_ok_def in_range_def encode_row_def encode_row_into_def fits_signed_def
      encode_varint_def to_le16_def to_le32_def tag_defs)

text \<open>The values a projection keeps.\<close>

definition masked :: "bool list \<Rightarrow> nat \<Rightarrow> val list \<Rightarrow> val list" where
  "masked wanted i vs = map2 (\<lambda>j v. if needed wanted j then v else VNull) [i..<i + length vs] vs"

lemma masked_Cons: "masked wanted i (v # vs) = (if needed wanted i then v else VNull) # masked wanted (Suc i) vs"
  by (simp add: masked_def upt_conv_Cons del: upt_Suc)

lemma skip_sized:
  assumes "sized_column msg f bs c = Inr (v, c')" "length bs < 2 ^ 64"
  shows "bind_r (varint_at bs c) (\<lambda>(len, n). bind_r (usize_add n len) (usize_add c)) = Inr c'"
  using assms
  by (cases "varint_at bs c") (auto simp: sized_column_def usize_add_def bind_r_eq_Inr add.assoc split: if_splits)

lemma skip_decode_column:
  assumes "decode_column tag bs c = Inr (v, c')" "length bs < 2 ^ 64"
  shows "skip_column tag bs c = Inr c'"
proof (cases "tag \<in> {TAG_TEXT, TAG_BLOB}")
  case True
  then obtain msg f where "sized_column msg f bs c = Inr (v, c')"
    using assms(1) by (auto simp: decode_column_def tag_defs)
  from skip_sized [OF this assms(2)] True show ?thesis by (auto simp: skip_column_def tag_defs)
next
  case False
  then show ?thesis
    using assms
    by (auto simp: decode_column_def skip_column_def tag_defs fixed_column_def vector_column_def
        usize_add_def bind_r_eq_Inr Let_def split: if_splits)
qed

lemma projected_columns:
  assumes "decode_columns [] i tags bs c = Inr vs" "length bs < 2 ^ 64"
  shows "decode_columns wanted i tags bs c = Inr (masked wanted i vs)"
  using assms(1)
proof (induction tags arbitrary: i c vs)
  case Nil
  then show ?case by (simp add: masked_def)
next
  case (Cons tag tags)
  obtain v c' ws where col: "decode_column tag bs c = Inr (v, c')"
    and ws: "decode_columns [] (Suc i) tags bs c' = Inr ws" and vs: "vs = v # ws"
    using Cons.prems by (auto simp: needed_def bind_r_eq_Inr)
  show ?case
    using Cons.IH [OF ws] col skip_decode_column [OF col assms(2)] by (simp add: vs masked_Cons)
qed

text \<open>Decoding with a projection is decoding followed by the projection, for every byte string
  that decodes: a column that is not wanted is skipped over exactly, and only its value is lost.\<close>

theorem projection_equivalent:
  assumes "decode_row_values bs = Inr vs" "length bs < 2 ^ 64"
  shows "decode_row_projected bs wanted = Inr (masked wanted 0 vs)"
proof (cases "bs = []")
  case True
  then show ?thesis using assms by (simp add: decode_row_values_def decode_row_projected_def masked_def)
next
  case False
  then show ?thesis
    using assms(1) projected_columns [OF _ assms(2)]
    by (auto simp: decode_row_values_def decode_row_projected_def bind_r_eq_Inr split: if_splits)
qed

theorem projection_equivalent_witness:
  "decode_row_projected [2, 3, 2, 9] [False] = Inr [VNull, VInteger 1]"
  using projection_equivalent [of "[2, 3, 2, 9]" "[VInteger 9, VInteger 1]" "[False]"]
  by (simp add: decode_row_values_def decode_row_projected_def decode_varint_def usize_add_def needed_def
      decode_column_def tag_defs masked_def)

text \<open>Records that are not what \<^verbatim>\<open>encode_row\<close> wrote can stop the process: with a projection a
  truncated record panics where the full decoder reports corruption, and a text length near
  \<open>2 ^ 64\<close> panics in both. A vector of 65536 dimensions is written with the dimension count 0
  and comes back empty.\<close>

theorem row_codec_limits:
  "decode_row_values [2, 3, 8] = Inl (Corrupted ''Truncated i8 value'') \<and>
   decode_row_projected [2, 3, 8] [False] = Inl Panic \<and>
   decode_row_values (1 # TAG_TEXT # encode_varint (- 1)) = Inl Panic \<and>
   (\<forall>xs. length xs = 65536 \<longrightarrow> decode_row_values (encode_row [VVector xs]) = Inr [VVector []])"
proof (intro conjI allI impI)
  show "decode_row_values [2, 3, 8] = Inl (Corrupted ''Truncated i8 value'')"
    by (simp add: decode_row_values_def decode_row_projected_def decode_varint_def usize_add_def needed_def
      decode_column_def tag_defs)
  show "decode_row_projected [2, 3, 8] [False] = Inl Panic"
    by (simp add: decode_row_projected_def decode_varint_def usize_add_def needed_def
      skip_column_def decode_column_def sized_column_def varint_at_def from_r_def tag_defs)
  have v: "varint_at (1 # 8 # encode_varint (- 1)) (Suc (Suc 0)) = Inr (18446744073709551615, length (encode_varint (- 1)))"
    using decode_encode_varint [of "- 1" "[]"] by (simp add: varint_at_def from_r_def unsigned_minus_1_eq_mask mask_eq_exp_minus_1)
  show "decode_row_values (1 # TAG_TEXT # encode_varint (- 1)) = Inl Panic"
    using length_encode_varint_bounds [of "- 1"]
    by (simp add: decode_row_values_def decode_row_projected_def decode_varint_def usize_add_def needed_def
      decode_column_def sized_column_def v tag_defs)
next
  fix xs :: "u32 list" assume "length xs = 65536"
  then have "vector_column (encode_row [VVector xs]) (Suc (Suc 0)) = Inr (VVector [], 4)"
    by (simp add: vector_column_def usize_add_def u16_at_def encode_row_def encode_row_into_def encode_varint_def)
  then show "decode_row_values (encode_row [VVector xs]) = Inr [VVector []]"
    by (simp add: decode_row_values_def decode_row_projected_def decode_varint_def usize_add_def needed_def
      decode_column_def encode_row_def encode_row_into_def encode_varint_def tag_defs)
qed

theorem row_codec_limits_witness:
  "decode_row_values (encode_row [VVector (replicate 65536 0)]) = Inr [VVector []]"
  using row_codec_limits by simp

end
