(* ===== verification/Page_Ops.thy ===== *)
theory Page_Ops
  imports Page_Format Db_Header
begin

text \<open>
  \<^verbatim>\<open>src/src/btree/engine.rs\<close>, the operations on one slotted page, byte by byte: the
  header, the array of two-byte cell pointers that grows up from it, and the cell content
  that grows down from the reserved trailer. A \<^verbatim>\<open>&mut [u8]\<close> is a byte list taken and
  returned; an index or slice out of range is \<open>Panic\<close>. An operation that fails after it
  has written to its buffer returns the error without the buffer: the engine discards the
  buffer, or the failure cannot happen on a well-formed page.
\<close>

section \<open>Headers in a page\<close>

definition page_header_offset :: "page_id \<Rightarrow> nat" where
  "page_header_offset page_id = (if page_id = 1 then DATABASE_HEADER_SIZE else 0)"

definition empty_header :: "page_type \<Rightarrow> page_id option \<Rightarrow> nat \<Rightarrow> page_header" where
  "empty_header t rc page_len =
     \<lparr>ph_page_type = t, ph_flags = 0, ph_num_cells = 0,
      ph_cell_content_offset = word_of_nat (page_len - PAGE_RESERVED_TRAILER),
      ph_first_freeblock = 0, ph_right_child = rc\<rparr>"

definition init_leaf_page :: "bytes \<Rightarrow> page_id \<Rightarrow> bytes result" where
  "init_leaf_page page page_id =
     (if length page < PAGE_RESERVED_TRAILER then Inl Panic
      else put_r page (page_header_offset page_id)
             (header_to_bytes (empty_header TableLeaf None (length page))))"

definition init_interior_page :: "bytes \<Rightarrow> page_id \<Rightarrow> page_id \<Rightarrow> bytes result" where
  "init_interior_page page page_id right_child =
     (if length page < PAGE_RESERVED_TRAILER then Inl Panic
      else put_r page (page_header_offset page_id)
             (header_to_bytes (empty_header TableInterior (Some right_child) (length page))))"

definition read_page_header :: "bytes \<Rightarrow> page_id \<Rightarrow> page_header result" where
  "read_page_header page page_id =
     (let offset = page_header_offset page_id in
      if length page < offset + 8 then Inl (Corrupted ''Page buffer too small for header'')
      else header_from_bytes (drop offset page))"

definition write_page_header :: "bytes \<Rightarrow> page_id \<Rightarrow> page_header \<Rightarrow> bytes result" where
  "write_page_header page page_id h =
     (let offset = page_header_offset page_id; bs = header_to_bytes h in
      if length page < offset + length bs
      then Inl (Corrupted ''Page buffer too small to write header'')
      else put_r page offset bs)"

section \<open>Reading cells\<close>

definition read_cell_pointer :: "bytes \<Rightarrow> page_id \<Rightarrow> nat \<Rightarrow> u16 result" where
  "read_cell_pointer page page_id cell_idx =
     bind_r (read_page_header page page_id) (\<lambda>h.
       if unat (ph_num_cells h) \<le> cell_idx
       then Inl (Corrupted ''Cell index {cell_idx} out of range (num_cells: {})'')
       else let ptr_offset = page_header_offset page_id + header_size h + cell_idx * 2 in
            bind_r (slice_r page ptr_offset (ptr_offset + 2)) (\<lambda>bs. Inr (from_le16 bs)))"

definition cell_slice :: "bytes \<Rightarrow> page_id \<Rightarrow> nat \<Rightarrow> bytes result" where
  "cell_slice page page_id cell_idx =
     bind_r (read_cell_pointer page page_id cell_idx) (\<lambda>p.
       if length page \<le> unat p then Inl (Corrupted ''Cell pointer points past end of page'')
       else Inr (drop (unat p) page))"

definition read_leaf_cell :: "bytes \<Rightarrow> page_id \<Rightarrow> nat \<Rightarrow> table_leaf_cell result" where
  "read_leaf_cell page page_id cell_idx =
     bind_r (cell_slice page page_id cell_idx) leaf_cell_from_bytes"

definition read_interior_cell :: "bytes \<Rightarrow> page_id \<Rightarrow> nat \<Rightarrow> table_interior_cell result" where
  "read_interior_cell page page_id cell_idx =
     bind_r (cell_slice page page_id cell_idx) interior_cell_from_bytes"

definition read_leaf_cell_row_id :: "bytes \<Rightarrow> page_id \<Rightarrow> nat \<Rightarrow> u64 result" where
  "read_leaf_cell_row_id page page_id cell_idx =
     bind_r (cell_slice page page_id cell_idx) (\<lambda>bs.
     bind_r (decode_varint bs) (\<lambda>(_, n1).
       if length bs \<le> n1 then Inl (Corrupted ''Truncated cell row_id'')
       else bind_r (decode_varint (drop n1 bs)) (\<lambda>(row_id, _). Inr row_id)))"

section \<open>Finding a key\<close>

text \<open>\<^verbatim>\<open>Ok(index)\<close> and \<^verbatim>\<open>Err(insertion_index)\<close> of the binary search.\<close>

datatype search_result = Found nat | NotFound nat

function leaf_bsearch :: "bytes \<Rightarrow> page_id \<Rightarrow> u64 \<Rightarrow> nat \<Rightarrow> nat \<Rightarrow> search_result result" where
  "leaf_bsearch page page_id key low high =
     (if low < high then
        let mid = low + (high - low) div 2 in
        bind_r (read_leaf_cell_row_id page page_id mid) (\<lambda>row_id.
          if row_id = key then Inr (Found mid)
          else if row_id < key then leaf_bsearch page page_id key (mid + 1) high
          else leaf_bsearch page page_id key low mid)
      else Inr (NotFound low))"
  by pat_completeness auto
termination
  by (relation "measure (\<lambda>(page, page_id, key, low, high). high - low)") auto

declare leaf_bsearch.simps [simp del]

definition find_leaf_cell_index_by_key ::
    "bytes \<Rightarrow> page_id \<Rightarrow> u64 \<Rightarrow> search_result result" where
  "find_leaf_cell_index_by_key page page_id key =
     bind_r (read_page_header page page_id) (\<lambda>h.
       let num_cells = unat (ph_num_cells h) in
       if num_cells = 0 then Inr (NotFound 0)
       else bind_r (read_leaf_cell_row_id page page_id (num_cells - 1)) (\<lambda>last_row_id.
         if key > last_row_id then Inr (NotFound num_cells)
         else if key = last_row_id then Inr (Found (num_cells - 1))
         else leaf_bsearch page page_id key 0 num_cells))"

section \<open>Inserting and deleting\<close>

text \<open>
  \<^verbatim>\<open>page_buf[p] = page_buf[q]; page_buf[p + 1] = page_buf[q + 1]\<close>: the two pointer bytes at
  \<open>q\<close> copied to \<open>p\<close>; the pairs never overlap.
\<close>

definition copy_pair :: "nat \<Rightarrow> nat \<Rightarrow> bytes \<Rightarrow> bytes result" where
  "copy_pair p q page = bind_r (slice_r page q (q + 2)) (put_r page p)"

definition leaf_cell_size :: "u64 \<Rightarrow> bytes \<Rightarrow> nat" where
  "leaf_cell_size row_id payload =
     length (encode_varint (word_of_nat (length payload))) + length (encode_varint row_id) +
     length payload + 4"

definition checked_sub16 :: "u16 \<Rightarrow> u16 \<Rightarrow> u16 option" where
  "checked_sub16 a b = (if b \<le> a then Some (a - b) else None)"

definition insert_leaf_cell_raw ::
    "bytes \<Rightarrow> page_id \<Rightarrow> u64 \<Rightarrow> bytes \<Rightarrow> page_id option \<Rightarrow> (bytes \<times> bool) result" where
  "insert_leaf_cell_raw page page_id row_id payload overflow_page =
     bind_r (read_page_header page page_id) (\<lambda>h.
       let page_size = length page;
           cell_size = leaf_cell_size row_id payload;
           offset = page_header_offset page_id;
           ptr_array_start = offset + header_size h in
       if free_space h page_size offset < cell_size + 2 then Inr (page, False)
       else
       bind_r (find_leaf_cell_index_by_key page page_id row_id) (\<lambda>search_res.
       bind_r (case search_res of
           Found existing_idx \<Rightarrow>
             bind_r (fold_r (\<lambda>i. copy_pair (ptr_array_start + i * 2) (ptr_array_start + (i + 1) * 2))
                       [existing_idx ..< unat (ph_num_cells h) - 1] page) (\<lambda>page1.
             Inr (page1, ph_num_cells h - 1, existing_idx))
         | NotFound idx \<Rightarrow> Inr (page, ph_num_cells h, idx)) (\<lambda>(page1, num_cells, insert_idx).
       let cur = (if ph_cell_content_offset h = 0
                  then word_of_nat (page_size - PAGE_RESERVED_TRAILER)
                  else ph_cell_content_offset h) in
       bind_r (ok_or (Corrupted ''Cell offset arithmetic underflow'')
                 (checked_sub16 cur (word_of_nat cell_size))) (\<lambda>cur_content_offset.
       bind_r (put_r page1 (unat cur_content_offset)
                 (leaf_cell_bytes row_id payload overflow_page)) (\<lambda>page2.
       bind_r (fold_r (\<lambda>i. copy_pair (ptr_array_start + (i + 1) * 2) (ptr_array_start + i * 2))
                 (rev [insert_idx ..< unat num_cells]) page2) (\<lambda>page3.
       bind_r (put_r page3 (ptr_array_start + insert_idx * 2) (to_le16 cur_content_offset)) (\<lambda>page4.
       bind_r (write_page_header page4 page_id
                 (h\<lparr>ph_num_cells := num_cells + 1,
                    ph_cell_content_offset := cur_content_offset\<rparr>)) (\<lambda>page5.
       Inr (page5, True)))))))))"

definition insert_leaf_cell_into_page ::
    "bytes \<Rightarrow> page_id \<Rightarrow> table_leaf_cell \<Rightarrow> (bytes \<times> bool) result" where
  "insert_leaf_cell_into_page page page_id cell =
     insert_leaf_cell_raw page page_id (lc_row_id cell) (lc_payload cell) (lc_overflow_page cell)"

text \<open>The loop that lays the cells out again, from the trailer downwards.\<close>

fun defrag_loop :: "nat \<Rightarrow> nat \<Rightarrow> table_leaf_cell list \<Rightarrow> u16 \<Rightarrow> bytes \<Rightarrow> (u16 \<times> bytes) result" where
  "defrag_loop ptr_start i [] content_offset page = Inr (content_offset, page)"
| "defrag_loop ptr_start i (cell # cells) content_offset page =
     (let bs = leaf_cell_to_bytes cell in
      bind_r (ok_or (Corrupted ''Cell offset underflow during defragmentation'')
                (checked_sub16 content_offset (word_of_nat (length bs)))) (\<lambda>co.
      bind_r (put_r page (unat co) bs) (\<lambda>page1.
      bind_r (put_r page1 (ptr_start + i * 2) (to_le16 co)) (\<lambda>page2.
      defrag_loop ptr_start (i + 1) cells co page2))))"

definition clear_range :: "bytes \<Rightarrow> nat \<Rightarrow> nat \<Rightarrow> bytes result" where
  "clear_range page clear_start clear_end =
     (if clear_end > clear_start then put_r page clear_start (replicate (clear_end - clear_start) 0)
      else Inr page)"

definition defragment_leaf_page :: "bytes \<Rightarrow> page_id \<Rightarrow> bytes result" where
  "defragment_leaf_page page page_id =
     bind_r (read_page_header page page_id) (\<lambda>h.
       let num_cells = unat (ph_num_cells h);
           page_size = length page;
           ptr_start = page_header_offset page_id + header_size h in
       if page_size < PAGE_RESERVED_TRAILER then Inl Panic
       else if num_cells = 0 then
         bind_r (write_page_header page page_id
                   (h\<lparr>ph_cell_content_offset := word_of_nat (page_size - PAGE_RESERVED_TRAILER),
                      ph_first_freeblock := 0\<rparr>)) (\<lambda>page1.
         clear_range page1 ptr_start (page_size - PAGE_RESERVED_TRAILER))
       else
         bind_r (map_r (read_leaf_cell page page_id) [0..<num_cells]) (\<lambda>cells.
         bind_r (clear_range page (ptr_start + num_cells * 2) (page_size - PAGE_RESERVED_TRAILER))
           (\<lambda>page1.
         bind_r (defrag_loop ptr_start 0 cells (word_of_nat (page_size - PAGE_RESERVED_TRAILER)) page1)
           (\<lambda>(content_offset, page2).
         write_page_header page2 page_id
           (h\<lparr>ph_cell_content_offset := content_offset, ph_first_freeblock := 0\<rparr>)))))"

definition delete_leaf_cell_from_page :: "bytes \<Rightarrow> page_id \<Rightarrow> u64 \<Rightarrow> (bytes \<times> bool) result" where
  "delete_leaf_cell_from_page page page_id key =
     bind_r (read_page_header page page_id) (\<lambda>h.
     bind_r (find_leaf_cell_index_by_key page page_id key) (\<lambda>search_res.
       case search_res of
         Found idx \<Rightarrow>
           if unat (ph_num_cells h) \<le> idx \<or> ph_num_cells h = 0 then Inr (page, False)
           else let ptr_array_start = page_header_offset page_id + header_size h in
             bind_r (fold_r (\<lambda>i pg.
                        let p1 = ptr_array_start + i * 2; p2 = ptr_array_start + (i + 1) * 2 in
                        if p2 + 1 < length pg then copy_pair p1 p2 pg else Inr pg)
                      [idx ..< unat (ph_num_cells h) - 1] page) (\<lambda>page1.
             bind_r (write_page_header page1 page_id (h\<lparr>ph_num_cells := ph_num_cells h - 1\<rparr>))
               (\<lambda>page2.
             bind_r (defragment_leaf_page page2 page_id) (\<lambda>page3. Inr (page3, True))))
       | NotFound _ \<Rightarrow> Inr (page, False)))"

text \<open>The insertion scan: the first cell with a larger key, or the end.\<close>

fun interior_insert_idx :: "bytes \<Rightarrow> page_id \<Rightarrow> u64 \<Rightarrow> nat \<Rightarrow> nat list \<Rightarrow> nat result" where
  "interior_insert_idx page page_id row_id dflt [] = Inr dflt"
| "interior_insert_idx page page_id row_id dflt (i # is) =
     bind_r (read_interior_cell page page_id i) (\<lambda>existing.
       if row_id < ic_row_id existing then Inr i
       else interior_insert_idx page page_id row_id dflt is)"

definition insert_interior_cell_into_page ::
    "bytes \<Rightarrow> page_id \<Rightarrow> table_interior_cell \<Rightarrow> (bytes \<times> bool) result" where
  "insert_interior_cell_into_page page page_id cell =
     bind_r (read_page_header page page_id) (\<lambda>h.
       let page_size = length page;
           cell_bytes = interior_cell_to_bytes cell;
           cell_size = length cell_bytes;
           offset = page_header_offset page_id;
           ptr_array_start = offset + header_size h;
           num_cells = unat (ph_num_cells h) in
       if free_space h page_size offset < cell_size + 2 then Inr (page, False)
       else
       bind_r (interior_insert_idx page page_id (ic_row_id cell) num_cells [0..<num_cells])
         (\<lambda>insert_idx.
       let cur = (if ph_cell_content_offset h = 0
                  then word_of_nat (page_size - PAGE_RESERVED_TRAILER)
                  else ph_cell_content_offset h) in
       bind_r (ok_or (Corrupted ''Interior cell offset arithmetic underflow'')
                 (checked_sub16 cur (word_of_nat cell_size))) (\<lambda>cur_content_offset.
       bind_r (put_r page (unat cur_content_offset) cell_bytes) (\<lambda>page2.
       bind_r (fold_r (\<lambda>i. copy_pair (ptr_array_start + (i + 1) * 2) (ptr_array_start + i * 2))
                 (rev [insert_idx ..< num_cells]) page2) (\<lambda>page3.
       bind_r (put_r page3 (ptr_array_start + insert_idx * 2) (to_le16 cur_content_offset)) (\<lambda>page4.
       bind_r (write_page_header page4 page_id
                 (h\<lparr>ph_num_cells := ph_num_cells h + 1,
                    ph_cell_content_offset := cur_content_offset\<rparr>)) (\<lambda>page5.
       Inr (page5, True))))))))"

end
