(* ===== verification/Page_Layout.thy ===== *)
theory Page_Layout
  imports Page_Ops
begin

text \<open>
  The layout of a well-formed slotted page as a concatenation (prefix, header, pointer
  array, gap, cell content) and what the byte-level operations of \<open>Page_Ops\<close> do to it.
  A page represents a list of cells when its pointers, in order, lead to their encodings;
  content is only ever added in front, so the cells already there stay readable. The
  binary search is proved against the sorted key list, and insertion against
  \<open>upsert_cell\<close>.
\<close>

section \<open>Pointer arrays\<close>

definition enc_ptrs :: "u16 list \<Rightarrow> bytes" where
  "enc_ptrs ps = concat (map to_le16 ps)"

lemma enc_ptrs_simps [simp]:
  "enc_ptrs [] = []" "enc_ptrs (p # ps) = to_le16 p @ enc_ptrs ps"
  "enc_ptrs (ps @ qs) = enc_ptrs ps @ enc_ptrs qs"
  by (simp_all add: enc_ptrs_def)

lemma length_enc_ptrs [simp]: "length (enc_ptrs ps) = 2 * length ps"
  by (induction ps) auto

lemma put_r_mid:
  "length A = n \<Longrightarrow> length X = length Y \<Longrightarrow> put_r (A @ X @ B) n Y = Inr (A @ Y @ B)"
  by (simp add: put_r_def splice_def)

lemma slice_r_mid:
  "length A = n \<Longrightarrow> m = n + length X \<Longrightarrow> slice_r (A @ X @ B) n m = Inr X"
  by (simp add: slice_r_def)

lemma enc_ptrs_split:
  "i < length ps \<Longrightarrow> enc_ptrs ps = enc_ptrs (take i ps) @ to_le16 (ps ! i) @ enc_ptrs (drop (Suc i) ps)"
  by (metis enc_ptrs_simps(2,3) id_take_nth_drop)

lemma slice_ptr:
  assumes "length P = a" "i < length ps"
  shows "slice_r (P @ enc_ptrs ps @ R) (a + i * 2) (a + i * 2 + 2) = Inr (to_le16 (ps ! i))"
proof -
  have "P @ enc_ptrs ps @ R =
      (P @ enc_ptrs (take i ps)) @ to_le16 (ps ! i) @ enc_ptrs (drop (Suc i) ps) @ R"
    using enc_ptrs_split [OF assms(2)] by simp
  then show ?thesis using assms by (simp only:) (rule slice_r_mid, auto)
qed

lemma put_ptr:
  assumes "length P = a" "i < length ps"
  shows "put_r (P @ enc_ptrs ps @ R) (a + i * 2) (to_le16 p) = Inr (P @ enc_ptrs (ps[i := p]) @ R)"
proof -
  have "P @ enc_ptrs ps @ R =
      (P @ enc_ptrs (take i ps)) @ to_le16 (ps ! i) @ enc_ptrs (drop (Suc i) ps) @ R"
    using enc_ptrs_split [OF assms(2)] by simp
  moreover have "P @ enc_ptrs (ps[i := p]) @ R =
      (P @ enc_ptrs (take i ps)) @ to_le16 p @ enc_ptrs (drop (Suc i) ps) @ R"
    using assms(2) by (simp add: upd_conv_take_nth_drop)
  ultimately show ?thesis using assms by (simp only:) (rule put_r_mid, auto)
qed

lemma copy_pair_ptr:
  assumes "length P = a" "i < length ps" "j < length ps"
  shows "copy_pair (a + i * 2) (a + j * 2) (P @ enc_ptrs ps @ R) =
         Inr (P @ enc_ptrs (ps[i := ps ! j]) @ R)"
  using slice_ptr [OF assms(1,3)] put_ptr [OF assms(1,2)] by (simp add: copy_pair_def)

definition shl :: "nat \<Rightarrow> nat \<Rightarrow> 'a list \<Rightarrow> 'a list" where
  "shl k m ps = fold (\<lambda>i qs. qs[i := qs ! Suc i]) [k..<m] ps"

definition shr :: "nat \<Rightarrow> nat \<Rightarrow> 'a list \<Rightarrow> 'a list" where
  "shr k m ps = fold (\<lambda>i qs. qs[Suc i := qs ! i]) (rev [k..<m]) ps"

lemma length_fold_update [simp]:
  "length (fold (\<lambda>i qs. qs[f i := qs ! g i]) is ps) = length ps"
  by (induction "is" arbitrary: ps) auto

lemma length_shl [simp]: "length (shl k m ps) = length ps"
  by (simp add: shl_def)

lemma length_shr [simp]: "length (shr k m ps) = length ps"
  by (simp add: shr_def)

lemma shl_nth:
  "m < length ps \<Longrightarrow> j < length ps \<Longrightarrow> shl k m ps ! j = (if k \<le> j \<and> j < m then ps ! Suc j else ps ! j)"
proof (induction m arbitrary: j)
  case (Suc m)
  have eq: "k \<le> m \<Longrightarrow> shl k (Suc m) ps = (shl k m ps)[m := shl k m ps ! Suc m]"
    by (simp add: shl_def)
  have "\<not> k \<le> m \<Longrightarrow> shl k (Suc m) ps = ps" by (simp add: shl_def)
  with eq Suc show ?case
    by (cases "k \<le> m") (auto simp: nth_list_update less_Suc_eq)
qed (simp add: shl_def)

lemma shl_eq:
  assumes "k < length ps"
  shows "shl k (length ps - 1) ps = take k ps @ drop (Suc k) ps @ [last ps]"
proof (rule nth_equalityI)
  show "length (shl k (length ps - 1) ps) = length (take k ps @ drop (Suc k) ps @ [last ps])"
    using assms by simp
next
  fix j assume "j < length (shl k (length ps - 1) ps)"
  then have j: "j < length ps" by simp
  consider "j < k" | "k \<le> j" "j < length ps - 1" | "j = length ps - 1" using j by linarith
  then show "shl k (length ps - 1) ps ! j = (take k ps @ drop (Suc k) ps @ [last ps]) ! j"
    using assms j
    by cases (auto simp: shl_nth nth_append last_conv_nth [of ps] simp flip: length_greater_0_conv)
qed

lemma shr_nth:
  "m < length ps \<Longrightarrow> j < length ps \<Longrightarrow> k \<le> m \<Longrightarrow>
   shr k m ps ! j = (if k < j \<and> j \<le> m then ps ! (j - 1) else ps ! j)"
proof (induction "m - k" arbitrary: k j)
  case 0
  then have "m = k" by simp
  then show ?case by (auto simp: shr_def)
next
  case (Suc d)
  then have km: "k < m" by simp
  have eq: "shr k m ps = (shr (Suc k) m ps)[Suc k := shr (Suc k) m ps ! k]"
    using km by (simp add: shr_def upt_conv_Cons)
  have IH: "\<And>j. j < length ps \<Longrightarrow>
      shr (Suc k) m ps ! j = (if Suc k < j \<and> j \<le> m then ps ! (j - 1) else ps ! j)"
    using Suc km by simp
  show ?case
    using Suc.prems km by (auto simp: eq nth_list_update IH)
qed

lemma shr_update_eq:
  assumes "k \<le> m" "m < length ps"
  shows "(shr k m ps)[k := p] = take k ps @ p # take (m - k) (drop k ps) @ drop (Suc m) ps"
proof (rule nth_equalityI)
  show "length ((shr k m ps)[k := p]) =
      length (take k ps @ p # take (m - k) (drop k ps) @ drop (Suc m) ps)"
    using assms by simp
next
  fix j assume "j < length ((shr k m ps)[k := p])"
  then have j: "j < length ps" by simp
  consider "j < k" | "j = k" | "k < j" "j \<le> m" | "m < j" using j by linarith
  then show "(shr k m ps)[k := p] ! j = (take k ps @ p # take (m - k) (drop k ps) @ drop (Suc m) ps) ! j"
  using assms j
  proof cases
    case 3
    then have "j - k = Suc (j - Suc k)" "k + (j - Suc k) = j - 1" "j - Suc k < m - k" by auto
    then show ?thesis using assms j 3 by (simp add: shr_nth nth_append)
  next
    case 4
    then have "j - k = Suc (m - k + (j - Suc m))" "Suc m + (j - Suc m) = j" using assms by auto
    then show ?thesis using assms j 4 by (auto simp: shr_nth nth_append)
  qed (auto simp: shr_nth nth_append)
qed

lemma fold_copy_left:
  assumes "length P = a" "m < length ps"
  shows "fold_r (\<lambda>i. copy_pair (a + i * 2) (a + (i + 1) * 2)) [k..<m] (P @ enc_ptrs ps @ R) =
         Inr (P @ enc_ptrs (shl k m ps) @ R)"
  using assms(2)
proof (induction m)
  case (Suc m)
  show ?case
  proof (cases "k \<le> m")
    case True
    have "copy_pair (a + m * 2) (a + (m + 1) * 2) (P @ enc_ptrs (shl k m ps) @ R) =
        Inr (P @ enc_ptrs ((shl k m ps)[m := shl k m ps ! (m + 1)]) @ R)"
      using Suc.prems by (intro copy_pair_ptr assms(1)) auto
    with Suc True show ?thesis by (simp add: fold_r_append shl_def del: mult_Suc)
  qed (simp add: shl_def)
qed (simp add: shl_def)

lemma fold_copy_right:
  assumes "length P = a" "m < length ps" "k \<le> m"
  shows "fold_r (\<lambda>i. copy_pair (a + (i + 1) * 2) (a + i * 2)) (rev [k..<m]) (P @ enc_ptrs ps @ R) =
         Inr (P @ enc_ptrs (shr k m ps) @ R)"
  using assms(3)
proof (induction "m - k" arbitrary: k)
  case (Suc d)
  then have km: "k < m" by simp
  have IH: "fold_r (\<lambda>i. copy_pair (a + (i + 1) * 2) (a + i * 2)) (rev [Suc k..<m]) (P @ enc_ptrs ps @ R) =
         Inr (P @ enc_ptrs (shr (Suc k) m ps) @ R)"
    using Suc km by simp
  have "copy_pair (a + (k + 1) * 2) (a + k * 2) (P @ enc_ptrs (shr (Suc k) m ps) @ R) =
      Inr (P @ enc_ptrs ((shr (Suc k) m ps)[k + 1 := shr (Suc k) m ps ! k]) @ R)"
    using km assms(2) by (intro copy_pair_ptr assms(1)) auto
  then show ?case using IH km by (simp add: fold_r_append shr_def upt_conv_Cons del: mult_Suc)
qed (simp add: shr_def)

section \<open>The layout of a page\<close>

definition page_repr ::
    "page_id \<Rightarrow> bytes \<Rightarrow> bytes \<Rightarrow> page_header \<Rightarrow> u16 list \<Rightarrow> bytes \<Rightarrow> bytes \<Rightarrow> bool" where
  "page_repr pid page P h ps G C \<longleftrightarrow>
     page = P @ header_to_bytes h @ enc_ptrs ps @ G @ C \<and>
     length P = page_header_offset pid \<and> wf_header h \<and> unat (ph_num_cells h) = length ps \<and>
     PAGE_RESERVED_TRAILER \<le> length C \<and> length page < 65536 \<and>
     unat (ph_cell_content_offset h) = length page - length C"

lemma page_repr_length:
  "page_repr pid page P h ps G C \<Longrightarrow>
   length page = page_header_offset pid + header_size h + 2 * length ps + length G + length C"
  by (simp add: page_repr_def)

lemma header_size_ge: "8 \<le> header_size h"
  by (simp add: header_size_def)

lemma read_page_header_repr:
  assumes "page_repr pid page P h ps G C"
  shows "read_page_header page pid = Inr h"
proof -
  have page: "page = P @ header_to_bytes h @ enc_ptrs ps @ G @ C"
    and P: "length P = page_header_offset pid" and wf: "wf_header h"
    using assms by (auto simp: page_repr_def)
  show ?thesis
    using header_size_ge [of h] header_roundtrip_rest [OF wf, of "enc_ptrs ps @ G @ C"]
    by (simp add: read_page_header_def page P [symmetric])
qed

lemma read_cell_pointer_repr:
  assumes "page_repr pid page P h ps G C" "i < length ps"
  shows "read_cell_pointer page pid i = Inr (ps ! i)"
proof -
  have page: "page = (P @ header_to_bytes h) @ enc_ptrs ps @ G @ C"
    and a: "length (P @ header_to_bytes h) = page_header_offset pid + header_size h"
    and n: "unat (ph_num_cells h) = length ps"
    using assms by (auto simp: page_repr_def)
  from slice_ptr [OF a assms(2), of "G @ C"] show ?thesis
    using assms by (simp add: read_cell_pointer_def read_page_header_repr n page [symmetric]
        Let_def del: append_assoc)
qed

lemma free_space_repr:
  assumes "page_repr pid page P h ps G C"
  shows "free_space h (length page) (page_header_offset pid) = length G"
proof -
  have len: "length page = page_header_offset pid + header_size h + 2 * length ps + length G + length C"
    and cco: "unat (ph_cell_content_offset h) = length page - length C"
    and n: "unat (ph_num_cells h) = length ps"
    using assms by (auto simp: page_repr_def)
  have "ph_cell_content_offset h \<noteq> 0" using len cco header_size_ge [of h] by auto
  then show ?thesis using len cco n by (simp add: free_space_def Let_def)
qed

section \<open>Cells of a page\<close>

text \<open>The pointer \<open>p\<close> into content \<open>C\<close> that starts at byte \<open>base\<close> leads to the cell \<open>x\<close>.\<close>

definition cell_at :: "(bytes \<Rightarrow> 'c result) \<Rightarrow> nat \<Rightarrow> bytes \<Rightarrow> u16 \<Rightarrow> 'c \<Rightarrow> bool" where
  "cell_at parse base C p x \<longleftrightarrow>
     base \<le> unat p \<and> unat p < base + length C \<and> parse (drop (unat p - base) C) = Inr x"

lemma cell_at_prepend:
  assumes "cell_at parse base C p x" "length bs \<le> base"
  shows "cell_at parse (base - length bs) (bs @ C) p x"
proof -
  have "unat p - (base - length bs) = length bs + (unat p - base)"
    using assms by (auto simp: cell_at_def)
  then have "drop (unat p - (base - length bs)) (bs @ C) = drop (unat p - base) C"
    by simp
  then show ?thesis using assms by (auto simp: cell_at_def)
qed

definition cells_repr ::
    "(bytes \<Rightarrow> 'c result) \<Rightarrow> page_id \<Rightarrow> bytes \<Rightarrow> bytes \<Rightarrow> page_header \<Rightarrow> u16 list \<Rightarrow>
     bytes \<Rightarrow> bytes \<Rightarrow> 'c list \<Rightarrow> bool" where
  "cells_repr parse pid page P h ps G C cs \<longleftrightarrow>
     page_repr pid page P h ps G C \<and>
     list_all2 (cell_at parse (length page - length C) C) ps cs"

lemma cell_slice_repr:
  assumes "cells_repr parse pid page P h ps G C cs" "i < length cs"
  shows "\<exists>bs. cell_slice page pid i = Inr bs \<and> parse bs = Inr (cs ! i)"
proof -
  have r: "page_repr pid page P h ps G C" and len: "length ps = length cs"
    and c: "cell_at parse (length page - length C) C (ps ! i) (cs ! i)"
    using assms by (auto simp: cells_repr_def list_all2_conv_all_nth)
  define A where "A = P @ header_to_bytes h @ enc_ptrs ps @ G"
  have page: "page = A @ C" using r by (simp add: page_repr_def A_def)
  then have l: "length page = length A + length C" by simp
  have "drop (unat (ps ! i)) page = drop (unat (ps ! i) - (length page - length C)) C"
    using c l by (simp add: page cell_at_def)
  moreover have "unat (ps ! i) < length page" using c l by (auto simp: cell_at_def)
  ultimately show ?thesis
    using c read_cell_pointer_repr [OF r] assms(2) len
    by (simp add: cell_slice_def cell_at_def)
qed

lemma read_leaf_cell_repr:
  assumes "cells_repr leaf_cell_from_bytes pid page P h ps G C cs" "i < length cs"
  shows "read_leaf_cell page pid i = Inr (cs ! i)"
  using cell_slice_repr [OF assms] by (auto simp: read_leaf_cell_def)

lemma read_interior_cell_repr:
  assumes "cells_repr interior_cell_from_bytes pid page P h ps G C cs" "i < length cs"
  shows "read_interior_cell page pid i = Inr (cs ! i)"
  using cell_slice_repr [OF assms] by (auto simp: read_interior_cell_def)

lemma leaf_cell_from_bytes_row_id:
  assumes "leaf_cell_from_bytes bs = Inr c"
  shows "\<exists>n p. decode_varint bs = Inr (p, n) \<and> n < length bs \<and>
           (\<exists>m. decode_varint (drop n bs) = Inr (lc_row_id c, m))"
proof -
  obtain p n r m where d: "decode_varint bs = Inr (p, n)" "n \<le> length bs"
    "decode_varint (drop n bs) = Inr (r, m)" "lc_row_id c = r"
    using assms
    by (auto simp: leaf_cell_from_bytes_def result_simps from_r_def Let_def
        split: prod.splits if_splits)
  have "m \<le> length (drop n bs)" "1 \<le> m" using decode_varint_used [OF d(3)] by auto
  with d show ?thesis by auto
qed

lemma read_leaf_cell_row_id_repr:
  assumes "cells_repr leaf_cell_from_bytes pid page P h ps G C cs" "i < length cs"
  shows "read_leaf_cell_row_id page pid i = Inr (lc_row_id (cs ! i))"
proof -
  obtain bs where b: "cell_slice page pid i = Inr bs" "leaf_cell_from_bytes bs = Inr (cs ! i)"
    using cell_slice_repr [OF assms] by blast
  from leaf_cell_from_bytes_row_id [OF b(2)] show ?thesis
    by (auto simp: read_leaf_cell_row_id_def b(1))
qed

section \<open>The binary search\<close>

definition sorted_cells :: "table_leaf_cell list \<Rightarrow> bool" where
  "sorted_cells cs \<longleftrightarrow> sorted_wrt (<) (map lc_row_id cs)"

definition key_pos :: "u64 \<Rightarrow> table_leaf_cell list \<Rightarrow> nat" where
  "key_pos key cs = length (takeWhile (\<lambda>c. lc_row_id c < key) cs)"

definition find_spec :: "u64 \<Rightarrow> table_leaf_cell list \<Rightarrow> search_result" where
  "find_spec key cs = (if key \<in> lc_row_id ` set cs then Found (key_pos key cs)
                       else NotFound (key_pos key cs))"

lemma sorted_cells_nth:
  "sorted_cells cs \<Longrightarrow> i < j \<Longrightarrow> j < length cs \<Longrightarrow> lc_row_id (cs ! i) < lc_row_id (cs ! j)"
  by (simp add: sorted_cells_def sorted_wrt_iff_nth_less)

lemma key_pos_eqI:
  assumes "k \<le> length cs" "\<And>i. i < k \<Longrightarrow> lc_row_id (cs ! i) < key"
    "k < length cs \<Longrightarrow> \<not> lc_row_id (cs ! k) < key"
  shows "key_pos key cs = k"
proof -
  have "takeWhile (\<lambda>c. lc_row_id c < key) cs = take k cs"
    using assms by (intro takeWhile_eq_take_P_nth) auto
  then show ?thesis using assms(1) by (simp add: key_pos_def)
qed

lemma find_spec_Found:
  assumes "sorted_cells cs" "k < length cs" "lc_row_id (cs ! k) = key"
  shows "find_spec key cs = Found k"
proof -
  have "key_pos key cs = k"
    using assms sorted_cells_nth [OF assms(1)] by (intro key_pos_eqI) auto
  moreover have "key \<in> lc_row_id ` set cs" using assms(2,3) nth_mem by blast
  ultimately show ?thesis by (simp add: find_spec_def)
qed

lemma find_spec_NotFound:
  assumes "k \<le> length cs" "\<And>i. i < k \<Longrightarrow> lc_row_id (cs ! i) < key"
    "\<And>i. k \<le> i \<Longrightarrow> i < length cs \<Longrightarrow> key < lc_row_id (cs ! i)"
  shows "find_spec key cs = NotFound k"
proof -
  have "key_pos key cs = k" using assms by (intro key_pos_eqI) (auto simp: less_not_sym)
  moreover have "key \<notin> lc_row_id ` set cs"
  proof
    assume "key \<in> lc_row_id ` set cs"
    then obtain i where i: "i < length cs" "lc_row_id (cs ! i) = key"
      by (auto simp: in_set_conv_nth)
    show False using assms(2) [of i] assms(3) [of i] i by (cases "i < k") auto
  qed
  ultimately show ?thesis by (simp add: find_spec_def)
qed

lemma leaf_bsearch_spec:
  assumes "cells_repr leaf_cell_from_bytes pid page P h ps G C cs" "sorted_cells cs"
    "low \<le> high" "high \<le> length cs"
    "\<And>i. i < low \<Longrightarrow> lc_row_id (cs ! i) < key"
    "\<And>i. high \<le> i \<Longrightarrow> i < length cs \<Longrightarrow> key < lc_row_id (cs ! i)"
  shows "leaf_bsearch page pid key low high = Inr (find_spec key cs)"
  using assms(3-6)
proof (induction "high - low" arbitrary: low high rule: less_induct)
  case less
  show ?case
  proof (cases "low < high")
    case True
    define mid where "mid = low + (high - low) div 2"
    have mid: "low \<le> mid" "mid < high" using True by (auto simp: mid_def)
    then have ml: "mid < length cs" using less.prems(2) by simp
    note read = read_leaf_cell_row_id_repr [OF assms(1) ml]
    note srt = sorted_cells_nth [OF assms(2)]
    consider "lc_row_id (cs ! mid) = key" | "lc_row_id (cs ! mid) < key" | "key < lc_row_id (cs ! mid)"
      by fastforce
    then show ?thesis
    proof cases
      case 1
      then show ?thesis
        using True read find_spec_Found [OF assms(2) ml 1]
        by (subst leaf_bsearch.simps) (simp add: mid_def [symmetric] Let_def)
    next
      case 2
      have below: "\<And>i. i < mid + 1 \<Longrightarrow> lc_row_id (cs ! i) < key"
        using 2 srt [OF _ ml] by (metis less_Suc_eq Suc_eq_plus1 order.strict_trans)
      have "leaf_bsearch page pid key (mid + 1) high = Inr (find_spec key cs)"
        using mid less.prems below by (intro less.hyps) auto
      then show ?thesis
        using True read 2
        by (subst leaf_bsearch.simps) (auto simp add: mid_def [symmetric] Let_def)
    next
      case 3
      have above: "\<And>i. mid \<le> i \<Longrightarrow> i < length cs \<Longrightarrow> key < lc_row_id (cs ! i)"
        using 3 srt [of mid] by (metis order_le_less order.strict_trans)
      have "leaf_bsearch page pid key low mid = Inr (find_spec key cs)"
        using mid less.prems above ml by (intro less.hyps) auto
      then show ?thesis
        using True read 3
        by (subst leaf_bsearch.simps) (auto simp add: mid_def [symmetric] Let_def)
    qed
  next
    case False
    with less.prems(1) have "high = low" by simp
    then have "find_spec key cs = NotFound low"
      using less.prems by (intro find_spec_NotFound) auto
    with False show ?thesis by (subst leaf_bsearch.simps) simp
  qed
qed

lemma find_leaf_cell_index_repr:
  assumes r: "cells_repr leaf_cell_from_bytes pid page P h ps G C cs" and s: "sorted_cells cs"
  shows "find_leaf_cell_index_by_key page pid key = Inr (find_spec key cs)"
proof -
  have pr: "page_repr pid page P h ps G C" and n: "unat (ph_num_cells h) = length cs"
    using r by (auto simp: cells_repr_def page_repr_def list_all2_lengthD)
  show ?thesis
  proof (cases "cs = []")
    case True
    then show ?thesis
      by (simp add: find_leaf_cell_index_by_key_def read_page_header_repr [OF pr] n
          find_spec_def key_pos_def)
  next
    case False
    define k where "k = length cs - 1"
    have k: "k < length cs" "length cs = Suc k" using False by (auto simp: k_def)
    note last = read_leaf_cell_row_id_repr [OF r k(1)]
    note srt = sorted_cells_nth [OF s]
    have f: "find_leaf_cell_index_by_key page pid key =
        (if lc_row_id (cs ! k) < key then Inr (NotFound (length cs))
         else if key = lc_row_id (cs ! k) then Inr (Found k)
         else leaf_bsearch page pid key 0 (length cs))"
      using k last by (simp add: find_leaf_cell_index_by_key_def read_page_header_repr [OF pr] n
          Let_def)
    have "lc_row_id (cs ! k) < key \<Longrightarrow> find_spec key cs = NotFound (length cs)"
      using k srt [of _ k] by (intro find_spec_NotFound)
        (auto simp: less_Suc_eq intro: order.strict_trans)
    moreover have "key = lc_row_id (cs ! k) \<Longrightarrow> find_spec key cs = Found k"
      using find_spec_Found [OF s k(1)] by simp
    moreover have "leaf_bsearch page pid key 0 (length cs) = Inr (find_spec key cs)"
      by (rule leaf_bsearch_spec [OF r s]) auto
    ultimately show ?thesis by (simp add: f)
  qed
qed

end
