(* ===== verification/Page_Insert.thy ===== *)
theory Page_Insert
  imports Page_Layout
begin

text \<open>
  The slotted-page operations of \<^verbatim>\<open>src/src/btree/engine.rs\<close> that change a page, against the
  list of cells the page stands for: initialisation gives no cells, insertion gives
  \<open>upsert_cell\<close>, deletion removes the key, defragmentation keeps the cells and leaves the
  gap zero. \<open>wf_leaf\<close> is the invariant, decidable on the bytes alone.
\<close>

section \<open>Writing a cell and its pointer\<close>

lemma write_page_header_concat:
  assumes "length P = page_header_offset pid" "header_size h' = header_size h"
  shows "write_page_header (P @ header_to_bytes h @ R) pid h' = Inr (P @ header_to_bytes h' @ R)"
  using put_r_mid [OF assms(1), of "header_to_bytes h" "header_to_bytes h'" R] assms
  by (simp add: write_page_header_def Let_def)

lemma put_cell_concat:
  assumes "length bs \<le> length G" "co = length (A @ G) - length bs"
  shows "put_r (A @ G @ C) co bs = Inr (A @ take (length G - length bs) G @ bs @ C)"
proof -
  define n where "n = length G - length bs"
  have "put_r ((A @ take n G) @ drop n G @ C) co bs = Inr ((A @ take n G) @ bs @ C)"
    using assms by (intro put_r_mid) (auto simp: n_def)
  moreover have "(A @ take n G) @ drop n G @ C = A @ G @ C"
    by (metis append.assoc append_take_drop_id)
  ultimately show ?thesis unfolding n_def by (metis append_assoc)
qed

lemma place_cell:
  assumes "length P = page_header_offset pid" "header_size h' = header_size h"
    and m: "length ps = Suc m" "k \<le> m"
    and G: "length bs \<le> length G"
    and co: "co = length (P @ header_to_bytes h @ enc_ptrs ps @ G) - length bs"
    and a: "a = page_header_offset pid + header_size h"
  shows "bind_r (put_r (P @ header_to_bytes h @ enc_ptrs ps @ G @ C) co bs) (\<lambda>page2.
         bind_r (fold_r (\<lambda>i. copy_pair (a + (i + 1) * 2) (a + i * 2)) (rev [k..<m]) page2) (\<lambda>page3.
         bind_r (put_r page3 (a + k * 2) (to_le16 p)) (\<lambda>page4.
         bind_r (write_page_header page4 pid h') K))) =
         K (P @ header_to_bytes h' @ enc_ptrs (take k ps @ p # take (m - k) (drop k ps)) @
            take (length G - length bs) G @ bs @ C)"
proof -
  define R where "R = take (length G - length bs) G @ bs @ C"
  have 1: "put_r (P @ header_to_bytes h @ enc_ptrs ps @ G @ C) co bs =
      Inr ((P @ header_to_bytes h) @ enc_ptrs ps @ R)"
    using put_cell_concat [OF G, of co "P @ header_to_bytes h @ enc_ptrs ps" C] co
    by (simp add: R_def)
  have len: "length (P @ header_to_bytes h) = a" using assms by simp
  have 2: "fold_r (\<lambda>i. copy_pair (a + (i + 1) * 2) (a + i * 2)) (rev [k..<m])
        ((P @ header_to_bytes h) @ enc_ptrs ps @ R) =
      Inr ((P @ header_to_bytes h) @ enc_ptrs (shr k m ps) @ R)"
    using m by (intro fold_copy_right len) auto
  have 3: "put_r ((P @ header_to_bytes h) @ enc_ptrs (shr k m ps) @ R) (a + k * 2) (to_le16 p) =
      Inr ((P @ header_to_bytes h) @ enc_ptrs ((shr k m ps)[k := p]) @ R)"
    using m by (intro put_ptr len) auto
  have 4: "(shr k m ps)[k := p] = take k ps @ p # take (m - k) (drop k ps)"
    using m by (simp add: shr_update_eq)
  show ?thesis
    using write_page_header_concat [OF assms(1,2), of "enc_ptrs (take k ps @ p # take (m - k) (drop k ps)) @ R"]
    unfolding 1 bind_r_Inr 2 3 4 by (simp add: R_def)
qed

lemma enc_ptrs_extra:
  assumes "2 \<le> length (G :: bytes)"
  shows "enc_ptrs ps @ G = enc_ptrs (ps @ [from_le16 (take 2 G)]) @ drop 2 G"
  using assms by (simp add: to_from_le)

lemma cells_repr_lengths:
  assumes "cells_repr parse pid page P h ps G C cs"
  shows "length ps = length cs" "unat (ph_num_cells h) = length cs"
    "length page < 65536" "header_size h \<ge> 8" "PAGE_RESERVED_TRAILER \<le> length C"
    "length page = page_header_offset pid + header_size h + 2 * length cs + length G + length C"
  using assms by (auto simp: cells_repr_def page_repr_def list_all2_lengthD header_size_def)

lemma cco_repr:
  assumes "page_repr pid page P h ps G C"
  shows "ph_cell_content_offset h = word_of_nat (length page - length C)" (is ?A)
    "ph_cell_content_offset h \<noteq> 0" (is ?B)
proof -
  have u: "unat (ph_cell_content_offset h) = length page - length C"
    using assms by (simp add: page_repr_def)
  then show ?A by (simp flip: u)
  have "length C < length page" using page_repr_length [OF assms] header_size_ge [of h] by linarith
  then show ?B using u by auto
qed

lemma unat_word_of_nat16_less: "n < 65536 \<Longrightarrow> unat (word_of_nat n :: u16) = n"
  by simp

lemma checked_sub16_of_nat:
  "a < 65536 \<Longrightarrow> b \<le> a \<Longrightarrow> checked_sub16 (word_of_nat a) (word_of_nat b) = Some (word_of_nat (a - b))"
  by (simp add: checked_sub16_def word_le_nat_alt of_nat_diff)

lemma placed_repr:
  assumes r: "cells_repr parse pid page P h ps G C cs"
    and qs: "list_all2 (cell_at parse (length page - length C) C) qs ds"
    and parse: "\<And>rest. parse (bs @ rest) = Inr c" and bs: "bs \<noteq> []"
    and h': "h' = h\<lparr>ph_num_cells := word_of_nat (Suc (length qs)),
                 ph_cell_content_offset := word_of_nat co\<rparr>"
    and co: "co = length page - length C - length bs"
    and page': "page' = P @ header_to_bytes h' @
                 enc_ptrs (take k qs @ word_of_nat co # drop k qs) @ G' @ bs @ C"
    and len: "length page' = length page"
  shows "cells_repr parse pid page' P h' (take k qs @ word_of_nat co # drop k qs) G' (bs @ C)
           (take k ds @ c # drop k ds)"
proof -
  let ?base = "length page - length C"
  have r': "page_repr pid page P h ps G C" using r by (simp add: cells_repr_def)
  have l: "length page < 65536" "length P = page_header_offset pid" "wf_header h"
    "PAGE_RESERVED_TRAILER \<le> length C"
    using r' by (auto simp: page_repr_def)
  have bl: "length bs \<le> ?base" "Suc (length qs) < 65536"
    using len l(1) by (auto simp: page')
  have hs: "header_size h' = header_size h" "wf_header h'"
    using l(3) by (auto simp: h' header_size_def wf_header_def)
  have co16: "co < 65536" "unat (word_of_nat co :: u16) = co" using l(1) co by auto
  have cco: "unat (ph_cell_content_offset h') = co" using co16(2) by (simp add: h')
  have num: "unat (ph_num_cells h') = Suc (length qs)"
    using bl(2) unat_of_nat_small16 [of "Suc (length qs)"] by (simp add: h' del: of_nat_Suc)
  have pr: "page_repr pid page' P h' (take k qs @ word_of_nat co # drop k qs) G' (bs @ C)"
    using l hs bl cco num co len
    by (simp add: page_repr_def page' [symmetric]) (auto simp: page' min_def)
  have base: "length page' - length (bs @ C) = ?base - length bs" by (simp add: len)
  have old: "list_all2 (cell_at parse (?base - length bs) (bs @ C)) qs ds"
    using qs by (rule list_all2_mono) (rule cell_at_prepend [OF _ bl(1)])
  have new: "cell_at parse (?base - length bs) (bs @ C) (word_of_nat co) c"
    using co co16(2) bs parse by (simp add: cell_at_def)
  have "list_all2 (cell_at parse (?base - length bs) (bs @ C))
      (take k qs @ word_of_nat co # drop k qs) (take k ds @ c # drop k ds)"
    using old new by (intro list_all2_appendI) auto
  with pr base show ?thesis by (simp add: cells_repr_def)
qed

definition upsert_cell :: "table_leaf_cell \<Rightarrow> table_leaf_cell list \<Rightarrow> table_leaf_cell list" where
  "upsert_cell c cs = takeWhile (\<lambda>x. lc_row_id x < lc_row_id c) cs @ c #
                      dropWhile (\<lambda>x. lc_row_id x \<le> lc_row_id c) cs"

lemma dropWhile_eq_drop_of_take:
  assumes "takeWhile Q xs = take n xs" "n \<le> length xs"
  shows "dropWhile Q xs = drop n xs"
proof -
  have "length (takeWhile Q xs) = n" using assms by simp
  then show ?thesis by (simp add: dropWhile_eq_drop)
qed

lemma find_spec_cases:
  assumes "sorted_cells cs"
  obtains (found) k where "find_spec key cs = Found k" "k < length cs" "lc_row_id (cs ! k) = key"
      "takeWhile (\<lambda>x. lc_row_id x < key) cs = take k cs"
      "dropWhile (\<lambda>x. lc_row_id x \<le> key) cs = drop (Suc k) cs"
  | (missing) k where "find_spec key cs = NotFound k" "k \<le> length cs" "key \<notin> lc_row_id ` set cs"
      "takeWhile (\<lambda>x. lc_row_id x < key) cs = take k cs"
      "dropWhile (\<lambda>x. lc_row_id x \<le> key) cs = drop k cs"
proof -
  define k where "k = key_pos key cs"
  have tw: "takeWhile (\<lambda>x. lc_row_id x < key) cs = take k cs"
    unfolding k_def key_pos_def by (rule takeWhile_eq_take)
  have kl: "k \<le> length cs" by (simp add: k_def key_pos_def length_takeWhile_le)
  have below: "lc_row_id (cs ! i) < key" if "i < k" for i
  proof -
    have "cs ! i \<in> set (takeWhile (\<lambda>x. lc_row_id x < key) cs)"
      using that kl by (auto simp: tw in_set_conv_nth intro!: exI [of _ i])
    then show ?thesis by (rule set_takeWhileD [THEN conjunct2])
  qed
  have at: "\<not> lc_row_id (cs ! k) < key" if "k < length cs"
    using that nth_length_takeWhile [of "\<lambda>x. lc_row_id x < key" cs] by (simp add: k_def key_pos_def)
  note srt = sorted_cells_nth [OF assms]
  show thesis
  proof (cases "k < length cs \<and> lc_row_id (cs ! k) = key")
    case True
    then have above: "key < lc_row_id (cs ! i)" if "k < i" "i < length cs" for i
      using srt [of k i] that by auto
    have le: "lc_row_id (cs ! i) \<le> key" if "i < Suc k" for i
      using that True below [of i] by (cases "i = k") (auto simp: less_Suc_eq intro: order.strict_implies_order)
    have gt: "\<not> lc_row_id (cs ! Suc k) \<le> key" if "Suc k < length cs"
      using above [of "Suc k"] that by (simp add: not_le)
    have "takeWhile (\<lambda>x. lc_row_id x \<le> key) cs = take (Suc k) cs"
      using le gt by (intro takeWhile_eq_take_P_nth) blast+
    then have "dropWhile (\<lambda>x. lc_row_id x \<le> key) cs = drop (Suc k) cs"
      using True by (intro dropWhile_eq_drop_of_take) auto
    moreover have "find_spec key cs = Found k" using True find_spec_Found [OF assms] by blast
    ultimately show thesis using found True tw by blast
  next
    case False
    have above: "key < lc_row_id (cs ! i)" if "k \<le> i" "i < length cs" for i
    proof -
      have "key < lc_row_id (cs ! k)" using at False that by fastforce
      then show ?thesis using srt [of k i] that by (cases "k = i") (auto intro: order.strict_trans)
    qed
    have "takeWhile (\<lambda>x. lc_row_id x \<le> key) cs = take k cs"
      using kl below above by (intro takeWhile_eq_take_P_nth) (auto simp: order.strict_implies_order linorder_not_le)
    then have "dropWhile (\<lambda>x. lc_row_id x \<le> key) cs = drop k cs"
      using kl by (rule dropWhile_eq_drop_of_take)
    moreover have nf: "find_spec key cs = NotFound k"
      using find_spec_NotFound [OF kl] below above by blast
    moreover have "key \<notin> lc_row_id ` set cs" using nf by (auto simp: find_spec_def split: if_splits)
    ultimately show thesis using missing kl tw by blast
  qed
qed

section \<open>Insertion into a leaf page\<close>

lemma leaf_cell_size_eq: "leaf_cell_size (lc_row_id c) (lc_payload c) = length (leaf_cell_to_bytes c)"
  by (simp add: leaf_cell_size_def length_leaf_cell_to_bytes)

lemma leaf_cell_to_bytes_not_Nil [simp]: "leaf_cell_to_bytes c \<noteq> []"
  using length_leaf_cell_to_bytes [of c] by auto

lemma insert_leaf_full:
  assumes "cells_repr leaf_cell_from_bytes pid page P h ps G C cs"
    "length G < length (leaf_cell_to_bytes c) + 2"
  shows "insert_leaf_cell_into_page page pid c = Inr (page, False)"
proof -
  have pr: "page_repr pid page P h ps G C" using assms(1) by (simp add: cells_repr_def)
  show ?thesis using assms(2)
    by (simp add: insert_leaf_cell_into_page_def insert_leaf_cell_raw_def
        read_page_header_repr [OF pr] free_space_repr [OF pr] leaf_cell_size_eq Let_def)
qed

lemma insert_leaf_found:
  assumes r: "cells_repr leaf_cell_from_bytes pid page P h ps G C cs"
    and s: "sorted_cells cs" and v: "valid_leaf_cell c"
    and fits: "length (leaf_cell_to_bytes c) + 2 \<le> length G"
    and k: "find_spec (lc_row_id c) cs = Found k" "k < length cs"
  shows "\<exists>page' h' ps' G'. insert_leaf_cell_into_page page pid c = Inr (page', True) \<and>
    cells_repr leaf_cell_from_bytes pid page' P h' ps' G' (leaf_cell_to_bytes c @ C)
      (take k cs @ c # drop (Suc k) cs) \<and> length page' = length page \<and>
    length G' = length G - length (leaf_cell_to_bytes c) \<and> ph_page_type h' = ph_page_type h"
proof -
  define bs where "bs = leaf_cell_to_bytes c"
  define m where "m = length cs - 1"
  define co where "co = length page - length C - length bs"
  define qs where "qs = take k ps @ drop (Suc k) ps"
  define ps1 where "ps1 = shl k m ps"
  define h' where "h' = h\<lparr>ph_num_cells := ph_num_cells h - 1 + 1,
                         ph_cell_content_offset := word_of_nat co\<rparr>"
  define ps' where "ps' = take k qs @ word_of_nat co # drop k qs"
  define G' where "G' = take (length G - length bs) G"
  define page' where "page' = P @ header_to_bytes h' @ enc_ptrs ps' @ G' @ bs @ C"
  note L = cells_repr_lengths [OF r]
  have pr: "page_repr pid page P h ps G C" using r by (simp add: cells_repr_def)
  have page: "page = P @ header_to_bytes h @ enc_ptrs ps @ G @ C" and P: "length P = page_header_offset pid"
    using pr by (auto simp: page_repr_def)
  have fb: "length bs \<le> length G" using fits by (simp add: bs_def)
  have km: "k \<le> m" "length ps = Suc m" using k L(1) by (auto simp: m_def)
  have ps1: "ps1 = qs @ [last ps]" "length ps1 = Suc m" "length qs = m"
    using shl_eq [of k ps] km k L(1) by (auto simp: ps1_def qs_def m_def)
  have hs: "header_size h' = header_size h" by (simp add: h'_def header_size_def)
  have nz: "1 \<le> ph_num_cells h" "unat (ph_num_cells h - 1) = m" "ph_num_cells h - 1 + 1 = ph_num_cells h"
    using L(2) k by (auto simp: word_le_nat_alt unat_sub m_def)
  have fold1: "fold_r (\<lambda>i. copy_pair (page_header_offset pid + header_size h + i * 2)
        (page_header_offset pid + header_size h + (i + 1) * 2)) [k..<m] page =
      Inr (P @ header_to_bytes h @ enc_ptrs ps1 @ G @ C)"
    using fold_copy_left [of "P @ header_to_bytes h" _ m ps k "G @ C"] km P
    by (simp add: page ps1_def)
  have sub: "checked_sub16 (ph_cell_content_offset h) (word_of_nat (length bs)) = Some (word_of_nat co)"
    using cco_repr(1) [OF pr] checked_sub16_of_nat [of "length page - length C" "length bs"] L(3,6) fb
    by (simp add: co_def)
  have uco: "unat (word_of_nat co :: u16) = co" using L(3) by (simp add: co_def)
  have co2: "co = length (P @ header_to_bytes h @ enc_ptrs ps1 @ G) - length bs"
    using L(6) km ps1 P by (simp add: co_def page) 
  have ps': "take k ps1 @ word_of_nat co # take (m - k) (drop k ps1) = ps'"
    using km ps1 by (simp add: ps'_def)
  have place: "bind_r (put_r (P @ header_to_bytes h @ enc_ptrs ps1 @ G @ C) co bs) (\<lambda>page2.
         bind_r (fold_r (\<lambda>i. copy_pair (page_header_offset pid + header_size h + (i + 1) * 2)
           (page_header_offset pid + header_size h + i * 2)) (rev [k..<m]) page2) (\<lambda>page3.
         bind_r (put_r page3 (page_header_offset pid + header_size h + k * 2) (to_le16 (word_of_nat co))) (\<lambda>page4.
         bind_r (write_page_header page4 pid h') (\<lambda>page5. Inr (page5, True))))) = Inr (page', True)"
    unfolding page'_def G'_def ps' [symmetric]
    by (rule place_cell [OF P hs ps1(2) km(1) fb co2 refl])
  have ins: "insert_leaf_cell_into_page page pid c = Inr (page', True)"
  proof -
    have nfull: "(length G < length bs + 2) = False" using fits by (simp add: bs_def)
    have raw: "leaf_cell_bytes (lc_row_id c) (lc_payload c) (lc_overflow_page c) = bs"
      by (simp add: bs_def leaf_cell_to_bytes_def)
    show ?thesis
      by (simp only: insert_leaf_cell_into_page_def insert_leaf_cell_raw_def
          read_page_header_repr [OF pr] free_space_repr [OF pr] leaf_cell_size_eq bs_def [symmetric]
          find_leaf_cell_index_repr [OF r s] k(1) L(2) m_def [symmetric] fold1 nz(2) cco_repr(2) [OF pr]
          sub ok_or_simps uco raw h'_def [symmetric] Let_def nfull if_False bind_r_Inr
          search_result.case prod.case place)
  qed
  have len: "length page' = length page"
    using L(6) co2 fb ps1 km hs P by (simp add: page'_def ps'_def G'_def page)
  have qd: "list_all2 (cell_at leaf_cell_from_bytes (length page - length C) C) qs
      (take k cs @ drop (Suc k) cs)"
    using r by (auto simp: qs_def cells_repr_def intro!: list_all2_appendI list_all2_takeI list_all2_dropI)
  have "word_of_nat (Suc (length qs)) = (word_of_nat (unat (ph_num_cells h)) :: u16)"
    using k(2) ps1(3) unfolding L(2) m_def by simp
  then have nn: "ph_num_cells h - 1 + 1 = word_of_nat (Suc (length qs))"
    unfolding of_nat_unat ucast_id by simp
  have h'': "h' = h\<lparr>ph_num_cells := word_of_nat (Suc (length qs)), ph_cell_content_offset := word_of_nat co\<rparr>"
    unfolding h'_def nn ..
  have rt: "leaf_cell_from_bytes (bs @ rest) = Inr c" for rest
    unfolding bs_def by (rule leaf_cell_roundtrip_rest [OF v])
  have ne: "bs \<noteq> []" by (simp add: bs_def)
  have "cells_repr leaf_cell_from_bytes pid page' P h' ps' G' (bs @ C)
      (take k (take k cs @ drop (Suc k) cs) @ c # drop k (take k cs @ drop (Suc k) cs))"
    unfolding ps'_def
    by (rule placed_repr [OF r qd rt ne h'' co_def page'_def [unfolded ps'_def] len])
  then have "cells_repr leaf_cell_from_bytes pid page' P h' ps' G' (bs @ C)
      (take k cs @ c # drop (Suc k) cs)"
    using k(2) by simp
  moreover have "length G' = length G - length bs" "ph_page_type h' = ph_page_type h"
    using fb by (simp_all add: G'_def h'_def)
  ultimately show ?thesis using ins len unfolding bs_def by blast
qed

lemma insert_leaf_missing:
  assumes r: "cells_repr leaf_cell_from_bytes pid page P h ps G C cs"
    and s: "sorted_cells cs" and v: "valid_leaf_cell c"
    and fits: "length (leaf_cell_to_bytes c) + 2 \<le> length G"
    and k: "find_spec (lc_row_id c) cs = NotFound k" "k \<le> length cs"
  shows "\<exists>page' h' ps' G'. insert_leaf_cell_into_page page pid c = Inr (page', True) \<and>
    cells_repr leaf_cell_from_bytes pid page' P h' ps' G' (leaf_cell_to_bytes c @ C)
      (take k cs @ c # drop k cs) \<and> length page' = length page \<and>
    length G' = length G - length (leaf_cell_to_bytes c) - 2 \<and> ph_page_type h' = ph_page_type h"
proof -
  define bs where "bs = leaf_cell_to_bytes c"
  define m where "m = length cs"
  define co where "co = length page - length C - length bs"
  define ps1 where "ps1 = ps @ [from_le16 (take 2 G)]"
  define G1 where "G1 = drop 2 G"
  define h' where "h' = h\<lparr>ph_num_cells := ph_num_cells h + 1,
                         ph_cell_content_offset := word_of_nat co\<rparr>"
  define ps' where "ps' = take k ps @ word_of_nat co # drop k ps"
  define G' where "G' = take (length G1 - length bs) G1"
  define page' where "page' = P @ header_to_bytes h' @ enc_ptrs ps' @ G' @ bs @ C"
  note L = cells_repr_lengths [OF r]
  have pr: "page_repr pid page P h ps G C" using r by (simp add: cells_repr_def)
  have page0: "page = P @ header_to_bytes h @ enc_ptrs ps @ G @ C" and P: "length P = page_header_offset pid"
    using pr by (auto simp: page_repr_def)
  have page: "page = P @ header_to_bytes h @ enc_ptrs ps1 @ G1 @ C"
    using enc_ptrs_extra [of G ps] fits by (simp add: page0 ps1_def G1_def)
  have fb: "length bs \<le> length G1" using fits by (simp add: bs_def G1_def)
  have km: "k \<le> m" "length ps = m" "length ps1 = Suc m" using k L(1) by (auto simp: m_def ps1_def)
  have hs: "header_size h' = header_size h" by (simp add: h'_def header_size_def)
  have sub: "checked_sub16 (ph_cell_content_offset h) (word_of_nat (length bs)) = Some (word_of_nat co)"
    using cco_repr(1) [OF pr] checked_sub16_of_nat [of "length page - length C" "length bs"] L(3,6) fits
    by (simp add: co_def bs_def)
  have uco: "unat (word_of_nat co :: u16) = co" using L(3) by (simp add: co_def)
  have co2: "co = length (P @ header_to_bytes h @ enc_ptrs ps1 @ G1) - length bs"
    using page by (simp add: co_def)
  have ps': "take k ps1 @ word_of_nat co # take (m - k) (drop k ps1) = ps'"
    using km by (simp add: ps'_def ps1_def)
  have place: "bind_r (put_r page co bs) (\<lambda>page2.
         bind_r (fold_r (\<lambda>i. copy_pair (page_header_offset pid + header_size h + (i + 1) * 2)
           (page_header_offset pid + header_size h + i * 2)) (rev [k..<m]) page2) (\<lambda>page3.
         bind_r (put_r page3 (page_header_offset pid + header_size h + k * 2) (to_le16 (word_of_nat co))) (\<lambda>page4.
         bind_r (write_page_header page4 pid h') (\<lambda>page5. Inr (page5, True))))) = Inr (page', True)"
    unfolding page'_def G'_def ps' [symmetric] page
    by (rule place_cell [OF P hs km(3,1) fb co2 refl])
  have nfull: "(length G < length bs + 2) = False" using fits by (simp add: bs_def)
  have raw: "leaf_cell_bytes (lc_row_id c) (lc_payload c) (lc_overflow_page c) = bs"
    by (simp add: bs_def leaf_cell_to_bytes_def)
  have ins: "insert_leaf_cell_into_page page pid c = Inr (page', True)"
    by (simp only: insert_leaf_cell_into_page_def insert_leaf_cell_raw_def
        read_page_header_repr [OF pr] free_space_repr [OF pr] leaf_cell_size_eq bs_def [symmetric]
        find_leaf_cell_index_repr [OF r s] k(1) L(2) m_def [symmetric] cco_repr(2) [OF pr]
        sub ok_or_simps uco raw h'_def [symmetric] Let_def nfull if_False bind_r_Inr
        search_result.case prod.case place)
  have len: "length page' = length page"
    using fb hs km by (simp add: page'_def ps'_def G'_def page P)
  have qd: "list_all2 (cell_at leaf_cell_from_bytes (length page - length C) C) ps cs"
    using r by (simp add: cells_repr_def)
  have "(word_of_nat (Suc (length ps)) :: u16) = word_of_nat (unat (ph_num_cells h)) + 1"
    unfolding L(1,2) by simp
  then have nn: "ph_num_cells h + 1 = word_of_nat (Suc (length ps))"
    unfolding of_nat_unat ucast_id by simp
  have h'': "h' = h\<lparr>ph_num_cells := word_of_nat (Suc (length ps)), ph_cell_content_offset := word_of_nat co\<rparr>"
    unfolding h'_def nn ..
  have rt: "leaf_cell_from_bytes (bs @ rest) = Inr c" for rest
    unfolding bs_def by (rule leaf_cell_roundtrip_rest [OF v])
  have ne: "bs \<noteq> []" by (simp add: bs_def)
  have "cells_repr leaf_cell_from_bytes pid page' P h' ps' G' (bs @ C) (take k cs @ c # drop k cs)"
    unfolding ps'_def
    by (rule placed_repr [OF r qd rt ne h'' co_def page'_def [unfolded ps'_def] len])
  moreover have "length G' = length G - length bs - 2" "ph_page_type h' = ph_page_type h"
    using fb by (simp_all add: G'_def G1_def h'_def)
  ultimately show ?thesis using ins len unfolding bs_def by blast
qed

section \<open>The invariant of a leaf page\<close>

text \<open>
  Decidable on the bytes: the header parses as a leaf header, the pointer array ends before
  the content area and the content area before the trailer; every pointer leads into the
  content area to a cell that parses; keys ascend strictly; and the cells' encodings fit in
  the content area together, so no two cells need to share bytes.
\<close>

definition leaf_view :: "page_id \<Rightarrow> bytes \<Rightarrow> table_leaf_cell list result" where
  "leaf_view pid page =
     bind_r (read_page_header page pid) (\<lambda>h.
       map_r (read_leaf_cell page pid) [0..<unat (ph_num_cells h)])"

definition cells_size :: "table_leaf_cell list \<Rightarrow> nat" where
  "cells_size cs = sum_list (map (\<lambda>c. length (leaf_cell_to_bytes c)) cs)"

definition wf_leaf :: "page_id \<Rightarrow> bytes \<Rightarrow> bool" where
  "wf_leaf pid page \<longleftrightarrow> length page < 65536 \<and>
     (case read_page_header page pid of
        Inl _ \<Rightarrow> False
      | Inr h \<Rightarrow>
          let cco = unat (ph_cell_content_offset h);
              ptr_end = page_header_offset pid + header_size h + 2 * unat (ph_num_cells h) in
          ph_page_type h = TableLeaf \<and> ptr_end \<le> cco \<and> cco + PAGE_RESERVED_TRAILER \<le> length page \<and>
          (\<forall>i < unat (ph_num_cells h).
             case read_cell_pointer page pid i of
               Inl _ \<Rightarrow> False
             | Inr p \<Rightarrow> cco \<le> unat p) \<and>
          (case leaf_view pid page of
             Inl _ \<Rightarrow> False
           | Inr cs \<Rightarrow> sorted_cells cs \<and> list_all valid_leaf_cell cs \<and>
                       cco + cells_size cs + PAGE_RESERVED_TRAILER \<le> length page))"

text \<open>The same invariant on the decomposed page.\<close>

definition leaf_repr ::
    "page_id \<Rightarrow> bytes \<Rightarrow> bytes \<Rightarrow> page_header \<Rightarrow> u16 list \<Rightarrow> bytes \<Rightarrow> bytes \<Rightarrow>
     table_leaf_cell list \<Rightarrow> bool" where
  "leaf_repr pid page P h ps G C cs \<longleftrightarrow>
     cells_repr leaf_cell_from_bytes pid page P h ps G C cs \<and> ph_page_type h = TableLeaf \<and>
     sorted_cells cs \<and> list_all valid_leaf_cell cs \<and>
     cells_size cs + PAGE_RESERVED_TRAILER \<le> length C"

lemma leaf_repr_cells: "leaf_repr pid page P h ps G C cs \<Longrightarrow>
    cells_repr leaf_cell_from_bytes pid page P h ps G C cs"
  by (simp add: leaf_repr_def)

lemma leaf_view_cells:
  assumes "cells_repr leaf_cell_from_bytes pid page P h ps G C cs"
  shows "leaf_view pid page = Inr cs"
proof -
  have pr: "page_repr pid page P h ps G C" using assms by (simp add: cells_repr_def)
  have "map_r (read_leaf_cell page pid) [0..<length cs] = Inr (map ((!) cs) [0..<length cs])"
    using read_leaf_cell_repr [OF assms] by (intro map_r_all_ok) auto
  then show ?thesis
    using cells_repr_lengths(2) [OF assms]
    by (simp add: leaf_view_def read_page_header_repr [OF pr] map_nth)
qed

lemma leaf_repr_wf:
  assumes "leaf_repr pid page P h ps G C cs"
  shows "wf_leaf pid page" "leaf_view pid page = Inr cs"
proof -
  note r = leaf_repr_cells [OF assms]
  have pr: "page_repr pid page P h ps G C" using r by (simp add: cells_repr_def)
  note L = cells_repr_lengths [OF r] and rd = read_page_header_repr [OF pr]
  show v: "leaf_view pid page = Inr cs" by (rule leaf_view_cells [OF r])
  have cco: "unat (ph_cell_content_offset h) = length page - length C"
    using pr by (simp add: page_repr_def)
  have ptrs: "case read_cell_pointer page pid i of Inl _ \<Rightarrow> False | Inr p \<Rightarrow> length page - length C \<le> unat p"
    if "i < length cs" for i
    using that read_cell_pointer_repr [OF pr, of i] r L(1)
    by (auto simp: cells_repr_def list_all2_conv_all_nth cell_at_def)
  show "wf_leaf pid page"
    unfolding wf_leaf_def rd v Let_def sum.case cco L(2)
    using L(3,5,6) assms by (intro conjI allI impI ptrs) (auto simp: leaf_repr_def)
qed

lemma enc_ptrs_read:
  "2 * n \<le> length bs \<Longrightarrow> enc_ptrs (map (\<lambda>i. u16_at bs (2 * i)) [0..<n]) = take (2 * n) bs"
proof (induction n)
  case (Suc n)
  have "take (2 * Suc n) bs = take (2 * n) bs @ take 2 (drop (2 * n) bs)"
    using take_add [of "2 * n" 2 bs] by simp
  then show ?case using Suc by (simp add: u16_at_def to_from_le)
qed simp

lemma page_repr_exists:
  assumes h: "read_page_header page pid = Inr h" and "length page < 65536"
    and "page_header_offset pid + header_size h + 2 * unat (ph_num_cells h) \<le> unat (ph_cell_content_offset h)"
    and "unat (ph_cell_content_offset h) + PAGE_RESERVED_TRAILER \<le> length page"
  shows "\<exists>ps G. page_repr pid page (take (page_header_offset pid) page) h ps G
            (drop (unat (ph_cell_content_offset h)) page)"
proof -
  define off where "off = page_header_offset pid"
  define hs where "hs = header_size h"
  define n where "n = unat (ph_num_cells h)"
  define cco where "cco = unat (ph_cell_content_offset h)"
  define R where "R = drop (off + hs) page"
  define ps where "ps = map (\<lambda>i. u16_at R (2 * i)) [0..<n]"
  define G where "G = take (cco - (off + hs + 2 * n)) (drop (2 * n) R)"
  have le: "off + hs + 2 * n \<le> cco" "cco + PAGE_RESERVED_TRAILER \<le> length page"
    using assms by (auto simp: off_def hs_def n_def cco_def)
  have hb: "header_from_bytes (drop off page) = Inr h"
    using h by (auto simp: read_page_header_def off_def Let_def split: if_splits)
  have eps: "enc_ptrs ps = take (2 * n) R"
    using le by (simp add: ps_def enc_ptrs_read R_def)
  have "page = take off page @ drop off page" by simp
  also have "drop off page = header_to_bytes h @ R"
    using header_from_bytes_prefix [OF hb] append_take_drop_id [of hs "drop off page"]
    by (simp add: R_def hs_def add.commute)
  also have "R = enc_ptrs ps @ drop (2 * n) R" by (simp only: eps append_take_drop_id)
  also have "drop (2 * n) R = G @ drop cco page"
    using le append_take_drop_id [of "cco - (off + hs + 2 * n)" "drop (2 * n) R"]
    by (simp add: G_def R_def add.commute)
  finally have page: "page = take off page @ header_to_bytes h @ enc_ptrs ps @ G @ drop cco page" .
  have "page_repr pid page (take off page) h ps G (drop cco page)"
    unfolding page_repr_def
  proof (intro conjI)
    show "unat (ph_num_cells h) = length ps" by (simp add: ps_def n_def)
    show "wf_header h" by (rule header_from_bytes_wf [OF hb])
    show "length (take off page) = page_header_offset pid" using le by (simp add: off_def)
    show "unat (ph_cell_content_offset h) = length page - length (drop cco page)"
      using le by (simp add: cco_def)
  qed (use page assms(2) le in simp_all)
  then show ?thesis unfolding off_def cco_def by blast
qed

lemma wf_leaf_repr:
  assumes "wf_leaf pid page" "leaf_view pid page = Inr cs"
  shows "\<exists>P h ps G C. leaf_repr pid page P h ps G C cs"
proof -
  obtain h where h: "read_page_header page pid = Inr h" "length page < 65536" "ph_page_type h = TableLeaf"
    "page_header_offset pid + header_size h + 2 * unat (ph_num_cells h) \<le> unat (ph_cell_content_offset h)"
    "unat (ph_cell_content_offset h) + PAGE_RESERVED_TRAILER \<le> length page"
    and ptrs: "\<And>i. i < unat (ph_num_cells h) \<Longrightarrow> (case read_cell_pointer page pid i of
       Inl _ \<Rightarrow> False | Inr p \<Rightarrow> unat (ph_cell_content_offset h) \<le> unat p)"
    and cs: "sorted_cells cs" "list_all valid_leaf_cell cs"
      "unat (ph_cell_content_offset h) + cells_size cs + PAGE_RESERVED_TRAILER \<le> length page"
    using assms by (auto simp: wf_leaf_def Let_def split: sum.splits)
  define cco where "cco = unat (ph_cell_content_offset h)"
  define C where "C = drop cco page"
  obtain P ps G where pr: "page_repr pid page P h ps G C"
    using page_repr_exists [OF h(1,2,4,5)] by (auto simp: C_def cco_def)
  have base: "length page - length C = cco" "cco \<le> length page" using h(5) by (auto simp: C_def cco_def)
  have n: "unat (ph_num_cells h) = length ps" using pr by (simp add: page_repr_def)
  have view: "list_all2 (\<lambda>i c. read_leaf_cell page pid i = Inr c) [0..<length ps] cs"
    using assms(2) by (simp add: leaf_view_def h(1) map_r_Inr_iff n)
  have "list_all2 (cell_at leaf_cell_from_bytes cco C) ps cs"
  proof (rule list_all2_all_nthI)
    show len: "length ps = length cs" using list_all2_lengthD [OF view] by simp
    fix i assume i: "i < length ps"
    have p: "cco \<le> unat (ps ! i)"
      using ptrs [of i] read_cell_pointer_repr [OF pr i] i n by (simp add: cco_def)
    have "read_leaf_cell page pid i = Inr (cs ! i)"
      using list_all2_nthD [OF view, of i] i by simp
    then show "cell_at leaf_cell_from_bytes cco C (ps ! i) (cs ! i)"
      using p base(2) by (auto simp: read_leaf_cell_def cell_slice_def read_cell_pointer_repr [OF pr i]
          cell_at_def C_def split: if_splits)
  qed
  then have "leaf_repr pid page P h ps G C cs"
    using pr cs h(3) base by (auto simp: leaf_repr_def cells_repr_def C_def cco_def)
  then show ?thesis by blast
qed

lemma cells_size_simps [simp]:
  "cells_size [] = 0" "cells_size (c # cs) = length (leaf_cell_to_bytes c) + cells_size cs"
  "cells_size (xs @ ys) = cells_size xs + cells_size ys"
  by (simp_all add: cells_size_def)

lemma cells_size_take_drop: "cells_size (take n cs) + cells_size (drop n cs) = cells_size cs"
  by (metis append_take_drop_id cells_size_simps(3))

lemma sorted_upsert:
  assumes "sorted_cells cs"
  shows "sorted_cells (upsert_cell c cs)"
proof -
  let ?A = "takeWhile (\<lambda>x. lc_row_id x < lc_row_id c) cs"
  let ?B = "dropWhile (\<lambda>x. lc_row_id x \<le> lc_row_id c) cs"
  have sw: "sorted_wrt (\<lambda>x y. lc_row_id x < lc_row_id y) cs"
    using assms by (simp add: sorted_cells_def sorted_wrt_map)
  have B: "\<forall>y \<in> set ?B. lc_row_id c < lc_row_id y"
  proof (cases ?B)
    case (Cons b bs)
    have "sorted_wrt (\<lambda>x y. lc_row_id x < lc_row_id y) ?B"
      using sw by (simp add: dropWhile_eq_drop sorted_wrt_drop)
    moreover have "lc_row_id c < lc_row_id b"
      using hd_dropWhile [of "\<lambda>x. lc_row_id x \<le> lc_row_id c" cs] Cons by simp
    ultimately show ?thesis using Cons by (auto intro: order.strict_trans)
  next
    case Nil
    then show ?thesis unfolding Nil by simp
  qed
  have A: "\<forall>x \<in> set ?A. lc_row_id x < lc_row_id c" by (auto dest: set_takeWhileD)
  have "sorted_wrt (\<lambda>x y. lc_row_id x < lc_row_id y) ?A"
    "sorted_wrt (\<lambda>x y. lc_row_id x < lc_row_id y) ?B"
    using sw sorted_wrt_append [of _ ?A "dropWhile (\<lambda>x. lc_row_id x < lc_row_id c) cs"]
    by (simp_all add: dropWhile_eq_drop sorted_wrt_drop)
  then show ?thesis
    using A B by (auto simp: sorted_cells_def sorted_wrt_map upsert_cell_def sorted_wrt_append
        intro: order.strict_trans)
qed

lemma set_upsert: "set (upsert_cell c cs) \<subseteq> insert c (set cs)"
  by (auto simp: upsert_cell_def dest: set_takeWhileD set_dropWhileD)

lemma insert_leaf_repr:
  assumes r: "leaf_repr pid page P h ps G C cs" and v: "valid_leaf_cell c"
    and fits: "length (leaf_cell_to_bytes c) + 2 \<le> length G"
  shows "\<exists>page' h' ps' G'. insert_leaf_cell_into_page page pid c = Inr (page', True) \<and>
    leaf_repr pid page' P h' ps' G' (leaf_cell_to_bytes c @ C) (upsert_cell c cs) \<and>
    length page' = length page \<and> length G \<le> length G' + length (leaf_cell_to_bytes c) + 2"
proof -
  note rc = leaf_repr_cells [OF r]
  have s: "sorted_cells cs" and all: "list_all valid_leaf_cell cs" and t: "ph_page_type h = TableLeaf"
    and size: "cells_size cs + PAGE_RESERVED_TRAILER \<le> length C"
    using r by (auto simp: leaf_repr_def)
  have ok: "list_all valid_leaf_cell (upsert_cell c cs)"
    using set_upsert [of c cs] v all by (auto simp: list_all_iff)
  from s show ?thesis
  proof (cases rule: find_spec_cases [of cs "lc_row_id c"])
    case (found k)
    have "cells_size (take k cs) + cells_size (drop (Suc k) cs) \<le> cells_size cs"
      using cells_size_take_drop [of k cs] found(2) by (simp flip: Cons_nth_drop_Suc)
    then show ?thesis
      using insert_leaf_found [OF rc s v fits found(1,2)] sorted_upsert [OF s, of c] ok t size
      by (fastforce simp: leaf_repr_def upsert_cell_def found(4,5))
  next
    case (missing k)
    show ?thesis
      using insert_leaf_missing [OF rc s v fits missing(1,2)] sorted_upsert [OF s, of c] ok t size
        cells_size_take_drop [of k cs]
      by (fastforce simp: leaf_repr_def upsert_cell_def missing(4,5))
  qed
qed

section \<open>Deletion and defragmentation\<close>

definition delete_cell :: "u64 \<Rightarrow> table_leaf_cell list \<Rightarrow> table_leaf_cell list" where
  "delete_cell key cs = filter (\<lambda>c. lc_row_id c \<noteq> key) cs"

definition content_of :: "table_leaf_cell list \<Rightarrow> bytes" where
  "content_of cs = concat (rev (map leaf_cell_to_bytes cs))"

lemma content_of_simps [simp]:
  "content_of [] = []" "content_of (c # cs) = content_of cs @ leaf_cell_to_bytes c"
  by (simp_all add: content_of_def)

lemma length_content_of [simp]: "length (content_of cs) = cells_size cs"
  by (induction cs) auto

fun layout_ptrs :: "nat \<Rightarrow> table_leaf_cell list \<Rightarrow> u16 list" where
  "layout_ptrs co [] = []"
| "layout_ptrs co (c # cs) =
     (let co' = co - length (leaf_cell_to_bytes c) in word_of_nat co' # layout_ptrs co' cs)"

lemma length_layout_ptrs [simp]: "length (layout_ptrs co cs) = length cs"
  by (induction cs arbitrary: co) (auto simp: Let_def)

lemma layout_ptrs_cells:
  assumes "cells_size cs \<le> co" "co < 65536" "list_all valid_leaf_cell cs"
  shows "list_all2 (cell_at leaf_cell_from_bytes (co - cells_size cs) (content_of cs @ T))
           (layout_ptrs co cs) cs"
  using assms
proof (induction cs arbitrary: co T)
  case (Cons c cs)
  define n where "n = length (leaf_cell_to_bytes c)"
  have n: "n \<le> co" "cells_size cs \<le> co - n" "0 < n" using Cons.prems by (auto simp: n_def)
  have "list_all2 (cell_at leaf_cell_from_bytes (co - n - cells_size cs)
      (content_of cs @ leaf_cell_to_bytes c @ T)) (layout_ptrs (co - n) cs) cs"
    using Cons.prems n by (intro Cons.IH) auto
  moreover have "cell_at leaf_cell_from_bytes (co - n - cells_size cs)
      (content_of cs @ leaf_cell_to_bytes c @ T) (word_of_nat (co - n)) c"
    using Cons.prems n
    by (simp add: cell_at_def leaf_cell_roundtrip_rest del: of_nat_diff) (use Cons.prems n in \<open>auto simp: n_def [symmetric]\<close>)
  ultimately show ?case by (simp add: n_def Let_def)
qed simp

lemma defrag_loop_spec:
  assumes "length A = a" "length ps = i + length cs" "cells_size cs \<le> length Z"
    "co = length (A @ enc_ptrs ps @ Z)" "co < 65536"
  shows "defrag_loop a i cs (word_of_nat co) (A @ enc_ptrs ps @ Z @ T) =
    Inr (word_of_nat (co - cells_size cs),
         A @ enc_ptrs (take i ps @ layout_ptrs co cs) @ take (length Z - cells_size cs) Z @
         content_of cs @ T)"
  using assms(2-5)
proof (induction cs arbitrary: i ps co Z T)
  case (Cons c cs)
  define bs where "bs = leaf_cell_to_bytes c"
  define co' where "co' = co - length bs"
  define Z' where "Z' = take (length Z - length bs) Z"
  have le: "length bs \<le> length Z" "length bs \<le> co" using Cons.prems by (auto simp: bs_def)
  have sub: "checked_sub16 (word_of_nat co) (word_of_nat (length bs)) = Some (word_of_nat co')"
    unfolding co'_def by (rule checked_sub16_of_nat [OF Cons.prems(4) le(2)])
  have u: "unat (word_of_nat co' :: u16) = co'" using Cons.prems(4) by (simp add: co'_def)
  have put: "put_r (A @ enc_ptrs ps @ Z @ T) co' bs = Inr (A @ enc_ptrs ps @ Z' @ bs @ T)"
    using put_cell_concat [OF le(1), of co' "A @ enc_ptrs ps" T] Cons.prems(3)
    by (simp add: co'_def Z'_def)
  have ptr: "put_r (A @ enc_ptrs ps @ Z' @ bs @ T) (a + i * 2) (to_le16 (word_of_nat co')) =
      Inr (A @ enc_ptrs (ps[i := word_of_nat co']) @ Z' @ bs @ T)"
    using Cons.prems(1) by (intro put_ptr assms(1)) auto
  have tk: "take (Suc i) (ps[i := word_of_nat co']) = take i ps @ [word_of_nat co']"
    using Cons.prems(1) by (simp add: take_Suc_conv_app_nth)
  have IH: "defrag_loop a (i + 1) cs (word_of_nat co')
        (A @ enc_ptrs (ps[i := word_of_nat co']) @ Z' @ (bs @ T)) =
      Inr (word_of_nat (co' - cells_size cs),
         A @ enc_ptrs (take (i + 1) (ps[i := word_of_nat co']) @ layout_ptrs co' cs) @
         take (length Z' - cells_size cs) Z' @ content_of cs @ (bs @ T))"
    using Cons.prems le by (intro Cons.IH) (auto simp: Z'_def co'_def bs_def)
  have zz: "take (length Z' - cells_size cs) Z' = take (length Z - cells_size (c # cs)) Z"
    by (simp add: Z'_def bs_def)
  have "defrag_loop a i (c # cs) (word_of_nat co) (A @ enc_ptrs ps @ Z @ T) =
      defrag_loop a (i + 1) cs (word_of_nat co') (A @ enc_ptrs (ps[i := word_of_nat co']) @ Z' @ (bs @ T))"
    by (simp only: defrag_loop.simps bs_def [symmetric] sub ok_or_simps bind_r_Inr u put ptr Let_def)
  also note IH
  finally show ?case using tk zz by (simp add: co'_def bs_def Let_def)
qed simp

lemma clear_range_concat:
  assumes "length A = n" "m = n + length Z"
  shows "clear_range (A @ Z @ T) n m = Inr (A @ replicate (length Z) 0 @ T)"
proof (cases "Z = []")
  case True
  then show ?thesis using assms by (simp add: clear_range_def)
next
  case False
  then have "n < m" using assms by simp
  moreover have "put_r (A @ Z @ T) n (replicate (length Z) 0) = Inr (A @ replicate (length Z) 0 @ T)"
    by (rule put_r_mid [OF assms(1)]) simp
  ultimately show ?thesis using assms by (simp add: clear_range_def)
qed

lemma defragment_repr:
  assumes r: "cells_repr leaf_cell_from_bytes pid page P h ps G C cs"
    and v: "list_all valid_leaf_cell cs" and size: "cells_size cs + PAGE_RESERVED_TRAILER \<le> length C"
  shows "\<exists>page' h' ps' k. defragment_leaf_page page pid = Inr page' \<and>
    cells_repr leaf_cell_from_bytes pid page' P h' ps' (replicate k 0)
      (content_of cs @ drop (length page - PAGE_RESERVED_TRAILER) page) cs \<and>
    length page' = length page \<and> ph_page_type h' = ph_page_type h"
proof -
  define T where "T = drop (length page - PAGE_RESERVED_TRAILER) page"
  define Z where "Z = G @ take (length C - PAGE_RESERVED_TRAILER) C"
  define a where "a = page_header_offset pid + header_size h"
  define co where "co = length page - PAGE_RESERVED_TRAILER"
  define Z0 where "Z0 = replicate (length Z) (0::u8)"
  define k where "k = length Z - cells_size cs"
  define h' where "h' = h\<lparr>ph_cell_content_offset := word_of_nat (co - cells_size cs), ph_first_freeblock := 0\<rparr>"
  define page' where "page' = P @ header_to_bytes h' @ enc_ptrs (layout_ptrs co cs) @ replicate k 0 @ content_of cs @ T"
  note L = cells_repr_lengths [OF r]
  have pr: "page_repr pid page P h ps G C" using r by (simp add: cells_repr_def)
  have page0: "page = P @ header_to_bytes h @ enc_ptrs ps @ G @ C" and P: "length P = page_header_offset pid"
    and wf: "wf_header h"
    using pr by (auto simp: page_repr_def)
  have T: "T = drop (length C - PAGE_RESERVED_TRAILER) C" "length T = PAGE_RESERVED_TRAILER"
    using L(5) by (simp_all add: T_def page0)
  have page: "page = (P @ header_to_bytes h) @ enc_ptrs ps @ Z @ T"
    by (simp add: page0 Z_def T(1))
  have co: "co = length ((P @ header_to_bytes h) @ enc_ptrs ps @ Z)" "co < 65536"
    using T(2) L(3) by (simp_all add: co_def page)
  have cz: "cells_size cs \<le> length Z" using size T L(5) by (simp add: Z_def)
  have A: "length (P @ header_to_bytes h) = a" "length ((P @ header_to_bytes h) @ enc_ptrs ps) = a + length cs * 2"
    using P L(1) by (simp_all add: a_def)
  have hs: "header_size h' = header_size h" "wf_header h'"
    using wf by (simp_all add: h'_def header_size_def wf_header_def)
  have nfull: "(length page < PAGE_RESERVED_TRAILER) = False" using T(2) by (simp add: page)
  have w: "write_page_header ((P @ header_to_bytes h) @ R) pid h' = Inr (P @ header_to_bytes h' @ R)" for R
    using write_page_header_concat [OF P hs(1), of R] by simp
  have clr: "clear_range page (a + length cs * 2) co = Inr ((P @ header_to_bytes h) @ enc_ptrs ps @ Z0 @ T)"
    using clear_range_concat [OF A(2), of co Z T] co(1) A(2) by (simp add: page Z0_def)
  have rd: "map_r (read_leaf_cell page pid) [0..<length cs] = Inr cs"
    using leaf_view_cells [OF r] by (simp add: leaf_view_def read_page_header_repr [OF pr] L(2))
  have loop: "defrag_loop a 0 cs (word_of_nat co) ((P @ header_to_bytes h) @ enc_ptrs ps @ Z0 @ T) =
      Inr (word_of_nat (co - cells_size cs),
           (P @ header_to_bytes h) @ enc_ptrs (layout_ptrs co cs) @ replicate k 0 @ content_of cs @ T)"
    using defrag_loop_spec [of "P @ header_to_bytes h" a ps 0 cs Z0 co T] A(1) L(1) cz co
    by (simp add: Z0_def k_def)
  have "defragment_leaf_page page pid = Inr page'"
  proof (cases "cs = []")
    case False
    then have nz: "(length cs = 0) = False" by simp
    show ?thesis
      by (simp only: defragment_leaf_page_def read_page_header_repr [OF pr] bind_r_Inr Let_def nfull
          L(2) nz if_False rd a_def [symmetric] co_def [symmetric] clr loop prod.case h'_def [symmetric]
          w page'_def)
  next
    case True
    then have ps: "ps = []" using L(1) by simp
    have "clear_range (P @ header_to_bytes h' @ Z @ T) a co =
        Inr ((P @ header_to_bytes h') @ replicate (length Z) 0 @ T)"
      using clear_range_concat [of "P @ header_to_bytes h'" a co Z T] A hs co by (simp add: ps)
    moreover have "write_page_header page pid h' = Inr (P @ header_to_bytes h' @ Z @ T)"
      using w [of "Z @ T"] by (simp add: page ps)
    moreover have "h' = h\<lparr>ph_cell_content_offset := word_of_nat co, ph_first_freeblock := 0\<rparr>"
      "page' = (P @ header_to_bytes h') @ replicate (length Z) 0 @ T"
      using True by (simp_all add: h'_def page'_def k_def)
    moreover have z: "(length cs = 0) = True" using True by simp
    ultimately show ?thesis
      by (simp only: defragment_leaf_page_def read_page_header_repr [OF pr] bind_r_Inr Let_def nfull
          L(2) if_False if_True a_def [symmetric] co_def [symmetric])
  qed
  moreover have len: "length page' = length page"
    using cz L(1) hs by (simp add: page'_def page k_def)
  moreover have "cells_repr leaf_cell_from_bytes pid page' P h' (layout_ptrs co cs) (replicate k 0) (content_of cs @ T) cs"
    unfolding cells_repr_def page_repr_def
  proof (intro conjI)
    have base: "length page' - length (content_of cs @ T) = co - cells_size cs"
      using len T(2) by (simp add: co_def)
    show "unat (ph_cell_content_offset h') = length page' - length (content_of cs @ T)"
      using co(2) unfolding base by (simp add: h'_def del: of_nat_diff)
    show "list_all2 (cell_at leaf_cell_from_bytes (length page' - length (content_of cs @ T)) (content_of cs @ T))
        (layout_ptrs co cs) cs"
      unfolding base using co cz v by (intro layout_ptrs_cells) auto
    show "unat (ph_num_cells h') = length (layout_ptrs co cs)" using L(2) by (simp add: h'_def)
    show "length page' < 65536" using len L(3) by simp
  qed (use page'_def P hs(2) T(2) in auto)
  moreover have "ph_page_type h' = ph_page_type h" by (simp add: h'_def)
  ultimately show ?thesis unfolding T_def by blast
qed

lemma fold_copy_left_guarded:
  assumes "length P = a" "m < length ps"
  shows "fold_r (\<lambda>i pg. let p1 = a + i * 2; p2 = a + (i + 1) * 2 in
           if p2 + 1 < length pg then copy_pair p1 p2 pg else Inr pg) [k..<m] (P @ enc_ptrs ps @ R) =
         Inr (P @ enc_ptrs (shl k m ps) @ R)"
  using assms(2)
proof (induction m)
  case (Suc m)
  show ?case
  proof (cases "k \<le> m")
    case True
    have "copy_pair (a + m * 2) (a + (m + 1) * 2) (P @ enc_ptrs (shl k m ps) @ R) =
        Inr (P @ enc_ptrs ((shl k m ps)[m := shl k m ps ! (m + 1)]) @ R)"
      using Suc.prems by (intro copy_pair_ptr assms(1)) auto
    moreover have "a + (m + 1) * 2 + 1 < length (P @ enc_ptrs (shl k m ps) @ R)"
      using Suc.prems assms(1) by simp
    ultimately show ?thesis using Suc True by (simp add: fold_r_append shl_def Let_def del: mult_Suc)
  qed (simp add: shl_def)
qed (simp add: shl_def)

lemma filter_sorted_key:
  assumes "sorted_cells cs" "k < length cs" "lc_row_id (cs ! k) = key"
  shows "delete_cell key cs = take k cs @ drop (Suc k) cs"
proof -
  have "\<forall>x \<in> set (take k cs). lc_row_id x \<noteq> key"
    using sorted_cells_nth [OF assms(1)] assms(2,3) by (fastforce simp: in_set_conv_nth)
  moreover have "\<forall>x \<in> set (drop (Suc k) cs). lc_row_id x \<noteq> key"
  proof
    fix x assume "x \<in> set (drop (Suc k) cs)"
    then obtain i where "i < length cs - Suc k" "x = cs ! (Suc k + i)"
      by (auto simp: in_set_conv_nth)
    moreover from this have "Suc k + i < length cs" by simp
    ultimately show "lc_row_id x \<noteq> key"
      using sorted_cells_nth [OF assms(1), of k "Suc k + i"] assms(2,3) by auto
  qed
  ultimately have "filter (\<lambda>c. lc_row_id c \<noteq> key) (take k cs @ cs ! k # drop (Suc k) cs) =
      take k cs @ drop (Suc k) cs"
    using assms(3) by (simp add: filter_id_conv)
  then show ?thesis using assms(2) by (simp add: delete_cell_def id_take_nth_drop [symmetric])
qed

lemma delete_leaf_repr:
  assumes r: "leaf_repr pid page P h ps G C cs" and key: "key \<in> lc_row_id ` set cs"
  shows "\<exists>page' h' ps' k. delete_leaf_cell_from_page page pid key = Inr (page', True) \<and>
    leaf_repr pid page' P h' ps' (replicate k 0)
      (content_of (delete_cell key cs) @ drop (length page - PAGE_RESERVED_TRAILER) page)
      (delete_cell key cs) \<and> length page' = length page"
proof -
  note rc = leaf_repr_cells [OF r]
  note L = cells_repr_lengths [OF rc]
  have s: "sorted_cells cs" and t: "ph_page_type h = TableLeaf" and v: "list_all valid_leaf_cell cs"
    and size: "cells_size cs + PAGE_RESERVED_TRAILER \<le> length C"
    using r by (auto simp: leaf_repr_def)
  have pr: "page_repr pid page P h ps G C" using rc by (simp add: cells_repr_def)
  obtain k where k: "find_spec key cs = Found k" "k < length cs" "lc_row_id (cs ! k) = key"
    using s key by (cases rule: find_spec_cases [of cs key]) auto
  define a where "a = page_header_offset pid + header_size h"
  define m where "m = length cs - 1"
  define qs where "qs = take k ps @ drop (Suc k) ps"
  define ds where "ds = delete_cell key cs"
  define h1 where "h1 = h\<lparr>ph_num_cells := ph_num_cells h - 1\<rparr>"
  define G1 where "G1 = to_le16 (last ps) @ G"
  define page1 where "page1 = P @ header_to_bytes h1 @ enc_ptrs qs @ G1 @ C"
  have page: "page = P @ header_to_bytes h @ enc_ptrs ps @ G @ C" and P: "length P = page_header_offset pid"
    and wf: "wf_header h"
    using pr by (auto simp: page_repr_def)
  have ds: "ds = take k cs @ drop (Suc k) cs"
    unfolding ds_def by (rule filter_sorted_key [OF s k(2,3)])
  have km: "length ps = Suc m" "length qs = m" using k L(1) by (auto simp: m_def qs_def)
  have n: "unat (ph_num_cells h - 1) = m"
  proof -
    have "1 \<le> ph_num_cells h" using L(2) k(2) by (simp add: word_le_nat_alt)
    then show ?thesis using L(2) by (simp add: unat_sub m_def)
  qed
  have shl: "shl k m ps = qs @ [last ps]"
    using shl_eq [of k ps] km k L(1) by (simp add: qs_def m_def)
  have fold1: "fold_r (\<lambda>i pg. let p1 = a + i * 2; p2 = a + (i + 1) * 2 in
           if p2 + 1 < length pg then copy_pair p1 p2 pg else Inr pg) [k..<m] page =
      Inr (P @ header_to_bytes h @ enc_ptrs qs @ G1 @ C)"
    using fold_copy_left_guarded [of "P @ header_to_bytes h" a m ps k "G @ C"] km P
    by (simp add: page shl G1_def a_def)
  have hs: "header_size h1 = header_size h" by (simp add: h1_def header_size_def)
  have wr: "write_page_header (P @ header_to_bytes h @ enc_ptrs qs @ G1 @ C) pid h1 = Inr page1"
    unfolding page1_def by (rule write_page_header_concat [OF P hs])
  have len: "length page1 = length page" using km hs by (simp add: page1_def page G1_def)
  have "cells_repr leaf_cell_from_bytes pid page1 P h1 qs G1 C ds"
    unfolding cells_repr_def page_repr_def len
  proof (intro conjI)
    show "unat (ph_num_cells h1) = length qs" using n km by (simp add: h1_def)
    show "wf_header h1" using wf by (simp add: h1_def wf_header_def)
    show "list_all2 (cell_at leaf_cell_from_bytes (length page - length C) C) qs ds"
      using rc by (auto simp: qs_def ds cells_repr_def intro!: list_all2_appendI list_all2_takeI list_all2_dropI)
    show "unat (ph_cell_content_offset h1) = length page - length C"
      using pr by (simp add: h1_def page_repr_def)
  qed (use page1_def P L in auto)
  moreover have dv: "list_all valid_leaf_cell ds" "sorted_cells ds" "cells_size ds \<le> cells_size cs"
  proof -
    show "list_all valid_leaf_cell ds" using v by (auto simp: ds_def delete_cell_def list_all_iff)
    show "sorted_cells ds"
      using s by (simp add: ds_def delete_cell_def sorted_cells_def sorted_wrt_map sorted_wrt_filter)
    show "cells_size ds \<le> cells_size cs"
      using cells_size_take_drop [of k cs] k(2) by (simp add: ds flip: Cons_nth_drop_Suc)
  qed
  ultimately obtain page' h' ps' k' where d: "defragment_leaf_page page1 pid = Inr page'"
    "cells_repr leaf_cell_from_bytes pid page' P h' ps' (replicate k' 0)
      (content_of ds @ drop (length page1 - PAGE_RESERVED_TRAILER) page1) ds"
    "length page' = length page1" "ph_page_type h' = ph_page_type h1"
    using defragment_repr [of pid page1 P h1 qs G1 C ds] size by auto
  have tr: "drop (length page1 - PAGE_RESERVED_TRAILER) page1 = drop (length page - PAGE_RESERVED_TRAILER) page"
    using L(5) len by (simp add: page1_def page)
  have "(length cs \<le> k \<or> ph_num_cells h = 0) = False" using k(2) L(2) by auto
  then have "delete_leaf_cell_from_page page pid key = Inr (page', True)"
    by (simp only: delete_leaf_cell_from_page_def read_page_header_repr [OF pr] bind_r_Inr
        find_leaf_cell_index_repr [OF rc s] k(1) search_result.case L(2) if_False Let_def
        a_def [symmetric] m_def [symmetric] fold1 [unfolded Let_def] h1_def [symmetric] wr d(1))
  moreover have "leaf_repr pid page' P h' ps' (replicate k' 0)
      (content_of ds @ drop (length page - PAGE_RESERVED_TRAILER) page) ds"
    using d(2,4) tr dv t L(5,6) by (auto simp: leaf_repr_def h1_def)
  ultimately show ?thesis using d(3) [unfolded len] unfolding ds_def by blast
qed

lemma delete_leaf_absent:
  assumes r: "leaf_repr pid page P h ps G C cs" and key: "key \<notin> lc_row_id ` set cs"
  shows "delete_leaf_cell_from_page page pid key = Inr (page, False)"
proof -
  note rc = leaf_repr_cells [OF r]
  have s: "sorted_cells cs" using r by (auto simp: leaf_repr_def)
  have pr: "page_repr pid page P h ps G C" using rc by (simp add: cells_repr_def)
  show ?thesis using key
    by (simp add: delete_leaf_cell_from_page_def read_page_header_repr [OF pr]
        find_leaf_cell_index_repr [OF rc s] find_spec_def)
qed

lemma init_page_cells:
  assumes "page_header_offset pid + 12 + PAGE_RESERVED_TRAILER \<le> length page" "length page < 65536"
    and h: "h = empty_header t rc (length page)" "wf_header h"
  shows "\<exists>page' G. put_r page (page_header_offset pid) (header_to_bytes h) = Inr page' \<and>
    length page' = length page \<and>
    cells_repr parse pid page' (take (page_header_offset pid) page) h [] G
      (drop (length page - PAGE_RESERVED_TRAILER) page) []"
proof -
  define off where "off = page_header_offset pid"
  define co where "co = length page - PAGE_RESERVED_TRAILER"
  define G where "G = take (co - (off + header_size h)) (drop (off + header_size h) page)"
  define page' where "page' = take off page @ header_to_bytes h @ G @ drop co page"
  have hs: "header_size h \<le> 12" by (simp add: header_size_def)
  have le: "off + header_size h \<le> co" "co \<le> length page"
    using assms(1) hs by (auto simp: off_def co_def)
  have "drop (off + header_size h) page = G @ drop co page"
    using le append_take_drop_id [of "co - (off + header_size h)" "drop (off + header_size h) page"]
    by (simp add: G_def)
  then have "put_r page off (header_to_bytes h) = Inr page'"
    using le by (simp add: put_r_def splice_def page'_def)
  moreover have len: "length page' = length page" using le by (simp add: page'_def G_def)
  moreover have "cells_repr parse pid page' (take off page) h [] G (drop co page) []"
    unfolding cells_repr_def page_repr_def len
  proof (intro conjI)
    show "unat (ph_cell_content_offset h) = length page - length (drop co page)"
      using le assms(1,2) by (simp add: h(1) empty_header_def co_def del: of_nat_diff)
    show "length (take off page) = page_header_offset pid" using le by (simp add: off_def)
  qed (use assms page'_def in \<open>auto simp: h(1) empty_header_def co_def\<close>)
  ultimately show ?thesis unfolding off_def co_def by blast
qed

section \<open>Properties\<close>

definition leaf_free :: "page_id \<Rightarrow> bytes \<Rightarrow> nat" where
  "leaf_free pid page = (case read_page_header page pid of Inl _ \<Rightarrow> 0
     | Inr h \<Rightarrow> free_space h (length page) (page_header_offset pid))"

lemma leaf_free_repr: "leaf_repr pid page P h ps G C cs \<Longrightarrow> leaf_free pid page = length G"
  by (auto simp: leaf_repr_def cells_repr_def leaf_free_def read_page_header_repr free_space_repr)

lemma leaf_repr_prefix:
  "leaf_repr pid page P h ps G C cs \<Longrightarrow> P = take (page_header_offset pid) page"
  by (auto simp: leaf_repr_def cells_repr_def page_repr_def)

text \<open>\<^verbatim>\<open>init_leaf_page\<close> makes any buffer that has room for a header and the trailer a
  well-formed leaf page without cells, and leaves the bytes before the header (the database
  header on page 1) alone.\<close>

theorem init_leaf_page_empty:
  assumes "page_header_offset pid + 12 + PAGE_RESERVED_TRAILER \<le> length page" "length page < 65536"
  shows "\<exists>page'. init_leaf_page page pid = Inr page' \<and> wf_leaf pid page' \<and>
    leaf_view pid page' = Inr [] \<and> length page' = length page \<and>
    take (page_header_offset pid) page' = take (page_header_offset pid) page"
proof -
  have "wf_header (empty_header TableLeaf None (length page))"
    by (simp add: wf_header_def empty_header_def is_interior_def)
  from init_page_cells [OF assms refl this, of leaf_cell_from_bytes]
  obtain page' G where p: "put_r page (page_header_offset pid)
      (header_to_bytes (empty_header TableLeaf None (length page))) = Inr page'"
    "length page' = length page"
    and c: "cells_repr leaf_cell_from_bytes pid page' (take (page_header_offset pid) page)
      (empty_header TableLeaf None (length page)) [] G (drop (length page - PAGE_RESERVED_TRAILER) page) []"
    by blast
  then have r: "leaf_repr pid page' (take (page_header_offset pid) page)
      (empty_header TableLeaf None (length page)) [] G (drop (length page - PAGE_RESERVED_TRAILER) page) []"
    using assms by (simp add: leaf_repr_def empty_header_def sorted_cells_def)
  have "init_leaf_page page pid = Inr page'" using p(1) assms by (simp add: init_leaf_page_def)
  with leaf_repr_wf [OF r] leaf_repr_prefix [OF r] p(2) show ?thesis by auto
qed

theorem init_leaf_page_empty_witness:
  "\<exists>page'. init_leaf_page (replicate 512 0) 1 = Inr page' \<and> wf_leaf 1 page' \<and>
    leaf_view 1 page' = Inr [] \<and> length page' = length (replicate 512 (0::u8)) \<and>
    take (page_header_offset 1) page' = take (page_header_offset 1) (replicate 512 0)"
  by (rule init_leaf_page_empty)
     (simp_all add: page_header_offset_def DATABASE_HEADER_SIZE_def PAGE_RESERVED_TRAILER_def)

text \<open>C35: Insertion into a leaf page refines insertion into the sorted cell list. It is refused,
  with the page unchanged, exactly when the free space is below the cell's size plus its
  pointer; otherwise the new page is well formed, stands for the list with the cell put in
  at its key (replacing the old cell of that key), and the bytes before the page header are
  unchanged. It never panics and never reports corruption.\<close>

theorem insert_leaf_refines:
  assumes "wf_leaf pid page" "leaf_view pid page = Inr cs" "valid_leaf_cell c"
  shows "if leaf_free pid page < length (leaf_cell_to_bytes c) + 2
    then insert_leaf_cell_into_page page pid c = Inr (page, False)
    else \<exists>page'. insert_leaf_cell_into_page page pid c = Inr (page', True) \<and> wf_leaf pid page' \<and>
      leaf_view pid page' = Inr (upsert_cell c cs) \<and> length page' = length page \<and>
      take (page_header_offset pid) page' = take (page_header_offset pid) page"
proof -
  obtain P h ps G C where r: "leaf_repr pid page P h ps G C cs"
    using wf_leaf_repr [OF assms(1,2)] by blast
  show ?thesis
  proof (cases "length G < length (leaf_cell_to_bytes c) + 2")
    case True
    then show ?thesis
      using insert_leaf_full [OF leaf_repr_cells [OF r] True] by (simp add: leaf_free_repr [OF r])
  next
    case False
    then obtain page' h' ps' G' where i: "insert_leaf_cell_into_page page pid c = Inr (page', True)"
      "leaf_repr pid page' P h' ps' G' (leaf_cell_to_bytes c @ C) (upsert_cell c cs)"
      "length page' = length page"
      using insert_leaf_repr [OF r assms(3)] by fastforce
    then show ?thesis
      using False leaf_repr_wf [OF i(2)] leaf_repr_prefix [OF r] leaf_repr_prefix [OF i(2)]
      by (auto simp: leaf_free_repr [OF r])
  qed
qed

text \<open>Deletion from a leaf page refines deletion from the cell list: the page afterwards is
  well formed and stands for the cells whose key differs, the result flag says whether the
  key was there, and after a deletion the whole gap between pointers and content is zero (no
  byte of a deleted cell stays in the page).\<close>

theorem delete_leaf_refines:
  assumes "wf_leaf pid page" "leaf_view pid page = Inr cs"
  shows "\<exists>page'. delete_leaf_cell_from_page page pid key = Inr (page', key \<in> lc_row_id ` set cs) \<and>
    wf_leaf pid page' \<and> leaf_view pid page' = Inr (delete_cell key cs) \<and>
    length page' = length page \<and>
    (key \<in> lc_row_id ` set cs \<longrightarrow> (\<exists>A. page' = A @ replicate (leaf_free pid page') 0 @
       content_of (delete_cell key cs) @ drop (length page - PAGE_RESERVED_TRAILER) page))"
proof -
  obtain P h ps G C where r: "leaf_repr pid page P h ps G C cs"
    using wf_leaf_repr [OF assms] by blast
  show ?thesis
  proof (cases "key \<in> lc_row_id ` set cs")
    case True
    from delete_leaf_repr [OF r True] obtain page' h' ps' k where
      d: "delete_leaf_cell_from_page page pid key = Inr (page', True)"
      and r': "leaf_repr pid page' P h' ps' (replicate k 0)
        (content_of (delete_cell key cs) @ drop (length page - PAGE_RESERVED_TRAILER) page)
        (delete_cell key cs)" and l: "length page' = length page" by blast
    have "page' = (P @ header_to_bytes h' @ enc_ptrs ps') @ replicate (leaf_free pid page') 0 @
        content_of (delete_cell key cs) @ drop (length page - PAGE_RESERVED_TRAILER) page"
      using r' leaf_free_repr [OF r'] by (simp add: leaf_repr_def cells_repr_def page_repr_def)
    then have gap: "\<exists>A. page' = A @ replicate (leaf_free pid page') 0 @
        content_of (delete_cell key cs) @ drop (length page - PAGE_RESERVED_TRAILER) page" by blast
    show ?thesis
      using True d l leaf_repr_wf [OF r'] by (intro exI [of _ page'] conjI impI gap) simp_all
  next
    case False
    then have "delete_cell key cs = cs" by (auto simp: delete_cell_def filter_id_conv)
    then show ?thesis using False delete_leaf_absent [OF r False] assms by simp
  qed
qed

text \<open>The binary search of a leaf page (with its shortcut for the last cell) is right on
  every well-formed page: it returns an index where the key's cell reads back, or the
  insertion position that separates the smaller keys from the larger ones. No cell is read
  out of range, so no error and no panic arises.\<close>

theorem find_leaf_cell_correct:
  assumes "wf_leaf pid page" "leaf_view pid page = Inr cs"
  shows "\<exists>r. find_leaf_cell_index_by_key page pid key = Inr r \<and>
    (case r of
       Found i \<Rightarrow> i < length cs \<and> lc_row_id (cs ! i) = key \<and> read_leaf_cell page pid i = Inr (cs ! i)
     | NotFound i \<Rightarrow> i \<le> length cs \<and> list_all (\<lambda>c. lc_row_id c < key) (take i cs) \<and>
                     list_all (\<lambda>c. key < lc_row_id c) (drop i cs))"
proof -
  obtain P h ps G C where r: "leaf_repr pid page P h ps G C cs"
    using wf_leaf_repr [OF assms] by blast
  have s: "sorted_cells cs" using r by (simp add: leaf_repr_def)
  note rc = leaf_repr_cells [OF r]
  note find = find_leaf_cell_index_repr [OF rc s, of key]
  from s show ?thesis
  proof (cases rule: find_spec_cases [of cs key])
    case (found k)
    then show ?thesis using find read_leaf_cell_repr [OF rc found(2)] by simp
  next
    case (missing k)
    have "sorted_cells (upsert_cell \<lparr>lc_row_id = key, lc_payload = [], lc_overflow_page = None\<rparr> cs)"
      by (rule sorted_upsert [OF s])
    then have "list_all (\<lambda>c. lc_row_id c < key) (take k cs)" "list_all (\<lambda>c. key < lc_row_id c) (drop k cs)"
      by (auto simp: upsert_cell_def missing(4,5) sorted_cells_def sorted_wrt_append list_all_iff)
    then show ?thesis using find missing(1,2) by simp
  qed
qed

text \<open>A page with two cells, for the witnesses.\<close>

definition example_leaf :: bytes where
  "example_leaf =
     header_to_bytes \<lparr>ph_page_type = TableLeaf, ph_flags = 0, ph_num_cells = 2,
        ph_cell_content_offset = 74, ph_first_freeblock = 0, ph_right_child = None\<rparr> @
     to_le16 81 @ to_le16 74 @ replicate 62 0 @
     leaf_cell_to_bytes \<lparr>lc_row_id = 9, lc_payload = [7], lc_overflow_page = None\<rparr> @
     leaf_cell_to_bytes \<lparr>lc_row_id = 4, lc_payload = [5, 6], lc_overflow_page = Some 3\<rparr> @
     replicate 40 1"

definition example_cells :: "table_leaf_cell list" where
  "example_cells = [\<lparr>lc_row_id = 4, lc_payload = [5, 6], lc_overflow_page = Some 3\<rparr>,
                    \<lparr>lc_row_id = 9, lc_payload = [7], lc_overflow_page = None\<rparr>]"

lemma example_cell_lengths:
  "length (leaf_cell_to_bytes \<lparr>lc_row_id = 9, lc_payload = [7], lc_overflow_page = None\<rparr>) = 7"
  "length (leaf_cell_to_bytes \<lparr>lc_row_id = 4, lc_payload = [5, 6], lc_overflow_page = Some 3\<rparr>) = 8"
  by code_simp+

lemma example_leaf_repr:
  "leaf_repr 2 example_leaf []
     \<lparr>ph_page_type = TableLeaf, ph_flags = 0, ph_num_cells = 2, ph_cell_content_offset = 74,
      ph_first_freeblock = 0, ph_right_child = None\<rparr> [81, 74] (replicate 62 0)
     (content_of example_cells @ replicate 40 1) example_cells"
proof -
  have len: "length example_leaf = 129"
    unfolding example_leaf_def length_append example_cell_lengths
    by (simp add: header_size_def is_interior_def)
  have cs: "cells_size example_cells = 15"
    by (simp add: example_cells_def example_cell_lengths)
  show ?thesis
    unfolding leaf_repr_def cells_repr_def page_repr_def len
  proof (intro conjI)
    show "example_leaf = [] @ header_to_bytes \<lparr>ph_page_type = TableLeaf, ph_flags = 0, ph_num_cells = 2,
        ph_cell_content_offset = 74, ph_first_freeblock = 0, ph_right_child = None\<rparr> @
        enc_ptrs [81, 74] @ replicate 62 0 @ content_of example_cells @ replicate 40 1"
      by (simp add: example_leaf_def example_cells_def)
    show "list_all2 (cell_at leaf_cell_from_bytes (129 - length (content_of example_cells @ replicate 40 1))
        (content_of example_cells @ replicate 40 1)) [81, 74] example_cells"
      by (simp add: cs) (simp add: example_cells_def cell_at_def example_cell_lengths
          leaf_cell_roundtrip_rest valid_leaf_cell_def)
  qed (simp_all add: cs PAGE_RESERVED_TRAILER_def page_header_offset_def wf_header_def is_interior_def,
       simp_all add: example_cells_def sorted_cells_def valid_leaf_cell_def)
qed

lemmas example_leaf_wf = leaf_repr_wf [OF example_leaf_repr]

theorem find_leaf_cell_correct_witness:
  "\<exists>r. find_leaf_cell_index_by_key example_leaf 2 9 = Inr r \<and>
    (case r of
       Found i \<Rightarrow> i < length example_cells \<and> lc_row_id (example_cells ! i) = 9 \<and>
                  read_leaf_cell example_leaf 2 i = Inr (example_cells ! i)
     | NotFound i \<Rightarrow> i \<le> length example_cells \<and>
                     list_all (\<lambda>c. lc_row_id c < 9) (take i example_cells) \<and>
                     list_all (\<lambda>c. 9 < lc_row_id c) (drop i example_cells))"
  by (rule find_leaf_cell_correct [OF example_leaf_wf])

theorem insert_leaf_refines_witness:
  "let c = \<lparr>lc_row_id = 6, lc_payload = [1, 2, 3], lc_overflow_page = None\<rparr> in
    if leaf_free 2 example_leaf < length (leaf_cell_to_bytes c) + 2
    then insert_leaf_cell_into_page example_leaf 2 c = Inr (example_leaf, False)
    else \<exists>page'. insert_leaf_cell_into_page example_leaf 2 c = Inr (page', True) \<and> wf_leaf 2 page' \<and>
      leaf_view 2 page' = Inr (upsert_cell c example_cells) \<and> length page' = length example_leaf \<and>
      take (page_header_offset 2) page' = take (page_header_offset 2) example_leaf"
  unfolding Let_def
  by (rule insert_leaf_refines [OF example_leaf_wf]) (simp add: valid_leaf_cell_def)

theorem delete_leaf_refines_witness:
  "\<exists>page'. delete_leaf_cell_from_page example_leaf 2 9 = Inr (page', 9 \<in> lc_row_id ` set example_cells) \<and>
    wf_leaf 2 page' \<and> leaf_view 2 page' = Inr (delete_cell 9 example_cells) \<and>
    length page' = length example_leaf \<and>
    (9 \<in> lc_row_id ` set example_cells \<longrightarrow> (\<exists>A. page' = A @ replicate (leaf_free 2 page') 0 @
       content_of (delete_cell 9 example_cells) @ drop (length example_leaf - PAGE_RESERVED_TRAILER) example_leaf))"
  by (rule delete_leaf_refines [OF example_leaf_wf])

end
