(* ===== verification/Interior_Insert.thy ===== *)
theory Interior_Insert
  imports Page_Insert
begin

text \<open>
  Insertion into an interior page (\<^verbatim>\<open>insert_interior_cell_into_page\<close> in
  \<^verbatim>\<open>src/src/btree/engine.rs\<close>): a linear scan finds the first cell with a larger
  separator, and the new cell goes in front of it.
\<close>

definition insert_separator ::
    "table_interior_cell \<Rightarrow> table_interior_cell list \<Rightarrow> table_interior_cell list" where
  "insert_separator c cs = takeWhile (\<lambda>x. ic_row_id x \<le> ic_row_id c) cs @ c #
                           dropWhile (\<lambda>x. ic_row_id x \<le> ic_row_id c) cs"

definition interior_view :: "page_id \<Rightarrow> bytes \<Rightarrow> (table_interior_cell list \<times> page_id option) result" where
  "interior_view pid page =
     bind_r (read_page_header page pid) (\<lambda>h.
     bind_r (map_r (read_interior_cell page pid) [0..<unat (ph_num_cells h)]) (\<lambda>cs.
     Inr (cs, ph_right_child h)))"

lemma interior_insert_idx_from:
  assumes r: "cells_repr interior_cell_from_bytes pid page P h ps G C cs" and "n \<le> length cs"
  shows "interior_insert_idx page pid key (length cs) [n..<length cs] =
    Inr (n + length (takeWhile (\<lambda>x. ic_row_id x \<le> key) (drop n cs)))"
  using assms(2)
proof (induction "length cs - n" arbitrary: n)
  case (Suc d)
  then have n: "n < length cs" by simp
  have d: "drop n cs = cs ! n # drop (Suc n) cs" using n by (simp add: Cons_nth_drop_Suc)
  have "interior_insert_idx page pid key (length cs) [Suc n..<length cs] =
      Inr (Suc n + length (takeWhile (\<lambda>x. ic_row_id x \<le> key) (drop (Suc n) cs)))"
    using Suc n by simp
  then show ?case
    using n read_interior_cell_repr [OF r n] by (simp add: upt_conv_Cons d not_less)
qed simp

lemma interior_view_cells:
  assumes "cells_repr interior_cell_from_bytes pid page P h ps G C cs"
  shows "interior_view pid page = Inr (cs, ph_right_child h)"
proof -
  have pr: "page_repr pid page P h ps G C" using assms by (simp add: cells_repr_def)
  have "map_r (read_interior_cell page pid) [0..<length cs] = Inr (map ((!) cs) [0..<length cs])"
    using read_interior_cell_repr [OF assms] by (intro map_r_all_ok) auto
  then show ?thesis
    using cells_repr_lengths(2) [OF assms]
    by (simp add: interior_view_def read_page_header_repr [OF pr] map_nth)
qed

lemma insert_interior_fits:
  assumes r: "cells_repr interior_cell_from_bytes pid page P h ps G C cs"
    and fits: "length (interior_cell_to_bytes c) + 2 \<le> length G"
  shows "\<exists>page' h' ps' G'. insert_interior_cell_into_page page pid c = Inr (page', True) \<and>
    cells_repr interior_cell_from_bytes pid page' P h' ps' G' (interior_cell_to_bytes c @ C)
      (insert_separator c cs) \<and> length page' = length page \<and>
    ph_page_type h' = ph_page_type h \<and> ph_right_child h' = ph_right_child h"
proof -
  define k where "k = length (takeWhile (\<lambda>x. ic_row_id x \<le> ic_row_id c) cs)"
  define bs where "bs = interior_cell_to_bytes c"
  define m where "m = length cs"
  define co where "co = length page - length C - length bs"
  define ps1 where "ps1 = ps @ [from_le16 (take 2 G)]"
  define G1 where "G1 = drop 2 G"
  define h' where "h' = h\<lparr>ph_num_cells := ph_num_cells h + 1,
                         ph_cell_content_offset := word_of_nat co\<rparr>"
  define ps' where "ps' = take k ps @ word_of_nat co # drop k ps"
  define G' where "G' = take (length G1 - length bs) G1"
  define page' where "page' = P @ header_to_bytes h' @ enc_ptrs ps' @ G' @ bs @ C"
  note L = cells_repr_lengths [OF r]
  have pr: "page_repr pid page P h ps G C" using r by (simp add: cells_repr_def)
  have page0: "page = P @ header_to_bytes h @ enc_ptrs ps @ G @ C" and P: "length P = page_header_offset pid"
    using pr by (auto simp: page_repr_def)
  have page: "page = P @ header_to_bytes h @ enc_ptrs ps1 @ G1 @ C"
    using enc_ptrs_extra [of G ps] fits by (simp add: page0 ps1_def G1_def)
  have fb: "length bs \<le> length G1" using fits by (simp add: bs_def G1_def)
  have km: "k \<le> m" "length ps = m" "length ps1 = Suc m"
    using L(1) length_takeWhile_le [of _ cs] by (auto simp: m_def ps1_def k_def)
  have hs: "header_size h' = header_size h" by (simp add: h'_def header_size_def)
  have sub: "checked_sub16 (ph_cell_content_offset h) (word_of_nat (length bs)) = Some (word_of_nat co)"
    using cco_repr(1) [OF pr] checked_sub16_of_nat [of "length page - length C" "length bs"] L(3,6) fits
    by (simp add: co_def bs_def)
  have uco: "unat (word_of_nat co :: u16) = co" using L(3) by (simp add: co_def)
  have co2: "co = length (P @ header_to_bytes h @ enc_ptrs ps1 @ G1) - length bs"
    using page by (simp add: co_def)
  have ps': "take k ps1 @ word_of_nat co # take (m - k) (drop k ps1) = ps'"
    using km by (simp add: ps'_def ps1_def)
  have place: "bind_r (put_r page co bs) (\<lambda>page2.
         bind_r (fold_r (\<lambda>i. copy_pair (page_header_offset pid + header_size h + (i + 1) * 2)
           (page_header_offset pid + header_size h + i * 2)) (rev [k..<m]) page2) (\<lambda>page3.
         bind_r (put_r page3 (page_header_offset pid + header_size h + k * 2) (to_le16 (word_of_nat co))) (\<lambda>page4.
         bind_r (write_page_header page4 pid h') (\<lambda>page5. Inr (page5, True))))) = Inr (page', True)"
    unfolding page'_def G'_def ps' [symmetric] page
    by (rule place_cell [OF P hs km(3,1) fb co2 refl])
  have nfull: "(length G < length bs + 2) = False" using fits by (simp add: bs_def)
  have idx: "interior_insert_idx page pid (ic_row_id c) m [0..<m] = Inr k"
    using interior_insert_idx_from [OF r, of 0] by (simp add: m_def k_def)
  have ins: "insert_interior_cell_into_page page pid c = Inr (page', True)"
    by (simp only: insert_interior_cell_into_page_def
        read_page_header_repr [OF pr] free_space_repr [OF pr] bs_def [symmetric]
        idx L(2) m_def [symmetric] cco_repr(2) [OF pr]
        sub ok_or_simps uco h'_def [symmetric] Let_def nfull if_False bind_r_Inr place)
  have len: "length page' = length page"
    using fb hs km by (simp add: page'_def ps'_def G'_def page P)
  have qd: "list_all2 (cell_at interior_cell_from_bytes (length page - length C) C) ps cs"
    using r by (simp add: cells_repr_def)
  have "(word_of_nat (Suc (length ps)) :: u16) = word_of_nat (unat (ph_num_cells h)) + 1"
    unfolding L(1,2) by simp
  then have nn: "ph_num_cells h + 1 = word_of_nat (Suc (length ps))"
    unfolding of_nat_unat ucast_id by simp
  have h'': "h' = h\<lparr>ph_num_cells := word_of_nat (Suc (length ps)), ph_cell_content_offset := word_of_nat co\<rparr>"
    unfolding h'_def nn ..
  have rt: "interior_cell_from_bytes (bs @ rest) = Inr c" for rest
    unfolding bs_def by (rule interior_cell_roundtrip_rest)
  have ne: "bs \<noteq> []" using length_interior_cell_to_bytes(1) [of c] unfolding bs_def by auto
  have "cells_repr interior_cell_from_bytes pid page' P h' ps' G' (bs @ C) (take k cs @ c # drop k cs)"
    unfolding ps'_def
    by (rule placed_repr [OF r qd rt ne h'' co_def page'_def [unfolded ps'_def] len])
  moreover have "take k cs @ c # drop k cs = insert_separator c cs"
    unfolding insert_separator_def k_def takeWhile_eq_take [symmetric] dropWhile_eq_drop [symmetric] ..
  moreover have "ph_page_type h' = ph_page_type h" "ph_right_child h' = ph_right_child h"
    by (simp_all add: h'_def)
  ultimately show ?thesis using ins len unfolding bs_def by auto
qed

section \<open>Properties\<close>

text \<open>Insertion into an interior page whose bytes stand for the separators \<open>cs\<close> is refused
  exactly when the free space is below the cell and its pointer, and otherwise puts the
  new separator in front of the first larger one; children and right child of the page stay.\<close>

theorem insert_interior_refines:
  assumes "cells_repr interior_cell_from_bytes pid page P h ps G C cs"
  shows "if length G < length (interior_cell_to_bytes c) + 2
    then insert_interior_cell_into_page page pid c = Inr (page, False)
    else \<exists>page'. insert_interior_cell_into_page page pid c = Inr (page', True) \<and>
      interior_view pid page' = Inr (insert_separator c cs, ph_right_child h) \<and>
      length page' = length page \<and> take (page_header_offset pid) page' = P"
proof (cases "length G < length (interior_cell_to_bytes c) + 2")
  case True
  have pr: "page_repr pid page P h ps G C" using assms(1) by (simp add: cells_repr_def)
  show ?thesis using True
    by (simp add: insert_interior_cell_into_page_def read_page_header_repr [OF pr]
        free_space_repr [OF pr] Let_def)
next
  case False
  then obtain page' h' ps' G' where i: "insert_interior_cell_into_page page pid c = Inr (page', True)"
    "cells_repr interior_cell_from_bytes pid page' P h' ps' G' (interior_cell_to_bytes c @ C)
      (insert_separator c cs)" "length page' = length page" "ph_right_child h' = ph_right_child h"
    using insert_interior_fits [OF assms, of c] by fastforce
  moreover have "take (page_header_offset pid) page' = P"
    using i(2) by (auto simp: cells_repr_def page_repr_def)
  ultimately show ?thesis using False interior_view_cells [OF i(2)] by auto
qed

theorem insert_interior_refines_witness:
  "let h = \<lparr>ph_page_type = TableInterior, ph_flags = 0, ph_num_cells = 0,
             ph_cell_content_offset = 100, ph_first_freeblock = 0, ph_right_child = Some 5\<rparr>;
       page = header_to_bytes h @ replicate 88 0 @ replicate 40 0;
       c = \<lparr>ic_left_child = 4, ic_row_id = 77\<rparr> in
    if length (replicate 88 (0::u8)) < length (interior_cell_to_bytes c) + 2
    then insert_interior_cell_into_page page 2 c = Inr (page, False)
    else \<exists>page'. insert_interior_cell_into_page page 2 c = Inr (page', True) \<and>
      interior_view 2 page' = Inr (insert_separator c [], ph_right_child h) \<and>
      length page' = length page \<and> take (page_header_offset 2) page' = []"
  unfolding Let_def
  by (rule insert_interior_refines [where ps = "[]" and C = "replicate 40 0"])
     (simp add: cells_repr_def page_repr_def page_header_offset_def wf_header_def is_interior_def
        header_size_def PAGE_RESERVED_TRAILER_def)

end
