(* ===== verification/Btree_Engine.thy ===== *)
theory Btree_Engine
  imports Interior_Insert Pager_Tx
begin

text \<open>
  \<^verbatim>\<open>src/src/btree/engine.rs\<close>, the operations on a whole tree over the pager: overflow chains,
  search, insertion with page splits, scans and deletion. The recursions follow page numbers
  stored in pages, which nothing in the code keeps from forming a cycle; they take fuel, and
  \<open>None\<close> stands for a run that has not returned.

  A closure passed to \<^verbatim>\<open>modify_page\<close> that fails leaves the page buffer as it was here
  (\<open>in_place\<close>); in the source the buffer may have been partly written by then.
\<close>

section \<open>Overflow chains\<close>

definition MAX_INLINE_PAYLOAD :: nat where "MAX_INLINE_PAYLOAD = 1024"

definition overflow_chunk :: "nat \<Rightarrow> nat" where
  "overflow_chunk psize = psize - (6 + PAGE_RESERVED_TRAILER)"

text \<open>A page of a chain: next page, length, data.\<close>

definition overflow_image :: "nat \<Rightarrow> bytes \<Rightarrow> bytes result" where
  "overflow_image psize chunk =
     bind_r (put_r (replicate psize 0) 0 (to_le32 0)) (\<lambda>b.
     bind_r (put_r b 4 (to_le16 (word_of_nat (length chunk)))) (\<lambda>b.
     put_r b 6 chunk))"

definition link_overflow :: "crc_fun \<Rightarrow> page_id option \<Rightarrow> page_id \<Rightarrow> (pager, unit) sm" where
  "link_overflow crc prev next_id =
     (case prev of
        None \<Rightarrow> ret_s ()
      | Some prev_id \<Rightarrow>
          bind_s (read_page prev_id) (\<lambda>buf.
          bind_s (lift_s (put_r buf 0 (to_le32 next_id))) (write_page crc prev_id)))"

function overflow_loop ::
    "crc_fun \<Rightarrow> nat \<Rightarrow> bytes \<Rightarrow> page_id option \<Rightarrow> page_id option \<Rightarrow> (pager, page_id) sm" where
  "overflow_loop crc psize remaining head prev =
     (if remaining = [] \<or> overflow_chunk psize = 0
      then ret_s (case head of None \<Rightarrow> 0 | Some h \<Rightarrow> h)
      else
        bind_s (allocate_page crc) (\<lambda>cur.
        bind_s (link_overflow crc prev cur) (\<lambda>_.
        bind_s (lift_s (overflow_image psize (take (overflow_chunk psize) remaining))) (\<lambda>img.
        bind_s (write_page crc cur img) (\<lambda>_.
        overflow_loop crc psize (drop (overflow_chunk psize) remaining)
          (Some (case head of None \<Rightarrow> cur | Some h \<Rightarrow> h)) (Some cur))))))"
  by pat_completeness auto
termination
  by (relation "measure (\<lambda>(crc, ps, rest, h, p). length rest)") auto

declare overflow_loop.simps [simp del]

definition write_overflow_chain :: "crc_fun \<Rightarrow> bytes \<Rightarrow> (pager, page_id) sm" where
  "write_overflow_chain crc bs p =
     (if overflow_chunk (page_size p) = 0
      then (Inl (Corrupted ''Page size too small for overflow chaining''), p)
      else overflow_loop crc (page_size p) bs None None p)"

text \<open>The next page and the data of a chain page.\<close>

definition overflow_next :: "bytes \<Rightarrow> page_id result" where
  "overflow_next buf = bind_r (slice_r buf 0 4) (\<lambda>b. Inr (from_le32 b))"

definition overflow_data :: "nat \<Rightarrow> bytes \<Rightarrow> (page_id \<times> bytes) result" where
  "overflow_data psize buf =
     bind_r (overflow_next buf) (\<lambda>next_page.
     bind_r (slice_r buf 4 6) (\<lambda>b.
       let chunk_len = unat (from_le16 b) in
       if chunk_len > overflow_chunk psize
       then Inl (Corrupted ''Overflow page {curr} chunk length {chunk_len} exceeds usable capacity {max_chunk}'')
       else bind_r (slice_r buf 6 (6 + chunk_len)) (\<lambda>d. Inr (next_page, d))))"

fun read_chain :: "nat \<Rightarrow> nat \<Rightarrow> page_id \<Rightarrow> bytes \<Rightarrow> (pager, bytes) om" where
  "read_chain 0 psize cur out = (\<lambda>_. None)"
| "read_chain (Suc fuel) psize cur out =
     (if cur = 0 then ret_o out
      else bind_o (run_o (read_page cur)) (\<lambda>buf.
           bind_o (run_o (lift_s (overflow_data psize buf))) (\<lambda>(next_page, d).
           read_chain fuel psize next_page (out @ d))))"

definition read_overflow_chain :: "nat \<Rightarrow> page_id \<Rightarrow> (pager, bytes) om" where
  "read_overflow_chain fuel first p = read_chain fuel (page_size p) first [] p"

fun free_chain :: "nat \<Rightarrow> crc_fun \<Rightarrow> nat \<Rightarrow> page_id \<Rightarrow> (pager, unit) om" where
  "free_chain 0 crc psize cur = (\<lambda>_. None)"
| "free_chain (Suc fuel) crc psize cur =
     (if cur = 0 then ret_o ()
      else bind_o (run_o (read_page cur)) (\<lambda>buf.
           bind_o (run_o (lift_s (overflow_next buf))) (\<lambda>next_page.
           bind_o (run_o (write_page crc cur (replicate psize 0))) (\<lambda>_.
           bind_o (run_o (free_page crc cur)) (\<lambda>_.
           free_chain fuel crc psize next_page)))))"

definition free_overflow_chain :: "nat \<Rightarrow> crc_fun \<Rightarrow> page_id \<Rightarrow> (pager, unit) om" where
  "free_overflow_chain fuel crc first p = free_chain fuel crc (page_size p) first p"

section \<open>Search\<close>

text \<open>The child an interior page routes a key to, with the index of its cell; \<open>None\<close> is the right
  child.\<close>

fun route_from :: "bytes \<Rightarrow> page_id \<Rightarrow> u64 \<Rightarrow> page_id \<Rightarrow> nat list \<Rightarrow> (page_id \<times> nat option) result" where
  "route_from page pid key rc [] = Inr (rc, None)"
| "route_from page pid key rc (i # is) =
     bind_r (read_interior_cell page pid i) (\<lambda>c.
       if key \<le> ic_row_id c then Inr (ic_left_child c, Some i) else route_from page pid key rc is)"

definition route :: "bytes \<Rightarrow> page_id \<Rightarrow> u64 \<Rightarrow> page_header \<Rightarrow> (page_id \<times> nat option) result" where
  "route page pid key h =
     bind_r (ok_or (Corrupted ''Interior node missing right_child'') (ph_right_child h)) (\<lambda>rc.
       route_from page pid key rc [0..<unat (ph_num_cells h)])"

datatype search_step = LeafStep "(bytes \<times> page_id option) option" | InteriorStep page_id

definition search_page :: "page_id \<Rightarrow> u64 \<Rightarrow> bytes \<Rightarrow> search_step result" where
  "search_page pid key page =
     bind_r (read_page_header page pid) (\<lambda>h.
       case ph_page_type h of
         TableLeaf \<Rightarrow>
           bind_r (find_leaf_cell_index_by_key page pid key) (\<lambda>r.
             case r of
               Found i \<Rightarrow> bind_r (read_leaf_cell page pid i) (\<lambda>c.
                   Inr (LeafStep (Some (lc_payload c, lc_overflow_page c))))
             | NotFound _ \<Rightarrow> Inr (LeafStep None))
       | TableInterior \<Rightarrow> bind_r (route page pid key h) (\<lambda>(child, _). Inr (InteriorStep child))
       | _ \<Rightarrow> Inl (Corrupted ''Unexpected page type {other:?} encountered during BTree search''))"

text \<open>A payload completed from its chain.\<close>

definition with_overflow :: "nat \<Rightarrow> bytes \<Rightarrow> page_id option \<Rightarrow> (pager, bytes) om" where
  "with_overflow fuel payload ovf =
     (case ovf of
        None \<Rightarrow> ret_o payload
      | Some first \<Rightarrow> bind_o (read_overflow_chain fuel first) (\<lambda>d. ret_o (payload @ d)))"

fun btree_search :: "nat \<Rightarrow> page_id \<Rightarrow> u64 \<Rightarrow> (pager, bytes option) om" where
  "btree_search 0 pid key = (\<lambda>_. None)"
| "btree_search (Suc fuel) pid key =
     bind_o (run_o (with_page pid (search_page pid key))) (\<lambda>st.
       case st of
         LeafStep None \<Rightarrow> ret_o None
       | LeafStep (Some (payload, ovf)) \<Rightarrow> bind_o (with_overflow fuel payload ovf) (\<lambda>d. ret_o (Some d))
       | InteriorStep child \<Rightarrow> btree_search fuel child key)"

section \<open>Insertion\<close>

definition in_place :: "(bytes \<Rightarrow> (bytes \<times> 'r) result) \<Rightarrow> bytes \<Rightarrow> 'r result \<times> bytes" where
  "in_place f buf = (case f buf of Inl e \<Rightarrow> (Inl e, buf) | Inr (buf', r) \<Rightarrow> (Inr r, buf'))"

text \<open>The loops of the splits ignore the flag of each insertion.\<close>

definition fill_leaf :: "page_id \<Rightarrow> table_leaf_cell list \<Rightarrow> bytes \<Rightarrow> bytes result" where
  "fill_leaf pid cells page =
     bind_r (init_leaf_page page pid) (fold_r (\<lambda>c b.
       bind_r (insert_leaf_cell_into_page b pid c) (\<lambda>(b', _). Inr b')) cells)"

definition fill_interior :: "page_id \<Rightarrow> page_id \<Rightarrow> table_interior_cell list \<Rightarrow> bytes \<Rightarrow> bytes result" where
  "fill_interior pid rc cells page =
     bind_r (init_interior_page page pid rc) (fold_r (\<lambda>c b.
       bind_r (insert_interior_cell_into_page b pid c) (\<lambda>(b', _). Inr b')) cells)"

text \<open>A new buffer for a page that keeps the database header of page 1.\<close>

definition keep_db_header :: "page_id \<Rightarrow> bytes \<Rightarrow> nat \<Rightarrow> bytes result" where
  "keep_db_header pid old psize =
     (if pid = 1
      then bind_r (slice_r old 0 DATABASE_HEADER_SIZE) (put_r (replicate psize 0) 0)
      else Inr (replicate psize 0))"

text \<open>The key of the last cell, when the append shortcut looks at it.\<close>

definition last_row_id :: "bytes \<Rightarrow> page_id \<Rightarrow> nat \<Rightarrow> u64 option result" where
  "last_row_id page pid num_cells =
     (if pid \<noteq> 1 \<and> num_cells \<ge> 2
      then bind_r (read_cell_pointer page pid (num_cells - 1)) (\<lambda>p.
        if unat p < length page
        then bind_r (decode_varint (drop (unat p) page)) (\<lambda>(_, n1).
             bind_r (from_r page (unat p + n1)) (\<lambda>rest.
             bind_r (decode_varint rest) (\<lambda>(row_id, _). Inr (Some row_id))))
        else Inr None)
      else Inr None)"

definition new_leaf :: "crc_fun \<Rightarrow> table_leaf_cell list \<Rightarrow> (pager, page_id) sm" where
  "new_leaf crc cells =
     bind_s (allocate_page crc) (\<lambda>pid p.
       bind_s (lift_s (fill_leaf pid cells (replicate (page_size p) 0))) (\<lambda>buf.
       bind_s (write_page crc pid buf) (\<lambda>_. ret_s pid)) p)"

text \<open>The general case: all cells in key order, the lower half stays.\<close>

definition split_halves ::
    "crc_fun \<Rightarrow> page_id \<Rightarrow> bytes \<Rightarrow> table_leaf_cell \<Rightarrow> page_header \<Rightarrow> (pager, page_id \<times> u64) sm" where
  "split_halves crc left_id page new_cell h =
     bind_s (lift_s (map_r (read_leaf_cell page left_id) [0..<unat (ph_num_cells h)])) (\<lambda>old_cells.
       let all_cells = sort_key lc_row_id (old_cells @ [new_cell]);
           m = length all_cells div 2;
           left_cells = take m all_cells; right_cells = drop m all_cells in
       if left_cells = [] then (\<lambda>p. (Inl Panic, p))
       else bind_s (new_leaf crc right_cells) (\<lambda>right_id p.
            bind_s (lift_s (bind_r (keep_db_header left_id page (page_size p)) (fill_leaf left_id left_cells))) (\<lambda>buf.
            bind_s (write_page crc left_id buf) (\<lambda>_. ret_s (right_id, lc_row_id (last left_cells)))) p))"

definition split_leaf_page ::
    "crc_fun \<Rightarrow> page_id \<Rightarrow> bytes \<Rightarrow> table_leaf_cell \<Rightarrow> (pager, page_id \<times> u64) sm" where
  "split_leaf_page crc left_id page new_cell =
     bind_s (lift_s (read_page_header page left_id)) (\<lambda>h.
     bind_s (lift_s (last_row_id page left_id (unat (ph_num_cells h)))) (\<lambda>last_id.
       case last_id of
         Some k \<Rightarrow>
           if lc_row_id new_cell > k
           then bind_s (new_leaf crc [new_cell]) (\<lambda>right_id. ret_s (right_id, k))
           else split_halves crc left_id page new_cell h
       | None \<Rightarrow> split_halves crc left_id page new_cell h))"

definition split_interior_page ::
    "crc_fun \<Rightarrow> page_id \<Rightarrow> bytes \<Rightarrow> table_interior_cell \<Rightarrow> page_id option \<Rightarrow> (pager, page_id \<times> u64) sm" where
  "split_interior_page crc left_id page new_cell new_right_child =
     bind_s (lift_s (read_page_header page left_id)) (\<lambda>h.
     bind_s (lift_s (map_r (read_interior_cell page left_id) [0..<unat (ph_num_cells h)])) (\<lambda>old_cells.
       let all_cells = sort_key ic_row_id (old_cells @ [new_cell]);
           m = length all_cells div 2;
           right_child = (case new_right_child of
               Some rc \<Rightarrow> rc
             | None \<Rightarrow> (case ph_right_child h of None \<Rightarrow> 0 | Some rc \<Rightarrow> rc)) in
       bind_s (allocate_page crc) (\<lambda>right_id p.
         bind_s (lift_s (fill_interior right_id right_child (drop (m + 1) all_cells)
                   (replicate (page_size p) 0))) (\<lambda>right_buf.
         bind_s (write_page crc right_id right_buf) (\<lambda>_ p.
         bind_s (lift_s (bind_r (keep_db_header left_id page (page_size p))
                   (fill_interior left_id (ic_left_child (all_cells ! m)) (take m all_cells)))) (\<lambda>left_buf.
         bind_s (write_page crc left_id left_buf) (\<lambda>_.
         ret_s (right_id, ic_row_id (all_cells ! m)))) p)) p)))"

text \<open>The closures of the recursion.\<close>

definition page_type_of :: "page_id \<Rightarrow> bytes \<Rightarrow> page_type result" where
  "page_type_of pid page = bind_r (read_page_header page pid) (\<lambda>h. Inr (ph_page_type h))"

definition old_overflow_of :: "page_id \<Rightarrow> u64 \<Rightarrow> bytes \<Rightarrow> page_id option result" where
  "old_overflow_of pid key page =
     bind_r (find_leaf_cell_index_by_key page pid key) (\<lambda>r.
       case r of
         Found i \<Rightarrow> bind_r (read_leaf_cell page pid i) (\<lambda>c. Inr (lc_overflow_page c))
       | NotFound _ \<Rightarrow> Inr None)"

definition route_page :: "page_id \<Rightarrow> u64 \<Rightarrow> bytes \<Rightarrow> (page_id \<times> nat option) result" where
  "route_page pid key page = bind_r (read_page_header page pid) (route page pid key)"

definition add_separator ::
    "page_id \<Rightarrow> table_interior_cell \<Rightarrow> page_id option \<Rightarrow> bytes \<Rightarrow> (bytes \<times> bool) result" where
  "add_separator pid cell new_rc page =
     bind_r (insert_interior_cell_into_page page pid cell) (\<lambda>(page', ok).
       case new_rc of
         Some rc \<Rightarrow>
           if ok then bind_r (read_page_header page' pid) (\<lambda>h.
             bind_r (write_page_header page' pid (h\<lparr>ph_right_child := Some rc\<rparr>)) (\<lambda>page''. Inr (page'', ok)))
           else Inr (page', ok)
       | None \<Rightarrow> Inr (page', ok))"

definition free_old :: "nat \<Rightarrow> crc_fun \<Rightarrow> page_id option \<Rightarrow> (pager, unit) om" where
  "free_old fuel crc ovf = (case ovf of None \<Rightarrow> ret_o () | Some first \<Rightarrow> free_overflow_chain fuel crc first)"

fun insert_into_subtree ::
    "nat \<Rightarrow> crc_fun \<Rightarrow> page_id \<Rightarrow> u64 \<Rightarrow> bytes \<Rightarrow> page_id option \<Rightarrow> (pager, (page_id \<times> u64) option) om" where
  "insert_into_subtree 0 crc pid key payload ovf = (\<lambda>_. None)"
| "insert_into_subtree (Suc fuel) crc pid key payload ovf =
     bind_o (run_o (with_page pid (page_type_of pid))) (\<lambda>t.
       case t of
         TableLeaf \<Rightarrow>
           bind_o (run_o (with_page pid (old_overflow_of pid key))) (\<lambda>old.
           bind_o (run_o (modify_page crc pid (in_place (\<lambda>b. insert_leaf_cell_raw b pid key payload ovf)))) (\<lambda>inserted.
           bind_o (free_old fuel crc old) (\<lambda>_.
             if inserted then ret_o None
             else bind_o (run_o (read_page pid)) (\<lambda>page.
                  bind_o (run_o (split_leaf_page crc pid page
                     \<lparr>lc_row_id = key, lc_payload = payload, lc_overflow_page = ovf\<rparr>)) (\<lambda>r. ret_o (Some r))))))
       | TableInterior \<Rightarrow>
           bind_o (run_o (with_page pid (route_page pid key))) (\<lambda>(child, idx).
           bind_o (insert_into_subtree fuel crc child key payload ovf) (\<lambda>child_split.
             case child_split of
               None \<Rightarrow> ret_o None
             | Some (new_child, k) \<Rightarrow>
                 let cell = \<lparr>ic_left_child = child, ic_row_id = k\<rparr>;
                     new_rc = (if idx = None then Some new_child else None) in
                 bind_o (run_o (modify_page crc pid (in_place (add_separator pid cell new_rc)))) (\<lambda>can_fit.
                   if can_fit then ret_o None
                   else bind_o (run_o (read_page pid)) (\<lambda>page.
                        bind_o (run_o (split_interior_page crc pid page cell new_rc)) (\<lambda>r. ret_o (Some r))))))
       | _ \<Rightarrow> fail_o (Corrupted ''Invalid page type for insertion: {other:?}''))"

text \<open>The old content of page 1 rebuilt on another page, at another header offset.\<close>

definition move_root :: "page_id \<Rightarrow> page_id \<Rightarrow> bytes \<Rightarrow> nat \<Rightarrow> bytes result" where
  "move_root root left_id old psize =
     (if root \<noteq> 1 then Inr old
      else bind_r (read_page_header old root) (\<lambda>h.
        case ph_page_type h of
          TableLeaf \<Rightarrow> bind_r (map_r (read_leaf_cell old root) [0..<unat (ph_num_cells h)]) (\<lambda>cells.
            fill_leaf left_id cells (replicate psize 0))
        | TableInterior \<Rightarrow> bind_r (map_r (read_interior_cell old root) [0..<unat (ph_num_cells h)]) (\<lambda>cells.
            fill_interior left_id (case ph_right_child h of None \<Rightarrow> 0 | Some rc \<Rightarrow> rc) cells (replicate psize 0))
        | _ \<Rightarrow> if length old = psize then Inr old else Inl Panic))"

definition grow_root :: "crc_fun \<Rightarrow> page_id \<Rightarrow> page_id \<Rightarrow> u64 \<Rightarrow> (pager, unit) sm" where
  "grow_root crc root right_id k =
     bind_s (allocate_page crc) (\<lambda>left_id.
     bind_s (read_page root) (\<lambda>old p.
     bind_s (lift_s (move_root root left_id old (page_size p))) (\<lambda>left_buf.
     bind_s (write_page crc left_id left_buf) (\<lambda>_ p.
     bind_s (lift_s (fill_interior root right_id [\<lparr>ic_left_child = left_id, ic_row_id = k\<rparr>]
               (replicate (page_size p) 0))) (write_page crc root) p)) p))"

definition btree_insert :: "nat \<Rightarrow> crc_fun \<Rightarrow> page_id \<Rightarrow> u64 \<Rightarrow> bytes \<Rightarrow> (pager, unit) om" where
  "btree_insert fuel crc root key payload =
     bind_o (run_o (if length payload > MAX_INLINE_PAYLOAD
         then bind_s (write_overflow_chain crc (drop MAX_INLINE_PAYLOAD payload)) (\<lambda>first. ret_s (Some first))
         else ret_s None)) (\<lambda>ovf.
     bind_o (insert_into_subtree fuel crc root key (take MAX_INLINE_PAYLOAD payload) ovf) (\<lambda>split.
       case split of
         None \<Rightarrow> ret_o ()
       | Some (right_id, k) \<Rightarrow> run_o (grow_root crc root right_id k)))"

section \<open>Scans\<close>

text \<open>A callback takes its own state and returns it; it stops the scan with \<open>False\<close>.\<close>

type_synonym ('x, 'c) callback = "'x \<Rightarrow> 'c \<Rightarrow> bool result \<times> 'c"

definition on_pager :: "(pager, 'a) om \<Rightarrow> (pager \<times> 'c, 'a) om" where
  "on_pager m s = (case m (fst s) of None \<Rightarrow> None | Some (r, p) \<Rightarrow> Some (r, p, snd s))"

definition on_callback :: "('x, 'c) callback \<Rightarrow> 'x \<Rightarrow> (pager \<times> 'c, bool) om" where
  "on_callback cb x s = (case cb x (snd s) of (r, c) \<Rightarrow> Some (r, fst s, c))"

text \<open>Items in order until one of them stops.\<close>

fun until_false :: "('i \<Rightarrow> ('s, bool) om) \<Rightarrow> 'i list \<Rightarrow> ('s, bool) om" where
  "until_false f [] = ret_o True"
| "until_false f (x # xs) = bind_o (f x) (\<lambda>go. if go then until_false f xs else ret_o False)"

definition scan_cell :: "nat \<Rightarrow> page_id \<Rightarrow> bytes \<Rightarrow> (table_leaf_cell, 'c) callback \<Rightarrow> nat \<Rightarrow> (pager \<times> 'c, bool) om" where
  "scan_cell fuel pid page cb i =
     bind_o (run_o (lift_s (read_leaf_cell page pid i))) (\<lambda>cell.
     bind_o (on_pager (with_overflow fuel (lc_payload cell) (lc_overflow_page cell))) (\<lambda>d.
     on_callback cb (cell\<lparr>lc_payload := d, lc_overflow_page := None\<rparr>)))"

text \<open>The children of an interior page, the right child last.\<close>

definition scan_child :: "(page_id \<Rightarrow> ('s, bool) om) \<Rightarrow> bytes \<Rightarrow> page_id \<Rightarrow> nat \<Rightarrow> ('s, bool) om" where
  "scan_child sub page pid i = bind_o (run_o (lift_s (read_interior_cell page pid i))) (\<lambda>c. sub (ic_left_child c))"

fun scan_subtree_with :: "nat \<Rightarrow> (table_leaf_cell, 'c) callback \<Rightarrow> page_id \<Rightarrow> (pager \<times> 'c, bool) om" where
  "scan_subtree_with 0 cb pid = (\<lambda>_. None)"
| "scan_subtree_with (Suc fuel) cb pid =
     bind_o (on_pager (run_o (read_page pid))) (\<lambda>page.
     bind_o (run_o (lift_s (read_page_header page pid))) (\<lambda>h.
       case ph_page_type h of
         TableLeaf \<Rightarrow> until_false (scan_cell fuel pid page cb) [0..<unat (ph_num_cells h)]
       | TableInterior \<Rightarrow>
           bind_o (until_false (scan_child (scan_subtree_with fuel cb) page pid) [0..<unat (ph_num_cells h)]) (\<lambda>go.
             if \<not> go then ret_o False
             else case ph_right_child h of None \<Rightarrow> ret_o True | Some rc \<Rightarrow> scan_subtree_with fuel cb rc)
       | _ \<Rightarrow> fail_o (Corrupted ''Invalid page type during scan: {other:?}'')))"

definition btree_scan :: "nat \<Rightarrow> page_id \<Rightarrow> (pager, table_leaf_cell list) om" where
  "btree_scan fuel root p =
     (case scan_subtree_with fuel (\<lambda>cell cells. (Inr True, cells @ [cell])) root (p, []) of
        None \<Rightarrow> None
      | Some (Inl e, p', _) \<Rightarrow> Some (Inl e, p')
      | Some (Inr _, p', cells) \<Rightarrow> Some (Inr cells, p'))"

text \<open>The scan over borrowed payloads parses cells on its own.\<close>

definition leaf_slot :: "bytes \<Rightarrow> page_id \<Rightarrow> nat \<Rightarrow> (u64 \<times> bytes \<times> page_id) result" where
  "leaf_slot page pid i =
     bind_r (read_cell_pointer page pid i) (\<lambda>p.
       let ptr = unat p in
       if ptr \<ge> length page then Inl (Corrupted ''Cell pointer points past end of page'')
       else bind_r (decode_varint (drop ptr page)) (\<lambda>(payload_size, n1).
            bind_r (from_r page (ptr + n1)) (\<lambda>rest.
            bind_r (decode_varint rest) (\<lambda>(row_id, n2).
              let offset = ptr + n1 + n2; payload_len = unat payload_size in
              bind_r (usize_add offset payload_len) (\<lambda>payload_end.
              bind_r (usize_add payload_end 4) (\<lambda>cell_end.
                if length page < cell_end
                then Inl (Corrupted ''Truncated cell payload or overflow pointer'')
                else Inr (row_id, take payload_len (drop offset page), u32_at page payload_end)))))))"

definition scan_slot :: "nat \<Rightarrow> page_id \<Rightarrow> bytes \<Rightarrow> (u64 \<times> bytes, 'c) callback \<Rightarrow> nat \<Rightarrow> (pager \<times> 'c, bool) om" where
  "scan_slot fuel pid page cb i =
     bind_o (run_o (lift_s (leaf_slot page pid i))) (\<lambda>(row_id, payload, overflow).
       if overflow = 0 then on_callback cb (row_id, payload)
       else bind_o (on_pager (read_overflow_chain fuel overflow)) (\<lambda>d. on_callback cb (row_id, payload @ d)))"

fun scan_subtree_with_ref :: "nat \<Rightarrow> (u64 \<times> bytes, 'c) callback \<Rightarrow> page_id \<Rightarrow> (pager \<times> 'c, bool) om" where
  "scan_subtree_with_ref 0 cb pid = (\<lambda>_. None)"
| "scan_subtree_with_ref (Suc fuel) cb pid =
     bind_o (on_pager (run_o (read_page pid))) (\<lambda>page.
     bind_o (run_o (lift_s (read_page_header page pid))) (\<lambda>h.
       case ph_page_type h of
         TableLeaf \<Rightarrow> until_false (scan_slot fuel pid page cb) [0..<unat (ph_num_cells h)]
       | TableInterior \<Rightarrow>
           bind_o (until_false (scan_child (scan_subtree_with_ref fuel cb) page pid) [0..<unat (ph_num_cells h)]) (\<lambda>go.
             if \<not> go then ret_o False
             else case ph_right_child h of None \<Rightarrow> ret_o True | Some rc \<Rightarrow> scan_subtree_with_ref fuel cb rc)
       | _ \<Rightarrow> fail_o (Corrupted ''Invalid page type during scan: {other:?}'')))"

section \<open>Deletion\<close>

fun delete_from_subtree :: "nat \<Rightarrow> crc_fun \<Rightarrow> page_id \<Rightarrow> u64 \<Rightarrow> (pager, bool) om" where
  "delete_from_subtree 0 crc pid key = (\<lambda>_. None)"
| "delete_from_subtree (Suc fuel) crc pid key =
     bind_o (run_o (read_page pid)) (\<lambda>page.
     bind_o (run_o (lift_s (read_page_header page pid))) (\<lambda>h.
       case ph_page_type h of
         TableLeaf \<Rightarrow>
           bind_o (run_o (lift_s (old_overflow_of pid key page))) (\<lambda>ovf.
           bind_o (run_o (lift_s (delete_leaf_cell_from_page page pid key))) (\<lambda>(page', deleted).
             if deleted
             then bind_o (run_o (write_page crc pid page')) (\<lambda>_.
                  bind_o (free_old fuel crc ovf) (\<lambda>_. ret_o True))
             else ret_o False))
       | TableInterior \<Rightarrow>
           bind_o (run_o (lift_s (route page pid key h))) (\<lambda>(child, _). delete_from_subtree fuel crc child key)
       | _ \<Rightarrow> fail_o (Corrupted ''Invalid page type for deletion: {other:?}'')))"

end
