(* ===== verification/Pager_View.thy ===== *)
theory Pager_View
  imports Pager_Steps
begin

text \<open>
  The pages a caller sees through the cache (\<open>page_view\<close>) and what each operation does to them
  inside a transaction: reads change nothing, writes change their page, an allocation from the
  end of the file adds a page of zeros. The tree over the pager is reasoned about with these
  laws alone.
\<close>

section \<open>Reads\<close>

text \<open>A cached page that may be evicted is on disk as it is in the cache.\<close>

definition pages_match :: "pager \<Rightarrow> bool" where
  "pages_match p \<longleftrightarrow> (\<forall>pid d. evictable p pid \<and> pg_pages p pid = Some d \<and> pid \<noteq> 0 \<and> pid \<le> total_pages p \<longrightarrow>
     stored_page p pid = Some d)"

lemma read_only_view:
  assumes m: "pages_match p" and ro: "read_only_step p p'"
  shows "pages_match p' \<and> page_view p' = page_view p"
proof -
  have tx: "pg_tx p' = pg_tx p" and h: "pg_header p' = pg_header p" and bl: "backing_like p' p"
    and pg: "\<And>q. pg_pages p' q = pg_pages p q \<or> (evictable p q \<and> pg_pages p' q = None) \<or>
          (pg_pages p q = None \<and> pg_pages p' q = stored_page p q)"
    using ro by (auto simp: read_only_step_def)
  have ev: "evictable p' = evictable p" by (rule evictable_cong) (rule tx)
  have st: "stored_page p' q = stored_page p q" for q by (rule backing_like_stored [OF bl])
  have tp: "total_pages p' = total_pages p" by (simp add: total_pages_def h)
  have "pages_match p'"
    unfolding pages_match_def ev tp st
  proof (intro allI impI, elim conjE)
    fix q d assume q: "evictable p q" "pg_pages p' q = Some d" "q \<noteq> 0" "q \<le> total_pages p"
    from pg [of q] show "stored_page p q = Some d"
    proof (elim disjE conjE)
      assume "pg_pages p' q = pg_pages p q"
      then have "pg_pages p q = Some d" using q by simp
      then show ?thesis using m q by (simp add: pages_match_def)
    qed (use q in simp_all)
  qed
  moreover have "page_view p' q = page_view p q" for q
  proof (cases "q = 0 \<or> q > total_pages p")
    case False
    then have q: "q \<noteq> 0" "q \<le> total_pages p" by auto
    show ?thesis
      using pg [of q]
    proof (elim disjE conjE)
      assume e: "evictable p q" "pg_pages p' q = None"
      then show ?thesis
        using m q False unfolding pages_match_def
        by (cases "pg_pages p q") (auto simp: page_view_def st tp)
    qed (use False in \<open>auto simp: page_view_def st tp split: option.splits\<close>)
  qed (simp add: page_view_def tp)
  ultimately show ?thesis by blast
qed

lemma cache_loaded_result: "fst (cache_loaded pid raw p) = decode_page p pid raw"
  by (simp add: cache_loaded_def split: sum.splits)

lemma decode_page_file [simp]: "decode_page (p\<lparr>pg_file := f\<rparr>) = decode_page p"
proof (intro ext)
  fix pid raw
  have "is_compressed (p\<lparr>pg_file := f\<rparr>) = is_compressed p" "page_size (p\<lparr>pg_file := f\<rparr>) = page_size p"
    by (simp_all add: is_compressed_def page_size_def)
  then have "decompress_if_needed (p\<lparr>pg_file := f\<rparr>) = decompress_if_needed p"
    by (intro ext) (simp only: decompress_if_needed_def)
  then show "decode_page (p\<lparr>pg_file := f\<rparr>) pid raw = decode_page p pid raw" by (simp add: decode_page_def)
qed

lemma read_page_ok:
  assumes r: "ensure_io_ready p = Inr ()" and v: "page_view p pid = Some d"
  shows "fst (read_page pid p) = Inr d"
proof -
  have pid: "pid \<noteq> 0" "\<not> pid > total_pages p" using v by (auto simp: page_view_def split: if_splits)
  show ?thesis
  proof (cases "pg_pages p pid")
    case (Some x)
    then show ?thesis using r v pid by (simp add: read_page_def page_view_def)
  next
    case None
    then have s: "stored_page p pid = Some d" using v pid by (simp add: page_view_def)
    show ?thesis
    proof (cases "case pg_wal p of None \<Rightarrow> None | Some w \<Rightarrow> wal_read_page w pid")
      case (Some raw)
      then show ?thesis
        using r pid None s by (simp add: read_page_def stored_page_def cache_loaded_result split: sum.splits)
    next
      case nowal: None
      show ?thesis
      proof (cases "pg_file p")
        case (Some f)
        then show ?thesis
          using r pid None s nowal
          by (cases "file_read_exact (page_size p) (file_seek (page_offset p pid) f)")
            (auto simp: read_page_def stored_page_def cache_loaded_result split: sum.splits)
      next
        case nofile: None
        then show ?thesis
          using r pid None s nowal
          by (cases "pg_reader p") (auto simp: read_page_def stored_page_def cache_loaded_result split: sum.splits)
      qed
    qed
  qed
qed

section \<open>Inside a transaction\<close>

text \<open>A pager in a transaction whose operations reach the cache and whose log is usable.\<close>

definition writable :: "pager \<Rightarrow> bool" where
  "writable p \<longleftrightarrow> ensure_io_ready p = Inr () \<and> is_in_transaction p \<and> \<not> pg_writer p \<and> \<not> read_only_remote p \<and>
     pages_match p"

text \<open>What stays the same along the operations of a tree.\<close>

definition same_shape :: "pager \<Rightarrow> pager \<Rightarrow> bool" where
  "same_shape p p' \<longleftrightarrow> page_size p' = page_size p \<and> total_pages p' = total_pages p \<and>
     dh_freelist_count (pg_header p') = dh_freelist_count (pg_header p)"

lemma read_only_writable:
  assumes "writable p" "read_only_step p p'"
  shows "writable p' \<and> same_shape p p' \<and> page_view p' = page_view p"
proof -
  have "pg_wal p' = pg_wal p" "pg_header p' = pg_header p" "pg_tx p' = pg_tx p" "pg_writer p' = pg_writer p"
    "pg_reader p' = pg_reader p" "pg_file p' = None \<longleftrightarrow> pg_file p = None"
    using assms(2) by (auto simp: read_only_step_def backing_like_def)
  then show ?thesis
    using assms(1) read_only_view [OF _ assms(2)]
    by (auto simp: writable_def ensure_io_ready_def is_in_transaction_def read_only_remote_def same_shape_def
        page_size_def total_pages_def)
qed

lemma same_shape_refl [simp]: "same_shape p p" by (simp add: same_shape_def)
lemma same_shape_trans: "same_shape p q \<Longrightarrow> same_shape q r \<Longrightarrow> same_shape p r" by (simp add: same_shape_def)

lemma read_page_view:
  assumes "writable p" "page_view p pid = Some d"
  obtains p' where "read_page pid p = (Inr d, p')" "writable p'" "same_shape p p'" "page_view p' = page_view p"
proof -
  obtain r p' where run: "read_page pid p = (r, p')" by force
  moreover have "r = Inr d" using read_page_ok [of p pid d] assms run by (simp add: writable_def)
  ultimately show thesis using that read_only_writable [OF assms(1)] read_page_read_only [OF run] by blast
qed

lemma page_view_valid: "page_view p pid = Some d \<Longrightarrow> pid \<noteq> 0 \<and> pid \<le> total_pages p"
  by (auto simp: page_view_def split: if_splits)

lemma writable_pages:
  assumes "writable p" "\<And>q d. evictable p q \<Longrightarrow> pages q = Some d \<Longrightarrow> q \<noteq> 0 \<Longrightarrow> q \<le> total_pages p \<Longrightarrow>
    stored_page p q = Some d"
  shows "writable (p\<lparr>pg_pages := pages\<rparr>)" "same_shape p (p\<lparr>pg_pages := pages\<rparr>)"
proof -
  have "backing_like (p\<lparr>pg_pages := pages\<rparr>) p" by (simp add: backing_like_def wal_like_def split: option.splits)
  then have "stored_page (p\<lparr>pg_pages := pages\<rparr>) q = stored_page p q" for q by (rule backing_like_stored)
  moreover have "evictable (p\<lparr>pg_pages := pages\<rparr>) = evictable p" by (rule evictable_cong) simp
  ultimately show "writable (p\<lparr>pg_pages := pages\<rparr>)"
    using assms by (auto simp: writable_def ensure_io_ready_def is_in_transaction_def read_only_remote_def
        pages_match_def total_pages_def)
qed (simp add: same_shape_def page_size_def total_pages_def)

lemma page_view_set:
  "page_view (p\<lparr>pg_pages := (pg_pages p)(pid \<mapsto> d)\<rparr>) q =
     (if q = pid \<and> q \<noteq> 0 \<and> q \<le> total_pages p then Some d else page_view p q)"
proof -
  have "backing_like (p\<lparr>pg_pages := (pg_pages p)(pid \<mapsto> d)\<rparr>) p"
    by (simp add: backing_like_def wal_like_def split: option.splits)
  then have st: "stored_page (p\<lparr>pg_pages := (pg_pages p)(pid \<mapsto> d)\<rparr>) r = stored_page p r" for r
    by (rule backing_like_stored)
  have tp: "total_pages (p\<lparr>pg_pages := (pg_pages p)(pid \<mapsto> d)\<rparr>) = total_pages p" by (simp add: total_pages_def)
  show ?thesis by (cases "q = pid") (auto simp: page_view_def st tp not_less split: option.splits)
qed

lemma ensure_loaded_view:
  assumes w: "writable p" and v: "page_view p pid = Some d"
  obtains p' where "ensure_loaded pid p = (Inr (), p')" "writable p'" "same_shape p p'" "page_view p' = page_view p"
    "pg_pages p' pid = Some d"
proof (cases "pg_pages p pid")
  case (Some x)
  then have "x = d" using v page_view_valid [OF v] by (auto simp: page_view_def split: if_splits)
  then show thesis using that [of p] Some w by (simp add: ensure_loaded_def)
next
  case None
  obtain p1 where p1: "read_page pid p = (Inr d, p1)" "writable p1" "same_shape p p1" "page_view p1 = page_view p"
    using read_page_view [OF w v] .
  have "stored_page p pid = Some d" using v None page_view_valid [OF v] by (auto simp: page_view_def split: if_splits)
  moreover have "backing_like p1 p" using read_page_read_only [OF p1(1)] by (auto simp: read_only_step_def)
  ultimately have st: "stored_page p1 pid = Some d" using backing_like_stored by metis
  let ?p = "p1\<lparr>pg_pages := (pg_pages p1)(pid \<mapsto> d)\<rparr>"
  have "writable ?p \<and> same_shape p1 ?p"
    using writable_pages [OF p1(2), of "(pg_pages p1)(pid \<mapsto> d)"] st p1(2)
    by (auto simp: writable_def pages_match_def split: if_splits)
  moreover have "page_view ?p = page_view p"
    using p1(4) v page_view_valid [OF v] by (auto simp: fun_eq_iff page_view_set)
  moreover have "ensure_loaded pid p = (Inr (), ?p)" using None p1(1) by (simp add: ensure_loaded_def bind_s_def)
  ultimately show thesis using that [of ?p] same_shape_trans [OF p1(3)] by simp
qed

lemma with_page_view:
  assumes w: "writable p" and v: "page_view p pid = Some d"
  obtains p' where "with_page pid f p = (f d, p')" "writable p'" "same_shape p p'" "page_view p' = page_view p"
proof -
  obtain p' where p': "ensure_loaded pid p = (Inr (), p')" "writable p'" "same_shape p p'" "page_view p' = page_view p"
    "pg_pages p' pid = Some d"
    using ensure_loaded_view [OF w v] .
  have "with_page pid f p = (f d, p')"
    using p'(1,5) page_view_valid [OF v] by (auto simp: with_page_def bind_s_def)
  then show thesis using that p' by blast
qed

section \<open>Writes\<close>

lemma tx_update_view:
  assumes w: "writable p" and p': "p' = p\<lparr>pg_tx := Some sp', pg_named := ns'\<rparr>"
    and ev: "\<And>q. evictable p' q \<Longrightarrow> evictable p q"
  shows "writable p' \<and> same_shape p p' \<and> page_view p' = page_view p"
proof -
  have bl: "backing_like p' p" by (simp add: p' backing_like_def wal_like_def split: option.splits)
  have st: "stored_page p' q = stored_page p q" for q by (rule backing_like_stored [OF bl])
  have tp: "total_pages p' = total_pages p" by (simp add: p' total_pages_def)
  have pg: "pg_pages p' = pg_pages p" by (simp add: p')
  have "pages_match p'" using w ev by (auto simp: writable_def pages_match_def st tp pg)
  moreover have "page_view p' = page_view p" by (intro ext) (auto simp: page_view_def st tp pg split: option.splits)
  ultimately show ?thesis
    using w by (auto simp: p' writable_def ensure_io_ready_def is_in_transaction_def read_only_remote_def
        same_shape_def page_size_def total_pages_def)
qed

lemma add_undo_view:
  assumes w: "writable p"
  shows "writable (add_undo pid x p) \<and> same_shape p (add_undo pid x p) \<and>
    page_view (add_undo pid x p) = page_view p \<and> \<not> evictable (add_undo pid x p) pid \<and>
    pg_pages (add_undo pid x p) = pg_pages p"
proof -
  obtain sp where sp: "pg_tx p = Some sp" using w by (auto simp: writable_def is_in_transaction_def)
  have eq: "add_undo pid x p = p\<lparr>pg_tx := Some (undo_or_insert pid x sp), pg_named := map_last (undo_or_insert pid x) (pg_named p)\<rparr>"
    by (simp add: add_undo_def sp)
  have ev: "evictable p q" if "evictable (add_undo pid x p) q" for q
    using that sp by (auto simp: evictable_def eq undo_or_insert_def split: if_splits)
  have "\<not> evictable (add_undo pid x p) pid" by (simp add: evictable_def eq undo_or_insert_def)
  then show ?thesis using tx_update_view [OF w eq ev] by (simp add: eq)
qed

lemma mark_dirty_view:
  assumes w: "writable p"
  shows "writable (mark_dirty pid p) \<and> same_shape p (mark_dirty pid p) \<and>
    page_view (mark_dirty pid p) = page_view p \<and> pg_pages (mark_dirty pid p) = pg_pages p \<and>
    (\<forall>q. evictable (mark_dirty pid p) q \<longrightarrow> evictable p q)"
proof -
  obtain sp where sp: "pg_tx p = Some sp" using w by (auto simp: writable_def is_in_transaction_def)
  have eq: "mark_dirty pid p = p\<lparr>pg_tx := Some (mark_sp_dirty pid sp), pg_named := map_last (mark_sp_dirty pid) (pg_named p)\<rparr>"
    by (simp add: mark_dirty_def sp)
  have ev: "evictable p q" if "evictable (mark_dirty pid p) q" for q
    using that sp by (auto simp: evictable_def eq mark_sp_dirty_def)
  show ?thesis using tx_update_view [OF w eq ev] ev by (auto simp: eq)
qed

lemma record_undo_view:
  assumes w: "writable p" and v: "page_view p pid = Some d"
  obtains p' where "record_undo pid p = (Inr (), p')" "writable p'" "same_shape p p'" "page_view p' = page_view p"
    "\<not> evictable p' pid" "pg_pages p pid \<noteq> None \<Longrightarrow> pg_pages p' = pg_pages p"
proof -
  obtain sp where sp: "pg_tx p = Some sp" using w by (auto simp: writable_def is_in_transaction_def)
  have rec: "record_undo pid p = (Inr (), add_undo pid (pg_pages p pid) p)"
    if "sp_undo sp pid \<noteq> None \<or> pg_pages p pid \<noteq> None \<or> \<not> pid \<le> sp_total_pages sp"
    using that sp by (auto simp: record_undo_def add_undo_def undo_or_insert_def bind_s_def split: option.splits)
  show thesis
  proof (cases "sp_undo sp pid \<noteq> None \<or> pg_pages p pid \<noteq> None \<or> \<not> pid \<le> sp_total_pages sp")
    case True
    then show thesis using that [OF rec [OF True]] add_undo_view [OF w] by simp
  next
    case False
    obtain p1 where p1: "read_page pid p = (Inr d, p1)" "writable p1" "same_shape p p1" "page_view p1 = page_view p"
      using read_page_view [OF w v] .
    have "pg_tx p1 = Some sp" using read_page_read_only [OF p1(1)] sp by (simp add: read_only_step_def)
    then have "record_undo pid p = (Inr (), add_undo pid (Some d) p1)"
      using False sp p1(1) by (auto simp: record_undo_def add_undo_def undo_or_insert_def bind_s_def)
    then show thesis
      using that [of "add_undo pid (Some d) p1"] add_undo_view [OF p1(2), of pid "Some d"] p1(3,4) False
        same_shape_trans [OF p1(3)] by simp
  qed
qed

lemma set_page_view:
  assumes w: "writable p" and e: "\<not> evictable p pid" and v: "page_view p pid = Some old"
  shows "writable (p\<lparr>pg_pages := (pg_pages p)(pid \<mapsto> d)\<rparr>) \<and> same_shape p (p\<lparr>pg_pages := (pg_pages p)(pid \<mapsto> d)\<rparr>) \<and>
    page_view (p\<lparr>pg_pages := (pg_pages p)(pid \<mapsto> d)\<rparr>) = (page_view p)(pid \<mapsto> d)"
proof -
  have "writable (p\<lparr>pg_pages := (pg_pages p)(pid \<mapsto> d)\<rparr>)" "same_shape p (p\<lparr>pg_pages := (pg_pages p)(pid \<mapsto> d)\<rparr>)"
    by (rule writable_pages [OF w], use w e in \<open>auto simp: writable_def pages_match_def split: if_splits\<close>)+
  then show ?thesis using page_view_valid [OF v] by (auto simp: fun_eq_iff page_view_set)
qed

lemma write_page_view:
  assumes w: "writable p" and v: "page_view p pid = Some old" and "pid \<noteq> 1" "length d = page_size p"
  obtains p' where "write_page crc pid d p = (Inr (), p')" "writable p'" "same_shape p p'"
    "page_view p' = (page_view p)(pid \<mapsto> d)"
proof -
  obtain p1 where p1: "record_undo pid p = (Inr (), p1)" "writable p1" "same_shape p p1" "page_view p1 = page_view p"
    "\<not> evictable p1 pid"
    using record_undo_view [OF w v] by metis
  let ?p2 = "p1\<lparr>pg_pages := (pg_pages p1)(pid \<mapsto> d)\<rparr>"
  have p2: "writable ?p2" "same_shape p1 ?p2" "page_view ?p2 = (page_view p)(pid \<mapsto> d)"
    using set_page_view [OF p1(2,5), of old d] v p1(4) by auto
  have "is_in_transaction ?p2" using p2(1) by (simp add: writable_def)
  then have "write_page crc pid d p = (Inr (), mark_dirty pid ?p2)"
    using p1(1) assms(3,4) w page_view_valid [OF v]
    by (auto simp: write_page_def bind_s_def writable_def Let_def)
  then show thesis
    using that mark_dirty_view [OF p2(1)] p2 same_shape_trans [OF p1(3) same_shape_trans [OF p2(2)]] by metis
qed

lemma modify_page_view:
  assumes w: "writable p" and v: "page_view p pid = Some old" and pid: "pid \<noteq> 1" and f: "f old = (Inr res, d)"
  obtains p' where "modify_page crc pid f p = (Inr res, p')" "writable p'" "same_shape p p'"
    "page_view p' = (page_view p)(pid \<mapsto> d)"
proof -
  obtain p0 where p0: "ensure_loaded pid p = (Inr (), p0)" "writable p0" "same_shape p p0" "page_view p0 = page_view p"
    "pg_pages p0 pid = Some old"
    using ensure_loaded_view [OF w v] .
  have v0: "page_view p0 pid = Some old" using v p0(4) by simp
  obtain p1 where p1: "record_undo pid p0 = (Inr (), p1)" "writable p1" "same_shape p0 p1" "page_view p1 = page_view p0"
    "\<not> evictable p1 pid" "pg_pages p1 = pg_pages p0"
    using record_undo_view [OF p0(2) v0] p0(5) by (metis option.distinct(1))
  let ?p2 = "mark_dirty pid p1"
  have p2: "writable ?p2" "same_shape p1 ?p2" "page_view ?p2 = page_view p" "\<not> evictable ?p2 pid" "pg_pages ?p2 pid = Some old"
    using mark_dirty_view [OF p1(2), of pid] p1 p0 by auto
  let ?p3 = "?p2\<lparr>pg_pages := (pg_pages ?p2)(pid \<mapsto> d)\<rparr>"
  have p3: "writable ?p3" "same_shape ?p2 ?p3" "page_view ?p3 = (page_view p)(pid \<mapsto> d)"
    using set_page_view [OF p2(1,4), of old d] v p2(3) by auto
  have tx: "is_in_transaction p1" "is_in_transaction ?p3" using p1(2) p3(1) by (simp_all add: writable_def)
  have "modify_page crc pid f p = (Inr res, ?p3)"
    using p0(1) p1(1) tx p2(5) f pid page_view_valid [OF v]
    by (simp add: modify_page_def bind_s_def Let_def not_less)
  moreover have "same_shape p ?p3"
    by (rule same_shape_trans [OF p0(3) same_shape_trans [OF p1(3) same_shape_trans [OF p2(2) p3(2)]]])
  ultimately show thesis using that p3 by metis
qed

text \<open>An allocation when the free list is empty.\<close>

lemma header_shape:
  "page_size (set_header (\<lambda>h. h\<lparr>dh_total_pages := n\<rparr>) p) = page_size p"
  "pg_tx (set_header f p) = pg_tx p" "pg_named (set_header f p) = pg_named p" "pg_pages (set_header f p) = pg_pages p"
  by (simp_all add: set_header_def page_size_def)

lemma touch_evict_view:
  assumes "writable p"
  shows "writable (evict_if_needed (touch_lru q p)) \<and> same_shape p (evict_if_needed (touch_lru q p)) \<and>
    page_view (evict_if_needed (touch_lru q p)) = page_view p"
proof -
  have a: "writable (touch_lru q p) \<and> same_shape p (touch_lru q p) \<and> page_view (touch_lru q p) = page_view p"
    by (rule read_only_writable [OF assms touch_read_only])
  have b: "writable (evict_if_needed (touch_lru q p)) \<and> same_shape (touch_lru q p) (evict_if_needed (touch_lru q p)) \<and>
    page_view (evict_if_needed (touch_lru q p)) = page_view (touch_lru q p)"
    by (rule read_only_writable [OF conjunct1 [OF a] evict_read_only])
  from a b show ?thesis by (simp add: same_shape_def)
qed

lemma allocate_page_view:
  assumes w: "writable p" and f: "dh_freelist_count (pg_header p) = 0" and n: "total_pages p \<noteq> - 1"
  obtains p' where "allocate_page crc p = (Inr (total_pages p + 1), p')" "writable p'"
    "total_pages p' = total_pages p + 1" "page_size p' = page_size p" "dh_freelist_count (pg_header p') = 0"
    "page_view p' (total_pages p + 1) = Some (replicate (page_size p) 0) \<or> total_pages p = 0"
    "\<And>q. q \<noteq> 1 \<Longrightarrow> q \<noteq> total_pages p + 1 \<Longrightarrow> page_view p' q = page_view p q"
proof -
  let ?new = "total_pages p + 1"
  have nz: "1 + total_pages p \<noteq> 0" using n by (metis add_eq_0_iff)
  then have new0: "?new \<noteq> 0" by (simp add: add.commute)
  have lt: "total_pages p < ?new"
    unfolding word_less_nat_alt add.commute [of "total_pages p"] using unatSuc [OF nz] by simp
  have le: "q \<le> total_pages p \<or> q = ?new" if "q \<le> ?new" for q
  proof -
    have "unat ?new = Suc (unat (total_pages p))"
      unfolding add.commute [of "total_pages p"] by (rule unatSuc [OF nz])
    then have "unat q \<le> unat (total_pages p) \<or> unat q = unat ?new"
      using that unfolding word_le_nat_alt by linarith
    then show ?thesis unfolding word_le_nat_alt word_unat_eq_iff .
  qed
  let ?zero = "replicate (page_size p) 0"
  let ?p1 = "set_header (\<lambda>h. h\<lparr>dh_total_pages := ?new\<rparr>) p"
  let ?p2 = "add_undo ?new None ?p1"
  let ?p3 = "?p2\<lparr>pg_pages := (pg_pages ?p2)(?new \<mapsto> ?zero)\<rparr>"
  let ?p4 = "evict_if_needed (touch_lru ?new ?p3)"
  let ?p5 = "sync_header_into_page1_cache crc ?p4"
  let ?p' = "mark_dirty ?new (mark_dirty 1 ?p5)"
  obtain sp where sp: "pg_tx p = Some sp" using w by (auto simp: writable_def is_in_transaction_def)
  have h3: "hdr_like (pg_header ?p3) (pg_header p)" by (simp add: add_undo_def set_header_def hdr_like_freelist)
  have bl: "backing_like ?p3 p"
    using h3 by (simp add: backing_like_def wal_like_def add_undo_def set_header_def split: option.splits)
  have st: "stored_page ?p3 q = stored_page p q" for q by (rule backing_like_stored [OF bl])
  have t3: "total_pages ?p3 = ?new" by (simp add: add_undo_def set_header_def total_pages_def)
  have tx3: "pg_tx ?p3 = Some (undo_or_insert ?new None sp)" by (simp add: add_undo_def set_header_def sp)
  have ev: "evictable ?p3 q \<Longrightarrow> evictable p q \<and> q \<noteq> ?new" for q
    using sp by (auto simp: evictable_def tx3 undo_or_insert_def split: if_splits)
  have pg3: "pg_pages ?p3 = (pg_pages p)(?new \<mapsto> ?zero)" by (simp add: add_undo_def set_header_def)
  have m3: "pages_match ?p3"
    unfolding pages_match_def
  proof (intro allI impI, elim conjE)
    fix q d assume q: "evictable ?p3 q" "pg_pages ?p3 q = Some d" "q \<noteq> 0" "q \<le> total_pages ?p3"
    then have "evictable p q" "q \<le> total_pages p" "pg_pages p q = Some d" using ev le by (auto simp: t3 pg3)
    then show "stored_page ?p3 q = Some d" using w q(3) unfolding st by (auto simp: writable_def pages_match_def)
  qed
  have w3: "writable ?p3"
    using w m3 tx3 by (auto simp: writable_def ensure_io_ready_def is_in_transaction_def read_only_remote_def
        add_undo_def set_header_def)
  have v3: "page_view ?p3 q = (if q = ?new then Some ?zero else page_view p q)" for q
    using new0 lt le [of q] by (auto simp: page_view_def st t3 pg3 not_less split: option.splits)
  have ro: "writable ?p4 \<and> same_shape ?p3 ?p4 \<and> page_view ?p4 = page_view ?p3"
    by (rule touch_evict_view [OF w3])
  have e1: "\<not> evictable ?p4 1" by (simp add: evictable_def)
  obtain d1 where p5: "?p5 = ?p4\<lparr>pg_pages := (pg_pages ?p4)(1 \<mapsto> d1)\<rparr>" by (simp add: sync_header_into_page1_cache_def)
  have w5: "writable ?p5" "same_shape ?p4 ?p5"
    unfolding p5 by (rule writable_pages, use ro e1 in \<open>auto simp: writable_def pages_match_def split: if_splits\<close>)+
  have v5: "page_view ?p5 q = page_view ?p4 q" if "q \<noteq> 1" for q using that by (simp add: p5 page_view_set)
  have d1: "pg_pages ?p5 1 = Some d1" by (simp add: p5)
  have m1: "writable (mark_dirty 1 ?p5) \<and> same_shape ?p5 (mark_dirty 1 ?p5) \<and> page_view (mark_dirty 1 ?p5) = page_view ?p5"
    using mark_dirty_view [OF w5(1), of 1] by blast
  have m2: "writable ?p' \<and> same_shape (mark_dirty 1 ?p5) ?p' \<and> page_view ?p' = page_view ?p5"
    using mark_dirty_view [of "mark_dirty 1 ?p5" ?new] m1 by auto
  have sh: "same_shape ?p3 ?p'" using ro w5 m1 m2 same_shape_trans by blast
  have tx2: "is_in_transaction ?p2" "is_in_transaction ?p5" "\<not> pg_writer ?p2"
    using w w5(1) by (auto simp: writable_def is_in_transaction_def add_undo_def set_header_def)
  have "allocate_page crc p = (Inr ?new, ?p')"
    using w f n tx2 d1
    by (simp add: allocate_page_def pick_page_def bind_s_def Let_def writable_def add_undo_def [symmetric]
        header_shape word_gt_0 del: One_nat_def)
  moreover have "page_view ?p' ?new = Some ?zero \<or> total_pages p = 0"
    using m2 v5 [of ?new] ro v3 [of ?new] by auto
  moreover have "page_view ?p' q = page_view p q" if "q \<noteq> 1" "q \<noteq> ?new" for q
    using m2 v5 [OF that(1)] ro v3 [of q] that by simp
  moreover have "page_size ?p3 = page_size p" "dh_freelist_count (pg_header ?p3) = 0"
    using f by (simp_all add: add_undo_def set_header_def page_size_def)
  ultimately show thesis
    using that [of ?p'] m2 sh t3 by (simp add: same_shape_def)
qed

end
