(* ===== verification/Btree_Tree.thy ===== *)
theory Btree_Tree
  imports Btree_Engine Pager_View
begin

text \<open>
  Trees of rows behind the pages: \<open>tree_ok\<close> says that the pages a pager shows hold a tree with
  separators in place, and the lookups and scans of \<^verbatim>\<open>src/src/btree/engine.rs\<close> are the
  lookups and the traversal of that tree.
\<close>

section \<open>Trees\<close>

datatype btree = BLeaf page_id "table_leaf_cell list" | BNode page_id kids
  and kids = Last btree | Kid btree u64 kids

fun root_of :: "btree \<Rightarrow> page_id" where
  "root_of (BLeaf pid cs) = pid"
| "root_of (BNode pid ks) = pid"

fun entries :: "btree \<Rightarrow> table_leaf_cell list" and kid_entries :: "kids \<Rightarrow> table_leaf_cell list" where
  "entries (BLeaf pid cs) = cs"
| "entries (BNode pid ks) = kid_entries ks"
| "kid_entries (Last t) = entries t"
| "kid_entries (Kid t k ks) = entries t @ kid_entries ks"

fun tree_pages :: "btree \<Rightarrow> page_id list" and kid_pages :: "kids \<Rightarrow> page_id list" where
  "tree_pages (BLeaf pid cs) = [pid]"
| "tree_pages (BNode pid ks) = pid # kid_pages ks"
| "kid_pages (Last t) = tree_pages t"
| "kid_pages (Kid t k ks) = tree_pages t @ kid_pages ks"

fun tree_height :: "btree \<Rightarrow> nat" and kid_height :: "kids \<Rightarrow> nat" where
  "tree_height (BLeaf pid cs) = 1"
| "tree_height (BNode pid ks) = Suc (kid_height ks)"
| "kid_height (Last t) = tree_height t"
| "kid_height (Kid t k ks) = max (tree_height t) (kid_height ks)"

text \<open>The cells of an interior page and its right child.\<close>

fun kid_cells :: "kids \<Rightarrow> table_interior_cell list" where
  "kid_cells (Last t) = []"
| "kid_cells (Kid t k ks) = \<lparr>ic_left_child = root_of t, ic_row_id = k\<rparr> # kid_cells ks"

fun kid_right :: "kids \<Rightarrow> page_id" where
  "kid_right (Last t) = root_of t"
| "kid_right (Kid t k ks) = kid_right ks"

type_synonym view = "page_id \<Rightarrow> bytes option"

definition leaf_page :: "view \<Rightarrow> page_id \<Rightarrow> table_leaf_cell list \<Rightarrow> bool" where
  "leaf_page V pid cs \<longleftrightarrow>
     (case V pid of None \<Rightarrow> False | Some page \<Rightarrow> wf_leaf pid page \<and> leaf_view pid page = Inr cs)"

definition interior_page :: "view \<Rightarrow> page_id \<Rightarrow> table_interior_cell list \<Rightarrow> page_id \<Rightarrow> bool" where
  "interior_page V pid cs rc \<longleftrightarrow>
     (case V pid of
        None \<Rightarrow> False
      | Some page \<Rightarrow> page_type_of pid page = Inr TableInterior \<and> interior_view pid page = Inr (cs, Some rc))"

text \<open>A separator bounds the keys of its child from above and all later keys from below.\<close>

fun tree_ok :: "view \<Rightarrow> btree \<Rightarrow> bool" and kids_ok :: "view \<Rightarrow> kids \<Rightarrow> bool" where
  "tree_ok V (BLeaf pid cs) = leaf_page V pid cs"
| "tree_ok V (BNode pid ks) = (interior_page V pid (kid_cells ks) (kid_right ks) \<and> kids_ok V ks)"
| "kids_ok V (Last t) = tree_ok V t"
| "kids_ok V (Kid t k ks) =
     (tree_ok V t \<and> kids_ok V ks \<and> (\<forall>c \<in> set (entries t). lc_row_id c \<le> k) \<and>
      (\<forall>c \<in> set (kid_entries ks). k < lc_row_id c))"

definition lookup :: "btree \<Rightarrow> u64 \<Rightarrow> table_leaf_cell option" where
  "lookup t key = find (\<lambda>c. lc_row_id c = key) (entries t)"

lemma wf_leaf_sorted:
  "wf_leaf pid page \<Longrightarrow> leaf_view pid page = Inr cs \<Longrightarrow> sorted_cells cs \<and> list_all valid_leaf_cell cs"
  by (auto simp: wf_leaf_def Let_def split: sum.splits)

lemma leaf_pageE:
  assumes "leaf_page V pid cs"
  obtains page where "V pid = Some page" "wf_leaf pid page" "leaf_view pid page = Inr cs"
  using assms by (auto simp: leaf_page_def split: option.splits)

lemma interior_pageE:
  assumes "interior_page V pid cs rc"
  obtains page h where "V pid = Some page" "read_page_header page pid = Inr h" "ph_page_type h = TableInterior"
    "ph_right_child h = Some rc" "map_r (read_interior_cell page pid) [0..<unat (ph_num_cells h)] = Inr cs"
  using assms
  by (auto simp: interior_page_def page_type_of_def interior_view_def bind_r_eq_Inr split: option.splits)

lemma leaf_header:
  assumes "wf_leaf pid page" "leaf_view pid page = Inr cs"
  obtains h where "read_page_header page pid = Inr h" "ph_page_type h = TableLeaf"
    "map_r (read_leaf_cell page pid) [0..<unat (ph_num_cells h)] = Inr cs"
  using assms by (auto simp: wf_leaf_def leaf_view_def Let_def bind_r_eq_Inr split: sum.splits)

lemma entries_sorted:
  "tree_ok V t \<Longrightarrow> sorted_cells (entries t)" "kids_ok V ks \<Longrightarrow> sorted_cells (kid_entries ks)"
proof (induction t and ks rule: entries_kid_entries.induct)
  case (1 pid cs)
  then show ?case by (auto elim!: leaf_pageE dest: wf_leaf_sorted)
next
  case (4 t k ks)
  then show ?case by (fastforce simp: sorted_cells_def sorted_wrt_append)
qed auto

lemma find_append: "find P (xs @ ys) = (case find P xs of None \<Rightarrow> find P ys | Some x \<Rightarrow> Some x)"
  by (induction xs) auto

lemma find_keyless: "(\<And>c. c \<in> set cs \<Longrightarrow> lc_row_id c \<noteq> key) \<Longrightarrow> find (\<lambda>c. lc_row_id c = key) cs = None"
  by (auto simp: find_None_iff)

section \<open>Routing\<close>

text \<open>The child a key belongs to.\<close>

fun child_for :: "u64 \<Rightarrow> kids \<Rightarrow> btree" where
  "child_for key (Last t) = t"
| "child_for key (Kid t k ks) = (if key \<le> k then t else child_for key ks)"

fun child_idx :: "u64 \<Rightarrow> nat \<Rightarrow> kids \<Rightarrow> nat option" where
  "child_idx key i (Last t) = None"
| "child_idx key i (Kid t k ks) = (if key \<le> k then Some i else child_idx key (Suc i) ks)"

lemma route_from_cells:
  assumes "list_all2 (\<lambda>i c. read_interior_cell page pid i = Inr c) [n..<m] (kid_cells ks)"
  shows "route_from page pid key (kid_right ks) [n..<m] =
    Inr (root_of (child_for key ks), child_idx key n ks)"
  using assms
proof (induction key ks arbitrary: n rule: child_for.induct)
  case (2 key t k ks)
  have nm: "n < m" using "2.prems" by (cases "n < m") auto
  then have rows: "read_interior_cell page pid n = Inr \<lparr>ic_left_child = root_of t, ic_row_id = k\<rparr>"
    "list_all2 (\<lambda>i c. read_interior_cell page pid i = Inr c) [Suc n..<m] (kid_cells ks)"
    using "2.prems" by (auto simp: upt_conv_Cons)
  show ?case using "2.IH" [OF _ rows(2)] rows(1) nm by (simp add: upt_conv_Cons)
qed auto

lemma route_kids:
  assumes "map_r (read_interior_cell page pid) [0..<unat (ph_num_cells h)] = Inr (kid_cells ks)"
    "ph_right_child h = Some (kid_right ks)"
  shows "route page pid key h = Inr (root_of (child_for key ks), child_idx key 0 ks)"
  using route_from_cells [of page pid 0 "unat (ph_num_cells h)" ks key] assms
  by (simp add: route_def map_r_Inr_iff ok_or_def result_simps)

lemma child_for_ok: "kids_ok V ks \<Longrightarrow> tree_ok V (child_for key ks)"
  by (induction key ks rule: child_for.induct) auto

lemma child_for_height: "tree_height (child_for key ks) \<le> kid_height ks"
  by (induction key ks rule: child_for.induct) auto

lemma child_for_entries: "set (entries (child_for key ks)) \<subseteq> set (kid_entries ks)"
  by (induction key ks rule: child_for.induct) auto

lemma child_for_pages: "set (tree_pages (child_for key ks)) \<subseteq> set (kid_pages ks)"
  by (induction key ks rule: child_for.induct) auto

lemma child_for_distinct: "distinct (kid_pages ks) \<Longrightarrow> distinct (tree_pages (child_for key ks))"
  by (induction key ks rule: child_for.induct) auto

lemma child_for_lookup:
  assumes "kids_ok V ks"
  shows "find (\<lambda>c. lc_row_id c = key) (kid_entries ks) = lookup (child_for key ks) key"
  using assms
proof (induction key ks rule: child_for.induct)
  case (2 key t k ks)
  have "find (\<lambda>c. lc_row_id c = key) (entries t) = None" if "\<not> key \<le> k"
    by (rule find_keyless) (use "2.prems" that in auto)
  moreover have "find (\<lambda>c. lc_row_id c = key) (kid_entries ks) = None" if "key \<le> k"
    by (rule find_keyless) (use "2.prems" that in fastforce)
  ultimately show ?case using 2 by (auto simp: find_append lookup_def split: option.splits)
qed (simp add: lookup_def)

section \<open>Overflow chains\<close>

text \<open>What a chain holds, walking at most \<open>n\<close> links.\<close>

fun chain_bytes :: "view \<Rightarrow> nat \<Rightarrow> nat \<Rightarrow> page_id \<Rightarrow> bytes option" where
  "chain_bytes V psize 0 cur = (if cur = 0 then Some [] else None)"
| "chain_bytes V psize (Suc n) cur =
     (if cur = 0 then Some []
      else case V cur of
        None \<Rightarrow> None
      | Some buf \<Rightarrow> (case overflow_data psize buf of
          Inl _ \<Rightarrow> None
        | Inr (nxt, d) \<Rightarrow> map_option ((@) d) (chain_bytes V psize n nxt)))"

definition row_bytes :: "view \<Rightarrow> nat \<Rightarrow> nat \<Rightarrow> table_leaf_cell \<Rightarrow> bytes option" where
  "row_bytes V psize n c =
     (case lc_overflow_page c of
        None \<Rightarrow> Some (lc_payload c)
      | Some first \<Rightarrow> map_option ((@) (lc_payload c)) (chain_bytes V psize n first))"

lemma read_chain_view:
  assumes "writable p" "chain_bytes (page_view p) psize n cur = Some d" "n < fuel"
  shows "\<exists>p'. read_chain fuel psize cur out p = Some (Inr (out @ d), p') \<and>
    writable p' \<and> same_shape p p' \<and> page_view p' = page_view p"
  using assms
proof (induction n arbitrary: fuel cur d out p)
  case 0
  then obtain f where "fuel = Suc f" by (cases fuel) auto
  then show ?case using 0 by (auto split: if_splits)
next
  case (Suc n)
  then obtain f where f: "fuel = Suc f" "n < f" by (cases fuel) auto
  show ?case
  proof (cases "cur = 0")
    case True
    then show ?thesis using Suc.prems f by auto
  next
    case False
    then obtain buf nxt d1 d2 where b: "page_view p cur = Some buf" "overflow_data psize buf = Inr (nxt, d1)"
      "chain_bytes (page_view p) psize n nxt = Some d2" "d = d1 @ d2"
      using Suc.prems(2) by (auto split: option.splits sum.splits)
    obtain p1 where p1: "read_page cur p = (Inr buf, p1)" "writable p1" "same_shape p p1" "page_view p1 = page_view p"
      using read_page_view [OF Suc.prems(1) b(1)] .
    have "\<exists>p'. read_chain f psize nxt (out @ d1) p1 = Some (Inr ((out @ d1) @ d2), p') \<and>
        writable p' \<and> same_shape p1 p' \<and> page_view p' = page_view p1"
      by (rule Suc.IH [OF p1(2) _ f(2)]) (use b(3) p1(4) in simp)
    then show ?thesis
      using False b(2,4) p1 same_shape_trans [OF p1(3)] by (auto simp: f(1) bind_o_run)
  qed
qed

lemma with_overflow_view:
  assumes "writable p" "row_bytes (page_view p) (page_size p) n c = Some d" "n < fuel"
  shows "\<exists>p'. with_overflow fuel (lc_payload c) (lc_overflow_page c) p = Some (Inr d, p') \<and>
    writable p' \<and> same_shape p p' \<and> page_view p' = page_view p"
proof (cases "lc_overflow_page c")
  case None
  then show ?thesis using assms by (auto simp: with_overflow_def row_bytes_def)
next
  case (Some first)
  then obtain e where e: "chain_bytes (page_view p) (page_size p) n first = Some e" "d = lc_payload c @ e"
    using assms(2) by (auto simp: row_bytes_def)
  show ?thesis
    using read_chain_view [OF assms(1) e(1) assms(3), of "[]"] e(2) Some
    by (auto simp: with_overflow_def read_overflow_chain_def bind_o_Some)
qed

end
