(* ===== verification/Btree_Search.thy ===== *)
theory Btree_Search
  imports Btree_Tree
begin

text \<open>
  Lookups and scans of a tree: what \<^verbatim>\<open>search\<close>, \<^verbatim>\<open>scan\<close>, \<^verbatim>\<open>scan_with\<close> and
  \<^verbatim>\<open>scan_with_ref\<close> return, with enough fuel, on pages that hold a tree.
\<close>

section \<open>Leaf pages\<close>

lemma leaf_find:
  assumes "wf_leaf pid page" "leaf_view pid page = Inr cs"
  shows "find_leaf_cell_index_by_key page pid key = Inr (find_spec key cs)"
    "i < length cs \<Longrightarrow> read_leaf_cell page pid i = Inr (cs ! i)"
proof -
  obtain P h ps G C where "leaf_repr pid page P h ps G C cs" using wf_leaf_repr [OF assms] by blast
  then have r: "cells_repr leaf_cell_from_bytes pid page P h ps G C cs" "sorted_cells cs"
    by (simp_all add: leaf_repr_def)
  show "find_leaf_cell_index_by_key page pid key = Inr (find_spec key cs)"
    by (rule find_leaf_cell_index_repr [OF r])
  show "i < length cs \<Longrightarrow> read_leaf_cell page pid i = Inr (cs ! i)" by (rule read_leaf_cell_repr [OF r(1)])
qed

lemma find_spec_find:
  assumes "sorted_cells cs"
  shows "case find_spec key cs of
      Found i \<Rightarrow> i < length cs \<and> find (\<lambda>c. lc_row_id c = key) cs = Some (cs ! i)
    | NotFound i \<Rightarrow> find (\<lambda>c. lc_row_id c = key) cs = None"
proof (rule find_spec_cases [OF assms, of key])
  fix k assume k: "find_spec key cs = Found k" "k < length cs" "lc_row_id (cs ! k) = key"
  have "lc_row_id (cs ! j) \<noteq> key" if "j < k" for j
    using sorted_cells_nth [OF assms that k(2)] k(3) by auto
  then have "find (\<lambda>c. lc_row_id c = key) cs = Some (cs ! k)" using k by (auto simp: find_Some_iff)
  then show ?thesis using k by simp
next
  fix k assume "find_spec key cs = NotFound k" "key \<notin> lc_row_id ` set cs"
  then show ?thesis by (auto simp: find_None_iff)
qed

lemma search_leaf:
  assumes "wf_leaf pid page" "leaf_view pid page = Inr cs"
  shows "search_page pid key page = Inr (LeafStep
    (map_option (\<lambda>c. (lc_payload c, lc_overflow_page c)) (find (\<lambda>c. lc_row_id c = key) cs)))"
proof -
  obtain h where "read_page_header page pid = Inr h" "ph_page_type h = TableLeaf" using leaf_header [OF assms] .
  then show ?thesis
    using find_spec_find [of cs key] wf_leaf_sorted [OF assms] leaf_find [OF assms]
    by (simp add: search_page_def split: search_result.splits)
qed

lemma search_interior:
  assumes "interior_page V pid (kid_cells ks) (kid_right ks)"
  obtains page where "V pid = Some page"
    "search_page pid key page = Inr (InteriorStep (root_of (child_for key ks)))"
proof (rule interior_pageE [OF assms])
  fix page h
  assume h: "V pid = Some page" "read_page_header page pid = Inr h" "ph_page_type h = TableInterior"
    "ph_right_child h = Some (kid_right ks)"
    "map_r (read_interior_cell page pid) [0..<unat (ph_num_cells h)] = Inr (kid_cells ks)"
  then have "search_page pid key page = Inr (InteriorStep (root_of (child_for key ks)))"
    using route_kids [OF h(5,4)] by (simp add: search_page_def)
  then show thesis using that h(1) by blast
qed

section \<open>Search\<close>

text \<open>Every row found can be completed from its chain.\<close>

definition rows_readable :: "pager \<Rightarrow> nat \<Rightarrow> table_leaf_cell list \<Rightarrow> bool" where
  "rows_readable p n cs \<longleftrightarrow> list_all (\<lambda>c. row_bytes (page_view p) (page_size p) n c \<noteq> None) cs"

definition found_row :: "pager \<Rightarrow> nat \<Rightarrow> table_leaf_cell option \<Rightarrow> bytes option" where
  "found_row p n r = (case r of None \<Rightarrow> None | Some c \<Rightarrow> row_bytes (page_view p) (page_size p) n c)"

lemma rows_readable_cong:
  "page_view p' = page_view p \<Longrightarrow> page_size p' = page_size p \<Longrightarrow> rows_readable p' n cs = rows_readable p n cs"
  "page_view p' = page_view p \<Longrightarrow> page_size p' = page_size p \<Longrightarrow> found_row p' n r = found_row p n r"
  by (simp_all add: rows_readable_def found_row_def split: option.splits)

lemma rows_readable_mono: "rows_readable p n cs \<Longrightarrow> set ds \<subseteq> set cs \<Longrightarrow> rows_readable p n ds"
  by (auto simp: rows_readable_def list_all_iff)

lemma btree_search_view:
  assumes "writable p" "tree_ok (page_view p) t" "rows_readable p n (entries t)" "tree_height t + n < fuel"
  shows "\<exists>p'. btree_search fuel (root_of t) key p = Some (Inr (found_row p n (lookup t key)), p') \<and>
    writable p' \<and> same_shape p p' \<and> page_view p' = page_view p"
  using assms
proof (induction fuel arbitrary: t p)
  case 0
  then show ?case by (cases t) simp_all
next
  case (Suc fuel)
  show ?case
  proof (cases t)
    case (BLeaf pid cs)
    obtain page where page: "page_view p pid = Some page" "wf_leaf pid page" "leaf_view pid page = Inr cs"
      using Suc.prems(2) BLeaf by (auto elim: leaf_pageE)
    obtain p1 where p1: "with_page pid (search_page pid key) p = (search_page pid key page, p1)" "writable p1"
      "same_shape p p1" "page_view p1 = page_view p"
      using with_page_view [OF Suc.prems(1) page(1)] .
    show ?thesis
    proof (cases "find (\<lambda>c. lc_row_id c = key) cs")
      case None
      then show ?thesis using p1 search_leaf [OF page(2,3), of key] BLeaf
        by (simp add: bind_o_run lookup_def found_row_def)
    next
      case (Some c)
      then have "c \<in> set cs" by (auto simp: find_Some_iff)
      then obtain d where d: "row_bytes (page_view p) (page_size p) n c = Some d"
        using Suc.prems(3) BLeaf by (auto simp: rows_readable_def list_all_iff)
      have sz: "page_size p1 = page_size p" using p1(3) by (simp add: same_shape_def)
      have n: "n < fuel" using Suc.prems(4) BLeaf by auto
      obtain p' where "with_overflow fuel (lc_payload c) (lc_overflow_page c) p1 = Some (Inr d, p')"
        "writable p'" "same_shape p1 p'" "page_view p' = page_view p1"
        using with_overflow_view [OF p1(2), of n c d fuel] d p1(4) sz n by auto
      then show ?thesis
        using p1 search_leaf [OF page(2,3), of key] BLeaf Some d same_shape_trans [OF p1(3)]
        by (simp add: bind_o_run bind_o_Some lookup_def found_row_def)
    qed
  next
    case (BNode pid ks)
    let ?t = "child_for key ks"
    obtain page where page: "page_view p pid = Some page"
        "search_page pid key page = Inr (InteriorStep (root_of ?t))"
      using Suc.prems(2) BNode search_interior [of "page_view p" pid ks key] by auto
    obtain p1 where p1: "with_page pid (search_page pid key) p = (search_page pid key page, p1)" "writable p1"
      "same_shape p p1" "page_view p1 = page_view p"
      using with_page_view [OF Suc.prems(1) page(1)] .
    have sz: "page_size p1 = page_size p" using p1(3) by (simp add: same_shape_def)
    have "\<exists>p'. btree_search fuel (root_of ?t) key p1 = Some (Inr (found_row p1 n (lookup ?t key)), p') \<and>
        writable p' \<and> same_shape p1 p' \<and> page_view p' = page_view p1"
    proof (rule Suc.IH [OF p1(2)])
      show "tree_ok (page_view p1) ?t" using Suc.prems(2) BNode child_for_ok [of "page_view p" ks key] p1(4) by simp
      show "rows_readable p1 n (entries ?t)"
        using rows_readable_mono [OF Suc.prems(3), of "entries ?t"] child_for_entries [of key ks] BNode
          rows_readable_cong(1) [OF p1(4) sz] by simp
      show "tree_height ?t + n < fuel" using Suc.prems(4) BNode child_for_height [of key ks] by simp
    qed
    moreover have "lookup t key = lookup ?t key"
      using Suc.prems(2) BNode child_for_lookup [of "page_view p" ks key] by (simp add: lookup_def)
    ultimately show ?thesis
      using p1 page(2) BNode same_shape_trans [OF p1(3)] rows_readable_cong(2) [OF p1(4) sz]
      by (auto simp: bind_o_run)
  qed
qed
section \<open>Scans\<close>

text \<open>Feeding rows to a callback until it stops or fails.\<close>

fun feed :: "('x, 'c) callback \<Rightarrow> 'x list \<Rightarrow> 'c \<Rightarrow> bool result \<times> 'c" where
  "feed cb [] c = (Inr True, c)"
| "feed cb (x # xs) c =
     (case cb x c of
        (Inl e, c') \<Rightarrow> (Inl e, c')
      | (Inr go, c') \<Rightarrow> if go then feed cb xs c' else (Inr False, c'))"

lemma feed_append:
  "feed cb (xs @ ys) c =
     (case feed cb xs c of
        (Inl e, c') \<Rightarrow> (Inl e, c')
      | (Inr go, c') \<Rightarrow> if go then feed cb ys c' else (Inr False, c'))"
  by (induction xs arbitrary: c) (auto split: prod.splits sum.splits)

text \<open>A run over the tree that leaves the pages as they are and hands the rows \<open>xs\<close> over.\<close>

definition feeds :: "(pager \<times> 'c, bool) om \<Rightarrow> ('x, 'c) callback \<Rightarrow> 'x list \<Rightarrow> pager \<Rightarrow> bool" where
  "feeds m cb xs p \<longleftrightarrow> (\<forall>q c. writable q \<and> same_shape p q \<and> page_view q = page_view p \<longrightarrow>
     (\<exists>q'. m (q, c) = Some (fst (feed cb xs c), q', snd (feed cb xs c)) \<and>
       writable q' \<and> same_shape p q' \<and> page_view q' = page_view p))"

lemma feedsE:
  assumes "feeds m cb xs p" "writable p"
  obtains q where "m (p, c) = Some (fst (feed cb xs c), q, snd (feed cb xs c))" "writable q" "page_view q = page_view p"
    "same_shape p q"
  using assms(1) [unfolded feeds_def, rule_format, of p c] assms(2) same_shape_refl by blast

lemma feeds_seq:
  assumes "feeds m cb xs p" "feeds m' cb ys p"
  shows "feeds (bind_o m (\<lambda>go. if go then m' else ret_o False)) cb (xs @ ys) p"
  unfolding feeds_def
proof (intro allI impI)
  fix q c assume q: "writable q \<and> same_shape p q \<and> page_view q = page_view p"
  obtain q1 where q1: "m (q, c) = Some (fst (feed cb xs c), q1, snd (feed cb xs c))"
    "writable q1 \<and> same_shape p q1 \<and> page_view q1 = page_view p"
    using assms(1) q unfolding feeds_def by blast
  obtain q2 where q2: "m' (q1, snd (feed cb xs c)) =
      Some (fst (feed cb ys (snd (feed cb xs c))), q2, snd (feed cb ys (snd (feed cb xs c))))"
    "writable q2 \<and> same_shape p q2 \<and> page_view q2 = page_view p"
    using assms(2) q1(2) unfolding feeds_def by blast
  show "\<exists>q'. bind_o m (\<lambda>go. if go then m' else ret_o False) (q, c) =
      Some (fst (feed cb (xs @ ys) c), q', snd (feed cb (xs @ ys) c)) \<and>
      writable q' \<and> same_shape p q' \<and> page_view q' = page_view p"
    using q1 q2 by (cases "feed cb xs c") (auto simp: bind_o_def feed_append split: sum.splits)
qed

lemma feeds_nil: "feeds (ret_o True) cb [] p" unfolding feeds_def by simp

lemma feeds_until:
  assumes "list_all2 (\<lambda>i xs. feeds (f i) cb xs p) is xss"
  shows "feeds (until_false f is) cb (concat xss) p"
  using assms by (induction rule: list_all2_induct) (auto simp del: om_simps intro: feeds_nil feeds_seq)

text \<open>The row a scan hands over for a cell, with its whole payload.\<close>

definition row_of :: "pager \<Rightarrow> nat \<Rightarrow> table_leaf_cell \<Rightarrow> bytes" where
  "row_of p n c = (case row_bytes (page_view p) (page_size p) n c of None \<Rightarrow> [] | Some d \<Rightarrow> d)"

definition whole_cell :: "pager \<Rightarrow> nat \<Rightarrow> table_leaf_cell \<Rightarrow> table_leaf_cell" where
  "whole_cell p n c = c\<lparr>lc_payload := row_of p n c, lc_overflow_page := None\<rparr>"

definition whole_row :: "pager \<Rightarrow> nat \<Rightarrow> table_leaf_cell \<Rightarrow> u64 \<times> bytes" where
  "whole_row p n c = (lc_row_id c, row_of p n c)"

lemma row_of_run:
  assumes "rows_readable p n [c]" "n < fuel" "writable q" "same_shape p q" "page_view q = page_view p"
  shows "\<exists>q'. with_overflow fuel (lc_payload c) (lc_overflow_page c) q = Some (Inr (row_of p n c), q') \<and>
    writable q' \<and> same_shape p q' \<and> page_view q' = page_view p"
proof -
  have sz: "page_size q = page_size p" using assms(4) by (simp add: same_shape_def)
  obtain d where d: "row_bytes (page_view p) (page_size p) n c = Some d"
    using assms(1) by (auto simp: rows_readable_def)
  then show ?thesis
    using with_overflow_view [OF assms(3), of n c d fuel] assms same_shape_trans [OF assms(4)] sz
    by (auto simp: row_of_def)
qed

lemma scan_cell_feeds:
  assumes "read_leaf_cell page pid i = Inr c" "rows_readable p n [c]" "n < fuel"
  shows "feeds (scan_cell fuel pid page cb i) cb [whole_cell p n c] p"
  unfolding feeds_def
proof (intro allI impI, elim conjE)
  fix q s assume q: "writable q" "same_shape p q" "page_view q = page_view p"
  obtain q' where q': "with_overflow fuel (lc_payload c) (lc_overflow_page c) q = Some (Inr (row_of p n c), q')"
    "writable q'" "same_shape p q'" "page_view q' = page_view p"
    using row_of_run [OF assms(2,3) q] by blast
  then show "\<exists>q'. scan_cell fuel pid page cb i (q, s) =
      Some (fst (feed cb [whole_cell p n c] s), q', snd (feed cb [whole_cell p n c] s)) \<and>
      writable q' \<and> same_shape p q' \<and> page_view q' = page_view p"
    using assms(1) by (cases "cb (whole_cell p n c) s")
      (auto simp: scan_cell_def bind_o_def on_pager_def on_callback_def whole_cell_def split: sum.splits)
qed
text \<open>The parser of the borrowing scan reads what the cell reader reads.\<close>

lemma leaf_slot_read:
  assumes "read_leaf_cell page pid i = Inr c" "length page < 65536"
  shows "leaf_slot page pid i =
    Inr (lc_row_id c, lc_payload c, case lc_overflow_page c of None \<Rightarrow> 0 | Some f \<Rightarrow> f)"
proof -
  obtain ptr where ptr: "read_cell_pointer page pid i = Inr ptr" "\<not> length page \<le> unat ptr"
    "leaf_cell_from_bytes (drop (unat ptr) page) = Inr c"
    using assms(1) by (auto simp: read_leaf_cell_def cell_slice_def bind_r_eq_Inr split: if_splits)
  define bs where "bs = drop (unat ptr) page"
  obtain len n1 row n2 where d: "decode_varint bs = Inr (len, n1)" "n1 \<le> length bs"
    "decode_varint (drop n1 bs) = Inr (row, n2)" "n1 + n2 + unat len + 4 \<le> length bs"
    "lc_row_id c = row" "lc_payload c = take (unat len) (drop (n1 + n2) bs)"
    "lc_overflow_page c = (if u32_at bs (n1 + n2 + unat len) > 0 then Some (u32_at bs (n1 + n2 + unat len)) else None)"
    using ptr(3) unfolding bs_def [symmetric]
    by (auto simp: leaf_cell_from_bytes_def bind_r_eq_Inr from_r_def usize_add_def Let_def not_less split: if_splits)
  have len: "length bs = length page - unat ptr" by (simp add: bs_def)
  have le: "unat ptr + n1 + n2 + unat len + 4 \<le> length page" using d(4) len ptr(2) by linarith
  have dr: "drop (unat ptr + n1) page = drop n1 bs" "drop (unat ptr + (n1 + n2)) page = drop (n1 + n2) bs"
    by (simp_all add: bs_def ac_simps)
  have u32: "u32_at page (unat ptr + n1 + n2 + unat len) = u32_at bs (n1 + n2 + unat len)"
    by (simp add: u32_at_def bs_def ac_simps)
  have "(case lc_overflow_page c of None \<Rightarrow> 0 | Some f \<Rightarrow> f) = u32_at bs (n1 + n2 + unat len)"
    using d(7) by (simp add: word_gt_0)
  moreover have "leaf_slot page pid i =
      Inr (row, take (unat len) (drop (n1 + n2) bs), u32_at bs (n1 + n2 + unat len))"
    using ptr(1,2) d(1,3) le assms(2) u32 dr
    by (simp add: leaf_slot_def Let_def not_le bs_def [symmetric] from_r_def usize_add_def add.assoc)
  ultimately show ?thesis using d(5,6) by simp
qed

lemma scan_slot_feeds:
  assumes "read_leaf_cell page pid i = Inr c" "length page < 65536" "valid_leaf_cell c"
    "rows_readable p n [c]" "n < fuel"
  shows "feeds (scan_slot fuel pid page cb i) cb [whole_row p n c] p"
  unfolding feeds_def
proof (intro allI impI, elim conjE)
  fix q s assume q: "writable q" "same_shape p q" "page_view q = page_view p"
  note slot = leaf_slot_read [OF assms(1,2)]
  obtain q' where q': "with_overflow fuel (lc_payload c) (lc_overflow_page c) q = Some (Inr (row_of p n c), q')"
    "writable q'" "same_shape p q'" "page_view q' = page_view p"
    using row_of_run [OF assms(4,5) q] by blast
  show "\<exists>q'. scan_slot fuel pid page cb i (q, s) =
      Some (fst (feed cb [whole_row p n c] s), q', snd (feed cb [whole_row p n c] s)) \<and>
      writable q' \<and> same_shape p q' \<and> page_view q' = page_view p"
  proof (cases "lc_overflow_page c")
    case None
    then show ?thesis
      using slot q q'(1) by (cases "cb (whole_row p n c) s")
        (auto simp: scan_slot_def bind_o_def on_callback_def whole_row_def with_overflow_def split: sum.splits)
  next
    case (Some f)
    then have "f \<noteq> 0" using assms(3) by (simp add: valid_leaf_cell_def)
    then show ?thesis
      using slot q' Some by (cases "cb (whole_row p n c) s")
        (auto simp: scan_slot_def bind_o_def on_pager_def on_callback_def whole_row_def with_overflow_def
          split: sum.splits option.splits)
  qed
qed

section \<open>The whole tree\<close>

lemma list_all2_conv_nth: "list_all2 P [0..<length xs] xs \<longleftrightarrow> (\<forall>i < length xs. P i (xs ! i))"
  by (auto simp: list_all2_conv_all_nth)

lemma feeds_page:
  assumes p: "page_view p pid = Some page"
    and "feeds (body page) cb xs p"
  shows "feeds (bind_o (on_pager (run_o (read_page pid))) body) cb xs p"
  unfolding feeds_def
proof (intro allI impI, elim conjE)
  fix q c assume q: "writable q" "same_shape p q" "page_view q = page_view p"
  have "page_view q pid = Some page" using p q(3) by simp
  then obtain q1 where q1: "read_page pid q = (Inr page, q1)" "writable q1" "same_shape q q1" "page_view q1 = page_view q"
    using read_page_view [OF q(1)] by metis
  have "bind_o (on_pager (run_o (read_page pid))) body (q, c) = body page (q1, c)"
    using q1(1) by (simp add: bind_o_def on_pager_def)
  moreover have "writable q1 \<and> same_shape p q1 \<and> page_view q1 = page_view p"
    using q1 q same_shape_trans by auto
  ultimately show "\<exists>q'. bind_o (on_pager (run_o (read_page pid))) body (q, c) =
      Some (fst (feed cb xs c), q', snd (feed cb xs c)) \<and> writable q' \<and> same_shape p q' \<and> page_view q' = page_view p"
    using assms(2) unfolding feeds_def by simp
qed

lemma feeds_cong: "(\<And>s. m s = m' s) \<Longrightarrow> feeds m' cb xs p \<Longrightarrow> feeds m cb xs p"
  by (simp add: feeds_def)

text \<open>A scanner: how it treats the cells of a leaf, and its recursion.\<close>

definition leaf_feeds :: "(page_id \<Rightarrow> bytes \<Rightarrow> nat \<Rightarrow> (pager \<times> 'c, bool) om) \<Rightarrow> ('x, 'c) callback \<Rightarrow>
    (table_leaf_cell \<Rightarrow> 'x) \<Rightarrow> pager \<Rightarrow> nat \<Rightarrow> bool" where
  "leaf_feeds f cb g p n \<longleftrightarrow> (\<forall>pid page i c. read_leaf_cell page pid i = Inr c \<and> length page < 65536 \<and>
     valid_leaf_cell c \<and> rows_readable p n [c] \<longrightarrow> feeds (f pid page i) cb [g c] p)"

lemma feeds_leaf:
  assumes "leaf_feeds f cb g p n" "wf_leaf pid page" "leaf_view pid page = Inr cs" "rows_readable p n cs"
  shows "feeds (until_false (f pid page) [0..<length cs]) cb (map g cs) p"
proof -
  have "feeds (f pid page i) cb [g (cs ! i)] p" if "i < length cs" for i
  proof -
    have "valid_leaf_cell (cs ! i)" using wf_leaf_sorted [OF assms(2,3)] that by (auto simp: list_all_iff)
    moreover have "rows_readable p n [cs ! i]" by (rule rows_readable_mono [OF assms(4)]) (use that in simp)
    moreover have "length page < 65536" using assms(2) by (simp add: wf_leaf_def)
    ultimately show ?thesis using assms(1) leaf_find(2) [OF assms(2,3) that] by (simp add: leaf_feeds_def)
  qed
  then have "list_all2 (\<lambda>i xs. feeds (f pid page i) cb xs p) [0..<length cs] (map (\<lambda>c. [g c]) cs)"
    by (simp add: list_all2_conv_all_nth)
  from feeds_until [OF this] show ?thesis by (simp add: concat_map_singleton)
qed
fun kid_list :: "kids \<Rightarrow> btree list" where
  "kid_list (Last t) = [t]"
| "kid_list (Kid t k ks) = t # kid_list ks"

lemma kid_list_facts:
  "t \<in> set (kid_list ks) \<Longrightarrow> kids_ok V ks \<Longrightarrow> tree_ok V t"
  "t \<in> set (kid_list ks) \<Longrightarrow> tree_height t \<le> kid_height ks"
  "t \<in> set (kid_list ks) \<Longrightarrow> set (entries t) \<subseteq> set (kid_entries ks)"
  by (induction ks rule: kid_list.induct) auto

lemma bind_o_assoc: "bind_o (bind_o m f) g s = bind_o m (\<lambda>x. bind_o (f x) g) s"
  by (auto simp: bind_o_def split: option.splits prod.splits sum.splits)

lemma feeds_kids:
  assumes "list_all2 (\<lambda>i c. read_interior_cell page pid i = Inr c) [n..<m] (kid_cells ks)"
    and "\<And>t. t \<in> set (kid_list ks) \<Longrightarrow> feeds (sub (root_of t)) cb (map g (entries t)) p"
  shows "feeds (bind_o (until_false (scan_child sub page pid) [n..<m])
      (\<lambda>go. if \<not> go then ret_o False else sub (kid_right ks))) cb (map g (kid_entries ks)) p"
  using assms
proof (induction ks arbitrary: n rule: kid_list.induct)
  case (1 t)
  then have nil: "[n..<m] = []" by (auto dest: list_all2_lengthD)
  have "feeds (sub (root_of t)) cb (map g (entries t)) p" using "1.prems"(2) by simp
  then show ?case unfolding nil kid_entries.simps by (rule feeds_cong [rotated]) (simp add: bind_o_def)
next
  case (2 t k ks)
  have nm: "n < m" using "2.prems"(1) by (cases "n < m") auto
  then have rows: "read_interior_cell page pid n = Inr \<lparr>ic_left_child = root_of t, ic_row_id = k\<rparr>"
    "list_all2 (\<lambda>i c. read_interior_cell page pid i = Inr c) [Suc n..<m] (kid_cells ks)"
    using "2.prems"(1) by (auto simp: upt_conv_Cons)
  have "feeds (sub (root_of t)) cb (map g (entries t)) p" using "2.prems"(2) by simp
  then have "feeds (scan_child sub page pid n) cb (map g (entries t)) p"
    by (rule feeds_cong [rotated]) (simp add: scan_child_def rows(1))
  from feeds_seq [OF this "2.IH" [OF rows(2) "2.prems"(2)]]
  have "feeds (bind_o (scan_child sub page pid n) (\<lambda>go.
      if go then bind_o (until_false (scan_child sub page pid) [Suc n..<m])
                   (\<lambda>go. if \<not> go then ret_o False else sub (kid_right ks))
      else ret_o False)) cb (map g (kid_entries (Kid t k ks))) p"
    by simp
  then show ?case
    by (rule feeds_cong [rotated])
       (auto simp: nm upt_conv_Cons bind_o_assoc intro!: bind_o_cong split: if_splits)
qed

text \<open>Both scans walk the tree the same way and differ in the cells of a leaf.\<close>

locale tree_scanner =
  fixes scan :: "nat \<Rightarrow> page_id \<Rightarrow> (pager \<times> 'c, bool) om"
    and leaf :: "nat \<Rightarrow> page_id \<Rightarrow> bytes \<Rightarrow> nat \<Rightarrow> (pager \<times> 'c, bool) om"
    and cb :: "('x, 'c) callback"
    and item :: "pager \<Rightarrow> nat \<Rightarrow> table_leaf_cell \<Rightarrow> 'x"
  assumes scan_Suc: "scan (Suc fuel) pid =
     bind_o (on_pager (run_o (read_page pid))) (\<lambda>page.
     bind_o (run_o (lift_s (read_page_header page pid))) (\<lambda>h.
       case ph_page_type h of
         TableLeaf \<Rightarrow> until_false (leaf fuel pid page) [0..<unat (ph_num_cells h)]
       | TableInterior \<Rightarrow>
           bind_o (until_false (scan_child (scan fuel) page pid) [0..<unat (ph_num_cells h)]) (\<lambda>go.
             if \<not> go then ret_o False
             else case ph_right_child h of None \<Rightarrow> ret_o True | Some rc \<Rightarrow> scan fuel rc)
       | _ \<Rightarrow> fail_o (Corrupted ''Invalid page type during scan: {other:?}'')))"
    and leaf_feeds: "n < fuel \<Longrightarrow> leaf_feeds (leaf fuel) cb (item p n) p n"
begin

lemma scan_feeds:
  assumes "tree_ok (page_view p) t" "rows_readable p n (entries t)" "tree_height t + n < fuel"
  shows "feeds (scan fuel (root_of t)) cb (map (item p n) (entries t)) p"
  using assms
proof (induction fuel arbitrary: t)
  case (Suc fuel)
  show ?case
  proof (cases t)
    case (BLeaf pid cs)
    obtain page where page: "page_view p pid = Some page" "wf_leaf pid page" "leaf_view pid page = Inr cs"
      using Suc.prems(1) BLeaf by (auto elim: leaf_pageE)
    obtain h where h: "read_page_header page pid = Inr h" "ph_page_type h = TableLeaf"
      "map_r (read_leaf_cell page pid) [0..<unat (ph_num_cells h)] = Inr cs"
      using leaf_header [OF page(2,3)] .
    have "unat (ph_num_cells h) = length cs" using h(3) by (auto simp: map_r_Inr_iff dest: list_all2_lengthD)
    moreover have "n < fuel" using Suc.prems(3) BLeaf by simp
    ultimately have "feeds (until_false (leaf fuel pid page) [0..<unat (ph_num_cells h)]) cb (map (item p n) cs) p"
      using feeds_leaf [OF leaf_feeds page(2,3)] Suc.prems(2) BLeaf by simp
    then show ?thesis
      unfolding scan_Suc BLeaf root_of.simps entries.simps
      by (rule feeds_page [OF page(1) feeds_cong [rotated]]) (simp add: h)
  next
    case (BNode pid ks)
    obtain page h where h: "page_view p pid = Some page" "read_page_header page pid = Inr h"
      "ph_page_type h = TableInterior" "ph_right_child h = Some (kid_right ks)"
      "map_r (read_interior_cell page pid) [0..<unat (ph_num_cells h)] = Inr (kid_cells ks)"
      using Suc.prems(1) BNode by (auto elim: interior_pageE)
    have sub: "feeds (scan fuel (root_of u)) cb (map (item p n) (entries u)) p" if u: "u \<in> set (kid_list ks)" for u
    proof (rule Suc.IH)
      show "tree_ok (page_view p) u" using kid_list_facts(1) [OF u] Suc.prems(1) BNode by simp
      show "rows_readable p n (entries u)"
        using rows_readable_mono [OF Suc.prems(2)] kid_list_facts(3) [OF u] BNode by simp
      show "tree_height u + n < fuel" using kid_list_facts(2) [OF u] Suc.prems(3) BNode by simp
    qed
    have "feeds (bind_o (until_false (scan_child (scan fuel) page pid) [0..<unat (ph_num_cells h)])
        (\<lambda>go. if \<not> go then ret_o False else scan fuel (kid_right ks))) cb (map (item p n) (kid_entries ks)) p"
      using feeds_kids [of page pid 0 "unat (ph_num_cells h)" ks "scan fuel" cb "item p n" p] sub h(5)
      by (simp add: map_r_Inr_iff)
    then show ?thesis
      unfolding scan_Suc BNode root_of.simps entries.simps
      by (rule feeds_page [OF h(1) feeds_cong [rotated]]) (simp add: h cong: if_cong)
  qed
qed simp

end

interpretation whole: tree_scanner "\<lambda>fuel. scan_subtree_with fuel cb"
    "\<lambda>fuel pid page. scan_cell fuel pid page cb" cb whole_cell for cb
  by unfold_locales (auto simp: leaf_feeds_def intro: scan_cell_feeds)

interpretation borrowed: tree_scanner "\<lambda>fuel. scan_subtree_with_ref fuel cb"
    "\<lambda>fuel pid page. scan_slot fuel pid page cb" cb whole_row for cb
  by unfold_locales (auto simp: leaf_feeds_def intro: scan_slot_feeds)

text \<open>A whole scan collects the rows of the tree in key order.\<close>

lemma btree_scan_view:
  assumes "writable p" "tree_ok (page_view p) t" "rows_readable p n (entries t)" "tree_height t + n < fuel"
  shows "\<exists>p'. btree_scan fuel (root_of t) p = Some (Inr (map (whole_cell p n) (entries t)), p') \<and>
    writable p' \<and> same_shape p p' \<and> page_view p' = page_view p"
proof -
  have all: "feed (\<lambda>cell cells. (Inr True, cells @ [cell])) xs c = (Inr True, c @ xs)" for xs c
    by (induction xs arbitrary: c) auto
  obtain q where "scan_subtree_with fuel (\<lambda>cell cells. (Inr True, cells @ [cell])) (root_of t) (p, []) =
      Some (Inr True, q, map (whole_cell p n) (entries t))" "writable q" "page_view q = page_view p" "same_shape p q"
    by (rule feedsE [OF whole.scan_feeds [OF assms(2-4), of "\<lambda>cell cells. (Inr True, cells @ [cell])"] assms(1), of "[]"])
       (simp add: all)
  then show ?thesis by (simp add: btree_scan_def)
qed

end
