(* ===== verification/Btree_Update.thy ===== *)
theory Btree_Update
  imports Btree_Search
begin

text \<open>
  Insertions that fit their leaf and deletions: both change one leaf page, and the tree stands
  for its rows with one row put in or taken out.
\<close>

section \<open>Updating one leaf\<close>

fun upd_leaf :: "u64 \<Rightarrow> (table_leaf_cell list \<Rightarrow> table_leaf_cell list) \<Rightarrow> btree \<Rightarrow> btree"
  and upd_kids :: "u64 \<Rightarrow> (table_leaf_cell list \<Rightarrow> table_leaf_cell list) \<Rightarrow> kids \<Rightarrow> kids" where
  "upd_leaf key f (BLeaf pid cs) = BLeaf pid (f cs)"
| "upd_leaf key f (BNode pid ks) = BNode pid (upd_kids key f ks)"
| "upd_kids key f (Last t) = Last (upd_leaf key f t)"
| "upd_kids key f (Kid t k ks) =
     (if key \<le> k then Kid (upd_leaf key f t) k ks else Kid t k (upd_kids key f ks))"

fun leaf_for :: "u64 \<Rightarrow> btree \<Rightarrow> page_id \<times> table_leaf_cell list"
  and leaf_for_kids :: "u64 \<Rightarrow> kids \<Rightarrow> page_id \<times> table_leaf_cell list" where
  "leaf_for key (BLeaf pid cs) = (pid, cs)"
| "leaf_for key (BNode pid ks) = leaf_for_kids key ks"
| "leaf_for_kids key (Last t) = leaf_for key t"
| "leaf_for_kids key (Kid t k ks) = (if key \<le> k then leaf_for key t else leaf_for_kids key ks)"

lemma leaf_for_kids_child: "leaf_for_kids key ks = leaf_for key (child_for key ks)"
  by (induction key ks rule: child_for.induct) auto

lemma upd_root [simp]: "root_of (upd_leaf key f t) = root_of t"
  by (cases t) auto

lemma upd_shape:
  "tree_pages (upd_leaf key f t) = tree_pages t \<and> tree_height (upd_leaf key f t) = tree_height t"
  "kid_pages (upd_kids key f ks) = kid_pages ks \<and> kid_cells (upd_kids key f ks) = kid_cells ks \<and>
    kid_right (upd_kids key f ks) = kid_right ks \<and> kid_height (upd_kids key f ks) = kid_height ks"
  by (induction key f t and key f ks rule: upd_leaf_upd_kids.induct) auto

lemma leaf_for_page:
  "fst (leaf_for key t) \<in> set (tree_pages t)" "fst (leaf_for_kids key ks) \<in> set (kid_pages ks)"
  by (induction key t and key ks rule: leaf_for_leaf_for_kids.induct) auto

lemma leaf_for_ok:
  "tree_ok V t \<Longrightarrow> leaf_page V (fst (leaf_for key t)) (snd (leaf_for key t))"
  "kids_ok V ks \<Longrightarrow> leaf_page V (fst (leaf_for_kids key ks)) (snd (leaf_for_kids key ks))"
  by (induction key t and key ks rule: leaf_for_leaf_for_kids.induct) auto

lemma tree_ok_cong:
  "(\<And>q. q \<in> set (tree_pages t) \<Longrightarrow> V' q = V q) \<Longrightarrow> tree_ok V' t = tree_ok V t"
  "(\<And>q. q \<in> set (kid_pages ks) \<Longrightarrow> V' q = V q) \<Longrightarrow> kids_ok V' ks = kids_ok V ks"
  by (induction t and ks rule: tree_pages_kid_pages.induct) (simp_all add: leaf_page_def interior_page_def)

lemma upd_entries_bound:
  assumes "\<And>cs c. c \<in> set (f cs) \<Longrightarrow> lc_row_id c = key \<or> c \<in> set cs"
  shows "c \<in> set (entries (upd_leaf key f t)) \<Longrightarrow> lc_row_id c = key \<or> c \<in> set (entries t)"
    "c \<in> set (kid_entries (upd_kids key f ks)) \<Longrightarrow> lc_row_id c = key \<or> c \<in> set (kid_entries ks)"
  using assms
  by (induction key f t and key f ks rule: upd_leaf_upd_kids.induct) (auto split: if_splits)

text \<open>Writing the leaf a key belongs to updates the tree.\<close>

lemma upd_ok:
  assumes "\<And>cs c. c \<in> set (f cs) \<Longrightarrow> lc_row_id c = key \<or> c \<in> set cs"
  shows "tree_ok V t \<Longrightarrow> distinct (tree_pages t) \<Longrightarrow>
      leaf_page (V(fst (leaf_for key t) \<mapsto> page)) (fst (leaf_for key t)) (f (snd (leaf_for key t))) \<Longrightarrow>
      tree_ok (V(fst (leaf_for key t) \<mapsto> page)) (upd_leaf key f t)"
    "kids_ok V ks \<Longrightarrow> distinct (kid_pages ks) \<Longrightarrow>
      leaf_page (V(fst (leaf_for_kids key ks) \<mapsto> page)) (fst (leaf_for_kids key ks)) (f (snd (leaf_for_kids key ks))) \<Longrightarrow>
      kids_ok (V(fst (leaf_for_kids key ks) \<mapsto> page)) (upd_kids key f ks)"
  using assms
proof (induction key f t and key f ks rule: upd_leaf_upd_kids.induct)
  case (2 key f pid ks)
  have "fst (leaf_for_kids key ks) \<noteq> pid" using "2.prems"(2) leaf_for_page(2) [of key ks] by auto
  then show ?case using 2 upd_shape(2) [of key f ks] by (simp add: interior_page_def)
next
  case (4 key f t k ks)
  show ?case
  proof (cases "key \<le> k")
    case True
    have "kids_ok (V(fst (leaf_for key t) \<mapsto> page)) ks = kids_ok V ks"
      by (rule tree_ok_cong) (use "4.prems"(2) leaf_for_page(1) [of key t] in auto)
    moreover have "lc_row_id c \<le> k" if "c \<in> set (entries (upd_leaf key f t))" for c
      using upd_entries_bound(1) [OF "4.prems"(4) that] "4.prems"(1) True by auto
    ultimately show ?thesis using 4 True by (simp del: fun_upd_apply)
  next
    case False
    have "tree_ok (V(fst (leaf_for_kids key ks) \<mapsto> page)) t = tree_ok V t"
      by (rule tree_ok_cong) (use "4.prems"(2) leaf_for_page(2) [of key ks] in auto)
    moreover have "k < lc_row_id c" if "c \<in> set (kid_entries (upd_kids key f ks))" for c
      using upd_entries_bound(2) [OF "4.prems"(4) that] "4.prems"(1) False by auto
    ultimately show ?thesis using 4 False by (simp del: fun_upd_apply)
  qed
qed auto

text \<open>The rows of the updated tree.\<close>

lemma upsert_append_left:
  assumes "\<And>x. x \<in> set ys \<Longrightarrow> lc_row_id c < lc_row_id x"
  shows "upsert_cell c (xs @ ys) = upsert_cell c xs @ ys"
proof -
  have "takeWhile (\<lambda>x. lc_row_id x < lc_row_id c) ys = []" "dropWhile (\<lambda>x. lc_row_id x \<le> lc_row_id c) ys = ys"
    using assms by (cases ys; fastforce)+
  then have "takeWhile (\<lambda>x. lc_row_id x < lc_row_id c) (xs @ ys) = takeWhile (\<lambda>x. lc_row_id x < lc_row_id c) xs"
    "dropWhile (\<lambda>x. lc_row_id x \<le> lc_row_id c) (xs @ ys) = dropWhile (\<lambda>x. lc_row_id x \<le> lc_row_id c) xs @ ys"
    by (simp_all add: takeWhile_append dropWhile_append takeWhile_eq_all_conv [THEN iffD2] dropWhile_eq_Nil_conv [THEN iffD2])
  then show ?thesis by (simp add: upsert_cell_def)
qed

lemma upsert_append_right:
  assumes "\<And>x. x \<in> set xs \<Longrightarrow> lc_row_id x < lc_row_id c"
  shows "upsert_cell c (xs @ ys) = xs @ upsert_cell c ys"
proof -
  have "\<And>x. x \<in> set xs \<Longrightarrow> lc_row_id x \<le> lc_row_id c" using assms by (simp add: order_less_imp_le)
  then show ?thesis using assms by (simp add: upsert_cell_def)
qed

lemma delete_append_left: "(\<And>x. x \<in> set ys \<Longrightarrow> lc_row_id x \<noteq> key) \<Longrightarrow> delete_cell key (xs @ ys) = delete_cell key xs @ ys"
  by (simp add: delete_cell_def filter_id_conv)

lemma delete_append_right: "(\<And>x. x \<in> set xs \<Longrightarrow> lc_row_id x \<noteq> key) \<Longrightarrow> delete_cell key (xs @ ys) = xs @ delete_cell key ys"
  by (simp add: delete_cell_def filter_id_conv)

lemma upd_entries_upsert:
  "tree_ok V t \<Longrightarrow> entries (upd_leaf (lc_row_id c) (upsert_cell c) t) = upsert_cell c (entries t)"
  "kids_ok V ks \<Longrightarrow> kid_entries (upd_kids (lc_row_id c) (upsert_cell c) ks) = upsert_cell c (kid_entries ks)"
proof (induction t and ks rule: entries_kid_entries.induct)
  case (4 t k ks)
  show ?case
  proof (cases "lc_row_id c \<le> k")
    case True
    have "upsert_cell c (entries t @ kid_entries ks) = upsert_cell c (entries t) @ kid_entries ks"
      by (rule upsert_append_left) (use 4 True in fastforce)
    then show ?thesis using 4 True by simp
  next
    case False
    have "upsert_cell c (entries t @ kid_entries ks) = entries t @ upsert_cell c (kid_entries ks)"
      by (rule upsert_append_right) (use 4 False in fastforce)
    then show ?thesis using 4 False by simp
  qed
qed auto

lemma upd_entries_delete:
  "tree_ok V t \<Longrightarrow> entries (upd_leaf key (delete_cell key) t) = delete_cell key (entries t)"
  "kids_ok V ks \<Longrightarrow> kid_entries (upd_kids key (delete_cell key) ks) = delete_cell key (kid_entries ks)"
proof (induction t and ks rule: entries_kid_entries.induct)
  case (4 t k ks)
  show ?case
  proof (cases "key \<le> k")
    case True
    have "delete_cell key (entries t @ kid_entries ks) = delete_cell key (entries t) @ kid_entries ks"
      by (rule delete_append_left) (use 4 True in fastforce)
    then show ?thesis using 4 True by simp
  next
    case False
    have "delete_cell key (entries t @ kid_entries ks) = entries t @ delete_cell key (kid_entries ks)"
      by (rule delete_append_right) (use 4 False in fastforce)
    then show ?thesis using 4 False by simp
  qed
qed auto
section \<open>Insertions that fit\<close>

text \<open>A tree on pages of the pager's size other than page 1.\<close>

definition tree_stored :: "pager \<Rightarrow> btree \<Rightarrow> bool" where
  "tree_stored p t \<longleftrightarrow> tree_ok (page_view p) t \<and> distinct (tree_pages t) \<and> 1 \<notin> set (tree_pages t) \<and>
     list_all (\<lambda>q. case page_view p q of None \<Rightarrow> False | Some d \<Rightarrow> length d = page_size p) (tree_pages t)"

lemma leaf_old_overflow:
  assumes "wf_leaf pid page" "leaf_view pid page = Inr cs"
  shows "old_overflow_of pid key page =
    Inr (case find (\<lambda>c. lc_row_id c = key) cs of None \<Rightarrow> None | Some c \<Rightarrow> lc_overflow_page c)"
  using find_spec_find [of cs key] wf_leaf_sorted [OF assms] leaf_find [OF assms]
  by (simp add: old_overflow_of_def split: search_result.splits)

lemma leaf_page_type: "wf_leaf pid page \<Longrightarrow> leaf_view pid page = Inr cs \<Longrightarrow> page_type_of pid page = Inr TableLeaf"
  by (auto elim: leaf_header simp: page_type_of_def)

lemma insert_leaf_fits:
  assumes "wf_leaf pid page" "leaf_view pid page = Inr cs" "valid_leaf_cell c"
    "length (leaf_cell_to_bytes c) + 2 \<le> leaf_free pid page"
  obtains page' where "insert_leaf_cell_raw page pid (lc_row_id c) (lc_payload c) (lc_overflow_page c) = Inr (page', True)"
    "wf_leaf pid page'" "leaf_view pid page' = Inr (upsert_cell c cs)" "length page' = length page"
    "leaf_free pid page \<le> leaf_free pid page' + length (leaf_cell_to_bytes c) + 2"
proof -
  obtain P h ps G C where r: "leaf_repr pid page P h ps G C cs" using wf_leaf_repr [OF assms(1,2)] by blast
  then have "length (leaf_cell_to_bytes c) + 2 \<le> length G" using assms(4) leaf_free_repr [OF r] by simp
  from insert_leaf_repr [OF r assms(3) this] obtain page' h' ps' G' where i:
    "insert_leaf_cell_into_page page pid c = Inr (page', True)"
    "leaf_repr pid page' P h' ps' G' (leaf_cell_to_bytes c @ C) (upsert_cell c cs)" "length page' = length page"
    "length G \<le> length G' + length (leaf_cell_to_bytes c) + 2" by blast
  show thesis
    using that [OF i(1) [unfolded insert_leaf_cell_into_page_def]] leaf_repr_wf [OF i(2)] i(3,4)
    by (simp add: leaf_free_repr [OF r] leaf_free_repr [OF i(2)])
qed

lemma insert_leaf_run:
  assumes p: "writable p" "page_view p pid = Some page" and leaf: "wf_leaf pid page" "leaf_view pid page = Inr cs"
    and c: "pid \<noteq> 1" "valid_leaf_cell c" "length (leaf_cell_to_bytes c) + 2 \<le> leaf_free pid page"
    and old: "\<forall>d. find (\<lambda>x. lc_row_id x = lc_row_id c) cs = Some d \<longrightarrow> lc_overflow_page d = None"
  obtains page' p' where "insert_into_subtree (Suc fuel) crc pid (lc_row_id c) (lc_payload c) (lc_overflow_page c) p =
      Some (Inr None, p')" "wf_leaf pid page'" "leaf_view pid page' = Inr (upsert_cell c cs)"
    "length page' = length page" "writable p'" "same_shape p p'" "page_view p' = (page_view p)(pid \<mapsto> page')"
    "leaf_free pid page \<le> leaf_free pid page' + length (leaf_cell_to_bytes c) + 2"
proof -
  obtain p1 where p1: "with_page pid (page_type_of pid) p = (page_type_of pid page, p1)" "writable p1"
    "same_shape p p1" "page_view p1 = page_view p"
    using with_page_view [OF p] .
  have v1: "page_view p1 pid = Some page" using p(2) p1(4) by simp
  obtain p2 where p2: "with_page pid (old_overflow_of pid (lc_row_id c)) p1 = (old_overflow_of pid (lc_row_id c) page, p2)"
    "writable p2" "same_shape p1 p2" "page_view p2 = page_view p1"
    using with_page_view [OF p1(2) v1] .
  have v2: "page_view p2 pid = Some page" using v1 p2(4) by simp
  obtain page' where page': "insert_leaf_cell_raw page pid (lc_row_id c) (lc_payload c) (lc_overflow_page c) = Inr (page', True)"
    "wf_leaf pid page'" "leaf_view pid page' = Inr (upsert_cell c cs)" "length page' = length page"
    "leaf_free pid page \<le> leaf_free pid page' + length (leaf_cell_to_bytes c) + 2"
    using insert_leaf_fits [OF leaf c(2,3)] .
  have ip: "in_place (\<lambda>b. insert_leaf_cell_raw b pid (lc_row_id c) (lc_payload c) (lc_overflow_page c)) page = (Inr True, page')"
    by (simp add: in_place_def page'(1))
  obtain p3 where p3: "modify_page crc pid
      (in_place (\<lambda>b. insert_leaf_cell_raw b pid (lc_row_id c) (lc_payload c) (lc_overflow_page c))) p2 = (Inr True, p3)"
    "writable p3" "same_shape p2 p3" "page_view p3 = (page_view p2)(pid \<mapsto> page')"
    using modify_page_view [where f = "in_place (\<lambda>b. insert_leaf_cell_raw b pid (lc_row_id c) (lc_payload c) (lc_overflow_page c))",
        OF p2(2) v2 c(1) ip] .
  have none: "old_overflow_of pid (lc_row_id c) page = Inr None"
    using leaf_old_overflow [OF leaf] old by (simp split: option.splits)
  have "insert_into_subtree (Suc fuel) crc pid (lc_row_id c) (lc_payload c) (lc_overflow_page c) p = Some (Inr None, p3)"
    using p1(1) p2(1) p3(1) leaf_page_type [OF leaf] none by (simp add: bind_o_run free_old_def)
  moreover have "same_shape p p3" by (rule same_shape_trans [OF p1(3) same_shape_trans [OF p2(3) p3(3)]])
  ultimately show thesis using that page' p3 p1(4) p2(4) by simp
qed

text \<open>One level of the descent.\<close>

lemma insert_descend:
  assumes p: "writable p" and node: "interior_page (page_view p) pid (kid_cells ks) (kid_right ks)"
  obtains p2 where "writable p2" "same_shape p p2" "page_view p2 = page_view p"
    "insert_into_subtree (Suc fuel) crc pid key payload ovf p =
       bind_o (insert_into_subtree fuel crc (root_of (child_for key ks)) key payload ovf) (\<lambda>child_split.
         case child_split of
           None \<Rightarrow> ret_o None
         | Some (new_child, k) \<Rightarrow>
             let cell = \<lparr>ic_left_child = root_of (child_for key ks), ic_row_id = k\<rparr>;
                 new_rc = (if child_idx key 0 ks = None then Some new_child else None) in
             bind_o (run_o (modify_page crc pid (in_place (add_separator pid cell new_rc)))) (\<lambda>can_fit.
               if can_fit then ret_o None
               else bind_o (run_o (read_page pid)) (\<lambda>page.
                    bind_o (run_o (split_interior_page crc pid page cell new_rc)) (\<lambda>r. ret_o (Some r))))) p2"
proof (rule interior_pageE [OF node])
  fix page h
  assume h: "page_view p pid = Some page" "read_page_header page pid = Inr h" "ph_page_type h = TableInterior"
    "ph_right_child h = Some (kid_right ks)"
    "map_r (read_interior_cell page pid) [0..<unat (ph_num_cells h)] = Inr (kid_cells ks)"
  obtain p1 where p1: "with_page pid (page_type_of pid) p = (page_type_of pid page, p1)" "writable p1"
    "same_shape p p1" "page_view p1 = page_view p"
    using with_page_view [OF p h(1)] .
  have v1: "page_view p1 pid = Some page" using h(1) p1(4) by simp
  obtain p2 where p2: "with_page pid (route_page pid key) p1 = (route_page pid key page, p2)"
    "writable p2" "same_shape p1 p2" "page_view p2 = page_view p1"
    using with_page_view [OF p1(2) v1] .
  have r: "route_page pid key page = Inr (root_of (child_for key ks), child_idx key 0 ks)"
    using route_kids [OF h(5,4)] by (simp add: route_page_def h(2))
  have t: "page_type_of pid page = Inr TableInterior" by (simp add: page_type_of_def h)
  show thesis
    by (rule that [OF p2(2)]) (use p1 p2 r t same_shape_trans in \<open>auto simp: bind_o_run\<close>)
qed

lemma insert_fits_run:
  assumes "writable p" "tree_ok (page_view p) t" "distinct (tree_pages t)" "1 \<notin> set (tree_pages t)"
    "tree_height t \<le> fuel" "valid_leaf_cell c" "leaf_for (lc_row_id c) t = (pid, cs)"
    "page_view p pid = Some page" "length (leaf_cell_to_bytes c) + 2 \<le> leaf_free pid page"
    "\<forall>d. lookup t (lc_row_id c) = Some d \<longrightarrow> lc_overflow_page d = None"
  shows "\<exists>page' p'. insert_into_subtree fuel crc (root_of t) (lc_row_id c) (lc_payload c) (lc_overflow_page c) p =
      Some (Inr None, p') \<and> wf_leaf pid page' \<and> leaf_view pid page' = Inr (upsert_cell c cs) \<and>
      length page' = length page \<and> writable p' \<and> same_shape p p' \<and> page_view p' = (page_view p)(pid \<mapsto> page') \<and>
      leaf_free pid page \<le> leaf_free pid page' + length (leaf_cell_to_bytes c) + 2"
  using assms
proof (induction fuel arbitrary: t p)
  case 0
  then show ?case by (cases t) simp_all
next
  case (Suc fuel)
  show ?case
  proof (cases t)
    case (BLeaf q ds)
    then have q: "q = pid" "ds = cs" using Suc.prems(7) by simp_all
    have leaf: "wf_leaf pid page" "leaf_view pid page = Inr cs"
      using Suc.prems(2,8) BLeaf q by (auto elim: leaf_pageE)
    have pid: "pid \<noteq> 1" using Suc.prems(4) BLeaf q by simp
    have old: "\<forall>d. find (\<lambda>x. lc_row_id x = lc_row_id c) cs = Some d \<longrightarrow> lc_overflow_page d = None"
      using Suc.prems(10) BLeaf q by (simp add: lookup_def)
    have root: "root_of t = pid" using BLeaf q by simp
    show ?thesis
      unfolding root by (rule insert_leaf_run [OF Suc.prems(1,8) leaf pid Suc.prems(6,9) old]) blast
  next
    case (BNode q ks)
    let ?t = "child_for (lc_row_id c) ks"
    have node: "interior_page (page_view p) q (kid_cells ks) (kid_right ks)" using Suc.prems(2) BNode by simp
    obtain p2 where p2: "writable p2" "same_shape p p2" "page_view p2 = page_view p"
      and run: "insert_into_subtree (Suc fuel) crc q (lc_row_id c) (lc_payload c) (lc_overflow_page c) p =
       bind_o (insert_into_subtree fuel crc (root_of ?t) (lc_row_id c) (lc_payload c) (lc_overflow_page c)) (\<lambda>child_split.
         case child_split of
           None \<Rightarrow> ret_o None
         | Some (new_child, k) \<Rightarrow>
             let cell = \<lparr>ic_left_child = root_of ?t, ic_row_id = k\<rparr>;
                 new_rc = (if child_idx (lc_row_id c) 0 ks = None then Some new_child else None) in
             bind_o (run_o (modify_page crc q (in_place (add_separator q cell new_rc)))) (\<lambda>can_fit.
               if can_fit then ret_o None
               else bind_o (run_o (read_page q)) (\<lambda>page.
                    bind_o (run_o (split_interior_page crc q page cell new_rc)) (\<lambda>r. ret_o (Some r))))) p2"
      using insert_descend [OF Suc.prems(1) node] .
    have ks: "kids_ok (page_view p) ks" using Suc.prems(2) BNode by simp
    have "\<exists>page' p'. insert_into_subtree fuel crc (root_of ?t) (lc_row_id c) (lc_payload c) (lc_overflow_page c) p2 =
        Some (Inr None, p') \<and> wf_leaf pid page' \<and> leaf_view pid page' = Inr (upsert_cell c cs) \<and>
        length page' = length page \<and> writable p' \<and> same_shape p2 p' \<and> page_view p' = (page_view p2)(pid \<mapsto> page') \<and>
        leaf_free pid page \<le> leaf_free pid page' + length (leaf_cell_to_bytes c) + 2"
    proof (rule Suc.IH [OF p2(1)])
      show "tree_ok (page_view p2) ?t" using child_for_ok [OF ks] p2(3) by simp
      show "distinct (tree_pages ?t)" using Suc.prems(3) BNode child_for_distinct by simp
      show "1 \<notin> set (tree_pages ?t)" using Suc.prems(4) BNode child_for_pages [of "lc_row_id c" ks] by auto
      show "tree_height ?t \<le> fuel" using Suc.prems(5) BNode child_for_height [of "lc_row_id c" ks] by simp
      show "leaf_for (lc_row_id c) ?t = (pid, cs)" using Suc.prems(7) BNode by (simp add: leaf_for_kids_child)
      show "\<forall>d. lookup ?t (lc_row_id c) = Some d \<longrightarrow> lc_overflow_page d = None"
        using Suc.prems(10) BNode child_for_lookup [OF ks, of "lc_row_id c"] by (simp add: lookup_def)
    qed (use Suc.prems p2(3) in simp_all)
    then obtain page' p' where i: "insert_into_subtree fuel crc (root_of ?t) (lc_row_id c) (lc_payload c) (lc_overflow_page c) p2 =
        Some (Inr None, p')" "wf_leaf pid page'" "leaf_view pid page' = Inr (upsert_cell c cs)"
        "length page' = length page" "writable p'" "same_shape p2 p'" "page_view p' = (page_view p2)(pid \<mapsto> page')"
        "leaf_free pid page \<le> leaf_free pid page' + length (leaf_cell_to_bytes c) + 2"
      by blast
    have "insert_into_subtree (Suc fuel) crc (root_of t) (lc_row_id c) (lc_payload c) (lc_overflow_page c) p = Some (Inr None, p')"
      using run i(1) BNode by (simp add: bind_o_Some del: insert_into_subtree.simps)
    then show ?thesis using i(2-5,7,8) p2(3) same_shape_trans [OF p2(2) i(6)] by metis
  qed
qed
section \<open>Deletions\<close>

lemma delete_leaf_page:
  assumes "wf_leaf pid page" "leaf_view pid page = Inr cs"
  obtains page' where "delete_leaf_cell_from_page page pid key = Inr (page', key \<in> lc_row_id ` set cs)"
    "wf_leaf pid page'" "leaf_view pid page' = Inr (delete_cell key cs)" "length page' = length page"
    "key \<notin> lc_row_id ` set cs \<Longrightarrow> page' = page"
proof -
  obtain P h ps G C where r: "leaf_repr pid page P h ps G C cs" using wf_leaf_repr [OF assms] by blast
  show thesis
  proof (cases "key \<in> lc_row_id ` set cs")
    case True
    then show thesis using delete_leaf_repr [OF r True] leaf_repr_wf that by metis
  next
    case False
    then have "delete_cell key cs = cs" by (auto simp: delete_cell_def filter_id_conv)
    then show thesis using that [of page] delete_leaf_absent [OF r False] assms False by simp
  qed
qed

lemma delete_leaf_run:
  assumes p: "writable p" "page_view p pid = Some page" and leaf: "wf_leaf pid page" "leaf_view pid page = Inr cs"
    and c: "pid \<noteq> 1" "length page = page_size p"
    and old: "\<forall>d. find (\<lambda>x. lc_row_id x = key) cs = Some d \<longrightarrow> lc_overflow_page d = None"
  shows "\<exists>page' p'. delete_from_subtree (Suc fuel) crc pid key p = Some (Inr (key \<in> lc_row_id ` set cs), p') \<and>
    wf_leaf pid page' \<and> leaf_view pid page' = Inr (delete_cell key cs) \<and> length page' = length page \<and>
    writable p' \<and> same_shape p p' \<and> page_view p' = (page_view p)(pid \<mapsto> page')"
proof -
  obtain p1 where p1: "read_page pid p = (Inr page, p1)" "writable p1" "same_shape p p1" "page_view p1 = page_view p"
    using read_page_view [OF p] .
  obtain h where h: "read_page_header page pid = Inr h" "ph_page_type h = TableLeaf" using leaf_header [OF leaf] .
  have none: "old_overflow_of pid key page = Inr None"
    using leaf_old_overflow [OF leaf] old by (simp split: option.splits)
  obtain page' where page': "delete_leaf_cell_from_page page pid key = Inr (page', key \<in> lc_row_id ` set cs)"
    "wf_leaf pid page'" "leaf_view pid page' = Inr (delete_cell key cs)" "length page' = length page"
    "key \<notin> lc_row_id ` set cs \<Longrightarrow> page' = page"
    using delete_leaf_page [OF leaf] by metis
  show ?thesis
  proof (cases "key \<in> lc_row_id ` set cs")
    case True
    have v1: "page_view p1 pid = Some page" using p(2) p1(4) by simp
    have len: "length page' = page_size p1" using page'(4) c(2) p1(3) by (simp add: same_shape_def)
    obtain p2 where p2: "write_page crc pid page' p1 = (Inr (), p2)" "writable p2" "same_shape p1 p2"
      "page_view p2 = (page_view p1)(pid \<mapsto> page')"
      using write_page_view [OF p1(2) v1 c(1) len] .
    have "delete_from_subtree (Suc fuel) crc pid key p = Some (Inr (key \<in> lc_row_id ` set cs), p2)"
      using p1(1) h none page'(1) p2(1) True by (simp add: bind_o_run free_old_def)
    then show ?thesis using page'(2-4) p2(2,4) p1(4) same_shape_trans [OF p1(3) p2(3)] by metis
  next
    case False
    have "delete_from_subtree (Suc fuel) crc pid key p = Some (Inr (key \<in> lc_row_id ` set cs), p1)"
      using p1(1) h none page'(1) False by (simp add: bind_o_run)
    moreover have "page_view p1 = (page_view p)(pid \<mapsto> page')"
      using p1(4) page'(5) [OF False] p(2) by (simp add: fun_upd_idem)
    ultimately show ?thesis using page'(2-4) p1(2,3) by metis
  qed
qed

lemma delete_run:
  assumes "writable p" "tree_ok (page_view p) t" "1 \<notin> set (tree_pages t)"
    "tree_height t \<le> fuel" "leaf_for key t = (pid, cs)" "page_view p pid = Some page" "length page = page_size p"
    "\<forall>d. lookup t key = Some d \<longrightarrow> lc_overflow_page d = None"
  shows "\<exists>page' p'. delete_from_subtree fuel crc (root_of t) key p = Some (Inr (key \<in> lc_row_id ` set cs), p') \<and>
    wf_leaf pid page' \<and> leaf_view pid page' = Inr (delete_cell key cs) \<and> length page' = length page \<and>
    writable p' \<and> same_shape p p' \<and> page_view p' = (page_view p)(pid \<mapsto> page')"
  using assms
proof (induction fuel arbitrary: t p)
  case 0
  then show ?case by (cases t) simp_all
next
  case (Suc fuel)
  show ?case
  proof (cases t)
    case (BLeaf q ds)
    then have q: "q = pid" "ds = cs" using Suc.prems(5) by simp_all
    have leaf: "wf_leaf pid page" "leaf_view pid page = Inr cs"
      using Suc.prems(2,6) BLeaf q by (auto elim: leaf_pageE)
    have pid: "pid \<noteq> 1" using Suc.prems(3) BLeaf q by simp
    have old: "\<forall>d. find (\<lambda>x. lc_row_id x = key) cs = Some d \<longrightarrow> lc_overflow_page d = None"
      using Suc.prems(8) BLeaf q by (simp add: lookup_def)
    have root: "root_of t = pid" using BLeaf q by simp
    show ?thesis
      unfolding root by (rule delete_leaf_run [OF Suc.prems(1,6) leaf pid Suc.prems(7) old])
  next
    case (BNode q ks)
    let ?t = "child_for key ks"
    have ks: "kids_ok (page_view p) ks" using Suc.prems(2) BNode by simp
    obtain nd h where h: "page_view p q = Some nd" "read_page_header nd q = Inr h" "ph_page_type h = TableInterior"
      "ph_right_child h = Some (kid_right ks)"
      "map_r (read_interior_cell nd q) [0..<unat (ph_num_cells h)] = Inr (kid_cells ks)"
      using Suc.prems(2) BNode by (auto elim: interior_pageE)
    obtain p1 where p1: "read_page q p = (Inr nd, p1)" "writable p1" "same_shape p p1" "page_view p1 = page_view p"
      using read_page_view [OF Suc.prems(1) h(1)] .
    have "\<exists>page' p'. delete_from_subtree fuel crc (root_of ?t) key p1 = Some (Inr (key \<in> lc_row_id ` set cs), p') \<and>
      wf_leaf pid page' \<and> leaf_view pid page' = Inr (delete_cell key cs) \<and> length page' = length page \<and>
      writable p' \<and> same_shape p1 p' \<and> page_view p' = (page_view p1)(pid \<mapsto> page')"
    proof (rule Suc.IH [OF p1(2)])
      show "tree_ok (page_view p1) ?t" using child_for_ok [OF ks] p1(4) by simp
      show "1 \<notin> set (tree_pages ?t)" using Suc.prems(3) BNode child_for_pages [of key ks] by auto
      show "tree_height ?t \<le> fuel" using Suc.prems(4) BNode child_for_height [of key ks] by simp
      show "leaf_for key ?t = (pid, cs)" using Suc.prems(5) BNode by (simp add: leaf_for_kids_child)
      show "length page = page_size p1" using Suc.prems(7) p1(3) by (simp add: same_shape_def)
      show "\<forall>d. lookup ?t key = Some d \<longrightarrow> lc_overflow_page d = None"
        using Suc.prems(8) BNode child_for_lookup [OF ks, of key] by (simp add: lookup_def)
    qed (use Suc.prems p1(4) in simp_all)
    then obtain page' p' where i: "delete_from_subtree fuel crc (root_of ?t) key p1 = Some (Inr (key \<in> lc_row_id ` set cs), p')"
      "wf_leaf pid page'" "leaf_view pid page' = Inr (delete_cell key cs)" "length page' = length page"
      "writable p'" "same_shape p1 p'" "page_view p' = (page_view p1)(pid \<mapsto> page')"
      by blast
    have "delete_from_subtree (Suc fuel) crc (root_of t) key p = Some (Inr (key \<in> lc_row_id ` set cs), p')"
      using p1(1) h i(1) route_kids [OF h(5,4)] BNode by (simp add: bind_o_run)
    then show ?thesis using i(2-5,7) p1(4) same_shape_trans [OF p1(3) i(6)] by metis
  qed
qed

lemma stored_length:
  assumes "tree_stored p t" "q \<in> set (tree_pages t)"
  obtains d where "page_view p q = Some d" "length d = page_size p"
proof -
  have "case page_view p q of None \<Rightarrow> False | Some d \<Rightarrow> length d = page_size p"
    using assms by (simp add: tree_stored_def list_all_iff)
  then show thesis using that by (cases "page_view p q") auto
qed

text \<open>A rewritten leaf leaves the tree stored.\<close>

lemma stored_upd:
  assumes st: "tree_stored p t" and leaf: "leaf_for key t = (pid, cs)" "page_view p pid = Some page"
    and page': "wf_leaf pid page'" "leaf_view pid page' = Inr (f cs)" "length page' = length page"
    and v: "page_view p' = (page_view p)(pid \<mapsto> page')" and sh: "same_shape p p'"
    and f: "\<And>cs c. c \<in> set (f cs) \<Longrightarrow> lc_row_id c = key \<or> c \<in> set cs"
  shows "tree_stored p' (upd_leaf key f t)" "q \<notin> set (tree_pages t) \<Longrightarrow> page_view p' q = page_view p q"
proof -
  have pid: "pid \<in> set (tree_pages t)" using leaf_for_page(1) [of key t] leaf(1) by simp
  have ok: "tree_ok (page_view p) t" "distinct (tree_pages t)" using st by (simp_all add: tree_stored_def)
  have "tree_ok ((page_view p)(fst (leaf_for key t) \<mapsto> page')) (upd_leaf key f t)"
    by (rule upd_ok(1) [OF f ok]) (use page' leaf(1) in \<open>auto simp: leaf_page_def\<close>)
  moreover have "list_all (\<lambda>q. case page_view p' q of None \<Rightarrow> False | Some d \<Rightarrow> length d = page_size p') (tree_pages t)"
    unfolding list_all_iff
  proof
    fix q assume q: "q \<in> set (tree_pages t)"
    obtain d where d: "page_view p q = Some d" "length d = page_size p" using stored_length [OF st q] .
    show "case page_view p' q of None \<Rightarrow> False | Some d \<Rightarrow> length d = page_size p'"
      using d v sh leaf(2) page'(3) by (cases "q = pid") (simp_all add: same_shape_def)
  qed
  ultimately show "tree_stored p' (upd_leaf key f t)"
    using st v leaf(1) upd_shape(1) [of key f t] by (simp add: tree_stored_def del: fun_upd_apply)
  show "q \<notin> set (tree_pages t) \<Longrightarrow> page_view p' q = page_view p q" using v pid by auto
qed

lemma stored_leaf:
  assumes "tree_stored p t" "leaf_for key t = (pid, cs)"
  obtains page where "page_view p pid = Some page" "wf_leaf pid page" "leaf_view pid page = Inr cs"
    "length page = page_size p" "pid \<noteq> 1"
proof -
  have "leaf_page (page_view p) pid cs" using leaf_for_ok(1) [of "page_view p" t key] assms by (simp add: tree_stored_def)
  then obtain page where page: "page_view p pid = Some page" "wf_leaf pid page" "leaf_view pid page = Inr cs"
    by (auto elim: leaf_pageE)
  have "pid \<in> set (tree_pages t)" using leaf_for_page(1) [of key t] assms(2) by simp
  moreover from this obtain d where "page_view p pid = Some d" "length d = page_size p"
    using stored_length [OF assms(1)] by blast
  ultimately show thesis using that [OF page] page(1) assms(1) by (auto simp: tree_stored_def)
qed

lemma lookup_leaf_for:
  "tree_ok V t \<Longrightarrow> lookup t key = find (\<lambda>c. lc_row_id c = key) (snd (leaf_for key t))"
  "kids_ok V ks \<Longrightarrow> find (\<lambda>c. lc_row_id c = key) (kid_entries ks) =
     find (\<lambda>c. lc_row_id c = key) (snd (leaf_for_kids key ks))"
proof (induction t and ks rule: entries_kid_entries.induct)
  case (4 t k ks)
  then show ?case using child_for_lookup [of V "Kid t k ks" key] child_for_lookup [of V ks key]
    by (auto simp: lookup_def)
qed (simp_all add: lookup_def)

lemma key_leaf_for:
  assumes "tree_ok V t"
  shows "key \<in> lc_row_id ` set (snd (leaf_for key t)) \<longleftrightarrow> key \<in> lc_row_id ` set (entries t)"
  using lookup_leaf_for(1) [OF assms, of key] unfolding lookup_def by (metis (mono_tags, lifting) find_None_iff imageE imageI)

end
