(* ===== verification/Btree_Split.thy ===== *)
theory Btree_Split
  imports Btree_Update "HOL-Library.Multiset"
begin

text \<open>
  Page splits: a new page filled with cells, a leaf cut in two halves, the leaf that is only
  appended to, and what the insertion above does with the new page.
\<close>

section \<open>Filling a page\<close>

definition page_room :: "nat \<Rightarrow> nat" where "page_room psize = psize - (8 + PAGE_RESERVED_TRAILER)"

definition slots_size :: "table_leaf_cell list \<Rightarrow> nat" where
  "slots_size cs = sum_list (map (\<lambda>c. length (leaf_cell_to_bytes c) + 2) cs)"

lemma upsert_last: "(\<And>x. x \<in> set cs \<Longrightarrow> lc_row_id x < lc_row_id c) \<Longrightarrow> upsert_cell c cs = cs @ [c]"
  using upsert_append_right [of cs c "[]"] by (simp add: upsert_cell_def)

lemma fill_cells:
  assumes "leaf_repr pid page P h ps G C cs" "sorted_cells (cs @ ds)" "list_all valid_leaf_cell ds"
    "slots_size ds \<le> length G"
  shows "\<exists>page' P h ps G C. fold_r (\<lambda>c b. bind_r (insert_leaf_cell_into_page b pid c) (\<lambda>(b', _). Inr b')) ds page = Inr page' \<and>
    leaf_repr pid page' P h ps G C (cs @ ds) \<and> length page' = length page"
  using assms
proof (induction ds arbitrary: page P h ps G C cs)
  case (Cons d ds)
  obtain page1 h1 ps1 G1 where i: "insert_leaf_cell_into_page page pid d = Inr (page1, True)"
    "leaf_repr pid page1 P h1 ps1 G1 (leaf_cell_to_bytes d @ C) (upsert_cell d cs)" "length page1 = length page"
    "length G \<le> length G1 + length (leaf_cell_to_bytes d) + 2"
    using insert_leaf_repr [OF Cons.prems(1), of d] Cons.prems(3,4) by (auto simp: slots_size_def)
  have "upsert_cell d cs = cs @ [d]"
    by (rule upsert_last) (use Cons.prems(2) in \<open>auto simp: sorted_cells_def sorted_wrt_append\<close>)
  then have r: "leaf_repr pid page1 P h1 ps1 G1 (leaf_cell_to_bytes d @ C) (cs @ [d])" using i(2) by simp
  have "\<exists>page' P h ps G C. fold_r (\<lambda>c b. bind_r (insert_leaf_cell_into_page b pid c) (\<lambda>(b', _). Inr b')) ds page1 = Inr page' \<and>
    leaf_repr pid page' P h ps G C ((cs @ [d]) @ ds) \<and> length page' = length page1"
    by (rule Cons.IH [OF r]) (use Cons.prems(2-4) i(4) in \<open>auto simp: slots_size_def\<close>)
  then show ?case using i(1,3) by simp
next
  case Nil
  from Nil(1) show ?case by auto blast
qed

lemma init_leaf_repr:
  assumes "pid \<noteq> 1" "8 + PAGE_RESERVED_TRAILER + 4 \<le> length page" "length page < 65536"
  obtains page' P h ps G C where "init_leaf_page page pid = Inr page'" "leaf_repr pid page' P h ps G C []"
    "length page' = length page" "length G = page_room (length page)"
proof -
  have off: "page_header_offset pid + 12 + PAGE_RESERVED_TRAILER \<le> length page"
    using assms by (simp add: page_header_offset_def)
  have "wf_header (empty_header TableLeaf None (length page))"
    by (simp add: wf_header_def empty_header_def is_interior_def)
  from init_page_cells [OF off assms(3) refl this, of leaf_cell_from_bytes]
  obtain page' G where p: "put_r page (page_header_offset pid)
      (header_to_bytes (empty_header TableLeaf None (length page))) = Inr page'" "length page' = length page"
    and c: "cells_repr leaf_cell_from_bytes pid page' (take (page_header_offset pid) page)
      (empty_header TableLeaf None (length page)) [] G (drop (length page - PAGE_RESERVED_TRAILER) page) []"
    by blast
  have "length G = page_room (length page)"
    using cells_repr_lengths(6) [OF c] p(2) assms(1,2)
    by (simp add: page_room_def page_header_offset_def header_size_def empty_header_def is_interior_def)
  moreover have "leaf_repr pid page' (take (page_header_offset pid) page)
      (empty_header TableLeaf None (length page)) [] G (drop (length page - PAGE_RESERVED_TRAILER) page) []"
    using c assms by (simp add: leaf_repr_def empty_header_def sorted_cells_def)
  moreover have "init_leaf_page page pid = Inr page'" using p(1) assms by (simp add: init_leaf_page_def)
  ultimately show thesis using that p(2) by blast
qed

lemma fill_leaf_view:
  assumes "pid \<noteq> 1" "8 + PAGE_RESERVED_TRAILER + 4 \<le> psize" "psize < 65536" "sorted_cells ds"
    "list_all valid_leaf_cell ds" "slots_size ds \<le> page_room psize"
  obtains page' where "fill_leaf pid ds (replicate psize 0) = Inr page'" "wf_leaf pid page'"
    "leaf_view pid page' = Inr ds" "length page' = psize"
proof -
  have "8 + PAGE_RESERVED_TRAILER + 4 \<le> length (replicate psize (0::u8))" "length (replicate psize (0::u8)) < 65536"
    using assms(2,3) by simp_all
  then obtain page0 P h ps G C where i: "init_leaf_page (replicate psize 0) pid = Inr page0"
    "leaf_repr pid page0 P h ps G C []" "length page0 = psize" "length G = page_room psize"
    using init_leaf_repr [OF assms(1), of "replicate psize 0"] by (metis length_replicate)
  have "slots_size ds \<le> length G" using i(4) assms(6) by simp
  from fill_cells [OF i(2) _ assms(5) this] assms(4)
  obtain page' P h ps G C where f: "fold_r (\<lambda>c b. bind_r (insert_leaf_cell_into_page b pid c) (\<lambda>(b', _). Inr b')) ds page0 = Inr page'"
    "leaf_repr pid page' P h ps G C ds" "length page' = length page0" by auto
  have "fill_leaf pid ds (replicate psize 0) = Inr page'" using i(1) f(1) by (simp add: fill_leaf_def)
  then show thesis using that leaf_repr_wf [OF f(2)] f(3) i(3) by simp
qed

section \<open>The last row\<close>

lemma last_row_id_leaf:
  assumes leaf: "wf_leaf pid page" "leaf_view pid page = Inr cs" and pid: "pid \<noteq> 1"
  shows "last_row_id page pid (length cs) = Inr (if 2 \<le> length cs then Some (lc_row_id (last cs)) else None)"
proof (cases "2 \<le> length cs")
  case True
  then have "cs \<noteq> []" by auto
  then have l: "length cs - 1 < length cs" "last cs = cs ! (length cs - 1)" by (simp_all add: last_conv_nth)
  have "read_leaf_cell page pid (length cs - 1) = Inr (last cs)" using leaf_find(2) [OF leaf l(1)] l(2) by simp
  then obtain ptr where ptr: "read_cell_pointer page pid (length cs - 1) = Inr ptr" "\<not> length page \<le> unat ptr"
    "leaf_cell_from_bytes (drop (unat ptr) page) = Inr (last cs)"
    by (auto simp: read_leaf_cell_def cell_slice_def bind_r_eq_Inr split: if_splits)
  define bs where "bs = drop (unat ptr) page"
  obtain c where c: "c = last cs" by simp
  obtain len n1 row n2 where d: "decode_varint bs = Inr (len, n1)" "n1 \<le> length bs"
    "decode_varint (drop n1 bs) = Inr (row, n2)" "lc_row_id c = row"
    using ptr(3) unfolding bs_def [symmetric] c [symmetric]
    by (auto simp: leaf_cell_from_bytes_def bind_r_eq_Inr from_r_def usize_add_def Let_def not_less split: if_splits)
  have "unat ptr + n1 \<le> length page" "drop (unat ptr + n1) page = drop n1 bs"
    using d(2) ptr(2) by (auto simp: bs_def ac_simps)
  then show ?thesis
    using True pid ptr(1,2) d c by (simp add: last_row_id_def bs_def [symmetric] not_le from_r_def)
qed (simp add: last_row_id_def)

section \<open>Splitting a leaf\<close>

text \<open>A pager that can hand out a page from the end of the file.\<close>

definition can_allocate :: "pager \<Rightarrow> bool" where
  "can_allocate p \<longleftrightarrow> dh_freelist_count (pg_header p) = 0 \<and> total_pages p \<noteq> 0 \<and> total_pages p \<noteq> - 1 \<and>
     8 + PAGE_RESERVED_TRAILER + 4 \<le> page_size p \<and> page_size p < 65536"

lemma can_allocate_shape: "same_shape p q \<Longrightarrow> can_allocate p \<Longrightarrow> can_allocate q"
  by (simp add: same_shape_def can_allocate_def)

lemma new_page_fresh:
  assumes "can_allocate p" "page_view p q = Some d"
  shows "total_pages p + 1 \<noteq> q"
proof -
  have "1 + total_pages p \<noteq> 0" using assms(1) by (metis add_eq_0_iff can_allocate_def)
  from unatSuc [OF this] have "unat (total_pages p + 1) = Suc (unat (total_pages p))" by (simp add: add.commute)
  then show ?thesis using page_view_valid [OF assms(2)] by (auto simp: word_le_nat_alt)
qed

text \<open>The pages after a step that adds one page and keeps all others but page 1.\<close>

lemma new_leaf_view:
  assumes w: "writable p" and a: "can_allocate p"
    and ds: "sorted_cells ds" "list_all valid_leaf_cell ds" "slots_size ds \<le> page_room (page_size p)"
  obtains page' p' where "new_leaf crc ds p = (Inr (total_pages p + 1), p')" "writable p'"
    "total_pages p' = total_pages p + 1" "page_size p' = page_size p" "dh_freelist_count (pg_header p') = 0"
    "page_view p' (total_pages p + 1) = Some page'" "wf_leaf (total_pages p + 1) page'"
    "leaf_view (total_pages p + 1) page' = Inr ds" "length page' = page_size p"
    "\<And>q. q \<noteq> 1 \<Longrightarrow> q \<noteq> total_pages p + 1 \<Longrightarrow> page_view p' q = page_view p q"
proof -
  let ?new = "total_pages p + 1"
  have a': "dh_freelist_count (pg_header p) = 0" "total_pages p \<noteq> - 1" "total_pages p \<noteq> 0"
    "8 + PAGE_RESERVED_TRAILER + 4 \<le> page_size p" "page_size p < 65536"
    using a by (simp_all add: can_allocate_def)
  have new1: "?new \<noteq> 1" using a'(3) by simp
  obtain p1 where p1: "allocate_page crc p = (Inr ?new, p1)" "writable p1" "total_pages p1 = ?new"
    "page_size p1 = page_size p" "dh_freelist_count (pg_header p1) = 0"
    "page_view p1 ?new = Some (replicate (page_size p) 0)"
    "\<And>q. q \<noteq> 1 \<Longrightarrow> q \<noteq> ?new \<Longrightarrow> page_view p1 q = page_view p q"
    by (rule allocate_page_view [OF w a'(1,2), of crc]) (use a'(3) in blast)
  obtain page' where f: "fill_leaf ?new ds (replicate (page_size p) 0) = Inr page'" "wf_leaf ?new page'"
    "leaf_view ?new page' = Inr ds" "length page' = page_size p"
    using fill_leaf_view [OF new1 a'(4,5) ds] .
  have len: "length page' = page_size p1" using f(4) p1(4) by simp
  obtain p2 where p2: "write_page crc ?new page' p1 = (Inr (), p2)" "writable p2" "same_shape p1 p2"
    "page_view p2 = (page_view p1)(?new \<mapsto> page')"
    using write_page_view [OF p1(2,6) new1 len] .
  have "new_leaf crc ds p = (Inr ?new, p2)"
    using p1(1,4) f(1) p2(1) by (simp add: new_leaf_def bind_s_def)
  then show thesis
    using that [OF _ p2(2), of page'] p1(3,4,5,7) p2(3,4) f(2-4) by (simp add: same_shape_def)
qed
lemma sorted_cells_take_drop: "sorted_cells cs \<Longrightarrow> sorted_cells (take n cs)" "sorted_cells cs \<Longrightarrow> sorted_cells (drop n cs)"
  by (simp_all add: sorted_cells_def sorted_wrt_map sorted_wrt_take sorted_wrt_drop)

lemma mset_upsert_new:
  assumes "sorted_cells cs" "lc_row_id c \<notin> lc_row_id ` set cs"
  shows "mset (upsert_cell c cs) = add_mset c (mset cs)"
proof -
  have "lc_row_id x \<noteq> lc_row_id c" if "x \<in> set cs" for x using assms(2) imageI [OF that, of lc_row_id] by metis
  then have "dropWhile (\<lambda>x. lc_row_id x \<le> lc_row_id c) cs = dropWhile (\<lambda>x. lc_row_id x < lc_row_id c) cs"
    by (intro dropWhile_cong) (auto simp: order_le_less)
  moreover have "mset cs = mset (takeWhile (\<lambda>x. lc_row_id x < lc_row_id c) cs) + mset (dropWhile (\<lambda>x. lc_row_id x < lc_row_id c) cs)"
    by (metis mset_append takeWhile_dropWhile_id)
  ultimately show ?thesis by (simp add: upsert_cell_def)
qed

lemma sort_upsert:
  assumes "sorted_cells cs" "lc_row_id c \<notin> lc_row_id ` set cs"
  shows "sort_key lc_row_id (cs @ [c]) = upsert_cell c cs"
proof (rule sort_key_inj_key_eq)
  show "mset (cs @ [c]) = mset (upsert_cell c cs)" using mset_upsert_new [OF assms] by simp
  have s: "sorted_cells (upsert_cell c cs)" by (rule sorted_upsert [OF assms(1)])
  then show "sorted (map lc_row_id (upsert_cell c cs))"
    by (simp add: sorted_cells_def strict_sorted_iff)
  have "distinct (map lc_row_id cs)" using assms(1) by (simp add: sorted_cells_def strict_sorted_iff)
  then show "inj_on lc_row_id (set (cs @ [c]))" using assms(2) by (auto simp: distinct_map)
qed

text \<open>The two halves of a leaf after a split, and where they are.\<close>

definition leaf_split :: "pager \<Rightarrow> page_id \<Rightarrow> table_leaf_cell list \<Rightarrow> table_leaf_cell list \<Rightarrow> pager \<Rightarrow> bool" where
  "leaf_split p left L R p' \<longleftrightarrow> writable p' \<and> total_pages p' = total_pages p + 1 \<and> page_size p' = page_size p \<and>
     dh_freelist_count (pg_header p') = 0 \<and> L \<noteq> [] \<and> R \<noteq> [] \<and>
     leaf_page (page_view p') left L \<and> leaf_page (page_view p') (total_pages p + 1) R \<and>
     map_option length (page_view p' left) = Some (page_size p) \<and>
     map_option length (page_view p' (total_pages p + 1)) = Some (page_size p) \<and>
     (\<forall>q. q \<noteq> 1 \<and> q \<noteq> left \<and> q \<noteq> total_pages p + 1 \<longrightarrow> page_view p' q = page_view p q)"

lemma split_halves_view:
  assumes w: "writable p" and a: "can_allocate p" and v: "page_view p left = Some page"
    and leaf: "wf_leaf left page" "leaf_view left page = Inr cs" and left: "left \<noteq> 1"
    and h: "read_page_header page left = Inr h"
    and c: "valid_leaf_cell c" "lc_row_id c \<notin> lc_row_id ` set cs" "cs \<noteq> []"
    and m: "m = Suc (length cs) div 2"
    and fit: "slots_size (take m (upsert_cell c cs)) \<le> page_room (page_size p)"
      "slots_size (drop m (upsert_cell c cs)) \<le> page_room (page_size p)"
  obtains p' where "split_halves crc left page c h p =
      (Inr (total_pages p + 1, lc_row_id (last (take m (upsert_cell c cs)))), p')"
    "leaf_split p left (take m (upsert_cell c cs)) (drop m (upsert_cell c cs)) p'"
proof -
  let ?all = "upsert_cell c cs" and ?new = "total_pages p + 1"
  have s: "sorted_cells cs" "list_all valid_leaf_cell cs" using wf_leaf_sorted [OF leaf] by auto
  have sa: "sorted_cells ?all" by (rule sorted_upsert [OF s(1)])
  have va: "list_all valid_leaf_cell ?all" using s(2) c(1) set_upsert [of c cs] by (auto simp: list_all_iff)
  then have vt: "list_all valid_leaf_cell (take m ?all)" "list_all valid_leaf_cell (drop m ?all)"
    by (auto simp: list_all_iff dest: in_set_takeD in_set_dropD)
  have len: "length ?all = Suc (length cs)"
    using mset_upsert_new [OF s(1) c(2)] by (metis size_mset size_add_mset)
  have ne: "take m ?all \<noteq> []" "drop m ?all \<noteq> []" using c(3) len by (auto simp: m)
  obtain h' where "read_page_header page left = Inr h'"
    "map_r (read_leaf_cell page left) [0..<unat (ph_num_cells h')] = Inr cs"
    using leaf_header [OF leaf] by metis
  then have old: "map_r (read_leaf_cell page left) [0..<unat (ph_num_cells h)] = Inr cs" using h by simp
  obtain rpage p1 where p1: "new_leaf crc (drop m ?all) p = (Inr ?new, p1)" "writable p1"
    "total_pages p1 = ?new" "page_size p1 = page_size p" "dh_freelist_count (pg_header p1) = 0"
    "page_view p1 ?new = Some rpage" "wf_leaf ?new rpage" "leaf_view ?new rpage = Inr (drop m ?all)"
    "length rpage = page_size p" "\<And>q. q \<noteq> 1 \<Longrightarrow> q \<noteq> ?new \<Longrightarrow> page_view p1 q = page_view p q"
    using new_leaf_view [OF w a sorted_cells_take_drop(2) [OF sa] vt(2) fit(2), of crc] by blast
  have a': "8 + PAGE_RESERVED_TRAILER + 4 \<le> page_size p" "page_size p < 65536" using a by (simp_all add: can_allocate_def)
  obtain lpage where l: "fill_leaf left (take m ?all) (replicate (page_size p) 0) = Inr lpage" "wf_leaf left lpage"
    "leaf_view left lpage = Inr (take m ?all)" "length lpage = page_size p"
    using fill_leaf_view [OF left a' sorted_cells_take_drop(1) [OF sa] vt(1) fit(1)] .
  have nl: "?new \<noteq> left" by (rule new_page_fresh [OF a v])
  have v1: "page_view p1 left = Some page" using p1(10) left nl v by auto
  have len1: "length lpage = page_size p1" using l(4) p1(4) by simp
  obtain p2 where p2: "write_page crc left lpage p1 = (Inr (), p2)" "writable p2" "same_shape p1 p2"
    "page_view p2 = (page_view p1)(left \<mapsto> lpage)"
    using write_page_view [OF p1(2) v1 left len1] .
  have "split_halves crc left page c h p = (Inr (?new, lc_row_id (last (take m ?all))), p2)"
    using old sort_upsert [OF s(1) c(2)] len ne p1(1,4) l(1) p2(1) left
    by (simp add: split_halves_def bind_s_def Let_def m keep_db_header_def)
  moreover have "leaf_split p left (take m ?all) (drop m ?all) p2"
    using p1(3-10) p2(2-4) l(2-4) ne nl by (simp add: leaf_split_def leaf_page_def same_shape_def)
  ultimately show thesis using that by blast
qed
text \<open>Where the cells of a full leaf go.\<close>

definition split_cells :: "table_leaf_cell \<Rightarrow> table_leaf_cell list \<Rightarrow> table_leaf_cell list \<times> table_leaf_cell list" where
  "split_cells c cs =
     (if 2 \<le> length cs \<and> lc_row_id (last cs) < lc_row_id c then (cs, [c])
      else let m = Suc (length cs) div 2 in (take m (upsert_cell c cs), drop m (upsert_cell c cs)))"

definition split_fits :: "nat \<Rightarrow> table_leaf_cell \<Rightarrow> table_leaf_cell list \<Rightarrow> bool" where
  "split_fits psize c cs \<longleftrightarrow> (case split_cells c cs of (L, R) \<Rightarrow>
     slots_size L \<le> page_room psize \<and> slots_size R \<le> page_room psize)"

lemma split_cells_append:
  assumes "sorted_cells cs" "split_cells c cs = (L, R)"
  shows "L @ R = upsert_cell c cs"
proof (cases "2 \<le> length cs \<and> lc_row_id (last cs) < lc_row_id c")
  case True
  have "lc_row_id x < lc_row_id c" if "x \<in> set cs" for x
  proof -
    obtain i where i: "i < length cs" "x = cs ! i" using \<open>x \<in> set cs\<close> by (auto simp: in_set_conv_nth)
    have l: "last cs = cs ! (length cs - 1)" using True by (intro last_conv_nth) auto
    show ?thesis
    proof (cases "i = length cs - 1")
      case False
      then have "lc_row_id x < lc_row_id (last cs)"
        unfolding l i(2) by (intro sorted_cells_nth [OF assms(1)]) (use i(1) in auto)
      then show ?thesis using True by (blast intro: order.strict_trans)
    qed (use True i(2) l in simp)
  qed
  then show ?thesis using True assms(2) by (auto simp: split_cells_def upsert_last)
qed (use assms(2) in \<open>auto simp: split_cells_def Let_def\<close>)

lemma split_cells_sep:
  assumes "sorted_cells cs" "split_cells c cs = (L, R)" "L \<noteq> []"
  shows "\<And>x. x \<in> set L \<Longrightarrow> lc_row_id x \<le> lc_row_id (last L)" "\<And>x. x \<in> set R \<Longrightarrow> lc_row_id (last L) < lc_row_id x"
proof -
  have "sorted_cells (L @ R)" using sorted_upsert [OF assms(1), of c] split_cells_append [OF assms(1,2)] by simp
  moreover have "L = butlast L @ [last L]" using assms(3) by simp
  ultimately have s: "sorted_wrt (\<lambda>x y. lc_row_id x < lc_row_id y) (butlast L @ last L # R)"
    by (metis append.assoc append_Cons append_Nil sorted_cells_def sorted_wrt_map)
  show "lc_row_id x \<le> lc_row_id (last L)" if "x \<in> set L" for x
  proof (cases "x = last L")
    case False
    then have "x \<in> set (butlast L)" using that \<open>L = butlast L @ [last L]\<close>
      by (metis Un_iff empty_iff empty_set insert_iff list.simps(15) set_append)
    then show ?thesis using s by (auto simp: sorted_wrt_append)
  qed simp
  show "lc_row_id (last L) < lc_row_id x" if "x \<in> set R" for x using s that by (auto simp: sorted_wrt_append)
qed

lemma split_leaf_view:
  assumes w: "writable p" and a: "can_allocate p" and v: "page_view p left = Some page"
    and leaf: "wf_leaf left page" "leaf_view left page = Inr cs" and left: "left \<noteq> 1" and psz: "length page = page_size p"
    and c: "valid_leaf_cell c" "lc_row_id c \<notin> lc_row_id ` set cs" "cs \<noteq> []"
    and fit: "split_fits (page_size p) c cs" and LR: "split_cells c cs = (L, R)"
  obtains p' where "split_leaf_page crc left page c p = (Inr (total_pages p + 1, lc_row_id (last L)), p')"
    "leaf_split p left L R p'"
proof -
  obtain h where h: "read_page_header page left = Inr h"
    "map_r (read_leaf_cell page left) [0..<unat (ph_num_cells h)] = Inr cs"
    using leaf_header [OF leaf] by metis
  have n: "unat (ph_num_cells h) = length cs" using h(2) by (auto simp: map_r_Inr_iff dest: list_all2_lengthD)
  note l = last_row_id_leaf [OF leaf left]
  show thesis
  proof (cases "2 \<le> length cs \<and> lc_row_id (last cs) < lc_row_id c")
    case True
    then have LR': "L = cs" "R = [c]" using LR by (simp_all add: split_cells_def)
    have r: "sorted_cells [c]" "list_all valid_leaf_cell [c]" "slots_size [c] \<le> page_room (page_size p)"
      using c(1) fit LR LR' by (simp_all add: sorted_cells_def split_fits_def)
    obtain rpage p1 where p1: "new_leaf crc [c] p = (Inr (total_pages p + 1), p1)" "writable p1"
      "total_pages p1 = total_pages p + 1" "page_size p1 = page_size p" "dh_freelist_count (pg_header p1) = 0"
      "page_view p1 (total_pages p + 1) = Some rpage" "wf_leaf (total_pages p + 1) rpage"
      "leaf_view (total_pages p + 1) rpage = Inr [c]" "length rpage = page_size p"
      "\<And>q. q \<noteq> 1 \<Longrightarrow> q \<noteq> total_pages p + 1 \<Longrightarrow> page_view p1 q = page_view p q"
      using new_leaf_view [OF w a r, of crc] by blast
    have "page_view p1 left = Some page" using p1(10) [OF left] new_page_fresh [OF a v] v by metis
    then have "leaf_split p left L R p1"
      using p1 LR' c(3) leaf psz by (simp add: leaf_split_def leaf_page_def)
    moreover have "split_leaf_page crc left page c p = (Inr (total_pages p + 1, lc_row_id (last L)), p1)"
      using h(1) n l True p1(1) LR' by (simp add: split_leaf_page_def bind_s_def)
    ultimately show thesis using that by blast
  next
    case False
    define m where "m = Suc (length cs) div 2"
    have LR': "L = take m (upsert_cell c cs)" "R = drop m (upsert_cell c cs)"
      using LR False by (auto simp: split_cells_def m_def Let_def)
    have fits: "slots_size (take m (upsert_cell c cs)) \<le> page_room (page_size p)"
      "slots_size (drop m (upsert_cell c cs)) \<le> page_room (page_size p)"
      using fit LR LR' by (simp_all add: split_fits_def)
    obtain p' where p': "split_halves crc left page c h p = (Inr (total_pages p + 1, lc_row_id (last L)), p')"
      "leaf_split p left L R p'"
      using split_halves_view [OF w a v leaf left h(1) c m_def fits] unfolding LR' by metis
    moreover have "split_leaf_page crc left page c p = split_halves crc left page c h p"
      using h(1) n l False by (auto simp: split_leaf_page_def bind_s_def)
    ultimately show thesis using that by simp
  qed
qed
section \<open>Insertion into a full leaf\<close>

lemma leaf_split_shape:
  assumes "same_shape p q" "page_view q = page_view p"
  shows "leaf_split q left L R p' = leaf_split p left L R p'"
  using assms by (simp add: leaf_split_def same_shape_def)

lemma insert_full_run:
  assumes w: "writable p" and a: "can_allocate p" and v: "page_view p pid = Some page"
    and leaf: "wf_leaf pid page" "leaf_view pid page = Inr cs" and pid: "pid \<noteq> 1" and psz: "length page = page_size p"
    and c: "valid_leaf_cell c" "lc_row_id c \<notin> lc_row_id ` set cs" "cs \<noteq> []"
    and full: "leaf_free pid page < length (leaf_cell_to_bytes c) + 2"
    and fit: "split_fits (page_size p) c cs" and LR: "split_cells c cs = (L, R)"
  obtains p' where "insert_into_subtree (Suc fuel) crc pid (lc_row_id c) (lc_payload c) (lc_overflow_page c) p =
      Some (Inr (Some (total_pages p + 1, lc_row_id (last L))), p')" "leaf_split p pid L R p'"
proof -
  let ?ins = "in_place (\<lambda>b. insert_leaf_cell_raw b pid (lc_row_id c) (lc_payload c) (lc_overflow_page c))"
  obtain p1 where p1: "with_page pid (page_type_of pid) p = (page_type_of pid page, p1)" "writable p1"
    "same_shape p p1" "page_view p1 = page_view p"
    using with_page_view [OF w v] .
  have v1: "page_view p1 pid = Some page" using v p1(4) by simp
  obtain p2 where p2: "with_page pid (old_overflow_of pid (lc_row_id c)) p1 = (old_overflow_of pid (lc_row_id c) page, p2)"
    "writable p2" "same_shape p1 p2" "page_view p2 = page_view p1"
    using with_page_view [OF p1(2) v1] .
  have v2: "page_view p2 pid = Some page" using v1 p2(4) by simp
  obtain P h ps G C where r: "leaf_repr pid page P h ps G C cs" using wf_leaf_repr [OF leaf] by blast
  have "insert_leaf_cell_into_page page pid c = Inr (page, False)"
    by (rule insert_leaf_full [OF leaf_repr_cells [OF r]]) (use full leaf_free_repr [OF r] in simp)
  then have ip: "?ins page = (Inr False, page)" by (simp add: in_place_def insert_leaf_cell_into_page_def)
  obtain p3 where p3: "modify_page crc pid ?ins p2 = (Inr False, p3)" "writable p3" "same_shape p2 p3"
    "page_view p3 = (page_view p2)(pid \<mapsto> page)"
    using modify_page_view [where f = ?ins, OF p2(2) v2 pid ip] .
  have v3: "page_view p3 = page_view p" using p3(4) v2 p2(4) p1(4) by (simp add: fun_upd_idem)
  obtain p4 where p4: "read_page pid p3 = (Inr page, p4)" "writable p4" "same_shape p3 p4" "page_view p4 = page_view p3"
    using read_page_view [OF p3(2)] v v3 by metis
  have sh: "same_shape p p4"
    by (rule same_shape_trans [OF p1(3) same_shape_trans [OF p2(3) same_shape_trans [OF p3(3) p4(3)]]])
  have v4: "page_view p4 = page_view p" using p4(4) v3 by simp
  have "find (\<lambda>x. lc_row_id x = lc_row_id c) cs = None" by (rule find_keyless) (metis c(2) imageI)
  then have none: "old_overflow_of pid (lc_row_id c) page = Inr None" using leaf_old_overflow [OF leaf] by simp
  have fit4: "split_fits (page_size p4) c cs" using fit sh by (simp add: same_shape_def)
  have psz4: "length page = page_size p4" using psz sh by (simp add: same_shape_def)
  have vp4: "page_view p4 pid = Some page" using v4 v by simp
  obtain p5 where p5: "split_leaf_page crc pid page c p4 = (Inr (total_pages p4 + 1, lc_row_id (last L)), p5)"
    "leaf_split p4 pid L R p5"
    using split_leaf_view [OF p4(2) can_allocate_shape [OF sh a] vp4 leaf pid psz4 c fit4 LR] .
  have tp: "total_pages p4 = total_pages p" using sh by (simp add: same_shape_def)
  have cell: "\<lparr>lc_row_id = lc_row_id c, lc_payload = lc_payload c, lc_overflow_page = lc_overflow_page c\<rparr> = c" by simp
  have "insert_into_subtree (Suc fuel) crc pid (lc_row_id c) (lc_payload c) (lc_overflow_page c) p =
      Some (Inr (Some (total_pages p + 1, lc_row_id (last L))), p5)"
    using p1(1) p2(1) p4(1) p5(1) leaf_page_type [OF leaf] none tp
    by (simp add: bind_o_run bind_o_run [where m = "modify_page crc pid ?ins", OF p3(1)] free_old_def cell)
  then show thesis using that p5(2) leaf_split_shape [OF sh v4] by simp
qed

section \<open>A separator in front of the old one\<close>

text \<open>The first child of an interior page splits: the parent gets a second cell for the same child.\<close>

lemma insert_first_child_run:
  assumes w: "writable p" and a: "can_allocate p" and pid: "pid \<noteq> 1" "pid \<noteq> lf"
    and node: "page_view p pid = Some nd"
      "cells_repr interior_cell_from_bytes pid nd P h ps G C (kid_cells (Kid (BLeaf lf cs) s ks))"
      "ph_page_type h = TableInterior" "ph_right_child h = Some (kid_right ks)"
    and v: "page_view p lf = Some page" and leaf: "wf_leaf lf page" "leaf_view lf page = Inr cs" and lf: "lf \<noteq> 1" "length page = page_size p"
    and c: "valid_leaf_cell c" "lc_row_id c \<notin> lc_row_id ` set cs" "cs \<noteq> []" "lc_row_id c \<le> s"
    and full: "leaf_free lf page < length (leaf_cell_to_bytes c) + 2"
    and fit: "split_fits (page_size p) c cs" and LR: "split_cells c cs = (L, R)"
    and room: "length (interior_cell_to_bytes \<lparr>ic_left_child = lf, ic_row_id = lc_row_id (last L)\<rparr>) + 2 \<le> length G"
  obtains p' where "insert_into_subtree (Suc (Suc fuel)) crc pid (lc_row_id c) (lc_payload c) (lc_overflow_page c) p =
      Some (Inr None, p')" "writable p'" "leaf_page (page_view p') lf L" "leaf_page (page_view p') (total_pages p + 1) R"
    "interior_page (page_view p') pid
      (insert_separator \<lparr>ic_left_child = lf, ic_row_id = lc_row_id (last L)\<rparr> (kid_cells (Kid (BLeaf lf cs) s ks)))
      (kid_right ks)" "L \<noteq> []" "R \<noteq> []"
proof -
  let ?ks = "Kid (BLeaf lf cs) s ks" and ?cell = "\<lparr>ic_left_child = lf, ic_row_id = lc_row_id (last L)\<rparr>"
  have pr: "page_repr pid nd P h ps G C" using node(2) by (simp add: cells_repr_def)
  have ip: "interior_page (page_view p) pid (kid_cells ?ks) (kid_right ?ks)"
    using node interior_view_cells [OF node(2)] by (simp add: interior_page_def page_type_of_def read_page_header_repr [OF pr])
  obtain p2 where p2: "writable p2" "same_shape p p2" "page_view p2 = page_view p"
    and run: "insert_into_subtree (Suc (Suc fuel)) crc pid (lc_row_id c) (lc_payload c) (lc_overflow_page c) p =
       bind_o (insert_into_subtree (Suc fuel) crc (root_of (child_for (lc_row_id c) ?ks)) (lc_row_id c) (lc_payload c)
           (lc_overflow_page c)) (\<lambda>child_split.
         case child_split of
           None \<Rightarrow> ret_o None
         | Some (new_child, k) \<Rightarrow>
             let cell = \<lparr>ic_left_child = root_of (child_for (lc_row_id c) ?ks), ic_row_id = k\<rparr>;
                 new_rc = (if child_idx (lc_row_id c) 0 ?ks = None then Some new_child else None) in
             bind_o (run_o (modify_page crc pid (in_place (add_separator pid cell new_rc)))) (\<lambda>can_fit.
               if can_fit then ret_o None
               else bind_o (run_o (read_page pid)) (\<lambda>page.
                    bind_o (run_o (split_interior_page crc pid page cell new_rc)) (\<lambda>r. ret_o (Some r))))) p2"
    using insert_descend [OF w ip] .
  have fit2: "split_fits (page_size p2) c cs" using fit p2(2) by (simp add: same_shape_def)
  have psz2: "length page = page_size p2" using lf(2) p2(2) by (simp add: same_shape_def)
  have v2: "page_view p2 lf = Some page" using v p2(3) by simp
  obtain p3 where p3: "insert_into_subtree (Suc fuel) crc lf (lc_row_id c) (lc_payload c) (lc_overflow_page c) p2 =
      Some (Inr (Some (total_pages p2 + 1, lc_row_id (last L))), p3)" "leaf_split p2 lf L R p3"
    using insert_full_run [OF p2(1) can_allocate_shape [OF p2(2) a] v2 leaf lf(1) psz2 c(1-3) full fit2 LR] .
  have tp: "total_pages p2 = total_pages p" using p2(2) by (simp add: same_shape_def)
  have np: "total_pages p + 1 \<noteq> pid" "total_pages p + 1 \<noteq> lf" using new_page_fresh [OF a] node(1) v by auto
  have v3: "page_view p3 pid = Some nd" using p3(2) np pid p2(3) node(1) by (simp add: leaf_split_def tp)
  obtain nd' h' ps' G' where ins: "insert_interior_cell_into_page nd pid ?cell = Inr (nd', True)"
    "cells_repr interior_cell_from_bytes pid nd' P h' ps' G' (interior_cell_to_bytes ?cell @ C)
      (insert_separator ?cell (kid_cells ?ks))" "length nd' = length nd"
    "ph_page_type h' = ph_page_type h" "ph_right_child h' = ph_right_child h"
    using insert_interior_fits [OF node(2) room] by blast
  have as: "in_place (add_separator pid ?cell None) nd = (Inr True, nd')"
    by (simp add: in_place_def add_separator_def ins(1))
  have w3: "writable p3" using p3(2) by (simp add: leaf_split_def)
  obtain p4 where p4: "modify_page crc pid (in_place (add_separator pid ?cell None)) p3 = (Inr True, p4)"
    "writable p4" "same_shape p3 p4" "page_view p4 = (page_view p3)(pid \<mapsto> nd')"
    using modify_page_view [where f = "in_place (add_separator pid ?cell None)", OF w3 v3 pid(1) as] .
  have "insert_into_subtree (Suc (Suc fuel)) crc pid (lc_row_id c) (lc_payload c) (lc_overflow_page c) p = Some (Inr None, p4)"
    using run p3(1) p4(1) c(4) by (simp add: bind_o_Some bind_o_run Let_def del: insert_into_subtree.simps)
  moreover have "leaf_page (page_view p4) lf L" "leaf_page (page_view p4) (total_pages p + 1) R"
    using p3(2) p4(4) pid(2) np(1) by (simp_all add: leaf_split_def leaf_page_def tp)
  moreover have "interior_page (page_view p4) pid (insert_separator ?cell (kid_cells ?ks)) (kid_right ks)"
  proof -
    have pr': "page_repr pid nd' P h' ps' G' (interior_cell_to_bytes ?cell @ C)" using ins(2) by (simp add: cells_repr_def)
    show ?thesis
      using interior_view_cells [OF ins(2)] node(3,4) ins(4,5)
      by (simp add: interior_page_def page_type_of_def read_page_header_repr [OF pr'] p4(4))
  qed
  moreover have "L \<noteq> []" "R \<noteq> []" using p3(2) by (simp_all add: leaf_split_def)
  ultimately show thesis using that p4(2) by blast
qed

section \<open>The root splits\<close>

lemma leaf_page_moved:
  assumes "wf_leaf pid page" "leaf_view pid page = Inr cs" "pid \<noteq> 1" "pid' \<noteq> 1"
  shows "wf_leaf pid' page" "leaf_view pid' page = Inr cs"
proof -
  obtain P h ps G C where "leaf_repr pid page P h ps G C cs" using wf_leaf_repr [OF assms(1,2)] by blast
  moreover have "page_header_offset pid' = page_header_offset pid"
    using assms(3,4) by (simp add: page_header_offset_def)
  ultimately have "leaf_repr pid' page P h ps G C cs"
    unfolding leaf_repr_def cells_repr_def page_repr_def by (elim conjE, intro conjI) simp_all
  from leaf_repr_wf [OF this] show "wf_leaf pid' page" "leaf_view pid' page = Inr cs" .
qed

lemma fill_root_view:
  assumes "pid \<noteq> 1" "8 + PAGE_RESERVED_TRAILER + 4 + length (interior_cell_to_bytes c) + 2 \<le> psize" "psize < 65536"
  obtains page where "fill_interior pid rc [c] (replicate psize 0) = Inr page" "length page = psize"
    "page_type_of pid page = Inr TableInterior" "interior_view pid page = Inr ([c], Some rc)"
proof -
  let ?h = "empty_header TableInterior (Some rc) psize" and ?z = "replicate psize (0::u8)"
  have off: "page_header_offset pid + 12 + PAGE_RESERVED_TRAILER \<le> length ?z"
    using assms(1,2) by (simp add: page_header_offset_def)
  have len: "length ?z < 65536" using assms(3) by simp
  have h: "?h = empty_header TableInterior (Some rc) (length ?z)" "wf_header ?h"
    by (simp_all add: wf_header_def empty_header_def is_interior_def)
  obtain page0 G where p: "put_r ?z (page_header_offset pid) (header_to_bytes ?h) = Inr page0" "length page0 = length ?z"
    and r: "cells_repr interior_cell_from_bytes pid page0 (take (page_header_offset pid) ?z) ?h [] G
      (drop (length ?z - PAGE_RESERVED_TRAILER) ?z) []"
    using init_page_cells [OF off len h, of interior_cell_from_bytes] by blast
  have "length G + 12 + PAGE_RESERVED_TRAILER = psize"
    using cells_repr_lengths(6) [OF r] p(2) assms(1,2)
    by (simp add: page_header_offset_def header_size_def empty_header_def is_interior_def)
  then have room: "length (interior_cell_to_bytes c) + 2 \<le> length G" using assms(2) by simp
  obtain page h' ps' G' C' where i: "insert_interior_cell_into_page page0 pid c = Inr (page, True)"
    "cells_repr interior_cell_from_bytes pid page (take (page_header_offset pid) ?z) h' ps' G' C' (insert_separator c [])"
    "length page = length page0" "ph_page_type h' = ph_page_type ?h" "ph_right_child h' = ph_right_child ?h"
    using insert_interior_fits [OF r room] by blast
  have pr: "page_repr pid page (take (page_header_offset pid) ?z) h' ps' G' C'" using i(2) by (simp add: cells_repr_def)
  have "fill_interior pid rc [c] ?z = Inr page"
    using p(1) i(1) assms(2) by (simp add: fill_interior_def init_interior_page_def)
  then show thesis
    using that i(3-5) p(2) interior_view_cells [OF i(2)] read_page_header_repr [OF pr]
    by (simp add: page_type_of_def empty_header_def insert_separator_def)
qed

lemma grow_root_view:
  assumes w: "writable p" and a: "can_allocate p" and root: "root \<noteq> 1" "root \<noteq> right"
    and v: "page_view p root = Some lpage" "length lpage = page_size p"
    and leaf: "wf_leaf root lpage" "leaf_view root lpage = Inr L"
    and room: "8 + PAGE_RESERVED_TRAILER + 4 +
      length (interior_cell_to_bytes \<lparr>ic_left_child = total_pages p + 1, ic_row_id = k\<rparr>) + 2 \<le> page_size p"
  obtains p' where "grow_root crc root right k p = (Inr (), p')" "writable p'"
    "page_size p' = page_size p" "leaf_page (page_view p') (total_pages p + 1) L"
    "interior_page (page_view p') root [\<lparr>ic_left_child = total_pages p + 1, ic_row_id = k\<rparr>] right"
    "map_option length (page_view p' root) = Some (page_size p)"
    "map_option length (page_view p' (total_pages p + 1)) = Some (page_size p)"
    "\<And>q. q \<noteq> 1 \<Longrightarrow> q \<noteq> root \<Longrightarrow> q \<noteq> total_pages p + 1 \<Longrightarrow> page_view p' q = page_view p q"
proof -
  let ?left = "total_pages p + 1"
  let ?cell = "\<lparr>ic_left_child = ?left, ic_row_id = k\<rparr>"
  have a': "dh_freelist_count (pg_header p) = 0" "total_pages p \<noteq> - 1" "total_pages p \<noteq> 0" "page_size p < 65536"
    using a by (simp_all add: can_allocate_def)
  have left1: "?left \<noteq> 1" using a'(3) by simp
  have fresh: "?left \<noteq> root" by (rule new_page_fresh [OF a v(1)])
  obtain p1 where p1: "allocate_page crc p = (Inr ?left, p1)" "writable p1" "page_size p1 = page_size p"
    "page_view p1 ?left = Some (replicate (page_size p) 0)"
    "\<And>q. q \<noteq> 1 \<Longrightarrow> q \<noteq> ?left \<Longrightarrow> page_view p1 q = page_view p q"
    by (rule allocate_page_view [OF w a'(1,2), of crc]) (use a'(3) in blast)
  have v1: "page_view p1 root = Some lpage" using p1(5) root(1) fresh v(1) by metis
  obtain p2 where p2: "read_page root p1 = (Inr lpage, p2)" "writable p2" "same_shape p1 p2" "page_view p2 = page_view p1"
    using read_page_view [OF p1(2) v1] .
  have sz2: "page_size p2 = page_size p" using p2(3) p1(3) by (simp add: same_shape_def)
  have v2: "page_view p2 ?left = Some (replicate (page_size p) 0)" using p1(4) p2(4) by simp
  have len2: "length lpage = page_size p2" using v(2) sz2 by simp
  obtain p3 where p3: "write_page crc ?left lpage p2 = (Inr (), p3)" "writable p3" "same_shape p2 p3"
    "page_view p3 = (page_view p2)(?left \<mapsto> lpage)"
    using write_page_view [OF p2(2) v2 left1 len2] .
  have sz3: "page_size p3 = page_size p" using p3(3) sz2 by (simp add: same_shape_def)
  obtain nd where nd: "fill_interior root right [?cell] (replicate (page_size p) 0) = Inr nd" "length nd = page_size p"
    "page_type_of root nd = Inr TableInterior" "interior_view root nd = Inr ([?cell], Some right)"
    using fill_root_view [OF root(1) room a'(4)] .
  have v3: "page_view p3 root = Some lpage" using p3(4) p2(4) v1 fresh by simp
  have len3: "length nd = page_size p3" using nd(2) sz3 by simp
  obtain p4 where p4: "write_page crc root nd p3 = (Inr (), p4)" "writable p4" "same_shape p3 p4"
    "page_view p4 = (page_view p3)(root \<mapsto> nd)"
    using write_page_view [OF p3(2) v3 root(1) len3] .
  have g: "grow_root crc root right k p = (Inr (), p4)"
    using p1(1) p2(1) p3(1) p4(1) nd(1) root(1) sz3
    by (simp add: grow_root_def bind_s_def move_root_def)
  note moved = leaf_page_moved [OF leaf root(1) left1]
  show thesis
  proof (rule that [OF g p4(2)])
    show "page_size p4 = page_size p" using p4(3) sz3 by (simp add: same_shape_def)
    show "leaf_page (page_view p4) ?left L" using p4(4) p3(4) fresh moved by (simp add: leaf_page_def)
    show "interior_page (page_view p4) root [?cell] right" using p4(4) nd(3,4) by (simp add: interior_page_def)
    show "map_option length (page_view p4 root) = Some (page_size p)" using p4(4) nd(2) by simp
    show "map_option length (page_view p4 ?left) = Some (page_size p)" using p4(4) p3(4) fresh v(2) by simp
    show "page_view p4 q = page_view p q" if "q \<noteq> 1" "q \<noteq> root" "q \<noteq> ?left" for q
      using p4(4) p3(4) p2(4) p1(5) [OF that(1,3)] that by simp
  qed
qed

end
