(* ===== verification/Btree_Props.thy ===== *)
theory Btree_Props
  imports Btree_Update
begin

text \<open>
  What lookups and scans of a tree return, on a sample tree of two leaves, one row of which goes
  on in an overflow page.
\<close>

section \<open>A sample tree\<close>

definition sample_node :: bytes where
  "sample_node =
     header_to_bytes \<lparr>ph_page_type = TableInterior, ph_flags = 0, ph_num_cells = 1,
        ph_cell_content_offset = 84, ph_first_freeblock = 0, ph_right_child = Some 5\<rparr> @
     to_le16 84 @ replicate 70 0 @ interior_cell_to_bytes \<lparr>ic_left_child = 2, ic_row_id = 9\<rparr> @ replicate 40 0"

definition sample_empty :: bytes where
  "sample_empty =
     header_to_bytes \<lparr>ph_page_type = TableLeaf, ph_flags = 0, ph_num_cells = 0,
        ph_cell_content_offset = 89, ph_first_freeblock = 0, ph_right_child = None\<rparr> @ replicate 81 0 @ replicate 40 0"

definition sample_overflow :: bytes where
  "sample_overflow = to_le32 0 @ to_le16 2 @ [8, 9] @ replicate 121 0"

definition sample_tree :: btree where
  "sample_tree = BNode 4 (Kid (BLeaf 2 example_cells) 9 (Last (BLeaf 5 [])))"

definition tree_pager :: pager where
  "tree_pager = sample_pager
     \<lparr>pg_header := (pg_header sample_pager)\<lparr>dh_page_size := 129, dh_total_pages := 5\<rparr>,
      pg_pages := [2 \<mapsto> example_leaf, 3 \<mapsto> sample_overflow, 4 \<mapsto> sample_node, 5 \<mapsto> sample_empty],
      pg_tx := Some \<lparr>sp_header = pg_header sample_pager, sp_undo = (\<lambda>_. None), sp_dirty = {2, 3, 4, 5},
        sp_total_pages = 1, sp_wal_frames = 0\<rparr>\<rparr>"

lemma tree_pager_fields:
  "total_pages tree_pager = 5" "page_size tree_pager = 129"
  "pg_pages tree_pager = [2 \<mapsto> example_leaf, 3 \<mapsto> sample_overflow, 4 \<mapsto> sample_node, 5 \<mapsto> sample_empty]"
  by (simp_all add: tree_pager_def total_pages_def page_size_def)

lemma tree_pager_view:
  "page_view tree_pager 2 = Some example_leaf" "page_view tree_pager 3 = Some sample_overflow"
  "page_view tree_pager 4 = Some sample_node" "page_view tree_pager 5 = Some sample_empty"
  by (simp_all add: page_view_def tree_pager_fields)

lemma tree_pager_writable: "writable tree_pager"
proof -
  have "pages_match tree_pager"
    by (auto simp: pages_match_def evictable_def tree_pager_def split: if_splits)
  then show ?thesis
    by (simp add: writable_def ensure_io_ready_def is_in_transaction_def read_only_remote_def tree_pager_def
        sample_pager_def empty_pager_def wal_open_in_memory_def wal_empty_def requires_reopen_def)
qed

lemma sample_empty_leaf: "leaf_page (page_view tree_pager) 5 []"
proof -
  have "leaf_repr 5 sample_empty [] \<lparr>ph_page_type = TableLeaf, ph_flags = 0, ph_num_cells = 0,
        ph_cell_content_offset = 89, ph_first_freeblock = 0, ph_right_child = None\<rparr> [] (replicate 81 0)
        (replicate 40 0) []"
    by (simp add: leaf_repr_def cells_repr_def page_repr_def sample_empty_def page_header_offset_def wf_header_def
        is_interior_def header_size_def PAGE_RESERVED_TRAILER_def sorted_cells_def)
  from leaf_repr_wf [OF this] show ?thesis by (simp add: leaf_page_def tree_pager_view)
qed

lemma sample_node_repr:
  "cells_repr interior_cell_from_bytes 4 sample_node [] \<lparr>ph_page_type = TableInterior, ph_flags = 0, ph_num_cells = 1,
        ph_cell_content_offset = 84, ph_first_freeblock = 0, ph_right_child = Some 5\<rparr> [84] (replicate 70 0)
     (interior_cell_to_bytes \<lparr>ic_left_child = 2, ic_row_id = 9\<rparr> @ replicate 40 0)
     [\<lparr>ic_left_child = 2, ic_row_id = 9\<rparr>]"
proof -
  have "length (interior_cell_to_bytes \<lparr>ic_left_child = 2, ic_row_id = 9\<rparr>) = 5" by code_simp
  then show ?thesis
    by (simp add: cells_repr_def page_repr_def sample_node_def page_header_offset_def wf_header_def
        is_interior_def header_size_def PAGE_RESERVED_TRAILER_def cell_at_def interior_cell_roundtrip_rest)
qed

lemma sample_tree_ok: "tree_ok (page_view tree_pager) sample_tree"
proof -
  have "interior_page (page_view tree_pager) 4 [\<lparr>ic_left_child = 2, ic_row_id = 9\<rparr>] 5"
    using interior_view_cells [OF sample_node_repr]
      read_page_header_repr [OF conjunct1 [OF sample_node_repr [unfolded cells_repr_def]]]
    by (simp add: interior_page_def tree_pager_view page_type_of_def)
  moreover have "leaf_page (page_view tree_pager) 2 example_cells"
    using example_leaf_wf by (simp add: leaf_page_def tree_pager_view)
  ultimately show ?thesis
    using sample_empty_leaf by (simp add: sample_tree_def example_cells_def)
qed

lemma sample_rows: "rows_readable tree_pager 1 (entries sample_tree)" "tree_height sample_tree = 2"
proof -
  have "overflow_data 129 sample_overflow = Inr (0, [8, 9])" by code_simp
  then show "rows_readable tree_pager 1 (entries sample_tree)"
    by (simp add: rows_readable_def sample_tree_def example_cells_def row_bytes_def tree_pager_view tree_pager_fields)
qed (simp add: sample_tree_def)
section \<open>Properties\<close>

text \<open>C7: A search returns, with fuel for the height of the tree and its longest chain, exactly the
  payload stored under the key, chain included, or nothing when the tree has no such key; the pages
  stay as they are.\<close>

theorem search_correct:
  assumes "writable p" "tree_ok (page_view p) t" "rows_readable p n (entries t)" "tree_height t + n < fuel"
  shows "\<exists>p'. btree_search fuel (root_of t) key p = Some (Inr (found_row p n (lookup t key)), p') \<and>
    writable p' \<and> page_view p' = page_view p"
  using btree_search_view [OF assms] by blast

theorem search_correct_witness:
  "\<exists>p'. btree_search 4 4 4 tree_pager =
      Some (Inr (found_row tree_pager 1 (lookup sample_tree 4)), p') \<and>
    writable p' \<and> page_view p' = page_view tree_pager"
  using search_correct [OF tree_pager_writable sample_tree_ok sample_rows(1), of 4 4]
  by (simp add: sample_rows(2)) (simp add: sample_tree_def)

text \<open>C8: A scan returns every row of the tree, with its whole payload, in ascending key order, and
  no row twice.\<close>

theorem scan_correct:
  assumes "writable p" "tree_ok (page_view p) t" "rows_readable p n (entries t)" "tree_height t + n < fuel"
  shows "\<exists>p'. btree_scan fuel (root_of t) p = Some (Inr (map (whole_cell p n) (entries t)), p') \<and>
    page_view p' = page_view p \<and> sorted_wrt (<) (map lc_row_id (entries t))"
  using btree_scan_view [OF assms] entries_sorted(1) [OF assms(2)] by (auto simp: sorted_cells_def)

theorem scan_correct_witness:
  "\<exists>p'. btree_scan 4 4 tree_pager = Some (Inr (map (whole_cell tree_pager 1) (entries sample_tree)), p') \<and>
    page_view p' = page_view tree_pager \<and> sorted_wrt (<) (map lc_row_id (entries sample_tree))"
  using scan_correct [OF tree_pager_writable sample_tree_ok sample_rows(1), of 4]
  by (simp add: sample_rows(2)) (simp add: sample_tree_def)

text \<open>The scan over borrowed payloads and the scan over owned cells call back with the same rows
  in the same order, stop at the same row and fail with the same error.\<close>

theorem scans_equivalent:
  assumes "writable p" "tree_ok (page_view p) t" "rows_readable p n (entries t)" "tree_height t + n < fuel"
  shows "\<exists>r c' q q'.
    scan_subtree_with fuel (\<lambda>cell. cb (lc_row_id cell, lc_payload cell)) (root_of t) (p, c) = Some (r, q, c') \<and>
    scan_subtree_with_ref fuel cb (root_of t) (p, c) = Some (r, q', c') \<and>
    page_view q = page_view p \<and> page_view q' = page_view p"
proof -
  let ?cb = "\<lambda>cell. cb (lc_row_id cell, lc_payload cell)"
  have same: "feed ?cb (map (whole_cell p n) cs) s = feed cb (map (whole_row p n) cs) s" for cs s
    by (induction cs arbitrary: s) (auto simp: whole_cell_def whole_row_def split: prod.splits sum.splits)
  obtain q where q: "scan_subtree_with fuel ?cb (root_of t) (p, c) =
      Some (fst (feed cb (map (whole_row p n) (entries t)) c), q, snd (feed cb (map (whole_row p n) (entries t)) c))"
    "page_view q = page_view p"
    using feedsE [OF whole.scan_feeds [OF assms(2-4)] assms(1), of ?cb c] unfolding same .
  obtain q' where "scan_subtree_with_ref fuel cb (root_of t) (p, c) =
      Some (fst (feed cb (map (whole_row p n) (entries t)) c), q', snd (feed cb (map (whole_row p n) (entries t)) c))"
    "page_view q' = page_view p"
    using feedsE [OF borrowed.scan_feeds [OF assms(2-4)] assms(1), of cb c] .
  with q show ?thesis by blast
qed

theorem scans_equivalent_witness:
  "\<exists>r c' q q'.
    scan_subtree_with 4 (\<lambda>cell. (\<lambda>(k, d) n. (Inr (k < 9), n + length d)) (lc_row_id cell, lc_payload cell))
      4 (tree_pager, 0) = Some (r, q, c') \<and>
    scan_subtree_with_ref 4 (\<lambda>(k, d) n. (Inr (k < 9), n + length d)) 4 (tree_pager, 0) = Some (r, q', c') \<and>
    page_view q = page_view tree_pager \<and> page_view q' = page_view tree_pager"
proof -
  have "tree_height sample_tree + 1 < 4" "root_of sample_tree = 4" using sample_rows(2) by (simp_all add: sample_tree_def)
  with scans_equivalent [OF tree_pager_writable sample_tree_ok sample_rows(1), of 4
      "\<lambda>(k, d) n. (Inr (k < 9), n + length d)" 0]
  show ?thesis by (simp only: simp_thms)
qed

lemma sample_stored: "tree_stored tree_pager sample_tree"
proof -
  have "length example_leaf = 129"
    unfolding example_leaf_def length_append example_cell_lengths by (simp add: header_size_def is_interior_def)
  moreover have "length sample_node = 129" "length sample_empty = 129" by code_simp+
  ultimately show ?thesis
    using sample_tree_ok by (simp add: tree_stored_def) (simp add: sample_tree_def tree_pager_view tree_pager_fields)
qed


lemma btree_insert_run:
  assumes "writable p" "tree_stored p t" "tree_height t \<le> fuel"
    "c = \<lparr>lc_row_id = key, lc_payload = payload, lc_overflow_page = None\<rparr>" "length payload \<le> MAX_INLINE_PAYLOAD"
    "leaf_for key t = (pid, cs)" "page_view p pid = Some page"
    "length (leaf_cell_to_bytes c) + 2 \<le> leaf_free pid page"
    "\<forall>d. lookup t key = Some d \<longrightarrow> lc_overflow_page d = None"
  shows "\<exists>p' page'. btree_insert fuel crc (root_of t) key payload p = Some (Inr (), p') \<and>
    writable p' \<and> same_shape p p' \<and> tree_stored p' (upd_leaf key (upsert_cell c) t) \<and>
    entries (upd_leaf key (upsert_cell c) t) = upsert_cell c (entries t) \<and>
    page_view p' = (page_view p)(pid \<mapsto> page') \<and> leaf_free pid page \<le> leaf_free pid page' + length (leaf_cell_to_bytes c) + 2"
proof -
  have ok: "tree_ok (page_view p) t" "distinct (tree_pages t)" "1 \<notin> set (tree_pages t)"
    using assms(2) by (simp_all add: tree_stored_def)
  have v: "valid_leaf_cell c" using assms(4,5) by (simp add: valid_leaf_cell_def MAX_INLINE_PAYLOAD_def)
  have leaf: "leaf_for (lc_row_id c) t = (pid, cs)" and old: "\<forall>d. lookup t (lc_row_id c) = Some d \<longrightarrow> lc_overflow_page d = None"
    using assms(4,6,9) by simp_all
  obtain page' p' where i: "insert_into_subtree fuel crc (root_of t) (lc_row_id c) (lc_payload c) (lc_overflow_page c) p =
      Some (Inr None, p')" "wf_leaf pid page'" "leaf_view pid page' = Inr (upsert_cell c cs)"
    "length page' = length page" "writable p'" "same_shape p p'" "page_view p' = (page_view p)(pid \<mapsto> page')"
    "leaf_free pid page \<le> leaf_free pid page' + length (leaf_cell_to_bytes c) + 2"
    using insert_fits_run [OF assms(1) ok assms(3) v leaf assms(7,8) old] by blast
  have f: "\<And>cs d. d \<in> set (upsert_cell c cs) \<Longrightarrow> lc_row_id d = lc_row_id c \<or> d \<in> set cs"
    using set_upsert by fastforce
  note st = stored_upd [where f = "upsert_cell c", OF assms(2) leaf assms(7) i(2,3,4,7,6) f]
  have "btree_insert fuel crc (root_of t) key payload p = Some (Inr (), p')"
    using i(1) assms(4,5) by (simp add: btree_insert_def bind_o_Some)
  then show ?thesis
    using i(5,6,7,8) st upd_entries_upsert(1) [OF ok(1), of c] assms(4)
    by (intro exI [of _ p'] exI [of _ page']) simp
qed

text \<open>C1: An insertion of a row that fits its leaf puts exactly that row into the tree, in its place or
  in the place of the row with the same key; the tree keeps its shape and every page outside it.\<close>

theorem insert_refines:
  assumes "writable p" "tree_stored p t" "tree_height t \<le> fuel"
    "c = \<lparr>lc_row_id = key, lc_payload = payload, lc_overflow_page = None\<rparr>" "length payload \<le> MAX_INLINE_PAYLOAD"
    "leaf_for key t = (pid, cs)" "page_view p pid = Some page"
    "length (leaf_cell_to_bytes c) + 2 \<le> leaf_free pid page"
    "\<forall>d. lookup t key = Some d \<longrightarrow> lc_overflow_page d = None"
  shows "\<exists>p' t'. btree_insert fuel crc (root_of t) key payload p = Some (Inr (), p') \<and>
    writable p' \<and> tree_stored p' t' \<and> root_of t' = root_of t \<and> entries t' = upsert_cell c (entries t) \<and>
    (\<forall>q. q \<notin> set (tree_pages t) \<longrightarrow> page_view p' q = page_view p q)"
proof -
  obtain p' page' where i: "btree_insert fuel crc (root_of t) key payload p = Some (Inr (), p')" "writable p'"
    "tree_stored p' (upd_leaf key (upsert_cell c) t)" "entries (upd_leaf key (upsert_cell c) t) = upsert_cell c (entries t)"
    "page_view p' = (page_view p)(pid \<mapsto> page')"
    using btree_insert_run [OF assms, of crc] by blast
  have "pid \<in> set (tree_pages t)" using leaf_for_page(1) [of key t] assms(6) by simp
  then have "\<forall>q. q \<notin> set (tree_pages t) \<longrightarrow> page_view p' q = page_view p q" using i(5) by auto
  then show ?thesis using i(1-4) by (intro exI [of _ p'] exI [of _ "upd_leaf key (upsert_cell c) t"]) simp
qed

theorem insert_refines_witness:
  "\<exists>p' t'. btree_insert 2 (\<lambda>_. 0) 4 9 [1, 2] tree_pager = Some (Inr (), p') \<and>
    writable p' \<and> tree_stored p' t' \<and> root_of t' = 4 \<and>
    entries t' = upsert_cell \<lparr>lc_row_id = 9, lc_payload = [1, 2], lc_overflow_page = None\<rparr> (entries sample_tree) \<and>
    (\<forall>q. q \<notin> set (tree_pages sample_tree) \<longrightarrow> page_view p' q = page_view tree_pager q)"
proof -
  have "\<forall>d. lookup sample_tree 9 = Some d \<longrightarrow> lc_overflow_page d = None"
    by (simp add: lookup_def sample_tree_def example_cells_def)
  moreover have "leaf_for 9 sample_tree = (2, example_cells)" by (simp add: sample_tree_def)
  moreover have "leaf_free 2 example_leaf = 62" using leaf_free_repr [OF example_leaf_repr] by simp
  moreover have "length (leaf_cell_to_bytes \<lparr>lc_row_id = 9, lc_payload = [1, 2], lc_overflow_page = None\<rparr>) = 8" by code_simp
  ultimately show ?thesis
    using insert_refines [OF tree_pager_writable sample_stored eq_refl [OF sample_rows(2)] refl _ _ tree_pager_view(1),
        of "[1, 2]" 9 example_cells "\<lambda>_. 0"]
    by (simp add: MAX_INLINE_PAYLOAD_def sample_tree_def)
qed

end
