(* ===== verification/Btree_Split_Props.thy ===== *)
theory Btree_Split_Props
  imports Btree_Split Btree_Props
begin

text \<open>
  What a page split does to the rows: a full leaf is cut into two, a full root leaf grows a level,
  and a split below an interior page that is not its last child loses the upper half.
\<close>


lemma tree_pager_room: "can_allocate tree_pager"
  by (simp add: can_allocate_def tree_pager_fields PAGE_RESERVED_TRAILER_def)
     (simp add: tree_pager_def sample_pager_def empty_pager_def db_header_new_def db_header_default_def Let_def)

lemma sample_split: "split_fits 129 \<lparr>lc_row_id = 6, lc_payload = replicate 55 0, lc_overflow_page = None\<rparr> example_cells"
  by code_simp

lemma sample_leaf_stored: "tree_stored tree_pager (BLeaf 2 example_cells)"
  using sample_stored by (simp add: tree_stored_def) (simp add: sample_tree_def)

lemma sample_full:
  "leaf_free 2 example_leaf < length (leaf_cell_to_bytes \<lparr>lc_row_id = 6, lc_payload = replicate 55 0, lc_overflow_page = None\<rparr>) + 2"
proof -
  have "length (leaf_cell_to_bytes \<lparr>lc_row_id = 6, lc_payload = replicate 55 0, lc_overflow_page = None\<rparr>) = 61" by code_simp
  then show ?thesis using leaf_free_repr [OF example_leaf_repr] by simp
qed


text \<open>C9: When the leaf that splits is the first child of its parent (not its last), the insertion
  reports success and the parent keeps no reference to the new page: every row of the upper half of
  the leaf, possibly the row just inserted, is no longer found.\<close>

theorem insert_loses_rows:
  assumes "writable p" "can_allocate p" "tree_stored p (BNode pid (Kid (BLeaf lf cs) s ks))" "page_view p pid = Some nd"
    "cells_repr interior_cell_from_bytes pid nd P h ps G C (kid_cells (Kid (BLeaf lf cs) s ks))"
    "ph_page_type h = TableInterior" "ph_right_child h = Some (kid_right ks)" "15 \<le> length G"
    "c = \<lparr>lc_row_id = key, lc_payload = payload, lc_overflow_page = None\<rparr>" "length payload \<le> MAX_INLINE_PAYLOAD"
    "key \<notin> lc_row_id ` set cs" "key \<le> s" "cs \<noteq> []" "page_view p lf = Some page"
    "leaf_free lf page < length (leaf_cell_to_bytes c) + 2" "split_fits (page_size p) c cs"
  shows "\<exists>p'. btree_insert (Suc (Suc fuel)) crc pid key payload p = Some (Inr (), p') \<and>
    snd (split_cells c cs) \<noteq> [] \<and>
    (\<forall>d \<in> set (snd (split_cells c cs)). \<exists>p''. btree_search (Suc (Suc fuel)) pid (lc_row_id d) p' = Some (Inr None, p''))"
proof -
  obtain L R where LR: "split_cells c cs = (L, R)" by force
  let ?k = "lc_row_id (last L)"
  have pid: "pid \<noteq> 1" "pid \<noteq> lf" "lf \<noteq> 1" and lf: "leaf_page (page_view p) lf cs"
    and le: "\<And>x. x \<in> set cs \<Longrightarrow> lc_row_id x \<le> s"
    using assms(3) by (simp_all add: tree_stored_def)
  have leaf: "wf_leaf lf page" "leaf_view lf page = Inr cs" "length page = page_size p"
    using assms(3,14) lf by (simp_all add: leaf_page_def tree_stored_def)
  have srt: "sorted_cells cs" using wf_leaf_sorted [OF leaf(1,2)] by simp
  have v: "valid_leaf_cell c" using assms(9,10) by (simp add: valid_leaf_cell_def MAX_INLINE_PAYLOAD_def)
  have key: "lc_row_id c \<notin> lc_row_id ` set cs" "lc_row_id c \<le> s" using assms(9,11,12) by simp_all
  have room: "length (interior_cell_to_bytes \<lparr>ic_left_child = lf, ic_row_id = ?k\<rparr>) + 2 \<le> length G"
    using assms(8) length_encode_varint_bounds(2) [of ?k] by (simp add: interior_cell_to_bytes_def)
  obtain p1 where p1: "insert_into_subtree (Suc (Suc fuel)) crc pid (lc_row_id c) (lc_payload c) (lc_overflow_page c) p =
      Some (Inr None, p1)" "writable p1" "leaf_page (page_view p1) lf L" "leaf_page (page_view p1) (total_pages p + 1) R"
    "interior_page (page_view p1) pid
      (insert_separator \<lparr>ic_left_child = lf, ic_row_id = ?k\<rparr> (kid_cells (Kid (BLeaf lf cs) s ks))) (kid_right ks)"
    "L \<noteq> []" "R \<noteq> []"
    using insert_first_child_run [OF assms(1,2) pid(1,2) assms(4-7,14) leaf(1,2) pid(3) leaf(3) v key(1) assms(13)
        key(2) assms(15,16) LR room] .
  note sep = split_cells_sep [OF srt LR p1(6)]
  have all: "set L \<union> set R \<subseteq> insert c (set cs)"
    using split_cells_append [OF srt LR] set_upsert [of c cs] by (metis set_append)
  have Rs: "?k < lc_row_id d \<and> lc_row_id d \<le> s" if "d \<in> set R" for d
    using sep(2) [OF that] all that le key(2) by auto
  have ks: "?k < s" using Rs [of "hd R"] p1(7) by (auto intro: order.strict_trans1)
  let ?ks = "Kid (BLeaf lf L) ?k (Kid (BLeaf lf L) s ks)"
  have node: "interior_page (page_view p1) pid (kid_cells ?ks) (kid_right ?ks)"
    using p1(5) ks [THEN not_le [THEN iffD2]] by (simp add: insert_separator_def)
  obtain lpage where lp: "page_view p1 lf = Some lpage" "wf_leaf lf lpage" "leaf_view lf lpage = Inr L"
    using p1(3) by (auto elim: leaf_pageE)
  have "\<exists>p''. btree_search (Suc (Suc fuel)) pid (lc_row_id d) p1 = Some (Inr None, p'')" if d: "d \<in> set R" for d
  proof -
    obtain nd' where nd': "page_view p1 pid = Some nd'"
      "search_page pid (lc_row_id d) nd' = Inr (InteriorStep (root_of (child_for (lc_row_id d) ?ks)))"
      using search_interior [OF node] .
    obtain q1 where q1: "with_page pid (search_page pid (lc_row_id d)) p1 = (search_page pid (lc_row_id d) nd', q1)"
      "writable q1" "page_view q1 = page_view p1"
      using with_page_view [OF p1(2) nd'(1)] by metis
    have "page_view q1 lf = Some lpage" using lp(1) q1(3) by simp
    then obtain q2 where q2: "with_page lf (search_page lf (lc_row_id d)) q1 = (search_page lf (lc_row_id d) lpage, q2)"
      using with_page_view [OF q1(2)] by metis
    have "find (\<lambda>x. lc_row_id x = lc_row_id d) L = None"
      by (rule find_keyless) (use sep(1) Rs [OF d] in fastforce)
    then have "search_page lf (lc_row_id d) lpage = Inr (LeafStep None)" using search_leaf [OF lp(2,3)] by simp
    moreover have "child_for (lc_row_id d) ?ks = BLeaf lf L" using Rs [OF d] by (simp add: not_le)
    ultimately show ?thesis using nd'(2) q1(1) q2 by (simp add: bind_o_run)
  qed
  moreover have "btree_insert (Suc (Suc fuel)) crc pid key payload p = Some (Inr (), p1)"
    using p1(1) assms(9,10) by (simp add: btree_insert_def bind_o_Some del: insert_into_subtree.simps)
  ultimately show ?thesis using p1(7) LR by (intro exI [of _ p1]) simp
qed

lemma sample_tree_kids: "sample_tree = BNode 4 (Kid (BLeaf 2 example_cells) 9 (Last (BLeaf 5 [])))"
  by (simp add: sample_tree_def)

theorem insert_loses_rows_witness:
  "\<exists>p'. btree_insert (Suc (Suc 0)) (\<lambda>_. 0) 4 6 (replicate 55 0) tree_pager = Some (Inr (), p') \<and>
    snd (split_cells \<lparr>lc_row_id = 6, lc_payload = replicate 55 0, lc_overflow_page = None\<rparr> example_cells) \<noteq> [] \<and>
    (\<forall>d \<in> set (snd (split_cells \<lparr>lc_row_id = 6, lc_payload = replicate 55 0, lc_overflow_page = None\<rparr> example_cells)).
       \<exists>p''. btree_search (Suc (Suc 0)) 4 (lc_row_id d) p' = Some (Inr None, p''))"
proof (rule insert_loses_rows [OF tree_pager_writable tree_pager_room sample_stored [unfolded sample_tree_kids] tree_pager_view(3)])
  show "cells_repr interior_cell_from_bytes 4 sample_node [] \<lparr>ph_page_type = TableInterior, ph_flags = 0, ph_num_cells = 1,
        ph_cell_content_offset = 84, ph_first_freeblock = 0, ph_right_child = Some 5\<rparr> [84] (replicate 70 0)
     (interior_cell_to_bytes \<lparr>ic_left_child = 2, ic_row_id = 9\<rparr> @ replicate 40 0)
     (kid_cells (Kid (BLeaf 2 example_cells) 9 (Last (BLeaf 5 []))))"
    using sample_node_repr by simp
  show "page_view tree_pager 2 = Some example_leaf" by (rule tree_pager_view(1))
qed (use sample_full sample_split in \<open>simp_all add: tree_pager_fields MAX_INLINE_PAYLOAD_def example_cells_def\<close>)

end
