(* ===== verification/Btree_Overflow.thy ===== *)
theory Btree_Overflow
  imports Btree_Props
begin

text \<open>
  Overflow chains: what \<^verbatim>\<open>write_overflow_chain\<close> in \<^verbatim>\<open>src/src/btree/engine.rs\<close> writes,
  \<^verbatim>\<open>read_overflow_chain\<close> reads back.
\<close>

section \<open>One page of a chain\<close>

definition chain_page :: "nat \<Rightarrow> page_id \<Rightarrow> bytes \<Rightarrow> bytes" where
  "chain_page psize nxt chunk =
     to_le32 nxt @ to_le16 (word_of_nat (length chunk)) @ chunk @ replicate (psize - 6 - length chunk) 0"

lemma chain_page_facts:
  assumes "length chunk \<le> overflow_chunk psize" "chunk \<noteq> []" "psize < 65536"
  shows "overflow_image psize chunk = Inr (chain_page psize 0 chunk)"
    "put_r (chain_page psize 0 chunk) 0 (to_le32 nxt) = Inr (chain_page psize nxt chunk)"
    "overflow_data psize (chain_page psize nxt chunk) = Inr (nxt, chunk)"
    "length (chain_page psize nxt chunk) = psize"
proof -
  have "0 < length chunk" using assms(2) by simp
  then have len: "6 + length chunk \<le> psize" "length chunk < 65536"
    using assms(1,3) unfolding overflow_chunk_def by linarith+
  show "length (chain_page psize nxt chunk) = psize" using len by (simp add: chain_page_def)
  show "put_r (chain_page psize 0 chunk) 0 (to_le32 nxt) = Inr (chain_page psize nxt chunk)"
    by (simp add: chain_page_def put_r_def splice_def)
  have "unat (word_of_nat (length chunk) :: u16) = length chunk" using len by (simp add: unat_of_nat)
  then show "overflow_data psize (chain_page psize nxt chunk) = Inr (nxt, chunk)"
    using assms(1) len by (simp add: overflow_data_def overflow_next_def chain_page_def slice_r_def Let_def)
  show "overflow_image psize chunk = Inr (chain_page psize 0 chunk)"
    using len by (simp add: overflow_image_def chain_page_def put_r_def splice_def)
qed

section \<open>The loop\<close>

lemma loop_step:
  "rest \<noteq> [] \<Longrightarrow> overflow_chunk psize \<noteq> 0 \<Longrightarrow> overflow_loop crc psize rest head prev =
     bind_s (allocate_page crc) (\<lambda>cur.
     bind_s (link_overflow crc prev cur) (\<lambda>_.
     bind_s (lift_s (overflow_image psize (take (overflow_chunk psize) rest))) (\<lambda>img.
     bind_s (write_page crc cur img) (\<lambda>_.
     overflow_loop crc psize (drop (overflow_chunk psize) rest)
       (Some (case head of None \<Rightarrow> cur | Some h \<Rightarrow> h)) (Some cur)))))"
  by (subst overflow_loop.simps) simp

text \<open>Room for the pages of a chain, one for each byte at most.\<close>

definition chain_room :: "pager \<Rightarrow> bytes \<Rightarrow> bool" where
  "chain_room p bs \<longleftrightarrow> dh_freelist_count (pg_header p) = 0 \<and> total_pages p \<noteq> 0 \<and>
     unat (total_pages p) + length bs < 2 ^ 32 \<and> page_size p < 65536 \<and> 0 < overflow_chunk (page_size p)"

lemma chain_allocate:
  assumes w: "writable p" and r: "chain_room p rest" and ne: "rest \<noteq> []"
  obtains p1 where "allocate_page crc p = (Inr (total_pages p + 1), p1)" "writable p1"
    "unat (total_pages p + 1) = Suc (unat (total_pages p))" "total_pages p1 = total_pages p + 1"
    "page_size p1 = page_size p" "dh_freelist_count (pg_header p1) = 0"
    "page_view p1 (total_pages p + 1) = Some (replicate (page_size p) 0)"
    "\<And>q. q \<noteq> 1 \<Longrightarrow> q \<noteq> total_pages p + 1 \<Longrightarrow> page_view p1 q = page_view p q"
proof -
  have r': "dh_freelist_count (pg_header p) = 0" "total_pages p \<noteq> 0" "unat (total_pages p) + length rest < 2 ^ 32"
    using r by (simp_all add: chain_room_def)
  have "unat (total_pages p) + 1 < 2 ^ 32" using r'(3) ne by (cases rest) auto
  then have u: "unat (total_pages p + 1) = Suc (unat (total_pages p))" by (simp add: unat_word_ariths)
  have n: "total_pages p \<noteq> - 1"
  proof
    assume "total_pages p = - 1"
    then show False using u by simp
  qed
  show thesis
    by (rule allocate_page_view [OF w r'(1) n, of crc]) (use that u r'(2) in blast)
qed

lemma overflow_loop_view:
  assumes "writable p" "chain_room p rest" "page_view p prev = Some (chain_page (page_size p) 0 chunk)"
    "chunk \<noteq> []" "length chunk \<le> overflow_chunk (page_size p)" "prev \<noteq> 1" "length rest \<le> n"
  shows "\<exists>p' nxt. overflow_loop crc (page_size p) rest (Some h) (Some prev) p = (Inr h, p') \<and> writable p' \<and>
    page_size p' = page_size p \<and>
    page_view p' prev = Some (chain_page (page_size p) nxt chunk) \<and>
    chain_bytes (page_view p') (page_size p) n nxt = Some rest \<and>
    (\<forall>q. q \<noteq> 1 \<and> q \<noteq> prev \<and> q \<le> total_pages p \<longrightarrow> page_view p' q = page_view p q)"
  using assms
proof (induction n arbitrary: p rest prev chunk)
  case 0
  then have "overflow_loop crc (page_size p) rest (Some h) (Some prev) p = (Inr h, p)"
    by (subst overflow_loop.simps) simp
  then show ?case using 0 by (intro exI [of _ p] exI [of _ 0]) simp
next
  case (Suc n)
  let ?ps = "page_size p" and ?m = "overflow_chunk (page_size p)" and ?cur = "total_pages p + 1"
  show ?case
  proof (cases "rest = []")
    case True
    then have "overflow_loop crc ?ps rest (Some h) (Some prev) p = (Inr h, p)" by (subst overflow_loop.simps) simp
    then show ?thesis using Suc.prems(1,3) True by (intro exI [of _ p] exI [of _ 0]) simp
  next
    case False
    have ps: "?ps < 65536" "0 < ?m" using Suc.prems(2) by (simp_all add: chain_room_def)
    obtain p1 where p1: "allocate_page crc p = (Inr ?cur, p1)" "writable p1" "unat ?cur = Suc (unat (total_pages p))"
      "total_pages p1 = ?cur" "page_size p1 = ?ps" "dh_freelist_count (pg_header p1) = 0"
      "page_view p1 ?cur = Some (replicate ?ps 0)" "\<And>q. q \<noteq> 1 \<Longrightarrow> q \<noteq> ?cur \<Longrightarrow> page_view p1 q = page_view p q"
      by (rule chain_allocate [OF Suc.prems(1,2) False, of crc]) blast
    have old: "q \<noteq> ?cur" "q \<le> ?cur" if "q \<le> total_pages p" for q
      using that p1(3) by (auto simp: word_le_nat_alt)
    have prev: "prev \<noteq> ?cur" using page_view_valid [OF Suc.prems(3)] old(1) by blast
    have cur1: "?cur \<noteq> 1" using Suc.prems(2) by (simp add: chain_room_def)
    have cur0: "?cur \<noteq> 0" using p1(3) by auto
    note old_facts = chain_page_facts [OF Suc.prems(5,4) ps(1)]
    have v1: "page_view p1 prev = Some (chain_page ?ps 0 chunk)" using p1(8) [OF Suc.prems(6) prev] Suc.prems(3) by simp
    obtain p2 where p2: "read_page prev p1 = (Inr (chain_page ?ps 0 chunk), p2)" "writable p2" "same_shape p1 p2"
      "page_view p2 = page_view p1"
      using read_page_view [OF p1(2) v1] .
    have v2: "page_view p2 prev = Some (chain_page ?ps 0 chunk)" using v1 p2(4) by simp
    have len2: "length (chain_page ?ps ?cur chunk) = page_size p2" using old_facts(4) p2(3) p1(5) by (simp add: same_shape_def)
    obtain p3 where p3: "write_page crc prev (chain_page ?ps ?cur chunk) p2 = (Inr (), p3)" "writable p3" "same_shape p2 p3"
      "page_view p3 = (page_view p2)(prev \<mapsto> chain_page ?ps ?cur chunk)"
      using write_page_view [OF p2(2) v2 Suc.prems(6) len2] .
    let ?c = "take ?m rest" and ?rest = "drop ?m rest"
    have c: "?c \<noteq> []" "length ?c \<le> ?m" using False ps(2) by auto
    note new_facts = chain_page_facts [OF c(2,1) ps(1)]
    have sh3: "same_shape p1 p3" by (rule same_shape_trans [OF p2(3) p3(3)])
    have v3: "page_view p3 ?cur = Some (replicate ?ps 0)" using p3(4) p2(4) p1(7) prev by simp
    have len3: "length (chain_page ?ps 0 ?c) = page_size p3" using new_facts(4) sh3 p1(5) by (simp add: same_shape_def)
    obtain p4 where p4: "write_page crc ?cur (chain_page ?ps 0 ?c) p3 = (Inr (), p4)" "writable p4" "same_shape p3 p4"
      "page_view p4 = (page_view p3)(?cur \<mapsto> chain_page ?ps 0 ?c)"
      using write_page_view [OF p3(2) v3 cur1 len3] .
    have sh: "same_shape p1 p4" by (rule same_shape_trans [OF sh3 p4(3)])
    then have ps4: "page_size p4 = ?ps" "total_pages p4 = ?cur" "dh_freelist_count (pg_header p4) = 0"
      using p1(4-6) by (simp_all add: same_shape_def)
    have room4: "chain_room p4 ?rest"
      using Suc.prems(2) False ps ps4 cur0 p1(3) by (cases rest) (auto simp: chain_room_def)
    have "\<exists>p' nxt. overflow_loop crc (page_size p4) ?rest (Some h) (Some ?cur) p4 = (Inr h, p') \<and> writable p' \<and>
        page_size p' = page_size p4 \<and> page_view p' ?cur = Some (chain_page (page_size p4) nxt ?c) \<and>
        chain_bytes (page_view p') (page_size p4) n nxt = Some ?rest \<and>
        (\<forall>q. q \<noteq> 1 \<and> q \<noteq> ?cur \<and> q \<le> total_pages p4 \<longrightarrow> page_view p' q = page_view p4 q)"
    proof (rule Suc.IH [OF p4(2) room4])
      show "page_view p4 ?cur = Some (chain_page (page_size p4) 0 ?c)" using p4(4) ps4(1) by simp
      show "length ?rest \<le> n" using Suc.prems(7) ps(2) False by (cases rest) auto
    qed (use c ps4 cur1 in simp_all)
    then obtain p' nxt where p': "overflow_loop crc ?ps ?rest (Some h) (Some ?cur) p4 = (Inr h, p')" "writable p'"
      "page_size p' = ?ps" "page_view p' ?cur = Some (chain_page ?ps nxt ?c)"
      "chain_bytes (page_view p') ?ps n nxt = Some ?rest"
      "\<And>q. q \<noteq> 1 \<Longrightarrow> q \<noteq> ?cur \<Longrightarrow> q \<le> ?cur \<Longrightarrow> page_view p' q = page_view p4 q"
      unfolding ps4 by blast
    have run: "overflow_loop crc ?ps rest (Some h) (Some prev) p = (Inr h, p')"
      unfolding loop_step [OF False ps(2) [THEN gr_implies_not0]]
      using p1(1) p2(1) p3(1) p4(1) p'(1) old_facts(2) new_facts(1) by (simp add: bind_s_def link_overflow_def)
    have "page_view p' prev = Some (chain_page ?ps ?cur chunk)"
      using p'(6) [OF Suc.prems(6) prev] old(2) page_view_valid [OF Suc.prems(3)] p4(4) p3(4) prev by simp
    moreover have "chain_bytes (page_view p') ?ps (Suc n) ?cur = Some rest"
      using p'(4,5) new_facts(3) cur0 by simp
    moreover have "page_view p' q = page_view p q" if "q \<noteq> 1" "q \<noteq> prev" "q \<le> total_pages p" for q
      using p'(6) [OF that(1) old [OF that(3)]] p4(4) p3(4) p2(4) p1(8) [OF that(1) old(1) [OF that(3)]] that old(1) [OF that(3)]
      by simp
    ultimately show ?thesis using run p'(2,3) by blast
  qed
qed
section \<open>Properties\<close>

text \<open>C28: A chain written for a payload tail of any length reads back as exactly that tail, and only
  pages beyond the old end of the file (and the header on page 1) have changed. The file must have
  room for the pages; the free list is taken to be empty.\<close>

theorem overflow_roundtrip:
  assumes "writable p" "chain_room p bs" "length bs < fuel"
  shows "\<exists>first p'. write_overflow_chain crc bs p = (Inr first, p') \<and> writable p' \<and>
    (\<forall>q. q \<noteq> 1 \<and> q \<le> total_pages p \<longrightarrow> page_view p' q = page_view p q) \<and>
    (\<exists>p''. read_overflow_chain fuel first p' = Some (Inr bs, p'') \<and> page_view p'' = page_view p')"
proof (cases "bs = []")
  case True
  then have "write_overflow_chain crc bs p = (Inr 0, p)"
    using assms(2) by (simp add: write_overflow_chain_def chain_room_def overflow_loop.simps)
  moreover obtain f where "fuel = Suc f" using assms(3) by (cases fuel) auto
  ultimately show ?thesis using assms(1) True by (intro exI [of _ 0] exI [of _ p]) (simp add: read_overflow_chain_def)
next
  case False
  let ?ps = "page_size p" and ?m = "overflow_chunk (page_size p)" and ?cur = "total_pages p + 1"
  let ?c = "take ?m bs" and ?rest = "drop ?m bs"
  have ps: "?ps < 65536" "0 < ?m" using assms(2) by (simp_all add: chain_room_def)
  obtain p1 where p1: "allocate_page crc p = (Inr ?cur, p1)" "writable p1" "unat ?cur = Suc (unat (total_pages p))"
    "total_pages p1 = ?cur" "page_size p1 = ?ps" "dh_freelist_count (pg_header p1) = 0"
    "page_view p1 ?cur = Some (replicate ?ps 0)" "\<And>q. q \<noteq> 1 \<Longrightarrow> q \<noteq> ?cur \<Longrightarrow> page_view p1 q = page_view p q"
    by (rule chain_allocate [OF assms(1,2) False, of crc]) blast
  have cur: "?cur \<noteq> 1" "?cur \<noteq> 0" using assms(2) p1(3) by (auto simp: chain_room_def)
  have c: "?c \<noteq> []" "length ?c \<le> ?m" using False ps(2) by auto
  note facts = chain_page_facts [OF c(2,1) ps(1)]
  have len: "length (chain_page ?ps 0 ?c) = page_size p1" using facts(4) p1(5) by simp
  obtain p2 where p2: "write_page crc ?cur (chain_page ?ps 0 ?c) p1 = (Inr (), p2)" "writable p2" "same_shape p1 p2"
    "page_view p2 = (page_view p1)(?cur \<mapsto> chain_page ?ps 0 ?c)"
    using write_page_view [OF p1(2,7) cur(1) len] .
  have ps2: "page_size p2 = ?ps" "total_pages p2 = ?cur" "dh_freelist_count (pg_header p2) = 0"
    using p1(4-6) p2(3) by (simp_all add: same_shape_def)
  have room2: "chain_room p2 ?rest"
    using assms(2) False ps ps2 cur(2) p1(3) by (cases bs) (auto simp: chain_room_def)
  have v2: "page_view p2 ?cur = Some (chain_page (page_size p2) 0 ?c)" "length ?c \<le> overflow_chunk (page_size p2)"
    using p2(4) ps2(1) by simp_all
  from overflow_loop_view [OF p2(2) room2 v2(1) c(1) v2(2) cur(1) order_refl, of crc ?cur]
  obtain p' nxt where p': "overflow_loop crc ?ps ?rest (Some ?cur) (Some ?cur) p2 = (Inr ?cur, p')" "writable p'"
    "page_size p' = ?ps" "page_view p' ?cur = Some (chain_page ?ps nxt ?c)"
    "chain_bytes (page_view p') ?ps (length ?rest) nxt = Some ?rest"
    "\<And>q. q \<noteq> 1 \<Longrightarrow> q \<noteq> ?cur \<Longrightarrow> q \<le> ?cur \<Longrightarrow> page_view p' q = page_view p2 q"
    unfolding ps2 by blast
  have "write_overflow_chain crc bs p = (Inr ?cur, p')"
    using p1(1) p2(1) p'(1) facts(1) ps(2)
    by (simp add: write_overflow_chain_def loop_step [OF False] bind_s_def link_overflow_def)
  moreover have "page_view p' q = page_view p q" if "q \<noteq> 1" "q \<le> total_pages p" for q
  proof -
    have "q \<noteq> ?cur" "q \<le> ?cur" using that(2) p1(3) by (auto simp: word_le_nat_alt)
    then show ?thesis using p'(6) [OF that(1)] p2(4) p1(8) [OF that(1)] by simp
  qed
  moreover have "chain_bytes (page_view p') (page_size p') (Suc (length ?rest)) ?cur = Some bs"
    using p'(3-5) facts(3) cur(2) by simp
  then have "\<exists>p''. read_chain fuel (page_size p') ?cur [] p' = Some (Inr ([] @ bs), p'') \<and>
      writable p'' \<and> same_shape p' p'' \<and> page_view p'' = page_view p'"
    by (rule read_chain_view [OF p'(2)]) (use assms(3) ps(2) False in \<open>cases bs; simp\<close>)
  ultimately show ?thesis using p'(2) by (auto simp: read_overflow_chain_def)
qed

theorem overflow_roundtrip_witness:
  "\<exists>first p'. write_overflow_chain (\<lambda>_. 0) (replicate 200 7) tree_pager = (Inr first, p') \<and> writable p' \<and>
    (\<forall>q. q \<noteq> 1 \<and> q \<le> total_pages tree_pager \<longrightarrow> page_view p' q = page_view tree_pager q) \<and>
    (\<exists>p''. read_overflow_chain 201 first p' = Some (Inr (replicate 200 7), p'') \<and> page_view p'' = page_view p')"
  by (rule overflow_roundtrip [OF tree_pager_writable])
     (use tree_pager_fields in \<open>simp_all add: chain_room_def overflow_chunk_def PAGE_RESERVED_TRAILER_def,
       simp add: tree_pager_def sample_pager_def empty_pager_def db_header_new_def db_header_default_def Let_def\<close>)

end
