(* ===== verification/Graph_Store.thy ===== *)
theory Graph_Store
  imports State_Result
begin

text \<open>
  The property graph of \<^verbatim>\<open>src/src/graph/mod.rs\<close>: nodes, edges and adjacency lists in both
  directions, the operations that change them, and the breadth-first searches. Weights and vector
  components are bit patterns. The order in which a hash map lists its keys is not determined; where
  it matters the list of keys is an argument. The search loops take fuel.
\<close>

section \<open>Data\<close>

datatype graph_direction = Outgoing | Incoming | Both

record graph_node =
  gn_id :: u64
  gn_label :: string
  gn_properties :: string
  gn_vector :: "u32 list option"

record graph_edge =
  ge_id :: u64
  ge_from :: u64
  ge_to :: u64
  ge_label :: string
  ge_weight :: u32
  ge_properties :: string

record graph =
  g_nodes :: "u64 \<rightharpoonup> graph_node"
  g_edges :: "u64 \<rightharpoonup> graph_edge"
  g_outgoing :: "u64 \<rightharpoonup> u64 list"
  g_incoming :: "u64 \<rightharpoonup> u64 list"
  g_next_edge_id :: u64

definition graph_new :: graph where
  "graph_new = \<lparr>g_nodes = (\<lambda>_. None), g_edges = (\<lambda>_. None), g_outgoing = (\<lambda>_. None), g_incoming = (\<lambda>_. None),
     g_next_edge_id = 1\<rparr>"

text \<open>\<^verbatim>\<open>entry(k).or_default()\<close>, and pushing to the list found there.\<close>

definition or_default :: "u64 \<Rightarrow> (u64 \<rightharpoonup> u64 list) \<Rightarrow> (u64 \<rightharpoonup> u64 list)" where
  "or_default k m = (case m k of None \<Rightarrow> m(k \<mapsto> []) | Some _ \<Rightarrow> m)"

definition push_to :: "u64 \<Rightarrow> u64 \<Rightarrow> (u64 \<rightharpoonup> u64 list) \<Rightarrow> (u64 \<rightharpoonup> u64 list)" where
  "push_to k x m = m(k \<mapsto> (case m k of None \<Rightarrow> [] | Some xs \<Rightarrow> xs) @ [x])"

text \<open>\<^verbatim>\<open>get_mut(k)\<close> with \<^verbatim>\<open>retain(|&e| e != x)\<close>.\<close>

definition drop_from :: "u64 \<Rightarrow> u64 \<Rightarrow> (u64 \<rightharpoonup> u64 list) \<Rightarrow> (u64 \<rightharpoonup> u64 list)" where
  "drop_from k x m = (case m k of None \<Rightarrow> m | Some xs \<Rightarrow> m(k \<mapsto> filter (\<lambda>e. e \<noteq> x) xs))"

section \<open>Changes\<close>

definition restore_node :: "graph_node \<Rightarrow> graph \<Rightarrow> graph" where
  "restore_node node g =
     g\<lparr>g_nodes := (g_nodes g)(gn_id node \<mapsto> node), g_outgoing := or_default (gn_id node) (g_outgoing g),
       g_incoming := or_default (gn_id node) (g_incoming g)\<rparr>"

definition add_node_with_vector :: "u64 \<Rightarrow> string \<Rightarrow> string \<Rightarrow> u32 list option \<Rightarrow> (graph, unit) sm" where
  "add_node_with_vector nid lbl props vec g =
     (let node = \<lparr>gn_id = nid, gn_label = lbl, gn_properties = props, gn_vector = vec\<rparr> in
      (Inr (), g\<lparr>g_nodes := (g_nodes g)(nid \<mapsto> node), g_outgoing := or_default nid (g_outgoing g),
         g_incoming := or_default nid (g_incoming g)\<rparr>))"

definition add_node :: "u64 \<Rightarrow> string \<Rightarrow> string \<Rightarrow> (graph, unit) sm" where
  "add_node nid lbl props = add_node_with_vector nid lbl props None"

text \<open>The counter overflows as a panic.\<close>

definition add_edge :: "u64 \<Rightarrow> u64 \<Rightarrow> string \<Rightarrow> u32 \<Rightarrow> string \<Rightarrow> (graph, u64) sm" where
  "add_edge from_id to_id lbl weight props g =
     (if g_nodes g from_id = None then (Inl (Corrupted ''Source node #{from_id} does not exist in graph''), g)
      else if g_nodes g to_id = None then (Inl (Corrupted ''Target node #{to_id} does not exist in graph''), g)
      else if g_next_edge_id g = - 1 then (Inl Panic, g)
      else let eid = g_next_edge_id g;
               edge = \<lparr>ge_id = eid, ge_from = from_id, ge_to = to_id, ge_label = lbl, ge_weight = weight,
                       ge_properties = props\<rparr> in
           (Inr eid, g\<lparr>g_next_edge_id := eid + 1, g_edges := (g_edges g)(eid \<mapsto> edge),
              g_outgoing := push_to from_id eid (g_outgoing g), g_incoming := push_to to_id eid (g_incoming g)\<rparr>))"

text \<open>The edges of a removed adjacency list, one by one; \<open>unlink\<close> is the other end's list.\<close>

fun remove_out_edges :: "u64 list \<Rightarrow> graph \<times> u64 list \<Rightarrow> graph \<times> u64 list" where
  "remove_out_edges [] s = s"
| "remove_out_edges (eid # eids) (g, removed) =
     (case g_edges g eid of
        None \<Rightarrow> remove_out_edges eids (g, removed)
      | Some edge \<Rightarrow> remove_out_edges eids
          (g\<lparr>g_edges := (g_edges g)(eid := None), g_incoming := drop_from (ge_to edge) eid (g_incoming g)\<rparr>,
           removed @ [eid]))"

fun remove_in_edges :: "u64 list \<Rightarrow> graph \<times> u64 list \<Rightarrow> graph \<times> u64 list" where
  "remove_in_edges [] s = s"
| "remove_in_edges (eid # eids) (g, removed) =
     (case g_edges g eid of
        None \<Rightarrow> remove_in_edges eids (g, removed)
      | Some edge \<Rightarrow> remove_in_edges eids
          (g\<lparr>g_edges := (g_edges g)(eid := None), g_outgoing := drop_from (ge_from edge) eid (g_outgoing g)\<rparr>,
           removed @ [eid]))"

definition remove_node :: "u64 \<Rightarrow> graph \<Rightarrow> (bool \<times> u64 list) \<times> graph" where
  "remove_node nid g =
     (case g_nodes g nid of
        None \<Rightarrow> ((False, []), g)
      | Some _ \<Rightarrow>
          let g1 = g\<lparr>g_nodes := (g_nodes g)(nid := None)\<rparr>;
              (g2, r2) = (case g_outgoing g1 nid of
                  None \<Rightarrow> (g1, [])
                | Some eids \<Rightarrow> remove_out_edges eids (g1\<lparr>g_outgoing := (g_outgoing g1)(nid := None)\<rparr>, []));
              (g3, r3) = (case g_incoming g2 nid of
                  None \<Rightarrow> (g2, r2)
                | Some eids \<Rightarrow> remove_in_edges eids (g2\<lparr>g_incoming := (g_incoming g2)(nid := None)\<rparr>, r2))
          in ((True, r3), g3))"

definition remove_edge :: "u64 \<Rightarrow> graph \<Rightarrow> bool \<times> graph" where
  "remove_edge nid g =
     (case g_edges g nid of
        None \<Rightarrow> (False, g)
      | Some edge \<Rightarrow> (True, g\<lparr>g_edges := (g_edges g)(nid := None),
          g_outgoing := drop_from (ge_from edge) nid (g_outgoing g),
          g_incoming := drop_from (ge_to edge) nid (g_incoming g)\<rparr>))"

definition restore_edge :: "graph_edge \<Rightarrow> (graph, unit) sm" where
  "restore_edge edge g =
     (if ge_id edge \<ge> g_next_edge_id g \<and> ge_id edge = - 1 then (Inl Panic, g)
      else (Inr (), g\<lparr>g_next_edge_id := (if ge_id edge \<ge> g_next_edge_id g then ge_id edge + 1 else g_next_edge_id g),
         g_edges := (g_edges g)(ge_id edge \<mapsto> edge),
         g_outgoing := push_to (ge_from edge) (ge_id edge) (g_outgoing g),
         g_incoming := push_to (ge_to edge) (ge_id edge) (g_incoming g)\<rparr>))"

section \<open>Reads\<close>

definition node_count :: "graph \<Rightarrow> nat" where "node_count g = card (dom (g_nodes g))"
definition edge_count :: "graph \<Rightarrow> nat" where "edge_count g = card (dom (g_edges g))"

definition check_edge :: "graph \<Rightarrow> u64 \<Rightarrow> string option \<Rightarrow> u64 \<Rightarrow> (graph_node \<times> graph_edge) list" where
  "check_edge g node_id edge_label eid =
     (case g_edges g eid of
        None \<Rightarrow> []
      | Some edge \<Rightarrow>
          if (case edge_label of None \<Rightarrow> False | Some l \<Rightarrow> \<not> eq_ignore_ascii_case (ge_label edge) l) then []
          else case g_nodes g (if ge_from edge = node_id then ge_to edge else ge_from edge) of
                 None \<Rightarrow> []
               | Some n \<Rightarrow> [(n, edge)])"

definition adjacent :: "(u64 \<rightharpoonup> u64 list) \<Rightarrow> u64 \<Rightarrow> u64 list" where
  "adjacent m nid = (case m nid of None \<Rightarrow> [] | Some eids \<Rightarrow> eids)"

definition neighbor_refs :: "graph \<Rightarrow> u64 \<Rightarrow> graph_direction \<Rightarrow> string option \<Rightarrow> (graph_node \<times> graph_edge) list" where
  "neighbor_refs g node_id direction edge_label =
     concat (map (check_edge g node_id edge_label)
       (case direction of
          Outgoing \<Rightarrow> adjacent (g_outgoing g) node_id
        | Incoming \<Rightarrow> adjacent (g_incoming g) node_id
        | Both \<Rightarrow> adjacent (g_outgoing g) node_id @ adjacent (g_incoming g) node_id))"

end
