(* ===== verification/Graph_Inv.thy ===== *)
theory Graph_Inv
  imports Graph_Store
begin

text \<open>
  The state of the graph engine: its invariant, the changes as a step relation, and that every
  reachable graph satisfies the invariant.
\<close>

section \<open>The invariant\<close>

text \<open>The edges at a node, and that one adjacency index lists exactly them.\<close>

definition edges_at :: "(graph_edge \<Rightarrow> u64) \<Rightarrow> (u64 \<rightharpoonup> graph_edge) \<Rightarrow> u64 \<Rightarrow> u64 set" where
  "edges_at near es nid = {eid. \<exists>edge. es eid = Some edge \<and> near edge = nid}"

definition index_ok :: "(graph_edge \<Rightarrow> u64) \<Rightarrow> u64 set \<Rightarrow> (u64 \<rightharpoonup> graph_edge) \<Rightarrow> (u64 \<rightharpoonup> u64 list) \<Rightarrow> bool" where
  "index_ok near ids es m \<longleftrightarrow>
     dom m = ids \<and> (\<forall>nid \<in> ids. distinct (adjacent m nid) \<and> set (adjacent m nid) = edges_at near es nid)"

definition edges_ok :: "graph \<Rightarrow> bool" where
  "edges_ok g \<longleftrightarrow> finite (dom (g_edges g)) \<and>
     (\<forall>eid edge. g_edges g eid = Some edge \<longrightarrow>
        ge_id edge = eid \<and> eid < g_next_edge_id g \<and>
        ge_from edge \<in> dom (g_nodes g) \<and> ge_to edge \<in> dom (g_nodes g))"

definition graph_ok :: "graph \<Rightarrow> bool" where
  "graph_ok g \<longleftrightarrow> finite (dom (g_nodes g)) \<and> (\<forall>nid node. g_nodes g nid = Some node \<longrightarrow> gn_id node = nid) \<and>
     edges_ok g \<and>
     index_ok ge_from (dom (g_nodes g)) (g_edges g) (g_outgoing g) \<and>
     index_ok ge_to (dom (g_nodes g)) (g_edges g) (g_incoming g)"

lemma adjacent_upd: "adjacent (m(k \<mapsto> xs)) nid = (if nid = k then xs else adjacent m nid)"
  by (simp add: adjacent_def)

lemma adjacent_or_default [simp]: "adjacent (or_default k m) nid = adjacent m nid"
  by (auto simp: adjacent_def or_default_def split: option.splits)

lemma adjacent_push_to: "adjacent (push_to k x m) nid = adjacent m nid @ (if nid = k then [x] else [])"
  by (auto simp: adjacent_def push_to_def split: option.splits)

lemma adjacent_drop_from: "adjacent (drop_from k x m) nid = (if nid = k then filter (\<lambda>e. e \<noteq> x) (adjacent m nid) else adjacent m nid)"
  by (auto simp: adjacent_def drop_from_def split: option.splits)

lemma adjacent_remove: "adjacent (m(k := None)) nid = (if nid = k then [] else adjacent m nid)"
  by (simp add: adjacent_def)

lemma dom_or_default [simp]: "dom (or_default k m) = insert k (dom m)"
  by (auto simp: or_default_def split: option.splits)

lemma dom_push_to [simp]: "dom (push_to k x m) = insert k (dom m)"
  by (auto simp: push_to_def)

lemma dom_drop_from [simp]: "dom (drop_from k x m) = dom m"
  by (auto simp: drop_from_def split: option.splits)

lemma edges_at_none: "edges_at near es nid = {} \<longleftrightarrow> (\<forall>eid edge. es eid = Some edge \<longrightarrow> near edge \<noteq> nid)"
  by (auto simp: edges_at_def)

lemma edges_at_add: "es eid = None \<Longrightarrow>
  edges_at near (es(eid \<mapsto> edge)) nid = (if near edge = nid then insert eid (edges_at near es nid) else edges_at near es nid)"
  by (auto simp: edges_at_def)

lemma edges_at_remove: "edges_at near (es(eid := None)) nid = edges_at near es nid - {eid}"
  by (auto simp: edges_at_def split: if_splits)

lemma index_ok_node:
  assumes "index_ok near ids es m" "\<And>eid edge. es eid = Some edge \<Longrightarrow> near edge \<in> ids"
  shows "index_ok near (insert nid ids) es (or_default nid m)"
proof -
  have "adjacent m nid = []" "edges_at near es nid = {}" if "nid \<notin> ids"
    using assms that by (auto simp: index_ok_def adjacent_def edges_at_def split: option.splits)
  then show ?thesis using assms(1) by (cases "nid \<in> ids") (auto simp: index_ok_def)
qed

lemma index_ok_add:
  assumes "index_ok near ids es m" "es eid = None" "near edge \<in> ids"
  shows "index_ok near ids (es(eid \<mapsto> edge)) (push_to (near edge) eid m)"
proof -
  have "eid \<notin> edges_at near es nid" for nid using assms(2) by (simp add: edges_at_def)
  then show ?thesis
    using assms by (auto simp: index_ok_def adjacent_push_to edges_at_add [where es = es and eid = eid])
qed

lemma index_ok_remove:
  assumes "index_ok near ids es m" "es eid = Some edge"
  shows "index_ok near ids (es(eid := None)) (drop_from (near edge) eid m)"
proof -
  have "eid \<notin> edges_at near es nid" if "nid \<noteq> near edge" for nid using assms(2) that by (simp add: edges_at_def)
  then show ?thesis using assms(1) by (auto simp: index_ok_def adjacent_drop_from edges_at_remove)
qed

text \<open>Removing an edge whose own end has already left the index.\<close>

lemma index_ok_forget:
  assumes "index_ok near ids es m" "es eid = Some edge" "near edge \<notin> ids"
  shows "index_ok near ids (es(eid := None)) m"
proof -
  have "eid \<notin> edges_at near es nid" if "nid \<in> ids" for nid using assms(2,3) that by (auto simp: edges_at_def)
  then show ?thesis using assms(1) by (auto simp: index_ok_def edges_at_remove)
qed

lemma index_ok_drop_node:
  assumes "index_ok near ids es m"
  shows "index_ok near (ids - {nid}) es (m(nid := None))"
  using assms by (auto simp: index_ok_def adjacent_remove)

section \<open>Removing a node\<close>

lemma remove_out_edges_run:
  assumes "index_ok ge_from ids (g_edges g) (g_outgoing g)" "nid \<notin> ids"
    "index_ok ge_to ids' (g_edges g) (g_incoming g)" "distinct eids" "set eids \<subseteq> edges_at ge_from (g_edges g) nid"
  shows "\<exists>g'. remove_out_edges eids (g, removed) = (g', removed @ eids) \<and>
    g_nodes g' = g_nodes g \<and> g_next_edge_id g' = g_next_edge_id g \<and> g_edges g' = g_edges g |` (- set eids) \<and>
    index_ok ge_from ids (g_edges g') (g_outgoing g') \<and> index_ok ge_to ids' (g_edges g') (g_incoming g')"
  using assms
proof (induction eids arbitrary: g removed)
  case (Cons eid eids)
  then obtain edge where edge: "g_edges g eid = Some edge" "ge_from edge = nid" by (auto simp: edges_at_def)
  let ?g = "g\<lparr>g_edges := (g_edges g)(eid := None), g_incoming := drop_from (ge_to edge) eid (g_incoming g)\<rparr>"
  have "set eids \<subseteq> edges_at ge_from (g_edges ?g) nid" using Cons.prems(4,5) by (auto simp: edges_at_remove)
  moreover have "index_ok ge_from ids (g_edges ?g) (g_outgoing ?g)"
    using index_ok_forget [OF Cons.prems(1) edge(1)] edge(2) Cons.prems(2) by simp
  moreover have "index_ok ge_to ids' (g_edges ?g) (g_incoming ?g)" using index_ok_remove [OF Cons.prems(3) edge(1)] by simp
  moreover have "distinct eids" using Cons.prems(4) by simp
  ultimately obtain g' where g': "remove_out_edges eids (?g, removed @ [eid]) = (g', (removed @ [eid]) @ eids)"
    "g_nodes g' = g_nodes ?g" "g_next_edge_id g' = g_next_edge_id ?g" "g_edges g' = g_edges ?g |` (- set eids)"
    "index_ok ge_from ids (g_edges g') (g_outgoing g')" "index_ok ge_to ids' (g_edges g') (g_incoming g')"
    using Cons.IH [of ?g "removed @ [eid]"] Cons.prems(2) by blast
  have "g_edges g' = g_edges g |` (- set (eid # eids))"
    by (auto simp: g'(4) restrict_map_def fun_eq_iff)
  then show ?case using g'(1-3,5,6) edge(1) by (intro exI [of _ g']) simp
qed (simp add: restrict_map_def)

lemma remove_in_edges_run:
  assumes "index_ok ge_to ids (g_edges g) (g_incoming g)" "nid \<notin> ids"
    "index_ok ge_from ids' (g_edges g) (g_outgoing g)" "distinct eids" "set eids \<subseteq> edges_at ge_to (g_edges g) nid"
  shows "\<exists>g'. remove_in_edges eids (g, removed) = (g', removed @ eids) \<and>
    g_nodes g' = g_nodes g \<and> g_next_edge_id g' = g_next_edge_id g \<and> g_edges g' = g_edges g |` (- set eids) \<and>
    index_ok ge_to ids (g_edges g') (g_incoming g') \<and> index_ok ge_from ids' (g_edges g') (g_outgoing g')"
  using assms
proof (induction eids arbitrary: g removed)
  case (Cons eid eids)
  then obtain edge where edge: "g_edges g eid = Some edge" "ge_to edge = nid" by (auto simp: edges_at_def)
  let ?g = "g\<lparr>g_edges := (g_edges g)(eid := None), g_outgoing := drop_from (ge_from edge) eid (g_outgoing g)\<rparr>"
  have "set eids \<subseteq> edges_at ge_to (g_edges ?g) nid" using Cons.prems(4,5) by (auto simp: edges_at_remove)
  moreover have "index_ok ge_to ids (g_edges ?g) (g_incoming ?g)"
    using index_ok_forget [OF Cons.prems(1) edge(1)] edge(2) Cons.prems(2) by simp
  moreover have "index_ok ge_from ids' (g_edges ?g) (g_outgoing ?g)" using index_ok_remove [OF Cons.prems(3) edge(1)] by simp
  moreover have "distinct eids" using Cons.prems(4) by simp
  ultimately obtain g' where g': "remove_in_edges eids (?g, removed @ [eid]) = (g', (removed @ [eid]) @ eids)"
    "g_nodes g' = g_nodes ?g" "g_next_edge_id g' = g_next_edge_id ?g" "g_edges g' = g_edges ?g |` (- set eids)"
    "index_ok ge_to ids (g_edges g') (g_incoming g')" "index_ok ge_from ids' (g_edges g') (g_outgoing g')"
    using Cons.IH [of ?g "removed @ [eid]"] Cons.prems(2) by blast
  have "g_edges g' = g_edges g |` (- set (eid # eids))"
    by (auto simp: g'(4) restrict_map_def fun_eq_iff)
  then show ?case using g'(1-3,5,6) edge(1) by (intro exI [of _ g']) simp
qed (simp add: restrict_map_def)

definition incident :: "graph \<Rightarrow> u64 \<Rightarrow> u64 set" where
  "incident g nid = edges_at ge_from (g_edges g) nid \<union> edges_at ge_to (g_edges g) nid"

lemma index_ok_lookup:
  assumes "index_ok near ids es m" "nid \<in> ids"
  obtains eids where "m nid = Some eids" "distinct eids" "set eids = edges_at near es nid"
proof -
  obtain eids where "m nid = Some eids" using assms by (auto simp: index_ok_def)
  moreover have "adjacent m nid = eids" using \<open>m nid = Some eids\<close> by (simp add: adjacent_def)
  moreover have "distinct (adjacent m nid)" "set (adjacent m nid) = edges_at near es nid"
    using assms unfolding index_ok_def by blast+
  ultimately show ?thesis using that by blast
qed

lemma edges_at_restrict: "edges_at near (es |` A) nid = edges_at near es nid \<inter> A"
  by (auto simp: edges_at_def restrict_map_def)

lemma remove_node_run:
  assumes ok: "graph_ok g" and nid: "g_nodes g nid = Some node"
  shows "\<exists>r g'. remove_node nid g = ((True, r), g') \<and> distinct r \<and> set r = incident g nid \<and>
    g_nodes g' = (g_nodes g)(nid := None) \<and> g_edges g' = g_edges g |` (- incident g nid) \<and>
    g_next_edge_id g' = g_next_edge_id g \<and> graph_ok g'"
proof -
  let ?ids = "dom (g_nodes g)" and ?g1 = "g\<lparr>g_nodes := (g_nodes g)(nid := None)\<rparr>"
  have out: "index_ok ge_from ?ids (g_edges g) (g_outgoing g)" and inc: "index_ok ge_to ?ids (g_edges g) (g_incoming g)"
    using ok by (simp_all add: graph_ok_def)
  have ids: "nid \<in> ?ids" using nid by auto
  obtain outs where outs: "g_outgoing g nid = Some outs" "distinct outs" "set outs = edges_at ge_from (g_edges g) nid"
    using index_ok_lookup [OF out ids] .
  let ?g1' = "?g1\<lparr>g_outgoing := (g_outgoing g)(nid := None)\<rparr>"
  obtain g2 where g2: "remove_out_edges outs (?g1', []) = (g2, outs)"
    "g_nodes g2 = (g_nodes g)(nid := None)" "g_next_edge_id g2 = g_next_edge_id g"
    "g_edges g2 = g_edges g |` (- set outs)"
    "index_ok ge_from (?ids - {nid}) (g_edges g2) (g_outgoing g2)" "index_ok ge_to ?ids (g_edges g2) (g_incoming g2)"
    using remove_out_edges_run [of "?ids - {nid}" ?g1' nid ?ids outs "[]"] index_ok_drop_node [OF out, of nid] inc outs by auto
  obtain ins where ins: "g_incoming g2 nid = Some ins" "distinct ins" "set ins = edges_at ge_to (g_edges g2) nid"
    using index_ok_lookup [OF g2(6) ids] .
  let ?g2' = "g2\<lparr>g_incoming := (g_incoming g2)(nid := None)\<rparr>"
  obtain g3 where g3: "remove_in_edges ins (?g2', outs) = (g3, outs @ ins)"
    "g_nodes g3 = g_nodes g2" "g_next_edge_id g3 = g_next_edge_id g2" "g_edges g3 = g_edges g2 |` (- set ins)"
    "index_ok ge_to (?ids - {nid}) (g_edges g3) (g_incoming g3)" "index_ok ge_from (?ids - {nid}) (g_edges g3) (g_outgoing g3)"
    using remove_in_edges_run [of "?ids - {nid}" ?g2' nid "?ids - {nid}" ins outs] index_ok_drop_node [OF g2(6), of nid] g2(5) ins
    by auto
  have set_ins: "set ins = edges_at ge_to (g_edges g) nid - set outs" by (auto simp: ins(3) g2(4) edges_at_restrict)
  have r: "distinct (outs @ ins)" "set (outs @ ins) = incident g nid"
    using outs(2,3) ins(2) by (auto simp: set_ins incident_def)
  have "- set outs \<inter> - set ins = - incident g nid" using r(2) by auto
  then have es: "g_edges g3 = g_edges g |` (- incident g nid)" by (simp add: g3(4) g2(4))
  have "edges_ok g3" unfolding edges_ok_def
  proof (intro conjI allI impI)
    show "finite (dom (g_edges g3))" using ok by (simp add: es graph_ok_def edges_ok_def)
    fix eid edge assume "g_edges g3 eid = Some edge"
    then have e: "g_edges g eid = Some edge" "eid \<notin> incident g nid" by (auto simp: es restrict_map_def split: if_splits)
    then have "ge_from edge \<noteq> nid" "ge_to edge \<noteq> nid" by (auto simp: incident_def edges_at_def)
    moreover have "ge_id edge = eid \<and> eid < g_next_edge_id g \<and> ge_from edge \<in> ?ids \<and> ge_to edge \<in> ?ids"
      using ok e(1) unfolding graph_ok_def edges_ok_def by blast
    ultimately show "ge_id edge = eid" "eid < g_next_edge_id g3"
      "ge_from edge \<in> dom (g_nodes g3)" "ge_to edge \<in> dom (g_nodes g3)"
      by (simp_all add: g3(2,3) g2(2,3))
  qed
  then have "graph_ok g3" using ok g3(5,6) by (auto simp: graph_ok_def g3(2) g2(2) split: if_splits)
  moreover have "remove_node nid g = ((True, outs @ ins), g3)"
    using nid outs(1) g2(1) ins(1) g3(1) by (simp add: remove_node_def)
  ultimately show ?thesis using r es g3(2,3) g2(2,3) by auto
qed

section \<open>Reachable graphs\<close>

lemma graph_ok_new: "graph_ok graph_new"
  by (simp add: graph_ok_def edges_ok_def index_ok_def graph_new_def)

lemma graph_ok_nodes:
  assumes ok: "graph_ok g" and own: "gn_id node = nid"
  shows "graph_ok (g\<lparr>g_nodes := (g_nodes g)(nid \<mapsto> node), g_outgoing := or_default nid (g_outgoing g),
    g_incoming := or_default nid (g_incoming g)\<rparr>)"
proof -
  have ends: "ge_from edge \<in> dom (g_nodes g)" "ge_to edge \<in> dom (g_nodes g)" if "g_edges g eid = Some edge" for eid edge
    using ok that unfolding graph_ok_def edges_ok_def by blast+
  have "edges_ok (g\<lparr>g_nodes := (g_nodes g)(nid \<mapsto> node), g_outgoing := a, g_incoming := b\<rparr>)" for a b
    using ok by (auto simp: graph_ok_def edges_ok_def)
  moreover have "index_ok ge_from (insert nid (dom (g_nodes g))) (g_edges g) (or_default nid (g_outgoing g))"
    using ok ends(1) by (intro index_ok_node) (simp_all add: graph_ok_def)
  moreover have "index_ok ge_to (insert nid (dom (g_nodes g))) (g_edges g) (or_default nid (g_incoming g))"
    using ok ends(2) by (intro index_ok_node) (simp_all add: graph_ok_def)
  ultimately show ?thesis using ok own by (simp add: graph_ok_def)
qed

lemma graph_ok_edges:
  assumes ok: "graph_ok g" and new: "g_edges g eid = None" "ge_id edge = eid" and "eid < next_id" "g_next_edge_id g \<le> next_id"
    and ends: "ge_from edge \<in> dom (g_nodes g)" "ge_to edge \<in> dom (g_nodes g)"
  shows "graph_ok (g\<lparr>g_next_edge_id := next_id, g_edges := (g_edges g)(eid \<mapsto> edge),
    g_outgoing := push_to (ge_from edge) eid (g_outgoing g), g_incoming := push_to (ge_to edge) eid (g_incoming g)\<rparr>)"
proof -
  have "index_ok ge_from (dom (g_nodes g)) ((g_edges g)(eid \<mapsto> edge)) (push_to (ge_from edge) eid (g_outgoing g))"
    using ok new ends by (intro index_ok_add) (simp_all add: graph_ok_def)
  moreover have "index_ok ge_to (dom (g_nodes g)) ((g_edges g)(eid \<mapsto> edge)) (push_to (ge_to edge) eid (g_incoming g))"
    using ok new ends by (intro index_ok_add) (simp_all add: graph_ok_def)
  moreover have "edges_ok (g\<lparr>g_next_edge_id := next_id, g_edges := (g_edges g)(eid \<mapsto> edge), g_outgoing := a, g_incoming := b\<rparr>)" for a b
    unfolding edges_ok_def
  proof (intro conjI allI impI)
    let ?g = "g\<lparr>g_next_edge_id := next_id, g_edges := (g_edges g)(eid \<mapsto> edge), g_outgoing := a, g_incoming := b\<rparr>"
    show "finite (dom (g_edges ?g))" using ok by (simp add: graph_ok_def edges_ok_def)
    fix e other assume e: "g_edges ?g e = Some other"
    have old: "ge_id other = e \<and> e < g_next_edge_id g \<and> ge_from other \<in> dom (g_nodes g) \<and> ge_to other \<in> dom (g_nodes g)"
      if "e \<noteq> eid" using ok e that unfolding graph_ok_def edges_ok_def by auto
    show "ge_id other = e" "e < g_next_edge_id ?g" "ge_from other \<in> dom (g_nodes ?g)" "ge_to other \<in> dom (g_nodes ?g)"
      using e old assms(3-7) by (cases "e = eid"; auto)+
  qed
  ultimately show ?thesis using ok by (simp add: graph_ok_def)
qed

lemma edge_id_fresh: "graph_ok g \<Longrightarrow> g_next_edge_id g \<le> eid \<Longrightarrow> g_edges g eid = None"
  unfolding graph_ok_def edges_ok_def by (metis leD option.exhaust)

lemma next_above:
  assumes "x \<noteq> - 1"
  shows "x < x + (1::u64)"
proof -
  have "unat (- 1 :: u64) = 18446744073709551615" by (simp add: unsigned_minus_1_eq_mask mask_eq_exp_minus_1)
  moreover have "unat x \<noteq> unat (- 1 :: u64)" using assms word_unat_eq_iff by blast
  ultimately have "unat x \<noteq> 18446744073709551615" by metis
  then have "Suc (unat x) < 18446744073709551616" using unat_u64 [of x] by linarith
  then show ?thesis by (simp add: word_less_nat_alt unat_word_ariths)
qed

lemma graph_ok_remove_edge:
  assumes ok: "graph_ok g"
  shows "graph_ok (snd (remove_edge eid g))"
proof (cases "g_edges g eid")
  case (Some edge)
  let ?es = "(g_edges g)(eid := None)"
  have "index_ok ge_from (dom (g_nodes g)) ?es (drop_from (ge_from edge) eid (g_outgoing g))"
    "index_ok ge_to (dom (g_nodes g)) ?es (drop_from (ge_to edge) eid (g_incoming g))"
    using ok Some by (auto simp: graph_ok_def intro!: index_ok_remove)
  then show ?thesis using ok Some by (auto simp: remove_edge_def graph_ok_def edges_ok_def)
qed (use ok in \<open>simp add: remove_edge_def\<close>)

text \<open>The changes the engine offers. Edges are restored from storage under unused ids, after their ends,
  as at the opening of a database; the reload after a failed statement restores them under ids in use, see
  \<open>Sql_Reload\<close>.\<close>

inductive graph_step :: "graph \<Rightarrow> graph \<Rightarrow> bool" where
  add_node: "add_node_with_vector nid lbl props vec g = (r, g') \<Longrightarrow> graph_step g g'"
| add_edge: "add_edge from_id to_id lbl weight props g = (r, g') \<Longrightarrow> graph_step g g'"
| remove_node: "remove_node nid g = (r, g') \<Longrightarrow> graph_step g g'"
| remove_edge: "remove_edge eid g = (r, g') \<Longrightarrow> graph_step g g'"
| restore_node: "graph_step g (restore_node node g)"
| restore_edge: "restore_edge edge g = (r, g') \<Longrightarrow> g_edges g (ge_id edge) = None \<Longrightarrow>
    g_nodes g (ge_from edge) \<noteq> None \<Longrightarrow> g_nodes g (ge_to edge) \<noteq> None \<Longrightarrow> graph_step g g'"

inductive graph_reachable :: "graph \<Rightarrow> bool" where
  start: "graph_reachable graph_new"
| step: "graph_reachable g \<Longrightarrow> graph_step g g' \<Longrightarrow> graph_reachable g'"

lemma graph_ok_add_edge:
  assumes ok: "graph_ok g" and run: "add_edge from_id to_id lbl weight props g = (r, g')"
  shows "graph_ok g'"
proof (cases "g_nodes g from_id = None \<or> g_nodes g to_id = None \<or> g_next_edge_id g = - 1")
  case True
  then show ?thesis using ok run by (auto simp: add_edge_def split: if_splits)
next
  case False
  let ?eid = "g_next_edge_id g"
  let ?edge = "\<lparr>ge_id = ?eid, ge_from = from_id, ge_to = to_id, ge_label = lbl, ge_weight = weight, ge_properties = props\<rparr>"
  have "?eid < ?eid + 1" using False by (intro next_above) blast
  then have "graph_ok (g\<lparr>g_next_edge_id := ?eid + 1, g_edges := (g_edges g)(?eid \<mapsto> ?edge),
    g_outgoing := push_to (ge_from ?edge) ?eid (g_outgoing g), g_incoming := push_to (ge_to ?edge) ?eid (g_incoming g)\<rparr>)"
    using False by (intro graph_ok_edges [OF ok]) (auto simp: edge_id_fresh [OF ok])
  then show ?thesis using run False by (auto simp: add_edge_def Let_def)
qed

lemma graph_ok_restore_edge:
  assumes ok: "graph_ok g" and run: "restore_edge edge g = (r, g')" and new: "g_edges g (ge_id edge) = None"
    and ends: "g_nodes g (ge_from edge) \<noteq> None" "g_nodes g (ge_to edge) \<noteq> None"
  shows "graph_ok g'"
proof (cases "ge_id edge \<ge> g_next_edge_id g \<and> ge_id edge = - 1")
  case True
  then show ?thesis using ok run by (simp add: restore_edge_def)
next
  case False
  let ?n = "if ge_id edge \<ge> g_next_edge_id g then ge_id edge + 1 else g_next_edge_id g"
  have "ge_id edge < ?n" "g_next_edge_id g \<le> ?n"
    using False next_above [of "ge_id edge"] by auto
  then show ?thesis
    using graph_ok_edges [OF ok new refl, of ?n] ends run False by (auto simp: restore_edge_def)
qed

lemma graph_ok_step: "graph_step g g' \<Longrightarrow> graph_ok g \<Longrightarrow> graph_ok g'"
proof (induction rule: graph_step.induct)
  case (remove_node nid g r g')
  then show ?case using remove_node_run [of g nid] by (cases "g_nodes g nid") (auto simp: remove_node_def)
next
  case (remove_edge eid g r g')
  then show ?case using graph_ok_remove_edge [of g eid] by simp
qed (auto simp: add_node_with_vector_def restore_node_def intro: graph_ok_nodes graph_ok_add_edge graph_ok_restore_edge)

lemma reachable_ok: "graph_reachable g \<Longrightarrow> graph_ok g"
  by (induction rule: graph_reachable.induct) (auto intro: graph_ok_new graph_ok_step)

lemma edge_stored:
  assumes "graph_ok g" "g_edges g eid = Some e"
  shows "ge_id e = eid" "ge_from e \<in> dom (g_nodes g)" "ge_to e \<in> dom (g_nodes g)"
  using assms unfolding graph_ok_def edges_ok_def by blast+

lemma index_exact:
  assumes "index_ok near ids es m" "\<And>eid e. es eid = Some e \<Longrightarrow> near e \<in> ids"
  shows "distinct (adjacent m nid) \<and> set (adjacent m nid) = edges_at near es nid"
proof (cases "nid \<in> ids")
  case False
  then have "m nid = None" using assms(1) by (auto simp: index_ok_def)
  then show ?thesis using assms(2) False by (auto simp: adjacent_def edges_at_def)
qed (use assms(1) in \<open>simp add: index_ok_def\<close>)

lemma outgoing_exact:
  assumes "graph_ok g"
  shows "distinct (adjacent (g_outgoing g) nid)" "set (adjacent (g_outgoing g) nid) = edges_at ge_from (g_edges g) nid"
  using index_exact [of ge_from "dom (g_nodes g)" "g_edges g" "g_outgoing g"] edge_stored(2) [OF assms] assms
  by (simp_all add: graph_ok_def)

lemma incoming_exact:
  assumes "graph_ok g"
  shows "distinct (adjacent (g_incoming g) nid)" "set (adjacent (g_incoming g) nid) = edges_at ge_to (g_edges g) nid"
  using index_exact [of ge_to "dom (g_nodes g)" "g_edges g" "g_incoming g"] edge_stored(3) [OF assms] assms
  by (simp_all add: graph_ok_def)

section \<open>Properties\<close>


text \<open>Removing a node removes it and exactly its incident edges, in both directions, reports
  each of their ids once, leaves every other node and edge alone and keeps the indexes exact; an
  absent node changes nothing.\<close>

theorem remove_node_exact:
  assumes "graph_reachable g"
  shows "case g_nodes g nid of
      None \<Rightarrow> remove_node nid g = ((False, []), g)
    | Some node \<Rightarrow> \<exists>removed g'. remove_node nid g = ((True, removed), g') \<and> distinct removed \<and>
        set removed = {eid. \<exists>e. g_edges g eid = Some e \<and> (ge_from e = nid \<or> ge_to e = nid)} \<and>
        g_nodes g' = (g_nodes g)(nid := None) \<and> g_edges g' = g_edges g |` (- set removed) \<and> graph_ok g'"
proof (cases "g_nodes g nid")
  case (Some node)
  have "incident g nid = {eid. \<exists>e. g_edges g eid = Some e \<and> (ge_from e = nid \<or> ge_to e = nid)}"
    by (auto simp: incident_def edges_at_def)
  then show ?thesis using remove_node_run [OF reachable_ok [OF assms] Some] Some by auto
qed (simp add: remove_node_def)

text \<open>A sample graph: a triangle with one direction for each edge.\<close>

definition node_of :: "u64 \<Rightarrow> graph_node" where
  "node_of nid = \<lparr>gn_id = nid, gn_label = ''N'', gn_properties = [], gn_vector = None\<rparr>"

definition edge_of :: "u64 \<Rightarrow> u64 \<Rightarrow> u64 \<Rightarrow> graph_edge" where
  "edge_of eid u v = \<lparr>ge_id = eid, ge_from = u, ge_to = v, ge_label = ''E'', ge_weight = 0, ge_properties = []\<rparr>"

definition with_node :: "u64 \<Rightarrow> graph \<Rightarrow> graph" where "with_node nid g = snd (add_node nid ''N'' [] g)"
definition with_edge :: "u64 \<Rightarrow> u64 \<Rightarrow> graph \<Rightarrow> graph" where "with_edge u v g = snd (add_edge u v ''E'' 0 [] g)"

definition triangle_graph :: graph where
  "triangle_graph = with_edge 3 1 (with_edge 2 3 (with_edge 1 2 (with_node 3 (with_node 2 (with_node 1 graph_new)))))"

lemma reachable_with: "graph_reachable g \<Longrightarrow> graph_reachable (with_node nid g)" "graph_reachable g \<Longrightarrow> graph_reachable (with_edge u v g)"
  unfolding with_node_def with_edge_def add_node_def
  by (metis graph_reachable.step graph_step.add_node prod.collapse, metis graph_reachable.step graph_step.add_edge prod.collapse)

lemma triangle_reachable: "graph_reachable triangle_graph"
  unfolding triangle_graph_def by (intro reachable_with graph_reachable.start)

lemma triangle_graph_eq:
  "triangle_graph = \<lparr>g_nodes = [1 \<mapsto> node_of 1, 2 \<mapsto> node_of 2, 3 \<mapsto> node_of 3],
     g_edges = [1 \<mapsto> edge_of 1 1 2, 2 \<mapsto> edge_of 2 2 3, 3 \<mapsto> edge_of 3 3 1],
     g_outgoing = [1 \<mapsto> [1], 2 \<mapsto> [2], 3 \<mapsto> [3]], g_incoming = [1 \<mapsto> [3], 2 \<mapsto> [1], 3 \<mapsto> [2]], g_next_edge_id = 4\<rparr>"
  by (simp add: triangle_graph_def with_node_def with_edge_def add_node_def add_node_with_vector_def add_edge_def
      graph_new_def node_of_def edge_of_def or_default_def push_to_def Let_def fun_eq_iff)


theorem remove_node_exact_witness:
  "(\<exists>removed g'. remove_node 2 triangle_graph = ((True, removed), g') \<and> distinct removed \<and>
     set removed = {eid. \<exists>e. g_edges triangle_graph eid = Some e \<and> (ge_from e = 2 \<or> ge_to e = 2)} \<and>
     g_nodes g' = (g_nodes triangle_graph)(2 := None) \<and> g_edges g' = g_edges triangle_graph |` (- set removed) \<and> graph_ok g') \<and>
   fst (remove_node 2 triangle_graph) = (True, [2, 1])"
proof
  have node: "g_nodes triangle_graph 2 = Some (node_of 2)" by (simp add: triangle_graph_eq)
  show "\<exists>removed g'. remove_node 2 triangle_graph = ((True, removed), g') \<and> distinct removed \<and>
     set removed = {eid. \<exists>e. g_edges triangle_graph eid = Some e \<and> (ge_from e = 2 \<or> ge_to e = 2)} \<and>
     g_nodes g' = (g_nodes triangle_graph)(2 := None) \<and> g_edges g' = g_edges triangle_graph |` (- set removed) \<and> graph_ok g'"
    using remove_node_exact [OF triangle_reachable, of 2] unfolding node option.case .
  show "fst (remove_node 2 triangle_graph) = (True, [2, 1])"
    by (simp add: remove_node_def triangle_graph_eq edge_of_def drop_from_def)
qed

end
