(* ===== verification/Graph_Search.thy ===== *)
theory Graph_Search
  imports Main
begin

text \<open>
  Breadth-first search once and for all: a queue of nodes with their depths and a set of visited
  nodes. The interface fixes the successors, the start and the depths that are expanded; the
  searches of the graph engine interpret it.
\<close>

section \<open>What a list of links adds\<close>

text \<open>The nodes of a list that are not yet visited, each once, in order.\<close>

fun fresh_nodes :: "'n set \<Rightarrow> 'n list \<Rightarrow> 'n list" where
  "fresh_nodes vs [] = []"
| "fresh_nodes vs (x # xs) = (if x \<in> vs then fresh_nodes vs xs else x # fresh_nodes (insert x vs) xs)"

lemma set_fresh_nodes [simp]: "set (fresh_nodes vs xs) = set xs - vs"
  by (induction vs xs rule: fresh_nodes.induct) auto

lemma distinct_fresh_nodes [simp]: "distinct (fresh_nodes vs xs)"
  by (induction vs xs rule: fresh_nodes.induct) auto

lemma fresh_nodes_append: "fresh_nodes vs (xs @ ys) = fresh_nodes vs xs @ fresh_nodes (vs \<union> set xs) ys"
proof (induction vs xs rule: fresh_nodes.induct)
  case (2 vs x xs)
  then show ?case by (auto simp: insert_absorb)
qed simp

text \<open>The number of rounds a search has left: what is queued and what is not yet visited.\<close>

definition rounds :: "'n set \<Rightarrow> 'q list \<Rightarrow> 'n set \<Rightarrow> nat" where
  "rounds U queue vs = length queue + card (U - vs)"

lemma rounds_skip: "rounds U (x # rest) vs = Suc (rounds U rest vs)"
  by (simp add: rounds_def)

lemma rounds_expand:
  assumes "finite U" "set xs \<subseteq> U" "length new = length (fresh_nodes vs xs)"
  shows "rounds U (x # rest) vs = Suc (rounds U (rest @ new) (vs \<union> set xs))"
proof -
  have "U - vs = (U - (vs \<union> set xs)) \<union> (set xs - vs)" using assms(2) by blast
  moreover have "card (set xs - vs) = length new"
    using assms(3) distinct_card [OF distinct_fresh_nodes, of vs xs] by simp
  moreover have "card ((U - (vs \<union> set xs)) \<union> (set xs - vs)) = card (U - (vs \<union> set xs)) + card (set xs - vs)"
    using assms(1) by (intro card_Un_disjoint) auto
  ultimately show ?thesis by (simp add: rounds_def)
qed

section \<open>The search\<close>

locale breadth_first =
  fixes succs :: "'n \<Rightarrow> 'n set" and expand :: "nat \<Rightarrow> bool" and start :: 'n
  assumes expand_mono: "j < k \<Longrightarrow> expand k \<Longrightarrow> expand j"
begin

definition walk :: "nat \<Rightarrow> 'n \<Rightarrow> bool" where
  "walk k v \<longleftrightarrow> (start, v) \<in> {(u, w). w \<in> succs u} ^^ k"

definition dist :: "'n \<Rightarrow> nat \<Rightarrow> bool" where
  "dist v k \<longleftrightarrow> walk k v \<and> (\<forall>j < k. \<not> walk j v)"

definition within :: "'n \<Rightarrow> nat \<Rightarrow> bool" where
  "within v k \<longleftrightarrow> dist v k \<and> (\<forall>j < k. expand j)"

lemma walk_0 [simp]: "walk 0 v \<longleftrightarrow> v = start" by (auto simp: walk_def)

lemma walk_Suc: "walk (Suc k) v \<longleftrightarrow> (\<exists>u. walk k u \<and> v \<in> succs u)" by (auto simp: walk_def)

lemma dist_unique: "dist v j \<Longrightarrow> dist v k \<Longrightarrow> j = k"
  by (metis dist_def linorder_neqE_nat)

lemma walk_dist:
  assumes "walk k v"
  shows "\<exists>j \<le> k. dist v j"
proof (intro exI conjI)
  show "(LEAST j. walk j v) \<le> k" using assms by (rule Least_le)
  show "dist v (LEAST j. walk j v)"
    unfolding dist_def using LeastI [of "\<lambda>j. walk j v", OF assms] not_less_Least [of _ "\<lambda>j. walk j v"] by blast
qed

definition search_inv :: "('n \<times> nat) list \<Rightarrow> 'n set \<Rightarrow> bool" where
  "search_inv queue visited \<longleftrightarrow>
     (\<forall>(u, k) \<in> set queue. u \<in> visited \<and> within u k) \<and>
     sorted (map snd queue) \<and> (\<forall>x \<in> set queue. snd x \<le> Suc (snd (hd queue))) \<and>
     start \<in> visited \<and> (\<forall>v \<in> visited. \<exists>k. within v k) \<and>
     (\<forall>u \<in> visited. u \<notin> fst ` set queue \<longrightarrow> (\<forall>k. dist u k \<and> expand k \<longrightarrow> succs u \<subseteq> visited))"

lemma search_inv_start: "search_inv [(start, 0)] {start}"
  unfolding search_inv_def within_def dist_def by (auto intro: exI [of _ 0])

lemma queue_within: "search_inv q vs \<Longrightarrow> (u, k) \<in> set q \<Longrightarrow> within u k"
  by (auto simp: search_inv_def)

lemma queue_visited: "search_inv q vs \<Longrightarrow> (u, k) \<in> set q \<Longrightarrow> u \<in> vs"
  by (auto simp: search_inv_def)

lemma queue_depth: "search_inv ((u, k) # rest) vs \<Longrightarrow> (v, j) \<in> set ((u, k) # rest) \<Longrightarrow> k \<le> j \<and> j \<le> Suc k"
  by (force simp: search_inv_def)

lemma closed: "search_inv q vs \<Longrightarrow> u \<in> vs \<Longrightarrow> u \<notin> fst ` set q \<Longrightarrow> dist u k \<Longrightarrow> expand k \<Longrightarrow> succs u \<subseteq> vs"
  unfolding search_inv_def by blast

lemma search_invI:
  assumes "\<And>u k. (u, k) \<in> set q \<Longrightarrow> u \<in> vs \<and> within u k" "sorted (map snd q)"
    "\<And>x. x \<in> set q \<Longrightarrow> snd x \<le> Suc (snd (hd q))" "start \<in> vs" "\<And>v. v \<in> vs \<Longrightarrow> \<exists>k. within v k"
    "\<And>u k. u \<in> vs \<Longrightarrow> u \<notin> fst ` set q \<Longrightarrow> dist u k \<Longrightarrow> expand k \<Longrightarrow> succs u \<subseteq> vs"
  shows "search_inv q vs"
  unfolding search_inv_def using assms(1-5) assms(6) by (intro conjI ballI allI impI) (auto 0 0, blast+)

lemma visited_below:
  assumes "search_inv ((u, k) # rest) visited" "expand k" "j \<le> k" "walk j w"
  shows "w \<in> visited"
  using assms(3,4)
proof (induction j arbitrary: w)
  case 0
  then show ?case using assms(1) by (auto simp: search_inv_def)
next
  case (Suc j)
  then obtain x where x: "walk j x" "w \<in> succs x" by (auto simp: walk_Suc)
  then have vis: "x \<in> visited" using Suc by simp
  obtain i where i: "i \<le> j" "dist x i" using walk_dist [OF x(1)] by blast
  have "x \<notin> fst ` set ((u, k) # rest)"
  proof
    assume "x \<in> fst ` set ((u, k) # rest)"
    then obtain m where m: "(x, m) \<in> set ((u, k) # rest)" by (metis imageE prod.collapse)
    have "dist x m" using queue_within [OF assms(1) m] by (simp add: within_def)
    moreover have "k \<le> m" using queue_depth [OF assms(1) m] by simp
    ultimately show False using dist_unique [OF i(2), of m] i(1) Suc.prems(1) by simp
  qed
  moreover have "expand i" using expand_mono [of i k] i(1) Suc.prems(1) assms(2) by simp
  ultimately have "succs x \<subseteq> visited" using closed [OF assms(1) vis] i(2) by blast
  then show ?case using x(2) by blast
qed

lemma discovered:
  assumes inv: "search_inv ((u, k) # rest) visited" and e: "expand k" and v: "v \<in> succs u" "v \<notin> visited"
  shows "within v (Suc k)"
proof -
  have "within u k" using inv by (auto simp: search_inv_def)
  then have "walk (Suc k) v" using v(1) by (auto simp: within_def dist_def walk_Suc)
  moreover have "\<not> walk j v" if "j < Suc k" for j using visited_below [OF inv e, of j v] v(2) that by auto
  moreover have "expand j" if "j < Suc k" for j using expand_mono [of j k] e that by (cases "j = k") auto
  ultimately show ?thesis by (simp add: within_def dist_def)
qed

lemma queue_tail:
  assumes "search_inv ((u, k) # rest) vs"
  shows "sorted (map snd rest)" "x \<in> set rest \<Longrightarrow> k \<le> snd x \<and> snd x \<le> Suc k"
  using assms queue_depth [OF assms, of "fst x" "snd x"] by (auto simp: search_inv_def)

lemma search_inv_skip:
  assumes inv: "search_inv ((u, k) # rest) visited" and e: "\<not> expand k"
  shows "search_inv rest visited"
proof (rule search_invI)
  fix v j assume "(v, j) \<in> set rest"
  then show "v \<in> visited \<and> within v j" using queue_within [OF inv, of v j] queue_visited [OF inv, of v j] by simp
next
  fix x assume x: "x \<in> set rest"
  then have "hd rest \<in> set rest" by (cases rest) auto
  then show "snd x \<le> Suc (snd (hd rest))" using queue_tail(2) [OF inv x] queue_tail(2) [OF inv, of "hd rest"] by linarith
next
  fix v j assume v: "v \<in> visited" "v \<notin> fst ` set rest" "dist v j" "expand j"
  have "dist u k" using queue_within [OF inv, of u k] by (simp add: within_def)
  then have "v \<noteq> u" using v(3,4) e dist_unique by blast
  then show "succs v \<subseteq> visited" using closed [OF inv v(1) _ v(3,4)] v(2) by simp
qed (use inv queue_tail(1) in \<open>auto simp: search_inv_def\<close>)

lemma search_inv_expand:
  assumes inv: "search_inv ((u, k) # rest) visited" and e: "expand k" and ns: "set ns = succs u - visited"
  shows "search_inv (rest @ map (\<lambda>v. (v, Suc k)) ns) (visited \<union> set ns)"
    (is "search_inv ?q _")
proof (rule search_invI)
  have new: "within v (Suc k)" if "v \<in> set ns" for v using discovered [OF inv e, of v] that ns by simp
  show "v \<in> visited \<union> set ns \<and> within v j" if "(v, j) \<in> set ?q" for v j
    using that new queue_within [OF inv, of v j] queue_visited [OF inv, of v j] by fastforce
  show "\<exists>j. within v j" if "v \<in> visited \<union> set ns" for v using that new inv by (auto simp: search_inv_def)
  have depths: "snd x \<le> Suc k" "k \<le> snd x" if "x \<in> set ?q" for x using that queue_tail(2) [OF inv, of x] by auto
  show "sorted (map snd ?q)"
    using queue_tail [OF inv] by (auto simp: sorted_append o_def map_replicate_const)
  show "snd x \<le> Suc (snd (hd ?q))" if x: "x \<in> set ?q" for x
  proof -
    have "hd ?q \<in> set ?q" using x by (cases ?q) auto
    then show ?thesis using depths(1) [OF x] depths(2) [of "hd ?q"] by linarith
  qed
  show "start \<in> visited \<union> set ns" using inv by (simp add: search_inv_def)
  show "succs v \<subseteq> visited \<union> set ns"
    if v: "v \<in> visited \<union> set ns" "v \<notin> fst ` set ?q" "dist v j" "expand j" for v j
  proof (cases "v = u")
    case False
    moreover have "v \<notin> set ns" using v(2) by force
    ultimately have "v \<in> visited" "v \<notin> fst ` set ((u, k) # rest)" using v(1,2) by auto
    then show ?thesis using closed [OF inv _ _ v(3,4)] by blast
  qed (use ns in auto)
qed

lemma dist_pred:
  assumes "dist v (Suc k)"
  shows "\<exists>u. dist u k \<and> v \<in> succs u"
proof -
  obtain u where u: "walk k u" "v \<in> succs u" using assms by (auto simp: dist_def walk_Suc)
  have "\<not> walk j u" if "j < k" for j
    using assms u(2) that walk_Suc [of j v] by (auto simp: dist_def)
  then show ?thesis using u by (auto simp: dist_def)
qed

lemma search_complete:
  assumes "search_inv [] visited" "within v k"
  shows "v \<in> visited"
  using assms(2)
proof (induction k arbitrary: v)
  case 0
  then show ?case using assms(1) by (auto simp: within_def dist_def search_inv_def)
next
  case (Suc k)
  then obtain u where u: "dist u k" "v \<in> succs u" using dist_pred unfolding within_def by blast
  have "within u k" using u(1) Suc.prems by (simp add: within_def)
  moreover have "expand k" using Suc.prems by (simp add: within_def)
  ultimately show ?case using closed [OF assms(1) Suc.IH [OF \<open>within u k\<close>], of k] u by auto
qed

lemma dist_witnesses:
  assumes "dist v k"
  shows "\<exists>S. finite S \<and> card S = Suc k \<and> v \<in> S \<and> (\<forall>x \<in> S. \<exists>j \<le> k. dist x j)"
  using assms
proof (induction k arbitrary: v)
  case 0
  then show ?case by (intro exI [of _ "{v}"]) auto
next
  case (Suc k)
  obtain u where u: "dist u k" using dist_pred [OF Suc.prems] by blast
  obtain S where S: "finite S" "card S = Suc k" "\<forall>x \<in> S. \<exists>j \<le> k. dist x j" using Suc.IH [OF u] by blast
  have "v \<notin> S"
  proof
    assume "v \<in> S"
    then obtain j where "j \<le> k" "dist v j" using S(3) by blast
    then show False using dist_unique [OF Suc.prems] by fastforce
  qed
  then show ?case
    using S Suc.prems by (intro exI [of _ "insert v S"]) (auto intro: le_SucI)
qed

lemma dist_below:
  assumes "dist v k" "finite U" "start \<in> U" "\<And>u. u \<in> U \<Longrightarrow> succs u \<subseteq> U"
  shows "k < card U"
proof -
  have reach: "x \<in> U" if "walk j x" for x j
    using that
  proof (induction j arbitrary: x)
    case (Suc j)
    then show ?case using assms(4) unfolding walk_Suc by blast
  qed (use assms(3) in simp)
  obtain S where S: "finite S" "card S = Suc k" "\<forall>x \<in> S. \<exists>j \<le> k. dist x j" using dist_witnesses [OF assms(1)] by blast
  have "S \<subseteq> U" using S(3) reach unfolding dist_def by blast
  then show ?thesis using card_mono [OF assms(2), of S] S(2) by simp
qed

lemma search_sound: "search_inv queue visited \<Longrightarrow> v \<in> visited \<Longrightarrow> \<exists>k. within v k"
  by (simp add: search_inv_def)

end

end
