(* ===== verification/Graph_Walks.thy ===== *)
theory Graph_Walks
  imports Graph_Inv Graph_Search
begin

text \<open>
  The breadth-first searches of \<^verbatim>\<open>src/src/graph/mod.rs\<close>: shortest path, subgraph and weakly connected
  components. Each loop takes fuel, one unit for a round of its queue.
\<close>

section \<open>Shortest path\<close>

record path_search =
  ps_queue :: "(u64 \<times> nat) list"
  ps_visited :: "u64 set"
  ps_parent :: "u64 \<rightharpoonup> u64 \<times> u64"

text \<open>The loop over the outgoing edges of \<open>curr_id\<close>.\<close>

fun push_targets :: "graph \<Rightarrow> u64 \<Rightarrow> nat \<Rightarrow> u64 list \<Rightarrow> path_search \<Rightarrow> path_search" where
  "push_targets g curr_id depth [] ps = ps"
| "push_targets g curr_id depth (eid # eids) ps =
     (case g_edges g eid of
        None \<Rightarrow> push_targets g curr_id depth eids ps
      | Some edge \<Rightarrow>
          let next_id = ge_to edge in
          if next_id \<in> ps_visited ps then push_targets g curr_id depth eids ps
          else push_targets g curr_id depth eids
            (ps\<lparr>ps_visited := insert next_id (ps_visited ps),
                ps_parent := (ps_parent ps)(next_id \<mapsto> (curr_id, eid)),
                ps_queue := ps_queue ps @ [(next_id, depth + 1)]\<rparr>))"

fun find_path_loop :: "nat \<Rightarrow> graph \<Rightarrow> u64 \<Rightarrow> nat \<Rightarrow> path_search \<Rightarrow> (bool \<times> path_search) option" where
  "find_path_loop 0 g end_id max_depth ps = None"
| "find_path_loop (Suc fuel) g end_id max_depth ps =
     (case ps_queue ps of
        [] \<Rightarrow> Some (False, ps)
      | (curr_id, depth) # rest \<Rightarrow>
          let ps = ps\<lparr>ps_queue := rest\<rparr> in
          if curr_id = end_id then Some (True, ps)
          else if depth \<ge> max_depth then find_path_loop fuel g end_id max_depth ps
          else find_path_loop fuel g end_id max_depth
                 (push_targets g curr_id depth (adjacent (g_outgoing g) curr_id) ps))"

text \<open>The path is followed back from its end; it is reversed by the caller.\<close>

fun trace_back :: "nat \<Rightarrow> graph \<Rightarrow> u64 \<Rightarrow> (u64 \<rightharpoonup> u64 \<times> u64) \<Rightarrow> u64 \<Rightarrow> graph_edge list \<Rightarrow> graph_edge list option" where
  "trace_back 0 g start_id parent_map cur path = None"
| "trace_back (Suc fuel) g start_id parent_map cur path =
     (if cur = start_id then Some path
      else case parent_map cur of
             None \<Rightarrow> Some path
           | Some (prev, eid) \<Rightarrow> trace_back fuel g start_id parent_map prev
               (case g_edges g eid of None \<Rightarrow> path | Some edge \<Rightarrow> path @ [edge]))"

definition find_path :: "nat \<Rightarrow> graph \<Rightarrow> u64 \<Rightarrow> u64 \<Rightarrow> nat \<Rightarrow> graph_edge list option option" where
  "find_path fuel g start_id end_id max_depth =
     (if start_id = end_id then Some (Some [])
      else if g_nodes g start_id = None \<or> g_nodes g end_id = None then Some None
      else case find_path_loop fuel g end_id max_depth
                  \<lparr>ps_queue = [(start_id, 0)], ps_visited = {start_id}, ps_parent = (\<lambda>_. None)\<rparr> of
             None \<Rightarrow> None
           | Some (found, ps) \<Rightarrow>
               if \<not> found then Some None
               else map_option (\<lambda>path. Some (rev path)) (trace_back fuel g start_id (ps_parent ps) end_id []))"

section \<open>Subgraph\<close>

record subgraph_search =
  ss_queue :: "(u64 \<times> nat) list"
  ss_nodes :: "u64 set"
  ss_edges :: "u64 set"
  ss_nodes_out :: "graph_node list"
  ss_edges_out :: "graph_edge list"

text \<open>The loop over one adjacency list; \<open>far\<close> reads the other end of an edge.\<close>

fun collect_links :: "(graph_edge \<Rightarrow> u64) \<Rightarrow> graph \<Rightarrow> nat \<Rightarrow> u64 list \<Rightarrow> subgraph_search \<Rightarrow> subgraph_search" where
  "collect_links far g depth [] ss = ss"
| "collect_links far g depth (eid # eids) ss =
     (case g_edges g eid of
        None \<Rightarrow> collect_links far g depth eids ss
      | Some edge \<Rightarrow>
          let ss = (if eid \<in> ss_edges ss then ss
                    else ss\<lparr>ss_edges := insert eid (ss_edges ss), ss_edges_out := ss_edges_out ss @ [edge]\<rparr>);
              ss = (if far edge \<in> ss_nodes ss then ss
                    else ss\<lparr>ss_nodes := insert (far edge) (ss_nodes ss),
                            ss_queue := ss_queue ss @ [(far edge, depth + 1)]\<rparr>)
          in collect_links far g depth eids ss)"

fun subgraph_loop :: "nat \<Rightarrow> graph \<Rightarrow> nat \<Rightarrow> subgraph_search \<Rightarrow> subgraph_search option" where
  "subgraph_loop 0 g depth ss = None"
| "subgraph_loop (Suc fuel) g depth ss =
     (case ss_queue ss of
        [] \<Rightarrow> Some ss
      | (curr_id, curr_depth) # rest \<Rightarrow>
          let ss = ss\<lparr>ss_queue := rest\<rparr>;
              ss = (case g_nodes g curr_id of None \<Rightarrow> ss | Some node \<Rightarrow> ss\<lparr>ss_nodes_out := ss_nodes_out ss @ [node]\<rparr>)
          in if curr_depth \<ge> depth then subgraph_loop fuel g depth ss
             else subgraph_loop fuel g depth
               (collect_links ge_from g curr_depth (adjacent (g_incoming g) curr_id)
                 (collect_links ge_to g curr_depth (adjacent (g_outgoing g) curr_id) ss)))"

definition extract_subgraph :: "nat \<Rightarrow> graph \<Rightarrow> u64 \<Rightarrow> nat \<Rightarrow> (graph_node list \<times> graph_edge list) option" where
  "extract_subgraph fuel g center_id depth =
     (if g_nodes g center_id = None then Some ([], [])
      else map_option (\<lambda>ss. (ss_nodes_out ss, ss_edges_out ss))
        (subgraph_loop fuel g depth
           \<lparr>ss_queue = [(center_id, 0)], ss_nodes = {center_id}, ss_edges = {}, ss_nodes_out = [], ss_edges_out = []\<rparr>))"

section \<open>Weakly connected components\<close>

type_synonym labels = "u64 \<rightharpoonup> nat"

fun label_links :: "(graph_edge \<Rightarrow> u64) \<Rightarrow> graph \<Rightarrow> nat \<Rightarrow> u64 list \<Rightarrow> u64 list \<times> labels \<Rightarrow> u64 list \<times> labels" where
  "label_links far g comp_id [] s = s"
| "label_links far g comp_id (eid # eids) (queue, components) =
     (case g_edges g eid of
        None \<Rightarrow> label_links far g comp_id eids (queue, components)
      | Some edge \<Rightarrow>
          if components (far edge) = None \<and> g_nodes g (far edge) \<noteq> None
          then label_links far g comp_id eids (queue @ [far edge], components(far edge \<mapsto> comp_id))
          else label_links far g comp_id eids (queue, components))"

fun label_loop :: "nat \<Rightarrow> graph \<Rightarrow> nat \<Rightarrow> u64 list \<times> labels \<Rightarrow> labels option" where
  "label_loop 0 g comp_id s = None"
| "label_loop (Suc fuel) g comp_id (queue, components) =
     (case queue of
        [] \<Rightarrow> Some components
      | cur # rest \<Rightarrow>
          label_loop fuel g comp_id
            (label_links ge_from g comp_id (adjacent (g_incoming g) cur)
              (label_links ge_to g comp_id (adjacent (g_outgoing g) cur) (rest, components))))"

text \<open>The keys of the node map, in the order in which the map lists them.\<close>

fun label_components :: "nat \<Rightarrow> graph \<Rightarrow> u64 list \<Rightarrow> nat \<Rightarrow> labels \<Rightarrow> labels option" where
  "label_components fuel g [] current_comp_id components = Some components"
| "label_components fuel g (node_id # keys) current_comp_id components =
     (if components node_id \<noteq> None then label_components fuel g keys current_comp_id components
      else case label_loop fuel g current_comp_id ([node_id], components(node_id \<mapsto> current_comp_id)) of
             None \<Rightarrow> None
           | Some components' \<Rightarrow> label_components fuel g keys (current_comp_id + 1) components')"

definition connected_components :: "nat \<Rightarrow> graph \<Rightarrow> u64 list \<Rightarrow> labels option" where
  "connected_components fuel g keys = label_components fuel g keys 0 (\<lambda>_. None)"

end
