(* ===== verification/Graph_Path.thy ===== *)
theory Graph_Path
  imports Graph_Walks
begin

text \<open>
  The shortest path search: the queue loop is the breadth-first search of \<open>Graph_Search\<close> over the
  outgoing edges, and its parent map leads back along edges to the start.
\<close>

section \<open>Links\<close>

definition links :: "(graph_edge \<Rightarrow> u64) \<Rightarrow> graph \<Rightarrow> u64 list \<Rightarrow> u64 list" where
  "links far g eids = map far (concat (map (\<lambda>eid. case g_edges g eid of None \<Rightarrow> [] | Some e \<Rightarrow> [e]) eids))"

lemma links_simps [simp]:
  "links far g [] = []"
  "links far g (eid # eids) = (case g_edges g eid of None \<Rightarrow> [] | Some e \<Rightarrow> [far e]) @ links far g eids"
  by (auto simp: links_def split: option.splits)

lemma set_links: "set (links far g eids) = {far e | e eid. eid \<in> set eids \<and> g_edges g eid = Some e}"
proof (induction eids)
  case (Cons eid eids)
  then show ?case by (cases "g_edges g eid") auto
qed simp

definition out_succs :: "graph \<Rightarrow> u64 \<Rightarrow> u64 set" where
  "out_succs g nid = set (links ge_to g (adjacent (g_outgoing g) nid))"

interpretation out: breadth_first "out_succs g" "\<lambda>k. k < max_depth" start_id for g max_depth start_id
  by unfold_locales simp

text \<open>A route: edges of the graph, each starting where the one before ends.\<close>

fun route_along :: "graph \<Rightarrow> u64 \<Rightarrow> graph_edge list \<Rightarrow> u64 \<Rightarrow> bool" where
  "route_along g u [] v \<longleftrightarrow> u = v"
| "route_along g u (e # es) v \<longleftrightarrow> g_edges g (ge_id e) = Some e \<and> ge_from e = u \<and> route_along g (ge_to e) es v"

lemma route_along_append:
  "route_along g u (es @ fs) v \<longleftrightarrow> (\<exists>w. route_along g u es w \<and> route_along g w fs v)"
  by (induction es arbitrary: u) auto

lemma out_succs_iff:
  assumes "graph_ok g"
  shows "v \<in> out_succs g u \<longleftrightarrow> (\<exists>e. g_edges g (ge_id e) = Some e \<and> ge_from e = u \<and> ge_to e = v)"
proof -
  have "set (adjacent (g_outgoing g) u) = edges_at ge_from (g_edges g) u" using outgoing_exact [OF assms] by simp
  then have "v \<in> out_succs g u \<longleftrightarrow> (\<exists>e eid. g_edges g eid = Some e \<and> ge_from e = u \<and> ge_to e = v)"
    by (auto simp: out_succs_def set_links edges_at_def)
  then show ?thesis using edge_stored(1) [OF assms] by metis
qed

lemma walk_route:
  assumes ok: "graph_ok g"
  shows "out.walk g s k v \<longleftrightarrow> (\<exists>es. route_along g s es v \<and> length es = k)"
proof (induction k arbitrary: v)
  case (Suc k)
  have "(\<exists>es. route_along g s es v \<and> length es = Suc k) \<longleftrightarrow>
    (\<exists>u e es. route_along g s es u \<and> length es = k \<and> route_along g u [e] v)" (is "?l \<longleftrightarrow> ?r")
  proof
    assume ?l
    then obtain es where es: "route_along g s es v" "length es = Suc k" by blast
    then obtain fs e where "es = fs @ [e]" by (cases es rule: rev_cases) auto
    then show ?r using es by (auto simp: route_along_append)
  next
    assume ?r
    then obtain u e es where "route_along g s es u" "length es = k" "route_along g u [e] v" by blast
    then show ?l by (intro exI [of _ "es @ [e]"]) (auto simp: route_along_append)
  qed
  then show ?case unfolding out.walk_Suc Suc.IH out_succs_iff [OF ok] by auto
qed auto

section \<open>The queue loop\<close>

lemma push_targets_queue:
  "ps_queue (push_targets g u k eids ps) =
     ps_queue ps @ map (\<lambda>v. (v, Suc k)) (fresh_nodes (ps_visited ps) (links ge_to g eids)) \<and>
   ps_visited (push_targets g u k eids ps) = ps_visited ps \<union> set (links ge_to g eids)"
proof (induction eids arbitrary: ps)
  case (Cons eid eids)
  then show ?case by (auto simp: Let_def insert_absorb split: option.splits)
qed simp

lemma push_targets_parent:
  assumes "v \<in> ps_visited (push_targets g u k eids ps)"
  shows "v \<in> ps_visited ps \<and> ps_parent (push_targets g u k eids ps) v = ps_parent ps v \<or>
    v \<notin> ps_visited ps \<and> (\<exists>eid e. eid \<in> set eids \<and> g_edges g eid = Some e \<and> ge_to e = v \<and>
      ps_parent (push_targets g u k eids ps) v = Some (u, eid))"
  using assms
proof (induction eids arbitrary: ps)
  case (Cons eid eids)
  show ?case
  proof (cases "g_edges g eid")
    case None
    then show ?thesis using Cons by auto
  next
    case (Some e)
    show ?thesis
    proof (cases "ge_to e \<in> ps_visited ps")
      case True
      then show ?thesis using Cons.IH [of ps] Cons.prems Some by (auto simp: Let_def)
    next
      case False
      let ?ps = "ps\<lparr>ps_visited := insert (ge_to e) (ps_visited ps), ps_parent := (ps_parent ps)(ge_to e \<mapsto> (u, eid)),
        ps_queue := ps_queue ps @ [(ge_to e, k + 1)]\<rparr>"
      have run: "push_targets g u k (eid # eids) ps = push_targets g u k eids ?ps" using Some False by (simp add: Let_def)
      show ?thesis using Cons.IH [of ?ps] Cons.prems Some False unfolding run by (cases "v = ge_to e") auto
    qed
  qed
qed simp

definition parent_ok :: "graph \<Rightarrow> u64 \<Rightarrow> path_search \<Rightarrow> bool" where
  "parent_ok g s ps \<longleftrightarrow> (\<forall>v \<in> ps_visited ps. v \<noteq> s \<longrightarrow>
     (\<exists>u eid e k. ps_parent ps v = Some (u, eid) \<and> g_edges g eid = Some e \<and> ge_from e = u \<and> ge_to e = v \<and>
        u \<in> ps_visited ps \<and> out.dist g s u k \<and> out.dist g s v (Suc k)))"

lemma parent_ok_push:
  assumes ok: "graph_ok g" and par: "parent_ok g s ps"
    and inv: "out.search_inv g m s ((u, k) # ps_queue ps) (ps_visited ps)" and k: "k < m"
  shows "parent_ok g s (push_targets g u k (adjacent (g_outgoing g) u) ps)" (is "parent_ok g s ?ps")
  unfolding parent_ok_def
proof (intro ballI impI)
  fix v assume v: "v \<in> ps_visited ?ps" "v \<noteq> s"
  have mono: "ps_visited ps \<subseteq> ps_visited ?ps" by (simp add: push_targets_queue)
  show "\<exists>u eid e k. ps_parent ?ps v = Some (u, eid) \<and> g_edges g eid = Some e \<and> ge_from e = u \<and> ge_to e = v \<and>
      u \<in> ps_visited ?ps \<and> out.dist g s u k \<and> out.dist g s v (Suc k)"
    using push_targets_parent [OF v(1)]
  proof (elim disjE conjE exE)
    assume old: "v \<in> ps_visited ps" "ps_parent ?ps v = ps_parent ps v"
    then show ?thesis using par v(2) mono unfolding parent_ok_def old(2) by (meson subsetD)
  next
    fix eid e
    assume new: "v \<notin> ps_visited ps" "eid \<in> set (adjacent (g_outgoing g) u)" "g_edges g eid = Some e" "ge_to e = v"
      "ps_parent ?ps v = Some (u, eid)"
    have "ge_from e = u" using new(2,3) outgoing_exact [OF ok, of u] by (auto simp: edges_at_def)
    moreover have "v \<in> out_succs g u" using new(2-4) by (auto simp: out_succs_def set_links)
    then have "out.dist g s v (Suc k)" using out.discovered [OF inv k _ new(1)] by (simp add: out.within_def)
    moreover have "out.dist g s u k" "u \<in> ps_visited ps"
      using out.queue_within [OF inv, of u k] out.queue_visited [OF inv, of u k] by (simp_all add: out.within_def)
    ultimately show ?thesis using new mono by blast
  qed
qed

lemma find_path_loop_run:
  assumes ok: "graph_ok g" and "parent_ok g s ps" "out.search_inv g m s (ps_queue ps) (ps_visited ps)"
    "t \<in> ps_visited ps \<Longrightarrow> t \<in> fst ` set (ps_queue ps)" "rounds (dom (g_nodes g)) (ps_queue ps) (ps_visited ps) < fuel"
  shows "\<exists>found ps'. find_path_loop fuel g t m ps = Some (found, ps') \<and>
    (if found then parent_ok g s ps' \<and> t \<in> ps_visited ps' \<and> (\<exists>k. out.within g m s t k)
     else out.search_inv g m s [] (ps_visited ps') \<and> t \<notin> ps_visited ps')"
  using assms(2-5)
proof (induction fuel arbitrary: ps)
  case (Suc fuel)
  show ?case
  proof (cases "ps_queue ps")
    case Nil
    then show ?thesis using Suc.prems by auto
  next
    case (Cons x rest)
    obtain u k where x: "x = (u, k)" by (cases x)
    have inv: "out.search_inv g m s ((u, k) # rest) (ps_visited ps)" using Suc.prems(2) by (simp add: Cons x)
    let ?ps = "ps\<lparr>ps_queue := rest\<rparr>"
    have par: "parent_ok g s ?ps" using Suc.prems(1) by (simp add: parent_ok_def)
    consider (found) "u = t" | (deep) "u \<noteq> t" "m \<le> k" | (more) "u \<noteq> t" "k < m" by linarith
    then show ?thesis
    proof cases
      case found
      then have "find_path_loop (Suc fuel) g t m ps = Some (True, ?ps)" by (simp add: Cons x)
      then show ?thesis
        using par out.queue_visited [OF inv, of u k] out.queue_within [OF inv, of u k] found
        by (intro exI [of _ True] exI [of _ ?ps]) auto
    next
      case deep
      have "rounds (dom (g_nodes g)) rest (ps_visited ps) < fuel" using Suc.prems(4) by (simp add: Cons rounds_skip)
      moreover have "t \<in> fst ` set rest" if "t \<in> ps_visited ps" using Suc.prems(3) that deep(1) by (auto simp: Cons x)
      moreover have "find_path_loop (Suc fuel) g t m ps = find_path_loop fuel g t m ?ps" using deep by (simp add: Cons x)
      ultimately show ?thesis using Suc.IH [OF par] out.search_inv_skip [OF inv] deep(2) by simp
    next
      case more
      let ?eids = "adjacent (g_outgoing g) u"
      let ?ns = "fresh_nodes (ps_visited ps) (links ge_to g ?eids)" and ?ps' = "push_targets g u k ?eids ?ps"
      have queue: "ps_queue ?ps' = rest @ map (\<lambda>v. (v, Suc k)) ?ns"
        and visited: "ps_visited ?ps' = ps_visited ps \<union> set (links ge_to g ?eids)"
        using push_targets_queue [of g u k ?eids ?ps] by simp_all
      have "out.search_inv g m s (ps_queue ?ps') (ps_visited ps \<union> set ?ns)"
        unfolding queue by (rule out.search_inv_expand [OF inv more(2)]) (simp add: out_succs_def)
      then have inv': "out.search_inv g m s (ps_queue ?ps') (ps_visited ?ps')" by (simp add: visited)
      have "set (links ge_to g ?eids) \<subseteq> dom (g_nodes g)" using edge_stored(3) [OF ok] by (auto simp: set_links)
      then have "rounds (dom (g_nodes g)) (ps_queue ps) (ps_visited ps) = Suc (rounds (dom (g_nodes g)) (ps_queue ?ps') (ps_visited ?ps'))"
        unfolding queue visited Cons using ok by (intro rounds_expand) (simp_all add: graph_ok_def)
      then have fuel: "rounds (dom (g_nodes g)) (ps_queue ?ps') (ps_visited ?ps') < fuel" using Suc.prems(4) by simp
      have "t \<in> fst ` set (ps_queue ?ps')" if "t \<in> ps_visited ?ps'"
        using that Suc.prems(3) more(1) by (cases "t \<in> ps_visited ps") (force simp: Cons x queue visited)+
      moreover have "find_path_loop (Suc fuel) g t m ps = find_path_loop fuel g t m ?ps'" using more by (simp add: Cons x)
      moreover have "parent_ok g s ?ps'" using parent_ok_push [OF ok par _ more(2)] inv by simp
      ultimately show ?thesis using Suc.IH [of ?ps'] inv' fuel by simp
    qed
  qed
qed simp

section \<open>The path\<close>

lemma trace_back_run:
  assumes ok: "graph_ok g" and par: "parent_ok g s ps" and "v \<in> ps_visited ps" "out.dist g s v k" "k < fuel"
  shows "\<exists>es. trace_back fuel g s (ps_parent ps) v path = Some (path @ rev es) \<and> length es = k \<and> route_along g s es v"
  using assms(3-5)
proof (induction fuel arbitrary: v k path)
  case (Suc fuel)
  show ?case
  proof (cases "v = s")
    case True
    have "out.dist g s v 0" by (simp add: True out.dist_def)
    then have "k = 0" using out.dist_unique Suc.prems(2) by blast
    then show ?thesis using True by simp
  next
    case False
    obtain u eid e j where p: "ps_parent ps v = Some (u, eid)" "g_edges g eid = Some e" "ge_from e = u" "ge_to e = v"
      "u \<in> ps_visited ps" "out.dist g s u j" "out.dist g s v (Suc j)"
      using par Suc.prems(1) False unfolding parent_ok_def by blast
    have k: "k = Suc j" using out.dist_unique Suc.prems(2) p(7) by blast
    obtain es where es: "trace_back fuel g s (ps_parent ps) u (path @ [e]) = Some ((path @ [e]) @ rev es)"
      "length es = j" "route_along g s es u"
      using Suc.IH [OF p(5,6), of "path @ [e]"] Suc.prems(3) k by auto
    have "route_along g s (es @ [e]) v" using es(3) p(2-4) edge_stored(1) [OF ok p(2)] by (auto simp: route_along_append)
    then show ?thesis using es(1,2) k False p(1,2) by (intro exI [of _ "es @ [e]"]) simp
  qed
qed simp

lemma route_ends:
  assumes "graph_ok g" "route_along g s es t" "s \<noteq> t"
  shows "g_nodes g s \<noteq> None" "g_nodes g t \<noteq> None"
proof -
  obtain e fs where e: "es = e # fs" using assms(2,3) by (cases es) auto
  obtain f gs where f: "es = gs @ [f]" using assms(2,3) by (cases es rule: rev_cases) auto
  show "g_nodes g s \<noteq> None" using assms(2) edge_stored(2) [OF assms(1), of "ge_id e" e] by (auto simp: e)
  show "g_nodes g t \<noteq> None"
    using assms(2) edge_stored(3) [OF assms(1), of "ge_id f" f] unfolding f by (auto simp: route_along_append)
qed

lemma find_path_run:
  assumes ok: "graph_ok g" and fuel: "card (dom (g_nodes g)) < fuel"
  shows "\<exists>r. find_path fuel g s t m = Some r \<and>
    (case r of None \<Rightarrow> \<not> (\<exists>es. route_along g s es t \<and> length es \<le> m)
     | Some es \<Rightarrow> route_along g s es t \<and> length es \<le> m \<and> (\<forall>es'. route_along g s es' t \<longrightarrow> length es \<le> length es'))"
proof -
  have fin: "finite (dom (g_nodes g))" using ok by (simp add: graph_ok_def)
  let ?ps = "\<lparr>ps_queue = [(s, 0)], ps_visited = {s}, ps_parent = (\<lambda>_. None)\<rparr>"
  consider (same) "s = t" | (absent) "s \<noteq> t" "g_nodes g s = None \<or> g_nodes g t = None"
    | (search) "s \<noteq> t" "g_nodes g s \<noteq> None" "g_nodes g t \<noteq> None" by blast
  then show ?thesis
  proof cases
    case same
    then show ?thesis by (simp add: find_path_def)
  next
    case absent
    then have "\<not> route_along g s es t" for es using route_ends [OF ok] by blast
    then show ?thesis using absent by (simp add: find_path_def)
  next
    case search
    have "s \<in> dom (g_nodes g)" using search(2) by auto
    then have "rounds (dom (g_nodes g)) [(s, 0 :: nat)] {s} = card (dom (g_nodes g))"
      using card_Suc_Diff1 [OF fin, of s] by (simp add: rounds_def)
    moreover have "parent_ok g s ?ps" by (simp add: parent_ok_def)
    ultimately obtain found ps where ps: "find_path_loop fuel g t m ?ps = Some (found, ps)"
      "if found then parent_ok g s ps \<and> t \<in> ps_visited ps \<and> (\<exists>k. out.within g m s t k)
       else out.search_inv g m s [] (ps_visited ps) \<and> t \<notin> ps_visited ps"
      using find_path_loop_run [OF ok, of s ?ps m t fuel] out.search_inv_start [of g m s] fuel search(1) by auto
    show ?thesis
    proof (cases found)
      case False
      have "\<not> (route_along g s es t \<and> length es \<le> m)" for es
      proof
        assume es: "route_along g s es t \<and> length es \<le> m"
        then have "out.walk g s (length es) t" using walk_route [OF ok] by blast
        then obtain j where "j \<le> length es" "out.dist g s t j" using out.walk_dist by blast
        then have "out.within g m s t j" using es by (simp add: out.within_def)
        then show False using out.search_complete ps(2) False by auto
      qed
      then show ?thesis using ps(1) False search by (simp add: find_path_def)
    next
      case True
      then obtain k where k: "out.dist g s t k" "\<forall>j < k. j < m" using ps(2) by (auto simp: out.within_def)
      have "k < card (dom (g_nodes g))"
      proof (rule out.dist_below [OF k(1) fin])
        show "s \<in> dom (g_nodes g)" using search(2) by auto
        show "out_succs g u \<subseteq> dom (g_nodes g)" for u using edge_stored(3) [OF ok] by (auto simp: out_succs_def set_links)
      qed
      then obtain es where es: "trace_back fuel g s (ps_parent ps) t [] = Some (rev es)" "length es = k" "route_along g s es t"
        using trace_back_run [OF ok, of s ps t k fuel "[]"] ps(2) True k(1) fuel by auto
      have "k \<le> length es'" if "route_along g s es' t" for es'
      proof -
        have "out.walk g s (length es') t" using walk_route [OF ok] that by blast
        then show ?thesis using k(1) unfolding out.dist_def by (meson not_less)
      qed
      moreover have "k \<le> m" using k(2) by (cases k) auto
      ultimately show ?thesis using ps(1) True search es by (auto simp: find_path_def)
    qed
  qed
qed

text \<open>C32: On every graph the engine can reach, the shortest-path search returns (one round of the
  queue per node and one more is enough), and it returns a path exactly when a route of at most
  \<open>max_depth\<close> edges exists; the path is such a route, edge by edge from the start to the end, and no
  route is shorter.\<close>

theorem find_path_shortest:
  assumes "graph_reachable g" "card (dom (g_nodes g)) < fuel"
  shows "\<exists>r. find_path fuel g start_id end_id max_depth = Some r \<and>
    (case r of
       None \<Rightarrow> \<not> (\<exists>es. route_along g start_id es end_id \<and> length es \<le> max_depth)
     | Some es \<Rightarrow> route_along g start_id es end_id \<and> length es \<le> max_depth \<and>
         (\<forall>es'. route_along g start_id es' end_id \<longrightarrow> length es \<le> length es'))"
  using assms by (intro find_path_run reachable_ok)

theorem find_path_shortest_witness:
  "(\<exists>r. find_path 4 triangle_graph 1 3 5 = Some r \<and>
    (case r of
       None \<Rightarrow> \<not> (\<exists>es. route_along triangle_graph 1 es 3 \<and> length es \<le> 5)
     | Some es \<Rightarrow> route_along triangle_graph 1 es 3 \<and> length es \<le> 5 \<and>
         (\<forall>es'. route_along triangle_graph 1 es' 3 \<longrightarrow> length es \<le> length es'))) \<and>
   map_option (map_option (map ge_id)) (find_path 4 triangle_graph 1 3 5) = Some (Some [1, 2])"
proof
  have nodes: "card (dom (g_nodes triangle_graph)) = 3" by (simp add: triangle_graph_eq)
  show "\<exists>r. find_path 4 triangle_graph 1 3 5 = Some r \<and>
    (case r of
       None \<Rightarrow> \<not> (\<exists>es. route_along triangle_graph 1 es 3 \<and> length es \<le> 5)
     | Some es \<Rightarrow> route_along triangle_graph 1 es 3 \<and> length es \<le> 5 \<and>
         (\<forall>es'. route_along triangle_graph 1 es' 3 \<longrightarrow> length es \<le> length es'))"
    by (rule find_path_shortest [OF triangle_reachable]) (simp add: nodes)
  show "map_option (map_option (map ge_id)) (find_path 4 triangle_graph 1 3 5) = Some (Some [1, 2])"
    by (simp add: find_path_def triangle_graph_eq edge_of_def eval_nat_numeral adjacent_def Let_def)
qed

end
