(* ===== verification/Sql_Token.thy ===== *)
theory Sql_Token
  imports State_Result
begin

text \<open>
  The tokens of \<^verbatim>\<open>src/src/sql/lexer.rs\<close>. The enum has 124 variants; its keywords are declared in
  four groups of 25, in the source's order, and its symbols in a group of their own, and
  \<open>TCreate\<close> to \<open>TArrow\<close> name the variants. The table of keywords is the lexer's \<^verbatim>\<open>match\<close>, the
  texts are those of \<^verbatim>\<open>tokens_to_sql\<close> in \<^verbatim>\<open>src/src/sql/parser.rs\<close>. A text of the SQL layer is a
  list of characters whose codes are below 256; floating-point numbers are bit patterns.
\<close>

section \<open>Tokens\<close>

datatype keyword1 =
    KCreate | KTable | KIf | KNot | KExists | KPrimary | KKey | KInteger | KReal | KText | KBlob | KVector
    | KInsert | KInto | KValues | KSelect | KFrom | KWhere | KLimit | KOffset | KNear | KTop | KGraph | KNode
    | KEdge

datatype keyword2 =
    KMatch | KNull | KUpdate | KSet | KDelete | KDrop | KAlter | KAdd | KColumn | KView | KBegin | KCommit
    | KRollback | KTransaction | KSavepoint | KRelease | KRename | KTo | KIndex | KOn | KJoin | KInner | KLeft
    | KRight | KFull

datatype keyword3 =
    KOuter | KDistinct | KOrder | KBy | KAsc | KDesc | KCount | KSum | KAvg | KMin | KMax | KExplain | KPlan
    | KVacuum | KLike | KAnd | KOr | KGroup | KHaving | KIn | KIs | KBetween | KAs | KOf | KTimestamp

datatype keyword4 =
    KWith | KReturn | KReturning | KReplace | KConflict | KDo | KNothing | KIgnore | KAnalyze | KPragma | KOver
    | KPartition | KRowNumber | KRank | KDenseRank | KNtile | KLag | KLead | KRows | KUnbounded | KPreceding
    | KFollowing | KCurrent | KRow | KAlgorithm

datatype symbol =
    SOpenParen | SCloseParen | SOpenBracket | SCloseBracket | SComma | SSemicolon | SEquals | SNotEquals
    | SGreaterThan | SLessThan | SGreaterOrEqual | SLessOrEqual | SQuestionMark | SAsterisk | SDot | SColon
    | SDash | SArrow

datatype token =
    Word1 keyword1 | Word2 keyword2 | Word3 keyword3 | Word4 keyword4
  | Sym symbol
  | Ident string
  | StringLit string
  | IntLit u64
  | FloatLit u64
  | BlobLit bytes
  | VectorLit "u32 list"

abbreviation "TCreate \<equiv> Word1 KCreate"
abbreviation "TTable \<equiv> Word1 KTable"
abbreviation "TIf \<equiv> Word1 KIf"
abbreviation "TNot \<equiv> Word1 KNot"
abbreviation "TExists \<equiv> Word1 KExists"
abbreviation "TPrimary \<equiv> Word1 KPrimary"
abbreviation "TKey \<equiv> Word1 KKey"
abbreviation "TInteger \<equiv> Word1 KInteger"
abbreviation "TReal \<equiv> Word1 KReal"
abbreviation "TText \<equiv> Word1 KText"
abbreviation "TBlob \<equiv> Word1 KBlob"
abbreviation "TVector \<equiv> Word1 KVector"
abbreviation "TInsert \<equiv> Word1 KInsert"
abbreviation "TInto \<equiv> Word1 KInto"
abbreviation "TValues \<equiv> Word1 KValues"
abbreviation "TSelect \<equiv> Word1 KSelect"
abbreviation "TFrom \<equiv> Word1 KFrom"
abbreviation "TWhere \<equiv> Word1 KWhere"
abbreviation "TLimit \<equiv> Word1 KLimit"
abbreviation "TOffset \<equiv> Word1 KOffset"
abbreviation "TNear \<equiv> Word1 KNear"
abbreviation "TTop \<equiv> Word1 KTop"
abbreviation "TGraph \<equiv> Word1 KGraph"
abbreviation "TNode \<equiv> Word1 KNode"
abbreviation "TEdge \<equiv> Word1 KEdge"
abbreviation "TMatch \<equiv> Word2 KMatch"
abbreviation "TNull \<equiv> Word2 KNull"
abbreviation "TUpdate \<equiv> Word2 KUpdate"
abbreviation "TSet \<equiv> Word2 KSet"
abbreviation "TDelete \<equiv> Word2 KDelete"
abbreviation "TDrop \<equiv> Word2 KDrop"
abbreviation "TAlter \<equiv> Word2 KAlter"
abbreviation "TAdd \<equiv> Word2 KAdd"
abbreviation "TColumn \<equiv> Word2 KColumn"
abbreviation "TView \<equiv> Word2 KView"
abbreviation "TBegin \<equiv> Word2 KBegin"
abbreviation "TCommit \<equiv> Word2 KCommit"
abbreviation "TRollback \<equiv> Word2 KRollback"
abbreviation "TTransaction \<equiv> Word2 KTransaction"
abbreviation "TSavepoint \<equiv> Word2 KSavepoint"
abbreviation "TRelease \<equiv> Word2 KRelease"
abbreviation "TRename \<equiv> Word2 KRename"
abbreviation "TTo \<equiv> Word2 KTo"
abbreviation "TIndex \<equiv> Word2 KIndex"
abbreviation "TOn \<equiv> Word2 KOn"
abbreviation "TJoin \<equiv> Word2 KJoin"
abbreviation "TInner \<equiv> Word2 KInner"
abbreviation "TLeft \<equiv> Word2 KLeft"
abbreviation "TRight \<equiv> Word2 KRight"
abbreviation "TFull \<equiv> Word2 KFull"
abbreviation "TOuter \<equiv> Word3 KOuter"
abbreviation "TDistinct \<equiv> Word3 KDistinct"
abbreviation "TOrder \<equiv> Word3 KOrder"
abbreviation "TBy \<equiv> Word3 KBy"
abbreviation "TAsc \<equiv> Word3 KAsc"
abbreviation "TDesc \<equiv> Word3 KDesc"
abbreviation "TCount \<equiv> Word3 KCount"
abbreviation "TSum \<equiv> Word3 KSum"
abbreviation "TAvg \<equiv> Word3 KAvg"
abbreviation "TMin \<equiv> Word3 KMin"
abbreviation "TMax \<equiv> Word3 KMax"
abbreviation "TExplain \<equiv> Word3 KExplain"
abbreviation "TPlan \<equiv> Word3 KPlan"
abbreviation "TVacuum \<equiv> Word3 KVacuum"
abbreviation "TLike \<equiv> Word3 KLike"
abbreviation "TAnd \<equiv> Word3 KAnd"
abbreviation "TOr \<equiv> Word3 KOr"
abbreviation "TGroup \<equiv> Word3 KGroup"
abbreviation "THaving \<equiv> Word3 KHaving"
abbreviation "TIn \<equiv> Word3 KIn"
abbreviation "TIs \<equiv> Word3 KIs"
abbreviation "TBetween \<equiv> Word3 KBetween"
abbreviation "TAs \<equiv> Word3 KAs"
abbreviation "TOf \<equiv> Word3 KOf"
abbreviation "TTimestamp \<equiv> Word3 KTimestamp"
abbreviation "TWith \<equiv> Word4 KWith"
abbreviation "TReturn \<equiv> Word4 KReturn"
abbreviation "TReturning \<equiv> Word4 KReturning"
abbreviation "TReplace \<equiv> Word4 KReplace"
abbreviation "TConflict \<equiv> Word4 KConflict"
abbreviation "TDo \<equiv> Word4 KDo"
abbreviation "TNothing \<equiv> Word4 KNothing"
abbreviation "TIgnore \<equiv> Word4 KIgnore"
abbreviation "TAnalyze \<equiv> Word4 KAnalyze"
abbreviation "TPragma \<equiv> Word4 KPragma"
abbreviation "TOver \<equiv> Word4 KOver"
abbreviation "TPartition \<equiv> Word4 KPartition"
abbreviation "TRowNumber \<equiv> Word4 KRowNumber"
abbreviation "TRank \<equiv> Word4 KRank"
abbreviation "TDenseRank \<equiv> Word4 KDenseRank"
abbreviation "TNtile \<equiv> Word4 KNtile"
abbreviation "TLag \<equiv> Word4 KLag"
abbreviation "TLead \<equiv> Word4 KLead"
abbreviation "TRows \<equiv> Word4 KRows"
abbreviation "TUnbounded \<equiv> Word4 KUnbounded"
abbreviation "TPreceding \<equiv> Word4 KPreceding"
abbreviation "TFollowing \<equiv> Word4 KFollowing"
abbreviation "TCurrent \<equiv> Word4 KCurrent"
abbreviation "TRow \<equiv> Word4 KRow"
abbreviation "TAlgorithm \<equiv> Word4 KAlgorithm"
abbreviation "TOpenParen \<equiv> Sym SOpenParen"
abbreviation "TCloseParen \<equiv> Sym SCloseParen"
abbreviation "TOpenBracket \<equiv> Sym SOpenBracket"
abbreviation "TCloseBracket \<equiv> Sym SCloseBracket"
abbreviation "TComma \<equiv> Sym SComma"
abbreviation "TSemicolon \<equiv> Sym SSemicolon"
abbreviation "TEquals \<equiv> Sym SEquals"
abbreviation "TNotEquals \<equiv> Sym SNotEquals"
abbreviation "TGreaterThan \<equiv> Sym SGreaterThan"
abbreviation "TLessThan \<equiv> Sym SLessThan"
abbreviation "TGreaterOrEqual \<equiv> Sym SGreaterOrEqual"
abbreviation "TLessOrEqual \<equiv> Sym SLessOrEqual"
abbreviation "TQuestionMark \<equiv> Sym SQuestionMark"
abbreviation "TAsterisk \<equiv> Sym SAsterisk"
abbreviation "TDot \<equiv> Sym SDot"
abbreviation "TColon \<equiv> Sym SColon"
abbreviation "TDash \<equiv> Sym SDash"
abbreviation "TArrow \<equiv> Sym SArrow"

section \<open>Words\<close>

text \<open>The keywords of the lexer, in its order.\<close>

definition keyword_table :: "(string \<times> token) list" where
  "keyword_table =
    [(''CREATE'', TCreate), (''TABLE'', TTable), (''IF'', TIf), (''NOT'', TNot), (''EXISTS'', TExists)
     , (''PRIMARY'', TPrimary), (''KEY'', TKey), (''INTEGER'', TInteger), (''INT'', TInteger), (''REAL'', TReal)
     , (''FLOAT'', TReal), (''DOUBLE'', TReal), (''TEXT'', TText), (''VARCHAR'', TText), (''STRING'', TText)
     , (''BLOB'', TBlob), (''VECTOR'', TVector), (''INSERT'', TInsert), (''INTO'', TInto), (''VALUES'', TValues)
     , (''SELECT'', TSelect), (''FROM'', TFrom), (''WHERE'', TWhere), (''LIMIT'', TLimit), (''OFFSET'', TOffset)
     , (''NEAR'', TNear), (''TOP'', TTop), (''GRAPH'', TGraph), (''NODE'', TNode), (''EDGE'', TEdge)
     , (''MATCH'', TMatch), (''NULL'', TNull), (''UPDATE'', TUpdate), (''SET'', TSet), (''DELETE'', TDelete)
     , (''DROP'', TDrop), (''ALTER'', TAlter), (''ADD'', TAdd), (''COLUMN'', TColumn), (''VIEW'', TView)
     , (''BEGIN'', TBegin), (''COMMIT'', TCommit), (''ROLLBACK'', TRollback), (''TRANSACTION'', TTransaction)
     , (''INDEX'', TIndex), (''ON'', TOn), (''JOIN'', TJoin), (''INNER'', TInner), (''LEFT'', TLeft)
     , (''RIGHT'', TRight), (''FULL'', TFull), (''OUTER'', TOuter), (''DISTINCT'', TDistinct)
     , (''ORDER'', TOrder), (''BY'', TBy), (''ASC'', TAsc), (''DESC'', TDesc), (''COUNT'', TCount)
     , (''SUM'', TSum), (''AVG'', TAvg), (''MIN'', TMin), (''MAX'', TMax), (''EXPLAIN'', TExplain)
     , (''PLAN'', TPlan), (''VACUUM'', TVacuum), (''LIKE'', TLike), (''AND'', TAnd), (''OR'', TOr)
     , (''GROUP'', TGroup), (''HAVING'', THaving), (''IN'', TIn), (''IS'', TIs), (''BETWEEN'', TBetween)
     , (''AS'', TAs), (''OF'', TOf), (''TIMESTAMP'', TTimestamp), (''WITH'', TWith), (''RETURN'', TReturn)
     , (''RETURNING'', TReturning), (''REPLACE'', TReplace), (''CONFLICT'', TConflict), (''DO'', TDo)
     , (''NOTHING'', TNothing), (''IGNORE'', TIgnore), (''ANALYZE'', TAnalyze), (''PRAGMA'', TPragma)
     , (''SAVEPOINT'', TSavepoint), (''RELEASE'', TRelease), (''RENAME'', TRename), (''TO'', TTo)
     , (''OVER'', TOver), (''PARTITION'', TPartition), (''ROW_NUMBER'', TRowNumber), (''RANK'', TRank)
     , (''DENSE_RANK'', TDenseRank), (''NTILE'', TNtile), (''LAG'', TLag), (''LEAD'', TLead), (''ROWS'', TRows)
     , (''UNBOUNDED'', TUnbounded), (''PRECEDING'', TPreceding), (''FOLLOWING'', TFollowing)
     , (''CURRENT'', TCurrent), (''ROW'', TRow), (''ALGORITHM'', TAlgorithm)]"

primrec keyword1_text :: "keyword1 \<Rightarrow> string" where
  "keyword1_text KCreate = ''CREATE''"
| "keyword1_text KTable = ''TABLE''"
| "keyword1_text KIf = ''IF''"
| "keyword1_text KNot = ''NOT''"
| "keyword1_text KExists = ''EXISTS''"
| "keyword1_text KPrimary = ''PRIMARY''"
| "keyword1_text KKey = ''KEY''"
| "keyword1_text KInteger = ''INTEGER''"
| "keyword1_text KReal = ''REAL''"
| "keyword1_text KText = ''TEXT''"
| "keyword1_text KBlob = ''BLOB''"
| "keyword1_text KVector = ''VECTOR''"
| "keyword1_text KInsert = ''INSERT''"
| "keyword1_text KInto = ''INTO''"
| "keyword1_text KValues = ''VALUES''"
| "keyword1_text KSelect = ''SELECT''"
| "keyword1_text KFrom = ''FROM''"
| "keyword1_text KWhere = ''WHERE''"
| "keyword1_text KLimit = ''LIMIT''"
| "keyword1_text KOffset = ''OFFSET''"
| "keyword1_text KNear = ''NEAR''"
| "keyword1_text KTop = ''TOP''"
| "keyword1_text KGraph = ''GRAPH''"
| "keyword1_text KNode = ''NODE''"
| "keyword1_text KEdge = ''EDGE''"

primrec keyword2_text :: "keyword2 \<Rightarrow> string" where
  "keyword2_text KMatch = ''MATCH''"
| "keyword2_text KNull = ''NULL''"
| "keyword2_text KUpdate = ''UPDATE''"
| "keyword2_text KSet = ''SET''"
| "keyword2_text KDelete = ''DELETE''"
| "keyword2_text KDrop = ''DROP''"
| "keyword2_text KAlter = ''ALTER''"
| "keyword2_text KAdd = ''ADD''"
| "keyword2_text KColumn = ''COLUMN''"
| "keyword2_text KView = ''VIEW''"
| "keyword2_text KBegin = ''BEGIN''"
| "keyword2_text KCommit = ''COMMIT''"
| "keyword2_text KRollback = ''ROLLBACK''"
| "keyword2_text KTransaction = ''TRANSACTION''"
| "keyword2_text KSavepoint = ''SAVEPOINT''"
| "keyword2_text KRelease = ''RELEASE''"
| "keyword2_text KRename = ''RENAME''"
| "keyword2_text KTo = ''TO''"
| "keyword2_text KIndex = ''INDEX''"
| "keyword2_text KOn = ''ON''"
| "keyword2_text KJoin = ''JOIN''"
| "keyword2_text KInner = ''INNER''"
| "keyword2_text KLeft = ''LEFT''"
| "keyword2_text KRight = ''RIGHT''"
| "keyword2_text KFull = ''FULL''"

primrec keyword3_text :: "keyword3 \<Rightarrow> string" where
  "keyword3_text KOuter = ''OUTER''"
| "keyword3_text KDistinct = ''DISTINCT''"
| "keyword3_text KOrder = ''ORDER''"
| "keyword3_text KBy = ''BY''"
| "keyword3_text KAsc = ''ASC''"
| "keyword3_text KDesc = ''DESC''"
| "keyword3_text KCount = ''COUNT''"
| "keyword3_text KSum = ''SUM''"
| "keyword3_text KAvg = ''AVG''"
| "keyword3_text KMin = ''MIN''"
| "keyword3_text KMax = ''MAX''"
| "keyword3_text KExplain = ''EXPLAIN''"
| "keyword3_text KPlan = ''PLAN''"
| "keyword3_text KVacuum = ''VACUUM''"
| "keyword3_text KLike = ''LIKE''"
| "keyword3_text KAnd = ''AND''"
| "keyword3_text KOr = ''OR''"
| "keyword3_text KGroup = ''GROUP''"
| "keyword3_text KHaving = ''HAVING''"
| "keyword3_text KIn = ''IN''"
| "keyword3_text KIs = ''IS''"
| "keyword3_text KBetween = ''BETWEEN''"
| "keyword3_text KAs = ''AS''"
| "keyword3_text KOf = ''OF''"
| "keyword3_text KTimestamp = ''TIMESTAMP''"

primrec keyword4_text :: "keyword4 \<Rightarrow> string" where
  "keyword4_text KWith = ''WITH''"
| "keyword4_text KReturn = ''RETURN''"
| "keyword4_text KReturning = ''RETURNING''"
| "keyword4_text KReplace = ''REPLACE''"
| "keyword4_text KConflict = ''CONFLICT''"
| "keyword4_text KDo = ''DO''"
| "keyword4_text KNothing = ''NOTHING''"
| "keyword4_text KIgnore = ''IGNORE''"
| "keyword4_text KAnalyze = ''ANALYZE''"
| "keyword4_text KPragma = ''PRAGMA''"
| "keyword4_text KOver = ''OVER''"
| "keyword4_text KPartition = ''PARTITION''"
| "keyword4_text KRowNumber = ''ROW_NUMBER''"
| "keyword4_text KRank = ''RANK''"
| "keyword4_text KDenseRank = ''DENSE_RANK''"
| "keyword4_text KNtile = ''NTILE''"
| "keyword4_text KLag = ''LAG''"
| "keyword4_text KLead = ''LEAD''"
| "keyword4_text KRows = ''ROWS''"
| "keyword4_text KUnbounded = ''UNBOUNDED''"
| "keyword4_text KPreceding = ''PRECEDING''"
| "keyword4_text KFollowing = ''FOLLOWING''"
| "keyword4_text KCurrent = ''CURRENT''"
| "keyword4_text KRow = ''ROW''"
| "keyword4_text KAlgorithm = ''ALGORITHM''"

primrec symbol_text :: "symbol \<Rightarrow> string" where
  "symbol_text SOpenParen = ''(''"
| "symbol_text SCloseParen = '')''"
| "symbol_text SOpenBracket = ''[''"
| "symbol_text SCloseBracket = '']''"
| "symbol_text SComma = '',''"
| "symbol_text SSemicolon = '';''"
| "symbol_text SEquals = ''=''"
| "symbol_text SNotEquals = ''!=''"
| "symbol_text SGreaterThan = ''>''"
| "symbol_text SLessThan = ''<''"
| "symbol_text SGreaterOrEqual = ''>=''"
| "symbol_text SLessOrEqual = ''<=''"
| "symbol_text SQuestionMark = ''?''"
| "symbol_text SAsterisk = ''*''"
| "symbol_text SDot = ''.''"
| "symbol_text SColon = '':''"
| "symbol_text SDash = ''-''"
| "symbol_text SArrow = ''->''"

text \<open>The keywords that may stand for a name, with the name (\<^verbatim>\<open>parse_identifier_or_keyword\<close>).\<close>

definition name_words :: "(token \<times> string) list" where
  "name_words =
    [(TVector, ''vector''), (TTimestamp, ''timestamp''), (TText, ''text''), (TInteger, ''integer'')
     , (TReal, ''real''), (TBlob, ''blob''), (TKey, ''key''), (TPlan, ''plan''), (TCount, ''count'')
     , (TSum, ''sum''), (TAvg, ''avg''), (TMin, ''min''), (TMax, ''max''), (TOrder, ''order'')
     , (TMatch, ''match''), (TLike, ''like''), (TVacuum, ''vacuum''), (TAnalyze, ''analyze'')
     , (TColumn, ''column''), (TView, ''view''), (TNode, ''node''), (TEdge, ''edge''), (TGraph, ''graph'')
     , (TRank, ''rank''), (TDenseRank, ''dense_rank''), (TRowNumber, ''row_number''), (TNtile, ''ntile'')
     , (TLag, ''lag''), (TLead, ''lead''), (TRows, ''rows''), (TOver, ''over''), (TPartition, ''partition'')
     , (TAlgorithm, ''algorithm''), (TCurrent, ''current''), (TRow, ''row''), (TPreceding, ''preceding'')
     , (TFollowing, ''following''), (TUnbounded, ''unbounded'')]"

end
