(* ===== verification/Sql_Lexer.thy ===== *)
theory Sql_Lexer
  imports Sql_Token
begin

text \<open>
  The tokenizer of \<^verbatim>\<open>src/src/sql/lexer.rs\<close>. The source walks an index over the characters; here the
  rest of the input is walked. What is computed on floating-point numbers is an argument.
\<close>

section \<open>Characters\<close>

text \<open>The predicates of \<^verbatim>\<open>char\<close> on codes below 256.\<close>

definition code_of :: "char \<Rightarrow> nat" where "code_of c = of_char c"

definition is_ascii_digit :: "char \<Rightarrow> bool" where
  "is_ascii_digit c \<longleftrightarrow> 48 \<le> code_of c \<and> code_of c \<le> 57"

definition is_whitespace :: "char \<Rightarrow> bool" where
  "is_whitespace c \<longleftrightarrow> (9 \<le> code_of c \<and> code_of c \<le> 13) \<or> code_of c = 32 \<or> code_of c = 133 \<or> code_of c = 160"

definition is_alphabetic :: "char \<Rightarrow> bool" where
  "is_alphabetic c \<longleftrightarrow> (65 \<le> code_of c \<and> code_of c \<le> 90) \<or> (97 \<le> code_of c \<and> code_of c \<le> 122) \<or>
     code_of c \<in> {170, 181, 186} \<or> (192 \<le> code_of c \<and> code_of c \<noteq> 215 \<and> code_of c \<noteq> 247)"

definition is_numeric :: "char \<Rightarrow> bool" where
  "is_numeric c \<longleftrightarrow> is_ascii_digit c \<or> code_of c \<in> {178, 179, 185, 188, 189, 190}"

definition is_alphanumeric :: "char \<Rightarrow> bool" where
  "is_alphanumeric c \<longleftrightarrow> is_alphabetic c \<or> is_numeric c"

text \<open>The upper-case letters of the micro sign and of \<open>y\<close> with diaeresis have codes above 255 and
  occur in no keyword; these two characters stand for them.\<close>

definition to_upper :: "char \<Rightarrow> string" where
  "to_upper c = (let n = code_of c in
     if 97 \<le> n \<and> n \<le> 122 \<or> 224 \<le> n \<and> n \<le> 254 \<and> n \<noteq> 247 then [char_of (n - 32)]
     else if n = 223 then ''SS'' else [c])"

definition to_uppercase :: "string \<Rightarrow> string" where "to_uppercase s = concat (map to_upper s)"

definition to_lower :: "char \<Rightarrow> char" where
  "to_lower c = (let n = code_of c in
     if 65 \<le> n \<and> n \<le> 90 \<or> 192 \<le> n \<and> n \<le> 222 \<and> n \<noteq> 215 then char_of (n + 32) else c)"

definition to_lowercase :: "string \<Rightarrow> string" where "to_lowercase s = map to_lower s"

section \<open>Numbers\<close>

text \<open>Parsing and printing of 64-bit signed integers.\<close>

definition digit_char :: "nat \<Rightarrow> char" where "digit_char d = char_of (48 + d)"

fun show_nat :: "nat \<Rightarrow> string" where
  "show_nat n = (if n < 10 then [digit_char n] else show_nat (n div 10) @ [digit_char (n mod 10)])"

declare show_nat.simps [simp del]

definition show_i64 :: "u64 \<Rightarrow> string" where
  "show_i64 w = (if sint w < 0 then CHR ''-'' # show_nat (nat (- sint w)) else show_nat (nat (sint w)))"

definition read_digits :: "string \<Rightarrow> nat" where
  "read_digits s = foldl (\<lambda>n c. 10 * n + (code_of c - 48)) 0 s"

definition parse_i64 :: "string \<Rightarrow> u64 option" where
  "parse_i64 s =
     (let neg = (s \<noteq> [] \<and> hd s = CHR ''-''); ds = (if neg then tl s else s) in
      if ds = [] \<or> \<not> list_all is_ascii_digit ds then None
      else if neg then (if read_digits ds \<le> 2 ^ 63 then Some (- of_nat (read_digits ds)) else None)
      else (if read_digits ds < 2 ^ 63 then Some (of_nat (read_digits ds)) else None))"

text \<open>What the SQL layer uses of floating-point arithmetic and of derived \<^verbatim>\<open>Debug\<close> output.\<close>

record float_env =
  parse_f64 :: "string \<Rightarrow> u64 option"
  show_f64 :: "u64 \<Rightarrow> string"
  parse_f32 :: "string \<Rightarrow> u32 option"
  f64_of_i64 :: "u64 \<Rightarrow> u64"
  f32_of_i64 :: "u64 \<Rightarrow> u32"
  f32_of_f64 :: "u64 \<Rightarrow> u32"
  debug_vector :: "u32 list \<Rightarrow> string"
  debug_token :: "token \<Rightarrow> string"

text \<open>An environment for texts without floating point numbers, for concrete inputs.\<close>

definition no_floats :: float_env where
  "no_floats = \<lparr>parse_f64 = \<lambda>_. None, show_f64 = \<lambda>_. [], parse_f32 = \<lambda>_. None, f64_of_i64 = \<lambda>_. 0, f32_of_i64 = \<lambda>_. 0,
    f32_of_f64 = \<lambda>_. 0, debug_vector = \<lambda>_. [], debug_token = \<lambda>_. []\<rparr>"

section \<open>Scanning\<close>

definition BACKSLASH :: char where "BACKSLASH = CHR 0x5C"
definition QUOTE :: char where "QUOTE = CHR 0x27"
definition DOUBLE_QUOTE :: char where "DOUBLE_QUOTE = CHR 0x22"

fun skip_line :: "string \<Rightarrow> string" where
  "skip_line [] = []"
| "skip_line (c # cs) = (if c = CHR 0x0A then c # cs else skip_line cs)"

fun skip_block :: "string \<Rightarrow> string" where
  "skip_block (c # d # cs) = (if c = CHR ''*'' \<and> d = CHR ''/'' then cs else skip_block (d # cs))"
| "skip_block _ = []"

definition escaped :: "char \<Rightarrow> char \<Rightarrow> string" where
  "escaped quote c =
     (if c = CHR ''n'' then [CHR 0x0A] else if c = CHR ''t'' then [CHR 0x09]
      else if c = CHR ''r'' then [CHR 0x0D] else if c = CHR ''0'' then [CHR 0x00]
      else if c = BACKSLASH then [BACKSLASH] else if c = quote then [quote] else [BACKSLASH, c])"

text \<open>The body of a string literal, up to and with its closing quote; \<open>None\<close> if there is none.\<close>

fun scan_string :: "char \<Rightarrow> string \<Rightarrow> string \<Rightarrow> (string \<times> string) option" where
  "scan_string quote [] s = None"
| "scan_string quote [c] s = (if c = quote then Some (s, []) else None)"
| "scan_string quote (c # d # cs) s =
     (if c = quote then (if d = quote then scan_string quote cs (s @ [quote]) else Some (s, d # cs))
      else if c = BACKSLASH then scan_string quote cs (s @ escaped quote d)
      else scan_string quote (d # cs) (s @ [c]))"

definition number_char :: "char \<Rightarrow> bool" where "number_char c \<longleftrightarrow> is_ascii_digit c \<or> c = CHR ''.''"

definition number_token :: "float_env \<Rightarrow> string \<Rightarrow> token result" where
  "number_token env num_str =
     (if CHR ''.'' \<in> set num_str
      then (case parse_f64 env num_str of None \<Rightarrow> Inl (SqlSyntax ''Invalid float literal: {num_str}'')
            | Some f \<Rightarrow> Inr (FloatLit f))
      else (case parse_i64 num_str of None \<Rightarrow> Inl (SqlSyntax ''Invalid integer literal: {num_str}'')
            | Some v \<Rightarrow> Inr (IntLit v)))"

definition word_char :: "char \<Rightarrow> bool" where "word_char c \<longleftrightarrow> is_alphanumeric c \<or> c = CHR ''_''"

definition word_token :: "string \<Rightarrow> token" where
  "word_token w = (case map_of keyword_table (to_uppercase w) of Some t \<Rightarrow> t | None \<Rightarrow> Ident w)"

text \<open>The single-character symbols.\<close>

definition single_symbols :: "(char \<times> token) list" where
  "single_symbols =
    [(CHR ''('', TOpenParen), (CHR '')'', TCloseParen), (CHR ''['', TOpenBracket), (CHR '']'', TCloseBracket),
     (CHR '','', TComma), (CHR '';'', TSemicolon), (CHR ''='', TEquals), (CHR ''?'', TQuestionMark),
     (CHR ''*'', TAsterisk), (CHR ''.'', TDot), (CHR '':'', TColon)]"

definition next_is :: "(char \<Rightarrow> bool) \<Rightarrow> string \<Rightarrow> bool" where
  "next_is p cs \<longleftrightarrow> (case cs of [] \<Rightarrow> False | c # _ \<Rightarrow> p c)"

section \<open>The tokenizer\<close>

text \<open>One round of the loop at \<open>ch\<close>, with \<open>cs\<close> behind it: the token found, if any, and the rest.\<close>

definition lex_step :: "float_env \<Rightarrow> char \<Rightarrow> string \<Rightarrow> (token option \<times> string) result" where
  "lex_step env ch cs =
     (if is_whitespace ch then Inr (None, cs)
      else if ch = CHR ''-'' \<and> next_is (\<lambda>c. c = CHR ''-'') cs then Inr (None, skip_line (tl cs))
      else if ch = CHR ''-'' \<and> next_is (\<lambda>c. c = CHR ''>'') cs then Inr (Some TArrow, tl cs)
      else if ch = CHR ''-'' \<and> \<not> next_is is_ascii_digit cs then Inr (Some TDash, cs)
      else if ch = CHR ''/'' \<and> next_is (\<lambda>c. c = CHR ''*'') cs then Inr (None, skip_block (tl cs))
      else if ch = CHR ''!'' \<and> next_is (\<lambda>c. c = CHR ''='') cs then Inr (Some TNotEquals, tl cs)
      else if ch = CHR ''<'' then
        (if next_is (\<lambda>c. c = CHR ''>'') cs then Inr (Some TNotEquals, tl cs)
         else if next_is (\<lambda>c. c = CHR ''='') cs then Inr (Some TLessOrEqual, tl cs)
         else Inr (Some TLessThan, cs))
      else if ch = CHR ''>'' then
        (if next_is (\<lambda>c. c = CHR ''='') cs then Inr (Some TGreaterOrEqual, tl cs) else Inr (Some TGreaterThan, cs))
      else case map_of single_symbols ch of
        Some t \<Rightarrow> Inr (Some t, cs)
      | None \<Rightarrow>
          if ch = QUOTE \<or> ch = DOUBLE_QUOTE then
            (case scan_string ch cs [] of
               None \<Rightarrow> Inl (SqlSyntax ''Unterminated string literal'')
             | Some (s, rest) \<Rightarrow> Inr (Some (StringLit s), rest))
          else if is_ascii_digit ch \<or> ch = CHR ''-'' \<and> next_is is_ascii_digit cs then
            bind_r (number_token env (ch # takeWhile number_char cs)) (\<lambda>t. Inr (Some t, dropWhile number_char cs))
          else if is_alphabetic ch \<or> ch = CHR ''_'' then
            Inr (Some (word_token (ch # takeWhile word_char cs)), dropWhile word_char cs)
          else Inl (SqlSyntax ''Unexpected character in SQL input: '{ch}''))"

lemma skip_line_length: "length (skip_line cs) \<le> length cs"
  by (induction cs rule: skip_line.induct) auto

lemma skip_block_length: "length (skip_block cs) \<le> length cs"
  by (induction cs rule: skip_block.induct) auto

lemma scan_string_length: "scan_string q cs s = Some (r, rest) \<Longrightarrow> length rest \<le> length cs"
  by (induction q cs s rule: scan_string.induct) (auto split: if_splits)

lemma lex_step_length:
  assumes "lex_step env ch cs = Inr (t, rest)"
  shows "length rest \<le> length cs"
proof -
  have tail: "length (skip_line (tl cs)) \<le> length cs" "length (skip_block (tl cs)) \<le> length cs"
    using skip_line_length [of "tl cs"] skip_block_length [of "tl cs"] by simp_all
  show ?thesis
    using assms tail length_dropWhile_le [of number_char cs] length_dropWhile_le [of word_char cs]
    unfolding lex_step_def
    by (auto split: if_splits option.splits simp: bind_r_eq_Inr dest: scan_string_length)
qed

function (sequential) tokenize_loop :: "float_env \<Rightarrow> string \<Rightarrow> token list \<Rightarrow> token list result" where
  "tokenize_loop env [] tokens = Inr tokens"
| "tokenize_loop env (ch # cs) tokens =
     (case lex_step env ch cs of
        Inl e \<Rightarrow> Inl e
      | Inr (None, rest) \<Rightarrow> tokenize_loop env rest tokens
      | Inr (Some t, rest) \<Rightarrow> tokenize_loop env rest (tokens @ [t]))"
  by pat_completeness auto

termination
  by (relation "measure (\<lambda>(env, cs, tokens). length cs)") (auto dest!: lex_step_length)

definition tokenize :: "float_env \<Rightarrow> string \<Rightarrow> token list result" where
  "tokenize env input = tokenize_loop env input []"

end
