(* ===== verification/Sql_Print.thy ===== *)
theory Sql_Print
  imports Sql_Lexer
begin

text \<open>
  Values of the SQL layer, binding of parameters and the way back from tokens to SQL text
  (\<^verbatim>\<open>bind_parameters\<close> and \<^verbatim>\<open>tokens_to_sql\<close> of \<^verbatim>\<open>src/src/sql/parser.rs\<close>).
\<close>

section \<open>Values\<close>

text \<open>The values of \<^verbatim>\<open>src/src/traits.rs\<close>, with texts as characters.\<close>

datatype sql_value =
    NullV | IntegerV u64 | RealV u64 | TextV string | BlobV bytes | VectorV "u32 list"

section \<open>Binding\<close>

definition value_token :: "sql_value \<Rightarrow> token" where
  "value_token v =
     (case v of NullV \<Rightarrow> TNull | IntegerV i \<Rightarrow> IntLit i | RealV f \<Rightarrow> FloatLit f | TextV s \<Rightarrow> StringLit s
      | BlobV b \<Rightarrow> BlobLit b | VectorV xs \<Rightarrow> VectorLit xs)"

text \<open>The loop over the tokens; \<open>param_idx\<close> parameters have been used.\<close>

fun bind_tokens :: "token list \<Rightarrow> sql_value list \<Rightarrow> nat \<Rightarrow> token list \<Rightarrow> (token list \<times> nat) result" where
  "bind_tokens [] params param_idx bound = Inr (bound, param_idx)"
| "bind_tokens (t # ts) params param_idx bound =
     (if t = TQuestionMark then
        if param_idx \<ge> length params
        then Inl (SqlSyntax ''Parameter index out of bounds: expected at least {} parameters, provided {}'')
        else bind_tokens ts params (param_idx + 1) (bound @ [value_token (params ! param_idx)])
      else bind_tokens ts params param_idx (bound @ [t]))"

definition bind_parameters :: "token list \<Rightarrow> sql_value list \<Rightarrow> token list result" where
  "bind_parameters tokens params =
     bind_r (bind_tokens tokens params 0 []) (\<lambda>(bound, param_idx).
       if param_idx < length params
       then Inl (SqlSyntax ''Too many parameters supplied: expected {} parameters, provided {}'')
       else Inr bound)"

section \<open>Printing\<close>

text \<open>\<^verbatim>\<open>format!("{:02X?}", b)\<close>.\<close>

definition hex_digit :: "nat \<Rightarrow> char" where
  "hex_digit d = (if d < 10 then char_of (48 + d) else char_of (55 + d))"

definition hex_byte :: "u8 \<Rightarrow> string" where
  "hex_byte b = [hex_digit (unat b div 16), hex_digit (unat b mod 16)]"

fun join_texts :: "string \<Rightarrow> string list \<Rightarrow> string" where
  "join_texts sep [] = []"
| "join_texts sep [s] = s"
| "join_texts sep (s # t # ss) = s @ sep @ join_texts sep (t # ss)"

definition debug_bytes :: "bytes \<Rightarrow> string" where
  "debug_bytes b = ''['' @ join_texts '', '' (map hex_byte b) @ '']''"

text \<open>\<^verbatim>\<open>replace("'", "''")\<close>.\<close>

definition double_quotes :: "string \<Rightarrow> string" where
  "double_quotes s = concat (map (\<lambda>c. if c = QUOTE then [QUOTE, QUOTE] else [c]) s)"

definition token_text :: "float_env \<Rightarrow> token \<Rightarrow> string" where
  "token_text env t =
     (case t of
        Word1 k \<Rightarrow> keyword1_text k | Word2 k \<Rightarrow> keyword2_text k | Word3 k \<Rightarrow> keyword3_text k | Word4 k \<Rightarrow> keyword4_text k
      | Sym s \<Rightarrow> symbol_text s
      | Ident w \<Rightarrow> w
      | StringLit l \<Rightarrow> [QUOTE] @ double_quotes l @ [QUOTE]
      | IntLit i \<Rightarrow> show_i64 i
      | FloatLit f \<Rightarrow> show_f64 env f
      | BlobLit b \<Rightarrow> ''X'' @ [QUOTE] @ debug_bytes b @ [QUOTE]
      | VectorLit xs \<Rightarrow> debug_vector env xs)"

definition no_space_before :: "token \<Rightarrow> bool" where
  "no_space_before t \<longleftrightarrow> t \<in> {TComma, TSemicolon, TCloseParen, TCloseBracket, TDot}"

definition no_space_after :: "token \<Rightarrow> bool" where
  "no_space_after t \<longleftrightarrow> t \<in> {TOpenParen, TOpenBracket, TDot}"

text \<open>The loop, with the token before.\<close>

fun print_after :: "float_env \<Rightarrow> token \<Rightarrow> token list \<Rightarrow> string" where
  "print_after env prev [] = []"
| "print_after env prev (t # ts) =
     (if no_space_before t \<or> no_space_after prev then [] else '' '') @ token_text env t @ print_after env t ts"

definition tokens_to_sql :: "float_env \<Rightarrow> token list \<Rightarrow> string" where
  "tokens_to_sql env ts = (case ts of [] \<Rightarrow> [] | t # ts' \<Rightarrow> token_text env t @ print_after env t ts')"

end
