(* ===== verification/Sql_Lexer_Props.thy ===== *)
theory Sql_Lexer_Props
  imports Sql_Print
begin

text \<open>
  Printing tokens and reading them again. \<open>plain_token\<close> says which tokens survive: keywords, symbols,
  identifiers that are no keywords, integers, and texts without a backslash.
\<close>

section \<open>Numbers\<close>

lemma show_nat_simps: "show_nat n = (if n < 10 then [digit_char n] else show_nat (n div 10) @ [digit_char (n mod 10)])"
  by (rule show_nat.simps)

lemma code_digit_char: "d < 10 \<Longrightarrow> code_of (digit_char d) = 48 + d"
  by (simp add: code_of_def digit_char_def)

lemma digit_char_digit: "d < 10 \<Longrightarrow> is_ascii_digit (digit_char d)"
  by (simp add: is_ascii_digit_def code_digit_char)

lemma show_nat_digits: "list_all is_ascii_digit (show_nat n) \<and> show_nat n \<noteq> []"
proof (induction n rule: show_nat.induct)
  case (1 n)
  then show ?case
    by (subst (1 2) show_nat_simps) (simp add: digit_char_digit)
qed

lemma read_digits_snoc: "read_digits (s @ [c]) = 10 * read_digits s + (code_of c - 48)"
  by (simp add: read_digits_def)

lemma read_show_nat: "read_digits (show_nat n) = n"
proof (induction n rule: show_nat.induct)
  case (1 n)
  show ?case
  proof (cases "n < 10")
    case True
    then show ?thesis using code_digit_char [OF True] by (subst show_nat_simps) (simp add: read_digits_def)
  next
    case False
    then show ?thesis
      using 1 code_digit_char [of "n mod 10"] by (subst show_nat_simps) (simp add: read_digits_snoc)
  qed
qed

lemma minus_not_digit: "\<not> is_ascii_digit (CHR ''-'')"
  by (simp add: is_ascii_digit_def code_of_def)

lemma show_i64_chars:
  obtains (neg) n where "show_i64 w = CHR ''-'' # show_nat n" | (pos) n where "show_i64 w = show_nat n"
  unfolding show_i64_def by (cases "sint w < 0") auto

lemma parse_show_i64: "parse_i64 (show_i64 w) = Some w"
proof (cases "sint w < 0")
  case True
  let ?n = "nat (- sint w)"
  have "- (2 ^ 63) \<le> sint w" using sint_greater_eq [of w] by simp
  then have "?n \<le> 2 ^ 63" by simp
  moreover have "- of_nat ?n = w" using True by simp
  ultimately show ?thesis
    using True show_nat_digits [of ?n] by (simp add: show_i64_def parse_i64_def read_show_nat Let_def)
next
  case False
  let ?n = "nat (sint w)"
  have "sint w < 2 ^ 63" using sint_less [of w] by simp
  then have "?n < 2 ^ 63" using False by (simp add: nat_less_iff)
  moreover have "of_nat ?n = w" using False by simp
  moreover have "hd (show_nat ?n) \<noteq> CHR ''-''"
    using show_nat_digits [of ?n] minus_not_digit by (cases "show_nat ?n") auto
  ultimately show ?thesis
    using False show_nat_digits [of ?n] by (simp add: show_i64_def parse_i64_def read_show_nat Let_def)
qed

section \<open>Keywords\<close>

definition word_like :: "string \<Rightarrow> bool" where
  "word_like w \<longleftrightarrow> w \<noteq> [] \<and> (is_alphabetic (hd w) \<or> hd w = CHR ''_'') \<and> list_all word_char w"

lemmas char_defs = is_alphabetic_def is_alphanumeric_def is_numeric_def word_char_def is_ascii_digit_def code_of_def

lemma keyword_table_distinct: "distinct (map fst keyword_table)"
  by (simp add: keyword_table_def)

lemma word_tokenI: "(to_uppercase w, t) \<in> set keyword_table \<Longrightarrow> word_token w = t"
  by (simp add: word_token_def map_of_is_SomeI [OF keyword_table_distinct])

lemma upper_word_like: "list_all (\<lambda>c. 65 \<le> code_of c \<and> code_of c \<le> 90 \<or> c = CHR ''_'') w \<Longrightarrow> to_uppercase w = w"
  by (induction w) (auto simp: to_uppercase_def to_upper_def code_of_def)

lemma keyword1_word: "word_like (keyword1_text k) \<and> word_token (keyword1_text k) = Word1 k"
proof (intro conjI word_tokenI)
  show "word_like (keyword1_text k)" by (cases k) (simp_all add: word_like_def char_defs)
  have "to_uppercase (keyword1_text k) = keyword1_text k" by (rule upper_word_like) (cases k; simp add: code_of_def)
  then show "(to_uppercase (keyword1_text k), Word1 k) \<in> set keyword_table"
    by (cases k) (simp_all add: keyword_table_def)
qed

lemma keyword2_word: "word_like (keyword2_text k) \<and> word_token (keyword2_text k) = Word2 k"
proof (intro conjI word_tokenI)
  show "word_like (keyword2_text k)" by (cases k) (simp_all add: word_like_def char_defs)
  have "to_uppercase (keyword2_text k) = keyword2_text k" by (rule upper_word_like) (cases k; simp add: code_of_def)
  then show "(to_uppercase (keyword2_text k), Word2 k) \<in> set keyword_table"
    by (cases k) (simp_all add: keyword_table_def)
qed

lemma keyword3_word: "word_like (keyword3_text k) \<and> word_token (keyword3_text k) = Word3 k"
proof (intro conjI word_tokenI)
  show "word_like (keyword3_text k)" by (cases k) (simp_all add: word_like_def char_defs)
  have "to_uppercase (keyword3_text k) = keyword3_text k" by (rule upper_word_like) (cases k; simp add: code_of_def)
  then show "(to_uppercase (keyword3_text k), Word3 k) \<in> set keyword_table"
    by (cases k) (simp_all add: keyword_table_def)
qed

lemma keyword4_word: "word_like (keyword4_text k) \<and> word_token (keyword4_text k) = Word4 k"
proof (intro conjI word_tokenI)
  show "word_like (keyword4_text k)" by (cases k) (simp_all add: word_like_def char_defs)
  have "to_uppercase (keyword4_text k) = keyword4_text k" by (rule upper_word_like) (cases k; simp add: code_of_def)
  then show "(to_uppercase (keyword4_text k), Word4 k) \<in> set keyword_table"
    by (cases k) (simp_all add: keyword_table_def)
qed

text \<open>Letters and digits are none of the special characters.\<close>

definition special_chars :: string where
  "special_chars = ''-/!<>()[],;=?*.:'' @ [QUOTE, DOUBLE_QUOTE]"

lemma letter_or_digit:
  assumes "is_alphabetic c \<or> c = CHR ''_'' \<or> is_ascii_digit c"
  shows "c \<notin> set special_chars" "\<not> is_whitespace c"
proof -
  show "c \<notin> set special_chars"
  proof
    assume "c \<in> set special_chars"
    then show False using assms by (auto simp: special_chars_def char_defs QUOTE_def DOUBLE_QUOTE_def)
  qed
  show "\<not> is_whitespace c"
  proof (cases "c = CHR ''_''")
    case True
    then show ?thesis by (simp add: is_whitespace_def code_of_def)
  next
    case False
    then show ?thesis using assms unfolding is_whitespace_def is_alphabetic_def is_ascii_digit_def by auto
  qed
qed

lemma special_simps:
  assumes "c \<notin> set special_chars"
  shows "c \<noteq> CHR ''-''" "c \<noteq> CHR ''/''" "c \<noteq> CHR ''!''" "c \<noteq> CHR ''<''" "c \<noteq> CHR ''>''"
    "map_of single_symbols c = None" "c \<noteq> QUOTE" "c \<noteq> DOUBLE_QUOTE"
  using assms by (auto simp: special_chars_def single_symbols_def)

lemma letter_not_digit: "is_alphabetic c \<or> c = CHR ''_'' \<Longrightarrow> \<not> is_ascii_digit c"
  by (cases "c = CHR ''_''") (auto simp: is_alphabetic_def is_ascii_digit_def code_of_def)

section \<open>One token\<close>

definition plain_token :: "token \<Rightarrow> bool" where
  "plain_token t =
     (case t of
        Ident w \<Rightarrow> word_like w \<and> map_of keyword_table (to_uppercase w) = None
      | StringLit s \<Rightarrow> BACKSLASH \<notin> set s
      | FloatLit _ \<Rightarrow> False | BlobLit _ \<Rightarrow> False | VectorLit _ \<Rightarrow> False
      | _ \<Rightarrow> True)"

definition starts_with :: "(char \<Rightarrow> bool) \<Rightarrow> string \<Rightarrow> bool" where
  "starts_with p cs \<longleftrightarrow> cs \<noteq> [] \<and> p (hd cs)"

text \<open>What must not follow the text of a token.\<close>

definition extends :: "token \<Rightarrow> char \<Rightarrow> bool" where
  "extends t c =
     (case t of
        Sym s \<Rightarrow> (s = SDash \<and> (is_ascii_digit c \<or> c = CHR ''-'' \<or> c = CHR ''>'')) \<or>
                 (s = SLessThan \<and> (c = CHR ''>'' \<or> c = CHR ''='')) \<or> (s = SGreaterThan \<and> c = CHR ''='')
      | StringLit _ \<Rightarrow> c = QUOTE
      | IntLit _ \<Rightarrow> number_char c
      | _ \<Rightarrow> word_char c)"

definition lexes :: "float_env \<Rightarrow> token \<Rightarrow> string \<Rightarrow> string \<Rightarrow> bool" where
  "lexes env t txt cs \<longleftrightarrow> (\<exists>c u. txt = c # u \<and> lex_step env c (u @ cs) = Inr (Some t, cs))"

lemma takeWhile_stop:
  "list_all p u \<Longrightarrow> \<not> starts_with p cs \<Longrightarrow> takeWhile p (u @ cs) = u \<and> dropWhile p (u @ cs) = cs"
  by (induction u) (cases cs; auto simp: starts_with_def)+

lemma lex_word_step:
  assumes "is_alphabetic c \<or> c = CHR ''_''"
  shows "lex_step env c cs = Inr (Some (word_token (c # takeWhile word_char cs)), dropWhile word_char cs)"
proof -
  have "c \<notin> set special_chars" "\<not> is_whitespace c" using assms letter_or_digit by blast+
  then show ?thesis using assms letter_not_digit [OF assms] by (simp add: lex_step_def special_simps)
qed

lemma lexes_word:
  assumes "word_like w" "word_token w = t" "\<not> starts_with word_char cs"
  shows "lexes env t w cs"
proof -
  obtain c u where w: "w = c # u" using assms(1) by (cases w) (auto simp: word_like_def)
  have "takeWhile word_char (u @ cs) = u \<and> dropWhile word_char (u @ cs) = cs"
    using assms(1,3) by (intro takeWhile_stop) (auto simp: word_like_def w)
  then show ?thesis
    using lex_word_step [of c env "u @ cs"] assms(1,2) by (auto simp: lexes_def w word_like_def)
qed

lemma lexes_number:
  assumes "\<not> starts_with number_char cs"
  shows "lexes env (IntLit w) (show_i64 w) cs"
proof -
  have digits: "list_all number_char (show_nat n)" "CHR ''.'' \<notin> set (show_nat n)" for n
    using show_nat_digits [of n] by (auto simp: list_all_iff number_char_def is_ascii_digit_def code_of_def)
  have nodot: "CHR ''.'' \<notin> set (show_i64 w)"
    by (cases w rule: show_i64_chars) (use digits(2) in auto)
  then have tok: "number_token env (show_i64 w) = Inr (IntLit w)" by (simp add: number_token_def parse_show_i64)
  show ?thesis
  proof (cases w rule: show_i64_chars)
    case (neg n)
    obtain d u where n: "show_nat n = d # u" "is_ascii_digit d" using show_nat_digits [of n] by (cases "show_nat n") auto
    have "takeWhile number_char (show_nat n @ cs) = show_nat n \<and> dropWhile number_char (show_nat n @ cs) = cs"
      using digits(1) assms by (intro takeWhile_stop) auto
    moreover have "d \<noteq> CHR ''-''" "d \<noteq> CHR ''>''" using n(2) by (auto simp: char_defs)
    ultimately have "lex_step env (CHR ''-'') (show_nat n @ cs) = Inr (Some (IntLit w), cs)"
      using tok n by (simp add: lex_step_def neg next_is_def is_whitespace_def code_of_def single_symbols_def QUOTE_def DOUBLE_QUOTE_def)
    then show ?thesis by (simp add: lexes_def neg)
  next
    case (pos n)
    obtain d u where n: "show_nat n = d # u" "is_ascii_digit d" using show_nat_digits [of n] by (cases "show_nat n") auto
    have "list_all number_char u" using digits(1) [of n] by (simp add: n)
    then have "takeWhile number_char (u @ cs) = u \<and> dropWhile number_char (u @ cs) = cs"
      using assms by (intro takeWhile_stop) auto
    moreover have "d \<notin> set special_chars" "\<not> is_whitespace d" using n(2) letter_or_digit by blast+
    ultimately have "lex_step env d (u @ cs) = Inr (Some (IntLit w), cs)"
      using tok n by (simp add: lex_step_def pos special_simps)
    then show ?thesis by (simp add: lexes_def pos n)
  qed
qed

lemma scan_quoted:
  assumes "BACKSLASH \<notin> set s" "\<not> starts_with (\<lambda>c. c = QUOTE) cs"
  shows "scan_string QUOTE (double_quotes s @ QUOTE # cs) acc = Some (acc @ s, cs)"
  using assms(1)
proof (induction s arbitrary: acc)
  case Nil
  show ?case using assms(2) by (cases cs) (auto simp: double_quotes_def starts_with_def)
next
  case (Cons c s)
  have split: "double_quotes (c # s) @ QUOTE # cs = (if c = QUOTE then [QUOTE, QUOTE] else [c]) @ double_quotes s @ QUOTE # cs"
    by (simp add: double_quotes_def)
  obtain d r where r: "double_quotes s @ QUOTE # cs = d # r" by (cases "double_quotes s @ QUOTE # cs") auto
  show ?case
  proof (cases "c = QUOTE")
    case True
    then show ?thesis using Cons.IH [of "acc @ [c]"] Cons.prems unfolding split by simp
  next
    case False
    have "c \<noteq> BACKSLASH" using Cons.prems by auto
    then have "scan_string QUOTE (c # d # r) acc = scan_string QUOTE (d # r) (acc @ [c])" using False by simp
    then show ?thesis using Cons.IH [of "acc @ [c]"] Cons.prems False unfolding split r by (simp add: r)
  qed
qed

lemma lexes_string:
  assumes "BACKSLASH \<notin> set s" "\<not> starts_with (\<lambda>c. c = QUOTE) cs"
  shows "lexes env (StringLit s) ([QUOTE] @ double_quotes s @ [QUOTE]) cs"
  using scan_quoted [OF assms, of "[]"]
  by (simp add: lexes_def lex_step_def QUOTE_def is_whitespace_def code_of_def single_symbols_def)

lemma lexes_symbol:
  assumes "\<not> starts_with (extends (Sym s)) cs"
  shows "lexes env (Sym s) (symbol_text s) cs"
  using assms
  by (cases s; cases cs)
    (auto simp: lexes_def lex_step_def is_whitespace_def single_symbols_def next_is_def starts_with_def extends_def char_defs)

section \<open>Token lists\<close>

lemma lexes_plain:
  assumes "plain_token t" "\<not> starts_with (extends t) cs"
  shows "lexes env t (token_text env t) cs"
proof (cases t)
  case (Word1 k)
  then show ?thesis using assms keyword1_word [of k] lexes_word [of _ t cs env] by (auto simp: token_text_def extends_def starts_with_def)
next
  case (Word2 k)
  then show ?thesis using assms keyword2_word [of k] lexes_word [of _ t cs env] by (auto simp: token_text_def extends_def starts_with_def)
next
  case (Word3 k)
  then show ?thesis using assms keyword3_word [of k] lexes_word [of _ t cs env] by (auto simp: token_text_def extends_def starts_with_def)
next
  case (Word4 k)
  then show ?thesis using assms keyword4_word [of k] lexes_word [of _ t cs env] by (auto simp: token_text_def extends_def starts_with_def)
next
  case (Ident w)
  then have "word_like w" "word_token w = t" using assms(1) by (simp_all add: plain_token_def word_token_def)
  then show ?thesis using assms(2) lexes_word [of w t cs env] by (simp add: Ident token_text_def extends_def starts_with_def)
next
  case (StringLit s)
  then show ?thesis using assms lexes_string [of s cs env] by (simp add: token_text_def plain_token_def extends_def starts_with_def)
next
  case (IntLit i)
  then show ?thesis using assms lexes_number [of cs env i] by (simp add: token_text_def extends_def starts_with_def)
next
  case (Sym s)
  then show ?thesis using assms lexes_symbol [of s cs env] by (simp add: token_text_def)
qed (use assms(1) in \<open>simp_all add: plain_token_def\<close>)

text \<open>An integer directly before a dot would be read as a floating-point number.\<close>

fun dots_apart :: "token list \<Rightarrow> bool" where
  "dots_apart (IntLit i # t # ts) \<longleftrightarrow> t \<noteq> TDot \<and> dots_apart (t # ts)"
| "dots_apart (t # ts) \<longleftrightarrow> dots_apart ts"
| "dots_apart [] \<longleftrightarrow> True"

lemma separator_chars:
  assumes "c \<in> {CHR '' '', CHR '','', CHR '';'', CHR '')'', CHR '']''}"
  shows "\<not> extends t c"
  using assms by (cases t) (auto simp: extends_def char_defs number_char_def QUOTE_def)

lemma dot_extends: "extends t (CHR ''.'') \<longleftrightarrow> (\<exists>i. t = IntLit i)"
  by (cases t) (auto simp: extends_def char_defs number_char_def QUOTE_def)

lemma print_separates:
  assumes "dots_apart (t # ts)"
  shows "\<not> starts_with (extends t) (print_after env t ts)"
proof (cases ts)
  case Nil
  then show ?thesis by (simp add: starts_with_def)
next
  case (Cons t' ts')
  consider (nobefore) "no_space_before t'" | (noafter) "no_space_after t" | (space) "\<not> no_space_before t'" "\<not> no_space_after t"
    by blast
  then show ?thesis
  proof cases
    case nobefore
    have dot: "\<not> extends t (CHR ''.'')" if "t' = TDot" using assms that by (cases t) (auto simp: Cons dot_extends)
    from nobefore show ?thesis unfolding no_space_before_def
      by (auto simp: Cons token_text_def starts_with_def separator_chars dot no_space_before_def)
  next
    case noafter
    then show ?thesis by (auto simp: no_space_after_def extends_def starts_with_def)
  next
    case space
    then show ?thesis by (simp add: Cons starts_with_def separator_chars)
  qed
qed

lemma tokenize_loop_step:
  "lexes env t txt cs \<Longrightarrow> tokenize_loop env (txt @ cs) acc = tokenize_loop env cs (acc @ [t])"
  by (auto simp: lexes_def)

lemma tokenize_space: "tokenize_loop env (CHR '' '' # cs) acc = tokenize_loop env cs acc"
  by (simp add: lex_step_def is_whitespace_def code_of_def)

lemma dots_apart_tail: "dots_apart (t # ts) \<Longrightarrow> dots_apart ts"
  by (cases t; cases ts) auto

lemma tokenize_token:
  assumes "plain_token t" "dots_apart (t # ts)"
  shows "tokenize_loop env (token_text env t @ print_after env t ts) acc = tokenize_loop env (print_after env t ts) (acc @ [t])"
  using assms by (intro tokenize_loop_step lexes_plain print_separates)

lemma tokenize_print_after:
  "list_all plain_token ts \<Longrightarrow> dots_apart ts \<Longrightarrow> tokenize_loop env (print_after env prev ts) acc = Inr (acc @ ts)"
proof (induction ts arbitrary: prev acc)
  case (Cons t ts)
  have "tokenize_loop env (print_after env prev (t # ts)) acc =
    tokenize_loop env (token_text env t @ print_after env t ts) acc"
    by (simp add: tokenize_space del: tokenize_loop.simps)
  also have "\<dots> = Inr ((acc @ [t]) @ ts)"
    using Cons.prems Cons.IH [of t "acc @ [t]"] dots_apart_tail [of t ts] by (subst tokenize_token) simp_all
  finally show ?case by simp
qed simp

text \<open>C14: SQL text that the engine prints from a list of tokens, as it does for the stored definition
  of a view, is read back as the same tokens, provided that the texts in it have no backslash, that
  its identifiers are no keywords, and that it has no floating-point number, blob or vector; the
  spacing of the printer never joins or splits tokens, except an integer before a dot.\<close>

theorem sql_text_roundtrip:
  assumes "list_all plain_token ts" "dots_apart ts"
  shows "tokenize env (tokens_to_sql env ts) = Inr ts"
proof (cases ts)
  case (Cons t ts')
  then show ?thesis
    using assms dots_apart_tail [of t ts'] by (simp add: tokenize_def tokens_to_sql_def tokenize_token tokenize_print_after)
qed (simp add: tokenize_def tokens_to_sql_def)

theorem sql_text_roundtrip_witness:
  "tokenize no_floats (tokens_to_sql no_floats [TSelect, Ident ''a'', TDot, Ident ''b'', TFrom, Ident ''a'', TWhere, Ident ''x'', TLessThan,
     TDash, IntLit (- 5), TAnd, Ident ''y'', TIn, TOpenParen, StringLit [QUOTE], TComma, IntLit 7, TCloseParen]) =
   Inr [TSelect, Ident ''a'', TDot, Ident ''b'', TFrom, Ident ''a'', TWhere, Ident ''x'', TLessThan,
     TDash, IntLit (- 5), TAnd, Ident ''y'', TIn, TOpenParen, StringLit [QUOTE], TComma, IntLit 7, TCloseParen]"
  by (rule sql_text_roundtrip)
    (simp_all add: plain_token_def word_like_def char_defs keyword_table_def to_uppercase_def to_upper_def QUOTE_def BACKSLASH_def)

end
