(* ===== verification/Sql_Bind.thy ===== *)
theory Sql_Bind
  imports Sql_Print
begin

text \<open>
  Binding of parameters (\<^verbatim>\<open>bind_parameters\<close> of \<^verbatim>\<open>src/src/sql/parser.rs\<close>) replaces the question marks
  of a statement, in their order, and nothing else.
\<close>

section \<open>Question marks\<close>

definition marks :: "token list \<Rightarrow> nat" where
  "marks ts = length (filter (\<lambda>t. t = TQuestionMark) ts)"

lemma marks_simps [simp]:
  "marks [] = 0" "marks (t # ts) = (if t = TQuestionMark then Suc (marks ts) else marks ts)"
  by (simp_all add: marks_def)

text \<open>The statement with its marks filled from a list of parameters.\<close>

fun fill :: "token list \<Rightarrow> sql_value list \<Rightarrow> token list" where
  "fill [] params = []"
| "fill (t # ts) params =
     (if t = TQuestionMark then value_token (hd params) # fill ts (tl params) else t # fill ts params)"

lemma fill_length [simp]: "length (fill ts params) = length ts"
  by (induction ts params rule: fill.induct) simp_all

lemma fill_nth:
  "i < length ts \<Longrightarrow> marks ts \<le> length params \<Longrightarrow>
   fill ts params ! i = (if ts ! i = TQuestionMark then value_token (params ! marks (take i ts)) else ts ! i)"
proof (induction ts params arbitrary: i rule: fill.induct)
  case (2 t ts params)
  show ?case
  proof (cases i)
    case 0
    then show ?thesis using 2(4) by (cases params) auto
  next
    case (Suc j)
    have nth: "params ! Suc k = tl params ! k" if "marks ts < length params" for k
      using that by (cases params) auto
    show ?thesis using 2 Suc by (cases params) auto
  qed
qed simp

lemma bind_tokens_fill:
  "used \<le> length params \<Longrightarrow>
   bind_tokens ts params used bound =
     (if marks ts \<le> length params - used then Inr (bound @ fill ts (drop used params), used + marks ts)
      else Inl (SqlSyntax ''Parameter index out of bounds: expected at least {} parameters, provided {}''))"
proof (induction ts params used bound rule: bind_tokens.induct)
  case (2 t ts params used bound)
  show ?case
  proof (cases "t = TQuestionMark \<and> used < length params")
    case True
    then have "drop used params = params ! used # drop (Suc used) params" by (simp add: Cons_nth_drop_Suc)
    then show ?thesis using 2 True by (auto simp: drop_Suc)
  next
    case False
    then show ?thesis using 2 by auto
  qed
qed simp

text \<open>C16: binding succeeds exactly when there are as many parameters as question marks. The result then
  has the length of the statement; each question mark has become one literal token of the parameter with
  its number, and every other token stands where it stood, so a parameter never becomes syntax.\<close>

theorem bind_exact:
  "bind_parameters ts params = Inr bound \<longleftrightarrow>
     marks ts = length params \<and> length bound = length ts \<and>
     (\<forall>i < length ts. bound ! i =
        (if ts ! i = TQuestionMark then value_token (params ! marks (take i ts)) else ts ! i))"
proof -
  have "bind_parameters ts params = Inr bound \<longleftrightarrow> marks ts = length params \<and> bound = fill ts params"
    using bind_tokens_fill [of 0 params ts "[]"] by (auto simp: bind_parameters_def bind_r_def)
  then show ?thesis by (auto simp: list_eq_iff_nth_eq fill_nth)
qed

theorem bind_exact_witness:
  "bind_parameters [Ident ''a'', TEquals, TQuestionMark, TComma, TQuestionMark] [TextV ''x OR 1'', NullV] =
     Inr [Ident ''a'', TEquals, StringLit ''x OR 1'', TComma, TNull]"
  using bind_exact [of "[Ident ''a'', TEquals, TQuestionMark, TComma, TQuestionMark]" "[TextV ''x OR 1'', NullV]"
    "[Ident ''a'', TEquals, StringLit ''x OR 1'', TComma, TNull]"]
  by (simp add: value_token_def less_Suc_eq nth_Cons' all_conj_distrib)

end
