(* ===== verification/Sql_Ast.thy ===== *)
theory Sql_Ast
  imports Sql_Print Graph_Store
begin

text \<open>
  The statements of \<^verbatim>\<open>src/src/sql/parser.rs\<close>. \<^verbatim>\<open>usize\<close> fields are naturals; the fields of a
  variant stand in the source's order.
\<close>

section \<open>Parts of statements\<close>

datatype data_type = DInteger | DReal | DText | DBlob | DVector nat

record column_def =
  cd_name :: string
  cd_type :: data_type
  cd_primary_key :: bool
  cd_not_null :: bool

datatype join_type = InnerJoin | LeftJoin | RightJoin | FullJoin

record join_clause =
  jc_table :: string
  jc_left_col :: string
  jc_right_col :: string
  jc_is_left :: bool
  jc_type :: join_type

record order_by_clause =
  ob_column :: string
  ob_ascending :: bool

datatype binary_op =
    OpEquals | OpNotEquals | OpGreaterThan | OpLessThan | OpGreaterOrEqual | OpLessOrEqual
  | OpLike | OpNotLike | OpMatch | OpIsNull | OpIsNotNull

record where_condition =
  wc_column :: string
  wc_op :: binary_op
  wc_value :: sql_value

datatype on_conflict = AbortC | ReplaceC | IgnoreC | DoUpdate "(string \<times> sql_value) list"

section \<open>Statements\<close>

datatype (plugins only: code) where_expr =
    Condition where_condition
  | AndE where_expr where_expr
  | OrE where_expr where_expr
  | InList string "sql_value list" bool
  | InSubquery string statement bool
  | ExistsE statement bool
and statement =
    CreateTable string bool "column_def list" bool
  | Insert string "string list option" "sql_value list" on_conflict "string list option"
  | InsertMany string "string list option" "sql_value list list" on_conflict "string list option"
  | Select bool "string list" string "(statement \<times> string) option" "join_clause option" "where_expr option"
      "string list option" "where_expr option" "order_by_clause option" "nat option" "nat option" "u64 option"
  | VectorSearch "string list" string string "u32 list" nat "where_expr option"
  | GraphInsertNode u64 string string
  | GraphInsertEdge u64 u64 string u32 string
  | GraphTraverse u64 graph_direction "string option" nat "where_expr option"
  | WithCte "cte_clause list" statement
  | GraphShortestPath u64 u64
  | GraphMatch string "string option" "string option" "string option" string "string option"
      "where_expr option" "string list"
  | Update string "(string \<times> sql_value) list" "where_expr option" "string list option"
  | Delete string "where_expr option" "string list option"
  | BeginTransaction
  | CommitTransaction
  | RollbackTransaction
  | CreateIndex string bool string string
  | Explain statement bool
  | Vacuum "string option"
  | DropTable string bool
  | AlterTableAddColumn string column_def
  | AlterTableRenameTable string string
  | AlterTableRenameColumn string string string
  | AlterTableDropColumn string string
  | Savepoint string
  | RollbackToSavepoint string
  | ReleaseSavepoint string
  | CreateView string bool string statement
  | DropView string bool
  | DropIndex string bool
  | Analyze "string option"
  | GraphAlgorithm string "string \<rightharpoonup> string"
  | Pragma string "string option"
and cte_clause =
    CteClause string "string list option" statement

end
