(* ===== verification/Sql_Parse_Base.thy ===== *)
theory Sql_Parse_Base
  imports Sql_Ast
begin

text \<open>
  The primitives of the parser in \<^verbatim>\<open>src/src/sql/parser.rs\<close>, and its names, values, column expressions and
  column definitions. The state of a parser is the cursor. What loops or recurses takes fuel; the
  loops over comma-separated items, which the source writes out each time, are \<open>comma_loop\<close>,
  \<open>comma_while\<close> and \<open>closed_list\<close>. A panic of the source would be the error \<open>Panic\<close>.
\<close>

section \<open>Tokens at the cursor\<close>

definition check_token :: "token list \<Rightarrow> nat \<Rightarrow> token \<Rightarrow> bool" where
  "check_token ts cursor expected \<longleftrightarrow> cursor < length ts \<and> ts ! cursor = expected"

definition get_token :: "token list \<Rightarrow> (nat, token) sm" where
  "get_token ts cursor =
     (if cursor \<ge> length ts then (Inl (SqlSyntax ''Unexpected end of input''), cursor)
      else (Inr (ts ! cursor), cursor + 1))"

definition get_token_peek :: "token list \<Rightarrow> nat \<Rightarrow> token result" where
  "get_token_peek ts cursor =
     (if cursor \<ge> length ts then Inl (SqlSyntax ''Unexpected end of input'') else Inr (ts ! cursor))"

definition expect_token :: "token list \<Rightarrow> token \<Rightarrow> (nat, unit) sm" where
  "expect_token ts expected cursor =
     (if cursor \<ge> length ts then (Inl (SqlSyntax ''Unexpected end of input, expected {expected:?}''), cursor)
      else if ts ! cursor = expected then (Inr (), cursor + 1)
      else (Inl (SqlSyntax ''Expected {expected:?}, found {:?}''), cursor))"

text \<open>Branches on the token at the cursor: \<open>if_token\<close> consumes it, \<open>when_token\<close> does not.\<close>

definition if_token :: "token list \<Rightarrow> token \<Rightarrow> (nat \<Rightarrow> 'r) \<Rightarrow> (nat \<Rightarrow> 'r) \<Rightarrow> nat \<Rightarrow> 'r" where
  "if_token ts t yes no cursor = (if check_token ts cursor t then yes (cursor + 1) else no cursor)"

definition when_token :: "token list \<Rightarrow> token \<Rightarrow> (nat \<Rightarrow> 'r) \<Rightarrow> (nat \<Rightarrow> 'r) \<Rightarrow> nat \<Rightarrow> 'r" where
  "when_token ts t yes no cursor = (if check_token ts cursor t then yes cursor else no cursor)"

definition skip_token :: "token list \<Rightarrow> token \<Rightarrow> (nat, bool) sm" where
  "skip_token ts t cursor = (if check_token ts cursor t then (Inr True, cursor + 1) else (Inr False, cursor))"

text \<open>\<^verbatim>\<open>get_token_peek\<close> with an identifier that satisfies a condition.\<close>

definition peek_ident :: "token list \<Rightarrow> (string \<Rightarrow> bool) \<Rightarrow> nat \<Rightarrow> bool" where
  "peek_ident ts p cursor = (case get_token_peek ts cursor of Inr (Ident s) \<Rightarrow> p s | _ \<Rightarrow> False)"

definition if_word :: "token list \<Rightarrow> string \<Rightarrow> (nat \<Rightarrow> 'r) \<Rightarrow> (nat \<Rightarrow> 'r) \<Rightarrow> nat \<Rightarrow> 'r" where
  "if_word ts w yes no cursor =
     (if peek_ident ts (\<lambda>s. eq_ignore_ascii_case s w) cursor then yes (cursor + 1) else no cursor)"

text \<open>The frequent \<^verbatim>\<open>match get_token\<close> with one accepted variant.\<close>

definition expect_ident :: "token list \<Rightarrow> string \<Rightarrow> (nat, string) sm" where
  "expect_ident ts msg = bind_s (get_token ts) (\<lambda>t. case t of Ident s \<Rightarrow> ret_s s | _ \<Rightarrow> fail_s (SqlSyntax msg))"

definition expect_int :: "token list \<Rightarrow> string \<Rightarrow> (nat, u64) sm" where
  "expect_int ts msg = bind_s (get_token ts) (\<lambda>t. case t of IntLit n \<Rightarrow> ret_s n | _ \<Rightarrow> fail_s (SqlSyntax msg))"

definition expect_string :: "token list \<Rightarrow> string \<Rightarrow> (nat, string) sm" where
  "expect_string ts msg = bind_s (get_token ts) (\<lambda>t. case t of StringLit s \<Rightarrow> ret_s s | _ \<Rightarrow> fail_s (SqlSyntax msg))"

definition expect_label :: "token list \<Rightarrow> string \<Rightarrow> (nat, string) sm" where
  "expect_label ts msg =
     bind_s (get_token ts) (\<lambda>t. case t of Ident s \<Rightarrow> ret_s s | StringLit s \<Rightarrow> ret_s s | _ \<Rightarrow> fail_s (SqlSyntax msg))"

definition parse_identifier_or_keyword :: "token list \<Rightarrow> (nat, string) sm" where
  "parse_identifier_or_keyword ts =
     bind_s (get_token ts) (\<lambda>t. case t of
         Ident s \<Rightarrow> ret_s s
       | _ \<Rightarrow> (case map_of name_words t of Some w \<Rightarrow> ret_s w
                | None \<Rightarrow> fail_s (SqlSyntax ''Expected identifier or column name, got {other:?}'')))"

section \<open>Lists of items\<close>

text \<open>\<^verbatim>\<open>loop { item; if comma { } else { break } }\<close>.\<close>

fun comma_loop :: "nat \<Rightarrow> token list \<Rightarrow> (nat, 'a) om \<Rightarrow> 'a list \<Rightarrow> (nat, 'a list) om" where
  "comma_loop 0 ts item acc = (\<lambda>_. None)"
| "comma_loop (Suc fuel) ts item acc =
     bind_o item (\<lambda>x. if_token ts TComma (comma_loop fuel ts item (acc @ [x])) (ret_o (acc @ [x])))"

text \<open>The same loop under \<^verbatim>\<open>while *cursor < tokens.len()\<close>.\<close>

fun comma_while :: "nat \<Rightarrow> token list \<Rightarrow> (nat, 'a) om \<Rightarrow> 'a list \<Rightarrow> (nat, 'a list) om" where
  "comma_while 0 ts item acc = (\<lambda>_. None)"
| "comma_while (Suc fuel) ts item acc = (\<lambda>cursor.
     if cursor < length ts
     then bind_o item (\<lambda>x. if_token ts TComma (comma_while fuel ts item (acc @ [x])) (ret_o (acc @ [x]))) cursor
     else ret_o acc cursor)"

text \<open>The loop that a closing token ends; where neither follows, it fails, or goes on if no error is
  given.\<close>

fun closed_list :: "nat \<Rightarrow> token list \<Rightarrow> token \<Rightarrow> error option \<Rightarrow> (nat, 'a) om \<Rightarrow> 'a list \<Rightarrow> (nat, 'a list) om" where
  "closed_list 0 ts close err item acc = (\<lambda>_. None)"
| "closed_list (Suc fuel) ts close err item acc = (\<lambda>cursor.
     if cursor < length ts
     then bind_o item (\<lambda>x.
            if_token ts TComma (closed_list fuel ts close err item (acc @ [x]))
              (if_token ts close (ret_o (acc @ [x]))
                (case err of Some e \<Rightarrow> fail_o e | None \<Rightarrow> closed_list fuel ts close err item (acc @ [x])))) cursor
     else ret_o acc cursor)"

section \<open>Values\<close>

definition vector_item :: "float_env \<Rightarrow> token list \<Rightarrow> (nat, u32) sm" where
  "vector_item env ts =
     bind_s (get_token ts) (\<lambda>t. case t of
         FloatLit f \<Rightarrow> ret_s (f32_of_f64 env f)
       | IntLit i \<Rightarrow> ret_s (f32_of_i64 env i)
       | _ \<Rightarrow> fail_s (SqlSyntax ''Expected float in vector, got {other:?}''))"

definition parse_value_literal :: "float_env \<Rightarrow> nat \<Rightarrow> token list \<Rightarrow> (nat, sql_value) om" where
  "parse_value_literal env fuel ts =
     bind_o (run_o (get_token ts)) (\<lambda>t. case t of
         IntLit i \<Rightarrow> ret_o (IntegerV i)
       | FloatLit f \<Rightarrow> ret_o (RealV f)
       | StringLit s \<Rightarrow> ret_o (TextV s)
       | BlobLit b \<Rightarrow> ret_o (BlobV b)
       | VectorLit v \<Rightarrow> ret_o (VectorV v)
       | Ident s \<Rightarrow>
           if eq_ignore_ascii_case s ''true'' then ret_o (IntegerV 1)
           else if eq_ignore_ascii_case s ''false'' then ret_o (IntegerV 0)
           else fail_o (SqlSyntax ''Unexpected value token {other:?}'')
       | _ \<Rightarrow>
           if t = TNull then ret_o NullV
           else if t = TOpenBracket then
             bind_o (closed_list fuel ts TCloseBracket None (run_o (vector_item env ts)) []) (\<lambda>floats. ret_o (VectorV floats))
           else fail_o (SqlSyntax ''Unexpected value token {other:?}''))"

section \<open>Columns\<close>

fun dotted_rest :: "nat \<Rightarrow> token list \<Rightarrow> string \<Rightarrow> (nat, string) om" where
  "dotted_rest 0 ts base = (\<lambda>_. None)"
| "dotted_rest (Suc fuel) ts base =
     if_token ts TDot
       (bind_o (run_o (parse_identifier_or_keyword ts)) (\<lambda>sub. dotted_rest fuel ts (base @ ''.'' @ sub)))
       (ret_o base)"

definition parse_column_ident :: "nat \<Rightarrow> token list \<Rightarrow> (nat, string) om" where
  "parse_column_ident fuel ts = bind_o (run_o (parse_identifier_or_keyword ts)) (dotted_rest fuel ts)"

text \<open>A call: the arguments between parentheses, the opening one consumed already.\<close>

definition call_text :: "string \<Rightarrow> string list \<Rightarrow> string" where
  "call_text func_name args = func_name @ ''('' @ join_texts '', '' args @ '')''"

definition negated_number :: "float_env \<Rightarrow> token list \<Rightarrow> (nat, string) sm" where
  "negated_number env ts =
     bind_s (get_token ts) (\<lambda>t. case t of
         IntLit n \<Rightarrow> ret_s (''-'' @ show_i64 n)
       | FloatLit f \<Rightarrow> ret_s (''-'' @ show_f64 env f)
       | _ \<Rightarrow> fail_s (SqlSyntax ''Expected number after '-', got {other:?}''))"

fun parse_func_arg_expr :: "float_env \<Rightarrow> nat \<Rightarrow> token list \<Rightarrow> (nat, string) om" where
  "parse_func_arg_expr env 0 ts = (\<lambda>_. None)"
| "parse_func_arg_expr env (Suc fuel) ts = (\<lambda>cursor.
     if cursor \<ge> length ts then fail_o (SqlSyntax ''Unexpected end of function arguments'') cursor
     else (case ts ! cursor of
         StringLit s \<Rightarrow> ret_o ([QUOTE] @ double_quotes s @ [QUOTE]) (cursor + 1)
       | IntLit n \<Rightarrow> ret_o (show_i64 n) (cursor + 1)
       | FloatLit f \<Rightarrow> ret_o (show_f64 env f) (cursor + 1)
       | Ident name \<Rightarrow>
           if check_token ts (cursor + 1) TOpenParen then
             bind_o (when_token ts TCloseParen (ret_o []) (comma_while fuel ts (parse_func_arg_expr env fuel ts) [])) (\<lambda>args.
               bind_o (run_o (expect_token ts TCloseParen)) (\<lambda>_. ret_o (call_text name args))) (cursor + 2)
           else parse_column_ident fuel ts cursor
       | _ \<Rightarrow>
           if ts ! cursor = TDash then run_o (negated_number env ts) (cursor + 1)
           else if ts ! cursor = TAsterisk then ret_o ''*'' (cursor + 1)
           else if ts ! cursor = TNull then ret_o ''NULL'' (cursor + 1)
           else parse_column_ident fuel ts cursor))"

end
