(* ===== verification/Sql_Parse_Columns.thy ===== *)
theory Sql_Parse_Columns
  imports Sql_Parse_Base
begin

text \<open>
  Column expressions, window specifications, column definitions and \<^verbatim>\<open>RETURNING\<close> of
  \<^verbatim>\<open>src/src/sql/parser.rs\<close>. An expression is kept as text, as in the source.
\<close>

section \<open>Window specifications\<close>

definition frame_words :: "(token \<times> string) list" where
  "frame_words =
    [(TBetween, ''BETWEEN''), (TUnbounded, ''UNBOUNDED''), (TPreceding, ''PRECEDING''), (TFollowing, ''FOLLOWING''),
     (TCurrent, ''CURRENT''), (TRow, ''ROW''), (TAnd, ''AND'')]"

definition frame_word :: "float_env \<Rightarrow> token \<Rightarrow> string" where
  "frame_word env t =
     (case t of IntLit n \<Rightarrow> show_i64 n
      | _ \<Rightarrow> (case map_of frame_words t of Some w \<Rightarrow> w | None \<Rightarrow> debug_token env t))"

fun frame_loop :: "float_env \<Rightarrow> nat \<Rightarrow> token list \<Rightarrow> string list \<Rightarrow> (nat, string list) om" where
  "frame_loop env 0 ts acc = (\<lambda>_. None)"
| "frame_loop env (Suc fuel) ts acc = (\<lambda>cursor.
     if cursor < length ts \<and> \<not> check_token ts cursor TCloseParen
     then bind_o (run_o (get_token ts)) (\<lambda>t. frame_loop env fuel ts (acc @ [frame_word env t])) cursor
     else ret_o acc cursor)"

definition partition_part :: "nat \<Rightarrow> token list \<Rightarrow> (nat, string list) om" where
  "partition_part fuel ts =
     if_token ts TPartition
       (bind_o (run_o (expect_token ts TBy)) (\<lambda>_.
        bind_o (comma_while fuel ts (parse_column_ident fuel ts) []) (\<lambda>cols.
        ret_o [''PARTITION BY '' @ join_texts '', '' cols])))
       (ret_o [])"

definition order_part :: "nat \<Rightarrow> token list \<Rightarrow> (nat, string list) om" where
  "order_part fuel ts =
     if_token ts TOrder
       (bind_o (run_o (expect_token ts TBy)) (\<lambda>_.
        bind_o (parse_column_ident fuel ts) (\<lambda>col.
        bind_o (if_token ts TDesc (ret_o ''DESC'') (if_token ts TAsc (ret_o ''ASC'') (ret_o ''ASC''))) (\<lambda>dir.
        ret_o [''ORDER BY '' @ col @ '' '' @ dir]))))
       (ret_o [])"

definition rows_part :: "float_env \<Rightarrow> nat \<Rightarrow> token list \<Rightarrow> (nat, string list) om" where
  "rows_part env fuel ts =
     if_token ts TRows
       (bind_o (frame_loop env fuel ts []) (\<lambda>words. ret_o [''ROWS '' @ join_texts '' '' words]))
       (ret_o [])"

definition parse_window_spec :: "float_env \<Rightarrow> nat \<Rightarrow> token list \<Rightarrow> (nat, string) om" where
  "parse_window_spec env fuel ts =
     bind_o (run_o (expect_token ts TOver)) (\<lambda>_.
     bind_o (run_o (expect_token ts TOpenParen)) (\<lambda>_.
     bind_o (partition_part fuel ts) (\<lambda>p1.
     bind_o (order_part fuel ts) (\<lambda>p2.
     bind_o (rows_part env fuel ts) (\<lambda>p3.
     bind_o (run_o (expect_token ts TCloseParen)) (\<lambda>_.
     ret_o (''OVER ('' @ join_texts '' '' (p1 @ p2 @ p3) @ '')'')))))))"

section \<open>Column expressions\<close>

definition rank_words :: "(token \<times> string) list" where
  "rank_words = [(TRowNumber, ''ROW_NUMBER''), (TRank, ''RANK''), (TDenseRank, ''DENSE_RANK'')]"

definition offset_words :: "(token \<times> string) list" where
  "offset_words = [(TLag, ''LAG''), (TLead, ''LEAD'')]"

definition aggregate_words :: "(token \<times> string) list" where
  "aggregate_words = [(TCount, ''COUNT''), (TSum, ''SUM''), (TAvg, ''AVG''), (TMin, ''MIN''), (TMax, ''MAX'')]"

text \<open>Ranking functions; the word is consumed already.\<close>

definition parse_rank :: "float_env \<Rightarrow> nat \<Rightarrow> token list \<Rightarrow> string \<Rightarrow> (nat, string) om" where
  "parse_rank env fuel ts func_name =
     bind_o (run_o (expect_token ts TOpenParen)) (\<lambda>_.
     bind_o (run_o (expect_token ts TCloseParen)) (\<lambda>_.
     bind_o (parse_window_spec env fuel ts) (\<lambda>window_spec.
     ret_o (func_name @ ''() '' @ window_spec))))"

definition parse_ntile :: "float_env \<Rightarrow> nat \<Rightarrow> token list \<Rightarrow> (nat, string) om" where
  "parse_ntile env fuel ts =
     bind_o (run_o (expect_token ts TOpenParen)) (\<lambda>_.
     bind_o (run_o (expect_int ts ''Expected integer in NTILE, got {other:?}'')) (\<lambda>n.
     bind_o (run_o (expect_token ts TCloseParen)) (\<lambda>_.
     bind_o (parse_window_spec env fuel ts) (\<lambda>window_spec.
     ret_o (''NTILE('' @ show_i64 n @ '') '' @ window_spec)))))"

definition parse_offset_function :: "float_env \<Rightarrow> nat \<Rightarrow> token list \<Rightarrow> string \<Rightarrow> (nat, string) om" where
  "parse_offset_function env fuel ts func_name =
     bind_o (run_o (expect_token ts TOpenParen)) (\<lambda>_.
     bind_o (parse_column_ident fuel ts) (\<lambda>col.
     bind_o (if_token ts TComma (run_o (expect_int ts ''Expected integer offset in {func_name}, got {other:?}'')) (ret_o 1)) (\<lambda>offset.
     bind_o (run_o (expect_token ts TCloseParen)) (\<lambda>_.
     bind_o (parse_window_spec env fuel ts) (\<lambda>window_spec.
     ret_o (func_name @ ''('' @ col @ '', '' @ show_i64 offset @ '') '' @ window_spec))))))"

definition aggregate_arg :: "nat \<Rightarrow> token list \<Rightarrow> (nat, string) om" where
  "aggregate_arg fuel ts =
     if_token ts TAsterisk (ret_o ''*'')
       (\<lambda>cursor. case get_token_peek ts cursor of
            Inr (IntLit n) \<Rightarrow> ret_o (show_i64 n) (cursor + 1)
          | _ \<Rightarrow> parse_column_ident fuel ts cursor)"

definition parse_aggregate :: "float_env \<Rightarrow> nat \<Rightarrow> token list \<Rightarrow> string \<Rightarrow> (nat, string) om" where
  "parse_aggregate env fuel ts func_name =
     bind_o (run_o (expect_token ts TOpenParen)) (\<lambda>_.
     bind_o (aggregate_arg fuel ts) (\<lambda>arg.
     bind_o (run_o (expect_token ts TCloseParen)) (\<lambda>_.
     when_token ts TOver
       (bind_o (parse_window_spec env fuel ts) (\<lambda>window_spec. ret_o (func_name @ ''('' @ arg @ '') '' @ window_spec)))
       (ret_o (func_name @ ''('' @ arg @ '')'')))))"

definition parse_json_extract :: "nat \<Rightarrow> token list \<Rightarrow> (nat, string) om" where
  "parse_json_extract fuel ts =
     bind_o (run_o (expect_token ts TOpenParen)) (\<lambda>_.
     bind_o (parse_column_ident fuel ts) (\<lambda>col.
     bind_o (run_o (expect_token ts TComma)) (\<lambda>_.
     bind_o (run_o (expect_string ts ''Expected string path in JSON_EXTRACT, got {other:?}'')) (\<lambda>path.
     bind_o (run_o (expect_token ts TCloseParen)) (\<lambda>_.
     ret_o (''JSON_EXTRACT('' @ col @ '', '' @ [QUOTE] @ path @ [QUOTE] @ '')''))))))"

text \<open>Multiplication by 1.0 or -1.0.\<close>

definition times_sign :: "bool \<Rightarrow> u64 \<Rightarrow> u64" where
  "times_sign neg f = (if neg then f XOR 0x8000000000000000 else f)"

definition signed_item :: "float_env \<Rightarrow> token list \<Rightarrow> (nat, string) sm" where
  "signed_item env ts =
     bind_s (skip_token ts TDash) (\<lambda>neg.
     bind_s (get_token ts) (\<lambda>t. case t of
         FloatLit f \<Rightarrow> ret_s (show_f64 env (times_sign neg f))
       | IntLit i \<Rightarrow> ret_s (show_f64 env (times_sign neg (f64_of_i64 env i)) @ ''.0'')
       | _ \<Rightarrow> fail_s (SqlSyntax ''Expected float in vector literal, got {other:?}'')))"

definition distance_arg :: "float_env \<Rightarrow> nat \<Rightarrow> token list \<Rightarrow> (nat, string) om" where
  "distance_arg env fuel ts =
     if_token ts TOpenBracket
       (bind_o (comma_while fuel ts (run_o (signed_item env ts)) []) (\<lambda>items.
        bind_o (run_o (expect_token ts TCloseBracket)) (\<lambda>_.
        ret_o (''['' @ join_texts '','' items @ '']''))))
       (\<lambda>cursor. case get_token_peek ts cursor of
            Inr (StringLit s) \<Rightarrow> ret_o ([QUOTE] @ s @ [QUOTE]) (cursor + 1)
          | _ \<Rightarrow> parse_column_ident fuel ts cursor)"

definition to_ascii_uppercase :: "string \<Rightarrow> string" where
  "to_ascii_uppercase s = map (\<lambda>c. if 97 \<le> code_of c \<and> code_of c \<le> 122 then char_of (code_of c - 32) else c) s"

definition parse_distance :: "float_env \<Rightarrow> nat \<Rightarrow> token list \<Rightarrow> string \<Rightarrow> (nat, string) om" where
  "parse_distance env fuel ts name =
     bind_o (run_o (expect_token ts TOpenParen)) (\<lambda>_.
     bind_o (parse_column_ident fuel ts) (\<lambda>col.
     bind_o (run_o (expect_token ts TComma)) (\<lambda>_.
     bind_o (distance_arg env fuel ts) (\<lambda>arg2.
     bind_o (run_o (expect_token ts TCloseParen)) (\<lambda>_.
     ret_o (to_ascii_uppercase name @ ''('' @ col @ '', '' @ arg2 @ '')''))))))"

definition parse_call :: "float_env \<Rightarrow> nat \<Rightarrow> token list \<Rightarrow> string \<Rightarrow> (nat, string) om" where
  "parse_call env fuel ts func_name =
     bind_o (when_token ts TCloseParen (ret_o []) (comma_while fuel ts (parse_func_arg_expr env fuel ts) [])) (\<lambda>args.
     bind_o (run_o (expect_token ts TCloseParen)) (\<lambda>_.
     ret_o (call_text func_name args)))"

definition is_distance_name :: "string \<Rightarrow> bool" where
  "is_distance_name w \<longleftrightarrow> eq_ignore_ascii_case w ''VECTOR_COSINE'' \<or> eq_ignore_ascii_case w ''VECTOR_L2'' \<or>
     eq_ignore_ascii_case w ''VECTOR_DISTANCE''"

definition is_literal_token :: "token \<Rightarrow> bool" where
  "is_literal_token t =
     (case t of StringLit _ \<Rightarrow> True | IntLit _ \<Rightarrow> True | FloatLit _ \<Rightarrow> True | _ \<Rightarrow> t = TNull \<or> t = TDash)"

definition column_head :: "float_env \<Rightarrow> nat \<Rightarrow> token list \<Rightarrow> (nat, string) om" where
  "column_head env fuel ts cursor =
     (let t = ts ! cursor; call = check_token ts (cursor + 1) TOpenParen in
      if is_literal_token t then parse_func_arg_expr env fuel ts cursor
      else if map_of rank_words t \<noteq> None \<and> call then parse_rank env fuel ts (the (map_of rank_words t)) (cursor + 1)
      else if t = TNtile \<and> call then parse_ntile env fuel ts (cursor + 1)
      else if map_of offset_words t \<noteq> None \<and> call
           then parse_offset_function env fuel ts (the (map_of offset_words t)) (cursor + 1)
      else if map_of aggregate_words t \<noteq> None \<and> call
           then parse_aggregate env fuel ts (the (map_of aggregate_words t)) (cursor + 1)
      else case t of
        Ident name \<Rightarrow>
          if eq_ignore_ascii_case name ''JSON_EXTRACT'' then parse_json_extract fuel ts (cursor + 1)
          else if is_distance_name name then parse_distance env fuel ts name (cursor + 1)
          else if call then parse_call env fuel ts name (cursor + 2)
          else parse_column_ident fuel ts cursor
      | _ \<Rightarrow> parse_column_ident fuel ts cursor)"

definition parse_column_expression :: "float_env \<Rightarrow> nat \<Rightarrow> token list \<Rightarrow> (nat, string) om" where
  "parse_column_expression env fuel ts cursor =
     (if cursor \<ge> length ts then fail_o (SqlSyntax ''Unexpected end of tokens in column list'') cursor
      else bind_o (column_head env fuel ts) (\<lambda>expr.
             if_token ts TAs
               (bind_o (run_o (parse_identifier_or_keyword ts)) (\<lambda>alias. ret_o (expr @ '' AS '' @ alias)))
               (ret_o expr)) cursor)"

definition parse_optional_returning :: "float_env \<Rightarrow> nat \<Rightarrow> token list \<Rightarrow> (nat, string list option) om" where
  "parse_optional_returning env fuel ts =
     if_token ts TReturning
       (bind_o (if_token ts TAsterisk (ret_o [''*'']) (comma_while fuel ts (parse_column_expression env fuel ts) [])) (\<lambda>cols.
        if cols = [] then fail_o (SqlSyntax ''RETURNING clause requires at least one column or *'')
        else ret_o (Some cols)))
       (ret_o None)"

section \<open>Column definitions\<close>

definition type_words :: "(token \<times> data_type) list" where
  "type_words = [(TInteger, DInteger), (TReal, DReal), (TText, DText), (TBlob, DBlob), (TTimestamp, DText)]"

definition parse_data_type :: "token list \<Rightarrow> (nat, data_type) sm" where
  "parse_data_type ts =
     bind_s (get_token ts) (\<lambda>t. case t of
         Ident w \<Rightarrow>
           if eq_ignore_ascii_case w ''DATETIME'' \<or> eq_ignore_ascii_case w ''TIMESTAMP'' then ret_s DText
           else if eq_ignore_ascii_case w ''BOOLEAN'' \<or> eq_ignore_ascii_case w ''BOOL'' then ret_s DInteger
           else fail_s (SqlSyntax ''Expected data type, got {other:?}'')
       | _ \<Rightarrow>
           (case map_of type_words t of
              Some d \<Rightarrow> ret_s d
            | None \<Rightarrow>
                if t = TVector then
                  bind_s (expect_token ts TOpenParen) (\<lambda>_.
                  bind_s (expect_int ts ''Expected vector dimensions, got {other:?}'') (\<lambda>dims.
                  bind_s (expect_token ts TCloseParen) (\<lambda>_. ret_s (DVector (unat dims)))))
                else fail_s (SqlSyntax ''Expected data type, got {other:?}'')))"

text \<open>The modifiers: whether \<^verbatim>\<open>PRIMARY KEY\<close> and \<^verbatim>\<open>NOT NULL\<close> were given.\<close>

fun column_modifiers :: "nat \<Rightarrow> token list \<Rightarrow> bool \<times> bool \<Rightarrow> (nat, bool \<times> bool) om" where
  "column_modifiers 0 ts flags = (\<lambda>_. None)"
| "column_modifiers (Suc fuel) ts (pk, nn) =
     if_token ts TPrimary
       (bind_o (run_o (expect_token ts TKey)) (\<lambda>_. column_modifiers fuel ts (True, nn)))
       (if_token ts TNot
          (bind_o (run_o (expect_token ts TNull)) (\<lambda>_. column_modifiers fuel ts (pk, True)))
          (ret_o (pk, nn)))"

definition parse_column_def :: "nat \<Rightarrow> token list \<Rightarrow> (nat, column_def) om" where
  "parse_column_def fuel ts =
     bind_o (run_o (parse_identifier_or_keyword ts)) (\<lambda>name.
     bind_o (run_o (parse_data_type ts)) (\<lambda>ty.
     bind_o (column_modifiers fuel ts (False, False)) (\<lambda>(pk, nn).
     ret_o \<lparr>cd_name = name, cd_type = ty, cd_primary_key = pk, cd_not_null = nn\<rparr>)))"

end
