(* ===== verification/Sql_Parse_Query.thy ===== *)
theory Sql_Parse_Query
  imports Sql_Parse_Columns
begin

text \<open>
  Conditions and \<^verbatim>\<open>SELECT\<close> of \<^verbatim>\<open>src/src/sql/parser.rs\<close>, which call each other. The clauses that do
  not recurse are functions of the parsers for conditions (\<open>cond\<close>) and queries (\<open>query\<close>); the
  recursion is tied at the end.
\<close>

section \<open>Conditions\<close>

definition comparison_words :: "(token \<times> binary_op) list" where
  "comparison_words =
    [(TEquals, OpEquals), (TNotEquals, OpNotEquals), (TGreaterThan, OpGreaterThan), (TLessThan, OpLessThan),
     (TGreaterOrEqual, OpGreaterOrEqual), (TLessOrEqual, OpLessOrEqual), (TLike, OpLike), (TMatch, OpMatch)]"

definition negate_op :: "binary_op \<Rightarrow> binary_op result" where
  "negate_op op =
     (case op of
        OpLike \<Rightarrow> Inr OpNotLike | OpEquals \<Rightarrow> Inr OpNotEquals | OpNotEquals \<Rightarrow> Inr OpEquals
      | OpGreaterThan \<Rightarrow> Inr OpLessOrEqual | OpLessThan \<Rightarrow> Inr OpGreaterOrEqual
      | OpGreaterOrEqual \<Rightarrow> Inr OpLessThan | OpLessOrEqual \<Rightarrow> Inr OpGreaterThan | OpNotLike \<Rightarrow> Inr OpLike
      | OpMatch \<Rightarrow> Inl (SqlSyntax ''NOT MATCH is not supported'') | OpIsNull \<Rightarrow> Inr OpIsNotNull | OpIsNotNull \<Rightarrow> Inr OpIsNull)"

definition cond_of :: "string \<Rightarrow> binary_op \<Rightarrow> sql_value \<Rightarrow> where_expr" where
  "cond_of col op v = Condition \<lparr>wc_column = col, wc_op = op, wc_value = v\<rparr>"

definition parse_exists :: "token list \<Rightarrow> (nat, statement) om \<Rightarrow> bool \<Rightarrow> (nat, where_expr) om" where
  "parse_exists ts query negated =
     bind_o (run_o (expect_token ts TOpenParen)) (\<lambda>_.
     bind_o query (\<lambda>subquery.
     bind_o (run_o (expect_token ts TCloseParen)) (\<lambda>_. ret_o (ExistsE subquery negated))))"

definition parse_is_null :: "token list \<Rightarrow> string \<Rightarrow> (nat, where_expr) om" where
  "parse_is_null ts col =
     bind_o (run_o (skip_token ts TNot)) (\<lambda>is_not.
     bind_o (run_o (expect_token ts TNull)) (\<lambda>_.
     ret_o (cond_of col (if is_not then OpIsNotNull else OpIsNull) NullV)))"

definition parse_between :: "float_env \<Rightarrow> nat \<Rightarrow> token list \<Rightarrow> string \<Rightarrow> (nat, where_expr) om" where
  "parse_between env fuel ts col =
     bind_o (parse_value_literal env fuel ts) (\<lambda>val1.
     bind_o (run_o (expect_token ts TAnd)) (\<lambda>_.
     bind_o (parse_value_literal env fuel ts) (\<lambda>val2.
     ret_o (AndE (cond_of col OpGreaterOrEqual val1) (cond_of col OpLessOrEqual val2)))))"

definition parse_in :: "float_env \<Rightarrow> nat \<Rightarrow> token list \<Rightarrow> (nat, statement) om \<Rightarrow> string \<Rightarrow> bool \<Rightarrow> (nat, where_expr) om" where
  "parse_in env fuel ts query col negated =
     bind_o (run_o (expect_token ts TOpenParen)) (\<lambda>_.
     when_token ts TSelect
       (bind_o query (\<lambda>subquery.
        bind_o (run_o (expect_token ts TCloseParen)) (\<lambda>_. ret_o (InSubquery col subquery negated))))
       (bind_o (comma_while fuel ts (parse_value_literal env fuel ts) []) (\<lambda>values.
        bind_o (run_o (expect_token ts TCloseParen)) (\<lambda>_. ret_o (InList col values negated)))))"

definition parse_comparison :: "float_env \<Rightarrow> nat \<Rightarrow> token list \<Rightarrow> string \<Rightarrow> bool \<Rightarrow> (nat, where_expr) om" where
  "parse_comparison env fuel ts col negated =
     bind_o (run_o (get_token ts)) (\<lambda>t.
       case map_of comparison_words t of
         None \<Rightarrow> fail_o (SqlSyntax ''Expected comparison operator in WHERE, got {other:?}'')
       | Some raw_op \<Rightarrow>
           bind_o (run_o (lift_s (if negated then negate_op raw_op else Inr raw_op))) (\<lambda>op.
           bind_o (parse_value_literal env fuel ts) (\<lambda>v. ret_o (cond_of col op v))))"

definition parse_column_condition :: "float_env \<Rightarrow> nat \<Rightarrow> token list \<Rightarrow> (nat, statement) om \<Rightarrow> (nat, where_expr) om" where
  "parse_column_condition env fuel ts query =
     bind_o (parse_column_expression env fuel ts) (\<lambda>col.
       if_token ts TIs (parse_is_null ts col)
         (if_token ts TBetween (parse_between env fuel ts col)
            (bind_o (run_o (skip_token ts TNot)) (\<lambda>negated.
             if_token ts TIn (parse_in env fuel ts query col negated)
               (parse_comparison env fuel ts col negated)))))"

definition primary_cond :: "float_env \<Rightarrow> nat \<Rightarrow> token list \<Rightarrow> (nat, where_expr) om \<Rightarrow> (nat, statement) om \<Rightarrow> (nat, where_expr) om" where
  "primary_cond env fuel ts cond query =
     if_token ts TOpenParen
       (bind_o cond (\<lambda>inner. bind_o (run_o (expect_token ts TCloseParen)) (\<lambda>_. ret_o inner)))
       (if_token ts TExists (parse_exists ts query False)
          (\<lambda>cursor.
             if check_token ts cursor TNot \<and> check_token ts (cursor + 1) TExists
             then parse_exists ts query True (cursor + 2)
             else parse_column_condition env fuel ts query cursor))"

definition parse_optional_where :: "token list \<Rightarrow> (nat, where_expr) om \<Rightarrow> (nat, where_expr option) om" where
  "parse_optional_where ts cond = if_token ts TWhere (bind_o cond (\<lambda>e. ret_o (Some e))) (ret_o None)"

section \<open>Clauses of SELECT\<close>

definition parse_from :: "token list \<Rightarrow> (nat, statement) om \<Rightarrow> (nat, string \<times> (statement \<times> string) option) om" where
  "parse_from ts query =
     if_token ts TOpenParen
       (bind_o query (\<lambda>subquery.
        bind_o (run_o (expect_token ts TCloseParen)) (\<lambda>_.
        bind_o (run_o (skip_token ts TAs)) (\<lambda>_.
        bind_o (run_o (parse_identifier_or_keyword ts)) (\<lambda>alias.
        ret_o (alias, Some (subquery, alias)))))))
       (bind_o (run_o (expect_ident ts ''Expected table name, got {other:?}'')) (\<lambda>name cursor.
          if check_token ts cursor TAs \<and> \<not> check_token ts (cursor + 1) TOf
          then bind_o (run_o (parse_identifier_or_keyword ts)) (\<lambda>_. ret_o (name, None)) (cursor + 1)
          else ret_o (name, None) cursor))"

text \<open>The kind of a join and the word \<^verbatim>\<open>JOIN\<close>; \<open>None\<close> if there is no join.\<close>

definition outer_join :: "token list \<Rightarrow> join_type \<Rightarrow> (nat, join_type option) sm" where
  "outer_join ts kind =
     bind_s (skip_token ts TOuter) (\<lambda>_. bind_s (expect_token ts TJoin) (\<lambda>_. ret_s (Some kind)))"

definition parse_join_type :: "token list \<Rightarrow> (nat, join_type option) sm" where
  "parse_join_type ts =
     if_token ts TLeft (outer_join ts LeftJoin)
      (if_token ts TRight (outer_join ts RightJoin)
        (if_token ts TFull (outer_join ts FullJoin)
          (\<lambda>cursor.
             if check_token ts cursor TInner \<or> check_token ts cursor TJoin
             then bind_s (skip_token ts TInner) (\<lambda>_. outer_join ts InnerJoin) cursor
             else ret_s None cursor)))"

definition parse_join :: "nat \<Rightarrow> token list \<Rightarrow> (nat, join_clause option) om" where
  "parse_join fuel ts =
     bind_o (run_o (parse_join_type ts)) (\<lambda>kind.
       case kind of
         None \<Rightarrow> ret_o None
       | Some kind \<Rightarrow>
           bind_o (run_o (expect_ident ts ''Expected table name after JOIN, got {other:?}'')) (\<lambda>right_table.
           bind_o (run_o (expect_token ts TOn)) (\<lambda>_.
           bind_o (parse_column_ident fuel ts) (\<lambda>left_col.
           bind_o (run_o (expect_token ts TEquals)) (\<lambda>_.
           bind_o (parse_column_ident fuel ts) (\<lambda>right_col.
           ret_o (Some \<lparr>jc_table = right_table, jc_left_col = left_col, jc_right_col = right_col,
                        jc_is_left = (kind = LeftJoin), jc_type = kind\<rparr>)))))))"

definition parse_vector_near :: "float_env \<Rightarrow> nat \<Rightarrow> token list \<Rightarrow> (nat, where_expr) om \<Rightarrow> string list \<Rightarrow> string \<Rightarrow> (nat, statement) om" where
  "parse_vector_near env fuel ts cond columns table =
     bind_o (run_o (expect_token ts TNear)) (\<lambda>_.
     bind_o (run_o (expect_ident ts ''Expected vector column, got {other:?}'')) (\<lambda>vector_col.
     bind_o (run_o (expect_token ts TEquals)) (\<lambda>_.
     bind_o (parse_value_literal env fuel ts) (\<lambda>query_val.
     case query_val of
       VectorV query_vector \<Rightarrow>
         bind_o (run_o (expect_token ts TTop)) (\<lambda>_.
         bind_o (run_o (expect_int ts ''Expected integer TOP k, got {other:?}'')) (\<lambda>top_k.
         bind_o (parse_optional_where ts cond) (\<lambda>where_clause.
         ret_o (VectorSearch columns table vector_col query_vector (unat top_k) where_clause))))
     | _ \<Rightarrow> fail_o (SqlSyntax ''Expected vector literal, got {other:?}'')))))"

definition parse_as_of :: "token list \<Rightarrow> (nat, u64 option) sm" where
  "parse_as_of ts cursor =
     (if check_token ts cursor TAs \<and> check_token ts (cursor + 1) TOf \<and> check_token ts (cursor + 2) TTimestamp
      then bind_s (expect_int ts ''Expected integer timestamp for AS OF TIMESTAMP, got {other:?}'') (\<lambda>n. ret_s (Some n)) (cursor + 3)
      else ret_s None cursor)"

definition parse_group_by :: "nat \<Rightarrow> token list \<Rightarrow> (nat, string list option) om" where
  "parse_group_by fuel ts =
     if_token ts TGroup
       (bind_o (run_o (expect_token ts TBy)) (\<lambda>_.
        bind_o (comma_loop fuel ts (parse_column_ident fuel ts) []) (\<lambda>cols. ret_o (Some cols))))
       (ret_o None)"

definition parse_having :: "token list \<Rightarrow> (nat, where_expr) om \<Rightarrow> (nat, where_expr option) om" where
  "parse_having ts cond = if_token ts THaving (bind_o cond (\<lambda>e. ret_o (Some e))) (ret_o None)"

definition parse_count :: "token list \<Rightarrow> token \<Rightarrow> string \<Rightarrow> (nat, nat option) sm" where
  "parse_count ts word msg = if_token ts word (bind_s (expect_int ts msg) (\<lambda>n. ret_s (Some (unat n)))) (ret_s None)"

text \<open>The query vector behind a distance operator; texts are read as lists of numbers.\<close>

definition trim_text :: "string \<Rightarrow> string" where
  "trim_text s = rev (dropWhile is_whitespace (rev (dropWhile is_whitespace s)))"

fun split_on :: "char \<Rightarrow> string \<Rightarrow> string \<Rightarrow> string list" where
  "split_on sep part [] = [part]"
| "split_on sep part (c # cs) = (if c = sep then part # split_on sep [] cs else split_on sep (part @ [c]) cs)"

definition text_vector :: "float_env \<Rightarrow> string \<Rightarrow> u32 list result" where
  "text_vector env s =
     (let trimmed = trim_text s in
      if trimmed \<noteq> [] \<and> hd trimmed = CHR ''['' \<and> last trimmed = CHR '']''
      then Inr (map (\<lambda>part. case parse_f32 env (trim_text part) of Some f \<Rightarrow> f | None \<Rightarrow> 0)
             (split_on (CHR '','') [] (butlast (tl trimmed))))
      else Inl (SqlSyntax ''Expected vector literal after <->''))"

definition distance_vector :: "float_env \<Rightarrow> sql_value \<Rightarrow> u32 list result" where
  "distance_vector env v =
     (case v of VectorV xs \<Rightarrow> Inr xs | TextV s \<Rightarrow> text_vector env s
      | _ \<Rightarrow> Inl (SqlSyntax ''Expected vector literal after <->, got {other:?}''))"

definition distance_operator :: "token list \<Rightarrow> nat \<Rightarrow> nat option" where
  "distance_operator ts cursor =
     (if check_token ts cursor TLessThan \<and> check_token ts (cursor + 1) TArrow then Some (cursor + 2)
      else if check_token ts cursor TLessThan \<and> check_token ts (cursor + 1) TDash \<and> check_token ts (cursor + 2) TGreaterThan
      then Some (cursor + 3) else None)"

definition parse_distance_order :: "float_env \<Rightarrow> nat \<Rightarrow> token list \<Rightarrow> string list \<Rightarrow> string \<Rightarrow> where_expr option \<Rightarrow> string \<Rightarrow> (nat, statement) om" where
  "parse_distance_order env fuel ts columns table where_clause col =
     bind_o (parse_value_literal env fuel ts) (\<lambda>query_val.
     bind_o (run_o (lift_s (distance_vector env query_val))) (\<lambda>query_vector.
     bind_o (run_o (parse_count ts TLimit ''Expected integer for LIMIT, got {other:?}'')) (\<lambda>limit.
     ret_o (VectorSearch columns table col query_vector (case limit of None \<Rightarrow> 10 | Some n \<Rightarrow> n) where_clause))))"

text \<open>\<^verbatim>\<open>ORDER BY\<close>: a distance ends the statement, otherwise \<open>k\<close> goes on.\<close>

definition parse_order_by :: "float_env \<Rightarrow> nat \<Rightarrow> token list \<Rightarrow> string list \<Rightarrow> string \<Rightarrow> where_expr option \<Rightarrow>
    (order_by_clause option \<Rightarrow> (nat, statement) om) \<Rightarrow> (nat, statement) om" where
  "parse_order_by env fuel ts columns table where_clause k =
     if_token ts TOrder
       (bind_o (run_o (expect_token ts TBy)) (\<lambda>_.
        bind_o (parse_column_ident fuel ts) (\<lambda>col cursor.
          case distance_operator ts cursor of
            Some next \<Rightarrow> parse_distance_order env fuel ts columns table where_clause col next
          | None \<Rightarrow>
              if_token ts TDesc (k (Some \<lparr>ob_column = col, ob_ascending = False\<rparr>))
                (bind_o (run_o (skip_token ts TAsc)) (\<lambda>_. k (Some \<lparr>ob_column = col, ob_ascending = True\<rparr>))) cursor)))
       (k None)"

definition select_tail :: "float_env \<Rightarrow> nat \<Rightarrow> token list \<Rightarrow> (nat, where_expr) om \<Rightarrow> bool \<Rightarrow> string list \<Rightarrow>
    string \<times> (statement \<times> string) option \<Rightarrow> join_clause option \<Rightarrow> (nat, statement) om" where
  "select_tail env fuel ts cond is_distinct columns source join =
     bind_o (run_o (parse_as_of ts)) (\<lambda>as_of_timestamp.
     bind_o (parse_optional_where ts cond) (\<lambda>where_clause.
     bind_o (parse_group_by fuel ts) (\<lambda>group_by.
     bind_o (parse_having ts cond) (\<lambda>having.
     parse_order_by env fuel ts columns (fst source) where_clause (\<lambda>order_by.
     bind_o (run_o (parse_count ts TLimit ''Expected integer for LIMIT, got {other:?}'')) (\<lambda>limit.
     bind_o (run_o (parse_count ts TOffset ''Expected integer for OFFSET, got {other:?}'')) (\<lambda>offset.
     ret_o (Select is_distinct columns (fst source) (snd source) join where_clause group_by having order_by limit offset
              as_of_timestamp))))))))"

definition select_body :: "float_env \<Rightarrow> nat \<Rightarrow> token list \<Rightarrow> (nat, where_expr) om \<Rightarrow> (nat, statement) om \<Rightarrow> (nat, statement) om" where
  "select_body env fuel ts cond query =
     bind_o (run_o (skip_token ts TDistinct)) (\<lambda>is_distinct.
     bind_o (if_token ts TAsterisk (ret_o []) (comma_while fuel ts (parse_column_expression env fuel ts) [])) (\<lambda>columns.
     if_token ts TFrom
       (bind_o (parse_from ts query) (\<lambda>source.
        bind_o (parse_join fuel ts) (\<lambda>join.
        if_token ts TVector
          (parse_vector_near env fuel ts cond columns (fst source))
          (select_tail env fuel ts cond is_distinct columns source join))))
       (if columns = [] then fail_o (SqlSyntax ''SELECT * requires FROM'')
        else ret_o (Select is_distinct columns [] None None None None None None None None None))))"

section \<open>The recursion\<close>

text \<open>A chain of operands joined by one operator, to the left; the loops of \<^verbatim>\<open>parse_or_expr\<close> and
  \<^verbatim>\<open>parse_and_expr\<close>.\<close>

fun chain_rest :: "nat \<Rightarrow> token list \<Rightarrow> token \<Rightarrow> (where_expr \<Rightarrow> where_expr \<Rightarrow> where_expr) \<Rightarrow> (nat, where_expr) om \<Rightarrow>
    where_expr \<Rightarrow> (nat, where_expr) om" where
  "chain_rest 0 ts op mk operand expr = (\<lambda>_. None)"
| "chain_rest (Suc fuel) ts op mk operand expr =
     if_token ts op (bind_o operand (\<lambda>right. chain_rest fuel ts op mk operand (mk expr right))) (ret_o expr)"

definition and_chain :: "nat \<Rightarrow> token list \<Rightarrow> (nat, where_expr) om \<Rightarrow> (nat, where_expr) om" where
  "and_chain fuel ts primary = bind_o primary (chain_rest fuel ts TAnd AndE primary)"

definition or_chain :: "nat \<Rightarrow> token list \<Rightarrow> (nat, where_expr) om \<Rightarrow> (nat, where_expr) om" where
  "or_chain fuel ts conjunction = bind_o conjunction (chain_rest fuel ts TOr OrE conjunction)"

fun parse_or_expr :: "float_env \<Rightarrow> nat \<Rightarrow> token list \<Rightarrow> (nat, where_expr) om"
  and parse_select :: "float_env \<Rightarrow> nat \<Rightarrow> token list \<Rightarrow> (nat, statement) om" where
  "parse_or_expr env 0 ts = (\<lambda>_. None)"
| "parse_or_expr env (Suc fuel) ts =
     or_chain fuel ts (and_chain fuel ts (primary_cond env fuel ts (parse_or_expr env fuel ts) (parse_select env fuel ts)))"
| "parse_select env 0 ts = (\<lambda>_. None)"
| "parse_select env (Suc fuel) ts =
     bind_o (run_o (put_s Suc)) (\<lambda>_. select_body env fuel ts (parse_or_expr env fuel ts) (parse_select env fuel ts))"

definition parse_where_expr :: "float_env \<Rightarrow> nat \<Rightarrow> token list \<Rightarrow> (nat, where_expr) om" where
  "parse_where_expr = parse_or_expr"

definition parse_optional_where_clause :: "float_env \<Rightarrow> nat \<Rightarrow> token list \<Rightarrow> (nat, where_expr option) om" where
  "parse_optional_where_clause env fuel ts = parse_optional_where ts (parse_where_expr env fuel ts)"

end
