(* ===== verification/Sql_Parser.thy ===== *)
theory Sql_Parser
  imports Sql_Parse_Query
begin

text \<open>
  The statements of \<^verbatim>\<open>src/src/sql/parser.rs\<close> other than graph statements, and nothing of the recursion
  through subqueries: that is \<open>parse_select\<close> of \<open>Sql_Parse_Query\<close>.
\<close>

section \<open>CREATE and PRAGMA\<close>

definition if_not_exists_clause :: "token list \<Rightarrow> (nat, bool) sm" where
  "if_not_exists_clause ts =
     if_token ts TIf
       (bind_s (expect_token ts TNot) (\<lambda>_. bind_s (expect_token ts TExists) (\<lambda>_. ret_s True)))
       (ret_s False)"

definition if_exists_clause :: "token list \<Rightarrow> (nat, bool) sm" where
  "if_exists_clause ts = if_token ts TIf (bind_s (expect_token ts TExists) (\<lambda>_. ret_s True)) (ret_s False)"

definition versioning_option :: "string \<Rightarrow> string \<Rightarrow> bool" where
  "versioning_option opt_key opt_val \<longleftrightarrow>
     (eq_ignore_ascii_case opt_key ''SYSTEM_VERSIONING'' \<or> eq_ignore_ascii_case opt_key ''TEMPORAL'') \<and>
     to_uppercase opt_val \<in> {''TRUE'', ''ON'', ''1''}"

fun table_options :: "nat \<Rightarrow> token list \<Rightarrow> bool \<Rightarrow> (nat, bool) om" where
  "table_options 0 ts versioning = (\<lambda>_. None)"
| "table_options (Suc fuel) ts versioning = (\<lambda>cursor.
     if cursor < length ts
     then bind_o (run_o (parse_identifier_or_keyword ts)) (\<lambda>opt_key.
          bind_o (run_o (skip_token ts TEquals)) (\<lambda>_.
          bind_o (run_o (parse_identifier_or_keyword ts)) (\<lambda>opt_val.
            let versioning = (versioning \<or> versioning_option opt_key opt_val) in
            if_token ts TComma (table_options fuel ts versioning)
              (if_token ts TCloseParen (ret_o versioning) (ret_o versioning))))) cursor
     else ret_o versioning cursor)"

definition parse_create_table :: "nat \<Rightarrow> token list \<Rightarrow> (nat, statement) om" where
  "parse_create_table fuel ts =
     bind_o (run_o (put_s Suc)) (\<lambda>_.
     bind_o (run_o (expect_token ts TTable)) (\<lambda>_.
     bind_o (run_o (if_not_exists_clause ts)) (\<lambda>if_not_exists.
     bind_o (run_o (expect_ident ts ''Expected table name, got {other:?}'')) (\<lambda>table_name.
     bind_o (run_o (expect_token ts TOpenParen)) (\<lambda>_.
     bind_o (closed_list fuel ts TCloseParen (Some (SqlSyntax ''Expected ',' or ')' in CREATE TABLE'')) (parse_column_def fuel ts) []) (\<lambda>columns.
     bind_o (if_token ts TWith (if_token ts TOpenParen (table_options fuel ts False) (ret_o False)) (ret_o False)) (\<lambda>system_versioning.
     ret_o (CreateTable table_name if_not_exists columns system_versioning))))))))"

definition parse_pragma :: "float_env \<Rightarrow> token list \<Rightarrow> (nat, statement) sm" where
  "parse_pragma env ts =
     bind_s (expect_token ts TPragma) (\<lambda>_.
     bind_s (parse_identifier_or_keyword ts) (\<lambda>key.
     if_token ts TEquals
       (bind_s (get_token ts) (\<lambda>t.
          ret_s (Pragma key (Some (case t of Ident s \<Rightarrow> s | StringLit s \<Rightarrow> s | IntLit n \<Rightarrow> show_i64 n | _ \<Rightarrow> debug_token env t)))))
       (ret_s (Pragma key None))))"

definition parse_create_view :: "float_env \<Rightarrow> nat \<Rightarrow> token list \<Rightarrow> (nat, statement) om" where
  "parse_create_view env fuel ts =
     bind_o (run_o (put_s Suc)) (\<lambda>_.
     bind_o (run_o (expect_token ts TView)) (\<lambda>_.
     bind_o (run_o (if_not_exists_clause ts)) (\<lambda>if_not_exists.
     bind_o (run_o (parse_identifier_or_keyword ts)) (\<lambda>view_name.
     bind_o (run_o (expect_token ts TAs)) (\<lambda>_.
     bind_o (run_o (get_s (\<lambda>cursor. cursor))) (\<lambda>query_start.
     bind_o (parse_select env fuel ts) (\<lambda>query cursor.
     if query_start \<le> cursor \<and> cursor \<le> length ts
     then ret_o (CreateView view_name if_not_exists
                   (tokens_to_sql env (take (cursor - query_start) (drop query_start ts))) query) cursor
     else fail_o Panic cursor)))))))"

definition parse_create_index :: "nat \<Rightarrow> token list \<Rightarrow> (nat, statement) om" where
  "parse_create_index fuel ts =
     bind_o (run_o (put_s Suc)) (\<lambda>_.
     bind_o (run_o (expect_token ts TIndex)) (\<lambda>_.
     bind_o (run_o (if_not_exists_clause ts)) (\<lambda>if_not_exists.
     bind_o (run_o (expect_ident ts ''Expected index name, got {other:?}'')) (\<lambda>index_name.
     bind_o (run_o (expect_token ts TOn)) (\<lambda>_.
     bind_o (run_o (expect_ident ts ''Expected table name in CREATE INDEX ON, got {other:?}'')) (\<lambda>table_name.
     bind_o (run_o (expect_token ts TOpenParen)) (\<lambda>_.
     bind_o (parse_column_ident fuel ts) (\<lambda>column_name.
     bind_o (run_o (expect_token ts TCloseParen)) (\<lambda>_.
     ret_o (CreateIndex index_name if_not_exists table_name column_name))))))))))"

section \<open>INSERT\<close>

definition insert_prefix :: "token list \<Rightarrow> (nat, on_conflict) sm" where
  "insert_prefix ts =
     if_token ts TReplace (ret_s ReplaceC)
       (bind_s (expect_token ts TInsert) (\<lambda>_.
        if_token ts TOr
          (if_token ts TReplace (ret_s ReplaceC)
            (if_token ts TIgnore (ret_s IgnoreC)
              (fail_s (SqlSyntax ''Expected REPLACE or IGNORE after INSERT OR''))))
          (ret_s AbortC)))"

definition value_row :: "float_env \<Rightarrow> nat \<Rightarrow> token list \<Rightarrow> (nat, sql_value list) om" where
  "value_row env fuel ts =
     bind_o (run_o (expect_token ts TOpenParen)) (\<lambda>_.
     bind_o (comma_loop fuel ts (parse_value_literal env fuel ts) []) (\<lambda>row.
     bind_o (run_o (expect_token ts TCloseParen)) (\<lambda>_. ret_o row)))"

fun more_rows :: "float_env \<Rightarrow> nat \<Rightarrow> token list \<Rightarrow> sql_value list list \<Rightarrow> (nat, sql_value list list) om" where
  "more_rows env 0 ts rows = (\<lambda>_. None)"
| "more_rows env (Suc fuel) ts rows =
     if_token ts TComma (bind_o (value_row env fuel ts) (\<lambda>row. more_rows env fuel ts (rows @ [row]))) (ret_o rows)"

text \<open>\<^verbatim>\<open>column = value\<close>.\<close>

definition parse_assignment :: "float_env \<Rightarrow> nat \<Rightarrow> token list \<Rightarrow> (nat, string \<times> sql_value) om" where
  "parse_assignment env fuel ts =
     bind_o (run_o (parse_identifier_or_keyword ts)) (\<lambda>col.
     bind_o (run_o (expect_token ts TEquals)) (\<lambda>_.
     bind_o (parse_value_literal env fuel ts) (\<lambda>val. ret_o (col, val))))"

definition conflict_target :: "token list \<Rightarrow> (nat, unit) sm" where
  "conflict_target ts =
     if_token ts TOpenParen
       (bind_s (parse_identifier_or_keyword ts) (\<lambda>_. expect_token ts TCloseParen))
       (ret_s ())"

definition on_conflict_clause :: "float_env \<Rightarrow> nat \<Rightarrow> token list \<Rightarrow> on_conflict \<Rightarrow> (nat, on_conflict) om" where
  "on_conflict_clause env fuel ts action cursor =
     (if check_token ts cursor TOn \<and> check_token ts (cursor + 1) TConflict
      then bind_o (run_o (conflict_target ts)) (\<lambda>_.
           if_token ts TReplace (ret_o ReplaceC)
            (if_token ts TDo
              (if_token ts TNothing (ret_o IgnoreC)
                (if_token ts TUpdate
                  (bind_o (run_o (expect_token ts TSet)) (\<lambda>_.
                   bind_o (comma_while fuel ts (parse_assignment env fuel ts) []) (\<lambda>updates. ret_o (DoUpdate updates))))
                  (ret_o action)))
              (ret_o action))) (cursor + 2)
      else ret_o action cursor)"

definition parse_insert :: "float_env \<Rightarrow> nat \<Rightarrow> token list \<Rightarrow> (nat, statement) om" where
  "parse_insert env fuel ts =
     bind_o (run_o (insert_prefix ts)) (\<lambda>action.
     bind_o (run_o (expect_token ts TInto)) (\<lambda>_.
     bind_o (run_o (expect_ident ts ''Expected table name, got {other:?}'')) (\<lambda>table_name.
     bind_o (if_token ts TOpenParen
              (bind_o (closed_list fuel ts TCloseParen None (run_o (parse_identifier_or_keyword ts)) []) (\<lambda>cols. ret_o (Some cols)))
              (ret_o None)) (\<lambda>columns.
     bind_o (run_o (expect_token ts TValues)) (\<lambda>_.
     bind_o (run_o (expect_token ts TOpenParen)) (\<lambda>_.
     bind_o (closed_list fuel ts TCloseParen (Some (SqlSyntax ''Expected ',' or ')' in VALUES clause'')) (parse_value_literal env fuel ts) []) (\<lambda>values.
     bind_o (more_rows env fuel ts [values]) (\<lambda>rows.
     bind_o (on_conflict_clause env fuel ts action) (\<lambda>conflict_action.
     bind_o (parse_optional_returning env fuel ts) (\<lambda>returning.
     if length rows > 1 then ret_o (InsertMany table_name columns rows conflict_action returning)
     else ret_o (Insert table_name columns values conflict_action returning)))))))))))"

section \<open>UPDATE, DELETE, ALTER and DROP\<close>

definition parse_update :: "float_env \<Rightarrow> nat \<Rightarrow> token list \<Rightarrow> (nat, statement) om" where
  "parse_update env fuel ts =
     bind_o (run_o (put_s Suc)) (\<lambda>_.
     bind_o (run_o (expect_ident ts ''Expected table name, got {other:?}'')) (\<lambda>table_name.
     bind_o (run_o (expect_token ts TSet)) (\<lambda>_.
     bind_o (comma_while fuel ts (parse_assignment env fuel ts) []) (\<lambda>assignments.
     if assignments = [] then fail_o (SqlSyntax ''UPDATE statement missing SET assignments'')
     else bind_o (parse_optional_where_clause env fuel ts) (\<lambda>where_clause.
          bind_o (parse_optional_returning env fuel ts) (\<lambda>returning.
          ret_o (Update table_name assignments where_clause returning)))))))"

definition parse_delete :: "float_env \<Rightarrow> nat \<Rightarrow> token list \<Rightarrow> (nat, statement) om" where
  "parse_delete env fuel ts =
     bind_o (run_o (put_s Suc)) (\<lambda>_.
     bind_o (run_o (expect_token ts TFrom)) (\<lambda>_.
     bind_o (run_o (expect_ident ts ''Expected table name in DELETE FROM, got {other:?}'')) (\<lambda>table_name.
     bind_o (parse_optional_where_clause env fuel ts) (\<lambda>where_clause.
     bind_o (parse_optional_returning env fuel ts) (\<lambda>returning.
     ret_o (Delete table_name where_clause returning))))))"

text \<open>\<^verbatim>\<open>old TO new\<close>.\<close>

definition rename_column :: "token list \<Rightarrow> string \<Rightarrow> (nat, statement) sm" where
  "rename_column ts table_name =
     bind_s (parse_identifier_or_keyword ts) (\<lambda>old_col.
     bind_s (expect_token ts TTo) (\<lambda>_.
     bind_s (parse_identifier_or_keyword ts) (\<lambda>new_col.
     ret_s (AlterTableRenameColumn table_name old_col new_col))))"

definition parse_alter :: "nat \<Rightarrow> token list \<Rightarrow> (nat, statement) om" where
  "parse_alter fuel ts =
     bind_o (run_o (put_s Suc)) (\<lambda>_.
     bind_o (run_o (expect_token ts TTable)) (\<lambda>_.
     bind_o (run_o (parse_identifier_or_keyword ts)) (\<lambda>table_name.
     if_token ts TAdd
       (bind_o (run_o (skip_token ts TColumn)) (\<lambda>_.
        bind_o (parse_column_def fuel ts) (\<lambda>col. ret_o (AlterTableAddColumn table_name col))))
       (if_token ts TRename
         (if_token ts TColumn (run_o (rename_column ts table_name))
           (if_token ts TTo
             (bind_o (run_o (parse_identifier_or_keyword ts)) (\<lambda>new_table. ret_o (AlterTableRenameTable table_name new_table)))
             (run_o (rename_column ts table_name))))
         (if_token ts TDrop
           (bind_o (run_o (skip_token ts TColumn)) (\<lambda>_.
            bind_o (run_o (parse_identifier_or_keyword ts)) (\<lambda>col. ret_o (AlterTableDropColumn table_name col))))
           (fail_o (SqlSyntax ''Expected ADD, RENAME, or DROP in ALTER TABLE statement'')))))))"

definition drop_named :: "token list \<Rightarrow> (string \<Rightarrow> bool \<Rightarrow> statement) \<Rightarrow> (nat, statement) sm" where
  "drop_named ts mk =
     bind_s (if_exists_clause ts) (\<lambda>if_exists.
     bind_s (parse_identifier_or_keyword ts) (\<lambda>name. ret_s (mk name if_exists)))"

definition parse_drop :: "token list \<Rightarrow> (nat, statement) sm" where
  "parse_drop ts =
     bind_s (put_s Suc) (\<lambda>_.
     if_token ts TView (drop_named ts DropView)
      (if_token ts TIndex (drop_named ts DropIndex)
        (bind_s (expect_token ts TTable) (\<lambda>_. drop_named ts DropTable))))"

section \<open>Transactions and maintenance\<close>

definition parse_begin :: "token list \<Rightarrow> (nat, statement) sm" where
  "parse_begin ts = bind_s (put_s Suc) (\<lambda>_. bind_s (skip_token ts TTransaction) (\<lambda>_. ret_s BeginTransaction))"

definition parse_commit :: "token list \<Rightarrow> (nat, statement) sm" where
  "parse_commit ts = bind_s (put_s Suc) (\<lambda>_. bind_s (skip_token ts TTransaction) (\<lambda>_. ret_s CommitTransaction))"

definition parse_rollback :: "token list \<Rightarrow> (nat, statement) sm" where
  "parse_rollback ts =
     bind_s (put_s Suc) (\<lambda>_.
     if_token ts TTo
       (bind_s (skip_token ts TSavepoint) (\<lambda>_.
        bind_s (parse_identifier_or_keyword ts) (\<lambda>name. ret_s (RollbackToSavepoint name))))
       (bind_s (skip_token ts TTransaction) (\<lambda>_. ret_s RollbackTransaction)))"

definition parse_savepoint :: "token list \<Rightarrow> (nat, statement) sm" where
  "parse_savepoint ts =
     bind_s (put_s Suc) (\<lambda>_. bind_s (parse_identifier_or_keyword ts) (\<lambda>name. ret_s (Savepoint name)))"

definition parse_release :: "token list \<Rightarrow> (nat, statement) sm" where
  "parse_release ts =
     bind_s (put_s Suc) (\<lambda>_.
     bind_s (skip_token ts TSavepoint) (\<lambda>_.
     bind_s (parse_identifier_or_keyword ts) (\<lambda>name. ret_s (ReleaseSavepoint name))))"

definition parse_vacuum :: "token list \<Rightarrow> (nat, statement) sm" where
  "parse_vacuum ts =
     bind_s (put_s Suc) (\<lambda>_.
     if_token ts TInto
       (bind_s (expect_string ts ''Expected destination file path string after VACUUM INTO, got {other:?}'') (\<lambda>s.
        ret_s (Vacuum (Some s))))
       (ret_s (Vacuum None)))"

definition parse_analyze :: "token list \<Rightarrow> (nat, statement) sm" where
  "parse_analyze ts =
     bind_s (put_s Suc) (\<lambda>_ cursor.
       if cursor < length ts \<and> \<not> check_token ts cursor TSemicolon
       then bind_s (parse_identifier_or_keyword ts) (\<lambda>t. ret_s (Analyze (Some t))) cursor
       else ret_s (Analyze None) cursor)"

text \<open>The words between \<^verbatim>\<open>EXPLAIN\<close> and the statement.\<close>

definition explain_words :: "token list \<Rightarrow> (nat, bool) sm" where
  "explain_words ts =
     if_token ts TPlan (ret_s True)
      (if_word ts ''QUERY''
        (if_token ts TPlan (ret_s True) (if_word ts ''PLAN'' (ret_s True) (ret_s False)))
        (if_word ts ''PLAN'' (ret_s True) (ret_s False)))"

definition parse_explain :: "float_env \<Rightarrow> nat \<Rightarrow> token list \<Rightarrow> (nat, statement) om" where
  "parse_explain env fuel ts =
     bind_o (run_o (put_s Suc)) (\<lambda>_.
     bind_o (run_o (explain_words ts)) (\<lambda>query_plan.
     bind_o (\<lambda>cursor. case get_token_peek ts cursor of
         Inl e \<Rightarrow> fail_o e cursor
       | Inr t \<Rightarrow>
           if t = TSelect then parse_select env fuel ts cursor
           else if t = TInsert then parse_insert env fuel ts cursor
           else if t = TUpdate then parse_update env fuel ts cursor
           else if t = TDelete then parse_delete env fuel ts cursor
           else fail_o (SqlSyntax ''EXPLAIN does not support {other:?}'') cursor) (\<lambda>inner_stmt.
     ret_o (Explain inner_stmt query_plan))))"

end
