(* ===== verification/Sql_Statement.thy ===== *)
theory Sql_Statement
  imports Sql_Parser
begin

text \<open>
  Graph statements, common table expressions and the entry points \<^verbatim>\<open>parse_tokens\<close> and \<^verbatim>\<open>parse_sql\<close> of
  \<^verbatim>\<open>src/src/sql/parser.rs\<close>.
\<close>

section \<open>Graph patterns\<close>

text \<open>\<^verbatim>\<open>(var [: label])\<close>.\<close>

definition node_pattern :: "token list \<Rightarrow> (nat, string \<times> string option) sm" where
  "node_pattern ts =
     bind_s (expect_token ts TOpenParen) (\<lambda>_.
     bind_s (parse_identifier_or_keyword ts) (\<lambda>var.
     bind_s (if_token ts TColon (bind_s (parse_identifier_or_keyword ts) (\<lambda>l. ret_s (Some l))) (ret_s None)) (\<lambda>lbl.
     bind_s (expect_token ts TCloseParen) (\<lambda>_. ret_s (var, lbl)))))"

definition rel_arrow :: "token list \<Rightarrow> (nat, unit) sm" where
  "rel_arrow ts =
     if_token ts TArrow (ret_s ())
       (if_token ts TDash (bind_s (skip_token ts TGreaterThan) (\<lambda>_. ret_s ())) (ret_s ()))"

definition rel_pattern :: "token list \<Rightarrow> (nat, string option \<times> string option) sm" where
  "rel_pattern ts =
     if_token ts TArrow (ret_s (None, None))
      (if_token ts TDash
        (if_token ts TOpenBracket
          (bind_s (\<lambda>cursor.
              if \<not> check_token ts cursor TColon \<and> \<not> check_token ts cursor TCloseBracket
              then bind_s (parse_identifier_or_keyword ts) (\<lambda>v. ret_s (Some v)) cursor
              else ret_s None cursor) (\<lambda>rel_var.
           bind_s (if_token ts TColon (bind_s (parse_identifier_or_keyword ts) (\<lambda>l. ret_s (Some l))) (ret_s None)) (\<lambda>rel_label.
           bind_s (expect_token ts TCloseBracket) (\<lambda>_.
           bind_s (rel_arrow ts) (\<lambda>_. ret_s (rel_var, rel_label))))))
          (bind_s (skip_token ts TGreaterThan) (\<lambda>_. ret_s (None, None))))
        (ret_s (None, None)))"

definition return_item :: "token list \<Rightarrow> (nat, string) sm" where
  "return_item ts =
     if_token ts TAsterisk (ret_s ''*'')
       (bind_s (parse_identifier_or_keyword ts) (\<lambda>item.
        if_token ts TDot
          (bind_s (parse_identifier_or_keyword ts) (\<lambda>sub. ret_s (item @ ''.'' @ sub)))
          (ret_s item)))"

definition parse_graph_match :: "float_env \<Rightarrow> nat \<Rightarrow> token list \<Rightarrow> (nat, statement) om" where
  "parse_graph_match env fuel ts =
     bind_o (run_o (skip_token ts TGraph)) (\<lambda>_.
     bind_o (if_token ts TMatch (ret_o ()) (if_word ts ''MATCH'' (ret_o ()) (ret_o ()))) (\<lambda>_.
     bind_o (run_o (node_pattern ts)) (\<lambda>(source_var, source_label).
     bind_o (run_o (rel_pattern ts)) (\<lambda>(rel_var, rel_label).
     bind_o (run_o (node_pattern ts)) (\<lambda>(target_var, target_label).
     bind_o (parse_optional_where_clause env fuel ts) (\<lambda>where_clause.
     bind_o (if_token ts TReturn (comma_loop fuel ts (run_o (return_item ts)) []) (ret_o [])) (\<lambda>items.
     let return_items = (if items = [] then [source_var, case rel_var of None \<Rightarrow> ''edge'' | Some v \<Rightarrow> v, target_var] else items) in
     ret_o (GraphMatch source_var source_label rel_var rel_label target_var target_label where_clause return_items))))))))"

section \<open>Graph statements\<close>

fun algorithm_options :: "float_env \<Rightarrow> nat \<Rightarrow> token list \<Rightarrow> (string \<rightharpoonup> string) \<Rightarrow> (nat, string \<rightharpoonup> string) om" where
  "algorithm_options env 0 ts options = (\<lambda>_. None)"
| "algorithm_options env (Suc fuel) ts options = (\<lambda>cursor.
     if cursor < length ts \<and> \<not> check_token ts cursor TSemicolon
     then bind_o (run_o (parse_identifier_or_keyword ts)) (\<lambda>key.
          bind_o (run_o (skip_token ts TEquals)) (\<lambda>_.
          bind_o (run_o (get_token ts)) (\<lambda>t.
          bind_o (case t of FloatLit f \<Rightarrow> ret_o (show_f64 env f) | IntLit i \<Rightarrow> ret_o (show_i64 i)
                  | StringLit s \<Rightarrow> ret_o s | Ident s \<Rightarrow> ret_o s
                  | _ \<Rightarrow> fail_o (SqlSyntax ''Unexpected value for option {key}: {other:?}'')) (\<lambda>val.
          algorithm_options env fuel ts (options(to_lowercase key \<mapsto> val)))))) cursor
     else ret_o options cursor)"

definition parse_graph_algorithm :: "float_env \<Rightarrow> nat \<Rightarrow> token list \<Rightarrow> (nat, statement) om" where
  "parse_graph_algorithm env fuel ts =
     bind_o (run_o (parse_identifier_or_keyword ts)) (\<lambda>algo_name.
     bind_o (algorithm_options env fuel ts (\<lambda>_. None)) (\<lambda>options.
     ret_o (GraphAlgorithm (to_uppercase algo_name) options)))"

definition parse_graph_node :: "token list \<Rightarrow> (nat, statement) sm" where
  "parse_graph_node ts =
     bind_s (expect_int ts ''Expected node ID integer, got {other:?}'') (\<lambda>nid.
     bind_s (if_word ts ''LABEL'' (expect_label ts ''Expected label name, got {other:?}'') (ret_s ''Default'')) (\<lambda>lbl.
     bind_s (if_word ts ''PROPERTIES'' (expect_string ts ''Expected properties string, got {other:?}'') (ret_s [])) (\<lambda>props.
     ret_s (GraphInsertNode nid lbl props))))"

text \<open>The optional arrow or \<^verbatim>\<open>TO\<close> between the ends of an edge.\<close>

definition edge_arrow :: "token list \<Rightarrow> (nat, unit) sm" where
  "edge_arrow ts =
     if_token ts TArrow (ret_s ())
       (\<lambda>cursor.
          if check_token ts cursor TDash \<and> check_token ts (cursor + 1) TGreaterThan then ret_s () (cursor + 2)
          else if_token ts TTo (ret_s ()) (if_word ts ''TO'' (ret_s ()) (ret_s ())) cursor)"

definition expect_weight :: "float_env \<Rightarrow> token list \<Rightarrow> (nat, u32) sm" where
  "expect_weight env ts =
     bind_s (get_token ts) (\<lambda>t. case t of FloatLit w \<Rightarrow> ret_s (f32_of_f64 env w) | IntLit w \<Rightarrow> ret_s (f32_of_i64 env w)
       | _ \<Rightarrow> fail_s (SqlSyntax ''Expected weight number, got {other:?}''))"

fun edge_options :: "float_env \<Rightarrow> nat \<Rightarrow> token list \<Rightarrow> string \<times> u32 \<times> string \<Rightarrow> (nat, string \<times> u32 \<times> string) om" where
  "edge_options env 0 ts opts = (\<lambda>_. None)"
| "edge_options env (Suc fuel) ts (lbl, weight, props) =
     if_word ts ''LABEL''
       (bind_o (run_o (expect_label ts ''Expected edge label, got {other:?}'')) (\<lambda>l. edge_options env fuel ts (l, weight, props)))
      (if_word ts ''WEIGHT''
        (bind_o (run_o (expect_weight env ts)) (\<lambda>w. edge_options env fuel ts (lbl, w, props)))
       (if_word ts ''PROPERTIES''
         (bind_o (run_o (expect_string ts ''Expected properties string, got {other:?}'')) (\<lambda>p. edge_options env fuel ts (lbl, weight, p)))
         (ret_o (lbl, weight, props))))"

definition parse_graph_edge :: "float_env \<Rightarrow> nat \<Rightarrow> token list \<Rightarrow> (nat, statement) om" where
  "parse_graph_edge env fuel ts =
     bind_o (run_o (expect_int ts ''Expected from_id integer, got {other:?}'')) (\<lambda>from_id.
     bind_o (run_o (edge_arrow ts)) (\<lambda>_.
     bind_o (run_o (expect_int ts ''Expected to_id integer, got {other:?}'')) (\<lambda>to_id.
     bind_o (edge_options env fuel ts (''CONNECTS'', 0x3F800000, [])) (\<lambda>(lbl, weight, props).
     ret_o (GraphInsertEdge from_id to_id lbl weight props)))))"

definition depth_of :: "u64 \<Rightarrow> nat" where "depth_of d = (if sint d < 1 then 1 else unat d)"

fun traverse_options :: "nat \<Rightarrow> token list \<Rightarrow> graph_direction \<times> string option \<times> nat \<Rightarrow>
    (nat, graph_direction \<times> string option \<times> nat) om" where
  "traverse_options 0 ts opts = (\<lambda>_. None)"
| "traverse_options (Suc fuel) ts (dir, lbl, depth) =
     if_word ts ''OUTGOING'' (traverse_options fuel ts (Outgoing, lbl, depth))
    (if_word ts ''INCOMING'' (traverse_options fuel ts (Incoming, lbl, depth))
    (if_word ts ''BOTH'' (traverse_options fuel ts (Both, lbl, depth))
    (if_word ts ''LABEL''
       (bind_o (run_o (expect_label ts ''Expected label name in GRAPH TRAVERSE, got {other:?}'')) (\<lambda>l. traverse_options fuel ts (dir, Some l, depth)))
    (\<lambda>cursor.
       if peek_ident ts (\<lambda>w. eq_ignore_ascii_case w ''MAX_DEPTH'' \<or> eq_ignore_ascii_case w ''DEPTH'') cursor
       then bind_o (run_o (expect_int ts ''Expected integer depth, got {other:?}'')) (\<lambda>d. traverse_options fuel ts (dir, lbl, depth_of d)) (cursor + 1)
       else if_token ts (StringLit []) (traverse_options fuel ts (dir, Some [], depth)) (ret_o (dir, lbl, depth)) cursor))))"

definition parse_traverse :: "float_env \<Rightarrow> nat \<Rightarrow> token list \<Rightarrow> (nat, statement) om" where
  "parse_traverse env fuel ts =
     bind_o (run_o (expect_token ts TFrom)) (\<lambda>_.
     bind_o (run_o (expect_int ts ''Expected integer start_id for GRAPH TRAVERSE, got {other:?}'')) (\<lambda>start_id.
     bind_o (traverse_options fuel ts (Both, None, 1)) (\<lambda>(dir, lbl, max_depth).
     bind_o (parse_optional_where_clause env fuel ts) (\<lambda>where_clause.
     ret_o (GraphTraverse start_id dir lbl max_depth where_clause)))))"

definition parse_shortest_path :: "token list \<Rightarrow> (nat, statement) sm" where
  "parse_shortest_path ts =
     bind_s (expect_token ts TFrom) (\<lambda>_.
     bind_s (expect_int ts ''Expected integer start_id for GRAPH SHORTEST_PATH, got {other:?}'') (\<lambda>start_id.
     bind_s (if_token ts TTo (ret_s ()) (if_token ts TInto (ret_s ()) (if_word ts ''TO'' (ret_s ()) (ret_s ())))) (\<lambda>_.
     bind_s (expect_int ts ''Expected integer end_id for GRAPH SHORTEST_PATH, got {other:?}'') (\<lambda>end_id.
     ret_s (GraphShortestPath start_id end_id)))))"

definition parse_graph_command :: "float_env \<Rightarrow> nat \<Rightarrow> token list \<Rightarrow> (nat, statement) om" where
  "parse_graph_command env fuel ts cursor =
     (case get_token_peek ts cursor of
        Inr (Ident cmd) \<Rightarrow>
          if eq_ignore_ascii_case cmd ''TRAVERSE'' then parse_traverse env fuel ts (cursor + 1)
          else if eq_ignore_ascii_case cmd ''SHORTEST_PATH'' \<or> eq_ignore_ascii_case cmd ''PATH''
          then run_o (parse_shortest_path ts) (cursor + 1)
          else fail_o (SqlSyntax ''Expected INSERT, TRAVERSE, SHORTEST_PATH, or MATCH after GRAPH, got {cmd}'') cursor
      | _ \<Rightarrow> fail_o (SqlSyntax ''Expected INSERT, TRAVERSE, SHORTEST_PATH, or MATCH after GRAPH'') cursor)"

definition parse_graph :: "float_env \<Rightarrow> nat \<Rightarrow> token list \<Rightarrow> (nat, statement) om" where
  "parse_graph env fuel ts =
     bind_o (run_o (put_s Suc)) (\<lambda>_ cursor.
       if check_token ts cursor TMatch \<or> peek_ident ts (\<lambda>w. eq_ignore_ascii_case w ''MATCH'') cursor
       then parse_graph_match env fuel ts cursor
       else if_token ts TAlgorithm (parse_graph_algorithm env fuel ts)
         (if_word ts ''ALGORITHM'' (parse_graph_algorithm env fuel ts)
           (if_token ts TInsert
             (if_token ts TNode (run_o (parse_graph_node ts))
               (if_token ts TEdge (parse_graph_edge env fuel ts)
                 (fail_o (SqlSyntax ''Expected NODE or EDGE after GRAPH INSERT''))))
             (parse_graph_command env fuel ts))) cursor)"

section \<open>Common table expressions\<close>

text \<open>The end of a parenthesis: the depth left and the cursor.\<close>

fun skip_parens :: "token list \<Rightarrow> nat \<Rightarrow> nat \<Rightarrow> nat \<times> nat" where
  "skip_parens [] depth cursor = (depth, cursor)"
| "skip_parens (t # rest) depth cursor =
     (if depth = 0 then (depth, cursor)
      else skip_parens rest (if t = TOpenParen then depth + 1 else if t = TCloseParen then depth - 1 else depth) (cursor + 1))"

definition token_slice :: "token list \<Rightarrow> nat \<Rightarrow> nat \<Rightarrow> token list result" where
  "token_slice ts lo hi = (if lo \<le> hi \<and> hi \<le> length ts then Inr (take (hi - lo) (drop lo ts)) else Inl Panic)"

text \<open>A parser of whole token lists, as a step of the parser around it.\<close>

definition sub_parse :: "(token list \<Rightarrow> statement result option) \<Rightarrow> token list \<Rightarrow> (nat, statement) om" where
  "sub_parse sub ts cursor = map_option (\<lambda>r. (r, cursor)) (sub ts)"

definition inner_query :: "token list \<Rightarrow> (token list \<Rightarrow> statement result option) \<Rightarrow> (nat, statement) om" where
  "inner_query ts sub start_inner =
     (case skip_parens (drop start_inner ts) 1 start_inner of (depth, cursor) \<Rightarrow>
        if depth \<noteq> 0 then fail_o (SqlSyntax ''Unclosed parenthesis in CTE query'') cursor
        else bind_o (run_o (lift_s (token_slice ts start_inner (cursor - 1)))) (sub_parse sub) cursor)"

definition parse_cte :: "nat \<Rightarrow> token list \<Rightarrow> (token list \<Rightarrow> statement result option) \<Rightarrow> (nat, cte_clause) om" where
  "parse_cte fuel ts sub =
     bind_o (run_o (expect_ident ts ''Expected CTE name, got {other:?}'')) (\<lambda>name.
     bind_o (if_token ts TOpenParen
              (bind_o (comma_while fuel ts (run_o (parse_identifier_or_keyword ts)) []) (\<lambda>cols.
               bind_o (run_o (expect_token ts TCloseParen)) (\<lambda>_. ret_o (Some cols))))
              (ret_o None)) (\<lambda>columns.
     bind_o (run_o (expect_token ts TAs)) (\<lambda>_.
     bind_o (run_o (expect_token ts TOpenParen)) (\<lambda>_.
     bind_o (inner_query ts sub) (\<lambda>query. ret_o (CteClause name columns query))))))"

definition parse_with_cte :: "nat \<Rightarrow> token list \<Rightarrow> (token list \<Rightarrow> statement result option) \<Rightarrow> (nat, statement) om" where
  "parse_with_cte fuel ts sub =
     bind_o (run_o (expect_token ts TWith)) (\<lambda>_.
     bind_o (comma_loop fuel ts (parse_cte fuel ts sub) []) (\<lambda>ctes cursor.
       bind_o (run_o (lift_s (token_slice ts cursor (length ts)))) (\<lambda>main_tokens.
       bind_o (sub_parse sub main_tokens) (\<lambda>main_query.
       bind_o (run_o (put_s (\<lambda>_. length ts))) (\<lambda>_.
       ret_o (WithCte ctes main_query)))) cursor))"

section \<open>Statements\<close>

definition parse_statement :: "float_env \<Rightarrow> nat \<Rightarrow> token list \<Rightarrow> (token list \<Rightarrow> statement result option) \<Rightarrow> (nat, statement) om" where
  "parse_statement env fuel ts sub =
     (let t = hd ts in
      if t = TCreate then
        (if check_token ts 1 TIndex then parse_create_index fuel ts
         else if check_token ts 1 TView then parse_create_view env fuel ts
         else parse_create_table fuel ts)
      else if t = TAlter then parse_alter fuel ts
      else if t = TInsert \<or> t = TReplace then parse_insert env fuel ts
      else if t = TSelect then parse_select env fuel ts
      else if t = TUpdate then parse_update env fuel ts
      else if t = TDelete then parse_delete env fuel ts
      else if t = TDrop then run_o (parse_drop ts)
      else if t = TBegin then run_o (parse_begin ts)
      else if t = TCommit then run_o (parse_commit ts)
      else if t = TRollback then run_o (parse_rollback ts)
      else if t = TGraph then parse_graph env fuel ts
      else if t = TMatch then parse_graph_match env fuel ts
      else if t = TExplain then parse_explain env fuel ts
      else if t = TVacuum then run_o (parse_vacuum ts)
      else if t = TAnalyze then run_o (parse_analyze ts)
      else if t = TWith then parse_with_cte fuel ts sub
      else if t = TPragma then run_o (parse_pragma env ts)
      else if t = TSavepoint then run_o (parse_savepoint ts)
      else if t = TRelease then run_o (parse_release ts)
      else fail_o (SqlSyntax ''Unexpected statement starting with {other:?}''))"

text \<open>What may follow a statement: semicolons. A cursor past the end would be an index out of range in
  the source.\<close>

definition statement_end :: "token list \<Rightarrow> statement \<Rightarrow> nat \<Rightarrow> statement result" where
  "statement_end ts stmt cursor =
     (let cursor = cursor + length (takeWhile (\<lambda>t. t = TSemicolon) (drop cursor ts)) in
      if cursor = length ts then Inr stmt
      else if cursor < length ts then Inl (SqlSyntax ''Unexpected trailing SQL token {:?}'')
      else Inl Panic)"

fun parse_tokens :: "float_env \<Rightarrow> nat \<Rightarrow> token list \<Rightarrow> statement result option" where
  "parse_tokens env 0 ts = None"
| "parse_tokens env (Suc fuel) ts =
     (if ts = [] then Some (Inl (SqlSyntax ''Empty SQL statement''))
      else case parse_statement env fuel ts (parse_tokens env fuel) 0 of
             None \<Rightarrow> None
           | Some (Inl e, cursor) \<Rightarrow> Some (Inl e)
           | Some (Inr stmt, cursor) \<Rightarrow> Some (statement_end ts stmt cursor))"

definition parse_sql :: "float_env \<Rightarrow> nat \<Rightarrow> string \<Rightarrow> statement result option" where
  "parse_sql env fuel sql =
     (case tokenize env sql of Inl e \<Rightarrow> Some (Inl e) | Inr ts \<Rightarrow> parse_tokens env fuel ts)"

end
