(* ===== verification/Sql_Parse_Total.thy ===== *)
theory Sql_Parse_Total
  imports Sql_Statement
begin

text \<open>
  The parser returns. \<open>good n d m c\<close> says of a parsing step \<open>m\<close> at cursor \<open>c\<close> over \<open>n\<close> tokens that it
  has enough fuel, does not panic, and on success has moved the cursor by at least \<open>d\<close>, not past the
  end.
\<close>

named_theorems good_intros \<open>progress of parsing steps, weakened to what is asked for\<close>
named_theorems step_intros \<open>the progress of the first step of a sequence\<close>

section \<open>Progress\<close>

definition good :: "nat \<Rightarrow> nat \<Rightarrow> (nat, 'a) om \<Rightarrow> nat \<Rightarrow> bool" where
  "good n d m c \<longleftrightarrow>
     (case m c of
        None \<Rightarrow> False
      | Some (Inl e, _) \<Rightarrow> e \<noteq> Panic
      | Some (Inr _, c') \<Rightarrow> c + d \<le> c' \<and> c' \<le> n)"

text \<open>The same of a result; \<open>c\<close> is where the step began.\<close>

definition fine :: "nat \<Rightarrow> nat \<Rightarrow> nat \<Rightarrow> ((error + 'a) \<times> nat) option \<Rightarrow> bool" where
  "fine n d c r \<longleftrightarrow> good n d (\<lambda>_. r) c"

lemma good_fine: "good n d m c \<longleftrightarrow> fine n d c (m c)"
  by (simp add: fine_def good_def)

lemma fine_at: "good n d m (c + k) \<Longrightarrow> d' \<le> d + k \<Longrightarrow> fine n d' c (m (c + k))"
  by (auto simp: fine_def good_def split: option.splits prod.splits sum.splits)

definition step :: "nat \<Rightarrow> nat \<Rightarrow> (nat, 'a) om \<Rightarrow> nat \<Rightarrow> bool" where
  "step n d m c \<longleftrightarrow> good n d m c"

lemma good_weaken: "good n d m c \<Longrightarrow> d' \<le> d \<Longrightarrow> good n d' m c"
  by (auto simp: good_def split: option.splits prod.splits sum.splits)

lemma good_bind [good_intros]:
  assumes "step n d1 m c" "\<And>x c'. c + d1 \<le> c' \<Longrightarrow> c' \<le> n \<Longrightarrow> good n (d - (c' - c)) (f x) c'"
  shows "good n d (bind_o m f) c"
proof (cases "m c")
  case None
  then show ?thesis using assms(1) by (simp add: step_def good_def)
next
  case (Some rc)
  obtain r c' where rc: "rc = (r, c')" by (cases rc)
  show ?thesis
  proof (cases r)
    case (Inl e)
    then show ?thesis using assms(1) Some rc by (simp add: step_def good_def bind_o_def)
  next
    case (Inr x)
    then have c': "c + d1 \<le> c'" "c' \<le> n" using assms(1) Some rc by (simp_all add: step_def good_def)
    have "good n (d - (c' - c)) (f x) c'" by (rule assms(2) [OF c'])
    then show ?thesis using c' Some rc Inr by (auto simp: good_def bind_o_def split: option.splits prod.splits sum.splits)
  qed
qed

lemma good_ret [good_intros]: "d = 0 \<Longrightarrow> c \<le> n \<Longrightarrow> good n d (ret_o x) c"
  by (simp add: good_def)

lemma good_fail [good_intros]: "e \<noteq> Panic \<Longrightarrow> good n d (fail_o e) c"
  by (simp add: good_def)

lemma check_token_less: "check_token ts c t \<Longrightarrow> c < length ts"
  by (simp add: check_token_def)

lemma good_if_token [good_intros]:
  assumes "c < length ts \<Longrightarrow> good (length ts) (d - 1) yes (c + 1)" "good (length ts) d no c"
  shows "good (length ts) d (if_token ts t yes no) c"
  using assms check_token_less [of ts c t]
  by (auto simp: good_def if_token_def split: option.splits prod.splits sum.splits)

lemma good_when_token [good_intros]:
  assumes "c < length ts \<Longrightarrow> good n d yes c" "good n d no c"
  shows "good n d (when_token ts t yes no) c"
  using assms check_token_less [of ts c t] by (simp add: when_token_def good_def)

lemma good_if_word [good_intros]:
  assumes "c < length ts \<Longrightarrow> good (length ts) (d - 1) yes (c + 1)" "good (length ts) d no c"
  shows "good (length ts) d (if_word ts w yes no) c"
  using assms
  by (auto simp: good_def if_word_def peek_ident_def get_token_peek_def split: option.splits prod.splits sum.splits if_splits)

lemma good_prod [good_intros]: "good n d (f (fst p) (snd p)) c \<Longrightarrow> good n d (case p of (a, b) \<Rightarrow> f a b) c"
  by (cases p) simp

lemma run_bind: "run_o (bind_s m f) = bind_o (run_o m) (\<lambda>x. run_o (f x))"
  by (auto simp: fun_eq_iff bind_o_def bind_s_def split: prod.splits sum.splits)

lemma run_simps: "run_o (ret_s x) = ret_o x" "run_o (fail_s e) = fail_o e"
  "run_o (if_token ts t m m') = if_token ts t (run_o m) (run_o m')"
  "run_o (if_word ts w m m') = if_word ts w (run_o m) (run_o m')"
  by (simp_all add: fun_eq_iff if_token_def if_word_def)

text \<open>Both forms of a fact about a step.\<close>

lemma step_good: "good n d m c \<Longrightarrow> step n d m c" by (simp add: step_def)

lemma step_0 [step_intros]:
  "good n 0 (if_token ts t yes no) c \<Longrightarrow> step n 0 (if_token ts t yes no) c"
  "good n 0 (when_token ts t yes no) c \<Longrightarrow> step n 0 (when_token ts t yes no) c"
  "good n 0 (if_word ts w yes no) c \<Longrightarrow> step n 0 (if_word ts w yes no) c"
  "good n 0 (ret_o x) c \<Longrightarrow> step n 0 (ret_o x) c"
  by (simp_all add: step_def)

lemma get_step [step_intros]: "c \<le> length ts \<Longrightarrow> step (length ts) 1 (run_o (get_token ts)) c"
  by (simp add: step_def good_def get_token_def)

lemma expect_step [step_intros]: "c \<le> length ts \<Longrightarrow> step (length ts) 1 (run_o (expect_token ts t)) c"
  by (simp add: step_def good_def expect_token_def)

lemma skip_step [step_intros]: "c \<le> length ts \<Longrightarrow> step (length ts) 0 (run_o (skip_token ts t)) c"
  by (simp add: step_def good_def skip_token_def check_token_def)

lemma good_of_step: "step n d m c \<Longrightarrow> d' \<le> d \<Longrightarrow> good n d' m c"
  by (simp add: step_def good_weaken)

lemmas get_good [good_intros] = good_of_step [OF get_step]
lemmas expect_good [good_intros] = good_of_step [OF expect_step]
lemmas skip_good [good_intros] = good_of_step [OF skip_step]

lemma ident_good: "c \<le> length ts \<Longrightarrow> good (length ts) 1 (run_o (parse_identifier_or_keyword ts)) c"
  unfolding parse_identifier_or_keyword_def run_bind
  by (rule good_bind, rule get_step, assumption)
    (auto simp: run_simps split: token.split option.split intro!: good_intros)

lemma expect_ident_good: "c \<le> length ts \<Longrightarrow> good (length ts) 1 (run_o (expect_ident ts msg)) c"
  unfolding expect_ident_def run_bind
  by (rule good_bind, rule get_step, assumption) (auto simp: run_simps split: token.split intro!: good_intros)

lemma expect_int_good: "c \<le> length ts \<Longrightarrow> good (length ts) 1 (run_o (expect_int ts msg)) c"
  unfolding expect_int_def run_bind
  by (rule good_bind, rule get_step, assumption) (auto simp: run_simps split: token.split intro!: good_intros)

lemma expect_string_good: "c \<le> length ts \<Longrightarrow> good (length ts) 1 (run_o (expect_string ts msg)) c"
  unfolding expect_string_def run_bind
  by (rule good_bind, rule get_step, assumption) (auto simp: run_simps split: token.split intro!: good_intros)

lemma expect_label_good: "c \<le> length ts \<Longrightarrow> good (length ts) 1 (run_o (expect_label ts msg)) c"
  unfolding expect_label_def run_bind
  by (rule good_bind, rule get_step, assumption) (auto simp: run_simps split: token.split intro!: good_intros)

lemmas word_goods = ident_good expect_ident_good expect_int_good expect_string_good expect_label_good
lemmas word_steps [step_intros] = word_goods [THEN step_good]
lemmas word_weak [good_intros] = word_goods [THEN good_weaken]

section \<open>Lists of items\<close>

lemma comma_loop_good:
  assumes "\<And>c'. c \<le> c' \<Longrightarrow> c' \<le> length ts \<Longrightarrow> good (length ts) 1 item c'" "c \<le> length ts" "length ts < c + fuel"
  shows "good (length ts) 1 (comma_loop fuel ts item acc) c"
  using assms
proof (induction fuel arbitrary: acc c)
  case (Suc fuel)
  have "good (length ts) 0 (comma_loop fuel ts item (acc @ [x])) (c' + 1)" if "c + 1 \<le> c'" "c' < length ts" for x c'
    using Suc.IH [of "c' + 1" "acc @ [x]"] Suc.prems that by (auto intro: good_weaken)
  then show ?case unfolding comma_loop.simps
    using Suc.prems by (intro good_bind [OF step_good] good_if_token good_ret) (auto intro: good_weaken)
qed simp

lemma comma_while_good:
  assumes "\<And>c'. c \<le> c' \<Longrightarrow> c' \<le> length ts \<Longrightarrow> good (length ts) 1 item c'" "c \<le> length ts" "length ts < c + fuel"
  shows "good (length ts) 0 (comma_while fuel ts item acc) c"
  using assms
proof (induction fuel arbitrary: acc c)
  case (Suc fuel)
  have "good (length ts) 0 (comma_while fuel ts item (acc @ [x])) (c' + 1)" if "c + 1 \<le> c'" "c' < length ts" for x c'
    using Suc.IH [of "c' + 1" "acc @ [x]"] Suc.prems that by auto
  then have "good (length ts) 0 (bind_o item (\<lambda>x. if_token ts TComma (comma_while fuel ts item (acc @ [x])) (ret_o (acc @ [x])))) c"
    using Suc.prems by (intro good_bind [OF step_good] good_if_token good_ret) auto
  then show ?case using Suc.prems(2) by (auto simp: good_def)
qed simp

lemma closed_list_good:
  assumes "\<And>c'. c \<le> c' \<Longrightarrow> c' \<le> length ts \<Longrightarrow> good (length ts) 1 item c'" "c \<le> length ts" "length ts < c + fuel"
    "err \<noteq> Some Panic"
  shows "good (length ts) 0 (closed_list fuel ts close err item acc) c"
  using assms
proof (induction fuel arbitrary: acc c)
  case (Suc fuel)
  have next_: "good (length ts) 0 (closed_list fuel ts close err item (acc @ [x])) c'" if "c + 1 \<le> c'" "c' \<le> length ts" for x c'
    using Suc.IH [of c' "acc @ [x]"] Suc.prems that by auto
  have "good (length ts) 0 (bind_o item (\<lambda>x. if_token ts TComma (closed_list fuel ts close err item (acc @ [x]))
      (if_token ts close (ret_o (acc @ [x]))
        (case err of Some e \<Rightarrow> fail_o e | None \<Rightarrow> closed_list fuel ts close err item (acc @ [x]))))) c"
  proof (intro good_bind [OF step_good] good_if_token good_ret)
    show "good (length ts) 1 item c" using Suc.prems by blast
    fix x c' assume c': "c + 1 \<le> c'" "c' \<le> length ts"
    show "good (length ts) (0 - (c' - c) - 1) (closed_list fuel ts close err item (acc @ [x])) (c' + 1)" if "c' < length ts"
      using next_ [of "c' + 1" x] c' that by simp
    show "good (length ts) (0 - (c' - c)) (case err of Some e \<Rightarrow> fail_o e | None \<Rightarrow> closed_list fuel ts close err item (acc @ [x])) c'"
      using next_ [of c' x] c' Suc.prems(4) by (auto split: option.split intro: good_fail)
  qed auto
  then show ?case using Suc.prems(2) by (auto simp: good_def)
qed simp

section \<open>Names, values and columns\<close>

lemma dotted_rest_good:
  "c \<le> length ts \<Longrightarrow> length ts < c + fuel \<Longrightarrow> good (length ts) 0 (dotted_rest fuel ts base) c"
proof (induction fuel arbitrary: base c)
  case (Suc fuel)
  have next_: "good (length ts) d (dotted_rest fuel ts base') c'" if "c < c'" "c' \<le> length ts" "d = 0" for base' c' d
    using Suc.IH [of c'] Suc.prems that by simp
  show ?case unfolding dotted_rest.simps using Suc.prems
    by - (rule good_intros step_intros next_ | (simp; fail) | arith)+
qed simp

lemma column_ident_good:
  assumes "c \<le> length ts" "length ts \<le> c + fuel"
  shows "good (length ts) 1 (parse_column_ident fuel ts) c"
  unfolding parse_column_ident_def
  by (insert assms, (rule good_intros step_intros good_weaken [OF dotted_rest_good] | (simp; fail) | arith)+)

lemmas column_ident_step [step_intros] = step_good [OF column_ident_good]
lemmas column_ident_weak [good_intros] = good_weaken [OF column_ident_good]

lemma vector_item_good: "c \<le> length ts \<Longrightarrow> good (length ts) 1 (run_o (vector_item env ts)) c"
  unfolding vector_item_def run_bind
  by (rule good_bind, rule get_step, assumption) (auto simp: run_simps split: token.split intro!: good_intros)

lemma closed_step:
  assumes "\<And>c'. c \<le> c' \<Longrightarrow> c' \<le> length ts \<Longrightarrow> good (length ts) 1 item c'" "c \<le> length ts" "length ts < c + fuel" "err \<noteq> Some Panic"
  shows "step (length ts) 0 (closed_list fuel ts close err item acc) c"
  using assms by (intro step_good closed_list_good)

lemma value_literal_good:
  assumes "c \<le> length ts" "length ts \<le> c + fuel"
  shows "good (length ts) 1 (parse_value_literal env fuel ts) c"
  unfolding parse_value_literal_def
proof (rule good_bind, rule get_step, rule assms)
  fix t c' assume c': "c + 1 \<le> c'" "c' \<le> length ts"
  have vec: "good (length ts) 0
    (bind_o (closed_list fuel ts TCloseBracket None (run_o (vector_item env ts)) []) (\<lambda>floats. ret_o (VectorV floats))) c'"
    using c' assms(2) by - (rule good_intros closed_step vector_item_good | (simp; fail) | arith)+
  show "good (length ts) (1 - (c' - c))
       (case t of Ident s \<Rightarrow> if eq_ignore_ascii_case s ''true'' then ret_o (IntegerV 1)
            else if eq_ignore_ascii_case s ''false'' then ret_o (IntegerV 0)
                 else fail_o (SqlSyntax ''Unexpected value token {other:?}'')
        | StringLit s \<Rightarrow> ret_o (TextV s) | IntLit i \<Rightarrow> ret_o (IntegerV i) | FloatLit f \<Rightarrow> ret_o (RealV f)
        | BlobLit b \<Rightarrow> ret_o (BlobV b) | VectorLit v \<Rightarrow> ret_o (VectorV v)
        | _ \<Rightarrow> if t = TNull then ret_o NullV
             else if t = TOpenBracket
                  then bind_o (closed_list fuel ts TCloseBracket None (run_o (vector_item env ts)) []) (\<lambda>floats. ret_o (VectorV floats))
                  else fail_o (SqlSyntax ''Unexpected value token {other:?}'')) c'"
    using vec c' by (auto split: token.split intro!: good_ret good_fail)
qed

lemmas value_literal_step [step_intros] = step_good [OF value_literal_good]
lemmas value_literal_weak [good_intros] = good_weaken [OF value_literal_good]

lemma call_args_good:
  assumes "\<And>c'. c \<le> c' \<Longrightarrow> c' \<le> length ts \<Longrightarrow> good (length ts) 1 (parse_func_arg_expr env fuel ts) c'"
    "c \<le> length ts" "length ts < c + fuel2"
  shows "good (length ts) 0 (bind_o (when_token ts TCloseParen (ret_o []) (comma_while fuel2 ts (parse_func_arg_expr env fuel ts) [])) (\<lambda>args.
    bind_o (run_o (expect_token ts TCloseParen)) (\<lambda>_. ret_o (k args)))) c"
  using assms by - (rule good_intros step_intros comma_while_good | (simp; fail) | arith | assumption)+

lemma good_shift: "good n d m (c + k) \<Longrightarrow> good n (d + k) (\<lambda>c. m (c + k)) c"
  by (auto simp: good_def split: option.splits prod.splits sum.splits)

lemma good_at: "good n d m (c + k) \<Longrightarrow> m' c = m (c + k) \<Longrightarrow> d' \<le> d + k \<Longrightarrow> good n d' m' c"
  by (auto simp: good_def split: option.splits prod.splits sum.splits)

lemma good_same: "good n d m c \<Longrightarrow> m' c = m c \<Longrightarrow> good n d m' c"
  by (simp add: good_def)

lemma negated_number_good: "c \<le> length ts \<Longrightarrow> good (length ts) 1 (run_o (negated_number env ts)) c"
  unfolding negated_number_def run_bind
  by (rule good_bind, rule get_step, assumption) (auto simp: run_simps split: token.split intro!: good_intros)

lemma func_arg_good:
  "c \<le> length ts \<Longrightarrow> length ts < c + fuel \<Longrightarrow> good (length ts) 1 (parse_func_arg_expr env fuel ts) c"
proof (induction fuel arbitrary: c)
  case (Suc fuel)
  have ident: "good (length ts) 1 (parse_column_ident fuel ts) c" using column_ident_good [of c ts fuel] Suc.prems by simp
  have args: "good (length ts) 0 (bind_o (when_token ts TCloseParen (ret_o []) (comma_while fuel ts (parse_func_arg_expr env fuel ts) []))
      (\<lambda>args. bind_o (run_o (expect_token ts TCloseParen)) (\<lambda>_. ret_o (call_text name args)))) (c + 2)"
    if "check_token ts (c + 1) TOpenParen" for name
    using Suc.IH Suc.prems check_token_less [OF that] by (intro call_args_good) simp_all
  have dash: "good (length ts) 1 (run_o (negated_number env ts)) (c + 1)" if "c < length ts"
    using that by (intro negated_number_good) simp
  show ?case
  proof (cases "c < length ts")
    case False
    then show ?thesis by (simp add: good_def)
  next
    case True
    show ?thesis
    proof (cases "ts ! c")
      case (Ident name)
      show ?thesis
      proof (cases "check_token ts (c + 1) TOpenParen")
        case paren: True
        show ?thesis using True Ident paren by (intro good_at [OF args [OF paren]]) simp_all
      qed (use ident True Ident in \<open>auto simp: good_def\<close>)
    next
      case (Sym s)
      show ?thesis
      proof (cases "s = SDash")
        case False
        then show ?thesis using ident True Sym by (auto simp: good_def)
      next
        case minus: True
        show ?thesis using True Sym minus by (intro good_at [OF dash [OF True]]) simp_all
      qed
    qed (use ident True in \<open>auto simp: good_def\<close>)
  qed
qed simp

lemmas func_arg_step [step_intros] = step_good [OF func_arg_good]
lemmas func_arg_weak [good_intros] = good_weaken [OF func_arg_good]

section \<open>Column expressions\<close>

lemma comma_while_step [step_intros]:
  assumes "\<And>c'. c \<le> c' \<Longrightarrow> c' \<le> length ts \<Longrightarrow> good (length ts) 1 item c'" "c \<le> length ts" "length ts < c + fuel"
  shows "step (length ts) 0 (comma_while fuel ts item acc) c"
  using assms by (intro step_good comma_while_good)

lemma comma_loop_step [step_intros]:
  assumes "\<And>c'. c \<le> c' \<Longrightarrow> c' \<le> length ts \<Longrightarrow> good (length ts) 1 item c'" "c \<le> length ts" "length ts < c + fuel"
  shows "step (length ts) 1 (comma_loop fuel ts item acc) c"
  using assms by (intro step_good comma_loop_good)

lemma closed_list_step [step_intros]:
  assumes "\<And>c'. c \<le> c' \<Longrightarrow> c' \<le> length ts \<Longrightarrow> good (length ts) 1 item c'" "c \<le> length ts" "length ts < c + fuel" "err \<noteq> Some Panic"
  shows "step (length ts) 0 (closed_list fuel ts close err item acc) c"
  using assms by (intro step_good closed_list_good)

lemmas comma_while_weak [good_intros] = good_weaken [OF comma_while_good]

lemma frame_loop_good: "c \<le> length ts \<Longrightarrow> length ts < c + fuel \<Longrightarrow> good (length ts) 0 (frame_loop env fuel ts acc) c"
proof (induction fuel arbitrary: acc c)
  case (Suc fuel)
  have next_: "good (length ts) d (frame_loop env fuel ts acc') c'" if "c < c'" "c' \<le> length ts" "d = 0" for acc' c' d
    using Suc.IH [of c'] Suc.prems that by simp
  have "good (length ts) 0 (bind_o (run_o (get_token ts)) (\<lambda>t. frame_loop env fuel ts (acc @ [frame_word env t]))) c"
    using Suc.prems(1) by - (rule good_intros step_intros next_ | (simp; fail) | arith)+
  then show ?case using Suc.prems(1) by (auto simp: good_def)
qed simp

lemmas frame_loop_step [step_intros] = step_good [OF frame_loop_good]

lemma window_parts_good:
  assumes "c \<le> length ts" "length ts < c + fuel"
  shows "good (length ts) 0 (partition_part fuel ts) c" "good (length ts) 0 (order_part fuel ts) c"
    "good (length ts) 0 (rows_part env fuel ts) c"
  using assms unfolding partition_part_def order_part_def rows_part_def
  by - (rule good_intros step_intros column_ident_good | (simp; fail) | arith)+

lemmas window_parts_step [step_intros] = window_parts_good [THEN step_good]

lemma window_spec_good:
  assumes "c \<le> length ts" "length ts < c + fuel"
  shows "good (length ts) 1 (parse_window_spec env fuel ts) c"
  using assms unfolding parse_window_spec_def
  by - (rule good_intros step_intros | (simp; fail) | arith)+

lemmas window_spec_step [step_intros] = step_good [OF window_spec_good]

lemma functions_good:
  assumes "c \<le> length ts" "length ts < c + fuel"
  shows "good (length ts) 1 (parse_rank env fuel ts name) c" "good (length ts) 1 (parse_ntile env fuel ts) c"
    "good (length ts) 1 (parse_offset_function env fuel ts name) c" "good (length ts) 1 (parse_json_extract fuel ts) c"
  using assms unfolding parse_rank_def parse_ntile_def parse_offset_function_def parse_json_extract_def
  by - (rule good_intros step_intros | (simp; fail) | arith)+

lemma aggregate_arg_good:
  assumes "c \<le> length ts" "length ts < c + fuel"
  shows "good (length ts) 1 (aggregate_arg fuel ts) c"
  unfolding aggregate_arg_def
proof (rule good_if_token)
  show "good (length ts) 1 (\<lambda>cursor. case get_token_peek ts cursor of
      Inr (IntLit n) \<Rightarrow> ret_o (show_i64 n) (cursor + 1) | _ \<Rightarrow> parse_column_ident fuel ts cursor) c"
    using column_ident_good [of c ts fuel] assms
    by (auto simp: good_def get_token_peek_def split: token.split)
qed (use assms in \<open>simp add: good_ret\<close>)

lemmas aggregate_arg_step [step_intros] = step_good [OF aggregate_arg_good]

lemma aggregate_good:
  assumes "c \<le> length ts" "length ts < c + fuel"
  shows "good (length ts) 1 (parse_aggregate env fuel ts name) c"
  using assms unfolding parse_aggregate_def
  by - (rule good_intros step_intros good_weaken [OF window_spec_good] | (simp; fail) | arith)+

lemma signed_item_good: "c \<le> length ts \<Longrightarrow> good (length ts) 1 (run_o (signed_item env ts)) c"
  unfolding signed_item_def run_bind
  by (rule good_bind, rule skip_step, assumption, rule good_bind, rule get_step, assumption)
    (auto simp: run_simps split: token.split intro!: good_intros)

lemma distance_arg_good:
  assumes "c \<le> length ts" "length ts < c + fuel"
  shows "good (length ts) 1 (distance_arg env fuel ts) c"
  unfolding distance_arg_def
proof (rule good_if_token)
  show "good (length ts) 1 (\<lambda>cursor. case get_token_peek ts cursor of
      Inr (StringLit s) \<Rightarrow> ret_o ([QUOTE] @ s @ [QUOTE]) (cursor + 1) | _ \<Rightarrow> parse_column_ident fuel ts cursor) c"
    using column_ident_good [of c ts fuel] assms
    by (auto simp: good_def get_token_peek_def split: token.split)
next
  show "good (length ts) (1 - 1) (bind_o (comma_while fuel ts (run_o (signed_item env ts)) [])
      (\<lambda>items. bind_o (run_o (expect_token ts TCloseBracket)) (\<lambda>_. ret_o (''['' @ join_texts '','' items @ '']'')))) (c + 1)"
    if "c < length ts"
    using assms that by - (rule good_intros step_intros signed_item_good | (simp; fail) | arith)+
qed

lemmas distance_arg_step [step_intros] = step_good [OF distance_arg_good]

lemma distance_good:
  assumes "c \<le> length ts" "length ts < c + fuel"
  shows "good (length ts) 1 (parse_distance env fuel ts name) c"
  using assms unfolding parse_distance_def
  by - (rule good_intros step_intros | (simp; fail) | arith)+

lemma call_good:
  assumes "c \<le> length ts" "length ts < c + fuel"
  shows "good (length ts) 1 (parse_call env fuel ts name) c"
  using assms unfolding parse_call_def
  by - (rule good_intros step_intros func_arg_good | (simp; fail) | arith)+

lemma column_head_good:
  assumes c: "c < length ts" and fuel: "length ts < c + fuel"
  shows "good (length ts) 1 (column_head env fuel ts) c"
proof -
  have after: "c + 1 \<le> length ts" "length ts < (c + 1) + fuel" using c fuel by simp_all
  note at1 = functions_good [OF after] aggregate_good [OF after] distance_good [OF after]
  have call_args: "good (length ts) 1 (parse_call env fuel ts name) (c + 2)" if "check_token ts (c + 1) TOpenParen" for name
    using call_good [of "c + 2" ts fuel] fuel check_token_less [OF that] by simp
  have heads: "fine (length ts) 1 c (parse_rank env fuel ts name (c + 1))" "fine (length ts) 1 c (parse_ntile env fuel ts (c + 1))"
    "fine (length ts) 1 c (parse_offset_function env fuel ts name (c + 1))" "fine (length ts) 1 c (parse_json_extract fuel ts (c + 1))"
    "fine (length ts) 1 c (parse_aggregate env fuel ts name (c + 1))" "fine (length ts) 1 c (parse_distance env fuel ts name (c + 1))"
    for name using at1 [THEN fine_at, of 1] by simp_all
  have "fine (length ts) 1 c (parse_func_arg_expr env fuel ts c)" "fine (length ts) 1 c (parse_column_ident fuel ts c)"
    using func_arg_good [of c ts fuel] column_ident_good [of c ts fuel] c fuel by (simp_all add: good_fine)
  moreover have "fine (length ts) 1 c (parse_call env fuel ts name (c + 2))" if "check_token ts (c + 1) TOpenParen" for name
    using fine_at [OF call_args [OF that]] by simp
  ultimately show ?thesis
    unfolding good_fine column_head_def Let_def using heads by (simp split: token.split)
qed

lemma column_expression_good:
  assumes "c \<le> length ts" "length ts < c + fuel"
  shows "good (length ts) 1 (parse_column_expression env fuel ts) c"
proof (cases "c < length ts")
  case True
  have "good (length ts) 1 (bind_o (column_head env fuel ts) (\<lambda>expr.
      if_token ts TAs (bind_o (run_o (parse_identifier_or_keyword ts)) (\<lambda>alias. ret_o (expr @ '' AS '' @ alias))) (ret_o expr))) c"
    using True assms by - (rule good_intros step_intros step_good [OF column_head_good] | (simp; fail) | arith)+
  then show ?thesis using True by (simp add: good_def parse_column_expression_def)
qed (simp add: good_def parse_column_expression_def)

lemmas column_expression_step [step_intros] = step_good [OF column_expression_good]

lemma returning_good:
  assumes "c \<le> length ts" "length ts < c + fuel"
  shows "good (length ts) 0 (parse_optional_returning env fuel ts) c"
  unfolding parse_optional_returning_def
proof (rule good_if_token)
  assume c: "c < length ts"
  have cols: "step (length ts) 0 (if_token ts TAsterisk (ret_o [''*'']) (comma_while fuel ts (parse_column_expression env fuel ts) [])) (c + 1)"
    using c assms by - (rule good_intros step_intros column_expression_good | (simp; fail) | arith)+
  show "good (length ts) (0 - 1) (bind_o (if_token ts TAsterisk (ret_o [''*'']) (comma_while fuel ts (parse_column_expression env fuel ts) []))
      (\<lambda>cols. if cols = [] then fail_o (SqlSyntax ''RETURNING clause requires at least one column or *'') else ret_o (Some cols))) (c + 1)"
    by (rule good_bind, rule cols) (simp add: good_ret good_fail)
qed (use assms in \<open>simp add: good_ret\<close>)

lemmas returning_step [step_intros] = step_good [OF returning_good]

section \<open>Column definitions\<close>

lemma data_type_good: "c \<le> length ts \<Longrightarrow> good (length ts) 1 (run_o (parse_data_type ts)) c"
proof -
  assume c: "c \<le> length ts"
  have vec: "good (length ts) 0 (run_o (bind_s (expect_token ts TOpenParen) (\<lambda>_.
      bind_s (expect_int ts ''Expected vector dimensions, got {other:?}'') (\<lambda>dims.
      bind_s (expect_token ts TCloseParen) (\<lambda>_. ret_s (DVector (unat dims))))))) c'" if "c' \<le> length ts" for c'
    using that unfolding run_bind run_simps by - (rule good_intros step_intros | (simp; fail) | arith)+
  have words: "good (length ts) 0 (run_o (ret_s d)) c'" "good (length ts) 0 (run_o (fail_s (SqlSyntax m))) c'"
    if "c' \<le> length ts" for c' m and d :: data_type using that by (simp_all add: good_def)
  show ?thesis
    unfolding parse_data_type_def run_bind [of "get_token ts"]
  proof (rule good_bind, rule get_step, rule c)
    fix t c' assume c': "c + 1 \<le> c'" "c' \<le> length ts"
    then have d: "1 - (c' - c) = 0" by simp
    show "good (length ts) (1 - (c' - c)) (run_o (case t of
         Ident w \<Rightarrow>
           if eq_ignore_ascii_case w ''DATETIME'' \<or> eq_ignore_ascii_case w ''TIMESTAMP'' then ret_s DText
           else if eq_ignore_ascii_case w ''BOOLEAN'' \<or> eq_ignore_ascii_case w ''BOOL'' then ret_s DInteger
           else fail_s (SqlSyntax ''Expected data type, got {other:?}'')
       | _ \<Rightarrow>
           (case map_of type_words t of
              Some d \<Rightarrow> ret_s d
            | None \<Rightarrow>
                if t = TVector then
                  bind_s (expect_token ts TOpenParen) (\<lambda>_.
                  bind_s (expect_int ts ''Expected vector dimensions, got {other:?}'') (\<lambda>dims.
                  bind_s (expect_token ts TCloseParen) (\<lambda>_. ret_s (DVector (unat dims)))))
                else fail_s (SqlSyntax ''Expected data type, got {other:?}'')))) c'"
      unfolding d using vec [OF c'(2)] words [OF c'(2)]
      by (auto split: token.split option.split simp del: om_simps sm_simps)
  qed
qed

lemmas data_type_step [step_intros] = step_good [OF data_type_good]

lemma modifiers_good: "c \<le> length ts \<Longrightarrow> length ts < c + fuel \<Longrightarrow> good (length ts) 0 (column_modifiers fuel ts flags) c"
proof (induction fuel arbitrary: flags c)
  case (Suc fuel)
  have next_: "good (length ts) d (column_modifiers fuel ts flags') c'" if "c < c'" "c' \<le> length ts" "d = 0" for flags' c' d
    using Suc.IH [of c'] Suc.prems that by simp
  obtain pk nn where f: "flags = (pk, nn)" by (cases flags)
  show ?case unfolding f column_modifiers.simps using Suc.prems
    by - (rule good_intros step_intros next_ | (simp; fail) | arith)+
qed simp

lemmas modifiers_step [step_intros] = step_good [OF modifiers_good]

lemma column_def_good:
  assumes "c \<le> length ts" "length ts < c + fuel"
  shows "good (length ts) 1 (parse_column_def fuel ts) c"
  using assms unfolding parse_column_def_def
  by - (rule good_intros step_intros | (simp; fail) | arith)+

lemmas column_def_step [step_intros] = step_good [OF column_def_good]

section \<open>Conditions\<close>

lemma chain_rest_good:
  assumes "\<And>c'. c \<le> c' \<Longrightarrow> c' \<le> length ts \<Longrightarrow> good (length ts) 1 operand c'" "c \<le> length ts" "length ts < c + fuel"
  shows "good (length ts) 0 (chain_rest fuel ts op mk operand expr) c"
  using assms
proof (induction fuel arbitrary: expr c)
  case (Suc fuel)
  have next_: "good (length ts) d (chain_rest fuel ts op mk operand e) c'" if "c < c'" "c' \<le> length ts" "d = 0" for e c' d
    using Suc.IH [of c' e] Suc.prems that by simp
  have operand: "step (length ts) 1 operand c'" if "c \<le> c'" "c' \<le> length ts" for c' using Suc.prems that by (simp add: step_good)
  show ?case unfolding chain_rest.simps using Suc.prems(2)
    by - (rule good_intros next_ operand | (simp; fail) | arith)+
qed simp

lemma and_chain_good:
  assumes "\<And>c'. c \<le> c' \<Longrightarrow> c' \<le> length ts \<Longrightarrow> good (length ts) 1 primary c'" "c \<le> length ts" "length ts < c + fuel"
  shows "good (length ts) 1 (and_chain fuel ts primary) c"
  unfolding and_chain_def
proof (rule good_bind [OF step_good])
  fix x c' assume c': "c + 1 \<le> c'" "c' \<le> length ts"
  show "good (length ts) (1 - (c' - c)) (chain_rest fuel ts TAnd AndE primary x) c'"
    using chain_rest_good [of c' ts primary fuel TAnd AndE x] assms c' by simp
qed (use assms in simp)

lemma or_chain_good:
  assumes "\<And>c'. c \<le> c' \<Longrightarrow> c' \<le> length ts \<Longrightarrow> good (length ts) 1 conjunction c'" "c \<le> length ts" "length ts < c + fuel"
  shows "good (length ts) 1 (or_chain fuel ts conjunction) c"
  unfolding or_chain_def
proof (rule good_bind [OF step_good])
  fix x c' assume c': "c + 1 \<le> c'" "c' \<le> length ts"
  show "good (length ts) (1 - (c' - c)) (chain_rest fuel ts TOr OrE conjunction x) c'"
    using chain_rest_good [of c' ts conjunction fuel TOr OrE x] assms c' by simp
qed (use assms in simp)

lemma lift_step [step_intros]: "c \<le> n \<Longrightarrow> r \<noteq> Inl Panic \<Longrightarrow> step n 0 (run_o (lift_s r)) c"
  by (cases r) (simp_all add: step_def good_def)

lemma comparison_good:
  assumes "c \<le> length ts" "length ts < c + fuel"
  shows "good (length ts) 1 (parse_comparison env fuel ts col negated) c"
  unfolding parse_comparison_def
proof (rule good_bind, rule get_step, rule assms)
  fix t c' assume c': "c + 1 \<le> c'" "c' \<le> length ts"
  have "(if negated then negate_op op else Inr op) \<noteq> Inl Panic" for op by (cases op) (simp_all add: negate_op_def)
  then have "good (length ts) 0 (bind_o (run_o (lift_s (if negated then negate_op op else Inr op)))
      (\<lambda>op. bind_o (parse_value_literal env fuel ts) (\<lambda>v. ret_o (cond_of col op v)))) c'" for op
    using c' assms(2) by - (rule good_intros step_intros | (simp; fail) | arith | assumption)+
  then show "good (length ts) (1 - (c' - c)) (case map_of comparison_words t of
         None \<Rightarrow> fail_o (SqlSyntax ''Expected comparison operator in WHERE, got {other:?}'')
       | Some raw_op \<Rightarrow>
           bind_o (run_o (lift_s (if negated then negate_op raw_op else Inr raw_op))) (\<lambda>op.
           bind_o (parse_value_literal env fuel ts) (\<lambda>v. ret_o (cond_of col op v)))) c'"
    using c' by (auto split: option.split intro: good_fail)
qed

lemma simple_conditions_good:
  assumes "c \<le> length ts" "length ts < c + fuel" "\<And>c'. c < c' \<Longrightarrow> c' \<le> length ts \<Longrightarrow> good (length ts) 1 query c'"
  shows "good (length ts) 1 (parse_exists ts query negated) c" "good (length ts) 1 (parse_is_null ts col) c"
    "good (length ts) 1 (parse_between env fuel ts col) c" "good (length ts) 1 (parse_in env fuel ts query col negated) c"
  using assms(1,2) unfolding parse_exists_def parse_is_null_def parse_between_def parse_in_def
  by - (rule good_intros step_intros step_good [OF assms(3)] value_literal_good | (simp; fail) | arith)+

lemma column_condition_good:
  assumes "c \<le> length ts" "length ts < c + fuel" "\<And>c'. c < c' \<Longrightarrow> c' \<le> length ts \<Longrightarrow> good (length ts) 1 query c'"
  shows "good (length ts) 1 (parse_column_condition env fuel ts query) c"
proof -
  have later: "good (length ts) d (parse_is_null ts col) c'" "good (length ts) d (parse_between env fuel ts col) c'"
    "good (length ts) d (parse_in env fuel ts query col negated) c'" "good (length ts) d (parse_comparison env fuel ts col negated) c'"
    if c': "c < c'" "c' \<le> length ts" "d \<le> 1" for c' d col negated
  proof -
    have f: "length ts < c' + fuel" using assms(2) c' by simp
    have q: "\<And>c''. c' < c'' \<Longrightarrow> c'' \<le> length ts \<Longrightarrow> good (length ts) 1 query c''" using assms(3) c' by simp
    note goods = simple_conditions_good [OF c'(2) f q]
    show "good (length ts) d (parse_is_null ts col) c'" by (rule good_weaken [OF goods(2) c'(3)])
    show "good (length ts) d (parse_between env fuel ts col) c'" by (rule good_weaken [OF goods(3) c'(3)])
    show "good (length ts) d (parse_in env fuel ts query col negated) c'" by (rule good_weaken [OF goods(4) c'(3)])
    show "good (length ts) d (parse_comparison env fuel ts col negated) c'"
      by (rule good_weaken [OF comparison_good [OF c'(2) f] c'(3)])
  qed
  show ?thesis unfolding parse_column_condition_def using assms(1,2)
    by - (rule good_intros step_intros later | (simp; fail) | arith)+
qed

lemma primary_good:
  assumes "c \<le> length ts" "length ts < c + fuel" "\<And>c'. c < c' \<Longrightarrow> c' \<le> length ts \<Longrightarrow> good (length ts) 1 query c'"
    "\<And>c'. c < c' \<Longrightarrow> c' \<le> length ts \<Longrightarrow> good (length ts) 1 cond c'"
  shows "good (length ts) 1 (primary_cond env fuel ts cond query) c"
proof -
  have exists: "good (length ts) d (parse_exists ts query negated) c'" if "c < c'" "c' \<le> length ts" "d \<le> 1" for c' d negated
    using simple_conditions_good(1) [of c' ts fuel query negated] assms that by (auto intro: good_weaken)
  have column: "good (length ts) 1 (parse_column_condition env fuel ts query) c"
    using assms by (intro column_condition_good)
  have rest: "good (length ts) 1 (\<lambda>cursor.
      if check_token ts cursor TNot \<and> check_token ts (cursor + 1) TExists
      then parse_exists ts query True (cursor + 2) else parse_column_condition env fuel ts query cursor) c"
    using column fine_at [OF exists, of c 2 1 1 True] check_token_less [of ts "c + 1" TExists]
    by (auto simp: good_fine)
  show ?thesis unfolding primary_cond_def using assms(1)
    by - (rule good_intros step_intros step_good [OF assms(4)] rest exists | (simp; fail) | arith)+
qed

lemma optional_where_good:
  assumes "c \<le> length ts" "\<And>c'. c < c' \<Longrightarrow> c' \<le> length ts \<Longrightarrow> good (length ts) 1 cond c'"
  shows "good (length ts) 0 (parse_optional_where ts cond) c" "good (length ts) 0 (parse_having ts cond) c"
  using assms(1) unfolding parse_optional_where_def parse_having_def
  by - (rule good_intros step_intros step_good [OF assms(2)] | (simp; fail) | arith)+

section \<open>SELECT\<close>

lemma expect_int_run: "good n d (run_o (expect_int ts msg)) c \<Longrightarrow> good n d (run_o (bind_s (expect_int ts msg) (\<lambda>x. ret_s (f x)))) c"
  unfolding run_bind run_simps
  by (auto simp: good_def bind_o_def split: option.splits prod.splits sum.splits)

lemma select_steps:
  assumes c: "c \<le> length ts"
  shows "step (length ts) 0 (run_o (parse_as_of ts)) c" "step (length ts) 0 (run_o (parse_count ts word msg)) c"
    "step (length ts) 0 (run_o (parse_join_type ts)) c"
proof -
  have "good (length ts) 0 (run_o (parse_as_of ts)) c"
  proof (cases "check_token ts c TAs \<and> check_token ts (c + 1) TOf \<and> check_token ts (c + 2) TTimestamp")
    case True
    then have "c + 3 \<le> length ts" using check_token_less [of ts "c + 2" TTimestamp] by simp
    then have "good (length ts) 1 (run_o (bind_s (expect_int ts ''Expected integer timestamp for AS OF TIMESTAMP, got {other:?}'') (\<lambda>n. ret_s (Some n)))) (c + 3)"
      by (intro expect_int_run expect_int_good)
    then show ?thesis using True by - (rule good_at, assumption, simp_all add: parse_as_of_def)
  qed (use c in \<open>auto simp: good_def parse_as_of_def\<close>)
  then show "step (length ts) 0 (run_o (parse_as_of ts)) c" by (rule step_good)
  have "good (length ts) 0 (run_o (parse_count ts word msg)) c"
    unfolding parse_count_def run_simps run_bind using c
    by - (rule good_intros step_intros | (simp; fail) | arith)+
  then show "step (length ts) 0 (run_o (parse_count ts word msg)) c" by (rule step_good)
  have outer: "good (length ts) 0 (run_o (outer_join ts kind)) c'" if "c' \<le> length ts" for kind c'
    unfolding outer_join_def run_simps run_bind using that
    by - (rule good_intros step_intros | (simp; fail) | arith)+
  have "good (length ts) 0 (run_o (bind_s (skip_token ts TInner) (\<lambda>_. outer_join ts InnerJoin))) c"
    unfolding run_bind by (rule good_bind, rule skip_step, rule c, simp add: outer)
  then have inner: "good (length ts) 0 (run_o (\<lambda>cursor. if check_token ts cursor TInner \<or> check_token ts cursor TJoin
      then bind_s (skip_token ts TInner) (\<lambda>_. outer_join ts InnerJoin) cursor else ret_s None cursor)) c"
    using c by (auto simp: good_def)
  have "good (length ts) 0 (run_o (parse_join_type ts)) c"
    unfolding parse_join_type_def run_simps using c
    by - (rule good_intros step_intros inner good_weaken [OF outer] | (simp; fail) | arith)+
  then show "step (length ts) 0 (run_o (parse_join_type ts)) c" by (rule step_good)
qed

lemmas select_steps_intro [step_intros] = select_steps

lemma join_good:
  assumes "c \<le> length ts" "length ts < c + fuel"
  shows "good (length ts) 0 (parse_join fuel ts) c"
  unfolding parse_join_def
proof (rule good_bind, rule select_steps, rule assms)
  fix kind c' assume c': "c + 0 \<le> c'" "c' \<le> length ts"
  have "good (length ts) 0 (bind_o (run_o (expect_ident ts ''Expected table name after JOIN, got {other:?}'')) (\<lambda>right_table.
           bind_o (run_o (expect_token ts TOn)) (\<lambda>_.
           bind_o (parse_column_ident fuel ts) (\<lambda>left_col.
           bind_o (run_o (expect_token ts TEquals)) (\<lambda>_.
           bind_o (parse_column_ident fuel ts) (\<lambda>right_col.
           ret_o (Some \<lparr>jc_table = right_table, jc_left_col = left_col, jc_right_col = right_col,
                        jc_is_left = (k = LeftJoin), jc_type = k\<rparr>))))))) c'" for k
    using c' assms(2) by - (rule good_intros step_intros | (simp; fail) | arith)+
  then show "good (length ts) (0 - (c' - c)) (case kind of None \<Rightarrow> ret_o None
       | Some kind \<Rightarrow>
           bind_o (run_o (expect_ident ts ''Expected table name after JOIN, got {other:?}'')) (\<lambda>right_table.
           bind_o (run_o (expect_token ts TOn)) (\<lambda>_.
           bind_o (parse_column_ident fuel ts) (\<lambda>left_col.
           bind_o (run_o (expect_token ts TEquals)) (\<lambda>_.
           bind_o (parse_column_ident fuel ts) (\<lambda>right_col.
           ret_o (Some \<lparr>jc_table = right_table, jc_left_col = left_col, jc_right_col = right_col,
                        jc_is_left = (kind = LeftJoin), jc_type = kind\<rparr>))))))) c'"
    using c' by (auto split: option.split intro: good_ret)
qed

lemma from_good:
  assumes "c \<le> length ts" "\<And>c'. c < c' \<Longrightarrow> c' \<le> length ts \<Longrightarrow> good (length ts) 1 query c'"
  shows "good (length ts) 0 (parse_from ts query) c"
proof -
  have named: "good (length ts) 0 (\<lambda>cursor.
      if check_token ts cursor TAs \<and> \<not> check_token ts (cursor + 1) TOf
      then bind_o (run_o (parse_identifier_or_keyword ts)) (\<lambda>_. ret_o (name, None)) (cursor + 1)
      else ret_o (name, None :: (statement \<times> string) option) cursor) c'" if "c' \<le> length ts" for name :: string and c'
  proof (cases "check_token ts c' TAs \<and> \<not> check_token ts (c' + 1) TOf")
    case True
    then have "c' + 1 \<le> length ts" using check_token_less [of ts c' TAs] by simp
    then have "good (length ts) 1 (bind_o (run_o (parse_identifier_or_keyword ts)) (\<lambda>_. ret_o (name, None :: (statement \<times> string) option))) (c' + 1)"
      by (rule good_bind [OF word_steps(1)]) (simp add: good_def)
    then show ?thesis using True by - (rule good_at, assumption, simp_all)
  qed (use that in \<open>auto simp: good_def\<close>)
  show ?thesis unfolding parse_from_def using assms(1)
    by - (rule good_intros step_intros step_good [OF assms(2)] good_weaken [OF named] | (simp; fail) | arith)+
qed

lemma vector_near_good:
  assumes "c \<le> length ts" "length ts < c + fuel" "\<And>c'. c < c' \<Longrightarrow> c' \<le> length ts \<Longrightarrow> good (length ts) 1 cond c'"
  shows "good (length ts) 0 (parse_vector_near env fuel ts cond columns table) c"
proof -
  have whr: "step (length ts) 0 (parse_optional_where ts cond) c'" if "c \<le> c'" "c' \<le> length ts" for c'
    using optional_where_good(1) [of c' ts cond] assms(3) that by (auto intro: step_good)
  have vec: "good (length ts) 0 (bind_o (run_o (expect_token ts TTop)) (\<lambda>_.
         bind_o (run_o (expect_int ts ''Expected integer TOP k, got {other:?}'')) (\<lambda>top_k.
         bind_o (parse_optional_where ts cond) (\<lambda>where_clause.
         ret_o (VectorSearch columns table vector_col query_vector (unat top_k) where_clause))))) c'"
    if "c \<le> c'" "c' \<le> length ts" for c' vector_col query_vector
    using that by - (rule good_intros step_intros whr | (simp; fail) | arith)+
  have "good (length ts) d (case query_val of
       VectorV query_vector \<Rightarrow>
         bind_o (run_o (expect_token ts TTop)) (\<lambda>_.
         bind_o (run_o (expect_int ts ''Expected integer TOP k, got {other:?}'')) (\<lambda>top_k.
         bind_o (parse_optional_where ts cond) (\<lambda>where_clause.
         ret_o (VectorSearch columns table vector_col query_vector (unat top_k) where_clause))))
     | _ \<Rightarrow> fail_o (SqlSyntax ''Expected vector literal, got {other:?}'')) c'"
    if "c \<le> c'" "c' \<le> length ts" "d = 0" for c' vector_col query_val d
    using vec [OF that(1,2)] that(3) by (auto split: sql_value.split intro: good_fail)
  note tail = this
  show ?thesis unfolding parse_vector_near_def using assms(1,2)
    by - (rule good_intros step_intros tail | (simp; fail) | arith)+
qed

lemma group_by_good:
  assumes "c \<le> length ts" "length ts < c + fuel"
  shows "good (length ts) 0 (parse_group_by fuel ts) c"
proof -
  have cols: "step (length ts) 1 (comma_loop fuel ts (parse_column_ident fuel ts) []) c'" if "c \<le> c'" "c' \<le> length ts" for c'
    using assms that by (intro step_good comma_loop_good column_ident_good) simp_all
  show ?thesis unfolding parse_group_by_def using assms
    by - (rule good_intros step_intros cols | (simp; fail) | arith)+
qed

lemma distance_vector_no_panic: "distance_vector env v \<noteq> Inl Panic"
  by (cases v) (simp_all add: distance_vector_def text_vector_def Let_def)

lemma distance_order_good:
  assumes "c \<le> length ts" "length ts \<le> c + fuel"
  shows "good (length ts) 0 (parse_distance_order env fuel ts columns table where_clause col) c"
  using assms distance_vector_no_panic unfolding parse_distance_order_def
  by - (rule good_intros step_intros | (simp; fail) | arith)+

lemma distance_operator_bound:
  "distance_operator ts c = Some c' \<Longrightarrow> c < c' \<and> c' \<le> length ts"
  using check_token_less [of ts "c + 1" TArrow] check_token_less [of ts "c + 2" TGreaterThan]
  by (auto simp: distance_operator_def split: if_splits)

lemma order_by_good:
  assumes c: "c \<le> length ts" "length ts < c + fuel"
    and k: "\<And>x c'. c \<le> c' \<Longrightarrow> c' \<le> length ts \<Longrightarrow> good (length ts) 0 (k x) c'"
  shows "good (length ts) 0 (parse_order_by env fuel ts columns table where_clause k) c"
proof -
  have k': "good (length ts) d (k x) c'" if "c \<le> c'" "c' \<le> length ts" "d = 0" for x c' d using k that by simp
  have direction: "good (length ts) 0 (if_token ts TDesc (k (Some \<lparr>ob_column = col, ob_ascending = False\<rparr>))
      (bind_o (run_o (skip_token ts TAsc)) (\<lambda>_. k (Some \<lparr>ob_column = col, ob_ascending = True\<rparr>)))) c'"
    if "c \<le> c'" "c' \<le> length ts" for col c'
    using that by - (rule good_intros step_intros k' | (simp; fail) | arith)+
  have ordered: "good (length ts) d (\<lambda>cursor.
      case distance_operator ts cursor of
        Some next \<Rightarrow> parse_distance_order env fuel ts columns table where_clause col next
      | None \<Rightarrow> if_token ts TDesc (k (Some \<lparr>ob_column = col, ob_ascending = False\<rparr>))
          (bind_o (run_o (skip_token ts TAsc)) (\<lambda>_. k (Some \<lparr>ob_column = col, ob_ascending = True\<rparr>))) cursor) c'"
    if c': "c \<le> c'" "c' \<le> length ts" "d = 0" for col c' d
  proof (cases "distance_operator ts c'")
    case None
    then show ?thesis using direction [OF c'(1,2)] c'(3) by (simp add: good_def)
  next
    case (Some c'')
    then have c'': "c' < c''" "c'' \<le> length ts" using distance_operator_bound by auto
    have "length ts \<le> c'' + fuel" using c c' c'' by simp
    then have "good (length ts) 0 (parse_distance_order env fuel ts columns table where_clause col) c''"
      by (rule distance_order_good [OF c''(2)])
    then have "good (length ts) 0 (parse_distance_order env fuel ts columns table where_clause col) (c' + (c'' - c'))"
      using c'' by simp
    then show ?thesis by (rule good_at) (use Some c'' c'(3) in simp_all)
  qed
  show ?thesis unfolding parse_order_by_def using c
    by - (rule good_intros step_intros ordered k' | (simp; fail) | arith)+
qed

lemma select_tail_good:
  assumes c: "c \<le> length ts" "length ts < c + fuel"
    and cond: "\<And>c'. c < c' \<Longrightarrow> c' \<le> length ts \<Longrightarrow> good (length ts) 1 cond c'"
  shows "good (length ts) 0 (select_tail env fuel ts cond is_distinct columns source join) c"
proof -
  have whr: "step (length ts) 0 (parse_optional_where ts cond) c'" "step (length ts) 0 (parse_having ts cond) c'"
    if "c \<le> c'" "c' \<le> length ts" for c'
    using optional_where_good [of c' ts cond] cond that by (auto intro: step_good)
  have groups: "step (length ts) 0 (parse_group_by fuel ts) c'" if "c \<le> c'" "c' \<le> length ts" for c'
    using c that by (intro step_good group_by_good) simp_all
  have order: "good (length ts) d (parse_order_by env fuel ts columns (fst source) where_clause (\<lambda>order_by.
     bind_o (run_o (parse_count ts TLimit ''Expected integer for LIMIT, got {other:?}'')) (\<lambda>limit.
     bind_o (run_o (parse_count ts TOffset ''Expected integer for OFFSET, got {other:?}'')) (\<lambda>offset.
     ret_o (Select is_distinct columns (fst source) (snd source) join where_clause group_by having order_by limit offset
              as_of_timestamp))))) c'"
    if "c \<le> c'" "c' \<le> length ts" "d = 0" for where_clause group_by having as_of_timestamp c' d
  proof -
    have f: "length ts < c' + fuel" using c that by simp
    show ?thesis unfolding \<open>d = 0\<close>
    proof (rule order_by_good [OF that(2) f])
      fix order_by c'' assume "c' \<le> c''" "c'' \<le> length ts"
      then show "good (length ts) 0 (bind_o (run_o (parse_count ts TLimit ''Expected integer for LIMIT, got {other:?}'')) (\<lambda>limit.
        bind_o (run_o (parse_count ts TOffset ''Expected integer for OFFSET, got {other:?}'')) (\<lambda>offset.
        ret_o (Select is_distinct columns (fst source) (snd source) join where_clause group_by having order_by limit offset
              as_of_timestamp)))) c''"
        by - (rule good_intros step_intros | (simp; fail) | arith)+
    qed
  qed
  show ?thesis unfolding select_tail_def using c
    by - (rule good_intros step_intros whr groups order | (simp; fail) | arith)+
qed

lemma select_body_good:
  assumes c: "c \<le> length ts" "length ts < c + fuel"
    and sub: "\<And>c'. c < c' \<Longrightarrow> c' \<le> length ts \<Longrightarrow> good (length ts) 1 cond c'"
      "\<And>c'. c < c' \<Longrightarrow> c' \<le> length ts \<Longrightarrow> good (length ts) 1 query c'"
  shows "good (length ts) 0 (select_body env fuel ts cond query) c"
proof -
  have columns: "step (length ts) 0 (if_token ts TAsterisk (ret_o []) (comma_while fuel ts (parse_column_expression env fuel ts) [])) c'"
    if "c \<le> c'" "c' \<le> length ts" for c'
  proof -
    have loop: "good (length ts) d (comma_while fuel ts (parse_column_expression env fuel ts) []) c'" if "d = 0" for d
      using c \<open>c \<le> c'\<close> \<open>c' \<le> length ts\<close> that by (simp, intro comma_while_good column_expression_good) simp_all
    show ?thesis using that by - (rule step_good, (rule good_intros loop | (simp; fail) | arith)+)
  qed
  have parts: "step (length ts) 0 (parse_from ts query) c'" "step (length ts) 0 (parse_join fuel ts) c'"
    "good (length ts) d (parse_vector_near env fuel ts cond cols table) c'"
    "good (length ts) d (select_tail env fuel ts cond is_distinct cols source join) c'"
    if "c \<le> c'" "c' \<le> length ts" "d = 0" for c' d cols table source join is_distinct
    using from_good [of c' ts query] join_good [of c' ts fuel] vector_near_good [of c' ts fuel cond env cols table]
      select_tail_good [of c' ts fuel cond env is_distinct cols source join] sub c that
    by (auto intro: step_good)
  have none: "good (length ts) d (if cols = [] then fail_o (SqlSyntax ''SELECT * requires FROM'')
      else ret_o (Select is_distinct cols [] None None None None None None None None None)) c'"
    if "c' \<le> length ts" "d = 0" for is_distinct cols c' d
    using that by (simp add: good_def)
  show ?thesis unfolding select_body_def using c
    by - (rule good_intros step_intros columns parts none | (simp; fail) | arith)+
qed

section \<open>The recursion\<close>

lemma next_step [step_intros]: "c < n \<Longrightarrow> step n 1 (run_o (put_s Suc)) c"
  by (simp add: step_def good_def)

text \<open>\<open>parse_select\<close> steps over a token without looking; past the end it finds neither a column nor a
  table.\<close>

lemma no_token: "length ts \<le> c \<Longrightarrow> check_token ts c t = False"
  by (simp add: check_token_def)

lemma select_body_past:
  "length ts \<le> c \<Longrightarrow> fuel \<noteq> 0 \<Longrightarrow>
   select_body env fuel ts cond query c = Some (Inl (SqlSyntax ''SELECT * requires FROM''), c)"
  by (cases fuel) (simp_all add: select_body_def bind_o_def run_o_def skip_token_def if_token_def no_token ret_o_def fail_o_def)

lemma select_past:
  "length ts \<le> c \<Longrightarrow> 1 < fuel \<Longrightarrow> good n d (parse_select env fuel ts) c"
  by (cases fuel) (simp_all add: good_def bind_o_def run_o_def put_s_def select_body_past)

lemma recursion_good:
  assumes "c \<le> length ts" "length ts + 1 < c + fuel"
  shows "good (length ts) 1 (parse_or_expr env fuel ts) c \<and> good (length ts) 1 (parse_select env fuel ts) c"
  using assms
proof (induction fuel arbitrary: c)
  case (Suc fuel)
  have sub: "good (length ts) 1 (parse_or_expr env fuel ts) c'" "good (length ts) 1 (parse_select env fuel ts) c'"
    if "c < c'" "c' \<le> length ts" for c'
    using Suc.IH [of c'] Suc.prems that by auto
  have f: "length ts < c + fuel" using Suc.prems by simp
  have primary: "good (length ts) 1 (primary_cond env fuel ts (parse_or_expr env fuel ts) (parse_select env fuel ts)) c'"
    if "c \<le> c'" "c' \<le> length ts" for c'
    using f that sub by (intro primary_good) simp_all
  have cond: "good (length ts) 1 (parse_or_expr env (Suc fuel) ts) c"
    unfolding parse_or_expr.simps using Suc.prems(1) f primary
    by (intro or_chain_good and_chain_good) simp_all
  have query: "good (length ts) 1 (parse_select env (Suc fuel) ts) c"
  proof (cases "c < length ts")
    case True
    have body: "good (length ts) d (select_body env fuel ts (parse_or_expr env fuel ts) (parse_select env fuel ts)) c'"
      if "c + 1 \<le> c'" "c' \<le> length ts" "d = 0" for c' d
      using select_body_good [of c' ts fuel "parse_or_expr env fuel ts" "parse_select env fuel ts" env] f sub that by simp
    show ?thesis unfolding parse_select.simps using True
      by - (rule good_intros step_intros body | (simp; fail) | arith)+
  next
    case False
    then show ?thesis using Suc.prems by (intro select_past) simp_all
  qed
  show ?case using cond query by blast
qed simp

lemmas cond_good = recursion_good [THEN conjunct1]
lemmas query_good = recursion_good [THEN conjunct2]

lemma where_clause_good:
  assumes "c \<le> length ts" "length ts < c + fuel"
  shows "good (length ts) 0 (parse_optional_where_clause env fuel ts) c"
  unfolding parse_optional_where_clause_def parse_where_expr_def
  using assms by (intro optional_where_good cond_good) simp_all

lemmas where_clause_step [step_intros] = step_good [OF where_clause_good]

section \<open>Statements\<close>

lemma exists_clause_good:
  assumes "c \<le> length ts"
  shows "good (length ts) 0 (run_o (if_not_exists_clause ts)) c" "good (length ts) 0 (run_o (if_exists_clause ts)) c"
  using assms unfolding if_not_exists_clause_def if_exists_clause_def run_bind run_simps
  by - (rule good_intros step_intros | (simp; fail) | arith)+

lemmas exists_clause_step [step_intros] = exists_clause_good [THEN step_good]

lemma table_options_good: "c \<le> length ts \<Longrightarrow> length ts < c + fuel \<Longrightarrow> good (length ts) 0 (table_options fuel ts versioning) c"
proof (induction fuel arbitrary: versioning c)
  case (Suc fuel)
  have next_: "good (length ts) d (table_options fuel ts v) c'" if "c < c'" "c' \<le> length ts" "d = 0" for v c' d
    using Suc.IH [of c'] Suc.prems that by simp
  have "good (length ts) 0 (bind_o (run_o (parse_identifier_or_keyword ts)) (\<lambda>opt_key.
          bind_o (run_o (skip_token ts TEquals)) (\<lambda>_.
          bind_o (run_o (parse_identifier_or_keyword ts)) (\<lambda>opt_val.
            let versioning = (versioning \<or> versioning_option opt_key opt_val) in
            if_token ts TComma (table_options fuel ts versioning)
              (if_token ts TCloseParen (ret_o versioning) (ret_o versioning)))))) c"
    unfolding Let_def using Suc.prems by - (rule good_intros step_intros next_ | (simp; fail) | arith)+
  then show ?case using Suc.prems(1) by (auto simp: good_def)
qed simp

lemmas table_options_weak [good_intros] = good_weaken [OF table_options_good]
lemmas closed_list_weak [good_intros] = good_weaken [OF closed_list_good]

lemma if_token_step [step_intros]: "good n 0 (if_token ts t yes no) c \<Longrightarrow> step n 0 (if_token ts t yes no) c"
  by (rule step_good)

lemma create_table_good:
  assumes "c < length ts" "length ts < c + fuel"
  shows "good (length ts) 0 (parse_create_table fuel ts) c"
proof -
  have columns: "step (length ts) 0 (closed_list fuel ts TCloseParen (Some (SqlSyntax msg)) (parse_column_def fuel ts) []) c'"
    if "c \<le> c'" "c' \<le> length ts" for msg c'
    using assms that by (intro closed_step column_def_good) simp_all
  show ?thesis unfolding parse_create_table_def using assms
    by - (rule good_intros step_intros columns | (simp; fail) | arith)+
qed

lemma pragma_good: "c \<le> length ts \<Longrightarrow> good (length ts) 0 (run_o (parse_pragma env ts)) c"
  unfolding parse_pragma_def run_bind run_simps
  by - (rule good_intros step_intros | (simp; fail) | arith)+

lemma create_index_good:
  assumes "c < length ts" "length ts < c + fuel"
  shows "good (length ts) 0 (parse_create_index fuel ts) c"
  unfolding parse_create_index_def using assms
  by - (rule good_intros step_intros | (simp; fail) | arith)+

lemma create_view_good:
  assumes "c < length ts" "length ts < c + fuel"
  shows "good (length ts) 0 (parse_create_view env fuel ts) c"
proof -
  have query_text: "good (length ts) d (\<lambda>cursor. if start \<le> cursor \<and> cursor \<le> length ts
      then ret_o (CreateView name cond (tokens_to_sql env (take (cursor - start) (drop start ts))) query) cursor
      else fail_o Panic cursor) c'" if "start \<le> c'" "c' \<le> length ts" "d = 0" for start name cond query c' d
    using that by (simp add: good_def)
  have start: "good (length ts) d (bind_o (run_o (get_s (\<lambda>cursor. cursor))) (\<lambda>query_start.
      bind_o (parse_select env fuel ts) (\<lambda>query cursor.
      if query_start \<le> cursor \<and> cursor \<le> length ts
      then ret_o (CreateView name cond (tokens_to_sql env (take (cursor - query_start) (drop query_start ts))) query) cursor
      else fail_o Panic cursor))) c'" if "c + 1 \<le> c'" "c' \<le> length ts" "d = 0" for name cond c' d
  proof -
    have "step (length ts) 1 (parse_select env fuel ts) c'"
      using assms that by (intro step_good query_good) simp_all
    then have "good (length ts) 0 (bind_o (parse_select env fuel ts) (\<lambda>query cursor.
      if c' \<le> cursor \<and> cursor \<le> length ts
      then ret_o (CreateView name cond (tokens_to_sql env (take (cursor - c') (drop c' ts))) query) cursor
      else fail_o Panic cursor)) c'"
      by (rule good_bind) (rule query_text, simp_all)
    then show ?thesis using that(3) by (simp add: good_def bind_o_def run_o_def get_s_def)
  qed
  show ?thesis unfolding parse_create_view_def using assms
    by - (rule good_intros step_intros start | (simp; fail) | arith)+
qed

lemma insert_prefix_good: "c \<le> length ts \<Longrightarrow> good (length ts) 0 (run_o (insert_prefix ts)) c"
  unfolding insert_prefix_def run_bind run_simps
  by - (rule good_intros step_intros | (simp; fail) | arith)+

lemmas insert_prefix_step [step_intros] = step_good [OF insert_prefix_good]

lemma value_row_good:
  assumes "c \<le> length ts" "length ts < c + fuel"
  shows "good (length ts) 1 (value_row env fuel ts) c"
proof -
  have row: "step (length ts) 1 (comma_loop fuel ts (parse_value_literal env fuel ts) []) c'" if "c \<le> c'" "c' \<le> length ts" for c'
    using assms that by (intro step_good comma_loop_good value_literal_good) simp_all
  show ?thesis unfolding value_row_def using assms
    by - (rule good_intros step_intros row | (simp; fail) | arith)+
qed

lemma more_rows_good: "c \<le> length ts \<Longrightarrow> length ts < c + fuel \<Longrightarrow> good (length ts) 0 (more_rows env fuel ts rows) c"
proof (induction fuel arbitrary: rows c)
  case (Suc fuel)
  have next_: "good (length ts) d (more_rows env fuel ts r) c'" if "c < c'" "c' \<le> length ts" "d = 0" for r c' d
    using Suc.IH [of c'] Suc.prems that by simp
  have row: "step (length ts) 1 (value_row env fuel ts) c'" if "c < c'" "c' \<le> length ts" for c'
    using Suc.prems that by (intro step_good value_row_good) simp_all
  show ?case unfolding more_rows.simps using Suc.prems
    by - (rule good_intros row next_ | (simp; fail) | arith)+
qed simp

lemmas more_rows_step [step_intros] = step_good [OF more_rows_good]

lemma assignment_good:
  assumes "c \<le> length ts" "length ts \<le> c + fuel"
  shows "good (length ts) 1 (parse_assignment env fuel ts) c"
  unfolding parse_assignment_def using assms
  by - (rule good_intros step_intros | (simp; fail) | arith)+

lemma assignments_step [step_intros]:
  assumes "c \<le> length ts" "length ts < c + fuel"
  shows "step (length ts) 0 (comma_while fuel ts (parse_assignment env fuel ts) []) c"
  using assms by (intro step_good comma_while_good assignment_good) simp_all

lemma conflict_target_good: "c \<le> length ts \<Longrightarrow> good (length ts) 0 (run_o (conflict_target ts)) c"
  unfolding conflict_target_def run_bind run_simps
  by - (rule good_intros step_intros | (simp; fail) | arith)+

lemmas conflict_target_step [step_intros] = step_good [OF conflict_target_good]

lemma good_if [good_intros]:
  "(b \<Longrightarrow> good n d m c) \<Longrightarrow> (\<not> b \<Longrightarrow> good n d m' c) \<Longrightarrow> good n d (if b then m else m') c"
  by simp

lemma good_if_at:
  assumes "P c \<Longrightarrow> good n d m (c + k)" "\<not> P c \<Longrightarrow> good n d m' c"
  shows "good n d (\<lambda>c. if P c then m (c + k) else m' c) c"
  using assms by (auto simp: good_def split: option.splits prod.splits sum.splits)

lemma on_conflict_good:
  assumes "c \<le> length ts" "length ts < c + fuel"
  shows "good (length ts) 0 (on_conflict_clause env fuel ts action) c"
  unfolding on_conflict_clause_def [abs_def]
proof (rule good_if_at)
  assume "check_token ts c TOn \<and> check_token ts (c + 1) TConflict"
  then have "c + 2 \<le> length ts" using check_token_less [of ts "c + 1" TConflict] by simp
  then show "good (length ts) 0 (bind_o (run_o (conflict_target ts)) (\<lambda>_.
           if_token ts TReplace (ret_o ReplaceC)
            (if_token ts TDo
              (if_token ts TNothing (ret_o IgnoreC)
                (if_token ts TUpdate
                  (bind_o (run_o (expect_token ts TSet)) (\<lambda>_.
                   bind_o (comma_while fuel ts (parse_assignment env fuel ts) []) (\<lambda>updates. ret_o (DoUpdate updates))))
                  (ret_o action)))
              (ret_o action)))) (c + 2)"
    using assms by - (rule good_intros step_intros | (simp; fail) | arith)+
qed (use assms in \<open>simp add: good_def\<close>)

lemmas on_conflict_step [step_intros] = step_good [OF on_conflict_good]

lemma insert_good:
  assumes "c \<le> length ts" "length ts < c + fuel"
  shows "good (length ts) 0 (parse_insert env fuel ts) c"
proof -
  have lists: "good (length ts) d (closed_list fuel ts TCloseParen None (run_o (parse_identifier_or_keyword ts)) []) c'"
    "step (length ts) 0 (closed_list fuel ts TCloseParen None (run_o (parse_identifier_or_keyword ts)) []) c'"
    "step (length ts) 0 (closed_list fuel ts TCloseParen (Some (SqlSyntax msg)) (parse_value_literal env fuel ts) []) c'"
    if "c \<le> c'" "c' \<le> length ts" "d = 0" for msg c' d
  proof -
    have names: "good (length ts) 0 (closed_list fuel ts TCloseParen None (run_o (parse_identifier_or_keyword ts)) []) c'"
      by (rule closed_list_good [OF ident_good]) (use assms that in simp_all)
    then show "good (length ts) d (closed_list fuel ts TCloseParen None (run_o (parse_identifier_or_keyword ts)) []) c'"
      using that by simp
    show "step (length ts) 0 (closed_list fuel ts TCloseParen None (run_o (parse_identifier_or_keyword ts)) []) c'"
      by (rule step_good [OF names])
    show "step (length ts) 0 (closed_list fuel ts TCloseParen (Some (SqlSyntax msg)) (parse_value_literal env fuel ts) []) c'"
      by (rule closed_step [OF value_literal_good]) (use assms that in simp_all)
  qed
  show ?thesis unfolding parse_insert_def using assms
    by - (rule good_intros step_intros lists | (simp; fail) | arith)+
qed

lemma update_good:
  assumes "c < length ts" "length ts < c + fuel"
  shows "good (length ts) 0 (parse_update env fuel ts) c"
  unfolding parse_update_def using assms
  by - (rule good_intros step_intros | (simp; fail) | arith)+

lemma delete_good:
  assumes "c < length ts" "length ts < c + fuel"
  shows "good (length ts) 0 (parse_delete env fuel ts) c"
  unfolding parse_delete_def using assms
  by - (rule good_intros step_intros | (simp; fail) | arith)+

lemma rename_column_good: "c \<le> length ts \<Longrightarrow> good (length ts) 0 (run_o (rename_column ts table_name)) c"
  unfolding rename_column_def run_bind run_simps
  by - (rule good_intros step_intros | (simp; fail) | arith)+

lemmas rename_column_weak [good_intros] = good_weaken [OF rename_column_good]

lemma alter_good:
  assumes "c < length ts" "length ts < c + fuel"
  shows "good (length ts) 0 (parse_alter fuel ts) c"
  unfolding parse_alter_def using assms
  by - (rule good_intros step_intros | (simp; fail) | arith)+

lemma drop_named_good: "c \<le> length ts \<Longrightarrow> good (length ts) 0 (run_o (drop_named ts mk)) c"
  unfolding drop_named_def run_bind run_simps
  by - (rule good_intros step_intros | (simp; fail) | arith)+

lemmas drop_named_weak [good_intros] = good_weaken [OF drop_named_good]

lemma short_statements_good:
  assumes "c < length ts"
  shows "good (length ts) 0 (run_o (parse_drop ts)) c" "good (length ts) 0 (run_o (parse_begin ts)) c"
    "good (length ts) 0 (run_o (parse_commit ts)) c" "good (length ts) 0 (run_o (parse_rollback ts)) c"
    "good (length ts) 0 (run_o (parse_savepoint ts)) c" "good (length ts) 0 (run_o (parse_release ts)) c"
    "good (length ts) 0 (run_o (parse_vacuum ts)) c"
  using assms unfolding parse_drop_def parse_begin_def parse_commit_def parse_rollback_def parse_savepoint_def
    parse_release_def parse_vacuum_def run_bind run_simps
  by - (rule good_intros step_intros | (simp; fail) | arith)+

lemma run_cursor: "run_o (\<lambda>cursor. if P cursor then m cursor else m' cursor) = (\<lambda>cursor. if P cursor then run_o m cursor else run_o m' cursor)"
  by (simp add: fun_eq_iff run_o_def)

lemma good_if_cursor [good_intros]:
  "(P c \<Longrightarrow> good n d m c) \<Longrightarrow> (\<not> P c \<Longrightarrow> good n d m' c) \<Longrightarrow> good n d (\<lambda>cursor. if P cursor then m cursor else m' cursor) c"
  by (simp add: good_def)

lemma analyze_good:
  assumes "c < length ts"
  shows "good (length ts) 0 (run_o (parse_analyze ts)) c"
  using assms unfolding parse_analyze_def run_bind run_simps run_cursor
  by - (rule good_intros step_intros | (simp; fail) | arith)+

lemma explain_words_good: "c \<le> length ts \<Longrightarrow> good (length ts) 0 (run_o (explain_words ts)) c"
  unfolding explain_words_def run_simps
  by - (rule good_intros step_intros | (simp; fail) | arith)+

lemmas explain_words_step [step_intros] = step_good [OF explain_words_good]

lemma explain_good:
  assumes "c < length ts" "length ts < c + fuel"
  shows "good (length ts) 0 (parse_explain env fuel ts) c"
proof -
  have inner: "step (length ts) 0 (\<lambda>cursor. case get_token_peek ts cursor of
         Inl e \<Rightarrow> fail_o e cursor
       | Inr t \<Rightarrow>
           if t = TSelect then parse_select env fuel ts cursor
           else if t = TInsert then parse_insert env fuel ts cursor
           else if t = TUpdate then parse_update env fuel ts cursor
           else if t = TDelete then parse_delete env fuel ts cursor
           else fail_o (SqlSyntax ''EXPLAIN does not support {other:?}'') cursor) c'" if "c < c'" "c' \<le> length ts" for c'
  proof (cases "c' < length ts")
    case True
    have "length ts < c' + fuel" "length ts + 1 < c' + fuel" using assms that by simp_all
    note goods = insert_good [OF that(2) this(1)] update_good [OF True this(1)] delete_good [OF True this(1)]
      good_weaken [OF query_good [OF that(2) this(2)], of 0]
    show ?thesis using True goods [of env] by (simp add: step_def good_def get_token_peek_def)
  qed (simp add: step_def good_def get_token_peek_def)
  show ?thesis unfolding parse_explain_def using assms
    by - (rule good_intros step_intros inner | (simp; fail) | arith)+
qed

section \<open>Graph statements\<close>

lemma node_pattern_good: "c \<le> length ts \<Longrightarrow> good (length ts) 0 (run_o (node_pattern ts)) c"
  unfolding node_pattern_def run_bind run_simps
  by - (rule good_intros step_intros | (simp; fail) | arith)+

lemma rel_arrow_good: "c \<le> length ts \<Longrightarrow> good (length ts) 0 (run_o (rel_arrow ts)) c"
  unfolding rel_arrow_def run_bind run_simps
  by - (rule good_intros step_intros | (simp; fail) | arith)+

lemmas rel_arrow_step [step_intros] = step_good [OF rel_arrow_good]

lemma good_cursor_step [step_intros]:
  "good n 0 (\<lambda>cursor. if P cursor then m cursor else m' cursor) c \<Longrightarrow> step n 0 (\<lambda>cursor. if P cursor then m cursor else m' cursor) c"
  by (rule step_good)

lemma rel_pattern_good: "c \<le> length ts \<Longrightarrow> good (length ts) 0 (run_o (rel_pattern ts)) c"
  unfolding rel_pattern_def run_bind run_simps run_cursor
  by - (rule good_intros step_intros | (simp; fail) | arith)+

lemma return_item_good: "c \<le> length ts \<Longrightarrow> good (length ts) 1 (run_o (return_item ts)) c"
  unfolding return_item_def run_bind run_simps
  by - (rule good_intros step_intros | (simp; fail) | arith)+

lemmas pattern_steps [step_intros] = node_pattern_good [THEN step_good] rel_pattern_good [THEN step_good]

lemma graph_match_good:
  assumes "c \<le> length ts" "length ts < c + fuel"
  shows "good (length ts) 0 (parse_graph_match env fuel ts) c"
proof -
  have items: "good (length ts) d (comma_loop fuel ts (run_o (return_item ts)) []) c'" if "c \<le> c'" "c' \<le> length ts" "d \<le> 1" for c' d
    using comma_loop_good [of c' ts "run_o (return_item ts)" fuel] return_item_good assms that by (auto intro: good_weaken)
  show ?thesis unfolding parse_graph_match_def Let_def using assms
    by - (rule good_intros step_intros items | (simp; fail) | arith)+
qed

lemma algorithm_options_good:
  "c \<le> length ts \<Longrightarrow> length ts < c + fuel \<Longrightarrow> good (length ts) 0 (algorithm_options env fuel ts options) c"
proof (induction fuel arbitrary: options c)
  case (Suc fuel)
  have next_: "good (length ts) d (algorithm_options env fuel ts o') c'" if "c < c'" "c' \<le> length ts" "d = 0" for o' c' d
    using Suc.IH [of c'] Suc.prems that by simp
  have option: "step (length ts) 0 (case t of FloatLit f \<Rightarrow> ret_o (show_f64 env f) | IntLit i \<Rightarrow> ret_o (show_i64 i)
                  | StringLit s \<Rightarrow> ret_o s | Ident s \<Rightarrow> ret_o s
                  | _ \<Rightarrow> fail_o (SqlSyntax ''Unexpected value for option {key}: {other:?}'')) c'" if "c' \<le> length ts" for t c'
    using that by (cases t) (simp_all add: step_def good_def)
  show ?case unfolding algorithm_options.simps using Suc.prems
    by - (rule good_intros step_intros option next_ | (simp; fail) | arith)+
qed simp

lemmas algorithm_options_step [step_intros] = step_good [OF algorithm_options_good]

lemma graph_algorithm_good:
  assumes "c \<le> length ts" "length ts < c + fuel"
  shows "good (length ts) 0 (parse_graph_algorithm env fuel ts) c"
  unfolding parse_graph_algorithm_def using assms
  by - (rule good_intros step_intros | (simp; fail) | arith)+

lemmas graph_algorithm_weak [good_intros] = good_weaken [OF graph_algorithm_good]

lemma graph_node_good: "c \<le> length ts \<Longrightarrow> good (length ts) 0 (run_o (parse_graph_node ts)) c"
  unfolding parse_graph_node_def run_bind run_simps
  by - (rule good_intros step_intros | (simp; fail) | arith)+

lemmas graph_node_weak [good_intros] = good_weaken [OF graph_node_good]

lemma edge_arrow_good: "c \<le> length ts \<Longrightarrow> good (length ts) 0 (run_o (edge_arrow ts)) c"
  using check_token_less [of ts "c + 1" TGreaterThan]
  by (auto simp: edge_arrow_def good_def if_token_def if_word_def get_token_peek_def peek_ident_def check_token_def
      split: option.splits prod.splits sum.splits if_splits)

lemma expect_weight_good: "c \<le> length ts \<Longrightarrow> good (length ts) 1 (run_o (expect_weight env ts)) c"
  unfolding expect_weight_def run_bind
  by (rule good_bind, rule get_step, assumption) (auto simp: run_simps split: token.split intro!: good_intros)

lemmas edge_steps [step_intros] = edge_arrow_good [THEN step_good] expect_weight_good [THEN step_good]

lemma edge_options_good:
  "c \<le> length ts \<Longrightarrow> length ts < c + fuel \<Longrightarrow> good (length ts) 0 (edge_options env fuel ts opts) c"
proof (induction fuel arbitrary: opts c)
  case (Suc fuel)
  have next_: "good (length ts) d (edge_options env fuel ts o') c'" if "c < c'" "c' \<le> length ts" "d = 0" for o' c' d
    using Suc.IH [of c'] Suc.prems that by simp
  obtain lbl weight props where opts: "opts = (lbl, weight, props)" by (cases opts)
  show ?case unfolding opts edge_options.simps using Suc.prems
    by - (rule good_intros step_intros next_ | (simp; fail) | arith)+
qed simp

lemmas edge_options_step [step_intros] = step_good [OF edge_options_good]

lemma good_prod3 [good_intros]:
  "good n d (f (fst p) (fst (snd p)) (snd (snd p))) c \<Longrightarrow> good n d (case p of (a, b, e) \<Rightarrow> f a b e) c"
  by (cases p) simp

lemma graph_edge_good:
  assumes "c \<le> length ts" "length ts < c + fuel"
  shows "good (length ts) 0 (parse_graph_edge env fuel ts) c"
  unfolding parse_graph_edge_def using assms
  by - (rule good_prod3 good_intros step_intros | (simp; fail) | arith)+

lemmas graph_edge_weak [good_intros] = good_weaken [OF graph_edge_good]

lemma peek_ident_less: "peek_ident ts p c \<Longrightarrow> c < length ts"
  by (simp add: peek_ident_def get_token_peek_def split: if_splits)

lemma traverse_options_good:
  "c \<le> length ts \<Longrightarrow> length ts < c + fuel \<Longrightarrow> good (length ts) 0 (traverse_options fuel ts opts) c"
proof (induction fuel arbitrary: opts c)
  case (Suc fuel)
  have next_: "good (length ts) d (traverse_options fuel ts o') c'" if "c < c'" "c' \<le> length ts" "d = 0" for o' c' d
    using Suc.IH [of c'] Suc.prems that by simp
  obtain dir lbl depth where opts: "opts = (dir, lbl, depth)" by (cases opts)
  have depth: "good (length ts) d (\<lambda>cursor.
       if peek_ident ts (\<lambda>w. eq_ignore_ascii_case w ''MAX_DEPTH'' \<or> eq_ignore_ascii_case w ''DEPTH'') cursor
       then bind_o (run_o (expect_int ts ''Expected integer depth, got {other:?}''))
              (\<lambda>d. traverse_options fuel ts (dir, lbl, depth_of d)) (cursor + 1)
       else if_token ts (StringLit []) (traverse_options fuel ts (dir, Some [], depth)) (ret_o (dir, lbl, depth)) cursor) c"
    if d: "d = 0" for d
  proof (rule good_if_at)
    assume "peek_ident ts (\<lambda>w. eq_ignore_ascii_case w ''MAX_DEPTH'' \<or> eq_ignore_ascii_case w ''DEPTH'') c"
    then have "c + 1 \<le> length ts" using peek_ident_less by fastforce
    then show "good (length ts) d (bind_o (run_o (expect_int ts ''Expected integer depth, got {other:?}''))
              (\<lambda>d. traverse_options fuel ts (dir, lbl, depth_of d))) (c + 1)"
      using d by - (rule good_intros step_intros next_ | (simp; fail) | arith)+
  next
    show "good (length ts) d (if_token ts (StringLit []) (traverse_options fuel ts (dir, Some [], depth)) (ret_o (dir, lbl, depth))) c"
      using Suc.prems d by - (rule good_intros next_ | (simp; fail) | arith)+
  qed
  show ?case unfolding opts traverse_options.simps using Suc.prems
    by - (rule good_if_word good_bind step_intros next_ depth | (simp; fail) | arith)+
qed simp

lemmas traverse_options_step [step_intros] = step_good [OF traverse_options_good]

lemma traverse_good:
  assumes "c \<le> length ts" "length ts < c + fuel"
  shows "good (length ts) 0 (parse_traverse env fuel ts) c"
  unfolding parse_traverse_def using assms
  by - (rule good_prod3 good_intros step_intros | (simp; fail) | arith)+

lemma shortest_path_good: "c \<le> length ts \<Longrightarrow> good (length ts) 0 (run_o (parse_shortest_path ts)) c"
  unfolding parse_shortest_path_def run_bind run_simps
  by - (rule good_intros step_intros | (simp; fail) | arith)+

lemma graph_command_good:
  assumes "c \<le> length ts" "length ts < c + fuel"
  shows "good (length ts) 0 (parse_graph_command env fuel ts) c"
proof (cases "c < length ts")
  case True
  have "length ts < (c + 1) + fuel" "c + 1 \<le> length ts" using assms True by simp_all
  note goods = fine_at [OF traverse_good [OF this(2,1)], of 0] fine_at [OF shortest_path_good [OF this(2)], of 0]
  show ?thesis unfolding good_fine
    using True goods by (auto simp: parse_graph_command_def get_token_peek_def good_def fine_def split: token.split)
qed (auto simp: parse_graph_command_def get_token_peek_def good_def)

lemmas graph_command_weak [good_intros] = good_weaken [OF graph_command_good]
lemmas graph_match_weak [good_intros] = good_weaken [OF graph_match_good]

lemma graph_good:
  assumes "c < length ts" "length ts < c + fuel"
  shows "good (length ts) 0 (parse_graph env fuel ts) c"
  unfolding parse_graph_def using assms
  by - (rule good_intros step_intros | (simp; fail) | arith)+

section \<open>Common table expressions\<close>

lemma skip_parens_bounds:
  "skip_parens ts' depth c = (depth', c') \<Longrightarrow> depth \<noteq> 0 \<Longrightarrow>
   c \<le> c' \<and> c' \<le> c + length ts' \<and> (depth' = 0 \<longrightarrow> c < c')"
proof (induction ts' arbitrary: depth c)
  case (Cons t rest)
  define d where "d = (if t = TOpenParen then depth + 1 else if t = TCloseParen then depth - 1 else depth)"
  have next_: "skip_parens rest d (c + 1) = (depth', c')" using Cons.prems by (simp add: d_def)
  show ?case
  proof (cases "d = 0")
    case True
    then show ?thesis using next_ by (cases rest) auto
  next
    case False
    then show ?thesis using Cons.IH [OF next_] by auto
  qed
qed simp

lemma inner_query_good:
  assumes "c \<le> length ts" "0 < c"
    and sub: "\<And>ts'. length ts' < length ts \<Longrightarrow> \<exists>r. sub ts' = Some r \<and> r \<noteq> Inl Panic"
  shows "good (length ts) 1 (inner_query ts sub) c"
proof -
  obtain depth c' where skip: "skip_parens (drop c ts) 1 c = (depth, c')" by fastforce
  show ?thesis
  proof (cases "depth = 0")
    case True
    then have c': "c < c'" "c' \<le> length ts" using skip_parens_bounds [OF skip] assms(1) by auto
    have "length (take (c' - 1 - c) (drop c ts)) < length ts" using c' assms(2) by simp
    then obtain r where "sub (take (c' - 1 - c) (drop c ts)) = Some r" "r \<noteq> Inl Panic" using sub by blast
    then show ?thesis using skip True c'
      by (cases r) (auto simp: good_def inner_query_def bind_o_def run_o_def lift_s_def token_slice_def sub_parse_def split: sum.splits)
  next
    case False
    then show ?thesis using skip by (simp add: good_def inner_query_def)
  qed
qed

lemma cte_good:
  assumes "c \<le> length ts" "length ts < c + fuel"
    and sub: "\<And>ts'. length ts' < length ts \<Longrightarrow> \<exists>r. sub ts' = Some r \<and> r \<noteq> Inl Panic"
  shows "good (length ts) 1 (parse_cte fuel ts sub) c"
proof -
  have inner: "step (length ts) 1 (inner_query ts sub) c'" if "c < c'" "c' \<le> length ts" for c'
    using that sub by (intro step_good inner_query_good) simp_all
  have cols: "step (length ts) 0 (comma_while fuel ts (run_o (parse_identifier_or_keyword ts)) []) c'" if "c \<le> c'" "c' \<le> length ts" for c'
    using assms that by (intro step_good comma_while_good ident_good) simp_all
  show ?thesis unfolding parse_cte_def using assms(1,2)
    by - (rule good_intros step_intros inner cols | (simp; fail) | arith)+
qed

lemma with_cte_good:
  assumes "c < length ts" "length ts < c + fuel"
    and sub: "\<And>ts'. length ts' < length ts \<Longrightarrow> \<exists>r. sub ts' = Some r \<and> r \<noteq> Inl Panic"
  shows "good (length ts) 0 (parse_with_cte fuel ts sub) c"
proof -
  have ctes: "step (length ts) 1 (comma_loop fuel ts (parse_cte fuel ts sub) []) c'" if "c \<le> c'" "c' \<le> length ts" for c'
    using assms that by (intro step_good comma_loop_good cte_good) simp_all
  have main: "good (length ts) d (\<lambda>cursor.
       bind_o (run_o (lift_s (token_slice ts cursor (length ts)))) (\<lambda>main_tokens.
       bind_o (sub_parse sub main_tokens) (\<lambda>main_query.
       bind_o (run_o (put_s (\<lambda>_. length ts))) (\<lambda>_.
       ret_o (WithCte ctes main_query)))) cursor) c'" if "c < c'" "c' \<le> length ts" "d = 0" for ctes c' d
  proof -
    have "length (drop c' ts) < length ts" using that assms(1) by simp
    then obtain r where "sub (drop c' ts) = Some r" "r \<noteq> Inl Panic" using sub [of "drop c' ts"] by blast
    then show ?thesis using that
      by (cases r) (simp_all add: good_def bind_o_def run_o_def token_slice_def sub_parse_def put_s_def)
  qed
  show ?thesis unfolding parse_with_cte_def using assms(1,2)
    by - (rule good_intros step_intros ctes main | (simp; fail) | arith)+
qed

section \<open>Every text\<close>

lemma statement_good:
  assumes "ts \<noteq> []" "length ts + 1 < fuel"
    and sub: "\<And>ts'. length ts' < length ts \<Longrightarrow> \<exists>r. sub ts' = Some r \<and> r \<noteq> Inl Panic"
  shows "good (length ts) 0 (parse_statement env fuel ts sub) 0"
proof -
  have c: "0 < length ts" "0 \<le> length ts" "length ts < 0 + fuel" "length ts + 1 < 0 + fuel" using assms by simp_all
  note goods = create_index_good create_view_good create_table_good alter_good insert_good update_good delete_good
    short_statements_good graph_good graph_match_good explain_good analyze_good pragma_good
    good_weaken [OF query_good] with_cte_good
  show ?thesis unfolding parse_statement_def Let_def
    by (rule c good_if goods sub good_fail | assumption | (simp; fail))+
qed

lemma parse_total_each:
  "length ts + 2 < fuel \<Longrightarrow> \<exists>r. parse_tokens env fuel ts = Some r \<and> r \<noteq> Inl Panic"
proof (induction fuel arbitrary: ts)
  case (Suc fuel)
  show ?case
  proof (cases "ts = []")
    case False
    have sub: "\<exists>r. parse_tokens env fuel ts' = Some r \<and> r \<noteq> Inl Panic" if "length ts' < length ts" for ts'
      using Suc.IH [of ts'] Suc.prems that by simp
    have "good (length ts) 0 (parse_statement env fuel ts (parse_tokens env fuel)) 0"
      by (rule statement_good [OF False _ sub]) (use Suc.prems in simp_all)
    moreover have "statement_end ts stmt c \<noteq> Inl Panic" if "c \<le> length ts" for stmt c
      using that length_takeWhile_le [of "\<lambda>t. t = TSemicolon" "drop c ts"] by (auto simp: statement_end_def Let_def)
    ultimately show ?thesis using False
      by (auto simp: good_def split: option.splits prod.splits sum.splits)
  qed simp
qed simp

lemma number_no_panic: "bind_r (number_token env w) (\<lambda>t. Inr (f t)) \<noteq> Inl Panic"
  by (simp add: number_token_def bind_r_def split: option.split)

lemma branch_no_panic:
  "x \<noteq> Inl Panic \<Longrightarrow> y \<noteq> Inl Panic \<Longrightarrow> (if b then x else y) \<noteq> Inl Panic"
  "x \<noteq> Inl Panic \<Longrightarrow> (\<And>t. f t \<noteq> Inl Panic) \<Longrightarrow> (case opt of None \<Rightarrow> x | Some t \<Rightarrow> f t) \<noteq> Inl Panic"
  "Inl (SqlSyntax msg) \<noteq> Inl Panic" "Inr r \<noteq> Inl Panic"
  by (simp_all split: option.split)

lemma scan_no_panic: "lex_step env ch cs \<noteq> Inl Panic"
  unfolding lex_step_def
  by (rule branch_no_panic number_no_panic | simp split: prod.split)+

lemma tokenize_loop_bounds:
  "tokenize_loop env cs ts \<noteq> Inl Panic \<and> (\<forall>ts'. tokenize_loop env cs ts = Inr ts' \<longrightarrow> length ts' \<le> length ts + length cs)"
proof (induction env cs ts rule: tokenize_loop.induct)
  case (2 env ch cs ts)
  show ?case
  proof (cases "lex_step env ch cs")
    case (Inl e)
    then show ?thesis using scan_no_panic [of env ch cs] by simp
  next
    case (Inr r)
    obtain t rest where r: "r = (t, rest)" by (cases r)
    have len: "length rest \<le> length cs" using lex_step_length Inr r by simp
    show ?thesis
    proof (cases t)
      case None
      then show ?thesis using 2(1) Inr r len by fastforce
    next
      case (Some token)
      then show ?thesis using 2(2) Inr r len by fastforce
    qed
  qed
qed simp

text \<open>C13: whatever the text, and however malformed, reading it returns a statement or an error and never
  panics: every slice the parser takes is in range and every loop of the tokenizer and the parser
  advances, so fuel for the number of characters and three more is enough, common table expressions and
  nested queries included.\<close>

theorem parse_sql_total:
  assumes "length sql + 2 < fuel"
  shows "\<exists>r. parse_sql env fuel sql = Some r \<and> r \<noteq> Inl Panic"
proof (cases "tokenize env sql")
  case (Inl e)
  then show ?thesis using tokenize_loop_bounds [of env sql "[]"] by (simp add: parse_sql_def tokenize_def)
next
  case (Inr ts)
  then have "length ts \<le> length sql" using tokenize_loop_bounds [of env sql "[]"] by (simp add: tokenize_def)
  then show ?thesis using Inr parse_total_each [of ts fuel env] assms by (simp add: parse_sql_def)
qed

theorem parse_sql_total_witness:
  "length ''WITH c AS (SELECT *'' + 2 < (22 :: nat) \<and>
   (\<exists>r. parse_sql no_floats 22 ''WITH c AS (SELECT *'' = Some r \<and> r \<noteq> Inl Panic)"
  using parse_sql_total [of "''WITH c AS (SELECT *''" 22 no_floats] by simp

section \<open>Observations\<close>

text \<open>A list that the end of the text cuts off after a comma counts as closed: \<^verbatim>\<open>CREATE TABLE t (a INTEGER,\<close>
  and \<^verbatim>\<open>INSERT INTO t VALUES (1,\<close> are statements.\<close>

lemma truncated_lists_accepted:
  "(case parse_create_table 8 [TCreate, TTable, Ident ''t'', TOpenParen, Ident ''a'', TInteger, TComma] 0 of
      Some (Inr (CreateTable table if_not_exists columns versioning), cursor) \<Rightarrow> map cd_name columns = [''a''] \<and> cursor = 7
    | _ \<Rightarrow> False)"
  "(case parse_insert no_floats 8 [TInsert, TInto, Ident ''t'', TValues, TOpenParen, IntLit 1, TComma] 0 of
      Some (Inr (Insert table columns values conflict returning), cursor) \<Rightarrow> values = [IntegerV 1] \<and> cursor = 7
    | _ \<Rightarrow> False)"
  by code_simp+

text \<open>A string with a backslash is printed as it is, and read back as an escape: the text kept for the view
  \<^verbatim>\<open>SELECT 'C:\\n'\<close> is another query.\<close>

lemma printed_backslash_read_back:
  "tokenize no_floats (tokens_to_sql no_floats [TSelect, StringLit [CHR ''C'', CHR '':'', BACKSLASH, CHR ''n'']]) =
   Inr [TSelect, StringLit [CHR ''C'', CHR '':'', CHR 0x0A]]"
  by code_simp

text \<open>\<^verbatim>\<open>WITH (SYSTEM_VERSIONING = ON)\<close>, which the test for the word \<^verbatim>\<open>ON\<close> is there for, is refused,
  since \<^verbatim>\<open>ON\<close> is a keyword and no name.\<close>

lemma versioning_on_refused:
  "fst (the (table_options 3 [Ident ''system_versioning'', TEquals, TOn, TCloseParen] False 0)) =
     Inl (SqlSyntax ''Expected identifier or column name, got {other:?}'')"
  by (simp add: eval_nat_numeral bind_o_def skip_token_def check_token_def parse_identifier_or_keyword_def get_token_def
      bind_s_def name_words_def)

end
