(* ===== verification/Sql_Where.thy ===== *)
theory Sql_Where
  imports Sql_Statement
begin

text \<open>
  Conditions read back: a condition printed with the fewest parentheses is parsed to the same condition.
  So \<^verbatim>\<open>AND\<close> binds stronger than \<^verbatim>\<open>OR\<close>, both group to the left, and a parenthesis is needed exactly
  where the tree goes against that.
\<close>

section \<open>Conditions and their text\<close>

text \<open>The conditions without a subquery: comparison of a column with a value, a test for null,
  membership in a list of values.\<close>

datatype bool_tree =
    Compare string binary_op sql_value
  | NullTest string bool
  | Member string "sql_value list" bool
  | Conj bool_tree bool_tree
  | Disj bool_tree bool_tree

fun expr_of :: "bool_tree \<Rightarrow> where_expr" where
  "expr_of (Compare col op v) = cond_of col op v"
| "expr_of (NullTest col is_not) = cond_of col (if is_not then OpIsNotNull else OpIsNull) NullV"
| "expr_of (Member col vs negated) = InList col vs negated"
| "expr_of (Conj a b) = AndE (expr_of a) (expr_of b)"
| "expr_of (Disj a b) = OrE (expr_of a) (expr_of b)"

definition op_tokens :: "binary_op \<Rightarrow> token list" where
  "op_tokens op =
     (case op of
        OpEquals \<Rightarrow> [TEquals] | OpNotEquals \<Rightarrow> [TNotEquals] | OpGreaterThan \<Rightarrow> [TGreaterThan] | OpLessThan \<Rightarrow> [TLessThan]
      | OpGreaterOrEqual \<Rightarrow> [TGreaterOrEqual] | OpLessOrEqual \<Rightarrow> [TLessOrEqual] | OpLike \<Rightarrow> [TLike]
      | OpNotLike \<Rightarrow> [TNot, TLike] | OpMatch \<Rightarrow> [TMatch] | OpIsNull \<Rightarrow> [TIs] | OpIsNotNull \<Rightarrow> [TIs, TNot])"

fun value_tokens :: "sql_value list \<Rightarrow> token list" where
  "value_tokens [] = []"
| "value_tokens [v] = [value_token v]"
| "value_tokens (v # w # vs) = value_token v # TComma # value_tokens (w # vs)"

definition parens :: "bool \<Rightarrow> token list \<Rightarrow> token list" where
  "parens b ts = (if b then [TOpenParen] @ ts @ [TCloseParen] else ts)"

text \<open>The text at a level: 0 may hold \<^verbatim>\<open>OR\<close>, 1 only \<^verbatim>\<open>AND\<close>, 2 is closed.\<close>

fun tree_tokens :: "nat \<Rightarrow> bool_tree \<Rightarrow> token list" where
  "tree_tokens level (Compare col op v) = Ident col # op_tokens op @ [value_token v]"
| "tree_tokens level (NullTest col is_not) = [Ident col, TIs] @ (if is_not then [TNot] else []) @ [TNull]"
| "tree_tokens level (Member col vs negated) =
     Ident col # (if negated then [TNot] else []) @ [TIn, TOpenParen] @ value_tokens vs @ [TCloseParen]"
| "tree_tokens level (Conj a b) = parens (1 < level) (tree_tokens 1 a @ [TAnd] @ tree_tokens 2 b)"
| "tree_tokens level (Disj a b) = parens (0 < level) (tree_tokens 0 a @ [TOr] @ tree_tokens 1 b)"

text \<open>Column names that are not the names of functions, lists that are not empty.\<close>

definition plain_column :: "string \<Rightarrow> bool" where
  "plain_column col \<longleftrightarrow> \<not> eq_ignore_ascii_case col ''JSON_EXTRACT'' \<and> \<not> is_distance_name col"

fun tree_ok :: "bool_tree \<Rightarrow> bool" where
  "tree_ok (Compare col op v) \<longleftrightarrow> plain_column col \<and> op \<noteq> OpIsNull \<and> op \<noteq> OpIsNotNull"
| "tree_ok (NullTest col is_not) \<longleftrightarrow> plain_column col"
| "tree_ok (Member col vs negated) \<longleftrightarrow> plain_column col \<and> vs \<noteq> []"
| "tree_ok (Conj a b) \<longleftrightarrow> tree_ok a \<and> tree_ok b"
| "tree_ok (Disj a b) \<longleftrightarrow> tree_ok a \<and> tree_ok b"

section \<open>Tokens at a place\<close>

text \<open>\<open>at ts c part\<close>: the tokens from \<open>c\<close> on begin with \<open>part\<close>.\<close>

definition at :: "token list \<Rightarrow> nat \<Rightarrow> token list \<Rightarrow> bool" where
  "at ts c part \<longleftrightarrow> take (length part) (drop c ts) = part"

lemma at_Nil [simp]: "at ts c []" by (simp add: at_def)

lemma at_Cons [simp]: "at ts c (t # part) \<longleftrightarrow> check_token ts c t \<and> at ts (Suc c) part"
proof (cases "c < length ts")
  case True
  then have "drop c ts = ts ! c # drop (Suc c) ts" by (simp add: Cons_nth_drop_Suc)
  then show ?thesis using True by (auto simp: at_def check_token_def)
qed (simp add: at_def check_token_def)

lemma at_append [simp]: "at ts c (a @ b) \<longleftrightarrow> at ts c a \<and> at ts (c + length a) b"
  by (induction a arbitrary: c) auto

lemma at_self: "at (pre @ part @ post) (length pre) part"
  by (simp add: at_def)

lemma check_token_D: "check_token ts c t \<Longrightarrow> c < length ts \<and> ts ! c = t"
  by (simp add: check_token_def)

lemma at_expect: "check_token ts c t \<Longrightarrow> expect_token ts t c = (Inr (), Suc c)"
  by (simp add: check_token_def expect_token_def)

lemma at_get: "check_token ts c t \<Longrightarrow> get_token ts c = (Inr t, Suc c)"
  by (simp add: check_token_def get_token_def)

lemma at_other: "check_token ts c t \<Longrightarrow> check_token ts c t' \<longleftrightarrow> t = t'"
  by (auto simp: check_token_def)

lemmas at_simps = at_expect at_get bind_o_def if_token_def skip_token_def when_token_def

lemma at_bound: "at ts c part \<Longrightarrow> part \<noteq> [] \<Longrightarrow> c + length part \<le> length ts"
  unfolding at_def by (drule arg_cong [where f = length]) (cases part, auto)

lemma value_tokens_length: "length vs \<le> length (value_tokens vs)"
  by (induction vs rule: value_tokens.induct) simp_all

section \<open>Leaves\<close>

lemma value_at: "check_token ts c (value_token v) \<Longrightarrow> parse_value_literal env fuel ts c = Some (Inr v, Suc c)"
  by (cases v) (simp_all add: parse_value_literal_def value_token_def at_simps)

lemma column_at:
  assumes "check_token ts c (Ident col)" "plain_column col" "0 < fuel"
    and next_: "check_token ts (Suc c) t" "t \<noteq> TOpenParen" "t \<noteq> TDot" "t \<noteq> TAs"
  shows "parse_column_expression env fuel ts c = Some (Inr col, Suc c)"
proof -
  obtain f where fuel: "fuel = Suc f" using assms(3) by (cases fuel) auto
  have ident: "parse_column_ident fuel ts c = Some (Inr col, Suc c)"
    using at_other [OF next_(1), of TDot] next_(3)
    by (simp add: parse_column_ident_def parse_identifier_or_keyword_def bind_s_def at_get [OF assms(1)] fuel at_simps)
  have "column_head env fuel ts c = Some (Inr col, Suc c)"
    using check_token_D [OF assms(1)] at_other [OF next_(1), of TOpenParen] next_(2) assms(2) ident
    by (simp add: column_head_def Let_def is_literal_token_def rank_words_def offset_words_def aggregate_words_def plain_column_def)
  then show ?thesis using check_token_D [OF assms(1)] at_other [OF next_(1), of TAs] next_(4)
    by (simp add: parse_column_expression_def at_simps)
qed

lemma values_at:
  "at ts c (value_tokens vs) \<Longrightarrow> vs \<noteq> [] \<Longrightarrow> length vs \<le> fuel \<Longrightarrow>
   \<not> check_token ts (c + length (value_tokens vs)) TComma \<Longrightarrow>
   comma_while fuel ts (parse_value_literal env fuel' ts) acc c = Some (Inr (acc @ vs), c + length (value_tokens vs))"
proof (induction vs arbitrary: c acc fuel rule: value_tokens.induct)
  case (2 v)
  then obtain f where "fuel = Suc f" by (cases fuel) auto
  then show ?case using 2 check_token_D [of ts c "value_token v"] by (simp add: at_simps value_at)
next
  case (3 v w vs)
  then obtain f where fuel: "fuel = Suc f" by (cases fuel) auto
  have v: "check_token ts c (value_token v)" "check_token ts (Suc c) TComma" using 3(2) by simp_all
  show ?case using 3 fuel v check_token_D [OF v(1)] by (simp add: at_simps value_at [OF v(1)])
qed simp

lemma comparison_at:
  assumes "at ts c (op_tokens op @ [value_token v])" "op \<noteq> OpIsNull" "op \<noteq> OpIsNotNull"
  shows "bind_o (run_o (skip_token ts TNot)) (\<lambda>negated.
      if_token ts TIn (parse_in env fuel ts query col negated) (parse_comparison env fuel ts col negated)) c =
    Some (Inr (cond_of col op v), c + length (op_tokens op) + 1)"
  using assms at_other
  by (cases op) (auto simp: op_tokens_def at_simps parse_comparison_def comparison_words_def negate_op_def value_at)

lemma op_first:
  "at ts c (op_tokens op @ [value_token v]) \<Longrightarrow> op \<noteq> OpIsNull \<Longrightarrow> op \<noteq> OpIsNotNull \<Longrightarrow>
   \<exists>t. check_token ts c t \<and> t \<noteq> TOpenParen \<and> t \<noteq> TDot \<and> t \<noteq> TAs \<and> t \<noteq> TIs \<and> t \<noteq> TBetween"
  by (cases op) (auto simp: op_tokens_def)

section \<open>Trees\<close>

lemma null_test_at:
  assumes "at ts c ((if is_not then [TNot] else []) @ [TNull])"
  shows "parse_is_null ts col c =
    Some (Inr (expr_of (NullTest col is_not)), c + length ((if is_not then [TNot] else []) @ [TNull]))"
  using assms at_other by (cases is_not) (auto simp: parse_is_null_def at_simps)

lemma member_at:
  assumes "at ts c ((if negated then [TNot] else []) @ [TIn, TOpenParen] @ value_tokens vs @ [TCloseParen])"
    "vs \<noteq> []" "length vs \<le> fuel"
  shows "bind_o (run_o (skip_token ts TNot)) (\<lambda>negated.
      if_token ts TIn (parse_in env fuel ts query col negated) (parse_comparison env fuel ts col negated)) c =
    Some (Inr (InList col vs negated), c + length ((if negated then [TNot] else []) @ [TIn, TOpenParen] @ value_tokens vs @ [TCloseParen]))"
proof -
  define c' where "c' = (if negated then c + 1 else c)"
  have tokens: "check_token ts c' TIn" "check_token ts (Suc c') TOpenParen" "at ts (Suc (Suc c')) (value_tokens vs)"
    "check_token ts (Suc (Suc c') + length (value_tokens vs)) TCloseParen"
    using assms(1) by (auto simp: c'_def)
  have skip: "skip_token ts TNot c = (Inr negated, c')"
    using assms(1) at_other [of ts c TIn TNot] by (auto simp: c'_def skip_token_def)
  obtain v rest where vs: "vs = v # rest" using assms(2) by (cases vs) auto
  have "check_token ts (Suc (Suc c')) (value_token v)" using tokens(3) by (cases rest) (simp_all add: vs)
  moreover have "value_token v \<noteq> TSelect" by (cases v) (simp_all add: value_token_def)
  ultimately have no_select: "\<not> check_token ts (Suc (Suc c')) TSelect" using at_other by blast
  have "\<not> check_token ts (Suc (Suc c') + length (value_tokens vs)) TComma"
    using at_other [OF tokens(4), of TComma] by simp
  note listed = values_at [OF tokens(3) assms(2,3) this, of env fuel "[]"]
  show ?thesis using tokens listed no_select
    by (simp add: bind_o_run [where m = "skip_token ts TNot", OF skip] if_token_def parse_in_def when_token_def
        bind_o_run [where m = "expect_token ts TOpenParen", OF at_expect] bind_o_run [where m = "expect_token ts TCloseParen", OF at_expect]
        bind_o_Some c'_def)
qed

lemma leaf_at:
  assumes "\<And>a b. tree \<noteq> Conj a b" "\<And>a b. tree \<noteq> Disj a b" "tree_ok tree"
    "at ts c (tree_tokens level tree)" "length ts < c + fuel"
  shows "primary_cond env fuel ts cond query c = Some (Inr (expr_of tree), c + length (tree_tokens level tree))"
proof -
  obtain col where col: "check_token ts c (Ident col)" "plain_column col"
    using assms(1-4) by (cases tree) auto
  have primary: "primary_cond env fuel ts cond query c = parse_column_condition env fuel ts query c"
    using at_other [OF col(1)] by (simp add: primary_cond_def if_token_def)
  have f: "0 < fuel" using check_token_D [OF col(1)] assms(5) by simp
  show ?thesis
  proof (cases tree)
    case (Compare col' op v)
    then have rest: "col' = col" "at ts (Suc c) (op_tokens op @ [value_token v])" "op \<noteq> OpIsNull" "op \<noteq> OpIsNotNull"
      using assms(3,4) at_other [OF col(1)] by auto
    obtain t where t: "check_token ts (Suc c) t" "t \<noteq> TOpenParen" "t \<noteq> TDot" "t \<noteq> TAs" "t \<noteq> TIs" "t \<noteq> TBetween"
      using op_first [OF rest(2-4)] by blast
    show ?thesis
      using comparison_at [OF rest(2-4), of env fuel query col] column_at [OF col f t(1-4)] at_other [OF t(1)] t(5,6) Compare rest(1)
      by (simp add: primary parse_column_condition_def bind_o_Some if_token_def)
  next
    case (NullTest col' is_not)
    then have rest: "col' = col" "check_token ts (Suc c) TIs" "at ts (Suc (Suc c)) ((if is_not then [TNot] else []) @ [TNull])"
      using assms(3,4) at_other [OF col(1)] by auto
    show ?thesis using null_test_at [OF rest(3), of col] column_at [OF col f rest(2)] NullTest rest(1,2)
      by (simp add: primary parse_column_condition_def bind_o_Some if_token_def)
  next
    case (Member col' vs negated)
    then have rest: "col' = col" "vs \<noteq> []"
      "at ts (Suc c) ((if negated then [TNot] else []) @ [TIn, TOpenParen] @ value_tokens vs @ [TCloseParen])"
      using assms(3,4) at_other [OF col(1)] by auto
    obtain t where t: "check_token ts (Suc c) t" "t = TNot \<or> t = TIn" using rest(3) by (cases negated) auto
    have len: "length vs \<le> fuel" using at_bound [OF rest(3)] value_tokens_length [of vs] assms(5) by simp
    show ?thesis
      using member_at [OF rest(3,2) len, of env query col] column_at [OF col f t(1)] at_other [OF t(1)] t(2) Member rest(1)
      by (auto simp: primary parse_column_condition_def bind_o_Some if_token_def)
  qed (use assms in auto)
qed

text \<open>What the levels of the parser make of a tree: a closed condition is read as one; a chain of \<^verbatim>\<open>AND\<close>
  is read up to the tree, with enough fuel left to go on; the same for \<^verbatim>\<open>OR\<close>.\<close>

definition prim :: "float_env \<Rightarrow> token list \<Rightarrow> nat \<Rightarrow> (nat, where_expr) om" where
  "prim env ts f = primary_cond env f ts (parse_or_expr env f ts) (parse_select env f ts)"

definition reads2 :: "float_env \<Rightarrow> token list \<Rightarrow> bool_tree \<Rightarrow> bool" where
  "reads2 env ts t \<longleftrightarrow> (\<forall>f c. length ts < c + f \<longrightarrow> at ts c (tree_tokens 2 t) \<longrightarrow>
     prim env ts f c = Some (Inr (expr_of t), c + length (tree_tokens 2 t)))"

definition reads1 :: "float_env \<Rightarrow> token list \<Rightarrow> bool_tree \<Rightarrow> bool" where
  "reads1 env ts t \<longleftrightarrow> (\<forall>f g c. length ts < c + f \<longrightarrow> length ts < c + g \<longrightarrow> at ts c (tree_tokens 1 t) \<longrightarrow>
     (\<exists>g'. length ts < c + length (tree_tokens 1 t) + g' \<and>
        bind_o (prim env ts f) (chain_rest g ts TAnd AndE (prim env ts f)) c =
        chain_rest g' ts TAnd AndE (prim env ts f) (expr_of t) (c + length (tree_tokens 1 t))))"

definition reads0 :: "float_env \<Rightarrow> token list \<Rightarrow> bool_tree \<Rightarrow> bool" where
  "reads0 env ts t \<longleftrightarrow> (\<forall>f g c. length ts < c + f \<longrightarrow> length ts < c + g \<longrightarrow> at ts c (tree_tokens 0 t) \<longrightarrow>
     \<not> check_token ts (c + length (tree_tokens 0 t)) TAnd \<longrightarrow>
     (\<exists>g'. length ts < c + length (tree_tokens 0 t) + g' \<and>
        bind_o (and_chain f ts (prim env ts f)) (chain_rest g ts TOr OrE (and_chain f ts (prim env ts f))) c =
        chain_rest g' ts TOr OrE (and_chain f ts (prim env ts f)) (expr_of t) (c + length (tree_tokens 0 t))))"

lemma tree_tokens_not_Nil: "tree_tokens level t \<noteq> []"
  by (cases t) (simp_all add: parens_def)

lemma at_tree_bound: "at ts c (tree_tokens level t) \<Longrightarrow> c + length (tree_tokens level t) \<le> length ts"
  by (rule at_bound) (simp_all add: tree_tokens_not_Nil)

lemma chain_stops:
  assumes "length ts < c + g" "c \<le> length ts" "\<not> check_token ts c op"
  shows "chain_rest g ts op mk operand e c = Some (Inr e, c)"
  using assms by (cases g) (simp_all add: if_token_def)

lemma chain_goes_on:
  assumes "length ts < c + g" "check_token ts c op" "operand (Suc c) = Some (Inr right, c')" "c < c'"
  shows "\<exists>g'. length ts < c' + g' \<and> chain_rest g ts op mk operand e c = chain_rest g' ts op mk operand (mk e right) c'"
proof -
  obtain g' where g: "g = Suc g'" using assms(1) check_token_D [OF assms(2)] by (cases g) auto
  then show ?thesis using assms by (intro exI [of _ g']) (simp add: if_token_def bind_o_Some)
qed

lemma conj_reads:
  assumes "reads1 env ts t" "length ts < c + f" "at ts c (tree_tokens 1 t)" "\<not> check_token ts (c + length (tree_tokens 1 t)) TAnd"
  shows "and_chain f ts (prim env ts f) c = Some (Inr (expr_of t), c + length (tree_tokens 1 t))"
proof -
  obtain g' where "length ts < c + length (tree_tokens 1 t) + g'"
    "and_chain f ts (prim env ts f) c = chain_rest g' ts TAnd AndE (prim env ts f) (expr_of t) (c + length (tree_tokens 1 t))"
    using assms(1-3) unfolding reads1_def and_chain_def by blast
  then show ?thesis using chain_stops at_tree_bound [OF assms(3)] assms(4) by simp
qed

lemma or_reads:
  assumes "reads0 env ts t" "length ts < c + f" "at ts c (tree_tokens 0 t)"
    "\<not> check_token ts (c + length (tree_tokens 0 t)) TAnd" "\<not> check_token ts (c + length (tree_tokens 0 t)) TOr"
  shows "parse_or_expr env (Suc f) ts c = Some (Inr (expr_of t), c + length (tree_tokens 0 t))"
proof -
  obtain g' where "length ts < c + length (tree_tokens 0 t) + g'"
    "parse_or_expr env (Suc f) ts c =
     chain_rest g' ts TOr OrE (and_chain f ts (prim env ts f)) (expr_of t) (c + length (tree_tokens 0 t))"
    using assms(1-4) unfolding reads0_def parse_or_expr.simps or_chain_def prim_def by blast
  then show ?thesis using chain_stops at_tree_bound [OF assms(3)] assms(5) by simp
qed

lemma parens_read:
  assumes "reads0 env ts t" "length ts < c + f" "at ts c ([TOpenParen] @ tree_tokens 0 t @ [TCloseParen])"
  shows "prim env ts f c = Some (Inr (expr_of t), c + length (tree_tokens 0 t) + 2)"
proof -
  have tokens: "check_token ts c TOpenParen" "at ts (Suc c) (tree_tokens 0 t)"
    "check_token ts (Suc c + length (tree_tokens 0 t)) TCloseParen" using assms(3) by simp_all
  obtain f' where f: "f = Suc f'" using assms(2) check_token_D [OF tokens(1)] by (cases f) auto
  have "parse_or_expr env f ts (Suc c) = Some (Inr (expr_of t), Suc c + length (tree_tokens 0 t))"
    unfolding f using assms(2) f at_other [OF tokens(3)] by (intro or_reads assms(1) tokens(2)) simp_all
  then show ?thesis using tokens(1) at_expect [OF tokens(3)]
    by (simp add: prim_def primary_cond_def if_token_def bind_o_Some bind_o_run)
qed

lemma reads1_closed:
  assumes "reads2 env ts t" "tree_tokens 1 t = tree_tokens 2 t"
  shows "reads1 env ts t"
  unfolding reads1_def
proof (intro allI impI)
  fix f g c assume c: "length ts < c + f" "length ts < c + g" "at ts c (tree_tokens 1 t)"
  then have "prim env ts f c = Some (Inr (expr_of t), c + length (tree_tokens 1 t))"
    using assms unfolding reads2_def by simp
  then show "\<exists>g'. length ts < c + length (tree_tokens 1 t) + g' \<and>
        bind_o (prim env ts f) (chain_rest g ts TAnd AndE (prim env ts f)) c =
        chain_rest g' ts TAnd AndE (prim env ts f) (expr_of t) (c + length (tree_tokens 1 t))"
    using c by (intro exI [of _ g]) (simp add: bind_o_Some)
qed

lemma reads0_conj:
  assumes "reads1 env ts t" "tree_tokens 0 t = tree_tokens 1 t"
  shows "reads0 env ts t"
  unfolding reads0_def
proof (intro allI impI)
  fix f g c assume c: "length ts < c + f" "length ts < c + g" "at ts c (tree_tokens 0 t)"
    "\<not> check_token ts (c + length (tree_tokens 0 t)) TAnd"
  then have "and_chain f ts (prim env ts f) c = Some (Inr (expr_of t), c + length (tree_tokens 0 t))"
    using conj_reads [OF assms(1)] assms(2) by simp
  then show "\<exists>g'. length ts < c + length (tree_tokens 0 t) + g' \<and>
        bind_o (and_chain f ts (prim env ts f)) (chain_rest g ts TOr OrE (and_chain f ts (prim env ts f))) c =
        chain_rest g' ts TOr OrE (and_chain f ts (prim env ts f)) (expr_of t) (c + length (tree_tokens 0 t))"
    using c by (intro exI [of _ g]) (simp add: bind_o_Some)
qed

lemma reads1_Conj:
  assumes "reads1 env ts a" "reads2 env ts b"
  shows "reads1 env ts (Conj a b)"
  unfolding reads1_def
proof (intro allI impI)
  fix f g c assume c: "length ts < c + f" "length ts < c + g" "at ts c (tree_tokens 1 (Conj a b))"
  define c1 where "c1 = c + length (tree_tokens 1 a)"
  have tokens: "at ts c (tree_tokens 1 a)" "check_token ts c1 TAnd" "at ts (Suc c1) (tree_tokens 2 b)"
    using c(3) by (simp_all add: parens_def c1_def)
  obtain g1 where g1: "length ts < c1 + g1" "bind_o (prim env ts f) (chain_rest g ts TAnd AndE (prim env ts f)) c =
        chain_rest g1 ts TAnd AndE (prim env ts f) (expr_of a) c1"
    using assms(1) c(1,2) tokens(1) unfolding reads1_def c1_def by blast
  have "prim env ts f (Suc c1) = Some (Inr (expr_of b), Suc c1 + length (tree_tokens 2 b))"
    using assms(2) c(1) tokens(3) unfolding reads2_def c1_def by simp
  from chain_goes_on [where operand = "prim env ts f", OF g1(1) tokens(2) this, of AndE "expr_of a"]
  show "\<exists>g'. length ts < c + length (tree_tokens 1 (Conj a b)) + g' \<and>
        bind_o (prim env ts f) (chain_rest g ts TAnd AndE (prim env ts f)) c =
        chain_rest g' ts TAnd AndE (prim env ts f) (expr_of (Conj a b)) (c + length (tree_tokens 1 (Conj a b)))"
    using g1(2) by (simp add: parens_def c1_def add.assoc)
qed

lemma reads0_Disj:
  assumes "reads0 env ts a" "reads1 env ts b"
  shows "reads0 env ts (Disj a b)"
  unfolding reads0_def
proof (intro allI impI)
  fix f g c assume c: "length ts < c + f" "length ts < c + g" "at ts c (tree_tokens 0 (Disj a b))"
    "\<not> check_token ts (c + length (tree_tokens 0 (Disj a b))) TAnd"
  define c1 where "c1 = c + length (tree_tokens 0 a)"
  have tokens: "at ts c (tree_tokens 0 a)" "check_token ts c1 TOr" "at ts (Suc c1) (tree_tokens 1 b)"
    using c(3) by (simp_all add: parens_def c1_def)
  have "\<not> check_token ts c1 TAnd" using at_other [OF tokens(2)] by simp
  then obtain g1 where g1: "length ts < c1 + g1"
    "bind_o (and_chain f ts (prim env ts f)) (chain_rest g ts TOr OrE (and_chain f ts (prim env ts f))) c =
        chain_rest g1 ts TOr OrE (and_chain f ts (prim env ts f)) (expr_of a) c1"
    using assms(1) c(1,2) tokens(1) unfolding reads0_def c1_def by blast
  have "and_chain f ts (prim env ts f) (Suc c1) = Some (Inr (expr_of b), Suc c1 + length (tree_tokens 1 b))"
    using c by (intro conj_reads assms(2) tokens(3)) (simp_all add: c1_def parens_def ac_simps)
  from chain_goes_on [where operand = "and_chain f ts (prim env ts f)", OF g1(1) tokens(2) this, of OrE "expr_of a"]
  show "\<exists>g'. length ts < c + length (tree_tokens 0 (Disj a b)) + g' \<and>
        bind_o (and_chain f ts (prim env ts f)) (chain_rest g ts TOr OrE (and_chain f ts (prim env ts f))) c =
        chain_rest g' ts TOr OrE (and_chain f ts (prim env ts f)) (expr_of (Disj a b)) (c + length (tree_tokens 0 (Disj a b)))"
    using g1(2) by (simp add: parens_def c1_def add.assoc)
qed

lemma reads2_parens:
  assumes "reads0 env ts t" "tree_tokens 2 t = [TOpenParen] @ tree_tokens 0 t @ [TCloseParen]"
  shows "reads2 env ts t"
  using parens_read [OF assms(1)] by (simp add: reads2_def assms(2))

lemma reads_tree: "tree_ok t \<Longrightarrow> reads2 env ts t \<and> reads1 env ts t \<and> reads0 env ts t"
proof (induction t)
  case (Conj a b)
  then have one: "reads1 env ts (Conj a b)" by (intro reads1_Conj) simp_all
  then have zero: "reads0 env ts (Conj a b)" by (rule reads0_conj) (simp add: parens_def)
  have "reads2 env ts (Conj a b)" by (rule reads2_parens [OF zero]) (simp add: parens_def)
  then show ?case using one zero by blast
next
  case (Disj a b)
  then have zero: "reads0 env ts (Disj a b)" by (intro reads0_Disj) simp_all
  have two: "reads2 env ts (Disj a b)" by (rule reads2_parens [OF zero]) (simp add: parens_def)
  have "reads1 env ts (Disj a b)" by (rule reads1_closed [OF two]) (simp add: parens_def)
  then show ?case using zero two by blast
next
  case (Compare col op v)
  then have "reads2 env ts (Compare col op v)" using leaf_at [of "Compare col op v" ts] by (simp add: reads2_def prim_def)
  then show ?case using reads1_closed reads0_conj by simp
next
  case (NullTest col is_not)
  then have "reads2 env ts (NullTest col is_not)" using leaf_at [of "NullTest col is_not" ts] by (simp add: reads2_def prim_def)
  then show ?case using reads1_closed reads0_conj by simp
next
  case (Member col vs negated)
  then have "reads2 env ts (Member col vs negated)" using leaf_at [of "Member col vs negated" ts] by (simp add: reads2_def prim_def)
  then show ?case using reads1_closed reads0_conj by simp
qed

section \<open>The condition of a statement\<close>

text \<open>C15: every condition of comparisons, null tests and memberships, however \<^verbatim>\<open>AND\<close> and \<^verbatim>\<open>OR\<close> are nested,
  comes back from the parser as it was printed with the fewest parentheses: \<^verbatim>\<open>AND\<close> binds stronger, both
  group to the left, negated operators become the operators they stand for, and the rows a
  \<^verbatim>\<open>DELETE\<close> names are those of its whole condition.\<close>

theorem delete_condition_roundtrip:
  assumes "tree_ok tree" "length (tree_tokens 0 tree) + 6 < fuel"
  shows "parse_tokens env fuel ([TDelete, TFrom, Ident table, TWhere] @ tree_tokens 0 tree) =
    Some (Inr (Delete table (Some (expr_of tree)) None))"
proof -
  define ts where "ts = [TDelete, TFrom, Ident table, TWhere] @ tree_tokens 0 tree"
  obtain f where fuel: "fuel = Suc (Suc f)" using assms(2) by (cases fuel; cases "fuel - 1") auto
  have len: "length ts = 4 + length (tree_tokens 0 tree)" by (simp add: ts_def)
  have tokens: "at ts 0 [TDelete, TFrom, Ident table, TWhere]" "at ts 4 (tree_tokens 0 tree)"
    by (simp_all add: ts_def at_def)
  have past: "\<not> check_token ts (length ts) t" for t by (simp add: check_token_def)
  have cond: "parse_or_expr env (Suc f) ts 4 = Some (Inr (expr_of tree), length ts)"
    using or_reads [of env ts tree 4 f] reads_tree [OF assms(1), of env ts] tokens(2) past assms(2) fuel len by simp
  have words: "check_token ts 1 TFrom" "check_token ts 2 (Ident table)" "check_token ts 3 TWhere"
    using tokens(1) by (simp_all add: numeral_eq_Suc)
  have name: "expect_ident ts msg 2 = (Inr table, 3)" for msg
    using at_get [OF words(2)] by (simp add: expect_ident_def bind_s_def)
  have "parse_delete env (Suc f) ts 0 = Some (Inr (Delete table (Some (expr_of tree)) None), length ts)"
    using at_expect [OF words(1)] name words(3) cond past
    by (simp add: parse_delete_def bind_o_run bind_o_Some put_s_def parse_optional_where_clause_def parse_where_expr_def
        parse_optional_where_def if_token_def parse_optional_returning_def numeral_eq_Suc)
  then have "parse_statement env (Suc f) ts (parse_tokens env (Suc f)) 0 =
    Some (Inr (Delete table (Some (expr_of tree)) None), length ts)"
    by (simp add: parse_statement_def ts_def)
  then show ?thesis unfolding ts_def [symmetric] fuel by (simp add: statement_end_def Let_def ts_def)
qed

theorem delete_condition_roundtrip_witness:
  "tree_ok (Conj (Disj (Compare ''a'' OpNotLike (TextV ''x'')) (NullTest ''b'' True)) (Member ''c'' [IntegerV 1, NullV] True)) \<and>
   parse_tokens no_floats 40 [TDelete, TFrom, Ident ''t'', TWhere, TOpenParen, Ident ''a'', TNot, TLike, StringLit ''x'',
     TOr, Ident ''b'', TIs, TNot, TNull, TCloseParen, TAnd, Ident ''c'', TNot, TIn, TOpenParen, IntLit 1, TComma, TNull, TCloseParen] =
   Some (Inr (Delete ''t'' (Some (AndE
     (OrE (cond_of ''a'' OpNotLike (TextV ''x'')) (cond_of ''b'' OpIsNotNull NullV))
     (InList ''c'' [IntegerV 1, NullV] True))) None))"
  using delete_condition_roundtrip [of "Conj (Disj (Compare ''a'' OpNotLike (TextV ''x'')) (NullTest ''b'' True))
      (Member ''c'' [IntegerV 1, NullV] True)" 40 no_floats "''t''"]
  by (simp add: plain_column_def is_distance_name_def eq_ignore_ascii_case_def parens_def op_tokens_def value_token_def)

end
