(* ===== verification/Sql_Eval.thy ===== *)
theory Sql_Eval
  imports Sql_Statement
begin

text \<open>
  Comparison of values and evaluation of conditions on a row (\<^verbatim>\<open>src/src/traits.rs\<close>,
  \<^verbatim>\<open>src/src/sql/executor.rs\<close>), and the posting lists of secondary indexes. Floating-point numbers
  are their bits; comparing them needs no arithmetic. JSON paths and function calls in a column
  expression are an argument.
\<close>

section \<open>Comparing values\<close>

datatype ordering = Less | Equal | Greater

definition cmp_int :: "int \<Rightarrow> int \<Rightarrow> ordering" where
  "cmp_int a b = (if a < b then Less else if a = b then Equal else Greater)"

fun cmp_list :: "int list \<Rightarrow> int list \<Rightarrow> ordering" where
  "cmp_list [] [] = Equal"
| "cmp_list [] (b # bs) = Less"
| "cmp_list (a # as) [] = Greater"
| "cmp_list (a # as) (b # bs) = (if a = b then cmp_list as bs else cmp_int a b)"

text \<open>\<^verbatim>\<open>f64::total_cmp\<close>: the bits, those of a negative number flipped below the sign, as integers.\<close>

definition total_key :: "u64 \<Rightarrow> int" where
  "total_key w = (if bit w 63 then sint (w XOR 0x7FFFFFFFFFFFFFFF) else sint w)"

definition total_cmp :: "u64 \<Rightarrow> u64 \<Rightarrow> ordering" where
  "total_cmp a b = cmp_int (total_key a) (total_key b)"

text \<open>\<^verbatim>\<open>==\<close> on floating-point numbers: no number equals a NaN, the two zeros are equal.\<close>

definition f64_nan :: "u64 \<Rightarrow> bool" where "f64_nan w \<longleftrightarrow> 0x7FF0000000000000 < w AND 0x7FFFFFFFFFFFFFFF"
definition f32_nan :: "u32 \<Rightarrow> bool" where "f32_nan w \<longleftrightarrow> 0x7F800000 < w AND 0x7FFFFFFF"

definition f64_eq :: "u64 \<Rightarrow> u64 \<Rightarrow> bool" where
  "f64_eq a b \<longleftrightarrow> \<not> f64_nan a \<and> \<not> f64_nan b \<and>
     (a = b \<or> a AND 0x7FFFFFFFFFFFFFFF = 0 \<and> b AND 0x7FFFFFFFFFFFFFFF = 0)"

definition f32_eq :: "u32 \<Rightarrow> u32 \<Rightarrow> bool" where
  "f32_eq a b \<longleftrightarrow> \<not> f32_nan a \<and> \<not> f32_nan b \<and> (a = b \<or> a AND 0x7FFFFFFF = 0 \<and> b AND 0x7FFFFFFF = 0)"

text \<open>The derived \<^verbatim>\<open>PartialEq\<close> of \<^verbatim>\<open>Value\<close>.\<close>

definition value_eq :: "sql_value \<Rightarrow> sql_value \<Rightarrow> bool" where
  "value_eq v w \<longleftrightarrow>
     (case (v, w) of
        (NullV, NullV) \<Rightarrow> True
      | (IntegerV a, IntegerV b) \<Rightarrow> a = b
      | (RealV a, RealV b) \<Rightarrow> f64_eq a b
      | (TextV a, TextV b) \<Rightarrow> a = b
      | (BlobV a, BlobV b) \<Rightarrow> a = b
      | (VectorV a, VectorV b) \<Rightarrow> list_all2 f32_eq a b
      | _ \<Rightarrow> False)"

definition is_null :: "sql_value \<Rightarrow> bool" where "is_null v \<longleftrightarrow> v = NullV"

definition value_compare :: "float_env \<Rightarrow> sql_value \<Rightarrow> sql_value \<Rightarrow> ordering" where
  "value_compare env v w =
     (case (v, w) of
        (NullV, NullV) \<Rightarrow> Equal
      | (NullV, _) \<Rightarrow> Less
      | (_, NullV) \<Rightarrow> Greater
      | (IntegerV a, IntegerV b) \<Rightarrow> cmp_int (sint a) (sint b)
      | (IntegerV a, RealV b) \<Rightarrow> total_cmp (f64_of_i64 env a) b
      | (RealV a, IntegerV b) \<Rightarrow> total_cmp a (f64_of_i64 env b)
      | (RealV a, RealV b) \<Rightarrow> total_cmp a b
      | (TextV a, TextV b) \<Rightarrow> cmp_list (map of_char a) (map of_char b)
      | (BlobV a, BlobV b) \<Rightarrow> cmp_list (map uint a) (map uint b)
      | (VectorV a, VectorV b) \<Rightarrow> cmp_int (int (length a)) (int (length b))
      | _ \<Rightarrow> Equal)"

section \<open>LIKE and MATCH\<close>

text \<open>The loop of \<^verbatim>\<open>sql_like_match\<close> over two lists of characters.\<close>

partial_function (option) like_loop ::
    "string \<Rightarrow> string \<Rightarrow> nat \<Rightarrow> nat \<Rightarrow> nat option \<Rightarrow> nat \<Rightarrow> bool option" where
  "like_loop p t p_idx t_idx star_idx match_idx =
     (if t_idx < length t then
        (if p_idx < length p \<and> (p ! p_idx = CHR ''_'' \<or> p ! p_idx = t ! t_idx)
         then like_loop p t (p_idx + 1) (t_idx + 1) star_idx match_idx
         else if p_idx < length p \<and> p ! p_idx = CHR ''%''
         then like_loop p t (p_idx + 1) t_idx (Some p_idx) t_idx
         else case star_idx of
             Some star \<Rightarrow> like_loop p t (star + 1) (match_idx + 1) star_idx (match_idx + 1)
           | None \<Rightarrow> Some False)
      else Some (dropWhile (\<lambda>c. c = CHR ''%'') (drop p_idx p) = []))"

definition sql_like_match :: "string \<Rightarrow> string \<Rightarrow> bool option" where
  "sql_like_match pattern txt = like_loop (to_lowercase pattern) (to_lowercase txt) 0 0 None 0"

text \<open>\<^verbatim>\<open>bm25::tokenize\<close>; the length of a word is counted in bytes of UTF-8.\<close>

definition utf8_length :: "string \<Rightarrow> nat" where
  "utf8_length s = sum_list (map (\<lambda>c. if code_of c < 128 then 1 else 2) s)"

fun split_where :: "(char \<Rightarrow> bool) \<Rightarrow> string \<Rightarrow> string \<Rightarrow> string list" where
  "split_where sep part [] = [part]"
| "split_where sep part (c # cs) = (if sep c then part # split_where sep [] cs else split_where sep (part @ [c]) cs)"

definition bm25_tokenize :: "string \<Rightarrow> string list" where
  "bm25_tokenize s =
     filter (\<lambda>w. w \<noteq> [] \<and> utf8_length w > 1)
       (split_where (\<lambda>c. \<not> is_alphanumeric c \<and> c \<noteq> CHR ''_'' \<and> c \<noteq> CHR ''-'') [] (to_lowercase s))"

definition sql_match_bm25 :: "string \<Rightarrow> string \<Rightarrow> bool" where
  "sql_match_bm25 query txt = (\<exists>w \<in> set (bm25_tokenize query). w \<in> set (bm25_tokenize txt))"

section \<open>Conditions\<close>

text \<open>A result \<open>None\<close> is a loop that does not return.\<close>

definition matches_condition :: "float_env \<Rightarrow> sql_value \<Rightarrow> binary_op \<Rightarrow> sql_value \<Rightarrow> bool option" where
  "matches_condition env actual op target =
     (if op = OpIsNull then Some (is_null actual)
      else if op = OpIsNotNull then Some (\<not> is_null actual)
      else if is_null actual \<or> is_null target then Some False
      else let ord = value_compare env actual target in
      case op of
        OpEquals \<Rightarrow> Some (value_eq actual target)
      | OpNotEquals \<Rightarrow> Some (\<not> value_eq actual target)
      | OpGreaterThan \<Rightarrow> Some (ord = Greater)
      | OpLessThan \<Rightarrow> Some (ord = Less)
      | OpGreaterOrEqual \<Rightarrow> Some (ord = Greater \<or> ord = Equal)
      | OpLessOrEqual \<Rightarrow> Some (ord = Less \<or> ord = Equal)
      | OpLike \<Rightarrow> (case (actual, target) of (TextV txt, TextV pat) \<Rightarrow> sql_like_match pat txt | _ \<Rightarrow> Some False)
      | OpNotLike \<Rightarrow> (case (actual, target) of (TextV txt, TextV pat) \<Rightarrow> map_option Not (sql_like_match pat txt) | _ \<Rightarrow> Some False)
      | OpMatch \<Rightarrow> (case (actual, target) of (TextV txt, TextV q) \<Rightarrow> Some (sql_match_bm25 q txt) | _ \<Rightarrow> Some False)
      | OpIsNull \<Rightarrow> Some False
      | OpIsNotNull \<Rightarrow> Some False)"

text \<open>A row, and the value of a column by its name, qualified or not.\<close>

record row =
  r_columns :: "string list"
  r_values :: "sql_value list"

definition after_last_dot :: "string \<Rightarrow> string option" where
  "after_last_dot s =
     (if CHR ''.'' \<in> set s then Some (rev (takeWhile (\<lambda>c. c \<noteq> CHR ''.'') (rev s))) else None)"

definition col_name_matches :: "string \<Rightarrow> string \<Rightarrow> bool" where
  "col_name_matches stored target \<longleftrightarrow>
     eq_ignore_ascii_case stored target \<or>
     (case after_last_dot stored of None \<Rightarrow> False | Some s \<Rightarrow> eq_ignore_ascii_case s target) \<or>
     (case after_last_dot target of None \<Rightarrow> False | Some s \<Rightarrow> eq_ignore_ascii_case s stored)"

definition get_value :: "row \<Rightarrow> string \<Rightarrow> sql_value option" where
  "get_value r col =
     (let pos = length (takeWhile (\<lambda>c. \<not> col_name_matches c col) (r_columns r)) in
      if pos < length (r_columns r) \<and> pos < length (r_values r) then Some (r_values r ! pos) else None)"

text \<open>Conditions whose subqueries have been run.\<close>

datatype resolved_where =
    RCondition where_condition
  | RAnd resolved_where resolved_where
  | ROr resolved_where resolved_where
  | RInList string "sql_value list" bool
  | RBoolean bool

text \<open>\<open>other\<close> gives the value of a column expression that is no column: a JSON path or a call.\<close>

definition column_value :: "(row \<Rightarrow> string \<Rightarrow> sql_value option) \<Rightarrow> row \<Rightarrow> string \<Rightarrow> sql_value option" where
  "column_value other r col = (case get_value r col of Some v \<Rightarrow> Some v | None \<Rightarrow> other r col)"

definition in_list :: "float_env \<Rightarrow> sql_value \<Rightarrow> sql_value list \<Rightarrow> bool \<Rightarrow> bool" where
  "in_list env val values negated =
     (let has_null = (\<exists>v \<in> set values. is_null v); is_in = (\<exists>target \<in> set values. value_compare env val target = Equal) in
      if is_null val then False
      else if negated then (if has_null then False else \<not> is_in)
      else is_in)"

fun row_matches_resolved :: "float_env \<Rightarrow> (row \<Rightarrow> string \<Rightarrow> sql_value option) \<Rightarrow> row \<Rightarrow> resolved_where \<Rightarrow> bool option" where
  "row_matches_resolved env other r (RBoolean b) = Some b"
| "row_matches_resolved env other r (RCondition cond) =
     (case column_value other r (wc_column cond) of
        None \<Rightarrow> Some False
      | Some val \<Rightarrow> matches_condition env val (wc_op cond) (wc_value cond))"
| "row_matches_resolved env other r (RAnd left right) =
     (case row_matches_resolved env other r left of
        Some True \<Rightarrow> row_matches_resolved env other r right
      | res \<Rightarrow> res)"
| "row_matches_resolved env other r (ROr left right) =
     (case row_matches_resolved env other r left of
        Some False \<Rightarrow> row_matches_resolved env other r right
      | res \<Rightarrow> res)"
| "row_matches_resolved env other r (RInList column values negated) =
     (case column_value other r column of
        None \<Rightarrow> Some False
      | Some val \<Rightarrow> Some (in_list env val values negated))"

text \<open>Resolution with a way to run subqueries, which yields rows.\<close>

primrec resolve_where_expr :: "(statement \<Rightarrow> row list result) \<Rightarrow> where_expr \<Rightarrow> resolved_where result" where
  "resolve_where_expr query (Condition cond) = Inr (RCondition cond)"
| "resolve_where_expr query (AndE left right) =
     bind_r (resolve_where_expr query left) (\<lambda>l. bind_r (resolve_where_expr query right) (\<lambda>r. Inr (RAnd l r)))"
| "resolve_where_expr query (OrE left right) =
     bind_r (resolve_where_expr query left) (\<lambda>l. bind_r (resolve_where_expr query right) (\<lambda>r. Inr (ROr l r)))"
| "resolve_where_expr query (InList column values negated) = Inr (RInList column values negated)"
| "resolve_where_expr query (InSubquery column subquery negated) =
     bind_r (query subquery) (\<lambda>sub_rows.
       Inr (RInList column (concat (map (\<lambda>r. take 1 (r_values r)) sub_rows)) negated))"
| "resolve_where_expr query (ExistsE subquery negated) =
     bind_r (query subquery) (\<lambda>sub_rows. Inr (RBoolean (if negated then sub_rows = [] else sub_rows \<noteq> [])))"

section \<open>Posting lists\<close>

text \<open>\<^verbatim>\<open>IndexBucket\<close>: values with the row numbers that hold them.\<close>

type_synonym index_bucket = "(sql_value \<times> u64 list) list"

definition get_row_ids :: "index_bucket \<Rightarrow> sql_value \<Rightarrow> u64 list option" where
  "get_row_ids entries v = map_option snd (find (\<lambda>e. value_eq (fst e) v) entries)"

fun update_first :: "('a \<Rightarrow> bool) \<Rightarrow> ('a \<Rightarrow> 'a) \<Rightarrow> 'a list \<Rightarrow> 'a list" where
  "update_first p f [] = []"
| "update_first p f (x # xs) = (if p x then f x # xs else x # update_first p f xs)"

definition add_row_id :: "sql_value \<Rightarrow> u64 \<Rightarrow> index_bucket \<Rightarrow> index_bucket" where
  "add_row_id v rid entries =
     (if \<exists>e \<in> set entries. value_eq (fst e) v
      then update_first (\<lambda>e. value_eq (fst e) v)
             (\<lambda>e. if rid \<in> set (snd e) then e else (fst e, snd e @ [rid])) entries
      else entries @ [(v, [rid])])"

definition remove_row_id :: "sql_value \<Rightarrow> u64 \<Rightarrow> index_bucket \<Rightarrow> bool \<times> index_bucket" where
  "remove_row_id v rid entries =
     ((case find (\<lambda>e. value_eq (fst e) v) entries of
         None \<Rightarrow> False
       | Some e \<Rightarrow> length (filter (\<lambda>x. x \<noteq> rid) (snd e)) \<noteq> length (snd e)),
      filter (\<lambda>e. snd e \<noteq> [])
        (update_first (\<lambda>e. value_eq (fst e) v) (\<lambda>e. (fst e, filter (\<lambda>x. x \<noteq> rid) (snd e))) entries))"

end
