(* ===== verification/Sql_Like.thy ===== *)
theory Sql_Like
  imports Sql_Eval
begin

text \<open>
  The loop of \<^verbatim>\<open>sql_like_match\<close> keeps one position to come back to. Here it returns, and agrees with
  the meaning of a pattern, as long as the text holds no percent sign.
\<close>

section \<open>The meaning of a pattern\<close>

fun like_spec :: "string \<Rightarrow> string \<Rightarrow> bool" where
  "like_spec [] t \<longleftrightarrow> t = []"
| "like_spec (p # ps) t \<longleftrightarrow>
     (if p = CHR ''%'' then \<exists>k \<le> length t. like_spec ps (drop k t)
      else case t of [] \<Rightarrow> False | c # cs \<Rightarrow> (p = CHR ''_'' \<or> p = c) \<and> like_spec ps cs)"

abbreviation percent :: char where "percent \<equiv> CHR ''%''"

definition char_matches :: "char \<Rightarrow> char \<Rightarrow> bool" where
  "char_matches p c \<longleftrightarrow> p = CHR ''_'' \<or> p = c"

text \<open>A part of a pattern without a percent sign matches a part of its own length.\<close>

lemma like_literal:
  "percent \<notin> set l \<Longrightarrow>
   like_spec (l @ rest) t \<longleftrightarrow>
     length l \<le> length t \<and> list_all2 char_matches l (take (length l) t) \<and> like_spec rest (drop (length l) t)"
proof (induction l arbitrary: t)
  case (Cons p l)
  then show ?case by (cases t) (auto simp: char_matches_def)
qed simp

text \<open>\<^verbatim>\<open>%\<close> in front of a pattern.\<close>

abbreviation anywhere :: "string \<Rightarrow> string \<Rightarrow> bool" where
  "anywhere ps t \<equiv> like_spec (percent # ps) t"

lemma anywhere_drop:
  assumes "anywhere ps (drop k t)"
  shows "anywhere ps t"
proof -
  obtain j where j: "j \<le> length (drop k t)" "like_spec ps (drop j (drop k t))" using assms by auto
  then have "like_spec ps (drop (min (j + k) (length t)) t)" by (cases "j + k \<le> length t") (simp_all add: add.commute)
  then show ?thesis by (auto intro: exI [of _ "min (j + k) (length t)"])
qed

lemma anywhere_next:
  assumes "\<not> like_spec ps t" "t \<noteq> []"
  shows "anywhere ps t \<longleftrightarrow> anywhere ps (tl t)"
proof
  assume "anywhere ps t"
  then obtain k where k: "k \<le> length t" "like_spec ps (drop k t)" by auto
  then obtain j where "k = Suc j" using assms(1) by (cases k) auto
  then show "anywhere ps (tl t)" using k by (auto simp: drop_Suc intro!: exI [of _ j])
next
  assume "anywhere ps (tl t)"
  then show "anywhere ps t" using anywhere_drop [of ps 1 t] by (simp add: drop_Suc)
qed

text \<open>Greed is safe: where a part without a percent sign matches first, the rest may follow there.\<close>

lemma anywhere_greedy:
  assumes "percent \<notin> set l" "length l \<le> length t" "list_all2 char_matches l (take (length l) t)"
  shows "anywhere (l @ percent # ps) t \<longleftrightarrow> anywhere ps (drop (length l) t)"
proof
  assume "anywhere (l @ percent # ps) t"
  then obtain k where k: "k \<le> length t" "like_spec (l @ percent # ps) (drop k t)" by auto
  then have "anywhere ps (drop (length l) (drop k t))" using like_literal [OF assms(1)] by blast
  then have "anywhere ps (drop k (drop (length l) t))" by (simp add: add.commute)
  then show "anywhere ps (drop (length l) t)" by (rule anywhere_drop)
next
  assume "anywhere ps (drop (length l) t)"
  then have "like_spec (l @ percent # ps) (drop 0 t)"
    using like_literal [OF assms(1), of "percent # ps" t] assms(2,3) by simp
  then show "anywhere (l @ percent # ps) t" by auto
qed

lemma like_end: "like_spec ps [] \<longleftrightarrow> dropWhile (\<lambda>c. c = percent) ps = []"
  by (induction ps) auto

lemma anywhere_short:
  assumes "percent \<notin> set l" "length t \<le> length l"
  shows "anywhere (l @ ps) t \<longleftrightarrow> like_spec (l @ ps) t"
proof
  assume "anywhere (l @ ps) t"
  then obtain k where k: "k \<le> length t" "like_spec (l @ ps) (drop k t)" by auto
  then have "length l \<le> length (drop k t)" using like_literal [OF assms(1)] by blast
  then have "k = 0 \<or> l = [] \<and> t = []" using k(1) assms(2) by (cases l) auto
  then show "like_spec (l @ ps) t" using k(2) by auto
qed (auto intro: exI [of _ 0])

lemma ex_le_Suc: "(\<exists>k \<le> Suc n. P k) \<longleftrightarrow> P 0 \<or> (\<exists>k \<le> n. P (Suc k))"
  by (metis Suc_le_mono le0 not0_implies_Suc)

section \<open>The loop\<close>

text \<open>Between the star and the place in the pattern everything has matched what follows the place to
  come back to.\<close>

definition like_state :: "string \<Rightarrow> string \<Rightarrow> nat \<Rightarrow> nat \<Rightarrow> nat option \<Rightarrow> nat \<Rightarrow> bool" where
  "like_state p t p_idx t_idx star_idx match_idx \<longleftrightarrow>
     p_idx \<le> length p \<and> t_idx \<le> length t \<and> match_idx \<le> t_idx \<and>
     (case star_idx of
        None \<Rightarrow> like_spec p t \<longleftrightarrow> like_spec (drop p_idx p) (drop t_idx t)
      | Some star \<Rightarrow>
          \<exists>l. drop (Suc star) p = l @ drop p_idx p \<and> star < p_idx \<and> length l = t_idx - match_idx \<and> percent \<notin> set l \<and>
              list_all2 char_matches l (take (length l) (drop match_idx t)) \<and>
              (like_spec p t \<longleftrightarrow> anywhere (drop (Suc star) p) (drop match_idx t)))"

lemma drop_at: "i < length xs \<Longrightarrow> drop i xs = xs ! i # drop (Suc i) xs"
  by (simp add: Cons_nth_drop_Suc)

lemma state_char:
  assumes st: "like_state p t p_idx t_idx star_idx match_idx"
    and b: "t_idx < length t" "p_idx < length p" "char_matches (p ! p_idx) (t ! t_idx)" "p ! p_idx \<noteq> percent"
  shows "like_state p t (p_idx + 1) (t_idx + 1) star_idx match_idx"
proof (cases star_idx)
  case None
  have "like_spec (drop p_idx p) (drop t_idx t) \<longleftrightarrow> like_spec (drop (p_idx + 1) p) (drop (t_idx + 1) t)"
    using b by (simp add: drop_at char_matches_def)
  then show ?thesis using st b None by (simp add: like_state_def)
next
  case (Some star)
  then obtain l where l: "drop (Suc star) p = l @ drop p_idx p" "star < p_idx" "length l = t_idx - match_idx" "percent \<notin> set l"
    "list_all2 char_matches l (take (length l) (drop match_idx t))"
    "like_spec p t \<longleftrightarrow> anywhere (drop (Suc star) p) (drop match_idx t)" and m: "match_idx \<le> t_idx"
    using st unfolding like_state_def by (auto simp del: like_spec.simps)
  have "take (length (l @ [p ! p_idx])) (drop match_idx t) = take (length l) (drop match_idx t) @ [t ! t_idx]"
    using l(3) m b(1) by (simp add: take_Suc_conv_app_nth)
  then have "list_all2 char_matches (l @ [p ! p_idx]) (take (length (l @ [p ! p_idx])) (drop match_idx t))"
    using l(5) b(3) by (simp add: list_all2_appendI)
  moreover have "drop (Suc star) p = (l @ [p ! p_idx]) @ drop (p_idx + 1) p" using l(1) b(2) by (simp add: drop_at)
  moreover have "percent \<notin> set (l @ [p ! p_idx])" using l(4) b(4) by simp
  moreover have "length (l @ [p ! p_idx]) = t_idx + 1 - match_idx" using l(3) m by simp
  ultimately show ?thesis using st b(1,2) l(2,6) Some unfolding like_state_def by (auto intro: exI [of _ "l @ [p ! p_idx]"])
qed

lemma state_star:
  assumes st: "like_state p t p_idx t_idx star_idx match_idx" and b: "p_idx < length p" "p ! p_idx = percent"
  shows "like_state p t (p_idx + 1) t_idx (Some p_idx) t_idx"
proof -
  have here: "drop p_idx p = percent # drop (Suc p_idx) p" using b by (simp add: drop_at)
  have "like_spec p t \<longleftrightarrow> anywhere (drop (Suc p_idx) p) (drop t_idx t)"
  proof (cases star_idx)
    case None
    then show ?thesis using st here by (simp add: like_state_def)
  next
    case (Some star)
    then obtain l where l: "drop (Suc star) p = l @ drop p_idx p" "length l = t_idx - match_idx" "percent \<notin> set l"
      "list_all2 char_matches l (take (length l) (drop match_idx t))"
      "like_spec p t \<longleftrightarrow> anywhere (drop (Suc star) p) (drop match_idx t)" and m: "match_idx \<le> t_idx" "t_idx \<le> length t"
      using st unfolding like_state_def by (auto simp del: like_spec.simps)
    have "anywhere (l @ percent # drop (Suc p_idx) p) (drop match_idx t) \<longleftrightarrow>
      anywhere (drop (Suc p_idx) p) (drop (length l) (drop match_idx t))"
      using l(2-4) m by (intro anywhere_greedy) simp_all
    moreover have "drop (length l) (drop match_idx t) = drop t_idx t" using l(2) m by simp
    ultimately show ?thesis using l(1,5) here by (simp del: like_spec.simps)
  qed
  then show ?thesis using st b unfolding like_state_def by auto
qed

lemma state_back:
  assumes st: "like_state p t p_idx t_idx (Some star) match_idx" and t: "t_idx < length t"
    and no: "\<not> like_spec (drop p_idx p) (drop t_idx t)"
  shows "like_state p t (star + 1) (match_idx + 1) (Some star) (match_idx + 1)"
proof -
  obtain l where l: "drop (Suc star) p = l @ drop p_idx p" "star < p_idx" "length l = t_idx - match_idx" "percent \<notin> set l"
    "like_spec p t \<longleftrightarrow> anywhere (drop (Suc star) p) (drop match_idx t)"
    and m: "match_idx \<le> t_idx" "p_idx \<le> length p"
    using st unfolding like_state_def by (auto simp del: like_spec.simps)
  have "\<not> like_spec (drop (Suc star) p) (drop match_idx t)"
    using like_literal [OF l(4), of "drop p_idx p" "drop match_idx t"] l(1,3) m no by auto
  then have "anywhere (drop (Suc star) p) (drop match_idx t) \<longleftrightarrow> anywhere (drop (Suc star) p) (drop (match_idx + 1) t)"
    using anywhere_next [of "drop (Suc star) p" "drop match_idx t"] m t by (simp add: drop_Suc tl_drop del: like_spec.simps)
  then show ?thesis using l m t unfolding like_state_def by auto
qed

lemma like_loop_correct:
  assumes "like_state p t p_idx t_idx star_idx match_idx" "percent \<notin> set t"
  shows "like_loop p t p_idx t_idx star_idx match_idx = Some (like_spec p t)"
  using assms(1)
proof (induction "(p_idx, t_idx, star_idx, match_idx)" arbitrary: p_idx t_idx star_idx match_idx
    rule: wf_induct_rule [OF wf_measures [of "[\<lambda>(i, j, s, m). length t - m, \<lambda>(i, j, s, m). length t - j, \<lambda>(i, j, s, m). length p - i]"]])
  case (1 p_idx t_idx star_idx match_idx)
  note st = 1(2)
  have bounds: "p_idx \<le> length p" "t_idx \<le> length t" "match_idx \<le> t_idx" using st by (simp_all add: like_state_def)
  show ?case
  proof (cases "t_idx < length t")
    case True
    then have in_t: "t ! t_idx \<in> set t" by simp
    consider (char) "p_idx < length p" "char_matches (p ! p_idx) (t ! t_idx)"
      | (star) "p_idx < length p" "\<not> char_matches (p ! p_idx) (t ! t_idx)" "p ! p_idx = percent"
      | (miss) "p_idx < length p \<longrightarrow> \<not> char_matches (p ! p_idx) (t ! t_idx) \<and> p ! p_idx \<noteq> percent"
      by blast
    then show ?thesis
    proof cases
      case char
      have "p ! p_idx \<noteq> percent" using char(2) in_t assms(2) by (auto simp: char_matches_def)
      from 1(1) [OF _ state_char [OF st True char this]]
      have "like_loop p t (p_idx + 1) (t_idx + 1) star_idx match_idx = Some (like_spec p t)" using True by (simp add: diff_less_mono2)
      then show ?thesis using True char by (subst like_loop.simps) (simp add: char_matches_def)
    next
      case star
      from 1(1) [OF _ state_star [OF st star(1,3)]]
      have "like_loop p t (p_idx + 1) t_idx (Some p_idx) t_idx = Some (like_spec p t)" using bounds star(1) True
        by (cases "match_idx = t_idx") (auto simp: diff_less_mono2)
      then show ?thesis using True star by (subst like_loop.simps) (simp add: char_matches_def)
    next
      case miss
      have no: "\<not> like_spec (drop p_idx p) (drop t_idx t)"
        using miss True by (cases "p_idx < length p") (auto simp: drop_at char_matches_def)
      show ?thesis
      proof (cases star_idx)
        case None
        then show ?thesis using True miss no st by (subst like_loop.simps) (auto simp: char_matches_def like_state_def)
      next
        case (Some star)
        have less: "length t - Suc match_idx < length t - match_idx" using bounds True by (simp add: diff_less_mono2)
        from 1(1) [OF _ state_back [OF st [unfolded Some] True no]]
        have "like_loop p t (star + 1) (match_idx + 1) star_idx (match_idx + 1) = Some (like_spec p t)"
          using less Some by simp
        then show ?thesis using True miss Some by (subst like_loop.simps) (auto simp: char_matches_def)
      qed
    qed
  next
    case False
    then have t_end: "drop t_idx t = []" by simp
    have "like_spec p t \<longleftrightarrow> like_spec (drop p_idx p) []"
    proof (cases star_idx)
      case None
      then show ?thesis using st t_end by (simp add: like_state_def)
    next
      case (Some star)
      then obtain l where l: "drop (Suc star) p = l @ drop p_idx p" "length l = t_idx - match_idx" "percent \<notin> set l"
        "list_all2 char_matches l (take (length l) (drop match_idx t))"
        "like_spec p t \<longleftrightarrow> anywhere (drop (Suc star) p) (drop match_idx t)"
        using st unfolding like_state_def by (auto simp del: like_spec.simps)
      have len: "length (drop match_idx t) = length l" using l(2) False bounds by simp
      have "anywhere (l @ drop p_idx p) (drop match_idx t) \<longleftrightarrow> like_spec (l @ drop p_idx p) (drop match_idx t)"
        using len by (intro anywhere_short l(3)) simp
      then show ?thesis using l(1,4,5) len like_literal [OF l(3), of "drop p_idx p" "drop match_idx t"]
        by (simp del: like_spec.simps)
    qed
    then show ?thesis using False by (subst like_loop.simps) (simp add: like_end)
  qed
qed

text \<open>C23: the matcher of \<^verbatim>\<open>LIKE\<close> returns and finds exactly the matches that the pattern means, upper and
  lower case alike, with \<^verbatim>\<open>%\<close> for any text and \<^verbatim>\<open>_\<close> for any character, for every text that holds no
  percent sign itself: coming back to the last \<^verbatim>\<open>%\<close> only is enough.\<close>

theorem like_match_correct:
  assumes "percent \<notin> set (to_lowercase txt)"
  shows "sql_like_match pattern txt = Some (like_spec (to_lowercase pattern) (to_lowercase txt))"
  unfolding sql_like_match_def
  by (rule like_loop_correct) (simp_all add: like_state_def assms)

theorem like_match_correct_witness:
  "percent \<notin> set (to_lowercase ''12112'') \<and> sql_like_match ''1%1_'' ''12112'' = Some True"
  using like_match_correct [of "''12112''" "''1%1_''"]
  by (simp add: to_lowercase_def to_lower_def code_of_def ex_le_Suc)

end
