(* ===== verification/Sql_Eval_Props.thy ===== *)
theory Sql_Eval_Props
  imports Sql_Like
begin

text \<open>
  Conditions on rows: they return, \<^verbatim>\<open>NOT\<close> negates them where nothing is null, and values of different
  types compare as equal. Posting lists of an index hold, for each value, a set of rows.
\<close>

section \<open>Conditions return\<close>

lemma like_loop_returns:
  assumes "match_idx \<le> t_idx" "p_idx \<le> length p"
    "\<And>star. star_idx = Some star \<Longrightarrow> star < length p"
  shows "\<exists>b. like_loop p t p_idx t_idx star_idx match_idx = Some b"
  using assms
proof (induction "(p_idx, t_idx, star_idx, match_idx)" arbitrary: p_idx t_idx star_idx match_idx
    rule: wf_induct_rule [OF wf_measures [of "[\<lambda>(i, j, s, m). length t - m, \<lambda>(i, j, s, m). length t - j, \<lambda>(i, j, s, m). length p - i]"]])
  case (1 p_idx t_idx star_idx match_idx)
  show ?case
  proof (cases "t_idx < length t")
    case True
    consider (char) "p_idx < length p" "p ! p_idx = CHR ''_'' \<or> p ! p_idx = t ! t_idx"
      | (star) "p_idx < length p" "\<not> (p ! p_idx = CHR ''_'' \<or> p ! p_idx = t ! t_idx)" "p ! p_idx = percent"
      | (miss) "p_idx < length p \<longrightarrow> \<not> (p ! p_idx = CHR ''_'' \<or> p ! p_idx = t ! t_idx) \<and> p ! p_idx \<noteq> percent"
      by blast
    then show ?thesis
    proof cases
      case char
      have "\<exists>b. like_loop p t (p_idx + 1) (t_idx + 1) star_idx match_idx = Some b"
        using 1(2-4) char(1) True by (intro 1(1)) (auto simp: diff_less_mono2)
      then show ?thesis using True char by (subst like_loop.simps) simp
    next
      case star
      have "\<exists>b. like_loop p t (p_idx + 1) t_idx (Some p_idx) t_idx = Some b"
        using 1(2-4) star(1) True by (intro 1(1)) (cases "match_idx = t_idx"; auto simp: diff_less_mono2)+
      then show ?thesis using True star by (subst like_loop.simps) simp
    next
      case miss
      show ?thesis
      proof (cases star_idx)
        case None
        then show ?thesis using True miss by (subst like_loop.simps) auto
      next
        case (Some star)
        have "\<exists>b. like_loop p t (star + 1) (match_idx + 1) star_idx (match_idx + 1) = Some b"
          using 1(2-4) True Some by (intro 1(1)) (auto simp: diff_less_mono2 Suc_le_eq)
        then show ?thesis using True miss Some by (subst like_loop.simps) auto
      qed
    qed
  qed (subst like_loop.simps, simp)
qed

lemma like_returns: "\<exists>b. sql_like_match pattern txt = Some b"
  unfolding sql_like_match_def by (rule like_loop_returns) simp_all

lemma matches_condition_returns: "\<exists>b. matches_condition env v op w = Some b"
proof (cases "\<exists>txt pat. v = TextV txt \<and> w = TextV pat")
  case True
  then obtain s pat where texts: "v = TextV s" "w = TextV pat" by blast
  obtain b where "sql_like_match pat s = Some b" using like_returns by blast
  then show ?thesis using texts by (cases op) (auto simp: matches_condition_def is_null_def Let_def)
next
  case False
  then have "matches_condition env v op w \<noteq> None"
    by (cases op; cases v; cases w) (simp_all add: matches_condition_def is_null_def Let_def)
  then show ?thesis by blast
qed

text \<open>The evaluation of a condition on a row returns, whatever the row and the condition: no pattern
  of \<^verbatim>\<open>LIKE\<close> and no text keeps it running.\<close>

theorem row_matches_returns: "\<exists>b. row_matches_resolved env other r cond = Some b"
proof (induction cond)
  case (RCondition c)
  then show ?case using matches_condition_returns by (auto split: option.split)
next
  case (RAnd a b)
  then obtain x y where "row_matches_resolved env other r a = Some x" "row_matches_resolved env other r b = Some y" by blast
  then show ?case by (cases x) auto
next
  case (ROr a b)
  then obtain x y where "row_matches_resolved env other r a = Some x" "row_matches_resolved env other r b = Some y" by blast
  then show ?case by (cases x) auto
qed (auto split: option.split)

section \<open>Negation\<close>

text \<open>C26: \<^verbatim>\<open>NOT\<close> in front of an operator is the negation of three-valued logic: with a null on either side
  neither the condition nor its negation holds, otherwise exactly one of them does. For \<^verbatim>\<open>LIKE\<close> both
  sides have to be texts.\<close>

theorem negation_three_valued:
  assumes "negate_op op = Inr op'" "op \<noteq> OpIsNull" "op \<noteq> OpIsNotNull"
    "op \<in> {OpLike, OpNotLike} \<Longrightarrow> (\<exists>txt. v = TextV txt) \<and> (\<exists>pat. w = TextV pat)"
  shows "matches_condition env v op' w =
    (if v = NullV \<or> w = NullV then Some False else map_option Not (matches_condition env v op w))"
proof (cases "op \<in> {OpLike, OpNotLike}")
  case True
  then obtain s pat where texts: "v = TextV s" "w = TextV pat" using assms(4) by blast
  obtain b where "sql_like_match pat s = Some b" using like_returns by blast
  then show ?thesis using True assms(1) texts
    by (auto simp: negate_op_def matches_condition_def is_null_def Let_def)
next
  case False
  then show ?thesis using assms(1-3)
    by (cases op; cases "value_compare env v w")
      (auto simp: negate_op_def matches_condition_def is_null_def Let_def)
qed

theorem negation_three_valued_witness:
  "negate_op OpLessThan = Inr OpGreaterOrEqual \<and>
   matches_condition no_floats (IntegerV 5) OpGreaterOrEqual (IntegerV 7) = Some False \<and>
   matches_condition no_floats (IntegerV 5) OpGreaterOrEqual NullV = Some False"
  using negation_three_valued [of OpLessThan OpGreaterOrEqual "IntegerV 5" "IntegerV 7" no_floats]
    negation_three_valued [of OpLessThan OpGreaterOrEqual "IntegerV 5" NullV no_floats]
  by (simp add: negate_op_def matches_condition_def is_null_def value_compare_def cmp_int_def)

section \<open>Observations\<close>

text \<open>a text and a number count as equal wherever values are ordered, and as different for \<^verbatim>\<open>=\<close>: a text
  column is \<^verbatim>\<open>IN\<close> any list with a number, between any two numbers and never smaller or greater than one, so
  such a condition takes every row.\<close>

theorem mixed_types_compare_equal:
  "in_list env (TextV s) (vs @ [IntegerV n]) False \<and>
   matches_condition env (TextV s) OpGreaterOrEqual (IntegerV n) = Some True \<and>
   matches_condition env (TextV s) OpLessOrEqual (IntegerV n) = Some True \<and>
   matches_condition env (TextV s) OpEquals (IntegerV n) = Some False"
  by (simp add: in_list_def matches_condition_def is_null_def value_compare_def value_eq_def Let_def)

text \<open>A text that begins with a percent sign and is longer is not matched by the pattern \<^verbatim>\<open>%\<close>, which
  should match every text: the loop takes the two percent signs for equal characters first.\<close>

lemma percent_text_not_matched: "sql_like_match ''%'' (percent # c # cs) = Some False"
proof -
  have "to_lower percent = percent" by (simp add: to_lower_def code_of_def)
  then have "sql_like_match ''%'' (percent # c # cs) = like_loop [percent] (percent # to_lower c # to_lowercase cs) 0 0 None 0"
    by (simp add: sql_like_match_def to_lowercase_def)
  also have "\<dots> = like_loop [percent] (percent # to_lower c # to_lowercase cs) 1 1 None 0"
    by (subst like_loop.simps) simp
  also have "\<dots> = Some False" by (subst like_loop.simps) simp
  finally show ?thesis .
qed

section \<open>Posting lists\<close>

text \<open>Values without a NaN: on them equality is an equivalence.\<close>

fun no_nan :: "sql_value \<Rightarrow> bool" where
  "no_nan (RealV f) \<longleftrightarrow> \<not> f64_nan f"
| "no_nan (VectorV fs) \<longleftrightarrow> (\<forall>f \<in> set fs. \<not> f32_nan f)"
| "no_nan _ \<longleftrightarrow> True"

lemma value_eq_refl: "no_nan v \<Longrightarrow> value_eq v v"
  by (cases v) (auto simp: value_eq_def f64_eq_def f32_eq_def list.rel_refl_strong)

lemma value_eq_sym: "value_eq v w \<Longrightarrow> value_eq w v"
  by (cases v; cases w) (auto simp: value_eq_def f64_eq_def f32_eq_def list_all2_conv_all_nth)

lemma float_eq_trans: "f64_eq a b \<Longrightarrow> f64_eq b c \<Longrightarrow> f64_eq a c" "f32_eq x y \<Longrightarrow> f32_eq y z \<Longrightarrow> f32_eq x z"
  by (auto simp: f64_eq_def f32_eq_def)

lemma value_eq_trans: "value_eq u v \<Longrightarrow> value_eq v w \<Longrightarrow> value_eq u w"
  by (cases u; cases v; cases w) (auto simp: value_eq_def intro: float_eq_trans list_all2_trans [of f32_eq f32_eq f32_eq])

text \<open>A well-formed bucket: one entry for each value, no entry without rows, no row twice.\<close>

fun bucket_ok :: "index_bucket \<Rightarrow> bool" where
  "bucket_ok [] \<longleftrightarrow> True"
| "bucket_ok (e # es) \<longleftrightarrow>
     no_nan (fst e) \<and> snd e \<noteq> [] \<and> distinct (snd e) \<and> (\<forall>e' \<in> set es. \<not> value_eq (fst e) (fst e')) \<and> bucket_ok es"

text \<open>The rows of a value.\<close>

definition rows_of :: "index_bucket \<Rightarrow> sql_value \<Rightarrow> u64 set" where
  "rows_of b v = (case get_row_ids b v of None \<Rightarrow> {} | Some ids \<Rightarrow> set ids)"

lemma rows_of_simps:
  "rows_of [] v = {}"
  "rows_of (e # es) v = (if value_eq (fst e) v then set (snd e) else rows_of es v)"
  by (simp_all add: rows_of_def get_row_ids_def)

lemma rows_of_absent: "\<forall>e \<in> set b. \<not> value_eq (fst e) v \<Longrightarrow> rows_of b v = {}"
  by (induction b) (simp_all add: rows_of_simps)

lemma rows_of_append: "\<forall>e \<in> set a. \<not> value_eq (fst e) v \<Longrightarrow> rows_of (a @ b) v = rows_of b v"
  by (induction a) (simp_all add: rows_of_simps)

lemma value_eq_class: "value_eq v w \<Longrightarrow> value_eq u v \<longleftrightarrow> value_eq u w"
  by (blast intro: value_eq_sym value_eq_trans)

lemma update_first_fst: "(\<And>x. fst (f x) = fst x) \<Longrightarrow> map fst (update_first p f xs) = map fst xs"
  by (induction xs) simp_all

lemma update_first_keys:
  assumes "\<And>x. fst (f x) = fst x"
  shows "(\<forall>e \<in> set (update_first p f xs). Q (fst e)) \<longleftrightarrow> (\<forall>e \<in> set xs. Q (fst e))"
  using assms by (induction xs) auto

lemma add_ok:
  assumes "bucket_ok b" "no_nan v"
  shows "bucket_ok (add_row_id v rid b)"
proof (cases "\<exists>e \<in> set b. value_eq (fst e) v")
  case True
  have "bucket_ok (update_first (\<lambda>e. value_eq (fst e) v) (\<lambda>e. if rid \<in> set (snd e) then e else (fst e, snd e @ [rid])) b)"
    using assms(1) by (induction b) (auto simp: update_first_keys [where Q = "\<lambda>k. \<not> value_eq _ k"])
  then show ?thesis using True by (simp add: add_row_id_def)
next
  case False
  then have "bucket_ok (b @ [(v, [rid])])" using assms by (induction b) auto
  then show ?thesis using False by (simp add: add_row_id_def)
qed

lemma add_rows:
  assumes "bucket_ok b" "no_nan v"
  shows "rows_of (add_row_id v rid b) w = (if value_eq v w then insert rid (rows_of b w) else rows_of b w)"
proof (cases "\<exists>e \<in> set b. value_eq (fst e) v")
  case True
  have "rows_of (update_first (\<lambda>e. value_eq (fst e) v) (\<lambda>e. if rid \<in> set (snd e) then e else (fst e, snd e @ [rid])) b) w =
    (if value_eq v w then insert rid (rows_of b w) else rows_of b w)"
    using assms(1) True
  proof (induction b)
    case (Cons e b)
    show ?case
    proof (cases "value_eq (fst e) v")
      case True
      then have "value_eq (fst e) w \<longleftrightarrow> value_eq v w" by (blast intro: value_eq_sym value_eq_trans)
      then show ?thesis using True by (auto simp: rows_of_simps)
    next
      case False
      then have "\<not> (value_eq (fst e) w \<and> value_eq v w)" by (blast intro: value_eq_sym value_eq_trans)
      then show ?thesis using False Cons by (auto simp: rows_of_simps)
    qed
  qed simp
  then show ?thesis using True by (simp add: add_row_id_def)
next
  case False
  have "rows_of (b @ [(v, [rid])]) w = (if value_eq v w then insert rid (rows_of b w) else rows_of b w)"
  proof (cases "value_eq v w")
    case True
    then have "\<forall>e \<in> set b. \<not> value_eq (fst e) w" using False by (blast intro: value_eq_sym value_eq_trans)
    then show ?thesis using True by (simp add: rows_of_append rows_of_absent rows_of_simps)
  next
    case no: False
    then show ?thesis by (induction b) (simp_all add: rows_of_simps)
  qed
  then show ?thesis using False by (simp add: add_row_id_def)
qed

lemma filter_rows_ok: "bucket_ok b \<Longrightarrow> bucket_ok (filter p b)"
  by (induction b) auto

lemma remove_rows:
  assumes "bucket_ok b"
  shows "bucket_ok (snd (remove_row_id v rid b)) \<and>
    rows_of (snd (remove_row_id v rid b)) w = (if value_eq v w then rows_of b w - {rid} else rows_of b w) \<and>
    (fst (remove_row_id v rid b) \<longleftrightarrow> rid \<in> rows_of b v)"
proof -
  let ?u = "update_first (\<lambda>e. value_eq (fst e) v) (\<lambda>e. (fst e, filter (\<lambda>x. x \<noteq> rid) (snd e)))"
  let ?f = "filter (\<lambda>e. snd e \<noteq> [])"
  have "bucket_ok (?f (?u b)) \<and> rows_of (?f (?u b)) w = (if value_eq v w then rows_of b w - {rid} else rows_of b w)"
    using assms
  proof (induction b)
    case Nil
    then show ?case by (simp add: rows_of_simps)
  next
    case (Cons e b)
    have keep: "?f b = b" using Cons.prems by (induction b) auto
    show ?case
    proof (cases "value_eq (fst e) v")
      case True
      then have eq: "value_eq (fst e) w \<longleftrightarrow> value_eq v w" by (blast intro: value_eq_sym value_eq_trans)
      have "\<not> value_eq (fst e') w" if "value_eq v w" "e' \<in> set b" for e'
        using that eq Cons.prems value_eq_trans [of "fst e" w "fst e'"] value_eq_sym [of "fst e'" w] by auto
      then have "rows_of b w = {}" if "value_eq v w" using that by (intro rows_of_absent) blast
      then show ?thesis using True eq keep Cons.prems by (auto simp: rows_of_simps filter_empty_conv)
    next
      case False
      then have no: "\<not> (value_eq (fst e) w \<and> value_eq v w)" by (blast intro: value_eq_sym value_eq_trans)
      have "\<forall>e' \<in> set (?f (?u b)). \<not> value_eq (fst e) (fst e')"
        using Cons.prems update_first_keys [where Q = "\<lambda>k. \<not> value_eq (fst e) k" and xs = b
            and f = "\<lambda>e. (fst e, filter (\<lambda>x. x \<noteq> rid) (snd e))" and p = "\<lambda>e. value_eq (fst e) v"] by auto
      then show ?thesis using False no Cons by (auto simp: rows_of_simps)
    qed
  qed
  moreover have "fst (remove_row_id v rid b) \<longleftrightarrow> rid \<in> rows_of b v"
  proof (cases "find (\<lambda>e. value_eq (fst e) v) b")
    case (Some e)
    have "length (filter (\<lambda>x. x \<noteq> rid) (snd e)) \<noteq> length (snd e) \<longleftrightarrow> rid \<in> set (snd e)"
      by (metis (mono_tags, lifting) filter_True length_filter_less less_irrefl)
    then show ?thesis using Some by (simp add: remove_row_id_def rows_of_def get_row_ids_def)
  qed (simp add: remove_row_id_def rows_of_def get_row_ids_def)
  ultimately show ?thesis by (simp add: remove_row_id_def)
qed

text \<open>C24: the posting lists of an index refine a map from values to sets of rows: adding a row to a value and
  removing it change exactly the rows of the values equal to it and keep the list well formed, one entry
  for each value and none empty, as long as no value holds a NaN.\<close>

theorem posting_lists_refine:
  assumes "bucket_ok b" "no_nan v"
  shows "bucket_ok (add_row_id v rid b) \<and> bucket_ok (snd (remove_row_id v rid b)) \<and>
    rows_of (add_row_id v rid b) w = (if value_eq v w then insert rid (rows_of b w) else rows_of b w) \<and>
    rows_of (snd (remove_row_id v rid b)) w = (if value_eq v w then rows_of b w - {rid} else rows_of b w) \<and>
    (fst (remove_row_id v rid b) \<longleftrightarrow> rid \<in> rows_of b v)"
  using add_ok [OF assms] add_rows [OF assms] remove_rows [OF assms(1)] by blast

theorem posting_lists_refine_witness:
  "bucket_ok [(TextV ''a'', [1, 2]), (IntegerV 3, [2])] \<and> no_nan (TextV ''a'') \<and>
   rows_of (snd (remove_row_id (TextV ''a'') 2 [(TextV ''a'', [1, 2]), (IntegerV 3, [2])])) (TextV ''a'') = {1}"
  using posting_lists_refine [of "[(TextV ''a'', [1, 2]), (IntegerV 3, [2])]" "TextV ''a''" 2 "TextV ''a''"]
  by (auto simp: value_eq_def rows_of_simps)

end
