(* ===== verification/Sql_Catalog.thy ===== *)
theory Sql_Catalog
  imports Sql_Statement Btree_Engine Row_Codec
begin

text \<open>
  The catalog (\<^verbatim>\<open>src/src/sql/catalog.rs\<close>): definitions of tables, views and indexes, kept in memory under
  lower-case names and on disk as rows of the B+tree at page 1. The definitions are stored as JSON by
  \<^verbatim>\<open>serde_json\<close>, which is an argument (\<open>schema_codec\<close>). A counter that passes its width is a \<open>Panic\<close>.
\<close>

section \<open>Values of a column\<close>

text \<open>The integer a floating-point number stands for, if it stands for one: \<^verbatim>\<open>fract() == 0.0\<close>.\<close>

definition f64_int :: "u64 \<Rightarrow> int option" where
  "f64_int w =
     (let e = unat (drop_bit 52 w AND 0x7FF);
          frac = int (unat (w AND 0xFFFFFFFFFFFFF));
          mant = (if e = 0 then frac else frac + 2 ^ 52);
          ex = int (max e 1) - 1075;
          abs = (if 0 \<le> ex then Some (mant * 2 ^ nat ex)
                 else if mant mod 2 ^ nat (- ex) = 0 then Some (mant div 2 ^ nat (- ex)) else None) in
      if e = 0x7FF then None else map_option (\<lambda>n. if bit w 63 then - n else n) abs)"

text \<open>\<^verbatim>\<open>r as i64\<close> saturates; \<^verbatim>\<open>i64::MAX as f64\<close> is two to the power of 63.\<close>

definition saturate_i64 :: "int \<Rightarrow> u64" where
  "saturate_i64 n = word_of_int (max (- (2 ^ 63)) (min (2 ^ 63 - 1) n))"

definition parse_signed :: "string \<Rightarrow> u64 option" where
  "parse_signed s =
     (if s \<noteq> [] \<and> hd s = CHR ''+'' then (if tl s \<noteq> [] \<and> hd (tl s) = CHR ''-'' then None else parse_i64 (tl s))
      else parse_i64 s)"

fun all_some :: "'a option list \<Rightarrow> 'a list option" where
  "all_some [] = Some []"
| "all_some (None # xs) = None"
| "all_some (Some x # xs) = map_option (Cons x) (all_some xs)"

definition coerce_vector :: "float_env \<Rightarrow> nat \<Rightarrow> string \<Rightarrow> sql_value result" where
  "coerce_vector env expected_dim s =
     (let trimmed = trim_text s;
          parsed = (if trimmed \<noteq> [] \<and> hd trimmed = CHR ''['' \<and> last trimmed = CHR '']''
             then all_some (map (\<lambda>part. parse_f32 env (trim_text part)) (split_on (CHR '','') [] (butlast (tl trimmed))))
             else None) in
      case parsed of
        Some vec \<Rightarrow> if length vec \<noteq> expected_dim then Inl (DimensionMismatch expected_dim (length vec)) else Inr (VectorV vec)
      | None \<Rightarrow> Inl (ConstraintViolation ''Expected VECTOR({expected_dim}), got Text(\"{s}\")''))"

definition coerce_value :: "float_env \<Rightarrow> data_type \<Rightarrow> sql_value \<Rightarrow> sql_value result" where
  "coerce_value env dt val =
     (case dt of
        DInteger \<Rightarrow>
          (case val of
             IntegerV i \<Rightarrow> Inr (IntegerV i)
           | RealV r \<Rightarrow>
               (case f64_int r of
                  Some n \<Rightarrow> if - (2 ^ 63) \<le> n \<and> n \<le> 2 ^ 63 then Inr (IntegerV (saturate_i64 n))
                            else Inl (ConstraintViolation ''Cannot store floating-point {r} in INTEGER column without truncation'')
                | None \<Rightarrow> Inl (ConstraintViolation ''Cannot store floating-point {r} in INTEGER column without truncation''))
           | TextV s \<Rightarrow>
               (case parse_signed s of
                  Some i \<Rightarrow> Inr (IntegerV i)
                | None \<Rightarrow> Inl (ConstraintViolation ''Cannot convert text '{s}' to INTEGER''))
           | NullV \<Rightarrow> Inr NullV
           | _ \<Rightarrow> Inl (ConstraintViolation ''Invalid value {other:?} for INTEGER column''))
      | DReal \<Rightarrow>
          (case val of
             RealV r \<Rightarrow> Inr (RealV r)
           | IntegerV i \<Rightarrow> Inr (RealV (f64_of_i64 env i))
           | TextV s \<Rightarrow>
               (case parse_f64 env s of
                  Some r \<Rightarrow> Inr (RealV r)
                | None \<Rightarrow> Inl (ConstraintViolation ''Cannot convert text '{s}' to REAL''))
           | NullV \<Rightarrow> Inr NullV
           | _ \<Rightarrow> Inl (ConstraintViolation ''Invalid value {other:?} for REAL column''))
      | DText \<Rightarrow>
          (case val of
             TextV s \<Rightarrow> Inr (TextV s)
           | IntegerV i \<Rightarrow> Inr (TextV (show_i64 i))
           | RealV r \<Rightarrow> Inr (TextV (show_f64 env r))
           | NullV \<Rightarrow> Inr NullV
           | _ \<Rightarrow> Inl (ConstraintViolation ''Invalid value {other:?} for TEXT column''))
      | DBlob \<Rightarrow>
          (case val of
             BlobV b \<Rightarrow> Inr (BlobV b)
           | NullV \<Rightarrow> Inr NullV
           | _ \<Rightarrow> Inl (ConstraintViolation ''Invalid value {other:?} for BLOB column''))
      | DVector expected_dim \<Rightarrow>
          (case val of
             VectorV v \<Rightarrow> if length v \<noteq> expected_dim then Inl (DimensionMismatch expected_dim (length v)) else Inr (VectorV v)
           | TextV s \<Rightarrow> coerce_vector env expected_dim s
           | NullV \<Rightarrow> Inr NullV
           | _ \<Rightarrow> Inl (ConstraintViolation ''Expected VECTOR({expected_dim}), got {other:?}'')))"

section \<open>Definitions\<close>

record table_def =
  td_name :: string
  td_root_page :: page_id
  td_columns :: "column_def list"
  td_next_row_id :: u64
  td_system_versioning :: bool

record view_def =
  vd_name :: string
  vd_query_sql :: string

record index_def =
  id_name :: string
  id_table :: string
  id_column :: string
  id_root_page :: page_id
  id_unique :: bool

record table_stats =
  ts_table_name :: string
  ts_total_rows :: nat
  ts_page_count :: nat
  ts_column_distinct :: "string \<rightharpoonup> nat"
  ts_column_nulls :: "string \<rightharpoonup> nat"
  ts_avg_row_size :: nat
  ts_last_analyzed :: u64

definition table_def_new :: "string \<Rightarrow> page_id \<Rightarrow> column_def list \<Rightarrow> table_def" where
  "table_def_new name root_page columns =
     \<lparr>td_name = name, td_root_page = root_page, td_columns = columns, td_next_row_id = 1, td_system_versioning = False\<rparr>"

definition position :: "('a \<Rightarrow> bool) \<Rightarrow> 'a list \<Rightarrow> nat option" where
  "position p xs = (let n = length (takeWhile (\<lambda>x. \<not> p x) xs) in if n < length xs then Some n else None)"

definition column_index :: "table_def \<Rightarrow> string \<Rightarrow> nat option" where
  "column_index td col_name = position (\<lambda>c. eq_ignore_ascii_case (cd_name c) col_name) (td_columns td)"

definition column_names :: "table_def \<Rightarrow> string list" where "column_names td = map cd_name (td_columns td)"

definition primary_key_index :: "table_def \<Rightarrow> nat option" where
  "primary_key_index td = position cd_primary_key (td_columns td)"

fun vector_dims :: "data_type \<Rightarrow> nat option" where
  "vector_dims (DVector dims) = Some dims"
| "vector_dims _ = None"

definition first_vector_column :: "table_def \<Rightarrow> (nat \<times> nat) option" where
  "first_vector_column td =
     (case position (\<lambda>c. vector_dims (cd_type c) \<noteq> None) (td_columns td) of
        None \<Rightarrow> None
      | Some idx \<Rightarrow> map_option (Pair idx) (vector_dims (cd_type (td_columns td ! idx))))"

text \<open>\<^verbatim>\<open>resolve_table_col_index\<close> of the executor: a qualified name counts from its first dot on.\<close>

definition resolve_table_col_index :: "table_def \<Rightarrow> string \<Rightarrow> nat option" where
  "resolve_table_col_index td col =
     (case dropWhile (\<lambda>c. c \<noteq> CHR ''.'') col of [] \<Rightarrow> column_index td col | _ # c \<Rightarrow> column_index td c)"

section \<open>The catalog\<close>

record catalog =
  c_tables :: "string \<rightharpoonup> table_def"
  c_views :: "string \<rightharpoonup> view_def"
  c_indexes :: "string \<rightharpoonup> index_def"
  c_stats :: "string \<rightharpoonup> table_stats"
  c_next_table_id :: u64

definition catalog_new :: catalog where
  "catalog_new = \<lparr>c_tables = Map.empty, c_views = Map.empty, c_indexes = Map.empty, c_stats = Map.empty, c_next_table_id = 1\<rparr>"

text \<open>\<^verbatim>\<open>serde_json::to_vec\<close> and \<^verbatim>\<open>from_slice\<close>.\<close>

record schema_codec =
  table_json :: "table_def \<Rightarrow> bytes result"
  parse_table :: "bytes \<Rightarrow> table_def option"
  view_json :: "view_def \<Rightarrow> bytes result"
  parse_view :: "bytes \<Rightarrow> view_def option"
  index_json :: "index_def \<Rightarrow> bytes result"
  parse_index :: "bytes \<Rightarrow> index_def option"

definition reserve_id :: "u64 \<Rightarrow> catalog \<Rightarrow> catalog result" where
  "reserve_id rid cat =
     (if rid \<ge> c_next_table_id cat
      then if rid = - 1 then Inl Panic else Inr (cat\<lparr>c_next_table_id := rid + 1\<rparr>)
      else Inr cat)"

definition load_cell :: "schema_codec \<Rightarrow> table_leaf_cell \<Rightarrow> catalog \<Rightarrow> catalog result" where
  "load_cell sc cell cat =
     (case parse_table sc (lc_payload cell) of
        Some td \<Rightarrow> bind_r (reserve_id (lc_row_id cell) cat) (\<lambda>cat.
          Inr (cat\<lparr>c_tables := (c_tables cat)(to_lowercase (td_name td) \<mapsto> td)\<rparr>))
      | None \<Rightarrow> (case parse_view sc (lc_payload cell) of
        Some vd \<Rightarrow> bind_r (reserve_id (lc_row_id cell) cat) (\<lambda>cat.
          Inr (cat\<lparr>c_views := (c_views cat)(to_lowercase (vd_name vd) \<mapsto> vd)\<rparr>))
      | None \<Rightarrow> (case parse_index sc (lc_payload cell) of
        Some idx \<Rightarrow> bind_r (reserve_id (lc_row_id cell) cat) (\<lambda>cat.
          Inr (cat\<lparr>c_indexes := (c_indexes cat)(to_lowercase (id_name idx) \<mapsto> idx)\<rparr>))
      | None \<Rightarrow> Inr cat)))"

definition catalog_load :: "schema_codec \<Rightarrow> nat \<Rightarrow> crc_fun \<Rightarrow> (pager, catalog) om" where
  "catalog_load sc fuel crc =
     bind_o (run_o (read_page 1)) (\<lambda>page1_buf.
       case read_page_header page1_buf 1 of
         Inl e \<Rightarrow>
           bind_o (run_o (lift_s (init_leaf_page page1_buf 1))) (\<lambda>page1_init.
           bind_o (run_o (write_page crc 1 page1_init)) (\<lambda>_. ret_o catalog_new))
       | Inr h \<Rightarrow>
           bind_o (btree_scan fuel 1) (\<lambda>cells. run_o (lift_s (fold_r (load_cell sc) cells catalog_new))))"

definition table_exists :: "catalog \<Rightarrow> string \<Rightarrow> bool" where
  "table_exists cat name \<longleftrightarrow> c_tables cat (to_lowercase name) \<noteq> None"

definition get_table :: "catalog \<Rightarrow> string \<Rightarrow> table_def option" where
  "get_table cat name =
     (case c_tables cat name of Some t \<Rightarrow> Some t | None \<Rightarrow> c_tables cat (to_lowercase name))"

text \<open>A mutable reference to a table, as an update of it.\<close>

definition update_table :: "string \<Rightarrow> (table_def \<Rightarrow> table_def) \<Rightarrow> catalog \<Rightarrow> catalog" where
  "update_table name f cat =
     (let key = (if c_tables cat name \<noteq> None then name else to_lowercase name) in
      cat\<lparr>c_tables := (c_tables cat)(key := map_option f (c_tables cat key))\<rparr>)"

definition view_exists :: "catalog \<Rightarrow> string \<Rightarrow> bool" where
  "view_exists cat name \<longleftrightarrow> c_views cat (to_lowercase name) \<noteq> None"

definition get_view :: "catalog \<Rightarrow> string \<Rightarrow> view_def option" where
  "get_view cat name = c_views cat (to_lowercase name)"

definition index_exists :: "catalog \<Rightarrow> string \<Rightarrow> bool" where
  "index_exists cat name \<longleftrightarrow> c_indexes cat (to_lowercase name) \<noteq> None"

definition get_index :: "catalog \<Rightarrow> string \<Rightarrow> index_def option" where
  "get_index cat name = c_indexes cat (to_lowercase name)"

definition has_table_indexes :: "catalog \<Rightarrow> string \<Rightarrow> bool" where
  "has_table_indexes cat table \<longleftrightarrow> (\<exists>idx \<in> ran (c_indexes cat). eq_ignore_ascii_case (id_table idx) table)"

definition get_table_stats :: "catalog \<Rightarrow> string \<Rightarrow> table_stats option" where
  "get_table_stats cat table = c_stats cat (to_lowercase table)"

definition set_table_stats :: "string \<Rightarrow> table_stats \<Rightarrow> catalog \<Rightarrow> catalog" where
  "set_table_stats table stats cat = cat\<lparr>c_stats := (c_stats cat)(to_lowercase table \<mapsto> stats)\<rparr>"

section \<open>Changes\<close>

text \<open>The state is the pager and the catalog.\<close>

type_synonym 'a db_step = "(pager \<times> catalog, 'a) om"

definition put_catalog :: "(catalog \<Rightarrow> catalog) \<Rightarrow> unit db_step" where
  "put_catalog f = run_o (put_s (\<lambda>(p, cat). (p, f cat)))"

definition bump_cookie :: "crc_fun \<Rightarrow> (pager, unit) sm" where
  "bump_cookie crc =
     bind_s (\<lambda>p. if dh_schema_cookie (pg_header p) = - 1 then (Inl Panic, p)
              else (Inr (), set_header (\<lambda>h. h\<lparr>dh_schema_cookie := dh_schema_cookie h + 1\<rparr>) p)) (\<lambda>_.
     bind_s (get_s (\<lambda>p. db_header_to_bytes crc (pg_header p))) (\<lambda>header_bytes.
     bind_s (read_page 1) (\<lambda>page1_buf.
     bind_s (lift_s (put_r page1_buf 0 header_bytes)) (\<lambda>page1_buf.
     write_page crc 1 page1_buf))))"

text \<open>A new entry: its number, its row, the cookie.\<close>

definition take_id :: "u64 db_step" where
  "take_id = run_o (\<lambda>(p, cat).
     if c_next_table_id cat = - 1 then (Inl Panic, (p, cat))
     else (Inr (c_next_table_id cat), (p, cat\<lparr>c_next_table_id := c_next_table_id cat + 1\<rparr>)))"

definition store_new :: "nat \<Rightarrow> crc_fun \<Rightarrow> bytes result \<Rightarrow> string \<Rightarrow> unit db_step" where
  "store_new fuel crc json msg =
     bind_o take_id (\<lambda>rid.
     bind_o (run_o (lift_s (case json of Inl e \<Rightarrow> Inl (Corrupted msg) | Inr b \<Rightarrow> Inr b))) (\<lambda>payload.
     bind_o (on_pager (btree_insert fuel crc 1 rid payload)) (\<lambda>_.
     on_pager (run_o (bump_cookie crc)))))"

definition create_table :: "schema_codec \<Rightarrow> nat \<Rightarrow> crc_fun \<Rightarrow> table_def \<Rightarrow> unit db_step" where
  "create_table sc fuel crc table_def = (\<lambda>(p, cat).
     let name_lower = to_lowercase (td_name table_def) in
     if c_tables cat name_lower \<noteq> None then fail_o (TableExists (td_name table_def)) (p, cat)
     else bind_o (store_new fuel crc (table_json sc table_def) ''Failed to serialize table def: {e}'') (\<lambda>_.
            put_catalog (\<lambda>cat. cat\<lparr>c_tables := (c_tables cat)(name_lower \<mapsto> table_def)\<rparr>)) (p, cat))"

definition create_view :: "schema_codec \<Rightarrow> nat \<Rightarrow> crc_fun \<Rightarrow> view_def \<Rightarrow> unit db_step" where
  "create_view sc fuel crc view_def = (\<lambda>(p, cat).
     let name_lower = to_lowercase (vd_name view_def) in
     if c_tables cat name_lower \<noteq> None then fail_o (TableExists ''Table with name '{}' already exists'') (p, cat)
     else if c_views cat name_lower \<noteq> None then fail_o (TableExists ''View '{}' already exists'') (p, cat)
     else bind_o (store_new fuel crc (view_json sc view_def) ''Failed to serialize view def: {e}'') (\<lambda>_.
            put_catalog (\<lambda>cat. cat\<lparr>c_views := (c_views cat)(name_lower \<mapsto> view_def)\<rparr>)) (p, cat))"

definition create_index :: "schema_codec \<Rightarrow> nat \<Rightarrow> crc_fun \<Rightarrow> index_def \<Rightarrow> unit db_step" where
  "create_index sc fuel crc index_def = (\<lambda>(p, cat).
     let name_lower = to_lowercase (id_name index_def) in
     if c_indexes cat name_lower \<noteq> None then fail_o (TableExists ''Index '{}' already exists'') (p, cat)
     else bind_o (store_new fuel crc (index_json sc index_def) ''Failed to serialize index def: {e}'') (\<lambda>_.
            put_catalog (\<lambda>cat. cat\<lparr>c_indexes := (c_indexes cat)(name_lower \<mapsto> index_def)\<rparr>)) (p, cat))"

text \<open>The row of a table on page 1, replaced by its new definition.\<close>

fun rewrite_entry :: "schema_codec \<Rightarrow> nat \<Rightarrow> crc_fun \<Rightarrow> string \<Rightarrow> table_def \<Rightarrow> table_leaf_cell list \<Rightarrow> (pager, unit) om" where
  "rewrite_entry sc fuel crc table_name updated [] = ret_o ()"
| "rewrite_entry sc fuel crc table_name updated (cell # cells) =
     (case parse_table sc (lc_payload cell) of
        Some td \<Rightarrow>
          if eq_ignore_ascii_case (td_name td) table_name
          then bind_o (run_o (lift_s (case table_json sc updated of
                    Inl e \<Rightarrow> Inl (Corrupted ''Failed to serialize updated table def: {e}'') | Inr b \<Rightarrow> Inr b))) (\<lambda>payload.
               bind_o (delete_from_subtree fuel crc 1 (lc_row_id cell)) (\<lambda>_.
               btree_insert fuel crc 1 (lc_row_id cell) payload))
          else rewrite_entry sc fuel crc table_name updated cells
      | None \<Rightarrow> rewrite_entry sc fuel crc table_name updated cells)"

definition store_table :: "schema_codec \<Rightarrow> nat \<Rightarrow> crc_fun \<Rightarrow> string \<Rightarrow> table_def \<Rightarrow> (pager, unit) om" where
  "store_table sc fuel crc table_name updated =
     bind_o (btree_scan fuel 1) (\<lambda>cells.
     bind_o (rewrite_entry sc fuel crc table_name updated cells) (\<lambda>_.
     run_o (bump_cookie crc)))"

definition put_table :: "string \<Rightarrow> table_def \<Rightarrow> unit db_step" where
  "put_table key td = put_catalog (\<lambda>cat. cat\<lparr>c_tables := (c_tables cat)(key \<mapsto> td)\<rparr>)"

definition add_column :: "schema_codec \<Rightarrow> nat \<Rightarrow> crc_fun \<Rightarrow> string \<Rightarrow> column_def \<Rightarrow> unit db_step" where
  "add_column sc fuel crc table_name col_def = (\<lambda>(p, cat).
     let name_lower = to_lowercase table_name in
     case c_tables cat name_lower of
       None \<Rightarrow> fail_o (TableNotFound table_name) (p, cat)
     | Some td \<Rightarrow>
         if column_index td (cd_name col_def) \<noteq> None
         then fail_o (SqlSyntax (''Column '{}' already exists in table '{}'' @ [QUOTE])) (p, cat)
         else let updated = td\<lparr>td_columns := td_columns td @ [col_def]\<rparr> in
           bind_o (put_table name_lower updated) (\<lambda>_. on_pager (store_table sc fuel crc table_name updated)) (p, cat))"

definition rename_table :: "schema_codec \<Rightarrow> nat \<Rightarrow> crc_fun \<Rightarrow> string \<Rightarrow> string \<Rightarrow> unit db_step" where
  "rename_table sc fuel crc old_name new_name = (\<lambda>(p, cat).
     let old_lower = to_lowercase old_name; new_lower = to_lowercase new_name in
     case c_tables cat old_lower of
       None \<Rightarrow> fail_o (TableNotFound old_name) (p, cat)
     | Some td \<Rightarrow>
         if c_tables cat new_lower \<noteq> None \<or> c_views cat new_lower \<noteq> None
         then fail_o (TableExists ''Table or view '{new_name}' already exists'') (p, cat)
         else let updated = td\<lparr>td_name := new_name\<rparr> in
           bind_o (put_catalog (\<lambda>cat. cat\<lparr>c_tables := (c_tables cat)(old_lower := None)\<rparr>)) (\<lambda>_.
           bind_o (on_pager (store_table sc fuel crc old_name updated)) (\<lambda>_.
           put_table new_lower updated)) (p, cat))"

definition rename_table_column :: "schema_codec \<Rightarrow> nat \<Rightarrow> crc_fun \<Rightarrow> string \<Rightarrow> string \<Rightarrow> string \<Rightarrow> unit db_step" where
  "rename_table_column sc fuel crc table_name old_col new_col = (\<lambda>(p, cat).
     let name_lower = to_lowercase table_name in
     case c_tables cat name_lower of
       None \<Rightarrow> fail_o (TableNotFound table_name) (p, cat)
     | Some td \<Rightarrow>
         if column_index td new_col \<noteq> None
         then fail_o (SqlSyntax (''Column '{new_col}' already exists in table '{table_name}'' @ [QUOTE])) (p, cat)
         else case column_index td old_col of
           None \<Rightarrow> fail_o (ColumnNotFound old_col) (p, cat)
         | Some col_idx \<Rightarrow>
             let updated = td\<lparr>td_columns := (td_columns td)[col_idx := (td_columns td ! col_idx)\<lparr>cd_name := new_col\<rparr>]\<rparr> in
             bind_o (put_table name_lower updated) (\<lambda>_. on_pager (store_table sc fuel crc table_name updated)) (p, cat))"

definition remove_at :: "nat \<Rightarrow> 'a list \<Rightarrow> 'a list" where
  "remove_at i xs = take i xs @ drop (Suc i) xs"

text \<open>The rows of a table without the dropped column; a row that does not decode stays.\<close>

fun drop_values :: "nat \<Rightarrow> crc_fun \<Rightarrow> page_id \<Rightarrow> string list \<Rightarrow> nat \<Rightarrow> table_leaf_cell list \<Rightarrow> (pager, unit) om" where
  "drop_values fuel crc root names col_idx [] = ret_o ()"
| "drop_values fuel crc root names col_idx (cell # cells) =
     (case decode_row (lc_payload cell) names of
        Inl e \<Rightarrow> if e = Panic then fail_o Panic else drop_values fuel crc root names col_idx cells
      | Inr (cols, vals) \<Rightarrow>
          if col_idx < length vals
          then bind_o (btree_insert fuel crc root (lc_row_id cell) (encode_row (remove_at col_idx vals))) (\<lambda>_.
               drop_values fuel crc root names col_idx cells)
          else drop_values fuel crc root names col_idx cells)"

definition drop_column :: "schema_codec \<Rightarrow> nat \<Rightarrow> crc_fun \<Rightarrow> string \<Rightarrow> string \<Rightarrow> unit db_step" where
  "drop_column sc fuel crc table_name col_name = (\<lambda>(p, cat).
     let name_lower = to_lowercase table_name in
     case c_tables cat name_lower of
       None \<Rightarrow> fail_o (TableNotFound table_name) (p, cat)
     | Some td \<Rightarrow>
         (case column_index td col_name of
            None \<Rightarrow> fail_o (ColumnNotFound col_name) (p, cat)
          | Some col_idx \<Rightarrow>
              if cd_primary_key (td_columns td ! col_idx)
              then fail_o (ConstraintViolation (''Cannot drop PRIMARY KEY column '{col_name}' from table '{table_name}'' @ [QUOTE])) (p, cat)
              else if length (td_columns td) \<le> 1
              then fail_o (ConstraintViolation ''Cannot drop column '{col_name}': table must have at least one column'') (p, cat)
              else let updated = td\<lparr>td_columns := remove_at col_idx (td_columns td)\<rparr> in
                bind_o (put_table name_lower updated) (\<lambda>_.
                bind_o (on_pager (btree_scan fuel (td_root_page td))) (\<lambda>cells.
                bind_o (on_pager (drop_values fuel crc (td_root_page td) (column_names td) col_idx cells)) (\<lambda>_.
                on_pager (store_table sc fuel crc table_name updated)))) (p, cat)))"

text \<open>The first row that holds an entry of the name is deleted; an error of the deletion is ignored.\<close>

fun delete_entry :: "nat \<Rightarrow> crc_fun \<Rightarrow> (bytes \<Rightarrow> string option) \<Rightarrow> string \<Rightarrow> table_leaf_cell list \<Rightarrow> (pager, unit) om" where
  "delete_entry fuel crc name_of name [] = ret_o ()"
| "delete_entry fuel crc name_of name (cell # cells) =
     (case name_of (lc_payload cell) of
        Some n \<Rightarrow>
          if eq_ignore_ascii_case n name
          then (\<lambda>p. case delete_from_subtree fuel crc 1 (lc_row_id cell) p of
                  None \<Rightarrow> None
                | Some (r, p') \<Rightarrow> if r = Inl Panic then Some (Inl Panic, p') else Some (Inr (), p'))
          else delete_entry fuel crc name_of name cells
      | None \<Rightarrow> delete_entry fuel crc name_of name cells)"

definition forget_entry :: "nat \<Rightarrow> crc_fun \<Rightarrow> (bytes \<Rightarrow> string option) \<Rightarrow> string \<Rightarrow> (pager, unit) om" where
  "forget_entry fuel crc name_of name =
     bind_o (btree_scan fuel 1) (\<lambda>cells.
     bind_o (delete_entry fuel crc name_of name cells) (\<lambda>_.
     run_o (bump_cookie crc)))"

definition drop_table :: "schema_codec \<Rightarrow> nat \<Rightarrow> crc_fun \<Rightarrow> string \<Rightarrow> bool db_step" where
  "drop_table sc fuel crc table_name = (\<lambda>(p, cat).
     let name_lower = to_lowercase table_name in
     case c_tables cat name_lower of
       None \<Rightarrow> ret_o False (p, cat)
     | Some td \<Rightarrow>
         bind_o (put_catalog (\<lambda>cat. cat\<lparr>c_tables := (c_tables cat)(name_lower := None)\<rparr>)) (\<lambda>_.
         bind_o (on_pager (forget_entry fuel crc (\<lambda>b. map_option td_name (parse_table sc b)) (td_name td))) (\<lambda>_.
         ret_o True)) (p, cat))"

definition drop_view :: "schema_codec \<Rightarrow> nat \<Rightarrow> crc_fun \<Rightarrow> string \<Rightarrow> bool db_step" where
  "drop_view sc fuel crc view_name = (\<lambda>(p, cat).
     let name_lower = to_lowercase view_name in
     case c_views cat name_lower of
       None \<Rightarrow> ret_o False (p, cat)
     | Some vd \<Rightarrow>
         bind_o (put_catalog (\<lambda>cat. cat\<lparr>c_views := (c_views cat)(name_lower := None)\<rparr>)) (\<lambda>_.
         bind_o (on_pager (forget_entry fuel crc (\<lambda>b. map_option vd_name (parse_view sc b)) view_name)) (\<lambda>_.
         ret_o True)) (p, cat))"

definition drop_index :: "schema_codec \<Rightarrow> nat \<Rightarrow> crc_fun \<Rightarrow> string \<Rightarrow> bool db_step" where
  "drop_index sc fuel crc index_name = (\<lambda>(p, cat).
     let name_lower = to_lowercase index_name in
     case c_indexes cat name_lower of
       None \<Rightarrow> ret_o False (p, cat)
     | Some idx \<Rightarrow>
         bind_o (put_catalog (\<lambda>cat. cat\<lparr>c_indexes := (c_indexes cat)(name_lower := None)\<rparr>)) (\<lambda>_.
         bind_o (on_pager (forget_entry fuel crc (\<lambda>b. map_option id_name (parse_index sc b)) index_name)) (\<lambda>_.
         ret_o True)) (p, cat))"

end
