(* ===== verification/Sql_Coerce.thy ===== *)
theory Sql_Coerce
  imports Sql_Catalog Sql_Lexer_Props
begin

text \<open>
  What a column accepts: a value of its type, after the conversions of \<^verbatim>\<open>coerce_value\<close>.
\<close>

definition fits_type :: "data_type \<Rightarrow> sql_value \<Rightarrow> bool" where
  "fits_type dt v \<longleftrightarrow>
     (case v of
        NullV \<Rightarrow> True
      | IntegerV i \<Rightarrow> dt = DInteger
      | RealV r \<Rightarrow> dt = DReal
      | TextV s \<Rightarrow> dt = DText
      | BlobV b \<Rightarrow> dt = DBlob
      | VectorV xs \<Rightarrow> dt = DVector (length xs))"

lemma fits_unchanged: "fits_type dt v \<Longrightarrow> coerce_value env dt v = Inr v"
  by (cases v) (auto simp: fits_type_def coerce_value_def split: data_type.splits)

lemma coerce_vector_fits: "coerce_vector env dim s = Inr w \<Longrightarrow> fits_type (DVector dim) w"
  by (auto simp: coerce_vector_def Let_def fits_type_def split: option.splits if_splits)

lemma coerced_fits: "coerce_value env dt v = Inr w \<Longrightarrow> fits_type dt w"
  by (cases dt; cases v)
    (auto simp: coerce_value_def fits_type_def coerce_vector_fits [unfolded fits_type_def] split: option.splits if_splits)

lemma saturate_sint: "- (2 ^ 63) \<le> n \<Longrightarrow> n < 2 ^ 63 \<Longrightarrow> sint (saturate_i64 n) = n"
  by (simp add: saturate_i64_def signed_of_int signed_take_bit_int_eq_self)

lemma saturate_top: "sint (saturate_i64 9223372036854775808) = 9223372036854775807"
  by (simp add: saturate_i64_def)

lemma parse_signed_shown: "parse_signed (show_i64 i) = Some i"
proof -
  have "hd (show_i64 i) \<noteq> CHR ''+''"
  proof (cases i rule: show_i64_chars)
    case (pos n)
    then show ?thesis using show_nat_digits [of n] by (cases "show_nat n") (auto simp: is_ascii_digit_def code_of_def)
  qed simp
  then show ?thesis by (simp add: parse_signed_def parse_show_i64)
qed

text \<open>C25: A value a column accepts has the type of the column (a vector also its dimension) or is null,
  and accepting it again changes nothing; a value of that type is accepted as it is; and an integer stored as text
  reads back as that integer.\<close>

theorem coerce_conforms:
  "(coerce_value env dt v = Inr w \<longrightarrow> fits_type dt w \<and> coerce_value env dt w = Inr w) \<and>
   (fits_type dt v \<longrightarrow> coerce_value env dt v = Inr v) \<and>
   (\<exists>s. coerce_value env DText (IntegerV i) = Inr (TextV s) \<and> coerce_value env DInteger (TextV s) = Inr (IntegerV i))"
proof (intro conjI impI)
  assume "coerce_value env dt v = Inr w"
  then show "fits_type dt w" by (rule coerced_fits)
  then show "coerce_value env dt w = Inr w" by (rule fits_unchanged)
next
  show "\<exists>s. coerce_value env DText (IntegerV i) = Inr (TextV s) \<and> coerce_value env DInteger (TextV s) = Inr (IntegerV i)"
    by (simp add: coerce_value_def parse_signed_shown)
qed (rule fits_unchanged)

theorem coerce_conforms_witness:
  "fits_type (DVector 0) NullV \<and> coerce_value no_floats DInteger (TextV ''-7'') = Inr (IntegerV (- 7)) \<and>
   fits_type DInteger (IntegerV (- 7)) \<and> coerce_value no_floats DInteger (IntegerV (- 7)) = Inr (IntegerV (- 7))"
proof -
  have "coerce_value no_floats DInteger (TextV ''-7'') = Inr (IntegerV (- 7))"
    by (simp add: coerce_value_def parse_signed_def parse_i64_def is_ascii_digit_def code_of_def read_digits_def)
  then show ?thesis
    using coerce_conforms [of no_floats DInteger "TextV ''-7''" "IntegerV (- 7)"] by (simp add: fits_type_def)
qed

lemma saturated:
  assumes "- (2 ^ 63) \<le> n" "n \<le> 2 ^ 63"
  shows "sint (saturate_i64 n) = min n (2 ^ 63 - 1)"
proof (cases "n = 2 ^ 63")
  case True
  then show ?thesis by (simp add: saturate_top)
next
  case False
  then show ?thesis using assms saturate_sint [of n] by simp
qed

text \<open>A floating-point number is accepted by an INTEGER column exactly if it stands for a whole number
  between minus two to the power of 63 and two to the power of 63, and then stored exactly - but the upper bound,
  which is no 64-bit integer, is stored one too small instead of refused.\<close>

theorem real_to_integer:
  "(coerce_value env DInteger (RealV r) = Inr w \<longleftrightarrow>
      (\<exists>n i. f64_int r = Some n \<and> - (2 ^ 63) \<le> n \<and> n \<le> 2 ^ 63 \<and> w = IntegerV i \<and> sint i = min n (2 ^ 63 - 1))) \<and>
   coerce_value env DInteger (RealV 0x43E0000000000000) = Inr (IntegerV 0x7FFFFFFFFFFFFFFF)"
proof (intro conjI)
  have inj: "sint i = sint j \<longleftrightarrow> i = j" for i j :: u64 by (rule signed_word_eqI [THEN iffI]) auto
  show "coerce_value env DInteger (RealV r) = Inr w \<longleftrightarrow>
      (\<exists>n i. f64_int r = Some n \<and> - (2 ^ 63) \<le> n \<and> n \<le> 2 ^ 63 \<and> w = IntegerV i \<and> sint i = min n (2 ^ 63 - 1))"
  proof (cases "f64_int r")
    case (Some n)
    then show ?thesis
      using saturated [of n] by (auto simp: coerce_value_def inj [symmetric] simp del: min_def)
  qed (simp add: coerce_value_def)
next
  have "f64_int 0x43E0000000000000 = Some (2 ^ 63)" by code_simp
  then show "coerce_value env DInteger (RealV 0x43E0000000000000) = Inr (IntegerV 0x7FFFFFFFFFFFFFFF)"
    by (simp add: coerce_value_def saturate_i64_def)
qed

end
