(* ===== verification/Sql_Dml.thy ===== *)
theory Sql_Dml
  imports Sql_Catalog Sql_Eval
begin

text \<open>
  Insertion, update and deletion of rows (\<^verbatim>\<open>src/src/sql/executor.rs\<close>): alignment with the columns, the choice of
  row numbers, constraints, conflicts, index postings, versions and vector indexes. The state is the pager and
  the executor. What lies outside the relational core is an argument (\<open>dml_env\<close>): JSON texts, the hasher, the
  clock, the vector index structure, subqueries, projections, JSON paths and calls.
\<close>

section \<open>Values in rows\<close>

text \<open>Text in rows is UTF-8; the characters of the model have codes below 256.\<close>

definition utf8_bytes :: "string \<Rightarrow> bytes" where
  "utf8_bytes s = concat (map (\<lambda>c. let n = code_of c in
     if n < 128 then [of_nat n] else [of_nat (192 + n div 64), of_nat (128 + n mod 64)]) s)"

fun utf8_chars :: "bytes \<Rightarrow> string" where
  "utf8_chars [] = []"
| "utf8_chars [b] = [char_of (unat b)]"
| "utf8_chars (b # b' # bs) =
     (if b < 128 then char_of (unat b) # utf8_chars (b' # bs)
      else char_of (unat (b AND 3) * 64 + unat (b' AND 63)) # utf8_chars bs)"

fun val_of :: "sql_value \<Rightarrow> val" where
  "val_of NullV = VNull"
| "val_of (IntegerV i) = VInteger i"
| "val_of (RealV r) = VReal r"
| "val_of (TextV s) = VText (utf8_bytes s)"
| "val_of (BlobV b) = VBlob b"
| "val_of (VectorV xs) = VVector xs"

fun of_val :: "val \<Rightarrow> sql_value" where
  "of_val VNull = NullV"
| "of_val (VInteger i) = IntegerV i"
| "of_val (VReal r) = RealV r"
| "of_val (VText b) = TextV (utf8_chars b)"
| "of_val (VBlob b) = BlobV b"
| "of_val (VVector xs) = VectorV xs"

definition encode_values :: "sql_value list \<Rightarrow> bytes" where "encode_values vs = encode_row (map val_of vs)"

definition decode_full :: "bytes \<Rightarrow> string list \<Rightarrow> row result" where
  "decode_full bs names =
     bind_r (decode_row bs names) (\<lambda>(cols, vs). Inr \<lparr>r_columns = cols, r_values = map of_val vs\<rparr>)"

section \<open>The state\<close>

record 'v executor =
  ex_catalog :: catalog
  ex_vectors :: "string \<rightharpoonup> 'v"
  ex_last_ts :: u64
  ex_versioning :: bool
  ex_ticks :: nat

text \<open>A version of a row in \<^verbatim>\<open>__sys_time_travel\<close>.\<close>

record temporal_record =
  tr_id :: u64
  tr_table_name :: string
  tr_row_id :: u64
  tr_valid_from :: u64
  tr_valid_to :: u64
  tr_payload :: bytes

record 'v dml_env =
  de_fuel :: nat
  de_crc :: crc_fun
  de_float :: float_env
  de_schema :: schema_codec
  de_json_path :: "row \<Rightarrow> string \<Rightarrow> sql_value option"
  de_other :: "row \<Rightarrow> string \<Rightarrow> sql_value option"
  de_query :: "pager \<Rightarrow> catalog \<Rightarrow> statement \<Rightarrow> row list result"
  de_project :: "row \<Rightarrow> string list \<Rightarrow> row result"
  de_hash :: "sql_value \<Rightarrow> u64"
  de_indexes :: "catalog \<Rightarrow> index_def list"
  de_bucket_json :: "index_bucket \<Rightarrow> bytes result"
  de_parse_bucket :: "bytes \<Rightarrow> index_bucket option"
  de_record_json :: "temporal_record \<Rightarrow> bytes result"
  de_parse_record :: "bytes \<Rightarrow> temporal_record option"
  de_now :: "nat \<Rightarrow> u64"
  de_vec_new :: "nat \<Rightarrow> 'v"
  de_vec_insert :: "u64 \<Rightarrow> u32 list \<Rightarrow> 'v \<Rightarrow> unit result \<times> 'v"
  de_vec_remove :: "u64 \<Rightarrow> 'v \<Rightarrow> 'v"

type_synonym ('v, 'a) ex_step = "(pager \<times> 'v executor, 'a) om"

definition on_catalog :: "'a db_step \<Rightarrow> ('v, 'a) ex_step" where
  "on_catalog m = (\<lambda>(p, ex).
     case m (p, ex_catalog ex) of
       None \<Rightarrow> None
     | Some (r, p', cat') \<Rightarrow> Some (r, p', ex\<lparr>ex_catalog := cat'\<rparr>))"

definition put_ex :: "('v executor \<Rightarrow> 'v executor) \<Rightarrow> ('v, unit) ex_step" where
  "put_ex f = run_o (put_s (\<lambda>(p, ex). (p, f ex)))"

definition lift_o :: "'a result \<Rightarrow> ('s, 'a) om" where "lift_o r = run_o (lift_s r)"

text \<open>\<^verbatim>\<open>let _ = ...\<close>: an error is dropped, a panic is not.\<close>

definition ignoring :: "('s, 'a) om \<Rightarrow> ('s, unit) om" where
  "ignoring m s =
     (case m s of
        None \<Rightarrow> None
      | Some (r, s') \<Rightarrow> Some (if r = Inl Panic then Inl Panic else Inr (), s'))"

fun each_o :: "('a \<Rightarrow> ('s, unit) om) \<Rightarrow> 'a list \<Rightarrow> ('s, unit) om" where
  "each_o f [] = ret_o ()"
| "each_o f (x # xs) = bind_o (f x) (\<lambda>_. each_o f xs)"

definition change_table :: "string \<Rightarrow> (table_def \<Rightarrow> table_def) \<Rightarrow> ('v, unit) ex_step" where
  "change_table table f = put_ex (\<lambda>ex. ex\<lparr>ex_catalog := update_table table f (ex_catalog ex)\<rparr>)"

section \<open>System tables and versions\<close>

definition new_root :: "'v dml_env \<Rightarrow> (pager, page_id) om" where
  "new_root env =
     bind_o (run_o (allocate_page (de_crc env))) (\<lambda>root p.
       bind_o (lift_o (init_leaf_page (replicate (page_size p) 0) root)) (\<lambda>buf.
       bind_o (run_o (write_page (de_crc env) root buf)) (\<lambda>_. ret_o root)) p)"

definition ensure_system_table :: "'v dml_env \<Rightarrow> string \<Rightarrow> column_def list \<Rightarrow> ('v, page_id) ex_step" where
  "ensure_system_table env name columns = (\<lambda>(p, ex).
     case get_table (ex_catalog ex) (to_lowercase name) of
       Some td \<Rightarrow> ret_o (td_root_page td) (p, ex)
     | None \<Rightarrow>
         bind_o (on_pager (new_root env)) (\<lambda>root.
         bind_o (on_catalog (create_table (de_schema env) (de_fuel env) (de_crc env) (table_def_new name root columns)))
           (\<lambda>_. ret_o root)) (p, ex))"

definition next_temporal_timestamp :: "'v dml_env \<Rightarrow> ('v, u64) ex_step" where
  "next_temporal_timestamp env = (\<lambda>(p, ex).
     let now = de_now env (ex_ticks ex); ex = ex\<lparr>ex_ticks := ex_ticks ex + 1\<rparr> in
     if now \<le> ex_last_ts ex
     then if ex_last_ts ex = - 1 then fail_o Panic (p, ex)
          else ret_o (ex_last_ts ex + 1) (p, ex\<lparr>ex_last_ts := ex_last_ts ex + 1\<rparr>)
     else ret_o now (p, ex\<lparr>ex_last_ts := now\<rparr>))"

definition is_system :: "string \<Rightarrow> bool" where "is_system name \<longleftrightarrow> take 6 name = ''__sys_''"

definition next_row_id :: "table_def \<Rightarrow> (u64 \<times> table_def) result" where
  "next_row_id td =
     (if td_next_row_id td = - 1 then Inl Panic
      else Inr (td_next_row_id td, td\<lparr>td_next_row_id := td_next_row_id td + 1\<rparr>))"

definition time_travel_columns :: "column_def list" where
  "time_travel_columns =
     [\<lparr>cd_name = ''id'', cd_type = DInteger, cd_primary_key = True, cd_not_null = False\<rparr>,
      \<lparr>cd_name = ''payload'', cd_type = DBlob, cd_primary_key = False, cd_not_null = False\<rparr>]"

definition take_version_id :: "('v, u64) ex_step" where
  "take_version_id = (\<lambda>(p, ex).
     case get_table (ex_catalog ex) ''__sys_time_travel'' of
       None \<Rightarrow> fail_o (TableNotFound ''__sys_time_travel'') (p, ex)
     | Some td \<Rightarrow>
         (case next_row_id td of
            Inl e \<Rightarrow> fail_o e (p, ex)
          | Inr (vid, td') \<Rightarrow> bind_o (change_table ''__sys_time_travel'' (\<lambda>_. td')) (\<lambda>_. ret_o vid) (p, ex)))"

definition json_or :: "bytes result \<Rightarrow> string \<Rightarrow> bytes result" where
  "json_or r msg = (case r of Inl e \<Rightarrow> Inl (Corrupted msg) | Inr b \<Rightarrow> Inr b)"

definition record_temporal_version ::
    "'v dml_env \<Rightarrow> string \<Rightarrow> u64 \<Rightarrow> bytes \<Rightarrow> u64 \<Rightarrow> u64 \<Rightarrow> ('v, unit) ex_step" where
  "record_temporal_version env table rid payload valid_from valid_to =
     (if is_system table then ret_o ()
      else bind_o (ensure_system_table env ''__sys_time_travel'' time_travel_columns) (\<lambda>root.
           bind_o take_version_id (\<lambda>vid.
           bind_o (lift_o (json_or (de_record_json env
               \<lparr>tr_id = vid, tr_table_name = table, tr_row_id = rid, tr_valid_from = valid_from, tr_valid_to = valid_to,
                tr_payload = payload\<rparr>) ''Failed to serialize temporal record: {e}'')) (\<lambda>rec_payload.
           on_pager (btree_insert (de_fuel env) (de_crc env) root vid rec_payload)))))"

fun close_record :: "'v dml_env \<Rightarrow> string \<Rightarrow> u64 \<Rightarrow> u64 \<Rightarrow> page_id \<Rightarrow> table_leaf_cell list \<Rightarrow> (pager, unit) om" where
  "close_record env table rid end_time root [] = ret_o ()"
| "close_record env table rid end_time root (cell # cells) =
     (case de_parse_record env (lc_payload cell) of
        None \<Rightarrow> close_record env table rid end_time root cells
      | Some r \<Rightarrow>
          if eq_ignore_ascii_case (tr_table_name r) table \<and> tr_row_id r = rid \<and> tr_valid_to r = - 1
          then bind_o (lift_o (json_or (de_record_json env (r\<lparr>tr_valid_to := end_time\<rparr>))
                   ''Failed to serialize temporal record: {e}'')) (\<lambda>payload.
               btree_insert (de_fuel env) (de_crc env) root (lc_row_id cell) payload)
          else close_record env table rid end_time root cells)"

definition close_temporal_version :: "'v dml_env \<Rightarrow> string \<Rightarrow> u64 \<Rightarrow> u64 \<Rightarrow> ('v, unit) ex_step" where
  "close_temporal_version env table rid end_time = (\<lambda>(p, ex).
     if is_system table then ret_o () (p, ex)
     else case get_table (ex_catalog ex) ''__sys_time_travel'' of
       None \<Rightarrow> ret_o () (p, ex)
     | Some td \<Rightarrow>
         on_pager (bind_o (btree_scan (de_fuel env) (td_root_page td)) (\<lambda>cells.
           close_record env table rid end_time (td_root_page td) cells)) (p, ex))"

section \<open>Index postings and vectors\<close>

definition value_to_index_key :: "'v dml_env \<Rightarrow> sql_value \<Rightarrow> u64" where
  "value_to_index_key env v = (let h = de_hash env v in if h = 0 then 1 else h)"

definition indexed_value :: "'v dml_env \<Rightarrow> row \<Rightarrow> index_def \<Rightarrow> sql_value option" where
  "indexed_value env r idx =
     (case column_value (de_json_path env) r (id_column idx) of
        None \<Rightarrow> None
      | Some v \<Rightarrow> if is_null v then None else Some v)"

definition for_indexes :: "'v dml_env \<Rightarrow> string \<Rightarrow> (index_def \<Rightarrow> (pager, unit) om) \<Rightarrow> ('v, unit) ex_step" where
  "for_indexes env table f = (\<lambda>(p, ex).
     on_pager (each_o f (filter (\<lambda>idx. eq_ignore_ascii_case (id_table idx) table) (de_indexes env (ex_catalog ex)))) (p, ex))"

definition remove_posting :: "'v dml_env \<Rightarrow> index_def \<Rightarrow> sql_value \<Rightarrow> u64 \<Rightarrow> (pager, unit) om" where
  "remove_posting env idx v rid =
     (let key = value_to_index_key env v; root = id_root_page idx in
      bind_o (btree_search (de_fuel env) root key) (\<lambda>found.
        case found of
          None \<Rightarrow> ret_o ()
        | Some payload \<Rightarrow>
            (case de_parse_bucket env payload of
               None \<Rightarrow> ret_o ()
             | Some bucket \<Rightarrow>
                 (let bucket = snd (remove_row_id v rid bucket) in
                  if bucket = [] then ignoring (delete_from_subtree (de_fuel env) (de_crc env) root key)
                  else case de_bucket_json env bucket of
                    Inl e \<Rightarrow> ret_o ()
                  | Inr new_pl \<Rightarrow> ignoring (btree_insert (de_fuel env) (de_crc env) root key new_pl)))))"

definition unindex_row :: "'v dml_env \<Rightarrow> string \<Rightarrow> row \<Rightarrow> u64 \<Rightarrow> ('v, unit) ex_step" where
  "unindex_row env table r rid = for_indexes env table (\<lambda>idx.
     case indexed_value env r idx of None \<Rightarrow> ret_o () | Some v \<Rightarrow> remove_posting env idx v rid)"

definition posting_after_add :: "'v dml_env \<Rightarrow> index_def \<Rightarrow> sql_value \<Rightarrow> u64 \<Rightarrow> (pager, index_bucket) om" where
  "posting_after_add env idx v rid =
     bind_o (btree_search (de_fuel env) (id_root_page idx) (value_to_index_key env v)) (\<lambda>found.
       ret_o (add_row_id v rid
         (case found of
            None \<Rightarrow> []
          | Some payload \<Rightarrow> (case de_parse_bucket env payload of None \<Rightarrow> [] | Some bucket \<Rightarrow> bucket))))"

text \<open>An insertion reports a posting it cannot write, an update does not.\<close>

definition index_row :: "'v dml_env \<Rightarrow> string \<Rightarrow> row \<Rightarrow> u64 \<Rightarrow> ('v, unit) ex_step" where
  "index_row env table r rid = for_indexes env table (\<lambda>idx.
     case indexed_value env r idx of
       None \<Rightarrow> ret_o ()
     | Some v \<Rightarrow>
         bind_o (posting_after_add env idx v rid) (\<lambda>bucket.
         bind_o (lift_o (json_or (de_bucket_json env bucket) ''Failed to serialize index bucket: {e}'')) (\<lambda>idx_payload.
         btree_insert (de_fuel env) (de_crc env) (id_root_page idx) (value_to_index_key env v) idx_payload)))"

definition reindex_row :: "'v dml_env \<Rightarrow> string \<Rightarrow> row \<Rightarrow> u64 \<Rightarrow> row \<Rightarrow> u64 \<Rightarrow> ('v, unit) ex_step" where
  "reindex_row env table old_row old_rid new_row new_rid = for_indexes env table (\<lambda>idx.
     bind_o (case indexed_value env old_row idx of None \<Rightarrow> ret_o () | Some v \<Rightarrow> remove_posting env idx v old_rid) (\<lambda>_.
     case indexed_value env new_row idx of
       None \<Rightarrow> ret_o ()
     | Some v \<Rightarrow>
         bind_o (posting_after_add env idx v new_rid) (\<lambda>bucket.
         case de_bucket_json env bucket of
           Inl e \<Rightarrow> ret_o ()
         | Inr new_pl \<Rightarrow>
             ignoring (btree_insert (de_fuel env) (de_crc env) (id_root_page idx) (value_to_index_key env v) new_pl))))"

definition forget_vector :: "'v dml_env \<Rightarrow> string \<Rightarrow> u64 \<Rightarrow> ('v, unit) ex_step" where
  "forget_vector env table rid = put_ex (\<lambda>ex.
     let key = to_lowercase table in
     ex\<lparr>ex_vectors := (ex_vectors ex)(key := map_option (de_vec_remove env rid) (ex_vectors ex key))\<rparr>)"

definition store_vector :: "'v dml_env \<Rightarrow> string \<Rightarrow> u64 \<Rightarrow> u32 list \<Rightarrow> ('v, unit) ex_step" where
  "store_vector env table rid xs = run_o (\<lambda>(p, ex).
     let key = to_lowercase table;
         index = (case ex_vectors ex key of None \<Rightarrow> de_vec_new env (length xs) | Some i \<Rightarrow> i);
         (r, index) = de_vec_insert env rid xs index in
     (r, (p, ex\<lparr>ex_vectors := (ex_vectors ex)(key \<mapsto> index)\<rparr>)))"

section \<open>Values of a row\<close>

fun put_columns :: "table_def \<Rightarrow> string list \<Rightarrow> sql_value list \<Rightarrow> sql_value list \<Rightarrow> sql_value list result" where
  "put_columns td (c # cs) (v # vs) row_vals =
     (case column_index td c of
        None \<Rightarrow> Inl (Corrupted ''Unknown column: {c_name}'')
      | Some idx \<Rightarrow> put_columns td cs vs (row_vals[idx := v]))"
| "put_columns td _ _ row_vals = Inr row_vals"

definition align_values :: "table_def \<Rightarrow> string list option \<Rightarrow> sql_value list \<Rightarrow> sql_value list result" where
  "align_values td columns vals =
     (case columns of
        Some cols \<Rightarrow>
          if length cols \<noteq> length vals then Inl (SqlSyntax ''Column count does not match value count in INSERT'')
          else put_columns td cols vals (replicate (length (td_columns td)) NullV)
      | None \<Rightarrow>
          if length vals \<noteq> length (td_columns td) then Inl (SqlSyntax ''INSERT requires {} values, got {}'')
          else Inr vals)"

text \<open>The row number, whether a row with it may exist, the values and the table after the choice.\<close>

definition choose_row_id :: "table_def \<Rightarrow> sql_value list \<Rightarrow> (u64 \<times> bool \<times> sql_value list \<times> table_def) result" where
  "choose_row_id td vals =
     (case primary_key_index td of
        Some idx \<Rightarrow>
          (case vals ! idx of
             IntegerV i \<Rightarrow>
               if i \<ge> td_next_row_id td
               then if i = - 1 then Inl Panic else Inr (i, True, vals, td\<lparr>td_next_row_id := i + 1\<rparr>)
               else Inr (i, True, vals, td)
           | NullV \<Rightarrow> bind_r (next_row_id td) (\<lambda>(rid, td'). Inr (rid, False, vals[idx := IntegerV rid], td'))
           | _ \<Rightarrow> bind_r (next_row_id td) (\<lambda>(rid, td'). Inr (rid, False, vals, td')))
      | None \<Rightarrow> bind_r (next_row_id td) (\<lambda>(rid, td'). Inr (rid, False, vals, td')))"

definition coerce_column :: "float_env \<Rightarrow> column_def \<Rightarrow> sql_value \<Rightarrow> sql_value result" where
  "coerce_column fe c v =
     (case coerce_value fe (cd_type c) v of
        Inl (ConstraintViolation msg) \<Rightarrow> Inl (ConstraintViolation ''{table}.{}: {msg}'')
      | r \<Rightarrow> r)"

fun coerce_row :: "float_env \<Rightarrow> column_def list \<Rightarrow> sql_value list \<Rightarrow> sql_value list result" where
  "coerce_row fe (c # cs) (v # vs) =
     bind_r (coerce_column fe c v) (\<lambda>v. bind_r (coerce_row fe cs vs) (\<lambda>vs. Inr (v # vs)))"
| "coerce_row fe _ vs = Inr vs"

definition null_check :: "column_def \<Rightarrow> sql_value \<Rightarrow> unit result" where
  "null_check c v =
     (if cd_not_null c \<and> is_null v then Inl (ConstraintViolation ''NOT NULL constraint failed: {table}.{}'') else Inr ())"

fun check_not_null :: "column_def list \<Rightarrow> sql_value list \<Rightarrow> unit result" where
  "check_not_null (c # cs) (v # vs) = bind_r (null_check c v) (\<lambda>_. check_not_null cs vs)"
| "check_not_null _ _ = Inr ()"

definition checked_row :: "float_env \<Rightarrow> column_def list \<Rightarrow> sql_value list \<Rightarrow> sql_value list result" where
  "checked_row fe cs vals = bind_r (coerce_row fe cs vals) (\<lambda>vs. bind_r (check_not_null cs vs) (\<lambda>_. Inr vs))"

text \<open>The update of a conflicting row checks each column right after its conversion.\<close>

fun coerce_and_check :: "float_env \<Rightarrow> column_def list \<Rightarrow> sql_value list \<Rightarrow> sql_value list result" where
  "coerce_and_check fe (c # cs) (v # vs) =
     bind_r (coerce_column fe c v) (\<lambda>v. bind_r (null_check c v) (\<lambda>_.
     bind_r (coerce_and_check fe cs vs) (\<lambda>vs. Inr (v # vs))))"
| "coerce_and_check fe _ vs = Inr vs"

fun apply_updates :: "table_def \<Rightarrow> (string \<times> sql_value) list \<Rightarrow> sql_value list \<Rightarrow> sql_value list" where
  "apply_updates td [] vals = vals"
| "apply_updates td ((c, v) # us) vals =
     apply_updates td us (case column_index td c of
        None \<Rightarrow> vals | Some idx \<Rightarrow> if idx < length vals then vals[idx := v] else vals)"

definition returned_rows :: "'v dml_env \<Rightarrow> string list option \<Rightarrow> row \<Rightarrow> row list result" where
  "returned_rows env returning r =
     (case returning of
        None \<Rightarrow> Inr []
      | Some cols \<Rightarrow> if cols = [''*''] then Inr [r] else bind_r (de_project env r cols) (\<lambda>r. Inr [r]))"

section \<open>INSERT\<close>

definition is_temporal :: "'v executor \<Rightarrow> table_def \<Rightarrow> bool" where
  "is_temporal ex td \<longleftrightarrow> td_system_versioning td \<or> ex_versioning ex"

definition close_now :: "'v dml_env \<Rightarrow> string \<Rightarrow> u64 \<Rightarrow> ('v, unit) ex_step" where
  "close_now env table rid =
     bind_o (next_temporal_timestamp env) (\<lambda>now_ts. close_temporal_version env table rid now_ts)"

definition delete_row :: "'v dml_env \<Rightarrow> page_id \<Rightarrow> u64 \<Rightarrow> ('v, unit) ex_step" where
  "delete_row env root rid =
     on_pager (bind_o (delete_from_subtree (de_fuel env) (de_crc env) root rid) (\<lambda>_. ret_o ()))"

definition store_row :: "'v dml_env \<Rightarrow> page_id \<Rightarrow> u64 \<Rightarrow> bytes \<Rightarrow> ('v, unit) ex_step" where
  "store_row env root rid payload = on_pager (btree_insert (de_fuel env) (de_crc env) root rid payload)"

text \<open>A row with the number exists: the values to insert instead, or \<open>None\<close> to leave it.\<close>

definition on_existing ::
    "'v dml_env \<Rightarrow> string \<Rightarrow> table_def \<Rightarrow> bool \<Rightarrow> u64 \<Rightarrow> bytes \<Rightarrow> on_conflict \<Rightarrow> sql_value list \<Rightarrow>
     ('v, sql_value list option) ex_step" where
  "on_existing env table td temporal rid existing conflict vals =
     (case conflict of
        AbortC \<Rightarrow> fail_o (ConstraintViolation ''UNIQUE constraint failed: {table}.{pk_col_name} (key {row_id} already exists)'')
      | IgnoreC \<Rightarrow> ret_o None
      | ReplaceC \<Rightarrow>
          bind_o (case decode_full existing (column_names td) of
              Inl e \<Rightarrow> if e = Panic then fail_o Panic else ret_o ()
            | Inr old_row \<Rightarrow> unindex_row env table old_row rid) (\<lambda>_.
          bind_o (forget_vector env table rid) (\<lambda>_.
          bind_o (close_now env table rid) (\<lambda>_.
          bind_o (delete_row env (td_root_page td) rid) (\<lambda>_. ret_o (Some vals)))))
      | DoUpdate updates \<Rightarrow>
          bind_o (lift_o (decode_full existing (column_names td))) (\<lambda>old_row.
          bind_o (lift_o (coerce_and_check (de_float env) (td_columns td) (apply_updates td updates (r_values old_row)))) (\<lambda>vals.
          bind_o (unindex_row env table old_row rid) (\<lambda>_.
          bind_o (forget_vector env table rid) (\<lambda>_.
          bind_o (if temporal then close_now env table rid else ret_o ()) (\<lambda>_.
          bind_o (delete_row env (td_root_page td) rid) (\<lambda>_. ret_o (Some vals))))))))"

definition row_vector :: "table_def \<Rightarrow> sql_value list \<Rightarrow> u32 list option" where
  "row_vector td vals =
     (case first_vector_column td of
        None \<Rightarrow> None
      | Some (v_idx, dims) \<Rightarrow>
          if v_idx < length vals then (case vals ! v_idx of VectorV xs \<Rightarrow> Some xs | _ \<Rightarrow> None) else None)"

definition insert_new_row ::
    "'v dml_env \<Rightarrow> string \<Rightarrow> table_def \<Rightarrow> bool \<Rightarrow> u64 \<Rightarrow> sql_value list \<Rightarrow> string list option \<Rightarrow>
     ('v, nat \<times> row list) ex_step" where
  "insert_new_row env table td temporal rid vals returning =
     (let payload = encode_values vals; full_row = \<lparr>r_columns = column_names td, r_values = vals\<rparr> in
      bind_o (store_row env (td_root_page td) rid payload) (\<lambda>_.
      bind_o (if temporal
              then bind_o (next_temporal_timestamp env) (\<lambda>now_ts. record_temporal_version env table rid payload now_ts (- 1))
              else ret_o ()) (\<lambda>_.
      bind_o (case row_vector td vals of None \<Rightarrow> ret_o () | Some xs \<Rightarrow> store_vector env table rid xs) (\<lambda>_.
      bind_o (index_row env table full_row rid) (\<lambda>_.
      bind_o (lift_o (returned_rows env returning full_row)) (\<lambda>rows. ret_o (1, rows)))))))"

definition execute_insert ::
    "'v dml_env \<Rightarrow> string \<Rightarrow> string list option \<Rightarrow> sql_value list \<Rightarrow> on_conflict \<Rightarrow> string list option \<Rightarrow>
     ('v, nat \<times> row list) ex_step" where
  "execute_insert env table columns vals conflict returning = (\<lambda>(p, ex).
     case get_table (ex_catalog ex) table of
       None \<Rightarrow> fail_o (TableNotFound table) (p, ex)
     | Some td \<Rightarrow>
         (case bind_r (align_values td columns vals) (choose_row_id td) of
            Inl e \<Rightarrow> fail_o e (p, ex)
          | Inr (rid, key_may_exist, aligned, td') \<Rightarrow>
              bind_o (change_table table (\<lambda>_. td')) (\<lambda>_.
              bind_o (lift_o (checked_row (de_float env) (td_columns td) aligned)) (\<lambda>vals.
              bind_o (if key_may_exist then on_pager (btree_search (de_fuel env) (td_root_page td) rid) else ret_o None) (\<lambda>found.
              bind_o (case found of
                  None \<Rightarrow> ret_o (Some vals)
                | Some existing \<Rightarrow> on_existing env table td (is_temporal ex td) rid existing conflict vals) (\<lambda>go.
              case go of
                None \<Rightarrow> ret_o (0, [])
              | Some vals \<Rightarrow> insert_new_row env table td (is_temporal ex td) rid vals returning)))) (p, ex)))"

section \<open>UPDATE and DELETE\<close>

definition resolve_clause :: "'v dml_env \<Rightarrow> where_expr option \<Rightarrow> ('v, resolved_where option) ex_step" where
  "resolve_clause env clause = (\<lambda>(p, ex).
     case clause of
       None \<Rightarrow> ret_o None (p, ex)
     | Some e \<Rightarrow> lift_o (bind_r (resolve_where_expr (de_query env p (ex_catalog ex)) e) (\<lambda>r. Inr (Some r))) (p, ex))"

definition row_selected :: "'v dml_env \<Rightarrow> resolved_where option \<Rightarrow> row \<Rightarrow> ('s, bool) om" where
  "row_selected env clause r = (\<lambda>s.
     case clause of
       None \<Rightarrow> ret_o True s
     | Some cond \<Rightarrow>
         (case row_matches_resolved (de_float env) (de_other env) r cond of
            None \<Rightarrow> None
          | Some b \<Rightarrow> ret_o b s))"

definition updated_row_id :: "table_def \<Rightarrow> sql_value list \<Rightarrow> u64 \<Rightarrow> u64" where
  "updated_row_id td vals rid =
     (case primary_key_index td of
        None \<Rightarrow> rid
      | Some idx \<Rightarrow> if idx < length vals then (case vals ! idx of IntegerV i \<Rightarrow> i | _ \<Rightarrow> rid) else rid)"

definition raise_next_id :: "string \<Rightarrow> table_def \<Rightarrow> u64 \<Rightarrow> ('v, unit) ex_step" where
  "raise_next_id table td rid =
     (if rid \<ge> td_next_row_id td
      then if rid = - 1 then fail_o Panic else change_table table (\<lambda>td. td\<lparr>td_next_row_id := rid + 1\<rparr>)
      else ret_o ())"

definition update_vector :: "'v dml_env \<Rightarrow> string \<Rightarrow> table_def \<Rightarrow> sql_value list \<Rightarrow> u64 \<Rightarrow> u64 \<Rightarrow> ('v, unit) ex_step" where
  "update_vector env table td vals rid new_rid =
     (case first_vector_column td of
        None \<Rightarrow> ret_o ()
      | Some _ \<Rightarrow>
          (case row_vector td vals of
             Some xs \<Rightarrow>
               bind_o (put_ex (\<lambda>ex. ex\<lparr>ex_vectors := (ex_vectors ex)(to_lowercase table \<mapsto>
                   (case ex_vectors ex (to_lowercase table) of None \<Rightarrow> de_vec_new env (length xs) | Some i \<Rightarrow> i))\<rparr>)) (\<lambda>_.
               bind_o (forget_vector env table rid) (\<lambda>_. store_vector env table new_rid xs))
           | None \<Rightarrow> if new_rid \<noteq> rid then forget_vector env table rid else ret_o ()))"

definition update_row ::
    "'v dml_env \<Rightarrow> string \<Rightarrow> table_def \<Rightarrow> (string \<times> sql_value) list \<Rightarrow> string list option \<Rightarrow> u64 \<Rightarrow> row \<Rightarrow>
     ('v, row list) ex_step" where
  "update_row env table td assignments returning rid full_row =
     bind_o (lift_o (checked_row (de_float env) (td_columns td) (apply_updates td assignments (r_values full_row)))) (\<lambda>vals.
     let new_rid = updated_row_id td vals rid; root = td_root_page td; payload = encode_values vals;
         new_row = \<lparr>r_columns = column_names td, r_values = vals\<rparr> in
     bind_o (if new_rid \<noteq> rid
             then bind_o (on_pager (btree_search (de_fuel env) root new_rid)) (\<lambda>found.
                    if found = None then ret_o ()
                    else fail_o (ConstraintViolation ''UNIQUE constraint failed: {table}.{pk_col_name} (key {new_row_id} already exists)''))
             else ret_o ()) (\<lambda>_.
     bind_o (delete_row env root rid) (\<lambda>_.
     bind_o (store_row env root new_rid payload) (\<lambda>_.
     bind_o (\<lambda>(p, ex).
         (if is_temporal ex td
          then bind_o (next_temporal_timestamp env) (\<lambda>now_ts.
               bind_o (close_temporal_version env table rid now_ts) (\<lambda>_.
               record_temporal_version env table new_rid payload now_ts (- 1)))
          else ret_o ()) (p, ex)) (\<lambda>_.
     bind_o (update_vector env table td vals rid new_rid) (\<lambda>_.
     bind_o (reindex_row env table full_row rid new_row new_rid) (\<lambda>_.
     bind_o (raise_next_id table td new_rid) (\<lambda>_.
     lift_o (returned_rows env returning new_row)))))))))"

fun update_rows ::
    "'v dml_env \<Rightarrow> string \<Rightarrow> table_def \<Rightarrow> resolved_where option \<Rightarrow> (string \<times> sql_value) list \<Rightarrow> string list option \<Rightarrow>
     table_leaf_cell list \<Rightarrow> nat \<times> row list \<Rightarrow> ('v, nat \<times> row list) ex_step" where
  "update_rows env table td clause assignments returning [] res = ret_o res"
| "update_rows env table td clause assignments returning (cell # cells) (count, rows) =
     bind_o (lift_o (decode_full (lc_payload cell) (column_names td))) (\<lambda>full_row.
     bind_o (row_selected env clause full_row) (\<lambda>selected.
     if selected
     then bind_o (update_row env table td assignments returning (lc_row_id cell) full_row) (\<lambda>new_rows.
          update_rows env table td clause assignments returning cells (count + 1, rows @ new_rows))
     else update_rows env table td clause assignments returning cells (count, rows)))"

definition execute_update ::
    "'v dml_env \<Rightarrow> string \<Rightarrow> (string \<times> sql_value) list \<Rightarrow> where_expr option \<Rightarrow> string list option \<Rightarrow>
     ('v, nat \<times> row list) ex_step" where
  "execute_update env table assignments clause returning = (\<lambda>(p, ex).
     case get_table (ex_catalog ex) table of
       None \<Rightarrow> fail_o (TableNotFound table) (p, ex)
     | Some td \<Rightarrow>
         if \<exists>(c, v) \<in> set assignments. column_index td c = None
         then fail_o (Corrupted ''Unknown column in SET: {col_name}'') (p, ex)
         else bind_o (resolve_clause env clause) (\<lambda>cond.
              bind_o (on_pager (btree_scan (de_fuel env) (td_root_page td))) (\<lambda>cells.
              update_rows env table td cond assignments returning cells (0, []))) (p, ex))"

definition delete_one :: "'v dml_env \<Rightarrow> string \<Rightarrow> table_def \<Rightarrow> u64 \<Rightarrow> row \<Rightarrow> ('v, unit) ex_step" where
  "delete_one env table td rid full_row =
     bind_o (delete_row env (td_root_page td) rid) (\<lambda>_.
     bind_o (\<lambda>(p, ex). (if is_temporal ex td then close_now env table rid else ret_o ()) (p, ex)) (\<lambda>_.
     bind_o (forget_vector env table rid) (\<lambda>_.
     unindex_row env table full_row rid)))"

fun delete_rows ::
    "'v dml_env \<Rightarrow> string \<Rightarrow> table_def \<Rightarrow> resolved_where option \<Rightarrow> string list option \<Rightarrow>
     table_leaf_cell list \<Rightarrow> nat \<times> row list \<Rightarrow> ('v, nat \<times> row list) ex_step" where
  "delete_rows env table td clause returning [] res = ret_o res"
| "delete_rows env table td clause returning (cell # cells) (count, rows) =
     bind_o (lift_o (decode_full (lc_payload cell) (column_names td))) (\<lambda>full_row.
     bind_o (row_selected env clause full_row) (\<lambda>selected.
     if selected
     then bind_o (lift_o (returned_rows env returning full_row)) (\<lambda>gone.
          bind_o (delete_one env table td (lc_row_id cell) full_row) (\<lambda>_.
          delete_rows env table td clause returning cells (count + 1, rows @ gone)))
     else delete_rows env table td clause returning cells (count, rows)))"

definition execute_delete ::
    "'v dml_env \<Rightarrow> string \<Rightarrow> where_expr option \<Rightarrow> string list option \<Rightarrow> ('v, nat \<times> row list) ex_step" where
  "execute_delete env table clause returning = (\<lambda>(p, ex).
     case get_table (ex_catalog ex) table of
       None \<Rightarrow> fail_o (TableNotFound table) (p, ex)
     | Some td \<Rightarrow>
         bind_o (on_pager (btree_scan (de_fuel env) (td_root_page td))) (\<lambda>cells.
         bind_o (resolve_clause env clause) (\<lambda>cond.
         delete_rows env table td cond returning cells (0, []))) (p, ex))"

end
