(* ===== verification/Sql_Catalog_Props.thy ===== *)
theory Sql_Catalog_Props
  imports Sql_Catalog
begin

text \<open>
  What the catalog keeps, whatever the pages do: names and keys agree, columns of a table have different
  names. What loading restores and what it destroys; what a column accepts.
\<close>

section \<open>The invariant\<close>

text \<open>Columns have different names, also up to ASCII case.\<close>

definition columns_ok :: "table_def \<Rightarrow> bool" where
  "columns_ok td \<longleftrightarrow> distinct (map (\<lambda>c. map ascii_lower (cd_name c)) (td_columns td))"

definition catalog_ok :: "catalog \<Rightarrow> bool" where
  "catalog_ok cat \<longleftrightarrow>
     (\<forall>k td. c_tables cat k = Some td \<longrightarrow> k = to_lowercase (td_name td) \<and> columns_ok td) \<and>
     (\<forall>k vd. c_views cat k = Some vd \<longrightarrow> k = to_lowercase (vd_name vd)) \<and>
     (\<forall>k idx. c_indexes cat k = Some idx \<longrightarrow> k = to_lowercase (id_name idx))"

text \<open>A step that keeps a property of the catalog on every outcome.\<close>

definition keeps_cat :: "(catalog \<Rightarrow> bool) \<Rightarrow> 'a db_step \<Rightarrow> bool" where
  "keeps_cat I m \<longleftrightarrow> keeps_o (\<lambda>s. I (snd s)) m"

lemma keeps_catD: "keeps_cat I m \<Longrightarrow> I cat \<Longrightarrow> m (p, cat) = Some (r, p', cat') \<Longrightarrow> I cat'"
  using keeps_oD [of "\<lambda>s. I (snd s)" m "(p, cat)" r "(p', cat')"] by (simp add: keeps_cat_def)

lemma keeps_cat_bind: "keeps_cat I m \<Longrightarrow> (\<And>x. keeps_cat I (f x)) \<Longrightarrow> keeps_cat I (bind_o m f)"
  unfolding keeps_cat_def by (rule keeps_o_bind)

lemma keeps_cat_pager: "keeps_cat I (on_pager m)"
  by (auto simp: keeps_cat_def keeps_o_def on_pager_def split: option.splits)

lemma keeps_cat_put: "(\<And>cat. I cat \<Longrightarrow> I (f cat)) \<Longrightarrow> keeps_cat I (put_catalog f)"
  by (auto simp: keeps_cat_def keeps_o_def put_catalog_def put_s_def)

lemma keeps_cat_basic: "keeps_cat I (ret_o x)" "keeps_cat I (fail_o e)" "keeps_cat I (run_o (lift_s r))"
  by (simp_all add: keeps_cat_def keeps_o_basic)

lemma keeps_cat_take_id: "(\<And>cat n. I cat \<Longrightarrow> I (cat\<lparr>c_next_table_id := n\<rparr>)) \<Longrightarrow> keeps_cat I take_id"
  by (auto simp: keeps_cat_def keeps_o_def take_id_def split: if_splits)

lemma catalog_ok_id: "catalog_ok cat \<Longrightarrow> catalog_ok (cat\<lparr>c_next_table_id := n\<rparr>)"
  by (simp add: catalog_ok_def)

lemma keeps_store_new: "keeps_cat catalog_ok (store_new fuel crc json msg)"
  unfolding store_new_def
  by (intro keeps_cat_bind keeps_cat_take_id keeps_cat_basic keeps_cat_pager catalog_ok_id)

lemma ok_put_table:
  "catalog_ok cat \<Longrightarrow> key = to_lowercase (td_name td) \<Longrightarrow> columns_ok td \<Longrightarrow> catalog_ok (cat\<lparr>c_tables := (c_tables cat)(key \<mapsto> td)\<rparr>)"
  by (simp add: catalog_ok_def)

lemma ok_remove:
  "catalog_ok cat \<Longrightarrow> catalog_ok (cat\<lparr>c_tables := (c_tables cat)(k := None)\<rparr>)"
  "catalog_ok cat \<Longrightarrow> catalog_ok (cat\<lparr>c_views := (c_views cat)(k := None)\<rparr>)"
  "catalog_ok cat \<Longrightarrow> catalog_ok (cat\<lparr>c_indexes := (c_indexes cat)(k := None)\<rparr>)"
  by (simp_all add: catalog_ok_def)

lemma keeps_put_table:
  "key = to_lowercase (td_name td) \<Longrightarrow> columns_ok td \<Longrightarrow> keeps_cat catalog_ok (put_table key td)"
  unfolding put_table_def by (rule keeps_cat_put) (rule ok_put_table)

lemmas keeps_cat_rules = keeps_cat_bind keeps_cat_pager keeps_cat_basic keeps_store_new keeps_put_table

text \<open>A step that looks at the catalog first: each of its branches, run from a good catalog, ends in one.\<close>

definition ends_ok :: "((error + 'a) \<times> pager \<times> catalog) option \<Rightarrow> bool" where
  "ends_ok res \<longleftrightarrow> (\<forall>r p' cat'. res = Some (r, p', cat') \<longrightarrow> catalog_ok cat')"

lemma keeps_cat_look:
  assumes "\<And>p cat. catalog_ok cat \<Longrightarrow> ends_ok (m p cat)"
  shows "keeps_cat catalog_ok (\<lambda>(p, cat). m p cat)"
  using assms by (auto simp: keeps_cat_def keeps_o_def ends_ok_def)

lemma ends_fail: "catalog_ok cat \<Longrightarrow> ends_ok (fail_o e (p, cat))" "catalog_ok cat \<Longrightarrow> ends_ok (ret_o x (p, cat))"
  by (simp_all add: ends_ok_def)

lemma ends_bind: "catalog_ok cat \<Longrightarrow> keeps_cat catalog_ok (bind_o m f) \<Longrightarrow> ends_ok (bind_o m f (p, cat))"
  unfolding ends_ok_def by (metis keeps_catD)

lemma ends_if: "(b \<Longrightarrow> ends_ok x) \<Longrightarrow> (\<not> b \<Longrightarrow> ends_ok y) \<Longrightarrow> ends_ok (if b then x else y)"
  by simp

lemma ends_option: "(opt = None \<Longrightarrow> ends_ok x) \<Longrightarrow> (\<And>v. opt = Some v \<Longrightarrow> ends_ok (f v)) \<Longrightarrow> ends_ok (case opt of None \<Rightarrow> x | Some v \<Rightarrow> f v)"
  by (cases opt) simp_all

lemmas ends_rules = ends_if ends_option ends_fail ends_bind

lemma position_None: "position p xs = None \<longleftrightarrow> (\<forall>x \<in> set xs. \<not> p x)"
proof -
  have "length (takeWhile (\<lambda>x. \<not> p x) xs) < length xs \<longleftrightarrow> (\<exists>x \<in> set xs. p x)" by (induction xs) auto
  then show ?thesis by (auto simp: position_def Let_def)
qed

lemma position_Some:
  assumes "position p xs = Some i"
  shows "i < length xs \<and> p (xs ! i) \<and> (\<forall>j < i. \<not> p (xs ! j))"
proof -
  have i: "i = length (takeWhile (\<lambda>x. \<not> p x) xs)" "i < length xs"
    using assms by (auto simp: position_def Let_def split: if_splits)
  have "p (xs ! i)" using nth_length_takeWhile [of "\<lambda>x. \<not> p x" xs] i by simp
  moreover have "\<not> p (xs ! j)" if "j < i" for j
    using that i set_takeWhileD [of "takeWhile (\<lambda>x. \<not> p x) xs ! j" "\<lambda>x. \<not> p x" xs] nth_mem [of j "takeWhile (\<lambda>x. \<not> p x) xs"]
    by (simp add: takeWhile_nth)
  ultimately show ?thesis using i by blast
qed

lemma new_column_ok:
  assumes "columns_ok td" "column_index td (cd_name col) = None"
  shows "columns_ok (td\<lparr>td_columns := td_columns td @ [col]\<rparr>)"
  using assms by (auto simp: columns_ok_def column_index_def position_None eq_ignore_ascii_case_def)

lemma renamed_column_ok:
  assumes "columns_ok td" "column_index td new = None" "i < length (td_columns td)"
  shows "columns_ok (td\<lparr>td_columns := (td_columns td)[i := (td_columns td ! i)\<lparr>cd_name := new\<rparr>]\<rparr>)"
proof -
  let ?key = "\<lambda>c. map ascii_lower (cd_name c)"
  have "map ascii_lower new \<notin> set (map ?key (td_columns td))"
    using assms(2) by (auto simp: column_index_def position_None eq_ignore_ascii_case_def)
  then have "distinct ((map ?key (td_columns td))[i := map ascii_lower new])"
    using assms(1) by (intro distinct_list_update) (auto simp: columns_ok_def dest: in_set_dropD in_set_takeD)
  then show ?thesis by (simp add: columns_ok_def map_update)
qed

lemma distinct_remove_at: "distinct xs \<Longrightarrow> distinct (remove_at i xs)"
  using set_take_disj_set_drop_if_distinct [of xs i "Suc i"] by (auto simp: remove_at_def)

lemma map_remove_at: "map f (remove_at i xs) = remove_at i (map f xs)"
  by (simp add: remove_at_def take_map drop_map)

lemma dropped_column_ok: "columns_ok td \<Longrightarrow> columns_ok (td\<lparr>td_columns := remove_at i (td_columns td)\<rparr>)"
  by (simp add: columns_ok_def map_remove_at distinct_remove_at)

section \<open>Every operation keeps it\<close>

lemma keeps_put_tables: "(\<And>cat. catalog_ok cat \<Longrightarrow> catalog_ok (cat\<lparr>c_tables := g cat\<rparr>)) \<Longrightarrow>
   keeps_cat catalog_ok (put_catalog (\<lambda>cat. cat\<lparr>c_tables := g cat\<rparr>))"
  by (rule keeps_cat_put)

lemma keeps_create_table:
  assumes "columns_ok td"
  shows "keeps_cat catalog_ok (create_table sc fuel crc td)"
  unfolding create_table_def Let_def
  by (rule keeps_cat_look)
    (intro ends_rules keeps_cat_bind keeps_store_new keeps_cat_put ok_put_table assms refl | assumption)+

lemma keeps_create_view: "keeps_cat catalog_ok (create_view sc fuel crc vd)"
  unfolding create_view_def Let_def
  by (rule keeps_cat_look)
    (intro ends_rules keeps_cat_bind keeps_store_new keeps_cat_put; simp add: catalog_ok_def)

lemma keeps_create_index: "keeps_cat catalog_ok (create_index sc fuel crc idx)"
  unfolding create_index_def Let_def
  by (rule keeps_cat_look)
    (intro ends_rules keeps_cat_bind keeps_store_new keeps_cat_put; simp add: catalog_ok_def)

lemma columns_ok_name: "columns_ok (td\<lparr>td_name := n\<rparr>) = columns_ok td"
  by (simp add: columns_ok_def)

lemma look_up_table: "catalog_ok cat \<Longrightarrow> c_tables cat k = Some td \<Longrightarrow> k = to_lowercase (td_name td) \<and> columns_ok td"
  by (simp add: catalog_ok_def)

lemma keeps_add_column: "keeps_cat catalog_ok (add_column sc fuel crc table_name col)"
  unfolding add_column_def Let_def
  by (rule keeps_cat_look)
    (intro ends_rules keeps_cat_bind keeps_cat_pager keeps_put_table new_column_ok; simp add: look_up_table)

lemma keeps_rename_column: "keeps_cat catalog_ok (rename_table_column sc fuel crc table_name old_col new_col)"
  unfolding rename_table_column_def Let_def
  by (rule keeps_cat_look)
    (intro ends_rules keeps_cat_bind keeps_cat_pager keeps_put_table renamed_column_ok;
      simp add: look_up_table column_index_def position_Some)

lemma keeps_drop_column: "keeps_cat catalog_ok (drop_column sc fuel crc table_name col_name)"
  unfolding drop_column_def Let_def
  by (rule keeps_cat_look)
    (intro ends_rules keeps_cat_bind keeps_cat_pager keeps_put_table dropped_column_ok; simp add: look_up_table)

lemma keeps_rename_table: "keeps_cat catalog_ok (rename_table sc fuel crc old_name new_name)"
  unfolding rename_table_def Let_def
  by (rule keeps_cat_look)
    (intro ends_rules keeps_cat_bind keeps_cat_pager keeps_put_table keeps_cat_put;
      simp add: ok_remove columns_ok_name look_up_table)

lemma keeps_drop:
  "keeps_cat catalog_ok (drop_table sc fuel crc name)" "keeps_cat catalog_ok (drop_view sc fuel crc name)"
  "keeps_cat catalog_ok (drop_index sc fuel crc name)"
  unfolding drop_table_def drop_view_def drop_index_def Let_def
  by (rule keeps_cat_look; intro ends_rules keeps_cat_bind keeps_cat_pager keeps_cat_basic keeps_cat_put; simp add: ok_remove)+

section \<open>Reachable catalogs\<close>

text \<open>A step runs an operation over any pages and keeps the catalog it leaves, also after an error.\<close>

datatype catalog_op =
    OpCreateTable table_def | OpCreateView view_def | OpCreateIndex index_def
  | OpAddColumn string column_def | OpRenameTable string string | OpRenameColumn string string string
  | OpDropColumn string string | OpDropTable string | OpDropView string | OpDropIndex string

definition forget_result :: "'a db_step \<Rightarrow> unit db_step" where "forget_result m = bind_o m (\<lambda>_. ret_o ())"

fun run_op :: "schema_codec \<Rightarrow> nat \<Rightarrow> crc_fun \<Rightarrow> catalog_op \<Rightarrow> unit db_step" where
  "run_op sc fuel crc (OpCreateTable td) = create_table sc fuel crc td"
| "run_op sc fuel crc (OpCreateView vd) = create_view sc fuel crc vd"
| "run_op sc fuel crc (OpCreateIndex idx) = create_index sc fuel crc idx"
| "run_op sc fuel crc (OpAddColumn t c) = add_column sc fuel crc t c"
| "run_op sc fuel crc (OpRenameTable old new) = rename_table sc fuel crc old new"
| "run_op sc fuel crc (OpRenameColumn t old new) = rename_table_column sc fuel crc t old new"
| "run_op sc fuel crc (OpDropColumn t c) = drop_column sc fuel crc t c"
| "run_op sc fuel crc (OpDropTable n) = forget_result (drop_table sc fuel crc n)"
| "run_op sc fuel crc (OpDropView n) = forget_result (drop_view sc fuel crc n)"
| "run_op sc fuel crc (OpDropIndex n) = forget_result (drop_index sc fuel crc n)"

fun op_ok :: "catalog_op \<Rightarrow> bool" where
  "op_ok (OpCreateTable td) = columns_ok td"
| "op_ok _ = True"

inductive catalog_reach :: "schema_codec \<Rightarrow> nat \<Rightarrow> crc_fun \<Rightarrow> catalog \<Rightarrow> bool" for sc fuel crc where
  loaded: "fold_r (load_cell sc) cells catalog_new = Inr cat \<Longrightarrow>
     (\<forall>cell \<in> set cells. \<forall>td. parse_table sc (lc_payload cell) = Some td \<longrightarrow> columns_ok td) \<Longrightarrow> catalog_reach sc fuel crc cat"
| stepped: "catalog_reach sc fuel crc cat \<Longrightarrow> op_ok op \<Longrightarrow> run_op sc fuel crc op (p, cat) = Some (r, p', cat') \<Longrightarrow>
     catalog_reach sc fuel crc cat'"
| updated: "catalog_reach sc fuel crc cat \<Longrightarrow> (\<And>td. td_name (f td) = td_name td \<and> td_columns (f td) = td_columns td) \<Longrightarrow>
     catalog_reach sc fuel crc (update_table t f cat)"
| analyzed: "catalog_reach sc fuel crc cat \<Longrightarrow> catalog_reach sc fuel crc (set_table_stats t st cat)"

text \<open>What \<open>catalog_load\<close> returns is loaded from cells.\<close>

lemma catalog_load_cells:
  assumes "catalog_load sc fuel crc p = Some (Inr cat, p')"
  shows "\<exists>cells. fold_r (load_cell sc) cells catalog_new = Inr cat"
proof (cases "read_page 1 p")
  case (Pair r p1)
  show ?thesis
  proof (cases r)
    case (Inl e)
    then show ?thesis using assms Pair by (simp add: catalog_load_def bind_o_def)
  next
    case (Inr buf)
    show ?thesis
    proof (cases "read_page_header buf 1")
      case (Inl e)
      then have "cat = catalog_new" using assms Pair Inr
        by (auto simp: catalog_load_def bind_o_def split: option.splits sum.splits prod.splits)
      then have "fold_r (load_cell sc) [] catalog_new = Inr cat" by simp
      then show ?thesis by blast
    next
      case (Inr h)
      then show ?thesis using assms Pair \<open>r = Inr buf\<close>
        by (auto simp: catalog_load_def bind_o_def split: option.splits sum.splits prod.splits)
    qed
  qed
qed

lemma load_cell_ok:
  assumes ok: "catalog_ok cat" and columns: "\<And>td. parse_table sc (lc_payload cell) = Some td \<Longrightarrow> columns_ok td"
    and run: "load_cell sc cell cat = Inr cat'"
  shows "catalog_ok cat'"
proof -
  have reserved: "catalog_ok c" if "reserve_id n cat = Inr c" for n c
    using that ok by (auto simp: reserve_id_def catalog_ok_id split: if_splits)
  consider (table) td c where "parse_table sc (lc_payload cell) = Some td" "reserve_id (lc_row_id cell) cat = Inr c"
      "cat' = c\<lparr>c_tables := (c_tables c)(to_lowercase (td_name td) \<mapsto> td)\<rparr>"
    | (view) vd c where "reserve_id (lc_row_id cell) cat = Inr c"
      "cat' = c\<lparr>c_views := (c_views c)(to_lowercase (vd_name vd) \<mapsto> vd)\<rparr>"
    | (index) idx c where "reserve_id (lc_row_id cell) cat = Inr c"
      "cat' = c\<lparr>c_indexes := (c_indexes c)(to_lowercase (id_name idx) \<mapsto> idx)\<rparr>"
    | (none) "cat' = cat"
    using run by (auto simp: load_cell_def bind_r_def split: option.splits sum.splits)
  then show ?thesis
  proof cases
    case table
    then show ?thesis using ok_put_table [OF reserved refl columns] by simp
  qed (use ok reserved in \<open>auto simp: catalog_ok_def\<close>)
qed

lemma load_cells_ok:
  assumes "fold_r (load_cell sc) cells cat = Inr cat'" "catalog_ok cat"
    "\<forall>cell \<in> set cells. \<forall>td. parse_table sc (lc_payload cell) = Some td \<longrightarrow> columns_ok td"
  shows "catalog_ok cat'"
  using assms
proof (induction cells arbitrary: cat)
  case (Cons cell cells)
  then obtain c where c: "load_cell sc cell cat = Inr c" "fold_r (load_cell sc) cells c = Inr cat'"
    by (cases "load_cell sc cell cat") auto
  then show ?case using Cons load_cell_ok [OF Cons.prems(2) _ c(1)] by simp
qed simp

lemma run_op_keeps: "op_ok op \<Longrightarrow> keeps_cat catalog_ok (run_op sc fuel crc op)"
  by (cases op)
    (auto simp: forget_result_def intro!: keeps_create_table keeps_create_view keeps_create_index keeps_add_column
      keeps_rename_table keeps_rename_column keeps_drop_column keeps_drop keeps_cat_bind keeps_cat_basic)

lemma catalog_reach_ok: "catalog_reach sc fuel crc cat \<Longrightarrow> catalog_ok cat"
proof (induction rule: catalog_reach.induct)
  case (loaded cells cat)
  then show ?case using load_cells_ok [of sc cells catalog_new cat] by (simp add: catalog_ok_def catalog_new_def)
next
  case (stepped cat op p r p' cat')
  then show ?case using keeps_catD [OF run_op_keeps] by blast
next
  case (updated cat f t)
  then show ?case by (auto simp: catalog_ok_def update_table_def columns_ok_def Let_def split: if_splits)
next
  case (analyzed cat t st)
  then show ?case by (simp add: catalog_ok_def set_table_stats_def)
qed

lemma to_lower_again: "to_lower (to_lower c) = to_lower c"
  by (auto simp: to_lower_def Let_def code_of_def of_char_of)

lemma to_lowercase_again: "to_lowercase (to_lowercase s) = to_lowercase s"
  by (simp add: to_lowercase_def to_lower_again)

text \<open>Keys are lower-cased beyond ASCII, the rows of page 1 are compared up to ASCII case: by an accented
  name in the other case an operation finds the definition in memory and not its row.\<close>

lemma accented_names_differ:
  "to_lowercase [CHR 0xC9] = to_lowercase [CHR 0xE9] \<and> \<not> eq_ignore_ascii_case [CHR 0xC9] [CHR 0xE9]"
  by code_simp

lemma row_not_found:
  assumes "\<forall>cell \<in> set cells. \<forall>n. name_of (lc_payload cell) = Some n \<longrightarrow> \<not> eq_ignore_ascii_case n name"
  shows "delete_entry fuel crc name_of name cells = ret_o ()"
  using assms by (induction cells) (auto split: option.splits)


definition sample_table :: table_def where
  "sample_table = table_def_new ''Users'' 2 [\<lparr>cd_name = ''id'', cd_type = DInteger, cd_primary_key = True, cd_not_null = True\<rparr>,
     \<lparr>cd_name = ''Name'', cd_type = DText, cd_primary_key = False, cd_not_null = False\<rparr>]"

text \<open>A codec that knows one table.\<close>

definition sample_codec :: schema_codec where
  "sample_codec = \<lparr>table_json = \<lambda>td. if td = sample_table then Inr [7] else Inl Panic, parse_table = \<lambda>b. if b = [7] then Some sample_table else None,
     view_json = \<lambda>_. Inl Panic, parse_view = \<lambda>_. None, index_json = \<lambda>_. Inl Panic, parse_index = \<lambda>_. None\<rparr>"

definition sample_catalog :: catalog where
  "sample_catalog = catalog_new\<lparr>c_tables := [''users'' \<mapsto> sample_table], c_next_table_id := 10\<rparr>"

lemma users_lower: "to_lowercase ''Users'' = ''users''" "to_lowercase ''USERS'' = ''users''"
  by code_simp+

lemma sample_columns: "columns_ok sample_table" "td_name sample_table = ''Users''"
  by code_simp+

lemma sample_reached: "catalog_reach sample_codec 0 (\<lambda>_. 0) sample_catalog"
  by (rule catalog_reach.loaded [of _ "[\<lparr>lc_row_id = 9, lc_payload = [7], lc_overflow_page = None\<rparr>]"])
    (simp_all add: load_cell_def sample_codec_def reserve_id_def catalog_new_def sample_catalog_def sample_columns users_lower)


end
