(* ===== verification/Sql_Catalog_Load.thy ===== *)
theory Sql_Catalog_Load
  imports Sql_Catalog_Props Btree_Props
begin

text \<open>
  What loading the catalog restores from the tree at page 1, and what a column accepts.
\<close>

section \<open>Entries of the tree\<close>

datatype entry = TableE table_def | ViewE view_def | IndexE index_def

fun entry_json :: "schema_codec \<Rightarrow> entry \<Rightarrow> bytes result" where
  "entry_json sc (TableE td) = table_json sc td"
| "entry_json sc (ViewE vd) = view_json sc vd"
| "entry_json sc (IndexE idx) = index_json sc idx"

text \<open>What \<^verbatim>\<open>serde_json\<close> promises for the derived instances: a text is read back as what was written,
  and not as a struct with a field that the text lacks (\<^verbatim>\<open>columns\<close> of a table, \<^verbatim>\<open>query_sql\<close> of a view).\<close>

definition codec_ok :: "schema_codec \<Rightarrow> bool" where
  "codec_ok sc \<longleftrightarrow>
     (\<forall>td b. table_json sc td = Inr b \<longrightarrow> parse_table sc b = Some td) \<and>
     (\<forall>vd b. view_json sc vd = Inr b \<longrightarrow> parse_table sc b = None \<and> parse_view sc b = Some vd) \<and>
     (\<forall>idx b. index_json sc idx = Inr b \<longrightarrow> parse_table sc b = None \<and> parse_view sc b = None \<and> parse_index sc b = Some idx)"

text \<open>The rows of page 1 hold these entries.\<close>

definition holds_entries :: "schema_codec \<Rightarrow> entry list \<Rightarrow> table_leaf_cell list \<Rightarrow> bool" where
  "holds_entries sc es cells \<longleftrightarrow>
     list_all2 (\<lambda>e cell. entry_json sc e = Inr (lc_payload cell) \<and> lc_row_id cell \<noteq> - 1) es cells"

fun put_entry :: "entry \<Rightarrow> catalog \<Rightarrow> catalog" where
  "put_entry (TableE td) cat = cat\<lparr>c_tables := (c_tables cat)(to_lowercase (td_name td) \<mapsto> td)\<rparr>"
| "put_entry (ViewE vd) cat = cat\<lparr>c_views := (c_views cat)(to_lowercase (vd_name vd) \<mapsto> vd)\<rparr>"
| "put_entry (IndexE idx) cat = cat\<lparr>c_indexes := (c_indexes cat)(to_lowercase (id_name idx) \<mapsto> idx)\<rparr>"

definition tables_of :: "entry list \<Rightarrow> (string \<times> table_def) list" where
  "tables_of es = concat (map (\<lambda>e. case e of TableE td \<Rightarrow> [(to_lowercase (td_name td), td)] | _ \<Rightarrow> []) es)"

definition views_of :: "entry list \<Rightarrow> (string \<times> view_def) list" where
  "views_of es = concat (map (\<lambda>e. case e of ViewE vd \<Rightarrow> [(to_lowercase (vd_name vd), vd)] | _ \<Rightarrow> []) es)"

definition indexes_of :: "entry list \<Rightarrow> (string \<times> index_def) list" where
  "indexes_of es = concat (map (\<lambda>e. case e of IndexE idx \<Rightarrow> [(to_lowercase (id_name idx), idx)] | _ \<Rightarrow> []) es)"

lemma load_cell_entry:
  assumes "codec_ok sc" "entry_json sc e = Inr (lc_payload cell)" "lc_row_id cell \<noteq> - 1"
  shows "load_cell sc cell cat =
    Inr (put_entry e (if c_next_table_id cat \<le> lc_row_id cell then cat\<lparr>c_next_table_id := lc_row_id cell + 1\<rparr> else cat))"
  using assms by (cases e) (auto simp: codec_ok_def load_cell_def reserve_id_def)

lemma put_entry_maps:
  "c_tables (put_entry e cat) = c_tables cat ++ map_of (rev (tables_of [e]))"
  "c_views (put_entry e cat) = c_views cat ++ map_of (rev (views_of [e]))"
  "c_indexes (put_entry e cat) = c_indexes cat ++ map_of (rev (indexes_of [e]))"
  "c_stats (put_entry e cat) = c_stats cat" "c_next_table_id (put_entry e cat) = c_next_table_id cat"
  by (cases e; simp add: tables_of_def views_of_def indexes_of_def)+

lemma entries_Cons:
  "tables_of (e # es) = tables_of [e] @ tables_of es" "views_of (e # es) = views_of [e] @ views_of es"
  "indexes_of (e # es) = indexes_of [e] @ indexes_of es"
  by (simp_all add: tables_of_def views_of_def indexes_of_def)

lemma successor_less:
  assumes "r \<noteq> - 1"
  shows "r < r + (1::u64)"
proof -
  have "unat r \<noteq> unat (- 1 :: u64)" using assms by (simp add: word_unat_eq_iff)
  moreover have "unat r < 18446744073709551616" by (rule less_le_trans [OF unsigned_less]) simp
  moreover have "unat (- 1 :: u64) = 18446744073709551615" by (simp add: unsigned_minus_1_eq_mask mask_eq_exp_minus_1)
  ultimately have "unat r + 1 < 18446744073709551616" by linarith
  then have "unat (r + 1) = unat r + 1" by (simp add: unat_word_ariths)
  then show ?thesis by (simp add: word_less_nat_alt)
qed

text \<open>Loading a row keeps the numbers given out above all numbers seen.\<close>

definition ids_below :: "u64 set \<Rightarrow> catalog \<Rightarrow> bool" where
  "ids_below ids cat \<longleftrightarrow> (\<forall>rid \<in> ids. rid < c_next_table_id cat)"

lemma load_cells_entries:
  assumes "codec_ok sc" "holds_entries sc es cells" "ids_below ids cat"
  shows "\<exists>cat'. fold_r (load_cell sc) cells cat = Inr cat' \<and>
    c_tables cat' = c_tables cat ++ map_of (rev (tables_of es)) \<and> c_views cat' = c_views cat ++ map_of (rev (views_of es)) \<and>
    c_indexes cat' = c_indexes cat ++ map_of (rev (indexes_of es)) \<and> c_stats cat' = c_stats cat \<and>
    ids_below (ids \<union> lc_row_id ` set cells) cat'"
  using assms(2,3)
proof (induction cells arbitrary: es cat ids)
  case Nil
  then show ?case by (simp add: holds_entries_def tables_of_def views_of_def indexes_of_def)
next
  case (Cons cell cells)
  then obtain e es' where es: "es = e # es'" "entry_json sc e = Inr (lc_payload cell)" "lc_row_id cell \<noteq> - 1"
    "holds_entries sc es' cells" by (cases es) (auto simp: holds_entries_def)
  define c where "c = put_entry e (if c_next_table_id cat \<le> lc_row_id cell then cat\<lparr>c_next_table_id := lc_row_id cell + 1\<rparr> else cat)"
  have load: "load_cell sc cell cat = Inr c" unfolding c_def by (rule load_cell_entry [OF assms(1) es(2,3)])
  have n: "c_next_table_id c = (if c_next_table_id cat \<le> lc_row_id cell then lc_row_id cell + 1 else c_next_table_id cat)"
    by (simp add: c_def put_entry_maps)
  have up: "lc_row_id cell < c_next_table_id c" "c_next_table_id cat \<le> c_next_table_id c"
    using successor_less [OF es(3)] order.trans [OF _ less_imp_le] by (auto simp: n not_le)
  have "ids_below (insert (lc_row_id cell) ids) c"
    using Cons.prems(2) up(1) less_le_trans [OF _ up(2)] by (simp add: ids_below_def)
  from Cons.IH [OF es(4) this] obtain cat' where "fold_r (load_cell sc) cells c = Inr cat'"
    "c_tables cat' = c_tables c ++ map_of (rev (tables_of es'))" "c_views cat' = c_views c ++ map_of (rev (views_of es'))"
    "c_indexes cat' = c_indexes c ++ map_of (rev (indexes_of es'))" "c_stats cat' = c_stats c"
    "ids_below (insert (lc_row_id cell) ids \<union> lc_row_id ` set cells) cat'" by blast
  then show ?case
    using load by (intro exI [of _ cat']) (simp add: es(1) entries_Cons [of e es'] c_def put_entry_maps)
qed

section \<open>Loading\<close>

text \<open>A load of a tree at page 1 runs over its rows and changes no page.\<close>

lemma catalog_load_run:
  assumes "writable p" "tree_ok (page_view p) t" "root_of t = 1" "rows_readable p n (entries t)" "tree_height t + n < fuel"
  shows "\<exists>p'. catalog_load sc fuel crc p =
      Some (fold_r (load_cell sc) (map (whole_cell p n) (entries t)) catalog_new, p') \<and>
    writable p' \<and> same_shape p p' \<and> page_view p' = page_view p"
proof -
  obtain page h where page: "page_view p 1 = Some page" "read_page_header page 1 = Inr h"
    using assms(2,3) by (cases t) (auto elim!: leaf_pageE interior_pageE elim: leaf_header)
  obtain p1 where p1: "read_page 1 p = (Inr page, p1)" "writable p1" "same_shape p p1" "page_view p1 = page_view p"
    using read_page_view [OF assms(1) page(1)] .
  have sz: "page_size p1 = page_size p" using p1(3) by (simp add: same_shape_def)
  have rows: "whole_cell p1 n = whole_cell p n"
    unfolding whole_cell_def row_of_def p1(4) sz ..
  obtain p2 where p2: "btree_scan fuel (root_of t) p1 = Some (Inr (map (whole_cell p1 n) (entries t)), p2)"
    "writable p2" "same_shape p1 p2" "page_view p2 = page_view p1"
    using btree_scan_view [OF p1(2), of t n fuel] assms(2,4,5) p1(4) rows_readable_cong(1) [OF p1(4) sz] by auto
  have "catalog_load sc fuel crc p = Some (fold_r (load_cell sc) (map (whole_cell p n) (entries t)) catalog_new, p2)"
    using p1(1) page(2) p2(1) assms(3) rows by (simp add: catalog_load_def bind_o_run bind_o_Some)
  then show ?thesis using p1(3,4) p2(2-4) same_shape_trans by (intro exI [of _ p2]) auto
qed

text \<open>C21: Loading a database whose page 1 is the root of a tree restores exactly the tables, views and indexes
  whose definitions its rows hold, in the order of the rows, changes no page, and the next number it gives out is
  above the number of every row.\<close>

theorem catalog_load_restores:
  assumes "writable p" "tree_ok (page_view p) t" "root_of t = 1" "rows_readable p n (entries t)" "tree_height t + n < fuel"
    "codec_ok sc" "holds_entries sc es (map (whole_cell p n) (entries t))"
  shows "\<exists>cat p'. catalog_load sc fuel crc p = Some (Inr cat, p') \<and> page_view p' = page_view p \<and>
    c_tables cat = map_of (rev (tables_of es)) \<and> c_views cat = map_of (rev (views_of es)) \<and>
    c_indexes cat = map_of (rev (indexes_of es)) \<and> (\<forall>cell \<in> set (entries t). lc_row_id cell < c_next_table_id cat)"
proof -
  obtain cat where cat: "fold_r (load_cell sc) (map (whole_cell p n) (entries t)) catalog_new = Inr cat"
    "c_tables cat = map_of (rev (tables_of es))" "c_views cat = map_of (rev (views_of es))"
    "c_indexes cat = map_of (rev (indexes_of es))" "ids_below (lc_row_id ` set (map (whole_cell p n) (entries t))) cat"
    using load_cells_entries [OF assms(6,7), of "{}" catalog_new] by (auto simp: ids_below_def catalog_new_def)
  have "\<forall>cell \<in> set (entries t). lc_row_id cell < c_next_table_id cat"
    using cat(5) by (simp add: ids_below_def whole_cell_def)
  moreover obtain p' where "catalog_load sc fuel crc p = Some (Inr cat, p')" "page_view p' = page_view p"
    using catalog_load_run [OF assms(1-5), of sc crc] cat(1) by auto
  ultimately show ?thesis using cat by (intro exI [of _ cat] exI [of _ p']) simp
qed

text \<open>A database whose page 1 holds one row, the definition of \<open>sample_table\<close>.\<close>

definition schema_cell :: table_leaf_cell where
  "schema_cell = \<lparr>lc_row_id = 9, lc_payload = [7], lc_overflow_page = None\<rparr>"

definition schema_header :: page_header where
  "schema_header = \<lparr>ph_page_type = TableLeaf, ph_flags = 0, ph_num_cells = 1, ph_cell_content_offset = 132,
     ph_first_freeblock = 0, ph_right_child = None\<rparr>"

definition schema_page :: bytes where
  "schema_page = replicate 100 0 @ header_to_bytes schema_header @ enc_ptrs [132] @ replicate 22 0 @
     (leaf_cell_to_bytes schema_cell @ replicate 40 1)"

definition schema_pager :: pager where
  "schema_pager = sample_pager
     \<lparr>pg_header := (pg_header sample_pager)\<lparr>dh_page_size := 179, dh_total_pages := 1\<rparr>,
      pg_pages := [1 \<mapsto> schema_page],
      pg_tx := Some \<lparr>sp_header = pg_header sample_pager, sp_undo = (\<lambda>_. None), sp_dirty = {1},
        sp_total_pages = 1, sp_wal_frames = 0\<rparr>\<rparr>"

lemma schema_pager_view: "page_view schema_pager 1 = Some schema_page"
  by (simp add: page_view_def schema_pager_def total_pages_def)

lemma schema_pager_writable: "writable schema_pager"
proof -
  have "pages_match schema_pager"
    by (auto simp: pages_match_def evictable_def schema_pager_def split: if_splits)
  then show ?thesis
    by (simp add: writable_def ensure_io_ready_def is_in_transaction_def read_only_remote_def schema_pager_def
        sample_pager_def empty_pager_def wal_open_in_memory_def wal_empty_def requires_reopen_def)
qed

lemma schema_leaf: "leaf_page (page_view schema_pager) 1 [schema_cell]"
proof -
  have cell: "length (leaf_cell_to_bytes schema_cell) = 7" by code_simp
  have len: "length schema_page = 179"
    unfolding schema_page_def length_append cell by (simp add: schema_header_def header_size_def is_interior_def)
  have valid: "valid_leaf_cell schema_cell" by (simp add: schema_cell_def valid_leaf_cell_def)
  have "leaf_repr 1 schema_page (replicate 100 0) schema_header [132] (replicate 22 0)
      (leaf_cell_to_bytes schema_cell @ replicate 40 1) [schema_cell]"
    unfolding leaf_repr_def cells_repr_def page_repr_def len
    by (intro conjI)
      (simp_all add: schema_page_def schema_header_def cell cell_at_def leaf_cell_roundtrip_rest [OF valid]
        PAGE_RESERVED_TRAILER_def DATABASE_HEADER_SIZE_def page_header_offset_def wf_header_def is_interior_def,
       simp_all add: schema_cell_def sorted_cells_def valid_leaf_cell_def)
  from leaf_repr_wf [OF this] show ?thesis by (simp add: leaf_page_def schema_pager_view)
qed

lemma sample_codec_ok: "codec_ok sample_codec"
  by (auto simp: codec_ok_def sample_codec_def)

theorem catalog_load_restores_witness:
  "\<exists>cat p'. catalog_load sample_codec 3 (\<lambda>_. 0) schema_pager = Some (Inr cat, p') \<and> page_view p' = page_view schema_pager \<and>
    c_tables cat = map_of (rev (tables_of [TableE sample_table])) \<and> c_views cat = map_of (rev (views_of [TableE sample_table])) \<and>
    c_indexes cat = map_of (rev (indexes_of [TableE sample_table])) \<and>
    (\<forall>cell \<in> set (entries (BLeaf 1 [schema_cell])). lc_row_id cell < c_next_table_id cat)"
proof (rule catalog_load_restores [OF schema_pager_writable])
  show "rows_readable schema_pager 0 (entries (BLeaf 1 [schema_cell]))"
    by (simp add: rows_readable_def row_bytes_def schema_cell_def)
  show "holds_entries sample_codec [TableE sample_table] (map (whole_cell schema_pager 0) (entries (BLeaf 1 [schema_cell])))"
    by (simp add: holds_entries_def whole_cell_def row_of_def row_bytes_def schema_cell_def sample_codec_def)
qed (simp_all add: schema_leaf sample_codec_ok)

end
