(* ===== verification/Sql_Insert_Props.thy ===== *)
theory Sql_Insert_Props
  imports Sql_Dml Sql_Catalog_Load
begin

text \<open>
  What an insertion into a table without indexes, versions and vector column does to the tree of its rows: with
  a counter above all row numbers it adds a row, after a reload of the catalog it overwrites one.
\<close>

section \<open>A plain insertion\<close>

text \<open>A table whose rows live in its tree only.\<close>

definition plain_table :: "'v dml_env \<Rightarrow> 'v executor \<Rightarrow> string \<Rightarrow> table_def \<Rightarrow> bool" where
  "plain_table env ex table td \<longleftrightarrow>
     get_table (ex_catalog ex) table = Some td \<and> \<not> is_temporal ex td \<and> first_vector_column td = None \<and>
     (\<forall>cat. c_indexes cat = c_indexes (ex_catalog ex) \<longrightarrow>
        (\<forall>idx \<in> set (de_indexes env cat). \<not> eq_ignore_ascii_case (id_table idx) table))"

text \<open>The row number, the values and the table after the choice, up to the constraints.\<close>

definition insert_plan ::
    "'v dml_env \<Rightarrow> table_def \<Rightarrow> string list option \<Rightarrow> sql_value list \<Rightarrow> (u64 \<times> bool \<times> sql_value list \<times> table_def) result" where
  "insert_plan env td columns vals =
     bind_r (align_values td columns vals) (\<lambda>aligned.
     bind_r (choose_row_id td aligned) (\<lambda>(rid, key_may_exist, aligned, td').
     bind_r (checked_row (de_float env) (td_columns td) aligned) (\<lambda>vs. Inr (rid, key_may_exist, vs, td'))))"

lemma no_indexes:
  assumes "\<forall>idx \<in> set (de_indexes env (ex_catalog ex)). \<not> eq_ignore_ascii_case (id_table idx) table"
  shows "for_indexes env table f (p, ex) = Some (Inr (), p, ex)"
proof -
  have "filter (\<lambda>idx. eq_ignore_ascii_case (id_table idx) table) (de_indexes env (ex_catalog ex)) = []"
    using assms by (simp add: filter_empty_conv)
  then show ?thesis by (simp add: for_indexes_def on_pager_def)
qed

definition with_table :: "string \<Rightarrow> table_def \<Rightarrow> 'v executor \<Rightarrow> 'v executor" where
  "with_table table td ex = ex\<lparr>ex_catalog := update_table table (\<lambda>_. td) (ex_catalog ex)\<rparr>"

lemma with_table_indexes: "c_indexes (ex_catalog (with_table table td ex)) = c_indexes (ex_catalog ex)"
  by (simp add: with_table_def update_table_def Let_def)

lemma with_table_get:
  "get_table (ex_catalog ex) table \<noteq> None \<Longrightarrow> get_table (ex_catalog (with_table table td ex)) table = Some td"
  by (auto simp: with_table_def update_table_def get_table_def Let_def split: option.splits if_splits)

lemma insert_plain_run:
  assumes "plain_table env ex table td" "insert_plan env td columns vals = Inr (rid, False, vs, td')"
    "btree_insert (de_fuel env) (de_crc env) (td_root_page td) rid (encode_values vs) p = Some (Inr (), p')"
  shows "execute_insert env table columns vals conflict None (p, ex) = Some (Inr (1, []), p', with_table table td' ex)"
proof -
  obtain aligned al where plan: "align_values td columns vals = Inr al"
    "choose_row_id td al = Inr (rid, False, aligned, td')" "checked_row (de_float env) (td_columns td) aligned = Inr vs"
    using assms(2) by (auto simp: insert_plan_def bind_r_eq_Inr)
  have tab: "get_table (ex_catalog ex) table = Some td" "\<not> is_temporal ex td" "first_vector_column td = None"
    using assms(1) by (simp_all add: plain_table_def)
  have idx: "index_row env table r rid (q, with_table table td' ex) = Some (Inr (), q, with_table table td' ex)" for r q
    unfolding index_row_def using assms(1) with_table_indexes [of table td' ex]
    by (intro no_indexes) (simp add: plain_table_def)
  have ch: "change_table table (\<lambda>_. td') (p, ex) = Some (Inr (), p, with_table table td' ex)"
    by (simp add: change_table_def put_ex_def with_table_def)
  show ?thesis
    unfolding execute_insert_def insert_new_row_def Let_def
    by (simp add: tab plan ch lift_o_def store_row_def on_pager_def assms(3) row_vector_def idx
        returned_rows_def bind_o_Some)
qed

lemma choose_fresh:
  "choose_row_id td al = Inr (rid, False, vs, td') \<Longrightarrow>
   rid = td_next_row_id td \<and> rid \<noteq> - 1 \<and> td' = td\<lparr>td_next_row_id := rid + 1\<rparr>"
  by (auto simp: choose_row_id_def next_row_id_def bind_r_eq_Inr split: option.splits sql_value.splits if_splits)

lemma plan_fresh:
  "insert_plan env td columns vals = Inr (rid, False, vs, td') \<Longrightarrow>
   rid = td_next_row_id td \<and> rid \<noteq> - 1 \<and> td' = td\<lparr>td_next_row_id := rid + 1\<rparr>"
  by (auto simp: insert_plan_def bind_r_eq_Inr dest: choose_fresh)

text \<open>The free bytes of the leaf for a row number, and what a row takes of them with its pointer.\<close>

definition leaf_room :: "pager \<Rightarrow> btree \<Rightarrow> u64 \<Rightarrow> nat" where
  "leaf_room p t rid =
     (case page_view p (fst (leaf_for rid t)) of None \<Rightarrow> 0 | Some page \<Rightarrow> leaf_free (fst (leaf_for rid t)) page)"

definition row_cell :: "u64 \<Rightarrow> bytes \<Rightarrow> table_leaf_cell" where
  "row_cell rid payload = \<lparr>lc_row_id = rid, lc_payload = payload, lc_overflow_page = None\<rparr>"

definition row_size :: "u64 \<Rightarrow> bytes \<Rightarrow> nat" where
  "row_size rid payload = length (leaf_cell_to_bytes (row_cell rid payload)) + 2"

lemma leaf_for_upd: "fst (leaf_for key (upd_leaf key f t)) = fst (leaf_for key t)"
  "fst (leaf_for_kids key (upd_kids key f ks)) = fst (leaf_for_kids key ks)"
  by (induction key f t and key f ks rule: upd_leaf_upd_kids.induct) auto

lemma row_size_ge: "2 \<le> row_size rid payload"
  by (simp add: row_size_def)

lemma insert_plain_tree:
  assumes "plain_table env ex table td" "insert_plan env td columns vals = Inr (rid, False, vs, td')"
    "writable p" "tree_stored p t" "root_of t = td_root_page td" "tree_height t \<le> de_fuel env"
    "length (encode_values vs) \<le> MAX_INLINE_PAYLOAD" "row_size rid (encode_values vs) \<le> leaf_room p t rid"
    "\<forall>d. lookup t rid = Some d \<longrightarrow> lc_overflow_page d = None"
  shows "\<exists>p' t'. execute_insert env table columns vals conflict None (p, ex) = Some (Inr (1, []), p', with_table table td' ex) \<and>
    writable p' \<and> same_shape p p' \<and> tree_stored p' t' \<and> root_of t' = root_of t \<and>
    entries t' = upsert_cell (row_cell rid (encode_values vs)) (entries t) \<and> tree_height t' = tree_height t \<and>
    tree_pages t' = tree_pages t \<and> leaf_room p t rid \<le> leaf_room p' t' rid + row_size rid (encode_values vs) \<and>
    (\<forall>q. q \<notin> set (tree_pages t) \<longrightarrow> page_view p' q = page_view p q)"
proof -
  let ?c = "row_cell rid (encode_values vs)" and ?pid = "fst (leaf_for rid t)"
  obtain cs where leaf: "leaf_for rid t = (?pid, cs)" by (cases "leaf_for rid t") simp
  obtain page where page: "page_view p ?pid = Some page"
    using assms(8) row_size_ge [of rid "encode_values vs"]
    by (cases "page_view p ?pid") (simp_all add: leaf_room_def)
  have size: "length (leaf_cell_to_bytes ?c) + 2 \<le> leaf_free ?pid page" using assms(8) page by (simp add: leaf_room_def row_size_def)
  obtain p' page' where i: "btree_insert (de_fuel env) (de_crc env) (root_of t) rid (encode_values vs) p = Some (Inr (), p')"
    "writable p'" "same_shape p p'" "tree_stored p' (upd_leaf rid (upsert_cell ?c) t)"
    "entries (upd_leaf rid (upsert_cell ?c) t) = upsert_cell ?c (entries t)" "page_view p' = (page_view p)(?pid \<mapsto> page')"
    "leaf_free ?pid page \<le> leaf_free ?pid page' + length (leaf_cell_to_bytes ?c) + 2"
    using btree_insert_run [OF assms(3,4,6) row_cell_def [of rid "encode_values vs"] assms(7) leaf page size assms(9), of "de_crc env"]
    by blast
  have pid: "?pid \<in> set (tree_pages t)" using leaf_for_page(1) [of rid t] by simp
  have "leaf_room p t rid \<le> leaf_room p' (upd_leaf rid (upsert_cell ?c) t) rid + row_size rid (encode_values vs)"
    using i(6,7) page by (simp add: leaf_room_def row_size_def leaf_for_upd)
  moreover have "\<forall>q. q \<notin> set (tree_pages t) \<longrightarrow> page_view p' q = page_view p q" using i(6) pid by auto
  moreover have "execute_insert env table columns vals conflict None (p, ex) = Some (Inr (1, []), p', with_table table td' ex)"
    by (rule insert_plain_run [OF assms(1,2)]) (use i(1) assms(5) in simp)
  ultimately show ?thesis
    using i(2-5) upd_shape by (intro exI [of _ p'] exI [of _ "upd_leaf rid (upsert_cell ?c) t"]) simp
qed

lemma upsert_above: "(\<And>x. x \<in> set cs \<Longrightarrow> lc_row_id x < lc_row_id c) \<Longrightarrow> upsert_cell c cs = cs @ [c]"
  by (simp add: upsert_cell_def order.strict_implies_order)

section \<open>After a reload\<close>

text \<open>The second row with a number takes the place of the first.\<close>

lemma upsert_again:
  assumes "lc_row_id c = lc_row_id d"
  shows "upsert_cell d (upsert_cell c cs) = upsert_cell d cs"
proof -
  let ?k = "lc_row_id d"
  have "takeWhile (\<lambda>x. lc_row_id x < ?k) (takeWhile (\<lambda>x. lc_row_id x < ?k) cs @ c # dropWhile (\<lambda>x. lc_row_id x \<le> ?k) cs) =
      takeWhile (\<lambda>x. lc_row_id x < ?k) cs"
    using assms by (subst takeWhile_append2) (auto dest: set_takeWhileD)
  moreover have "dropWhile (\<lambda>x. lc_row_id x \<le> ?k) (takeWhile (\<lambda>x. lc_row_id x < ?k) cs @ c # dropWhile (\<lambda>x. lc_row_id x \<le> ?k) cs) =
      dropWhile (\<lambda>x. lc_row_id x \<le> ?k) cs"
    using assms by (subst dropWhile_append2) (auto dest: set_takeWhileD simp: less_imp_le dropWhile_idem)
  ultimately show ?thesis using assms by (simp add: upsert_cell_def)
qed

text \<open>The rows of page 1 are whole in their leaves.\<close>

definition schema_tree :: "'v dml_env \<Rightarrow> pager \<Rightarrow> btree \<Rightarrow> bool" where
  "schema_tree env p ts \<longleftrightarrow>
     tree_ok (page_view p) ts \<and> root_of ts = 1 \<and> tree_height ts < de_fuel env \<and>
     (\<forall>c \<in> set (entries ts). lc_overflow_page c = None)"

lemma schema_rows:
  assumes "schema_tree env p ts"
  shows "rows_readable p 0 (entries ts)" "map (whole_cell p 0) (entries ts) = entries ts"
proof -
  have row: "row_bytes (page_view p) (page_size p) 0 c = Some (lc_payload c)" if "c \<in> set (entries ts)" for c
    using that assms by (simp add: schema_tree_def row_bytes_def)
  then show "rows_readable p 0 (entries ts)" by (simp add: rows_readable_def list_all_iff)
  have "whole_cell p 0 c = c" if "c \<in> set (entries ts)" for c
  proof -
    have "lc_overflow_page c = None" using assms that by (simp add: schema_tree_def)
    then show ?thesis using row [OF that] by (simp add: whole_cell_def row_of_def)
  qed
  then show "map (whole_cell p 0) (entries ts) = entries ts" by (rule map_idI)
qed

lemma schema_load:
  assumes "schema_tree env p ts" "writable p"
  shows "\<exists>p'. catalog_load (de_schema env) (de_fuel env) (de_crc env) p =
      Some (fold_r (load_cell (de_schema env)) (entries ts) catalog_new, p') \<and>
    writable p' \<and> same_shape p p' \<and> page_view p' = page_view p"
  using catalog_load_run [OF assms(2), of ts 0 "de_fuel env" "de_schema env" "de_crc env"] assms(1) schema_rows [OF assms(1)]
  by (simp add: schema_tree_def)

lemma schema_tree_cong:
  "schema_tree env p ts \<Longrightarrow> (\<And>q. q \<in> set (tree_pages ts) \<Longrightarrow> page_view p' q = page_view p q) \<Longrightarrow> schema_tree env p' ts"
  using tree_ok_cong(1) [of ts "page_view p'" "page_view p"] by (simp add: schema_tree_def)

lemma stored_cong:
  "tree_stored p t \<Longrightarrow> page_view p' = page_view p \<Longrightarrow> same_shape p p' \<Longrightarrow> tree_stored p' t"
  unfolding tree_stored_def same_shape_def by presburger

section \<open>A sample database\<close>

text \<open>Page 1 holds the definition of \<open>sample_table\<close>, page 2 is the empty leaf of its rows.\<close>

definition empty_header :: page_header where
  "empty_header = \<lparr>ph_page_type = TableLeaf, ph_flags = 0, ph_num_cells = 0, ph_cell_content_offset = 139,
     ph_first_freeblock = 0, ph_right_child = None\<rparr>"

definition empty_leaf :: bytes where
  "empty_leaf = [] @ header_to_bytes empty_header @ enc_ptrs [] @ replicate 131 0 @ replicate 40 0"

definition users_pager :: pager where
  "users_pager = schema_pager
     \<lparr>pg_header := (pg_header schema_pager)\<lparr>dh_total_pages := 2\<rparr>,
      pg_pages := [1 \<mapsto> schema_page, 2 \<mapsto> empty_leaf],
      pg_tx := Some \<lparr>sp_header = pg_header sample_pager, sp_undo = (\<lambda>_. None), sp_dirty = {1, 2},
        sp_total_pages = 1, sp_wal_frames = 0\<rparr>\<rparr>"

definition sample_env :: "unit dml_env" where
  "sample_env = \<lparr>de_fuel = 3, de_crc = \<lambda>_. 0, de_float = no_floats, de_schema = sample_codec, de_json_path = \<lambda>_ _. None,
     de_other = \<lambda>_ _. None, de_query = \<lambda>_ _ _. Inr [], de_project = \<lambda>r _. Inr r, de_hash = \<lambda>_. 1, de_indexes = \<lambda>_. [],
     de_bucket_json = \<lambda>_. Inl Panic, de_parse_bucket = \<lambda>_. None, de_record_json = \<lambda>_. Inl Panic, de_parse_record = \<lambda>_. None,
     de_now = of_nat, de_vec_new = \<lambda>_. (), de_vec_insert = \<lambda>_ _ v. (Inr (), v), de_vec_remove = \<lambda>_ v. v\<rparr>"

definition sample_ex :: "unit executor" where
  "sample_ex = \<lparr>ex_catalog = sample_catalog, ex_vectors = Map.empty, ex_last_ts = 0, ex_versioning = False, ex_ticks = 0\<rparr>"

lemma users_view:
  "page_view users_pager 1 = Some schema_page" "page_view users_pager 2 = Some empty_leaf" "page_size users_pager = 179"
  by (simp_all add: page_view_def users_pager_def schema_pager_def total_pages_def page_size_def)

lemma users_writable: "writable users_pager"
proof -
  have "pages_match users_pager"
    by (auto simp: pages_match_def evictable_def users_pager_def schema_pager_def split: if_splits)
  then show ?thesis
    by (simp add: writable_def ensure_io_ready_def is_in_transaction_def read_only_remote_def users_pager_def schema_pager_def
        sample_pager_def empty_pager_def wal_open_in_memory_def wal_empty_def requires_reopen_def)
qed

lemma empty_leaf_length: "length empty_leaf = 179"
  unfolding empty_leaf_def length_append by (simp add: empty_header_def header_size_def is_interior_def)

lemma empty_leaf_repr: "leaf_repr 2 empty_leaf [] empty_header [] (replicate 131 0) (replicate 40 0) []"
  unfolding leaf_repr_def cells_repr_def page_repr_def empty_leaf_length
  by (simp add: empty_leaf_def empty_header_def PAGE_RESERVED_TRAILER_def page_header_offset_def wf_header_def
      is_interior_def sorted_cells_def)

lemma users_stored: "tree_stored users_pager (BLeaf 2 [])"
  using leaf_repr_wf [OF empty_leaf_repr] by (simp add: tree_stored_def leaf_page_def users_view empty_leaf_length)

lemma users_room: "leaf_room users_pager (BLeaf 2 []) 1 = 131"
  using leaf_free_repr [OF empty_leaf_repr] by (simp add: leaf_room_def users_view)

lemma users_schema: "schema_tree sample_env users_pager (BLeaf 1 [schema_cell])"
  using schema_leaf by (simp add: schema_tree_def leaf_page_def users_view schema_pager_view sample_env_def schema_cell_def)

lemma sample_loaded: "fold_r (load_cell (de_schema sample_env)) [schema_cell] catalog_new = Inr (ex_catalog sample_ex)"
  by (simp add: load_cell_def sample_codec_def sample_env_def reserve_id_def catalog_new_def sample_catalog_def sample_ex_def
      sample_columns users_lower schema_cell_def)

lemma users_plain: "plain_table sample_env sample_ex ''Users'' sample_table"
proof -
  have "first_vector_column sample_table = None" "td_system_versioning sample_table = False" by code_simp+
  then show ?thesis
    by (simp add: plain_table_def sample_ex_def sample_catalog_def get_table_def users_lower is_temporal_def sample_env_def)
qed

definition users_row :: "string \<Rightarrow> sql_value list" where "users_row name = [IntegerV 1, TextV name]"

lemma users_plan:
  "insert_plan sample_env sample_table None [NullV, TextV name] =
     Inr (1, False, users_row name, sample_table\<lparr>td_next_row_id := 2\<rparr>)"
  by (simp add: insert_plan_def align_values_def choose_row_id_def primary_key_index_def position_def next_row_id_def
      sample_table_def table_def_new_def checked_row_def coerce_column_def coerce_value_def null_check_def is_null_def users_row_def)

lemma users_sizes:
  "row_size 1 (encode_values (users_row ''ann'')) \<le> 131"
  "row_size 1 (encode_values (users_row ''ann'')) + row_size 1 (encode_values (users_row ''bob'')) \<le> 131"
  "length (encode_values (users_row ''ann'')) \<le> 1024" "length (encode_values (users_row ''bob'')) \<le> 1024"
  by code_simp+

text \<open>The row number is chosen before the values are converted: a key given as text becomes that
  integer in the row, and the row gets another number, without a look for an existing key.\<close>

lemma text_key_unchecked:
  "insert_plan sample_env sample_table None [TextV ''5'', TextV ''eve''] =
     Inr (1, False, [IntegerV 5, TextV ''eve''], sample_table\<lparr>td_next_row_id := 2\<rparr>)"
  by (simp add: insert_plan_def align_values_def choose_row_id_def primary_key_index_def position_def next_row_id_def
      sample_table_def table_def_new_def checked_row_def coerce_column_def coerce_value_def null_check_def is_null_def
      parse_signed_def parse_i64_def is_ascii_digit_def code_of_def read_digits_def)

text \<open>The key -1 is the largest row number; the counter cannot be raised above it.\<close>

lemma key_minus_one_panics: "insert_plan sample_env sample_table None [IntegerV (- 1), NullV] = Inl Panic"
  by (simp add: insert_plan_def align_values_def choose_row_id_def primary_key_index_def position_def
      sample_table_def table_def_new_def)

section \<open>Properties\<close>



text \<open>C17: An insertion does not store the counter of its table. A reload of the catalog - at opening, and
  after every statement that fails - brings back the counter of the stored definition, and the next insertion
  replaces the row of the first: both report one inserted row, the table holds the second only.\<close>

theorem insert_after_reload_overwrites:
  assumes tab: "plain_table env ex table td"
    and plans: "insert_plan env td columns vals1 = Inr (rid, False, vs1, td1)"
      "insert_plan env td columns vals2 = Inr (rid, False, vs2, td2)"
    and schema: "schema_tree env p ts" "fold_r (load_cell (de_schema env)) (entries ts) catalog_new = Inr (ex_catalog ex)"
    and rows: "writable p" "tree_stored p t" "root_of t = td_root_page td" "tree_height t \<le> de_fuel env"
      "set (tree_pages t) \<inter> set (tree_pages ts) = {}" "lookup t rid = None"
    and fit: "length (encode_values vs1) \<le> MAX_INLINE_PAYLOAD" "length (encode_values vs2) \<le> MAX_INLINE_PAYLOAD"
      "row_size rid (encode_values vs1) + row_size rid (encode_values vs2) \<le> leaf_room p t rid"
  shows "\<exists>p1 ex1 p2 p3 ex3 t3.
    execute_insert env table columns vals1 AbortC None (p, ex) = Some (Inr (1, []), p1, ex1) \<and>
    catalog_load (de_schema env) (de_fuel env) (de_crc env) p1 = Some (Inr (ex_catalog ex), p2) \<and>
    execute_insert env table columns vals2 AbortC None (p2, ex1\<lparr>ex_catalog := ex_catalog ex\<rparr>) = Some (Inr (1, []), p3, ex3) \<and>
    tree_stored p3 t3 \<and> root_of t3 = td_root_page td \<and>
    entries t3 = upsert_cell (row_cell rid (encode_values vs2)) (entries t)"
proof -
  let ?c1 = "row_cell rid (encode_values vs1)" and ?c2 = "row_cell rid (encode_values vs2)"
  obtain p1 t1 where i: "execute_insert env table columns vals1 AbortC None (p, ex) = Some (Inr (1, []), p1, with_table table td1 ex)"
    "writable p1" "same_shape p p1" "tree_stored p1 t1" "root_of t1 = root_of t" "entries t1 = upsert_cell ?c1 (entries t)"
    "tree_height t1 = tree_height t" "leaf_room p t rid \<le> leaf_room p1 t1 rid + row_size rid (encode_values vs1)"
    "\<forall>q. q \<notin> set (tree_pages t) \<longrightarrow> page_view p1 q = page_view p q"
    using insert_plain_tree [OF tab plans(1) rows(1-4) fit(1), of AbortC] fit(3) rows(6) by auto
  have schema1: "schema_tree env p1 ts" by (rule schema_tree_cong [OF schema(1)]) (use i(9) rows(5) in blast)
  obtain p2 where load: "catalog_load (de_schema env) (de_fuel env) (de_crc env) p1 = Some (Inr (ex_catalog ex), p2)"
    "writable p2" "same_shape p1 p2" "page_view p2 = page_view p1"
    using schema_load [OF schema1 i(2)] schema(2) by auto
  have reset: "(with_table table td1 ex)\<lparr>ex_catalog := ex_catalog ex\<rparr> = ex" by (simp add: with_table_def)
  have absent: "\<forall>x \<in> set (entries t). lc_row_id x \<noteq> rid" using rows(6) by (simp add: lookup_def find_None_iff)
  have "find (\<lambda>c. lc_row_id c = rid) (takeWhile (\<lambda>x. lc_row_id x < rid) (entries t)) = None"
    using absent by (intro find_keyless) (auto dest: set_takeWhileD)
  then have "lookup t1 rid = Some ?c1" by (simp add: lookup_def i(6) upsert_cell_def find_append row_cell_def)
  then have old: "\<forall>d. lookup t1 rid = Some d \<longrightarrow> lc_overflow_page d = None" by (simp add: row_cell_def)
  have room: "row_size rid (encode_values vs2) \<le> leaf_room p2 t1 rid"
    using i(8) fit(3) load(4) by (simp add: leaf_room_def)
  obtain p3 t3 where j: "execute_insert env table columns vals2 AbortC None (p2, ex) = Some (Inr (1, []), p3, with_table table td2 ex)"
    "tree_stored p3 t3" "root_of t3 = root_of t1" "entries t3 = upsert_cell ?c2 (entries t1)"
    using insert_plain_tree [OF tab plans(2) load(2) stored_cong [OF i(4) load(4,3)] _ _ fit(2) room old, of AbortC] i(5,7) rows(3,4)
    by auto
  have "entries t3 = upsert_cell ?c2 (entries t)"
    unfolding j(4) i(6) by (rule upsert_again) (simp add: row_cell_def)
  then show ?thesis using i(1) load(1) j(1-3) i(5) rows(3) reset
    by (intro exI [of _ p1] exI [of _ "with_table table td1 ex"] exI [of _ p2] exI [of _ p3] exI [of _ "with_table table td2 ex"] exI [of _ t3]) simp
qed

theorem insert_after_reload_overwrites_witness:
  "\<exists>p1 ex1 p2 p3 ex3 t3.
    execute_insert sample_env ''Users'' None [NullV, TextV ''ann''] AbortC None (users_pager, sample_ex) = Some (Inr (1, []), p1, ex1) \<and>
    catalog_load sample_codec 3 (\<lambda>_. 0) p1 = Some (Inr sample_catalog, p2) \<and>
    execute_insert sample_env ''Users'' None [NullV, TextV ''bob''] AbortC None (p2, ex1\<lparr>ex_catalog := sample_catalog\<rparr>) =
      Some (Inr (1, []), p3, ex3) \<and>
    tree_stored p3 t3 \<and> root_of t3 = 2 \<and> entries t3 = [row_cell 1 (encode_values (users_row ''bob''))]"
proof -
  have root: "td_root_page sample_table = 2" by code_simp
  have env: "de_schema sample_env = sample_codec" "de_fuel sample_env = 3" "de_crc sample_env = (\<lambda>_. 0)"
    "ex_catalog sample_ex = sample_catalog"
    by (simp_all add: sample_env_def sample_ex_def)
  have "upsert_cell (row_cell 1 b) [] = [row_cell 1 b]" for b by (simp add: upsert_cell_def)
  then show ?thesis
    using insert_after_reload_overwrites [OF users_plain users_plan users_plan users_schema _ users_writable users_stored,
        of "''ann''" "''bob''"] sample_loaded
    by (simp add: env root users_room users_sizes MAX_INLINE_PAYLOAD_def lookup_def)
qed

end
