(* ===== verification/Sql_Execute.thy ===== *)
theory Sql_Execute
  imports Sql_Dml
begin

text \<open>
  The statements that change the database (\<^verbatim>\<open>src/src/sql/executor.rs\<close>): their dispatch, the graph rows they keep,
  and \<^verbatim>\<open>atomic_statement\<close>, which runs each of them in a transaction or under a savepoint and reloads the executor
  after an error. The state is the pager, the executor and its graph; transaction control, queries, VACUUM and
  ANALYZE are not mutations and are left out.
\<close>

section \<open>The state\<close>

type_synonym 'v session = "'v executor \<times> graph"
type_synonym ('v, 'a) stmt_step = "(pager \<times> 'v session, 'a) om"

text \<open>The JSON texts of the graph and of vector snapshots, and the order of the hash maps, beside \<open>dml_env\<close>.\<close>

record 'v stmt_env =
  se_rows :: "'v dml_env"
  se_node_json :: "graph_node \<Rightarrow> bytes result"
  se_parse_node :: "bytes \<Rightarrow> graph_node option"
  se_edge_json :: "graph_edge \<Rightarrow> bytes result"
  se_parse_edge :: "bytes \<Rightarrow> graph_edge option"
  se_adj_json :: "u64 list \<times> u64 list \<Rightarrow> bytes result"
  se_parse_adj :: "bytes \<Rightarrow> (u64 list \<times> u64 list) option"
  se_parse_snapshot :: "bytes \<Rightarrow> (string \<times> 'v \<times> u32 option) option"
  se_tables :: "catalog \<Rightarrow> table_def list"
  se_buckets :: "(u64 \<rightharpoonup> index_bucket) \<Rightarrow> (u64 \<times> index_bucket) list"

abbreviation se_fuel :: "'v stmt_env \<Rightarrow> nat" where "se_fuel env \<equiv> de_fuel (se_rows env)"
abbreviation se_crc :: "'v stmt_env \<Rightarrow> crc_fun" where "se_crc env \<equiv> de_crc (se_rows env)"
abbreviation se_schema :: "'v stmt_env \<Rightarrow> schema_codec" where "se_schema env \<equiv> de_schema (se_rows env)"

definition on_executor :: "('v, 'a) ex_step \<Rightarrow> ('v, 'a) stmt_step" where
  "on_executor m = (\<lambda>(p, ex, g).
     case m (p, ex) of None \<Rightarrow> None | Some (r, p', ex') \<Rightarrow> Some (r, p', ex', g))"

definition on_graph :: "(graph, 'a) sm \<Rightarrow> ('v, 'a) stmt_step" where
  "on_graph m = (\<lambda>(p, ex, g). case m g of (r, g') \<Rightarrow> Some (r, p, ex, g'))"

definition on_schema :: "'a db_step \<Rightarrow> ('v, 'a) stmt_step" where "on_schema m = on_executor (on_catalog m)"

text \<open>A step that looks at the executor, its catalog or the graph first.\<close>

definition with_executor :: "('v executor \<Rightarrow> ('v, 'a) stmt_step) \<Rightarrow> ('v, 'a) stmt_step" where
  "with_executor m = (\<lambda>(p, ex, g). m ex (p, ex, g))"

definition with_catalog :: "(catalog \<Rightarrow> ('v, 'a) stmt_step) \<Rightarrow> ('v, 'a) stmt_step" where
  "with_catalog m = with_executor (\<lambda>ex. m (ex_catalog ex))"

definition with_graph :: "(graph \<Rightarrow> ('v, 'a) stmt_step) \<Rightarrow> ('v, 'a) stmt_step" where
  "with_graph m = (\<lambda>(p, ex, g). m g (p, ex, g))"

section \<open>Graph rows\<close>

definition payload_columns :: "column_def list" where
  "payload_columns =
     [\<lparr>cd_name = ''id'', cd_type = DInteger, cd_primary_key = True, cd_not_null = False\<rparr>,
      \<lparr>cd_name = ''payload'', cd_type = DText, cd_primary_key = False, cd_not_null = False\<rparr>]"

definition system_root :: "'v stmt_env \<Rightarrow> string \<Rightarrow> ('v, page_id) stmt_step" where
  "system_root env name = on_executor (ensure_system_table (se_rows env) name payload_columns)"

definition put_row :: "'v stmt_env \<Rightarrow> page_id \<Rightarrow> u64 \<Rightarrow> bytes result \<Rightarrow> string \<Rightarrow> ('v, unit) stmt_step" where
  "put_row env root rid json msg =
     bind_o (lift_o (json_or json msg)) (\<lambda>payload. on_pager (btree_insert (se_fuel env) (se_crc env) root rid payload))"

definition persist_graph_node :: "'v stmt_env \<Rightarrow> graph_node \<Rightarrow> ('v, unit) stmt_step" where
  "persist_graph_node env node =
     bind_o (system_root env ''__sys_graph_nodes'') (\<lambda>root.
     put_row env root (gn_id node) (se_node_json env node) ''Failed to serialize graph node: {e}'')"

definition load_graph_node_adjacency :: "'v stmt_env \<Rightarrow> page_id \<Rightarrow> u64 \<Rightarrow> ('v, u64 list \<times> u64 list) stmt_step" where
  "load_graph_node_adjacency env root nid =
     bind_o (on_pager (btree_search (se_fuel env) root nid)) (\<lambda>found.
       case found of
         None \<Rightarrow> ret_o ([], [])
       | Some payload \<Rightarrow>
           (case se_parse_adj env payload of
              None \<Rightarrow> fail_o (Corrupted ''Failed to deserialize adjacency for node #{node_id}: {e}'')
            | Some adj \<Rightarrow> ret_o adj))"

definition persist_graph_edge :: "'v stmt_env \<Rightarrow> graph_edge \<Rightarrow> ('v, unit) stmt_step" where
  "persist_graph_edge env edge =
     bind_o (system_root env ''__sys_graph_edges'') (\<lambda>root.
     bind_o (put_row env root (ge_id edge) (se_edge_json env edge) ''Failed to serialize graph edge: {e}'') (\<lambda>_.
     bind_o (system_root env ''__sys_graph_adj'') (\<lambda>adj_root.
     bind_o (load_graph_node_adjacency env adj_root (ge_from edge)) (\<lambda>(out_edges, in_edges).
     bind_o (if ge_id edge \<in> set out_edges then ret_o ()
             else put_row env adj_root (ge_from edge) (se_adj_json env (out_edges @ [ge_id edge], in_edges))
                    ''Failed to serialize node #{}: {e}'') (\<lambda>_.
     bind_o (load_graph_node_adjacency env adj_root (ge_to edge)) (\<lambda>(out_edges, in_edges).
     if ge_id edge \<in> set in_edges then ret_o ()
     else put_row env adj_root (ge_to edge) (se_adj_json env (out_edges, in_edges @ [ge_id edge]))
            ''Failed to serialize node #{}: {e}''))))))"

definition graph_insert_node :: "'v stmt_env \<Rightarrow> u64 \<Rightarrow> string \<Rightarrow> string \<Rightarrow> ('v, nat) stmt_step" where
  "graph_insert_node env nid lbl props =
     (let node = \<lparr>gn_id = nid, gn_label = lbl, gn_properties = props, gn_vector = None\<rparr> in
      bind_o (on_graph (put_s (restore_node node))) (\<lambda>_.
      bind_o (persist_graph_node env node) (\<lambda>_. ret_o 1)))"

definition graph_insert_edge :: "'v stmt_env \<Rightarrow> u64 \<Rightarrow> u64 \<Rightarrow> string \<Rightarrow> u32 \<Rightarrow> string \<Rightarrow> ('v, nat) stmt_step" where
  "graph_insert_edge env from_id to_id lbl weight props =
     bind_o (on_graph (add_edge from_id to_id lbl weight props)) (\<lambda>edge_id.
     bind_o (with_graph (\<lambda>g. case g_edges g edge_id of None \<Rightarrow> ret_o () | Some edge \<Rightarrow> persist_graph_edge env edge)) (\<lambda>_.
     ret_o 1))"

section \<open>Tables, views and indexes\<close>

definition put_vectors :: "string \<Rightarrow> 'v option \<Rightarrow> ('v, unit) stmt_step" where
  "put_vectors key index = on_executor (put_ex (\<lambda>ex. ex\<lparr>ex_vectors := (ex_vectors ex)(key := index)\<rparr>))"

text \<open>An empty tree in the place of the old one.\<close>

definition clear_root :: "'v stmt_env \<Rightarrow> page_id \<Rightarrow> ('v, unit) stmt_step" where
  "clear_root env root =
     on_pager (bind_o (run_o (read_page root)) (\<lambda>page_buf.
       bind_o (lift_o (init_leaf_page page_buf root)) (\<lambda>page_buf. run_o (write_page (se_crc env) root page_buf))))"

definition statement_create_table :: "'v stmt_env \<Rightarrow> string \<Rightarrow> bool \<Rightarrow> column_def list \<Rightarrow> bool \<Rightarrow> ('v, nat) stmt_step" where
  "statement_create_table env name if_not_exists columns versioning = with_executor (\<lambda>ex.
     if table_exists (ex_catalog ex) name
     then if if_not_exists then ret_o 0 else fail_o (TableExists name)
     else bind_o (on_pager (new_root (se_rows env))) (\<lambda>root_page.
       let td = (table_def_new name root_page columns)\<lparr>td_system_versioning := versioning \<or> ex_versioning ex\<rparr> in
       bind_o (case first_vector_column td of
           None \<Rightarrow> ret_o ()
         | Some (_, dims) \<Rightarrow> put_vectors (to_lowercase name) (Some (de_vec_new (se_rows env) dims))) (\<lambda>_.
       bind_o (on_schema (create_table (se_schema env) (se_fuel env) (se_crc env) td)) (\<lambda>_. ret_o 1))))"

text \<open>The postings of the rows there are.\<close>

fun collect_buckets ::
    "'v dml_env \<Rightarrow> table_def \<Rightarrow> string \<Rightarrow> table_leaf_cell list \<Rightarrow> (u64 \<rightharpoonup> index_bucket) \<Rightarrow> (u64 \<rightharpoonup> index_bucket) result" where
  "collect_buckets env td column [] buckets = Inr buckets"
| "collect_buckets env td column (cell # cells) buckets =
     bind_r (decode_full (lc_payload cell) (column_names td)) (\<lambda>full_row.
       collect_buckets env td column cells
         (case column_value (de_json_path env) full_row column of
            None \<Rightarrow> buckets
          | Some v \<Rightarrow>
              if is_null v then buckets
              else let key = value_to_index_key env v in
                buckets(key \<mapsto> add_row_id v (lc_row_id cell) (case buckets key of None \<Rightarrow> [] | Some b \<Rightarrow> b))))"

definition store_bucket :: "'v dml_env \<Rightarrow> page_id \<Rightarrow> u64 \<times> index_bucket \<Rightarrow> (pager, unit) om" where
  "store_bucket env root = (\<lambda>(key, bucket).
     bind_o (lift_o (json_or (de_bucket_json env bucket) ''Failed to serialize index bucket: {e}'')) (\<lambda>idx_payload.
     btree_insert (de_fuel env) (de_crc env) root key idx_payload))"

definition build_index :: "'v stmt_env \<Rightarrow> table_def \<Rightarrow> string \<Rightarrow> (pager, page_id) om" where
  "build_index env td column =
     bind_o (new_root (se_rows env)) (\<lambda>index_root.
     bind_o (btree_scan (se_fuel env) (td_root_page td)) (\<lambda>cells.
     bind_o (lift_o (collect_buckets (se_rows env) td column cells Map.empty)) (\<lambda>buckets.
     bind_o (each_o (store_bucket (se_rows env) index_root) (se_buckets env buckets)) (\<lambda>_. ret_o index_root))))"

definition base_column :: "string \<Rightarrow> string" where "base_column column = takeWhile (\<lambda>c. c \<noteq> CHR ''.'') column"

definition statement_create_index :: "'v stmt_env \<Rightarrow> string \<Rightarrow> bool \<Rightarrow> string \<Rightarrow> string \<Rightarrow> ('v, nat) stmt_step" where
  "statement_create_index env name if_not_exists table column = with_catalog (\<lambda>cat.
     if if_not_exists \<and> index_exists cat name then ret_o 0
     else if index_exists cat name then fail_o (TableExists ''Index '{name}' already exists'')
     else case get_table cat table of
       None \<Rightarrow> fail_o (TableNotFound table)
     | Some td \<Rightarrow>
         if column_index td (base_column column) = None \<and> column_index td column = None
         then fail_o (Corrupted ''Column '{column}' not found in table '{table}' for index '{name}' '')
         else bind_o (on_pager (build_index env td column)) (\<lambda>index_root.
              bind_o (on_schema (create_index (se_schema env) (se_fuel env) (se_crc env)
                  \<lparr>id_name = name, id_table = table, id_column = column, id_root_page = index_root, id_unique = False\<rparr>)) (\<lambda>_.
              ret_o 1)))"

definition drop_indexes_of :: "'v stmt_env \<Rightarrow> string \<Rightarrow> ('v, unit) stmt_step" where
  "drop_indexes_of env table = with_catalog (\<lambda>cat.
     each_o (\<lambda>idx. ignoring (on_schema (drop_index (se_schema env) (se_fuel env) (se_crc env) (id_name idx))))
       (filter (\<lambda>idx. eq_ignore_ascii_case (id_table idx) table) (de_indexes (se_rows env) cat)))"

definition statement_drop_table :: "'v stmt_env \<Rightarrow> string \<Rightarrow> bool \<Rightarrow> ('v, nat) stmt_step" where
  "statement_drop_table env table if_exists = with_catalog (\<lambda>cat.
     let name_lower = to_lowercase table in
     case get_table cat name_lower of
       Some td \<Rightarrow>
         bind_o (clear_root env (td_root_page td)) (\<lambda>_.
         bind_o (drop_indexes_of env table) (\<lambda>_.
         bind_o (on_schema (drop_table (se_schema env) (se_fuel env) (se_crc env) table)) (\<lambda>_.
         bind_o (put_vectors name_lower None) (\<lambda>_. ret_o 1))))
     | None \<Rightarrow> if if_exists then ret_o 0 else fail_o (TableNotFound table))"

definition statement_drop_index :: "'v stmt_env \<Rightarrow> string \<Rightarrow> bool \<Rightarrow> ('v, nat) stmt_step" where
  "statement_drop_index env name if_exists = with_catalog (\<lambda>cat.
     case get_index cat name of
       Some idx \<Rightarrow>
         bind_o (if id_root_page idx > 0 then clear_root env (id_root_page idx) else ret_o ()) (\<lambda>_.
         bind_o (on_schema (drop_index (se_schema env) (se_fuel env) (se_crc env) name)) (\<lambda>_. ret_o 1))
     | None \<Rightarrow> if if_exists then ret_o 0 else fail_o (TableNotFound ''Index '{name}' not found''))"

definition statement_create_view :: "'v stmt_env \<Rightarrow> string \<Rightarrow> bool \<Rightarrow> string \<Rightarrow> ('v, nat) stmt_step" where
  "statement_create_view env name if_not_exists query_sql = with_catalog (\<lambda>cat.
     let name_lower = to_lowercase name in
     if view_exists cat name_lower
     then if if_not_exists then ret_o 0 else fail_o (TableExists ''View '{name}' already exists'')
     else if table_exists cat name_lower then fail_o (TableExists ''Table with name '{name}' already exists'')
     else bind_o (on_schema (create_view (se_schema env) (se_fuel env) (se_crc env) \<lparr>vd_name = name, vd_query_sql = query_sql\<rparr>))
            (\<lambda>_. ret_o 1))"

definition statement_drop_view :: "'v stmt_env \<Rightarrow> string \<Rightarrow> bool \<Rightarrow> ('v, nat) stmt_step" where
  "statement_drop_view env name if_exists =
     bind_o (on_schema (drop_view (se_schema env) (se_fuel env) (se_crc env) name)) (\<lambda>dropped.
     if dropped then ret_o 1
     else if if_exists then ret_o 0
     else fail_o (TableNotFound ''View '{name}' not found''))"

section \<open>Dispatch\<close>

definition is_mutation :: "statement \<Rightarrow> bool" where
  "is_mutation stmt \<longleftrightarrow>
     (case stmt of
        CreateTable _ _ _ _ \<Rightarrow> True | Insert _ _ _ _ _ \<Rightarrow> True | InsertMany _ _ _ _ _ \<Rightarrow> True | Update _ _ _ _ \<Rightarrow> True
      | Delete _ _ _ \<Rightarrow> True | GraphInsertNode _ _ _ \<Rightarrow> True | GraphInsertEdge _ _ _ _ _ \<Rightarrow> True
      | CreateIndex _ _ _ _ \<Rightarrow> True | DropTable _ _ \<Rightarrow> True | DropIndex _ _ \<Rightarrow> True | AlterTableAddColumn _ _ \<Rightarrow> True
      | AlterTableDropColumn _ _ \<Rightarrow> True | AlterTableRenameColumn _ _ _ \<Rightarrow> True | AlterTableRenameTable _ _ \<Rightarrow> True
      | CreateView _ _ _ _ \<Rightarrow> True | DropView _ _ \<Rightarrow> True | _ \<Rightarrow> False)"

fun insert_many ::
    "'v dml_env \<Rightarrow> string \<Rightarrow> string list option \<Rightarrow> on_conflict \<Rightarrow> string list option \<Rightarrow> sql_value list list \<Rightarrow>
     nat \<times> row list \<Rightarrow> ('v, nat \<times> row list) ex_step" where
  "insert_many env table columns conflict returning [] res = ret_o res"
| "insert_many env table columns conflict returning (vals # rows) (affected, returned) =
     bind_o (execute_insert env table columns vals conflict returning) (\<lambda>(count, result).
     insert_many env table columns conflict returning rows (affected + count, returned @ result))"

text \<open>The statements on rows: \<^verbatim>\<open>execute\<close> answers with the count, \<^verbatim>\<open>query\<close> with the rows.\<close>

definition row_statement :: "'v dml_env \<Rightarrow> statement \<Rightarrow> ('v, nat \<times> row list) ex_step option" where
  "row_statement env stmt =
     (case stmt of
        InsertMany table columns rows conflict returning \<Rightarrow>
          Some (insert_many env table columns conflict returning rows (0, []))
      | Insert table columns vals conflict returning \<Rightarrow> Some (execute_insert env table columns vals conflict returning)
      | Update table assignments clause returning \<Rightarrow> Some (execute_update env table assignments clause returning)
      | Delete table clause returning \<Rightarrow> Some (execute_delete env table clause returning)
      | _ \<Rightarrow> None)"

text \<open>The mutations of \<^verbatim>\<open>execute_inner\<close>; \<open>None\<close> for a statement that is none.\<close>

definition execute_inner :: "'v stmt_env \<Rightarrow> statement \<Rightarrow> ('v, nat) stmt_step option" where
  "execute_inner env stmt =
     (case stmt of
        CreateTable name if_not_exists columns versioning \<Rightarrow>
          Some (statement_create_table env name if_not_exists columns versioning)
      | GraphInsertNode nid lbl props \<Rightarrow> Some (graph_insert_node env nid lbl props)
      | GraphInsertEdge from_id to_id lbl weight props \<Rightarrow> Some (graph_insert_edge env from_id to_id lbl weight props)
      | CreateIndex name if_not_exists table column \<Rightarrow> Some (statement_create_index env name if_not_exists table column)
      | DropTable table if_exists \<Rightarrow> Some (statement_drop_table env table if_exists)
      | AlterTableAddColumn table col \<Rightarrow>
          Some (bind_o (on_schema (add_column (se_schema env) (se_fuel env) (se_crc env) table col)) (\<lambda>_. ret_o 1))
      | AlterTableRenameTable table new_name \<Rightarrow>
          Some (bind_o (on_schema (rename_table (se_schema env) (se_fuel env) (se_crc env) table new_name)) (\<lambda>_. ret_o 1))
      | AlterTableRenameColumn table old_name new_name \<Rightarrow>
          Some (bind_o (on_schema (rename_table_column (se_schema env) (se_fuel env) (se_crc env) table old_name new_name)) (\<lambda>_. ret_o 1))
      | AlterTableDropColumn table column \<Rightarrow>
          Some (bind_o (on_schema (drop_column (se_schema env) (se_fuel env) (se_crc env) table column)) (\<lambda>_. ret_o 1))
      | CreateView name if_not_exists query_sql _ \<Rightarrow> Some (statement_create_view env name if_not_exists query_sql)
      | DropView name if_exists \<Rightarrow> Some (statement_drop_view env name if_exists)
      | DropIndex name if_exists \<Rightarrow> Some (statement_drop_index env name if_exists)
      | _ \<Rightarrow> map_option (\<lambda>m. bind_o (on_executor m) (\<lambda>(affected, _). ret_o affected)) (row_statement (se_rows env) stmt))"

definition query_inner :: "'v stmt_env \<Rightarrow> statement \<Rightarrow> ('v, row list) stmt_step option" where
  "query_inner env stmt =
     (if is_mutation stmt
      then Some (case row_statement (se_rows env) stmt of
          Some m \<Rightarrow> bind_o (on_executor m) (\<lambda>(_, rows). ret_o rows)
        | None \<Rightarrow> fail_o (SqlSyntax ''Non-query statement {other:?} passed to query()''))
      else None)"

section \<open>Reloading\<close>

fun restore_nodes :: "'v stmt_env \<Rightarrow> table_leaf_cell list \<Rightarrow> (graph, unit) sm" where
  "restore_nodes env [] = ret_s ()"
| "restore_nodes env (cell # cells) =
     bind_s (case se_parse_node env (lc_payload cell) of None \<Rightarrow> ret_s () | Some node \<Rightarrow> put_s (restore_node node))
       (\<lambda>_. restore_nodes env cells)"

fun restore_edges :: "'v stmt_env \<Rightarrow> table_leaf_cell list \<Rightarrow> (graph, unit) sm" where
  "restore_edges env [] = ret_s ()"
| "restore_edges env (cell # cells) =
     bind_s (case se_parse_edge env (lc_payload cell) of None \<Rightarrow> ret_s () | Some edge \<Rightarrow> restore_edge edge)
       (\<lambda>_. restore_edges env cells)"

definition load_rows ::
    "'v stmt_env \<Rightarrow> string \<Rightarrow> (table_leaf_cell list \<Rightarrow> (graph, unit) sm) \<Rightarrow> ('v, unit) stmt_step" where
  "load_rows env name restore = with_catalog (\<lambda>cat.
     case get_table cat name of
       None \<Rightarrow> ret_o ()
     | Some td \<Rightarrow> bind_o (on_pager (btree_scan (se_fuel env) (td_root_page td))) (\<lambda>cells. on_graph (restore cells)))"

definition load_graph_from_disk :: "'v stmt_env \<Rightarrow> ('v, unit) stmt_step" where
  "load_graph_from_disk env =
     bind_o (load_rows env ''__sys_graph_nodes'' (restore_nodes env)) (\<lambda>_.
     load_rows env ''__sys_graph_edges'' (restore_edges env))"

definition table_fingerprint :: "'v stmt_env \<Rightarrow> catalog \<Rightarrow> string \<Rightarrow> (pager, u32) om" where
  "table_fingerprint env cat table =
     (case get_table cat table of
        None \<Rightarrow> fail_o (TableNotFound table)
      | Some td \<Rightarrow> bind_o (btree_scan (se_fuel env) (td_root_page td)) (\<lambda>cells.
          ret_o (se_crc env (concat (map (\<lambda>cell. to_le64 (lc_row_id cell) @ lc_payload cell) cells)))))"

fun load_snapshots :: "'v stmt_env \<Rightarrow> catalog \<Rightarrow> table_leaf_cell list \<Rightarrow> string set \<Rightarrow> ('v, string set) stmt_step" where
  "load_snapshots env cat [] loaded = ret_o loaded"
| "load_snapshots env cat (cell # cells) loaded =
     (case se_parse_snapshot env (lc_payload cell) of
        None \<Rightarrow> load_snapshots env cat cells loaded
      | Some (table, index, fingerprint) \<Rightarrow>
          if \<not> table_exists cat table then load_snapshots env cat cells loaded
          else bind_o (on_pager (table_fingerprint env cat table)) (\<lambda>f.
            if fingerprint \<noteq> Some f then load_snapshots env cat cells loaded
            else bind_o (put_vectors (to_lowercase table) (Some index)) (\<lambda>_.
                 load_snapshots env cat cells (insert (to_lowercase table) loaded))))"

fun add_vectors :: "'v dml_env \<Rightarrow> table_def \<Rightarrow> nat \<Rightarrow> table_leaf_cell list \<Rightarrow> 'v \<Rightarrow> 'v result" where
  "add_vectors env td idx [] index = Inr index"
| "add_vectors env td idx (cell # cells) index =
     (case decode_full (lc_payload cell) (column_names td) of
        Inl e \<Rightarrow> if e = Panic then Inl Panic else add_vectors env td idx cells index
      | Inr full_row \<Rightarrow>
          (case (if idx < length (r_values full_row) then r_values full_row ! idx else NullV) of
             VectorV xs \<Rightarrow>
               (case de_vec_insert env (lc_row_id cell) xs index of
                  (Inl e, _) \<Rightarrow> Inl e
                | (Inr _, index) \<Rightarrow> add_vectors env td idx cells index)
           | _ \<Rightarrow> add_vectors env td idx cells index))"

definition rebuild_vectors :: "'v stmt_env \<Rightarrow> string set \<Rightarrow> table_def \<Rightarrow> ('v, unit) stmt_step" where
  "rebuild_vectors env loaded td =
     (if to_lowercase (td_name td) \<in> loaded then ret_o ()
      else case first_vector_column td of
        None \<Rightarrow> ret_o ()
      | Some (idx, dims) \<Rightarrow>
          bind_o (on_pager (btree_scan (se_fuel env) (td_root_page td))) (\<lambda>cells.
          bind_o (lift_o (add_vectors (se_rows env) td idx cells (de_vec_new (se_rows env) dims))) (\<lambda>index.
          put_vectors (to_lowercase (td_name td)) (Some index))))"

text \<open>An error of the scan of the snapshots is dropped.\<close>

definition scan_if_ok :: "nat \<Rightarrow> page_id \<Rightarrow> (pager, table_leaf_cell list) om" where
  "scan_if_ok fuel root p =
     (case btree_scan fuel root p of
        None \<Rightarrow> None
      | Some (Inl e, p') \<Rightarrow> Some (if e = Panic then Inl Panic else Inr [], p')
      | Some (Inr cells, p') \<Rightarrow> Some (Inr cells, p'))"

definition snapshot_root :: "catalog \<Rightarrow> pager \<Rightarrow> page_id option" where
  "snapshot_root cat p =
     (case get_table cat ''__sys_vector_snapshots'' of
        Some td \<Rightarrow> Some (td_root_page td)
      | None \<Rightarrow> let page = dh_vector_index_page (pg_header p) in if page \<noteq> 0 then Some page else None)"

definition load_vector_indexes_from_disk :: "'v stmt_env \<Rightarrow> ('v, unit) stmt_step" where
  "load_vector_indexes_from_disk env =
     bind_o (on_executor (put_ex (\<lambda>ex. ex\<lparr>ex_vectors := Map.empty\<rparr>))) (\<lambda>_ (p, ex, g).
       bind_o (case snapshot_root (ex_catalog ex) p of
           None \<Rightarrow> ret_o {}
         | Some root \<Rightarrow> bind_o (on_pager (scan_if_ok (se_fuel env) root)) (\<lambda>cells.
             load_snapshots env (ex_catalog ex) cells {})) (\<lambda>loaded.
       each_o (rebuild_vectors env loaded) (se_tables env (ex_catalog ex))) (p, ex, g))"

definition reload_from_pager :: "'v stmt_env \<Rightarrow> ('v, unit) stmt_step" where
  "reload_from_pager env =
     bind_o (on_pager (catalog_load (se_schema env) (se_fuel env) (se_crc env))) (\<lambda>cat.
     bind_o (on_executor (put_ex (\<lambda>ex. ex\<lparr>ex_catalog := cat\<rparr>))) (\<lambda>_.
     bind_o (load_graph_from_disk env) (\<lambda>_. load_vector_indexes_from_disk env)))"

section \<open>Atomic statements\<close>

text \<open>A result as a value; a panic goes on.\<close>

definition catching :: "('s, 'a) om \<Rightarrow> ('s, 'a result) om" where
  "catching m s =
     (case m s of
        None \<Rightarrow> None
      | Some (r, s') \<Rightarrow> Some (if r = Inl Panic then Inl Panic else Inr r, s'))"

definition statement_savepoint :: "pager \<Rightarrow> string" where
  "statement_savepoint p = ''__tapirus_statement_'' @ show_nat (savepoint_depth p)"

definition pager_step :: "(pager, 'a) sm \<Rightarrow> ('v, 'a) stmt_step" where "pager_step m = on_pager (run_o m)"

text \<open>The end of a statement that returned a value, and of one that returned an error.\<close>

definition statement_done :: "'v stmt_env \<Rightarrow> bool \<Rightarrow> string \<Rightarrow> 'a \<Rightarrow> ('v, 'a) stmt_step" where
  "statement_done env own savepoint val =
     bind_o (catching (pager_step (if own then commit_transaction (se_crc env) else release_savepoint savepoint))) (\<lambda>r.
       case r of
         Inr _ \<Rightarrow> ret_o val
       | Inl e \<Rightarrow>
           bind_o (\<lambda>(p, st). (if is_in_transaction p then ignoring (pager_step (rollback_transaction (se_crc env))) else ret_o ()) (p, st)) (\<lambda>_.
           bind_o (reload_from_pager env) (\<lambda>_. fail_o e)))"

definition statement_failed :: "'v stmt_env \<Rightarrow> bool \<Rightarrow> string \<Rightarrow> error \<Rightarrow> ('v, 'a) stmt_step" where
  "statement_failed env own savepoint e =
     bind_o (if own then pager_step (rollback_transaction (se_crc env))
             else bind_o (pager_step (rollback_to_savepoint (se_crc env) savepoint)) (\<lambda>_.
                  pager_step (release_savepoint savepoint))) (\<lambda>_.
     bind_o (reload_from_pager env) (\<lambda>_. fail_o e))"

definition atomic_statement :: "'v stmt_env \<Rightarrow> ('v, 'a) stmt_step \<Rightarrow> ('v, 'a) stmt_step" where
  "atomic_statement env operation = (\<lambda>(p, st).
     let own = \<not> is_in_transaction p; savepoint = statement_savepoint p in
     bind_o (pager_step (if own then begin_transaction else create_savepoint savepoint)) (\<lambda>_.
     bind_o (catching operation) (\<lambda>r.
       case r of
         Inr val \<Rightarrow> statement_done env own savepoint val
       | Inl e \<Rightarrow> statement_failed env own savepoint e)) (p, st))"

text \<open>\<^verbatim>\<open>execute\<close> and \<^verbatim>\<open>query\<close> of a mutation.\<close>

definition execute_mutation :: "'v stmt_env \<Rightarrow> statement \<Rightarrow> ('v, nat) stmt_step option" where
  "execute_mutation env stmt = map_option (atomic_statement env) (execute_inner env stmt)"

definition query_mutation :: "'v stmt_env \<Rightarrow> statement \<Rightarrow> ('v, row list) stmt_step option" where
  "query_mutation env stmt = map_option (atomic_statement env) (query_inner env stmt)"

end
