(* ===== verification/Btree_Undo.thy ===== *)
theory Btree_Undo
  imports Btree_Engine Pager_Steps
begin

text \<open>
  Every operation of the tree engine, on whatever pages and however it ends, keeps the undo invariant of the open
  transaction: what \<open>Pager_Steps\<close> shows of each call of the pager is composed over the engine's code.
\<close>

section \<open>Composition\<close>

lemma keeps_option: "keeps I m \<Longrightarrow> (\<And>v. keeps I (f v)) \<Longrightarrow> keeps I (case x of None \<Rightarrow> m | Some v \<Rightarrow> f v)"
  by (cases x) simp_all

lemma keeps_prod: "(\<And>a c. keeps I (f a c)) \<Longrightarrow> keeps I (case x of (a, c) \<Rightarrow> f a c)"
  by (cases x) simp

lemmas keeps_rules = keeps_bind keeps_basic keeps_if_const keeps_option keeps_prod

text \<open>A run that keeps the undo invariant of the transaction begun in \<open>b\<close>, on states with a pager.\<close>

definition undo_kept :: "('s \<Rightarrow> pager) \<Rightarrow> pager \<Rightarrow> crc_fun \<Rightarrow> ('s, 'a) om \<Rightarrow> bool" where
  "undo_kept pg b crc m \<longleftrightarrow> (settled b \<longrightarrow> keeps_o (\<lambda>s. undo_inv crc b (pg s)) m)"

definition undo_kept_s :: "pager \<Rightarrow> crc_fun \<Rightarrow> (pager, 'a) sm \<Rightarrow> bool" where
  "undo_kept_s b crc m \<longleftrightarrow> (settled b \<longrightarrow> keeps (undo_inv crc b) m)"

named_theorems undo_kept

lemma undo_kept_run [undo_kept]: "undo_kept_s b crc m \<Longrightarrow> undo_kept (\<lambda>p. p) b crc (run_o m)"
  by (simp add: undo_kept_def undo_kept_s_def keeps_o_run)

lemma undo_kept_rules [undo_kept]:
  "undo_kept pg b crc m \<Longrightarrow> (\<And>x. undo_kept pg b crc (f x)) \<Longrightarrow> undo_kept pg b crc (bind_o m f)"
  "undo_kept pg b crc (ret_o y)" "undo_kept pg b crc (fail_o e)" "undo_kept pg b crc (\<lambda>_. None)"
  "undo_kept pg b crc m \<Longrightarrow> undo_kept pg b crc n \<Longrightarrow> undo_kept pg b crc (if c then m else n)"
  "undo_kept pg b crc m \<Longrightarrow> (\<And>v. undo_kept pg b crc (g v)) \<Longrightarrow> undo_kept pg b crc (case opt of None \<Rightarrow> m | Some v \<Rightarrow> g v)"
  "(\<And>l r. undo_kept pg b crc (h l r)) \<Longrightarrow> undo_kept pg b crc (case pr of (l, r) \<Rightarrow> h l r)"
  "(\<And>e. undo_kept pg b crc (g' e)) \<Longrightarrow> (\<And>v. undo_kept pg b crc (g v)) \<Longrightarrow> undo_kept pg b crc (case res of Inl e \<Rightarrow> g' e | Inr v \<Rightarrow> g v)"
  by (simp_all add: undo_kept_def keeps_o_rules split: option.splits prod.splits sum.splits)

lemma undo_kept_s_rules [undo_kept]:
  "undo_kept_s b crc m \<Longrightarrow> (\<And>x. undo_kept_s b crc (f x)) \<Longrightarrow> undo_kept_s b crc (bind_s m f)"
  "undo_kept_s b crc (ret_s y)" "undo_kept_s b crc (fail_s e)" "undo_kept_s b crc (lift_s res)"
  "undo_kept_s b crc (get_s q)"
  "undo_kept_s b crc m \<Longrightarrow> undo_kept_s b crc n \<Longrightarrow> undo_kept_s b crc (if c then m else n)"
  "undo_kept_s b crc m \<Longrightarrow> (\<And>v. undo_kept_s b crc (g v)) \<Longrightarrow> undo_kept_s b crc (case opt of None \<Rightarrow> m | Some v \<Rightarrow> g v)"
  "(\<And>l r. undo_kept_s b crc (h l r)) \<Longrightarrow> undo_kept_s b crc (case pr of (l, r) \<Rightarrow> h l r)"
  by (simp_all add: undo_kept_s_def keeps_rules split: option.splits prod.splits)

lemma undo_kept_self: "(\<And>q. undo_kept pg b crc (F q)) \<Longrightarrow> undo_kept pg b crc (\<lambda>p. F p p)"
  "(\<And>q. undo_kept_s b crc (G q)) \<Longrightarrow> undo_kept_s b crc (\<lambda>p. G p p)"
  by (simp_all add: undo_kept_def keeps_o_self undo_kept_s_def keeps_self)

section \<open>Calls of the pager\<close>

lemma undo_kept_pager [undo_kept]:
  "undo_kept_s b crc (read_page pid)" "undo_kept_s b crc (with_page pid f)" "undo_kept_s b crc (write_page crc pid d)"
  "undo_kept_s b crc (modify_page crc pid g)" "undo_kept_s b crc (allocate_page crc)" "undo_kept_s b crc (free_page crc pid)"
  unfolding undo_kept_s_def
  by (auto intro: keeps_read_page write_keeps keepsI with_page_inv modify_page_inv allocate_page_inv free_page_inv)

lemma undo_kept_panic [undo_kept]: "undo_kept_s b crc (\<lambda>p. (Inl e, p))"
  by (simp add: undo_kept_s_def keeps_error)

section \<open>Overflow chains\<close>

lemma link_overflow_kept [undo_kept]: "undo_kept_s b crc (link_overflow crc prev next_id)"
  unfolding link_overflow_def by (intro undo_kept)

lemma overflow_loop_kept [undo_kept]: "undo_kept_s b crc (overflow_loop crc psize remaining head prev)"
proof (induction crc psize remaining head prev rule: overflow_loop.induct)
  case (1 crc psize remaining head prev)
  show ?case
  proof (cases "remaining = [] \<or> overflow_chunk psize = 0")
    case True
    then show ?thesis by (subst overflow_loop.simps) (simp add: undo_kept)
  next
    case False
    then show ?thesis by (subst overflow_loop.simps) (simp only: if_False, intro undo_kept 1 False)
  qed
qed

lemma write_chain_kept [undo_kept]: "undo_kept_s b crc (write_overflow_chain crc bs)"
  unfolding write_overflow_chain_def [abs_def]
  by (simp add: undo_kept_s_def keeps_def) (metis keeps_def overflow_loop_kept undo_kept_s_def)

lemma read_chain_kept [undo_kept]: "undo_kept (\<lambda>p. p) b crc (read_chain fuel psize cur out)"
  by (induction fuel arbitrary: cur out) (auto intro!: undo_kept)

lemma read_overflow_kept [undo_kept]: "undo_kept (\<lambda>p. p) b crc (read_overflow_chain fuel first)"
  unfolding read_overflow_chain_def [abs_def] by (rule undo_kept_self) (rule read_chain_kept)

lemma free_chain_kept [undo_kept]: "undo_kept (\<lambda>p. p) b crc (free_chain fuel crc psize cur)"
  by (induction fuel arbitrary: cur) (auto intro!: undo_kept)

lemma free_overflow_kept [undo_kept]: "undo_kept (\<lambda>p. p) b crc (free_overflow_chain fuel crc first)"
  unfolding free_overflow_chain_def [abs_def] by (rule undo_kept_self) (rule free_chain_kept)

section \<open>Search, insertion, deletion, scans\<close>

lemma with_overflow_kept [undo_kept]: "undo_kept (\<lambda>p. p) b crc (with_overflow fuel payload ovf)"
  unfolding with_overflow_def by (intro undo_kept)

lemma search_kept [undo_kept]: "undo_kept (\<lambda>p. p) b crc (btree_search fuel pid key)"
  by (induction fuel arbitrary: pid) (auto intro!: undo_kept split: search_step.splits option.splits)

lemma new_leaf_kept [undo_kept]: "undo_kept_s b crc (new_leaf crc cells)"
  unfolding new_leaf_def by (intro undo_kept; rule undo_kept_self; intro undo_kept)

lemma split_halves_kept [undo_kept]: "undo_kept_s b crc (split_halves crc left_id page new_cell h)"
  unfolding split_halves_def Let_def by (intro undo_kept; rule undo_kept_self; intro undo_kept)

lemma split_leaf_kept [undo_kept]: "undo_kept_s b crc (split_leaf_page crc left_id page new_cell)"
  unfolding split_leaf_page_def by (intro undo_kept)

lemma split_interior_kept [undo_kept]: "undo_kept_s b crc (split_interior_page crc left_id page new_cell new_rc)"
  unfolding split_interior_page_def Let_def
  by (intro undo_kept; rule undo_kept_self; intro undo_kept; rule undo_kept_self; intro undo_kept)

lemma free_old_kept [undo_kept]: "undo_kept (\<lambda>p. p) b crc (free_old fuel crc ovf)"
  unfolding free_old_def by (intro undo_kept)

lemma insert_subtree_kept [undo_kept]: "undo_kept (\<lambda>p. p) b crc (insert_into_subtree fuel crc pid key payload ovf)"
proof (induction fuel arbitrary: pid)
  case (Suc fuel)
  then show ?case unfolding insert_into_subtree.simps Let_def by (auto intro!: undo_kept split: page_type.splits)
qed (simp add: undo_kept)

lemma grow_root_kept [undo_kept]: "undo_kept_s b crc (grow_root crc root right_id k)"
  unfolding grow_root_def
  by (intro undo_kept; rule undo_kept_self; intro undo_kept; rule undo_kept_self; intro undo_kept)

lemma insert_kept [undo_kept]: "undo_kept (\<lambda>p. p) b crc (btree_insert fuel crc root key payload)"
  unfolding btree_insert_def by (intro undo_kept)

lemma delete_kept [undo_kept]: "undo_kept (\<lambda>p. p) b crc (delete_from_subtree fuel crc pid key)"
proof (induction fuel arbitrary: pid)
  case (Suc fuel)
  then show ?case unfolding delete_from_subtree.simps Let_def by (auto intro!: undo_kept split: page_type.splits)
qed (simp add: undo_kept)

text \<open>A pager beside another state.\<close>

lemma on_pager_kept [undo_kept]: "undo_kept (\<lambda>p. p) b crc m \<Longrightarrow> undo_kept fst b crc (on_pager m)"
  by (auto simp: undo_kept_def keeps_o_def on_pager_def split: option.splits)

lemma beside_kept [undo_kept]: "undo_kept fst b crc (run_o (lift_s res))" "undo_kept fst b crc (on_callback cb x)"
  by (auto simp: undo_kept_def keeps_o_def on_callback_def split: prod.splits)

lemma until_false_kept [undo_kept]: "(\<And>x. undo_kept pg b crc (f x)) \<Longrightarrow> undo_kept pg b crc (until_false f xs)"
  by (induction xs) (auto intro!: undo_kept)

lemma scan_cell_kept [undo_kept]: "undo_kept fst b crc (scan_cell fuel pid page cb i)"
  unfolding scan_cell_def by (intro undo_kept)

lemma scan_child_kept [undo_kept]: "(\<And>q. undo_kept fst b crc (sub q)) \<Longrightarrow> undo_kept fst b crc (scan_child sub page pid i)"
  unfolding scan_child_def by (intro undo_kept)

lemma scan_subtree_kept [undo_kept]: "undo_kept fst b crc (scan_subtree_with fuel cb pid)"
proof (induction fuel arbitrary: pid)
  case (Suc fuel)
  then show ?case unfolding scan_subtree_with.simps by (auto intro!: undo_kept split: page_type.splits)
qed (simp add: undo_kept)

lemma scan_kept [undo_kept]: "undo_kept (\<lambda>p. p) b crc (btree_scan fuel root)"
  unfolding undo_kept_def keeps_o_def
proof (intro impI allI)
  fix p r p' assume b: "settled b" and inv: "undo_inv crc b p" and run: "btree_scan fuel root p = Some (r, p')"
  let ?m = "scan_subtree_with fuel (\<lambda>cell cells. (Inr True, cells @ [cell])) root"
  obtain r1 cells where m: "?m (p, []) = Some (r1, p', cells)"
    using run by (auto simp: btree_scan_def split: option.splits sum.splits prod.splits)
  have "keeps_o (\<lambda>s. undo_inv crc b (fst s)) ?m" using scan_subtree_kept [of b crc fuel] b by (simp add: undo_kept_def)
  from keeps_oD [OF this _ m] inv show "undo_inv crc b p'" by simp
qed

end
