(* ===== verification/Sql_Undo.thy ===== *)
theory Sql_Undo
  imports Sql_Dml Btree_Undo
begin

text \<open>
  The catalog and the row changes keep the undo invariant of the open transaction, whatever they do and however
  they end.
\<close>

section \<open>Steps over a pager and another state\<close>

lemma lift_kept [undo_kept]: "undo_kept pg b crc (lift_o res)" "undo_kept pg b crc (run_o (lift_s res))"
  by (simp_all add: lift_o_def undo_kept_def keeps_o_basic)

lemma put_kept [undo_kept]: "undo_kept fst b crc (put_catalog f)" "undo_kept fst b crc (put_ex g)"
  by (auto simp: put_catalog_def put_ex_def put_s_def undo_kept_def keeps_o_def split: prod.splits)

lemma change_table_kept [undo_kept]: "undo_kept fst b crc (change_table table f)"
  unfolding change_table_def by (intro undo_kept)

lemma ignoring_kept [undo_kept]: "undo_kept pg b crc m \<Longrightarrow> undo_kept pg b crc (ignoring m)"
  by (auto simp: undo_kept_def keeps_o_def ignoring_def split: option.splits)

lemma each_kept [undo_kept]: "(\<And>x. undo_kept pg b crc (f x)) \<Longrightarrow> undo_kept pg b crc (each_o f xs)"
  by (induction xs) (auto intro!: undo_kept)

lemma on_catalog_kept [undo_kept]:
  assumes "undo_kept fst b crc m"
  shows "undo_kept fst b crc (on_catalog m)"
  unfolding undo_kept_def keeps_o_def
proof (intro impI allI)
  fix s r s' assume b: "settled b" and inv: "undo_inv crc b (fst s)" and run: "on_catalog m s = Some (r, s')"
  obtain p ex where s: "s = (p, ex)" by force
  obtain cat' where m: "m (p, ex_catalog ex) = Some (r, fst s', cat')"
    using run by (auto simp: s on_catalog_def split: option.splits)
  have "keeps_o (\<lambda>s. undo_inv crc b (fst s)) m" using assms b by (simp add: undo_kept_def)
  from keeps_oD [OF this _ m] inv show "undo_inv crc b (fst s')" by (simp add: s)
qed

text \<open>A step that looks at the state first: each of its branches.\<close>

definition undo_at :: "pager \<Rightarrow> crc_fun \<Rightarrow> pager \<Rightarrow> ((error + 'a) \<times> pager \<times> 'x) option \<Rightarrow> bool" where
  "undo_at b crc p res \<longleftrightarrow>
     (settled b \<longrightarrow> undo_inv crc b p \<longrightarrow> (\<forall>r p' x'. res = Some (r, p', x') \<longrightarrow> undo_inv crc b p'))"

named_theorems undo_at

lemma look_kept [undo_kept]:
  "(\<And>p x. undo_at b crc p (m p x)) \<Longrightarrow> undo_kept fst b crc (\<lambda>(p, x). m p x)"
  by (auto simp: undo_at_def undo_kept_def keeps_o_def)

lemma undo_at_step:
  assumes "undo_kept fst b crc m"
  shows "undo_at b crc p (m (p, x))"
  unfolding undo_at_def
proof (intro impI allI)
  fix r p' x' assume b: "settled b" and inv: "undo_inv crc b p" and run: "m (p, x) = Some (r, p', x')"
  have "keeps_o (\<lambda>s. undo_inv crc b (fst s)) m" using assms b by (simp add: undo_kept_def)
  from keeps_oD [OF this _ run] inv show "undo_inv crc b p'" by simp
qed

lemma undo_at_rules [undo_at]:
  "undo_at b crc p (fail_o e (p, x))" "undo_at b crc p (ret_o y (p, x))" "undo_at b crc p None"
  "undo_kept fst b crc (bind_o m f) \<Longrightarrow> undo_at b crc p (bind_o m f (p, x))"
  "undo_kept fst b crc (on_pager q :: (pager \<times> 'x, 'a) om) \<Longrightarrow> undo_at b crc p (on_pager q (p, x :: 'x))"
  "undo_at b crc p (lift_o res (p, x))"
  "undo_kept fst b crc m \<Longrightarrow> undo_kept fst b crc n \<Longrightarrow> undo_at b crc p ((if c then m else n) (p, x))"
proof -
  show "undo_at b crc p (fail_o e (p, x))" "undo_at b crc p (ret_o y (p, x))" "undo_at b crc p (lift_o res (p, x))"
    by (rule undo_at_step, rule undo_kept)+
  show "undo_at b crc p None" by (simp add: undo_at_def)
  show "undo_kept fst b crc (bind_o m f) \<Longrightarrow> undo_at b crc p (bind_o m f (p, x))" by (rule undo_at_step)
  show "undo_kept fst b crc (on_pager q :: (pager \<times> 'x, 'a) om) \<Longrightarrow> undo_at b crc p (on_pager q (p, x :: 'x))"
    by (rule undo_at_step)
  show "undo_kept fst b crc m \<Longrightarrow> undo_kept fst b crc n \<Longrightarrow> undo_at b crc p ((if c then m else n) (p, x))"
    by (rule undo_at_step) (intro undo_kept)
qed

lemma undo_at_cases [undo_at]:
  "(c \<Longrightarrow> undo_at b crc p k) \<Longrightarrow> (\<not> c \<Longrightarrow> undo_at b crc p l) \<Longrightarrow> undo_at b crc p (if c then k else l)"
  "undo_at b crc p k \<Longrightarrow> (\<And>v. undo_at b crc p (g v)) \<Longrightarrow> undo_at b crc p (case opt of None \<Rightarrow> k | Some v \<Rightarrow> g v)"
  "(\<And>e. undo_at b crc p (h e)) \<Longrightarrow> (\<And>v. undo_at b crc p (g v)) \<Longrightarrow>
   undo_at b crc p (case res of Inl e \<Rightarrow> h e | Inr v \<Rightarrow> g v)"
  "(\<And>l r. undo_at b crc p (k' l r)) \<Longrightarrow> undo_at b crc p (case pr of (l, r) \<Rightarrow> k' l r)"
  by (simp_all split: option.splits sum.splits prod.splits)

section \<open>The catalog\<close>

lemma cookie_kept:
  assumes "undo_inv crc b p"
  shows "undo_inv crc b (set_header (\<lambda>h. h\<lparr>dh_schema_cookie := c h\<rparr>) p)"
proof (rule set_header_inv [OF assms])
  show "hdr_like ((pg_header p)\<lparr>dh_schema_cookie := c (pg_header p)\<rparr>) (pg_header p)" by (simp add: hdr_like_def)
  show "total_pages b \<le> dh_total_pages ((pg_header p)\<lparr>dh_schema_cookie := c (pg_header p)\<rparr>)"
    using assms by (simp add: undo_inv_def total_pages_def)
qed

lemma bump_cookie_kept [undo_kept]: "undo_kept_s b crc (bump_cookie crc)"
  unfolding bump_cookie_def
proof (intro undo_kept)
  show "undo_kept_s b crc (\<lambda>p. if dh_schema_cookie (pg_header p) = - 1 then (Inl Panic, p)
      else (Inr (), set_header (\<lambda>h. h\<lparr>dh_schema_cookie := dh_schema_cookie h + 1\<rparr>) p))"
    unfolding undo_kept_s_def by (auto intro!: keepsI cookie_kept)
qed

lemma take_id_kept [undo_kept]: "undo_kept fst b crc take_id"
  by (auto simp: take_id_def undo_kept_def keeps_o_def split: prod.splits if_splits)

lemma store_new_kept [undo_kept]: "undo_kept fst b crc (store_new fuel crc json msg)"
  unfolding store_new_def by (intro undo_kept)

lemma rewrite_kept [undo_kept]: "undo_kept (\<lambda>p. p) b crc (rewrite_entry sc fuel crc table_name updated cells)"
  by (induction cells) (auto intro!: undo_kept split: option.splits sum.splits simp del: om_simps)

lemma store_table_kept [undo_kept]: "undo_kept (\<lambda>p. p) b crc (store_table sc fuel crc table_name updated)"
  unfolding store_table_def by (intro undo_kept)

lemma drop_values_kept [undo_kept]: "undo_kept (\<lambda>p. p) b crc (drop_values fuel crc root names col_idx cells)"
  by (induction cells) (auto intro!: undo_kept split: sum.splits prod.splits simp del: om_simps)

lemma delete_entry_kept [undo_kept]: "undo_kept (\<lambda>p. p) b crc (delete_entry fuel crc name_of name cells)"
proof (induction cells)
  case (Cons cell cells)
  have "(\<lambda>p. case delete_from_subtree fuel crc 1 (lc_row_id cell) p of None \<Rightarrow> None
      | Some (r, p') \<Rightarrow> if r = Inl Panic then Some (Inl Panic, p') else Some (Inr (), p')) =
      ignoring (delete_from_subtree fuel crc 1 (lc_row_id cell))"
    by (auto simp: fun_eq_iff ignoring_def split: option.splits)
  then show ?case using Cons by (auto intro!: undo_kept split: option.splits simp del: om_simps)
qed (simp add: undo_kept del: om_simps)

lemma forget_entry_kept [undo_kept]: "undo_kept (\<lambda>p. p) b crc (forget_entry fuel crc name_of name)"
  unfolding forget_entry_def by (intro undo_kept)

lemma put_table_kept [undo_kept]: "undo_kept fst b crc (put_table key td)"
  unfolding put_table_def by (intro undo_kept)

lemma catalog_changes_kept [undo_kept]:
  "undo_kept fst b crc (create_table sc fuel crc td)" "undo_kept fst b crc (create_view sc fuel crc vd)"
  "undo_kept fst b crc (create_index sc fuel crc idx)" "undo_kept fst b crc (add_column sc fuel crc t col)"
  "undo_kept fst b crc (rename_table sc fuel crc t t')" "undo_kept fst b crc (rename_table_column sc fuel crc t c c')"
  "undo_kept fst b crc (drop_column sc fuel crc t c)" "undo_kept fst b crc (drop_table sc fuel crc t)"
  "undo_kept fst b crc (drop_view sc fuel crc t)" "undo_kept fst b crc (drop_index sc fuel crc t)"
  unfolding create_table_def create_view_def create_index_def add_column_def rename_table_def rename_table_column_def
    drop_column_def drop_table_def drop_view_def drop_index_def Let_def
  by (intro undo_kept undo_at)+

end
