(* ===== verification/Sql_Undo_Rows.thy ===== *)
theory Sql_Undo_Rows
  imports Sql_Undo
begin

text \<open>
  Insertion, update and deletion of rows keep the undo invariant of the open transaction.
\<close>

section \<open>Versions, postings and vectors\<close>

lemma ensure_system_table_kept [undo_kept]:
  "undo_kept fst b (de_crc env) (ensure_system_table env name columns)"
  unfolding ensure_system_table_def new_root_def
  by (intro undo_kept undo_at; rule undo_kept_self; intro undo_kept)

lemma timestamp_kept [undo_kept]: "undo_kept fst b (de_crc env) (next_temporal_timestamp env)"
  by (auto simp: next_temporal_timestamp_def undo_kept_def keeps_o_def Let_def split: if_splits)

lemma take_version_id_kept [undo_kept]: "undo_kept fst b (de_crc env) take_version_id"
  unfolding take_version_id_def by (intro undo_kept undo_at)

lemma record_version_kept [undo_kept]:
  "undo_kept fst b (de_crc env) (record_temporal_version env table rid payload t t')"
  unfolding record_temporal_version_def by (intro undo_kept)

lemma close_record_kept [undo_kept]:
  "undo_kept (\<lambda>p. p) b (de_crc env) (close_record env table rid t root cells)"
  by (induction cells) (auto intro!: undo_kept split: option.splits simp del: om_simps)

lemma close_version_kept [undo_kept]:
  "undo_kept fst b (de_crc env) (close_temporal_version env table rid t)"
  unfolding close_temporal_version_def by (intro undo_kept undo_at)

lemma close_now_kept [undo_kept]: "undo_kept fst b (de_crc env) (close_now env table rid)"
  unfolding close_now_def by (intro undo_kept)

lemma for_indexes_kept [undo_kept]:
  "(\<And>idx. undo_kept (\<lambda>p. p) b (de_crc env) (f idx)) \<Longrightarrow> undo_kept fst b (de_crc env) (for_indexes env table f)"
  unfolding for_indexes_def by (intro undo_kept undo_at)

lemma postings_kept [undo_kept]:
  shows "undo_kept (\<lambda>p. p) b (de_crc env) (remove_posting env idx v rid)" "undo_kept (\<lambda>p. p) b (de_crc env) (posting_after_add env idx v rid)"
    "undo_kept fst b (de_crc env) (unindex_row env table r rid)" "undo_kept fst b (de_crc env) (index_row env table r rid)"
    "undo_kept fst b (de_crc env) (reindex_row env table r rid r' rid')"
  unfolding remove_posting_def posting_after_add_def unindex_row_def index_row_def reindex_row_def Let_def
  by (intro undo_kept)+

lemma vectors_kept [undo_kept]:
  "undo_kept fst b (de_crc env) (forget_vector env table rid)" "undo_kept fst b (de_crc env) (store_vector env table rid xs)"
proof -
  show "undo_kept fst b (de_crc env) (forget_vector env table rid)" unfolding forget_vector_def by (intro undo_kept)
  show "undo_kept fst b (de_crc env) (store_vector env table rid xs)"
    by (auto simp: store_vector_def undo_kept_def keeps_o_def Let_def split: prod.splits)
qed

section \<open>Statements on rows\<close>

lemma rows_kept [undo_kept]:
  shows "undo_kept fst b (de_crc env) (delete_row env root rid)" "undo_kept fst b (de_crc env) (store_row env root rid payload)"
    "undo_kept fst b (de_crc env) (raise_next_id table td rid)" "undo_kept fst b (de_crc env) (update_vector env table td vs rid rid')"
    "undo_kept fst b (de_crc env) (resolve_clause env clause)"
  unfolding delete_row_def store_row_def raise_next_id_def update_vector_def resolve_clause_def
  by (intro undo_kept undo_at)+

lemma row_selected_kept [undo_kept]: "undo_kept pg b (de_crc env) (row_selected env clause r)"
  by (auto simp: row_selected_def undo_kept_def keeps_o_def split: option.splits)

lemma on_existing_kept [undo_kept]:
  "undo_kept fst b (de_crc env) (on_existing env table td temporal rid existing conflict vals)"
  unfolding on_existing_def by (cases conflict) (auto intro!: undo_kept simp del: om_simps)

lemma insert_new_row_kept [undo_kept]:
  "undo_kept fst b (de_crc env) (insert_new_row env table td temporal rid vals returning)"
  unfolding insert_new_row_def Let_def by (intro undo_kept)

lemma execute_insert_kept [undo_kept]:
  "undo_kept fst b (de_crc env) (execute_insert env table columns vals conflict returning)"
  unfolding execute_insert_def by (intro undo_kept undo_at)

lemma temporal_step_kept [undo_kept]:
  "(\<And>ex. undo_kept fst b (de_crc env) (m ex)) \<Longrightarrow> undo_kept fst b (de_crc env) (\<lambda>(p, ex). m ex (p, ex))"
  by (auto simp: undo_kept_def keeps_o_def)

lemma update_row_kept [undo_kept]:
  "undo_kept fst b (de_crc env) (update_row env table td assignments returning rid full_row)"
  unfolding update_row_def Let_def by (intro undo_kept)

lemma update_rows_kept [undo_kept]:
  "undo_kept fst b (de_crc env) (update_rows env table td cond assignments returning cells res)"
  by (induction cells arbitrary: res) (auto intro!: undo_kept simp del: om_simps)

lemma execute_update_kept [undo_kept]:
  "undo_kept fst b (de_crc env) (execute_update env table assignments clause returning)"
  unfolding execute_update_def by (intro undo_kept undo_at)

lemma delete_one_kept [undo_kept]:
  "undo_kept fst b (de_crc env) (delete_one env table td rid full_row)"
  unfolding delete_one_def by (intro undo_kept)

lemma delete_rows_kept [undo_kept]:
  "undo_kept fst b (de_crc env) (delete_rows env table td cond returning cells res)"
  by (induction cells arbitrary: res) (auto intro!: undo_kept simp del: om_simps)

lemma execute_delete_kept [undo_kept]:
  "undo_kept fst b (de_crc env) (execute_delete env table clause returning)"
  unfolding execute_delete_def by (intro undo_kept undo_at)

end
