(* ===== verification/Sql_Atomic.thy ===== *)
theory Sql_Atomic
  imports Sql_Execute Sql_Undo_Rows Sql_Insert_Props
begin

text \<open>
  Atomic statements: every mutation keeps the undo invariant of its transaction, reloading only reads, so a
  statement that fails outside a transaction leaves the pager as it was.
\<close>

section \<open>Mutations keep the undo invariant\<close>

lemma on_executor_kept [undo_kept]:
  assumes "undo_kept fst b crc m"
  shows "undo_kept fst b crc (on_executor m)"
  unfolding undo_kept_def keeps_o_def
proof (intro impI allI)
  fix s r s' assume b: "settled b" and inv: "undo_inv crc b (fst s)" and run: "on_executor m s = Some (r, s')"
  obtain p ex g where s: "s = (p, ex, g)" using prod_cases3 by blast
  obtain ex' where m: "m (p, ex) = Some (r, fst s', ex')"
    using run by (auto simp: s on_executor_def split: option.splits)
  have "keeps_o (\<lambda>s. undo_inv crc b (fst s)) m" using assms b by (simp add: undo_kept_def)
  from keeps_oD [OF this _ m] inv show "undo_inv crc b (fst s')" by (simp add: s)
qed

lemma on_graph_kept [undo_kept]: "undo_kept fst b crc (on_graph m)"
  by (auto simp: undo_kept_def keeps_o_def on_graph_def split: prod.splits)

lemma look_first_kept [undo_kept]:
  "(\<And>ex. undo_kept fst b crc (m ex)) \<Longrightarrow> undo_kept fst b crc (with_executor m)"
  "(\<And>cat. undo_kept fst b crc (n cat)) \<Longrightarrow> undo_kept fst b crc (with_catalog n)"
  "(\<And>g. undo_kept fst b crc (m' g)) \<Longrightarrow> undo_kept fst b crc (with_graph m')"
  by (auto simp: undo_kept_def keeps_o_def with_executor_def with_catalog_def with_graph_def)

lemma on_schema_kept [undo_kept]: "undo_kept fst b crc m \<Longrightarrow> undo_kept fst b crc (on_schema m)"
  unfolding on_schema_def by (intro undo_kept)

lemma graph_rows_kept [undo_kept]:
  "undo_kept fst b (se_crc env) (system_root env name)" "undo_kept fst b (se_crc env) (put_row env root rid json msg)"
  "undo_kept fst b (se_crc env) (load_graph_node_adjacency env root nid)"
  unfolding system_root_def put_row_def load_graph_node_adjacency_def by (intro undo_kept)+

lemma graph_statements_kept [undo_kept]:
  "undo_kept fst b (se_crc env) (graph_insert_node env nid lbl props)"
  "undo_kept fst b (se_crc env) (graph_insert_edge env from_id to_id lbl weight props)"
  unfolding graph_insert_node_def graph_insert_edge_def persist_graph_node_def persist_graph_edge_def Let_def
  by (intro undo_kept)+

lemma put_vectors_kept [undo_kept]: "undo_kept fst b crc (put_vectors key index)"
  unfolding put_vectors_def by (intro undo_kept)

lemma clear_root_kept [undo_kept]: "undo_kept fst b (se_crc env) (clear_root env root)"
  unfolding clear_root_def by (intro undo_kept)

lemma new_root_kept [undo_kept]: "undo_kept (\<lambda>p. p) b (de_crc env) (new_root env)"
  unfolding new_root_def by (intro undo_kept; rule undo_kept_self; intro undo_kept)

lemma build_index_kept [undo_kept]: "undo_kept (\<lambda>p. p) b (se_crc env) (build_index env td column)"
  unfolding build_index_def store_bucket_def by (intro undo_kept)

lemma schema_statements_kept [undo_kept]:
  "undo_kept fst b (se_crc env) (statement_create_table env name ine columns versioning)"
  "undo_kept fst b (se_crc env) (statement_create_index env name ine table column)"
  "undo_kept fst b (se_crc env) (drop_indexes_of env table)"
  "undo_kept fst b (se_crc env) (statement_drop_table env table ie)"
  "undo_kept fst b (se_crc env) (statement_drop_index env name ie)"
  "undo_kept fst b (se_crc env) (statement_create_view env name ine query_sql)"
  "undo_kept fst b (se_crc env) (statement_drop_view env name ie)"
  unfolding statement_create_table_def statement_create_index_def drop_indexes_of_def statement_drop_table_def statement_drop_index_def
    statement_create_view_def statement_drop_view_def Let_def
  by (intro undo_kept)+

lemma insert_many_kept [undo_kept]:
  "undo_kept fst b (de_crc env) (insert_many env table columns conflict returning rows res)"
proof (induction rows arbitrary: res)
  case (Cons vals rows)
  then show ?case by (cases res) (auto intro!: undo_kept simp del: om_simps)
qed (simp add: undo_kept del: om_simps)

lemma row_statement_kept [undo_kept]:
  "row_statement env stmt = Some m \<Longrightarrow> undo_kept fst b (de_crc env) m"
  by (cases stmt) (auto simp: row_statement_def intro!: undo_kept)

lemma execute_inner_kept:
  assumes "execute_inner env stmt = Some m"
  shows "undo_kept fst b (se_crc env) m"
  using assms
  by (cases stmt) (auto simp: execute_inner_def row_statement_def intro!: undo_kept simp del: om_simps)

section \<open>Reloading reads only\<close>

text \<open>A pager outside transactions with the header and the pages of \<open>b\<close>, and \<open>d1\<close> as page 1.\<close>

definition at_rest :: "pager \<Rightarrow> bytes \<Rightarrow> pager \<Rightarrow> bool" where
  "at_rest b d1 q \<longleftrightarrow> backing_like q b \<and> pg_header q = pg_header b \<and> pg_tx q = None \<and> pg_named q = [] \<and>
     pg_pages q 1 = Some d1 \<and>
     (\<forall>pid d. 1 < pid \<and> pid \<le> total_pages b \<and> pg_pages q pid = Some d \<longrightarrow> page_view b pid = Some d)"

lemma at_rest_view:
  assumes b: "settled b" and q: "at_rest b d1 q" and pid: "pid \<noteq> 1"
  shows "page_view q pid = page_view b pid"
proof (cases "0 < pid \<and> pid \<le> total_pages b")
  case True
  then have big: "1 < pid" using word_gt_1 pid by blast
  have n: "total_pages q = total_pages b" using q by (simp add: at_rest_def total_pages_def)
  show ?thesis
  proof (cases "pg_pages q pid")
    case (Some d)
    then show ?thesis using q big True n by (auto simp: at_rest_def page_view_def)
  next
    case None
    then have "page_view q pid = stored_page b pid"
      using backing_like_stored [of q b pid] q True n by (auto simp: at_rest_def page_view_def)
    moreover have "page_view b pid = stored_page b pid"
      using b big True by (auto simp: settled_def page_view_def split: option.splits)
    ultimately show ?thesis by simp
  qed
next
  case False
  then show ?thesis using q by (auto simp: at_rest_def page_view_def total_pages_def word_gt_0)
qed

lemma at_rest_read:
  assumes b: "settled b" and q: "at_rest b d1 q" and r: "read_only_step q q'"
  shows "at_rest b d1 q'"
proof -
  have bl: "backing_like q b" using q by (simp add: at_rest_def)
  have at: "pg_pages q' pid = pg_pages q pid \<or> (evictable q pid \<and> pg_pages q' pid = None) \<or>
      (pg_pages q pid = None \<and> pg_pages q' pid = stored_page q pid)" for pid
    using r by (simp add: read_only_step_def)
  have one: "pg_pages q' 1 = Some d1" using at [of 1] q by (auto simp: at_rest_def evictable_def)
  have "page_view b pid = Some d" if pid: "1 < pid" "pid \<le> total_pages b" "pg_pages q' pid = Some d" for pid d
  proof (cases "pg_pages q pid")
    case None
    then have "stored_page b pid = Some d" using at [of pid] pid(3) backing_like_stored [OF bl, of pid] by auto
    then show ?thesis by (rule settled_view [OF b pid(1,2)])
  next
    case (Some x)
    then show ?thesis using at [of pid] pid q by (auto simp: at_rest_def)
  qed
  then show ?thesis
    using q r one backing_like_trans [of q' q b] by (auto simp: at_rest_def read_only_step_def)
qed

definition rest_kept :: "('s \<Rightarrow> pager) \<Rightarrow> pager \<Rightarrow> bytes \<Rightarrow> ('s, 'a) om \<Rightarrow> bool" where
  "rest_kept pg b d1 m \<longleftrightarrow> (settled b \<longrightarrow> keeps_o (\<lambda>s. at_rest b d1 (pg s)) m)"

named_theorems rest_kept

lemma rest_kept_rules [rest_kept]:
  "rest_kept pg b d1 m \<Longrightarrow> (\<And>x. rest_kept pg b d1 (f x)) \<Longrightarrow> rest_kept pg b d1 (bind_o m f)"
  "rest_kept pg b d1 (ret_o y)" "rest_kept pg b d1 (fail_o e)" "rest_kept pg b d1 (\<lambda>_. None)"
  "rest_kept pg b d1 (run_o (lift_s res))" "rest_kept pg b d1 (lift_o res)"
  "rest_kept pg b d1 m \<Longrightarrow> rest_kept pg b d1 n \<Longrightarrow> rest_kept pg b d1 (if c then m else n)"
  "rest_kept pg b d1 m \<Longrightarrow> (\<And>v. rest_kept pg b d1 (g v)) \<Longrightarrow> rest_kept pg b d1 (case opt of None \<Rightarrow> m | Some v \<Rightarrow> g v)"
  "(\<And>l r. rest_kept pg b d1 (h l r)) \<Longrightarrow> rest_kept pg b d1 (case pr of (l, r) \<Rightarrow> h l r)"
  "(\<And>e. rest_kept pg b d1 (g' e)) \<Longrightarrow> (\<And>v. rest_kept pg b d1 (g v)) \<Longrightarrow>
   rest_kept pg b d1 (case res of Inl e \<Rightarrow> g' e | Inr v \<Rightarrow> g v)"
  by (simp_all add: rest_kept_def keeps_o_rules lift_o_def split: option.splits prod.splits sum.splits)

lemma rest_kept_self: "(\<And>q. rest_kept pg b d1 (F q)) \<Longrightarrow> rest_kept pg b d1 (\<lambda>p. F p p)"
  by (simp add: rest_kept_def keeps_o_self)

lemma read_rest [rest_kept]: "rest_kept (\<lambda>p. p) b d1 (run_o (read_page pid))"
  unfolding rest_kept_def keeps_o_def using at_rest_read read_page_read_only by (auto simp: run_o_def)

lemma read_chain_rest [rest_kept]: "rest_kept (\<lambda>p. p) b d1 (read_chain fuel psize cur out)"
  by (induction fuel arbitrary: cur out) (auto intro!: rest_kept)

lemma with_overflow_rest [rest_kept]: "rest_kept (\<lambda>p. p) b d1 (with_overflow fuel payload ovf)"
  unfolding with_overflow_def read_overflow_chain_def [abs_def]
  by (intro rest_kept; rule rest_kept_self; rule read_chain_rest)

lemma beside_rest [rest_kept]:
  "rest_kept (\<lambda>p. p) b d1 q \<Longrightarrow> rest_kept fst b d1 (on_pager q)" "rest_kept fst b d1 (on_callback cb x)"
  by (auto simp: rest_kept_def keeps_o_def on_pager_def on_callback_def split: option.splits prod.splits)

lemma each_rest [rest_kept]:
  "(\<And>x. rest_kept pg b d1 (f x)) \<Longrightarrow> rest_kept pg b d1 (until_false f xs)"
  "(\<And>x. rest_kept pg b d1 (f' x)) \<Longrightarrow> rest_kept pg b d1 (each_o f' xs)"
  by (induction xs) (auto intro!: rest_kept simp del: om_simps)

lemma scan_cell_rest [rest_kept]: "rest_kept fst b d1 (scan_cell fuel pid page cb i)"
  unfolding scan_cell_def by (intro rest_kept)

lemma scan_child_rest [rest_kept]: "(\<And>q. rest_kept fst b d1 (sub q)) \<Longrightarrow> rest_kept fst b d1 (scan_child sub page pid i)"
  unfolding scan_child_def by (intro rest_kept)

lemma scan_subtree_rest [rest_kept]: "rest_kept fst b d1 (scan_subtree_with fuel cb pid)"
proof (induction fuel arbitrary: pid)
  case (Suc fuel)
  then show ?case unfolding scan_subtree_with.simps by (auto intro!: rest_kept split: page_type.splits)
qed (simp add: rest_kept)

lemma scan_rest [rest_kept]: "rest_kept (\<lambda>p. p) b d1 (btree_scan fuel root)"
  unfolding rest_kept_def keeps_o_def
proof (intro impI allI)
  fix p r p' assume b: "settled b" and rest: "at_rest b d1 p" and run: "btree_scan fuel root p = Some (r, p')"
  let ?m = "scan_subtree_with fuel (\<lambda>cell cells. (Inr True, cells @ [cell])) root"
  obtain r1 cells where m: "?m (p, []) = Some (r1, p', cells)"
    using run by (auto simp: btree_scan_def split: option.splits sum.splits prod.splits)
  have "keeps_o (\<lambda>s. at_rest b d1 (fst s)) ?m" using scan_subtree_rest [of b d1 fuel] b by (simp add: rest_kept_def)
  from keeps_oD [OF this _ m] rest show "at_rest b d1 p'" by simp
qed

lemma scan_if_ok_rest [rest_kept]: "rest_kept (\<lambda>p. p) b d1 (scan_if_ok fuel root)"
  using scan_rest [of b d1 fuel root]
  by (auto simp: rest_kept_def keeps_o_def scan_if_ok_def split: option.splits sum.splits prod.splits)

lemma on_executor_rest [rest_kept]: "rest_kept fst b d1 (on_executor (put_ex f))" "rest_kept fst b d1 (on_graph m)"
  by (auto simp: rest_kept_def keeps_o_def on_executor_def put_ex_def on_graph_def split: prod.splits)

lemma with_catalog_rest [rest_kept]: "(\<And>cat. rest_kept fst b d1 (m cat)) \<Longrightarrow> rest_kept fst b d1 (with_catalog m)"
  by (auto simp: rest_kept_def keeps_o_def with_catalog_def with_executor_def)

lemma load_graph_rest [rest_kept]: "rest_kept fst b d1 (load_graph_from_disk env)"
  unfolding load_graph_from_disk_def load_rows_def by (intro rest_kept)

lemma put_vectors_rest [rest_kept]: "rest_kept fst b d1 (put_vectors key index)"
  unfolding put_vectors_def by (intro rest_kept)

lemma fingerprint_rest [rest_kept]: "rest_kept (\<lambda>p. p) b d1 (table_fingerprint env cat table)"
  unfolding table_fingerprint_def by (intro rest_kept)

lemma load_snapshots_rest [rest_kept]: "rest_kept fst b d1 (load_snapshots env cat cells loaded)"
  by (induction cells arbitrary: loaded) (auto intro!: rest_kept split: option.splits simp del: om_simps)

lemma rebuild_vectors_rest [rest_kept]: "rest_kept fst b d1 (rebuild_vectors env loaded td)"
  unfolding rebuild_vectors_def by (intro rest_kept)

lemma at_state_rest: "(\<And>q x. rest_kept fst b d1 (F q x)) \<Longrightarrow> rest_kept fst b d1 (\<lambda>(p, ex, g). F p ex (p, ex, g))"
  by (auto simp: rest_kept_def keeps_o_def)

lemma load_vectors_rest [rest_kept]: "rest_kept fst b d1 (load_vector_indexes_from_disk env)"
  unfolding load_vector_indexes_from_disk_def by (intro rest_kept; rule at_state_rest; intro rest_kept)

lemma catalog_load_rest [rest_kept]:
  assumes "read_page_header d1 1 = Inr h"
  shows "rest_kept (\<lambda>p. p) b d1 (catalog_load sc fuel crc)"
  unfolding rest_kept_def
proof (intro impI)
  assume b: "settled b"
  show "keeps_o (at_rest b d1) (catalog_load sc fuel crc)"
    unfolding keeps_o_def
  proof (intro impI allI)
    fix p r p' assume rest: "at_rest b d1 p" and run: "catalog_load sc fuel crc p = Some (r, p')"
    obtain r1 p1 where p1: "read_page 1 p = (r1, p1)" by force
    have rest1: "at_rest b d1 p1" using at_rest_read [OF b rest] read_page_read_only [OF p1] by blast
    show "at_rest b d1 p'"
    proof (cases r1)
      case (Inl e)
      then show ?thesis using run p1 rest1 by (simp add: catalog_load_def bind_o_def)
    next
      case (Inr d)
      have "0 < total_pages p" using b rest by (simp add: at_rest_def settled_def total_pages_def)
      then have "page_view p 1 = Some d1" using rest inc_le [of 0 "total_pages p"] by (auto simp: page_view_def at_rest_def)
      then have "d = d1" using read_page_read_only [OF p1] Inr by simp
      then have "bind_o (btree_scan fuel 1) (\<lambda>cells. run_o (lift_s (fold_r (load_cell sc) cells catalog_new))) p1 = Some (r, p')"
        using run p1 Inr assms by (simp add: catalog_load_def bind_o_run)
      moreover have "rest_kept (\<lambda>p. p) b d1 (bind_o (btree_scan fuel 1) (\<lambda>cells. run_o (lift_s (fold_r (load_cell sc) cells catalog_new))))"
        by (intro rest_kept)
      ultimately show ?thesis using keeps_oD [of "at_rest b d1"] b rest1 unfolding rest_kept_def by blast
    qed
  qed
qed

lemma reload_rest:
  "read_page_header d1 1 = Inr h \<Longrightarrow> rest_kept fst b d1 (reload_from_pager env)"
  unfolding reload_from_pager_def by (intro rest_kept)

section \<open>Rolling back and reloading\<close>

lemma rollback_rest:
  assumes "settled b" "undo_inv crc b p" "pg_pages b 1 = Some d1"
  shows "at_rest b (patch_header crc (pg_header b) d1) (snd (rollback_transaction crc p))"
proof -
  let ?p' = "snd (rollback_transaction crc p)"
  have *: "backing_like ?p' b" "pg_tx ?p' = None" "pg_named ?p' = []" "pg_header ?p' = pg_header b"
    "pg_pages ?p' 1 = Some (patch_header crc (pg_header b) d1)" "\<And>pid. pid \<noteq> 1 \<Longrightarrow> page_view ?p' pid = page_view b pid"
    using rollback_undoes [OF assms(1,2)] assms(3) by auto
  have "page_view b pid = Some d" if "1 < pid" "pid \<le> total_pages b" "pg_pages ?p' pid = Some d" for pid d
    using that *(6) [of pid] *(4) by (auto simp: page_view_def total_pages_def)
  then show ?thesis using * by (simp add: at_rest_def)
qed

lemma statement_failed_rest:
  assumes "settled b" "undo_inv (se_crc env) b p1" "pg_pages b 1 = Some d1"
    "read_page_header (patch_header (se_crc env) (pg_header b) d1) 1 = Inr h"
    "statement_failed env True savepoint e (p1, st1) = Some (r, p', st')"
  shows "(\<exists>e'. r = Inl e') \<and> at_rest b (patch_header (se_crc env) (pg_header b) d1) p'"
proof -
  let ?d = "patch_header (se_crc env) (pg_header b) d1"
  obtain r2 p2 where p2: "rollback_transaction (se_crc env) p1 = (r2, p2)" by force
  have rest: "at_rest b ?d p2" using rollback_rest [OF assms(1-3)] p2 by simp
  show ?thesis
  proof (cases r2)
    case (Inl e2)
    then show ?thesis using assms(5) p2 rest by (auto simp: statement_failed_def pager_step_def on_pager_def bind_o_def)
  next
    case (Inr u)
    then have run: "bind_o (reload_from_pager env) (\<lambda>_. fail_o e) (p2, st1) = Some (r, p', st')"
      using assms(5) p2 by (simp add: statement_failed_def pager_step_def on_pager_def bind_o_def [of "on_pager _"])
    have "rest_kept fst b ?d (bind_o (reload_from_pager env) (\<lambda>_. fail_o e :: ('a, 'b) stmt_step))"
      by (intro rest_kept reload_rest [OF assms(4)])
    then have "keeps_o (\<lambda>s. at_rest b ?d (fst s)) (bind_o (reload_from_pager env) (\<lambda>_. fail_o e :: ('a, 'b) stmt_step))"
      using assms(1) by (simp add: rest_kept_def)
    from keeps_oD [OF this _ run] have "at_rest b ?d p'" using rest by simp
    moreover have "\<exists>e'. r = Inl e'" using run by (auto simp: bind_o_def split: option.splits sum.splits prod.splits)
    ultimately show ?thesis by blast
  qed
qed

lemma atomic_undone:
  assumes "settled p" "pg_pages p 1 = Some d1"
    "read_page_header (patch_header (se_crc env) (pg_header p) d1) 1 = Inr h"
    "undo_kept fst p (se_crc env) operation" "begin_transaction p = (Inr (), p0)"
    "operation (p0, st) = Some (Inl e, p1, st1)" "e \<noteq> Panic"
    "atomic_statement env operation (p, st) = Some (r, p', st')"
  shows "(\<exists>e'. r = Inl e') \<and> at_rest p (patch_header (se_crc env) (pg_header p) d1) p'"
proof -
  have "keeps_o (\<lambda>s. undo_inv (se_crc env) p (fst s)) operation" using assms(1,4) by (simp add: undo_kept_def)
  from keeps_oD [OF this _ assms(6)] have inv: "undo_inv (se_crc env) p p1" using begin_inv [OF assms(1,5)] by simp
  have "\<not> is_in_transaction p" using assms(1) by (simp add: settled_def is_in_transaction_def)
  then have "statement_failed env True (statement_savepoint p) e (p1, st1) = Some (r, p', st')"
    using assms(5-8)
    by (simp add: atomic_statement_def pager_step_def on_pager_def catching_def bind_o_def Let_def)
  from statement_failed_rest [OF assms(1) inv assms(2,3) this] show ?thesis .
qed

text \<open>C5: A statement that changes the database, run outside a transaction and failing with an error, leaves the
  header and every page as they were, whatever it had written before; \<open>execute\<close> returns an error.\<close>

theorem failed_statement_undone:
  assumes "settled p" "pg_pages p 1 = Some d1"
    "read_page_header (patch_header (se_crc env) (pg_header p) d1) 1 = Inr h"
    "execute_inner env stmt = Some operation" "begin_transaction p = (Inr (), p0)"
    "operation (p0, st) = Some (Inl e, p1, st1)" "e \<noteq> Panic"
    "execute_mutation env stmt = Some run" "run (p, st) = Some (r, p', st')"
  shows "(\<exists>e'. r = Inl e') \<and> pg_tx p' = None \<and> pg_header p' = pg_header p \<and>
    pg_pages p' 1 = Some (patch_header (se_crc env) (pg_header p) d1) \<and>
    (\<forall>pid. pid \<noteq> 1 \<longrightarrow> page_view p' pid = page_view p pid)"
proof -
  have run: "atomic_statement env operation (p, st) = Some (r, p', st')"
    using assms(4,8,9) by (simp add: execute_mutation_def)
  have "(\<exists>e'. r = Inl e') \<and> at_rest p (patch_header (se_crc env) (pg_header p) d1) p'"
    by (rule atomic_undone [OF assms(1-3) execute_inner_kept [OF assms(4)] assms(5-7) run])
  then show ?thesis using at_rest_view [OF assms(1)] by (auto simp: at_rest_def)
qed

section \<open>A failing CREATE TABLE\<close>

text \<open>A database of one page, an empty leaf, and a statement that fails after it has written a page.\<close>

definition rest_header :: page_header where
  "rest_header = \<lparr>ph_page_type = TableLeaf, ph_flags = 0, ph_num_cells = 0, ph_cell_content_offset = 139,
     ph_first_freeblock = 0, ph_right_child = None\<rparr>"

definition rest_page :: bytes where "rest_page = replicate 100 0 @ header_to_bytes rest_header @ replicate 71 0"

definition rest_pager :: pager where
  "rest_pager = sample_pager
     \<lparr>pg_header := (pg_header sample_pager)\<lparr>dh_page_size := 179, dh_total_pages := 1\<rparr>, pg_pages := [1 \<mapsto> rest_page]\<rparr>"

definition rest_env :: "unit stmt_env" where
  "rest_env = \<lparr>se_rows = sample_env, se_node_json = \<lambda>_. Inl Panic, se_parse_node = \<lambda>_. None, se_edge_json = \<lambda>_. Inl Panic,
     se_parse_edge = \<lambda>_. None, se_adj_json = \<lambda>_. Inl Panic, se_parse_adj = \<lambda>_. None, se_parse_snapshot = \<lambda>_. None,
     se_tables = \<lambda>_. [], se_buckets = \<lambda>_. []\<rparr>"

definition rest_session :: "unit session" where "rest_session = (sample_ex\<lparr>ex_catalog := catalog_new\<rparr>, graph_new)"

lemma rest_fields [simp]:
  "pg_tx rest_pager = None" "pg_named rest_pager = []" "pg_writer rest_pager = False" "pg_pages rest_pager = [1 \<mapsto> rest_page]"
  "total_pages rest_pager = 1" "page_size rest_pager = 179" "ensure_io_ready rest_pager = Inr ()" "read_only_remote rest_pager = False"
  "dh_freelist_count (pg_header rest_pager) = 0" "dh_vector_index_page (pg_header rest_pager) = 0"
  by (simp_all add: rest_pager_def sample_pager_def empty_pager_def total_pages_def page_size_def ensure_io_ready_def
      requires_reopen_def wal_open_in_memory_def wal_empty_def read_only_remote_def db_header_new_def db_header_default_def Let_def)

lemma rest_settled: "settled rest_pager"
proof -
  have "\<not> (1 < pid \<and> pid \<le> (1 :: page_id))" for pid by auto
  moreover have "w_index w = index_of (w_frames w)" if "pg_wal rest_pager = Some w" for w
    using that by (auto simp: rest_pager_def sample_pager_def empty_pager_def wal_open_in_memory_def wal_empty_def index_of_def)
  ultimately show ?thesis by (simp add: settled_def)
qed

lemma rest_page_header: "read_page_header (patch_header crc (pg_header rest_pager) rest_page) 1 = Inr rest_header"
proof -
  let ?hb = "db_header_to_bytes crc (pg_header rest_pager)"
  have "length ?hb = 100"
    using length_db_header_to_bytes [of "pg_header rest_pager" crc]
    by (simp add: rest_pager_def sample_pager_def empty_pager_def db_header_new_def db_header_default_def Let_def DATABASE_HEADER_SIZE_def)
  moreover have "length rest_page = 179"
    by (simp add: rest_page_def rest_header_def header_size_def is_interior_def)
  ultimately have "patch_header crc (pg_header rest_pager) rest_page = ?hb @ header_to_bytes rest_header @ replicate 71 0"
    by (simp add: patch_header_def Let_def rest_page_def)
  moreover have "page_repr 1 (?hb @ header_to_bytes rest_header @ enc_ptrs [] @ replicate 31 0 @ replicate 40 0)
      ?hb rest_header [] (replicate 31 0) (replicate 40 0)"
    using \<open>length ?hb = 100\<close>
    by (simp add: page_repr_def rest_header_def page_header_offset_def wf_header_def is_interior_def header_size_def
        PAGE_RESERVED_TRAILER_def DATABASE_HEADER_SIZE_def)
  moreover have "(replicate 31 0 @ replicate 40 0 :: bytes) = replicate 71 0" by (simp add: replicate_add [symmetric])
  ultimately show ?thesis using read_page_header_repr [of 1] by (simp add: enc_ptrs_def)
qed

lemma rest_begin:
  obtains p0 where "begin_transaction rest_pager = (Inr (), p0)" "writable p0" "page_size p0 = 179" "total_pages p0 = 1"
    "dh_freelist_count (pg_header p0) = 0"
proof
  let ?p = "rest_pager\<lparr>pg_tx := Some \<lparr>sp_header = pg_header rest_pager, sp_undo = (\<lambda>_. None), sp_dirty = {},
      sp_total_pages = total_pages rest_pager, sp_wal_frames = wal_frame_count rest_pager\<rparr>\<rparr>"
  show "begin_transaction rest_pager = (Inr (), ?p)" by (simp add: begin_transaction_def)
  have "pages_match ?p" by (auto simp: pages_match_def evictable_def split: if_splits)
  then show "writable ?p"
    using rest_fields by (simp add: writable_def ensure_io_ready_def is_in_transaction_def read_only_remote_def)
  show "page_size ?p = 179" "total_pages ?p = 1" "dh_freelist_count (pg_header ?p) = 0"
    using rest_fields by (simp_all add: page_size_def total_pages_def)
qed

lemma rest_new_root:
  assumes "writable p0" "page_size p0 = 179" "total_pages p0 = 1" "dh_freelist_count (pg_header p0) = 0"
  shows "\<exists>p1. new_root sample_env p0 = Some (Inr 2, p1)"
proof -
  obtain p1 where p1: "allocate_page (de_crc sample_env) p0 = (Inr (total_pages p0 + 1), p1)" "writable p1"
    "page_size p1 = page_size p0"
    "page_view p1 (total_pages p0 + 1) = Some (replicate (page_size p0) 0) \<or> total_pages p0 = 0"
    by (rule allocate_page_view [OF assms(1,4), of "de_crc sample_env"]) (use assms(3) in auto)
  have "case init_leaf_page (replicate 179 0) 2 of Inr buf \<Rightarrow> length buf = 179 | Inl e \<Rightarrow> False" by code_simp
  then obtain buf where buf: "init_leaf_page (replicate 179 0) 2 = Inr buf" "length buf = 179" by (auto split: sum.splits)
  have v: "page_view p1 2 = Some (replicate 179 0)" using p1(4) assms(2,3) by simp
  obtain p2 where "write_page (de_crc sample_env) 2 buf p1 = (Inr (), p2)"
    by (rule write_page_view [OF p1(2) v, of buf "de_crc sample_env"]) (use buf p1(3) assms(2) in auto)
  then show ?thesis
    using p1(1,3) buf assms(2,3) by (simp add: new_root_def bind_o_run lift_o_def)
qed

abbreviation rest_statement :: statement where "rest_statement \<equiv> CreateTable ''t'' False [] False"

lemma rest_operation:
  assumes "writable p0" "page_size p0 = 179" "total_pages p0 = 1" "dh_freelist_count (pg_header p0) = 0"
  shows "\<exists>p1 st1. statement_create_table rest_env ''t'' False [] False (p0, rest_session) =
    Some (Inl (Corrupted ''Failed to serialize table def: {e}''), p1, st1)"
proof -
  obtain p1 where p1: "new_root sample_env p0 = Some (Inr 2, p1)" using rest_new_root [OF assms] by blast
  have "first_vector_column (table_def_new ''t'' 2 []) = None" by code_simp
  moreover have "first_vector_column ((table_def_new ''t'' 2 [])\<lparr>td_system_versioning := v\<rparr>) = None" for v
    by (simp add: first_vector_column_def position_def table_def_new_def)
  ultimately show ?thesis
    using p1
    by (simp add: statement_create_table_def with_executor_def rest_session_def table_exists_def catalog_new_def rest_env_def
        on_pager_def bind_o_def on_schema_def on_executor_def on_catalog_def create_table_def store_new_def take_id_def
        sample_env_def sample_codec_def sample_table_def table_def_new_def Let_def run_o_def lift_s_def ret_o_def)
qed

lemma rest_read:
  assumes "at_rest rest_pager d1 q" "read_page 1 q = (Inr d, q')"
  shows "d = d1" "at_rest rest_pager d1 q'"
proof -
  have "pg_header q = pg_header rest_pager" "pg_pages q 1 = Some d1" using assms(1) by (simp_all add: at_rest_def)
  moreover from this(1) have "total_pages q = 1" using rest_fields(5) by (simp add: total_pages_def)
  ultimately have "page_view q 1 = Some d1" by (simp add: page_view_def)
  then show "d = d1" using read_page_read_only [OF assms(2)] by simp
  show "at_rest rest_pager d1 q'" using at_rest_read [OF rest_settled assms(1)] read_page_read_only [OF assms(2)] by blast
qed

lemma rest_scan:
  assumes "read_page_header d1 1 = Inr rest_header" "at_rest rest_pager d1 q"
  shows "\<exists>r q'. btree_scan (Suc n) 1 q = Some (r, q') \<and> (\<forall>cells. r = Inr cells \<longrightarrow> cells = [])"
proof -
  obtain r q' where r: "read_page 1 q = (r, q')" by force
  show ?thesis
  proof (cases r)
    case (Inl e)
    then show ?thesis using r by (simp add: btree_scan_def on_pager_def bind_o_def)
  next
    case (Inr d)
    then show ?thesis using r rest_read(1) [OF assms(2)] assms(1)
      by (simp add: btree_scan_def on_pager_def bind_o_def rest_header_def)
  qed
qed

lemma rest_catalog:
  assumes "read_page_header d1 1 = Inr rest_header" "at_rest rest_pager d1 q"
  shows "\<exists>r q'. catalog_load (se_schema rest_env) (se_fuel rest_env) (se_crc rest_env) q = Some (r, q') \<and>
    (\<forall>cat. r = Inr cat \<longrightarrow> cat = catalog_new \<and> at_rest rest_pager d1 q')"
proof -
  obtain r q1 where r: "read_page 1 q = (r, q1)" by force
  have kept: "keeps_o (at_rest rest_pager d1) (catalog_load (se_schema rest_env) (se_fuel rest_env) (se_crc rest_env))"
    using catalog_load_rest [OF assms(1), of rest_pager "se_schema rest_env"] rest_settled by (simp add: rest_kept_def)
  have "\<exists>r q'. catalog_load (se_schema rest_env) (se_fuel rest_env) (se_crc rest_env) q = Some (r, q') \<and>
    (\<forall>cat. r = Inr cat \<longrightarrow> cat = catalog_new)"
  proof (cases r)
    case (Inl e)
    then show ?thesis using r by (simp add: catalog_load_def bind_o_def)
  next
    case (Inr d)
    have d: "d = d1" "at_rest rest_pager d1 q1" using rest_read [OF assms(2)] r Inr by auto
    obtain r2 q2 where scan: "btree_scan (Suc 2) 1 q1 = Some (r2, q2)" "\<And>cells. r2 = Inr cells \<Longrightarrow> cells = []"
      using rest_scan [OF assms(1) d(2), of 2] by blast
    have "se_fuel rest_env = Suc 2" by (simp add: rest_env_def sample_env_def)
    then show ?thesis using r Inr d(1) assms(1) scan
      by (cases r2) (simp_all add: catalog_load_def bind_o_def)
  qed
  then show ?thesis using keeps_oD [OF kept assms(2)] by blast
qed

lemma rest_reload:
  assumes "read_page_header d1 1 = Inr rest_header" "at_rest rest_pager d1 q"
  shows "reload_from_pager rest_env (q, st) \<noteq> None"
proof -
  obtain r q' where load: "catalog_load (se_schema rest_env) (se_fuel rest_env) (se_crc rest_env) q = Some (r, q')"
    "\<And>cat. r = Inr cat \<Longrightarrow> cat = catalog_new \<and> at_rest rest_pager d1 q'"
    using rest_catalog [OF assms] by blast
  obtain ex g where st: "st = (ex, g)" by force
  show ?thesis
  proof (cases r)
    case (Inl e)
    then show ?thesis using load(1) by (simp add: reload_from_pager_def on_pager_def bind_o_def)
  next
    case (Inr cat)
    then have cat: "cat = catalog_new" "dh_vector_index_page (pg_header q') = 0"
      using load(2) by (simp_all add: at_rest_def)
    have tabs: "se_tables rest_env c = []" for c by (simp add: rest_env_def)
    show ?thesis using load(1) Inr cat(2) tabs unfolding cat(1)
      by (simp add: reload_from_pager_def on_pager_def bind_o_def on_executor_def put_ex_def st load_graph_from_disk_def load_rows_def
          with_catalog_def with_executor_def get_table_def catalog_new_def load_vector_indexes_from_disk_def snapshot_root_def)
  qed
qed

text \<open>A statement that fails with an error is rolled back and the reload returns.\<close>

lemma rest_failing_run:
  assumes "execute_inner rest_env stmt = Some op" "begin_transaction rest_pager = (Inr (), p0)"
    "op (p0, rest_session) = Some (Inl e, p1, st1)" "e \<noteq> Panic"
  shows "\<exists>r p' st'. atomic_statement rest_env op (rest_pager, rest_session) = Some (r, p', st')"
proof -
  have run: "atomic_statement rest_env op (rest_pager, rest_session) =
      statement_failed rest_env True (statement_savepoint rest_pager) e (p1, st1)"
    using assms(2-4) by (simp add: atomic_statement_def pager_step_def on_pager_def catching_def bind_o_def Let_def is_in_transaction_def)
  have kept: "keeps_o (\<lambda>s. undo_inv (se_crc rest_env) rest_pager (fst s)) op"
    using execute_inner_kept [OF assms(1), of rest_pager] rest_settled by (simp add: undo_kept_def)
  have inv: "undo_inv (se_crc rest_env) rest_pager p1"
    using keeps_oD [OF kept _ assms(3)] begin_inv [OF rest_settled assms(2)] by simp
  obtain r2 p2 where p2: "rollback_transaction (se_crc rest_env) p1 = (r2, p2)" by force
  have rest: "at_rest rest_pager (patch_header (se_crc rest_env) (pg_header rest_pager) rest_page) p2"
    using rollback_rest [OF rest_settled inv, of rest_page] p2 by simp
  have "reload_from_pager rest_env (p2, st1) \<noteq> None" by (rule rest_reload [OF rest_page_header rest])
  then have "atomic_statement rest_env op (rest_pager, rest_session) \<noteq> None"
    unfolding run using p2
    by (cases r2) (auto simp: statement_failed_def pager_step_def on_pager_def bind_o_def split: option.splits sum.splits)
  then show ?thesis by auto
qed

theorem failed_statement_undone_witness:
  "\<exists>run r p' st'. execute_mutation rest_env rest_statement = Some run \<and> run (rest_pager, rest_session) = Some (r, p', st') \<and>
     (\<exists>e'. r = Inl e') \<and> pg_header p' = pg_header rest_pager \<and>
     (\<forall>pid. pid \<noteq> 1 \<longrightarrow> page_view p' pid = page_view rest_pager pid)"
proof -
  obtain p0 where p0: "begin_transaction rest_pager = (Inr (), p0)" "writable p0" "page_size p0 = 179" "total_pages p0 = 1"
    "dh_freelist_count (pg_header p0) = 0" by (rule rest_begin)
  let ?op = "statement_create_table rest_env ''t'' False [] False"
  obtain p1 st1 where op: "?op (p0, rest_session) = Some (Inl (Corrupted ''Failed to serialize table def: {e}''), p1, st1)"
    using rest_operation [OF p0(2-5)] by blast
  have inner: "execute_inner rest_env rest_statement = Some ?op" by (simp add: execute_inner_def)
  have mut: "execute_mutation rest_env rest_statement = Some (atomic_statement rest_env ?op)"
    by (simp add: execute_mutation_def inner)
  obtain r p' st' where final: "atomic_statement rest_env ?op (rest_pager, rest_session) = Some (r, p', st')"
    using rest_failing_run [OF inner p0(1) op] by auto
  from failed_statement_undone [OF rest_settled _ rest_page_header inner p0(1) op _ mut final]
  show ?thesis using mut final by auto
qed

end
