(* ===== verification/Sql_Reload.thy ===== *)
theory Sql_Reload
  imports Sql_Atomic Graph_Inv
begin

text \<open>
  What reloading does to the graph in memory: \<^verbatim>\<open>reload_from_pager\<close> restores the rows of the graph over the graph
  there is, so a statement that fails leaves its node behind and lists every edge twice.
\<close>

section \<open>Rows of the graph in memory\<close>

definition rows_of_nodes :: "'v stmt_env \<Rightarrow> graph \<Rightarrow> table_leaf_cell list \<Rightarrow> bool" where
  "rows_of_nodes env g cells \<longleftrightarrow>
     (\<forall>cell \<in> set cells. \<exists>node. se_parse_node env (lc_payload cell) = Some node \<and> g_nodes g (gn_id node) = Some node)"

definition rows_of_edges :: "'v stmt_env \<Rightarrow> graph \<Rightarrow> table_leaf_cell list \<Rightarrow> graph_edge list \<Rightarrow> bool" where
  "rows_of_edges env g cells edges \<longleftrightarrow>
     list_all2 (\<lambda>cell edge. se_parse_edge env (lc_payload cell) = Some edge) cells edges \<and>
     (\<forall>edge \<in> set edges. g_edges g (ge_id edge) = Some edge)"

lemma restore_known_node:
  assumes "graph_ok g" "g_nodes g (gn_id node) = Some node"
  shows "restore_node node g = g"
proof -
  have "gn_id node \<in> dom (g_outgoing g)" "gn_id node \<in> dom (g_incoming g)"
    using assms unfolding graph_ok_def index_ok_def by blast+
  then obtain xs ys where "g_outgoing g (gn_id node) = Some xs" "g_incoming g (gn_id node) = Some ys" by blast
  then show ?thesis using assms(2) by (simp add: restore_node_def or_default_def fun_upd_idem)
qed

lemma restore_known_nodes: "graph_ok g \<Longrightarrow> rows_of_nodes env g cells \<Longrightarrow> restore_nodes env cells g = (Inr (), g)"
  by (induction cells) (auto simp: rows_of_nodes_def restore_known_node)

text \<open>Restoring an edge that is there appends it to both its adjacency lists.\<close>

definition appended :: "(graph_edge \<Rightarrow> u64) \<Rightarrow> graph_edge list \<Rightarrow> u64 \<Rightarrow> u64 list" where
  "appended near edges nid = map ge_id (filter (\<lambda>edge. near edge = nid) edges)"

lemma adjacent_push: "adjacent (push_to k x m) nid = adjacent m nid @ (if k = nid then [x] else [])"
  by (auto simp: adjacent_def push_to_def split: option.splits)

lemma restore_known_edges:
  assumes "rows_of_edges env g cells edges" "\<And>edge. edge \<in> set edges \<Longrightarrow> ge_id edge < g_next_edge_id g"
  shows "\<exists>g'. restore_edges env cells g = (Inr (), g') \<and> g_nodes g' = g_nodes g \<and> g_edges g' = g_edges g \<and>
    (\<forall>nid. adjacent (g_outgoing g') nid = adjacent (g_outgoing g) nid @ appended ge_from edges nid \<and>
       adjacent (g_incoming g') nid = adjacent (g_incoming g) nid @ appended ge_to edges nid)"
  using assms
proof (induction cells arbitrary: g edges)
  case Nil
  then show ?case by (simp add: rows_of_edges_def appended_def)
next
  case (Cons cell cells)
  then obtain edge es where e: "edges = edge # es" "se_parse_edge env (lc_payload cell) = Some edge"
    "list_all2 (\<lambda>cell edge. se_parse_edge env (lc_payload cell) = Some edge) cells es"
    by (cases edges) (auto simp: rows_of_edges_def)
  have known: "g_edges g (ge_id edge) = Some edge" "ge_id edge < g_next_edge_id g"
    using Cons.prems e(1) by (auto simp: rows_of_edges_def)
  define g1 where "g1 = g\<lparr>g_outgoing := push_to (ge_from edge) (ge_id edge) (g_outgoing g),
    g_incoming := push_to (ge_to edge) (ge_id edge) (g_incoming g)\<rparr>"
  have step: "restore_edge edge g = (Inr (), g1)"
    using known by (simp add: restore_edge_def g1_def not_le fun_upd_idem)
  have "rows_of_edges env g1 cells es" using Cons.prems(1) e by (simp add: rows_of_edges_def g1_def)
  moreover have "ge_id x < g_next_edge_id g1" if "x \<in> set es" for x using Cons.prems(2) e(1) that by (simp add: g1_def)
  ultimately obtain g' where "restore_edges env cells g1 = (Inr (), g')" "g_nodes g' = g_nodes g1" "g_edges g' = g_edges g1"
    "\<And>nid. adjacent (g_outgoing g') nid = adjacent (g_outgoing g1) nid @ appended ge_from es nid"
    "\<And>nid. adjacent (g_incoming g') nid = adjacent (g_incoming g1) nid @ appended ge_to es nid"
    using Cons.IH by blast
  then show ?case
    using e(1,2) step by (intro exI [of _ g']) (auto simp: bind_s_def g1_def adjacent_push appended_def)
qed

lemma appended_all:
  assumes "graph_ok g" "distinct edges" "set edges = ran (g_edges g)"
  shows "distinct (appended near edges nid)" "set (appended near edges nid) = edges_at near (g_edges g) nid"
proof -
  have ids: "g_edges g (ge_id edge) = Some edge" if "edge \<in> set edges" for edge
    using that assms by (auto simp: graph_ok_def edges_ok_def ran_def)
  have "inj_on ge_id (set edges)" by (rule inj_onI) (metis ids option.inject)
  then show "distinct (appended near edges nid)"
    using assms(2) by (auto simp: appended_def distinct_map intro: inj_on_subset)
  show "set (appended near edges nid) = edges_at near (g_edges g) nid"
  proof (intro set_eqI iffI)
    fix eid assume "eid \<in> set (appended near edges nid)"
    then obtain edge where "edge \<in> set edges" "near edge = nid" "eid = ge_id edge" by (auto simp: appended_def)
    then show "eid \<in> edges_at near (g_edges g) nid" using ids by (simp add: edges_at_def)
  next
    fix eid assume "eid \<in> edges_at near (g_edges g) nid"
    then obtain edge where e: "g_edges g eid = Some edge" "near edge = nid" by (auto simp: edges_at_def)
    then have "edge \<in> set edges" "ge_id edge = eid" using assms by (auto simp: ranI graph_ok_def edges_ok_def)
    then show "eid \<in> set (appended near edges nid)" using e(2) by (auto simp: appended_def)
  qed
qed

text \<open>In a correct graph each entry of an adjacency list is a neighbour.\<close>

lemma neighbor_count:
  assumes "graph_ok g" "set eids \<subseteq> edges_at ge_from (g_edges g) nid"
  shows "length (concat (map (check_edge g nid None) eids)) = length eids"
  using assms(2)
proof (induction eids)
  case (Cons eid eids)
  then obtain edge where edge: "g_edges g eid = Some edge" "ge_from edge = nid" by (auto simp: edges_at_def)
  then have "ge_to edge \<in> dom (g_nodes g)" using assms(1) by (auto simp: graph_ok_def edges_ok_def)
  then show ?case using Cons edge by (auto simp: check_edge_def)
qed simp

text \<open>C18: Reloading the graph after a failed statement, from the rows of the graph in memory, returns Ok and lists
  every edge once more: each node has twice as many outgoing neighbours as before.\<close>

theorem reload_doubles_neighbours:
  assumes "graph_ok g" "get_table (ex_catalog ex) ''__sys_graph_nodes'' = Some tn"
    "get_table (ex_catalog ex) ''__sys_graph_edges'' = Some te"
    "btree_scan (se_fuel env) (td_root_page tn) p = Some (Inr ncells, p1)" "rows_of_nodes env g ncells"
    "btree_scan (se_fuel env) (td_root_page te) p1 = Some (Inr ecells, p2)" "rows_of_edges env g ecells edges"
    "distinct edges" "set edges = ran (g_edges g)" "nid \<in> dom (g_nodes g)"
  shows "\<exists>g'. load_graph_from_disk env (p, ex, g) = Some (Inr (), p2, ex, g') \<and> g_nodes g' = g_nodes g \<and> g_edges g' = g_edges g \<and>
    length (neighbor_refs g' nid Outgoing None) = 2 * length (neighbor_refs g nid Outgoing None)"
proof -
  have low: "ge_id edge < g_next_edge_id g" if "edge \<in> set edges" for edge
    using that assms(1,9) by (auto simp: graph_ok_def edges_ok_def ran_def)
  obtain g' where g': "restore_edges env ecells g = (Inr (), g')" "g_nodes g' = g_nodes g" "g_edges g' = g_edges g"
    "adjacent (g_outgoing g') nid = adjacent (g_outgoing g) nid @ appended ge_from edges nid"
    using restore_known_edges [OF assms(7) low] by blast
  have old: "distinct (adjacent (g_outgoing g) nid)" "set (adjacent (g_outgoing g) nid) = edges_at ge_from (g_edges g) nid"
    using assms(1,10) by (auto simp: graph_ok_def index_ok_def)
  note new = appended_all [OF assms(1,8,9), of ge_from nid]
  have len: "length (appended ge_from edges nid) = length (adjacent (g_outgoing g) nid)"
    using old new by (metis distinct_card)
  have "check_edge g' nid None = check_edge g nid None" by (intro ext) (simp only: check_edge_def g'(2,3))
  then have "length (neighbor_refs g' nid Outgoing None) = 2 * length (neighbor_refs g nid Outgoing None)"
    using neighbor_count [OF assms(1), of _ nid] old(2) new(2) len by (simp add: neighbor_refs_def g'(4))
  moreover have "load_graph_from_disk env (p, ex, g) = Some (Inr (), p2, ex, g')"
    using assms(2-6) g'(1) restore_known_nodes [OF assms(1,5)]
    by (simp add: load_graph_from_disk_def load_rows_def with_catalog_def with_executor_def on_pager_def on_graph_def bind_o_def)
  ultimately show ?thesis using g'(2,3) by blast
qed

section \<open>The node of a failed statement\<close>

definition knows :: "u64 \<Rightarrow> graph \<Rightarrow> bool" where "knows nid g \<longleftrightarrow> g_nodes g nid \<noteq> None"

definition has_node :: "u64 \<Rightarrow> pager \<times> 'v session \<Rightarrow> bool" where
  "has_node nid s \<longleftrightarrow> knows nid (snd (snd s))"

named_theorems node_kept

lemma node_kept_basic [node_kept]:
  "keeps_o (has_node nid) (on_pager m)" "keeps_o (has_node nid) (on_executor n)" "keeps_o (has_node nid) (lift_o res)"
  by (auto simp: keeps_o_def has_node_def on_pager_def on_executor_def lift_o_def split: option.splits prod.splits)

lemma node_kept_look [node_kept]:
  "(\<And>cat. keeps_o (has_node nid) (m cat)) \<Longrightarrow> keeps_o (has_node nid) (with_catalog m)"
  by (auto simp: keeps_o_def with_catalog_def with_executor_def)

lemma node_kept_graph [node_kept]:
  "keeps (knows nid) m \<Longrightarrow> keeps_o (has_node nid) (on_graph m)"
  by (force simp: keeps_o_def keeps_def has_node_def on_graph_def split: prod.splits)

lemma restored_kept:
  "keeps (knows nid) (put_s (restore_node node))" "keeps (knows nid) (restore_edge edge)"
  by (auto simp: keeps_def knows_def restore_node_def restore_edge_def)

lemma restore_rows_kept [node_kept]:
  "keeps (knows nid) (restore_nodes env cells)" "keeps (knows nid) (restore_edges env cells)"
proof -
  show "keeps (knows nid) (restore_nodes env cells)"
    by (induction cells) (auto intro!: keeps_bind keeps_basic restored_kept split: option.split simp del: sm_simps bind_s_put)
  show "keeps (knows nid) (restore_edges env cells)"
    by (induction cells) (auto intro!: keeps_bind keeps_basic restored_kept split: option.split simp del: sm_simps bind_s_put)
qed

lemma node_kept_each [node_kept]:
  "(\<And>x. keeps_o (has_node nid) (f x)) \<Longrightarrow> keeps_o (has_node nid) (each_o f xs)"
  by (induction xs) (auto intro!: keeps_o_rules simp del: om_simps)

lemma node_kept_vectors [node_kept]: "keeps_o (has_node nid) (put_vectors key index)"
  unfolding put_vectors_def by (intro node_kept)

lemma node_kept_snapshots [node_kept]: "keeps_o (has_node nid) (load_snapshots env cat cells loaded)"
  by (induction cells arbitrary: loaded) (auto intro!: node_kept keeps_o_rules split: option.split simp del: om_simps)

lemma node_kept_rebuild [node_kept]: "keeps_o (has_node nid) (rebuild_vectors env loaded td)"
  unfolding rebuild_vectors_def by (intro node_kept keeps_o_rules)

lemma node_kept_at: "(\<And>p ex. keeps_o (has_node nid) (F p ex)) \<Longrightarrow> keeps_o (has_node nid) (\<lambda>(p, ex, g). F p ex (p, ex, g))"
  by (auto simp: keeps_o_def)

lemma node_kept_reload [node_kept]: "keeps_o (has_node nid) (reload_from_pager env)"
  unfolding reload_from_pager_def load_graph_from_disk_def load_rows_def load_vector_indexes_from_disk_def
  by (intro node_kept keeps_o_rules; rule node_kept_at; intro node_kept keeps_o_rules)

lemma node_kept_wrap [node_kept]:
  "keeps_o (has_node nid) m \<Longrightarrow> keeps_o (has_node nid) (catching m)"
  "keeps_o (has_node nid) m \<Longrightarrow> keeps_o (has_node nid) (ignoring m)" "keeps_o (has_node nid) (pager_step k)"
proof -
  show "keeps_o (has_node nid) (pager_step k)" unfolding pager_step_def by (intro node_kept)
qed (auto simp: keeps_o_def catching_def ignoring_def split: option.splits)

lemma node_kept_rolled: "keeps_o (has_node nid) (\<lambda>(p, st). (if c p then ignoring (pager_step k) else ret_o ()) (p, st))"
proof -
  have kept: "keeps_o (has_node nid) (ignoring (pager_step k))" by (intro node_kept)
  show ?thesis
    unfolding keeps_o_def
  proof (intro allI impI)
    fix s r s' assume "has_node nid s" "(case s of (p, st) \<Rightarrow> (if c p then ignoring (pager_step k) else ret_o ()) (p, st)) = Some (r, s')"
    then show "has_node nid s'" using keeps_oD [OF kept, of s] by (cases s) (auto split: if_splits)
  qed
qed

lemma node_kept_end [node_kept]:
  "keeps_o (has_node nid) (statement_done env own sp val)" "keeps_o (has_node nid) (statement_failed env own sp e)"
  unfolding statement_done_def statement_failed_def by (intro node_kept keeps_o_rules node_kept_rolled)+

text \<open>C19: A node insertion that starts puts the node into the graph in memory, and it stays there, also when the
  statement fails and its rows are rolled back.\<close>

theorem failed_node_insert_stays:
  assumes "execute_mutation env (GraphInsertNode nid lbl props) = Some run" "run (p, ex, g) = Some (r, p', ex', g')"
    "pg_tx p = None" "begin_transaction p = (Inr (), p0)"
  shows "g_nodes g' nid \<noteq> None"
proof -
  define op where "op = graph_insert_node env nid lbl props"
  have run: "run = atomic_statement env op" using assms(1) by (auto simp: execute_mutation_def execute_inner_def op_def)
  obtain r1 s1 where op: "op (p0, ex, g) = Some (r1, s1)"
    "(if r1 = Inl Panic then r = Inl Panic \<and> s1 = (p', ex', g')
      else (case r1 of Inr val \<Rightarrow> statement_done env True (statement_savepoint p) val
           | Inl e \<Rightarrow> statement_failed env True (statement_savepoint p) e) s1 = Some (r, p', ex', g'))"
    using assms(2-4) unfolding run
    by (cases "op (p0, ex, g)")
      (auto simp: atomic_statement_def pager_step_def on_pager_def catching_def bind_o_def Let_def is_in_transaction_def
        split: sum.splits if_splits)
  let ?node = "\<lparr>gn_id = nid, gn_label = lbl, gn_properties = props, gn_vector = None\<rparr>"
  have put: "on_graph (put_s (restore_node ?node)) (p0, ex, g) = Some (Inr (), p0, ex, restore_node ?node g)"
    by (simp add: on_graph_def)
  have "bind_o (persist_graph_node env ?node) (\<lambda>_. ret_o 1) (p0, ex, restore_node ?node g) = Some (r1, s1)"
    using op(1) unfolding op_def graph_insert_node_def Let_def
    by (simp add: bind_o_Some [of "on_graph (put_s (restore_node ?node))", OF put])
  moreover have "keeps_o (has_node nid) (bind_o (persist_graph_node env ?node) (\<lambda>_. ret_o (1 :: nat)))"
    unfolding persist_graph_node_def system_root_def put_row_def by (intro node_kept keeps_o_rules)
  moreover have "has_node nid (p0, ex, restore_node ?node g)" by (simp add: has_node_def knows_def restore_node_def)
  ultimately have s1: "has_node nid s1" using keeps_oD by metis
  have "has_node nid (p', ex', g')"
  proof (cases "r1 = Inl Panic")
    case False
    have "keeps_o (has_node nid) (case r1 of Inr val \<Rightarrow> statement_done env True (statement_savepoint p) val
        | Inl e \<Rightarrow> statement_failed env True (statement_savepoint p) e)"
      by (intro node_kept keeps_o_rules)
    from keeps_oD [OF this s1] show ?thesis using op(2) False by simp
  qed (use op(2) s1 in simp)
  then show ?thesis by (simp add: has_node_def knows_def)
qed

section \<open>Examples\<close>

text \<open>Two nodes and an edge, and a page whose one row is read as the first node and as the edge.\<close>

definition pair_graph :: graph where "pair_graph = with_edge 1 2 (with_node 2 (with_node 1 graph_new))"

definition pair_env :: "unit stmt_env" where
  "pair_env = rest_env\<lparr>se_parse_node := \<lambda>_. Some (node_of 1), se_parse_edge := \<lambda>_. Some (edge_of 1 1 2)\<rparr>"

definition pair_ex :: "unit executor" where
  "pair_ex = sample_ex\<lparr>ex_catalog := catalog_new\<lparr>c_tables :=
     [''__sys_graph_nodes'' \<mapsto> table_def_new ''__sys_graph_nodes'' 1 payload_columns,
      ''__sys_graph_edges'' \<mapsto> table_def_new ''__sys_graph_edges'' 1 payload_columns]\<rparr>\<rparr>"

lemma pair_graph_ok: "graph_ok pair_graph"
  unfolding pair_graph_def by (intro reachable_ok reachable_with graph_reachable.start)

lemma pair_graph_eq:
  "pair_graph = \<lparr>g_nodes = [1 \<mapsto> node_of 1, 2 \<mapsto> node_of 2], g_edges = [1 \<mapsto> edge_of 1 1 2],
     g_outgoing = [1 \<mapsto> [1], 2 \<mapsto> []], g_incoming = [1 \<mapsto> [], 2 \<mapsto> [1]], g_next_edge_id = 2\<rparr>"
  by (simp add: pair_graph_def with_node_def with_edge_def add_node_def add_node_with_vector_def add_edge_def
      graph_new_def node_of_def edge_of_def or_default_def push_to_def Let_def fun_eq_iff)

lemma pair_scan:
  assumes "writable p" "page_view p = page_view schema_pager" "page_size p = page_size schema_pager"
  shows "\<exists>p'. btree_scan 3 1 p = Some (Inr [schema_cell], p') \<and> writable p' \<and> page_view p' = page_view schema_pager \<and>
    page_size p' = page_size schema_pager"
proof -
  have "tree_ok (page_view p) (BLeaf 1 [schema_cell])" using schema_leaf by (simp add: assms(2))
  moreover have "rows_readable p 0 [schema_cell]" by (simp add: rows_readable_def row_bytes_def schema_cell_def)
  moreover have "whole_cell p 0 schema_cell = schema_cell" by (simp add: whole_cell_def row_of_def row_bytes_def schema_cell_def)
  ultimately show ?thesis
    using btree_scan_view [OF assms(1), of "BLeaf 1 [schema_cell]" 0 3] assms(2,3) by (auto simp: same_shape_def)
qed

theorem reload_doubles_neighbours_witness:
  "\<exists>p' g'. load_graph_from_disk pair_env (schema_pager, pair_ex, pair_graph) = Some (Inr (), p', pair_ex, g') \<and>
     length (neighbor_refs pair_graph 1 Outgoing None) = 1 \<and> length (neighbor_refs g' 1 Outgoing None) = 2"
proof -
  obtain p1 where p1: "btree_scan 3 1 schema_pager = Some (Inr [schema_cell], p1)" "writable p1"
    "page_view p1 = page_view schema_pager" "page_size p1 = page_size schema_pager"
    using pair_scan [OF schema_pager_writable] by auto
  obtain p2 where p2: "btree_scan 3 1 p1 = Some (Inr [schema_cell], p2)" using pair_scan [OF p1(2-4)] by auto
  have fuel: "se_fuel pair_env = 3" by (simp add: pair_env_def rest_env_def sample_env_def)
  have one: "length (neighbor_refs pair_graph 1 Outgoing None) = 1"
    by (simp add: neighbor_refs_def check_edge_def adjacent_def pair_graph_eq edge_of_def)
  have "\<exists>g'. load_graph_from_disk pair_env (schema_pager, pair_ex, pair_graph) = Some (Inr (), p2, pair_ex, g') \<and>
      g_nodes g' = g_nodes pair_graph \<and> g_edges g' = g_edges pair_graph \<and>
      length (neighbor_refs g' 1 Outgoing None) = 2 * length (neighbor_refs pair_graph 1 Outgoing None)"
  proof (rule reload_doubles_neighbours [OF pair_graph_ok])
    show "get_table (ex_catalog pair_ex) ''__sys_graph_nodes'' = Some (table_def_new ''__sys_graph_nodes'' 1 payload_columns)"
      "get_table (ex_catalog pair_ex) ''__sys_graph_edges'' = Some (table_def_new ''__sys_graph_edges'' 1 payload_columns)"
      by (simp_all add: pair_ex_def get_table_def)
    show "btree_scan (se_fuel pair_env) (td_root_page (table_def_new ''__sys_graph_nodes'' 1 payload_columns)) schema_pager =
        Some (Inr [schema_cell], p1)"
      "btree_scan (se_fuel pair_env) (td_root_page (table_def_new ''__sys_graph_edges'' 1 payload_columns)) p1 =
        Some (Inr [schema_cell], p2)"
      using p1(1) p2 by (simp_all add: fuel table_def_new_def)
    show "rows_of_nodes pair_env pair_graph [schema_cell]" "rows_of_edges pair_env pair_graph [schema_cell] [edge_of 1 1 2]"
      by (simp_all add: rows_of_nodes_def rows_of_edges_def pair_env_def pair_graph_eq node_of_def edge_of_def)
    show "set [edge_of 1 1 2] = ran (g_edges pair_graph)" "1 \<in> dom (g_nodes pair_graph)" by (simp_all add: pair_graph_eq)
  qed simp
  then show ?thesis using one by auto
qed

text \<open>The table of the nodes cannot be written: the statement fails, no page changes, the node stays.\<close>

lemma rest_insert_node:
  assumes "writable p0" "page_size p0 = 179" "total_pages p0 = 1" "dh_freelist_count (pg_header p0) = 0"
  shows "\<exists>p1 st1. graph_insert_node rest_env 7 ''P'' [] (p0, rest_session) =
    Some (Inl (Corrupted ''Failed to serialize table def: {e}''), p1, st1)"
proof -
  obtain p1 where p1: "new_root sample_env p0 = Some (Inr 2, p1)" using rest_new_root [OF assms] by blast
  then show ?thesis
    by (simp add: graph_insert_node_def persist_graph_node_def system_root_def ensure_system_table_def rest_session_def
        get_table_def catalog_new_def rest_env_def on_graph_def on_pager_def bind_o_def on_executor_def on_catalog_def
        create_table_def store_new_def take_id_def sample_env_def sample_codec_def sample_table_def table_def_new_def
        payload_columns_def Let_def)
qed

theorem failed_node_insert_stays_witness:
  "\<exists>run e p' ex' g'. execute_mutation rest_env (GraphInsertNode 7 ''P'' []) = Some run \<and>
     run (rest_pager, rest_session) = Some (Inl e, p', ex', g') \<and>
     (\<forall>pid. pid \<noteq> 1 \<longrightarrow> page_view p' pid = page_view rest_pager pid) \<and> g_nodes g' 7 \<noteq> None"
proof -
  obtain p0 where p0: "begin_transaction rest_pager = (Inr (), p0)" "writable p0" "page_size p0 = 179" "total_pages p0 = 1"
    "dh_freelist_count (pg_header p0) = 0" by (rule rest_begin)
  let ?op = "graph_insert_node rest_env 7 ''P'' []"
  obtain p1 st1 where op: "?op (p0, rest_session) = Some (Inl (Corrupted ''Failed to serialize table def: {e}''), p1, st1)"
    using rest_insert_node [OF p0(2-5)] by blast
  have inner: "execute_inner rest_env (GraphInsertNode 7 ''P'' []) = Some ?op" by (simp add: execute_inner_def)
  then have mut: "execute_mutation rest_env (GraphInsertNode 7 ''P'' []) = Some (atomic_statement rest_env ?op)"
    by (simp add: execute_mutation_def)
  obtain r p' ex' g' where run: "atomic_statement rest_env ?op (rest_pager, rest_session) = Some (r, p', ex', g')"
    using rest_failing_run [OF inner p0(1) op] by auto
  have rest: "(\<exists>e'. r = Inl e') \<and> at_rest rest_pager (patch_header (se_crc rest_env) (pg_header rest_pager) rest_page) p'"
    by (rule atomic_undone [OF rest_settled _ rest_page_header execute_inner_kept [OF inner] p0(1) op _ run]) simp_all
  have "g_nodes g' 7 \<noteq> None"
    by (rule failed_node_insert_stays [OF mut run [unfolded rest_session_def] _ p0(1)]) simp
  then show ?thesis using rest at_rest_view [OF rest_settled] mut run by blast
qed

end
