(* ===== verification/Spec2Isabelle.thy ===== *)
theory Spec2Isabelle
  imports Micro_Props Pager_Commit Row_Codec Btree_Split_Props Btree_Overflow Graph_Path Sql_Lexer_Props Sql_Bind
    Sql_Parse_Total Sql_Where Sql_Eval_Props Sql_Coerce Sql_Insert_Props Sql_Reload
begin

text \<open>
  A verification development for TapirusDB, an embedded database written in Rust: one file of
  pages, a write-ahead log beside it, B+trees of rows over the pages, and a record store for
  microcontrollers.

  \<^bold>\<open>How the parts interact.\<close> The tree engine (\<^verbatim>\<open>src/src/btree/engine.rs\<close>) works on pages it reads and
  writes through the pager (\<^verbatim>\<open>src/src/pager/mod.rs\<close>). The pager caches pages, keeps undo images
  while a transaction is open, and at a commit appends the changed pages to the log
  (\<^verbatim>\<open>src/src/pager/wal.rs\<close>); a checkpoint copies the log into the file. All file accesses go
  through a fault-injecting layer (\<^verbatim>\<open>src/src/pager/fault.rs\<close>). Rows are byte strings that
  \<^verbatim>\<open>src/src/sql/codec.rs\<close> encodes; stored pages may be compressed
  (\<^verbatim>\<open>src/src/pager/compression.rs\<close>). The microcontroller store
  (\<^verbatim>\<open>src/crates/tapirus-micro\<close>) is a program of its own.

  \<^bold>\<open>Theories and what they model.\<close>
  \<^item> \<open>Prelude\<close>, \<open>State_Result\<close>, \<open>Codec_Contract\<close>: checked slices and byte order, results with errors
    (a Rust panic is the error \<open>Panic\<close>), state passing, loops with fuel, and the interface
    \<open>prefix_codec\<close> of decoders that consume a prefix, with three interpretations.
  \<^item> \<open>Varint\<close>, \<open>Page_Format\<close>, \<open>Db_Header\<close>, \<open>Row_Codec\<close>, \<open>Lz4\<close>: the byte formats
    (\<^verbatim>\<open>btree/varint.rs\<close>, \<^verbatim>\<open>btree/mod.rs\<close>, \<^verbatim>\<open>pager/mod.rs\<close>, \<^verbatim>\<open>sql/codec.rs\<close>,
    \<^verbatim>\<open>pager/compression.rs\<close>), each with round trips and its behaviour on bad input.
  \<^item> \<open>Page_Ops\<close>: every operation on one slotted page. \<open>Page_Layout\<close> takes pages apart (\<open>page_repr\<close>,
    \<open>cells_repr\<close>), \<open>Page_Insert\<close> and \<open>Interior_Insert\<close> prove that insertion and deletion refine
    operations on sorted cell lists.
  \<^item> \<open>Storage_Io\<close>, \<open>Wal\<close>: files with a cursor, fault plans, buffered writes, and the log. \<open>Wal_Scan\<close>,
    \<open>Wal_Recovery\<close>, \<open>Wal_Checkpoint\<close>, \<open>Wal_Props\<close>: what opening, appending, rolling back,
    checkpointing and recovering do to the committed pages, also under a fault or a crash at any byte.
  \<^item> \<open>Pager\<close>, \<open>Pager_Tx\<close>: cache, LRU list, free list, transactions, savepoints, opening and exports.
    \<open>Pager_Lru\<close> refines the linked list to a list of pages; \<open>Pager_Rollback\<close>, \<open>Pager_Steps\<close> carry the
    undo invariant through every step of a transaction; \<open>Pager_Commit\<close> is about commits and evictions;
    \<open>Pager_View\<close> is the abstract view of the pager as a map of pages.
  \<^item> \<open>Btree_Engine\<close>: overflow chains, search, insertion with splits, scans and deletion. \<open>Btree_Tree\<close>
    states when pages hold a tree of rows; \<open>Btree_Search\<close> (with the interface \<open>tree_scanner\<close>,
    interpreted by both scans), \<open>Btree_Update\<close>, \<open>Btree_Split\<close>, \<open>Btree_Overflow\<close> carry the
    operations over the view; \<open>Btree_Props\<close> and \<open>Btree_Split_Props\<close> state the properties.
  \<^item> \<open>Graph_Store\<close>, \<open>Graph_Walks\<close>: the property graph of \<^verbatim>\<open>src/src/graph/mod.rs\<close> and its searches.
    \<open>Graph_Inv\<close> has its invariant over the step relation \<open>graph_step\<close>; \<open>Graph_Search\<close> is breadth-first
    search as an interface (\<open>breadth_first\<close>), which \<open>Graph_Path\<close> interprets by the shortest-path search.
  \<^item> \<open>Sql_Token\<close>, \<open>Sql_Lexer\<close>, \<open>Sql_Print\<close>: tokens, the tokenizer (\<^verbatim>\<open>sql/lexer.rs\<close>), values, the binding of
    parameters and the printer of tokens; \<open>Sql_Lexer_Props\<close> reads printed tokens back, \<open>Sql_Bind\<close> says
    what binding does. \<open>Sql_Ast\<close>, \<open>Sql_Parse_Base\<close>, \<open>Sql_Parse_Columns\<close>, \<open>Sql_Parse_Query\<close>, \<open>Sql_Parser\<close>,
    \<open>Sql_Statement\<close>: the statements and every function of the parser \<^verbatim>\<open>sql/parser.rs\<close>.
    \<open>Sql_Parse_Total\<close> follows the progress of each (\<open>good\<close>) to show that the parser returns and does not
    panic; \<open>Sql_Where\<close> reads printed conditions back.
  \<^item> \<open>Sql_Eval\<close>: comparison of values, \<^verbatim>\<open>LIKE\<close>, conditions on a row and the posting lists of indexes
    (\<^verbatim>\<open>traits.rs\<close>, \<^verbatim>\<open>sql/executor.rs\<close>). \<open>Sql_Like\<close> proves the matcher against what a pattern means,
    \<open>Sql_Eval_Props\<close> has the logic of conditions and the refinement of posting lists.
  \<^item> \<open>Sql_Catalog\<close>: \<^verbatim>\<open>sql/catalog.rs\<close>, with \<^verbatim>\<open>serde_json\<close> as the argument \<open>schema_codec\<close>.
    \<open>Sql_Catalog_Props\<close> has the invariant of the catalog over the step relation \<open>catalog_reach\<close>,
    \<open>Sql_Catalog_Load\<close> what loading restores, \<open>Sql_Coerce\<close> what a column accepts.
  \<^item> \<open>Sql_Dml\<close>: insertion, update and deletion of rows (\<^verbatim>\<open>sql/executor.rs\<close>), over the pager and the state
    of the executor. \<open>Sql_Insert_Props\<close> follows an insertion down to the tree of its table.
  \<^item> \<open>Sql_Execute\<close>: the statements that change the database, the transaction or savepoint around each
    (\<^verbatim>\<open>atomic_statement\<close>) and the reload after an error. \<open>Btree_Undo\<close>, \<open>Sql_Undo\<close>, \<open>Sql_Undo_Rows\<close> compose
    the undo invariant over all code that such a statement may run (the collection \<open>undo_kept\<close>);
    \<open>Sql_Atomic\<close> concludes that a failing statement changes no page, \<open>Sql_Reload\<close> shows what the reload
    does to the graph in memory.
  \<^item> \<open>Capsule\<close>, \<open>Micro_Flash\<close>, \<open>Micro_Store\<close>, \<open>Micro_Props\<close>: transport capsules and the flash record
    store. The board is an argument whose documented laws are the interface \<open>flash_device\<close>; the
    simulated board of the crate's tests interprets it.

  \<^bold>\<open>Conventions.\<close> Records and datatypes carry the source's names; functions that clash with the library
  have a prefix. \<^verbatim>\<open>usize\<close> values are naturals with the 64-bit bound written out where it can be passed
  (\<open>usize_add\<close>); other integers are words. Format strings of error messages stand for the formatted
  text. The checksum function is an argument (\<open>crc_fun\<close>); hash maps are maps. SQL texts have characters
  with codes below 256; the parsing, printing and conversion of floating-point numbers is an argument
  (\<open>float_env\<close>). The parser's loops over items, which the source writes out each time, are shared
  definitions (\<open>comma_loop\<close>, \<open>comma_while\<close>, \<open>closed_list\<close>).

  \<^bold>\<open>Fuel.\<close> The walks over page numbers stored in pages (\<open>btree_search\<close>, \<open>insert_into_subtree\<close>, the scans,
  \<open>delete_from_subtree\<close>, \<open>read_chain\<close>, \<open>free_chain\<close>) take fuel because nothing keeps the links from
  forming a cycle; \<open>None\<close> is a run that has not returned. The theorems give enough fuel: the height of
  the tree plus the length of the longest chain. \<open>LRU_FUEL\<close> is above the number of pages a 32-bit
  page number can name. The parser takes fuel for its loops and its recursion; the number of tokens and
  three more is enough (\<open>parse_sql_total\<close>). Its stack depth is not bounded by the source and not
  modelled. Other loops end by a measure.

  \<^bold>\<open>Assumptions of the tree theorems.\<close> The pager is inside a transaction and its log usable (\<open>writable\<close>);
  the pages of the tree are not page 1; for steps that allocate, the free list is empty and the file
  has page numbers left. Deletion and replacement of rows with an overflow chain are modelled but not
  covered by a theorem.

  \<^bold>\<open>Not modelled.\<close> Lock files, processes and paths of the pager; SQL queries, PRAGMA, VACUUM and ANALYZE,
  graph algorithms on floating-point weights, vector indexes, agent memory, models, documents, change streams, sessions, remote transport
  and the command-line programs; see the component list of the manifest for the reasons.
\<close>

end
